(* ===== verification/Walstream_Prelude.thy ===== *)
theory Walstream_Prelude
  imports
    Main
    "HOL-Library.Word"
    "HOL-Library.Char_ord"
    "HOL-Library.List_Lexorder"
    "HOL-Library.Product_Lexorder"
begin

text \<open>
  Shared vocabulary of the development: the machine integers of the Rust source, the
  \<open>Result\<close> type with the question-mark operator, state-passing computations that can
  fail, string helpers of the standard library, and the ordered map that stands for
  \<open>BTreeMap\<close>. Nothing here is specific to one component.
\<close>

named_theorems result_simps \<open>rewriting of results and fallible computations\<close>
named_theorems range_simps \<open>unfolding of machine-integer ranges\<close>

section \<open>Machine integers\<close>

text \<open>
  Signed integers are \<open>int\<close> and unsigned ones \<open>nat\<close>, with the width written out at every
  operation that can leave the range: \<open>checked_add\<close> returns \<open>None\<close> and the unchecked
  operators of a release build wrap. Bit-level code uses words instead.
  \<open>usize\<close> is 64 bits wide; lengths of collections that exist in memory are plain \<open>nat\<close>.
\<close>

type_synonym byte = "8 word"
type_synonym bytes = "byte list"

definition i16_max :: int where "i16_max = 32767"
definition i32_max :: int where "i32_max = 2147483647"
definition i64_max :: int where "i64_max = 9223372036854775807"
definition u32_max :: nat where "u32_max = 4294967295"
definition u64_max :: nat where "u64_max = 18446744073709551615"

definition in_i16 :: "int \<Rightarrow> bool" where
  "in_i16 x \<longleftrightarrow> - i16_max - 1 \<le> x \<and> x \<le> i16_max"
definition in_i32 :: "int \<Rightarrow> bool" where
  "in_i32 x \<longleftrightarrow> - i32_max - 1 \<le> x \<and> x \<le> i32_max"
definition in_i64 :: "int \<Rightarrow> bool" where
  "in_i64 x \<longleftrightarrow> - i64_max - 1 \<le> x \<and> x \<le> i64_max"

lemmas max_defs = i16_max_def i32_max_def i64_max_def u32_max_def u64_max_def
lemmas in_range_defs [range_simps] = in_i16_def in_i32_def in_i64_def max_defs

definition checked_add_i32 :: "int \<Rightarrow> int \<Rightarrow> int option" where
  "checked_add_i32 a b = (if in_i32 (a + b) then Some (a + b) else None)"
definition checked_add_i64 :: "int \<Rightarrow> int \<Rightarrow> int option" where
  "checked_add_i64 a b = (if in_i64 (a + b) then Some (a + b) else None)"
definition checked_sub_i64 :: "int \<Rightarrow> int \<Rightarrow> int option" where
  "checked_sub_i64 a b = (if in_i64 (a - b) then Some (a - b) else None)"
definition checked_add_u64 :: "nat \<Rightarrow> nat \<Rightarrow> nat option" where
  "checked_add_u64 a b = (if a + b \<le> u64_max then Some (a + b) else None)"
definition checked_mul_u64 :: "nat \<Rightarrow> nat \<Rightarrow> nat option" where
  "checked_mul_u64 a b = (if a * b \<le> u64_max then Some (a * b) else None)"
definition checked_pow_u64 :: "nat \<Rightarrow> nat \<Rightarrow> nat option" where
  "checked_pow_u64 a n = (if a ^ n \<le> u64_max then Some (a ^ n) else None)"

lemma in_i64_le: "in_i64 n \<Longrightarrow> 0 \<le> x \<Longrightarrow> x \<le> n \<Longrightarrow> in_i64 x"
  unfolding range_simps by linarith

lemma in_i64_pred: "in_i64 n \<Longrightarrow> 0 \<le> n \<Longrightarrow> in_i64 (n - 1)"
  unfolding range_simps by linarith

text \<open>Unchecked signed arithmetic wraps modulo the width.\<close>

definition wrap_i32 :: "int \<Rightarrow> int" where
  "wrap_i32 x = (x + 2147483648) mod 4294967296 - 2147483648"
definition wrap_i64 :: "int \<Rightarrow> int" where
  "wrap_i64 x = (x + 9223372036854775808) mod 18446744073709551616 - 9223372036854775808"

lemma wrap_i32_id [simp]: "in_i32 x \<Longrightarrow> wrap_i32 x = x"
  by (simp add: wrap_i32_def range_simps)

lemma wrap_i64_id [simp]: "in_i64 x \<Longrightarrow> wrap_i64 x = x"
  by (simp add: wrap_i64_def range_simps)

lemma wrap_i32_in_i32 [simp]: "in_i32 (wrap_i32 x)"
proof -
  have "0 \<le> (x + 2147483648) mod 4294967296" "(x + 2147483648) mod 4294967296 < 4294967296"
    by simp_all
  then show ?thesis unfolding wrap_i32_def range_simps by linarith
qed

lemma wrap_i64_in_i64 [simp]: "in_i64 (wrap_i64 x)"
proof -
  have "0 \<le> (x + 9223372036854775808) mod 18446744073709551616"
    "(x + 9223372036854775808) mod 18446744073709551616 < 18446744073709551616"
    by simp_all
  then show ?thesis unfolding wrap_i64_def range_simps by linarith
qed

lemma checked_add_i64_Some [simp]:
  "checked_add_i64 a b = Some c \<longleftrightarrow> c = a + b \<and> in_i64 (a + b)"
  by (auto simp: checked_add_i64_def)

lemma checked_add_i64_None [simp]: "checked_add_i64 a b = None \<longleftrightarrow> \<not> in_i64 (a + b)"
  by (auto simp: checked_add_i64_def)

lemma checked_add_i32_Some [simp]:
  "checked_add_i32 a b = Some c \<longleftrightarrow> c = a + b \<and> in_i32 (a + b)"
  by (auto simp: checked_add_i32_def)

lemma checked_add_i32_None [simp]: "checked_add_i32 a b = None \<longleftrightarrow> \<not> in_i32 (a + b)"
  by (auto simp: checked_add_i32_def)

lemma checked_sub_i64_Some [simp]:
  "checked_sub_i64 a b = Some c \<longleftrightarrow> c = a - b \<and> in_i64 (a - b)"
  by (auto simp: checked_sub_i64_def)

lemma checked_sub_i64_None [simp]: "checked_sub_i64 a b = None \<longleftrightarrow> \<not> in_i64 (a - b)"
  by (auto simp: checked_sub_i64_def)

lemma checked_add_u64_Some [simp]:
  "checked_add_u64 a b = Some c \<longleftrightarrow> c = a + b \<and> a + b \<le> u64_max"
  by (auto simp: checked_add_u64_def)

lemma checked_add_u64_None [simp]: "checked_add_u64 a b = None \<longleftrightarrow> u64_max < a + b"
  by (auto simp: checked_add_u64_def)

lemma checked_mul_u64_Some [simp]:
  "checked_mul_u64 a b = Some c \<longleftrightarrow> c = a * b \<and> a * b \<le> u64_max"
  by (auto simp: checked_mul_u64_def)

lemma checked_mul_u64_None [simp]: "checked_mul_u64 a b = None \<longleftrightarrow> u64_max < a * b"
  by (auto simp: checked_mul_u64_def)

section \<open>Results\<close>

text \<open>
  A fallible function returns \<open>'e + 'a\<close>, \<open>Inl\<close> for \<open>Err\<close> and \<open>Inr\<close> for \<open>Ok\<close>.
  \<open>attempt m k\<close> is \<open>let x = m?; k x\<close>: the first error ends the function.
\<close>

definition attempt :: "'e + 'a \<Rightarrow> ('a \<Rightarrow> 'e + 'b) \<Rightarrow> 'e + 'b" where
  "attempt m k = (case m of Inl e \<Rightarrow> Inl e | Inr x \<Rightarrow> k x)"

definition ensure :: "bool \<Rightarrow> 'e \<Rightarrow> 'e + unit" where
  "ensure b e = (if b then Inr () else Inl e)"

definition ok_or :: "'a option \<Rightarrow> 'e \<Rightarrow> 'e + 'a" where
  "ok_or m e = (case m of None \<Rightarrow> Inl e | Some x \<Rightarrow> Inr x)"

definition map_err :: "('e \<Rightarrow> 'f) \<Rightarrow> 'e + 'a \<Rightarrow> 'f + 'a" where
  "map_err f m = (case m of Inl e \<Rightarrow> Inl (f e) | Inr x \<Rightarrow> Inr x)"

lemma attempt_simps [simp]:
  "attempt (Inl e) k = Inl e" "attempt (Inr x) k = k x"
  by (simp_all add: attempt_def)

lemma attempt_Inr_iff [result_simps]:
  "attempt m k = Inr y \<longleftrightarrow> (\<exists>x. m = Inr x \<and> k x = Inr y)"
  by (auto simp: attempt_def split: sum.splits)

lemma attempt_Inl_iff [result_simps]:
  "attempt m k = Inl e \<longleftrightarrow> m = Inl e \<or> (\<exists>x. m = Inr x \<and> k x = Inl e)"
  by (auto simp: attempt_def split: sum.splits)

lemma attempt_cong [fundef_cong]:
  "m = m' \<Longrightarrow> (\<And>x. m' = Inr x \<Longrightarrow> k x = k' x) \<Longrightarrow> attempt m k = attempt m' k'"
  by (auto simp: attempt_def split: sum.splits)

lemma ensure_simps [simp]:
  "ensure b e = Inr u \<longleftrightarrow> b" "ensure b e = Inl e' \<longleftrightarrow> \<not> b \<and> e' = e"
  "ensure True e = Inr ()" "ensure False e = Inl e"
  by (auto simp: ensure_def)

lemma ok_or_simps [simp]:
  "ok_or None e = Inl e" "ok_or (Some x) e = Inr x"
  "ok_or m e = Inr x \<longleftrightarrow> m = Some x" "ok_or m e = Inl e' \<longleftrightarrow> m = None \<and> e' = e"
  by (auto simp: ok_or_def split: option.splits)

lemma map_err_simps [simp]:
  "map_err f (Inr x) = Inr x" "map_err f (Inl e) = Inl (f e)"
  "map_err f m = Inr x \<longleftrightarrow> m = Inr x"
  by (auto simp: map_err_def split: sum.splits)

text \<open>The first error of a list of checks, in order.\<close>

fun try_all :: "('a \<Rightarrow> 'e + unit) \<Rightarrow> 'a list \<Rightarrow> 'e + unit" where
  "try_all f [] = Inr ()"
| "try_all f (x # xs) = attempt (f x) (\<lambda>_. try_all f xs)"

lemma try_all_Inr [result_simps]: "try_all f xs = Inr u \<longleftrightarrow> (\<forall>x \<in> set xs. f x = Inr ())"
  by (induction xs) (auto simp: result_simps)

section \<open>State-passing computations\<close>

text \<open>
  A computation over the outside world takes the world's state and returns its result
  with the new state. \<open>io_bind\<close> is \<open>.await?\<close>: an error ends the computation and keeps
  the effects made so far.
\<close>

type_synonym ('s, 'e, 'a) io = "'s \<Rightarrow> ('e + 'a) \<times> 's"

definition io_ret :: "'a \<Rightarrow> ('s, 'e, 'a) io" where
  "io_ret x s = (Inr x, s)"

definition io_err :: "'e \<Rightarrow> ('s, 'e, 'a) io" where
  "io_err e s = (Inl e, s)"

definition io_lift :: "'e + 'a \<Rightarrow> ('s, 'e, 'a) io" where
  "io_lift r s = (r, s)"

definition io_bind :: "('s, 'e, 'a) io \<Rightarrow> ('a \<Rightarrow> ('s, 'e, 'b) io) \<Rightarrow> ('s, 'e, 'b) io" where
  "io_bind m k s = (case m s of (Inl e, s') \<Rightarrow> (Inl e, s') | (Inr x, s') \<Rightarrow> k x s')"

definition io_map_err :: "('e \<Rightarrow> 'f) \<Rightarrow> ('s, 'e, 'a) io \<Rightarrow> ('s, 'f, 'a) io" where
  "io_map_err f m s = (case m s of (r, s') \<Rightarrow> (map_err f r, s'))"

text \<open>The result of a computation as a value, for code that matches on it.\<close>

definition io_try :: "('s, 'e, 'a) io \<Rightarrow> ('s, 'f, 'e + 'a) io" where
  "io_try m s = (case m s of (r, s') \<Rightarrow> (Inr r, s'))"

lemma io_simps [simp]:
  "io_ret x s = (Inr x, s)" "io_err e s = (Inl e, s)" "io_lift r s = (r, s)"
  by (simp_all add: io_ret_def io_err_def io_lift_def)

lemma io_bind_simps [simp]:
  "m s = (Inr x, s') \<Longrightarrow> io_bind m k s = k x s'"
  "m s = (Inl e, s') \<Longrightarrow> io_bind m k s = (Inl e, s')"
  by (simp_all add: io_bind_def)

lemma io_bind_ret [simp]: "io_bind (io_ret x) k = k x"
  by (rule ext) (simp add: io_bind_def)

lemma io_bind_err [simp]: "io_bind (io_err e) k = io_err e"
  by (rule ext) (simp add: io_bind_def)

lemma io_bind_lift: "io_bind (io_lift r) k s = (case r of Inl e \<Rightarrow> (Inl e, s) | Inr x \<Rightarrow> k x s)"
  by (simp add: io_bind_def split: sum.splits)

lemma io_bind_Inr_iff [result_simps]:
  "io_bind m k s = (Inr y, t) \<longleftrightarrow> (\<exists>x s'. m s = (Inr x, s') \<and> k x s' = (Inr y, t))"
  by (auto simp: io_bind_def split: prod.splits sum.splits)

lemma io_bind_Inl_iff [result_simps]:
  "io_bind m k s = (Inl e, t) \<longleftrightarrow>
     m s = (Inl e, t) \<or> (\<exists>x s'. m s = (Inr x, s') \<and> k x s' = (Inl e, t))"
  by (auto simp: io_bind_def split: prod.splits sum.splits)

lemma io_bind_cong [fundef_cong]:
  "m s = m' s' \<Longrightarrow> (\<And>x t. m' s' = (Inr x, t) \<Longrightarrow> k x t = k' x t) \<Longrightarrow>
   io_bind m k s = io_bind m' k' s'"
  by (auto simp: io_bind_def split: prod.splits sum.splits)

lemma io_map_err_iff [result_simps]:
  "io_map_err f m s = (Inr x, t) \<longleftrightarrow> m s = (Inr x, t)"
  "io_map_err f m s = (Inl e, t) \<longleftrightarrow> (\<exists>e'. m s = (Inl e', t) \<and> e = f e')"
  by (auto simp: io_map_err_def map_err_def split: prod.splits sum.splits)

lemma io_try_iff [result_simps]:
  "io_try m s = (Inr r, t) \<longleftrightarrow> m s = (r, t)" "io_try m s = (Inl e, t) \<longleftrightarrow> False"
  by (auto simp: io_try_def split: prod.splits)

text \<open>A computation on one half of a state that has two.\<close>

definition io_fst :: "('s, 'e, 'a) io \<Rightarrow> ('s \<times> 'p, 'e, 'a) io" where
  "io_fst m st = (case m (fst st) of (r, t) \<Rightarrow> (r, (t, snd st)))"

definition io_snd :: "('p, 'e, 'a) io \<Rightarrow> ('s \<times> 'p, 'e, 'a) io" where
  "io_snd m st = (case m (snd st) of (r, t) \<Rightarrow> (r, (fst st, t)))"

lemma io_fst_iff [result_simps]:
  "io_fst m st = (x, st') \<longleftrightarrow> m (fst st) = (x, fst st') \<and> snd st' = snd st"
  by (cases st') (auto simp: io_fst_def split: prod.splits)

lemma io_snd_iff [result_simps]:
  "io_snd m st = (x, st') \<longleftrightarrow> m (snd st) = (x, snd st') \<and> fst st' = fst st"
  by (cases st') (auto simp: io_snd_def split: prod.splits)

text \<open>Reading and replacing the whole state.\<close>

definition io_get :: "('s, 'e, 's) io" where
  "io_get s = (Inr s, s)"

definition io_put :: "'s \<Rightarrow> ('s, 'e, unit) io" where
  "io_put s' s = (Inr (), s')"

lemma io_state_simps [simp]: "io_get s = (Inr s, s)" "io_put s' s = (Inr (), s')"
  by (simp_all add: io_get_def io_put_def)

text \<open>One effectful call per list element, in order, collecting the results.\<close>

fun io_map :: "('a \<Rightarrow> ('s, 'e, 'b) io) \<Rightarrow> 'a list \<Rightarrow> ('s, 'e, 'b list) io" where
  "io_map f [] = io_ret []"
| "io_map f (x # xs) = io_bind (f x) (\<lambda>y. io_bind (io_map f xs) (\<lambda>ys. io_ret (y # ys)))"

lemma io_map_length: "io_map f xs s = (Inr ys, t) \<Longrightarrow> length ys = length xs"
  by (induction xs arbitrary: s ys) (auto simp: result_simps)

section \<open>What a computation may do to the world\<close>

text \<open>
  Every step of the computation is in \<open>R\<close>; the rules follow the structure of a computation,
  so that a guarantee of the single calls extends to a whole operation.
\<close>

definition io_keeps :: "('s \<Rightarrow> 's \<Rightarrow> bool) \<Rightarrow> ('s, 'e, 'a) io \<Rightarrow> bool" where
  "io_keeps R m \<longleftrightarrow> (\<forall>s x t. m s = (x, t) \<longrightarrow> R\<^sup>*\<^sup>* s t)"

named_theorems io_keeps_rules \<open>structural rules for guarantees of computations\<close>

lemma io_keepsD: "io_keeps R m \<Longrightarrow> m s = (x, t) \<Longrightarrow> R\<^sup>*\<^sup>* s t"
  by (auto simp: io_keeps_def)

lemma io_keepsE:
  assumes "io_keeps R m" "m s = (x, t)" "reflp R" "transp R"
  shows "R s t"
  using io_keepsD [OF assms(1,2)]
  by (induction rule: rtranclp_induct) (use assms(3,4) in \<open>auto dest: reflpD transpD\<close>)

lemma io_keeps_ret [io_keeps_rules]:
  "io_keeps R (io_ret x)" "io_keeps R (io_err e)" "io_keeps R (io_lift r)"
  by (simp_all add: io_keeps_def)

lemma io_keeps_bind [io_keeps_rules]:
  "io_keeps R m \<Longrightarrow> (\<And>x. io_keeps R (k x)) \<Longrightarrow> io_keeps R (io_bind m k)"
  unfolding io_keeps_def io_bind_def
  by (fastforce split: prod.splits sum.splits intro: rtranclp_trans)

lemma io_keeps_map_err [io_keeps_rules]: "io_keeps R m \<Longrightarrow> io_keeps R (io_map_err f m)"
  by (auto simp: io_keeps_def io_map_err_def split: prod.splits)

lemma io_keeps_try [io_keeps_rules]: "io_keeps R m \<Longrightarrow> io_keeps R (io_try m)"
  by (auto simp: io_keeps_def io_try_def split: prod.splits)

lemma io_keeps_if [io_keeps_rules]:
  "(b \<Longrightarrow> io_keeps R m) \<Longrightarrow> (\<not> b \<Longrightarrow> io_keeps R n) \<Longrightarrow> io_keeps R (if b then m else n)"
  by simp

lemma io_keeps_let [io_keeps_rules]: "io_keeps R (f x) \<Longrightarrow> io_keeps R (let y = x in f y)"
  by simp

lemma io_keeps_option [io_keeps_rules]:
  "io_keeps R m \<Longrightarrow> (\<And>y. io_keeps R (f y)) \<Longrightarrow> io_keeps R (case x of None \<Rightarrow> m | Some y \<Rightarrow> f y)"
  by (cases x) auto

lemma io_keeps_sum [io_keeps_rules]:
  "(\<And>y. io_keeps R (g y)) \<Longrightarrow> (\<And>y. io_keeps R (f y)) \<Longrightarrow> io_keeps R (case x of Inl y \<Rightarrow> g y | Inr y \<Rightarrow> f y)"
  by (cases x) auto

lemma io_keeps_prod [io_keeps_rules]:
  "(\<And>a b. io_keeps R (f a b)) \<Longrightarrow> io_keeps R (case x of (a, b) \<Rightarrow> f a b)"
  by (cases x) auto

lemma io_keeps_io_map [io_keeps_rules]: "(\<And>x. io_keeps R (f x)) \<Longrightarrow> io_keeps R (io_map f xs)"
  by (induction xs) (auto intro!: io_keeps_rules)

section \<open>Bounded retry\<close>

text \<open>
  \<open>for _ in 0..n { body }\<close> followed by an exhaustion error. The body yields \<open>None\<close> for
  \<open>continue\<close>, \<open>Some\<close> for a successful \<open>return\<close> and an error for \<open>return Err\<close>.
\<close>

fun retry :: "nat \<Rightarrow> 'e \<Rightarrow> ('s, 'e, 'a option) io \<Rightarrow> ('s, 'e, 'a) io" where
  "retry 0 e body s = (Inl e, s)"
| "retry (Suc n) e body s =
     (case body s of
        (Inl err, t) \<Rightarrow> (Inl err, t)
      | (Inr (Some x), t) \<Rightarrow> (Inr x, t)
      | (Inr None, t) \<Rightarrow> retry n e body t)"

text \<open>The contract of a retried body: an invariant it keeps and a postcondition of its exits.\<close>

lemma io_keeps_retry [io_keeps_rules]:
  assumes "io_keeps R body" shows "io_keeps R (retry n e body)"
proof -
  have "R\<^sup>*\<^sup>* s t" if "retry n e body s = (x, t)" for s x t
    using that
  proof (induction n arbitrary: s)
    case (Suc n)
    obtain r u where body: "body s = (r, u)" by force
    then have "R\<^sup>*\<^sup>* s u" by (rule io_keepsD [OF assms])
    with Suc body show ?case
      by (auto split: sum.splits option.splits intro: rtranclp_trans)
  qed simp
  then show ?thesis by (auto simp: io_keeps_def)
qed

locale retry_body =
  fixes body :: "('s, 'e, 'a option) io"
    and inv :: "'s \<Rightarrow> bool"
    and post :: "'a \<Rightarrow> 's \<Rightarrow> bool"
    and fails :: "'e \<Rightarrow> 's \<Rightarrow> bool"
  assumes again: "inv s \<Longrightarrow> body s = (Inr None, t) \<Longrightarrow> inv t"
    and exits: "inv s \<Longrightarrow> body s = (Inr (Some x), t) \<Longrightarrow> post x t"
    and aborts: "inv s \<Longrightarrow> body s = (Inl e, t) \<Longrightarrow> fails e t"
begin

lemma retry_post: "inv s \<Longrightarrow> retry n e body s = (Inr x, t) \<Longrightarrow> post x t"
proof (induction n arbitrary: s)
  case (Suc n)
  then show ?case
    by (auto split: prod.splits sum.splits option.splits dest: again exits)
qed simp

lemma retry_fails:
  "inv s \<Longrightarrow> retry n e body s = (Inl err, t) \<Longrightarrow> fails err t \<or> (err = e \<and> inv t)"
proof (induction n arbitrary: s)
  case (Suc n)
  then show ?case
    by (auto split: prod.splits sum.splits option.splits dest: again aborts)
qed simp

end

section \<open>Strings\<close>

text \<open>A Rust string is its UTF-8 bytes; \<open>string\<close> is a list of 8-bit characters.\<close>

definition strip_prefix :: "'a list \<Rightarrow> 'a list \<Rightarrow> 'a list option" where
  "strip_prefix pre s = (if take (length pre) s = pre then Some (drop (length pre) s) else None)"

definition strip_suffix :: "'a list \<Rightarrow> 'a list \<Rightarrow> 'a list option" where
  "strip_suffix suf s = map_option rev (strip_prefix (rev suf) (rev s))"

definition starts_with :: "'a list \<Rightarrow> 'a list \<Rightarrow> bool" where
  "starts_with pre s \<longleftrightarrow> strip_prefix pre s \<noteq> None"

definition ends_with :: "'a list \<Rightarrow> 'a list \<Rightarrow> bool" where
  "ends_with suf s \<longleftrightarrow> strip_suffix suf s \<noteq> None"

lemma strip_prefix_Some [simp]: "strip_prefix pre s = Some r \<longleftrightarrow> s = pre @ r"
  by (auto simp: strip_prefix_def) (metis append_take_drop_id)

lemma strip_prefix_append [simp]: "strip_prefix pre (pre @ r) = Some r"
  by (simp add: strip_prefix_def)

lemma strip_suffix_Some [simp]: "strip_suffix suf s = Some r \<longleftrightarrow> s = r @ suf"
proof -
  have "strip_suffix suf s = Some r \<longleftrightarrow> rev s = rev suf @ rev r"
    by (auto simp: strip_suffix_def)
  then show ?thesis by (metis rev_append rev_rev_ident)
qed

lemma strip_suffix_append [simp]: "strip_suffix suf (r @ suf) = Some r"
  by simp

lemma starts_with_iff: "starts_with pre s \<longleftrightarrow> (\<exists>r. s = pre @ r)"
  by (auto simp: starts_with_def)

lemma ends_with_iff: "ends_with suf s \<longleftrightarrow> (\<exists>r. s = r @ suf)"
  by (auto simp: ends_with_def)

text \<open>\<open>str::split\<close> on one character: always at least one part.\<close>

fun split_on :: "'a \<Rightarrow> 'a list \<Rightarrow> 'a list list" where
  "split_on c [] = [[]]"
| "split_on c (x # xs) =
     (if x = c then [] # split_on c xs
      else (case split_on c xs of [] \<Rightarrow> [[x]] | p # ps \<Rightarrow> (x # p) # ps))"

lemma split_on_not_Nil [simp]: "split_on c xs \<noteq> []"
  by (induction xs) (auto split: list.splits)

text \<open>Decimal rendering of integers, as \<open>Display\<close> prints them.\<close>

definition digit_char :: "nat \<Rightarrow> char" where
  "digit_char d = char_of (48 + d)"

fun show_nat :: "nat \<Rightarrow> string" where
  "show_nat n = (if n < 10 then [digit_char n] else show_nat (n div 10) @ [digit_char (n mod 10)])"

declare show_nat.simps [simp del]

definition show_int :: "int \<Rightarrow> string" where
  "show_int i = (if i < 0 then ''-'' @ show_nat (nat (- i)) else show_nat (nat i))"

definition is_ascii_digit :: "char \<Rightarrow> bool" where
  "is_ascii_digit c \<longleftrightarrow> 48 \<le> (of_char c :: nat) \<and> (of_char c :: nat) \<le> 57"
definition is_ascii_alphanumeric :: "char \<Rightarrow> bool" where
  "is_ascii_alphanumeric c \<longleftrightarrow> is_ascii_digit c
     \<or> 65 \<le> (of_char c :: nat) \<and> (of_char c :: nat) \<le> 90
     \<or> 97 \<le> (of_char c :: nat) \<and> (of_char c :: nat) \<le> 122"
definition is_ascii_hexdigit :: "char \<Rightarrow> bool" where
  "is_ascii_hexdigit c \<longleftrightarrow> is_ascii_digit c
     \<or> 65 \<le> (of_char c :: nat) \<and> (of_char c :: nat) \<le> 70
     \<or> 97 \<le> (of_char c :: nat) \<and> (of_char c :: nat) \<le> 102"

text \<open>Numerals determine their number and hold no separator.\<close>

definition read_nat :: "string \<Rightarrow> nat" where
  "read_nat s = foldl (\<lambda>n c. 10 * n + (of_char c - 48)) 0 s"

lemma digit_char_code: "d < 10 \<Longrightarrow> (of_char (digit_char d) :: nat) = 48 + d"
  by (simp add: digit_char_def)

lemma read_show_nat: "read_nat (show_nat n) = n"
proof (induction n rule: show_nat.induct)
  case (1 n)
  then show ?case
    by (cases "n < 10") (simp_all add: show_nat.simps [of n] read_nat_def digit_char_code)
qed

lemma show_nat_digits: "\<forall>c \<in> set (show_nat n). is_ascii_digit c"
proof (induction n rule: show_nat.induct)
  case (1 n)
  then show ?case
    by (cases "n < 10") (auto simp: show_nat.simps [of n] is_ascii_digit_def digit_char_code)
qed

lemma show_int_inject: "show_int i = show_int j \<longleftrightarrow> i = j"
proof
  assume eq: "show_int i = show_int j"
  have digits: "show_nat n \<noteq> CHR ''-'' # s" for n s
    using show_nat_digits [of n] by (auto simp: is_ascii_digit_def)
  have inj: "show_nat m = show_nat n \<Longrightarrow> m = n" for m n by (metis read_show_nat)
  from eq show "i = j"
    using digits digits [symmetric] by (auto simp: show_int_def dest!: inj split: if_splits)
qed simp

lemma show_int_slash: "CHR ''/'' \<notin> set (show_int i)"
  using show_nat_digits [of "nat i"] show_nat_digits [of "nat (- i)"]
  by (auto simp: show_int_def is_ascii_digit_def)

text \<open>Path components without the separator are read off a path.\<close>

lemma component_inject:
  assumes "c \<notin> set xs" "c \<notin> set ys" shows "xs @ c # us = ys @ c # vs \<longleftrightarrow> xs = ys \<and> us = vs"
  using assms
proof (induction xs arbitrary: ys)
  case Nil
  then show ?case by (cases ys) auto
next
  case (Cons x xs)
  then show ?case by (cases ys) auto
qed

end
