(* ===== verification/BTree_Map.thy ===== *)
theory BTree_Map
  imports Walstream_Prelude
begin

text \<open>
  The standard library's \<open>BTreeMap\<close>: a finite map whose iteration is in key order. It is
  modelled by the list of its entries, strictly sorted by key. The locale \<open>ordered_map\<close> is
  the interface the components rely on (consumer-group members, committed offsets, the
  producer states of one append); \<open>bt\<close> interprets it on the entry list.
\<close>

type_synonym ('k, 'v) btree_map = "('k \<times> 'v) list"

definition bt_get :: "('k, 'v) btree_map \<Rightarrow> 'k \<Rightarrow> 'v option" where
  "bt_get m k = map_of m k"

fun bt_insert :: "'k::linorder \<Rightarrow> 'v \<Rightarrow> ('k, 'v) btree_map \<Rightarrow> ('k, 'v) btree_map" where
  "bt_insert k v [] = [(k, v)]"
| "bt_insert k v ((k', v') # m) =
     (if k < k' then (k, v) # (k', v') # m
      else if k = k' then (k, v) # m
      else (k', v') # bt_insert k v m)"

definition bt_remove :: "'k \<Rightarrow> ('k, 'v) btree_map \<Rightarrow> ('k, 'v) btree_map" where
  "bt_remove k m = filter (\<lambda>e. fst e \<noteq> k) m"

definition bt_retain :: "('k \<Rightarrow> 'v \<Rightarrow> bool) \<Rightarrow> ('k, 'v) btree_map \<Rightarrow> ('k, 'v) btree_map" where
  "bt_retain p m = filter (\<lambda>(k, v). p k v) m"

definition bt_map :: "('k \<Rightarrow> 'v \<Rightarrow> 'w) \<Rightarrow> ('k, 'v) btree_map \<Rightarrow> ('k, 'w) btree_map" where
  "bt_map f m = map (\<lambda>(k, v). (k, f k v)) m"

definition bt_values :: "('k, 'v) btree_map \<Rightarrow> 'v list" where
  "bt_values m = map snd m"

definition bt_keys :: "('k, 'v) btree_map \<Rightarrow> 'k list" where
  "bt_keys m = map fst m"

definition bt_contains :: "('k, 'v) btree_map \<Rightarrow> 'k \<Rightarrow> bool" where
  "bt_contains m k \<longleftrightarrow> bt_get m k \<noteq> None"

definition bt_inv :: "('k::linorder, 'v) btree_map \<Rightarrow> bool" where
  "bt_inv m \<longleftrightarrow> sorted_wrt (<) (map fst m)"

definition bt_of_list :: "('k::linorder \<times> 'v) list \<Rightarrow> ('k, 'v) btree_map" where
  "bt_of_list = foldl (\<lambda>m (k, v). bt_insert k v m) []"

section \<open>The interface\<close>

locale ordered_map =
  fixes empty :: "'m"
    and get :: "'m \<Rightarrow> 'k::linorder \<Rightarrow> 'v option"
    and ins :: "'k \<Rightarrow> 'v \<Rightarrow> 'm \<Rightarrow> 'm"
    and rem :: "'k \<Rightarrow> 'm \<Rightarrow> 'm"
    and entries :: "'m \<Rightarrow> ('k \<times> 'v) list"
    and inv :: "'m \<Rightarrow> bool"
  assumes inv_empty: "inv empty"
    and inv_ins: "inv m \<Longrightarrow> inv (ins k v m)"
    and inv_rem: "inv m \<Longrightarrow> inv (rem k m)"
    and get_empty: "get empty k = None"
    and get_ins: "inv m \<Longrightarrow> get (ins k v m) = (get m)(k \<mapsto> v)"
    and get_rem: "inv m \<Longrightarrow> get (rem k m) = (get m)(k := None)"
    and get_entries: "inv m \<Longrightarrow> get m k = map_of (entries m) k"
    and entries_sorted: "inv m \<Longrightarrow> sorted_wrt (<) (map fst (entries m))"
begin

text \<open>Inserting a list of entries one by one overrides the map with the list.\<close>

lemma fold_ins:
  "inv m \<Longrightarrow> inv (foldl (\<lambda>m (k, v). ins k v m) m es) \<and>
     get (foldl (\<lambda>m (k, v). ins k v m) m es) = get m ++ map_of (rev es)"
proof (induction es arbitrary: m)
  case (Cons e es)
  obtain k v where e: "e = (k, v)" by force
  from Cons.prems have "inv (ins k v m)" by (rule inv_ins)
  from Cons.IH [OF this] get_ins [OF Cons.prems, of k v] e
  show ?case by (simp add: map_add_def fun_eq_iff split: option.splits)
qed simp

lemma entries_distinct: "inv m \<Longrightarrow> distinct (map fst (entries m))"
  by (rule strict_sorted_iff [THEN iffD1, THEN conjunct2], rule entries_sorted)

text \<open>An ordered map is determined by its lookup function.\<close>

lemma entries_unique: "inv m \<Longrightarrow> inv m' \<Longrightarrow> get m = get m' \<Longrightarrow> entries m = entries m'"
proof -
  assume m: "inv m" and m': "inv m'" and eq: "get m = get m'"
  have maps: "map_of (entries m) = map_of (entries m')"
    using get_entries [OF m] get_entries [OF m'] eq by (auto simp: fun_eq_iff)
  then have sets: "set (entries m) = set (entries m')"
    using map_of_eq_Some_iff [OF entries_distinct [OF m]]
      map_of_eq_Some_iff [OF entries_distinct [OF m']] by fastforce
  have "inj_on fst (set (entries m) \<union> set (entries m'))"
    using entries_distinct [OF m] sets by (simp add: distinct_map)
  then show ?thesis
    using entries_sorted [OF m] entries_sorted [OF m'] sets
    by (intro map_sorted_distinct_set_unique [of fst]) (simp_all add: strict_sorted_iff)
qed

end

lemma bt_get_set: "bt_inv m \<Longrightarrow> bt_get m k = Some v \<longleftrightarrow> (k, v) \<in> set m"
  unfolding bt_get_def bt_inv_def
  by (simp add: map_of_eq_Some_iff strict_sorted_iff)

lemma bt_keys_insert: "set (map fst (bt_insert k v m)) = insert k (set (map fst m))"
  by (induction k v m rule: bt_insert.induct) auto

lemma bt_inv_insert [simp, intro]: "bt_inv m \<Longrightarrow> bt_inv (bt_insert k v m)"
proof (induction k v m rule: bt_insert.induct)
  case (2 k v k' v' m)
  then show ?case
    using bt_keys_insert [of k v m] by (fastforce simp: bt_inv_def)
qed (simp add: bt_inv_def)

lemma bt_inv_filter [simp]: "bt_inv m \<Longrightarrow> bt_inv (filter p m)"
  unfolding bt_inv_def by (induction m) auto

lemma bt_inv_remove [simp, intro]: "bt_inv m \<Longrightarrow> bt_inv (bt_remove k m)"
  by (simp add: bt_remove_def)

lemma bt_inv_retain [simp, intro]: "bt_inv m \<Longrightarrow> bt_inv (bt_retain p m)"
  by (simp add: bt_retain_def)

lemma bt_map_keys [simp]: "map fst (bt_map f m) = map fst m"
  by (simp add: bt_map_def comp_def case_prod_beta)

lemma bt_inv_map [simp, intro]: "bt_inv m \<Longrightarrow> bt_inv (bt_map f m)"
  by (simp add: bt_inv_def)

lemma bt_get_insert: "bt_inv m \<Longrightarrow> bt_get (bt_insert k v m) = (bt_get m)(k \<mapsto> v)"
proof (induction k v m rule: bt_insert.induct)
  case (2 k v k' v' m)
  then show ?case by (auto simp: bt_get_def bt_inv_def fun_eq_iff)
qed (auto simp: bt_get_def fun_eq_iff)

lemma bt_get_remove: "bt_get (bt_remove k m) = (bt_get m)(k := None)"
  unfolding bt_get_def bt_remove_def by (induction m) (auto simp: fun_eq_iff)

lemma bt_get_map: "bt_get (bt_map f m) k = map_option (f k) (bt_get m k)"
  unfolding bt_get_def bt_map_def by (induction m) auto

interpretation bt: ordered_map "[]" bt_get bt_insert bt_remove "\<lambda>m. m" bt_inv
  by unfold_locales
    (auto simp: bt_get_insert bt_get_remove, auto simp: bt_get_def bt_inv_def)

end
