(* ===== verification/Object_Store.thy ===== *)
theory Object_Store
  imports BTree_Map
begin

text \<open>
  The boundary to code that is not in the repository. The crate \<open>object_store\<close>, the UUID
  and SHA-256 crates and the system clock are the fields of a \<open>world\<close> record that the
  model's operations take as an argument; each call threads the world's state. The
  repository's own code at this boundary, the bounded body reader
  \<open>collect_bounded\<close> (\<open>src/log.rs\<close>, \<open>src/group.rs\<close>), is modelled here.

  \<open>store_laws\<close> states the contract \<open>docs/architecture.md\<close> requires of the bucket: a GET sees
  the current object, a conditional create succeeds only on an absent key, a conditional
  update only against the exact current version, and a version identifies a body. Other
  clients may act between any two calls of ours; what they may do is the relation
  \<open>rely\<close> on bucket contents (equality when the client is alone).
\<close>

section \<open>Types of the interface\<close>

datatype store_error = NotFound | AlreadyExists | Precondition | OtherError string

datatype update_version = UpdateVersion (e_tag: "string option") (version: "string option")

datatype put_mode = Create | Update update_version

record get_result =
  gr_size :: nat
  gr_version :: update_version
  gr_chunks :: "(store_error + bytes) list"

record 's world =
  w_get :: "string \<Rightarrow> ('s, store_error, get_result) io"
  w_put :: "string \<Rightarrow> bytes \<Rightarrow> put_mode \<Rightarrow> ('s, store_error, update_version) io"
  w_head :: "string \<Rightarrow> ('s, store_error, nat) io"
  w_delete :: "string \<Rightarrow> ('s, store_error, unit) io"
  w_list :: "string \<Rightarrow> 's \<Rightarrow> (store_error + string \<times> nat) list \<times> 's"
  w_list_prefixes :: "string \<Rightarrow> ('s, store_error, string list) io"
  w_path_from :: "string \<Rightarrow> string"
  w_path_parse :: "string \<Rightarrow> string + string"
  w_new_uuid :: "'s \<Rightarrow> string \<times> 's"
  w_uuid_ok :: "string \<Rightarrow> bool"
  w_unix_millis :: "'s \<Rightarrow> nat option \<times> 's"
  w_sha256_hex :: "bytes \<Rightarrow> string"

text \<open>Infallible calls as computations.\<close>

definition io_call :: "('s \<Rightarrow> 'a \<times> 's) \<Rightarrow> ('s, 'e, 'a) io" where
  "io_call f s = (case f s of (x, t) \<Rightarrow> (Inr x, t))"

lemma io_call_iff [result_simps]:
  "io_call f s = (Inr x, t) \<longleftrightarrow> f s = (x, t)" "io_call f s = (Inl e, t) \<longleftrightarrow> False"
  by (auto simp: io_call_def split: prod.splits)

section \<open>Reading a body under a cap\<close>

datatype bounded_read_error = ReadStore store_error | TooLarge

fun collect_bounded ::
  "(store_error + bytes) list \<Rightarrow> nat \<Rightarrow> bytes \<Rightarrow> bounded_read_error + bytes" where
  "collect_bounded [] maximum_bytes output = Inr output"
| "collect_bounded (Inl e # stream) maximum_bytes output = Inl (ReadStore e)"
| "collect_bounded (Inr chunk # stream) maximum_bytes output =
     (case checked_add_u64 (length output) (length chunk) of
        None \<Rightarrow> Inl TooLarge
      | Some n \<Rightarrow>
          if n > maximum_bytes then Inl TooLarge
          else collect_bounded stream maximum_bytes (output @ chunk))"

lemma collect_bounded_length:
  "collect_bounded cs n out = Inr b \<Longrightarrow> length out \<le> n \<Longrightarrow> length b \<le> n"
  by (induction cs n out rule: collect_bounded.induct)
    (auto split: option.splits if_splits)

text \<open>A stream delivers a body if it yields its bytes in order, or breaks off with an error.\<close>

fun delivers :: "(store_error + bytes) list \<Rightarrow> bytes \<Rightarrow> bool" where
  "delivers [] b \<longleftrightarrow> b = []"
| "delivers (Inl e # cs) b \<longleftrightarrow> True"
| "delivers (Inr c # cs) b \<longleftrightarrow>
     (case strip_prefix c b of None \<Rightarrow> False | Some r \<Rightarrow> delivers cs r)"

lemma collect_bounded_delivers:
  "collect_bounded cs n out = Inr b \<Longrightarrow> delivers cs body \<Longrightarrow> b = out @ body"
  by (induction cs n out arbitrary: body rule: collect_bounded.induct)
    (auto split: option.splits if_splits)

lemma collect_bounded_chunks:
  "length out + length (concat ps) \<le> n \<Longrightarrow> n \<le> u64_max \<Longrightarrow>
   collect_bounded (map Inr ps) n out = Inr (out @ concat ps)"
  by (induction ps arbitrary: out) (auto split: option.splits)

section \<open>The contract of the bucket\<close>

type_synonym objects = "string \<rightharpoonup> update_version \<times> bytes"

definition get_outcome :: "(update_version \<times> bytes) option \<Rightarrow> store_error + get_result \<Rightarrow> bool" where
  "get_outcome obj r \<longleftrightarrow>
     (case r of
        Inr g \<Rightarrow> (case obj of
            None \<Rightarrow> False
          | Some (v, b) \<Rightarrow> gr_version g = v \<and> gr_size g = length b \<and> delivers (gr_chunks g) b)
      | Inl NotFound \<Rightarrow> obj = None
      | Inl _ \<Rightarrow> True)"

definition put_allowed :: "put_mode \<Rightarrow> (update_version \<times> bytes) option \<Rightarrow> bool" where
  "put_allowed mode obj \<longleftrightarrow>
     (case mode of Create \<Rightarrow> obj = None | Update w \<Rightarrow> map_option fst obj = Some w)"

text \<open>
  A refused put changes nothing. An unclassified error (a lost response) may or may not
  have taken effect, but only where the condition held.
\<close>

definition put_outcome ::
  "string \<Rightarrow> bytes \<Rightarrow> put_mode \<Rightarrow> store_error + update_version \<Rightarrow> objects \<Rightarrow> objects \<Rightarrow> bool" where
  "put_outcome p b mode r m m' \<longleftrightarrow>
     (case r of
        Inr v \<Rightarrow> put_allowed mode (m p) \<and> m' = m(p \<mapsto> (v, b))
      | Inl (OtherError _) \<Rightarrow> m' = m \<or> (put_allowed mode (m p) \<and> (\<exists>v. m' = m(p \<mapsto> (v, b))))
      | Inl _ \<Rightarrow> m' = m)"

definition delete_outcome :: "string \<Rightarrow> store_error + unit \<Rightarrow> objects \<Rightarrow> objects \<Rightarrow> bool" where
  "delete_outcome p r m m' \<longleftrightarrow>
     (case r of
        Inr _ \<Rightarrow> m' = m(p := None)
      | Inl NotFound \<Rightarrow> m p = None \<and> m' = m
      | Inl _ \<Rightarrow> m' = m \<or> m' = m(p := None))"

definition head_outcome :: "(update_version \<times> bytes) option \<Rightarrow> store_error + nat \<Rightarrow> bool" where
  "head_outcome obj r \<longleftrightarrow>
     (case r of
        Inr n \<Rightarrow> (case obj of None \<Rightarrow> False | Some (_, b) \<Rightarrow> n = length b)
      | Inl NotFound \<Rightarrow> obj = None
      | Inl _ \<Rightarrow> True)"

definition store_laws ::
  "('s, 'm) world_scheme \<Rightarrow> ('s \<Rightarrow> objects) \<Rightarrow> (objects \<Rightarrow> objects \<Rightarrow> bool) \<Rightarrow> bool" where
  "store_laws W view rely \<longleftrightarrow>
     reflp rely \<and> transp rely
   \<and> (\<forall>s s' p v b b'. view s p = Some (v, b) \<longrightarrow> view s' p = Some (v, b') \<longrightarrow> b = b')
   \<and> (\<forall>p s r t. w_get W p s = (r, t) \<longrightarrow> rely (view s) (view t) \<and> get_outcome (view t p) r)
   \<and> (\<forall>p s r t. w_head W p s = (r, t) \<longrightarrow> rely (view s) (view t) \<and> head_outcome (view t p) r)
   \<and> (\<forall>p b mode s r t. w_put W p b mode s = (r, t) \<longrightarrow>
        (\<exists>u. rely (view s) (view u) \<and> put_outcome p b mode r (view u) (view t)))
   \<and> (\<forall>p s r t. w_delete W p s = (r, t) \<longrightarrow>
        (\<exists>u. rely (view s) (view u) \<and> delete_outcome p r (view u) (view t)))
   \<and> (\<forall>p s. rely (view s) (view (snd (w_list W p s))))
   \<and> (\<forall>p s. rely (view s) (view (snd (w_list_prefixes W p s))))
   \<and> (\<forall>s. rely (view s) (view (snd (w_new_uuid W s))))
   \<and> (\<forall>s. rely (view s) (view (snd (w_unix_millis W s))))"

lemma store_laws_refl: "store_laws W view rely \<Longrightarrow> rely m m"
  unfolding store_laws_def by (drule conjunct1, erule reflpD)

lemma store_laws_trans:
  "store_laws W view rely \<Longrightarrow> rely m m' \<Longrightarrow> rely m' m'' \<Longrightarrow> rely m m''"
  unfolding store_laws_def by (elim conjE, erule (2) transpD)

lemma store_laws_version:
  "store_laws W view rely \<Longrightarrow> view s p = Some (v, b) \<Longrightarrow> view s' p = Some (v, b') \<Longrightarrow> b = b'"
  unfolding store_laws_def by meson

lemma store_laws_get:
  "store_laws W view rely \<Longrightarrow> w_get W p s = (r, t) \<Longrightarrow>
   rely (view s) (view t) \<and> get_outcome (view t p) r"
  unfolding store_laws_def by meson

lemma store_laws_head:
  "store_laws W view rely \<Longrightarrow> w_head W p s = (r, t) \<Longrightarrow>
   rely (view s) (view t) \<and> head_outcome (view t p) r"
  unfolding store_laws_def by meson

lemma store_laws_put:
  "store_laws W view rely \<Longrightarrow> w_put W p b mode s = (r, t) \<Longrightarrow>
   \<exists>u. rely (view s) (view u) \<and> put_outcome p b mode r (view u) (view t)"
  unfolding store_laws_def by meson

lemma store_laws_delete:
  "store_laws W view rely \<Longrightarrow> w_delete W p s = (r, t) \<Longrightarrow>
   \<exists>u. rely (view s) (view u) \<and> delete_outcome p r (view u) (view t)"
  unfolding store_laws_def by meson

lemma store_laws_calls:
  "store_laws W view rely \<Longrightarrow> w_list W p s = (xs, t) \<Longrightarrow> rely (view s) (view t)"
  "store_laws W view rely \<Longrightarrow> w_list_prefixes W p s = (ys, t) \<Longrightarrow> rely (view s) (view t)"
  "store_laws W view rely \<Longrightarrow> w_new_uuid W s = (u, t) \<Longrightarrow> rely (view s) (view t)"
  "store_laws W view rely \<Longrightarrow> w_unix_millis W s = (n, t) \<Longrightarrow> rely (view s) (view t)"
  unfolding store_laws_def by (metis snd_conv)+

text \<open>Each call of the interface is a guarantee of its own.\<close>

lemma io_keeps_calls:
  "(\<And>s t n. w_unix_millis W s = (n, t) \<Longrightarrow> R s t) \<Longrightarrow> io_keeps R (io_call (w_unix_millis W))"
  "(\<And>s t u. w_new_uuid W s = (u, t) \<Longrightarrow> R s t) \<Longrightarrow> io_keeps R (io_call (w_new_uuid W))"
  "(\<And>s t u. w_list W p s = (u, t) \<Longrightarrow> R s t) \<Longrightarrow> io_keeps R (io_call (w_list W p))"
  by (auto simp: io_keeps_def io_call_def split: prod.splits)

end
