(* ===== verification/Log_Types.thy ===== *)
theory Log_Types
  imports Object_Store
begin

text \<open>
  The data and the pure checks of \<open>src/log.rs\<close>: its error type, segment descriptors, the
  schema-1 manifest, topic metadata, the bounded collection visitor handed to the derived
  JSON decoders, and the validation of names, partitions and segment lists.
\<close>

section \<open>Limits\<close>

definition MANIFEST_SCHEMA :: nat where "MANIFEST_SCHEMA = 1"
definition MAX_CAS_ATTEMPTS :: nat where "MAX_CAS_ATTEMPTS = 128"
definition MAX_BATCH_BYTES :: nat where "MAX_BATCH_BYTES = 16 * 1024 * 1024"
definition MAX_MANIFEST_BYTES :: nat where "MAX_MANIFEST_BYTES = 4 * 1024 * 1024"
definition MAX_MANIFEST_SEGMENTS :: nat where "MAX_MANIFEST_SEGMENTS = 10000"
definition TOPIC_METADATA_SCHEMA :: nat where "TOPIC_METADATA_SCHEMA = 1"
definition MAX_TOPIC_METADATA_BYTES :: nat where "MAX_TOPIC_METADATA_BYTES = 4 * 1024"
definition DEFAULT_TOPIC_PARTITIONS :: int where "DEFAULT_TOPIC_PARTITIONS = 1"
definition MAX_TOPIC_PARTITIONS :: int where "MAX_TOPIC_PARTITIONS = 1024"
definition MAX_BATCH_RECORDS :: nat where "MAX_BATCH_RECORDS = 100000"

lemmas limit_defs = MANIFEST_SCHEMA_def MAX_CAS_ATTEMPTS_def MAX_BATCH_BYTES_def
  MAX_MANIFEST_BYTES_def MAX_MANIFEST_SEGMENTS_def TOPIC_METADATA_SCHEMA_def
  MAX_TOPIC_METADATA_BYTES_def DEFAULT_TOPIC_PARTITIONS_def MAX_TOPIC_PARTITIONS_def
  MAX_BATCH_RECORDS_def

section \<open>Errors\<close>

text \<open>The report of one maintenance run is part of the error type, as in the source.\<close>

record maintenance_report =
  rep_topic :: string
  rep_partition :: int
  rep_applied :: bool
  rep_publication_uncertain :: bool
  rep_previous_start_offset :: int
  rep_start_offset :: int
  rep_next_offset :: int
  rep_max_age_ms :: "nat option"
  rep_max_bytes :: "nat option"
  rep_format_adoption :: bool
  rep_retained_batches :: nat
  rep_retained_record_bytes :: nat
  rep_expired_batches :: nat
  rep_expired_record_bytes :: nat
  rep_removable_objects :: nat
  rep_removable_bytes :: nat
  rep_collected_objects :: nat
  rep_collected_bytes :: nat

datatype log_error =
    InvalidTopic string
  | InvalidTopicMetadata string
  | UnknownTopic string
  | UnsupportedPartition int
  | EmptyBatch
  | UnsupportedRecordSemantics
  | OutOfOrderSequence
  | InvalidProducerEpoch
  | ConflictingSequence
  | InvalidOffset int
  | OffsetOutOfRange int int
  | BatchTooLarge nat nat
  | TooManyRecords nat nat
  | ManifestTooLarge nat nat
  | OffsetOverflow
  | InvalidTimestampRange
  | RevisionOverflow
  | InvalidManifest string
  | MissingSegment string store_error
  | CorruptSegment string string
  | Codec string
  | Serialization string
  | ObjectStore store_error
  | InvalidMaintenance string
  | MaintenanceBudget nat
  | MaintenanceIncomplete maintenance_report log_error
  | ContentionExhausted nat

definition invalid :: "string \<Rightarrow> log_error" where
  "invalid detail = InvalidManifest detail"

section \<open>Data\<close>

record segment =
  sg_object :: string
  sg_base_offset :: int
  sg_record_count :: nat
  sg_byte_length :: nat
  sg_sha256 :: string
  sg_received_at_ms :: "nat option"

record manifest =
  mf_schema :: nat
  mf_revision :: nat
  mf_next_offset :: int
  mf_segments :: "segment list"

definition manifest_default :: manifest where
  "manifest_default =
     \<lparr>mf_schema = MANIFEST_SCHEMA, mf_revision = 0, mf_next_offset = 0, mf_segments = []\<rparr>"

record topic_metadata =
  tm_schema :: nat
  tm_partition_count :: int

record append_result =
  ar_base_offset :: int
  ar_last_offset :: int

record offset_range =
  or_earliest :: int
  or_latest :: int

definition last_offset :: "segment \<Rightarrow> log_error + int" where
  "last_offset sg =
     ok_or (checked_add_i64 (sg_base_offset sg) (int (sg_record_count sg) - 1)) OffsetOverflow"

section \<open>Bounded decoding of JSON collections\<close>

text \<open>
  The derived decoders are code of \<open>serde\<close>; what the repository supplies to them is a
  visitor. A JSON array arrives as an optional size hint and a stream of elements, each a
  value, a well-formed element of the wrong type, or a syntax error.
\<close>

datatype 'a json_element = JsonValue 'a | JsonMismatch string | JsonSyntax string

record 'a json_seq =
  js_hint :: "nat option"
  js_elements :: "'a json_element list"

definition entry_limit_error :: string where
  "entry_limit_error = ''metadata entry limit exceeded''"

fun visit_elements :: "nat \<Rightarrow> 'a list \<Rightarrow> 'a json_element list \<Rightarrow> string + 'a list" where
  "visit_elements n values [] = Inr values"
| "visit_elements 0 values (x # rest) =
     (case x of JsonSyntax e \<Rightarrow> Inl e | _ \<Rightarrow> Inl entry_limit_error)"
| "visit_elements (Suc n) values (x # rest) =
     (case x of
        JsonSyntax e \<Rightarrow> Inl e
      | JsonMismatch e \<Rightarrow> Inl e
      | JsonValue v \<Rightarrow> visit_elements n (values @ [v]) rest)"

definition deserialize_bounded :: "nat \<Rightarrow> 'a json_seq \<Rightarrow> string + 'a list" where
  "deserialize_bounded N sq =
     (if (case js_hint sq of None \<Rightarrow> False | Some hint \<Rightarrow> N < hint)
      then Inl entry_limit_error
      else visit_elements N [] (js_elements sq))"

definition deserialize_segments :: "segment json_seq \<Rightarrow> string + segment list" where
  "deserialize_segments = deserialize_bounded MAX_MANIFEST_SEGMENTS"

text \<open>How a list is presented to the visitor when it is read back from its own encoding.\<close>

definition json_seq_of :: "'a list \<Rightarrow> 'a json_seq" where
  "json_seq_of xs = \<lparr>js_hint = None, js_elements = map JsonValue xs\<rparr>"

lemma visit_elements_length:
  "visit_elements n acc xs = Inr ys \<Longrightarrow> length ys \<le> length acc + n"
  by (induction n acc xs rule: visit_elements.induct) (auto split: json_element.splits)

lemma visit_elements_values:
  "visit_elements n acc (map JsonValue xs) =
     (if length xs \<le> n then Inr (acc @ xs) else Inl entry_limit_error)"
proof (induction xs arbitrary: n acc)
  case (Cons x xs)
  then show ?case by (cases n) auto
qed simp

lemma deserialize_bounded_length: "deserialize_bounded N sq = Inr ys \<Longrightarrow> length ys \<le> N"
  unfolding deserialize_bounded_def
  using visit_elements_length [of N "[]" "js_elements sq" ys] by (auto split: if_splits)

lemma deserialize_bounded_seq_of [simp]:
  "deserialize_bounded N (json_seq_of xs) =
     (if length xs \<le> N then Inr xs else Inl entry_limit_error)"
  by (simp add: deserialize_bounded_def json_seq_of_def visit_elements_values)

section \<open>Names, partitions and checksums\<close>

definition valid_checksum :: "string \<Rightarrow> bool" where
  "valid_checksum checksum \<longleftrightarrow> length checksum = 64 \<and> list_all is_ascii_hexdigit checksum"

definition safe_char :: "char \<Rightarrow> bool" where
  "safe_char c \<longleftrightarrow> is_ascii_alphanumeric c \<or> c \<in> {CHR ''.'', CHR ''_'', CHR ''-''}"

lemma safe_char_not_slash: "list_all safe_char s \<Longrightarrow> CHR ''/'' \<notin> set s"
  by (auto simp: list_all_iff safe_char_def is_ascii_alphanumeric_def is_ascii_digit_def)

definition valid_topic :: "string \<Rightarrow> bool" where
  "valid_topic topic \<longleftrightarrow>
     topic \<noteq> [] \<and> length topic \<le> 249 \<and> topic \<noteq> ''.'' \<and> topic \<noteq> ''..''
     \<and> list_all safe_char topic"

definition validate_topic :: "string \<Rightarrow> log_error + unit" where
  "validate_topic topic = ensure (valid_topic topic) (InvalidTopic topic)"

definition safe_prefix :: "string \<Rightarrow> bool" where
  "safe_prefix prefix \<longleftrightarrow>
     \<not> (prefix = [] \<or> starts_with ''/'' prefix \<or> ends_with ''/'' prefix
        \<or> list_ex (\<lambda>p. p = [] \<or> p = ''.'' \<or> p = ''..'') (split_on (CHR ''/'') prefix))"

definition validate_prefix :: "string \<Rightarrow> log_error + unit" where
  "validate_prefix prefix =
     ensure (safe_prefix prefix) (invalid ''engine prefix must be a safe relative object path'')"

definition validate_partition_count :: "int \<Rightarrow> log_error + unit" where
  "validate_partition_count partition_count =
     ensure (DEFAULT_TOPIC_PARTITIONS \<le> partition_count \<and> partition_count \<le> MAX_TOPIC_PARTITIONS)
       (InvalidTopicMetadata
         (''partition count '' @ show_int partition_count @ '' is outside ''
          @ show_int DEFAULT_TOPIC_PARTITIONS @ ''..='' @ show_int MAX_TOPIC_PARTITIONS))"

definition validate_partition :: "int \<Rightarrow> int \<Rightarrow> log_error + unit" where
  "validate_partition part partition_count =
     ensure (0 \<le> part \<and> part < partition_count) (UnsupportedPartition part)"

definition validate_topic_metadata :: "topic_metadata \<Rightarrow> log_error + unit" where
  "validate_topic_metadata tm =
     (if tm_schema tm \<noteq> TOPIC_METADATA_SCHEMA
      then Inl (InvalidTopicMetadata (''unsupported schema '' @ show_nat (tm_schema tm)))
      else validate_partition_count (tm_partition_count tm))"

section \<open>Object names of one partition\<close>

definition partition_dir :: "string \<Rightarrow> string \<Rightarrow> int \<Rightarrow> string" where
  "partition_dir prefix topic part =
     prefix @ ''/topics/'' @ topic @ ''/'' @ show_int part @ ''/''"

section \<open>Segment lists\<close>

fun validate_segments_from ::
  "string \<Rightarrow> int \<Rightarrow> string set \<Rightarrow> segment list \<Rightarrow> log_error + int" where
  "validate_segments_from expected_prefix next_offset objects [] = Inr next_offset"
| "validate_segments_from expected_prefix next_offset objects (sg # segments) =
     (if sg_base_offset sg \<noteq> next_offset
      then Inl (invalid ''segment offsets are not contiguous'')
      else if sg_record_count sg = 0 \<or> sg_byte_length sg = 0
      then Inl (invalid ''segment has an empty record or byte count'')
      else if sg_record_count sg > MAX_BATCH_RECORDS \<or> sg_byte_length sg > MAX_BATCH_BYTES
      then Inl (invalid ''segment exceeds the writer's record or byte bound'')
      else if \<not> starts_with expected_prefix (sg_object sg) \<or> \<not> ends_with ''.batch'' (sg_object sg)
           \<or> sg_object sg \<in> objects
      then Inl (invalid ''segment object is outside the partition or duplicated'')
      else if \<not> valid_checksum (sg_sha256 sg)
      then Inl (invalid ''segment checksum is not a SHA-256 hex digest'')
      else attempt (last_offset sg) (\<lambda>last.
           attempt (ok_or (checked_add_i64 last 1) OffsetOverflow) (\<lambda>next.
             validate_segments_from expected_prefix next (insert (sg_object sg) objects) segments)))"

definition validate_segments ::
  "segment list \<Rightarrow> int \<Rightarrow> string \<Rightarrow> string \<Rightarrow> int \<Rightarrow> log_error + int" where
  "validate_segments segments start prefix topic part =
     validate_segments_from (partition_dir prefix topic part @ ''segments/'') start {} segments"

definition validate_manifest ::
  "manifest \<Rightarrow> string \<Rightarrow> string \<Rightarrow> int \<Rightarrow> log_error + unit" where
  "validate_manifest m prefix topic part =
     (if mf_schema m \<noteq> MANIFEST_SCHEMA
      then Inl (invalid (''unsupported schema '' @ show_nat (mf_schema m)))
      else if mf_revision m \<noteq> length (mf_segments m)
      then Inl (invalid ''revision does not match committed segment count'')
      else attempt (validate_segments (mf_segments m) 0 prefix topic part) (\<lambda>next_offset.
        if mf_next_offset m \<noteq> next_offset
        then Inl (invalid ''next offset does not match committed segments'')
        else Inr ()))"

text \<open>
  What the check accepts, without the loop: the segments tile the offsets from the start
  to the returned end, every descriptor is within the writer's bounds, and no object is
  named twice.
\<close>

definition segment_ok :: "string \<Rightarrow> segment \<Rightarrow> bool" where
  "segment_ok expected_prefix sg \<longleftrightarrow>
     0 < sg_record_count sg \<and> sg_record_count sg \<le> MAX_BATCH_RECORDS
   \<and> 0 < sg_byte_length sg \<and> sg_byte_length sg \<le> MAX_BATCH_BYTES
   \<and> starts_with expected_prefix (sg_object sg) \<and> ends_with ''.batch'' (sg_object sg)
   \<and> valid_checksum (sg_sha256 sg)"

definition segment_end :: "segment \<Rightarrow> int" where
  "segment_end sg = sg_base_offset sg + int (sg_record_count sg)"

fun tiles :: "int \<Rightarrow> segment list \<Rightarrow> int \<Rightarrow> bool" where
  "tiles a [] b \<longleftrightarrow> a = b"
| "tiles a (sg # sgs) b \<longleftrightarrow> sg_base_offset sg = a \<and> tiles (segment_end sg) sgs b"

lemma tiles_append: "tiles a (xs @ ys) c \<longleftrightarrow> (\<exists>b. tiles a xs b \<and> tiles b ys c)"
  by (induction xs arbitrary: a) auto

lemma tiles_le: "tiles a xs b \<Longrightarrow> a \<le> b"
  by (induction xs arbitrary: a) (force simp: segment_end_def)+

lemma tiles_sum: "tiles a xs b \<Longrightarrow> b = a + (\<Sum>sg\<leftarrow>xs. int (sg_record_count sg))"
  by (induction xs arbitrary: a) (fastforce simp: segment_end_def)+

lemma tiles_unique: "tiles a xs b \<Longrightarrow> tiles a xs c \<Longrightarrow> b = c"
  by (induction xs arbitrary: a) auto

lemma tiles_member:
  "tiles a xs b \<Longrightarrow> sg \<in> set xs \<Longrightarrow> a \<le> sg_base_offset sg \<and> segment_end sg \<le> b"
proof (induction xs arbitrary: a)
  case (Cons x xs)
  then show ?case using tiles_le [of "segment_end x" xs b]
    by (fastforce simp: segment_end_def)
qed simp

text \<open>Every offset of a tiled range lies in exactly one segment.\<close>

lemma tiles_cover:
  "tiles a xs b \<Longrightarrow> a \<le> n \<Longrightarrow> n < b \<Longrightarrow>
   \<exists>sg \<in> set xs. sg_base_offset sg \<le> n \<and> n < segment_end sg"
proof (induction xs arbitrary: a)
  case (Cons x xs)
  then show ?case by (cases "n < segment_end x") (fastforce, fastforce)
qed simp

lemma validate_segments_from_iff:
  assumes "in_i64 start"
  shows "validate_segments_from p start objs sgs = Inr next \<longleftrightarrow>
     tiles start sgs next \<and> (\<forall>sg \<in> set sgs. segment_ok p sg) \<and> in_i64 next
     \<and> distinct (map sg_object sgs) \<and> set (map sg_object sgs) \<inter> objs = {}"
  using assms
proof (induction sgs arbitrary: start objs)
  case (Cons sg sgs)
  have last: "last_offset sg = Inr l \<longleftrightarrow>
      l = segment_end sg - 1 \<and> in_i64 (segment_end sg - 1)" for l
    by (auto simp: last_offset_def segment_end_def algebra_simps)
  have le: "tiles (segment_end sg) sgs next \<Longrightarrow> segment_end sg \<le> next" by (rule tiles_le)
  show ?case
  proof (cases "sg_base_offset sg = start \<and> segment_ok p sg \<and> in_i64 (segment_end sg)")
    case True
    then have "in_i64 (segment_end sg - 1)" using Cons.prems
      by (auto simp: range_simps segment_ok_def segment_end_def)
    with True Cons.IH [of "segment_end sg" "insert (sg_object sg) objs"] last
    show ?thesis by (auto simp: result_simps segment_ok_def)
  next
    case False
    have "in_i64 next \<Longrightarrow> segment_end sg \<le> next \<Longrightarrow> sg_base_offset sg = start \<Longrightarrow>
        in_i64 (segment_end sg)"
      using Cons.prems by (auto simp: range_simps segment_end_def)
    with False le last show ?thesis by (auto simp: result_simps segment_ok_def)
  qed
qed auto

lemma validate_segments_iff:
  assumes "in_i64 start"
  shows "validate_segments sgs start prefix topic part = Inr next \<longleftrightarrow>
     tiles start sgs next \<and> in_i64 next \<and> distinct (map sg_object sgs)
     \<and> (\<forall>sg \<in> set sgs. segment_ok (partition_dir prefix topic part @ ''segments/'') sg)"
  unfolding validate_segments_def validate_segments_from_iff [OF assms] by auto

lemma validate_segments_next_in_i64:
  "validate_segments_from p start objs sgs = Inr next \<Longrightarrow> sgs \<noteq> [] \<Longrightarrow> in_i64 next"
  by (induction p start objs sgs rule: validate_segments_from.induct)
    (force simp: result_simps split: if_splits)+

end
