(* ===== verification/Producer_State.thy ===== *)
theory Producer_State
  imports Log_Types
begin

text \<open>
  The pure part of \<open>src/log/producer.rs\<close>: the state a partition keeps per producer (its
  epoch and the identities of its last five batches), the decision \<open>accept\<close> that
  classifies a batch as a retry, the next batch or an error, and the checks of the pages
  of the immutable producer directory.
\<close>

definition RETRY_BATCHES :: nat where "RETRY_BATCHES = 5"
definition PRODUCER_MAX_LEVEL :: nat where "PRODUCER_MAX_LEVEL = 12"
definition PAGE_ENTRIES :: nat where "PAGE_ENTRIES = 64"

lemmas producer_limit_defs = RETRY_BATCHES_def PRODUCER_MAX_LEVEL_def PAGE_ENTRIES_def

section \<open>Data\<close>

record producer_ref =
  pf_object :: string
  pf_first_id :: int
  pf_last_id :: int
  pf_count :: nat
  pf_level :: nat
  pf_byte_length :: nat
  pf_sha256 :: string

record batch_identity =
  bi_sequence :: int
  bi_count :: nat
  bi_base_offset :: int
  bi_fingerprint :: string

record producer_state =
  ps_id :: int
  ps_epoch :: int
  ps_batches :: "batch_identity list"

datatype producer_page = PLeaf "producer_state list" | PBranch "producer_ref list"

section \<open>Sequence decisions\<close>

text \<open>Sign extension to 64 bits, an addition that wraps there, and the remainder modulo 2^31.\<close>

definition advance :: "int \<Rightarrow> nat \<Rightarrow> int" where
  "advance sequence count =
     ((sequence mod 18446744073709551616 + int count) mod 18446744073709551616) mod (i32_max + 1)"

definition producer_new :: "int \<Rightarrow> int \<Rightarrow> producer_state" where
  "producer_new pid epoch = \<lparr>ps_id = pid, ps_epoch = epoch, ps_batches = []\<rparr>"

text \<open>
  \<open>accept\<close> changes the private snapshot it is called on, also on the overflow error; the
  result carries the snapshot along.
\<close>

definition expected_sequence :: "batch_identity list \<Rightarrow> int" where
  "expected_sequence batches =
     (if batches = [] then 0
      else advance (bi_sequence (last batches)) (bi_count (last batches)))"

definition push_batch :: "batch_identity list \<Rightarrow> batch_identity \<Rightarrow> batch_identity list" where
  "push_batch batches b =
     (let batches' = batches @ [b]
      in if length batches' > RETRY_BATCHES then tl batches' else batches')"

definition accept_batch ::
  "producer_state \<Rightarrow> int \<Rightarrow> nat \<Rightarrow> string \<Rightarrow> int \<Rightarrow> (log_error + append_result) \<times> producer_state" where
  "accept_batch p sequence count fingerprint next_offset =
     (case find (\<lambda>b. bi_sequence b = sequence) (ps_batches p) of
        Some batch \<Rightarrow>
          if bi_count batch \<noteq> count \<or> bi_fingerprint batch \<noteq> fingerprint
          then (Inl ConflictingSequence, p)
          else (Inr \<lparr>ar_base_offset = bi_base_offset batch,
                    ar_last_offset = wrap_i64 (wrap_i64 (bi_base_offset batch + int count) - 1)\<rparr>, p)
      | None \<Rightarrow>
          if sequence \<noteq> expected_sequence (ps_batches p) then (Inl OutOfOrderSequence, p)
          else (case checked_add_i64 next_offset (int count) of
              None \<Rightarrow> (Inl OffsetOverflow, p)
            | Some end_offset \<Rightarrow>
                (Inr \<lparr>ar_base_offset = next_offset, ar_last_offset = wrap_i64 (end_offset - 1)\<rparr>,
                 p\<lparr>ps_batches := push_batch (ps_batches p)
                    \<lparr>bi_sequence = sequence, bi_count = count, bi_base_offset = next_offset,
                     bi_fingerprint = fingerprint\<rparr>\<rparr>)))"

definition accept ::
  "producer_state \<Rightarrow> int \<Rightarrow> int \<Rightarrow> nat \<Rightarrow> string \<Rightarrow> int
   \<Rightarrow> (log_error + append_result) \<times> producer_state" where
  "accept p epoch sequence count fingerprint next_offset =
     (if epoch < ps_epoch p then (Inl InvalidProducerEpoch, p)
      else if epoch > ps_epoch p then
        (if sequence \<noteq> 0 then (Inl OutOfOrderSequence, p)
         else accept_batch (p\<lparr>ps_epoch := epoch, ps_batches := []\<rparr>) sequence count fingerprint next_offset)
      else accept_batch p sequence count fingerprint next_offset)"

section \<open>Validation of stored states and pages\<close>

fun validate_history ::
  "batch_identity option \<Rightarrow> int \<Rightarrow> batch_identity list \<Rightarrow> log_error + unit" where
  "validate_history previous next_offset [] = Inr ()"
| "validate_history previous next_offset (b # bs) =
     (if bi_sequence b < 0 \<or> bi_count b = 0 \<or> bi_count b > MAX_BATCH_RECORDS
       \<or> bi_base_offset b < 0
       \<or> (case checked_add_i64 (bi_base_offset b) (int (bi_count b)) of
            None \<Rightarrow> True | Some end_offset \<Rightarrow> end_offset > next_offset)
       \<or> \<not> valid_checksum (bi_fingerprint b)
       \<or> (case previous of None \<Rightarrow> False | Some p \<Rightarrow>
            advance (bi_sequence p) (bi_count p) \<noteq> bi_sequence b
            \<or> wrap_i64 (bi_base_offset p + int (bi_count p)) > bi_base_offset b)
      then Inl (invalid ''invalid producer batch history'')
      else validate_history (Some b) next_offset bs)"

definition validate_producer_state :: "producer_state \<Rightarrow> int \<Rightarrow> log_error + unit" where
  "validate_producer_state p next_offset =
     (if ps_id p < 0 \<or> ps_epoch p < 0 \<or> ps_batches p = [] \<or> length (ps_batches p) > RETRY_BATCHES
      then Inl (invalid ''invalid producer state'')
      else validate_history None next_offset (ps_batches p))"

text \<open>The capacity of a subtree; an overflowing power saturates.\<close>

definition page_capacity :: "nat \<Rightarrow> nat" where
  "page_capacity level =
     (case checked_pow_u64 PAGE_ENTRIES (level + 1) of None \<Rightarrow> u64_max | Some n \<Rightarrow> n)"

text \<open>The UUID of a page object, if its name lies in the directory and has the suffix.\<close>

definition page_name_ok ::
  "(string \<Rightarrow> bool) \<Rightarrow> string \<Rightarrow> string \<Rightarrow> string \<Rightarrow> bool" where
  "page_name_ok uuid_ok namespace suffix object =
     (case strip_prefix namespace object of
        None \<Rightarrow> False
      | Some rest \<Rightarrow> (case strip_suffix suffix rest of None \<Rightarrow> False | Some name \<Rightarrow> uuid_ok name))"

definition validate_producer_ref ::
  "(string \<Rightarrow> bool) \<Rightarrow> producer_ref \<Rightarrow> string \<Rightarrow> string \<Rightarrow> int \<Rightarrow> log_error + unit" where
  "validate_producer_ref uuid_ok r prefix topic part =
     (let namespace = partition_dir prefix topic part @ ''producer-state/''
      in if \<not> page_name_ok uuid_ok namespace ''.json'' (pf_object r)
          \<or> pf_first_id r < 0
          \<or> pf_last_id r < pf_first_id r
          \<or> pf_count r = 0
          \<or> pf_count r > nat (pf_last_id r - pf_first_id r) + 1
          \<or> pf_level r > PRODUCER_MAX_LEVEL
          \<or> pf_count r > page_capacity (pf_level r)
          \<or> pf_byte_length r = 0
          \<or> pf_byte_length r > MAX_MANIFEST_BYTES
          \<or> \<not> valid_checksum (pf_sha256 r)
         then Inl (invalid ''invalid producer page reference'')
         else Inr ())"

text \<open>\<open>windows(2).any(p)\<close>.\<close>

fun windows2_any :: "('a \<Rightarrow> 'a \<Rightarrow> bool) \<Rightarrow> 'a list \<Rightarrow> bool" where
  "windows2_any p (x # y # xs) \<longleftrightarrow> p x y \<or> windows2_any p (y # xs)"
| "windows2_any p _ \<longleftrightarrow> False"

fun producer_children_count ::
  "(string \<Rightarrow> bool) \<Rightarrow> string \<Rightarrow> string \<Rightarrow> int \<Rightarrow> nat \<Rightarrow> producer_ref list \<Rightarrow> nat \<Rightarrow> log_error + nat" where
  "producer_children_count uuid_ok prefix topic part level [] count = Inr count"
| "producer_children_count uuid_ok prefix topic part level (child # children) count =
     attempt (validate_producer_ref uuid_ok child prefix topic part) (\<lambda>_.
     attempt (ok_or (checked_add_u64 count (pf_count child)) (invalid ''producer count overflow'')) (\<lambda>count'.
       if pf_level child \<noteq> level then Inl (invalid ''unequal producer page levels'')
       else producer_children_count uuid_ok prefix topic part level children count'))"

fun producer_page_bounds ::
  "(string \<Rightarrow> bool) \<Rightarrow> producer_page \<Rightarrow> string \<Rightarrow> string \<Rightarrow> int \<Rightarrow> int
   \<Rightarrow> log_error + (int \<times> int \<times> nat \<times> nat)" where
  "producer_page_bounds uuid_ok (PLeaf producers) prefix topic part next_offset =
     (if producers = [] \<or> length producers > PAGE_ENTRIES
      then Inl (invalid ''invalid producer leaf size'')
      else attempt (try_all (\<lambda>p. validate_producer_state p next_offset) producers) (\<lambda>_.
        if windows2_any (\<lambda>p q. ps_id p \<ge> ps_id q) producers
        then Inl (invalid ''unordered producer leaf'')
        else Inr (ps_id (hd producers), ps_id (last producers), length producers, 0)))"
| "producer_page_bounds uuid_ok (PBranch children) prefix topic part next_offset =
     (if length children < 2 \<or> length children > PAGE_ENTRIES
      then Inl (invalid ''invalid producer branch size'')
      else attempt (producer_children_count uuid_ok prefix topic part (pf_level (hd children)) children 0) (\<lambda>count.
        if windows2_any (\<lambda>c d. pf_last_id c \<ge> pf_first_id d) children
        then Inl (invalid ''overlapping producer pages'')
        else Inr (pf_first_id (hd children), pf_last_id (last children), count,
                  pf_level (hd children) + 1)))"

section \<open>Sequence arithmetic\<close>

lemma advance_eq: "advance s c = (s + int c) mod 2147483648"
proof -
  have dvd: "(2147483648 :: int) dvd 18446744073709551616" by simp
  have "advance s c = (s mod 18446744073709551616 + int c) mod 2147483648"
    unfolding advance_def i32_max_def by (simp add: mod_mod_cancel [OF dvd])
  also have "\<dots> = (s mod 18446744073709551616 mod 2147483648 + int c) mod 2147483648"
    by (rule mod_add_left_eq [symmetric])
  also have "\<dots> = (s + int c) mod 2147483648"
    unfolding mod_mod_cancel [OF dvd] by (rule mod_add_left_eq)
  finally show ?thesis .
qed

lemma advance_range: "0 \<le> advance s c" "advance s c \<le> i32_max"
proof -
  have "0 \<le> (s + int c) mod 2147483648" "(s + int c) mod 2147483648 < 2147483648" by simp_all
  then show "0 \<le> advance s c" "advance s c \<le> i32_max"
    unfolding advance_eq i32_max_def by linarith+
qed

lemma windows2_any_iff: "windows2_any p xs \<longleftrightarrow> \<not> successively (\<lambda>x y. \<not> p x y) xs"
  by (induction p xs rule: windows2_any.induct) auto

text \<open>
  The histories that \<open>validate_history\<close> accepts: every batch is in bounds and each one
  continues its predecessor's sequence and lies behind it in the log.
\<close>

definition batch_ok :: "int \<Rightarrow> batch_identity \<Rightarrow> bool" where
  "batch_ok next_offset b \<longleftrightarrow>
     0 \<le> bi_sequence b \<and> 0 < bi_count b \<and> bi_count b \<le> MAX_BATCH_RECORDS
   \<and> 0 \<le> bi_base_offset b \<and> bi_base_offset b + int (bi_count b) \<le> next_offset
   \<and> valid_checksum (bi_fingerprint b)"

definition follows :: "batch_identity \<Rightarrow> batch_identity \<Rightarrow> bool" where
  "follows p b \<longleftrightarrow> advance (bi_sequence p) (bi_count p) = bi_sequence b
     \<and> bi_base_offset p + int (bi_count p) \<le> bi_base_offset b"

lemma validate_history_iff:
  assumes n: "in_i64 n"
  shows "validate_history prev n bs = Inr u \<longleftrightarrow>
     (\<forall>b \<in> set bs. batch_ok n b) \<and> successively follows bs
   \<and> (case (prev, bs) of (Some p, b # _) \<Rightarrow>
        advance (bi_sequence p) (bi_count p) = bi_sequence b
        \<and> wrap_i64 (bi_base_offset p + int (bi_count p)) \<le> bi_base_offset b | _ \<Rightarrow> True)"
  using n
proof (induction prev n bs rule: validate_history.induct)
  case (2 prev n b bs)
  note n = "2.prems"
  have bounds: "batch_ok n b \<longleftrightarrow>
      \<not> (bi_sequence b < 0 \<or> bi_count b = 0 \<or> bi_count b > MAX_BATCH_RECORDS
        \<or> bi_base_offset b < 0
        \<or> (case checked_add_i64 (bi_base_offset b) (int (bi_count b)) of
             None \<Rightarrow> True | Some end_offset \<Rightarrow> end_offset > n)
        \<or> \<not> valid_checksum (bi_fingerprint b))"
    using in_i64_le [OF n, of "bi_base_offset b + int (bi_count b)"]
    by (auto simp: batch_ok_def split: option.splits)
  have wrap: "batch_ok n b \<Longrightarrow>
      wrap_i64 (bi_base_offset b + int (bi_count b)) = bi_base_offset b + int (bi_count b)"
    by (intro wrap_i64_id in_i64_le [OF n]) (auto simp: batch_ok_def)
  show ?case
  proof (cases "batch_ok n b")
    case True
    with 2 bounds wrap [OF True] show ?thesis
      by (cases prev; cases bs) (auto simp: follows_def)
  next
    case False
    then show ?thesis using bounds by auto
  qed
qed (auto split: option.splits)

definition producer_state_ok :: "int \<Rightarrow> producer_state \<Rightarrow> bool" where
  "producer_state_ok n p \<longleftrightarrow> 0 \<le> ps_id p \<and> 0 \<le> ps_epoch p
     \<and> length (ps_batches p) \<le> RETRY_BATCHES
     \<and> (\<forall>b \<in> set (ps_batches p). batch_ok n b) \<and> successively follows (ps_batches p)"

lemma validate_producer_state_iff:
  "in_i64 n \<Longrightarrow> validate_producer_state p n = Inr () \<longleftrightarrow>
     producer_state_ok n p \<and> ps_batches p \<noteq> []"
  by (auto simp: validate_producer_state_def producer_state_ok_def validate_history_iff)

section \<open>The decision on one batch\<close>

lemma expected_sequence_snoc [simp]:
  "expected_sequence (bs @ [b]) = advance (bi_sequence b) (bi_count b)"
  by (simp add: expected_sequence_def)

lemma last_push_batch [simp]: "last (push_batch bs b) = b" "push_batch bs b \<noteq> []"
  by (cases bs; auto simp: push_batch_def RETRY_BATCHES_def Let_def last_tl)+

lemma push_batch_cases:
  "push_batch bs b = bs @ [b] \<or> (bs \<noteq> [] \<and> push_batch bs b = tl bs @ [b])"
  by (cases bs) (auto simp: push_batch_def Let_def RETRY_BATCHES_def)

lemma push_batch_length: "length bs \<le> RETRY_BATCHES \<Longrightarrow> length (push_batch bs b) \<le> RETRY_BATCHES"
  by (auto simp: push_batch_def Let_def RETRY_BATCHES_def)

lemma push_batch_drop:
  "push_batch (drop (length hs - RETRY_BATCHES) hs) b
     = drop (Suc (length hs) - RETRY_BATCHES) (hs @ [b])"
proof (cases "RETRY_BATCHES \<le> length hs")
  case True
  then have "Suc (length hs - RETRY_BATCHES) = Suc (length hs) - RETRY_BATCHES"
    by (simp add: Suc_diff_le)
  moreover have "tl (drop (length hs - RETRY_BATCHES) hs) = drop (Suc (length hs - RETRY_BATCHES)) hs"
    by (simp add: drop_Suc tl_drop)
  moreover have "drop (length hs - RETRY_BATCHES) hs \<noteq> []"
    using True by (simp add: RETRY_BATCHES_def)
  ultimately show ?thesis using True
    by (simp add: push_batch_def Let_def)
next
  case False
  then show ?thesis by (auto simp: push_batch_def Let_def RETRY_BATCHES_def)
qed

lemma accept_batch_cases:
  assumes "accept_batch p s c f n = (Inr r, p')"
  obtains
    (retry) b where "p' = p" "b \<in> set (ps_batches p)" "bi_sequence b = s"
      "bi_count b = c" "bi_fingerprint b = f" "ar_base_offset r = bi_base_offset b"
      "ar_last_offset r = wrap_i64 (wrap_i64 (bi_base_offset b + int c) - 1)"
  | (fresh) "s = expected_sequence (ps_batches p)" "\<forall>b \<in> set (ps_batches p). bi_sequence b \<noteq> s"
      "in_i64 (n + int c)" "r = \<lparr>ar_base_offset = n, ar_last_offset = wrap_i64 (n + int c - 1)\<rparr>"
      "p' = p\<lparr>ps_batches := push_batch (ps_batches p)
         \<lparr>bi_sequence = s, bi_count = c, bi_base_offset = n, bi_fingerprint = f\<rparr>\<rparr>"
proof (cases "find (\<lambda>b. bi_sequence b = s) (ps_batches p)")
  case None
  with assms fresh show ?thesis
    by (simp add: accept_batch_def find_None_iff split: if_splits option.splits)
next
  case (Some b)
  then have "b \<in> set (ps_batches p)" "bi_sequence b = s"
    by (auto simp: find_Some_iff)
  with assms Some retry show ?thesis
    by (auto simp: accept_batch_def split: if_splits)
qed

section \<open>Sequence numbers as record counts\<close>

text \<open>
  A history is numbered from \<open>t\<close> if every batch's sequence is the number of records
  before it, modulo 2^31.
\<close>

definition total_count :: "batch_identity list \<Rightarrow> int" where
  "total_count bs = (\<Sum>b\<leftarrow>bs. int (bi_count b))"

lemma total_count_simps [simp]:
  "total_count [] = 0" "total_count (b # bs) = int (bi_count b) + total_count bs"
  "total_count (xs @ ys) = total_count xs + total_count ys"
  by (simp_all add: total_count_def)

fun numbered_from :: "int \<Rightarrow> batch_identity list \<Rightarrow> bool" where
  "numbered_from t [] \<longleftrightarrow> True"
| "numbered_from t (b # bs) \<longleftrightarrow>
     bi_sequence b = t mod 2147483648 \<and> numbered_from (t + int (bi_count b)) bs"

lemma numbered_from_append [simp]:
  "numbered_from t (xs @ ys) \<longleftrightarrow> numbered_from t xs \<and> numbered_from (t + total_count xs) ys"
  by (induction xs arbitrary: t) (auto simp: add.assoc)

lemma numbered_from_mod:
  "numbered_from (t mod 2147483648) bs \<longleftrightarrow> numbered_from t bs"
proof (induction bs arbitrary: t)
  case (Cons b bs)
  from Cons.IH [of "t mod 2147483648 + int (bi_count b)"] Cons.IH [of "t + int (bi_count b)"]
  show ?case by (simp add: mod_add_left_eq)
qed simp

lemma expected_sequence_numbered:
  "numbered_from t bs \<Longrightarrow> bs \<noteq> [] \<Longrightarrow> expected_sequence bs = (t + total_count bs) mod 2147483648"
  by (cases bs rule: rev_cases) (auto simp: advance_eq mod_add_left_eq add.assoc)

lemma follows_numbered:
  "successively follows bs \<Longrightarrow> bs \<noteq> [] \<Longrightarrow> 0 \<le> bi_sequence (hd bs) \<Longrightarrow> in_i32 (bi_sequence (hd bs)) \<Longrightarrow>
   numbered_from (bi_sequence (hd bs)) bs"
proof (induction bs)
  case (Cons b bs)
  have b: "bi_sequence b mod 2147483648 = bi_sequence b"
    using Cons.prems by (intro mod_pos_pos_trivial) (auto simp: range_simps)
  show ?case
  proof (cases bs)
    case Nil
    then show ?thesis using b by simp
  next
    case (Cons c cs)
    with Cons.prems have c: "advance (bi_sequence b) (bi_count b) = bi_sequence c"
      by (simp add: follows_def)
    then have "0 \<le> bi_sequence c" "in_i32 (bi_sequence c)"
      using advance_range [of "bi_sequence b" "bi_count b"] by (auto simp: range_simps)
    with Cons.IH Cons Cons.prems have "numbered_from (bi_sequence c) bs" by simp
    then have "numbered_from (bi_sequence b + int (bi_count b)) bs"
      using c numbered_from_mod by (metis advance_eq)
    with b show ?thesis by simp
  qed
qed simp

lemma mod_shift_neq:
  fixes a d :: int
  assumes "0 < d" "d < 2147483648"
  shows "(a + d) mod 2147483648 \<noteq> a mod 2147483648"
proof
  assume "(a + d) mod 2147483648 = a mod 2147483648"
  then have "d mod 2147483648 = 0"
    by (metis mod_eq_dvd_iff add_diff_cancel_left' dvd_imp_mod_0)
  with assms show False by simp
qed

lemma total_count_bounds:
  assumes "\<forall>b \<in> set bs. 0 < bi_count b \<and> bi_count b \<le> MAX_BATCH_RECORDS"
  shows "int (length bs) \<le> total_count bs" "total_count bs \<le> 100000 * int (length bs)"
  using assms by (induction bs) (auto simp: MAX_BATCH_RECORDS_def)

text \<open>
  Five batches of at most 100000 records span far less than 2^31 sequence numbers, so no two
  remembered batches share one and the expected next number is not remembered.
\<close>

lemma window_distinct:
  assumes ok: "producer_state_ok n p" and typed: "\<forall>b \<in> set (ps_batches p). in_i32 (bi_sequence b)"
  shows "distinct (map bi_sequence (ps_batches p))"
    and "b \<in> set (ps_batches p) \<Longrightarrow> bi_sequence b \<noteq> expected_sequence (ps_batches p)"
proof -
  let ?bs = "ps_batches p" and ?t = "bi_sequence (hd (ps_batches p))"
  have counts: "\<forall>b \<in> set ?bs. 0 < bi_count b \<and> bi_count b \<le> MAX_BATCH_RECORDS"
    using ok by (auto simp: producer_state_ok_def batch_ok_def)
  have len: "length ?bs \<le> 5" using ok by (simp add: producer_state_ok_def RETRY_BATCHES_def)
  have num: "?bs \<noteq> [] \<Longrightarrow> numbered_from ?t ?bs"
    using ok typed by (intro follows_numbered) (auto simp: producer_state_ok_def batch_ok_def)
  have apart: "bi_sequence b \<noteq> (?t + total_count (xs @ b # ys)) mod 2147483648"
    if split: "?bs = xs @ b # ys @ zs" for b xs ys zs
  proof -
    have "numbered_from ?t ?bs" using num split by auto
    then have b: "bi_sequence b = (?t + total_count xs) mod 2147483648" using split by simp
    have "\<forall>b \<in> set (b # ys). 0 < bi_count b \<and> bi_count b \<le> MAX_BATCH_RECORDS" using counts split by auto
    from total_count_bounds [OF this]
    have "0 < total_count (b # ys)" "total_count (b # ys) < 2147483648" using len split by auto
    from mod_shift_neq [OF this, of "?t + total_count xs"] b show ?thesis
      by (simp add: algebra_simps)
  qed
  show "distinct (map bi_sequence ?bs)"
  proof (rule ccontr)
    assume "\<not> distinct (map bi_sequence ?bs)"
    then obtain us vs ws y where "map bi_sequence ?bs = us @ [y] @ vs @ [y] @ ws"
      using not_distinct_decomp by blast
    then obtain xs b ys c zs where bs: "?bs = xs @ b # ys @ c # zs" and eq: "bi_sequence b = bi_sequence c"
      by (auto simp: map_eq_append_conv map_eq_Cons_conv append_eq_map_conv)
    have "numbered_from ?t ?bs" using num bs by auto
    then have "bi_sequence c = (?t + total_count (xs @ b # ys)) mod 2147483648"
      using bs by (simp add: add.assoc)
    with apart [OF bs] eq show False by simp
  qed
  show "bi_sequence b \<noteq> expected_sequence ?bs" if b: "b \<in> set ?bs"
  proof -
    from b obtain xs ys where bs: "?bs = xs @ b # ys @ []" by (auto simp: in_set_conv_decomp)
    have "expected_sequence ?bs = (?t + total_count (xs @ b # ys)) mod 2147483648"
      using expected_sequence_numbered [OF num] bs by auto
    with apart [OF bs] show ?thesis by simp
  qed
qed

section \<open>Properties of the decision\<close>

lemma accept_repeated:
  assumes "accept p e s c f n = (Inr r, p')"
  shows "accept p' e s c f n' = (Inr r, p')"
proof -
  have batch: "accept_batch q' s c f n' = (Inr r, q') \<and> ps_epoch q' = ps_epoch q"
    if q: "accept_batch q s c f n = (Inr r, q')" for q q'
  using q proof (cases rule: accept_batch_cases)
    case (retry b)
    then obtain b' where "find (\<lambda>b. bi_sequence b = s) (ps_batches q) = Some b'"
      by (cases "find (\<lambda>b. bi_sequence b = s) (ps_batches q)") (auto simp: find_None_iff)
    with q retry(1) show ?thesis by (simp add: accept_batch_def split: if_splits)
  next
    case fresh
    let ?b = "\<lparr>bi_sequence = s, bi_count = c, bi_base_offset = n, bi_fingerprint = f\<rparr>"
    have "find (\<lambda>b. bi_sequence b = s) (xs @ [?b]) = Some ?b"
      if "set xs \<subseteq> set (ps_batches q)" for xs
      using that fresh(2) by (induction xs) auto
    moreover have "set (tl (ps_batches q)) \<subseteq> set (ps_batches q)" by (cases "ps_batches q") auto
    ultimately have "find (\<lambda>b. bi_sequence b = s) (push_batch (ps_batches q) ?b) = Some ?b"
      using push_batch_cases [of "ps_batches q" ?b] by auto
    with fresh show ?thesis by (simp add: accept_batch_def)
  qed
  show ?thesis
  proof (cases "ps_epoch p < e")
    case True
    with assms batch [of "p\<lparr>ps_epoch := e, ps_batches := []\<rparr>" p'] show ?thesis
      by (auto simp: accept_def split: if_splits)
  next
    case False
    with assms batch [of p p'] show ?thesis by (auto simp: accept_def split: if_splits)
  qed
qed

text \<open>The batches that count in epoch \<open>e\<close>: a newer epoch starts afresh.\<close>

definition remembered :: "producer_state \<Rightarrow> int \<Rightarrow> batch_identity list" where
  "remembered p e = (if ps_epoch p < e then [] else ps_batches p)"

lemma accept_remembered:
  assumes "ps_epoch p \<le> e" "ps_epoch p < e \<longrightarrow> s = 0"
  shows "accept p e s c f n = accept_batch (p\<lparr>ps_epoch := e, ps_batches := remembered p e\<rparr>) s c f n"
proof -
  have "p\<lparr>ps_epoch := ps_epoch p, ps_batches := ps_batches p\<rparr> = p" by simp
  then show ?thesis using assms by (cases "ps_epoch p = e") (auto simp: accept_def remembered_def)
qed

text \<open>C5 (accept_exactly_once). The decision about a batch of a producer epoch, on a valid producer state. It is accepted
  in exactly two cases. Either the state remembers a batch with this sequence number, count and
  fingerprint; then the answer is that batch's offsets and the state does not change. Or no remembered
  batch has the sequence number, and it is the expected one, the number after the last
  remembered batch; then the batch gets the offsets from the end of the log and is remembered.
  Otherwise the batch is rejected: for an older epoch, for a remembered sequence number with other contents, for
  a sequence number out of order, or for an offset beyond the range of \<open>i64\<close>, in this order. An accepted batch that is sent again, whatever the log's
  end is by then, gets the same answer and changes nothing, so it is appended once.\<close>

theorem accept_exactly_once:
  assumes "producer_state_ok n p" "in_i64 n" "0 \<le> n" "\<forall>b \<in> set (ps_batches p). in_i32 (bi_sequence b)"
  shows "case accept p e s c f n of
      (Inr r, p') \<Rightarrow> ps_epoch p \<le> e
        \<and> ((\<exists>b \<in> set (remembered p e). bi_sequence b = s \<and> bi_count b = c \<and> bi_fingerprint b = f
               \<and> r = \<lparr>ar_base_offset = bi_base_offset b, ar_last_offset = bi_base_offset b + int c - 1\<rparr> \<and> p' = p)
           \<or> (s = expected_sequence (remembered p e) \<and> s \<notin> bi_sequence ` set (remembered p e)
               \<and> r = \<lparr>ar_base_offset = n, ar_last_offset = n + int c - 1\<rparr>
               \<and> p' = p\<lparr>ps_epoch := e, ps_batches := push_batch (remembered p e)
                    \<lparr>bi_sequence = s, bi_count = c, bi_base_offset = n, bi_fingerprint = f\<rparr>\<rparr>))
        \<and> (\<forall>n'. accept p' e s c f n' = (Inr r, p'))
    | (Inl err, p') \<Rightarrow>
        if e < ps_epoch p then err = InvalidProducerEpoch
        else if s \<in> bi_sequence ` set (remembered p e)
        then err = ConflictingSequence
          \<and> (\<forall>b \<in> set (remembered p e). bi_sequence b = s \<longrightarrow> bi_count b \<noteq> c \<or> bi_fingerprint b \<noteq> f)
        else if s \<noteq> expected_sequence (remembered p e) then err = OutOfOrderSequence
        else err = OffsetOverflow \<and> \<not> in_i64 (n + int c)"
proof (cases "ps_epoch p \<le> e \<and> (ps_epoch p < e \<longrightarrow> s = 0)")
  case False
  then show ?thesis by (auto simp: accept_def remembered_def expected_sequence_def)
next
  case True
  let ?q = "p\<lparr>ps_epoch := e, ps_batches := remembered p e\<rparr>"
  have acc: "accept p e s c f n = accept_batch ?q s c f n" by (rule accept_remembered) (use True in auto)
  have q: "ps_batches ?q = remembered p e" "remembered p e \<noteq> [] \<Longrightarrow> ?q = p"
    using True by (auto simp: remembered_def split: if_splits)
  have sub: "set (remembered p e) \<subseteq> set (ps_batches p)" by (simp add: remembered_def)
  obtain x p' where out: "accept p e s c f n = (x, p')" by force
  show ?thesis
  proof (cases x)
    case (Inr r)
    note again = accept_repeated [OF out [unfolded Inr]]
    from out acc Inr have "accept_batch ?q s c f n = (Inr r, p')" by simp
    then have "(\<exists>b \<in> set (remembered p e). bi_sequence b = s \<and> bi_count b = c \<and> bi_fingerprint b = f
               \<and> r = \<lparr>ar_base_offset = bi_base_offset b, ar_last_offset = bi_base_offset b + int c - 1\<rparr> \<and> p' = p)
           \<or> (s = expected_sequence (remembered p e) \<and> s \<notin> bi_sequence ` set (remembered p e)
               \<and> r = \<lparr>ar_base_offset = n, ar_last_offset = n + int c - 1\<rparr>
               \<and> p' = p\<lparr>ps_epoch := e, ps_batches := push_batch (remembered p e)
                    \<lparr>bi_sequence = s, bi_count = c, bi_base_offset = n, bi_fingerprint = f\<rparr>\<rparr>)"
    proof (cases rule: accept_batch_cases)
      case (retry b)
      then have b: "b \<in> set (remembered p e)" using q(1) by simp
      with sub assms(1) have "batch_ok n b" by (auto simp: producer_state_ok_def)
      then have "in_i64 (bi_base_offset b + int c)" "in_i64 (bi_base_offset b + int c - 1)"
        using retry(4) assms(2) by (auto simp: batch_ok_def range_simps)
      moreover have "p' = p" using q(2) b retry(1) by force
      ultimately show ?thesis using b retry by (intro disjI1 bexI [of _ b]) (cases r, simp)+
    next
      case fresh
      have "in_i64 (n + int c - 1)" using fresh(3) assms(3) by (auto simp: range_simps)
      with fresh show ?thesis using q(1) by (intro disjI2) auto
    qed
    with out Inr again True show ?thesis by simp
  next
    case (Inl err)
    have "if s \<in> bi_sequence ` set (remembered p e)
        then err = ConflictingSequence
          \<and> (\<forall>b \<in> set (remembered p e). bi_sequence b = s \<longrightarrow> bi_count b \<noteq> c \<or> bi_fingerprint b \<noteq> f)
        else if s \<noteq> expected_sequence (remembered p e) then err = OutOfOrderSequence
        else err = OffsetOverflow \<and> \<not> in_i64 (n + int c)"
    proof (cases "find (\<lambda>b. bi_sequence b = s) (remembered p e)")
      case None
      with out acc Inl show ?thesis
        by (auto simp: accept_batch_def find_None_iff checked_add_i64_def split: if_splits option.splits)
    next
      case (Some b)
      then have b: "b \<in> set (remembered p e)" "bi_sequence b = s" by (auto simp: find_Some_iff)
      have "distinct (map bi_sequence (remembered p e))"
        using window_distinct(1) [OF assms(1,4)] by (simp add: remembered_def)
      then have "b' = b" if "b' \<in> set (remembered p e)" "bi_sequence b' = s" for b'
        using that b by (auto simp: distinct_map inj_on_def)
      then have only: "\<forall>b' \<in> set (remembered p e). bi_sequence b' = s \<longrightarrow> b' = b" by blast
      have here: "s \<in> bi_sequence ` set (remembered p e)" using b by blast
      from Some out acc Inl have "bi_count b \<noteq> c \<or> bi_fingerprint b \<noteq> f" "err = ConflictingSequence"
        by (simp_all add: accept_batch_def split: if_splits)
      with only have "\<forall>b' \<in> set (remembered p e). bi_sequence b' = s \<longrightarrow> bi_count b' \<noteq> c \<or> bi_fingerprint b' \<noteq> f" by blast
      with here \<open>err = ConflictingSequence\<close> show ?thesis by simp
    qed
    with out Inl True show ?thesis by simp
  qed
qed

theorem accept_exactly_once_witness:
  "accept (producer_new 7 0) 0 0 3 ''f'' 10 =
     (Inr \<lparr>ar_base_offset = 10, ar_last_offset = 12\<rparr>,
      \<lparr>ps_id = 7, ps_epoch = 0, ps_batches =
        [\<lparr>bi_sequence = 0, bi_count = 3, bi_base_offset = 10, bi_fingerprint = ''f''\<rparr>]\<rparr>)
   \<and> accept \<lparr>ps_id = 7, ps_epoch = 0, ps_batches =
        [\<lparr>bi_sequence = 0, bi_count = 3, bi_base_offset = 10, bi_fingerprint = ''f''\<rparr>]\<rparr> 0 0 3 ''f'' 500 =
     (Inr \<lparr>ar_base_offset = 10, ar_last_offset = 12\<rparr>,
      \<lparr>ps_id = 7, ps_epoch = 0, ps_batches =
        [\<lparr>bi_sequence = 0, bi_count = 3, bi_base_offset = 10, bi_fingerprint = ''f''\<rparr>]\<rparr>)"
proof -
  have h: "accept (producer_new 7 0) 0 0 3 ''f'' 10 =
     (Inr \<lparr>ar_base_offset = 10, ar_last_offset = 12\<rparr>,
      \<lparr>ps_id = 7, ps_epoch = 0, ps_batches =
        [\<lparr>bi_sequence = 0, bi_count = 3, bi_base_offset = 10, bi_fingerprint = ''f''\<rparr>]\<rparr>)"
    by (simp add: accept_def accept_batch_def producer_new_def expected_sequence_def push_batch_def
        RETRY_BATCHES_def checked_add_i64_def range_simps wrap_i64_def)
  have "producer_state_ok 10 (producer_new 7 0)" "in_i64 10" "\<forall>b \<in> set (ps_batches (producer_new 7 0)). in_i32 (bi_sequence b)"
    by (simp_all add: producer_state_ok_def producer_new_def RETRY_BATCHES_def range_simps)
  from accept_exactly_once [OF this(1,2) _ this(3), of 0 0 3 "''f''"] h show ?thesis by simp
qed

lemma accept_batch_keeps_ok:
  assumes ok: "producer_state_ok n p" and n: "in_i64 n" "0 \<le> n"
    and c: "0 < c" "c \<le> MAX_BATCH_RECORDS" and f: "valid_checksum f"
    and acc: "accept_batch p s c f n = (Inr r, p')"
  shows "producer_state_ok (max n (ar_last_offset r + 1)) p' \<and> ps_batches p' \<noteq> []
    \<and> ar_last_offset r = ar_base_offset r + int c - 1 \<and> ps_id p' = ps_id p \<and> ps_epoch p' = ps_epoch p
    \<and> in_i64 (ar_last_offset r + 1) \<and> 0 \<le> ar_base_offset r
    \<and> (if ar_base_offset r = n then p' \<noteq> p else p' = p \<and> ar_last_offset r < n)"
  using acc
proof (cases rule: accept_batch_cases)
  case (retry b)
  then have b: "batch_ok n b" using ok by (auto simp: producer_state_ok_def)
  then have range: "0 \<le> bi_base_offset b" "bi_base_offset b + int c \<le> n" "bi_base_offset b < n"
    using retry c by (auto simp: batch_ok_def)
  then have "in_i64 (bi_base_offset b + int c)" "in_i64 (bi_base_offset b + int c - 1)"
    using c by (auto intro!: in_i64_le [OF n(1)])
  then have last: "ar_last_offset r = bi_base_offset b + int c - 1"
    using retry by simp
  have "max n (ar_last_offset r + 1) = n" using last range by simp
  moreover have "ps_batches p \<noteq> []" using retry by auto
  moreover have "in_i64 (ar_last_offset r + 1)"
    using last \<open>in_i64 (bi_base_offset b + int c)\<close> by simp
  ultimately show ?thesis using retry(1,6) last range ok by simp
next
  case fresh
  let ?b = "\<lparr>bi_sequence = s, bi_count = c, bi_base_offset = n, bi_fingerprint = f\<rparr>"
  have last: "ar_last_offset r = n + int c - 1"
    using fresh(3,4) n c in_i64_pred [of "n + int c"] by simp
  have mono: "batch_ok (n + int c) b" if "batch_ok n b" for b
    using that by (auto simp: batch_ok_def)
  have new: "batch_ok (n + int c) ?b"
    using c f n fresh(1) advance_range by (auto simp: batch_ok_def expected_sequence_def)
  have chain: "successively follows (bs @ [?b])"
    if "successively follows bs" "bs \<noteq> [] \<Longrightarrow> last bs = last (ps_batches p)" "bs \<noteq> [] \<Longrightarrow> ps_batches p \<noteq> []" for bs
  proof (cases bs rule: rev_cases)
    case (snoc ys b)
    then have "b = last (ps_batches p)" "ps_batches p \<noteq> []" using that by auto
    then have "follows b ?b"
      using ok fresh(1) by (auto simp: follows_def expected_sequence_def producer_state_ok_def batch_ok_def)
    with that(1) snoc show ?thesis by (simp add: successively_append_iff)
  qed simp
  have "successively follows (push_batch (ps_batches p) ?b)"
  proof (cases "push_batch (ps_batches p) ?b = ps_batches p @ [?b]")
    case True
    then show ?thesis using chain [of "ps_batches p"] ok by (simp add: producer_state_ok_def)
  next
    case False
    then have tl: "ps_batches p \<noteq> []" "push_batch (ps_batches p) ?b = tl (ps_batches p) @ [?b]"
      using push_batch_cases [of "ps_batches p" ?b] by auto
    have "successively follows (tl (ps_batches p))"
      using ok by (cases "ps_batches p") (auto simp: producer_state_ok_def successively_Cons)
    with tl show ?thesis using chain [of "tl (ps_batches p)"] by (simp add: last_tl)
  qed
  moreover have "set (push_batch (ps_batches p) ?b) \<subseteq> insert ?b (set (ps_batches p))"
    using push_batch_cases [of "ps_batches p" ?b] by (auto dest: list.set_sel(2))
  ultimately have "producer_state_ok (n + int c) p'"
    using fresh(5) ok mono new push_batch_length [of "ps_batches p" ?b]
    by (auto simp: producer_state_ok_def dest!: subsetD)
  moreover have "p' \<noteq> p"
  proof
    assume "p' = p"
    then have "last (ps_batches p) = ?b" "ps_batches p \<noteq> []"
      using fresh(5) last_push_batch [of "ps_batches p" ?b] by (metis producer_state.select_convs(3) producer_state.surjective producer_state.update_convs(3))+
    then show False using fresh(2) by (metis batch_identity.select_convs(1) last_in_set)
  qed
  ultimately show ?thesis using fresh last n c by (auto simp: max_def)
qed

lemma producer_state_ok_reset:
  "producer_state_ok n p \<Longrightarrow> ps_epoch p \<le> e \<Longrightarrow> producer_state_ok n (p\<lparr>ps_epoch := e, ps_batches := []\<rparr>)"
  by (auto simp: producer_state_ok_def)

lemma accept_keeps_ok:
  assumes ok: "producer_state_ok n p" and n: "in_i64 n" "0 \<le> n"
    and c: "0 < c" "c \<le> MAX_BATCH_RECORDS" and f: "valid_checksum f"
    and acc: "accept p e s c f n = (Inr r, p')"
  shows "producer_state_ok (max n (ar_last_offset r + 1)) p' \<and> ps_batches p' \<noteq> []
    \<and> ar_last_offset r = ar_base_offset r + int c - 1 \<and> ps_id p' = ps_id p \<and> ps_epoch p' = e
    \<and> in_i64 (ar_last_offset r + 1) \<and> 0 \<le> ar_base_offset r
    \<and> (if ar_base_offset r = n then p' \<noteq> p else p' = p \<and> ar_last_offset r < n)"
proof (cases "ps_epoch p < e")
  case True
  let ?q = "p\<lparr>ps_epoch := e, ps_batches := []\<rparr>"
  have acc': "accept_batch ?q s c f n = (Inr r, p')"
    using acc True by (simp add: accept_def split: if_splits)
  from acc' have "ar_base_offset r = n" by (cases rule: accept_batch_cases) auto
  with True accept_batch_keeps_ok [OF producer_state_ok_reset [OF ok, of e] n c f acc'] show ?thesis
    by (auto simp: max_def)
next
  case False
  then have "ps_epoch p = e" "accept_batch p s c f n = (Inr r, p')"
    using acc by (auto simp: accept_def split: if_splits)
  with accept_batch_keeps_ok [OF ok n c f] show ?thesis by blast
qed

text \<open>An accepted batch leaves a state that passes the stored-state
  check at the new end of the log; the answer covers exactly the batch's records; and the
  answer starts at the log's end exactly when the batch is new (otherwise the state is unchanged),
  which is the test \<open>prepare_append\<close> uses to tell new batches from retries.\<close>

theorem accept_keeps_state_valid:
  assumes "validate_producer_state p n = Inr () \<or> (\<exists>pid \<ge> 0. \<exists>ep \<ge> 0. p = producer_new pid ep)"
    and "in_i64 n" "0 \<le> n" "0 < c" "c \<le> MAX_BATCH_RECORDS" "valid_checksum f"
    and "accept p e s c f n = (Inr r, p')"
  shows "validate_producer_state p' (max n (ar_last_offset r + 1)) = Inr ()
    \<and> ar_last_offset r = ar_base_offset r + int c - 1
    \<and> (ar_base_offset r = n \<longleftrightarrow> p' \<noteq> p)
    \<and> (ar_base_offset r = n \<or> ar_last_offset r < n)"
proof -
  have ok: "producer_state_ok n p"
    using assms(1,2) by (auto simp: validate_producer_state_iff producer_state_ok_def producer_new_def)
  note kept = accept_keeps_ok [OF ok assms(2-7)]
  from kept have "in_i64 (ar_last_offset r + 1)" by blast
  with assms(2) have "in_i64 (max n (ar_last_offset r + 1))"
    by (cases "n \<le> ar_last_offset r + 1") (simp_all only: max_def if_True if_False)
  with kept have "validate_producer_state p' (max n (ar_last_offset r + 1)) = Inr ()"
    by (intro iffD2 [OF validate_producer_state_iff]) blast+
  then show ?thesis using kept by (simp split: if_splits)
qed

definition zero_checksum :: string where
  "zero_checksum = replicate 64 (CHR ''0'')"

lemma zero_checksum_valid [simp]: "valid_checksum zero_checksum"
  by (simp add: zero_checksum_def valid_checksum_def is_ascii_hexdigit_def is_ascii_digit_def list_all_iff)

theorem accept_keeps_state_valid_witness:
  "validate_producer_state
     \<lparr>ps_id = 7, ps_epoch = 0, ps_batches =
        [\<lparr>bi_sequence = 0, bi_count = 3, bi_base_offset = 10, bi_fingerprint = zero_checksum\<rparr>]\<rparr> 13 = Inr ()"
proof -
  have acc: "accept (producer_new 7 0) 0 0 3 zero_checksum 10 =
     (Inr \<lparr>ar_base_offset = 10, ar_last_offset = 12\<rparr>,
      \<lparr>ps_id = 7, ps_epoch = 0, ps_batches =
        [\<lparr>bi_sequence = 0, bi_count = 3, bi_base_offset = 10, bi_fingerprint = zero_checksum\<rparr>]\<rparr>)"
    by (simp add: accept_def accept_batch_def producer_new_def expected_sequence_def push_batch_def
        RETRY_BATCHES_def checked_add_i64_def range_simps wrap_i64_def)
  have "validate_producer_state
     \<lparr>ps_id = 7, ps_epoch = 0, ps_batches =
        [\<lparr>bi_sequence = 0, bi_count = 3, bi_base_offset = 10, bi_fingerprint = zero_checksum\<rparr>]\<rparr>
     (max 10 (ar_last_offset \<lparr>ar_base_offset = 10, ar_last_offset = 12\<rparr> + 1)) = Inr ()"
  proof (rule accept_keeps_state_valid [OF _ _ _ _ _ _ acc, THEN conjunct1])
    show "validate_producer_state (producer_new 7 0) 10 = Inr ()
        \<or> (\<exists>pid \<ge> 0. \<exists>ep \<ge> 0. producer_new 7 0 = producer_new pid ep)"
      by (intro disjI2 exI [of _ 7] exI [of _ 0] conjI) simp_all
  qed (auto simp: range_simps MAX_BATCH_RECORDS_def)
  then show ?thesis by simp
qed

text \<open>
  The specification of the decision keeps every batch of the epoch. It numbers records
  without gaps, and it answers a sequence of the last five batches as a retry.
\<close>

definition spec_accept ::
  "int \<times> batch_identity list \<Rightarrow> int \<Rightarrow> int \<Rightarrow> nat \<Rightarrow> string \<Rightarrow> int
   \<Rightarrow> (log_error + append_result) \<times> (int \<times> batch_identity list)" where
  "spec_accept st e s c f n =
     (case st of (ep, hist) \<Rightarrow>
      if e < ep then (Inl InvalidProducerEpoch, st)
      else if e > ep \<and> s \<noteq> 0 then (Inl OutOfOrderSequence, st)
      else
        (let h = (if e > ep then [] else hist)
         in case find (\<lambda>b. bi_sequence b = s) (drop (length h - 5) h) of
              Some b \<Rightarrow>
                if bi_count b = c \<and> bi_fingerprint b = f
                then (Inr \<lparr>ar_base_offset = bi_base_offset b,
                           ar_last_offset = bi_base_offset b + int c - 1\<rparr>, (e, h))
                else (Inl ConflictingSequence, (e, h))
            | None \<Rightarrow>
                if s \<noteq> total_count h mod 2147483648 then (Inl OutOfOrderSequence, (e, h))
                else if \<not> in_i64 (n + int c) then (Inl OffsetOverflow, (e, h))
                else (Inr \<lparr>ar_base_offset = n, ar_last_offset = n + int c - 1\<rparr>,
                      (e, h @ [\<lparr>bi_sequence = s, bi_count = c, bi_base_offset = n,
                               bi_fingerprint = f\<rparr>]))))"

definition represents_history :: "producer_state \<Rightarrow> int \<times> batch_identity list \<Rightarrow> bool" where
  "represents_history p st \<longleftrightarrow>
     (case st of (ep, hist) \<Rightarrow>
        ps_epoch p = ep \<and> ps_batches p = drop (length hist - RETRY_BATCHES) hist
        \<and> numbered_from 0 hist
        \<and> (\<forall>b \<in> set hist. 0 \<le> bi_base_offset b \<and> in_i64 (bi_base_offset b + int (bi_count b))))"

text \<open>C33 (accept_refines_history). The five-batch window implements the specification that
  remembers every batch: from related states both give the same answer, error or offsets, and
  related states again. A new batch is accepted exactly when its sequence is the number of
  records accepted in the epoch so far, modulo 2^31.\<close>

lemma accept_batch_refines:
  assumes rel: "represents_history p (ep, hist)" and n: "0 \<le> n"
  shows "\<exists>r p' st'. accept_batch p s c f n = (r, p') \<and> spec_accept (ep, hist) ep s c f n = (r, st')
     \<and> represents_history p' st'"
proof -
  from rel have batches: "ps_batches p = drop (length hist - 5) hist" and num: "numbered_from 0 hist"
    and ep: "ps_epoch p = ep"
    and bounds: "\<forall>b \<in> set hist. 0 \<le> bi_base_offset b \<and> in_i64 (bi_base_offset b + int (bi_count b))"
    by (auto simp: represents_history_def RETRY_BATCHES_def)
  have "expected_sequence (ps_batches p) = expected_sequence hist"
    unfolding batches
    by (cases hist) (auto simp: expected_sequence_def last_drop less_Suc_eq_le [symmetric] simp del: length_greater_0_conv)
  also have "\<dots> = total_count hist mod 2147483648"
    using expected_sequence_numbered [OF num] by (cases "hist = []") (auto simp: expected_sequence_def)
  finally have expected: "expected_sequence (ps_batches p) = total_count hist mod 2147483648" .
  let ?find = "find (\<lambda>b. bi_sequence b = s) (ps_batches p)"
  show ?thesis
  proof (cases ?find)
    case (Some b)
    then have "b \<in> set hist" using batches by (auto simp: find_Some_iff dest: in_set_dropD)
    then have "0 \<le> bi_base_offset b" "in_i64 (bi_base_offset b + int (bi_count b))" using bounds by auto
    then have wrap: "bi_count b = c \<Longrightarrow>
        wrap_i64 (wrap_i64 (bi_base_offset b + int c) - 1) = bi_base_offset b + int c - 1"
      using in_i64_pred [of "bi_base_offset b + int c"] by simp
    show ?thesis using Some rel wrap
      by (auto simp: accept_batch_def spec_accept_def batches)
  next
    case None
    let ?b = "\<lparr>bi_sequence = s, bi_count = c, bi_base_offset = n, bi_fingerprint = f\<rparr>"
    have pushed: "push_batch (ps_batches p) ?b = drop (Suc (length hist) - 5) (hist @ [?b])"
      using push_batch_drop [of hist ?b] by (simp add: batches RETRY_BATCHES_def)
    have wrap: "in_i64 (n + int c) \<Longrightarrow> wrap_i64 (n + int c - 1) = n + int c - 1"
      using in_i64_pred [of "n + int c"] n by simp
    show ?thesis using None rel expected wrap pushed n num bounds
      by (auto simp: accept_batch_def spec_accept_def batches represents_history_def RETRY_BATCHES_def
          split: option.splits)
  qed
qed

theorem accept_refines_history:
  assumes rel: "represents_history p st" and n: "0 \<le> n"
  shows "\<exists>r p' st'. accept p e s c f n = (r, p') \<and> spec_accept st e s c f n = (r, st')
     \<and> represents_history p' st'"
proof -
  obtain ep hist where st: "st = (ep, hist)" by force
  have ep: "ps_epoch p = ep" using rel st by (simp add: represents_history_def)
  consider (low) "e < ep" | (same) "e = ep" | (high) "ep < e" by linarith
  then show ?thesis
  proof cases
    case low
    then show ?thesis using rel st ep by (simp add: accept_def spec_accept_def)
  next
    case same
    then show ?thesis using accept_batch_refines [of p ep hist n s c f] rel st ep n
      by (simp add: accept_def)
  next
    case high
    let ?q = "p\<lparr>ps_epoch := e, ps_batches := []\<rparr>"
    have "represents_history ?q (e, [])" by (simp add: represents_history_def)
    from accept_batch_refines [OF this n, of s c f] high rel st ep show ?thesis
      by (auto simp: accept_def spec_accept_def)
  qed
qed

theorem accept_refines_history_witness:
  "represents_history (producer_new 7 0) (0, []) \<and>
   (\<exists>r p' st'. accept (producer_new 7 0) 0 0 3 zero_checksum 10 = (r, p')
      \<and> spec_accept (0, []) 0 0 3 zero_checksum 10 = (r, st') \<and> represents_history p' st')"
proof -
  have h: "represents_history (producer_new 7 0) (0, [])"
    by (simp add: represents_history_def producer_new_def)
  show ?thesis using h accept_refines_history [OF h, of 10] by simp
qed

text \<open>A producer that continues with the expected sequence is never
  refused: five remembered batches cannot contain that sequence number, so the batch is appended
  at the end of the log (unless the log's offsets are exhausted).\<close>

theorem next_batch_accepted:
  assumes valid: "validate_producer_state p n = Inr ()"
    and typed: "\<forall>b \<in> set (ps_batches p). in_i32 (bi_sequence b)"
    and n: "in_i64 n" "in_i64 (n + int c)" "0 \<le> n"
  shows "fst (accept p (ps_epoch p) (expected_sequence (ps_batches p)) c f n)
    = Inr \<lparr>ar_base_offset = n, ar_last_offset = n + int c - 1\<rparr>"
proof -
  have ok: "producer_state_ok n p" using valid n by (simp add: validate_producer_state_iff)
  have "find (\<lambda>b. bi_sequence b = expected_sequence (ps_batches p)) (ps_batches p) = None"
    using window_distinct(2) [OF ok typed] by (simp add: find_None_iff)
  with n in_i64_pred [of "n + int c"] show ?thesis
    by (simp add: accept_def accept_batch_def split: option.splits)
qed

theorem next_batch_accepted_witness:
  "fst (accept \<lparr>ps_id = 7, ps_epoch = 2, ps_batches =
        [\<lparr>bi_sequence = 2147483646, bi_count = 5, bi_base_offset = 10, bi_fingerprint = zero_checksum\<rparr>]\<rparr>
      2 3 4 zero_checksum 20) = Inr \<lparr>ar_base_offset = 20, ar_last_offset = 23\<rparr>"
proof -
  let ?p = "\<lparr>ps_id = 7, ps_epoch = 2, ps_batches =
        [\<lparr>bi_sequence = 2147483646, bi_count = 5, bi_base_offset = 10, bi_fingerprint = zero_checksum\<rparr>]\<rparr>"
  have "validate_producer_state ?p 20 = Inr ()"
    by (simp add: validate_producer_state_def RETRY_BATCHES_def MAX_BATCH_RECORDS_def
        checked_add_i64_def range_simps)
  from next_batch_accepted [OF this, of 4 zero_checksum] show ?thesis
    by (simp add: expected_sequence_def advance_eq range_simps)
qed

end
