(* ===== verification/Index_Types.thy ===== *)
theory Index_Types
  imports Producer_State
begin

text \<open>
  The data of \<open>src/log/index.rs\<close> and its pure checks: references to immutable index pages,
  the partition root with its bounded tail, the shape of a branch, and the selection of the
  segments that answer one fetch.
\<close>

definition INDEX_SCHEMA :: nat where "INDEX_SCHEMA = 4"
definition INDEX_MAX_LEVEL :: nat where "INDEX_MAX_LEVEL = 10"

record page_ref =
  pr_object :: string
  pr_first_offset :: int
  pr_next_offset :: int
  pr_segment_count :: nat
  pr_level :: nat
  pr_byte_length :: nat
  pr_sha256 :: string

record root =
  rt_schema :: nat
  rt_revision :: nat
  rt_start_offset :: int
  rt_adopted_at_ms :: "nat option"
  rt_next_offset :: int
  rt_tree :: "page_ref option"
  rt_producers :: "producer_ref option"
  rt_tail :: "segment list"

definition root_default :: root where
  "root_default =
     \<lparr>rt_schema = INDEX_SCHEMA, rt_revision = 0, rt_start_offset = 0, rt_adopted_at_ms = Some 0,
      rt_next_offset = 0, rt_tree = None, rt_producers = None, rt_tail = []\<rparr>"

datatype page = Leaf "segment list" | Branch "page_ref list"

definition entries :: "'a json_seq \<Rightarrow> string + 'a list" where
  "entries = deserialize_bounded PAGE_ENTRIES"

section \<open>Checks\<close>

definition full :: "page_ref \<Rightarrow> bool" where
  "full r \<longleftrightarrow> pr_segment_count r = page_capacity (pr_level r)"

definition validate_page_ref ::
  "(string \<Rightarrow> bool) \<Rightarrow> page_ref \<Rightarrow> string \<Rightarrow> string \<Rightarrow> int \<Rightarrow> log_error + unit" where
  "validate_page_ref uuid_ok r prefix topic part =
     (let namespace = partition_dir prefix topic part @ ''index/''
      in if \<not> page_name_ok uuid_ok namespace ''.json'' (pr_object r)
          \<or> pr_level r > INDEX_MAX_LEVEL
          \<or> pr_first_offset r < 0
          \<or> pr_next_offset r \<le> pr_first_offset r
          \<or> pr_segment_count r = 0
          \<or> pr_segment_count r > nat (pr_next_offset r - pr_first_offset r)
          \<or> pr_segment_count r > page_capacity (pr_level r)
          \<or> pr_byte_length r = 0
          \<or> pr_byte_length r > MAX_MANIFEST_BYTES
          \<or> \<not> valid_checksum (pr_sha256 r)
         then Inl (invalid ''invalid index page reference'')
         else Inr ())"

definition validate_root ::
  "(string \<Rightarrow> bool) \<Rightarrow> root \<Rightarrow> string \<Rightarrow> string \<Rightarrow> int \<Rightarrow> log_error + unit" where
  "validate_root uuid_ok r prefix topic part =
     (if rt_schema r \<notin> {2, 3, INDEX_SCHEMA}
         \<or> length (rt_tail r) > PAGE_ENTRIES
         \<or> rt_start_offset r < 0
         \<or> rt_next_offset r < rt_start_offset r
         \<or> (rt_schema r \<ge> 3 \<and> rt_adopted_at_ms r = None)
         \<or> (rt_schema r < 4 \<and> rt_producers r \<noteq> None)
         \<or> (rt_schema r = 2
             \<and> (rt_start_offset r \<noteq> 0 \<or> rt_adopted_at_ms r \<noteq> None
                \<or> list_ex (\<lambda>sg. sg_received_at_ms sg \<noteq> None) (rt_tail r)))
      then Inl (invalid ''unsupported or oversized index root'')
      else attempt (case rt_producers r of
                      None \<Rightarrow> Inr ()
                    | Some p \<Rightarrow> validate_producer_ref uuid_ok p prefix topic part) (\<lambda>_.
        attempt (case rt_tree r of
                   None \<Rightarrow> Inr (rt_start_offset r, 0)
                 | Some tree \<Rightarrow>
                     attempt (validate_page_ref uuid_ok tree prefix topic part) (\<lambda>_.
                       if pr_first_offset tree \<noteq> rt_start_offset r
                       then Inl (invalid ''index must start at the retained offset'')
                       else Inr (pr_next_offset tree, pr_segment_count tree)))
          (\<lambda>(start, count).
        attempt (validate_segments (rt_tail r) start prefix topic part) (\<lambda>next.
          if next \<noteq> rt_next_offset r
             \<or> (case checked_add_u64 count (length (rt_tail r)) of
                  None \<Rightarrow> True
                | Some count \<Rightarrow> count > rt_revision r
                    \<or> (rt_schema r = 2 \<and> count \<noteq> rt_revision r))
             \<or> (rt_tail r = [] \<and> rt_tree r \<noteq> None)
          then Inl (invalid ''index root range or revision is inconsistent'')
          else Inr ()))))"

fun validate_children_from ::
  "(string \<Rightarrow> bool) \<Rightarrow> string \<Rightarrow> string \<Rightarrow> int \<Rightarrow> nat \<Rightarrow> int \<Rightarrow> nat \<Rightarrow> string set \<Rightarrow> page_ref list
   \<Rightarrow> log_error + int \<times> nat" where
  "validate_children_from uuid_ok prefix topic part level next count objects [] = Inr (next, count)"
| "validate_children_from uuid_ok prefix topic part level next count objects (child # children) =
     attempt (validate_page_ref uuid_ok child prefix topic part) (\<lambda>_.
       if pr_first_offset child \<noteq> next
          \<or> pr_level child \<noteq> level
          \<or> pr_object child \<in> objects
          \<or> (children \<noteq> [] \<and> \<not> full child)
       then Inl (invalid ''index children have inconsistent ranges or shape'')
       else attempt (ok_or (checked_add_u64 count (pr_segment_count child)) OffsetOverflow) (\<lambda>count'.
         validate_children_from uuid_ok prefix topic part level (pr_next_offset child) count'
           (insert (pr_object child) objects) children))"

definition validate_children ::
  "(string \<Rightarrow> bool) \<Rightarrow> page_ref list \<Rightarrow> string \<Rightarrow> string \<Rightarrow> int
   \<Rightarrow> log_error + int \<times> int \<times> nat \<times> nat" where
  "validate_children uuid_ok children prefix topic part =
     (case children of
        [] \<Rightarrow> Inl (invalid ''empty index branch'')
      | first # _ \<Rightarrow>
          if length children > PAGE_ENTRIES \<or> pr_level first \<ge> INDEX_MAX_LEVEL
          then Inl (invalid ''index branch exceeds limit'')
          else attempt (validate_children_from uuid_ok prefix topic part (pr_level first)
                 (pr_first_offset first) 0 {} children) (\<lambda>(next, count).
            Inr (pr_first_offset first, next, count, pr_level first + 1)))"

section \<open>Selecting the segments of one fetch\<close>

record selection =
  sl_offset :: int
  sl_remaining :: nat
  sl_allow_oversized :: bool
  sl_segments :: "segment list"
  sl_oversized_first_batch :: bool

definition selection_new :: "int \<Rightarrow> nat \<Rightarrow> bool \<Rightarrow> selection" where
  "selection_new n maximum_bytes allow_oversized =
     \<lparr>sl_offset = n, sl_remaining = maximum_bytes, sl_allow_oversized = allow_oversized,
      sl_segments = [], sl_oversized_first_batch = False\<rparr>"

text \<open>\<open>push\<close> tells whether more segments can still be taken.\<close>

definition selection_push :: "segment \<Rightarrow> selection \<Rightarrow> (log_error + bool) \<times> selection" where
  "selection_push sg sel =
     (case last_offset sg of
        Inl e \<Rightarrow> (Inl e, sel)
      | Inr final_offset \<Rightarrow>
          if final_offset < sl_offset sel then (Inr True, sel)
          else if sg_byte_length sg > u64_max then (Inl OffsetOverflow, sel)
          else if sg_byte_length sg > sl_remaining sel then
            (Inr False,
             if sl_segments sel = [] \<and> sl_allow_oversized sel
             then sel\<lparr>sl_segments := sl_segments sel @ [sg], sl_oversized_first_batch := True\<rparr>
             else sel)
          else
            (Inr (sl_remaining sel - sg_byte_length sg \<noteq> 0),
             sel\<lparr>sl_remaining := sl_remaining sel - sg_byte_length sg,
                 sl_segments := sl_segments sel @ [sg]\<rparr>))"

text \<open>Pushing a list of segments until one of them completes the response.\<close>

fun push_all :: "segment list \<Rightarrow> selection \<Rightarrow> (log_error + bool) \<times> selection" where
  "push_all [] sel = (Inr True, sel)"
| "push_all (sg # sgs) sel =
     (case selection_push sg sel of
        (Inl e, sel') \<Rightarrow> (Inl e, sel')
      | (Inr False, sel') \<Rightarrow> (Inr False, sel')
      | (Inr True, sel') \<Rightarrow> push_all sgs sel')"

end
