(* ===== verification/Records_Codec.thy ===== *)
theory Records_Codec
  imports Log_Types
begin

unbundle bit_operations_syntax

text \<open>
  The model of \<open>src/codec.rs\<close>: the validation of raw Kafka v2 record batches that runs
  before the upstream decoder allocates anything. A reader takes the remaining input and
  returns its value with the rest. The upstream decoder (\<open>decode_batch_info\<close>,
  \<open>decode_all\<close>) and its types are parameters.
\<close>

definition MAX_HEADERS_PER_RECORD :: nat where "MAX_HEADERS_PER_RECORD = 1024"
definition MAX_HEADERS_PER_REQUEST :: nat where "MAX_HEADERS_PER_REQUEST = 32768"

datatype codec_error =
  Malformed | UnsupportedCompression | TooManyRecordsDeclared | TooManyHeaders
| DuplicateHeaders | ArithmeticOverflow

record batch_inspection =
  in_batch_count :: nat
  in_record_count :: nat
  in_batch_record_counts :: "nat list"
  in_record_header_counts :: "nat list"

text \<open>What the source reads of the upstream types.\<close>

datatype compression = NoCompression | Gzip | Snappy | Lz4 | Zstd

record batch_info =
  bf_record_count :: int
  bf_compression :: compression
  bf_min_offset :: int
  bf_min_timestamp :: int
  bf_base_sequence :: int
  bf_producer_id :: int

type_synonym 'a reader = "bytes \<Rightarrow> codec_error + 'a \<times> bytes"

section \<open>Readers\<close>

definition take_raw :: "nat \<Rightarrow> bytes reader" where
  "take_raw n input =
     (if length input < n then Inl Malformed else Inr (take n input, drop n input))"

text \<open>\<open>read_unsigned_var\<close> with the loop counted down: \<open>n\<close> rounds are left and \<open>index\<close> are done.\<close>

fun read_unsigned_from :: "nat \<Rightarrow> nat \<Rightarrow> nat \<Rightarrow> 64 word \<Rightarrow> (64 word) reader" where
  "read_unsigned_from maximum_bytes 0 index value input = Inl Malformed"
| "read_unsigned_from maximum_bytes (Suc n) index value input =
     attempt (take_raw 1 input) (\<lambda>(taken, input').
       let byte = hd taken;
           payload = ucast (byte AND 0x7F) :: 64 word;
           shift = index * 7
       in if (shift = 28 \<and> maximum_bytes = 5 \<and> payload > 0x0F)
             \<or> (shift = 63 \<and> maximum_bytes = 10 \<and> payload > 0x01)
          then Inl Malformed
          else let value' = value OR push_bit shift payload
               in if byte AND 0x80 = 0 then Inr (value', input')
                  else read_unsigned_from maximum_bytes n (Suc index) value' input')"

definition read_unsigned_var :: "nat \<Rightarrow> (64 word) reader" where
  "read_unsigned_var maximum_bytes input = read_unsigned_from maximum_bytes maximum_bytes 0 0 input"

definition read_var_i32 :: "int reader" where
  "read_var_i32 input =
     attempt (read_unsigned_var 5 input) (\<lambda>(value, input').
       if unat value > u32_max then Inl Malformed
       else let v = ucast value :: 32 word
            in Inr (sint (drop_bit 1 v XOR (- (v AND 1))), input'))"

definition read_var_i64 :: "int reader" where
  "read_var_i64 input =
     attempt (read_unsigned_var 10 input) (\<lambda>(v, input').
       Inr (sint (drop_bit 1 v XOR (- (v AND 1))), input'))"

text \<open>\<open>usize::try_from\<close> on a signed length.\<close>

definition usize_of :: "int \<Rightarrow> codec_error + nat" where
  "usize_of n = (if n < 0 then Inl Malformed else Inr (nat n))"

definition take_nullable_raw :: "unit reader" where
  "take_nullable_raw input =
     attempt (read_var_i32 input) (\<lambda>(n, input').
       if n = -1 then Inr ((), input')
       else if n \<ge> 0 then attempt (take_raw (nat n) input') (\<lambda>(_, rest). Inr ((), rest))
       else Inl Malformed)"

text \<open>Big-endian 32-bit numbers.\<close>

definition be_i32 :: "bytes \<Rightarrow> int" where
  "be_i32 bs = sint (word_of_nat (foldl (\<lambda>a b. a * 256 + unat b) 0 bs) :: 32 word)"

section \<open>Records and batches\<close>

fun validate_headers :: "nat \<Rightarrow> unit reader" where
  "validate_headers 0 input = Inr ((), input)"
| "validate_headers (Suc n) input =
     attempt (read_var_i32 input) (\<lambda>(key_length, i1).
     attempt (usize_of key_length) (\<lambda>key_length.
     attempt (take_raw key_length i1) (\<lambda>(_, i2).
     attempt (take_nullable_raw i2) (\<lambda>(_, i3).
       validate_headers n i3))))"

text \<open>The body of one record; the result is its header count.\<close>

definition validate_raw_record ::
  "batch_info \<Rightarrow> int \<Rightarrow> nat \<Rightarrow> bytes \<Rightarrow> codec_error + nat" where
  "validate_raw_record info ordinal aggregate_headers input =
     attempt (take_raw 1 input) (\<lambda>(attributes, i1).
       if hd attributes \<noteq> 0 then Inl Malformed
       else attempt (read_var_i64 i1) (\<lambda>(timestamp_delta, i2).
       attempt (ok_or (checked_add_i64 (bf_min_timestamp info) timestamp_delta) ArithmeticOverflow) (\<lambda>_.
       attempt (read_var_i32 i2) (\<lambda>(offset_delta, i3).
         if offset_delta < 0
            \<or> (bf_producer_id info \<ge> 0 \<and> (bf_base_sequence info < 0 \<or> offset_delta \<noteq> ordinal))
         then Inl Malformed
         else attempt (ok_or (checked_add_i64 (bf_min_offset info) offset_delta) ArithmeticOverflow) (\<lambda>_.
         attempt (take_nullable_raw i3) (\<lambda>(_, i4).
         attempt (take_nullable_raw i4) (\<lambda>(_, i5).
         attempt (read_var_i32 i5) (\<lambda>(header_count, i6).
         attempt (usize_of header_count) (\<lambda>header_count.
         attempt (ok_or (checked_add_u64 aggregate_headers header_count) TooManyHeaders) (\<lambda>aggregate.
           if header_count > MAX_HEADERS_PER_RECORD
              \<or> aggregate > MAX_HEADERS_PER_REQUEST
              \<or> (case checked_mul_u64 header_count 2 of
                   None \<Rightarrow> True | Some minimum \<Rightarrow> minimum > length i6)
           then Inl TooManyHeaders
           else attempt (validate_headers header_count i6) (\<lambda>(_, i7).
             if i7 \<noteq> [] then Inl Malformed else Inr header_count)))))))))))"

text \<open>The records of one batch, counted up from \<open>ordinal\<close>; \<open>n\<close> of them are left.\<close>

fun validate_raw_batch_records ::
  "batch_info \<Rightarrow> nat \<Rightarrow> int \<Rightarrow> nat \<Rightarrow> nat list \<Rightarrow> bytes \<Rightarrow> codec_error + (nat \<times> nat list \<times> bytes)" where
  "validate_raw_batch_records info 0 ordinal aggregate counts records = Inr (aggregate, counts, records)"
| "validate_raw_batch_records info (Suc n) ordinal aggregate counts records =
     attempt (read_var_i32 records) (\<lambda>(record_length, r1).
     attempt (usize_of record_length) (\<lambda>record_length.
     attempt (take_raw record_length r1) (\<lambda>(rec, r2).
     attempt (validate_raw_record info ordinal aggregate rec) (\<lambda>header_count.
       validate_raw_batch_records info n (ordinal + 1) (aggregate + header_count)
         (counts @ [header_count]) r2))))"

fun validate_raw_records_from ::
  "nat \<Rightarrow> nat list \<Rightarrow> bytes \<Rightarrow> batch_info list \<Rightarrow> codec_error + nat list" where
  "validate_raw_records_from aggregate counts batches [] =
     (if batches = [] then Inr counts else Inl Malformed)"
| "validate_raw_records_from aggregate counts batches (info # infos) =
     attempt (take_raw 12 batches) (\<lambda>(prefix, b1).
     attempt (usize_of (be_i32 (drop 8 prefix))) (\<lambda>batch_length.
     attempt (take_raw batch_length b1) (\<lambda>(batch, b2).
       if length batch < 49 then Inl Malformed
       else if bf_producer_id info \<ge> 0
            \<and> be_i32 (take 4 (drop 11 batch)) \<noteq> bf_record_count info - 1
       then Inl Malformed
       else attempt (validate_raw_batch_records info (nat (bf_record_count info)) 0 aggregate counts
                      (drop 49 batch)) (\<lambda>(aggregate', counts', records).
         if records \<noteq> [] then Inl Malformed
         else validate_raw_records_from aggregate' counts' b2 infos))))"

definition validate_raw_records :: "bytes \<Rightarrow> batch_info list \<Rightarrow> codec_error + nat list" where
  "validate_raw_records encoded infos = validate_raw_records_from 0 [] encoded infos"

section \<open>Inspection and decoding\<close>

fun sum_record_counts :: "nat \<Rightarrow> batch_info list \<Rightarrow> nat option" where
  "sum_record_counts acc [] = Some acc"
| "sum_record_counts acc (info # infos) =
     (if bf_record_count info < 0 then None
      else (case checked_add_u64 acc (nat (bf_record_count info)) of
          None \<Rightarrow> None | Some acc' \<Rightarrow> sum_record_counts acc' infos))"

text \<open>\<open>decode_info\<close> stands for \<open>RecordBatchDecoder::decode_batch_info\<close>: the infos and the rest.\<close>

definition inspect_record_batches ::
  "(bytes \<Rightarrow> 'x + batch_info list \<times> bytes) \<Rightarrow> bytes \<Rightarrow> codec_error + batch_inspection" where
  "inspect_record_batches decode_info encoded =
     (if encoded = [] then Inl Malformed
      else attempt (map_err (\<lambda>_. Malformed) (decode_info encoded)) (\<lambda>(infos, rest).
        if rest \<noteq> [] \<or> infos = [] then Inl Malformed
        else if list_ex (\<lambda>info. bf_compression info \<noteq> NoCompression) infos
        then Inl UnsupportedCompression
        else (case sum_record_counts 0 infos of
            None \<Rightarrow> Inl TooManyRecordsDeclared
          | Some record_count \<Rightarrow>
              if record_count > MAX_BATCH_RECORDS then Inl TooManyRecordsDeclared
              else attempt (validate_raw_records encoded infos) (\<lambda>record_header_counts.
                Inr \<lparr>in_batch_count = length infos, in_record_count = record_count,
                     in_batch_record_counts = map (\<lambda>info. nat (bf_record_count info)) infos,
                     in_record_header_counts = record_header_counts\<rparr>))))"

text \<open>
  \<open>decode_all\<close> stands for \<open>RecordBatchDecoder::decode_all\<close>: the records of each batch and
  the rest; \<open>headers_len\<close> is the size of a decoded record's header map.
\<close>

definition decode_record_batches ::
  "(bytes \<Rightarrow> 'x + batch_info list \<times> bytes) \<Rightarrow> (bytes \<Rightarrow> 'y + 'r list list \<times> bytes) \<Rightarrow> ('r \<Rightarrow> nat)
   \<Rightarrow> bytes \<Rightarrow> codec_error + batch_inspection \<times> 'r list" where
  "decode_record_batches decode_info decode_all headers_len encoded =
     attempt (inspect_record_batches decode_info encoded) (\<lambda>inspection.
     attempt (map_err (\<lambda>_. Malformed) (decode_all encoded)) (\<lambda>(batches, rest).
       if rest \<noteq> [] then Inl Malformed
       else let records = concat batches
            in if length records \<noteq> in_record_count inspection then Inl Malformed
               else if list_ex (\<lambda>(rec, raw_count). headers_len rec \<noteq> raw_count)
                         (zip records (in_record_header_counts inspection))
               then Inl DuplicateHeaders
               else Inr (inspection, records)))"

section \<open>The varint encoder\<close>

text \<open>The encoders of the repository's protocol tests, the reference for the readers.\<close>

function push_unsigned_var :: "64 word \<Rightarrow> bytes" where
  "push_unsigned_var value =
     (let byte = ucast (value AND 0x7F) :: byte;
          value' = drop_bit 7 value
      in if value' \<noteq> 0 then (byte OR 0x80) # push_unsigned_var value' else [byte])"
  by pat_completeness auto

lemma drop_bit_7_less: "drop_bit 7 v \<noteq> 0 \<Longrightarrow> unat (drop_bit 7 v) < unat (v :: 64 word)"
proof -
  assume nz: "drop_bit 7 v \<noteq> 0"
  have d: "unat (drop_bit 7 v) = unat v div 128"
    by (simp only: unat_drop_bit_eq) (simp add: drop_bit_eq_div)
  then have "unat v div 128 \<noteq> 0" using nz by (metis unat_eq_zero)
  then show ?thesis using d by simp
qed

termination push_unsigned_var
  by (relation "measure unat") (auto simp: drop_bit_7_less)

declare push_unsigned_var.simps [simp del]

definition push_var_i32 :: "int \<Rightarrow> bytes" where
  "push_var_i32 v =
     (let w = word_of_int v :: 32 word
      in push_unsigned_var (ucast (push_bit 1 w XOR signed_drop_bit 31 w)))"

definition push_var_i64 :: "int \<Rightarrow> bytes" where
  "push_var_i64 v =
     (let w = word_of_int v :: 64 word
      in push_unsigned_var (push_bit 1 w XOR signed_drop_bit 63 w))"

section \<open>Round trips\<close>

lemma mask_7F: "(0x7F :: 'a::len word) = mask 7" by (simp add: mask_eq_exp_minus_1)

lemma bit_80: "bit (0x80 :: byte) n \<longleftrightarrow> n = 7"
proof -
  have "(0x80 :: byte) = 2 ^ 7" by simp
  then show ?thesis using bit_exp_iff [where 'a = byte, of 7 n] by (simp only:) auto
qed

lemma low7_of_byte:
  "ucast ((ucast (v AND 0x7F) :: byte) AND 0x7F) = v AND (0x7F :: 64 word)"
  "ucast (((ucast (v AND 0x7F) :: byte) OR 0x80) AND 0x7F) = v AND (0x7F :: 64 word)"
proof -
  have "ucast (((ucast (v AND mask 7) :: byte) OR h) AND mask 7) = v AND (mask 7 :: 64 word)"
    if "\<And>n. bit h n \<longleftrightarrow> n = 7" for h
    by (rule bit_eqI) (auto simp: bit_simps that)
  from this [OF bit_80] show
    "ucast (((ucast (v AND 0x7F) :: byte) OR 0x80) AND 0x7F) = v AND (0x7F :: 64 word)"
    unfolding mask_7F .
  show "ucast ((ucast (v AND 0x7F) :: byte) AND 0x7F) = v AND (0x7F :: 64 word)"
    unfolding mask_7F by (rule bit_eqI) (auto simp: bit_simps)
qed

lemma high_of_byte:
  "(ucast (v AND (0x7F :: 64 word)) :: byte) AND 0x80 = 0"
  "((ucast (v AND (0x7F :: 64 word)) :: byte) OR 0x80) AND 0x80 \<noteq> 0"
proof -
  have "(ucast (v AND (mask 7 :: 64 word)) :: byte) AND h = 0" if "\<And>n. bit h n \<longleftrightarrow> n = 7" for h
    by (rule bit_eqI) (auto simp: bit_simps that)
  from this [OF bit_80] show "(ucast (v AND (0x7F :: 64 word)) :: byte) AND 0x80 = 0"
    unfolding mask_7F .
  have "bit (((ucast (v AND (0x7F :: 64 word)) :: byte) OR 0x80) AND 0x80) 7"
    by (simp add: bit_simps bit_80)
  then show "((ucast (v AND (0x7F :: 64 word)) :: byte) OR 0x80) AND 0x80 \<noteq> 0"
    by (metis bit_0_eq bot_apply bot_bool_def)
qed

lemma join_low7:
  "push_bit k (v AND 0x7F) OR push_bit (k + 7) (drop_bit 7 v) = push_bit k (v :: 64 word)"
proof (rule bit_eqI)
  fix n
  have "7 + (n - (k + 7)) = n - k" if "k + 7 \<le> n" using that by simp
  then show "bit (push_bit k (v AND 0x7F) OR push_bit (k + 7) (drop_bit 7 v)) n = bit (push_bit k v) n"
    unfolding mask_7F by (cases "k + 7 \<le> n") (auto simp: bit_simps)
qed

lemma and_low7_le: "drop_bit k (v :: 64 word) = 0 \<Longrightarrow> v AND 0x7F \<le> mask k"
proof -
  assume "drop_bit k v = 0"
  then have "take_bit k v = v" using bits_ident [of k v] by simp
  then have "v \<le> mask k" by (metis take_bit_eq_mask word_and_le1)
  then show ?thesis using word_and_le2 [of v "0x7F"] by (rule order_trans [rotated])
qed

text \<open>
  A value that fits the width of its reader is read back, and nothing behind it is touched.
\<close>

definition var_width :: "nat \<Rightarrow> nat" where
  "var_width maximum_bytes = (if maximum_bytes = 5 then 32 else 64)"

lemma read_unsigned_from_push:
  assumes "maximum_bytes = 5 \<or> maximum_bytes = 10" "index + n = maximum_bytes" "0 < n"
    and "drop_bit (var_width maximum_bytes - 7 * index) v = 0"
  shows "read_unsigned_from maximum_bytes n index acc (push_unsigned_var v @ rest) =
    Inr (acc OR push_bit (index * 7) v, rest)"
  using assms
proof (induction v arbitrary: n index acc rule: push_unsigned_var.induct)
  case (1 v)
  obtain m where n: "n = Suc m" using "1.prems" by (cases n) auto
  let ?w = "var_width maximum_bytes"
  have small5: "index = 4 \<Longrightarrow> maximum_bytes = 5 \<Longrightarrow> v AND 0x7F \<le> 0x0F"
    using and_low7_le [of 4 v] "1.prems" by (simp add: var_width_def mask_eq_exp_minus_1)
  have small10: "index = 9 \<Longrightarrow> maximum_bytes = 10 \<Longrightarrow> v AND 0x7F \<le> 0x01"
    using and_low7_le [of 1 v] "1.prems" by (simp add: var_width_def mask_eq_exp_minus_1)
  have guard: "\<not> ((index * 7 = 28 \<and> maximum_bytes = 5 \<and> v AND 0x7F > 0x0F)
             \<or> (index * 7 = 63 \<and> maximum_bytes = 10 \<and> v AND 0x7F > 0x01))"
    using small5 small10 by (auto simp: not_less)
  show ?case
  proof (cases "drop_bit 7 v = 0")
    case True
    have "take_bit 7 v = v" using bits_ident [of 7 v] True by simp
    then have "v AND 0x7F = v" by (simp add: mask_7F take_bit_eq_mask)
    then have "acc OR push_bit (index * 7) (v AND 0x7F) = acc OR push_bit (index * 7) v" by simp
    then show ?thesis using guard True
      by (simp add: n push_unsigned_var.simps [of v] take_raw_def Let_def low7_of_byte high_of_byte)
  next
    case False
    have nxt: "drop_bit (?w - 7 * Suc index) (drop_bit 7 v) = 0"
    proof (cases "7 \<le> ?w - 7 * index")
      case True
      then have "?w - 7 * Suc index + 7 = ?w - 7 * index" by simp
      then show ?thesis using "1.prems"(4) by (simp add: add.commute)
    next
      case le: False
      then have "drop_bit 7 v = drop_bit (7 - (?w - 7 * index)) (drop_bit (?w - 7 * index) v)" by simp
      then show ?thesis using "1.prems"(4) False by simp
    qed
    have "m \<noteq> 0"
    proof
      assume "m = 0"
      then have "Suc index = maximum_bytes" using "1.prems" n by simp
      then have "?w - 7 * index \<le> 7" using "1.prems"(1) by (auto simp: var_width_def)
      then have "drop_bit 7 v = drop_bit (7 - (?w - 7 * index)) (drop_bit (?w - 7 * index) v)" by simp
      then show False using False "1.prems"(4) by simp
    qed
    then have IH: "read_unsigned_from maximum_bytes m (Suc index) acc' (push_unsigned_var (drop_bit 7 v) @ rest)
        = Inr (acc' OR push_bit (Suc index * 7) (drop_bit 7 v), rest)" for acc'
      using "1.IH" [OF refl refl False, of "Suc index" m acc'] "1.prems" n nxt by simp
    have "(acc OR push_bit (index * 7) (v AND 0x7F)) OR push_bit (Suc index * 7) (drop_bit 7 v)
        = acc OR push_bit (index * 7) v"
      using join_low7 [of "index * 7" v] by (simp add: or.assoc add.commute)
    then show ?thesis using guard False
      by (simp add: n push_unsigned_var.simps [of v] take_raw_def Let_def low7_of_byte high_of_byte IH)
  qed
qed

lemma read_unsigned_var_push:
  "read_unsigned_var 10 (push_unsigned_var v @ rest) = Inr (v, rest)"
  "drop_bit 32 v = 0 \<Longrightarrow> read_unsigned_var 5 (push_unsigned_var v @ rest) = Inr (v, rest)"
  using read_unsigned_from_push [of 10 0 10 v 0 rest] read_unsigned_from_push [of 5 0 5 v 0 rest]
  by (simp_all add: read_unsigned_var_def var_width_def)

text \<open>The zigzag code maps signed to unsigned words and back.\<close>

lemma zigzag:
  fixes w :: "'a::len word"
  assumes "1 < LENGTH('a)" "k = LENGTH('a) - 1"
  defines "z \<equiv> push_bit 1 w XOR signed_drop_bit k w"
  shows "drop_bit 1 z XOR (- (z AND 1)) = w"
proof -
  have sign: "bit (signed_drop_bit k w) i \<longleftrightarrow> bit w k" if "i < LENGTH('a)" for i
    using that assms(1,2) by (cases i) (auto simp: bit_signed_drop_bit_iff)
  have shift: "bit (push_bit 1 w) i \<longleftrightarrow> i \<noteq> 0 \<and> bit w (i - 1)" if "i < LENGTH('a)" for i
    using that unfolding bit_push_bit_iff by (cases i) (auto simp: possible_bit_def)
  have z1: "bit z i \<longleftrightarrow> (i \<noteq> 0 \<and> bit w (i - 1)) \<noteq> bit w k" if "i < LENGTH('a)" for i
    unfolding z_def bit_xor_iff shift [OF that] sign [OF that] ..
  have "z AND 1 = (if bit w k then 1 else 0)"
  proof (rule bit_word_eqI)
    fix i assume "i < LENGTH('a)"
    then show "bit (z AND 1) i = bit (if bit w k then 1 else 0 :: 'a word) i"
      using z1 [of i] by (auto simp: bit_simps)
  qed
  then have neg: "- (z AND 1) = (if bit w k then - 1 else 0)" by simp
  show ?thesis
  proof (rule bit_word_eqI)
    fix i assume i: "i < LENGTH('a)"
    have "bit (drop_bit 1 z) i \<longleftrightarrow> Suc i < LENGTH('a) \<and> bit z (Suc i)"
      by (auto simp: bit_drop_bit_eq dest: bit_imp_le_length)
    moreover have "\<not> Suc i < LENGTH('a) \<Longrightarrow> i = k" using i assms(2) by simp
    ultimately show "bit (drop_bit 1 z XOR - (z AND 1)) i = bit w i"
      using z1 [of "Suc i"] i unfolding neg
      by (cases "Suc i < LENGTH('a)") (simp_all add: bit_xor_iff bit_minus_1_iff)
  qed
qed

lemma sint_word_of_int_id:
  "in_i32 v \<Longrightarrow> sint (word_of_int v :: 32 word) = v"
  "in_i64 x \<Longrightarrow> sint (word_of_int x :: 64 word) = x"
  by (simp_all add: int_word_sint range_simps)

lemma read_var_i32_push [simp]:
  assumes v: "in_i32 v"
  shows "read_var_i32 (push_var_i32 v @ rest) = Inr (v, rest)"
proof -
  let ?w = "word_of_int v :: 32 word"
  let ?z = "push_bit 1 ?w XOR signed_drop_bit 31 ?w"
  have narrow: "drop_bit 32 (ucast ?z :: 64 word) = 0"
    by (rule bit_word_eqI) (auto simp: bit_drop_bit_eq bit_unsigned_iff dest: bit_imp_le_length)
  have small: "\<not> unat (ucast ?z :: 64 word) > u32_max"
  proof -
    have "unat (drop_bit 32 (ucast ?z :: 64 word)) = drop_bit 32 (unat (ucast ?z :: 64 word))"
      by (rule unat_drop_bit_eq)
    then have "unat (ucast ?z :: 64 word) div 2 ^ 32 = 0"
      unfolding narrow by (simp only: drop_bit_eq_div unat_0)
    then show ?thesis by (simp add: u32_max_def div_eq_0_iff)
  qed
  have widened: "ucast (ucast ?z :: 64 word) = ?z"
    by (rule bit_word_eqI) (auto simp: bit_unsigned_iff)
  have "drop_bit 1 ?z XOR (- (?z AND 1)) = ?w" by (rule zigzag) simp_all
  with narrow small widened read_unsigned_var_push(2) [OF narrow, of rest]
  show "read_var_i32 (push_var_i32 v @ rest) = Inr (v, rest)"
    by (simp only: read_var_i32_def push_var_i32_def Let_def attempt_simps prod.case
        if_False sint_word_of_int_id(1) [OF v] simp_thms)
qed

lemma read_var_i64_push [simp]:
  assumes x: "in_i64 x"
  shows "read_var_i64 (push_var_i64 x @ rest) = Inr (x, rest)"
proof -
  let ?y = "word_of_int x :: 64 word"
  have "drop_bit 1 (push_bit 1 ?y XOR signed_drop_bit 63 ?y)
      XOR (- ((push_bit 1 ?y XOR signed_drop_bit 63 ?y) AND 1)) = ?y"
    by (rule zigzag) simp_all
  then show "read_var_i64 (push_var_i64 x @ rest) = Inr (x, rest)"
    by (simp only: read_var_i64_def push_var_i64_def Let_def read_unsigned_var_push(1) attempt_simps prod.case
        sint_word_of_int_id(2) [OF x])
qed

text \<open>Reading back a zigzag varint written by the reference encoder gives
  the number and leaves the rest of the input, for every 32-bit and every 64-bit value: neither
  the overflow guards nor the length limits of the readers reject an encodable value.\<close>

theorem varint_round_trip:
  assumes "in_i32 v" "in_i64 x"
  shows "read_var_i32 (push_var_i32 v @ rest) = Inr (v, rest)
    \<and> read_var_i64 (push_var_i64 x @ rest) = Inr (x, rest)"
  using assms by simp

theorem varint_round_trip_witness:
  "read_var_i32 (push_var_i32 (- 2147483648) @ [7]) = Inr (- 2147483648, [7])
   \<and> read_var_i64 (push_var_i64 300 @ [7]) = Inr (300, [7])"
  by (rule varint_round_trip) (simp_all add: range_simps)

section \<open>Bounds of an accepted input\<close>

lemma take_raw_Inr [result_simps]:
  "take_raw n input = Inr (a, rest) \<longleftrightarrow> input = a @ rest \<and> length a = n"
  by (auto simp: take_raw_def)

lemma read_unsigned_from_shrinks:
  "read_unsigned_from m n i v input = Inr (w, rest) \<Longrightarrow> length rest < length input"
  by (induction m n i v input rule: read_unsigned_from.induct)
    (fastforce simp: result_simps Let_def split: if_splits)+

lemma read_var_shrinks:
  "read_var_i32 input = Inr (w, rest) \<Longrightarrow> length rest < length input"
  "read_var_i64 input = Inr (w, rest) \<Longrightarrow> length rest < length input"
  by (auto simp: read_var_i32_def read_var_i64_def read_unsigned_var_def result_simps Let_def
      split: if_splits dest: read_unsigned_from_shrinks)

lemma take_nullable_shrinks: "take_nullable_raw input = Inr (u, rest) \<Longrightarrow> length rest < length input"
  by (force simp: take_nullable_raw_def result_simps split: if_splits dest: read_var_shrinks)

text \<open>A record's header count is capped and each header takes at least two of its bytes.\<close>

lemma validate_raw_record_bounds:
  assumes "validate_raw_record info ordinal aggregate input = Inr c"
  shows "c \<le> MAX_HEADERS_PER_RECORD" "aggregate + c \<le> MAX_HEADERS_PER_REQUEST" "2 * c \<le> length input"
  using assms
  by (auto simp: validate_raw_record_def result_simps usize_of_def split: if_splits option.splits
      dest!: read_var_shrinks take_nullable_shrinks)

lemma validate_raw_batch_records_bounds:
  assumes "validate_raw_batch_records info n ordinal aggregate counts records = Inr (aggregate', counts', rest)"
    and "aggregate \<le> MAX_HEADERS_PER_REQUEST"
  shows "\<exists>cs. counts' = counts @ cs \<and> length cs = n \<and> (\<forall>c \<in> set cs. c \<le> MAX_HEADERS_PER_RECORD)
    \<and> aggregate' = aggregate + sum_list cs \<and> aggregate' \<le> MAX_HEADERS_PER_REQUEST
    \<and> n + 2 * sum_list cs + length rest \<le> length records"
  using assms
proof (induction info n ordinal aggregate counts records rule: validate_raw_batch_records.induct)
  case (2 info n ordinal aggregate counts records)
  then obtain len r1 body r2 c where
    r1: "read_var_i32 records = Inr (len, r1)" and body: "r1 = body @ r2" "length body = nat len" "0 \<le> len" and
    c: "validate_raw_record info ordinal aggregate body = Inr c" and
    next_records: "validate_raw_batch_records info n (ordinal + 1) (aggregate + c) (counts @ [c]) r2
      = Inr (aggregate', counts', rest)"
    by (auto simp: result_simps usize_of_def split: if_splits)
  note b = validate_raw_record_bounds [OF c]
  have "usize_of len = Inr (nat len)" "take_raw (nat len) r1 = Inr (body, r2)"
    using body by (simp_all add: usize_of_def result_simps)
  from "2.IH" [OF r1 refl this(1) this(2) refl c next_records b(2)] obtain cs where
    "counts' = (counts @ [c]) @ cs" "length cs = n" "\<forall>c \<in> set cs. c \<le> MAX_HEADERS_PER_RECORD"
    "aggregate' = aggregate + c + sum_list cs" "aggregate' \<le> MAX_HEADERS_PER_REQUEST"
    "n + 2 * sum_list cs + length rest \<le> length r2" by blast
  with b read_var_shrinks(1) [OF r1] body show ?case by (intro exI [of _ "c # cs"]) auto
qed auto

lemma validate_raw_records_from_bounds:
  assumes "validate_raw_records_from aggregate counts batches infos = Inr counts'"
    and "aggregate \<le> MAX_HEADERS_PER_REQUEST"
  shows "\<exists>cs. counts' = counts @ cs \<and> length cs = (\<Sum>info\<leftarrow>infos. nat (bf_record_count info))
    \<and> (\<forall>c \<in> set cs. c \<le> MAX_HEADERS_PER_RECORD) \<and> aggregate + sum_list cs \<le> MAX_HEADERS_PER_REQUEST
    \<and> length cs + 2 * sum_list cs \<le> length batches"
  using assms
proof (induction aggregate counts batches infos rule: validate_raw_records_from.induct)
  case (2 aggregate counts batches info infos)
  then obtain prefix b1 batch b2 n agg cnt where
    b: "take_raw 12 batches = Inr (prefix, b1)" "usize_of (be_i32 (drop 8 prefix)) = Inr n"
      "take_raw n b1 = Inr (batch, b2)" and big: "\<not> length batch < 49" and
    p: "\<not> (bf_producer_id info \<ge> 0 \<and> be_i32 (take 4 (drop 11 batch)) \<noteq> bf_record_count info - 1)" and
    recs: "validate_raw_batch_records info (nat (bf_record_count info)) 0 aggregate counts (drop 49 batch)
      = Inr (agg, cnt, [])" and
    rest: "validate_raw_records_from agg cnt b2 infos = Inr counts'"
    by (auto simp: result_simps split: if_splits)
  from validate_raw_batch_records_bounds [OF recs "2.prems"(2)] obtain cs where
    cs: "cnt = counts @ cs" "length cs = nat (bf_record_count info)" "\<forall>c \<in> set cs. c \<le> MAX_HEADERS_PER_RECORD"
      "agg = aggregate + sum_list cs" "agg \<le> MAX_HEADERS_PER_REQUEST"
      "length cs + 2 * sum_list cs \<le> length batch"
    by auto
  obtain ds where "counts' = cnt @ ds" "length ds = (\<Sum>info\<leftarrow>infos. nat (bf_record_count info))"
      "\<forall>c \<in> set ds. c \<le> MAX_HEADERS_PER_RECORD" "agg + sum_list ds \<le> MAX_HEADERS_PER_REQUEST"
      "length ds + 2 * sum_list ds \<le> length b2"
    using "2.IH" [OF b(1) refl b(2) b(3) refl big p recs refl refl _ rest cs(5)] by auto
  moreover have "length batches = length prefix + length batch + length b2"
    using b by (simp add: result_simps)
  ultimately show ?case using cs by (intro exI [of _ "cs @ ds"]) auto
qed (auto split: if_splits)

lemma sum_record_counts_Some:
  "sum_record_counts acc infos = Some n \<Longrightarrow>
     n = acc + (\<Sum>info\<leftarrow>infos. nat (bf_record_count info)) \<and> (\<forall>info \<in> set infos. 0 \<le> bf_record_count info)"
  by (induction acc infos rule: sum_record_counts.induct) (auto split: if_splits option.splits)

text \<open>Whatever the upstream header decoder returns, an accepted input is
  safe to decode: it declares at most 100000 records, at most 1024 headers per record and 32768
  in all, there is one header count per declared record, and the declared numbers are covered by
  the size of the input itself (a byte per record and two per header), so that allocations made
  for them are linear in the input.\<close>

theorem inspection_bounds:
  assumes "inspect_record_batches decode_info encoded = Inr i"
  shows "in_batch_count i = length (in_batch_record_counts i) \<and> 0 < in_batch_count i
    \<and> in_record_count i = sum_list (in_batch_record_counts i)
    \<and> in_record_count i \<le> MAX_BATCH_RECORDS
    \<and> length (in_record_header_counts i) = in_record_count i
    \<and> (\<forall>c \<in> set (in_record_header_counts i). c \<le> MAX_HEADERS_PER_RECORD)
    \<and> sum_list (in_record_header_counts i) \<le> MAX_HEADERS_PER_REQUEST
    \<and> in_record_count i + 2 * sum_list (in_record_header_counts i) \<le> length encoded"
proof -
  from assms obtain infos counts where
    "infos \<noteq> []" and sum: "sum_record_counts 0 infos = Some (in_record_count i)"
    and le: "in_record_count i \<le> MAX_BATCH_RECORDS"
    and raw: "validate_raw_records_from 0 [] encoded infos = Inr counts"
    and i: "in_batch_count i = length infos" "in_record_header_counts i = counts"
      "in_batch_record_counts i = map (\<lambda>info. nat (bf_record_count info)) infos"
    by (auto simp: inspect_record_batches_def validate_raw_records_def result_simps
        split: if_splits option.splits)
  from validate_raw_records_from_bounds [OF raw] sum_record_counts_Some [OF sum] i le \<open>infos \<noteq> []\<close>
  show ?thesis by auto
qed

definition one_record_batch :: bytes where
  "one_record_batch =
     replicate 11 0 @ [56] @ replicate 49 0 @ [12, 0, 0, 0, 1, 1, 0]"

definition one_record_info :: batch_info where
  "one_record_info = \<lparr>bf_record_count = 1, bf_compression = NoCompression, bf_min_offset = 0,
     bf_min_timestamp = 0, bf_base_sequence = - 1, bf_producer_id = - 1\<rparr>"

lemma read_unsigned_one:
  "b AND 0x80 = 0 \<Longrightarrow> read_unsigned_var (Suc n) (b # rest) = Inr (ucast (b AND 0x7F), rest)"
  by (simp add: read_unsigned_var_def take_raw_def Let_def)

lemma read_small_vars:
  "read_var_i32 (0 # rest) = Inr (0, rest)" "read_var_i32 (1 # rest) = Inr (- 1, rest)"
  "read_var_i32 (12 # rest) = Inr (6, rest)" "read_var_i64 (0 # rest) = Inr (0, rest)"
  using read_unsigned_one [of _ 4] read_unsigned_one [of _ 9]
  by (simp_all add: read_var_i32_def read_var_i64_def u32_max_def)

lemma inspect_one_record:
  assumes "decode_info one_record_batch = Inr ([one_record_info], [])"
  shows "inspect_record_batches decode_info one_record_batch
      = Inr \<lparr>in_batch_count = 1, in_record_count = 1, in_batch_record_counts = [1],
             in_record_header_counts = [0]\<rparr>"
proof -
  have one: "validate_raw_record one_record_info 0 0 [0, 0, 0, 1, 1, 0] = Inr 0"
    by (simp add: validate_raw_record_def read_small_vars take_nullable_raw_def one_record_info_def
        take_raw_def usize_of_def checked_add_i64_def checked_add_u64_def checked_mul_u64_def range_simps)
  have len: "be_i32 [0, 0, 0, 56] = 56" by (simp add: be_i32_def)
  have raw: "validate_raw_records one_record_batch [one_record_info] = Inr [0]"
    using one
    by (simp add: validate_raw_records_def one_record_batch_def take_raw_def usize_of_def len
        read_small_vars one_record_info_def eval_nat_numeral)
  show ?thesis
    unfolding inspect_record_batches_def assms prod.case map_err_simps attempt_simps
    by (simp only: raw sum_record_counts.simps)
      (simp add: one_record_batch_def one_record_info_def MAX_BATCH_RECORDS_def checked_add_u64_def u64_max_def)
qed

theorem inspection_bounds_witness:
  "\<exists>i. inspect_record_batches (\<lambda>b. Inr ([one_record_info], []) :: unit + _) one_record_batch = Inr i
    \<and> in_record_count i = 1 \<and> in_record_count i \<le> length one_record_batch"
proof -
  have h: "inspect_record_batches (\<lambda>b. Inr ([one_record_info], []) :: unit + _) one_record_batch
      = Inr \<lparr>in_batch_count = 1, in_record_count = 1, in_batch_record_counts = [1],
             in_record_header_counts = [0]\<rparr>"
    by (rule inspect_one_record) simp
  from inspection_bounds [OF h] h show ?thesis by auto
qed

section \<open>Acceptance of well-formed batches\<close>

text \<open>The v2 layout of a record and of a batch of records, written with the reference encoders.\<close>

record raw_record =
  rr_timestamp_delta :: int
  rr_offset_delta :: int
  rr_key :: "bytes option"
  rr_value :: "bytes option"
  rr_headers :: "(bytes \<times> bytes option) list"

definition push_nullable :: "bytes option \<Rightarrow> bytes" where
  "push_nullable b = (case b of None \<Rightarrow> push_var_i32 (- 1) | Some x \<Rightarrow> push_var_i32 (int (length x)) @ x)"

definition push_header :: "bytes \<times> bytes option \<Rightarrow> bytes" where
  "push_header h = push_var_i32 (int (length (fst h))) @ fst h @ push_nullable (snd h)"

definition raw_record_body :: "raw_record \<Rightarrow> bytes" where
  "raw_record_body r =
     [0] @ push_var_i64 (rr_timestamp_delta r) @ push_var_i32 (rr_offset_delta r)
     @ push_nullable (rr_key r) @ push_nullable (rr_value r)
     @ push_var_i32 (int (length (rr_headers r))) @ concat (map push_header (rr_headers r))"

definition push_raw_record :: "raw_record \<Rightarrow> bytes" where
  "push_raw_record r = push_var_i32 (int (length (raw_record_body r))) @ raw_record_body r"

text \<open>Four big-endian bytes.\<close>

definition be_bytes :: "nat \<Rightarrow> bytes" where
  "be_bytes n = map word_of_nat [n div 16777216, n div 65536, n div 256, n]"

record raw_batch =
  rb_info :: batch_info
  rb_first8 :: bytes
  rb_header :: bytes
  rb_records :: "raw_record list"

definition push_raw_batch :: "raw_batch \<Rightarrow> bytes" where
  "push_raw_batch b =
     (let body = rb_header b @ concat (map push_raw_record (rb_records b))
      in rb_first8 b @ be_bytes (length body) @ body)"

definition raw_record_ok :: "batch_info \<Rightarrow> int \<Rightarrow> raw_record \<Rightarrow> bool" where
  "raw_record_ok info ordinal r \<longleftrightarrow>
     in_i64 (rr_timestamp_delta r) \<and> in_i64 (bf_min_timestamp info + rr_timestamp_delta r)
   \<and> 0 \<le> rr_offset_delta r \<and> in_i32 (rr_offset_delta r)
   \<and> in_i64 (bf_min_offset info + rr_offset_delta r)
   \<and> (0 \<le> bf_producer_id info \<longrightarrow> 0 \<le> bf_base_sequence info \<and> rr_offset_delta r = ordinal)
   \<and> length (rr_headers r) \<le> MAX_HEADERS_PER_RECORD
   \<and> in_i32 (int (length (raw_record_body r)))"

definition raw_batch_ok :: "raw_batch \<Rightarrow> bool" where
  "raw_batch_ok b \<longleftrightarrow>
     length (rb_first8 b) = 8 \<and> length (rb_header b) = 49
   \<and> bf_record_count (rb_info b) = int (length (rb_records b))
   \<and> (0 \<le> bf_producer_id (rb_info b) \<longrightarrow>
        be_i32 (take 4 (drop 11 (rb_header b))) = bf_record_count (rb_info b) - 1)
   \<and> in_i32 (int (length (push_raw_batch b)))
   \<and> (\<forall>i < length (rb_records b). raw_record_ok (rb_info b) (int i) (rb_records b ! i))"

lemma push_var_nonempty [simp]: "push_unsigned_var v \<noteq> []"
  by (subst push_unsigned_var.simps) (simp add: Let_def)

lemma push_var_i32_nonempty [simp]: "push_var_i32 v \<noteq> []"
  by (simp add: push_var_i32_def Let_def)

lemma in_i32_length: "length x \<le> n \<Longrightarrow> in_i32 (int n) \<Longrightarrow> in_i32 (int (length x))"
  by (simp add: range_simps)

lemma take_raw_append [simp]: "take_raw (length x) (x @ rest) = Inr (x, rest)"
  by (simp add: take_raw_def)

lemma push_nullable_read:
  assumes "length (push_nullable b) \<le> n" "in_i32 (int n)"
  shows "take_nullable_raw (push_nullable b @ rest) = Inr ((), rest)"
proof (cases b)
  case None
  then show ?thesis by (simp add: push_nullable_def take_nullable_raw_def range_simps)
next
  case (Some x)
  then have "in_i32 (int (length x))" using assms by (simp add: push_nullable_def range_simps)
  then show ?thesis using Some by (simp add: push_nullable_def take_nullable_raw_def)
qed

lemma push_headers_read:
  assumes "length (concat (map push_header hs)) \<le> n" "in_i32 (int n)"
  shows "validate_headers (length hs) (concat (map push_header hs) @ rest) = Inr ((), rest)"
  using assms(1)
proof (induction hs)
  case (Cons h hs)
  then have "in_i32 (int (length (fst h)))" "length (push_nullable (snd h)) \<le> n"
    using assms(2) by (auto simp: push_header_def range_simps)
  then show ?case using Cons push_nullable_read [OF _ assms(2)]
    by (simp add: push_header_def usize_of_def)
qed simp

lemma push_headers_long: "2 * length hs \<le> length (concat (map push_header hs))"
proof (induction hs)
  case (Cons h hs)
  have "0 < length (push_nullable (snd h))"
    by (cases "snd h") (simp_all add: push_nullable_def)
  moreover have "0 < length (push_var_i32 (int (length (fst h))))" by simp
  moreover have "2 * Suc k \<le> a + (f + n) + c"
    if "0 < n" "0 < a" "2 * k \<le> c" for a f n c k :: nat using that by simp
  ultimately show ?case using Cons
    by (simp only: list.map(2) concat.simps length_append length_Cons push_header_def)
qed simp

lemma raw_record_accepted:
  assumes ok: "raw_record_ok info ordinal r"
    and sum: "aggregate + length (rr_headers r) \<le> MAX_HEADERS_PER_REQUEST"
  shows "validate_raw_record info ordinal aggregate (raw_record_body r) = Inr (length (rr_headers r))"
proof -
  let ?n = "length (raw_record_body r)" and ?hs = "concat (map push_header (rr_headers r))"
  have n: "in_i32 (int ?n)" using ok by (simp add: raw_record_ok_def)
  have "length (push_nullable (rr_key r)) \<le> ?n" "length (push_nullable (rr_value r)) \<le> ?n" "length ?hs \<le> ?n"
    by (auto simp: raw_record_body_def)
  note reads = push_nullable_read [OF this(1) n] push_nullable_read [OF this(2) n]
    push_headers_read [OF this(3) n, where rest = "[]", simplified]
  have count: "in_i32 (int (length (rr_headers r)))"
    using ok by (simp add: raw_record_ok_def MAX_HEADERS_PER_RECORD_def range_simps)
  have "2 * length (rr_headers r) \<le> length ?hs" by (rule push_headers_long)
  then show ?thesis using ok sum count reads
    by (auto simp: validate_raw_record_def raw_record_ok_def raw_record_body_def take_raw_def usize_of_def
        checked_add_i64_def checked_add_u64_def checked_mul_u64_def
        MAX_HEADERS_PER_RECORD_def MAX_HEADERS_PER_REQUEST_def u64_max_def)
qed

lemma raw_batch_records_accepted:
  assumes "\<forall>i < length rs. raw_record_ok info (ordinal + int i) (rs ! i)"
    and "aggregate + (\<Sum>r\<leftarrow>rs. length (rr_headers r)) \<le> MAX_HEADERS_PER_REQUEST"
  shows "validate_raw_batch_records info (length rs) ordinal aggregate counts
      (concat (map push_raw_record rs) @ rest) =
    Inr (aggregate + (\<Sum>r\<leftarrow>rs. length (rr_headers r)), counts @ map (\<lambda>r. length (rr_headers r)) rs, rest)"
  using assms
proof (induction rs arbitrary: ordinal aggregate counts)
  case (Cons r rs)
  have r: "raw_record_ok info ordinal r" using Cons.prems(1) by (force dest: spec [of _ 0])
  have "\<forall>i < length rs. raw_record_ok info (ordinal + 1 + int i) (rs ! i)"
    using Cons.prems(1) by (auto dest: spec [of _ "Suc _"] simp: ac_simps)
  from Cons.IH [OF this] Cons.prems(2) r raw_record_accepted [OF r, of aggregate]
  show ?case by (simp add: push_raw_record_def raw_record_ok_def usize_of_def add.assoc)
qed simp

lemma be_bytes_read:
  assumes "in_i32 (int n)"
  shows "be_i32 (be_bytes n) = int n"
proof -
  have n: "n < 2147483648" using assms by (simp add: range_simps)
  have "n div 65536 div 256 = n div 16777216" "n div 256 div 256 = n div 65536"
    by (simp_all add: div_mult2_eq [symmetric])
  moreover have "n div 16777216 < 256" using n by simp
  ultimately have "foldl (\<lambda>a b. a * 256 + unat b) 0 (be_bytes n) = n"
    using div_mult_mod_eq [of "n div 65536" 256] div_mult_mod_eq [of "n div 256" 256] div_mult_mod_eq [of n 256]
    by (simp add: be_bytes_def unat_of_nat)
  moreover have "word_of_nat n = (word_of_int (int n) :: 32 word)" by simp
  ultimately show ?thesis by (simp only: be_i32_def sint_word_of_int_id(1) [OF assms])
qed

text \<open>Validation does not reject well-formed input: any sequence of
  batches written in the v2 layout by the reference encoders, with records in bounds, is accepted
  with exactly the header counts that were written.\<close>

theorem raw_records_accepted:
  assumes "\<forall>b \<in> set bs. raw_batch_ok b"
    and "(\<Sum>b\<leftarrow>bs. \<Sum>r\<leftarrow>rb_records b. length (rr_headers r)) \<le> MAX_HEADERS_PER_REQUEST"
  shows "validate_raw_records (concat (map push_raw_batch bs)) (map rb_info bs) =
    Inr (concat (map (\<lambda>b. map (\<lambda>r. length (rr_headers r)) (rb_records b)) bs))"
proof -
  have "validate_raw_records_from aggregate counts (concat (map push_raw_batch bs)) (map rb_info bs) =
      Inr (counts @ concat (map (\<lambda>b. map (\<lambda>r. length (rr_headers r)) (rb_records b)) bs))"
    if "aggregate + (\<Sum>b\<leftarrow>bs. \<Sum>r\<leftarrow>rb_records b. length (rr_headers r)) \<le> MAX_HEADERS_PER_REQUEST"
    for aggregate counts
    using assms(1) that
  proof (induction bs arbitrary: aggregate counts)
    case (Cons b bs)
    let ?body = "rb_header b @ concat (map push_raw_record (rb_records b))"
    have b: "raw_batch_ok b" using Cons.prems by simp
    then have "in_i32 (int (length ?body))"
      by (simp add: raw_batch_ok_def push_raw_batch_def Let_def be_bytes_def range_simps)
    note len = be_bytes_read [OF this]
    have split: "concat (map push_raw_batch (b # bs)) =
        (rb_first8 b @ be_bytes (length ?body)) @ ?body @ concat (map push_raw_batch bs)"
      by (simp add: push_raw_batch_def Let_def)
    have t12: "take_raw 12 ((rb_first8 b @ be_bytes (length ?body)) @ rest)
        = Inr (rb_first8 b @ be_bytes (length ?body), rest)" for rest
      using b take_raw_append [of "rb_first8 b @ be_bytes (length ?body)" rest]
      by (simp add: raw_batch_ok_def be_bytes_def)
    have drops: "drop 8 (rb_first8 b @ be_bytes (length ?body)) = be_bytes (length ?body)"
      "drop 49 ?body = concat (map push_raw_record (rb_records b))"
      "take 4 (drop 11 ?body) = take 4 (drop 11 (rb_header b))" "\<not> length ?body < 49"
      using b by (simp_all add: raw_batch_ok_def)
    have recs: "validate_raw_batch_records (rb_info b) (nat (bf_record_count (rb_info b))) 0 aggregate counts
        (concat (map push_raw_record (rb_records b))) =
      Inr (aggregate + (\<Sum>r\<leftarrow>rb_records b. length (rr_headers r)),
        counts @ map (\<lambda>r. length (rr_headers r)) (rb_records b), [])"
      using b Cons.prems(2) raw_batch_records_accepted [of "rb_records b" "rb_info b" 0 aggregate counts "[]"]
      by (simp add: raw_batch_ok_def)
    have last: "be_i32 (take 4 (drop 11 ?body)) = bf_record_count (rb_info b) - 1"
      if "0 \<le> bf_producer_id (rb_info b)"
      using b that unfolding drops(3) by (simp add: raw_batch_ok_def)
    have usize: "usize_of (int (length ?body)) = Inr (length ?body)"
      by (simp add: usize_of_def)
    show ?case
      unfolding list.map(2) [of rb_info] split validate_raw_records_from.simps(2) t12 attempt_simps
        prod.case drops(1) len usize take_raw_append drops(2) recs
      using Cons.IH [of "aggregate + (\<Sum>r\<leftarrow>rb_records b. length (rr_headers r))"
          "counts @ map (\<lambda>r. length (rr_headers r)) (rb_records b)"] Cons.prems last drops(4)
      by (simp del: length_append drop_append take_append)
  qed simp
  from this [of 0 "[]"] assms(2) show ?thesis by (simp add: validate_raw_records_def)
qed

definition empty_raw_record :: raw_record where
  "empty_raw_record = \<lparr>rr_timestamp_delta = 0, rr_offset_delta = 0, rr_key = None, rr_value = None,
     rr_headers = []\<rparr>"

definition one_raw_batch :: raw_batch where
  "one_raw_batch = \<lparr>rb_info = one_record_info, rb_first8 = replicate 8 0, rb_header = replicate 49 0,
     rb_records = [empty_raw_record]\<rparr>"

lemma push_small_vars:
  "push_var_i32 0 = [0]" "push_var_i32 (- 1) = [1]" "push_var_i64 0 = [0]" "push_var_i32 6 = [12]"
  by (simp_all add: push_var_i32_def push_var_i64_def push_unsigned_var.simps Let_def)

theorem raw_records_accepted_witness:
  "validate_raw_records (push_raw_batch one_raw_batch) [one_record_info] = Inr [0]"
proof -
  have body: "raw_record_body empty_raw_record = [0, 0, 0, 1, 1, 0]"
    by (simp add: raw_record_body_def empty_raw_record_def push_nullable_def push_small_vars)
  have "raw_record_ok one_record_info 0 empty_raw_record"
    by (simp add: raw_record_ok_def body)
      (simp add: empty_raw_record_def one_record_info_def range_simps)
  moreover have "length (push_raw_record empty_raw_record) = 7"
    by (simp add: push_raw_record_def body push_small_vars)
  ultimately have "raw_batch_ok one_raw_batch"
    by (simp add: raw_batch_ok_def one_raw_batch_def push_raw_batch_def be_bytes_def Let_def range_simps)
      (simp add: one_record_info_def)
  with raw_records_accepted [of "[one_raw_batch]"] show ?thesis
    by (simp add: one_raw_batch_def empty_raw_record_def)
qed

end
