(* ===== verification/Log_Env.thy ===== *)
theory Log_Env
  imports Index_Types Records_Codec
begin

text \<open>
  The environment of the log engine: the bucket and the other outside calls (\<open>world\<close>)
  extended by the derived JSON coders and the Kafka record-batch codec, and the engine's own
  configuration. The JSON decoders take the repository's bounded visitors as arguments.
  The laws of the coders and of the engine's object names are named predicates that the
  properties assume where they need them.
\<close>

section \<open>Records\<close>

text \<open>
  The fields of the upstream \<open>Record\<close> that the repository reads or writes; key, value,
  headers and the timestamp type travel untouched in \<open>rc_body\<close>.
\<close>

record kafka_record =
  rc_transactional :: bool
  rc_control :: bool
  rc_delete_horizon :: bool
  rc_partition_leader_epoch :: int
  rc_producer_id :: int
  rc_producer_epoch :: int
  rc_timestamp :: int
  rc_offset :: int
  rc_sequence :: int
  rc_body :: bytes

definition NO_PRODUCER_ID :: int where "NO_PRODUCER_ID = - 1"
definition NO_PRODUCER_EPOCH :: int where "NO_PRODUCER_EPOCH = - 1"
definition NO_SEQUENCE :: int where "NO_SEQUENCE = - 1"

lemmas no_producer_defs = NO_PRODUCER_ID_def NO_PRODUCER_EPOCH_def NO_SEQUENCE_def

section \<open>Outside code\<close>

record allocator =
  al_schema :: nat
  al_next_id :: int

record 's log_env = "'s world" +
  le_metadata_to_vec :: "topic_metadata \<Rightarrow> string + bytes"
  le_metadata_from_slice :: "bytes \<Rightarrow> string + topic_metadata"
  le_schema_from_slice :: "bytes \<Rightarrow> string + nat"
  le_manifest_from_slice :: "(segment json_seq \<Rightarrow> string + segment list) \<Rightarrow> bytes \<Rightarrow> string + manifest"
  le_root_to_vec :: "root \<Rightarrow> string + bytes"
  le_root_from_slice :: "(segment json_seq \<Rightarrow> string + segment list) \<Rightarrow> bytes \<Rightarrow> string + root"
  le_page_to_vec :: "page \<Rightarrow> string + bytes"
  le_page_from_slice :: "(segment json_seq \<Rightarrow> string + segment list)
      \<Rightarrow> (page_ref json_seq \<Rightarrow> string + page_ref list) \<Rightarrow> bytes \<Rightarrow> string + page"
  le_producer_page_to_vec :: "producer_page \<Rightarrow> string + bytes"
  le_producer_page_from_slice :: "(batch_identity json_seq \<Rightarrow> string + batch_identity list)
      \<Rightarrow> (producer_state json_seq \<Rightarrow> string + producer_state list)
      \<Rightarrow> (producer_ref json_seq \<Rightarrow> string + producer_ref list) \<Rightarrow> bytes \<Rightarrow> string + producer_page"
  le_allocator_to_vec :: "allocator \<Rightarrow> string + bytes"
  le_allocator_from_slice :: "bytes \<Rightarrow> string + allocator"
  le_encode_batches :: "kafka_record list \<Rightarrow> string + bytes"
  le_decode_batch_info :: "bytes \<Rightarrow> string + batch_info list \<times> bytes"
  le_decode_all :: "bytes \<Rightarrow> string + kafka_record list list \<times> bytes"
  le_headers_len :: "kafka_record \<Rightarrow> nat"

record engine =
  en_prefix :: string
  en_default_topic_partitions :: int

section \<open>Calls\<close>

text \<open>\<open>From\<close> conversions behind the question-mark operator.\<close>

definition io_store :: "('s, store_error, 'a) io \<Rightarrow> ('s, log_error, 'a) io" where
  "io_store m = io_map_err ObjectStore m"

definition io_json :: "string + 'a \<Rightarrow> ('s, log_error, 'a) io" where
  "io_json r = io_lift (map_err Serialization r)"

lemma io_store_Inr [result_simps]: "io_store m s = (Inr x, t) \<longleftrightarrow> m s = (Inr x, t)"
  by (simp add: io_store_def result_simps)

lemma io_json_Inr [result_simps]: "io_json r s = (Inr x, t) \<longleftrightarrow> r = Inr x \<and> t = s"
  by (auto simp: io_json_def)

lemma io_lift_Inr [result_simps]: "io_lift r s = (Inr x, t) \<longleftrightarrow> r = Inr x \<and> t = s"
  by auto

text \<open>An object name below the engine's prefix and the partition's directory.\<close>

definition engine_dir :: "engine \<Rightarrow> string \<Rightarrow> int \<Rightarrow> string" where
  "engine_dir L topic part = partition_dir (en_prefix L) topic part"

text \<open>Reading a body that must have exactly the referenced length and checksum.\<close>

definition read_exact ::
  "('s, 'm) world_scheme \<Rightarrow> string \<Rightarrow> nat \<Rightarrow> string \<Rightarrow> log_error \<Rightarrow> log_error \<Rightarrow> log_error
   \<Rightarrow> ('s, log_error, bytes) io" where
  "read_exact W path byte_length sha256 wrong_size too_large wrong_body =
     io_bind (io_store (w_get W path)) (\<lambda>result.
       if gr_size result \<noteq> byte_length then io_err wrong_size
       else io_bind (io_lift (map_err (\<lambda>e. case e of ReadStore e' \<Rightarrow> ObjectStore e' | TooLarge \<Rightarrow> too_large)
                      (collect_bounded (gr_chunks result) byte_length []))) (\<lambda>bytes.
         if length bytes \<noteq> byte_length \<or> w_sha256_hex W bytes \<noteq> sha256 then io_err wrong_body
         else io_ret bytes))"

section \<open>Laws of the outside code\<close>

text \<open>Names generated by the engine are canonical object paths and carry parseable UUIDs.\<close>

definition name_laws :: "('s, 'm) world_scheme \<Rightarrow> engine \<Rightarrow> string \<Rightarrow> int \<Rightarrow> bool" where
  "name_laws W L topic part \<longleftrightarrow>
     (\<forall>s. let u = fst (w_new_uuid W s) in
        w_uuid_ok W u
      \<and> (\<forall>d \<in> {''index/'', ''producer-state/''}.
           w_path_from W (engine_dir L topic part @ d @ u @ ''.json'')
             = engine_dir L topic part @ d @ u @ ''.json'')
      \<and> w_path_from W (engine_dir L topic part @ ''segments/'' @ u @ ''.batch'')
          = engine_dir L topic part @ ''segments/'' @ u @ ''.batch'')
   \<and> w_path_from W (engine_dir L topic part @ ''manifest.json'') = engine_dir L topic part @ ''manifest.json''"

text \<open>A page decodes to what was encoded, its collections passing through the visitors.\<close>

definition page_json_laws :: "('s, 'm) log_env_scheme \<Rightarrow> bool" where
  "page_json_laws E \<longleftrightarrow>
     (\<forall>p b visit_segments visit_children. le_page_to_vec E p = Inr b \<longrightarrow>
        (case p of
           Leaf sgs \<Rightarrow> (\<forall>sgs'. visit_segments (json_seq_of sgs) = Inr sgs' \<longrightarrow>
             le_page_from_slice E visit_segments visit_children b = Inr (Leaf sgs'))
         | Branch cs \<Rightarrow> (\<forall>cs'. visit_children (json_seq_of cs) = Inr cs' \<longrightarrow>
             le_page_from_slice E visit_segments visit_children b = Inr (Branch cs'))))"

definition producer_page_json_laws :: "('s, 'm) log_env_scheme \<Rightarrow> bool" where
  "producer_page_json_laws E \<longleftrightarrow>
     (\<forall>p b history states children. le_producer_page_to_vec E p = Inr b \<longrightarrow>
        (case p of
           PLeaf ps \<Rightarrow> (\<forall>ps'. (\<forall>q \<in> set ps. history (json_seq_of (ps_batches q)) = Inr (ps_batches q)) \<longrightarrow>
             states (json_seq_of ps) = Inr ps' \<longrightarrow>
             le_producer_page_from_slice E history states children b = Inr (PLeaf ps'))
         | PBranch cs \<Rightarrow> (\<forall>cs'. children (json_seq_of cs) = Inr cs' \<longrightarrow>
             le_producer_page_from_slice E history states children b = Inr (PBranch cs'))))"

definition root_json_laws :: "('s, 'm) log_env_scheme \<Rightarrow> bool" where
  "root_json_laws E \<longleftrightarrow>
     (\<forall>r b visit. le_root_to_vec E r = Inr b \<longrightarrow>
        le_schema_from_slice E b = Inr (rt_schema r)
      \<and> (\<forall>sgs. visit (json_seq_of (rt_tail r)) = Inr sgs \<longrightarrow>
           le_root_from_slice E visit b = Inr (r\<lparr>rt_tail := sgs\<rparr>)))"

definition small_json_laws :: "('s, 'm) log_env_scheme \<Rightarrow> bool" where
  "small_json_laws E \<longleftrightarrow>
     (\<forall>a b. le_allocator_to_vec E a = Inr b \<longrightarrow> le_allocator_from_slice E b = Inr a)
   \<and> (\<forall>m b. le_metadata_to_vec E m = Inr b \<longrightarrow> le_metadata_from_slice E b = Inr m)"

section \<open>What other clients may do\<close>

text \<open>
  The immutable objects of a partition lie in three namespaces below its directory; its root
  object \<open>manifest.json\<close> does not. A rely under which immutable objects are never overwritten or
  removed: other writers create new ones and replace roots.
\<close>

definition immutable_name :: "string \<Rightarrow> string \<Rightarrow> bool" where
  "immutable_name dir p \<longleftrightarrow>
     list_ex (\<lambda>d. starts_with (dir @ d) p) [''segments/'', ''index/'', ''producer-state/'']"

definition keeps_dir :: "string \<Rightarrow> objects \<Rightarrow> objects \<Rightarrow> bool" where
  "keeps_dir dir m m' \<longleftrightarrow> (\<forall>p. immutable_name dir p \<longrightarrow> m p \<noteq> None \<longrightarrow> m' p = m p)"

lemma keeps_dir_refl [simp]: "keeps_dir dir m m"
  by (simp add: keeps_dir_def)

lemma keeps_dir_trans: "keeps_dir dir m m' \<Longrightarrow> keeps_dir dir m' m'' \<Longrightarrow> keeps_dir dir m m''"
  unfolding keeps_dir_def by metis

lemma keeps_dir_SomeD:
  "keeps_dir dir m m' \<Longrightarrow> immutable_name dir p \<Longrightarrow> m p = Some x \<Longrightarrow> m' p = Some x"
  unfolding keeps_dir_def by force

text \<open>Creating an object never overwrites one.\<close>

lemma create_keeps_dir:
  assumes "store_laws W view rely" "\<And>m m'. rely m m' \<Longrightarrow> keeps_dir dir m m'"
    and "w_put W p b Create s = (r, t)"
  shows "keeps_dir dir (view s) (view t)"
proof -
  from store_laws_put [OF assms(1,3)] obtain u where
    m: "rely (view s) (view u)" "put_outcome p b Create r (view u) (view t)" by blast
  have "keeps_dir dir (view u) (view t)"
    using m(2) by (auto simp: put_outcome_def put_allowed_def keeps_dir_def
        split: sum.splits store_error.splits)
  with assms(2) [OF m(1)] show ?thesis by (rule keeps_dir_trans)
qed

lemma create_Inr:
  assumes "store_laws W view rely" "w_put W p b Create s = (Inr v, t)"
  shows "view t p = Some (v, b)"
  using store_laws_put [OF assms] by (auto simp: put_outcome_def)

text \<open>A successful bounded read returns the body the bucket holds at that moment.\<close>

lemma read_exact_Inr:
  assumes "store_laws W view rely" "read_exact W path n sha e1 e2 e3 s = (Inr b, t)"
  shows "rely (view s) (view t) \<and> (\<exists>v. view t path = Some (v, b)) \<and> length b = n \<and> w_sha256_hex W b = sha"
proof -
  from assms(2) obtain g where g: "w_get W path s = (Inr g, t)"
    and b: "collect_bounded (gr_chunks g) n [] = Inr b" "length b = n" "w_sha256_hex W b = sha"
    by (auto simp: read_exact_def result_simps map_err_def split: if_splits sum.splits prod.splits)
  from store_laws_get [OF assms(1) g] obtain v b' where
    "rely (view s) (view t)" "view t path = Some (v, b')" "delivers (gr_chunks g) b'"
    by (auto simp: get_outcome_def split: option.splits)
  moreover have "b = b'" using collect_bounded_delivers [OF b(1)] \<open>delivers _ _\<close> by simp
  ultimately show ?thesis using b by blast
qed

lemma read_exact_Inl:
  assumes "store_laws W view rely" "read_exact W path n sha e1 e2 e3 s = (Inl e, t)"
  shows "rely (view s) (view t)"
proof -
  from assms(2) obtain r where "w_get W path s = (r, t)"
    by (auto simp: read_exact_def io_store_def io_map_err_def io_bind_def split: prod.splits sum.splits if_splits)
  then show ?thesis using store_laws_get [OF assms(1)] by blast
qed

section \<open>Guarantees of single calls\<close>

definition dir_kept :: "('s \<Rightarrow> objects) \<Rightarrow> string \<Rightarrow> 's \<Rightarrow> 's \<Rightarrow> bool" where
  "dir_kept view dir s t \<longleftrightarrow> keeps_dir dir (view s) (view t)"

lemma dir_kept_reflp: "reflp (dir_kept view dir)"
  by (simp add: reflp_def dir_kept_def)

lemma dir_kept_transp: "transp (dir_kept view dir)"
  by (auto simp: transp_def dir_kept_def intro: keeps_dir_trans)

lemma io_keeps_store [io_keeps_rules]: "io_keeps R m \<Longrightarrow> io_keeps R (io_store m)"
  unfolding io_store_def by (rule io_keeps_map_err)

lemma io_keeps_json [io_keeps_rules]: "io_keeps R (io_json r)"
  unfolding io_json_def by (rule io_keeps_ret)

lemma io_keeps_read_exact [io_keeps_rules]:
  "io_keeps R (w_get W path) \<Longrightarrow> io_keeps R (read_exact W path n sha e1 e2 e3)"
  unfolding read_exact_def by (intro io_keeps_rules)

lemma io_keeps_single: "(\<And>s x t. m s = (x, t) \<Longrightarrow> R s t) \<Longrightarrow> io_keeps R m"
  by (auto simp: io_keeps_def)

lemma dir_kept_calls:
  assumes laws: "store_laws W view rely" and rely: "\<And>m m'. rely m m' \<Longrightarrow> keeps_dir dir m m'"
  shows "io_keeps (dir_kept view dir) (w_get W p)"
    and "io_keeps (dir_kept view dir) (w_head W p)"
    and "io_keeps (dir_kept view dir) (w_put W p b Create)"
    and "io_keeps (dir_kept view dir) (w_list_prefixes W p)"
    and "io_keeps (dir_kept view dir) (io_call (w_new_uuid W))"
    and "io_keeps (dir_kept view dir) (io_call (w_unix_millis W))"
    and "io_keeps (dir_kept view dir) (io_call (w_list W p))"
  using store_laws_get [OF laws] store_laws_head [OF laws] store_laws_calls [OF laws]
    create_keeps_dir [OF laws rely]
  by (auto intro!: io_keeps_single io_keeps_calls rely simp: dir_kept_def)

end
