(* ===== verification/Page_Store.thy ===== *)
theory Page_Store
  imports Log_Env
begin

text \<open>
  The interface both immutable directories of the log share, the offset index
  (\<open>src/log/index.rs\<close>) and the producer directory (\<open>src/log/producer.rs\<close>): pages that are
  written once and read back through a reference that carries their length and checksum.
  A reference \<open>denotes\<close> the items of the tree of pages below it. The locale \<open>page_store\<close>
  states what writing and reading a page promise; both directories interpret it.
\<close>

section \<open>What a reference denotes\<close>

inductive denotes :: "('r \<Rightarrow> 'p \<Rightarrow> bool) \<Rightarrow> ('p \<Rightarrow> 'r list) \<Rightarrow> ('p \<Rightarrow> 'i list) \<Rightarrow> 'r \<Rightarrow> 'i list \<Rightarrow> bool"
  for stored kids items where
  node: "stored r p \<Longrightarrow> list_all2 (denotes stored kids items) (kids p) xss \<Longrightarrow>
         denotes stored kids items r (items p @ concat xss)"
monos list.rel_mono_strong

inductive_cases denotesE: "denotes stored kids items r xs"

lemma denotes_mono:
  assumes "denotes stored kids items r xs" "\<And>r p. stored r p \<Longrightarrow> stored' r p"
  shows "denotes stored' kids items r xs"
  using assms(1)
proof induction
  case (node r p xss)
  then have "list_all2 (denotes stored' kids items) (kids p) xss"
    by (auto elim: list_all2_mono)
  with assms(2) [OF node.hyps] show ?case by (rule denotes.node)
qed

lemma list_all2_unique:
  "list_all2 (\<lambda>r xs. P r xs \<and> (\<forall>ys. Q r ys \<longrightarrow> xs = ys)) rs xss \<Longrightarrow> list_all2 Q rs yss \<Longrightarrow> xss = yss"
  by (induction rs xss arbitrary: yss rule: list_all2_induct) (auto simp: list_all2_Cons1)

lemma denotes_unique:
  assumes "denotes stored kids items r xs" "denotes stored kids items r ys"
    and unique: "\<And>r p q. stored r p \<Longrightarrow> stored r q \<Longrightarrow> p = q"
  shows "xs = ys"
  using assms(1,2)
proof (induction arbitrary: ys)
  case (node r p xss)
  from node.prems obtain q yss where
    q: "stored r q" "list_all2 (denotes stored kids items) (kids q) yss" "ys = items q @ concat yss"
    by (auto elim: denotesE)
  have "q = p" using unique q(1) node.hyps by blast
  moreover have "xss = yss"
    using node.IH q(2) \<open>q = p\<close> by (auto elim!: list_all2_unique)
  ultimately show ?case using q(3) by simp
qed

text \<open>What a page denotes, given what its children denote.\<close>

definition denoted ::
  "('r \<Rightarrow> 'i list \<Rightarrow> bool) \<Rightarrow> ('p \<Rightarrow> 'r list) \<Rightarrow> ('p \<Rightarrow> 'i list) \<Rightarrow> 'p \<Rightarrow> 'i list \<Rightarrow> bool" where
  "denoted h kids items p ys \<longleftrightarrow> (\<exists>yss. list_all2 h (kids p) yss \<and> ys = items p @ concat yss)"

text \<open>The objects of the pages below a reference, its own included.\<close>

inductive page_object :: "('r \<Rightarrow> 'p \<Rightarrow> bool) \<Rightarrow> ('p \<Rightarrow> 'r list) \<Rightarrow> ('r \<Rightarrow> string) \<Rightarrow> 'r \<Rightarrow> string \<Rightarrow> bool"
  for stored kids name where
  self: "page_object stored kids name r (name r)"
| below: "stored r p \<Longrightarrow> c \<in> set (kids p) \<Longrightarrow> page_object stored kids name c x \<Longrightarrow>
          page_object stored kids name r x"

lemma page_object_mono:
  assumes "page_object stored kids name r x" "\<And>r p. stored r p \<Longrightarrow> stored' r p"
  shows "page_object stored' kids name r x"
  using assms(1) by induction (auto intro: page_object.intros assms(2))

section \<open>The interface\<close>

locale page_store =
  fixes legal :: bool
    and view :: "'s \<Rightarrow> objects"
    and later :: "objects \<Rightarrow> objects \<Rightarrow> bool"
    and stored :: "objects \<Rightarrow> 'r \<Rightarrow> 'p \<Rightarrow> bool"
    and writable :: "'p \<Rightarrow> bool"
    and put_page :: "'p \<Rightarrow> ('s, 'e, 'r) io"
    and get_page :: "'r \<Rightarrow> ('s, 'e, 'p) io"
    and kids :: "'p \<Rightarrow> 'r list"
    and items :: "'p \<Rightarrow> 'i list"
  assumes later_refl: "later m m"
    and later_trans: "later m m' \<Longrightarrow> later m' m'' \<Longrightarrow> later m m''"
    and stored_later: "stored m r p \<Longrightarrow> later m m' \<Longrightarrow> stored m' r p"
    and stored_unique: "stored m r p \<Longrightarrow> stored m r q \<Longrightarrow> p = q"
    and write_later: "legal \<Longrightarrow> put_page p s = (x, t) \<Longrightarrow> later (view s) (view t)"
    and write_stored: "legal \<Longrightarrow> writable p \<Longrightarrow> put_page p s = (Inr r, t) \<Longrightarrow> stored (view t) r p"
    and read_later: "legal \<Longrightarrow> get_page r s = (y, t) \<Longrightarrow> later (view s) (view t)"
    and read_stored: "legal \<Longrightarrow> get_page r s = (Inr p, t) \<Longrightarrow> stored (view s) r q \<Longrightarrow> p = q"
begin

abbreviation holds :: "objects \<Rightarrow> 'r \<Rightarrow> 'i list \<Rightarrow> bool" where
  "holds m \<equiv> denotes (stored m) kids items"

lemma holds_later: "holds m r xs \<Longrightarrow> later m m' \<Longrightarrow> holds m' r xs"
  by (erule denotes_mono) (rule stored_later)

lemma holds_all_later: "list_all2 (holds m) rs xss \<Longrightarrow> later m m' \<Longrightarrow> list_all2 (holds m') rs xss"
  by (erule list_all2_mono) (rule holds_later)

lemma holds_unique: "holds m r xs \<Longrightarrow> holds m r ys \<Longrightarrow> xs = ys"
  by (rule denotes_unique) (assumption, assumption, rule stored_unique)

lemma write_holds:
  assumes "legal" "writable p" "put_page p s = (Inr r, t)" "list_all2 (holds (view s)) (kids p) xss"
  shows "holds (view t) r (items p @ concat xss)"
  using write_stored [OF assms(1-3)] holds_all_later [OF assms(4) write_later [OF assms(1,3)]]
  by (rule denotes.node)

lemma read_holds:
  assumes "legal" "get_page r s = (Inr p, t)" "holds (view s) r xs"
  shows "\<exists>xss. xs = items p @ concat xss \<and> list_all2 (holds (view t)) (kids p) xss"
proof -
  from assms(3) obtain q xss where
    q: "stored (view s) r q" "list_all2 (holds (view s)) (kids q) xss" "xs = items q @ concat xss"
    by (auto elim: denotesE)
  have "p = q" using read_stored [OF assms(1,2) q(1)] .
  with q holds_all_later [OF q(2) read_later [OF assms(1,2)]] show ?thesis by blast
qed

lemma denoted_later: "denoted (holds m) kids items p ys \<Longrightarrow> later m m' \<Longrightarrow> denoted (holds m') kids items p ys"
  unfolding denoted_def using holds_all_later by blast

lemma put_all_holds:
  assumes "legal" "io_map put_page ps s = (Inr rs, t)" "\<forall>p \<in> set ps. writable p"
    and "list_all2 (denoted (holds (view s)) kids items) ps yss"
  shows "list_all2 (holds (view t)) rs yss \<and> later (view s) (view t)"
  using assms(2-4)
proof (induction ps arbitrary: s rs yss)
  case Nil
  then show ?case by (auto intro: later_refl)
next
  case (Cons p ps)
  from Cons.prems(1) obtain r rs' u where
    w: "put_page p s = (Inr r, u)" and rs: "rs = r # rs'" and rest: "io_map put_page ps u = (Inr rs', t)"
    by (auto simp: result_simps)
  from Cons.prems(3) obtain ys yss' where yss: "yss = ys # yss'" "denoted (holds (view s)) kids items p ys"
      "list_all2 (denoted (holds (view s)) kids items) ps yss'"
    by (auto simp: list_all2_Cons1)
  have su: "later (view s) (view u)" by (rule write_later [OF assms(1) w])
  have r: "holds (view u) r ys"
    using write_holds [OF assms(1) _ w] Cons.prems(2) yss(2) by (auto simp: denoted_def)
  have "list_all2 (denoted (holds (view u)) kids items) ps yss'"
    using yss(3) by (rule list_all2_mono) (rule denoted_later [OF _ su])
  from Cons.IH [OF rest _ this] Cons.prems(2) have
    IH: "list_all2 (holds (view t)) rs' yss'" "later (view u) (view t)" by auto
  with r rs yss(1) su show ?case by (auto intro: later_trans holds_later)
qed

text \<open>A page that was written is read back unchanged, whatever happened in between.\<close>

lemma write_then_read:
  assumes "legal" "writable p" "put_page p s = (Inr r, t)" "later (view t) (view u)"
    and "get_page r u = (Inr q, v)"
  shows "q = p"
  using read_stored [OF assms(1,5)] stored_later [OF write_stored [OF assms(1-3)] assms(4)] by blast

end

end
