(* ===== verification/Log_Index.thy ===== *)
theory Log_Index
  imports Page_Store
begin

text \<open>
  The operations of \<open>src/log/index.rs\<close>: writing and reading immutable index pages, adding a
  sealed leaf at the right edge, rebuilding the tree bottom-up, and the two traversals (the
  complete trace of maintenance and the bounded one of a fetch). Loops over pages are
  recursions on explicit stacks; they terminate because every page that passes its checks
  has children of a strictly lower level, whatever the bucket contains.
\<close>

section \<open>Pages\<close>

definition page_write_bounds ::
  "(string \<Rightarrow> bool) \<Rightarrow> engine \<Rightarrow> string \<Rightarrow> int \<Rightarrow> page \<Rightarrow> log_error + int \<times> int \<times> nat \<times> nat" where
  "page_write_bounds uuid_ok L topic part page =
     (case page of
        Leaf segments \<Rightarrow>
          (case segments of
             [] \<Rightarrow> Inl (invalid ''empty index leaf'')
           | first # _ \<Rightarrow>
               attempt (validate_segments segments (sg_base_offset first) (en_prefix L) topic part) (\<lambda>next.
                 Inr (sg_base_offset first, next, length segments, 0)))
      | Branch children \<Rightarrow> validate_children uuid_ok children (en_prefix L) topic part)"

definition write_page ::
  "('s, 'm) log_env_scheme \<Rightarrow> engine \<Rightarrow> string \<Rightarrow> int \<Rightarrow> page \<Rightarrow> ('s, log_error, page_ref) io" where
  "write_page E L topic part page =
     io_bind (io_lift (page_write_bounds (w_uuid_ok E) L topic part page)) (\<lambda>(first_offset, next_offset, segment_count, level).
     io_bind (io_json (le_page_to_vec E page)) (\<lambda>bytes.
       if length bytes > MAX_MANIFEST_BYTES then io_err (invalid ''index page exceeds byte limit'')
       else io_bind (io_call (w_new_uuid E)) (\<lambda>uuid.
         let object = w_path_from E (engine_dir L topic part @ ''index/'' @ uuid @ ''.json'');
             reference = \<lparr>pr_object = object, pr_first_offset = first_offset,
               pr_next_offset = next_offset, pr_segment_count = segment_count, pr_level = level,
               pr_byte_length = length bytes, pr_sha256 = w_sha256_hex E bytes\<rparr>
         in io_bind (io_lift (validate_page_ref (w_uuid_ok E) reference (en_prefix L) topic part)) (\<lambda>_.
            io_bind (io_store (w_put E object bytes Create)) (\<lambda>_.
              io_ret reference)))))"

text \<open>The checks on the bytes of a page that was read through a reference.\<close>

definition decode_page ::
  "('s, 'm) log_env_scheme \<Rightarrow> engine \<Rightarrow> string \<Rightarrow> int \<Rightarrow> page_ref \<Rightarrow> bytes \<Rightarrow> log_error + page" where
  "decode_page E L topic part reference bytes =
     attempt (map_err invalid (le_page_from_slice E entries entries bytes)) (\<lambda>page.
     attempt (case page of
                Leaf segments \<Rightarrow>
                  if length segments \<noteq> PAGE_ENTRIES then Inl (invalid ''sealed index leaf must be full'')
                  else attempt (validate_segments segments (pr_first_offset reference) (en_prefix L) topic part) (\<lambda>end_offset.
                    Inr (pr_first_offset reference, end_offset, length segments, 0))
              | Branch children \<Rightarrow> validate_children (w_uuid_ok E) children (en_prefix L) topic part) (\<lambda>actual.
       if actual \<noteq> (pr_first_offset reference, pr_next_offset reference,
                    pr_segment_count reference, pr_level reference)
       then Inl (invalid ''index page does not match parent range, count, or level'')
       else Inr page))"

definition read_page ::
  "('s, 'm) log_env_scheme \<Rightarrow> engine \<Rightarrow> string \<Rightarrow> int \<Rightarrow> page_ref \<Rightarrow> ('s, log_error, page) io" where
  "read_page E L topic part reference =
     io_bind (io_lift (validate_page_ref (w_uuid_ok E) reference (en_prefix L) topic part)) (\<lambda>_.
     io_bind (read_exact E (w_path_from E (pr_object reference)) (pr_byte_length reference)
               (pr_sha256 reference) (invalid ''index page length mismatch'')
               (invalid ''index page body exceeds reference length'')
               (invalid ''index page length or checksum mismatch'')) (\<lambda>bytes.
       io_lift (decode_page E L topic part reference bytes)))"

text \<open>The children of a page that passed the checks lie exactly one level below it.\<close>

lemma validate_children_from_Inr:
  "validate_children_from ok prefix topic part level n c objs cs = Inr r \<Longrightarrow>
   \<forall>child \<in> set cs. pr_level child = level \<and> validate_page_ref ok child prefix topic part = Inr ()"
  by (induction ok prefix topic part level n c objs cs rule: validate_children_from.induct)
    (auto simp: result_simps split: if_splits)

lemma validate_children_Inr:
  assumes "validate_children ok cs prefix topic part = Inr (f, n, c, level)"
  shows "cs \<noteq> []" "length cs \<le> PAGE_ENTRIES"
    "\<forall>child \<in> set cs. Suc (pr_level child) = level \<and> validate_page_ref ok child prefix topic part = Inr ()"
    "level \<le> INDEX_MAX_LEVEL"
  using assms
  by (auto simp: validate_children_def result_simps split: list.splits if_splits
      dest!: validate_children_from_Inr)

lemma decode_page_Branch:
  assumes "decode_page E L topic part r b = Inr (Branch cs)"
  shows "cs \<noteq> []" "length cs \<le> PAGE_ENTRIES" "\<forall>c \<in> set cs. Suc (pr_level c) = pr_level r"
  using assms by (auto simp: decode_page_def result_simps split: if_splits dest: validate_children_Inr)

lemma read_page_Branch:
  assumes "read_page E L topic part r s = (Inr (Branch cs), t)"
  shows "cs \<noteq> []" "length cs \<le> PAGE_ENTRIES" "\<forall>c \<in> set cs. Suc (pr_level c) = pr_level r"
  using assms by (auto simp: read_page_def result_simps dest: decode_page_Branch)

lemma read_page_Branch_last:
  "read_page E L topic part r s = (Inr (Branch cs), t) \<Longrightarrow> pr_level (last cs) < pr_level r"
  using read_page_Branch [of E L topic part r s cs t] by (metis last_in_set lessI)

lemma write_page_Branch_level:
  "write_page E L topic part (Branch (c # cs)) s = (Inr r, t) \<Longrightarrow> pr_level r = Suc (pr_level c)"
  by (auto simp: write_page_def page_write_bounds_def validate_children_def result_simps Let_def
      split: if_splits)

section \<open>Adding a leaf\<close>

text \<open>\<open>while leaf.level < level\<close>: each round writes a branch with one child.\<close>

function index_path ::
  "('s, 'm) log_env_scheme \<Rightarrow> engine \<Rightarrow> string \<Rightarrow> int \<Rightarrow> page_ref \<Rightarrow> nat \<Rightarrow> 's \<Rightarrow> (log_error + page_ref) \<times> 's" where
  "index_path E L topic part leaf level s =
     (if pr_level leaf < level then
        (case write_page E L topic part (Branch [leaf]) s of
           (Inl e, t) \<Rightarrow> (Inl e, t)
         | (Inr leaf', t) \<Rightarrow> index_path E L topic part leaf' level t)
      else (Inr leaf, s))"
  by pat_completeness auto
termination
  by (relation "measure (\<lambda>(E, L, topic, part, leaf, level, s). level - pr_level leaf)")
    (auto dest!: sym [of "(Inr _, _)"] write_page_Branch_level)

declare index_path.simps [simp del]

text \<open>
  \<open>children.pop()\<close> takes the last child off; the recursion follows it downwards.
\<close>

function insert_leaf ::
  "('s, 'm) log_env_scheme \<Rightarrow> engine \<Rightarrow> string \<Rightarrow> int \<Rightarrow> page_ref \<Rightarrow> page_ref \<Rightarrow> 's \<Rightarrow> (log_error + page_ref) \<times> 's" where
  "insert_leaf E L topic part tree leaf s =
     (if full tree then
        if pr_level tree = INDEX_MAX_LEVEL then (Inl OffsetOverflow, s)
        else io_bind (index_path E L topic part leaf (pr_level tree)) (\<lambda>right.
               write_page E L topic part (Branch [tree, right])) s
      else
        (case read_page E L topic part tree s of
           (Inl e, t) \<Rightarrow> (Inl e, t)
         | (Inr (Leaf _), t) \<Rightarrow> (Inl (invalid ''incomplete sealed leaf''), t)
         | (Inr (Branch children), t) \<Rightarrow>
             if children = [] then (Inl (invalid ''empty index branch''), t)
             else if full (last children) then
               io_bind (index_path E L topic part leaf (pr_level (last children))) (\<lambda>right.
                 write_page E L topic part (Branch (butlast children @ [last children, right]))) t
             else
               (case insert_leaf E L topic part (last children) leaf t of
                  (Inl e, u) \<Rightarrow> (Inl e, u)
                | (Inr child, u) \<Rightarrow> write_page E L topic part (Branch (butlast children @ [child])) u)))"
  by pat_completeness auto
termination
  by (relation "measure (\<lambda>(E, L, topic, part, tree, leaf, s). pr_level tree)")
    (auto dest!: sym [of "(Inr _, _)"] dest: read_page_Branch_last)

declare insert_leaf.simps [simp del]

text \<open>\<open>seal_tail\<close> changes the root it is given; callers drop the root on an error.\<close>

definition seal_tail ::
  "('s, 'm) log_env_scheme \<Rightarrow> engine \<Rightarrow> string \<Rightarrow> int \<Rightarrow> root \<Rightarrow> ('s, log_error, root) io" where
  "seal_tail E L topic part root =
     io_bind (write_page E L topic part (Leaf (rt_tail root))) (\<lambda>leaf.
     io_bind (case rt_tree root of
                Some tree \<Rightarrow> insert_leaf E L topic part tree leaf
              | None \<Rightarrow> io_ret leaf) (\<lambda>tree.
       io_ret (root\<lparr>rt_tree := Some tree, rt_tail := []\<rparr>)))"

fun migrate_segments ::
  "('s, 'm) log_env_scheme \<Rightarrow> engine \<Rightarrow> string \<Rightarrow> int \<Rightarrow> root \<Rightarrow> segment list \<Rightarrow> ('s, log_error, root) io" where
  "migrate_segments E L topic part root [] = io_ret root"
| "migrate_segments E L topic part root (segment # segments) =
     io_bind (if length (rt_tail root) = PAGE_ENTRIES then seal_tail E L topic part root else io_ret root) (\<lambda>root.
       migrate_segments E L topic part (root\<lparr>rt_tail := rt_tail root @ [segment]\<rparr>) segments)"

definition migrate_manifest ::
  "('s, 'm) log_env_scheme \<Rightarrow> engine \<Rightarrow> string \<Rightarrow> int \<Rightarrow> manifest \<Rightarrow> nat \<Rightarrow> ('s, log_error, root) io" where
  "migrate_manifest E L topic part legacy now_ms =
     io_bind (migrate_segments E L topic part (root_default\<lparr>rt_adopted_at_ms := Some now_ms\<rparr>) (mf_segments legacy)) (\<lambda>root.
       io_ret (root\<lparr>rt_revision := mf_revision legacy, rt_next_offset := mf_next_offset legacy\<rparr>))"

section \<open>Rebuilding\<close>

text \<open>\<open>slice::chunks\<close>.\<close>

function chunks :: "nat \<Rightarrow> 'a list \<Rightarrow> 'a list list" where
  "chunks n xs = (if xs = [] \<or> n = 0 then [] else take n xs # chunks n (drop n xs))"
  by pat_completeness auto
termination by (relation "measure (\<lambda>(n, xs). length xs)") auto

declare chunks.simps [simp del]

lemma chunks_Nil [simp]: "chunks n [] = []" by (simp add: chunks.simps)

lemma concat_chunks [simp]: "0 < n \<Longrightarrow> concat (chunks n xs) = xs"
  by (induction n xs rule: chunks.induct) (subst chunks.simps, auto)

lemma chunks_length_le: "c \<in> set (chunks n xs) \<Longrightarrow> c \<noteq> [] \<and> length c \<le> n"
  by (induction n xs rule: chunks.induct) (subst (asm) (2) chunks.simps, auto split: if_splits)

lemma length_chunks: "0 < n \<Longrightarrow> length (chunks n xs) = (length xs + n - 1) div n"
proof (induction n xs rule: chunks.induct)
  case (1 n xs)
  show ?case
  proof (cases "xs = []")
    case False
    have "length (chunks n xs) = Suc ((length (drop n xs) + n - 1) div n)"
      using 1 False by (simp add: chunks.simps [of n xs])
    also have "\<dots> = (length xs + n - 1) div n"
    proof (cases "n \<le> length xs")
      case True
      then obtain k where "length xs = k + n" by (metis le_add_diff_inverse2)
      then show ?thesis using 1(2) div_add_self2 [of n "k + n - 1"] by (simp add: ac_simps)
    next
      case le: False
      obtain k where k: "length xs = Suc k" using False by (cases xs) auto
      then have "k < n" using le by simp
      then show ?thesis using k div_add_self2 [of n k] by simp
    qed
    finally show ?thesis .
  qed (use 1 in simp)
qed

lemma chunks_64_shorter: "1 < length xs \<Longrightarrow> length (chunks PAGE_ENTRIES xs) < length xs"
  by (simp add: length_chunks PAGE_ENTRIES_def)

text \<open>The number of pages above the leaves, level by level, added to the object count.\<close>

function count_levels :: "nat \<Rightarrow> nat \<Rightarrow> nat \<Rightarrow> log_error + nat" where
  "count_levels maximum count level_count =
     (if level_count = 0 then Inr count
      else attempt (ok_or (checked_add_u64 count level_count) (MaintenanceBudget maximum)) (\<lambda>count.
        if level_count = 1 then Inr count
        else count_levels maximum count ((level_count + PAGE_ENTRIES - 1) div PAGE_ENTRIES)))"
  by pat_completeness auto
termination
  by (relation "measure (\<lambda>(maximum, count, level_count). level_count)") (auto simp: PAGE_ENTRIES_def)

declare count_levels.simps [simp del]

function build_levels ::
  "('s, 'm) log_env_scheme \<Rightarrow> engine \<Rightarrow> string \<Rightarrow> int \<Rightarrow> page_ref list \<Rightarrow> 's \<Rightarrow> (log_error + page_ref list) \<times> 's" where
  "build_levels E L topic part pages s =
     (if length pages > 1 then
        (case io_map (\<lambda>children. write_page E L topic part (Branch children)) (chunks PAGE_ENTRIES pages) s of
           (Inl e, t) \<Rightarrow> (Inl e, t)
         | (Inr parents, t) \<Rightarrow> build_levels E L topic part parents t)
      else (Inr pages, s))"
  by pat_completeness auto
termination
  by (relation "measure (\<lambda>(E, L, topic, part, pages, s). length pages)")
    (auto dest!: sym [of "(Inr _, _)"] io_map_length simp: chunks_64_shorter)

declare build_levels.simps [simp del]

definition rebuild_index ::
  "('s, 'm) log_env_scheme \<Rightarrow> engine \<Rightarrow> string \<Rightarrow> int \<Rightarrow> segment list \<Rightarrow> int \<Rightarrow> int \<Rightarrow> nat \<Rightarrow> ('s, log_error, root) io" where
  "rebuild_index E L topic part segments start_offset next_offset maximum =
     (let sealed = (length segments - 1) div PAGE_ENTRIES * PAGE_ENTRIES
      in io_bind (io_lift (count_levels maximum (length segments) (sealed div PAGE_ENTRIES))) (\<lambda>count.
         if count > maximum then io_err (MaintenanceBudget maximum)
         else io_bind (io_map (\<lambda>chunk. write_page E L topic part (Leaf chunk))
                        (chunks PAGE_ENTRIES (take sealed segments))) (\<lambda>leaves.
         io_bind (build_levels E L topic part leaves) (\<lambda>pages.
           io_ret (root_default\<lparr>rt_start_offset := start_offset, rt_next_offset := next_offset,
             rt_tree := (if pages = [] then None else Some (last pages)),
             rt_tail := drop sealed segments\<rparr>)))))"

section \<open>Traversals\<close>

record live_graph =
  lg_segments :: "segment list"
  lg_objects :: "string set"

definition graph_insert :: "string \<Rightarrow> nat \<Rightarrow> live_graph \<Rightarrow> log_error + live_graph" where
  "graph_insert object maximum graph =
     (if card (lg_objects graph) \<ge> maximum then Inl (MaintenanceBudget maximum)
      else if object \<in> lg_objects graph then Inl (invalid ''duplicate object in live graph'')
      else Inr (graph\<lparr>lg_objects := insert object (lg_objects graph)\<rparr>))"

text \<open>
  The top of the stack is the head of the list. A page's weight exceeds that of all its
  children together, so the total weight of the stack decreases.
\<close>

definition stack_weight :: "nat list \<Rightarrow> nat" where
  "stack_weight levels = (\<Sum>l\<leftarrow>levels. (PAGE_ENTRIES + 1) ^ l)"

lemma stack_weight_simps [simp]:
  "stack_weight [] = 0" "stack_weight (l # ls) = (PAGE_ENTRIES + 1) ^ l + stack_weight ls"
  "stack_weight (ls @ ls') = stack_weight ls + stack_weight ls'"
  by (simp_all add: stack_weight_def)

lemma stack_weight_children:
  assumes "length cs \<le> PAGE_ENTRIES" "\<forall>c \<in> set cs. Suc (f c) = l"
  shows "stack_weight (map f cs) < (PAGE_ENTRIES + 1) ^ l"
proof (cases l)
  case (Suc k)
  have "stack_weight (map f cs) = length cs * (PAGE_ENTRIES + 1) ^ k"
    using assms(2) Suc by (induction cs) auto
  also have "\<dots> \<le> PAGE_ENTRIES * (PAGE_ENTRIES + 1) ^ k" using assms(1) by simp
  also have "\<dots> < (PAGE_ENTRIES + 1) ^ l" by (simp add: Suc)
  finally show ?thesis .
qed (use assms in \<open>cases cs; auto\<close>)

lemma stack_weight_filter: "stack_weight (map f (filter P cs)) \<le> stack_weight (map f cs)"
  by (induction cs) auto

lemma read_page_weight:
  "read_page E L topic part r s = (Inr (Branch cs), t) \<Longrightarrow>
   stack_weight (map pr_level cs) < Suc PAGE_ENTRIES ^ pr_level r"
  using stack_weight_children [OF read_page_Branch(2,3)] by simp

function trace_pages ::
  "('s, 'm) log_env_scheme \<Rightarrow> engine \<Rightarrow> string \<Rightarrow> int \<Rightarrow> nat \<Rightarrow> page_ref list \<Rightarrow> live_graph \<Rightarrow> 's
   \<Rightarrow> (log_error + live_graph) \<times> 's" where
  "trace_pages E L topic part maximum [] graph s = (Inr graph, s)"
| "trace_pages E L topic part maximum (reference # stack) graph s =
     (case graph_insert (pr_object reference) maximum graph of
        Inl e \<Rightarrow> (Inl e, s)
      | Inr graph \<Rightarrow>
          (case read_page E L topic part reference s of
             (Inl e, t) \<Rightarrow> (Inl e, t)
           | (Inr (Leaf segments), t) \<Rightarrow>
               if length (lg_segments graph) + length segments > maximum
               then (Inl (MaintenanceBudget maximum), t)
               else trace_pages E L topic part maximum stack
                      (graph\<lparr>lg_segments := lg_segments graph @ segments\<rparr>) t
           | (Inr (Branch children), t) \<Rightarrow>
               trace_pages E L topic part maximum (children @ stack) graph t))"
  by pat_completeness auto
termination
  by (relation "measure (\<lambda>(E, L, topic, part, maximum, stack, graph, s). stack_weight (map pr_level stack))")
    (auto dest!: sym [of "(Inr _, _)"] dest: read_page_weight)

definition trace_index ::
  "('s, 'm) log_env_scheme \<Rightarrow> engine \<Rightarrow> string \<Rightarrow> int \<Rightarrow> root \<Rightarrow> live_graph \<Rightarrow> nat \<Rightarrow> ('s, log_error, live_graph) io" where
  "trace_index E L topic part root graph maximum =
     io_bind (trace_pages E L topic part maximum (case rt_tree root of None \<Rightarrow> [] | Some r \<Rightarrow> [r]) graph) (\<lambda>graph.
       if length (lg_segments graph) + length (rt_tail root) > maximum
       then io_err (MaintenanceBudget maximum)
       else io_ret (graph\<lparr>lg_segments := lg_segments graph @ rt_tail root\<rparr>))"

text \<open>\<open>True\<close> in the result: the caller goes on with the tail.\<close>

function select_pages ::
  "('s, 'm) log_env_scheme \<Rightarrow> engine \<Rightarrow> string \<Rightarrow> int \<Rightarrow> page_ref list \<Rightarrow> selection \<Rightarrow> 's
   \<Rightarrow> (log_error + bool \<times> selection) \<times> 's" where
  "select_pages E L topic part [] selection s = (Inr (True, selection), s)"
| "select_pages E L topic part (reference # stack) selection s =
     (if pr_next_offset reference \<le> sl_offset selection
      then select_pages E L topic part stack selection s
      else
        (case read_page E L topic part reference s of
           (Inl e, t) \<Rightarrow> (Inl e, t)
         | (Inr (Leaf segments), t) \<Rightarrow>
             (case push_all segments selection of
                (Inl e, _) \<Rightarrow> (Inl e, t)
              | (Inr False, selection) \<Rightarrow> (Inr (False, selection), t)
              | (Inr True, selection) \<Rightarrow> select_pages E L topic part stack selection t)
         | (Inr (Branch children), t) \<Rightarrow>
             select_pages E L topic part
               (filter (\<lambda>r. pr_next_offset r > sl_offset selection) children @ stack) selection t))"
  by pat_completeness auto
termination
  by (relation "measure (\<lambda>(E, L, topic, part, stack, selection, s). stack_weight (map pr_level stack))")
    (auto dest!: sym [of "(Inr _, _)"] dest!: read_page_weight intro: le_less_trans [OF stack_weight_filter])

definition indexed_segments ::
  "('s, 'm) log_env_scheme \<Rightarrow> engine \<Rightarrow> string \<Rightarrow> int \<Rightarrow> root \<Rightarrow> selection \<Rightarrow> ('s, log_error, selection) io" where
  "indexed_segments E L topic part root selection =
     io_bind (select_pages E L topic part (case rt_tree root of None \<Rightarrow> [] | Some r \<Rightarrow> [r]) selection)
       (\<lambda>(continue, selection).
          if continue
          then io_lift (case push_all (rt_tail root) selection of
                          (Inl e, _) \<Rightarrow> Inl e | (Inr _, selection) \<Rightarrow> Inr selection)
          else io_ret selection)"

end
