(* ===== verification/Producer_Directory.thy ===== *)
theory Producer_Directory
  imports Log_Index
begin

text \<open>
  The effectful part of \<open>src/log/producer.rs\<close>: the allocator of producer IDs, and the
  immutable directory of producer states below a partition root, with its lookup, its
  copy-on-write update and the trace of maintenance.
\<close>

section \<open>Allocating producer IDs\<close>

text \<open>A bounded body with the error for an oversized one.\<close>

definition io_body :: "get_result \<Rightarrow> nat \<Rightarrow> log_error \<Rightarrow> ('s, log_error, bytes) io" where
  "io_body result maximum too_large =
     io_lift (map_err (\<lambda>e. case e of ReadStore e' \<Rightarrow> ObjectStore e' | TooLarge \<Rightarrow> too_large)
       (collect_bounded (gr_chunks result) maximum []))"

definition allocator_path :: "('s, 'm) world_scheme \<Rightarrow> engine \<Rightarrow> string" where
  "allocator_path W L = w_path_from W (en_prefix L @ ''/producer-ids.json'')"

text \<open>The ID to give out and the condition on the object, from the result of the GET.\<close>

definition allocator_load ::
  "('s, 'm) log_env_scheme \<Rightarrow> store_error + get_result \<Rightarrow> ('s, log_error, int \<times> put_mode) io" where
  "allocator_load E got =
     (case got of
        Inr result \<Rightarrow>
          io_bind (io_body result MAX_TOPIC_METADATA_BYTES (invalid ''producer allocator exceeds byte limit'')) (\<lambda>bytes.
          io_bind (io_lift (map_err invalid (le_allocator_from_slice E bytes))) (\<lambda>state.
            if al_schema state \<noteq> 1 \<or> al_next_id state < 0 then io_err (invalid ''invalid producer allocator'')
            else io_ret (al_next_id state, Update (gr_version result))))
      | Inl NotFound \<Rightarrow> io_ret (0, Create)
      | Inl e \<Rightarrow> io_err (ObjectStore e))"

text \<open>The conditional PUT of the advanced counter; \<open>None\<close> is the loop's \<open>continue\<close>.\<close>

definition allocator_publish ::
  "('s, 'm) log_env_scheme \<Rightarrow> engine \<Rightarrow> int \<Rightarrow> put_mode \<Rightarrow> ('s, log_error, int option) io" where
  "allocator_publish E L pid mode =
     io_bind (io_lift (ok_or (checked_add_i64 pid 1) OffsetOverflow)) (\<lambda>next_id.
     io_bind (io_json (le_allocator_to_vec E \<lparr>al_schema = 1, al_next_id = next_id\<rparr>)) (\<lambda>bytes.
     io_bind (io_try (w_put E (allocator_path E L) bytes mode)) (\<lambda>put.
       case put of
         Inr _ \<Rightarrow> io_ret (Some pid)
       | Inl Precondition \<Rightarrow> io_ret None
       | Inl AlreadyExists \<Rightarrow> io_ret None
       | Inl e \<Rightarrow> io_err (ObjectStore e))))"

definition allocate_attempt ::
  "('s, 'm) log_env_scheme \<Rightarrow> engine \<Rightarrow> ('s, log_error, int option) io" where
  "allocate_attempt E L =
     io_bind (io_try (w_get E (allocator_path E L))) (\<lambda>got.
     io_bind (allocator_load E got) (\<lambda>(pid, mode). allocator_publish E L pid mode))"

definition allocate_producer_id ::
  "('s, 'm) log_env_scheme \<Rightarrow> engine \<Rightarrow> ('s, log_error, int) io" where
  "allocate_producer_id E L =
     retry MAX_CAS_ATTEMPTS (ContentionExhausted MAX_CAS_ATTEMPTS) (allocate_attempt E L)"

section \<open>Pages of the directory\<close>

definition producer_history :: "batch_identity json_seq \<Rightarrow> string + batch_identity list" where
  "producer_history = deserialize_bounded RETRY_BATCHES"

definition decode_producer_page ::
  "('s, 'm) log_env_scheme \<Rightarrow> engine \<Rightarrow> string \<Rightarrow> int \<Rightarrow> int \<Rightarrow> producer_ref \<Rightarrow> bytes \<Rightarrow> log_error + producer_page" where
  "decode_producer_page E L topic part next_offset reference bytes =
     attempt (map_err invalid (le_producer_page_from_slice E producer_history entries entries bytes)) (\<lambda>page.
     attempt (producer_page_bounds (w_uuid_ok E) page (en_prefix L) topic part next_offset) (\<lambda>bounds.
       if bounds \<noteq> (pf_first_id reference, pf_last_id reference, pf_count reference, pf_level reference)
       then Inl (invalid ''producer page reference mismatch'')
       else Inr page))"

definition read_producer_page ::
  "('s, 'm) log_env_scheme \<Rightarrow> engine \<Rightarrow> string \<Rightarrow> int \<Rightarrow> int \<Rightarrow> producer_ref \<Rightarrow> ('s, log_error, producer_page) io" where
  "read_producer_page E L topic part next_offset reference =
     io_bind (io_lift (validate_producer_ref (w_uuid_ok E) reference (en_prefix L) topic part)) (\<lambda>_.
     io_bind (read_exact E (w_path_from E (pf_object reference)) (pf_byte_length reference)
               (pf_sha256 reference) (invalid ''producer page length mismatch'')
               (invalid ''producer page exceeds reference length'')
               (invalid ''producer page length or checksum mismatch'')) (\<lambda>bytes.
       io_lift (decode_producer_page E L topic part next_offset reference bytes)))"

definition write_producer_page ::
  "('s, 'm) log_env_scheme \<Rightarrow> engine \<Rightarrow> string \<Rightarrow> int \<Rightarrow> int \<Rightarrow> producer_page \<Rightarrow> ('s, log_error, producer_ref) io" where
  "write_producer_page E L topic part next_offset page =
     io_bind (io_lift (producer_page_bounds (w_uuid_ok E) page (en_prefix L) topic part next_offset)) (\<lambda>(first_id, last_id, count, level).
     io_bind (io_json (le_producer_page_to_vec E page)) (\<lambda>bytes.
     io_bind (io_call (w_new_uuid E)) (\<lambda>uuid.
       let reference = \<lparr>pf_object = engine_dir L topic part @ ''producer-state/'' @ uuid @ ''.json'',
             pf_first_id = first_id, pf_last_id = last_id, pf_count = count, pf_level = level,
             pf_byte_length = length bytes, pf_sha256 = w_sha256_hex E bytes\<rparr>
       in io_bind (io_lift (validate_producer_ref (w_uuid_ok E) reference (en_prefix L) topic part)) (\<lambda>_.
          io_bind (io_store (w_put E (w_path_from E (pf_object reference)) bytes Create)) (\<lambda>_.
            io_ret reference)))))"

lemma producer_children_count_Inr:
  "producer_children_count ok prefix topic part level cs n = Inr m \<Longrightarrow>
   (\<forall>c \<in> set cs. pf_level c = level \<and> validate_producer_ref ok c prefix topic part = Inr ())
   \<and> m = n + (\<Sum>c\<leftarrow>cs. pf_count c)"
  by (induction ok prefix topic part level cs n rule: producer_children_count.induct)
    (auto simp: result_simps split: if_splits)

lemma producer_bounds_Branch:
  assumes "producer_page_bounds ok (PBranch cs) prefix topic part n = Inr (f, l, c, level)"
  shows "2 \<le> length cs" "length cs \<le> PAGE_ENTRIES" "\<forall>c \<in> set cs. Suc (pf_level c) = level"
  using assms by (auto simp: result_simps split: if_splits dest!: producer_children_count_Inr)

lemma read_producer_Branch:
  assumes "read_producer_page E L topic part n r s = (Inr (PBranch cs), t)"
  shows "2 \<le> length cs" "length cs \<le> PAGE_ENTRIES" "\<forall>c \<in> set cs. Suc (pf_level c) = pf_level r"
proof -
  from assms obtain f l c where
    "producer_page_bounds (w_uuid_ok E) (PBranch cs) (en_prefix L) topic part n = Inr (f, l, c, pf_level r)"
    by (auto simp: read_producer_page_def decode_producer_page_def result_simps
        simp del: producer_page_bounds.simps split: if_splits)
  from producer_bounds_Branch [OF this]
  show "2 \<le> length cs" "length cs \<le> PAGE_ENTRIES" "\<forall>c \<in> set cs. Suc (pf_level c) = pf_level r" .
qed

lemma read_producer_Branch_weight:
  "read_producer_page E L topic part n r s = (Inr (PBranch cs), t) \<Longrightarrow>
   stack_weight (map pf_level cs) < Suc PAGE_ENTRIES ^ pf_level r"
  using stack_weight_children [OF read_producer_Branch(2,3)] by simp

section \<open>Lookup\<close>

function producer_lookup ::
  "('s, 'm) log_env_scheme \<Rightarrow> engine \<Rightarrow> string \<Rightarrow> int \<Rightarrow> producer_ref option \<Rightarrow> int \<Rightarrow> int \<Rightarrow> 's
   \<Rightarrow> (log_error + producer_state option) \<times> 's" where
  "producer_lookup E L topic part None pid next_offset s = (Inr None, s)"
| "producer_lookup E L topic part (Some reference) pid next_offset s =
     (if pid < pf_first_id reference \<or> pid > pf_last_id reference then (Inr None, s)
      else
        (case read_producer_page E L topic part next_offset reference s of
           (Inl e, t) \<Rightarrow> (Inl e, t)
         | (Inr (PLeaf producers), t) \<Rightarrow> (Inr (find (\<lambda>p. ps_id p = pid) producers), t)
         | (Inr (PBranch children), t) \<Rightarrow>
             producer_lookup E L topic part
               (find (\<lambda>c. pf_first_id c \<le> pid \<and> pid \<le> pf_last_id c) children) pid next_offset t))"
  by pat_completeness auto

lemma find_lower_level:
  "read_producer_page E L topic part n r s = (Inr (PBranch cs), t) \<Longrightarrow> find P cs = Some c \<Longrightarrow>
   pf_level c < pf_level r"
  using read_producer_Branch(3) [of E L topic part n r s cs t]
  by (metis find_Some_iff lessI nth_mem)

termination producer_lookup
  by (relation "measure (\<lambda>(E, L, topic, part, cursor, pid, n, s).
      case cursor of None \<Rightarrow> 0 | Some r \<Rightarrow> Suc (pf_level r))")
    (auto dest!: sym [of "(Inr _, _)"] split: option.splits dest: find_lower_level)

section \<open>Update\<close>

text \<open>The index of the first element that satisfies a test.\<close>

fun position :: "('a \<Rightarrow> bool) \<Rightarrow> 'a list \<Rightarrow> nat option" where
  "position P [] = None"
| "position P (x # xs) = (if P x then Some 0 else map_option Suc (position P xs))"

lemma position_Some: "position P xs = Some i \<Longrightarrow> i < length xs \<and> P (xs ! i) \<and> (\<forall>j < i. \<not> P (xs ! j))"
proof (induction xs arbitrary: i)
  case (Cons x xs)
  show ?case
  proof (cases "P x")
    case False
    with Cons.prems obtain k where k: "position P xs = Some k" "i = Suc k" by auto
    have "\<not> P ((x # xs) ! j)" if "j < i" for j
      using Cons.IH [OF k(1)] False k(2) that by (cases j) auto
    with Cons.IH [OF k(1)] k(2) show ?thesis by auto
  qed (use Cons.prems in auto)
qed simp

lemma position_None: "position P xs = None \<Longrightarrow> \<forall>x \<in> set xs. \<not> P x"
  by (induction xs) (auto split: if_splits)

text \<open>The way down: the leaf's producers, and the branches passed with the child taken, innermost first.\<close>

definition child_position :: "int \<Rightarrow> producer_ref list \<Rightarrow> nat" where
  "child_position pid children =
     (case position (\<lambda>c. pid \<le> pf_last_id c) children of None \<Rightarrow> length children - 1 | Some i \<Rightarrow> i)"

lemma child_position_less: "cs \<noteq> [] \<Longrightarrow> child_position pid cs < length cs"
  by (auto simp: child_position_def split: option.splits dest: position_Some)

function producer_descend ::
  "('s, 'm) log_env_scheme \<Rightarrow> engine \<Rightarrow> string \<Rightarrow> int \<Rightarrow> int \<Rightarrow> int \<Rightarrow> producer_ref
   \<Rightarrow> (producer_ref list \<times> nat) list \<Rightarrow> 's
   \<Rightarrow> (log_error + producer_state list \<times> (producer_ref list \<times> nat) list) \<times> 's" where
  "producer_descend E L topic part pid next_offset reference path s =
     (case read_producer_page E L topic part next_offset reference s of
        (Inl e, t) \<Rightarrow> (Inl e, t)
      | (Inr (PLeaf leaf), t) \<Rightarrow> (Inr (leaf, path), t)
      | (Inr (PBranch children), t) \<Rightarrow>
          producer_descend E L topic part pid next_offset (children ! child_position pid children)
            ((children, child_position pid children) # path) t)"
  by pat_completeness auto

lemma child_lower_level:
  assumes "read_producer_page E L topic part n r s = (Inr (PBranch cs), t)"
  shows "pf_level (cs ! child_position pid cs) < pf_level r"
proof -
  have "cs \<noteq> []" using read_producer_Branch(1) [OF assms] by auto
  then have "cs ! child_position pid cs \<in> set cs" by (simp add: child_position_less)
  with read_producer_Branch(3) [OF assms] show ?thesis by auto
qed

termination producer_descend
  by (relation "measure (\<lambda>(E, L, topic, part, pid, n, r, path, s). pf_level r)")
    (auto dest!: sym [of "(Inr _, _)"] intro: child_lower_level)

declare producer_descend.simps [simp del]

text \<open>\<open>binary_search_by_key\<close> on the sorted leaf, then replacement or insertion.\<close>

definition put_producer :: "producer_state \<Rightarrow> producer_state list \<Rightarrow> producer_state list" where
  "put_producer p producers = bt_values (bt_insert (ps_id p) p (map (\<lambda>q. (ps_id q, q)) producers))"

definition split_page :: "('a list \<Rightarrow> 'p) \<Rightarrow> 'a list \<Rightarrow> 'p list" where
  "split_page mk xs =
     (if length xs > PAGE_ENTRIES
      then [mk (take (length xs div 2) xs), mk (drop (length xs div 2) xs)]
      else [mk xs])"

text \<open>The way up: \<open>path.pop()\<close> takes the innermost branch.\<close>

fun write_upwards ::
  "('s, 'm) log_env_scheme \<Rightarrow> engine \<Rightarrow> string \<Rightarrow> int \<Rightarrow> int \<Rightarrow> producer_page list
   \<Rightarrow> (producer_ref list \<times> nat) list \<Rightarrow> ('s, log_error, producer_ref) io" where
  "write_upwards E L topic part next_offset pages [] =
     io_bind (io_map (write_producer_page E L topic part next_offset) pages) (\<lambda>refs.
       if length refs = 1 then io_ret (hd refs)
       else write_producer_page E L topic part next_offset (PBranch refs))"
| "write_upwards E L topic part next_offset pages ((children, pos) # path) =
     io_bind (io_map (write_producer_page E L topic part next_offset) pages) (\<lambda>refs.
       write_upwards E L topic part next_offset
         (split_page PBranch (take pos children @ refs @ drop (Suc pos) children)) path)"

definition update_producer ::
  "('s, 'm) log_env_scheme \<Rightarrow> engine \<Rightarrow> string \<Rightarrow> int \<Rightarrow> producer_ref option \<Rightarrow> producer_state \<Rightarrow> int
   \<Rightarrow> ('s, log_error, producer_ref) io" where
  "update_producer E L topic part root state next_offset =
     io_bind (case root of
                None \<Rightarrow> io_ret ([], [])
              | Some r \<Rightarrow> producer_descend E L topic part (ps_id state) next_offset r []) (\<lambda>(producers, path).
       write_upwards E L topic part next_offset (split_page PLeaf (put_producer state producers)) path)"

section \<open>Trace\<close>

text \<open>\<open>pending.pop()\<close> takes the last child first.\<close>

function trace_producer_pages ::
  "('s, 'm) log_env_scheme \<Rightarrow> engine \<Rightarrow> string \<Rightarrow> int \<Rightarrow> int \<Rightarrow> nat \<Rightarrow> producer_ref list \<Rightarrow> live_graph \<Rightarrow> 's
   \<Rightarrow> (log_error + live_graph) \<times> 's" where
  "trace_producer_pages E L topic part next_offset maximum [] graph s = (Inr graph, s)"
| "trace_producer_pages E L topic part next_offset maximum (reference # pending) graph s =
     (case graph_insert (pf_object reference) maximum graph of
        Inl e \<Rightarrow> (Inl e, s)
      | Inr graph \<Rightarrow>
          (case read_producer_page E L topic part next_offset reference s of
             (Inl e, t) \<Rightarrow> (Inl e, t)
           | (Inr (PLeaf _), t) \<Rightarrow> trace_producer_pages E L topic part next_offset maximum pending graph t
           | (Inr (PBranch children), t) \<Rightarrow>
               trace_producer_pages E L topic part next_offset maximum (rev children @ pending) graph t))"
  by pat_completeness auto

lemma stack_weight_rev [simp]: "stack_weight (map f (rev cs)) = stack_weight (map f cs)"
  by (induction cs) auto

termination trace_producer_pages
  by (relation "measure (\<lambda>(E, L, topic, part, n, maximum, stack, graph, s). stack_weight (map pf_level stack))")
    (auto dest!: sym [of "(Inr _, _)"] dest: read_producer_Branch_weight)

definition trace_producers ::
  "('s, 'm) log_env_scheme \<Rightarrow> engine \<Rightarrow> string \<Rightarrow> int \<Rightarrow> root \<Rightarrow> live_graph \<Rightarrow> nat \<Rightarrow> ('s, log_error, live_graph) io" where
  "trace_producers E L topic part root graph maximum =
     trace_producer_pages E L topic part (rt_next_offset root) maximum
       (case rt_producers root of None \<Rightarrow> [] | Some r \<Rightarrow> [r]) graph"

end
