(* ===== verification/Log_Engine.thy ===== *)
theory Log_Engine
  imports Producer_Directory
begin

text \<open>
  The operations of \<open>LogEngine\<close> in \<open>src/log.rs\<close>: topic metadata, loading the versioned root
  of a partition, the append with its compare-and-swap loop, and the bounded fetch with the
  complete check of every segment it returns.
\<close>

section \<open>Manifests as loaded\<close>

datatype log_manifest = Legacy manifest | Indexed root

fun lm_start_offset :: "log_manifest \<Rightarrow> int" where
  "lm_start_offset (Legacy _) = 0"
| "lm_start_offset (Indexed root) = rt_start_offset root"

fun lm_next_offset :: "log_manifest \<Rightarrow> int" where
  "lm_next_offset (Legacy m) = mf_next_offset m"
| "lm_next_offset (Indexed m) = rt_next_offset m"

record loaded_manifest =
  ld_manifest :: log_manifest
  ld_version :: "update_version option"

definition loaded_empty :: loaded_manifest where
  "loaded_empty = \<lparr>ld_manifest = Indexed root_default, ld_version = None\<rparr>"

record bounded_fetch =
  ft_records :: bytes
  ft_high_watermark :: int
  ft_oversized_first_batch :: bool

section \<open>Records\<close>

definition validate_records :: "kafka_record list \<Rightarrow> log_error + unit" where
  "validate_records records =
     (if records = [] then Inl EmptyBatch
      else if list_ex (\<lambda>r. rc_transactional r \<or> rc_control r \<or> rc_delete_horizon r
                \<or> (rc_producer_id r = NO_PRODUCER_ID \<and> rc_producer_epoch r \<noteq> NO_PRODUCER_EPOCH)
                \<or> rc_producer_id r < NO_PRODUCER_ID
                \<or> (rc_producer_id r \<ge> 0 \<and> rc_producer_epoch r < 0)) records
      then Inl UnsupportedRecordSemantics
      else (let first = hd records
            in if rc_producer_id first \<ge> 0
                  \<and> (rc_sequence first < 0
                     \<or> list_ex (\<lambda>(delta, r). rc_producer_id r \<noteq> rc_producer_id first
                         \<or> rc_producer_epoch r \<noteq> rc_producer_epoch first
                         \<or> rc_sequence r \<noteq> wrap_i32 (rc_sequence first + wrap_i32 (int delta)))
                         (enumerate 0 records))
               then Inl UnsupportedRecordSemantics
               else Inr ()))"

fun assigned_records_from :: "int \<Rightarrow> nat \<Rightarrow> kafka_record list \<Rightarrow> log_error + kafka_record list" where
  "assigned_records_from base_offset delta [] = Inr []"
| "assigned_records_from base_offset delta (r # records) =
     attempt (ok_or (checked_add_i64 base_offset (int delta)) OffsetOverflow) (\<lambda>off.
     attempt (assigned_records_from base_offset (Suc delta) records) (\<lambda>rest.
       Inr (r\<lparr>rc_offset := off,
              rc_sequence := (if rc_producer_id r = NO_PRODUCER_ID
                              then wrap_i32 (NO_SEQUENCE + wrap_i32 (int delta)) else rc_sequence r),
              rc_partition_leader_epoch := - 1\<rparr> # rest)))"

definition assigned_records :: "kafka_record list \<Rightarrow> int \<Rightarrow> log_error + kafka_record list" where
  "assigned_records records base_offset = assigned_records_from base_offset 0 records"

definition validate_timestamp_span :: "kafka_record list \<Rightarrow> log_error + unit" where
  "validate_timestamp_span records =
     (if records = [] then Inr ()
      else (case checked_sub_i64 (Max (set (map rc_timestamp records))) (Min (set (map rc_timestamp records))) of
              None \<Rightarrow> Inl InvalidTimestampRange
            | Some _ \<Rightarrow> Inr ()))"

definition encode_records :: "('s, 'm) log_env_scheme \<Rightarrow> kafka_record list \<Rightarrow> log_error + bytes" where
  "encode_records E records = map_err Codec (le_encode_batches E records)"

fun codec_error_message :: "codec_error \<Rightarrow> string" where
  "codec_error_message Malformed = ''malformed Kafka v2 record data''"
| "codec_error_message UnsupportedCompression = ''compressed Kafka record batches are unsupported''"
| "codec_error_message TooManyRecordsDeclared = ''Kafka record count exceeds the broker limit''"
| "codec_error_message TooManyHeaders = ''Kafka header count exceeds the broker limit''"
| "codec_error_message DuplicateHeaders = ''duplicate Kafka record header keys cannot be preserved''"
| "codec_error_message ArithmeticOverflow = ''Kafka record delta arithmetic overflow''"

text \<open>
  The texts of errors, as far as they do not quote a topic's name or an error of the store. Of the
  errors that end up inside another error's detail none does.
\<close>

fun log_error_message :: "log_error \<Rightarrow> string" where
  "log_error_message (InvalidTopicMetadata detail) = ''invalid topic metadata: '' @ detail"
| "log_error_message (UnsupportedPartition part) = ''partition '' @ show_int part @ '' is unsupported for this topic''"
| "log_error_message EmptyBatch = ''append batch must contain at least one record''"
| "log_error_message UnsupportedRecordSemantics =
     ''invalid producer identity or unsupported transactional/control record semantics''"
| "log_error_message OutOfOrderSequence = ''out of order producer sequence''"
| "log_error_message InvalidProducerEpoch = ''invalid producer epoch''"
| "log_error_message ConflictingSequence = ''conflicting producer sequence''"
| "log_error_message (InvalidOffset off) = ''offset '' @ show_int off @ '' must not be negative''"
| "log_error_message (OffsetOutOfRange off latest) =
     ''offset '' @ show_int off @ '' is outside the retained range ending at '' @ show_int latest"
| "log_error_message (BatchTooLarge actual maximum) =
     ''encoded batch is '' @ show_nat actual @ '' bytes; maximum is '' @ show_nat maximum"
| "log_error_message (TooManyRecords actual maximum) =
     ''batch contains '' @ show_nat actual @ '' records; maximum is '' @ show_nat maximum"
| "log_error_message (ManifestTooLarge actual maximum) =
     ''manifest is '' @ show_nat actual @ '' bytes; maximum is '' @ show_nat maximum"
| "log_error_message OffsetOverflow = ''offset arithmetic overflow''"
| "log_error_message InvalidTimestampRange =
     ''record timestamps span a range that Kafka v2 cannot encode''"
| "log_error_message RevisionOverflow = ''manifest revision overflow''"
| "log_error_message (InvalidManifest detail) = ''invalid manifest: '' @ detail"
| "log_error_message (CorruptSegment object detail) = ''corrupt committed segment '' @ object @ '': '' @ detail"
| "log_error_message (Codec detail) = ''record batch codec failed: '' @ detail"
| "log_error_message (Serialization e) = ''manifest serialization failed''"
| "log_error_message (ObjectStore e) = ''object store operation failed''"
| "log_error_message (InvalidMaintenance detail) = ''invalid maintenance options: '' @ detail"
| "log_error_message (MaintenanceBudget maximum) = ''maintenance scan exceeds '' @ show_nat maximum @ '' objects''"
| "log_error_message (MaintenanceIncomplete report e) = ''maintenance incomplete: '' @ log_error_message e"
| "log_error_message (ContentionExhausted attempts) =
     ''manifest contention did not converge after '' @ show_nat attempts @ '' attempts''"
| "log_error_message (InvalidTopic topic) = []"
| "log_error_message (UnknownTopic topic) = []"
| "log_error_message (MissingSegment object e) = []"

lemma embedded_errors:
  "validate_records records = Inl e \<Longrightarrow> e \<in> {EmptyBatch, UnsupportedRecordSemantics}"
  "validate_timestamp_span records = Inl e \<Longrightarrow> e = InvalidTimestampRange"
  "encode_records E records = Inl e \<Longrightarrow> \<exists>detail. e = Codec detail"
  by (auto simp: validate_records_def validate_timestamp_span_def encode_records_def map_err_def Let_def
      split: if_splits option.splits sum.splits)

definition validate_segment_records :: "segment \<Rightarrow> kafka_record list \<Rightarrow> log_error + unit" where
  "validate_segment_records sg records =
     (if length records \<noteq> sg_record_count sg
         \<or> list_ex (\<lambda>(delta, r). rc_offset r \<noteq> wrap_i64 (sg_base_offset sg + int delta)) (enumerate 0 records)
      then Inl (CorruptSegment (sg_object sg) ''decoded record offsets or count do not match manifest'')
      else Inr ())"

definition validate_canonical_segment_records :: "segment \<Rightarrow> kafka_record list \<Rightarrow> log_error + unit" where
  "validate_canonical_segment_records sg records =
     attempt (map_err (\<lambda>e. CorruptSegment (sg_object sg)
                (''committed records use unsupported semantics: '' @ log_error_message e))
              (validate_records records)) (\<lambda>_.
     attempt (map_err (\<lambda>e. CorruptSegment (sg_object sg)
                (''committed timestamps are not canonical: '' @ log_error_message e))
              (validate_timestamp_span records)) (\<lambda>_.
       if list_ex (\<lambda>(delta, r). rc_partition_leader_epoch r \<noteq> - 1
            \<or> \<not> in_i32 (int delta)
            \<or> rc_sequence r \<noteq> wrap_i32 ((if rc_producer_id (hd records) \<ge> 0
                 then rc_sequence (hd records) else NO_SEQUENCE) + int delta)) (enumerate 0 records)
       then Inl (CorruptSegment (sg_object sg) ''record leader epoch or sequence is not canonical'')
       else Inr ()))"

section \<open>Names and the clock\<close>

definition topic_metadata_path :: "('s, 'm) world_scheme \<Rightarrow> engine \<Rightarrow> string \<Rightarrow> string" where
  "topic_metadata_path W L topic = w_path_from W (en_prefix L @ ''/topics/'' @ topic @ ''/metadata.json'')"

definition manifest_path :: "('s, 'm) world_scheme \<Rightarrow> engine \<Rightarrow> string \<Rightarrow> int \<Rightarrow> string" where
  "manifest_path W L topic part = w_path_from W (engine_dir L topic part @ ''manifest.json'')"

definition segment_path :: "('s, 'm) world_scheme \<Rightarrow> engine \<Rightarrow> string \<Rightarrow> int \<Rightarrow> string \<Rightarrow> string" where
  "segment_path W L topic part uuid =
     w_path_from W (engine_dir L topic part @ ''segments/'' @ uuid @ ''.batch'')"

definition unix_millis :: "('s, 'm) world_scheme \<Rightarrow> ('s, log_error, nat) io" where
  "unix_millis W =
     io_bind (io_call (w_unix_millis W)) (\<lambda>now.
       io_lift (ok_or now (invalid ''broker clock is outside the supported Unix millisecond range'')))"

definition with_default_topic_partitions :: "string \<Rightarrow> int \<Rightarrow> log_error + engine" where
  "with_default_topic_partitions prefix default_topic_partitions =
     attempt (validate_prefix prefix) (\<lambda>_.
     attempt (validate_partition_count default_topic_partitions) (\<lambda>_.
       Inr \<lparr>en_prefix = prefix, en_default_topic_partitions = default_topic_partitions\<rparr>))"

definition engine_new :: "string \<Rightarrow> log_error + engine" where
  "engine_new prefix = with_default_topic_partitions prefix DEFAULT_TOPIC_PARTITIONS"

section \<open>Loading\<close>

definition load_topic_metadata ::
  "('s, 'm) log_env_scheme \<Rightarrow> engine \<Rightarrow> string \<Rightarrow> ('s, log_error, topic_metadata option) io" where
  "load_topic_metadata E L topic =
     io_bind (io_try (w_get E (topic_metadata_path E L topic))) (\<lambda>got.
       case got of
         Inr result \<Rightarrow>
           if gr_size result > MAX_TOPIC_METADATA_BYTES
           then io_err (InvalidTopicMetadata (''topic metadata is '' @ show_nat (gr_size result)
                  @ '' bytes; maximum is '' @ show_nat MAX_TOPIC_METADATA_BYTES))
           else io_bind (io_body result MAX_TOPIC_METADATA_BYTES
                  (InvalidTopicMetadata (''topic metadata body exceeds '' @ show_nat MAX_TOPIC_METADATA_BYTES @ '' bytes''))) (\<lambda>bytes.
                io_bind (io_lift (map_err InvalidTopicMetadata (le_metadata_from_slice E bytes))) (\<lambda>metadata.
                io_bind (io_lift (validate_topic_metadata metadata)) (\<lambda>_.
                  io_ret (Some metadata))))
       | Inl NotFound \<Rightarrow> io_ret None
       | Inl e \<Rightarrow> io_err (ObjectStore e))"

definition decode_manifest ::
  "('s, 'm) log_env_scheme \<Rightarrow> engine \<Rightarrow> string \<Rightarrow> int \<Rightarrow> bytes \<Rightarrow> log_error + log_manifest" where
  "decode_manifest E L topic part bytes =
     attempt (map_err InvalidManifest (le_schema_from_slice E bytes)) (\<lambda>schema.
       if schema = MANIFEST_SCHEMA then
         attempt (map_err InvalidManifest (le_manifest_from_slice E deserialize_segments bytes)) (\<lambda>legacy.
         attempt (validate_manifest legacy (en_prefix L) topic part) (\<lambda>_.
           Inr (Legacy legacy)))
       else if schema \<in> {2, 3, INDEX_SCHEMA} then
         attempt (map_err InvalidManifest (le_root_from_slice E entries bytes)) (\<lambda>root.
         attempt (validate_root (w_uuid_ok E) root (en_prefix L) topic part) (\<lambda>_.
           Inr (Indexed root)))
       else Inl (InvalidManifest (''unsupported manifest schema '' @ show_nat schema)))"

definition load_manifest ::
  "('s, 'm) log_env_scheme \<Rightarrow> engine \<Rightarrow> string \<Rightarrow> int \<Rightarrow> ('s, log_error, loaded_manifest option) io" where
  "load_manifest E L topic part =
     io_bind (io_try (w_get E (manifest_path E L topic part))) (\<lambda>got.
       case got of
         Inr result \<Rightarrow>
           if gr_size result > MAX_MANIFEST_BYTES
           then io_err (InvalidManifest (''manifest is '' @ show_nat (gr_size result)
                  @ '' bytes; maximum is '' @ show_nat MAX_MANIFEST_BYTES))
           else io_bind (io_body result MAX_MANIFEST_BYTES
                  (InvalidManifest (''manifest body exceeds '' @ show_nat MAX_MANIFEST_BYTES @ '' bytes''))) (\<lambda>bytes.
                io_bind (io_lift (decode_manifest E L topic part bytes)) (\<lambda>manifest.
                  io_ret (Some \<lparr>ld_manifest = manifest, ld_version = Some (gr_version result)\<rparr>)))
       | Inl NotFound \<Rightarrow> io_ret None
       | Inl e \<Rightarrow> io_err (ObjectStore e))"

text \<open>\<open>load_manifest(..)?.unwrap_or_else(LoadedManifest::empty)\<close>.\<close>

definition load_or_empty ::
  "('s, 'm) log_env_scheme \<Rightarrow> engine \<Rightarrow> string \<Rightarrow> int \<Rightarrow> ('s, log_error, loaded_manifest) io" where
  "load_or_empty E L topic part =
     io_bind (load_manifest E L topic part) (\<lambda>loaded.
       io_ret (case loaded of None \<Rightarrow> loaded_empty | Some l \<Rightarrow> l))"

section \<open>Topics\<close>

definition create_topic_metadata ::
  "('s, 'm) log_env_scheme \<Rightarrow> engine \<Rightarrow> string \<Rightarrow> int \<Rightarrow> ('s, log_error, int) io" where
  "create_topic_metadata E L topic partition_count =
     io_bind (io_json (le_metadata_to_vec E \<lparr>tm_schema = TOPIC_METADATA_SCHEMA, tm_partition_count = partition_count\<rparr>)) (\<lambda>bytes.
     io_bind (io_try (w_put E (topic_metadata_path E L topic) bytes Create)) (\<lambda>put.
       case put of
         Inr _ \<Rightarrow> io_ret partition_count
       | Inl (OtherError e) \<Rightarrow> io_err (ObjectStore (OtherError e))
       | Inl NotFound \<Rightarrow> io_err (ObjectStore NotFound)
       | Inl _ \<Rightarrow>
           io_bind (load_topic_metadata E L topic) (\<lambda>loaded.
           io_bind (io_lift (ok_or loaded (UnknownTopic topic))) (\<lambda>metadata.
             io_ret (tm_partition_count metadata)))))"

definition ensure_topic ::
  "('s, 'm) log_env_scheme \<Rightarrow> engine \<Rightarrow> string \<Rightarrow> int \<Rightarrow> ('s, log_error, int) io" where
  "ensure_topic E L topic part =
     io_bind (io_lift (validate_topic topic)) (\<lambda>_.
     io_bind (load_topic_metadata E L topic) (\<lambda>loaded.
     io_bind (case loaded of
                Some metadata \<Rightarrow> io_ret (tm_partition_count metadata)
              | None \<Rightarrow>
                  io_bind (load_manifest E L topic 0) (\<lambda>manifest.
                    let partition_count = (if manifest \<noteq> None then DEFAULT_TOPIC_PARTITIONS
                                           else en_default_topic_partitions L)
                    in io_bind (io_lift (validate_partition part partition_count)) (\<lambda>_.
                       create_topic_metadata E L topic partition_count))) (\<lambda>partition_count.
     io_bind (io_lift (validate_partition part partition_count)) (\<lambda>_.
       io_ret partition_count))))"

definition topic_partition_count ::
  "('s, 'm) log_env_scheme \<Rightarrow> engine \<Rightarrow> string \<Rightarrow> ('s, log_error, int option) io" where
  "topic_partition_count E L topic =
     io_bind (io_lift (validate_topic topic)) (\<lambda>_.
     io_bind (load_topic_metadata E L topic) (\<lambda>loaded.
       case loaded of
         Some metadata \<Rightarrow> io_ret (Some (tm_partition_count metadata))
       | None \<Rightarrow>
           io_bind (load_manifest E L topic 0) (\<lambda>manifest.
             io_ret (map_option (\<lambda>_. DEFAULT_TOPIC_PARTITIONS) manifest))))"

text \<open>The loop over the listed prefixes, with the ordered set of topics found so far.\<close>

fun collect_topics ::
  "('s, 'm) log_env_scheme \<Rightarrow> engine \<Rightarrow> string \<Rightarrow> string list \<Rightarrow> (string, unit) btree_map
   \<Rightarrow> ('s, log_error, (string, unit) btree_map) io" where
  "collect_topics E L expected [] topics = io_ret topics"
| "collect_topics E L expected (object # objects) topics =
     (case strip_prefix expected object of
        None \<Rightarrow> collect_topics E L expected objects topics
      | Some topic \<Rightarrow>
          if CHR ''/'' \<in> set topic then collect_topics E L expected objects topics
          else io_bind (io_lift (validate_topic topic)) (\<lambda>_.
               io_bind (topic_partition_count E L topic) (\<lambda>count.
                 collect_topics E L expected objects
                   (if count \<noteq> None then bt_insert topic () topics else topics))))"

definition topics :: "('s, 'm) log_env_scheme \<Rightarrow> engine \<Rightarrow> ('s, log_error, string list) io" where
  "topics E L =
     io_bind (io_store (w_list_prefixes E (w_path_from E (en_prefix L @ ''/topics'')))) (\<lambda>listed.
     io_bind (collect_topics E L (en_prefix L @ ''/topics/'') listed []) (\<lambda>found.
       io_ret (bt_keys found)))"

definition topic_exists ::
  "('s, 'm) log_env_scheme \<Rightarrow> engine \<Rightarrow> string \<Rightarrow> int \<Rightarrow> ('s, log_error, bool) io" where
  "topic_exists E L topic part =
     io_bind (io_lift (validate_topic topic)) (\<lambda>_.
     io_bind (topic_partition_count E L topic) (\<lambda>count.
       case count of
         None \<Rightarrow> io_ret False
       | Some partition_count \<Rightarrow>
           io_bind (io_lift (validate_partition part partition_count)) (\<lambda>_. io_ret True)))"

end
