(* ===== verification/Log_Append.thy ===== *)
theory Log_Append
  imports Log_Engine
begin

text \<open>
  The append path of \<open>src/log.rs\<close>: the checks of a request, the decision on all its batches
  before anything is published, the immutable objects of the new batches, and the
  conditional update of the partition root, retried on contention. Reading back follows in
  the same file: the fetch with its checks of every segment.
\<close>

section \<open>A stale root\<close>

text \<open>A missing object is retried only if the root has moved on since it was loaded.\<close>

definition stale_missing ::
  "('s, 'm) log_env_scheme \<Rightarrow> engine \<Rightarrow> string \<Rightarrow> int \<Rightarrow> update_version option \<Rightarrow> log_error
   \<Rightarrow> ('s, log_error, bool) io" where
  "stale_missing E L topic part ver error =
     (if (case error of
            ObjectStore NotFound \<Rightarrow> True
          | MissingSegment _ NotFound \<Rightarrow> True
          | _ \<Rightarrow> False)
      then io_bind (load_manifest E L topic part) (\<lambda>loaded.
             let current = (case loaded of None \<Rightarrow> None | Some l \<Rightarrow> ld_version l)
             in io_ret (current \<noteq> ver))
      else io_ret False)"

section \<open>Checking the request\<close>

text \<open>One batch: its checks, and the fingerprint and size of its canonical encoding.\<close>

definition check_batch ::
  "('s, 'm) log_env_scheme \<Rightarrow> kafka_record list \<Rightarrow> log_error + string \<times> nat" where
  "check_batch E records =
     attempt (validate_records records) (\<lambda>_.
     attempt (validate_timestamp_span records) (\<lambda>_.
     attempt (assigned_records records 0) (\<lambda>canonical.
     attempt (encode_records E canonical) (\<lambda>encoded.
     attempt (map_err (\<lambda>e. Codec (codec_error_message e))
                (inspect_record_batches (le_decode_batch_info E) encoded)) (\<lambda>inspection.
       if in_batch_count inspection \<noteq> 1 \<or> in_record_count inspection \<noteq> length records
       then Inl UnsupportedRecordSemantics
       else Inr (w_sha256_hex E encoded, length encoded))))))"

fun check_batches ::
  "('s, 'm) log_env_scheme \<Rightarrow> kafka_record list list \<Rightarrow> string list \<Rightarrow> nat \<Rightarrow> log_error + string list \<times> nat" where
  "check_batches E [] fingerprints total_bytes = Inr (fingerprints, total_bytes)"
| "check_batches E (records # batches) fingerprints total_bytes =
     attempt (check_batch E records) (\<lambda>(fingerprint, size).
       check_batches E batches (fingerprints @ [fingerprint]) (total_bytes + size))"

section \<open>Planning\<close>

record append_plan =
  ap_states :: "(int, producer_state) btree_map"
  ap_additions :: "(kafka_record list \<times> int) list"
  ap_results :: "append_result list"
  ap_next_offset :: int

text \<open>The producer's state: from the map of this request, else from the directory, else new.\<close>

definition plan_state ::
  "('s, 'm) log_env_scheme \<Rightarrow> engine \<Rightarrow> string \<Rightarrow> int \<Rightarrow> producer_ref option \<Rightarrow> int
   \<Rightarrow> kafka_record \<Rightarrow> (int, producer_state) btree_map \<Rightarrow> ('s, log_error, producer_state) io" where
  "plan_state E L topic part directory initial_offset first states =
     (case bt_get states (rc_producer_id first) of
        Some state \<Rightarrow> io_ret state
      | None \<Rightarrow>
          io_bind (producer_lookup E L topic part directory (rc_producer_id first) initial_offset) (\<lambda>found.
            io_ret (case found of
              Some state \<Rightarrow> state
            | None \<Rightarrow> producer_new (rc_producer_id first) (rc_producer_epoch first))))"

definition plan_batch ::
  "('s, 'm) log_env_scheme \<Rightarrow> engine \<Rightarrow> string \<Rightarrow> int \<Rightarrow> producer_ref option \<Rightarrow> int
   \<Rightarrow> kafka_record list \<Rightarrow> string \<Rightarrow> append_plan \<Rightarrow> ('s, log_error, append_plan) io" where
  "plan_batch E L topic part directory initial_offset records fingerprint plan =
     (let first = hd records;
          count = length records;
          next_offset = ap_next_offset plan
      in io_bind
           (if rc_producer_id first \<ge> 0 then
              io_bind (plan_state E L topic part directory initial_offset first (ap_states plan)) (\<lambda>state.
                case accept state (rc_producer_epoch first) (rc_sequence first) count fingerprint next_offset of
                  (Inl e, _) \<Rightarrow> io_err e
                | (Inr result, state') \<Rightarrow>
                    io_ret (result, bt_insert (rc_producer_id first) state' (ap_states plan)))
            else
              io_bind (io_lift (ok_or (checked_add_i64 next_offset (int count)) OffsetOverflow)) (\<lambda>end_offset.
                io_ret (\<lparr>ar_base_offset = next_offset, ar_last_offset = wrap_i64 (end_offset - 1)\<rparr>, ap_states plan)))
           (\<lambda>(result, states).
              io_ret
                (if ar_base_offset result = next_offset
                 then plan\<lparr>ap_states := states,
                        ap_additions := ap_additions plan @ [(records, ar_base_offset result)],
                        ap_results := ap_results plan @ [result],
                        ap_next_offset := wrap_i64 (ar_last_offset result + 1)\<rparr>
                 else plan\<lparr>ap_states := states, ap_results := ap_results plan @ [result]\<rparr>)))"

fun plan_batches ::
  "('s, 'm) log_env_scheme \<Rightarrow> engine \<Rightarrow> string \<Rightarrow> int \<Rightarrow> producer_ref option \<Rightarrow> int
   \<Rightarrow> (kafka_record list \<times> string) list \<Rightarrow> append_plan \<Rightarrow> ('s, log_error, append_plan) io" where
  "plan_batches E L topic part directory initial_offset [] plan = io_ret plan"
| "plan_batches E L topic part directory initial_offset ((records, fingerprint) # rest) plan =
     io_bind (plan_batch E L topic part directory initial_offset records fingerprint plan) (\<lambda>plan.
       plan_batches E L topic part directory initial_offset rest plan)"

section \<open>Publishing the objects\<close>

definition append_root ::
  "('s, 'm) log_env_scheme \<Rightarrow> engine \<Rightarrow> string \<Rightarrow> int \<Rightarrow> log_manifest \<Rightarrow> nat \<Rightarrow> ('s, log_error, root) io" where
  "append_root E L topic part manifest now_ms =
     io_bind (case manifest of
                Legacy legacy \<Rightarrow> migrate_manifest E L topic part legacy now_ms
              | Indexed root \<Rightarrow>
                  io_ret (if rt_schema root \<noteq> INDEX_SCHEMA
                          then root\<lparr>rt_schema := INDEX_SCHEMA,
                                 rt_adopted_at_ms := (case rt_adopted_at_ms root of
                                    None \<Rightarrow> Some now_ms | Some t \<Rightarrow> Some t)\<rparr>
                          else root)) (\<lambda>root.
       if length (rt_tail root) = PAGE_ENTRIES then seal_tail E L topic part root else io_ret root)"

definition publish_addition ::
  "('s, 'm) log_env_scheme \<Rightarrow> engine \<Rightarrow> string \<Rightarrow> int \<Rightarrow> nat \<Rightarrow> kafka_record list \<Rightarrow> int \<Rightarrow> root
   \<Rightarrow> ('s, log_error, root) io" where
  "publish_addition E L topic part received_at_ms records base_offset root =
     io_bind (if length (rt_tail root) = PAGE_ENTRIES then seal_tail E L topic part root else io_ret root) (\<lambda>root.
     io_bind (io_lift (assigned_records records base_offset)) (\<lambda>assigned.
     io_bind (io_lift (encode_records E assigned)) (\<lambda>encoded.
     io_bind (io_call (w_new_uuid E)) (\<lambda>uuid.
       let object = segment_path E L topic part uuid
       in io_bind (io_lift (ok_or (checked_add_u64 (rt_revision root) 1) RevisionOverflow)) (\<lambda>revision.
          let root = root\<lparr>rt_revision := revision,
                rt_next_offset := wrap_i64 (base_offset + int (length records)),
                rt_tail := rt_tail root @
                  [\<lparr>sg_object = object, sg_base_offset = base_offset, sg_record_count = length records,
                    sg_byte_length = length encoded, sg_sha256 = w_sha256_hex E encoded,
                    sg_received_at_ms = Some received_at_ms\<rparr>]\<rparr>
          in io_bind (io_store (w_put E object encoded Create)) (\<lambda>_. io_ret root))))))"

fun publish_additions ::
  "('s, 'm) log_env_scheme \<Rightarrow> engine \<Rightarrow> string \<Rightarrow> int \<Rightarrow> nat \<Rightarrow> (kafka_record list \<times> int) list \<Rightarrow> root
   \<Rightarrow> ('s, log_error, root) io" where
  "publish_additions E L topic part received_at_ms [] root = io_ret root"
| "publish_additions E L topic part received_at_ms ((records, base_offset) # additions) root =
     io_bind (publish_addition E L topic part received_at_ms records base_offset root) (\<lambda>root.
       publish_additions E L topic part received_at_ms additions root)"

fun publish_states ::
  "('s, 'm) log_env_scheme \<Rightarrow> engine \<Rightarrow> string \<Rightarrow> int \<Rightarrow> int \<Rightarrow> producer_state list \<Rightarrow> root
   \<Rightarrow> ('s, log_error, root) io" where
  "publish_states E L topic part next_offset [] root = io_ret root"
| "publish_states E L topic part next_offset (state # states) root =
     io_bind (update_producer E L topic part (rt_producers root) state next_offset) (\<lambda>r.
       publish_states E L topic part next_offset states (root\<lparr>rt_producers := Some r\<rparr>))"

definition prepare_append ::
  "('s, 'm) log_env_scheme \<Rightarrow> engine \<Rightarrow> string \<Rightarrow> int \<Rightarrow> log_manifest \<Rightarrow> kafka_record list list \<Rightarrow> string list
   \<Rightarrow> nat \<Rightarrow> ('s, log_error, append_result \<times> root option) io" where
  "prepare_append E L topic part manifest batches fingerprints received_at_ms =
     (let initial_offset = lm_next_offset manifest;
          directory = (case manifest of Indexed root \<Rightarrow> rt_producers root | _ \<Rightarrow> None);
          start = \<lparr>ap_states = [], ap_additions = [], ap_results = [], ap_next_offset = initial_offset\<rparr>
      in io_bind (plan_batches E L topic part directory initial_offset (zip batches fingerprints) start) (\<lambda>plan.
           let result = \<lparr>ar_base_offset = ar_base_offset (hd (ap_results plan)),
                         ar_last_offset = ar_last_offset (last (ap_results plan))\<rparr>
           in if ap_additions plan = [] then io_ret (result, None)
              else io_bind (append_root E L topic part manifest received_at_ms) (\<lambda>root.
                   io_bind (publish_additions E L topic part received_at_ms (ap_additions plan) root) (\<lambda>root.
                   io_bind (publish_states E L topic part (ap_next_offset plan) (bt_values (ap_states plan)) root) (\<lambda>root.
                     io_ret (result, Some root))))))"

section \<open>The append loop\<close>

text \<open>The conditional PUT of the new root; \<open>None\<close> is the loop's \<open>continue\<close>.\<close>

definition commit_root ::
  "('s, 'm) log_env_scheme \<Rightarrow> engine \<Rightarrow> string \<Rightarrow> int \<Rightarrow> update_version option \<Rightarrow> root \<Rightarrow> append_result
   \<Rightarrow> ('s, log_error, append_result option) io" where
  "commit_root E L topic part ver next result =
     io_bind (io_lift (validate_root (w_uuid_ok E) next (en_prefix L) topic part)) (\<lambda>_.
     io_bind (io_json (le_root_to_vec E next)) (\<lambda>bytes.
       if length bytes > MAX_MANIFEST_BYTES
       then io_err (ManifestTooLarge (length bytes) MAX_MANIFEST_BYTES)
       else
         let mode = (case ver of None \<Rightarrow> Create | Some v \<Rightarrow> Update v)
         in io_bind (io_try (w_put E (manifest_path E L topic part) bytes mode)) (\<lambda>put.
              case put of
                Inr _ \<Rightarrow> io_ret (Some result)
              | Inl Precondition \<Rightarrow> io_ret None
              | Inl AlreadyExists \<Rightarrow> io_ret None
              | Inl e \<Rightarrow> io_err (ObjectStore e))))"

definition append_attempt ::
  "('s, 'm) log_env_scheme \<Rightarrow> engine \<Rightarrow> string \<Rightarrow> int \<Rightarrow> kafka_record list list \<Rightarrow> string list \<Rightarrow> nat
   \<Rightarrow> ('s, log_error, append_result option) io" where
  "append_attempt E L topic part batches fingerprints received_at_ms =
     io_bind (load_or_empty E L topic part) (\<lambda>loaded.
     io_bind (io_try (prepare_append E L topic part (ld_manifest loaded) batches fingerprints received_at_ms)) (\<lambda>prepared.
       case prepared of
         Inl e \<Rightarrow>
           io_bind (stale_missing E L topic part (ld_version loaded) e) (\<lambda>stale.
             if stale then io_ret None else io_err e)
       | Inr (result, None) \<Rightarrow> io_ret (Some result)
       | Inr (result, Some next) \<Rightarrow> commit_root E L topic part (ld_version loaded) next result))"

definition append_batches ::
  "('s, 'm) log_env_scheme \<Rightarrow> engine \<Rightarrow> string \<Rightarrow> int \<Rightarrow> kafka_record list list \<Rightarrow> ('s, log_error, append_result) io" where
  "append_batches E L topic part batches =
     io_bind (io_lift (validate_topic topic)) (\<lambda>_.
     io_bind (io_lift (validate_partition part MAX_TOPIC_PARTITIONS)) (\<lambda>_.
       if batches = [] then io_err EmptyBatch
       else
         let count = sum_list (map length batches)
         in if count > MAX_BATCH_RECORDS then io_err (TooManyRecords count MAX_BATCH_RECORDS)
            else io_bind (io_lift (check_batches E batches [] 0)) (\<lambda>(fingerprints, total_bytes).
              if total_bytes > MAX_BATCH_BYTES then io_err (BatchTooLarge total_bytes MAX_BATCH_BYTES)
              else io_bind (unix_millis E) (\<lambda>received_at_ms.
                   io_bind (ensure_topic E L topic part) (\<lambda>_.
                     retry MAX_CAS_ATTEMPTS (ContentionExhausted MAX_CAS_ATTEMPTS)
                       (append_attempt E L topic part batches fingerprints received_at_ms))))))"

definition append_records ::
  "('s, 'm) log_env_scheme \<Rightarrow> engine \<Rightarrow> string \<Rightarrow> int \<Rightarrow> kafka_record list \<Rightarrow> ('s, log_error, append_result) io" where
  "append_records E L topic part records = append_batches E L topic part [records]"

section \<open>Fetching\<close>

text \<open>The checks on a segment's bytes.\<close>

definition check_segment ::
  "('s, 'm) log_env_scheme \<Rightarrow> segment \<Rightarrow> bytes \<Rightarrow> log_error + unit" where
  "check_segment E sg bytes =
     (if length bytes \<noteq> sg_byte_length sg \<or> w_sha256_hex E bytes \<noteq> sg_sha256 sg
      then Inl (CorruptSegment (sg_object sg) ''length or SHA-256 mismatch'')
      else attempt (map_err (\<lambda>e. CorruptSegment (sg_object sg) (codec_error_message e))
             (decode_record_batches (le_decode_batch_info E) (le_decode_all E) (le_headers_len E) bytes)) (\<lambda>(inspection, records).
        if in_batch_count inspection \<noteq> 1 \<or> in_record_count inspection \<noteq> sg_record_count sg
        then Inl (CorruptSegment (sg_object sg) ''invalid canonical record-batch headers'')
        else attempt (validate_segment_records sg records) (\<lambda>_.
             attempt (validate_canonical_segment_records sg records) (\<lambda>_.
             attempt (map_err (\<lambda>e. CorruptSegment (sg_object sg)
                        (''cannot safely re-encode committed records: '' @ log_error_message e))
                      (encode_records E records)) (\<lambda>canonical.
               if canonical \<noteq> bytes
               then Inl (CorruptSegment (sg_object sg) ''record batch is not the writer's canonical encoding'')
               else Inr ())))))"

definition read_segment ::
  "('s, 'm) log_env_scheme \<Rightarrow> segment \<Rightarrow> ('s, log_error, bytes) io" where
  "read_segment E sg =
     io_bind (io_lift (map_err (\<lambda>e. InvalidManifest (''invalid segment object path: '' @ e))
                (w_path_parse E (sg_object sg)))) (\<lambda>path.
     io_bind (io_map_err (MissingSegment (sg_object sg)) (w_get E path)) (\<lambda>result.
       if gr_size result \<noteq> sg_byte_length sg
       then io_err (CorruptSegment (sg_object sg) ''object metadata length does not match the manifest'')
       else io_bind (io_lift (map_err (\<lambda>e. case e of
                         ReadStore s \<Rightarrow> MissingSegment (sg_object sg) s
                       | TooLarge \<Rightarrow> CorruptSegment (sg_object sg) ''object body exceeds the manifest length'')
                      (collect_bounded (gr_chunks result) (sg_byte_length sg) []))) (\<lambda>bytes.
            io_bind (io_lift (check_segment E sg bytes)) (\<lambda>_.
              io_ret bytes))))"

fun read_segments ::
  "('s, 'm) log_env_scheme \<Rightarrow> segment list \<Rightarrow> bytes \<Rightarrow> ('s, log_error, bytes) io" where
  "read_segments E [] encoded = io_ret encoded"
| "read_segments E (sg # sgs) encoded =
     io_bind (read_segment E sg) (\<lambda>bytes. read_segments E sgs (encoded @ bytes))"

definition fetch_snapshot ::
  "('s, 'm) log_env_scheme \<Rightarrow> engine \<Rightarrow> string \<Rightarrow> int \<Rightarrow> log_manifest \<Rightarrow> int \<Rightarrow> nat \<Rightarrow> bool
   \<Rightarrow> ('s, log_error, bounded_fetch) io" where
  "fetch_snapshot E L topic part manifest off maximum_bytes allow_oversized =
     (let high_watermark = lm_next_offset manifest
      in if off < lm_start_offset manifest \<or> off > high_watermark
         then io_err (OffsetOutOfRange off high_watermark)
         else if off = high_watermark
         then io_ret \<lparr>ft_records = [], ft_high_watermark = high_watermark, ft_oversized_first_batch = False\<rparr>
         else
           let selection = selection_new off maximum_bytes allow_oversized
           in io_bind (case manifest of
                         Legacy m \<Rightarrow> io_lift (case push_all (mf_segments m) selection of
                                              (Inl e, _) \<Rightarrow> Inl e | (Inr _, selection) \<Rightarrow> Inr selection)
                       | Indexed root \<Rightarrow> indexed_segments E L topic part root selection) (\<lambda>selection.
              io_bind (read_segments E (sl_segments selection) []) (\<lambda>encoded.
                io_ret \<lparr>ft_records = encoded, ft_high_watermark = high_watermark,
                        ft_oversized_first_batch = sl_oversized_first_batch selection\<rparr>)))"

definition fetch_attempt ::
  "('s, 'm) log_env_scheme \<Rightarrow> engine \<Rightarrow> string \<Rightarrow> int \<Rightarrow> int \<Rightarrow> nat \<Rightarrow> bool
   \<Rightarrow> ('s, log_error, bounded_fetch option) io" where
  "fetch_attempt E L topic part off maximum_bytes allow_oversized =
     io_bind (load_or_empty E L topic part) (\<lambda>loaded.
     io_bind (io_try (fetch_snapshot E L topic part (ld_manifest loaded) off maximum_bytes allow_oversized)) (\<lambda>fetched.
       case fetched of
         Inr f \<Rightarrow> io_ret (Some f)
       | Inl e \<Rightarrow>
           io_bind (stale_missing E L topic part (ld_version loaded) e) (\<lambda>stale.
             if stale then io_ret None else io_err e)))"

definition known_partition ::
  "('s, 'm) log_env_scheme \<Rightarrow> engine \<Rightarrow> string \<Rightarrow> int \<Rightarrow> ('s, log_error, unit) io" where
  "known_partition E L topic part =
     io_bind (io_lift (validate_topic topic)) (\<lambda>_.
     io_bind (topic_partition_count E L topic) (\<lambda>count.
     io_bind (io_lift (ok_or count (UnknownTopic topic))) (\<lambda>partition_count.
       io_lift (validate_partition part partition_count))))"

definition fetch_bounded ::
  "('s, 'm) log_env_scheme \<Rightarrow> engine \<Rightarrow> string \<Rightarrow> int \<Rightarrow> int \<Rightarrow> nat \<Rightarrow> bool
   \<Rightarrow> ('s, log_error, bounded_fetch) io" where
  "fetch_bounded E L topic part off maximum_bytes allow_oversized =
     io_bind (known_partition E L topic part) (\<lambda>_.
       if off < 0 then io_err (InvalidOffset off)
       else retry MAX_CAS_ATTEMPTS (ContentionExhausted MAX_CAS_ATTEMPTS)
              (fetch_attempt E L topic part off maximum_bytes allow_oversized))"

definition fetch_records ::
  "('s, 'm) log_env_scheme \<Rightarrow> engine \<Rightarrow> string \<Rightarrow> int \<Rightarrow> int \<Rightarrow> ('s, log_error, kafka_record list) io" where
  "fetch_records E L topic part off =
     io_bind (fetch_bounded E L topic part off u64_max False) (\<lambda>fetched.
       if ft_records fetched = [] then io_ret []
       else io_bind (io_lift (map_err (\<lambda>e. Codec (codec_error_message e))
              (decode_record_batches (le_decode_batch_info E) (le_decode_all E) (le_headers_len E)
                (ft_records fetched)))) (\<lambda>(_, decoded).
            io_ret (filter (\<lambda>r. rc_offset r \<ge> off) decoded)))"

definition partition_offsets ::
  "('s, 'm) log_env_scheme \<Rightarrow> engine \<Rightarrow> string \<Rightarrow> int \<Rightarrow> ('s, log_error, offset_range) io" where
  "partition_offsets E L topic part =
     io_bind (known_partition E L topic part) (\<lambda>_.
     io_bind (load_or_empty E L topic part) (\<lambda>loaded.
       io_ret \<lparr>or_earliest = lm_start_offset (ld_manifest loaded),
               or_latest = lm_next_offset (ld_manifest loaded)\<rparr>))"

end
