(* ===== verification/Log_Guarantees.thy ===== *)
theory Log_Guarantees
  imports Log_Append
begin

text \<open>
  What each operation of the engine may do to the bucket, on every path, errors included: the
  guarantee of an operation is that of the calls it makes. A computation that only reads keeps
  any relation the reads keep; one that writes pages and segments keeps whatever the conditional
  creates keep.
\<close>

section \<open>Index pages\<close>

lemma index_path_keeps:
  assumes "\<And>p. io_keeps R (write_page E L topic part p)"
  shows "io_keeps R (index_path E L topic part leaf level)"
proof -
  have "index_path E L topic part leaf level s = (x, t) \<Longrightarrow> R\<^sup>*\<^sup>* s t" for s x t
  proof (induction "level - pr_level leaf" arbitrary: leaf s rule: less_induct)
    case less
    show ?case
    proof (cases "pr_level leaf < level")
      case True
      obtain r u where w: "write_page E L topic part (Branch [leaf]) s = (r, u)" by force
      note su = io_keepsD [OF assms w]
      show ?thesis
      proof (cases r)
        case (Inl e)
        with less.prems True w su show ?thesis by (simp add: index_path.simps [of E L topic part leaf])
      next
        case (Inr leaf')
        with w have lvl: "pr_level leaf' = Suc (pr_level leaf)" by (simp add: write_page_Branch_level)
        from Inr less.prems True w have "index_path E L topic part leaf' level u = (x, t)"
          by (simp add: index_path.simps [of E L topic part leaf])
        from less.hyps [OF _ this] lvl True su show ?thesis by (auto intro: rtranclp_trans)
      qed
    next
      case False
      with less.prems show ?thesis by (simp add: index_path.simps [of E L topic part leaf])
    qed
  qed
  then show ?thesis by (auto simp: io_keeps_def)
qed

lemma insert_leaf_keeps:
  assumes w: "\<And>p. io_keeps R (write_page E L topic part p)" and r: "\<And>r. io_keeps R (read_page E L topic part r)"
  shows "io_keeps R (insert_leaf E L topic part tree leaf)"
proof -
  note bind = io_keeps_bind [OF index_path_keeps [OF w] w]
  have "insert_leaf E L topic part tree leaf s = (x, t) \<Longrightarrow> R\<^sup>*\<^sup>* s t" for s x t
  proof (induction "pr_level tree" arbitrary: tree s x t rule: less_induct)
    case less
    show ?case
    proof (cases "full tree")
      case True
      with less.prems show ?thesis
        by (auto simp: insert_leaf.simps [of E L topic part tree] split: if_splits dest: io_keepsD [OF bind])
    next
      case False
      obtain y u where get: "read_page E L topic part tree s = (y, u)" by force
      note su = io_keepsD [OF r get]
      show ?thesis
      proof (cases "\<exists>cs. y = Inr (Branch cs) \<and> cs \<noteq> []")
        case no: False
        with less.prems False get su show ?thesis
          by (auto simp: insert_leaf.simps [of E L topic part tree] split: sum.splits page.splits if_splits)
      next
        case True
        then obtain cs where cs: "y = Inr (Branch cs)" "cs \<noteq> []" by blast
        show ?thesis
        proof (cases "full (last cs)")
          case True
          with less.prems False get cs su show ?thesis
            by (auto simp: insert_leaf.simps [of E L topic part tree] dest!: io_keepsD [OF bind] intro: rtranclp_trans)
        next
          case last: False
          obtain z v where ins: "insert_leaf E L topic part (last cs) leaf u = (z, v)" by force
          from get cs have "read_page E L topic part tree s = (Inr (Branch cs), u)" by simp
          from less.hyps [OF read_page_Branch_last [OF this] ins] have "R\<^sup>*\<^sup>* u v" .
          with su have sv: "R\<^sup>*\<^sup>* s v" by (rule rtranclp_trans)
          with less.prems False get cs last ins show ?thesis
            by (auto simp: insert_leaf.simps [of E L topic part tree] split: sum.splits
                dest!: io_keepsD [OF w] intro: rtranclp_trans)
        qed
      qed
    qed
  qed
  then show ?thesis by (auto simp: io_keeps_def)
qed

lemma seal_tail_keeps:
  assumes "\<And>p. io_keeps R (write_page E L topic part p)" "\<And>r. io_keeps R (read_page E L topic part r)"
  shows "io_keeps R (seal_tail E L topic part root)"
  unfolding seal_tail_def by (intro io_keeps_rules insert_leaf_keeps assms)

lemma migrate_segments_keeps:
  assumes "\<And>p. io_keeps R (write_page E L topic part p)" "\<And>r. io_keeps R (read_page E L topic part r)"
  shows "io_keeps R (migrate_segments E L topic part root sgs)"
  by (induction sgs arbitrary: root) (auto intro!: io_keeps_rules seal_tail_keeps assms)

lemma build_levels_keeps:
  assumes "\<And>p. io_keeps R (write_page E L topic part p)"
  shows "io_keeps R (build_levels E L topic part pages)"
proof -
  have m: "io_keeps R (io_map (\<lambda>children. write_page E L topic part (Branch children)) css)" for css
    by (intro io_keeps_rules assms)
  have "build_levels E L topic part pages s = (x, t) \<Longrightarrow> R\<^sup>*\<^sup>* s t" for s x t
  proof (induction "length pages" arbitrary: pages s rule: less_induct)
    case less
    show ?case
    proof (cases "length pages > 1")
      case True
      obtain y u where w: "io_map (\<lambda>children. write_page E L topic part (Branch children)) (chunks PAGE_ENTRIES pages) s = (y, u)"
        by force
      note su = io_keepsD [OF m w]
      show ?thesis
      proof (cases y)
        case (Inl e)
        with less.prems True w su show ?thesis by (simp add: build_levels.simps [of E L topic part pages])
      next
        case (Inr parents)
        with w have "length parents < length pages" using io_map_length chunks_64_shorter [OF True] by metis
        moreover from Inr less.prems True w have "build_levels E L topic part parents u = (x, t)"
          by (simp add: build_levels.simps [of E L topic part pages])
        ultimately have "R\<^sup>*\<^sup>* u t" by (rule less.hyps)
        with su show ?thesis by (rule rtranclp_trans)
      qed
    next
      case False
      with less.prems show ?thesis by (simp add: build_levels.simps [of E L topic part pages])
    qed
  qed
  then show ?thesis by (auto simp: io_keeps_def)
qed

lemma rebuild_index_keeps:
  assumes "\<And>p. io_keeps R (write_page E L topic part p)"
  shows "io_keeps R (rebuild_index E L topic part sgs start nxt maximum)"
  unfolding rebuild_index_def by (intro io_keeps_rules build_levels_keeps assms)

lemma trace_pages_keeps:
  assumes r: "\<And>r. io_keeps R (read_page E L topic part r)"
  shows "io_keeps R (trace_pages E L topic part maximum stack graph)"
proof -
  have "trace_pages E L topic part maximum stack graph s = (x, t) \<Longrightarrow> R\<^sup>*\<^sup>* s t" for s x t
  proof (induction "stack_weight (map pr_level stack)" arbitrary: stack graph s rule: less_induct)
    case less
    show ?case
    proof (cases stack)
      case (Cons ref rest)
      obtain y u where get: "read_page E L topic part ref s = (y, u)" by force
      note su = io_keepsD [OF r get]
      have leaf: "stack_weight (map pr_level rest) < stack_weight (map pr_level stack)" using Cons by simp
      have branch: "y = Inr (Branch cs) \<Longrightarrow>
          stack_weight (map pr_level (cs @ rest)) < stack_weight (map pr_level stack)" for cs
        using read_page_weight [of E L topic part ref s cs u] get Cons by simp
      from less.prems Cons get su show ?thesis
        by (auto split: sum.splits page.splits if_splits
            dest!: less.hyps [OF leaf] less.hyps [OF branch] intro: rtranclp_trans)
    qed (use less.prems in simp)
  qed
  then show ?thesis by (auto simp: io_keeps_def)
qed

lemma trace_index_keeps:
  assumes "\<And>r. io_keeps R (read_page E L topic part r)"
  shows "io_keeps R (trace_index E L topic part root graph maximum)"
  unfolding trace_index_def by (intro io_keeps_rules trace_pages_keeps assms)

lemma select_pages_keeps:
  assumes r: "\<And>r. io_keeps R (read_page E L topic part r)"
  shows "io_keeps R (select_pages E L topic part stack sel)"
proof -
  have "select_pages E L topic part stack sel s = (x, t) \<Longrightarrow> R\<^sup>*\<^sup>* s t" for s x t
  proof (induction "stack_weight (map pr_level stack)" arbitrary: stack sel s rule: less_induct)
    case less
    show ?case
    proof (cases stack)
      case (Cons ref rest)
      have leaf: "stack_weight (map pr_level rest) < stack_weight (map pr_level stack)" using Cons by simp
      show ?thesis
      proof (cases "pr_next_offset ref \<le> sl_offset sel")
        case True
        with less.prems Cons have "select_pages E L topic part rest sel s = (x, t)" by simp
        then show ?thesis by (rule less.hyps [OF leaf])
      next
        case False
        obtain y u where get: "read_page E L topic part ref s = (y, u)" by force
        note su = io_keepsD [OF r get]
        have branch: "y = Inr (Branch cs) \<Longrightarrow>
            stack_weight (map pr_level (filter P cs @ rest)) < stack_weight (map pr_level stack)" for cs P
          using read_page_weight [of E L topic part ref s cs u] get Cons
          by (auto intro: le_less_trans [OF stack_weight_filter])
        from less.prems Cons False get su show ?thesis
          by (auto split: sum.splits page.splits prod.splits bool.splits
              dest!: less.hyps [OF leaf] less.hyps [OF branch] intro: rtranclp_trans)
      qed
    qed (use less.prems in simp)
  qed
  then show ?thesis by (auto simp: io_keeps_def)
qed

lemma indexed_segments_keeps:
  assumes "\<And>r. io_keeps R (read_page E L topic part r)"
  shows "io_keeps R (indexed_segments E L topic part root sel)"
  unfolding indexed_segments_def by (intro io_keeps_rules select_pages_keeps assms)

section \<open>The producer directory\<close>

lemma producer_lookup_keeps:
  assumes r: "\<And>r. io_keeps R (read_producer_page E L topic part n r)"
  shows "io_keeps R (producer_lookup E L topic part cursor pid n)"
proof -
  have "producer_lookup E L topic part cursor pid n s = (x, t) \<Longrightarrow> R\<^sup>*\<^sup>* s t" for s x t
  proof (induction "case cursor of None \<Rightarrow> 0 | Some r \<Rightarrow> Suc (pf_level r)" arbitrary: cursor s rule: less_induct)
    case less
    show ?case
    proof (cases cursor)
      case (Some ref)
      obtain y u where get: "read_producer_page E L topic part n ref s = (y, u)" by force
      note su = io_keepsD [OF r get]
      have branch: "y = Inr (PBranch cs) \<Longrightarrow>
          producer_lookup E L topic part (find P cs) pid n u = (x, t) \<Longrightarrow> R\<^sup>*\<^sup>* u t" for P cs
        using less.hyps [of "find P cs"] get Some find_lower_level [of E L topic part n ref s cs u P]
        by (cases "find P cs") auto
      from less.prems Some get su show ?thesis
        by (auto split: sum.splits producer_page.splits if_splits dest!: branch intro: rtranclp_trans)
    qed (use less.prems in simp)
  qed
  then show ?thesis by (auto simp: io_keeps_def)
qed

lemma producer_descend_keeps:
  assumes r: "\<And>r. io_keeps R (read_producer_page E L topic part n r)"
  shows "io_keeps R (producer_descend E L topic part pid n ref path)"
proof -
  have "producer_descend E L topic part pid n ref path s = (x, t) \<Longrightarrow> R\<^sup>*\<^sup>* s t" for s x t
  proof (induction "pf_level ref" arbitrary: ref path s rule: less_induct)
    case less
    obtain y u where get: "read_producer_page E L topic part n ref s = (y, u)" by force
    note su = io_keepsD [OF r get]
    have branch: "R\<^sup>*\<^sup>* u t" if "y = Inr (PBranch cs)"
        "producer_descend E L topic part pid n (cs ! child_position pid cs) path' u = (x, t)" for cs path'
    proof -
      from get that(1) have "read_producer_page E L topic part n ref s = (Inr (PBranch cs), u)" by simp
      from less.hyps [OF child_lower_level [OF this] that(2)] show ?thesis .
    qed
    from less.prems get su show ?case
      by (auto simp: producer_descend.simps [of E L topic part pid n ref] split: sum.splits producer_page.splits
          dest!: branch intro: rtranclp_trans)
  qed
  then show ?thesis by (auto simp: io_keeps_def)
qed

lemma write_upwards_keeps:
  assumes w: "\<And>p. io_keeps R (write_producer_page E L topic part n p)"
  shows "io_keeps R (write_upwards E L topic part n pages path)"
  by (induction path arbitrary: pages) (auto intro!: io_keeps_rules w split: prod.splits)

lemma update_producer_keeps:
  assumes "\<And>p. io_keeps R (write_producer_page E L topic part n p)" "\<And>r. io_keeps R (read_producer_page E L topic part n r)"
  shows "io_keeps R (update_producer E L topic part root state n)"
  unfolding update_producer_def by (intro io_keeps_rules write_upwards_keeps producer_descend_keeps assms)

lemma trace_producer_pages_keeps:
  assumes r: "\<And>r. io_keeps R (read_producer_page E L topic part n r)"
  shows "io_keeps R (trace_producer_pages E L topic part n maximum stack graph)"
proof -
  have "trace_producer_pages E L topic part n maximum stack graph s = (x, t) \<Longrightarrow> R\<^sup>*\<^sup>* s t" for s x t
  proof (induction "stack_weight (map pf_level stack)" arbitrary: stack graph s rule: less_induct)
    case less
    show ?case
    proof (cases stack)
      case (Cons ref rest)
      obtain y u where get: "read_producer_page E L topic part n ref s = (y, u)" by force
      note su = io_keepsD [OF r get]
      have leaf: "stack_weight (map pf_level rest) < stack_weight (map pf_level stack)" using Cons by simp
      have branch: "y = Inr (PBranch cs) \<Longrightarrow>
          stack_weight (map pf_level (rev cs @ rest)) < stack_weight (map pf_level stack)" for cs
        using read_producer_Branch_weight [of E L topic part n ref s cs u] get Cons by simp
      from less.prems Cons get su show ?thesis
        by (auto split: sum.splits producer_page.splits
            dest!: less.hyps [OF leaf] less.hyps [OF branch] intro: rtranclp_trans)
    qed (use less.prems in simp)
  qed
  then show ?thesis by (auto simp: io_keeps_def)
qed

lemma trace_producers_keeps:
  assumes "\<And>n r. io_keeps R (read_producer_page E L topic part n r)"
  shows "io_keeps R (trace_producers E L topic part root graph maximum)"
  unfolding trace_producers_def by (intro trace_producer_pages_keeps assms)

section \<open>Reading operations\<close>

text \<open>The single calls that only read keep \<open>R\<close>.\<close>

definition reads_keep :: "('s \<Rightarrow> 's \<Rightarrow> bool) \<Rightarrow> ('s, 'm) world_scheme \<Rightarrow> bool" where
  "reads_keep R W \<longleftrightarrow>
     (\<forall>p. io_keeps R (w_get W p)) \<and> (\<forall>p. io_keeps R (w_head W p)) \<and> (\<forall>p. io_keeps R (w_list_prefixes W p))
   \<and> (\<forall>p s xs t. w_list W p s = (xs, t) \<longrightarrow> R\<^sup>*\<^sup>* s t) \<and> (\<forall>s x t. w_unix_millis W s = (x, t) \<longrightarrow> R\<^sup>*\<^sup>* s t)"

lemma reads_keepD:
  assumes "reads_keep R W"
  shows "io_keeps R (w_get W p)" "io_keeps R (w_head W p)" "io_keeps R (w_list_prefixes W p)"
    "io_keeps R (io_call (w_list W p))" "io_keeps R (io_call (w_unix_millis W))"
  using assms by (auto simp: reads_keep_def io_keeps_def io_call_def split: prod.splits)

lemma io_keeps_body [io_keeps_rules]: "io_keeps R (io_body g n e)"
  unfolding io_body_def by (rule io_keeps_rules)

lemma io_keeps_error [io_keeps_rules]:
  "io_keeps R a \<Longrightarrow> io_keeps R b \<Longrightarrow> io_keeps R c \<Longrightarrow> (\<And>x. io_keeps R (d x)) \<Longrightarrow>
   io_keeps R (case e of NotFound \<Rightarrow> a | AlreadyExists \<Rightarrow> b | Precondition \<Rightarrow> c | OtherError x \<Rightarrow> d x)"
  by (cases e) auto

lemma io_keeps_manifest [io_keeps_rules]:
  "(\<And>x. io_keeps R (f x)) \<Longrightarrow> (\<And>x. io_keeps R (g x)) \<Longrightarrow>
   io_keeps R (case m of Legacy x \<Rightarrow> f x | Indexed x \<Rightarrow> g x)"
  by (cases m) auto

lemma read_page_reads [io_keeps_rules]:
  "reads_keep R E \<Longrightarrow> io_keeps R (read_page E L topic part r)"
  unfolding read_page_def by (intro io_keeps_rules reads_keepD)

lemma read_producer_page_reads [io_keeps_rules]:
  "reads_keep R E \<Longrightarrow> io_keeps R (read_producer_page E L topic part n r)"
  unfolding read_producer_page_def by (intro io_keeps_rules reads_keepD)

lemma load_reads [io_keeps_rules]:
  assumes "reads_keep R E"
  shows "io_keeps R (load_topic_metadata E L topic)" "io_keeps R (load_manifest E L topic part)"
    "io_keeps R (load_or_empty E L topic part)"
  using assms unfolding load_topic_metadata_def load_manifest_def load_or_empty_def
  by (auto intro!: io_keeps_rules reads_keepD)

lemma known_partition_reads [io_keeps_rules]:
  assumes "reads_keep R E"
  shows "io_keeps R (topic_partition_count E L topic)" "io_keeps R (known_partition E L topic part)"
  using assms unfolding topic_partition_count_def known_partition_def by (auto intro!: io_keeps_rules)

lemma stale_missing_reads [io_keeps_rules]:
  "reads_keep R E \<Longrightarrow> io_keeps R (stale_missing E L topic part ver e)"
  unfolding stale_missing_def Let_def by (intro io_keeps_rules)

lemma read_segment_reads [io_keeps_rules]:
  "reads_keep R E \<Longrightarrow> io_keeps R (read_segment E sg)"
  unfolding read_segment_def by (intro io_keeps_rules reads_keepD)

lemma read_segments_reads [io_keeps_rules]:
  "reads_keep R E \<Longrightarrow> io_keeps R (read_segments E sgs out)"
  by (induction sgs arbitrary: out) (auto intro!: io_keeps_rules)

lemma fetch_snapshot_reads [io_keeps_rules]:
  "reads_keep R E \<Longrightarrow> io_keeps R (fetch_snapshot E L topic part manifest off n allow)"
  unfolding fetch_snapshot_def Let_def
  by (intro io_keeps_rules indexed_segments_keeps)

lemma fetch_reads [io_keeps_rules]:
  assumes "reads_keep R E"
  shows "io_keeps R (fetch_attempt E L topic part off n allow)"
    and "io_keeps R (fetch_bounded E L topic part off n allow)"
    and "io_keeps R (fetch_records E L topic part off)"
  using assms unfolding fetch_attempt_def fetch_bounded_def fetch_records_def
  by (auto intro!: io_keeps_rules)

lemma plan_batches_reads [io_keeps_rules]:
  assumes "reads_keep R E"
  shows "io_keeps R (plan_batches E L topic part directory initial bs plan)"
proof (induction bs arbitrary: plan)
  case (Cons b bs)
  have "io_keeps R (plan_state E L topic part directory initial first states)" for first states
    unfolding plan_state_def by (intro io_keeps_rules producer_lookup_keeps assms)
  then have "io_keeps R (plan_batch E L topic part directory initial r f plan)" for r f
    unfolding plan_batch_def Let_def by (intro io_keeps_rules)
  with Cons show ?case by (cases b) (auto intro!: io_keeps_rules)
qed (auto intro!: io_keeps_rules)

section \<open>Publishing operations\<close>

text \<open>
  Beyond reading, an append draws object names and creates objects: pages and segments under the
  names it drew, and the metadata of its topic. \<open>names\<close> are the objects whose creation keeps \<open>R\<close>.
\<close>

definition drawn_names ::
  "('s, 'm) world_scheme \<Rightarrow> engine \<Rightarrow> string \<Rightarrow> int \<Rightarrow> string \<Rightarrow> string set" where
  "drawn_names W L topic part uuid =
     {w_path_from W (engine_dir L topic part @ ''index/'' @ uuid @ ''.json''),
      w_path_from W (engine_dir L topic part @ ''producer-state/'' @ uuid @ ''.json''),
      segment_path W L topic part uuid}"

definition creates_at ::
  "(string \<Rightarrow> bool) \<Rightarrow> ('s \<Rightarrow> 's \<Rightarrow> bool) \<Rightarrow> ('s, 'm) world_scheme \<Rightarrow> engine \<Rightarrow> string \<Rightarrow> int \<Rightarrow> bool" where
  "creates_at names R W L topic part \<longleftrightarrow> reads_keep R W \<and> (\<forall>p b. names p \<longrightarrow> io_keeps R (w_put W p b Create))
     \<and> (\<forall>s x t. w_new_uuid W s = (x, t) \<longrightarrow> R\<^sup>*\<^sup>* s t \<and> (\<forall>p \<in> drawn_names W L topic part x. names p))
     \<and> names (topic_metadata_path W L topic)"

lemma creates_atD:
  assumes "creates_at names R W L topic part"
  shows "reads_keep R W" "names p \<Longrightarrow> io_keeps R (w_put W p b Create)" "names (topic_metadata_path W L topic)"
  using assms by (auto simp: creates_at_def)

lemma creates_at_draw:
  assumes "creates_at names R W L topic part"
    and "\<And>x. \<forall>p \<in> drawn_names W L topic part x. names p \<Longrightarrow> io_keeps R (f x)"
  shows "io_keeps R (io_bind (io_call (w_new_uuid W)) f)"
proof -
  have "R\<^sup>*\<^sup>* s t" if run: "io_bind (io_call (w_new_uuid W)) f s = (x, t)" for s x t
  proof -
    obtain u v where uv: "w_new_uuid W s = (u, v)" by force
    with assms(1) have u: "R\<^sup>*\<^sup>* s v" "\<forall>p \<in> drawn_names W L topic part u. names p"
      by (auto simp: creates_at_def)
    from run uv have "f u v = (x, t)" by (simp add: io_bind_def io_call_def)
    with io_keepsD [OF assms(2) [OF u(2)]] u(1) show ?thesis by (blast intro: rtranclp_trans)
  qed
  then show ?thesis by (auto simp: io_keeps_def)
qed

lemma pages_creates_at:
  assumes c: "creates_at names R E L topic part"
  shows "io_keeps R (write_page E L topic part p)" "io_keeps R (write_producer_page E L topic part n q)"
  unfolding write_page_def write_producer_page_def Let_def
  by (rule creates_at_draw [OF c] io_keeps_rules creates_atD(2) [OF c] | simp add: drawn_names_def)+

lemma append_creates_at:
  assumes c: "creates_at names R E L topic part"
  shows "io_keeps R (seal_tail E L topic part root)"
    and "io_keeps R (migrate_manifest E L topic part legacy now)"
    and "io_keeps R (append_root E L topic part manifest now)"
    and "io_keeps R (publish_additions E L topic part now adds root)"
    and "io_keeps R (publish_states E L topic part n states root)"
proof -
  note r = creates_atD(1) [OF c]
  note pages = pages_creates_at [OF c] read_page_reads [OF r] read_producer_page_reads [OF r]
  show seal: "io_keeps R (seal_tail E L topic part root)" for root by (intro seal_tail_keeps pages)
  show mig: "io_keeps R (migrate_manifest E L topic part legacy now)" for legacy
    unfolding migrate_manifest_def by (intro io_keeps_rules migrate_segments_keeps pages)
  show "io_keeps R (append_root E L topic part manifest now)"
    unfolding append_root_def by (intro io_keeps_rules seal mig)
  show "io_keeps R (publish_additions E L topic part now adds root)"
  proof (induction adds arbitrary: root)
    case (Cons a adds)
    have "io_keeps R (publish_addition E L topic part now rs b root)" for rs b
      unfolding publish_addition_def Let_def
      by (rule creates_at_draw [OF c] io_keeps_rules seal creates_atD(2) [OF c] | simp add: drawn_names_def)+
    with Cons show ?case by (cases a) (auto intro!: io_keeps_rules)
  qed (auto intro!: io_keeps_rules)
  show "io_keeps R (publish_states E L topic part n states root)"
    by (induction states arbitrary: root) (auto intro!: io_keeps_rules update_producer_keeps pages)
qed

lemma prepare_append_creates_at:
  assumes c: "creates_at names R E L topic part"
  shows "io_keeps R (prepare_append E L topic part manifest batches fps now)"
  unfolding prepare_append_def Let_def
  by (intro io_keeps_rules append_creates_at [OF c] plan_batches_reads [OF creates_atD(1) [OF c]])

lemma ensure_topic_creates_at:
  assumes c: "creates_at names R E L topic part"
  shows "io_keeps R (ensure_topic E L topic part)"
proof -
  note r = creates_atD(1) [OF c]
  have "io_keeps R (create_topic_metadata E L topic n)" for n
    unfolding create_topic_metadata_def
    by (intro io_keeps_rules creates_atD(2,3) [OF c] load_reads [OF r])
  then show ?thesis unfolding ensure_topic_def Let_def by (intro io_keeps_rules load_reads [OF r])
qed

text \<open>A relation that is kept by every create, whatever the object's name.\<close>

definition creates_keep :: "('s \<Rightarrow> 's \<Rightarrow> bool) \<Rightarrow> ('s, 'm) world_scheme \<Rightarrow> bool" where
  "creates_keep R W \<longleftrightarrow> reads_keep R W \<and> (\<forall>p b. io_keeps R (w_put W p b Create))
     \<and> (\<forall>s x t. w_new_uuid W s = (x, t) \<longrightarrow> R\<^sup>*\<^sup>* s t)"

lemma creates_keepD:
  assumes "creates_keep R W"
  shows "reads_keep R W" "io_keeps R (w_put W p b Create)" "io_keeps R (io_call (w_new_uuid W))"
  using assms by (auto simp: creates_keep_def io_keeps_def io_call_def split: prod.splits)

lemma creates_anywhere: "creates_keep R W \<Longrightarrow> creates_at (\<lambda>_. True) R W L topic part"
  by (simp add: creates_keep_def creates_at_def)

lemmas pages_creates [io_keeps_rules] = pages_creates_at [OF creates_anywhere]
lemmas append_creates [io_keeps_rules] = append_creates_at [OF creates_anywhere]
lemmas prepare_append_creates [io_keeps_rules] = prepare_append_creates_at [OF creates_anywhere]
lemmas ensure_topic_creates [io_keeps_rules] = ensure_topic_creates_at [OF creates_anywhere]

end
