(* ===== verification/Log_Steps.thy ===== *)
theory Log_Steps
  imports Log_Guarantees
begin

text \<open>
  What can happen to the bucket while an operation of the log is on its way. Other clients take
  steps that \<open>rely\<close> allows, and the operation itself creates objects under names that did not exist
  before. The relation \<open>prepares\<close> is the closure of the two: it ties every later instant of a run to
  the bucket at its start. The one update of a root that publishes the prepared objects is not
  part of it; the properties of append and maintenance state it on its own.
\<close>

section \<open>The names an operation creates\<close>

text \<open>\<open>Path::from\<close> leaves the name of the topic's metadata alone.\<close>

definition metadata_named :: "('s, 'm) world_scheme \<Rightarrow> engine \<Rightarrow> string \<Rightarrow> bool" where
  "metadata_named W L topic \<longleftrightarrow>
     w_path_from W (en_prefix L @ ''/topics/'' @ topic @ ''/metadata.json'')
       = en_prefix L @ ''/topics/'' @ topic @ ''/metadata.json''"

text \<open>The names an append creates are not the root's.\<close>

lemma names_not_root:
  assumes "name_laws E L topic part" "metadata_named E L topic"
  shows "topic_metadata_path E L topic \<noteq> manifest_path E L topic part"
    and "w_new_uuid E s = (x, t) \<Longrightarrow> p \<in> drawn_names E L topic part x \<Longrightarrow> p \<noteq> manifest_path E L topic part"
proof -
  have root: "manifest_path E L topic part = engine_dir L topic part @ ''manifest.json''"
    using assms(1) by (simp add: name_laws_def manifest_path_def)
  have "CHR ''/'' \<notin> set ''metadata.json''" by simp
  moreover have "CHR ''/'' \<in> set (show_int part @ ''/manifest.json'')" by simp
  ultimately have "''metadata.json'' \<noteq> show_int part @ ''/manifest.json''" by metis
  then show "topic_metadata_path E L topic \<noteq> manifest_path E L topic part"
    using assms(2) by (simp add: topic_metadata_path_def metadata_named_def root engine_dir_def partition_dir_def)
  assume "w_new_uuid E s = (x, t)" "p \<in> drawn_names E L topic part x"
  with assms(1) show "p \<noteq> manifest_path E L topic part"
    by (auto simp: name_laws_def Let_def drawn_names_def segment_path_def root dest!: spec [of _ s])
qed

text \<open>Objects of the partition's three immutable namespaces, and the metadata of its topic.\<close>

definition own_name :: "('s, 'm) world_scheme \<Rightarrow> engine \<Rightarrow> string \<Rightarrow> int \<Rightarrow> string \<Rightarrow> bool" where
  "own_name W L topic part p \<longleftrightarrow>
     p \<noteq> manifest_path W L topic part
   \<and> (immutable_name (engine_dir L topic part) p \<or> p = topic_metadata_path W L topic)"

lemma own_names:
  assumes "name_laws E L topic part" "metadata_named E L topic"
  shows "own_name E L topic part (topic_metadata_path E L topic)"
    and "w_new_uuid E s = (x, t) \<Longrightarrow> p \<in> drawn_names E L topic part x \<Longrightarrow> own_name E L topic part p"
proof -
  show "own_name E L topic part (topic_metadata_path E L topic)"
    using names_not_root(1) [OF assms] by (simp add: own_name_def)
  assume draw: "w_new_uuid E s = (x, t)" "p \<in> drawn_names E L topic part x"
  have "immutable_name (engine_dir L topic part) p"
    using assms(1) draw
    by (auto simp: name_laws_def Let_def drawn_names_def segment_path_def immutable_name_def starts_with_iff dest!: spec [of _ s])
  with names_not_root(2) [OF assms draw] show "own_name E L topic part p" by (simp add: own_name_def)
qed

section \<open>Steps while an operation prepares\<close>

inductive prepares ::
  "('s, 'm) world_scheme \<Rightarrow> engine \<Rightarrow> string \<Rightarrow> int \<Rightarrow> (objects \<Rightarrow> objects \<Rightarrow> bool) \<Rightarrow> objects \<Rightarrow> objects \<Rightarrow> bool"
  for W L topic part rely where
  still: "prepares W L topic part rely m m"
| others: "prepares W L topic part rely m m' \<Longrightarrow> rely m' m'' \<Longrightarrow> prepares W L topic part rely m m''"
| creates: "prepares W L topic part rely m m' \<Longrightarrow> own_name W L topic part p \<Longrightarrow> m' p = None \<Longrightarrow>
    prepares W L topic part rely m (m'(p \<mapsto> x))"

lemma prepares_rely: "rely m m' \<Longrightarrow> prepares W L topic part rely m m'"
  using prepares.still by (rule prepares.others)

lemma prepares_trans:
  assumes "prepares W L topic part rely m' m''" "prepares W L topic part rely m m'"
  shows "prepares W L topic part rely m m''"
  using assms by (induction rule: prepares.induct) (auto intro: prepares.intros)

text \<open>Whatever \<open>rely\<close> and the creation of an own object keep is kept.\<close>

lemma prepares_keep:
  assumes "prepares W L topic part rely m m'"
    and "\<And>m. R m m" "\<And>a b c. R a b \<Longrightarrow> R b c \<Longrightarrow> R a c" "\<And>a b. rely a b \<Longrightarrow> R a b"
    and "\<And>a p x. own_name W L topic part p \<Longrightarrow> a p = None \<Longrightarrow> R a (a(p \<mapsto> x))"
  shows "R m m'"
  using assms(1) by (induction rule: prepares.induct) (blast intro: assms(2-))+

lemma prepares_keeps_dir:
  assumes "prepares W L topic part rely m m'" "\<And>a b. rely a b \<Longrightarrow> keeps_dir (engine_dir L topic part) a b"
  shows "keeps_dir (engine_dir L topic part) m m'"
  by (rule prepares_keep [OF assms(1)]) (auto simp: keeps_dir_def dest: assms(2) [unfolded keeps_dir_def])

text \<open>With no other client at work, the root is untouched and nothing else is lost.\<close>

lemma prepares_alone:
  assumes "prepares W L topic part (=) m m'"
  shows "m' (manifest_path W L topic part) = m (manifest_path W L topic part)" "m \<subseteq>\<^sub>m m'"
proof -
  show "m' (manifest_path W L topic part) = m (manifest_path W L topic part)"
    by (rule prepares_keep [OF assms]) (auto simp: own_name_def)
  show "m \<subseteq>\<^sub>m m'"
    by (rule prepares_keep [OF assms]) (auto intro: map_le_trans simp: map_le_def dom_def)
qed

section \<open>Operations that prepare\<close>

definition prepared where
  "prepared W L topic part view rely s t \<longleftrightarrow> prepares W L topic part rely (view s) (view t)"

lemma prepared_reflp: "reflp (prepared W L topic part view rely)"
  by (simp add: reflp_def prepared_def prepares.still)

lemma prepared_transp: "transp (prepared W L topic part view rely)"
  unfolding transp_def prepared_def by (blast intro: prepares_trans)

lemma preparesI:
  assumes "io_keeps (prepared W L topic part view rely) m" "m s = (x, t)"
  shows "prepares W L topic part rely (view s) (view t)"
  using io_keepsE [OF assms prepared_reflp prepared_transp] by (simp add: prepared_def)

lemma prepared_creates:
  assumes laws: "store_laws E view rely" and names: "name_laws E L topic part" "metadata_named E L topic"
  shows "creates_at (own_name E L topic part) (prepared E L topic part view rely) E L topic part"
proof -
  let ?R = "prepared E L topic part view rely"
  have step: "?R s t" "?R\<^sup>*\<^sup>* s t" if "rely (view s) (view t)" for s t
  proof -
    show "?R s t" unfolding prepared_def using that by (rule prepares_rely)
    then show "?R\<^sup>*\<^sup>* s t" by (rule r_into_rtranclp)
  qed
  have "io_keeps ?R (w_get E p)" "io_keeps ?R (w_head E p)" "io_keeps ?R (w_list_prefixes E p)" for p
    by (rule io_keeps_single, rule step(1), drule store_laws_get [OF laws] store_laws_head [OF laws] store_laws_calls(2) [OF laws],
      simp)+
  moreover have "?R\<^sup>*\<^sup>* s t" if "w_list E p s = (xs, t)" for p s xs t
    by (rule step(2) [OF store_laws_calls(1) [OF laws that]])
  moreover have "?R\<^sup>*\<^sup>* s t" if "w_unix_millis E s = (n, t)" for s n t
    by (rule step(2) [OF store_laws_calls(4) [OF laws that]])
  ultimately have reads: "reads_keep ?R E" unfolding reads_keep_def by blast
  have put: "?R s t" if p: "own_name E L topic part p" and w: "w_put E p b Create s = (r, t)" for p b s r t
  proof -
    from store_laws_put [OF laws w] obtain u where u: "rely (view s) (view u)" "put_outcome p b Create r (view u) (view t)" by blast
    then have "view t = view u \<or> (view u) p = None \<and> (\<exists>v. view t = (view u)(p \<mapsto> (v, b)))"
      by (auto simp: put_outcome_def put_allowed_def split: sum.splits store_error.splits)
    moreover have su: "prepares E L topic part rely (view s) (view u)" using u(1) by (rule prepares_rely)
    ultimately show ?thesis using prepares.creates [OF su p] unfolding prepared_def by auto
  qed
  have draw: "?R\<^sup>*\<^sup>* s t" if "w_new_uuid E s = (x, t)" for s x t
    by (rule step(2) [OF store_laws_calls(3) [OF laws that]])
  show ?thesis
    unfolding creates_at_def
    using reads own_names [OF names] by (auto intro!: io_keeps_single draw intro: put)
qed

end
