(* ===== verification/Log_Index_Laws.thy ===== *)
theory Log_Index_Laws
  imports Log_Index
begin

text \<open>
  What the offset index promises. Index pages implement the \<open>page_store\<close> interface; on top
  of it, inserting a leaf appends its segments to those the tree denotes, a rebuilt tree
  denotes exactly the retained segments, the complete trace returns all of them, and the
  bounded traversal of a fetch selects what a scan of all segments would select.
\<close>

section \<open>Index pages as a page store\<close>

fun page_kids :: "page \<Rightarrow> page_ref list" where
  "page_kids (Leaf sgs) = []"
| "page_kids (Branch cs) = cs"

fun page_items :: "page \<Rightarrow> segment list" where
  "page_items (Leaf sgs) = sgs"
| "page_items (Branch cs) = []"

fun index_writable :: "page \<Rightarrow> bool" where
  "index_writable (Leaf sgs) \<longleftrightarrow> length sgs = PAGE_ENTRIES"
| "index_writable (Branch cs) \<longleftrightarrow> True"

text \<open>The engine writes into a lawful bucket in which index pages are never replaced.\<close>

definition index_legal ::
  "('s, 'm) log_env_scheme \<Rightarrow> engine \<Rightarrow> string \<Rightarrow> int \<Rightarrow> ('s \<Rightarrow> objects) \<Rightarrow> (objects \<Rightarrow> objects \<Rightarrow> bool) \<Rightarrow> bool" where
  "index_legal E L topic part view rely \<longleftrightarrow>
     store_laws E view rely \<and> name_laws E L topic part \<and> page_json_laws E
   \<and> (\<forall>m m'. rely m m' \<longrightarrow> keeps_dir (engine_dir L topic part) m m')"

definition index_stored ::
  "('s, 'm) log_env_scheme \<Rightarrow> engine \<Rightarrow> string \<Rightarrow> int \<Rightarrow> objects \<Rightarrow> page_ref \<Rightarrow> page \<Rightarrow> bool" where
  "index_stored E L topic part m r p \<longleftrightarrow>
     validate_page_ref (w_uuid_ok E) r (en_prefix L) topic part = Inr ()
   \<and> w_path_from E (pr_object r) = pr_object r
   \<and> (\<exists>v b. m (pr_object r) = Some (v, b) \<and> length b = pr_byte_length r
        \<and> w_sha256_hex E b = pr_sha256 r \<and> decode_page E L topic part r b = Inr p)"

abbreviation index_holds ::
  "('s, 'm) log_env_scheme \<Rightarrow> engine \<Rightarrow> string \<Rightarrow> int \<Rightarrow> objects \<Rightarrow> page_ref \<Rightarrow> segment list \<Rightarrow> bool" where
  "index_holds E L topic part m \<equiv> denotes (index_stored E L topic part m) page_kids page_items"

lemma page_name_ok_prefix: "page_name_ok ok ns suf object \<Longrightarrow> starts_with ns object"
  by (auto simp: page_name_ok_def starts_with_def split: option.splits)

lemma starts_with_append: "starts_with (a @ b) x \<Longrightarrow> starts_with a x"
  by (auto simp: starts_with_iff)

lemma valid_ref_in_dir:
  "validate_page_ref ok r (en_prefix L) topic part = Inr () \<Longrightarrow>
   immutable_name (engine_dir L topic part) (pr_object r)"
  by (auto simp: validate_page_ref_def engine_dir_def immutable_name_def Let_def split: if_splits
      dest!: page_name_ok_prefix)

lemma index_stored_later:
  "index_stored E L topic part m r p \<Longrightarrow> keeps_dir (engine_dir L topic part) m m' \<Longrightarrow>
   index_stored E L topic part m' r p"
  unfolding index_stored_def by (auto dest: valid_ref_in_dir keeps_dir_SomeD)

lemma index_stored_unique:
  "index_stored E L topic part m r p \<Longrightarrow> index_stored E L topic part m r q \<Longrightarrow> p = q"
  unfolding index_stored_def by auto

lemma legalD:
  assumes "index_legal E L topic part view rely"
  shows "store_laws E view rely" "name_laws E L topic part" "page_json_laws E"
    "rely m m' \<Longrightarrow> keeps_dir (engine_dir L topic part) m m'"
  using assms by (auto simp: index_legal_def)

lemma write_page_keeps:
  assumes "index_legal E L topic part view rely"
  shows "io_keeps (dir_kept view (engine_dir L topic part)) (write_page E L topic part p)"
  unfolding write_page_def
  by (intro io_keeps_rules dir_kept_calls [OF legalD(1) [OF assms] legalD(4) [OF assms]])

lemma read_page_keeps:
  assumes "index_legal E L topic part view rely"
  shows "io_keeps (dir_kept view (engine_dir L topic part)) (read_page E L topic part r)"
  unfolding read_page_def
  by (intro io_keeps_rules dir_kept_calls [OF legalD(1) [OF assms] legalD(4) [OF assms]])

lemma decode_written_page:
  assumes json: "page_json_laws E" and vec: "le_page_to_vec E p = Inr b" and writable: "index_writable p"
    and bounds: "page_write_bounds (w_uuid_ok E) L topic part p = Inr (f, n, c, l)"
    and r: "pr_first_offset r = f" "pr_next_offset r = n" "pr_segment_count r = c" "pr_level r = l"
  shows "decode_page E L topic part r b = Inr p"
proof (cases p)
  case (Leaf sgs)
  have "entries (json_seq_of sgs) = Inr sgs" using writable Leaf by (simp add: entries_def)
  then have "le_page_from_slice E entries entries b = Inr p"
    using json vec Leaf by (auto simp: page_json_laws_def dest!: spec [of _ p])
  then show ?thesis using bounds r writable Leaf
    by (auto simp: decode_page_def page_write_bounds_def result_simps split: list.splits)
next
  case (Branch cs)
  have "length cs \<le> PAGE_ENTRIES"
    using bounds Branch by (auto simp: page_write_bounds_def dest: validate_children_Inr)
  then have "entries (json_seq_of cs) = Inr cs" by (simp add: entries_def)
  then have "le_page_from_slice E entries entries b = Inr p"
    using json vec Branch by (auto simp: page_json_laws_def dest!: spec [of _ p])
  then show ?thesis using bounds r Branch
    by (auto simp: decode_page_def page_write_bounds_def result_simps)
qed

lemma write_page_stored:
  assumes legal: "index_legal E L topic part view rely" and "index_writable p"
    and run: "write_page E L topic part p s = (Inr r, t)"
  shows "index_stored E L topic part (view t) r p"
proof -
  from run obtain f n c l b u s1 v where
    bounds: "page_write_bounds (w_uuid_ok E) L topic part p = Inr (f, n, c, l)"
    and vec: "le_page_to_vec E p = Inr b" and u: "w_new_uuid E s = (u, s1)"
    and r: "r = \<lparr>pr_object = w_path_from E (engine_dir L topic part @ ''index/'' @ u @ ''.json''),
         pr_first_offset = f, pr_next_offset = n, pr_segment_count = c, pr_level = l,
         pr_byte_length = length b, pr_sha256 = w_sha256_hex E b\<rparr>"
    and valid: "validate_page_ref (w_uuid_ok E) r (en_prefix L) topic part = Inr ()"
    and put: "w_put E (pr_object r) b Create s1 = (Inr v, t)"
    by (auto simp: write_page_def result_simps Let_def split: if_splits)
  have "w_path_from E (engine_dir L topic part @ ''index/'' @ u @ ''.json'')
      = engine_dir L topic part @ ''index/'' @ u @ ''.json''"
    using legalD(2) [OF legal] u by (auto simp: name_laws_def Let_def dest!: spec [of _ s])
  then have "w_path_from E (pr_object r) = pr_object r" by (simp add: r)
  moreover have "view t (pr_object r) = Some (v, b)"
    using create_Inr [OF legalD(1) [OF legal] put] .
  moreover have "decode_page E L topic part r b = Inr p"
    by (rule decode_written_page [OF legalD(3) [OF legal] vec assms(2) bounds]) (simp_all add: r)
  ultimately show ?thesis using valid by (simp add: index_stored_def r)
qed

lemma read_page_stored:
  assumes legal: "index_legal E L topic part view rely"
    and run: "read_page E L topic part r s = (Inr p, t)"
    and stored: "index_stored E L topic part (view s) r q"
  shows "p = q"
proof -
  from run obtain b where "read_exact E (w_path_from E (pr_object r)) (pr_byte_length r) (pr_sha256 r)
      (invalid ''index page length mismatch'') (invalid ''index page body exceeds reference length'')
      (invalid ''index page length or checksum mismatch'') s = (Inr b, t)"
    and p: "decode_page E L topic part r b = Inr p"
    by (auto simp: read_page_def result_simps)
  from read_exact_Inr [OF legalD(1) [OF legal] this(1)] stored obtain v where
    "rely (view s) (view t)" "view t (pr_object r) = Some (v, b)"
    by (auto simp: index_stored_def)
  moreover from this(1) have "index_stored E L topic part (view t) r q"
    by (rule index_stored_later [OF stored legalD(4) [OF legal]])
  ultimately show ?thesis using p by (auto simp: index_stored_def)
qed

interpretation ix: page_store
  "index_legal E L topic part view rely" view "keeps_dir (engine_dir L topic part)"
  "index_stored E L topic part" index_writable "write_page E L topic part" "read_page E L topic part"
  page_kids page_items
  for E :: "('s, 'm) log_env_scheme" and L topic part view rely
proof unfold_locales
  fix s t x and p :: page
  assume "index_legal E L topic part view rely" "write_page E L topic part p s = (x, t)"
  from io_keepsE [OF write_page_keeps [OF this(1)] this(2) dir_kept_reflp dir_kept_transp]
  show "keeps_dir (engine_dir L topic part) (view s) (view t)" by (simp add: dir_kept_def)
next
  fix s t y r
  assume "index_legal E L topic part view rely" "read_page E L topic part r s = (y, t)"
  from io_keepsE [OF read_page_keeps [OF this(1)] this(2) dir_kept_reflp dir_kept_transp]
  show "keeps_dir (engine_dir L topic part) (view s) (view t)" by (simp add: dir_kept_def)
qed (auto intro: keeps_dir_trans index_stored_later index_stored_unique write_page_stored
  read_page_stored)

section \<open>Adding a leaf\<close>

lemma index_path_holds:
  assumes legal: "index_legal E L topic part view rely"
    and run: "index_path E L topic part leaf level s = (Inr r, t)"
    and leaf: "index_holds E L topic part (view s) leaf ys"
  shows "index_holds E L topic part (view t) r ys \<and> keeps_dir (engine_dir L topic part) (view s) (view t)"
  using run leaf
proof (induction "level - pr_level leaf" arbitrary: leaf s rule: less_induct)
  case less
  show ?case
  proof (cases "pr_level leaf < level")
    case True
    with less.prems obtain leaf' u where
      w: "write_page E L topic part (Branch [leaf]) s = (Inr leaf', u)"
      and rest: "index_path E L topic part leaf' level u = (Inr r, t)"
      by (auto simp: index_path.simps [of E L topic part leaf level s] split: prod.splits sum.splits)
    have "index_holds E L topic part (view u) leaf' (page_items (Branch [leaf]) @ concat [ys])"
      by (rule ix.write_holds [OF legal _ w]) (use less.prems in simp_all)
    moreover have "level - pr_level leaf' < level - pr_level leaf"
      using write_page_Branch_level [OF w] True by simp
    ultimately show ?thesis
      using less.hyps [OF _ rest] ix.write_later [OF legal w] by (auto intro: keeps_dir_trans)
  next
    case False
    with less.prems show ?thesis by (simp add: index_path.simps [of E L topic part leaf level s])
  qed
qed

lemma list_all2_last:
  "list_all2 P cs xss \<Longrightarrow> cs \<noteq> [] \<Longrightarrow>
   \<exists>yss ys. xss = yss @ [ys] \<and> list_all2 P (butlast cs) yss \<and> P (last cs) ys"
  by (cases cs rule: rev_cases) (auto simp: list_all2_append1 list_all2_Cons1)

lemma insert_leaf_holds:
  assumes legal: "index_legal E L topic part view rely"
    and run: "insert_leaf E L topic part tree leaf s = (Inr r, t)"
    and "index_holds E L topic part (view s) tree xs" "index_holds E L topic part (view s) leaf ys"
  shows "index_holds E L topic part (view t) r (xs @ ys) \<and> keeps_dir (engine_dir L topic part) (view s) (view t)"
  using run assms(3,4)
proof (induction "pr_level tree" arbitrary: tree s xs r t rule: less_induct)
  case less
  let ?holds = "\<lambda>s. index_holds E L topic part (view s)"
  let ?keeps = "\<lambda>s t. keeps_dir (engine_dir L topic part) (view s) (view t)"
  note trans = keeps_dir_trans [of "engine_dir L topic part"]
  have branch: "?holds v r' (concat yss) \<and> ?keeps u v"
    if "write_page E L topic part (Branch cs) u = (Inr r', v)" "list_all2 (?holds u) cs yss" for cs yss u v r'
    using ix.write_holds [OF legal _ that(1), of yss] ix.write_later [OF legal that(1)] that(2) by simp
  show ?case
  proof (cases "full tree")
    case True
    with less.prems(1) obtain right u where
      path: "index_path E L topic part leaf (pr_level tree) s = (Inr right, u)"
      and w: "write_page E L topic part (Branch [tree, right]) u = (Inr r, t)"
      by (auto simp: insert_leaf.simps [of E L topic part tree leaf s] result_simps split: if_splits)
    from index_path_holds [OF legal path less.prems(3)]
    have p: "?holds u right ys" "?keeps s u" by auto
    from branch [OF w, of "[xs, ys]"] p ix.holds_later [OF less.prems(2) p(2)] show ?thesis
      by (auto intro: trans)
  next
    case False
    with less.prems(1) obtain cs u where
      get: "read_page E L topic part tree s = (Inr (Branch cs), u)" and "cs \<noteq> []"
      and rest: "(if full (last cs)
         then io_bind (index_path E L topic part leaf (pr_level (last cs))) (\<lambda>right.
                write_page E L topic part (Branch (butlast cs @ [last cs, right]))) u
         else (case insert_leaf E L topic part (last cs) leaf u of
                 (Inl e, u) \<Rightarrow> (Inl e, u)
               | (Inr child, u) \<Rightarrow> write_page E L topic part (Branch (butlast cs @ [child])) u)) = (Inr r, t)"
      by (auto simp: insert_leaf.simps [of E L topic part tree leaf s] split: prod.splits sum.splits page.splits if_splits)
    from ix.read_holds [OF legal get less.prems(2)] obtain xss where
      xs: "xs = concat xss" and kids: "list_all2 (?holds u) cs xss" by auto
    have su: "?keeps s u" by (rule ix.read_later [OF legal get])
    from list_all2_last [OF kids \<open>cs \<noteq> []\<close>] obtain yss zs where
      xss: "xss = yss @ [zs]" "list_all2 (?holds u) (butlast cs) yss" "?holds u (last cs) zs" by blast
    have leaf: "?holds u leaf ys" by (rule ix.holds_later [OF less.prems(3) su])
    show ?thesis
    proof (cases "full (last cs)")
      case True
      with rest obtain right v where
        path: "index_path E L topic part leaf (pr_level (last cs)) u = (Inr right, v)"
        and w: "write_page E L topic part (Branch (butlast cs @ [last cs, right])) v = (Inr r, t)"
        by (auto simp: result_simps)
      from index_path_holds [OF legal path leaf] have p: "?holds v right ys" "?keeps u v" by auto
      have "list_all2 (?holds v) (butlast cs @ [last cs, right]) (yss @ [zs, ys])"
        using ix.holds_all_later [OF xss(2) p(2)] ix.holds_later [OF xss(3) p(2)] p(1)
        by (auto intro!: list_all2_appendI)
      from branch [OF w this] xs xss(1) p(2) su show ?thesis by (auto intro: trans)
    next
      case False
      with rest obtain child v where
        ins: "insert_leaf E L topic part (last cs) leaf u = (Inr child, v)"
        and w: "write_page E L topic part (Branch (butlast cs @ [child])) v = (Inr r, t)"
        by (auto split: prod.splits sum.splits)
      from less.hyps [OF read_page_Branch_last [OF get] ins xss(3) leaf]
      have p: "?holds v child (zs @ ys)" "?keeps u v" by auto
      have "list_all2 (?holds v) (butlast cs @ [child]) (yss @ [zs @ ys])"
        using ix.holds_all_later [OF xss(2) p(2)] p(1) by (auto intro!: list_all2_appendI)
      from branch [OF w this] xs xss(1) p(2) su show ?thesis by (auto intro: trans)
    qed
  qed
qed

section \<open>Roots\<close>

text \<open>The segments a root denotes: those of its tree, then its tail.\<close>

definition root_holds ::
  "('s, 'm) log_env_scheme \<Rightarrow> engine \<Rightarrow> string \<Rightarrow> int \<Rightarrow> objects \<Rightarrow> root \<Rightarrow> segment list \<Rightarrow> bool" where
  "root_holds E L topic part m root xs \<longleftrightarrow>
     (case rt_tree root of
        None \<Rightarrow> xs = rt_tail root
      | Some tree \<Rightarrow> \<exists>ys. index_holds E L topic part m tree ys \<and> xs = ys @ rt_tail root)"

lemma root_holds_later:
  "root_holds E L topic part m root xs \<Longrightarrow> keeps_dir (engine_dir L topic part) m m' \<Longrightarrow>
   root_holds E L topic part m' root xs"
  by (auto simp: root_holds_def split: option.splits intro: ix.holds_later)

lemma root_holds_push:
  "root_holds E L topic part m root xs \<Longrightarrow>
   root_holds E L topic part m (root\<lparr>rt_tail := rt_tail root @ sgs\<rparr>) (xs @ sgs)"
  by (auto simp: root_holds_def split: option.splits)

lemma seal_tail_fields:
  "seal_tail E L topic part root s = (Inr root', t) \<Longrightarrow>
   rt_tail root' = [] \<and> (\<exists>tree. root' = root\<lparr>rt_tree := Some tree, rt_tail := []\<rparr>)"
  by (auto simp: seal_tail_def result_simps)

lemma seal_tail_holds:
  assumes legal: "index_legal E L topic part view rely"
    and run: "seal_tail E L topic part root s = (Inr root', t)"
    and full: "length (rt_tail root) = PAGE_ENTRIES"
    and root: "root_holds E L topic part (view s) root xs"
  shows "root_holds E L topic part (view t) root' xs \<and> keeps_dir (engine_dir L topic part) (view s) (view t)"
proof -
  from run obtain leaf u tree where
    w: "write_page E L topic part (Leaf (rt_tail root)) s = (Inr leaf, u)"
    and ins: "(case rt_tree root of Some tree \<Rightarrow> insert_leaf E L topic part tree leaf | None \<Rightarrow> io_ret leaf) u = (Inr tree, t)"
    and root': "root' = root\<lparr>rt_tree := Some tree, rt_tail := []\<rparr>"
    by (auto simp: seal_tail_def result_simps)
  have leaf: "index_holds E L topic part (view u) leaf (rt_tail root)"
    using ix.write_holds [OF legal _ w, of "[]"] full by simp
  have su: "keeps_dir (engine_dir L topic part) (view s) (view u)" by (rule ix.write_later [OF legal w])
  show ?thesis
  proof (cases "rt_tree root")
    case None
    with ins root leaf su root' show ?thesis by (simp add: root_holds_def)
  next
    case (Some old)
    with root obtain ys where ys: "index_holds E L topic part (view s) old ys" "xs = ys @ rt_tail root"
      by (auto simp: root_holds_def)
    have "insert_leaf E L topic part old leaf u = (Inr tree, t)" using ins Some by simp
    from insert_leaf_holds [OF legal this ix.holds_later [OF ys(1) su] leaf] ys(2) root' su
    show ?thesis by (auto simp: root_holds_def intro: keeps_dir_trans)
  qed
qed

lemma migrate_segments_holds:
  assumes legal: "index_legal E L topic part view rely"
    and run: "migrate_segments E L topic part root sgs s = (Inr root', t)"
    and root: "root_holds E L topic part (view s) root xs"
  shows "root_holds E L topic part (view t) root' (xs @ sgs) \<and> keeps_dir (engine_dir L topic part) (view s) (view t)
    \<and> root'\<lparr>rt_tree := None, rt_tail := []\<rparr> = root\<lparr>rt_tree := None, rt_tail := []\<rparr>"
  using run root
proof (induction sgs arbitrary: root s xs)
  case Nil
  then show ?case by simp
next
  case (Cons sg sgs)
  from Cons.prems(1) obtain mid u where
    mid: "(if length (rt_tail root) = PAGE_ENTRIES then seal_tail E L topic part root else io_ret root) s = (Inr mid, u)"
    and rest: "migrate_segments E L topic part (mid\<lparr>rt_tail := rt_tail mid @ [sg]\<rparr>) sgs u = (Inr root', t)"
    by (auto simp: result_simps)
  have m: "root_holds E L topic part (view u) mid xs \<and> keeps_dir (engine_dir L topic part) (view s) (view u)
    \<and> mid\<lparr>rt_tree := None, rt_tail := []\<rparr> = root\<lparr>rt_tree := None, rt_tail := []\<rparr>"
  proof (cases "length (rt_tail root) = PAGE_ENTRIES")
    case True
    with mid have "seal_tail E L topic part root s = (Inr mid, u)" by simp
    from seal_tail_holds [OF legal this True Cons.prems(2)] seal_tail_fields [OF this] show ?thesis by auto
  next
    case False
    with mid Cons.prems(2) show ?thesis by simp
  qed
  then have "root_holds E L topic part (view u) (mid\<lparr>rt_tail := rt_tail mid @ [sg]\<rparr>) (xs @ [sg])"
    by (blast intro: root_holds_push)
  from Cons.IH [OF rest this] m show ?case by (auto intro: keeps_dir_trans)
qed

lemma migrate_manifest_holds:
  assumes legal: "index_legal E L topic part view rely"
    and run: "migrate_manifest E L topic part legacy now s = (Inr root, t)"
  shows "root_holds E L topic part (view t) root (mf_segments legacy)
    \<and> keeps_dir (engine_dir L topic part) (view s) (view t)
    \<and> rt_revision root = mf_revision legacy \<and> rt_next_offset root = mf_next_offset legacy
    \<and> rt_start_offset root = 0 \<and> rt_schema root = INDEX_SCHEMA \<and> rt_adopted_at_ms root = Some now
    \<and> rt_producers root = None"
proof -
  let ?r0 = "root_default\<lparr>rt_adopted_at_ms := Some now\<rparr>"
  from run obtain r where
    m: "migrate_segments E L topic part ?r0 (mf_segments legacy) s = (Inr r, t)"
    and root: "root = r\<lparr>rt_revision := mf_revision legacy, rt_next_offset := mf_next_offset legacy\<rparr>"
    by (auto simp: migrate_manifest_def result_simps)
  have "root_holds E L topic part (view s) ?r0 []" by (simp add: root_holds_def root_default_def)
  note holds = migrate_segments_holds [OF legal m this]
  have "rt_start_offset r = 0 \<and> rt_schema r = INDEX_SCHEMA \<and> rt_adopted_at_ms r = Some now \<and> rt_producers r = None"
    using holds by (cases r) (simp add: root_default_def)
  with holds root show ?thesis by (simp add: root_holds_def split: option.splits)
qed

section \<open>Rebuilding\<close>

lemma io_map_comp: "io_map (\<lambda>x. f (g x)) xs = io_map f (map g xs)"
  by (induction xs) auto

lemma io_map_leaves:
  assumes legal: "index_legal E L topic part view rely"
    and run: "io_map (\<lambda>chunk. write_page E L topic part (Leaf chunk)) css s = (Inr rs, t)"
    and full: "\<forall>c \<in> set css. length c = PAGE_ENTRIES"
  shows "list_all2 (index_holds E L topic part (view t)) rs css \<and> keeps_dir (engine_dir L topic part) (view s) (view t)"
  by (rule ix.put_all_holds [OF legal run [unfolded io_map_comp [where g = Leaf]]])
    (use full in \<open>auto simp: list_all2_map1 list_all2_same denoted_def\<close>)

lemma io_map_branches:
  assumes legal: "index_legal E L topic part view rely"
    and run: "io_map (\<lambda>children. write_page E L topic part (Branch children)) css s = (Inr rs, t)"
    and kids: "list_all2 (list_all2 (index_holds E L topic part (view s))) css xsss"
  shows "list_all2 (index_holds E L topic part (view t)) rs (map concat xsss)
    \<and> keeps_dir (engine_dir L topic part) (view s) (view t)"
  by (rule ix.put_all_holds [OF legal run [unfolded io_map_comp [where g = Branch]]])
    (use kids in \<open>auto simp: list_all2_map1 list_all2_map2 denoted_def elim: list_all2_mono\<close>)

lemma chunks_list_all2:
  "0 < n \<Longrightarrow> list_all2 P xs ys \<Longrightarrow> list_all2 (list_all2 P) (chunks n xs) (chunks n ys)"
proof (induction n xs arbitrary: ys rule: chunks.induct)
  case (1 n xs)
  show ?case
  proof (cases "xs = []")
    case False
    with 1(3) have "ys \<noteq> []" by auto
    moreover have "list_all2 P (take n xs) (take n ys)" "list_all2 P (drop n xs) (drop n ys)"
      using 1(3) by (auto intro: list_all2_takeI list_all2_dropI)
    ultimately show ?thesis using False 1(1) [OF _ 1(2)] 1(2)
      by (simp add: chunks.simps [of n xs] chunks.simps [of n ys])
  qed (use 1(3) in simp)
qed

lemma build_levels_holds:
  assumes legal: "index_legal E L topic part view rely"
    and run: "build_levels E L topic part pages s = (Inr rs, t)"
    and kids: "list_all2 (index_holds E L topic part (view s)) pages xss"
  shows "(\<exists>yss. list_all2 (index_holds E L topic part (view t)) rs yss \<and> concat yss = concat xss)
    \<and> length rs = min 1 (length pages) \<and> keeps_dir (engine_dir L topic part) (view s) (view t)"
  using run kids
proof (induction "length pages" arbitrary: pages s xss rule: less_induct)
  case less
  show ?case
  proof (cases "length pages > 1")
    case True
    with less.prems(1) obtain parents u where
      m: "io_map (\<lambda>children. write_page E L topic part (Branch children)) (chunks PAGE_ENTRIES pages) s = (Inr parents, u)"
      and rest: "build_levels E L topic part parents u = (Inr rs, t)"
      by (auto simp: build_levels.simps [of E L topic part pages s] split: prod.splits sum.splits)
    have "list_all2 (list_all2 (index_holds E L topic part (view s))) (chunks PAGE_ENTRIES pages) (chunks PAGE_ENTRIES xss)"
      using less.prems(2) by (auto intro: chunks_list_all2 simp: PAGE_ENTRIES_def)
    from io_map_branches [OF legal m this] have
      p: "list_all2 (index_holds E L topic part (view u)) parents (map concat (chunks PAGE_ENTRIES xss))"
        "keeps_dir (engine_dir L topic part) (view s) (view u)" by auto
    have len: "length parents = length (chunks PAGE_ENTRIES pages)" using io_map_length [OF m] .
    then have "length parents < length pages" "parents \<noteq> []"
      using chunks_64_shorter [OF True] True by (auto simp: chunks.simps [of _ pages] PAGE_ENTRIES_def)
    have "concat (map concat zs) = concat (concat zs)" for zs :: "segment list list list"
      by (induction zs) auto
    then have cc: "concat (map concat (chunks PAGE_ENTRIES xss)) = concat xss"
      by (simp add: PAGE_ENTRIES_def)
    from less.hyps [OF \<open>length parents < length pages\<close> rest p(1)] cc p(2) True \<open>parents \<noteq> []\<close>
    show ?thesis by (auto intro: keeps_dir_trans simp: min_def Suc_le_eq)
  next
    case False
    with less.prems show ?thesis
      by (auto simp: build_levels.simps [of E L topic part pages s] min_def)
  qed
qed

lemma chunks_full:
  "0 < n \<Longrightarrow> n dvd length xs \<Longrightarrow> \<forall>c \<in> set (chunks n xs). length c = n"
proof (induction n xs rule: chunks.induct)
  case (1 n xs)
  show ?case
  proof (cases "xs = []")
    case False
    have le: "n \<le> length xs" using 1(3) False by (simp add: dvd_imp_le)
    have d: "n dvd length (drop n xs)" unfolding length_drop by (rule dvd_diff_nat [OF 1(3) dvd_refl])
    have "\<not> (xs = [] \<or> n = 0)" using False 1(2) by simp
    from 1(1) [OF this 1(2) d] have "\<forall>c \<in> set (chunks n (drop n xs)). length c = n" .
    moreover have "chunks n xs = take n xs # chunks n (drop n xs)"
      using False 1(2) by (subst chunks.simps) simp
    moreover have "length (take n xs) = n" using le by simp
    ultimately show ?thesis by (simp only: list.set(2) ball_simps)
  qed simp
qed

lemma rebuild_index_holds:
  assumes legal: "index_legal E L topic part view rely"
    and run: "rebuild_index E L topic part sgs start nxt maximum s = (Inr root, t)"
  shows "root_holds E L topic part (view t) root sgs \<and> keeps_dir (engine_dir L topic part) (view s) (view t)
    \<and> length (rt_tail root) \<le> PAGE_ENTRIES \<and> rt_start_offset root = start \<and> rt_next_offset root = nxt"
proof -
  define k where "k = (length sgs - 1) div PAGE_ENTRIES * PAGE_ENTRIES"
  from run [unfolded rebuild_index_def Let_def, folded k_def] obtain leaves pages v where
    m: "io_map (\<lambda>chunk. write_page E L topic part (Leaf chunk)) (chunks PAGE_ENTRIES (take k sgs)) s = (Inr leaves, v)"
    and b: "build_levels E L topic part leaves v = (Inr pages, t)"
    and root: "root = root_default\<lparr>rt_start_offset := start, rt_next_offset := nxt,
      rt_tree := (if pages = [] then None else Some (last pages)), rt_tail := drop k sgs\<rparr>"
    by (auto simp: result_simps split: if_splits)
  have le: "k \<le> length sgs" unfolding k_def
    by (meson diff_le_self div_times_less_eq_dividend le_trans)
  have full: "\<forall>c \<in> set (chunks PAGE_ENTRIES (take k sgs)). length c = PAGE_ENTRIES"
    by (rule chunks_full) (use le in \<open>simp_all add: PAGE_ENTRIES_def k_def min_absorb2\<close>)
  from io_map_leaves [OF legal m full] have
    l: "list_all2 (index_holds E L topic part (view v)) leaves (chunks PAGE_ENTRIES (take k sgs))"
      "keeps_dir (engine_dir L topic part) (view s) (view v)" by auto
  from build_levels_holds [OF legal b l(1)] obtain yss where
    y: "list_all2 (index_holds E L topic part (view t)) pages yss" "concat yss = take k sgs"
      "length pages = min 1 (length leaves)" "keeps_dir (engine_dir L topic part) (view v) (view t)"
    by (auto simp: PAGE_ENTRIES_def)
  have "root_holds E L topic part (view t) root sgs"
  proof (cases pages)
    case Nil
    with y have "take k sgs = []" by simp
    then have "drop k sgs = sgs" by (metis append_Nil append_take_drop_id)
    with Nil root show ?thesis by (simp add: root_holds_def)
  next
    case (Cons r rs)
    with y(3) have "rs = []" by (cases rs) auto
    with Cons y(1,2) obtain ys where "index_holds E L topic part (view t) r ys" "ys = take k sgs"
      by (auto simp: list_all2_Cons1)
    with Cons \<open>rs = []\<close> root show ?thesis by (auto simp: root_holds_def)
  qed
  moreover have "length sgs - k \<le> PAGE_ENTRIES"
  proof -
    have "length sgs - 1 < k + PAGE_ENTRIES"
      unfolding k_def using dividend_less_div_times [of PAGE_ENTRIES "length sgs - 1"] by (simp add: PAGE_ENTRIES_def add.commute)
    then show ?thesis by simp
  qed
  ultimately show ?thesis using root l(2) y(4) by (auto intro: keeps_dir_trans)
qed

section \<open>Ranges\<close>

text \<open>
  A checked reference describes its segments: they tile its offset range, are as many as it
  says, and each passes the descriptor check.
\<close>

lemma validate_segments_tiles:
  "validate_segments_from p start objs sgs = Inr next_offset \<Longrightarrow>
   tiles start sgs next_offset \<and> (\<forall>sg \<in> set sgs. segment_ok p sg \<and> in_i64 (segment_end sg) \<and> in_i64 (segment_end sg - 1))"
proof (induction p start objs sgs rule: validate_segments_from.induct)
  case (2 p start objs sg sgs)
  have last: "last_offset sg = Inr l \<longleftrightarrow> l = segment_end sg - 1 \<and> in_i64 (segment_end sg - 1)" for l
    by (auto simp: last_offset_def segment_end_def algebra_simps)
  from "2.prems" have ok: "sg_base_offset sg = start" "segment_ok p sg" "sg_object sg \<notin> objs" "in_i64 (segment_end sg - 1)" "in_i64 (segment_end sg)"
    and rest: "validate_segments_from p (segment_end sg) (insert (sg_object sg) objs) sgs = Inr next_offset"
    by (simp_all add: result_simps segment_ok_def last split: if_splits)
  have IH: "validate_segments_from p (segment_end sg) (insert (sg_object sg) objs) sgs = Inr next_offset \<Longrightarrow>
     tiles (segment_end sg) sgs next_offset \<and>
     (\<forall>sg \<in> set sgs. segment_ok p sg \<and> in_i64 (segment_end sg) \<and> in_i64 (segment_end sg - 1))"
    by (rule "2.IH" [where x = "segment_end sg - 1"]) (use ok last in \<open>simp_all add: segment_ok_def\<close>)
  from IH [OF rest] ok show ?case by simp
qed simp

definition ranged :: "page_ref \<Rightarrow> segment list \<Rightarrow> bool" where
  "ranged r xs \<longleftrightarrow> tiles (pr_first_offset r) xs (pr_next_offset r) \<and> length xs = pr_segment_count r
     \<and> (\<forall>sg \<in> set xs. in_i64 (segment_end sg) \<and> in_i64 (segment_end sg - 1)
          \<and> 0 < sg_record_count sg \<and> sg_byte_length sg \<le> MAX_BATCH_BYTES)"

lemma validate_children_from_ranged:
  "validate_children_from ok prefix topic part level n c objs cs = Inr (n', c') \<Longrightarrow>
   list_all2 ranged cs xss \<Longrightarrow>
   tiles n (concat xss) n' \<and> c' = c + length (concat xss)"
proof (induction ok prefix topic part level n c objs cs arbitrary: xss rule: validate_children_from.induct)
  case (2 ok prefix topic part level n c objs child children)
  from "2.prems"(2) obtain xs xss' where xss: "xss = xs # xss'" "ranged child xs" "list_all2 ranged children xss'"
    by (auto simp: list_all2_Cons1)
  from "2.prems"(1) have first: "pr_first_offset child = n"
    and rest: "validate_children_from ok prefix topic part level (pr_next_offset child) (c + pr_segment_count child)
      (insert (pr_object child) objs) children = Inr (n', c')"
    and cond: "validate_page_ref ok child prefix topic part = Inr ()" "c + pr_segment_count child \<le> u64_max"
      "\<not> (pr_first_offset child \<noteq> n \<or> pr_level child \<noteq> level \<or> pr_object child \<in> objs
          \<or> (children \<noteq> [] \<and> \<not> full child))"
    by (auto simp: result_simps split: if_splits)
  have "ok_or (checked_add_u64 c (pr_segment_count child)) OffsetOverflow = Inr (c + pr_segment_count child)"
    using cond(2) by simp
  from "2.IH" [OF cond(1) cond(3) this rest xss(3)] xss first show ?case
    by (auto simp: tiles_append ranged_def)
qed simp

lemma index_holds_ranged:
  "index_holds E L topic part m r xs \<Longrightarrow> ranged r xs"
proof (induction rule: denotes.induct)
  case (node r p xss)
  from node.hyps obtain b where decode: "decode_page E L topic part r b = Inr p"
    by (auto simp: index_stored_def)
  show ?case
  proof (cases p)
    case (Leaf sgs)
    with node.IH have "xss = []" by simp
    with decode Leaf show ?thesis
      by (auto simp: decode_page_def result_simps ranged_def validate_segments_def segment_ok_def
          split: if_splits dest!: validate_segments_tiles)
  next
    case (Branch cs)
    have kids: "list_all2 ranged cs xss" using node.IH Branch by (auto elim: list_all2_mono)
    from decode Branch have "validate_children (w_uuid_ok E) cs (en_prefix L) topic part =
        Inr (pr_first_offset r, pr_next_offset r, pr_segment_count r, pr_level r)"
      by (auto simp: decode_page_def result_simps split: if_splits)
    then obtain level where "validate_children_from (w_uuid_ok E) (en_prefix L) topic part level
        (pr_first_offset r) 0 {} cs = Inr (pr_next_offset r, pr_segment_count r)"
      by (auto simp: validate_children_def result_simps simp del: validate_children_from.simps
          split: list.splits if_splits)
    from validate_children_from_ranged [OF this kids]
    have tiled: "tiles (pr_first_offset r) (concat xss) (pr_next_offset r)" "length (concat xss) = pr_segment_count r"
      by auto
    have "\<forall>xs \<in> set xss. \<exists>c. ranged c xs" using kids by (induction rule: list_all2_induct) auto
    then have "\<forall>sg \<in> set (concat xss). in_i64 (segment_end sg) \<and> in_i64 (segment_end sg - 1)
        \<and> 0 < sg_record_count sg \<and> sg_byte_length sg \<le> MAX_BATCH_BYTES"
      unfolding ranged_def by fastforce
    with tiled Branch show ?thesis unfolding ranged_def by simp
  qed
qed

section \<open>The complete trace\<close>

lemma trace_pages_holds:
  assumes legal: "index_legal E L topic part view rely"
    and run: "trace_pages E L topic part maximum stack graph s = (Inr g, t)"
    and kids: "list_all2 (index_holds E L topic part (view s)) stack xss"
  shows "lg_segments g = lg_segments graph @ concat xss
    \<and> keeps_dir (engine_dir L topic part) (view s) (view t)
    \<and> lg_objects graph \<subseteq> lg_objects g
    \<and> (\<forall>r \<in> set stack. \<forall>o'. page_object (index_stored E L topic part (view s)) page_kids pr_object r o' \<longrightarrow> o' \<in> lg_objects g)"
  using run kids
proof (induction "stack_weight (map pr_level stack)" arbitrary: stack graph s xss rule: less_induct)
  case less
  show ?case
  proof (cases stack)
    case Nil
    with less.prems show ?thesis by auto
  next
    case (Cons r rest)
    from less.prems(2) Cons obtain xs xss' where
      xss: "xss = xs # xss'" "index_holds E L topic part (view s) r xs"
        "list_all2 (index_holds E L topic part (view s)) rest xss'"
      by (auto simp: list_all2_Cons1)
    from less.prems(1) Cons obtain graph' p u where
      ins: "graph_insert (pr_object r) maximum graph = Inr graph'"
      and get: "read_page E L topic part r s = (Inr p, u)"
      by (auto split: sum.splits prod.splits)
    have graph': "lg_segments graph' = lg_segments graph" "lg_objects graph' = insert (pr_object r) (lg_objects graph)"
      using ins by (auto simp: graph_insert_def split: if_splits)
    have su: "keeps_dir (engine_dir L topic part) (view s) (view u)" by (rule ix.read_later [OF legal get])
    from ix.read_holds [OF legal get xss(2)] obtain yss where
      y: "xs = page_items p @ concat yss" "list_all2 (index_holds E L topic part (view u)) (page_kids p) yss" by blast
    have rest: "list_all2 (index_holds E L topic part (view u)) rest xss'"
      by (rule ix.holds_all_later [OF xss(3) su])
    have stored: "index_stored E L topic part (view s) r q \<Longrightarrow> q = p" for q
      using ix.read_stored [OF legal get] by blast
    have objects: "page_object (index_stored E L topic part (view s)) page_kids pr_object r' o' \<Longrightarrow>
        page_object (index_stored E L topic part (view u)) page_kids pr_object r' o'" for r' o'
      by (erule page_object_mono) (rule index_stored_later [OF _ su])
    have cover: "o' = pr_object r \<or> (\<exists>c \<in> set (page_kids p). page_object (index_stored E L topic part (view u)) page_kids pr_object c o')"
      if "page_object (index_stored E L topic part (view s)) page_kids pr_object r o'" for o'
      using that stored objects by cases auto
    show ?thesis
    proof (cases p)
      case (Leaf sgs)
      with less.prems(1) Cons ins get have run': "trace_pages E L topic part maximum rest
          (graph'\<lparr>lg_segments := lg_segments graph' @ sgs\<rparr>) u = (Inr g, t)"
        by (auto split: if_splits)
      have "stack_weight (map pr_level rest) < stack_weight (map pr_level stack)" using Cons by simp
      note IH = less.hyps [OF this run' rest]
      have "xs = sgs" using y Leaf by simp
      moreover have "o' \<in> lg_objects g"
        if "r' \<in> set stack" "page_object (index_stored E L topic part (view s)) page_kids pr_object r' o'" for r' o'
      proof (cases "r' = r")
        case True
        with cover that Leaf graph'(2) IH show ?thesis by auto
      next
        case False
        with that Cons have "r' \<in> set rest" by simp
        with IH objects [OF that(2)] show ?thesis by blast
      qed
      ultimately show ?thesis using IH graph' xss(1) su by (auto intro: keeps_dir_trans)
    next
      case (Branch cs)
      with less.prems(1) Cons ins get have run': "trace_pages E L topic part maximum (cs @ rest) graph' u = (Inr g, t)"
        by auto
      have lt: "stack_weight (map pr_level (cs @ rest)) < stack_weight (map pr_level stack)"
        using Cons Branch read_page_weight [of E L topic part r s cs u] get by simp
      have "list_all2 (index_holds E L topic part (view u)) (cs @ rest) (yss @ xss')"
        using y(2) Branch rest by (auto intro: list_all2_appendI)
      note IH = less.hyps [OF lt run' this]
      have "o' \<in> lg_objects g"
        if "r' \<in> set stack" "page_object (index_stored E L topic part (view s)) page_kids pr_object r' o'" for r' o'
      proof (cases "r' = r")
        case True
        with cover [of o'] that consider "o' = pr_object r" | c where "c \<in> set cs"
            "page_object (index_stored E L topic part (view u)) page_kids pr_object c o'"
          using Branch by auto
        then show ?thesis using graph'(2) IH by cases auto
      next
        case False
        with that Cons have "r' \<in> set (cs @ rest)" by simp
        with IH objects [OF that(2)] show ?thesis by blast
      qed
      then show ?thesis using IH graph' xss(1) y(1) Branch su by (auto intro: keeps_dir_trans)
    qed
  qed
qed

lemma trace_index_holds:
  assumes legal: "index_legal E L topic part view rely"
    and run: "trace_index E L topic part root graph maximum s = (Inr g, t)"
    and root: "root_holds E L topic part (view s) root xs"
  shows "lg_segments g = lg_segments graph @ xs \<and> lg_objects graph \<subseteq> lg_objects g
    \<and> keeps_dir (engine_dir L topic part) (view s) (view t)
    \<and> (\<forall>tree o'. rt_tree root = Some tree \<longrightarrow>
        page_object (index_stored E L topic part (view s)) page_kids pr_object tree o' \<longrightarrow> o' \<in> lg_objects g)"
proof (cases "rt_tree root")
  case None
  with run root show ?thesis
    by (auto simp: trace_index_def result_simps root_holds_def split: if_splits)
next
  case (Some tree)
  with root obtain ys where ys: "index_holds E L topic part (view s) tree ys" "xs = ys @ rt_tail root"
    by (auto simp: root_holds_def)
  from run Some obtain g' where
    tr: "trace_pages E L topic part maximum [tree] graph s = (Inr g', t)"
    and g: "g = g'\<lparr>lg_segments := lg_segments g' @ rt_tail root\<rparr>"
    by (auto simp: trace_index_def result_simps split: if_splits)
  from trace_pages_holds [OF legal tr, of "[ys]"] ys g Some show ?thesis by auto
qed

section \<open>The bounded traversal\<close>

lemma selection_push_offset: "selection_push sg sel = (x, sel') \<Longrightarrow> sl_offset sel' = sl_offset sel"
  by (auto simp: selection_push_def split: sum.splits if_splits)

lemma push_all_offset: "push_all sgs sel = (x, sel') \<Longrightarrow> sl_offset sel' = sl_offset sel"
  by (induction sgs sel rule: push_all.induct)
    (auto split: prod.splits sum.splits bool.splits dest: selection_push_offset)

lemma push_all_append:
  "push_all (xs @ ys) sel =
     (case push_all xs sel of
        (Inr True, sel') \<Rightarrow> push_all ys sel'
      | (Inr False, sel') \<Rightarrow> (Inr False, sel')
      | (Inl e, sel') \<Rightarrow> (Inl e, sel'))"
  by (induction xs sel rule: push_all.induct) (auto split: prod.splits sum.splits bool.splits)

lemma last_offset_Inr: "in_i64 (segment_end sg - 1) \<Longrightarrow> last_offset sg = Inr (segment_end sg - 1)"
  by (simp add: last_offset_def segment_end_def checked_add_i64_def algebra_simps)

lemma push_all_skip:
  "\<forall>sg \<in> set xs. in_i64 (segment_end sg - 1) \<and> segment_end sg \<le> sl_offset sel \<Longrightarrow>
   push_all xs sel = (Inr True, sel)"
  by (induction xs) (auto simp: selection_push_def last_offset_Inr)

lemma ranged_skip:
  assumes "ranged r xs" "pr_next_offset r \<le> sl_offset sel"
  shows "push_all xs sel = (Inr True, sel)"
proof (rule push_all_skip, intro ballI conjI)
  fix sg assume sg: "sg \<in> set xs"
  with assms(1) show "in_i64 (segment_end sg - 1)" by (simp add: ranged_def)
  have "segment_end sg \<le> pr_next_offset r"
    using tiles_member [OF _ sg] assms(1) by (auto simp: ranged_def)
  with assms(2) show "segment_end sg \<le> sl_offset sel" by simp
qed

lemma filtered_children:
  assumes "list_all2 (index_holds E L topic part m) cs yss"
  shows "\<exists>zss. list_all2 (index_holds E L topic part m) (filter (\<lambda>r. pr_next_offset r > n) cs) zss
    \<and> (\<forall>sel. sl_offset sel = n \<longrightarrow> push_all (concat yss) sel = push_all (concat zss) sel)"
  using assms
proof (induction rule: list_all2_induct)
  case (Cons c cs ys yss)
  then obtain zss where z: "list_all2 (index_holds E L topic part m) (filter (\<lambda>r. pr_next_offset r > n) cs) zss"
    "\<forall>sel. sl_offset sel = n \<longrightarrow> push_all (concat yss) sel = push_all (concat zss) sel" by blast
  show ?case
  proof (cases "pr_next_offset c > n")
    case True
    have "push_all (concat (ys # yss)) sel = push_all (concat (ys # zss)) sel" if "sl_offset sel = n" for sel
      using z(2) that push_all_offset [of ys sel]
      by (auto simp: push_all_append split: prod.splits sum.splits bool.splits)
    with True z(1) Cons.hyps show ?thesis by (intro exI [of _ "ys # zss"]) auto
  next
    case False
    have "push_all (concat (ys # yss)) sel = push_all (concat zss) sel" if "sl_offset sel = n" for sel
      using z(2) that ranged_skip [OF index_holds_ranged [OF Cons.hyps(1)], of sel] False
      by (simp add: push_all_append)
    with False z(1) show ?thesis by (intro exI [of _ zss]) auto
  qed
qed auto

lemma select_pages_holds:
  assumes legal: "index_legal E L topic part view rely"
    and run: "select_pages E L topic part stack sel s = (Inr (c, sel'), t)"
    and kids: "list_all2 (index_holds E L topic part (view s)) stack xss"
  shows "push_all (concat xss) sel = (Inr c, sel') \<and> keeps_dir (engine_dir L topic part) (view s) (view t)"
  using run kids
proof (induction "stack_weight (map pr_level stack)" arbitrary: stack sel s xss rule: less_induct)
  case less
  show ?case
  proof (cases stack)
    case Nil
    with less.prems show ?thesis by auto
  next
    case (Cons r rest)
    from less.prems(2) Cons obtain xs xss' where
      xss: "xss = xs # xss'" "index_holds E L topic part (view s) r xs"
        "list_all2 (index_holds E L topic part (view s)) rest xss'"
      by (auto simp: list_all2_Cons1)
    have small: "stack_weight (map pr_level rest) < stack_weight (map pr_level stack)"
      using Cons by simp
    show ?thesis
    proof (cases "pr_next_offset r \<le> sl_offset sel")
      case True
      with less.prems(1) Cons have run': "select_pages E L topic part rest sel s = (Inr (c, sel'), t)" by simp
      from less.hyps [OF small run' xss(3)] ranged_skip [OF index_holds_ranged [OF xss(2)] True] xss(1)
      show ?thesis by (simp add: push_all_append)
    next
      case False
      with less.prems(1) Cons obtain p u where get: "read_page E L topic part r s = (Inr p, u)"
        by (auto split: sum.splits prod.splits)
      have su: "keeps_dir (engine_dir L topic part) (view s) (view u)" by (rule ix.read_later [OF legal get])
      from ix.read_holds [OF legal get xss(2)] obtain yss where
        y: "xs = page_items p @ concat yss" "list_all2 (index_holds E L topic part (view u)) (page_kids p) yss" by blast
      have rest: "list_all2 (index_holds E L topic part (view u)) rest xss'"
        by (rule ix.holds_all_later [OF xss(3) su])
      show ?thesis
      proof (cases p)
        case (Leaf sgs)
        then have xs: "xs = sgs" using y by simp
        consider (stop) "push_all sgs sel = (Inr False, sel')" "c = False" "t = u"
          | (go) sel2 where "push_all sgs sel = (Inr True, sel2)"
              "select_pages E L topic part rest sel2 u = (Inr (c, sel'), t)"
          using less.prems(1) Cons False get Leaf by (auto split: prod.splits sum.splits bool.splits)
        then show ?thesis
        proof cases
          case stop
          with xs xss(1) su show ?thesis by (simp add: push_all_append)
        next
          case go
          from less.hyps [OF small go(2) rest] go(1) xs xss(1) su show ?thesis
            by (auto simp: push_all_append intro: keeps_dir_trans)
        qed
      next
        case (Branch cs)
        let ?cs = "filter (\<lambda>r. pr_next_offset r > sl_offset sel) cs"
        have run': "select_pages E L topic part (?cs @ rest) sel u = (Inr (c, sel'), t)"
          using less.prems(1) Cons False get Branch by simp
        have "stack_weight (map pr_level ?cs) < Suc PAGE_ENTRIES ^ pr_level r"
          using read_page_weight [of E L topic part r s cs u] get Branch
          by (auto intro: le_less_trans [OF stack_weight_filter])
        then have lt: "stack_weight (map pr_level (?cs @ rest)) < stack_weight (map pr_level stack)"
          using Cons by simp
        obtain zss where z: "list_all2 (index_holds E L topic part (view u)) ?cs zss"
          "push_all (concat yss) sel = push_all (concat zss) sel"
          using filtered_children [of E L topic part "view u" cs yss "sl_offset sel"] y(2) Branch by auto
        have "list_all2 (index_holds E L topic part (view u)) (?cs @ rest) (zss @ xss')"
          using z(1) rest by (rule list_all2_appendI)
        from less.hyps [OF lt run' this] z(2) y(1) Branch xss(1) su show ?thesis
          by (auto simp: push_all_append intro: keeps_dir_trans split: prod.splits sum.splits bool.splits)
      qed
    qed
  qed
qed

section \<open>What is selected\<close>

definition seg_bytes :: "segment list \<Rightarrow> nat" where
  "seg_bytes sgs = (\<Sum>sg\<leftarrow>sgs. sg_byte_length sg)"

lemma seg_bytes_simps [simp]:
  "seg_bytes [] = 0" "seg_bytes (sg # sgs) = sg_byte_length sg + seg_bytes sgs"
  by (simp_all add: seg_bytes_def)

lemma push_all_takes:
  assumes "push_all ys sel = (Inr c, sel')"
    and "\<forall>sg \<in> set ys. in_i64 (segment_end sg - 1) \<and> sl_offset sel < segment_end sg \<and> sg_byte_length sg \<le> u64_max"
  shows "(\<exists>taken after. ys = taken @ after \<and> sl_segments sel' = sl_segments sel @ taken
      \<and> seg_bytes taken + sl_remaining sel' = sl_remaining sel
      \<and> sl_oversized_first_batch sel' = sl_oversized_first_batch sel
      \<and> (after \<noteq> [] \<longrightarrow> sl_remaining sel' = 0 \<and> taken \<noteq> [] \<or> sl_remaining sel' < sg_byte_length (hd after))
      \<and> (taken = [] \<and> after \<noteq> [] \<longrightarrow> \<not> (sl_segments sel = [] \<and> sl_allow_oversized sel)))
    \<or> (\<exists>sg after. ys = sg # after \<and> sl_segments sel = [] \<and> sl_allow_oversized sel
        \<and> sl_segments sel' = [sg] \<and> sl_remaining sel < sg_byte_length sg \<and> sl_oversized_first_batch sel')"
  using assms
proof (induction ys arbitrary: sel)
  case (Cons sg ys)
  have lst: "last_offset sg = Inr (segment_end sg - 1)" using Cons.prems(2) by (simp add: last_offset_Inr)
  show ?case
  proof (cases "sg_byte_length sg > sl_remaining sel")
    case True
    with Cons.prems lst show ?thesis
      by (auto simp: selection_push_def split: if_splits intro!: exI [of _ "sg # ys"])
  next
    case False
    let ?sel = "sel\<lparr>sl_remaining := sl_remaining sel - sg_byte_length sg, sl_segments := sl_segments sel @ [sg]\<rparr>"
    show ?thesis
    proof (cases "sl_remaining sel = sg_byte_length sg")
      case True
      with Cons.prems lst have "sel' = ?sel" by (auto simp: selection_push_def split: if_splits)
      with True show ?thesis by (intro disjI1 exI [of _ "[sg]"] exI [of _ ys]) simp
    next
      case ne: False
      with False Cons.prems lst have "push_all ys ?sel = (Inr c, sel')"
        by (auto simp: selection_push_def split: if_splits)
      from Cons.IH [OF this] Cons.prems(2) obtain taken after where
        "ys = taken @ after" "sl_segments sel' = (sl_segments sel @ [sg]) @ taken"
        "seg_bytes taken + sl_remaining sel' = sl_remaining sel - sg_byte_length sg"
        "sl_oversized_first_batch sel' = sl_oversized_first_batch sel"
        "after \<noteq> [] \<longrightarrow> sl_remaining sel' = 0 \<and> taken \<noteq> [] \<or> sl_remaining sel' < sg_byte_length (hd after)"
        by auto
      with False show ?thesis by (intro disjI1 exI [of _ "sg # taken"] exI [of _ after]) auto
    qed
  qed
qed auto

text \<open>What one fetch selects.\<close>

lemma selection_run:
  assumes "tiles a xs b" "a \<le> n" "n < b"
    and "\<forall>sg \<in> set xs. in_i64 (segment_end sg - 1) \<and> sg_byte_length sg \<le> u64_max"
    and "push_all xs (selection_new n budget allow) = (Inr c, sel)"
  shows "\<exists>before first rest taken after.
      xs = before @ first # rest \<and> first # rest = taken @ after
    \<and> sg_base_offset first \<le> n \<and> n < segment_end first
    \<and> sl_segments sel = taken
    \<and> (if sl_oversized_first_batch sel then allow \<and> taken = [first] \<and> budget < seg_bytes taken
       else seg_bytes taken \<le> budget
          \<and> (after \<noteq> [] \<longrightarrow> seg_bytes taken = budget \<or> budget < seg_bytes taken + sg_byte_length (hd after))
          \<and> (taken = [] \<longrightarrow> \<not> allow \<and> budget < sg_byte_length first))"
proof -
  obtain first where first: "first \<in> set xs" "sg_base_offset first \<le> n" "n < segment_end first"
    using tiles_cover [OF assms(1-3)] by blast
  then obtain before rest where xs: "xs = before @ first # rest" by (auto simp: in_set_conv_decomp)
  with assms(1) obtain m where m: "tiles a before m" "sg_base_offset first = m" "tiles (segment_end first) rest b"
    by (auto simp: tiles_append)
  let ?sel = "selection_new n budget allow"
  have "push_all before ?sel = (Inr True, ?sel)"
    by (rule push_all_skip) (use tiles_member [OF m(1)] m(2) first assms(4) xs in \<open>fastforce simp: selection_new_def\<close>)
  then have run: "push_all (first # rest) ?sel = (Inr c, sel)"
    using assms(5) xs by (simp add: push_all_append del: push_all.simps)
  have "\<forall>sg \<in> set (first # rest). in_i64 (segment_end sg - 1) \<and> sl_offset ?sel < segment_end sg \<and> sg_byte_length sg \<le> u64_max"
    using assms(4) xs first tiles_member [OF m(3)]
    by (force simp: selection_new_def segment_end_def)
  from push_all_takes [OF run this] consider
    taken after where "first # rest = taken @ after" "sl_segments sel = taken"
      "seg_bytes taken + sl_remaining sel = budget" "\<not> sl_oversized_first_batch sel"
      "after \<noteq> [] \<longrightarrow> sl_remaining sel = 0 \<and> taken \<noteq> [] \<or> sl_remaining sel < sg_byte_length (hd after)"
      "taken = [] \<and> after \<noteq> [] \<longrightarrow> \<not> allow"
  | "allow" "sl_segments sel = [first]" "budget < sg_byte_length first" "sl_oversized_first_batch sel"
    by (auto simp: selection_new_def)
  then show ?thesis
  proof cases
    case 1
    have "seg_bytes taken \<le> budget" using 1(3) by linarith
    moreover have "after \<noteq> [] \<longrightarrow> seg_bytes taken = budget \<or> budget < seg_bytes taken + sg_byte_length (hd after)"
      using 1(3,5) by linarith
    moreover have "taken = [] \<longrightarrow> \<not> allow \<and> budget < sg_byte_length first"
      using 1(1,3,5,6) by (metis append_Nil list.distinct(1) list.sel(1) add_0 seg_bytes_simps(1))
    ultimately have "if sl_oversized_first_batch sel then allow \<and> taken = [first] \<and> budget < seg_bytes taken
       else seg_bytes taken \<le> budget
          \<and> (after \<noteq> [] \<longrightarrow> seg_bytes taken = budget \<or> budget < seg_bytes taken + sg_byte_length (hd after))
          \<and> (taken = [] \<longrightarrow> \<not> allow \<and> budget < sg_byte_length first)"
      using 1(4) by (simp only: if_False)
    with xs first(2,3) 1(1,2) show ?thesis by blast
  next
    case 2
    then show ?thesis using xs first
      by (intro exI [of _ before] exI [of _ first] exI [of _ rest] exI [of _ "[first]"] exI [of _ rest]) auto
  qed
qed

text \<open>A fetch at an offset inside the log selects a contiguous run of
  segments that starts with the one holding the offset. The run fits the byte budget, or it is a
  single first segment the caller allowed to exceed it; it ends only where the budget ends; and it
  is empty only if the first segment does not fit and may not exceed the budget.\<close>

theorem selection_contiguous:
  assumes "tiles a xs b" "a \<le> n" "n < b"
    and "\<forall>sg \<in> set xs. in_i64 (segment_end sg - 1) \<and> sg_byte_length sg \<le> u64_max"
    and "push_all xs (selection_new n budget allow) = (Inr c, sel)"
  shows "\<exists>before first rest taken after.
      xs = before @ first # rest \<and> first # rest = taken @ after
    \<and> sg_base_offset first \<le> n \<and> n < segment_end first
    \<and> sl_segments sel = taken
    \<and> (if sl_oversized_first_batch sel then allow \<and> taken = [first] \<and> budget < seg_bytes taken
       else seg_bytes taken \<le> budget
          \<and> (after \<noteq> [] \<longrightarrow> seg_bytes taken = budget \<or> budget < seg_bytes taken + sg_byte_length (hd after))
          \<and> (taken = [] \<longrightarrow> \<not> allow \<and> budget < sg_byte_length first))"
  using assms by (rule selection_run)

definition sample_segment :: "int \<Rightarrow> nat \<Rightarrow> nat \<Rightarrow> segment" where
  "sample_segment base count bytes =
     \<lparr>sg_object = ''p/topics/t/0/segments/'' @ replicate (nat base) (CHR ''x'') @ ''.batch'', sg_base_offset = base,
      sg_record_count = count, sg_byte_length = bytes, sg_sha256 = zero_checksum,
      sg_received_at_ms = Some 1000\<rparr>"

theorem selection_contiguous_witness:
  "\<exists>c sel. push_all [sample_segment 0 2 10, sample_segment 2 3 20, sample_segment 5 1 30]
      (selection_new 3 25 False) = (Inr c, sel)
    \<and> sl_segments sel = [sample_segment 2 3 20] \<and> seg_bytes (sl_segments sel) \<le> 25"
proof -
  let ?xs = "[sample_segment 0 2 10, sample_segment 2 3 20, sample_segment 5 1 30]"
  let ?sel = "(selection_new 3 25 False)\<lparr>sl_remaining := 5, sl_segments := [sample_segment 2 3 20]\<rparr>"
  have tiled: "tiles 0 ?xs 6" by (simp add: sample_segment_def segment_end_def)
  have run: "push_all ?xs (selection_new 3 25 False) = (Inr False, ?sel)"
    by (simp add: selection_push_def last_offset_def sample_segment_def selection_new_def
        checked_add_i64_def range_simps)
  have typed: "\<forall>sg \<in> set ?xs. in_i64 (segment_end sg - 1) \<and> sg_byte_length sg \<le> u64_max"
    by (simp add: sample_segment_def segment_end_def range_simps)
  from selection_contiguous [OF tiled _ _ typed run]
  have "seg_bytes (sl_segments ?sel) \<le> 25" by (auto simp: selection_new_def)
  with run show ?thesis by (intro exI [of _ False] exI [of _ ?sel] conjI) simp_all
qed

section \<open>Properties of the index\<close>

text \<open>C40 (insert_leaf_appends). Inserting a sealed leaf into the offset index yields a tree that
  denotes the old segments followed by the leaf's, at every shape of the tree (a full tree grows a
  level, a full last child gets a new right sibling), and no page that was in the bucket is
  changed, so every older root still denotes what it denoted.\<close>

theorem insert_leaf_appends:
  assumes "index_legal E L topic part view rely"
    and "insert_leaf E L topic part tree leaf s = (Inr r, t)"
    and "index_holds E L topic part (view s) tree xs" "index_holds E L topic part (view s) leaf ys"
  shows "index_holds E L topic part (view t) r (xs @ ys)
    \<and> keeps_dir (engine_dir L topic part) (view s) (view t)"
  using assms by (rule insert_leaf_holds)

text \<open>C31 (rebuild_index_exact). Rebuilding the index bottom-up from a list of segments gives a root
  that denotes exactly these segments in order, with at most 64 of them in the tail.\<close>

theorem rebuild_index_exact:
  assumes "index_legal E L topic part view rely"
    and "rebuild_index E L topic part sgs start nxt maximum s = (Inr root, t)"
  shows "root_holds E L topic part (view t) root sgs \<and> length (rt_tail root) \<le> PAGE_ENTRIES
    \<and> rt_start_offset root = start \<and> rt_next_offset root = nxt"
  using rebuild_index_holds [OF assms] by blast

text \<open>A trace that succeeds returns all segments the root denotes, in
  order, and records the object of every page reachable from the root, so nothing that is live can
  be mistaken for garbage.\<close>

theorem trace_index_complete:
  assumes "index_legal E L topic part view rely"
    and "trace_index E L topic part root graph maximum s = (Inr g, t)"
    and "root_holds E L topic part (view s) root xs"
  shows "lg_segments g = lg_segments graph @ xs
    \<and> (\<forall>tree o'. rt_tree root = Some tree \<longrightarrow>
        page_object (index_stored E L topic part (view s)) page_kids pr_object tree o' \<longrightarrow> o' \<in> lg_objects g)"
  using trace_index_holds [OF assms] by blast

lemma indexed_segments_push_all:
  assumes legal: "index_legal E L topic part view rely"
    and run: "indexed_segments E L topic part root sel s = (Inr sel', t)"
    and root: "root_holds E L topic part (view s) root xs"
  shows "\<exists>c. push_all xs sel = (Inr c, sel')"
proof -
  obtain stack xss where stack: "stack = (case rt_tree root of None \<Rightarrow> [] | Some r \<Rightarrow> [r])"
    and kids: "list_all2 (index_holds E L topic part (view s)) stack xss" and xs: "xs = concat xss @ rt_tail root"
  proof (cases "rt_tree root")
    case None
    with root that [of "[]" "[]"] show ?thesis by (simp add: root_holds_def)
  next
    case (Some r)
    with root obtain ys where "index_holds E L topic part (view s) r ys" "xs = ys @ rt_tail root"
      by (auto simp: root_holds_def)
    with Some that [of "[r]" "[ys]"] show ?thesis by simp
  qed
  from run stack obtain continue sel2 u where
    sel: "select_pages E L topic part stack sel s = (Inr (continue, sel2), u)"
    and rest: "(if continue then io_lift (case push_all (rt_tail root) sel2 of
                  (Inl e, _) \<Rightarrow> Inl e | (Inr _, selection) \<Rightarrow> Inr selection)
                else io_ret sel2) u = (Inr sel', t)"
    by (auto simp: indexed_segments_def result_simps)
  from select_pages_holds [OF legal sel kids] have push: "push_all (concat xss) sel = (Inr continue, sel2)" by simp
  show ?thesis
  proof (cases continue)
    case True
    with rest push xs show ?thesis
      by (auto simp: push_all_append split: prod.splits sum.splits)
  next
    case False
    with rest push xs show ?thesis by (auto simp: push_all_append)
  qed
qed

text \<open>C32 (indexed_segments_like_scan). The bounded traversal of a fetch, which skips pages by their
  offset ranges and stops early, selects exactly the segments a scan over all segments of the log
  would select.\<close>

theorem indexed_segments_like_scan:
  assumes "index_legal E L topic part view rely"
    and "indexed_segments E L topic part root sel s = (Inr sel', t)"
    and "root_holds E L topic part (view s) root xs"
  shows "\<exists>c. push_all xs sel = (Inr c, sel')"
  using assms by (rule indexed_segments_push_all)

end
