(* ===== verification/Producer_Directory_Laws.thy ===== *)
theory Producer_Directory_Laws
  imports Producer_Directory Log_Index_Laws
begin

text \<open>
  What the producer directory promises. Its pages implement the \<open>page_store\<close> interface; a
  reference denotes the list of producer states below it, sorted by producer ID. Lookup
  finds exactly what a search of that list finds, and an update replaces or inserts one
  producer and keeps all others.
\<close>

lemma io_body_Inr [result_simps]:
  "io_body g n e s = (Inr b, t) \<longleftrightarrow> collect_bounded (gr_chunks g) n [] = Inr b \<and> t = s"
  by (auto simp: io_body_def)

section \<open>Directory pages as a page store\<close>

fun producer_kids :: "producer_page \<Rightarrow> producer_ref list" where
  "producer_kids (PLeaf ps) = []"
| "producer_kids (PBranch cs) = cs"

fun producer_items :: "producer_page \<Rightarrow> producer_state list" where
  "producer_items (PLeaf ps) = ps"
| "producer_items (PBranch cs) = []"

definition producer_legal ::
  "('s, 'm) log_env_scheme \<Rightarrow> engine \<Rightarrow> string \<Rightarrow> int \<Rightarrow> ('s \<Rightarrow> objects) \<Rightarrow> (objects \<Rightarrow> objects \<Rightarrow> bool) \<Rightarrow> bool" where
  "producer_legal E L topic part view rely \<longleftrightarrow>
     store_laws E view rely \<and> name_laws E L topic part \<and> producer_page_json_laws E
   \<and> (\<forall>m m'. rely m m' \<longrightarrow> keeps_dir (engine_dir L topic part) m m')"

lemma producer_legalD:
  assumes "producer_legal E L topic part view rely"
  shows "store_laws E view rely" "name_laws E L topic part" "producer_page_json_laws E"
    "rely m m' \<Longrightarrow> keeps_dir (engine_dir L topic part) m m'"
  using assms by (auto simp: producer_legal_def)

definition producer_stored ::
  "('s, 'm) log_env_scheme \<Rightarrow> engine \<Rightarrow> string \<Rightarrow> int \<Rightarrow> int \<Rightarrow> objects \<Rightarrow> producer_ref \<Rightarrow> producer_page \<Rightarrow> bool" where
  "producer_stored E L topic part n m r p \<longleftrightarrow>
     validate_producer_ref (w_uuid_ok E) r (en_prefix L) topic part = Inr ()
   \<and> w_path_from E (pf_object r) = pf_object r
   \<and> (\<exists>v b. m (pf_object r) = Some (v, b) \<and> length b = pf_byte_length r
        \<and> w_sha256_hex E b = pf_sha256 r \<and> decode_producer_page E L topic part n r b = Inr p)"

abbreviation producer_holds ::
  "('s, 'm) log_env_scheme \<Rightarrow> engine \<Rightarrow> string \<Rightarrow> int \<Rightarrow> int \<Rightarrow> objects \<Rightarrow> producer_ref \<Rightarrow> producer_state list \<Rightarrow> bool" where
  "producer_holds E L topic part n m \<equiv> denotes (producer_stored E L topic part n m) producer_kids producer_items"

lemma valid_producer_ref_in_dir:
  "validate_producer_ref ok r (en_prefix L) topic part = Inr () \<Longrightarrow>
   immutable_name (engine_dir L topic part) (pf_object r)"
  by (auto simp: validate_producer_ref_def engine_dir_def immutable_name_def Let_def split: if_splits
      dest!: page_name_ok_prefix)

lemma producer_stored_later:
  "producer_stored E L topic part n m r p \<Longrightarrow> keeps_dir (engine_dir L topic part) m m' \<Longrightarrow>
   producer_stored E L topic part n m' r p"
  unfolding producer_stored_def by (auto dest: valid_producer_ref_in_dir keeps_dir_SomeD)

lemma producer_stored_unique:
  "producer_stored E L topic part n m r p \<Longrightarrow> producer_stored E L topic part n m r q \<Longrightarrow> p = q"
  unfolding producer_stored_def by auto

lemma write_producer_page_keeps:
  assumes "producer_legal E L topic part view rely"
  shows "io_keeps (dir_kept view (engine_dir L topic part)) (write_producer_page E L topic part n p)"
  unfolding write_producer_page_def
  by (intro io_keeps_rules dir_kept_calls [OF producer_legalD(1) [OF assms] producer_legalD(4) [OF assms]])

lemma read_producer_page_keeps:
  assumes "producer_legal E L topic part view rely"
  shows "io_keeps (dir_kept view (engine_dir L topic part)) (read_producer_page E L topic part n r)"
  unfolding read_producer_page_def
  by (intro io_keeps_rules dir_kept_calls [OF producer_legalD(1) [OF assms] producer_legalD(4) [OF assms]])

lemma decode_written_producer_page:
  assumes json: "producer_page_json_laws E" and vec: "le_producer_page_to_vec E p = Inr b"
    and bounds: "producer_page_bounds (w_uuid_ok E) p (en_prefix L) topic part n = Inr (f, l, c, level)"
    and r: "pf_first_id r = f" "pf_last_id r = l" "pf_count r = c" "pf_level r = level"
  shows "decode_producer_page E L topic part n r b = Inr p"
proof -
  have "le_producer_page_from_slice E producer_history entries entries b = Inr p"
  proof (cases p)
    case (PLeaf ps)
    then have "length ps \<le> PAGE_ENTRIES" "\<forall>q \<in> set ps. length (ps_batches q) \<le> RETRY_BATCHES"
      using bounds by (auto simp: result_simps validate_producer_state_def split: if_splits)
    then show ?thesis
      using json vec PLeaf by (auto simp: producer_page_json_laws_def entries_def producer_history_def dest!: spec [of _ p])
  next
    case (PBranch cs)
    then have "length cs \<le> PAGE_ENTRIES" using bounds producer_bounds_Branch by blast
    then show ?thesis
      using json vec PBranch by (auto simp: producer_page_json_laws_def entries_def dest!: spec [of _ p])
  qed
  then show ?thesis using bounds r by (simp add: decode_producer_page_def)
qed

lemma write_producer_page_stored:
  assumes legal: "producer_legal E L topic part view rely"
    and run: "write_producer_page E L topic part n p s = (Inr r, t)"
  shows "producer_stored E L topic part n (view t) r p"
proof -
  from run obtain f l c level b u s1 v where
    bounds: "producer_page_bounds (w_uuid_ok E) p (en_prefix L) topic part n = Inr (f, l, c, level)"
    and vec: "le_producer_page_to_vec E p = Inr b" and u: "w_new_uuid E s = (u, s1)"
    and r: "r = \<lparr>pf_object = engine_dir L topic part @ ''producer-state/'' @ u @ ''.json'',
         pf_first_id = f, pf_last_id = l, pf_count = c, pf_level = level,
         pf_byte_length = length b, pf_sha256 = w_sha256_hex E b\<rparr>"
    and valid: "validate_producer_ref (w_uuid_ok E) r (en_prefix L) topic part = Inr ()"
    and put: "w_put E (w_path_from E (pf_object r)) b Create s1 = (Inr v, t)"
    by (auto simp: write_producer_page_def result_simps Let_def split: if_splits)
  have path: "w_path_from E (pf_object r) = pf_object r"
    using producer_legalD(2) [OF legal] u by (auto simp: r name_laws_def Let_def dest!: spec [of _ s])
  have "view t (pf_object r) = Some (v, b)"
    using create_Inr [OF producer_legalD(1) [OF legal] put] path by simp
  moreover have "decode_producer_page E L topic part n r b = Inr p"
    by (rule decode_written_producer_page [OF producer_legalD(3) [OF legal] vec bounds]) (simp_all add: r)
  ultimately show ?thesis using valid path by (simp add: producer_stored_def r)
qed

lemma read_producer_page_stored:
  assumes legal: "producer_legal E L topic part view rely"
    and run: "read_producer_page E L topic part n r s = (Inr p, t)"
    and stored: "producer_stored E L topic part n (view s) r q"
  shows "p = q"
proof -
  from run obtain b where "read_exact E (w_path_from E (pf_object r)) (pf_byte_length r) (pf_sha256 r)
      (invalid ''producer page length mismatch'') (invalid ''producer page exceeds reference length'')
      (invalid ''producer page length or checksum mismatch'') s = (Inr b, t)"
    and p: "decode_producer_page E L topic part n r b = Inr p"
    by (auto simp: read_producer_page_def result_simps)
  from read_exact_Inr [OF producer_legalD(1) [OF legal] this(1)] stored obtain v where
    "rely (view s) (view t)" "view t (pf_object r) = Some (v, b)"
    by (auto simp: producer_stored_def)
  moreover from this(1) have "producer_stored E L topic part n (view t) r q"
    by (rule producer_stored_later [OF stored producer_legalD(4) [OF legal]])
  ultimately show ?thesis using p by (auto simp: producer_stored_def)
qed

interpretation pd: page_store
  "producer_legal E L topic part view rely" view "keeps_dir (engine_dir L topic part)"
  "producer_stored E L topic part n" "\<lambda>_. True" "write_producer_page E L topic part n"
  "read_producer_page E L topic part n" producer_kids producer_items
  for E :: "('s, 'm) log_env_scheme" and L topic part view rely n
proof unfold_locales
  fix s t x and p :: producer_page
  assume "producer_legal E L topic part view rely" "write_producer_page E L topic part n p s = (x, t)"
  from io_keepsE [OF write_producer_page_keeps [OF this(1)] this(2) dir_kept_reflp dir_kept_transp]
  show "keeps_dir (engine_dir L topic part) (view s) (view t)" by (simp add: dir_kept_def)
next
  fix s t y r
  assume "producer_legal E L topic part view rely" "read_producer_page E L topic part n r s = (y, t)"
  from io_keepsE [OF read_producer_page_keeps [OF this(1)] this(2) dir_kept_reflp dir_kept_transp]
  show "keeps_dir (engine_dir L topic part) (view s) (view t)" by (simp add: dir_kept_def)
qed (auto intro: keeps_dir_trans producer_stored_later producer_stored_unique write_producer_page_stored
  read_producer_page_stored)

section \<open>Order\<close>

text \<open>The states below a reference are sorted by ID and fill its ID range.\<close>

definition covers :: "producer_ref \<Rightarrow> producer_state list \<Rightarrow> bool" where
  "covers r xs \<longleftrightarrow> xs \<noteq> [] \<and> sorted_wrt (<) (map ps_id xs)
     \<and> ps_id (hd xs) = pf_first_id r \<and> ps_id (last xs) = pf_last_id r \<and> length xs = pf_count r"

lemma covers_range:
  assumes "covers r xs" "p \<in> set xs"
  shows "pf_first_id r \<le> ps_id p" "ps_id p \<le> pf_last_id r"
proof -
  from assms(2) obtain ys zs where xs: "xs = ys @ p # zs" by (auto simp: in_set_conv_decomp)
  with assms(1) have s: "sorted_wrt (<) (map ps_id (ys @ p # zs))" by (simp add: covers_def)
  show "pf_first_id r \<le> ps_id p"
    using s xs assms(1) by (cases ys) (auto simp: covers_def sorted_wrt_append)
  show "ps_id p \<le> pf_last_id r"
    using s xs assms(1) by (cases zs rule: rev_cases) (auto simp: covers_def sorted_wrt_append)
qed

lemma covers_nonempty_range: "covers r xs \<Longrightarrow> pf_first_id r \<le> pf_last_id r"
  using covers_range [of r xs "hd xs"] by (auto simp: covers_def)

lemma covers_concat:
  assumes "list_all2 covers cs xss" "cs \<noteq> []" "successively (\<lambda>c d. pf_last_id c < pf_first_id d) cs"
  shows "concat xss \<noteq> [] \<and> sorted_wrt (<) (map ps_id (concat xss))
    \<and> ps_id (hd (concat xss)) = pf_first_id (hd cs) \<and> ps_id (last (concat xss)) = pf_last_id (last cs)
    \<and> length (concat xss) = (\<Sum>c\<leftarrow>cs. pf_count c)"
  using assms
proof (induction rule: list_all2_induct)
  case (Cons c cs xs xss)
  show ?case
  proof (cases "cs = []")
    case True
    with Cons show ?thesis by (auto simp: covers_def)
  next
    case False
    then have gap: "pf_last_id c < pf_first_id (hd cs)" "successively (\<lambda>c d. pf_last_id c < pf_first_id d) cs"
      using Cons.prems by (cases cs; auto)+
    note IH = Cons.IH [OF False gap(2)]
    have "ps_id p < ps_id q" if "p \<in> set xs" "q \<in> set (concat xss)" for p q
    proof -
      have "ps_id (hd (concat xss)) \<le> ps_id q"
        using IH that(2) by (cases "concat xss") auto
      with covers_range(2) [OF Cons.hyps(1) that(1)] gap(1) IH show ?thesis by linarith
    qed
    with IH Cons.hyps(1) False show ?thesis
      by (auto simp: covers_def sorted_wrt_append)
  qed
qed simp

lemma successively_windows2: "\<not> windows2_any p xs \<longleftrightarrow> successively (\<lambda>x y. \<not> p x y) xs"
  by (simp add: windows2_any_iff)

lemma bounds_ordered:
  "producer_page_bounds ok (PLeaf ps) prefix topic part n = Inr (f, l, c, level) \<Longrightarrow>
     ps \<noteq> [] \<and> sorted_wrt (<) (map ps_id ps) \<and> f = ps_id (hd ps) \<and> l = ps_id (last ps) \<and> c = length ps"
  "producer_page_bounds ok (PBranch cs) prefix topic part n = Inr (f, l, c, level) \<Longrightarrow>
     successively (\<lambda>c d. pf_last_id c < pf_first_id d) cs \<and> f = pf_first_id (hd cs)
     \<and> l = pf_last_id (last cs) \<and> c = (\<Sum>c\<leftarrow>cs. pf_count c)"
proof -
  assume "producer_page_bounds ok (PLeaf ps) prefix topic part n = Inr (f, l, c, level)"
  then have ps: "ps \<noteq> []" "\<not> windows2_any (\<lambda>p q. ps_id p \<ge> ps_id q) ps"
    "f = ps_id (hd ps)" "l = ps_id (last ps)" "c = length ps"
    by (auto simp: result_simps split: if_splits)
  then have "successively (<) (map ps_id ps)" by (simp add: successively_windows2 not_le successively_map)
  then have "sorted_wrt (<) (map ps_id ps)" by (simp add: successively_conv_sorted_wrt transp_on_less)
  with ps show "ps \<noteq> [] \<and> sorted_wrt (<) (map ps_id ps) \<and> f = ps_id (hd ps) \<and> l = ps_id (last ps) \<and> c = length ps"
    by simp
next
  assume "producer_page_bounds ok (PBranch cs) prefix topic part n = Inr (f, l, c, level)"
  then show "successively (\<lambda>c d. pf_last_id c < pf_first_id d) cs \<and> f = pf_first_id (hd cs)
     \<and> l = pf_last_id (last cs) \<and> c = (\<Sum>c\<leftarrow>cs. pf_count c)"
    by (auto simp: result_simps successively_windows2 not_le split: if_splits dest: producer_children_count_Inr)
qed

lemma producer_stored_bounds:
  "producer_stored E L topic part n m r p \<Longrightarrow>
   producer_page_bounds (w_uuid_ok E) p (en_prefix L) topic part n
     = Inr (pf_first_id r, pf_last_id r, pf_count r, pf_level r)"
  by (auto simp: producer_stored_def decode_producer_page_def result_simps split: if_splits)

lemma producer_holds_covers: "producer_holds E L topic part n m r xs \<Longrightarrow> covers r xs"
proof (induction rule: denotes.induct)
  case (node r p xss)
  note bounds = producer_stored_bounds [OF node.hyps]
  show ?case
  proof (cases p)
    case (PLeaf ps)
    with bounds_ordered(1) bounds node.IH show ?thesis by (fastforce simp: covers_def)
  next
    case (PBranch cs)
    have kids: "list_all2 covers cs xss" using node.IH PBranch by (auto elim: list_all2_mono)
    have "cs \<noteq> []" using producer_bounds_Branch(1) bounds PBranch by fastforce
    from covers_concat [OF kids this] bounds_ordered(2) bounds PBranch show ?thesis
      by (fastforce simp: covers_def)
  qed
qed

section \<open>Lookup\<close>

definition find_producer :: "int \<Rightarrow> producer_state list \<Rightarrow> producer_state option" where
  "find_producer pid xs = find (\<lambda>p. ps_id p = pid) xs"

lemma find_producer_iff:
  assumes "sorted_wrt (<) (map ps_id xs)"
  shows "find_producer pid xs = Some p \<longleftrightarrow> p \<in> set xs \<and> ps_id p = pid"
    and "find_producer pid xs = None \<longleftrightarrow> (\<forall>p \<in> set xs. ps_id p \<noteq> pid)"
proof -
  have "distinct (map ps_id xs)" using assms strict_sorted_iff by blast
  then have inj: "ps_id p = ps_id q \<Longrightarrow> p \<in> set xs \<Longrightarrow> q \<in> set xs \<Longrightarrow> p = q" for p q
    by (auto simp: distinct_map dest: inj_onD)
  show none: "find_producer pid xs = None \<longleftrightarrow> (\<forall>p \<in> set xs. ps_id p \<noteq> pid)"
    by (auto simp: find_producer_def find_None_iff)
  show "find_producer pid xs = Some p \<longleftrightarrow> p \<in> set xs \<and> ps_id p = pid"
  proof
    assume "find_producer pid xs = Some p"
    then show "p \<in> set xs \<and> ps_id p = pid" by (auto simp: find_producer_def find_Some_iff)
  next
    assume p: "p \<in> set xs \<and> ps_id p = pid"
    then obtain q where q: "find_producer pid xs = Some q" using none by (cases "find_producer pid xs") auto
    then have "q \<in> set xs \<and> ps_id q = pid" by (auto simp: find_producer_def find_Some_iff)
    with p inj q show "find_producer pid xs = Some p" by auto
  qed
qed

text \<open>Among children with disjoint, increasing ranges, only the one found can hold the ID.\<close>

lemma find_child:
  assumes kids: "list_all2 covers cs xss" and gaps: "successively (\<lambda>c d. pf_last_id c < pf_first_id d) cs"
    and p: "p \<in> set (concat xss)" "ps_id p = pid"
  shows "\<exists>c xs. find (\<lambda>c. pf_first_id c \<le> pid \<and> pid \<le> pf_last_id c) cs = Some c
    \<and> (c, xs) \<in> set (zip cs xss) \<and> p \<in> set xs"
  using kids gaps p(1)
proof (induction rule: list_all2_induct)
  case (Cons c cs xs xss)
  have gap: "successively (\<lambda>c d. pf_last_id c < pf_first_id d) cs"
    using Cons.prems by (cases cs) auto
  show ?case
  proof (cases "p \<in> set xs")
    case True
    with covers_range [OF Cons.hyps(1) True] p(2) show ?thesis
      by (intro exI [of _ c] exI [of _ xs]) simp
  next
    case False
    then have rest: "p \<in> set (concat xss)" using Cons.prems by simp
    then have "cs \<noteq> []" using Cons.hyps(2) by auto
    then have "pf_last_id c < pf_first_id (hd cs)" using Cons.prems(1) by (cases cs) auto
    moreover have "pf_first_id (hd cs) \<le> ps_id p"
    proof -
      have c: "concat xss \<noteq> [] \<and> sorted_wrt (<) (map ps_id (concat xss))
          \<and> ps_id (hd (concat xss)) = pf_first_id (hd cs)"
        using covers_concat [OF Cons.hyps(2) \<open>cs \<noteq> []\<close> gap] by blast
      with rest show ?thesis by (cases "concat xss") auto
    qed
    ultimately have "\<not> (pf_first_id c \<le> pid \<and> pid \<le> pf_last_id c)" using p(2) by simp
    with Cons.IH [OF gap rest] show ?thesis by auto
  qed
qed simp

lemma producer_lookup_holds:
  assumes legal: "producer_legal E L topic part view rely"
    and run: "producer_lookup E L topic part cursor pid n s = (Inr res, t)"
    and root: "case cursor of None \<Rightarrow> xs = [] | Some r \<Rightarrow> producer_holds E L topic part n (view s) r xs"
  shows "res = find_producer pid xs \<and> keeps_dir (engine_dir L topic part) (view s) (view t)"
  using run root
proof (induction "case cursor of None \<Rightarrow> 0 | Some r \<Rightarrow> Suc (pf_level r)" arbitrary: cursor s xs rule: less_induct)
  case less
  show ?case
  proof (cases cursor)
    case None
    with less.prems show ?thesis by (simp add: find_producer_def)
  next
    case (Some r)
    with less.prems(2) have holds: "producer_holds E L topic part n (view s) r xs" by simp
    note cov = producer_holds_covers [OF holds]
    have sorted: "sorted_wrt (<) (map ps_id xs)" using cov by (simp add: covers_def)
    show ?thesis
    proof (cases "pid < pf_first_id r \<or> pid > pf_last_id r")
      case True
      have "find_producer pid xs = None"
        unfolding find_producer_iff(2) [OF sorted] using True covers_range [OF cov] by fastforce
      with less.prems(1) Some True show ?thesis by auto
    next
      case False
      with less.prems(1) Some obtain p u where get: "read_producer_page E L topic part n r s = (Inr p, u)"
        by (auto split: prod.splits sum.splits)
      have su: "keeps_dir (engine_dir L topic part) (view s) (view u)" by (rule pd.read_later [OF legal get])
      obtain q where q: "producer_stored E L topic part n (view s) r q" using holds by (auto elim: denotesE)
      have "q = p" using pd.read_stored [OF legal get q] by simp
      with q have bounds: "producer_page_bounds (w_uuid_ok E) p (en_prefix L) topic part n
          = Inr (pf_first_id r, pf_last_id r, pf_count r, pf_level r)"
        by (auto dest: producer_stored_bounds)
      from pd.read_holds [OF legal get holds] obtain yss where
        y: "xs = producer_items p @ concat yss" "list_all2 (producer_holds E L topic part n (view u)) (producer_kids p) yss"
        by blast
      show ?thesis
      proof (cases p)
        case (PLeaf ps)
        with less.prems(1) Some False get y su show ?thesis by (auto simp: find_producer_def)
      next
        case (PBranch cs)
        let ?c = "find (\<lambda>c. pf_first_id c \<le> pid \<and> pid \<le> pf_last_id c) cs"
        have kids: "list_all2 covers cs yss"
          using y(2) PBranch by (auto elim: list_all2_mono dest: producer_holds_covers)
        have gaps: "successively (\<lambda>c d. pf_last_id c < pf_first_id d) cs"
          using bounds_ordered(2) bounds PBranch by blast
        have run': "producer_lookup E L topic part ?c pid n u = (Inr res, t)"
          using less.prems(1) Some False get PBranch by simp
        have xs: "xs = concat yss" using y(1) PBranch by simp
        show ?thesis
        proof (cases ?c)
          case None
          have "find_producer pid xs = None"
            unfolding find_producer_iff(2) [OF sorted] unfolding xs
            using find_child [OF kids gaps] None by fastforce
          with run' None su show ?thesis by simp
        next
          case (Some c)
          then have "c \<in> set cs" by (auto simp: find_Some_iff)
          then obtain i where "i < length cs" "c = cs ! i" by (auto simp: in_set_conv_nth)
          then have c: "(c, yss ! i) \<in> set (zip cs yss)" "producer_holds E L topic part n (view u) c (yss ! i)"
            using y(2) PBranch by (auto simp: list_all2_conv_all_nth in_set_zip)
          have lt: "(case ?c of None \<Rightarrow> 0 | Some r \<Rightarrow> Suc (pf_level r)) < (case cursor of None \<Rightarrow> 0 | Some r \<Rightarrow> Suc (pf_level r))"
            using Some \<open>cursor = Some r\<close> find_lower_level get PBranch by fastforce
          from less.hyps [OF lt run', of "yss ! i"] c Some have
            IH: "res = find_producer pid (yss ! i)" "keeps_dir (engine_dir L topic part) (view u) (view t)" by auto
          have sub: "sorted_wrt (<) (map ps_id (yss ! i))"
            using producer_holds_covers [OF c(2)] by (simp add: covers_def)
          have "find_producer pid (yss ! i) = find_producer pid xs"
          proof (cases "find_producer pid xs")
            case None
            then have "\<forall>p \<in> set xs. ps_id p \<noteq> pid" using find_producer_iff(2) [OF sorted] by simp
            moreover have "yss ! i \<in> set yss" using c(1) by (rule set_zip_rightD)
            ultimately have "\<forall>p \<in> set (yss ! i). ps_id p \<noteq> pid" unfolding xs by auto
            then show ?thesis using None find_producer_iff(2) [OF sub] by simp
          next
            case found: (Some p)
            then have "p \<in> set xs \<and> ps_id p = pid" using find_producer_iff(1) [OF sorted] by blast
            then have p: "p \<in> set (concat yss)" "ps_id p = pid" unfolding xs by blast+
            from find_child [OF kids gaps p] Some obtain zs where
              z: "(c, zs) \<in> set (zip cs yss)" "p \<in> set zs" by auto
            have "zs = yss ! i"
            proof -
              have "list_all2 (producer_holds E L topic part n (view u)) cs yss" using y(2) PBranch by simp
              then have "producer_holds E L topic part n (view u) c zs" using z(1)
                by (auto simp: list_all2_iff)
              then show ?thesis using pd.holds_unique c(2) by blast
            qed
            with z p found show ?thesis by (auto simp: find_producer_iff(1) [OF sub])
          qed
          with IH su show ?thesis by (auto intro: keeps_dir_trans)
        qed
      qed
    qed
  qed
qed

section \<open>Update\<close>

lemma bt_insert_append_left:
  "\<forall>k' \<in> set (map fst xs). k' < k \<Longrightarrow> bt_insert k v (xs @ ys) = xs @ bt_insert k v ys"
  by (induction xs) auto

lemma bt_insert_append_right:
  "\<forall>k' \<in> set (map fst zs). k < k' \<Longrightarrow> bt_insert k v (ys @ zs) = bt_insert k v ys @ zs"
proof (induction ys)
  case Nil
  then show ?case by (cases zs) auto
qed auto

lemma put_producer_zip:
  assumes "\<forall>q \<in> set l. ps_id q < ps_id p" "\<forall>q \<in> set r. ps_id p < ps_id q"
  shows "put_producer p (l @ leaf @ r) = l @ put_producer p leaf @ r"
  using assms by (simp add: put_producer_def bt_values_def bt_insert_append_left bt_insert_append_right comp_def)

lemma put_producer_Nil [simp]: "put_producer p [] = [p]"
  by (simp add: put_producer_def bt_values_def)

lemma find_put_producer:
  assumes "sorted_wrt (<) (map ps_id xs)"
  shows "find_producer pid (put_producer p xs) = (if pid = ps_id p then Some p else find_producer pid xs)"
proof -
  let ?m = "map (\<lambda>q. (ps_id q, q)) xs"
  have inv: "bt_inv ?m" using assms by (simp add: bt_inv_def comp_def)
  have keyed: "\<forall>e \<in> set (bt_insert (ps_id p) p ?m). fst e = ps_id (snd e)"
  proof -
    have "set (bt_insert k v m) \<subseteq> insert (k, v) (set m)" for k :: int and v :: producer_state and m
      by (induction k v m rule: bt_insert.induct) auto
    then show ?thesis by fastforce
  qed
  have lookup: "find_producer pid (map snd es) = map_of es pid"
    if "\<forall>e \<in> set es. fst e = ps_id (snd e)" for es :: "(int \<times> producer_state) list"
    using that by (induction es) (auto simp: find_producer_def)
  have "find_producer pid (put_producer p xs) = bt_get (bt_insert (ps_id p) p ?m) pid"
    unfolding put_producer_def bt_values_def bt_get_def by (rule lookup [OF keyed])
  also have "\<dots> = (if pid = ps_id p then Some p else bt_get ?m pid)"
    by (simp add: bt.get_ins [OF inv])
  also have "bt_get ?m pid = find_producer pid xs"
    using lookup [of ?m] by (simp add: bt_get_def comp_def)
  finally show ?thesis .
qed

text \<open>The states to the left and right of the leaf that the path leads to.\<close>

fun zipped ::
  "(producer_ref \<Rightarrow> producer_state list \<Rightarrow> bool) \<Rightarrow> (producer_ref list \<times> nat) list
   \<Rightarrow> producer_state list \<Rightarrow> producer_state list \<Rightarrow> bool" where
  "zipped h [] l r \<longleftrightarrow> l = [] \<and> r = []"
| "zipped h ((cs, pos) # path) l r \<longleftrightarrow> pos < length cs
     \<and> (\<exists>lss rss l' r'. list_all2 h (take pos cs) lss \<and> list_all2 h (drop (Suc pos) cs) rss
          \<and> l = l' @ concat lss \<and> r = concat rss @ r' \<and> zipped h path l' r')"

lemma zipped_mono:
  assumes "zipped h path l r" "\<And>c xs. h c xs \<Longrightarrow> h' c xs"
  shows "zipped h' path l r"
  using assms(1)
proof (induction path arbitrary: l r)
  case (Cons e path)
  obtain cs pos where e: "e = (cs, pos)" by force
  from Cons.prems e obtain lss rss l' r' where z: "pos < length cs" "list_all2 h (take pos cs) lss"
      "list_all2 h (drop (Suc pos) cs) rss" "l = l' @ concat lss" "r = concat rss @ r'" "zipped h path l' r'"
    by auto
  have "list_all2 h' (take pos cs) lss" "list_all2 h' (drop (Suc pos) cs) rss"
    using z(2,3) assms(2) by (auto elim: list_all2_mono)
  with z Cons.IH [OF z(6)] e show ?case by auto
qed simp

lemma producer_descend_holds:
  assumes legal: "producer_legal E L topic part view rely"
    and run: "producer_descend E L topic part pid n r path s = (Inr (leaf, path'), t)"
    and holds: "producer_holds E L topic part n (view s) r xs"
    and zip: "zipped (producer_holds E L topic part n (view s)) path l rr"
    and sides: "\<forall>q \<in> set l. ps_id q < pid" "\<forall>q \<in> set rr. pid < ps_id q"
  shows "\<exists>l' r'. zipped (producer_holds E L topic part n (view t)) path' l' r'
    \<and> l @ xs @ rr = l' @ leaf @ r' \<and> (\<forall>q \<in> set l'. ps_id q < pid) \<and> (\<forall>q \<in> set r'. pid < ps_id q)
    \<and> keeps_dir (engine_dir L topic part) (view s) (view t)"
  using run holds zip sides
proof (induction "pf_level r" arbitrary: r path s xs l rr rule: less_induct)
  case less
  let ?h = "\<lambda>s. producer_holds E L topic part n (view s)"
  from less.prems(1) obtain p u where get: "read_producer_page E L topic part n r s = (Inr p, u)"
    by (auto simp: producer_descend.simps [of E L topic part pid n r path s] split: prod.splits sum.splits)
  have su: "keeps_dir (engine_dir L topic part) (view s) (view u)" by (rule pd.read_later [OF legal get])
  have zip_u: "zipped (?h u) path l rr" by (rule zipped_mono [OF less.prems(3)]) (rule pd.holds_later [OF _ su])
  from pd.read_holds [OF legal get less.prems(2)] obtain yss where
    y: "xs = producer_items p @ concat yss" "list_all2 (?h u) (producer_kids p) yss" by blast
  show ?case
  proof (cases p)
    case (PLeaf ps)
    with less.prems(1) get have "leaf = ps" "path' = path" "t = u"
      by (auto simp: producer_descend.simps [of E L topic part pid n r path s])
    with zip_u y PLeaf less.prems(4,5) su show ?thesis by (intro exI [of _ l] exI [of _ rr]) auto
  next
    case (PBranch cs)
    let ?pos = "child_position pid cs"
    have "cs \<noteq> []" using read_producer_Branch(1) get PBranch by fastforce
    then have pos: "?pos < length cs" by (rule child_position_less)
    have len: "length yss = length cs" using y(2) PBranch by (simp add: list_all2_lengthD)
    have run': "producer_descend E L topic part pid n (cs ! ?pos) ((cs, ?pos) # path) u = (Inr (leaf, path'), t)"
      using less.prems(1) get PBranch by (simp add: producer_descend.simps [of E L topic part pid n r path s])
    have kids: "list_all2 (?h u) cs yss" using y(2) PBranch by simp
    have cov: "list_all2 covers cs yss" using kids by (auto elim: list_all2_mono dest: producer_holds_covers)
    obtain q where q: "producer_stored E L topic part n (view s) r q"
      using less.prems(2) by (auto elim: denotesE)
    have "q = p" using pd.read_stored [OF legal get q] by simp
    with q PBranch have "successively (\<lambda>c d. pf_last_id c < pf_first_id d) cs"
      using producer_stored_bounds bounds_ordered(2) by blast
    moreover have "\<forall>c \<in> set cs. pf_first_id c \<le> pf_last_id c"
      using cov covers_nonempty_range by (fastforce simp: list_all2_conv_all_nth in_set_conv_nth)
    ultimately have order: "pf_last_id (cs ! i) < pf_first_id (cs ! j)" if "i < j" "j < length cs" for i j
      using that
    proof (induction j)
      case (Suc j)
      have step: "pf_last_id (cs ! j) < pf_first_id (cs ! Suc j)"
        using Suc.prems(1,4) by (simp add: successively_conv_nth)
      show ?case
      proof (cases "i = j")
        case False
        then have "pf_last_id (cs ! i) < pf_first_id (cs ! j)" using Suc by simp
        moreover have "pf_first_id (cs ! j) \<le> pf_last_id (cs ! j)" using Suc.prems(2,4) by simp
        ultimately show ?thesis using step by linarith
      qed (use step in simp)
    qed simp
    have left: "\<forall>q \<in> set (concat (take ?pos yss)). ps_id q < pid"
    proof
      fix q assume "q \<in> set (concat (take ?pos yss))"
      then obtain ys where "ys \<in> set (take ?pos yss)" "q \<in> set ys" by auto
      then obtain i where i: "i < ?pos" "q \<in> set (yss ! i)" using pos len
        by (auto simp: in_set_conv_nth [of ys])
      then have "\<not> pid \<le> pf_last_id (cs ! i)"
        using order [of i ?pos] pos position_Some [of "\<lambda>c. pid \<le> pf_last_id c" cs] position_None [of "\<lambda>c. pid \<le> pf_last_id c" cs]
        by (auto simp: child_position_def split: option.splits)
      moreover have "ps_id q \<le> pf_last_id (cs ! i)"
        using cov i pos by (intro covers_range(2) [OF _ i(2)]) (simp add: list_all2_conv_all_nth)
      ultimately show "ps_id q < pid" by simp
    qed
    have right: "\<forall>q \<in> set (concat (drop (Suc ?pos) yss)). pid < ps_id q"
    proof
      fix q assume "q \<in> set (concat (drop (Suc ?pos) yss))"
      then obtain ys where ys: "ys \<in> set (drop (Suc ?pos) yss)" "q \<in> set ys" by auto
      then obtain k where "k < length yss - Suc ?pos" "ys = yss ! (Suc ?pos + k)"
        by (auto simp: in_set_conv_nth [of ys])
      with ys(2) len have "?pos < Suc ?pos + k \<and> Suc ?pos + k < length cs \<and> q \<in> set (yss ! (Suc ?pos + k))"
        by simp
      then obtain i where i: "?pos < i" "i < length cs" "q \<in> set (yss ! i)" by blast
      then have "position (\<lambda>c. pid \<le> pf_last_id c) cs = Some ?pos"
        by (auto simp: child_position_def split: option.splits)
      then have "pid \<le> pf_last_id (cs ! ?pos)" using position_Some by fastforce
      moreover have "pf_first_id (cs ! i) \<le> ps_id q"
        using cov i by (intro covers_range(1) [OF _ i(3)]) (simp add: list_all2_conv_all_nth)
      ultimately show "pid < ps_id q" using order [OF i(1,2)] by linarith
    qed
    have child: "?h u (cs ! ?pos) (yss ! ?pos)" using kids pos by (simp add: list_all2_conv_all_nth)
    have zip': "zipped (?h u) ((cs, ?pos) # path) (l @ concat (take ?pos yss)) (concat (drop (Suc ?pos) yss) @ rr)"
      unfolding zipped.simps
      by (intro conjI exI [of _ "take ?pos yss"] exI [of _ "drop (Suc ?pos) yss"] exI [of _ l] exI [of _ rr]
          list_all2_takeI list_all2_dropI refl pos zip_u kids)
    have level: "pf_level (cs ! ?pos) < pf_level r" using child_lower_level get PBranch by fastforce
    have "l @ xs @ rr = (l @ concat (take ?pos yss)) @ yss ! ?pos @ (concat (drop (Suc ?pos) yss) @ rr)"
      using y(1) PBranch pos len by (metis (no_types, lifting) append.assoc append_Nil concat.simps(2) concat_append id_take_nth_drop producer_items.simps(2))
    with less.hyps [OF level run' child zip'] left right less.prems(4,5) su
    show ?thesis by (fastforce intro: keeps_dir_trans)
  qed
qed

lemma split_page_denoted:
  assumes "\<And>zs. denot (mk zs) (f zs)" "\<And>xs ys. f (xs @ ys) = f xs @ f ys"
  shows "\<exists>pss. list_all2 denot (split_page mk xs) pss \<and> concat pss = f xs"
proof (cases "length xs > PAGE_ENTRIES")
  case True
  have "f xs = f (take (length xs div 2) xs) @ f (drop (length xs div 2) xs)"
    by (metis append_take_drop_id assms(2))
  with True assms(1) show ?thesis
    by (auto simp: split_page_def intro!: exI [of _ "[f (take (length xs div 2) xs), f (drop (length xs div 2) xs)]"])
next
  case False
  with assms(1) show ?thesis by (auto simp: split_page_def intro!: exI [of _ "[f xs]"])
qed

lemma split_branch_denoted:
  assumes "list_all2 (producer_holds E L topic part n m) cs xss"
  shows "\<exists>pss. list_all2 (denoted (producer_holds E L topic part n m) producer_kids producer_items) (split_page PBranch cs) pss
    \<and> concat pss = concat xss"
proof -
  let ?d = "denoted (producer_holds E L topic part n m) producer_kids producer_items"
  have d: "?d (PBranch ds) (concat yss)" if "list_all2 (producer_holds E L topic part n m) ds yss" for ds yss
    using that by (auto simp: denoted_def)
  show ?thesis
  proof (cases "length cs > PAGE_ENTRIES")
    case True
    let ?k = "length cs div 2"
    have "?d (PBranch (take ?k cs)) (concat (take ?k xss))" "?d (PBranch (drop ?k cs)) (concat (drop ?k xss))"
      using assms by (auto intro!: d list_all2_takeI list_all2_dropI)
    then have "list_all2 ?d (split_page PBranch cs) [concat (take ?k xss), concat (drop ?k xss)]"
      using True by (simp add: split_page_def)
    moreover have "concat [concat (take ?k xss), concat (drop ?k xss)] = concat xss"
      by (metis append_take_drop_id concat_append concat.simps append_Nil2)
    ultimately show ?thesis by blast
  next
    case False
    then have "list_all2 ?d (split_page PBranch cs) [concat xss]" using d [OF assms] by (simp add: split_page_def)
    then show ?thesis by (intro exI [of _ "[concat xss]"]) simp
  qed
qed

lemma write_upwards_holds:
  assumes legal: "producer_legal E L topic part view rely"
    and run: "write_upwards E L topic part n pages path s = (Inr root, t)"
    and pages: "list_all2 (denoted (producer_holds E L topic part n (view s)) producer_kids producer_items) pages pss" "pages \<noteq> []"
    and zip: "zipped (producer_holds E L topic part n (view s)) path l r"
  shows "producer_holds E L topic part n (view t) root (l @ concat pss @ r)
    \<and> keeps_dir (engine_dir L topic part) (view s) (view t)"
  using run pages zip
proof (induction path arbitrary: pages pss s l r)
  case Nil
  let ?h = "\<lambda>s. producer_holds E L topic part n (view s)"
  from Nil.prems(1) obtain refs u where
    m: "io_map (write_producer_page E L topic part n) pages s = (Inr refs, u)"
    and rest: "(if length refs = 1 then io_ret (hd refs) else write_producer_page E L topic part n (PBranch refs)) u = (Inr root, t)"
    by (auto simp: result_simps)
  from pd.put_all_holds [OF legal m _ Nil.prems(2)] have
    refs: "list_all2 (?h u) refs pss" and su: "keeps_dir (engine_dir L topic part) (view s) (view u)" by auto
  show ?case
  proof (cases "length refs = 1")
    case True
    then obtain x where "refs = [x]" by (cases refs) auto
    with refs rest su Nil.prems(4) show ?thesis by (auto simp: list_all2_Cons1)
  next
    case False
    with rest have w: "write_producer_page E L topic part n (PBranch refs) u = (Inr root, t)" by simp
    have "?h t root (concat pss)" using pd.write_holds [OF legal _ w, of pss] refs by simp
    with pd.write_later [OF legal w] su Nil.prems(4) show ?thesis by (auto intro: keeps_dir_trans)
  qed
next
  case (Cons e path)
  let ?h = "\<lambda>s. producer_holds E L topic part n (view s)"
  obtain cs pos where e: "e = (cs, pos)" by force
  from Cons.prems(1) e obtain refs u where
    m: "io_map (write_producer_page E L topic part n) pages s = (Inr refs, u)"
    and rest: "write_upwards E L topic part n (split_page PBranch (take pos cs @ refs @ drop (Suc pos) cs)) path u = (Inr root, t)"
    by (auto simp: result_simps)
  from pd.put_all_holds [OF legal m _ Cons.prems(2)] have
    refs: "list_all2 (?h u) refs pss" and su: "keeps_dir (engine_dir L topic part) (view s) (view u)" by auto
  from Cons.prems(4) e obtain lss rss l' r' where z: "list_all2 (?h s) (take pos cs) lss"
      "list_all2 (?h s) (drop (Suc pos) cs) rss" "l = l' @ concat lss" "r = concat rss @ r'" "zipped (?h s) path l' r'"
    by auto
  have later: "?h s c xs \<Longrightarrow> ?h u c xs" for c xs by (rule pd.holds_later [OF _ su])
  have all: "list_all2 (?h u) (take pos cs @ refs @ drop (Suc pos) cs) (lss @ pss @ rss)"
    using list_all2_mono [OF z(1)] list_all2_mono [OF z(2)] later refs by (auto intro!: list_all2_appendI)
  obtain pss' where pss': "list_all2 (denoted (producer_holds E L topic part n (view u)) producer_kids producer_items) (split_page PBranch (take pos cs @ refs @ drop (Suc pos) cs)) pss'"
      "concat pss' = concat (lss @ pss @ rss)"
    using split_branch_denoted [OF all] by blast
  have "split_page PBranch (take pos cs @ refs @ drop (Suc pos) cs) \<noteq> []" by (simp add: split_page_def)
  from Cons.IH [OF rest pss'(1) this zipped_mono [OF z(5) later]] pss'(2) z(3,4) su
  show ?case by (auto intro: keeps_dir_trans)
qed

lemma update_producer_holds:
  assumes legal: "producer_legal E L topic part view rely"
    and run: "update_producer E L topic part root state n s = (Inr r, t)"
    and root: "case root of None \<Rightarrow> xs = [] | Some old \<Rightarrow> producer_holds E L topic part n (view s) old xs"
  shows "producer_holds E L topic part n (view t) r (put_producer state xs)
    \<and> keeps_dir (engine_dir L topic part) (view s) (view t)"
proof -
  let ?h = "\<lambda>s. producer_holds E L topic part n (view s)"
  from run obtain leaf path u where
    down: "(case root of None \<Rightarrow> io_ret ([], []) | Some r \<Rightarrow> producer_descend E L topic part (ps_id state) n r []) s
      = (Inr (leaf, path), u)"
    and up: "write_upwards E L topic part n (split_page PLeaf (put_producer state leaf)) path u = (Inr r, t)"
    by (auto simp: update_producer_def result_simps)
  obtain l r' where lr: "zipped (?h u) path l r'" "xs = l @ leaf @ r'" "\<forall>q \<in> set l. ps_id q < ps_id state"
    "\<forall>q \<in> set r'. ps_id state < ps_id q" and su: "keeps_dir (engine_dir L topic part) (view s) (view u)"
  proof (cases root)
    case None
    with down root that [of "[]" "[]"] show ?thesis by auto
  next
    case (Some old)
    with down root have "producer_descend E L topic part (ps_id state) n old [] s = (Inr (leaf, path), u)"
      "?h s old xs" by auto
    from producer_descend_holds [OF legal this, of "[]" "[]"] that show ?thesis by auto
  qed
  obtain pss where "list_all2 (denoted (producer_holds E L topic part n (view u)) producer_kids producer_items) (split_page PLeaf (put_producer state leaf)) pss"
      "concat pss = put_producer state leaf"
    using split_page_denoted [of "denoted (producer_holds E L topic part n (view u)) producer_kids producer_items" PLeaf "\<lambda>x. x"] by (auto simp: denoted_def)
  from write_upwards_holds [OF legal up this(1) _ lr(1)] this(2) put_producer_zip [OF lr(3,4)] lr(2) su
  show ?thesis by (auto simp: split_page_def intro: keeps_dir_trans)
qed

text \<open>C29 (producer_update_lookup). After one producer's state was written to the directory, a
  lookup by the new reference finds exactly that state for this producer and what the old directory
  had for every other one, through any number of page splits; the old directory stays intact.\<close>

theorem producer_update_lookup:
  assumes "producer_legal E L topic part view rely"
    and "case root of None \<Rightarrow> xs = [] | Some old \<Rightarrow> producer_holds E L topic part n (view s) old xs"
    and "update_producer E L topic part root state n s = (Inr r, t)"
    and "producer_lookup E L topic part (Some r) pid n t = (Inr found, u)"
  shows "found = (if pid = ps_id state then Some state else find_producer pid xs)
    \<and> keeps_dir (engine_dir L topic part) (view s) (view u)"
proof -
  from update_producer_holds [OF assms(1,3,2)] have
    new: "producer_holds E L topic part n (view t) r (put_producer state xs)"
    and st: "keeps_dir (engine_dir L topic part) (view s) (view t)" by auto
  have sorted: "sorted_wrt (<) (map ps_id xs)"
    using assms(2) by (cases root) (auto dest!: producer_holds_covers simp: covers_def)
  from producer_lookup_holds [OF assms(1,4), of "put_producer state xs"] new find_put_producer [OF sorted] st
  show ?thesis by (auto intro: keeps_dir_trans)
qed

text \<open>A lookup finds the state of a producer exactly if the directory
  denotes one, although it reads only one page per level.\<close>

theorem producer_lookup_exact:
  assumes "producer_legal E L topic part view rely"
    and "producer_holds E L topic part n (view s) r xs"
    and "producer_lookup E L topic part (Some r) pid n s = (Inr found, t)"
  shows "found = find (\<lambda>p. ps_id p = pid) xs"
  using producer_lookup_holds [OF assms(1,3), of xs] assms(2) by (simp add: find_producer_def)

end
