(* ===== verification/Log_Plan_Laws.thy ===== *)
theory Log_Plan_Laws
  imports Log_Steps Producer_Directory_Laws
begin

text \<open>
  The decision an append takes about its batches, as a function of what the log's root denotes:
  the producers' states and the end offset. \<open>plan_batches\<close> of \<open>src/log.rs\<close> looks the states up in
  the pages of the producer directory, one producer at a time and each at most once; \<open>decides\<close>
  knows them all. The two agree, and the directory that the append writes denotes the states
  after the decision.
\<close>

section \<open>Deciding a request\<close>

text \<open>
  The answers, the batches that are new with their offsets, and the producers' states afterwards;
  \<open>None\<close> if a batch is rejected.
\<close>

fun decides ::
  "(int \<Rightarrow> producer_state option) \<Rightarrow> int \<Rightarrow> (kafka_record list \<times> string) list
   \<Rightarrow> (append_result list \<times> (kafka_record list \<times> int) list \<times> (int \<Rightarrow> producer_state option)) option" where
  "decides known n [] = Some ([], [], known)"
| "decides known n ((records, fp) # rest) =
     (let first = hd records; pid = rc_producer_id first; end_offset = n + int (length records)
      in if pid < 0
         then (if in_i64 end_offset
               then (case decides known end_offset rest of
                       None \<Rightarrow> None
                     | Some (rs, adds, known') \<Rightarrow>
                         Some (\<lparr>ar_base_offset = n, ar_last_offset = end_offset - 1\<rparr> # rs, (records, n) # adds, known'))
               else None)
         else let state = (case known pid of Some state \<Rightarrow> state | None \<Rightarrow> producer_new pid (rc_producer_epoch first))
              in case accept state (rc_producer_epoch first) (rc_sequence first) (length records) fp n of
                   (Inl e, _) \<Rightarrow> None
                 | (Inr r, state') \<Rightarrow>
                     (case decides (known(pid \<mapsto> state')) (if ar_base_offset r = n then ar_last_offset r + 1 else n) rest of
                        None \<Rightarrow> None
                      | Some (rs, adds, known') \<Rightarrow>
                          Some (r # rs, if ar_base_offset r = n then (records, n) # adds else adds, known')))"

text \<open>The answer of the request: from the first batch's base offset to the last one's last offset.\<close>

definition answer :: "append_result list \<Rightarrow> append_result" where
  "answer rs = \<lparr>ar_base_offset = ar_base_offset (hd rs), ar_last_offset = ar_last_offset (last rs)\<rparr>"

text \<open>What is known after some batches: the states they left, and the directory for other producers.\<close>

definition known_states :: "(int, producer_state) btree_map \<Rightarrow> producer_state list \<Rightarrow> int \<Rightarrow> producer_state option" where
  "known_states states ps = (\<lambda>pid. case bt_get states pid of Some state \<Rightarrow> Some state | None \<Rightarrow> find_producer pid ps)"

lemma known_states_Nil [simp]: "known_states [] ps = (\<lambda>pid. find_producer pid ps)"
  by (simp add: known_states_def bt_get_def)

lemma known_states_insert [simp]:
  "bt_inv states \<Longrightarrow> known_states (bt_insert pid state states) ps = (known_states states ps)(pid \<mapsto> state)"
  by (auto simp: known_states_def bt.get_ins fun_eq_iff)

definition directory_holds ::
  "('s, 'm) log_env_scheme \<Rightarrow> engine \<Rightarrow> string \<Rightarrow> int \<Rightarrow> int \<Rightarrow> objects \<Rightarrow> producer_ref option \<Rightarrow> producer_state list \<Rightarrow> bool" where
  "directory_holds E L topic part n m directory ps \<longleftrightarrow>
     (case directory of None \<Rightarrow> ps = [] | Some r \<Rightarrow> producer_holds E L topic part n m r ps)"

lemma directory_holds_later:
  "directory_holds E L topic part n m directory ps \<Longrightarrow> keeps_dir (engine_dir L topic part) m m' \<Longrightarrow>
   directory_holds E L topic part n m' directory ps"
  unfolding directory_holds_def by (auto intro: pd.holds_later split: option.splits)

lemma directory_sorted: "directory_holds E L topic part n m directory ps \<Longrightarrow> sorted_wrt (<) (map ps_id ps)"
  by (auto simp: directory_holds_def covers_def dest!: producer_holds_covers split: option.splits)

section \<open>The plan follows the decision\<close>

lemma accept_batch_same_id: "accept_batch p s c f n = (Inr r, p') \<Longrightarrow> ps_id p' = ps_id p"
  by (erule accept_batch_cases) auto

lemma accept_same_id: "accept p e s c f n = (Inr r, p') \<Longrightarrow> ps_id p' = ps_id p"
  using accept_batch_same_id [of "p\<lparr>ps_epoch := e, ps_batches := []\<rparr>" s c f n r p'] accept_batch_same_id [of p s c f n r p']
  by (auto simp: accept_def split: if_splits)

definition states_ok :: "(int, producer_state) btree_map \<Rightarrow> bool" where
  "states_ok states \<longleftrightarrow> bt_inv states \<and> (\<forall>(pid, state) \<in> set states. ps_id state = pid)"

lemma bt_insert_subset: "set (bt_insert k v m) \<subseteq> insert (k, v) (set m)"
  by (induction k v m rule: bt_insert.induct) auto

lemma states_ok_insert: "states_ok states \<Longrightarrow> ps_id state = pid \<Longrightarrow> states_ok (bt_insert pid state states)"
  using bt_insert_subset [of pid state states] unfolding states_ok_def by fast

lemma plan_state_known:
  assumes legal: "producer_legal E L topic part view rely"
    and dir: "directory_holds E L topic part initial (view s) directory ps"
    and run: "plan_state E L topic part directory initial first states s = (Inr state, t)"
  shows "state = (case known_states states ps (rc_producer_id first) of
        Some state \<Rightarrow> state | None \<Rightarrow> producer_new (rc_producer_id first) (rc_producer_epoch first))"
    and "keeps_dir (engine_dir L topic part) (view s) (view t)"
    and "states_ok states \<Longrightarrow> ps_id state = rc_producer_id first"
proof -
  let ?pid = "rc_producer_id first"
  have "state = (case known_states states ps ?pid of Some state \<Rightarrow> state | None \<Rightarrow> producer_new ?pid (rc_producer_epoch first))
      \<and> keeps_dir (engine_dir L topic part) (view s) (view t)"
  proof (cases "bt_get states ?pid")
    case (Some st)
    with run show ?thesis by (simp add: plan_state_def known_states_def)
  next
    case None
    with run obtain found where
      look: "producer_lookup E L topic part directory ?pid initial s = (Inr found, t)"
      and state: "state = (case found of Some state \<Rightarrow> state | None \<Rightarrow> producer_new ?pid (rc_producer_epoch first))"
      by (auto simp: plan_state_def result_simps)
    from producer_lookup_holds [OF legal look] dir
    have "found = find_producer ?pid ps \<and> keeps_dir (engine_dir L topic part) (view s) (view t)"
      unfolding directory_holds_def by blast
    with None state show ?thesis by (simp add: known_states_def)
  qed
  then show st: "state = (case known_states states ps ?pid of Some state \<Rightarrow> state | None \<Rightarrow> producer_new ?pid (rc_producer_epoch first))"
    and "keeps_dir (engine_dir L topic part) (view s) (view t)" by blast+
  assume ok: "states_ok states"
  show "ps_id state = ?pid"
  proof (cases "known_states states ps ?pid")
    case None
    with st show ?thesis by (simp add: producer_new_def)
  next
    case (Some st')
    then have "bt_get states ?pid = Some st' \<or> find_producer ?pid ps = Some st'"
      by (auto simp: known_states_def split: option.splits)
    then have "ps_id st' = ?pid"
      using ok by (auto simp: states_ok_def bt_get_set find_producer_def find_Some_iff)
    with st Some show ?thesis by simp
  qed
qed


text \<open>The batches a state remembers end at or before the end of the log.\<close>

definition behind :: "int \<Rightarrow> producer_state \<Rightarrow> bool" where
  "behind n p \<longleftrightarrow> (\<forall>b \<in> set (ps_batches p). 0 \<le> bi_base_offset b \<and> 0 < bi_count b
     \<and> bi_base_offset b + int (bi_count b) \<le> n \<and> in_i64 (bi_base_offset b + int (bi_count b)))"

lemma behind_new [simp]: "behind n (producer_new pid e)"
  by (simp add: behind_def producer_new_def)

lemma behind_mono: "behind n p \<Longrightarrow> n \<le> n' \<Longrightarrow> behind n' p"
  by (force simp: behind_def)

lemma behind_push: "behind n p \<Longrightarrow> behind n (p\<lparr>ps_batches := [b]\<rparr>) \<Longrightarrow> behind n (p\<lparr>ps_batches := push_batch (ps_batches p) b\<rparr>)"
  using push_batch_cases [of "ps_batches p" b] by (cases "ps_batches p") (auto simp: behind_def)

lemma accept_batch_behind:
  assumes run: "accept_batch p s c f n = (Inr r, p')" and p: "behind n p" and n: "0 \<le> n" and c: "0 < c"
  shows "behind (if ar_base_offset r = n then ar_last_offset r + 1 else n) p'
    \<and> ar_last_offset r + 1 = ar_base_offset r + int c \<and> in_i64 (ar_last_offset r + 1)
    \<and> (ar_base_offset r = n \<or> ar_last_offset r < n)"
  using run
proof (cases rule: accept_batch_cases)
  case (retry b)
  with p have b: "0 \<le> bi_base_offset b" "bi_base_offset b + int c \<le> n" "in_i64 (bi_base_offset b + int c)"
    by (auto simp: behind_def)
  then have "in_i64 (bi_base_offset b + int c - 1)" using c by (auto simp: range_simps)
  with b(3) retry have "ar_last_offset r = bi_base_offset b + int c - 1" by simp
  with retry b c p show ?thesis by simp
next
  case fresh
  then have "in_i64 (n + int c - 1)" using n c by (auto simp: range_simps)
  with fresh have last: "ar_last_offset r + 1 = n + int c" by simp
  have "behind (n + int c) p'"
    unfolding fresh(5) by (rule behind_push [OF behind_mono [OF p]]) (use fresh(3) n c in \<open>simp_all add: behind_def\<close>)
  with fresh last show ?thesis by simp
qed

lemma accept_behind:
  assumes "accept p e s c f n = (Inr r, p')" "behind n p" "0 \<le> n" "0 < c"
  shows "behind (if ar_base_offset r = n then ar_last_offset r + 1 else n) p'
    \<and> ar_last_offset r + 1 = ar_base_offset r + int c \<and> in_i64 (ar_last_offset r + 1)
    \<and> (ar_base_offset r = n \<or> ar_last_offset r < n)"
proof -
  have "behind n (p\<lparr>ps_epoch := e, ps_batches := []\<rparr>)" by (simp add: behind_def)
  with assms accept_batch_behind [of "p\<lparr>ps_epoch := e, ps_batches := []\<rparr>" s c f n r p'] accept_batch_behind [of p s c f n r p']
  show ?thesis by (auto simp: accept_def split: if_splits)
qed

lemma validate_history_behind:
  "validate_history prev n bs = Inr u \<Longrightarrow> behind n (p\<lparr>ps_batches := bs\<rparr>)"
proof (induction bs arbitrary: prev)
  case (Cons b bs)
  from Cons.prems have rest: "validate_history (Some b) n bs = Inr u" by (simp split: if_splits)
  from Cons.prems have "0 \<le> bi_base_offset b" "0 < bi_count b"
    "\<not> (case checked_add_i64 (bi_base_offset b) (int (bi_count b)) of None \<Rightarrow> True | Some e \<Rightarrow> e > n)"
    by (simp_all split: if_splits)
  with Cons.IH [OF rest] show ?case by (auto simp: behind_def checked_add_i64_def split: if_splits)
qed (simp add: behind_def)

lemma producer_holds_behind: "producer_holds E L topic part n m r ps \<Longrightarrow> \<forall>p \<in> set ps. behind n p"
proof (induction rule: denotes.induct)
  case (node r p xss)
  have "\<forall>q \<in> set (producer_items p). behind n q"
  proof (cases p)
    case (PLeaf qs)
    with producer_stored_bounds [OF node.hyps] have valid: "\<forall>q \<in> set qs. validate_producer_state q n = Inr ()"
      by (auto simp: result_simps split: if_splits)
    have "behind n q" if "validate_producer_state q n = Inr ()" for q
      using that validate_history_behind [of None n "ps_batches q" "()" q]
      by (simp add: validate_producer_state_def split: if_splits)
    with valid PLeaf show ?thesis by simp
  qed simp
  moreover have "\<forall>xs \<in> set xss. \<forall>q \<in> set xs. behind n q"
    using node.IH by (metis (no_types, lifting) in_set_conv_nth list_all2_conv_all_nth)
  ultimately show ?case by auto
qed

lemma directory_behind: "directory_holds E L topic part n m directory ps \<Longrightarrow> \<forall>p \<in> set ps. behind n p"
  by (auto simp: directory_holds_def dest!: producer_holds_behind split: option.splits)


section \<open>Planning one batch after the other\<close>

definition anonymous :: "kafka_record list \<Rightarrow> bool" where
  "anonymous records \<longleftrightarrow> records \<noteq> [] \<and> rc_producer_id (hd records) < 0"

lemma plan_batch_anonymous:
  assumes "plan_batch E L topic part directory initial records fp plan s = (Inr plan', t)"
    and "anonymous records" "0 \<le> ap_next_offset plan"
  shows "plan' = plan\<lparr>ap_additions := ap_additions plan @ [(records, ap_next_offset plan)],
        ap_results := ap_results plan @ [\<lparr>ar_base_offset = ap_next_offset plan,
          ar_last_offset = ap_next_offset plan + int (length records) - 1\<rparr>],
        ap_next_offset := ap_next_offset plan + int (length records)\<rparr>
    \<and> in_i64 (ap_next_offset plan + int (length records))"
proof -
  let ?n = "ap_next_offset plan" and ?c = "int (length records)"
  have c: "0 < ?c" using assms(2) by (simp add: anonymous_def)
  have "checked_add_i64 ?n ?c = Some (?n + ?c)"
    using assms(1,2) by (auto simp: plan_batch_def anonymous_def Let_def result_simps checked_add_i64_def split: if_splits)
  then have r: "in_i64 (?n + ?c)" "in_i64 (?n + ?c - 1)"
    using c assms(3) by (auto simp: checked_add_i64_def range_simps split: if_splits)
  with assms(1,2) show ?thesis
    by (auto simp: plan_batch_def anonymous_def Let_def result_simps checked_add_i64_def split: if_splits)
qed

lemma plan_batch_producer:
  assumes run: "plan_batch E L topic part directory initial records fp plan s = (Inr plan', t)"
    and pid: "0 \<le> rc_producer_id (hd records)"
  obtains state r state' where
    "plan_state E L topic part directory initial (hd records) (ap_states plan) s = (Inr state, t)"
    "accept state (rc_producer_epoch (hd records)) (rc_sequence (hd records)) (length records) fp (ap_next_offset plan) = (Inr r, state')"
    "ap_states plan' = bt_insert (rc_producer_id (hd records)) state' (ap_states plan)"
    "ap_results plan' = ap_results plan @ [r]"
    "ap_additions plan' = ap_additions plan @ (if ar_base_offset r = ap_next_offset plan then [(records, ap_next_offset plan)] else [])"
    "ap_next_offset plan' = (if ar_base_offset r = ap_next_offset plan then wrap_i64 (ar_last_offset r + 1) else ap_next_offset plan)"
proof -
  let ?first = "hd records" and ?n = "ap_next_offset plan"
  obtain y u where st: "plan_state E L topic part directory initial ?first (ap_states plan) s = (y, u)" by force
  with run pid obtain state where y: "y = Inr state" by (cases y) (auto simp: plan_batch_def Let_def io_bind_def)
  obtain z state' where acc: "accept state (rc_producer_epoch ?first) (rc_sequence ?first) (length records) fp ?n = (z, state')" by force
  with run pid st y obtain r where z: "z = Inr r" by (cases z) (auto simp: plan_batch_def Let_def io_bind_def)
  from run pid st y acc z have "u = t" "plan' = (if ar_base_offset r = ?n
                 then plan\<lparr>ap_states := bt_insert (rc_producer_id ?first) state' (ap_states plan),
                        ap_additions := ap_additions plan @ [(records, ar_base_offset r)],
                        ap_results := ap_results plan @ [r],
                        ap_next_offset := wrap_i64 (ar_last_offset r + 1)\<rparr>
                 else plan\<lparr>ap_states := bt_insert (rc_producer_id ?first) state' (ap_states plan), ap_results := ap_results plan @ [r]\<rparr>)"
    by (auto simp: plan_batch_def Let_def io_bind_def)
  with that [of state r state'] st y acc z show thesis by (cases "ar_base_offset r = ?n") auto
qed

text \<open>What holds between two batches of a plan.\<close>

definition plan_ok :: "producer_state list \<Rightarrow> append_plan \<Rightarrow> bool" where
  "plan_ok ps plan \<longleftrightarrow> states_ok (ap_states plan) \<and> 0 \<le> ap_next_offset plan
     \<and> (\<forall>(pid, state) \<in> set (ap_states plan). behind (ap_next_offset plan) state)
     \<and> (\<forall>p \<in> set ps. behind (ap_next_offset plan) p)"

lemma plan_ok_known:
  assumes "plan_ok ps plan"
  shows "behind (ap_next_offset plan) (case known_states (ap_states plan) ps pid of Some state \<Rightarrow> state | None \<Rightarrow> producer_new pid e)"
proof (cases "known_states (ap_states plan) ps pid")
  case (Some st)
  then have "(pid, st) \<in> set (ap_states plan) \<or> st \<in> set ps"
    using assms by (auto simp: known_states_def plan_ok_def states_ok_def bt_get_set find_producer_def find_Some_iff split: option.splits)
  with assms Some show ?thesis by (auto simp: plan_ok_def)
qed simp

lemma plan_ok_step:
  assumes ok: "plan_ok ps plan" and nx: "ap_next_offset plan \<le> ap_next_offset plan'"
    and states: "ap_states plan' = ap_states plan \<or>
      (ap_states plan' = bt_insert pid state (ap_states plan) \<and> ps_id state = pid \<and> behind (ap_next_offset plan') state)"
  shows "plan_ok ps plan'"
proof -
  have old: "behind (ap_next_offset plan') q" if "(k, q) \<in> set (ap_states plan)" for k q
    using ok that by (intro behind_mono [OF _ nx]) (auto simp: plan_ok_def)
  have "behind (ap_next_offset plan') q" if "(k, q) \<in> set (ap_states plan')" for k q
    using states bt_insert_subset [of pid state "ap_states plan"] that old by auto
  moreover have "behind (ap_next_offset plan') p" if "p \<in> set ps" for p
    using ok that by (intro behind_mono [OF _ nx]) (auto simp: plan_ok_def)
  moreover have "states_ok (ap_states plan')" using ok states by (auto simp: plan_ok_def intro: states_ok_insert)
  ultimately show ?thesis using ok nx by (auto simp: plan_ok_def)
qed

lemma plan_batches_decides:
  assumes legal: "producer_legal E L topic part view rely"
    and "plan_batches E L topic part directory initial bs plan s = (Inr plan', t)"
    and "directory_holds E L topic part initial (view s) directory ps"
    and "plan_ok ps plan" and "\<forall>b \<in> set bs. fst b \<noteq> []"
  shows "\<exists>rs adds. decides (known_states (ap_states plan) ps) (ap_next_offset plan) bs
        = Some (rs, adds, known_states (ap_states plan') ps)
    \<and> ap_results plan' = ap_results plan @ rs \<and> ap_additions plan' = ap_additions plan @ adds
    \<and> states_ok (ap_states plan') \<and> ap_next_offset plan' = ap_next_offset plan + (\<Sum>a\<leftarrow>adds. int (length (fst a)))
    \<and> (adds \<noteq> [] \<longrightarrow> snd (last adds) + int (length (fst (last adds))) = ap_next_offset plan' \<and> in_i64 (ap_next_offset plan'))
    \<and> keeps_dir (engine_dir L topic part) (view s) (view t)"
  using assms(2-)
proof (induction bs arbitrary: plan s)
  case Nil
  then show ?case by (auto simp: plan_ok_def)
next
  case (Cons b bs)
  obtain records fp where b: "b = (records, fp)" by force
  with Cons.prems(1) obtain mid u where
    one: "plan_batch E L topic part directory initial records fp plan s = (Inr mid, u)"
    and rest: "plan_batches E L topic part directory initial bs mid u = (Inr plan', t)"
    by (auto simp: result_simps)
  let ?n = "ap_next_offset plan" and ?c = "int (length records)" and ?pid = "rc_producer_id (hd records)"
  have ne: "records \<noteq> []" using Cons.prems(4) b by simp
  then have c: "0 < ?c" by simp
  have n: "0 \<le> ?n" using Cons.prems(3) by (simp add: plan_ok_def)
  show ?case
  proof (cases "?pid < 0")
    case True
    then have "anonymous records" using ne by (simp add: anonymous_def)
    note mid = plan_batch_anonymous [OF one this n]
    have "u = s" using one True by (auto simp: plan_batch_def Let_def result_simps split: if_splits)
    moreover have "plan_ok ps mid" by (rule plan_ok_step [OF Cons.prems(3)]) (use mid c in auto)
    ultimately obtain rs adds where
      IH: "decides (known_states (ap_states mid) ps) (ap_next_offset mid) bs = Some (rs, adds, known_states (ap_states plan') ps)"
        "ap_results plan' = ap_results mid @ rs" "ap_additions plan' = ap_additions mid @ adds" "states_ok (ap_states plan')"
        "ap_next_offset plan' = ap_next_offset mid + (\<Sum>a\<leftarrow>adds. int (length (fst a)))"
        "adds \<noteq> [] \<longrightarrow> snd (last adds) + int (length (fst (last adds))) = ap_next_offset plan' \<and> in_i64 (ap_next_offset plan')"
        "keeps_dir (engine_dir L topic part) (view s) (view t)"
      using Cons.IH [of mid u] rest Cons.prems(2,4) by auto
    have "decides (known_states (ap_states plan) ps) ?n (b # bs) =
        Some (\<lparr>ar_base_offset = ?n, ar_last_offset = ?n + ?c - 1\<rparr> # rs, (records, ?n) # adds, known_states (ap_states plan') ps)"
      using True mid IH(1) b by (simp add: Let_def)
    with IH(2-) mid show ?thesis by (intro exI conjI) (assumption | auto)+
  next
    case False
    then have pid: "0 \<le> ?pid" by simp
    from plan_batch_producer [OF one pid] obtain state r state' where
      st: "plan_state E L topic part directory initial (hd records) (ap_states plan) s = (Inr state, u)"
      and acc: "accept state (rc_producer_epoch (hd records)) (rc_sequence (hd records)) (length records) fp ?n = (Inr r, state')"
      and mid: "ap_states mid = bt_insert ?pid state' (ap_states plan)" "ap_results mid = ap_results plan @ [r]"
        "ap_additions mid = ap_additions plan @ (if ar_base_offset r = ?n then [(records, ?n)] else [])"
        "ap_next_offset mid = (if ar_base_offset r = ?n then wrap_i64 (ar_last_offset r + 1) else ?n)" by metis
    note known = plan_state_known [OF legal Cons.prems(2) st]
    have ok: "states_ok (ap_states plan)" using Cons.prems(3) by (simp add: plan_ok_def)
    have bstate: "behind ?n state" using plan_ok_known [OF Cons.prems(3)] known(1) by simp
    from accept_behind [OF acc bstate n] c have
      beh: "behind (if ar_base_offset r = ?n then ar_last_offset r + 1 else ?n) state'"
      and last: "ar_last_offset r + 1 = ar_base_offset r + ?c" and fit: "in_i64 (ar_last_offset r + 1)" by auto
    have nx: "ap_next_offset mid = (if ar_base_offset r = ?n then ar_last_offset r + 1 else ?n)"
      using mid(4) fit by simp
    have "ps_id state' = ?pid" using accept_same_id [OF acc] known(3) [OF ok] by simp
    then have "plan_ok ps mid"
      by (intro plan_ok_step [OF Cons.prems(3)]) (use mid(1) nx last c beh in auto)
    moreover have "directory_holds E L topic part initial (view u) directory ps"
      by (rule directory_holds_later [OF Cons.prems(2) known(2)])
    ultimately obtain rs adds where
      IH: "decides (known_states (ap_states mid) ps) (ap_next_offset mid) bs = Some (rs, adds, known_states (ap_states plan') ps)"
        "ap_results plan' = ap_results mid @ rs" "ap_additions plan' = ap_additions mid @ adds" "states_ok (ap_states plan')"
        "ap_next_offset plan' = ap_next_offset mid + (\<Sum>a\<leftarrow>adds. int (length (fst a)))"
        "adds \<noteq> [] \<longrightarrow> snd (last adds) + int (length (fst (last adds))) = ap_next_offset plan' \<and> in_i64 (ap_next_offset plan')"
        "keeps_dir (engine_dir L topic part) (view u) (view t)"
      using Cons.IH [of mid u] rest Cons.prems(4) by auto
    have "known_states (ap_states mid) ps = (known_states (ap_states plan) ps)(?pid \<mapsto> state')"
      using mid(1) ok by (simp add: states_ok_def)
    with IH(1) nx have go: "decides ((known_states (ap_states plan) ps)(?pid \<mapsto> state'))
        (if ar_base_offset r = ?n then ar_last_offset r + 1 else ?n) bs = Some (rs, adds, known_states (ap_states plan') ps)" by simp
    have "decides (known_states (ap_states plan) ps) ?n (b # bs) =
        Some (r # rs, if ar_base_offset r = ?n then (records, ?n) # adds else adds, known_states (ap_states plan') ps)"
      using False acc known(1) go b by (simp add: Let_def)
    moreover have "keeps_dir (engine_dir L topic part) (view s) (view t)" by (rule keeps_dir_trans [OF known(2) IH(7)])
    ultimately show ?thesis using IH(2-6) mid(2,3) nx last fit by (auto split: if_splits)
  qed
qed


section \<open>The directory afterwards\<close>

text \<open>A directory that is valid below one end offset is valid below every later one.\<close>

lemma validate_history_raise:
  "validate_history prev n bs = Inr () \<Longrightarrow> n \<le> n' \<Longrightarrow> validate_history prev n' bs = Inr ()"
proof (induction bs arbitrary: prev)
  case (Cons b bs)
  from Cons.prems(1) have rest: "validate_history (Some b) n bs = Inr ()" by (simp split: if_splits)
  from Cons.prems(1) have "\<not> (case checked_add_i64 (bi_base_offset b) (int (bi_count b)) of None \<Rightarrow> True | Some e \<Rightarrow> e > n)"
    by (simp split: if_splits)
  then have "\<not> (case checked_add_i64 (bi_base_offset b) (int (bi_count b)) of None \<Rightarrow> True | Some e \<Rightarrow> e > n')"
    using Cons.prems(2) by (auto split: option.splits)
  with Cons.prems(1) Cons.IH [OF rest Cons.prems(2)] show ?case by (simp split: if_splits)
qed simp

lemma validate_producer_state_raise:
  "validate_producer_state p n = Inr () \<Longrightarrow> n \<le> n' \<Longrightarrow> validate_producer_state p n' = Inr ()"
  by (auto simp: validate_producer_state_def intro: validate_history_raise split: if_splits)

lemma producer_page_bounds_raise:
  assumes "producer_page_bounds ok p pre topic part n = Inr bounds" "n \<le> n'"
  shows "producer_page_bounds ok p pre topic part n' = Inr bounds"
proof (cases p)
  case (PLeaf ps)
  with assms(1) have "try_all (\<lambda>p. validate_producer_state p n) ps = Inr ()" by (auto simp: result_simps split: if_splits)
  with assms(2) have "try_all (\<lambda>p. validate_producer_state p n') ps = Inr ()"
    by (auto simp: result_simps intro: validate_producer_state_raise)
  with assms(1) PLeaf show ?thesis by (auto simp: result_simps split: if_splits)
qed (use assms in simp)

lemma producer_stored_raise:
  assumes st: "producer_stored E L topic part n m r p" and n: "n \<le> n'"
  shows "producer_stored E L topic part n' m r p"
proof -
  have "decode_producer_page E L topic part n' r b = Inr p" if dec: "decode_producer_page E L topic part n r b = Inr p" for b
  proof -
    from dec have page: "le_producer_page_from_slice E producer_history entries entries b = Inr p"
      and bounds: "producer_page_bounds (w_uuid_ok E) p (en_prefix L) topic part n
        = Inr (pf_first_id r, pf_last_id r, pf_count r, pf_level r)"
      by (auto simp: decode_producer_page_def result_simps split: if_splits)
    from page producer_page_bounds_raise [OF bounds n] show ?thesis by (simp add: decode_producer_page_def)
  qed
  with st show ?thesis unfolding producer_stored_def by blast
qed

lemma directory_holds_raise:
  "directory_holds E L topic part n m directory ps \<Longrightarrow> n \<le> n' \<Longrightarrow> directory_holds E L topic part n' m directory ps"
  by (auto simp: directory_holds_def elim: denotes_mono intro: producer_stored_raise split: option.splits)

lemma known_states_publish:
  assumes "states_ok ((pid, state) # states)" "sorted_wrt (<) (map ps_id ps)"
  shows "known_states states (put_producer state ps) = known_states ((pid, state) # states) ps"
proof -
  have id: "ps_id state = pid" and fresh: "bt_get states pid = None"
    using assms(1) by (auto simp: states_ok_def bt_inv_def bt_get_def map_of_eq_None_iff image_def)
  show ?thesis
    using find_put_producer [OF assms(2), of _ state] id fresh
    by (auto simp: known_states_def bt_get_def fun_eq_iff split: option.splits)
qed

lemma publish_states_holds:
  assumes legal: "producer_legal E L topic part view rely"
    and "publish_states E L topic part n (bt_values states) root s = (Inr root', t)"
    and "directory_holds E L topic part n (view s) (rt_producers root) ps" and "states_ok states"
  shows "\<exists>ps'. directory_holds E L topic part n (view t) (rt_producers root') ps'
    \<and> known_states states ps = (\<lambda>pid. find_producer pid ps')"
  using assms(2-)
proof (induction states arbitrary: root s ps)
  case Nil
  then show ?case by (auto simp: bt_values_def)
next
  case (Cons e states)
  obtain pid state where e: "e = (pid, state)" by force
  with Cons.prems(1) obtain r u where
    one: "update_producer E L topic part (rt_producers root) state n s = (Inr r, u)"
    and rest: "publish_states E L topic part n (bt_values states) (root\<lparr>rt_producers := Some r\<rparr>) u = (Inr root', t)"
    by (auto simp: bt_values_def result_simps)
  from update_producer_holds [OF legal one] Cons.prems(2)
  have "directory_holds E L topic part n (view u) (rt_producers (root\<lparr>rt_producers := Some r\<rparr>)) (put_producer state ps)"
    by (simp add: directory_holds_def)
  moreover have ok: "states_ok states"
    using Cons.prems(3) by (auto simp: states_ok_def bt_inv_def)
  ultimately obtain ps' where
    ps': "directory_holds E L topic part n (view t) (rt_producers root') ps'"
      "known_states states (put_producer state ps) = (\<lambda>pid. find_producer pid ps')"
    using Cons.IH [OF rest] by blast
  with known_states_publish [of pid state states ps] Cons.prems(3) e directory_sorted [OF Cons.prems(2)] show ?case by auto
qed

end
