(* ===== verification/Log_Append_Laws.thy ===== *)
theory Log_Append_Laws
  imports Log_Plan_Laws Log_Index_Laws "HOL-Library.Sublist"
begin

text \<open>
  What an append promises. The partition's log is the list of segments its current root
  denotes. A successful append is one conditional update of the root whose condition held on
  the root it was computed from, so it adds the request's new batches at the end of the log
  that was current at that moment; a request of retries changes nothing.
\<close>

section \<open>The current log\<close>

definition log_legal ::
  "('s, 'm) log_env_scheme \<Rightarrow> engine \<Rightarrow> string \<Rightarrow> int \<Rightarrow> ('s \<Rightarrow> objects) \<Rightarrow> (objects \<Rightarrow> objects \<Rightarrow> bool) \<Rightarrow> bool" where
  "log_legal E L topic part view rely \<longleftrightarrow>
     index_legal E L topic part view rely \<and> producer_page_json_laws E \<and> root_json_laws E"

lemma log_legalD:
  assumes "log_legal E L topic part view rely"
  shows "index_legal E L topic part view rely" "producer_legal E L topic part view rely"
    "store_laws E view rely" "root_json_laws E"
    "manifest_path E L topic part = engine_dir L topic part @ ''manifest.json''"
    "rely m m' \<Longrightarrow> keeps_dir (engine_dir L topic part) m m'"
  using assms by (auto simp: log_legal_def index_legal_def producer_legal_def manifest_path_def name_laws_def)

definition current_manifest ::
  "('s, 'm) log_env_scheme \<Rightarrow> engine \<Rightarrow> string \<Rightarrow> int \<Rightarrow> objects \<Rightarrow> log_manifest option" where
  "current_manifest E L topic part m =
     (case m (manifest_path E L topic part) of
        None \<Rightarrow> Some (Indexed root_default)
      | Some (_, b) \<Rightarrow> (case decode_manifest E L topic part b of Inl _ \<Rightarrow> None | Inr lm \<Rightarrow> Some lm))"

fun manifest_holds ::
  "('s, 'm) log_env_scheme \<Rightarrow> engine \<Rightarrow> string \<Rightarrow> int \<Rightarrow> objects \<Rightarrow> log_manifest \<Rightarrow> segment list \<Rightarrow> bool" where
  "manifest_holds E L topic part m (Legacy mf) xs \<longleftrightarrow> xs = mf_segments mf"
| "manifest_holds E L topic part m (Indexed root) xs \<longleftrightarrow> root_holds E L topic part m root xs"

lemma manifest_holds_later:
  "manifest_holds E L topic part m lm xs \<Longrightarrow> keeps_dir (engine_dir L topic part) m m' \<Longrightarrow>
   manifest_holds E L topic part m' lm xs"
  by (cases lm) (auto intro: root_holds_later)

lemma manifest_not_immutable:
  "log_legal E L topic part view rely \<Longrightarrow> \<not> immutable_name (engine_dir L topic part) (manifest_path E L topic part)"
  by (simp add: log_legalD(5) immutable_name_def starts_with_iff)

lemma keeps_dir_manifest:
  "log_legal E L topic part view rely \<Longrightarrow>
   keeps_dir (engine_dir L topic part) m (m(manifest_path E L topic part := x))"
  using manifest_not_immutable [of E L topic part view rely] by (auto simp: keeps_dir_def)

section \<open>A root that passed its checks\<close>

lemma validate_root_tiles:
  assumes valid: "validate_root ok r (en_prefix L) topic part = Inr ()"
    and holds: "root_holds E L topic part m r xs"
  shows "tiles (rt_start_offset r) xs (rt_next_offset r)"
    and "\<forall>sg \<in> set xs. in_i64 (segment_end sg) \<and> in_i64 (segment_end sg - 1)
          \<and> 0 < sg_record_count sg \<and> sg_byte_length sg \<le> MAX_BATCH_BYTES"
    and "0 \<le> rt_start_offset r" "length (rt_tail r) \<le> PAGE_ENTRIES"
proof -
  from valid obtain start count where
    tree: "(case rt_tree r of
        None \<Rightarrow> start = rt_start_offset r
      | Some tree \<Rightarrow> pr_first_offset tree = rt_start_offset r \<and> start = pr_next_offset tree)"
    and tail: "validate_segments (rt_tail r) start (en_prefix L) topic part = Inr (rt_next_offset r)"
    and start: "0 \<le> rt_start_offset r" "length (rt_tail r) \<le> PAGE_ENTRIES"
    by (auto simp: validate_root_def result_simps split: if_splits option.splits)
  then show "0 \<le> rt_start_offset r" "length (rt_tail r) \<le> PAGE_ENTRIES" by blast+
  from validate_segments_tiles [OF tail [unfolded validate_segments_def]]
  have t: "tiles start (rt_tail r) (rt_next_offset r)"
    "\<forall>sg \<in> set (rt_tail r). in_i64 (segment_end sg) \<and> in_i64 (segment_end sg - 1)
        \<and> 0 < sg_record_count sg \<and> sg_byte_length sg \<le> MAX_BATCH_BYTES"
    by (auto simp: segment_ok_def)
  have "tiles (rt_start_offset r) xs (rt_next_offset r) \<and> (\<forall>sg \<in> set xs. in_i64 (segment_end sg) \<and> in_i64 (segment_end sg - 1)
          \<and> 0 < sg_record_count sg \<and> sg_byte_length sg \<le> MAX_BATCH_BYTES)"
  proof (cases "rt_tree r")
    case None
    with holds tree t show ?thesis by (simp add: root_holds_def)
  next
    case (Some old)
    with holds obtain ys where ys: "index_holds E L topic part m old ys" "xs = ys @ rt_tail r"
      by (auto simp: root_holds_def)
    from index_holds_ranged [OF ys(1)] have "ranged old ys" .
    with ys(2) Some tree t show ?thesis by (auto simp: ranged_def tiles_append)
  qed
  then show "tiles (rt_start_offset r) xs (rt_next_offset r)"
    "\<forall>sg \<in> set xs. in_i64 (segment_end sg) \<and> in_i64 (segment_end sg - 1)
          \<and> 0 < sg_record_count sg \<and> sg_byte_length sg \<le> MAX_BATCH_BYTES" by blast+
qed

lemma decode_manifest_Indexed:
  "decode_manifest E L topic part b = Inr (Indexed r) \<Longrightarrow>
   validate_root (w_uuid_ok E) r (en_prefix L) topic part = Inr ()"
  by (auto simp: decode_manifest_def result_simps split: if_splits)

lemma decode_manifest_Legacy:
  assumes "decode_manifest E L topic part b = Inr (Legacy mf)"
  shows "tiles 0 (mf_segments mf) (mf_next_offset mf)"
    and "\<forall>sg \<in> set (mf_segments mf). in_i64 (segment_end sg) \<and> in_i64 (segment_end sg - 1)
          \<and> 0 < sg_record_count sg \<and> sg_byte_length sg \<le> MAX_BATCH_BYTES"
proof -
  from assms have "validate_segments (mf_segments mf) 0 (en_prefix L) topic part = Inr (mf_next_offset mf)"
    by (auto simp: decode_manifest_def validate_manifest_def result_simps split: if_splits)
  from validate_segments_tiles [OF this [unfolded validate_segments_def]]
  show "tiles 0 (mf_segments mf) (mf_next_offset mf)"
    "\<forall>sg \<in> set (mf_segments mf). in_i64 (segment_end sg) \<and> in_i64 (segment_end sg - 1)
          \<and> 0 < sg_record_count sg \<and> sg_byte_length sg \<le> MAX_BATCH_BYTES"
    by (auto simp: segment_ok_def)
qed

text \<open>The segments of a current log tile its offsets.\<close>

lemma current_manifest_tiles:
  assumes "current_manifest E L topic part m = Some lm" "manifest_holds E L topic part m lm xs"
  shows "tiles (lm_start_offset lm) xs (lm_next_offset lm)"
    and "\<forall>sg \<in> set xs. in_i64 (segment_end sg) \<and> in_i64 (segment_end sg - 1)
          \<and> 0 < sg_record_count sg \<and> sg_byte_length sg \<le> MAX_BATCH_BYTES"
    and "0 \<le> lm_start_offset lm"
proof -
  have "tiles (lm_start_offset lm) xs (lm_next_offset lm) \<and> (\<forall>sg \<in> set xs. in_i64 (segment_end sg) \<and> in_i64 (segment_end sg - 1)
          \<and> 0 < sg_record_count sg \<and> sg_byte_length sg \<le> MAX_BATCH_BYTES) \<and> 0 \<le> lm_start_offset lm"
  proof (cases "m (manifest_path E L topic part)")
    case None
    with assms show ?thesis
      by (auto simp: current_manifest_def root_holds_def root_default_def split: option.splits)
  next
    case (Some e)
    with assms(1) obtain b where b: "decode_manifest E L topic part b = Inr lm"
      by (auto simp: current_manifest_def split: prod.splits sum.splits)
    show ?thesis
    proof (cases lm)
      case (Legacy mf)
      with b assms(2) decode_manifest_Legacy show ?thesis by fastforce
    next
      case (Indexed r)
      with b decode_manifest_Indexed have v: "validate_root (w_uuid_ok E) r (en_prefix L) topic part = Inr ()"
        by blast
      have "root_holds E L topic part m r xs" using assms(2) Indexed by simp
      from validate_root_tiles [OF v this] Indexed show ?thesis by simp
    qed
  qed
  then show "tiles (lm_start_offset lm) xs (lm_next_offset lm)"
    "\<forall>sg \<in> set xs. in_i64 (segment_end sg) \<and> in_i64 (segment_end sg - 1)
          \<and> 0 < sg_record_count sg \<and> sg_byte_length sg \<le> MAX_BATCH_BYTES"
    "0 \<le> lm_start_offset lm" by blast+
qed

section \<open>Loading and committing a root\<close>

lemma load_or_empty_current:
  assumes laws: "store_laws E view rely"
    and run: "load_or_empty E L topic part s = (Inr l, t)"
  shows "rely (view s) (view t)
    \<and> current_manifest E L topic part (view t) = Some (ld_manifest l)
    \<and> ld_version l = map_option fst (view t (manifest_path E L topic part))"
proof -
  let ?p = "manifest_path E L topic part"
  obtain got u where got: "w_get E ?p s = (got, u)" by force
  from store_laws_get [OF laws got] have
    r: "rely (view s) (view u)" "get_outcome (view u ?p) got" by auto
  show ?thesis
  proof (cases got)
    case (Inl e)
    with run got have "e = NotFound \<and> l = loaded_empty \<and> t = u"
      by (cases e) (auto simp: load_or_empty_def load_manifest_def result_simps)
    with Inl r show ?thesis by (simp add: get_outcome_def current_manifest_def loaded_empty_def)
  next
    case (Inr g)
    with run got obtain b lm where b: "collect_bounded (gr_chunks g) MAX_MANIFEST_BYTES [] = Inr b"
      "decode_manifest E L topic part b = Inr lm" "l = \<lparr>ld_manifest = lm, ld_version = Some (gr_version g)\<rparr>" "t = u"
      by (auto simp: load_or_empty_def load_manifest_def result_simps split: if_splits)
    from r Inr obtain b' where b': "view t ?p = Some (gr_version g, b')" "delivers (gr_chunks g) b'"
      using b(4) by (auto simp: get_outcome_def split: option.splits)
    have "b' = b" using collect_bounded_delivers [OF b(1) b'(2)] by simp
    with b b' r show ?thesis by (simp add: current_manifest_def)
  qed
qed

text \<open>A root that passed its checks is read back from the bytes written for it.\<close>

lemma decode_written_root:
  assumes laws: "root_json_laws E" and valid: "validate_root (w_uuid_ok E) root (en_prefix L) topic part = Inr ()"
    and vec: "le_root_to_vec E root = Inr b"
  shows "decode_manifest E L topic part b = Inr (Indexed root)"
proof -
  have shape: "rt_schema root \<in> {2, 3, INDEX_SCHEMA}" "length (rt_tail root) \<le> PAGE_ENTRIES"
    using valid by (auto simp: validate_root_def split: if_splits)
  then have "entries (json_seq_of (rt_tail root)) = Inr (rt_tail root)" by (simp add: entries_def)
  then have "le_schema_from_slice E b = Inr (rt_schema root)" "le_root_from_slice E entries b = Inr root"
    using laws vec by (auto simp: root_json_laws_def)
  with valid shape show ?thesis by (auto simp: decode_manifest_def MANIFEST_SCHEMA_def INDEX_SCHEMA_def)
qed

text \<open>A conditional update succeeds only on the root it was computed from.\<close>

lemma commit_root_Some:
  assumes laws: "store_laws E view rely" "root_json_laws E"
    and run: "commit_root E L topic part ver root result s = (Inr (Some res), t)"
  shows "res = result \<and> (\<exists>u v b. rely (view s) (view u)
    \<and> map_option fst (view u (manifest_path E L topic part)) = ver
    \<and> view t = (view u)(manifest_path E L topic part \<mapsto> (v, b))
    \<and> current_manifest E L topic part (view t) = Some (Indexed root)
    \<and> validate_root (w_uuid_ok E) root (en_prefix L) topic part = Inr ())"
proof -
  let ?p = "manifest_path E L topic part" and ?mode = "case ver of None \<Rightarrow> Create | Some v \<Rightarrow> Update v"
  from run obtain b where
    valid: "validate_root (w_uuid_ok E) root (en_prefix L) topic part = Inr ()"
    and vec: "le_root_to_vec E root = Inr b"
    and rest: "\<exists>put t'. w_put E ?p b ?mode s = (put, t') \<and> (case put of
                Inr _ \<Rightarrow> io_ret (Some result)
              | Inl Precondition \<Rightarrow> io_ret None
              | Inl AlreadyExists \<Rightarrow> io_ret None
              | Inl e \<Rightarrow> io_err (ObjectStore e)) t' = (Inr (Some res), t)"
    unfolding commit_root_def io_bind_Inr_iff Let_def io_json_Inr io_lift_Inr
    by (simp add: io_bind_Inr_iff io_try_iff split: if_splits) blast
  from rest obtain put t' where w: "w_put E ?p b ?mode s = (put, t')"
    and m: "(case put of
                Inr _ \<Rightarrow> io_ret (Some result)
              | Inl Precondition \<Rightarrow> io_ret None
              | Inl AlreadyExists \<Rightarrow> io_ret None
              | Inl e \<Rightarrow> io_err (ObjectStore e)) t' = (Inr (Some res), t)" by blast
  obtain v where put: "w_put E ?p b ?mode s = (Inr v, t)" and res: "res = result"
    using w m by (cases put; cases "projl put") auto
  from store_laws_put [OF laws(1) put] obtain u where
    u: "rely (view s) (view u)" "put_allowed ?mode (view u ?p)" "view t = (view u)(?p \<mapsto> (v, b))"
    by (auto simp: put_outcome_def)
  have "map_option fst (view u ?p) = ver" using u(2) by (cases ver) (auto simp: put_allowed_def)
  moreover have "decode_manifest E L topic part b = Inr (Indexed root)"
    by (rule decode_written_root [OF laws(2) valid vec])
  ultimately show ?thesis using valid res u by (auto simp: current_manifest_def)
qed

lemma same_version_same_manifest:
  assumes "store_laws E view rely"
    and "map_option fst (view s (manifest_path E L topic part)) = map_option fst (view t (manifest_path E L topic part))"
  shows "current_manifest E L topic part (view s) = current_manifest E L topic part (view t)"
proof (cases "view s (manifest_path E L topic part)")
  case None
  with assms(2) show ?thesis by (simp add: current_manifest_def)
next
  case (Some e)
  with assms(2) obtain v b b' where
    "view s (manifest_path E L topic part) = Some (v, b)" "view t (manifest_path E L topic part) = Some (v, b')"
    by (cases e; cases "view t (manifest_path E L topic part)") auto
  with store_laws_version [OF assms(1) this] show ?thesis by (simp add: current_manifest_def)
qed

section \<open>Guarantees\<close>

lemma io_keeps_callD: "io_keeps R (io_call f) \<Longrightarrow> f s = (x, t) \<Longrightarrow> R\<^sup>*\<^sup>* s t"
  by (erule io_keepsD [where x = "Inr x"]) (simp add: io_call_def)

lemma log_creates_keep:
  assumes legal: "log_legal E L topic part view rely"
  shows "creates_keep (dir_kept view (engine_dir L topic part)) E"
proof -
  note calls = dir_kept_calls [OF log_legalD(3) [OF legal] log_legalD(6) [OF legal], simplified]
  note call = io_keeps_callD
  show ?thesis
    using calls(1-4) call [OF calls(5)] call [OF calls(6)] call [OF calls(7)]
    by (simp add: creates_keep_def reads_keep_def)
qed

lemma creates_later:
  assumes "log_legal E L topic part view rely" "io_keeps (dir_kept view (engine_dir L topic part)) m" "m s = (x, t)"
  shows "keeps_dir (engine_dir L topic part) (view s) (view t)"
  using io_keepsE [OF assms(2,3) dir_kept_reflp dir_kept_transp] by (simp add: dir_kept_def)

definition relied :: "('s \<Rightarrow> objects) \<Rightarrow> (objects \<Rightarrow> objects \<Rightarrow> bool) \<Rightarrow> 's \<Rightarrow> 's \<Rightarrow> bool" where
  "relied view rely s t \<longleftrightarrow> rely (view s) (view t)"

lemma relied_rtrancl:
  assumes "store_laws E view rely" "(relied view rely)\<^sup>*\<^sup>* s t"
  shows "rely (view s) (view t)"
  using assms(2)
proof (induction rule: rtranclp_induct)
  case base
  show ?case by (rule store_laws_refl [OF assms(1)])
next
  case (step y z)
  then show ?case by (auto simp: relied_def intro: store_laws_trans [OF assms(1)])
qed

lemma reads_relied:
  assumes "store_laws E view rely"
  shows "reads_keep (relied view rely) E"
  using store_laws_get [OF assms] store_laws_head [OF assms] store_laws_calls [OF assms]
  unfolding reads_keep_def
  by (intro conjI allI impI io_keeps_single r_into_rtranclp) (auto simp: relied_def)

section \<open>Planning\<close>

lemma plan_batch_shape:
  assumes "plan_batch E L topic part directory initial records fp plan s = (Inr plan', t)"
  obtains r where "ap_results plan' = ap_results plan @ [r]"
    "ap_additions plan' = ap_additions plan \<and> ap_next_offset plan' = ap_next_offset plan
     \<or> ap_additions plan' = ap_additions plan @ [(records, ap_next_offset plan)]"
  using assms
  by (auto simp: plan_batch_def Let_def result_simps split: if_splits prod.splits)

lemma plan_batches_shape:
  assumes "plan_batches E L topic part directory initial bs plan s = (Inr plan', t)"
  shows "\<exists>adds rs. ap_additions plan' = ap_additions plan @ adds \<and> subseq (map fst adds) (map fst bs)
    \<and> ap_results plan' = ap_results plan @ rs \<and> length rs = length bs"
  using assms
proof (induction bs arbitrary: plan s)
  case (Cons b bs)
  obtain records fp where b: "b = (records, fp)" by force
  with Cons.prems obtain mid u where
    one: "plan_batch E L topic part directory initial records fp plan s = (Inr mid, u)"
    and rest: "plan_batches E L topic part directory initial bs mid u = (Inr plan', t)"
    by (auto simp: result_simps)
  obtain adds rs where IH: "ap_additions plan' = ap_additions mid @ adds" "subseq (map fst adds) (map fst bs)"
    "ap_results plan' = ap_results mid @ rs" "length rs = length bs"
    using Cons.IH [OF rest] by blast
  from one obtain r where r: "ap_results mid = ap_results plan @ [r]"
    "ap_additions mid = ap_additions plan \<or> ap_additions mid = ap_additions plan @ [(records, ap_next_offset plan)]"
    by (rule plan_batch_shape) blast
  from r(2) show ?case
  proof
    assume "ap_additions mid = ap_additions plan"
    with IH r b show ?thesis by (intro exI [of _ adds] exI [of _ "r # rs"]) (auto intro: list_emb_Cons)
  next
    assume "ap_additions mid = ap_additions plan @ [(records, ap_next_offset plan)]"
    with IH r b show ?thesis
      by (intro exI [of _ "(records, ap_next_offset plan) # adds"] exI [of _ "r # rs"]) auto
  qed
qed simp

text \<open>Batches without a producer are all added, one after the other.\<close>

lemma plan_batches_anonymous:
  assumes "plan_batches E L topic part directory initial bs plan s = (Inr plan', t)"
    and "\<forall>b \<in> set bs. anonymous (fst b)" "0 \<le> ap_next_offset plan"
  shows "\<exists>adds rs. ap_additions plan' = ap_additions plan @ adds \<and> map fst adds = map fst bs
    \<and> ap_results plan' = ap_results plan @ rs
    \<and> (bs \<noteq> [] \<longrightarrow> rs \<noteq> [] \<and> ar_base_offset (hd rs) = ap_next_offset plan
          \<and> ar_last_offset (last rs) = ap_next_offset plan' - 1)
    \<and> ap_next_offset plan' = ap_next_offset plan + (\<Sum>b\<leftarrow>bs. int (length (fst b)))"
  using assms
proof (induction bs arbitrary: plan s)
  case (Cons b bs)
  obtain records fp where b: "b = (records, fp)" by force
  with Cons.prems(1) obtain mid u where
    one: "plan_batch E L topic part directory initial records fp plan s = (Inr mid, u)"
    and rest: "plan_batches E L topic part directory initial bs mid u = (Inr plan', t)"
    by (auto simp: result_simps)
  have anon: "anonymous records" using Cons.prems(2) b by simp
  note mid = plan_batch_anonymous [OF one anon Cons.prems(3)]
  have "0 \<le> ap_next_offset mid" using mid Cons.prems(3) by auto
  from Cons.IH [OF rest _ this] Cons.prems(2) obtain adds rs where
    IH: "ap_additions plan' = ap_additions mid @ adds" "map fst adds = map fst bs"
      "ap_results plan' = ap_results mid @ rs"
      "bs \<noteq> [] \<longrightarrow> rs \<noteq> [] \<and> ar_base_offset (hd rs) = ap_next_offset mid
          \<and> ar_last_offset (last rs) = ap_next_offset plan' - 1"
      "ap_next_offset plan' = ap_next_offset mid + (\<Sum>b\<leftarrow>bs. int (length (fst b)))"
    by auto
  show ?case
  proof (cases "bs = []")
    case True
    with rest mid b show ?thesis by (intro exI [of _ "[(records, ap_next_offset plan)]"]) auto
  next
    case False
    with IH mid b show ?thesis
      by (intro exI [of _ "(records, ap_next_offset plan) # adds"]
            exI [of _ "\<lparr>ar_base_offset = ap_next_offset plan,
              ar_last_offset = ap_next_offset plan + int (length records) - 1\<rparr> # rs"]) auto
  qed
qed simp

section \<open>Publishing\<close>

text \<open>The objects of segments lie in their own namespace.\<close>

definition segment_named :: "engine \<Rightarrow> string \<Rightarrow> int \<Rightarrow> segment \<Rightarrow> bool" where
  "segment_named L topic part sg \<longleftrightarrow>
     starts_with (engine_dir L topic part @ ''segments/'') (sg_object sg) \<and> ends_with ''.batch'' (sg_object sg)"

lemma segment_named_immutable:
  "segment_named L topic part sg \<Longrightarrow> immutable_name (engine_dir L topic part) (sg_object sg)"
  by (simp add: segment_named_def immutable_name_def)

text \<open>A segment stores a batch: its object holds the encoding of the batch at the segment's offset.\<close>

definition segment_stores ::
  "('s, 'm) log_env_scheme \<Rightarrow> engine \<Rightarrow> string \<Rightarrow> int \<Rightarrow> objects \<Rightarrow> kafka_record list \<Rightarrow> segment \<Rightarrow> bool" where
  "segment_stores E L topic part m records sg \<longleftrightarrow>
     sg_record_count sg = length records \<and> segment_named L topic part sg
   \<and> (\<exists>assigned bytes v. assigned_records records (sg_base_offset sg) = Inr assigned
        \<and> encode_records E assigned = Inr bytes \<and> m (sg_object sg) = Some (v, bytes)
        \<and> sg_byte_length sg = length bytes \<and> sg_sha256 sg = w_sha256_hex E bytes)"

lemma segment_stores_later:
  "segment_stores E L topic part m records sg \<Longrightarrow> keeps_dir (engine_dir L topic part) m m' \<Longrightarrow>
   segment_stores E L topic part m' records sg"
  unfolding segment_stores_def by (blast dest: keeps_dir_SomeD segment_named_immutable)

lemma seal_if_full_holds:
  assumes legal: "log_legal E L topic part view rely"
    and run: "(if length (rt_tail root) = PAGE_ENTRIES then seal_tail E L topic part root else io_ret root) s = (Inr root', t)"
    and root: "root_holds E L topic part (view s) root xs"
  shows "root_holds E L topic part (view t) root' xs \<and> keeps_dir (engine_dir L topic part) (view s) (view t)
    \<and> (\<exists>tree tail. root' = root\<lparr>rt_tree := tree, rt_tail := tail\<rparr>)"
proof (cases "length (rt_tail root) = PAGE_ENTRIES")
  case True
  with run have "seal_tail E L topic part root s = (Inr root', t)" by simp
  from seal_tail_holds [OF log_legalD(1) [OF legal] this True root] seal_tail_fields [OF this] show ?thesis by blast
next
  case False
  have "root = root\<lparr>rt_tree := rt_tree root, rt_tail := rt_tail root\<rparr>" by simp
  then have "\<exists>tree tail. root = root\<lparr>rt_tree := tree, rt_tail := tail\<rparr>" by blast
  with False run root show ?thesis by simp
qed

lemma publish_addition_holds:
  fixes E :: "('s, 'm) log_env_scheme"
  assumes legal: "log_legal E L topic part view rely"
    and run: "publish_addition E L topic part now records base root s = (Inr root', t)"
    and root: "root_holds E L topic part (view s) root xs"
  shows "\<exists>sg. root_holds E L topic part (view t) root' (xs @ [sg])
    \<and> keeps_dir (engine_dir L topic part) (view s) (view t)
    \<and> sg_base_offset sg = base \<and> segment_stores E L topic part (view t) records sg
    \<and> rt_start_offset root' = rt_start_offset root \<and> rt_producers root' = rt_producers root
    \<and> rt_next_offset root' = wrap_i64 (base + int (length records))"
proof -
  note later = creates_later [OF legal]
  note keep = log_creates_keep [OF legal]
  let ?keeps = "\<lambda>s t. keeps_dir (engine_dir L topic part) (view s) (view t)"
  from run [unfolded publish_addition_def] obtain mid u assigned encoded where
    seal: "(if length (rt_tail root) = PAGE_ENTRIES then seal_tail E L topic part root else io_ret root) s = (Inr mid, u)"
    and enc: "assigned_records records base = Inr assigned" "encode_records E assigned = Inr encoded"
    and rest: "io_bind (io_call (w_new_uuid E)) (\<lambda>uuid.
       let object = segment_path E L topic part uuid
       in io_bind (io_lift (ok_or (checked_add_u64 (rt_revision mid) 1) RevisionOverflow)) (\<lambda>revision.
          let root = mid\<lparr>rt_revision := revision,
                rt_next_offset := wrap_i64 (base + int (length records)),
                rt_tail := rt_tail mid @
                  [\<lparr>sg_object = object, sg_base_offset = base, sg_record_count = length records,
                    sg_byte_length = length encoded, sg_sha256 = w_sha256_hex E encoded,
                    sg_received_at_ms = Some now\<rparr>]\<rparr>
          in io_bind (io_store (w_put E object encoded Create)) (\<lambda>_. io_ret root))) u = (Inr root', t)"
    unfolding io_bind_Inr_iff io_lift_Inr by blast
  from rest obtain id u1 v revision where
    id: "w_new_uuid E u = (id, u1)" and put: "w_put E (segment_path E L topic part id) encoded Create u1 = (Inr v, t)"
    and root': "root' = mid\<lparr>rt_revision := revision, rt_next_offset := wrap_i64 (base + int (length records)),
        rt_tail := rt_tail mid @
          [\<lparr>sg_object = segment_path E L topic part id, sg_base_offset = base, sg_record_count = length records,
            sg_byte_length = length encoded, sg_sha256 = w_sha256_hex E encoded,
            sg_received_at_ms = Some now\<rparr>]\<rparr>"
    by (auto simp: result_simps Let_def)
  define sg where "sg = \<lparr>sg_object = segment_path E L topic part id, sg_base_offset = base, sg_record_count = length records,
            sg_byte_length = length encoded, sg_sha256 = w_sha256_hex E encoded, sg_received_at_ms = Some now\<rparr>"
  from seal_if_full_holds [OF legal seal root] obtain tree tail where
    mid: "root_holds E L topic part (view u) mid xs" "?keeps s u" "mid = root\<lparr>rt_tree := tree, rt_tail := tail\<rparr>" by blast
  have "(io_call (w_new_uuid E) :: ('s, log_error, string) io) u = (Inr id, u1)" using id by (simp add: io_call_def)
  then have uu: "?keeps u u1" by (rule later [OF creates_keepD(3) [OF keep]])
  have ut: "?keeps u1 t" by (rule later [OF creates_keepD(2) [OF keep] put])
  have all: "?keeps u t" "?keeps s t" using uu ut mid(2) by (blast intro: keeps_dir_trans)+
  have name: "segment_path E L topic part id = engine_dir L topic part @ ''segments/'' @ id @ ''.batch''"
    using legalD(2) [OF log_legalD(1) [OF legal]] id
    by (auto simp: segment_path_def name_laws_def Let_def dest!: spec [of _ u])
  have named: "segment_named L topic part sg"
    unfolding segment_named_def sg_def by (simp add: name starts_with_iff ends_with_iff)
  have "view t (segment_path E L topic part id) = Some (v, encoded)"
    by (rule create_Inr [OF log_legalD(3) [OF legal] put])
  with enc named have stores: "segment_stores E L topic part (view t) records sg"
    by (simp add: segment_stores_def sg_def)
  have "root_holds E L topic part (view t) (mid\<lparr>rt_tail := rt_tail mid @ [sg]\<rparr>) (xs @ [sg])"
    by (rule root_holds_push [OF root_holds_later [OF mid(1) all(1)]])
  then have "root_holds E L topic part (view t) root' (xs @ [sg])"
    unfolding root' sg_def [symmetric] by (simp add: root_holds_def split: option.splits)
  with all stores root' mid(3) show ?thesis by (intro exI [of _ sg]) (simp add: sg_def)
qed

lemma publish_additions_holds:
  assumes legal: "log_legal E L topic part view rely"
    and "publish_additions E L topic part now adds root s = (Inr root', t)"
    and "root_holds E L topic part (view s) root xs"
  shows "\<exists>new. root_holds E L topic part (view t) root' (xs @ new)
    \<and> keeps_dir (engine_dir L topic part) (view s) (view t)
    \<and> list_all2 (\<lambda>(records, base) sg. sg_base_offset sg = base \<and> segment_stores E L topic part (view t) records sg) adds new
    \<and> rt_start_offset root' = rt_start_offset root \<and> rt_producers root' = rt_producers root
    \<and> (adds \<noteq> [] \<longrightarrow> rt_next_offset root' = wrap_i64 (snd (last adds) + int (length (fst (last adds)))))"
  using assms(2,3)
proof (induction adds arbitrary: root s xs)
  case Nil
  then show ?case by (intro exI [of _ "[]"]) simp
next
  case (Cons a adds)
  obtain records base where a: "a = (records, base)" by force
  with Cons.prems(1) obtain mid u where
    one: "publish_addition E L topic part now records base root s = (Inr mid, u)"
    and rest: "publish_additions E L topic part now adds mid u = (Inr root', t)"
    by (auto simp: result_simps)
  from publish_addition_holds [OF legal one Cons.prems(2)] obtain sg where
    sg: "root_holds E L topic part (view u) mid (xs @ [sg])" "keeps_dir (engine_dir L topic part) (view s) (view u)"
      "sg_base_offset sg = base" "segment_stores E L topic part (view u) records sg"
      "rt_start_offset mid = rt_start_offset root" "rt_producers mid = rt_producers root"
      "rt_next_offset mid = wrap_i64 (base + int (length records))" by blast
  from Cons.IH [OF rest sg(1)] obtain new where
    new: "root_holds E L topic part (view t) root' ((xs @ [sg]) @ new)" "keeps_dir (engine_dir L topic part) (view u) (view t)"
      "list_all2 (\<lambda>(records, base) sg. sg_base_offset sg = base \<and> segment_stores E L topic part (view t) records sg) adds new"
      "rt_start_offset root' = rt_start_offset mid" "rt_producers root' = rt_producers mid"
      "adds \<noteq> [] \<longrightarrow> rt_next_offset root' = wrap_i64 (snd (last adds) + int (length (fst (last adds))))" by blast
  have unchanged: "adds = [] \<Longrightarrow> rt_next_offset root' = rt_next_offset mid" using rest by simp
  have "segment_stores E L topic part (view t) records sg" by (rule segment_stores_later [OF sg(4) new(2)])
  with new sg a keeps_dir_trans [OF sg(2) new(2)] unchanged show ?case by (intro exI [of _ "sg # new"]) auto
qed

lemma append_root_holds:
  assumes legal: "log_legal E L topic part view rely"
    and run: "append_root E L topic part lm now s = (Inr root, t)"
    and lm: "manifest_holds E L topic part (view s) lm xs"
  shows "root_holds E L topic part (view t) root xs \<and> keeps_dir (engine_dir L topic part) (view s) (view t)
    \<and> rt_start_offset root = lm_start_offset lm \<and> rt_next_offset root = lm_next_offset lm
    \<and> rt_producers root = (case lm of Legacy _ \<Rightarrow> None | Indexed r \<Rightarrow> rt_producers r)"
proof -
  from run obtain mid u where
    mid: "(case lm of Legacy legacy \<Rightarrow> migrate_manifest E L topic part legacy now
          | Indexed root \<Rightarrow> io_ret (if rt_schema root \<noteq> INDEX_SCHEMA
              then root\<lparr>rt_schema := INDEX_SCHEMA, rt_adopted_at_ms := (case rt_adopted_at_ms root of
                    None \<Rightarrow> Some now | Some t \<Rightarrow> Some t)\<rparr> else root)) s = (Inr mid, u)"
    and seal: "(if length (rt_tail mid) = PAGE_ENTRIES then seal_tail E L topic part mid else io_ret mid) u = (Inr root, t)"
    by (auto simp: append_root_def result_simps)
  have m: "root_holds E L topic part (view u) mid xs \<and> keeps_dir (engine_dir L topic part) (view s) (view u)
    \<and> rt_start_offset mid = lm_start_offset lm \<and> rt_next_offset mid = lm_next_offset lm
    \<and> rt_producers mid = (case lm of Legacy _ \<Rightarrow> None | Indexed r \<Rightarrow> rt_producers r)"
  proof (cases lm)
    case (Legacy mf)
    with mid migrate_manifest_holds [OF log_legalD(1) [OF legal], of mf now s mid u] lm show ?thesis by simp
  next
    case (Indexed r)
    with mid lm show ?thesis by (auto simp: root_holds_def split: if_splits option.splits)
  qed
  then have "root_holds E L topic part (view u) mid xs" by blast
  from seal_if_full_holds [OF legal seal this] m show ?thesis by (auto intro: keeps_dir_trans)
qed

lemma publish_states_root:
  assumes "publish_states E L topic part n states root s = (Inr root', t)"
  shows "\<exists>p. root' = root\<lparr>rt_producers := p\<rparr>"
  using assms
proof (induction states arbitrary: root s)
  case Nil
  then have "root' = root\<lparr>rt_producers := rt_producers root\<rparr>" by simp
  then show ?case by blast
next
  case (Cons state states)
  then show ?case by (fastforce simp: result_simps)
qed

section \<open>One append\<close>

text \<open>
  What a prepared append will add to a log that denotes \<open>xs\<close>: segments that store a
  sub-sequence of the request's batches, all of them if no batch carries a producer ID.
\<close>

definition extends_log ::
  "('s, 'm) log_env_scheme \<Rightarrow> engine \<Rightarrow> string \<Rightarrow> int \<Rightarrow> objects \<Rightarrow> log_manifest \<Rightarrow> kafka_record list list
   \<Rightarrow> segment list \<Rightarrow> append_result \<Rightarrow> root \<Rightarrow> segment list \<Rightarrow> bool" where
  "extends_log E L topic part m lm batches xs result root new \<longleftrightarrow>
     root_holds E L topic part m root (xs @ new) \<and> rt_start_offset root = lm_start_offset lm
   \<and> (\<exists>bs. bs \<noteq> [] \<and> subseq bs batches \<and> list_all2 (segment_stores E L topic part m) bs new
        \<and> ((\<forall>records \<in> set batches. anonymous records) \<longrightarrow>
             bs = batches \<and> ar_base_offset result = lm_next_offset lm
             \<and> ar_last_offset result = lm_next_offset lm + (\<Sum>records\<leftarrow>batches. int (length records)) - 1))"

text \<open>The reference to the producer directory.\<close>

fun directory_of :: "log_manifest \<Rightarrow> producer_ref option" where
  "directory_of (Legacy m) = None"
| "directory_of (Indexed root) = rt_producers root"

text \<open>Each new batch is stored at the offset it was given.\<close>

definition placed ::
  "('s, 'm) log_env_scheme \<Rightarrow> engine \<Rightarrow> string \<Rightarrow> int \<Rightarrow> objects \<Rightarrow> (kafka_record list \<times> int) list \<Rightarrow> segment list \<Rightarrow> bool" where
  "placed E L topic part m adds new \<longleftrightarrow>
     list_all2 (\<lambda>(records, base) sg. sg_base_offset sg = base \<and> segment_stores E L topic part m records sg) adds new"

text \<open>
  The outcome is the one decided on the producer states that the directory denoted at \<open>m\<close>: the
  answer, and the new batches, each stored at the offset it was given; and at \<open>m'\<close> the directory
  of the new root denotes the states after the decision.
\<close>

definition added_as_decided ::
  "('s, 'm) log_env_scheme \<Rightarrow> engine \<Rightarrow> string \<Rightarrow> int \<Rightarrow> objects \<Rightarrow> objects \<Rightarrow> log_manifest \<Rightarrow> kafka_record list list
   \<Rightarrow> string list \<Rightarrow> append_result \<Rightarrow> root \<Rightarrow> segment list \<Rightarrow> bool" where
  "added_as_decided E L topic part m m' lm batches fps result root new \<longleftrightarrow>
     (\<forall>ps. directory_holds E L topic part (lm_next_offset lm) m (directory_of lm) ps \<longrightarrow>
        (\<exists>rs adds ps'. decides (\<lambda>pid. find_producer pid ps) (lm_next_offset lm) (zip batches fps)
              = Some (rs, adds, \<lambda>pid. find_producer pid ps')
           \<and> result = answer rs \<and> placed E L topic part m' adds new
           \<and> directory_holds E L topic part (rt_next_offset root) m' (rt_producers root) ps'))"

text \<open>Nothing is new: every batch is answered from what its producer's state remembers.\<close>

definition all_retried ::
  "('s, 'm) log_env_scheme \<Rightarrow> engine \<Rightarrow> string \<Rightarrow> int \<Rightarrow> objects \<Rightarrow> log_manifest \<Rightarrow> kafka_record list list
   \<Rightarrow> string list \<Rightarrow> append_result \<Rightarrow> bool" where
  "all_retried E L topic part m lm batches fps result \<longleftrightarrow>
     \<not> (\<forall>records \<in> set batches. anonymous records)
   \<and> (\<forall>ps. directory_holds E L topic part (lm_next_offset lm) m (directory_of lm) ps \<longrightarrow>
        (\<exists>rs known. decides (\<lambda>pid. find_producer pid ps) (lm_next_offset lm) (zip batches fps) = Some (rs, [], known)
           \<and> result = answer rs))"

lemma placed_later:
  "placed E L topic part m adds new \<Longrightarrow> keeps_dir (engine_dir L topic part) m m' \<Longrightarrow> placed E L topic part m' adds new"
  unfolding placed_def by (erule list_all2_mono) (auto intro: segment_stores_later)

lemma added_as_decided_later:
  assumes was: "added_as_decided E L topic part m m' lm batches fps result root new" and keep: "keeps_dir (engine_dir L topic part) m' m''"
  shows "added_as_decided E L topic part m m'' lm batches fps result root new"
  unfolding added_as_decided_def
proof (intro allI impI)
  fix ps assume "directory_holds E L topic part (lm_next_offset lm) m (directory_of lm) ps"
  with was obtain rs adds ps' where "decides (\<lambda>pid. find_producer pid ps) (lm_next_offset lm) (zip batches fps)
      = Some (rs, adds, \<lambda>pid. find_producer pid ps')" "result = answer rs" "placed E L topic part m' adds new"
    "directory_holds E L topic part (rt_next_offset root) m' (rt_producers root) ps'"
    unfolding added_as_decided_def by blast
  then show "\<exists>rs adds ps'. decides (\<lambda>pid. find_producer pid ps) (lm_next_offset lm) (zip batches fps)
              = Some (rs, adds, \<lambda>pid. find_producer pid ps')
           \<and> result = answer rs \<and> placed E L topic part m'' adds new
           \<and> directory_holds E L topic part (rt_next_offset root) m'' (rt_producers root) ps'"
    using placed_later [OF _ keep] directory_holds_later [OF _ keep] by blast
qed

lemma extends_log_later:
  assumes "extends_log E L topic part m lm batches xs result root new" "keeps_dir (engine_dir L topic part) m m'"
  shows "extends_log E L topic part m' lm batches xs result root new"
proof -
  have "list_all2 (segment_stores E L topic part m') bs new" if "list_all2 (segment_stores E L topic part m) bs new" for bs
    using that by (rule list_all2_mono) (rule segment_stores_later [OF _ assms(2)])
  with assms(1) root_holds_later [OF _ assms(2)] show ?thesis
    unfolding extends_log_def by blast
qed

lemma map_fst_zip: "length xs = length ys \<Longrightarrow> map fst (zip xs ys) = xs"
  by simp

lemma prepare_append_Some:
  assumes legal: "log_legal E L topic part view rely"
    and run: "prepare_append E L topic part lm batches fps now s = (Inr (result, Some root), t)"
    and lm: "manifest_holds E L topic part (view s) lm xs"
    and fps: "length fps = length batches" and n: "0 \<le> lm_next_offset lm"
  shows "\<exists>new. extends_log E L topic part (view t) lm batches xs result root new
    \<and> ((\<forall>records \<in> set batches. records \<noteq> []) \<longrightarrow> lm_next_offset lm \<le> rt_next_offset root \<longrightarrow>
        added_as_decided E L topic part (view s) (view t) lm batches fps result root new)"
proof -
  let ?directory = "case lm of Indexed root \<Rightarrow> rt_producers root | _ \<Rightarrow> None"
  let ?start = "\<lparr>ap_states = [], ap_additions = [], ap_results = [], ap_next_offset = lm_next_offset lm\<rparr>"
  note keep = log_creates_keep [OF legal]
  note later = creates_later [OF legal]
  from run obtain plan u r1 u1 r2 u2 where
    plan0: "plan_batches E L topic part ?directory (lm_next_offset lm) (zip batches fps) ?start s = (Inr plan, u)"
    and adds: "ap_additions plan \<noteq> []"
    and ar: "append_root E L topic part lm now u = (Inr r1, u1)"
    and pa: "publish_additions E L topic part now (ap_additions plan) r1 u1 = (Inr r2, u2)"
    and ps_run: "publish_states E L topic part (ap_next_offset plan) (bt_values (ap_states plan)) r2 u2 = (Inr root, t)"
    and result: "result = \<lparr>ar_base_offset = ar_base_offset (hd (ap_results plan)),
                         ar_last_offset = ar_last_offset (last (ap_results plan))\<rparr>"
    by (auto simp: prepare_append_def result_simps Let_def split: if_splits)
  have plan: "plan_batches E L topic part (directory_of lm) (lm_next_offset lm) (zip batches fps) ?start s = (Inr plan, u)"
    using plan0 by (cases lm) simp_all
  have su: "keeps_dir (engine_dir L topic part) (view s) (view u)"
    by (rule later [OF plan_batches_reads [OF creates_keepD(1) [OF keep]] plan])
  have ut: "keeps_dir (engine_dir L topic part) (view u2) (view t)"
    by (rule later [OF append_creates(5) [OF keep] ps_run])
  note a = append_root_holds [OF legal ar manifest_holds_later [OF lm su]]
  have "root_holds E L topic part (view u1) r1 xs" using a by blast
  from publish_additions_holds [OF legal pa this] obtain new where
    new: "root_holds E L topic part (view u2) r2 (xs @ new)"
      "list_all2 (\<lambda>(records, base) sg. sg_base_offset sg = base \<and> segment_stores E L topic part (view u2) records sg)
         (ap_additions plan) new"
      "rt_start_offset r2 = rt_start_offset r1" "rt_producers r2 = rt_producers r1"
      "ap_additions plan \<noteq> [] \<longrightarrow> rt_next_offset r2 =
         wrap_i64 (snd (last (ap_additions plan)) + int (length (fst (last (ap_additions plan)))))" by blast
  obtain p where root: "root = r2\<lparr>rt_producers := p\<rparr>" using publish_states_root [OF ps_run] by blast
  have "root_holds E L topic part (view u2) root (xs @ new)"
    using new(1) by (simp add: root root_holds_def split: option.splits)
  then have holds: "root_holds E L topic part (view t) root (xs @ new)" by (rule root_holds_later [OF _ ut])
  have stores: "list_all2 (segment_stores E L topic part (view t)) (map fst (ap_additions plan)) new"
    using new(2) by (auto simp: list_all2_map1 elim!: list_all2_mono intro: segment_stores_later [OF _ ut])
  from plan_batches_shape [OF plan] fps have sub: "subseq (map fst (ap_additions plan)) batches" by auto
  have anon: "map fst (ap_additions plan) = batches \<and> ar_base_offset result = lm_next_offset lm
       \<and> ar_last_offset result = lm_next_offset lm + (\<Sum>records\<leftarrow>batches. int (length records)) - 1"
    if "\<forall>records \<in> set batches. anonymous records"
  proof -
    have all: "\<forall>b \<in> set (zip batches fps). anonymous (fst b)" using that by (auto dest: set_zip_leftD)
    have ne: "zip batches fps \<noteq> []" using adds sub fps by (cases batches; cases fps) auto
    have total: "(\<Sum>b\<leftarrow>zip batches fps. int (length (fst b))) = (\<Sum>records\<leftarrow>batches. int (length records))"
      using fps by (simp add: map_fst_zip flip: map_map [of "\<lambda>r. int (length r)" fst, unfolded comp_def])
    from plan_batches_anonymous [OF plan all] n fps ne total result show ?thesis by auto
  qed
  have ext: "extends_log E L topic part (view t) lm batches xs result root new"
    unfolding extends_log_def
    using holds new(3) a root sub stores anon adds
    by (intro conjI exI [of _ "map fst (ap_additions plan)"]) auto
  have "added_as_decided E L topic part (view s) (view t) lm batches fps result root new"
    if full: "\<forall>records \<in> set batches. records \<noteq> []" and up: "lm_next_offset lm \<le> rt_next_offset root"
    unfolding added_as_decided_def
  proof (intro allI impI)
    fix ps assume ps: "directory_holds E L topic part (lm_next_offset lm) (view s) (directory_of lm) ps"
    note prod = log_legalD(2) [OF legal]
    have full': "\<forall>b \<in> set (zip batches fps). fst b \<noteq> []" using full by (auto dest: set_zip_leftD)
    have ok: "plan_ok ps ?start" using n directory_behind [OF ps] by (simp add: plan_ok_def states_ok_def bt_inv_def)
    from plan_batches_decides [OF prod plan ps ok full'] adds
    have dec: "decides (\<lambda>pid. find_producer pid ps) (lm_next_offset lm) (zip batches fps)
          = Some (ap_results plan, ap_additions plan, known_states (ap_states plan) ps)"
      and states: "states_ok (ap_states plan)"
      and next_offset: "snd (last (ap_additions plan)) + int (length (fst (last (ap_additions plan)))) = ap_next_offset plan"
        "in_i64 (ap_next_offset plan)" by auto
    have nx: "rt_next_offset root = ap_next_offset plan" using new(5) adds next_offset root by simp
    have u2: "keeps_dir (engine_dir L topic part) (view s) (view u2)"
      using keeps_dir_trans [OF keeps_dir_trans [OF su] later [OF append_creates(4) [OF keep] pa]] a by blast
    have "directory_holds E L topic part (ap_next_offset plan) (view u2) (rt_producers r2) ps"
      using directory_holds_raise [OF directory_holds_later [OF ps u2]] up nx a new(4) by (cases lm) simp_all
    from publish_states_holds [OF prod ps_run this states] obtain ps' where
      ps': "directory_holds E L topic part (ap_next_offset plan) (view t) (rt_producers root) ps'"
        "known_states (ap_states plan) ps = (\<lambda>pid. find_producer pid ps')" by blast
    have "placed E L topic part (view t) (ap_additions plan) new"
      using new(2) placed_later [OF _ ut] by (simp add: placed_def)
    with dec ps' nx result show "\<exists>rs adds ps'. decides (\<lambda>pid. find_producer pid ps) (lm_next_offset lm) (zip batches fps)
              = Some (rs, adds, \<lambda>pid. find_producer pid ps')
           \<and> result = answer rs \<and> placed E L topic part (view t) adds new
           \<and> directory_holds E L topic part (rt_next_offset root) (view t) (rt_producers root) ps'"
      by (intro exI [of _ "ap_results plan"] exI [of _ "ap_additions plan"] exI [of _ ps']) (simp add: answer_def)
  qed
  with ext show ?thesis by blast
qed

text \<open>If nothing is to be added, all batches were retries and the append has only read.\<close>

lemma prepare_append_None:
  assumes laws: "store_laws E view rely" and fps: "length fps = length batches" and ne: "batches \<noteq> []"
    and run: "prepare_append E L topic part lm batches fps now s = (Inr (result, None), t)"
  shows "rely (view s) (view t) \<and> \<not> (\<forall>records \<in> set batches. anonymous records)"
proof -
  from run obtain plan directory
    where plan: "plan_batches E L topic part directory (lm_next_offset lm) (zip batches fps)
        \<lparr>ap_states = [], ap_additions = [], ap_results = [], ap_next_offset = lm_next_offset lm\<rparr> s = (Inr plan, t)"
      and none: "ap_additions plan = []" by (auto simp: prepare_append_def result_simps Let_def split: if_splits)
  have "rely (view s) (view t)"
    by (rule relied_rtrancl [OF laws io_keepsD [OF plan_batches_reads plan]]) (rule reads_relied [OF laws])
  moreover have "\<not> (\<forall>records \<in> set batches. anonymous records)"
  proof
    assume all: "\<forall>records \<in> set batches. anonymous records"
    obtain b bs f fs where split: "batches = b # bs" "fps = f # fs" using ne fps by (cases batches; cases fps) auto
    with plan obtain mid v where one: "plan_batch E L topic part directory (lm_next_offset lm) b f
        \<lparr>ap_states = [], ap_additions = [], ap_results = [], ap_next_offset = lm_next_offset lm\<rparr> s = (Inr mid, v)"
      and more: "plan_batches E L topic part directory (lm_next_offset lm) (zip bs fs) mid v = (Inr plan, t)"
      by (auto simp: result_simps)
    have "ap_additions mid \<noteq> []"
      using one all split by (auto simp: plan_batch_def anonymous_def Let_def result_simps split: if_splits)
    with plan_batches_shape [OF more] none show False by auto
  qed
  ultimately show ?thesis by blast
qed

text \<open>The plan behind such an answer.\<close>

lemma prepare_append_None_plan:
  assumes run: "prepare_append E L topic part lm batches fps now s = (Inr (result, None), t)"
  obtains plan where "plan_batches E L topic part (directory_of lm) (lm_next_offset lm) (zip batches fps)
      \<lparr>ap_states = [], ap_additions = [], ap_results = [], ap_next_offset = lm_next_offset lm\<rparr> s = (Inr plan, t)"
    "ap_additions plan = []" "result = answer (ap_results plan)"
proof -
  let ?directory = "case lm of Indexed root \<Rightarrow> rt_producers root | _ \<Rightarrow> None"
  from run obtain plan
    where plan: "plan_batches E L topic part ?directory (lm_next_offset lm) (zip batches fps)
        \<lparr>ap_states = [], ap_additions = [], ap_results = [], ap_next_offset = lm_next_offset lm\<rparr> s = (Inr plan, t)"
      and "ap_additions plan = []"
      "result = \<lparr>ar_base_offset = ar_base_offset (hd (ap_results plan)),
                 ar_last_offset = ar_last_offset (last (ap_results plan))\<rparr>"
    by (auto simp: prepare_append_def result_simps Let_def split: if_splits)
  with that [of plan] show thesis by (cases lm) (simp_all add: answer_def)
qed

lemma plan_retried:
  assumes legal: "producer_legal E L topic part view rely" and n: "0 \<le> lm_next_offset lm"
    and full: "\<forall>records \<in> set batches. records \<noteq> []"
    and plan: "plan_batches E L topic part (directory_of lm) (lm_next_offset lm) (zip batches fps)
      \<lparr>ap_states = [], ap_additions = [], ap_results = [], ap_next_offset = lm_next_offset lm\<rparr> s = (Inr plan, t)"
    and none: "ap_additions plan = []"
    and ps: "directory_holds E L topic part (lm_next_offset lm) (view s) (directory_of lm) ps"
  shows "\<exists>known. decides (\<lambda>pid. find_producer pid ps) (lm_next_offset lm) (zip batches fps) = Some (ap_results plan, [], known)"
proof -
  have full': "\<forall>b \<in> set (zip batches fps). fst b \<noteq> []" using full by (auto dest: set_zip_leftD)
  have "plan_ok ps \<lparr>ap_states = [], ap_additions = [], ap_results = [], ap_next_offset = lm_next_offset lm\<rparr>"
    using n directory_behind [OF ps] by (simp add: plan_ok_def states_ok_def bt_inv_def)
  from plan_batches_decides [OF legal plan ps this full'] none show ?thesis by auto
qed

lemma prepare_append_retried:
  assumes legal: "producer_legal E L topic part view rely" and fps: "length fps = length batches" and ne: "batches \<noteq> []"
    and n: "0 \<le> lm_next_offset lm" and full: "\<forall>records \<in> set batches. records \<noteq> []"
    and run: "prepare_append E L topic part lm batches fps now s = (Inr (result, None), t)"
  shows "all_retried E L topic part (view s) lm batches fps result"
proof -
  from run obtain plan where plan: "plan_batches E L topic part (directory_of lm) (lm_next_offset lm) (zip batches fps)
      \<lparr>ap_states = [], ap_additions = [], ap_results = [], ap_next_offset = lm_next_offset lm\<rparr> s = (Inr plan, t)"
    "ap_additions plan = []" "result = answer (ap_results plan)" by (rule prepare_append_None_plan)
  with plan_retried [OF legal n full plan(1,2)] prepare_append_None [OF producer_legalD(1) [OF legal] fps ne run]
  show ?thesis unfolding all_retried_def by blast
qed

text \<open>The new segments continue the offsets of the old ones.\<close>

lemma extends_log_tiles:
  assumes ext: "extends_log E L topic part m lm batches xs result root new"
    and valid: "validate_root (w_uuid_ok E) root (en_prefix L) topic part = Inr ()"
    and old: "tiles (lm_start_offset lm) xs (lm_next_offset lm)"
  shows "tiles (lm_next_offset lm) new (rt_next_offset root)"
proof -
  from ext have holds: "root_holds E L topic part m root (xs @ new)" and st: "rt_start_offset root = lm_start_offset lm"
    by (auto simp: extends_log_def)
  from validate_root_tiles(1) [OF valid holds] obtain k where
    "tiles (lm_start_offset lm) xs k" "tiles k new (rt_next_offset root)"
    by (auto simp: tiles_append st)
  with tiles_unique [OF old] show ?thesis by blast
qed

text \<open>A successful attempt: nothing to add, or a committed root.\<close>

lemma append_attempt_cases:
  assumes "append_attempt E L topic part batches fps now s = (Inr (Some result), t)"
  obtains (retries) l s1 where "load_or_empty E L topic part s = (Inr l, s1)"
      "prepare_append E L topic part (ld_manifest l) batches fps now s1 = (Inr (result, None), t)"
  | (commits) l s1 r root u where "load_or_empty E L topic part s = (Inr l, s1)"
      "prepare_append E L topic part (ld_manifest l) batches fps now s1 = (Inr (r, Some root), u)"
      "commit_root E L topic part (ld_version l) root r u = (Inr (Some result), t)"
proof -
  from assms obtain l s1 where load: "load_or_empty E L topic part s = (Inr l, s1)"
    and rest: "\<exists>p u. prepare_append E L topic part (ld_manifest l) batches fps now s1 = (p, u)
      \<and> (case p of
         Inl e \<Rightarrow> io_bind (stale_missing E L topic part (ld_version l) e) (\<lambda>stale. if stale then io_ret None else io_err e)
       | Inr (result, None) \<Rightarrow> io_ret (Some result)
       | Inr (result, Some next) \<Rightarrow> commit_root E L topic part (ld_version l) next result) u = (Inr (Some result), t)"
    unfolding append_attempt_def io_bind_Inr_iff io_try_iff by blast
  then obtain p u where prep: "prepare_append E L topic part (ld_manifest l) batches fps now s1 = (p, u)"
    and go: "(case p of
         Inl e \<Rightarrow> io_bind (stale_missing E L topic part (ld_version l) e) (\<lambda>stale. if stale then io_ret None else io_err e)
       | Inr (result, None) \<Rightarrow> io_ret (Some result)
       | Inr (result, Some next) \<Rightarrow> commit_root E L topic part (ld_version l) next result) u = (Inr (Some result), t)"
    by blast
  show thesis
  proof (cases p)
    case (Inl e)
    with go show ?thesis by (auto simp: result_simps split: if_splits)
  next
    case (Inr pair)
    obtain r ro where pair: "pair = (r, ro)" by force
    with go Inr load prep retries commits show ?thesis by (cases ro) auto
  qed
qed

section \<open>The whole append\<close>

text \<open>
  How a successful append of a request relates the bucket \<open>m0\<close> before it to the bucket \<open>m2\<close> after
  it. Up to its commit the append only creates objects of its own: by such steps and those of other
  clients \<open>m0\<close> becomes \<open>m\<close>, where it loaded the manifest \<open>lm\<close>. Either all batches were retries, and then
  it has only read; or \<open>m\<close> becomes \<open>m1\<close> by further steps of this kind, the root object there is the
  one that was loaded, and the last step replaces it by a root that extends the log by the new
  batches and its producer directory by their identities. The answer is the one decided on the
  log and the producer states of \<open>m\<close>.
\<close>

definition append_done ::
  "('s, 'm) log_env_scheme \<Rightarrow> engine \<Rightarrow> string \<Rightarrow> int \<Rightarrow> (objects \<Rightarrow> objects \<Rightarrow> bool) \<Rightarrow> kafka_record list list
   \<Rightarrow> objects \<Rightarrow> append_result \<Rightarrow> objects \<Rightarrow> bool" where
  "append_done E L topic part rely batches m0 result m2 \<longleftrightarrow>
     (\<exists>fps total_bytes m lm. check_batches E batches [] 0 = Inr (fps, total_bytes)
      \<and> prepares E L topic part rely m0 m \<and> current_manifest E L topic part m = Some lm
      \<and> ((rely m m2 \<and> all_retried E L topic part m lm batches fps result)
         \<or> (\<exists>m1 root v b. prepares E L topic part rely m m1
              \<and> m1 (manifest_path E L topic part) = m (manifest_path E L topic part)
              \<and> m2 = m1(manifest_path E L topic part \<mapsto> (v, b))
              \<and> current_manifest E L topic part m2 = Some (Indexed root)
              \<and> (\<forall>xs. manifest_holds E L topic part m lm xs \<longrightarrow>
                   (\<exists>new. extends_log E L topic part m2 lm batches xs result root new
                      \<and> tiles (lm_next_offset lm) new (rt_next_offset root)
                      \<and> added_as_decided E L topic part m m2 lm batches fps result root new)))))"

text \<open>The checks before an append find at least one record in every batch.\<close>

lemma check_batches_full: "check_batches E batches fps n = Inr x \<Longrightarrow> \<forall>records \<in> set batches. records \<noteq> []"
proof (induction batches arbitrary: fps n)
  case (Cons records batches)
  then obtain y where "check_batch E records = Inr y" by (auto simp: result_simps)
  then have "records \<noteq> []" by (auto simp: check_batch_def validate_records_def result_simps)
  with Cons show ?case by (auto simp: result_simps)
qed simp

lemma check_batches_length:
  "check_batches E batches fps n = Inr (fps', n') \<Longrightarrow> length fps' = length fps + length batches"
  by (induction batches arbitrary: fps n) (auto simp: result_simps)

text \<open>The manifest that is loaded ends at an offset that is not negative.\<close>

lemma current_next_offset:
  assumes "current_manifest E L topic part m = Some lm" shows "0 \<le> lm_next_offset lm"
proof (cases "m (manifest_path E L topic part)")
  case None
  with assms show ?thesis by (auto simp: current_manifest_def root_default_def)
next
  case (Some e)
  with assms obtain b where b: "decode_manifest E L topic part b = Inr lm"
    by (auto simp: current_manifest_def split: prod.splits sum.splits)
  show ?thesis
  proof (cases lm)
    case (Legacy mf)
    with b tiles_le [OF decode_manifest_Legacy(1)] show ?thesis by fastforce
  next
    case (Indexed r)
    with b decode_manifest_Indexed have "validate_root (w_uuid_ok E) r (en_prefix L) topic part = Inr ()" by blast
    with Indexed show ?thesis by (auto simp: validate_root_def result_simps split: if_splits option.splits)
  qed
qed

text \<open>The root object that is replaced is the one that was loaded.\<close>

lemma same_version_same_object:
  assumes "store_laws E view rely" "map_option fst (view s p) = map_option fst (view t p)"
  shows "view s p = view t p"
proof (cases "view s p")
  case None
  with assms(2) show ?thesis by simp
next
  case (Some e)
  with assms(2) obtain v b b' where e: "view s p = Some (v, b)" "view t p = Some (v, b')"
    by (cases e; cases "view t p") auto
  with store_laws_version [OF assms(1) e] show ?thesis by simp
qed

text \<open>What other clients and the creation of own objects do is all that happens before the commit.\<close>

definition append_names :: "('s, 'm) log_env_scheme \<Rightarrow> engine \<Rightarrow> string \<Rightarrow> int \<Rightarrow> bool" where
  "append_names E L topic part \<longleftrightarrow> name_laws E L topic part \<and> metadata_named E L topic"

lemma append_names_creates:
  "store_laws E view rely \<Longrightarrow> append_names E L topic part \<Longrightarrow>
   creates_at (own_name E L topic part) (prepared E L topic part view rely) E L topic part"
  unfolding append_names_def by (blast intro: prepared_creates)

lemma loading_prepares:
  assumes laws: "store_laws E view rely" and from0: "prepares E L topic part rely m0 (view s)"
    and load: "load_or_empty E L topic part s = (Inr l, s1)"
  shows "prepares E L topic part rely m0 (view s1)" "current_manifest E L topic part (view s1) = Some (ld_manifest l)"
    "ld_version l = map_option fst (view s1 (manifest_path E L topic part))"
  using load_or_empty_current [OF laws load] from0 by (blast intro: prepares.others)+

lemma append_attempt_done:
  assumes legal: "log_legal E L topic part view rely" and names: "append_names E L topic part"
    and from0: "prepares E L topic part rely m0 (view s)"
    and check: "check_batches E batches [] 0 = Inr (fps, total_bytes)" and ne: "batches \<noteq> []"
    and run: "append_attempt E L topic part batches fps now s = (Inr (Some result), t)"
  shows "append_done E L topic part rely batches m0 result (view t)"
proof -
  note laws = log_legalD(3) [OF legal]
  note loaded = loading_prepares [OF laws from0]
  have fps: "length fps = length batches" using check_batches_length [OF check] by simp
  note full = check_batches_full [OF check]
  from run show ?thesis
  proof (cases rule: append_attempt_cases)
    case (retries l s1)
    note l = loaded [OF retries(1)]
    from prepare_append_None [OF laws fps ne retries(2)] l check
      prepare_append_retried [OF log_legalD(2) [OF legal] fps ne current_next_offset [OF l(2)] full retries(2)]
    show ?thesis unfolding append_done_def by blast
  next
    case (commits l s1 r root u)
    let ?lm = "ld_manifest l" and ?p = "manifest_path E L topic part"
    note l = loaded [OF commits(1)]
    note keep = log_creates_keep [OF legal]
    note n = current_next_offset [OF l(2)]
    from commit_root_Some [OF laws log_legalD(4) [OF legal] commits(3)] obtain w v b where
      r: "result = r" and w: "rely (view u) (view w)" "map_option fst (view w ?p) = ld_version l"
      "view t = (view w)(?p \<mapsto> (v, b))" "current_manifest E L topic part (view t) = Some (Indexed root)"
      "validate_root (w_uuid_ok E) root (en_prefix L) topic part = Inr ()" by blast
    have "prepares E L topic part rely (view s1) (view u)"
      by (rule preparesI [OF prepare_append_creates_at [OF append_names_creates [OF laws names]] commits(2)])
    then have sw: "prepares E L topic part rely (view s1) (view w)" using w(1) by (rule prepares.others)
    have same: "view w ?p = view s1 ?p" by (rule same_version_same_object [OF laws]) (use w(2) l(3) in simp)
    have ut: "keeps_dir (engine_dir L topic part) (view u) (view t)"
      using keeps_dir_trans [OF log_legalD(6) [OF legal w(1)] keeps_dir_manifest [OF legal]] w(3) by simp
    have held: "\<exists>new. extends_log E L topic part (view t) ?lm batches xs result root new
        \<and> tiles (lm_next_offset ?lm) new (rt_next_offset root)
        \<and> added_as_decided E L topic part (view s1) (view t) ?lm batches fps result root new"
      if xs: "manifest_holds E L topic part (view s1) ?lm xs" for xs
    proof -
      from prepare_append_Some [OF legal commits(2) xs fps n] full obtain new where
        new: "extends_log E L topic part (view u) ?lm batches xs result root new"
          "lm_next_offset ?lm \<le> rt_next_offset root \<Longrightarrow>
            added_as_decided E L topic part (view s1) (view u) ?lm batches fps result root new" using r by blast
      note ext = extends_log_later [OF new(1) ut]
      note tl = extends_log_tiles [OF ext w(5) current_manifest_tiles(1) [OF l(2) xs]]
      with ext added_as_decided_later [OF new(2) [OF tiles_le [OF tl]] ut] show ?thesis by blast
    qed
    show ?thesis
      unfolding append_done_def
      by (rule exI [of _ fps], rule exI [of _ total_bytes], rule exI [of _ "view s1"], rule exI [of _ ?lm], intro conjI disjI2)
        (use check l sw same w(3,4) held in blast)+
  qed
qed

lemma commit_root_None:
  assumes laws: "store_laws E view rely"
    and run: "commit_root E L topic part ver root result s = (Inr None, t)"
  shows "rely (view s) (view t)"
proof -
  let ?mode = "case ver of None \<Rightarrow> Create | Some v \<Rightarrow> Update v"
  from run obtain b where "le_root_to_vec E root = Inr b" "length b \<le> MAX_MANIFEST_BYTES"
    "validate_root (w_uuid_ok E) root (en_prefix L) topic part = Inr ()"
    unfolding commit_root_def io_bind_Inr_iff Let_def io_json_Inr io_lift_Inr
    by (auto split: if_splits)
  moreover obtain put u where w: "w_put E (manifest_path E L topic part) b ?mode s = (put, u)" by force
  ultimately have "(put = Inl Precondition \<or> put = Inl AlreadyExists) \<and> u = t"
    using run by (auto simp: commit_root_def io_bind_def io_json_def io_try_def Let_def map_err_def
        split: sum.splits store_error.splits)
  with store_laws_put [OF laws w] show ?thesis by (auto simp: put_outcome_def)
qed

text \<open>An attempt that is to be repeated has committed nothing.\<close>

lemma append_attempt_again:
  assumes laws: "store_laws E view rely" and names: "append_names E L topic part"
    and run: "append_attempt E L topic part batches fps now s = (Inr None, t)"
  shows "prepares E L topic part rely (view s) (view t)"
proof -
  note c = append_names_creates [OF laws names]
  note reads = creates_atD(1) [OF c]
  from run obtain l s1 p u where load: "load_or_empty E L topic part s = (Inr l, s1)"
    and prep: "prepare_append E L topic part (ld_manifest l) batches fps now s1 = (p, u)"
    and go: "(case p of
         Inl e \<Rightarrow> io_bind (stale_missing E L topic part (ld_version l) e) (\<lambda>stale. if stale then io_ret None else io_err e)
       | Inr (result, None) \<Rightarrow> io_ret (Some result)
       | Inr (result, Some next) \<Rightarrow> commit_root E L topic part (ld_version l) next result) u = (Inr None, t)"
    unfolding append_attempt_def io_bind_Inr_iff io_try_iff by blast
  have su: "prepares E L topic part rely (view s) (view u)"
    by (rule prepares_trans [OF preparesI [OF prepare_append_creates_at [OF c] prep] preparesI [OF load_reads(3) [OF reads] load]])
  have "prepares E L topic part rely (view u) (view t)"
  proof (cases p)
    case (Inl e)
    let ?again = "io_bind (stale_missing E L topic part (ld_version l) e)
      (\<lambda>stale. if stale then io_ret (None :: append_result option) else io_err e)"
    have again: "io_keeps (prepared E L topic part view rely) ?again" by (intro io_keeps_rules reads)
    have "?again u = (Inr None, t)" using go Inl by simp
    then show ?thesis by (rule preparesI [OF again])
  next
    case (Inr pair)
    with go obtain r root where "pair = (r, Some root)" "commit_root E L topic part (ld_version l) root r u = (Inr None, t)"
      by (auto split: option.splits prod.splits)
    from commit_root_None [OF laws this(2)] show ?thesis by (rule prepares_rely)
  qed
  from prepares_trans [OF this su] show ?thesis .
qed

text \<open>Before the loop of attempts the append has looked at the clock and created its topic.\<close>

lemma append_batches_loop:
  assumes laws: "store_laws E view rely" and names: "append_names E L topic part"
    and run: "append_batches E L topic part batches s = (Inr result, t)"
  obtains fps total_bytes now v where "check_batches E batches [] 0 = Inr (fps, total_bytes)" "batches \<noteq> []"
    "prepares E L topic part rely (view s) (view v)"
    "retry MAX_CAS_ATTEMPTS (ContentionExhausted MAX_CAS_ATTEMPTS)
        (append_attempt E L topic part batches fps now) v = (Inr result, t)"
proof -
  note c = append_names_creates [OF laws names]
  from run obtain fps total_bytes now u v w where
    check: "check_batches E batches [] 0 = Inr (fps, total_bytes)" and ne: "batches \<noteq> []"
    and clock: "unix_millis E s = (Inr now, u)" and topic: "ensure_topic E L topic part u = (Inr w, v)"
    and loop: "retry MAX_CAS_ATTEMPTS (ContentionExhausted MAX_CAS_ATTEMPTS)
        (append_attempt E L topic part batches fps now) v = (Inr result, t)"
    by (auto simp: append_batches_def Let_def result_simps split: if_splits)
  have "io_keeps (prepared E L topic part view rely) (unix_millis E)"
    unfolding unix_millis_def by (intro io_keeps_rules reads_keepD [OF creates_atD(1) [OF c]])
  from that [OF check ne prepares_trans [OF preparesI [OF ensure_topic_creates_at [OF c] topic] preparesI [OF this clock]] loop]
  show thesis .
qed

lemma put_manifest_keeps:
  assumes legal: "log_legal E L topic part view rely"
  shows "io_keeps (dir_kept view (engine_dir L topic part)) (w_put E (manifest_path E L topic part) b mode)"
proof (rule io_keeps_single)
  fix s x t assume "w_put E (manifest_path E L topic part) b mode s = (x, t)"
  from store_laws_put [OF log_legalD(3) [OF legal] this] obtain u where
    u: "rely (view s) (view u)" "put_outcome (manifest_path E L topic part) b mode x (view u) (view t)" by blast
  have "keeps_dir (engine_dir L topic part) (view u) (view t)"
    using u(2) keeps_dir_manifest [OF legal]
    by (auto simp: put_outcome_def split: sum.splits store_error.splits)
  with log_legalD(6) [OF legal u(1)] show "dir_kept view (engine_dir L topic part) s t"
    unfolding dir_kept_def by (rule keeps_dir_trans)
qed

interpretation appending: retry_body "append_attempt E L topic part batches fps now"
  "\<lambda>s. log_legal E L topic part view rely \<and> append_names E L topic part
        \<and> (\<exists>total_bytes. check_batches E batches [] 0 = Inr (fps, total_bytes)) \<and> batches \<noteq> []
        \<and> prepares E L topic part rely m0 (view s)"
  "\<lambda>result t. append_done E L topic part rely batches m0 result (view t)"
  "\<lambda>e t. True"
  for E :: "('s, 'm) log_env_scheme" and L topic part view rely batches fps now m0
proof unfold_locales
  fix s t
  assume inv: "log_legal E L topic part view rely \<and> append_names E L topic part
        \<and> (\<exists>total_bytes. check_batches E batches [] 0 = Inr (fps, total_bytes)) \<and> batches \<noteq> []
        \<and> prepares E L topic part rely m0 (view s)"
    and run: "append_attempt E L topic part batches fps now s = (Inr None, t)"
  from inv append_attempt_again [OF log_legalD(3) _ run] have "prepares E L topic part rely (view s) (view t)" by blast
  with inv prepares_trans show "log_legal E L topic part view rely \<and> append_names E L topic part
        \<and> (\<exists>total_bytes. check_batches E batches [] 0 = Inr (fps, total_bytes)) \<and> batches \<noteq> []
        \<and> prepares E L topic part rely m0 (view t)" by metis
qed (auto intro: append_attempt_done)

lemma append_batches_done:
  assumes legal: "log_legal E L topic part view rely" and names: "append_names E L topic part"
    and run: "append_batches E L topic part batches s = (Inr result, t)"
  shows "append_done E L topic part rely batches (view s) result (view t)"
proof -
  from append_batches_loop [OF log_legalD(3) [OF legal] names run] obtain fps total_bytes now v where
    "check_batches E batches [] 0 = Inr (fps, total_bytes)" "batches \<noteq> []" "prepares E L topic part rely (view s) (view v)"
    and loop: "retry MAX_CAS_ATTEMPTS (ContentionExhausted MAX_CAS_ATTEMPTS)
        (append_attempt E L topic part batches fps now) v = (Inr result, t)" .
  then show ?thesis using appending.retry_post [OF _ loop] legal names by blast
qed

text \<open>C1 (append_linearizable). A successful append takes effect at one instant, and does nothing
  else. From the bucket at its start to the load of the manifest it works on, and from there to its
  commit, the bucket changes only by the steps of other clients and by objects of its own that did not
  exist before. If the request holds at least one new batch, the last step replaces the root
  object, which is still the very object that was loaded, and the new root denotes exactly the old
  segments followed by new ones that continue the offsets without a gap, each of which holds the
  encoding of its batch; the new producer directory denotes the producer states after these
  batches. Which batches are new, their offsets and the answer are those that \<open>decides\<close> derives from the
  old end offset and the old producer states; batches without a producer ID are all new, and the
  answer is the offset range that begins at the old end of the log. A request of retries only reads,
  and is answered from the producer states.\<close>

theorem append_linearizable:
  assumes "log_legal E L topic part view rely" "append_names E L topic part"
    and "append_batches E L topic part batches s = (Inr result, t)"
  shows "append_done E L topic part rely batches (view s) result (view t)"
  using assms by (rule append_batches_done)

end
