(* ===== verification/Log_Fetch_Laws.thy ===== *)
theory Log_Fetch_Laws
  imports Log_Append_Laws
begin

text \<open>
  What a fetch promises: the bytes it returns are the bodies of a contiguous run of committed
  segments, starting with the one that holds the requested offset, each of which passed the
  complete check against its descriptor; so a committed batch is read back as it was encoded.
\<close>

section \<open>Segment objects\<close>

text \<open>Parsing the path of a segment object gives the path.\<close>

definition parse_laws :: "('s, 'm) world_scheme \<Rightarrow> engine \<Rightarrow> string \<Rightarrow> int \<Rightarrow> bool" where
  "parse_laws W L topic part \<longleftrightarrow>
     (\<forall>x p. starts_with (engine_dir L topic part @ ''segments/'') x \<longrightarrow> ends_with ''.batch'' x \<longrightarrow>
        w_path_parse W x = Inr p \<longrightarrow> p = x)"

lemma validate_segments_named:
  "validate_segments sgs start (en_prefix L) topic part = Inr e \<Longrightarrow> \<forall>sg \<in> set sgs. segment_named L topic part sg"
  using validate_segments_tiles [of "partition_dir (en_prefix L) topic part @ ''segments/''" start "{}" sgs e]
  by (auto simp: validate_segments_def segment_ok_def segment_named_def engine_dir_def)

lemma index_holds_named:
  "index_holds E L topic part m r xs \<Longrightarrow> \<forall>sg \<in> set xs. segment_named L topic part sg"
proof (induction rule: denotes.induct)
  case (node r p xss)
  have "\<forall>sg \<in> set (concat xss). segment_named L topic part sg"
    using node.IH by (induction rule: list_all2_induct) auto
  moreover have "\<forall>sg \<in> set (page_items p). segment_named L topic part sg"
  proof (cases p)
    case (Leaf sgs)
    with node.hyps obtain e where "validate_segments sgs (pr_first_offset r) (en_prefix L) topic part = Inr e"
      by (auto simp: index_stored_def decode_page_def result_simps split: if_splits)
    with Leaf validate_segments_named show ?thesis by auto
  qed simp
  ultimately show ?case by auto
qed

lemma current_manifest_named:
  assumes "current_manifest E L topic part m = Some lm" "manifest_holds E L topic part m lm xs"
  shows "\<forall>sg \<in> set xs. segment_named L topic part sg"
proof (cases "m (manifest_path E L topic part)")
  case None
  with assms show ?thesis
    by (auto simp: current_manifest_def root_holds_def root_default_def split: option.splits)
next
  case (Some e)
  with assms(1) obtain b where b: "decode_manifest E L topic part b = Inr lm"
    by (auto simp: current_manifest_def split: prod.splits sum.splits)
  show ?thesis
  proof (cases lm)
    case (Legacy mf)
    with b have "validate_segments (mf_segments mf) 0 (en_prefix L) topic part = Inr (mf_next_offset mf)"
      by (auto simp: decode_manifest_def validate_manifest_def result_simps split: if_splits)
    with Legacy assms(2) validate_segments_named show ?thesis by auto
  next
    case (Indexed r)
    then have valid: "validate_root (w_uuid_ok E) r (en_prefix L) topic part = Inr ()"
      using b decode_manifest_Indexed by blast
    then obtain start where tail: "validate_segments (rt_tail r) start (en_prefix L) topic part = Inr (rt_next_offset r)"
      by (auto simp: validate_root_def result_simps split: if_splits option.splits)
    from Indexed assms(2) obtain ys where "xs = ys @ rt_tail r"
      "ys = [] \<or> (\<exists>tree. index_holds E L topic part m tree ys)"
      by (auto simp: root_holds_def split: option.splits)
    with validate_segments_named [OF tail] index_holds_named [of E L topic part m _ ys] show ?thesis by auto
  qed
qed

section \<open>Checked bodies\<close>

text \<open>
  Everything the broker checks before it serves a segment: length and checksum, one
  uncompressed batch with the declared number of records at the declared offsets, no
  transactional or control records, and the writer's own encoding of them.
\<close>

definition segment_checked :: "('s, 'm) log_env_scheme \<Rightarrow> segment \<Rightarrow> bytes \<Rightarrow> bool" where
  "segment_checked E sg b \<longleftrightarrow>
     length b = sg_byte_length sg \<and> w_sha256_hex E b = sg_sha256 sg
   \<and> (\<exists>inspection records.
        decode_record_batches (le_decode_batch_info E) (le_decode_all E) (le_headers_len E) b = Inr (inspection, records)
        \<and> in_batch_count inspection = 1 \<and> length records = sg_record_count sg
        \<and> (\<forall>i < length records. rc_offset (records ! i) = wrap_i64 (sg_base_offset sg + int i))
        \<and> validate_records records = Inr () \<and> validate_timestamp_span records = Inr ()
        \<and> encode_records E records = Inr b)"

lemma check_segment_checked:
  assumes "check_segment E sg b = Inr ()"
  shows "segment_checked E sg b"
proof -
  from assms obtain inspection records where
    "length b = sg_byte_length sg" "w_sha256_hex E b = sg_sha256 sg"
    "decode_record_batches (le_decode_batch_info E) (le_decode_all E) (le_headers_len E) b = Inr (inspection, records)"
    "in_batch_count inspection = 1"
    "validate_segment_records sg records = Inr ()" "validate_canonical_segment_records sg records = Inr ()"
    "encode_records E records = Inr b"
    by (auto simp: check_segment_def result_simps split: if_splits)
  moreover from this(5) have "length records = sg_record_count sg"
    "\<forall>i < length records. rc_offset (records ! i) = wrap_i64 (sg_base_offset sg + int i)"
    by (auto simp: validate_segment_records_def list_ex_iff in_set_enumerate_eq split: if_splits)
  moreover from calculation(6) have "validate_records records = Inr ()" "validate_timestamp_span records = Inr ()"
    by (auto simp: validate_canonical_segment_records_def result_simps)
  ultimately show ?thesis unfolding segment_checked_def by blast
qed

lemma read_segment_body:
  assumes laws: "store_laws E view rely" and parse: "parse_laws E L topic part"
    and named: "segment_named L topic part sg"
    and run: "read_segment E sg s = (Inr b, t)"
  shows "rely (view s) (view t) \<and> (\<exists>v. view t (sg_object sg) = Some (v, b)) \<and> segment_checked E sg b"
proof -
  from run obtain p g where p: "w_path_parse E (sg_object sg) = Inr p"
    and g: "w_get E p s = (Inr g, t)" and b: "collect_bounded (gr_chunks g) (sg_byte_length sg) [] = Inr b"
    and chk: "check_segment E sg b = Inr ()"
    by (auto simp: read_segment_def result_simps split: if_splits)
  have "p = sg_object sg" using parse named p by (auto simp: parse_laws_def segment_named_def)
  with store_laws_get [OF laws g] obtain v b' where
    "rely (view s) (view t)" "view t (sg_object sg) = Some (v, b')" "delivers (gr_chunks g) b'"
    by (auto simp: get_outcome_def split: option.splits)
  moreover have "b' = b" using collect_bounded_delivers [OF b \<open>delivers _ b'\<close>] by simp
  ultimately show ?thesis using check_segment_checked [OF chk] by blast
qed

definition body_of :: "('s, 'm) log_env_scheme \<Rightarrow> objects \<Rightarrow> segment \<Rightarrow> bytes \<Rightarrow> bool" where
  "body_of E m sg b \<longleftrightarrow> (\<exists>v. m (sg_object sg) = Some (v, b)) \<and> segment_checked E sg b"

lemma read_segments_bodies:
  assumes legal: "log_legal E L topic part view rely" and parse: "parse_laws E L topic part"
    and "\<forall>sg \<in> set sgs. segment_named L topic part sg"
    and "read_segments E sgs out s = (Inr b, t)"
  shows "rely (view s) (view t) \<and> (\<exists>bodies. list_all2 (body_of E (view t)) sgs bodies \<and> b = out @ concat bodies)"
  using assms(3,4)
proof (induction sgs arbitrary: out s)
  case Nil
  then show ?case using store_laws_refl [OF log_legalD(3) [OF legal]] by simp
next
  case (Cons sg sgs)
  from Cons.prems(2) obtain b1 u where one: "read_segment E sg s = (Inr b1, u)"
    and rest: "read_segments E sgs (out @ b1) u = (Inr b, t)" by (auto simp: result_simps)
  have named: "segment_named L topic part sg" using Cons.prems(1) by simp
  from read_segment_body [OF log_legalD(3) [OF legal] parse named one] have
    r1: "rely (view s) (view u)" "body_of E (view u) sg b1" by (auto simp: body_of_def)
  from Cons.IH [OF _ rest] Cons.prems(1) obtain bodies where
    r2: "rely (view u) (view t)" "list_all2 (body_of E (view t)) sgs bodies" "b = (out @ b1) @ concat bodies" by auto
  have "body_of E (view t) sg b1"
    using r1(2) keeps_dir_SomeD [OF log_legalD(6) [OF legal r2(1)] segment_named_immutable [OF named]]
    by (auto simp: body_of_def)
  with r1(1) r2 store_laws_trans [OF log_legalD(3) [OF legal]] show ?case
    by (intro conjI exI [of _ "b1 # bodies"]) auto
qed

section \<open>The whole fetch\<close>

text \<open>
  The answer to a fetch from a log whose segments are \<open>xs\<close>: the bodies \<open>m\<close> holds for the run of
  segments that starts with the one containing the offset and ends where the budget ends.
\<close>

definition fetch_answers ::
  "('s, 'm) log_env_scheme \<Rightarrow> objects \<Rightarrow> log_manifest \<Rightarrow> int \<Rightarrow> nat \<Rightarrow> bool \<Rightarrow> segment list \<Rightarrow> bounded_fetch \<Rightarrow> bool" where
  "fetch_answers E m lm off budget allow xs f \<longleftrightarrow>
     ft_high_watermark f = lm_next_offset lm \<and> lm_start_offset lm \<le> off \<and> off \<le> lm_next_offset lm
   \<and> (if off = lm_next_offset lm then ft_records f = [] \<and> \<not> ft_oversized_first_batch f
      else \<exists>before first rest taken after bodies.
         xs = before @ first # rest \<and> first # rest = taken @ after
       \<and> sg_base_offset first \<le> off \<and> off < segment_end first
       \<and> list_all2 (body_of E m) taken bodies \<and> ft_records f = concat bodies
       \<and> (if ft_oversized_first_batch f then allow \<and> taken = [first] \<and> budget < length (ft_records f)
          else length (ft_records f) \<le> budget
             \<and> (after \<noteq> [] \<longrightarrow> length (ft_records f) = budget
                  \<or> budget < length (ft_records f) + sg_byte_length (hd after))
             \<and> (taken = [] \<longrightarrow> \<not> allow \<and> budget < sg_byte_length first)))"

lemma bodies_length: "list_all2 (body_of E m) sgs bodies \<Longrightarrow> length (concat bodies) = seg_bytes sgs"
  by (induction rule: list_all2_induct) (auto simp: body_of_def segment_checked_def)

lemma fetch_snapshot_answers:
  assumes legal: "log_legal E L topic part view rely" and parse: "parse_laws E L topic part"
    and cur: "current_manifest E L topic part (view s) = Some lm"
    and run: "fetch_snapshot E L topic part lm off budget allow s = (Inr f, t)"
    and xs: "manifest_holds E L topic part (view s) lm xs"
  shows "fetch_answers E (view t) lm off budget allow xs f"
proof -
  note tl = current_manifest_tiles [OF cur xs]
  have range: "lm_start_offset lm \<le> off" "off \<le> lm_next_offset lm" "ft_high_watermark f = lm_next_offset lm"
    using run by (auto simp: fetch_snapshot_def Let_def result_simps split: if_splits)
  show ?thesis
  proof (cases "off = lm_next_offset lm")
    case True
    with run range show ?thesis
      by (auto simp: fetch_snapshot_def Let_def fetch_answers_def split: if_splits)
  next
    case False
    with run range obtain sel u where
      sel: "(case lm of
               Legacy m \<Rightarrow> io_lift (case push_all (mf_segments m) (selection_new off budget allow) of
                                    (Inl e, _) \<Rightarrow> Inl e | (Inr _, selection) \<Rightarrow> Inr selection)
             | Indexed root \<Rightarrow> indexed_segments E L topic part root (selection_new off budget allow)) s = (Inr sel, u)"
      and reads: "read_segments E (sl_segments sel) [] u = (Inr (ft_records f), t)"
      and over: "ft_oversized_first_batch f = sl_oversized_first_batch sel"
      unfolding fetch_snapshot_def Let_def by (auto simp: io_bind_Inr_iff)
    have "\<exists>c. push_all xs (selection_new off budget allow) = (Inr c, sel)"
    proof (cases lm)
      case (Legacy mf)
      with sel xs show ?thesis by (auto split: prod.splits sum.splits)
    next
      case (Indexed root)
      with sel xs indexed_segments_push_all [OF log_legalD(1) [OF legal], of root _ s sel u xs] show ?thesis by simp
    qed
    then obtain c where push: "push_all xs (selection_new off budget allow) = (Inr c, sel)" by blast
    have bounds: "\<forall>sg \<in> set xs. in_i64 (segment_end sg - 1) \<and> sg_byte_length sg \<le> u64_max"
      using tl(2) by (fastforce simp: MAX_BATCH_BYTES_def range_simps)
    from selection_run [OF tl(1) _ _ bounds push] range False obtain before first rest taken after where
      run: "xs = before @ first # rest" "first # rest = taken @ after"
        "sg_base_offset first \<le> off" "off < segment_end first" "sl_segments sel = taken"
        "if sl_oversized_first_batch sel then allow \<and> taken = [first] \<and> budget < seg_bytes taken
         else seg_bytes taken \<le> budget
          \<and> (after \<noteq> [] \<longrightarrow> seg_bytes taken = budget \<or> budget < seg_bytes taken + sg_byte_length (hd after))
          \<and> (taken = [] \<longrightarrow> \<not> allow \<and> budget < sg_byte_length first)"
      by force
    have "set taken \<subseteq> set xs" unfolding run(1) run(2) by auto
    then have "\<forall>sg \<in> set (sl_segments sel). segment_named L topic part sg"
      using current_manifest_named [OF cur xs] run(5) by blast
    from read_segments_bodies [OF legal parse this reads] run(5) obtain bodies where
      bodies: "list_all2 (body_of E (view t)) taken bodies" "ft_records f = concat bodies" by auto
    have answer: "if ft_oversized_first_batch f then allow \<and> taken = [first] \<and> budget < length (ft_records f)
          else length (ft_records f) \<le> budget
             \<and> (after \<noteq> [] \<longrightarrow> length (ft_records f) = budget
                  \<or> budget < length (ft_records f) + sg_byte_length (hd after))
             \<and> (taken = [] \<longrightarrow> \<not> allow \<and> budget < sg_byte_length first)"
    proof -
      have eq: "length (ft_records f) = seg_bytes taken" using bodies_length [OF bodies(1)] bodies(2) by simp
      show ?thesis using run(6) by (simp only: eq over)
    qed
    show ?thesis
      unfolding fetch_answers_def if_not_P [OF False]
      by (intro conjI exI [of _ before] exI [of _ first] exI [of _ rest] exI [of _ taken] exI [of _ after] exI [of _ bodies])
        (rule range run(1-4) bodies answer)+
  qed
qed

definition fetch_done ::
  "('s, 'm) log_env_scheme \<Rightarrow> engine \<Rightarrow> string \<Rightarrow> int \<Rightarrow> (objects \<Rightarrow> objects \<Rightarrow> bool) \<Rightarrow> int \<Rightarrow> nat \<Rightarrow> bool
   \<Rightarrow> objects \<Rightarrow> bounded_fetch \<Rightarrow> objects \<Rightarrow> bool" where
  "fetch_done E L topic part rely off budget allow m0 f m2 \<longleftrightarrow>
     (\<exists>m lm. rely m0 m \<and> rely m m2 \<and> current_manifest E L topic part m = Some lm
        \<and> (\<forall>xs. manifest_holds E L topic part m lm xs \<longrightarrow> fetch_answers E m2 lm off budget allow xs f))"

lemma fetch_attempt_snapshot:
  assumes run: "fetch_attempt E L topic part off budget allow s = (Inr (Some f), t)"
  shows "\<exists>l u. load_or_empty E L topic part s = (Inr l, u)
    \<and> fetch_snapshot E L topic part (ld_manifest l) off budget allow u = (Inr f, t)"
proof -
  from run obtain l u where load: "load_or_empty E L topic part s = (Inr l, u)"
    and rest: "\<exists>p v. fetch_snapshot E L topic part (ld_manifest l) off budget allow u = (p, v)
      \<and> (case p of Inr f \<Rightarrow> io_ret (Some f)
         | Inl e \<Rightarrow> io_bind (stale_missing E L topic part (ld_version l) e) (\<lambda>stale. if stale then io_ret None else io_err e)) v
        = (Inr (Some f), t)"
    unfolding fetch_attempt_def io_bind_Inr_iff io_try_iff by blast
  from rest have "fetch_snapshot E L topic part (ld_manifest l) off budget allow u = (Inr f, t)"
    by (elim exE conjE) (auto simp: io_bind_Inr_iff split: sum.splits if_splits)
  with load show ?thesis by blast
qed

lemma fetch_attempt_done:
  assumes legal: "log_legal E L topic part view rely" and parse: "parse_laws E L topic part"
    and from0: "rely m0 (view s)"
    and run: "fetch_attempt E L topic part off budget allow s = (Inr (Some f), t)"
  shows "fetch_done E L topic part rely off budget allow m0 f (view t)"
proof -
  note laws = log_legalD(3) [OF legal]
  from fetch_attempt_snapshot [OF run] obtain l u where load: "load_or_empty E L topic part s = (Inr l, u)"
    and snap: "fetch_snapshot E L topic part (ld_manifest l) off budget allow u = (Inr f, t)" by blast
  note cur = load_or_empty_current [OF log_legalD(3) [OF legal] load]
  have "rely (view u) (view t)"
    by (rule relied_rtrancl [OF laws io_keepsD [OF fetch_snapshot_reads [OF reads_relied [OF laws]] snap]])
  moreover have "rely m0 (view u)" using store_laws_trans [OF laws from0] cur by blast
  ultimately show ?thesis
    unfolding fetch_done_def using cur fetch_snapshot_answers [OF legal parse _ snap] by blast
qed

interpretation fetching: retry_body "fetch_attempt E L topic part off budget allow"
  "\<lambda>s. log_legal E L topic part view rely \<and> parse_laws E L topic part \<and> rely m0 (view s)"
  "\<lambda>f t. fetch_done E L topic part rely off budget allow m0 f (view t)"
  "\<lambda>e t. rely m0 (view t)"
  for E :: "('s, 'm) log_env_scheme" and L topic part view rely off budget allow m0
proof -
  have later: "rely m0 (view t)"
    if "log_legal E L topic part view rely \<and> parse_laws E L topic part \<and> rely m0 (view s)"
      "fetch_attempt E L topic part off budget allow s = (x, t)" for s t x
  proof -
    note laws = log_legalD(3) [OF conjunct1 [OF that(1)]]
    have "rely (view s) (view t)"
      by (rule relied_rtrancl [OF laws io_keepsD [OF fetch_reads(1) [OF reads_relied [OF laws]] that(2)]])
    with that(1) store_laws_trans [OF laws] show ?thesis by blast
  qed
  show "retry_body (fetch_attempt E L topic part off budget allow)
    (\<lambda>s. log_legal E L topic part view rely \<and> parse_laws E L topic part \<and> rely m0 (view s))
    (\<lambda>f t. fetch_done E L topic part rely off budget allow m0 f (view t)) (\<lambda>e t. rely m0 (view t))"
  proof
    fix s t f
    assume "log_legal E L topic part view rely \<and> parse_laws E L topic part \<and> rely m0 (view s)"
      "fetch_attempt E L topic part off budget allow s = (Inr (Some f), t)"
    then show "fetch_done E L topic part rely off budget allow m0 f (view t)"
      by (blast intro: fetch_attempt_done)
  qed (use later in blast)+
qed

lemma fetch_bounded_done:
  assumes legal: "log_legal E L topic part view rely" and parse: "parse_laws E L topic part"
    and run: "fetch_bounded E L topic part off budget allow s = (Inr f, t)"
  shows "fetch_done E L topic part rely off budget allow (view s) f (view t)"
proof -
  note laws = log_legalD(3) [OF legal]
  from run obtain u where known: "known_partition E L topic part s = (Inr (), u)"
    and loop: "retry MAX_CAS_ATTEMPTS (ContentionExhausted MAX_CAS_ATTEMPTS)
        (fetch_attempt E L topic part off budget allow) u = (Inr f, t)"
    by (auto simp: fetch_bounded_def result_simps split: if_splits)
  have "rely (view s) (view u)"
    by (rule relied_rtrancl [OF laws io_keepsD [OF known_partition_reads(2) [OF reads_relied [OF laws]] known]])
  with fetching.retry_post [OF _ loop] legal parse show ?thesis by blast
qed

text \<open>C4 (fetch_exact). A successful bounded fetch answers from one state of the log, in whole batches: the
  returned bytes are the bodies of a contiguous run of committed segments starting with the one that
  holds the requested offset (so records of that batch before the offset are returned with it, as
  Kafka clients expect), each passing the complete check (length, checksum, record count, offsets,
  canonical encoding). The run fits the byte budget unless it is a single first batch the caller
  allowed to exceed it, and it stops only at the end of the log or of the budget. At the end of
  the log the answer is empty.\<close>

theorem fetch_exact:
  assumes "log_legal E L topic part view rely" "parse_laws E L topic part"
    and "fetch_bounded E L topic part off budget allow s = (Inr f, t)"
  shows "fetch_done E L topic part rely off budget allow (view s) f (view t)"
  using assms by (rule fetch_bounded_done)

section \<open>Reading back a committed batch\<close>

text \<open>Other clients that only append: whatever the log denoted is a prefix of what it denotes later.\<close>

definition log_grows :: "('s, 'm) log_env_scheme \<Rightarrow> engine \<Rightarrow> string \<Rightarrow> int \<Rightarrow> objects \<Rightarrow> objects \<Rightarrow> bool" where
  "log_grows E L topic part m m' \<longleftrightarrow>
     (\<forall>lm lm' xs. current_manifest E L topic part m = Some lm \<longrightarrow> manifest_holds E L topic part m lm xs \<longrightarrow>
        current_manifest E L topic part m' = Some lm' \<longrightarrow> (\<exists>ys. manifest_holds E L topic part m' lm' (xs @ ys)))"

lemma committed_batch_read:
  assumes legal: "log_legal E L topic part view rely" and parse: "parse_laws E L topic part"
    and grows: "\<And>m m'. rely m m' \<Longrightarrow> log_grows E L topic part m m'"
    and from0: "rely m0 (view s)" and cur: "current_manifest E L topic part m0 = Some lm"
    and holds: "manifest_holds E L topic part m0 lm (xs @ sg # ys)"
    and stores: "segment_stores E L topic part m0 records sg"
    and run: "fetch_bounded E L topic part (sg_base_offset sg) budget allow s = (Inr f, t)"
  shows "if allow \<or> sg_byte_length sg \<le> budget
    then \<exists>assigned encoded rest. assigned_records records (sg_base_offset sg) = Inr assigned
      \<and> encode_records E assigned = Inr encoded \<and> ft_records f = encoded @ rest
    else ft_records f = []"
proof -
  from fetch_bounded_done [OF legal parse run] obtain m lm' where
    m0: "rely (view s) m" "rely m (view t)" and cur': "current_manifest E L topic part m = Some lm'"
    and ans: "\<And>xs. manifest_holds E L topic part m lm' xs \<Longrightarrow>
        fetch_answers E (view t) lm' (sg_base_offset sg) budget allow xs f"
    by (auto simp: fetch_done_def)
  note m = store_laws_trans [OF log_legalD(3) [OF legal] from0 m0(1)] m0(2) cur'
  from grows [OF m(1)] cur holds m(3) obtain zs where all: "manifest_holds E L topic part m lm' ((xs @ sg # ys) @ zs)"
    unfolding log_grows_def by blast
  note tl = current_manifest_tiles [OF m(3) all]
  then obtain k where k: "tiles (lm_start_offset lm') xs k" "sg_base_offset sg = k"
    "tiles (segment_end sg) (ys @ zs) (lm_next_offset lm')" by (auto simp: tiles_append)
  have pos: "sg_base_offset sg < segment_end sg" using tl(2) by (simp add: segment_end_def)
  with tiles_le [OF k(3)] have ne: "sg_base_offset sg \<noteq> lm_next_offset lm'" by simp
  from ans [OF all, unfolded fetch_answers_def if_not_P [OF ne]] obtain before first rest taken after bodies where
    run: "(xs @ sg # ys) @ zs = before @ first # rest" "first # rest = taken @ after"
      "sg_base_offset first \<le> sg_base_offset sg" "sg_base_offset sg < segment_end first"
      "list_all2 (body_of E (view t)) taken bodies" "ft_records f = concat bodies"
    and budget: "if ft_oversized_first_batch f then allow \<and> taken = [first] \<and> budget < length (ft_records f)
          else length (ft_records f) \<le> budget
             \<and> (after \<noteq> [] \<longrightarrow> length (ft_records f) = budget
                  \<or> budget < length (ft_records f) + sg_byte_length (hd after))
             \<and> (taken = [] \<longrightarrow> \<not> allow \<and> budget < sg_byte_length first)"
    by (elim conjE exE) (rule that)
  have first: "first = sg"
  proof -
    from tl(1) obtain k' where k': "tiles (lm_start_offset lm') before k'" "sg_base_offset first = k'"
      unfolding run(1) by (auto simp: tiles_append)
    have "length before = length xs"
    proof (rule ccontr)
      assume "length before \<noteq> length xs"
      then consider "length before < length xs" | "length xs < length before" by linarith
      then show False
      proof cases
        case 1
        with arg_cong [OF run(1), of "\<lambda>l. l ! length before"] have "xs ! length before = first"
          by (simp add: nth_append)
        with 1 have "first \<in> set xs" by (metis nth_mem)
        with tiles_member [OF k(1)] k(2) run(4) show False by fastforce
      next
        case 2
        with arg_cong [OF run(1), of "\<lambda>l. l ! length xs"] have "before ! length xs = sg"
          by (simp add: nth_append)
        with 2 have "sg \<in> set before" by (metis nth_mem)
        with tiles_member [OF k'(1)] k'(2) run(3) pos show False by fastforce
      qed
    qed
    with run(1) show ?thesis by simp
  qed
  show ?thesis
  proof (cases "allow \<or> sg_byte_length sg \<le> budget")
    case True
    have "taken \<noteq> []" using budget True first by (cases "ft_oversized_first_batch f") auto
    with first run(2,5) obtain b bs where b: "body_of E (view t) sg b" "bodies = b # bs"
      by (cases taken) (auto simp: list_all2_Cons1)
    from stores obtain assigned encoded v where
      enc: "assigned_records records (sg_base_offset sg) = Inr assigned" "encode_records E assigned = Inr encoded"
        "m0 (sg_object sg) = Some (v, encoded)" and imm: "immutable_name (engine_dir L topic part) (sg_object sg)"
      by (auto simp: segment_stores_def dest: segment_named_immutable)
    have "keeps_dir (engine_dir L topic part) m0 (view t)"
      using log_legalD(6) [OF legal] store_laws_trans [OF log_legalD(3) [OF legal] m(1,2)] by blast
    from keeps_dir_SomeD [OF this imm enc(3)] b(1) have "b = encoded" by (auto simp: body_of_def)
    with True enc b(2) run(6) show ?thesis by auto
  next
    case False
    then have small: "length (ft_records f) \<le> budget" using budget by (auto split: if_splits)
    have "taken = []"
    proof (rule ccontr)
      assume "taken \<noteq> []"
      with first run(2,5) obtain b bs where b: "body_of E (view t) sg b" "bodies = b # bs"
        by (cases taken) (auto simp: list_all2_Cons1)
      with run(6) small False show False by (auto simp: body_of_def segment_checked_def)
    qed
    with run(5,6) False show ?thesis by simp
  qed
qed

text \<open>C6 (committed_batch_readable). A batch that was committed in a segment of the log is what a fetch at
  the segment's offset returns first, as the bytes it was encoded to, even if other clients have
  appended in the meantime, provided the batch fits the byte budget or the caller allows a first
  batch to exceed it; otherwise the answer is empty.\<close>

theorem committed_batch_readable:
  assumes legal: "log_legal E L topic part view rely" and parse: "parse_laws E L topic part"
    and grows: "\<And>m m'. rely m m' \<Longrightarrow> log_grows E L topic part m m'"
    and cur: "current_manifest E L topic part (view s) = Some lm"
    and holds: "manifest_holds E L topic part (view s) lm (xs @ sg # ys)"
    and stores: "segment_stores E L topic part (view s) records sg"
    and run: "fetch_bounded E L topic part (sg_base_offset sg) budget allow s = (Inr f, t)"
  shows "if allow \<or> sg_byte_length sg \<le> budget
    then \<exists>assigned encoded rest. assigned_records records (sg_base_offset sg) = Inr assigned
      \<and> encode_records E assigned = Inr encoded \<and> ft_records f = encoded @ rest
    else ft_records f = []"
  by (rule committed_batch_read [OF legal parse grows store_laws_refl [OF log_legalD(3) [OF legal]] cur holds stores run])

end
