(* ===== verification/Log_Rely.thy ===== *)
theory Log_Rely
  imports Log_Fetch_Laws
begin

text \<open>
  Appending brokers as each other's environment. The other theories on the log assume a relation
  \<open>rely\<close> on what other clients do to the bucket; this one shows that an append of
  \<open>src/log.rs\<close>, seen from outside, does nothing else: every single PUT it issues, wherever the store
  applies it, only extends the log that is current at that moment. So the hypothesis under which
  a committed batch stays readable holds if all other clients are brokers that append.
\<close>

section \<open>Extending a log\<close>

text \<open>
  No immutable object is lost, and a log that was readable is still there, from its old start and
  with all its segments, possibly followed by more.
\<close>

definition log_extended :: "('s, 'm) log_env_scheme \<Rightarrow> engine \<Rightarrow> string \<Rightarrow> int \<Rightarrow> objects \<Rightarrow> objects \<Rightarrow> bool" where
  "log_extended E L topic part m m' \<longleftrightarrow>
     keeps_dir (engine_dir L topic part) m m'
   \<and> (\<forall>lm xs. current_manifest E L topic part m = Some lm \<longrightarrow> manifest_holds E L topic part m lm xs \<longrightarrow>
        (\<exists>lm' ys. current_manifest E L topic part m' = Some lm' \<and> manifest_holds E L topic part m' lm' (xs @ ys)
           \<and> lm_start_offset lm' = lm_start_offset lm))"

definition log_intact :: "('s, 'm) log_env_scheme \<Rightarrow> engine \<Rightarrow> string \<Rightarrow> int \<Rightarrow> objects \<Rightarrow> bool" where
  "log_intact E L topic part m \<longleftrightarrow>
     (\<exists>lm xs. current_manifest E L topic part m = Some lm \<and> manifest_holds E L topic part m lm xs)"

lemma log_extendedD:
  assumes "log_extended E L topic part m m'" "current_manifest E L topic part m = Some lm"
    and "manifest_holds E L topic part m lm xs"
  shows "\<exists>lm' ys. current_manifest E L topic part m' = Some lm' \<and> manifest_holds E L topic part m' lm' (xs @ ys)
    \<and> lm_start_offset lm' = lm_start_offset lm"
  using assms unfolding log_extended_def by blast

lemma log_extended_refl [simp]: "log_extended E L topic part m m"
  unfolding log_extended_def by (metis append_Nil2 keeps_dir_refl)

lemma log_extended_trans:
  assumes "log_extended E L topic part m m'" "log_extended E L topic part m' m''"
  shows "log_extended E L topic part m m''"
proof -
  have "\<exists>lm' ys. current_manifest E L topic part m'' = Some lm' \<and> manifest_holds E L topic part m'' lm' (xs @ ys)
      \<and> lm_start_offset lm' = lm_start_offset lm"
    if "current_manifest E L topic part m = Some lm" "manifest_holds E L topic part m lm xs" for lm xs
  proof -
    from log_extendedD [OF assms(1) that] obtain lm1 ys where
      one: "current_manifest E L topic part m' = Some lm1" "manifest_holds E L topic part m' lm1 (xs @ ys)"
        "lm_start_offset lm1 = lm_start_offset lm" by blast
    from log_extendedD [OF assms(2) one(1,2)] obtain lm2 zs where
      "current_manifest E L topic part m'' = Some lm2" "manifest_holds E L topic part m'' lm2 ((xs @ ys) @ zs)"
        "lm_start_offset lm2 = lm_start_offset lm1" by blast
    with one(3) show ?thesis by (intro exI [of _ lm2] exI [of _ "ys @ zs"]) simp
  qed
  with assms show ?thesis unfolding log_extended_def by (blast intro: keeps_dir_trans)
qed

lemma log_extended_same:
  assumes "keeps_dir (engine_dir L topic part) m m'"
    and "m' (manifest_path E L topic part) = m (manifest_path E L topic part)"
  shows "log_extended E L topic part m m'"
proof -
  have "current_manifest E L topic part m' = current_manifest E L topic part m"
    using assms(2) by (simp add: current_manifest_def)
  with manifest_holds_later [OF _ assms(1)] assms(1) show ?thesis
    unfolding log_extended_def by (metis append_Nil2)
qed

lemma log_extended_intact:
  "log_extended E L topic part m m' \<Longrightarrow> log_intact E L topic part m \<Longrightarrow> log_intact E L topic part m'"
  unfolding log_intact_def using log_extendedD by blast

text \<open>So is the log after any steps that prepare an operation.\<close>

lemma prepares_extended:
  assumes "prepares E L topic part rely m m'" "\<And>a b. rely a b \<Longrightarrow> log_extended E L topic part a b"
  shows "log_extended E L topic part m m'"
proof (rule prepares_keep [OF assms(1)])
  show "log_extended E L topic part a (a(p \<mapsto> x))" if "own_name E L topic part p" "a p = None" for a p x
    by (rule log_extended_same) (use that in \<open>auto simp: own_name_def keeps_dir_def\<close>)
qed (auto intro: log_extended_trans assms(2))

text \<open>Extending is more than the hypothesis under which committed batches are read back.\<close>

lemma log_extended_grows:
  assumes "log_extended E L topic part m m'" shows "log_grows E L topic part m m'"
  unfolding log_grows_def
proof (intro allI impI)
  fix lm lm' xs
  assume "current_manifest E L topic part m = Some lm" "manifest_holds E L topic part m lm xs"
    and lm': "current_manifest E L topic part m' = Some lm'"
  from log_extendedD [OF assms this(1,2)] obtain l ys where
    "current_manifest E L topic part m' = Some l" "manifest_holds E L topic part m' l (xs @ ys)" by blast
  with lm' show "\<exists>ys. manifest_holds E L topic part m' lm' (xs @ ys)" by auto
qed

lemma manifest_holds_unique:
  "manifest_holds E L topic part m lm xs \<Longrightarrow> manifest_holds E L topic part m lm ys \<Longrightarrow> xs = ys"
  by (cases lm) (auto simp: root_holds_def split: option.splits dest: ix.holds_unique)

section \<open>The calls of an append\<close>

text \<open>
  A PUT that extends the log wherever it takes effect: at any later moment at which its condition
  holds, whatever other clients have done since it was issued.
\<close>

definition put_extends ::
  "('s, 'm) log_env_scheme \<Rightarrow> engine \<Rightarrow> string \<Rightarrow> int \<Rightarrow> ('s \<Rightarrow> objects) \<Rightarrow> (objects \<Rightarrow> objects \<Rightarrow> bool)
   \<Rightarrow> 's \<Rightarrow> string \<Rightarrow> bytes \<Rightarrow> put_mode \<Rightarrow> bool" where
  "put_extends E L topic part view rely s p b mode \<longleftrightarrow>
     (\<forall>u v. rely (view s) (view u) \<longrightarrow> put_allowed mode (view u p) \<longrightarrow>
        log_extended E L topic part (view u) ((view u)(p \<mapsto> (v, b))))"

text \<open>One call of the environment: one that only reads, or such a PUT. There is no DELETE.\<close>

definition append_call ::
  "('s, 'm) log_env_scheme \<Rightarrow> engine \<Rightarrow> string \<Rightarrow> int \<Rightarrow> ('s \<Rightarrow> objects) \<Rightarrow> (objects \<Rightarrow> objects \<Rightarrow> bool)
   \<Rightarrow> 's \<Rightarrow> 's \<Rightarrow> bool" where
  "append_call E L topic part view rely s t \<longleftrightarrow>
     (\<exists>p. t = snd (w_get E p s)) \<or> (\<exists>p. t = snd (w_head E p s)) \<or> (\<exists>p. t = snd (w_list_prefixes E p s))
   \<or> (\<exists>p. t = snd (w_list E p s)) \<or> t = snd (w_new_uuid E s) \<or> t = snd (w_unix_millis E s)
   \<or> (\<exists>p b mode. t = snd (w_put E p b mode s) \<and> put_extends E L topic part view rely s p b mode)"

lemma append_call_extends:
  assumes laws: "store_laws E view rely" and rely: "\<And>m m'. rely m m' \<Longrightarrow> log_extended E L topic part m m'"
    and call: "append_call E L topic part view rely s t"
  shows "log_extended E L topic part (view s) (view t)"
proof -
  have reads: "rely (view s) (view t)"
    if "(\<exists>p. t = snd (w_get E p s)) \<or> (\<exists>p. t = snd (w_head E p s)) \<or> (\<exists>p. t = snd (w_list_prefixes E p s))
      \<or> (\<exists>p. t = snd (w_list E p s)) \<or> t = snd (w_new_uuid E s) \<or> t = snd (w_unix_millis E s)"
    using that store_laws_get [OF laws prod.collapse [symmetric]] store_laws_head [OF laws prod.collapse [symmetric]]
      store_laws_calls [OF laws prod.collapse [symmetric]] by blast
  show ?thesis
  proof (cases "\<exists>p b mode. t = snd (w_put E p b mode s) \<and> put_extends E L topic part view rely s p b mode")
    case False
    with call reads rely show ?thesis unfolding append_call_def by blast
  next
    case True
    then obtain p b mode r where put: "w_put E p b mode s = (r, t)" "put_extends E L topic part view rely s p b mode"
      by (metis prod.collapse)
    from store_laws_put [OF laws put(1)] obtain u where
      u: "rely (view s) (view u)" "put_outcome p b mode r (view u) (view t)" by blast
    have "view t = view u \<or> put_allowed mode (view u p) \<and> (\<exists>v. view t = (view u)(p \<mapsto> (v, b)))"
      using u(2) by (auto simp: put_outcome_def split: sum.splits store_error.splits)
    then have "log_extended E L topic part (view u) (view t)"
      using put(2) u(1) unfolding put_extends_def by auto
    with rely [OF u(1)] show ?thesis by (rule log_extended_trans)
  qed
qed

lemma append_calls_extend:
  assumes "store_laws E view rely" "\<And>m m'. rely m m' \<Longrightarrow> log_extended E L topic part m m'"
    and "(append_call E L topic part view rely)\<^sup>*\<^sup>* s t"
  shows "log_extended E L topic part (view s) (view t)"
  using assms(3)
  by (induction rule: rtranclp_induct)
    (auto intro: log_extended_trans append_call_extends [OF assms(1,2)])

lemma append_call_read:
  "w_get E p s = (a, t) \<Longrightarrow> append_call E L topic part view rely s t"
  "w_head E p s = (b, t) \<Longrightarrow> append_call E L topic part view rely s t"
  "w_list_prefixes E p s = (c, t) \<Longrightarrow> append_call E L topic part view rely s t"
  "w_list E p s = (d, t) \<Longrightarrow> append_call E L topic part view rely s t"
  "w_new_uuid E s = (e, t) \<Longrightarrow> append_call E L topic part view rely s t"
  "w_unix_millis E s = (n, t) \<Longrightarrow> append_call E L topic part view rely s t"
  unfolding append_call_def by (metis snd_conv)+

lemma append_call_reads: "reads_keep (append_call E L topic part view rely) E"
  unfolding reads_keep_def
  by (intro conjI allI impI io_keeps_single r_into_rtranclp) (erule append_call_read)+

lemma append_call_put:
  "put_extends E L topic part view rely s p b mode \<Longrightarrow> w_put E p b mode s = (r, t) \<Longrightarrow>
   append_call E L topic part view rely s t"
  unfolding append_call_def by (metis snd_conv)

lemma append_call_creates_at:
  assumes drawn: "\<And>s x t p. w_new_uuid E s = (x, t) \<Longrightarrow> p \<in> drawn_names E L topic' part' x \<Longrightarrow>
      p \<noteq> manifest_path E L topic part"
    and meta: "topic_metadata_path E L topic' \<noteq> manifest_path E L topic part"
  shows "creates_at (\<lambda>p. p \<noteq> manifest_path E L topic part) (append_call E L topic part view rely) E L topic' part'"
proof -
  have create: "put_extends E L topic part view rely s p b Create" if "p \<noteq> manifest_path E L topic part" for s p b
    unfolding put_extends_def using that
    by (auto simp: put_allowed_def keeps_dir_def intro!: log_extended_same)
  have draw: "(append_call E L topic part view rely)\<^sup>*\<^sup>* s t" if "w_new_uuid E s = (x, t)" for s x t
    using append_call_read(5) [OF that] by (rule r_into_rtranclp)
  show ?thesis
    unfolding creates_at_def using meta append_call_reads
    by (auto intro!: io_keeps_single intro: append_call_put create draw dest: drawn)
qed

lemma append_call_creates:
  assumes legal: "log_legal E L topic part view rely" and named: "metadata_named E L topic"
  shows "creates_at (\<lambda>p. p \<noteq> manifest_path E L topic part) (append_call E L topic part view rely) E L topic part"
proof -
  have names: "name_laws E L topic part" by (rule producer_legalD(2) [OF log_legalD(2) [OF legal]])
  show ?thesis by (rule append_call_creates_at [OF names_not_root(2,1) [OF names named]])
qed

section \<open>The conditional update\<close>

lemma io_try_if: "io_try m s = (Inr (fst (m s)), snd (m s))"
  by (simp add: io_try_def split: prod.splits)

text \<open>The only PUT of a root, if it comes to that.\<close>

lemma commit_root_put:
  assumes run: "commit_root E L topic part ver root result s = (x, t)"
  shows "t = s \<or> (\<exists>b put. w_put E (manifest_path E L topic part) b (case ver of None \<Rightarrow> Create | Some v \<Rightarrow> Update v) s = (put, t)
    \<and> validate_root (w_uuid_ok E) root (en_prefix L) topic part = Inr () \<and> le_root_to_vec E root = Inr b)"
proof (cases "\<exists>b. validate_root (w_uuid_ok E) root (en_prefix L) topic part = Inr () \<and> le_root_to_vec E root = Inr b
    \<and> length b \<le> MAX_MANIFEST_BYTES")
  case True
  then obtain b where b: "validate_root (w_uuid_ok E) root (en_prefix L) topic part = Inr ()" "le_root_to_vec E root = Inr b"
    "length b \<le> MAX_MANIFEST_BYTES" by blast
  obtain put u where w: "w_put E (manifest_path E L topic part) b (case ver of None \<Rightarrow> Create | Some v \<Rightarrow> Update v) s = (put, u)"
    by force
  have "t = u"
    using run b w by (auto simp: commit_root_def io_bind_def io_json_def io_try_def Let_def map_err_def
        split: sum.splits store_error.splits)
  with w b show ?thesis by blast
next
  case False
  then have "t = s"
    using run by (auto simp: commit_root_def io_bind_def io_json_def map_err_def split: sum.splits prod.splits if_splits)
  then show ?thesis by blast
qed

text \<open>
  The update of the root extends the log that is current when the store applies it: its condition
  then holds only on the root the append was computed from.
\<close>

lemma root_put_extends:
  assumes legal: "log_legal E L topic part view rely"
    and rely: "\<And>m m'. rely m m' \<Longrightarrow> log_extended E L topic part m m'"
    and cur: "current_manifest E L topic part (view s1) = Some lm"
    and holds: "manifest_holds E L topic part (view s1) lm xs"
    and ver: "ver = map_option fst (view s1 (manifest_path E L topic part))"
    and since: "log_extended E L topic part (view s1) (view s)"
    and ready: "root_holds E L topic part (view s) root (xs @ new)" "rt_start_offset root = lm_start_offset lm"
    and valid: "validate_root (w_uuid_ok E) root (en_prefix L) topic part = Inr ()"
    and vec: "le_root_to_vec E root = Inr b"
  shows "put_extends E L topic part view rely s (manifest_path E L topic part) b
    (case ver of None \<Rightarrow> Create | Some v \<Rightarrow> Update v)"
  unfolding put_extends_def
proof (intro allI impI)
  let ?p = "manifest_path E L topic part" and ?dir = "engine_dir L topic part"
  fix u v
  assume u: "rely (view s) (view u)" and allowed: "put_allowed (case ver of None \<Rightarrow> Create | Some v \<Rightarrow> Update v) (view u ?p)"
  let ?m = "(view u)(?p \<mapsto> (v, b))"
  have su: "keeps_dir ?dir (view s) (view u)" by (rule log_legalD(6) [OF legal u])
  have um: "keeps_dir ?dir (view u) ?m" by (rule keeps_dir_manifest [OF legal])
  have s1u: "keeps_dir ?dir (view s1) (view u)" using since su by (auto simp: log_extended_def intro: keeps_dir_trans)
  have "map_option fst (view u ?p) = ver" using allowed by (cases ver) (auto simp: put_allowed_def)
  with same_version_same_manifest [OF log_legalD(3) [OF legal], of u L topic part s1] ver cur
  have curu: "current_manifest E L topic part (view u) = Some lm" by simp
  have curm: "current_manifest E L topic part ?m = Some (Indexed root)"
    using decode_written_root [OF log_legalD(4) [OF legal] valid vec] by (simp add: current_manifest_def)
  have "root_holds E L topic part ?m root (xs @ new)" by (rule root_holds_later [OF ready(1) keeps_dir_trans [OF su um]])
  then have "\<exists>lm' zs. current_manifest E L topic part ?m = Some lm' \<and> manifest_holds E L topic part ?m lm' (ys @ zs)
      \<and> lm_start_offset lm' = lm_start_offset l"
    if "current_manifest E L topic part (view u) = Some l" "manifest_holds E L topic part (view u) l ys" for l ys
  proof -
    from that curu have l: "l = lm" by simp
    have "ys = xs" using manifest_holds_unique [OF that(2)] manifest_holds_later [OF holds s1u] l by blast
    with curm \<open>root_holds _ _ _ _ ?m _ _\<close> ready(2) l show ?thesis
      by (intro exI [of _ "Indexed root"] exI [of _ new]) simp
  qed
  with um show "log_extended E L topic part (view u) ?m" unfolding log_extended_def by blast
qed


section \<open>A whole append\<close>

lemma append_attempt_calls:
  assumes legal: "log_legal E L topic part view rely" and named: "metadata_named E L topic"
    and rely: "\<And>m m'. rely m m' \<Longrightarrow> log_extended E L topic part m m'"
    and intact: "log_intact E L topic part (view s)" and fps: "length fps = length batches"
    and run: "append_attempt E L topic part batches fps now s = (x, t)"
  shows "(append_call E L topic part view rely)\<^sup>*\<^sup>* s t"
proof -
  let ?R = "append_call E L topic part view rely"
  have extend: "log_extended E L topic part (view a) (view b)" if "?R\<^sup>*\<^sup>* a b" for a b
    by (rule append_calls_extend [OF log_legalD(3) [OF legal] rely that])
  note creates = append_call_creates [OF legal named]
  note reads = append_call_reads [where E = E and L = L and topic = topic and part = part and view = view and rely = rely]
  obtain l0 s1 where load: "load_or_empty E L topic part s = (l0, s1)" by force
  have s1: "?R\<^sup>*\<^sup>* s s1" by (rule io_keepsD [OF load_reads(3) [OF reads] load])
  show ?thesis
  proof (cases l0)
    case (Inl e)
    with run load s1 show ?thesis by (simp add: append_attempt_def io_bind_def)
  next
    case (Inr l)
    with load have load: "load_or_empty E L topic part s = (Inr l, s1)" by simp
    let ?lm = "ld_manifest l"
    note cur = load_or_empty_current [OF log_legalD(3) [OF legal] load]
    from log_extended_intact [OF extend [OF s1] intact] cur obtain xs where
      xs: "manifest_holds E L topic part (view s1) ?lm xs" by (auto simp: log_intact_def)
    obtain p u where prep: "prepare_append E L topic part ?lm batches fps now s1 = (p, u)" by force
    have u: "?R\<^sup>*\<^sup>* s1 u" by (rule io_keepsD [OF prepare_append_creates_at [OF creates] prep])
    from run load prep have go: "(case p of
         Inl e \<Rightarrow> io_bind (stale_missing E L topic part (ld_version l) e) (\<lambda>stale. if stale then io_ret None else io_err e)
       | Inr (result, None) \<Rightarrow> io_ret (Some result)
       | Inr (result, Some next) \<Rightarrow> commit_root E L topic part (ld_version l) next result) u = (x, t)"
      by (simp add: append_attempt_def io_bind_def io_try_def)
    have "?R\<^sup>*\<^sup>* u t"
    proof (cases p)
      case (Inl e)
      have "io_keeps ?R (io_bind (stale_missing E L topic part (ld_version l) e) (\<lambda>stale. if stale then io_ret None else io_err e))"
        by (intro io_keeps_rules reads)
      with go Inl show ?thesis by (auto dest: io_keepsD)
    next
      case (Inr pair)
      obtain r ro where pair: "pair = (r, ro)" by force
      show ?thesis
      proof (cases ro)
        case None
        with go Inr pair show ?thesis by simp
      next
        case (Some root)
        with prep Inr pair have prep: "prepare_append E L topic part ?lm batches fps now s1 = (Inr (r, Some root), u)" by simp
        have cm: "current_manifest E L topic part (view s1) = Some ?lm" using cur by blast
        note tl = current_manifest_tiles [OF cm xs]
        from tiles_le [OF tl(1)] tl(3) have n: "0 \<le> lm_next_offset ?lm" by simp
        from prepare_append_Some [OF legal prep xs fps n] obtain new where
          new: "root_holds E L topic part (view u) root (xs @ new)" "rt_start_offset root = lm_start_offset ?lm"
          by (auto simp: extends_log_def)
        from go Inr pair Some have "commit_root E L topic part (ld_version l) root r u = (x, t)" by simp
        from commit_root_put [OF this] show ?thesis
        proof
          assume "\<exists>b put. w_put E (manifest_path E L topic part) b (case ld_version l of None \<Rightarrow> Create | Some v \<Rightarrow> Update v) u = (put, t)
            \<and> validate_root (w_uuid_ok E) root (en_prefix L) topic part = Inr () \<and> le_root_to_vec E root = Inr b"
          then obtain b put where put: "w_put E (manifest_path E L topic part) b (case ld_version l of None \<Rightarrow> Create | Some v \<Rightarrow> Update v) u = (put, t)"
            "validate_root (w_uuid_ok E) root (en_prefix L) topic part = Inr ()" "le_root_to_vec E root = Inr b" by blast
          have ver: "ld_version l = map_option fst (view s1 (manifest_path E L topic part))" using cur by blast
          from root_put_extends [OF legal rely cm xs ver extend [OF u] new put(2,3)]
          have "?R u t" by (rule append_call_put [OF _ put(1)])
          then show ?thesis by (rule r_into_rtranclp)
        qed simp
      qed
    qed
    with s1 u show ?thesis by (auto intro: rtranclp_trans)
  qed
qed

definition extending_from ::
  "('s, 'm) log_env_scheme \<Rightarrow> engine \<Rightarrow> string \<Rightarrow> int \<Rightarrow> ('s \<Rightarrow> objects) \<Rightarrow> (objects \<Rightarrow> objects \<Rightarrow> bool)
   \<Rightarrow> 's \<Rightarrow> 's \<Rightarrow> bool" where
  "extending_from E L topic part view rely s0 s \<longleftrightarrow>
     log_legal E L topic part view rely \<and> metadata_named E L topic
   \<and> (\<forall>m m'. rely m m' \<longrightarrow> log_extended E L topic part m m')
   \<and> log_intact E L topic part (view s0) \<and> (append_call E L topic part view rely)\<^sup>*\<^sup>* s0 s"

lemma extending_from_step:
  assumes "extending_from E L topic part view rely s0 s" "(append_call E L topic part view rely)\<^sup>*\<^sup>* s t"
  shows "extending_from E L topic part view rely s0 t"
  using assms unfolding extending_from_def by (auto intro: rtranclp_trans)

lemma extending_from_attempt:
  assumes inv: "extending_from E L topic part view rely s0 s" and fps: "length fps = length batches"
    and run: "append_attempt E L topic part batches fps now s = (x, t)"
  shows "extending_from E L topic part view rely s0 t"
proof (rule extending_from_step [OF inv])
  have rely: "log_extended E L topic part m m'" if "rely m m'" for m m'
    using inv that unfolding extending_from_def by blast
  have legal: "log_legal E L topic part view rely" "metadata_named E L topic"
    and intact: "log_intact E L topic part (view s0)" and calls: "(append_call E L topic part view rely)\<^sup>*\<^sup>* s0 s"
    using inv unfolding extending_from_def by blast+
  have "log_intact E L topic part (view s)"
    by (rule log_extended_intact [OF append_calls_extend [OF log_legalD(3) [OF legal(1)] rely calls] intact])
  from append_attempt_calls [OF legal rely this fps run] show "(append_call E L topic part view rely)\<^sup>*\<^sup>* s t" .
qed

interpretation extending: retry_body "append_attempt E L topic part batches fps now"
  "\<lambda>s. length fps = length batches \<and> extending_from E L topic part view rely s0 s"
  "\<lambda>_ t. extending_from E L topic part view rely s0 t"
  "\<lambda>_ t. extending_from E L topic part view rely s0 t"
  for E :: "('s, 'm) log_env_scheme" and L topic part view rely batches fps now s0
  by unfold_locales (auto intro: extending_from_attempt)

lemma append_batches_calls:
  assumes legal: "log_legal E L topic part view rely" and named: "metadata_named E L topic"
    and rely: "\<And>m m'. rely m m' \<Longrightarrow> log_extended E L topic part m m'"
    and intact: "log_intact E L topic part (view s)"
    and run: "append_batches E L topic part batches s = (x, t)"
  shows "(append_call E L topic part view rely)\<^sup>*\<^sup>* s t"
proof -
  let ?R = "append_call E L topic part view rely"
  note creates = append_call_creates [OF legal named]
  note reads = append_call_reads [where E = E and L = L and topic = topic and part = part and view = view and rely = rely]
  have clock: "io_keeps ?R (unix_millis E)" unfolding unix_millis_def by (intro io_keeps_rules reads_keepD [OF reads])
  note topic = ensure_topic_creates_at [OF creates]
  show ?thesis
  proof (cases "t = s")
    case False
    obtain n u where n: "unix_millis E s = (n, u)" by force
    obtain a v where a: "ensure_topic E L topic part u = (a, v)" by force
    from run False obtain fps total where check: "check_batches E batches [] 0 = Inr (fps, total)"
      and rest: "(case n of Inl e \<Rightarrow> t = u | Inr now \<Rightarrow> (case a of Inl e \<Rightarrow> t = v
          | Inr b \<Rightarrow> retry MAX_CAS_ATTEMPTS (ContentionExhausted MAX_CAS_ATTEMPTS)
        (append_attempt E L topic part batches fps now) v = (x, t)))"
      using n a by (auto simp: append_batches_def Let_def io_bind_def split: if_splits sum.splits)
    have su: "?R\<^sup>*\<^sup>* s u" by (rule io_keepsD [OF clock n])
    show ?thesis
    proof (cases n)
      case (Inr now)
      have uv: "?R\<^sup>*\<^sup>* u v" by (rule io_keepsD [OF topic a])
      with su have sv: "?R\<^sup>*\<^sup>* s v" by (rule rtranclp_trans)
      show ?thesis
      proof (cases a)
        case (Inr b)
        have fps: "length fps = length batches" using check_batches_length [OF check] by simp
        from legal named rely intact sv fps have start: "length fps = length batches \<and> extending_from E L topic part view rely s v"
          by (simp add: extending_from_def)
        from rest \<open>n = _\<close> Inr have loop: "retry MAX_CAS_ATTEMPTS (ContentionExhausted MAX_CAS_ATTEMPTS)
          (append_attempt E L topic part batches fps now) v = (x, t)" by simp
        have "extending_from E L topic part view rely s t"
        proof (cases x)
          case (Inl e)
          from extending.retry_fails [OF start loop [unfolded Inl]] show ?thesis by blast
        next
          case (Inr r)
          from extending.retry_post [OF start loop [unfolded Inr]] show ?thesis .
        qed
        then show ?thesis by (simp add: extending_from_def)
      qed (use sv rest Inr in simp)
    qed (use su rest in simp)
  qed simp
qed

section \<open>Appends to other partitions\<close>

lemma engine_dir_inject:
  assumes "CHR ''/'' \<notin> set topic" "CHR ''/'' \<notin> set topic'"
  shows "engine_dir L topic' part' @ us = engine_dir L topic part @ vs \<longleftrightarrow> topic' = topic \<and> part' = part \<and> us = vs"
  using assms
  by (auto simp: engine_dir_def partition_dir_def component_inject show_int_slash show_int_inject)

lemma names_elsewhere:
  assumes laws: "name_laws E L topic' part'" "metadata_named E L topic'"
    and root: "manifest_path E L topic part = engine_dir L topic part @ ''manifest.json''"
    and slash: "CHR ''/'' \<notin> set topic" "CHR ''/'' \<notin> set topic'"
    and other: "(topic', part') \<noteq> (topic, part)"
  shows "topic_metadata_path E L topic' \<noteq> manifest_path E L topic part"
    and "w_new_uuid E s = (x, t) \<Longrightarrow> p \<in> drawn_names E L topic' part' x \<Longrightarrow> p \<noteq> manifest_path E L topic part"
    and "manifest_path E L topic' part' \<noteq> manifest_path E L topic part"
    and "\<not> immutable_name (engine_dir L topic part) (manifest_path E L topic' part')"
proof -
  have root': "manifest_path E L topic' part' = engine_dir L topic' part' @ ''manifest.json''"
    using laws(1) by (simp add: name_laws_def manifest_path_def)
  note inject = engine_dir_inject [OF slash]
  have "CHR ''/'' \<notin> set ''metadata.json''" by simp
  moreover have "CHR ''/'' \<in> set (show_int part @ ''/manifest.json'')" by simp
  ultimately have "''metadata.json'' \<noteq> show_int part @ ''/manifest.json''" by metis
  then show "topic_metadata_path E L topic' \<noteq> manifest_path E L topic part"
    using laws(2) slash
    by (auto simp: topic_metadata_path_def metadata_named_def root engine_dir_def partition_dir_def component_inject)
  from other show "manifest_path E L topic' part' \<noteq> manifest_path E L topic part"
    unfolding root root' inject by simp
  from other show "\<not> immutable_name (engine_dir L topic part) (manifest_path E L topic' part')"
    by (auto simp: root' immutable_name_def starts_with_iff inject)
  assume "w_new_uuid E s = (x, t)" "p \<in> drawn_names E L topic' part' x"
  with laws(1) have "\<exists>us. p = engine_dir L topic' part' @ us \<and> us \<noteq> ''manifest.json''"
    by (auto simp: name_laws_def Let_def drawn_names_def segment_path_def dest!: spec [of _ s])
  then show "p \<noteq> manifest_path E L topic part" unfolding root using inject by auto
qed

lemma append_batches_calls_elsewhere:
  assumes legal: "log_legal E L topic part view rely"
    and laws: "name_laws E L topic' part'" "metadata_named E L topic'"
    and topic: "validate_topic topic = Inr ()" and other: "(topic', part') \<noteq> (topic, part)"
    and run: "append_batches E L topic' part' batches s = (x, t)"
  shows "(append_call E L topic part view rely)\<^sup>*\<^sup>* s t"
proof (cases "validate_topic topic' = Inr ()")
  case False
  then obtain e where "validate_topic topic' = Inl e" by (cases "validate_topic topic'") auto
  with run show ?thesis by (simp add: append_batches_def io_bind_def)
next
  case True
  let ?R = "append_call E L topic part view rely" and ?p = "manifest_path E L topic' part'"
  have slash: "CHR ''/'' \<notin> set topic" "CHR ''/'' \<notin> set topic'"
    using topic True safe_char_not_slash by (auto simp: validate_topic_def valid_topic_def ensure_def split: if_splits)
  note names = names_elsewhere [OF laws log_legalD(5) [OF legal] slash other]
  note creates = append_call_creates_at [OF names(2,1), where view = view and rely = rely]
  note reads = creates_atD(1) [OF creates]
  have put: "io_keeps ?R (w_put E ?p b mode)" for b mode
  proof (rule io_keeps_single)
    fix s r t assume w: "w_put E ?p b mode s = (r, t)"
    have "put_extends E L topic part view rely s ?p b mode"
      unfolding put_extends_def using names(3,4)
      by (auto intro!: log_extended_same simp: keeps_dir_def)
    then show "?R s t" by (rule append_call_put [OF _ w])
  qed
  have commit: "io_keeps ?R (commit_root E L topic' part' ver root r)" for ver root r
    unfolding commit_root_def Let_def by (intro io_keeps_rules put)
  have attempt: "io_keeps ?R (append_attempt E L topic' part' batches fps now)" for fps now
    unfolding append_attempt_def
    by (intro io_keeps_rules commit prepare_append_creates_at [OF creates] reads)
  have clock: "io_keeps ?R (unix_millis E)" unfolding unix_millis_def by (intro io_keeps_rules reads_keepD [OF reads])
  have "io_keeps ?R (append_batches E L topic' part' batches)"
    unfolding append_batches_def Let_def
    by (intro io_keeps_rules clock attempt ensure_topic_creates_at [OF creates])
  from io_keepsD [OF this run] show ?thesis .
qed

section \<open>The guarantee\<close>

text \<open>C2 (append_guarantee). What an append does to a log, whichever partition it appends to and
  whatever its result, is among what a log's readers and writers rely on. It issues only reading
  calls and PUTs, and every PUT, wherever the store applies it, only extends the log as it is at that
  moment: no segment is lost and no immutable object is replaced, although other brokers append at the
  same time. In the end the whole log has only been extended.\<close>

theorem append_guarantee:
  assumes "log_legal E L topic part view rely" "validate_topic topic = Inr ()"
    and "name_laws E L topic' part'" "metadata_named E L topic'"
    and rely: "\<And>m m'. rely m m' \<Longrightarrow> log_extended E L topic part m m'"
    and "log_intact E L topic part (view s)"
    and "append_batches E L topic' part' batches s = (r, t)"
  shows "(append_call E L topic part view rely)\<^sup>*\<^sup>* s t \<and> log_extended E L topic part (view s) (view t)"
proof -
  have "(append_call E L topic part view rely)\<^sup>*\<^sup>* s t"
  proof (cases "(topic', part') = (topic, part)")
    case True
    with assms append_batches_calls [of E L topic part view rely s batches r t] show ?thesis by auto
  next
    case False
    with assms show ?thesis by (intro append_batches_calls_elsewhere)
  qed
  with append_calls_extend [OF log_legalD(3) [OF assms(1)] rely] show ?thesis by blast
qed

end
