(* ===== verification/Log_Fence.thy ===== *)
theory Log_Fence
  imports Log_Rely
begin

text \<open>
  Appends beside maintenance. Maintenance (\<open>src/log/maintenance.rs\<close>) deletes immutable objects, so
  an append that runs at the same time cannot rely on what it has read or written. What protects
  it is the fence: maintenance replaces the root before it deletes, and an append's update of the
  root succeeds only if the root is still the one it started from. Here the environment is only
  assumed to respect the fence: as long as the root is not replaced, it deletes nothing but the
  garbage of that root, objects the root did not reach when it was published.

  This theory states the fence and builds a \<^emph>\<open>sheltered\<close> world, in which garbage is invisible and no
  call leaves the current root, so that nothing is ever deleted there. \<open>Log_Fence_Laws\<close> runs an
  append once more in that world, where the laws of \<open>Log_Append_Laws\<close> apply; a successful append
  never notices the difference.
\<close>

section \<open>Shielded computations\<close>

text \<open>
  From a calm state, a computation that ends in a fresh state was calm all along, and a second
  computation can take its place.
\<close>

definition shielded ::
  "('s \<Rightarrow> bool) \<Rightarrow> ('s \<Rightarrow> bool) \<Rightarrow> ('s, 'e, 'a) io \<Rightarrow> ('s, 'e, 'a) io \<Rightarrow> 's \<Rightarrow> bool" where
  "shielded calm fresh m m' s \<longleftrightarrow>
     (\<forall>x t. m s = (x, t) \<longrightarrow> calm s \<longrightarrow> fresh t \<longrightarrow> calm t \<and> (\<forall>y. x = Inr y \<longrightarrow> m' s = (Inr y, t)))"

lemma shieldedD:
  assumes "shielded calm fresh m m' s" "m s = (x, t)" "calm s" "fresh t"
  shows "calm t" "x = Inr y \<Longrightarrow> m' s = (Inr y, t)"
  using assms unfolding shielded_def by blast+

lemma shielded_pure: "snd (m s) = s \<Longrightarrow> shielded calm fresh m m s"
  by (auto simp: shielded_def)

lemma shielded_ret [simp]:
  "shielded calm fresh (io_ret x) (io_ret x) s" "shielded calm fresh (io_err e) (io_err e) s"
  "shielded calm fresh (io_lift r) (io_lift r) s" "shielded calm fresh (io_json q) (io_json q) s"
  by (auto intro!: shielded_pure simp: io_json_def io_lift_def io_ret_def io_err_def split: sum.splits)

lemma shielded_map_err:
  assumes "shielded calm fresh m m' s" shows "shielded calm fresh (io_map_err f m) (io_map_err f m') s"
  unfolding shielded_def
proof (intro allI impI)
  fix x t assume run: "io_map_err f m s = (x, t)" and s: "calm s" "fresh t"
  then obtain y where y: "m s = (y, t)" "x = map_err f y" by (auto simp: io_map_err_def split: prod.splits)
  from shieldedD [OF assms y(1) s] y(2) show "calm t \<and> (\<forall>z. x = Inr z \<longrightarrow> io_map_err f m' s = (Inr z, t))"
    by (auto simp: io_map_err_def map_err_def split: sum.splits)
qed

lemma shielded_store: "shielded calm fresh m m' s \<Longrightarrow> shielded calm fresh (io_store m) (io_store m') s"
  unfolding io_store_def by (rule shielded_map_err)

locale shield =
  fixes R :: "'s \<Rightarrow> 's \<Rightarrow> bool" and calm fresh :: "'s \<Rightarrow> bool"
  assumes R_refl: "reflp R" and R_trans: "transp R"
    and between: "calm s \<Longrightarrow> R s u \<Longrightarrow> R u t \<Longrightarrow> fresh t \<Longrightarrow> fresh u"
begin

lemma keeps: "io_keeps R m \<Longrightarrow> m s = (x, t) \<Longrightarrow> R s t"
  by (erule (1) io_keepsE [OF _ _ R_refl R_trans])

lemma bind:
  assumes m: "shielded calm fresh m m' s" "io_keeps R m" and f: "\<And>x u. m s = (Inr x, u) \<Longrightarrow> io_keeps R (f x)"
    and rest: "\<And>x u. m s = (Inr x, u) \<Longrightarrow> calm s \<Longrightarrow> calm u \<Longrightarrow> m' s = (Inr x, u) \<Longrightarrow> shielded calm fresh (f x) (f' x) u"
  shows "shielded calm fresh (io_bind m f) (io_bind m' f') s"
  unfolding shielded_def
proof (intro allI impI)
  fix y t assume run: "io_bind m f s = (y, t)" and s: "calm s" and t: "fresh t"
  obtain r u where r: "m s = (r, u)" by force
  show "calm t \<and> (\<forall>z. y = Inr z \<longrightarrow> io_bind m' f' s = (Inr z, t))"
  proof (cases r)
    case (Inl e)
    with run r have "t = u" "y = Inl e" by (auto simp: io_bind_def)
    with shieldedD(1) [OF m(1) r s] t show ?thesis by simp
  next
    case (Inr x)
    with run r have fx: "f x u = (y, t)" by (simp add: io_bind_def)
    have u: "fresh u" using between [OF s keeps [OF m(2) r] keeps [OF f fx] t] r Inr by simp
    note first = shieldedD [OF m(1) r s u]
    have "m' s = (Inr x, u)" using first(2) Inr by simp
    with rest [of x u] r Inr first(1) s have "shielded calm fresh (f x) (f' x) u" by simp
    from shieldedD [OF this fx first(1) t] \<open>m' s = (Inr x, u)\<close> show ?thesis
      by (auto simp: io_bind_def)
  qed
qed

lemma everywhere:
  assumes "\<And>x s. shielded calm fresh (f x) (f' x) s" "\<And>x. io_keeps R (f x)"
  shows "shielded calm fresh (io_map f xs) (io_map f' xs) s"
proof (induction xs arbitrary: s)
  case (Cons x xs)
  show ?case
    unfolding io_map.simps
    by (rule bind) (rule assms | rule Cons | rule bind | rule io_keeps_rules | simp)+
qed simp

end

section \<open>The fence\<close>

definition root_version :: "('s, 'm) world_scheme \<Rightarrow> engine \<Rightarrow> string \<Rightarrow> int \<Rightarrow> objects \<Rightarrow> update_version option" where
  "root_version E L topic part m = map_option fst (m (manifest_path E L topic part))"

text \<open>The root never returns to an earlier version: its versions are numbered.\<close>

definition root_moves ::
  "('s, 'm) world_scheme \<Rightarrow> engine \<Rightarrow> string \<Rightarrow> int \<Rightarrow> (update_version option \<Rightarrow> nat) \<Rightarrow> objects \<Rightarrow> objects \<Rightarrow> bool" where
  "root_moves E L topic part epoch m m' \<longleftrightarrow>
     epoch (root_version E L topic part m) \<le> epoch (root_version E L topic part m')
   \<and> (epoch (root_version E L topic part m') = epoch (root_version E L topic part m) \<longrightarrow>
        root_version E L topic part m' = root_version E L topic part m)"

text \<open>
  While the root stays, immutable objects stay, but for the root's garbage, which can only vanish.
\<close>

definition fenced ::
  "('s, 'm) world_scheme \<Rightarrow> engine \<Rightarrow> string \<Rightarrow> int \<Rightarrow> (update_version option \<Rightarrow> nat)
   \<Rightarrow> (update_version option \<Rightarrow> string set) \<Rightarrow> objects \<Rightarrow> objects \<Rightarrow> bool" where
  "fenced E L topic part epoch garbage m m' \<longleftrightarrow>
     root_moves E L topic part epoch m m'
   \<and> (root_version E L topic part m' = root_version E L topic part m \<longrightarrow>
        (\<forall>p. immutable_name (engine_dir L topic part) p \<longrightarrow> p \<notin> garbage (root_version E L topic part m) \<longrightarrow>
           m p \<noteq> None \<longrightarrow> m' p = m p)
      \<and> (\<forall>p \<in> garbage (root_version E L topic part m). m' p = m p \<or> m' p = None))"

definition fence_legal ::
  "('s, 'm) log_env_scheme \<Rightarrow> engine \<Rightarrow> string \<Rightarrow> int \<Rightarrow> ('s \<Rightarrow> objects) \<Rightarrow> (objects \<Rightarrow> objects \<Rightarrow> bool)
   \<Rightarrow> (update_version option \<Rightarrow> nat) \<Rightarrow> (update_version option \<Rightarrow> string set) \<Rightarrow> bool" where
  "fence_legal E L topic part view rely epoch garbage \<longleftrightarrow>
     store_laws E view rely \<and> name_laws E L topic part \<and> metadata_named E L topic
   \<and> page_json_laws E \<and> producer_page_json_laws E \<and> root_json_laws E
   \<and> (\<forall>u. w_uuid_ok E u \<longrightarrow> w_path_from E (engine_dir L topic part @ ''producer-state/'' @ u @ ''.json'')
         = engine_dir L topic part @ ''producer-state/'' @ u @ ''.json'')
   \<and> (\<forall>m m'. rely m m' \<longrightarrow> fenced E L topic part epoch garbage m m')
   \<and> (\<forall>v. \<forall>p \<in> garbage v. immutable_name (engine_dir L topic part) p)
   \<and> (\<forall>s u t. w_new_uuid E s = (u, t) \<longrightarrow>
        drawn_names E L topic part u \<inter> garbage (root_version E L topic part (view t)) = {})"

lemma root_moves_refl: "root_moves E L topic part epoch m m"
  by (simp add: root_moves_def)

lemma root_moves_trans:
  "root_moves E L topic part epoch m m' \<Longrightarrow> root_moves E L topic part epoch m' m'' \<Longrightarrow> root_moves E L topic part epoch m m''"
  unfolding root_moves_def by (metis le_antisym le_trans)

lemma root_moves_between:
  assumes "root_moves E L topic part epoch m m'" "root_moves E L topic part epoch m' m''"
    and "root_version E L topic part m'' = root_version E L topic part m"
  shows "root_version E L topic part m' = root_version E L topic part m"
  using assms unfolding root_moves_def by (metis le_antisym)

lemma fence_legalD:
  assumes "fence_legal E L topic part view rely epoch garbage"
  shows "store_laws E view rely" "name_laws E L topic part" "metadata_named E L topic"
    "page_json_laws E" "producer_page_json_laws E" "root_json_laws E"
    "w_uuid_ok E u \<Longrightarrow> w_path_from E (engine_dir L topic part @ ''producer-state/'' @ u @ ''.json'')
       = engine_dir L topic part @ ''producer-state/'' @ u @ ''.json''"
    "rely m m' \<Longrightarrow> fenced E L topic part epoch garbage m m'"
    "p \<in> garbage v \<Longrightarrow> immutable_name (engine_dir L topic part) p"
    "w_new_uuid E s = (u', t) \<Longrightarrow> p \<in> drawn_names E L topic part u' \<Longrightarrow> p \<notin> garbage (root_version E L topic part (view t))"
  using assms unfolding fence_legal_def by blast+

section \<open>The sheltered world\<close>

text \<open>
  Seen from the bucket \<open>m1\<close> an attempt started from: the root is the same, and of its garbage
  nothing has come back.
\<close>

definition calm_state where
  "calm_state E L topic part view garbage m1 s \<longleftrightarrow>
     root_version E L topic part (view s) = root_version E L topic part m1
   \<and> (\<forall>p \<in> garbage (root_version E L topic part m1). view s p = m1 p \<or> view s p = None)"

definition fresh_state where
  "fresh_state E L topic part view m1 s \<longleftrightarrow> root_version E L topic part (view s) = root_version E L topic part m1"

definition moved where
  "moved E L topic part view epoch s t \<longleftrightarrow> root_moves E L topic part epoch (view s) (view t)"

interpretation attempt: shield "moved E L topic part view epoch" "calm_state E L topic part view garbage m1"
  "fresh_state E L topic part view m1"
  for E :: "('s, 'm) world_scheme" and L topic part view epoch garbage m1
proof unfold_locales
  show "reflp (moved E L topic part view epoch)" by (simp add: reflp_def moved_def root_moves_refl)
  show "transp (moved E L topic part view epoch)" unfolding transp_def moved_def by (blast intro: root_moves_trans)
next
  fix s u t
  assume "calm_state E L topic part view garbage m1 s" "moved E L topic part view epoch s u"
    "moved E L topic part view epoch u t" "fresh_state E L topic part view m1 t"
  with root_moves_between [of E L topic part epoch "view s" "view u" "view t"]
  show "fresh_state E L topic part view m1 u"
    by (simp add: calm_state_def fresh_state_def moved_def)
qed

text \<open>
  What the sheltered world shows of a bucket: no garbage, except that the pages of the producer
  directory are shown as they were.
\<close>

definition sheltered_objects :: "string \<Rightarrow> string set \<Rightarrow> objects \<Rightarrow> objects \<Rightarrow> objects" where
  "sheltered_objects dir G m1 m =
     (\<lambda>p. if p \<in> G then (if starts_with (dir @ ''producer-state/'') p then m1 p else None) else m p)"

text \<open>A call whose effect would leave the calm states, or touch what is hidden, fails instead.\<close>

definition sheltered_call ::
  "('s \<Rightarrow> bool) \<Rightarrow> ('s \<Rightarrow> bool) \<Rightarrow> ('s, store_error, 'a) io \<Rightarrow> ('s, store_error, 'a) io" where
  "sheltered_call calm ok m s = (case m s of (r, t) \<Rightarrow> if calm s \<and> calm t \<and> ok t then (r, t) else (Inl (OtherError []), s))"

definition sheltered_draw :: "('s \<Rightarrow> bool) \<Rightarrow> ('s \<Rightarrow> 'a \<times> 's) \<Rightarrow> 's \<Rightarrow> 'a \<times> 's" where
  "sheltered_draw calm f s = (case f s of (x, t) \<Rightarrow> (x, if calm s \<and> calm t then t else s))"

definition sheltered ::
  "('s \<Rightarrow> bool) \<Rightarrow> string \<Rightarrow> string \<Rightarrow> string set \<Rightarrow> objects \<Rightarrow> ('s \<Rightarrow> objects)
   \<Rightarrow> ('s, 'm) log_env_scheme \<Rightarrow> ('s, 'm) log_env_scheme" where
  "sheltered calm dir root G m1 view E =
     E\<lparr>w_get := \<lambda>p. sheltered_call calm
           (\<lambda>t. p \<notin> G \<or> starts_with (dir @ ''producer-state/'') p \<and> view t p = m1 p) (w_get E p),
       w_put := \<lambda>p b mode. sheltered_call calm (\<lambda>t. p \<notin> G \<and> p \<noteq> root) (w_put E p b mode),
       w_head := \<lambda>p. sheltered_call calm (\<lambda>t. p \<notin> G) (w_head E p),
       w_delete := \<lambda>p s. (Inl (OtherError []), s),
       w_list := \<lambda>p s. ([], s),
       w_list_prefixes := \<lambda>p s. (Inl (OtherError []), s),
       w_new_uuid := sheltered_draw calm (w_new_uuid E),
       w_unix_millis := sheltered_draw calm (w_unix_millis E)\<rparr>"

lemma sheltered_simps [simp]:
  "w_path_from (sheltered calm dir root G m1 view E) = w_path_from E"
  "w_uuid_ok (sheltered calm dir root G m1 view E) = w_uuid_ok E"
  "w_sha256_hex (sheltered calm dir root G m1 view E) = w_sha256_hex E"
  "le_root_to_vec (sheltered calm dir root G m1 view E) = le_root_to_vec E"
  "le_schema_from_slice (sheltered calm dir root G m1 view E) = le_schema_from_slice E"
  "le_manifest_from_slice (sheltered calm dir root G m1 view E) = le_manifest_from_slice E"
  "le_root_from_slice (sheltered calm dir root G m1 view E) = le_root_from_slice E"
  "le_page_to_vec (sheltered calm dir root G m1 view E) = le_page_to_vec E"
  "le_page_from_slice (sheltered calm dir root G m1 view E) = le_page_from_slice E"
  "le_producer_page_to_vec (sheltered calm dir root G m1 view E) = le_producer_page_to_vec E"
  "le_producer_page_from_slice (sheltered calm dir root G m1 view E) = le_producer_page_from_slice E"
  "le_encode_batches (sheltered calm dir root G m1 view E) = le_encode_batches E"
  by (simp_all add: sheltered_def)

text \<open>Names, pages and roots mean in the sheltered world what they mean outside.\<close>

lemma sheltered_same:
  fixes E :: "('s, 'm) log_env_scheme" and view :: "'s \<Rightarrow> objects"
  assumes S: "S = sheltered calm dir root G m1 view E"
  shows "manifest_path S = manifest_path E" "segment_path S = segment_path E"
    "decode_manifest S = decode_manifest E" "decode_page S = decode_page E"
    "decode_producer_page S = decode_producer_page E"
    "index_stored S = index_stored E" "root_holds S = root_holds E"
    "manifest_holds S = manifest_holds E" "current_manifest S = current_manifest E"
    "root_version S = root_version E" "segment_stores S = segment_stores E"
    "encode_records S = encode_records E" "directory_holds S = directory_holds E" "placed S = placed E"
proof -
  show mp: "manifest_path S = manifest_path E" by (simp add: fun_eq_iff manifest_path_def S)
  show "segment_path S = segment_path E" by (simp add: fun_eq_iff segment_path_def S)
  show dm: "decode_manifest S = decode_manifest E" by (intro ext) (simp only: decode_manifest_def S sheltered_simps)
  show dp: "decode_page S = decode_page E" by (intro ext) (simp only: decode_page_def S sheltered_simps)
  show dpp: "decode_producer_page S = decode_producer_page E" by (intro ext) (simp only: decode_producer_page_def S sheltered_simps)
  have dps: "producer_stored S = producer_stored E"
    unfolding producer_stored_def [abs_def] dpp by (simp add: S)
  show "directory_holds S = directory_holds E" unfolding directory_holds_def [abs_def] dps ..
  show st: "index_stored S = index_stored E"
    unfolding index_stored_def [abs_def] dp by (simp add: S)
  show rh: "root_holds S = root_holds E" unfolding root_holds_def [abs_def] st by simp
  have "manifest_holds S L topic part m lm xs = manifest_holds E L topic part m lm xs" for L topic part m lm xs
    by (cases lm) (simp_all add: rh)
  then show "manifest_holds S = manifest_holds E" by (simp add: fun_eq_iff)
  show "current_manifest S = current_manifest E" unfolding current_manifest_def [abs_def] mp dm by simp
  show "root_version S = root_version E" unfolding root_version_def [abs_def] mp by simp
  show er: "encode_records S = encode_records E" by (simp add: fun_eq_iff encode_records_def S)
  show ss: "segment_stores S = segment_stores E" unfolding segment_stores_def [abs_def] er by (simp add: S)
  show "placed S = placed E" unfolding placed_def [abs_def] ss by simp
qed

abbreviation haven where
  "haven E L topic part view garbage m1 \<equiv>
     sheltered (calm_state E L topic part view garbage m1) (engine_dir L topic part) (manifest_path E L topic part)
       (garbage (root_version E L topic part m1)) m1 view E"

abbreviation haven_view where
  "haven_view E L topic part view garbage m1 \<equiv>
     \<lambda>s. sheltered_objects (engine_dir L topic part) (garbage (root_version E L topic part m1)) m1 (view s)"

abbreviation replays where
  "replays E L topic part view garbage m1 \<equiv>
     shielded (calm_state E L topic part view garbage m1) (fresh_state E L topic part view m1)"

lemma sheltered_keeps:
  assumes F: "fence_legal E L topic part view rely epoch garbage"
    and calm: "calm_state E L topic part view garbage m1 s" "calm_state E L topic part view garbage m1 t"
    and rely: "rely (view s) (view t)"
  shows "keeps_dir (engine_dir L topic part) (haven_view E L topic part view garbage m1 s)
    (haven_view E L topic part view garbage m1 t)"
proof -
  have "fenced E L topic part epoch garbage (view s) (view t)" by (rule fence_legalD(8) [OF F rely])
  with calm show ?thesis
    by (auto simp: fenced_def calm_state_def keeps_dir_def sheltered_objects_def)
qed

text \<open>A put beside the root and the garbage, seen from both worlds.\<close>

lemma calm_put:
  assumes F: "fence_legal E L topic part view rely epoch garbage"
    and p: "p \<notin> garbage (root_version E L topic part m1)" "p \<noteq> manifest_path E L topic part"
    and out: "put_outcome p b mode r (view u) (view t)"
    and t: "calm_state E L topic part view garbage m1 t"
  shows "calm_state E L topic part view garbage m1 u"
    and "put_outcome p b mode r (haven_view E L topic part view garbage m1 u) (haven_view E L topic part view garbage m1 t)"
proof -
  have m: "view t = view u \<or> (\<exists>v. view t = (view u)(p \<mapsto> (v, b)))"
    using out by (auto simp: put_outcome_def split: sum.splits store_error.splits)
  then have same: "view t q = view u q" if "q \<noteq> p" for q using m that by (auto simp: fun_upd_apply)
  have "view t q = view u q" if "q \<in> garbage (root_version E L topic part m1)" for q
    by (rule same) (use that p(1) in auto)
  moreover have "root_version E L topic part (view t) = root_version E L topic part (view u)"
    unfolding root_version_def using same [OF p(2) [symmetric]] by (rule arg_cong)
  ultimately show "calm_state E L topic part view garbage m1 u" using t unfolding calm_state_def by metis
  have upd: "sheltered_objects dir (garbage (root_version E L topic part m1)) m1 (m(p \<mapsto> x)) =
      (sheltered_objects dir (garbage (root_version E L topic part m1)) m1 m)(p \<mapsto> x)" for dir m x
    using p(1) by (auto simp: sheltered_objects_def)
  have "sheltered_objects dir (garbage (root_version E L topic part m1)) m1 m p = m p" for dir m
    using p(1) by (simp add: sheltered_objects_def)
  with out upd show "put_outcome p b mode r (haven_view E L topic part view garbage m1 u) (haven_view E L topic part view garbage m1 t)"
    by (auto simp: put_outcome_def split: sum.splits store_error.splits)
qed

lemma sheltered_call_iff:
  "sheltered_call calm ok m s = (r, t) \<longleftrightarrow>
   (m s = (r, t) \<and> calm s \<and> calm t \<and> ok t) \<or>
   (\<not> (calm s \<and> calm (snd (m s)) \<and> ok (snd (m s))) \<and> r = Inl (OtherError []) \<and> t = s)"
  by (auto simp: sheltered_call_def split: prod.splits)

text \<open>The sheltered world is a lawful one in which immutable objects are never removed.\<close>

lemma haven_store_laws:
  assumes F: "fence_legal E L topic part view rely epoch garbage"
  shows "store_laws (haven E L topic part view garbage m1) (haven_view E L topic part view garbage m1)
    (keeps_dir (engine_dir L topic part))"
proof -
  note laws = fence_legalD(1) [OF F]
  let ?H = "haven E L topic part view garbage m1" and ?v = "haven_view E L topic part view garbage m1"
  let ?G = "garbage (root_version E L topic part m1)"
  let ?k = "keeps_dir (engine_dir L topic part)" and ?calm = "calm_state E L topic part view garbage m1"
  note keeps = sheltered_keeps [OF F]
  have version: "b = b'" if "?v s p = Some (v, b)" "?v s' p = Some (v, b')" for s s' p v b b'
    using that store_laws_version [OF laws] by (auto simp: sheltered_objects_def split: if_splits)
  have get: "?k (?v s) (?v t) \<and> get_outcome (?v t p) r" if "w_get ?H p s = (r, t)" for p s r t
  proof -
    from that have "(w_get E p s = (r, t) \<and> ?calm s \<and> ?calm t
          \<and> (p \<notin> ?G \<or> starts_with (engine_dir L topic part @ ''producer-state/'') p \<and> view t p = m1 p))
        \<or> (r = Inl (OtherError []) \<and> t = s)"
      by (auto simp: sheltered_def sheltered_call_iff)
    then show ?thesis
    proof
      assume a: "w_get E p s = (r, t) \<and> ?calm s \<and> ?calm t
          \<and> (p \<notin> ?G \<or> starts_with (engine_dir L topic part @ ''producer-state/'') p \<and> view t p = m1 p)"
      then have "?v t p = view t p" by (auto simp: sheltered_objects_def)
      with a store_laws_get [OF laws, of p s r t] keeps [of m1 s t] show ?thesis by simp
    qed (simp add: get_outcome_def)
  qed
  have head: "?k (?v s) (?v t) \<and> head_outcome (?v t p) r" if "w_head ?H p s = (r, t)" for p s r t
  proof -
    from that have "(w_head E p s = (r, t) \<and> ?calm s \<and> ?calm t \<and> p \<notin> ?G) \<or> (r = Inl (OtherError []) \<and> t = s)"
      by (auto simp: sheltered_def sheltered_call_iff)
    then show ?thesis
    proof
      assume a: "w_head E p s = (r, t) \<and> ?calm s \<and> ?calm t \<and> p \<notin> ?G"
      then have "?v t p = view t p" by (auto simp: sheltered_objects_def)
      with a store_laws_head [OF laws, of p s r t] keeps [of m1 s t] show ?thesis by simp
    qed (simp add: head_outcome_def)
  qed
  have put: "\<exists>u. ?k (?v s) (?v u) \<and> put_outcome p b mode r (?v u) (?v t)" if "w_put ?H p b mode s = (r, t)" for p b mode s r t
  proof -
    from that have "(w_put E p b mode s = (r, t) \<and> ?calm s \<and> ?calm t \<and> p \<notin> ?G \<and> p \<noteq> manifest_path E L topic part)
        \<or> (r = Inl (OtherError []) \<and> t = s)"
      by (auto simp: sheltered_def sheltered_call_iff)
    then show ?thesis
    proof
      assume a: "w_put E p b mode s = (r, t) \<and> ?calm s \<and> ?calm t \<and> p \<notin> ?G \<and> p \<noteq> manifest_path E L topic part"
      then obtain u where u: "rely (view s) (view u)" "put_outcome p b mode r (view u) (view t)"
        using store_laws_put [OF laws] by blast
      from a have "p \<notin> ?G" "p \<noteq> manifest_path E L topic part" "?calm t" by blast+
      note c = calm_put [OF F this(1,2) u(2) this(3)]
      from a have "?calm s" by blast
      from c(2) keeps [OF this c(1) u(1)] show ?thesis by blast
    next
      assume "r = Inl (OtherError []) \<and> t = s"
      then have "put_outcome p b mode r (?v s) (?v t)" by (simp add: put_outcome_def)
      then show ?thesis using keeps_dir_refl by blast
    qed
  qed
  have del: "\<exists>u. ?k (?v s) (?v u) \<and> delete_outcome p r (?v u) (?v t)" if "w_delete ?H p s = (r, t)" for p s r t
  proof -
    from that have "r = Inl (OtherError [])" "t = s" by (auto simp: sheltered_def)
    then have "delete_outcome p r (?v s) (?v t)" by (simp add: delete_outcome_def)
    then show ?thesis using keeps_dir_refl by blast
  qed
  have draws: "?k (?v s) (?v (snd (w_new_uuid ?H s)))" "?k (?v s) (?v (snd (w_unix_millis ?H s)))" for s
    using keeps [of m1 s] store_laws_calls(3,4) [OF laws]
    by (auto simp: sheltered_def sheltered_draw_def split: prod.splits)
  have rel: "reflp ?k" "transp ?k" by (auto simp: reflp_def transp_def intro: keeps_dir_trans)
  have lists: "?k (?v s) (?v (snd (w_list ?H p s)))" "?k (?v s) (?v (snd (w_list_prefixes ?H p s)))" for p s
    by (simp_all add: sheltered_def)
  show ?thesis
    unfolding store_laws_def
    by (intro conjI allI impI rel lists draws) (erule (1) version | erule get head put del | blast dest: get head)+
qed

lemma haven_legal:
  assumes F: "fence_legal E L topic part view rely epoch garbage"
  shows "log_legal (haven E L topic part view garbage m1) L topic part (haven_view E L topic part view garbage m1)
    (keeps_dir (engine_dir L topic part))"
proof -
  let ?H = "haven E L topic part view garbage m1"
  have "fst (w_new_uuid ?H s) = fst (w_new_uuid E s)" for s
    by (simp add: sheltered_def sheltered_draw_def split: prod.splits)
  with fence_legalD(2) [OF F] have names: "name_laws ?H L topic part" by (simp add: name_laws_def)
  have json: "page_json_laws ?H" "producer_page_json_laws ?H" "root_json_laws ?H"
    using fence_legalD(4-6) [OF F] unfolding page_json_laws_def producer_page_json_laws_def root_json_laws_def sheltered_simps
    by - (assumption+)
  with names haven_store_laws [OF F] show ?thesis unfolding log_legal_def index_legal_def by blast
qed

end
