(* ===== verification/Log_Fence_Laws.thy ===== *)
theory Log_Fence_Laws
  imports Log_Fence
begin

text \<open>
  An append beside maintenance. Each operation an append of \<open>src/log.rs\<close> consists of, from reading a
  page to publishing segments, is replayed in the sheltered world of \<open>Log_Fence\<close>: if the root is
  still the one the attempt started from when the operation ends, its result there is the same. The
  conditional update then proves that the root was the same all along.
\<close>

section \<open>Replaying an append\<close>

lemma fence_moved:
  "fence_legal E L topic part view rely epoch garbage \<Longrightarrow> rely (view s) (view t) \<Longrightarrow> moved E L topic part view epoch s t"
  using fence_legalD(8) by (fastforce simp: moved_def fenced_def)

lemma root_moves_put:
  assumes "p \<noteq> manifest_path E L topic part" "put_outcome p b mode r m m'"
  shows "root_moves E L topic part epoch m m'"
proof -
  have "m' (manifest_path E L topic part) = m (manifest_path E L topic part)"
    using assms by (auto simp: put_outcome_def split: sum.splits store_error.splits)
  then show ?thesis by (simp add: root_moves_def root_version_def)
qed

lemma moved_creates:
  assumes F: "fence_legal E L topic part view rely epoch garbage"
  shows "creates_at (\<lambda>p. p \<noteq> manifest_path E L topic part) (moved E L topic part view epoch) E L topic part"
proof -
  note laws = fence_legalD(1) [OF F]
  let ?R = "moved E L topic part view epoch"
  have step: "?R s t" "?R\<^sup>*\<^sup>* s t" if "rely (view s) (view t)" for s t
    using fence_moved [OF F that] by (simp_all add: r_into_rtranclp)
  have "io_keeps ?R (w_get E p)" "io_keeps ?R (w_head E p)" "io_keeps ?R (w_list_prefixes E p)" for p
    by (rule io_keeps_single, rule step(1), drule store_laws_get [OF laws] store_laws_head [OF laws] store_laws_calls(2) [OF laws],
      simp)+
  moreover have "?R\<^sup>*\<^sup>* s t" if "w_list E p s = (xs, t)" for p s xs t
    by (rule step(2) [OF store_laws_calls(1) [OF laws that]])
  moreover have "?R\<^sup>*\<^sup>* s t" if "w_unix_millis E s = (n, t)" for s n t
    by (rule step(2) [OF store_laws_calls(4) [OF laws that]])
  ultimately have reads: "reads_keep ?R E" unfolding reads_keep_def by blast
  have put: "?R s t" if p: "p \<noteq> manifest_path E L topic part" and w: "w_put E p b mode s = (r, t)" for p b mode s r t
  proof -
    from store_laws_put [OF laws w] obtain u where "rely (view s) (view u)" "put_outcome p b mode r (view u) (view t)" by blast
    with fence_moved [OF F] root_moves_put [OF p] show ?thesis unfolding moved_def by (blast intro: root_moves_trans)
  qed
  have draw: "?R\<^sup>*\<^sup>* s t" if "w_new_uuid E s = (x, t)" for s x t
    by (rule step(2) [OF store_laws_calls(3) [OF laws that]])
  show ?thesis
    unfolding creates_at_def
    using reads names_not_root [OF fence_legalD(2,3) [OF F]]
    by (auto intro!: io_keeps_single draw intro: put)
qed

lemma still_calm:
  assumes F: "fence_legal E L topic part view rely epoch garbage"
    and s: "calm_state E L topic part view garbage m1 s" and t: "fresh_state E L topic part view m1 t"
    and rely: "rely (view s) (view t)"
  shows "calm_state E L topic part view garbage m1 t"
proof -
  have "fenced E L topic part epoch garbage (view s) (view t)" by (rule fence_legalD(8) [OF F rely])
  with s t show ?thesis unfolding fenced_def calm_state_def fresh_state_def by metis
qed

lemma replays_get:
  assumes F: "fence_legal E L topic part view rely epoch garbage"
    and p: "p \<notin> garbage (root_version E L topic part m1) \<or> starts_with (engine_dir L topic part @ ''producer-state/'') p"
  shows "replays E L topic part view garbage m1 (w_get E p) (w_get (haven E L topic part view garbage m1) p) s"
  unfolding shielded_def
proof (intro allI impI)
  fix x t
  assume run: "w_get E p s = (x, t)" and s: "calm_state E L topic part view garbage m1 s" and "fresh_state E L topic part view m1 t"
  from store_laws_get [OF fence_legalD(1) [OF F] run] have r: "rely (view s) (view t)" "get_outcome (view t p) x" by auto
  have t: "calm_state E L topic part view garbage m1 t" by (rule still_calm [OF F s \<open>fresh_state E L topic part view m1 t\<close> r(1)])
  have "w_get (haven E L topic part view garbage m1) p s = (Inr y, t)" if y: "x = Inr y" for y
  proof -
    have "view t p \<noteq> None" using r(2) y by (auto simp: get_outcome_def split: option.splits)
    with t p have "p \<notin> garbage (root_version E L topic part m1)
        \<or> starts_with (engine_dir L topic part @ ''producer-state/'') p \<and> view t p = m1 p"
      by (auto simp: calm_state_def)
    with run s t y show ?thesis by (simp add: sheltered_def sheltered_call_iff)
  qed
  with t show "calm_state E L topic part view garbage m1 t
      \<and> (\<forall>y. x = Inr y \<longrightarrow> w_get (haven E L topic part view garbage m1) p s = (Inr y, t))" by blast
qed

lemma replays_put:
  assumes F: "fence_legal E L topic part view rely epoch garbage"
    and p: "p \<notin> garbage (root_version E L topic part m1)" "p \<noteq> manifest_path E L topic part"
  shows "replays E L topic part view garbage m1 (w_put E p b mode) (w_put (haven E L topic part view garbage m1) p b mode) s"
  unfolding shielded_def
proof (intro allI impI)
  fix x t
  assume run: "w_put E p b mode s = (x, t)" and s: "calm_state E L topic part view garbage m1 s"
    and fresh: "fresh_state E L topic part view m1 t"
  from store_laws_put [OF fence_legalD(1) [OF F] run] obtain u where
    u: "rely (view s) (view u)" "put_outcome p b mode x (view u) (view t)" by blast
  have same: "view t q = view u q" if "q \<noteq> p" for q
    using u(2) that by (auto simp: put_outcome_def split: sum.splits store_error.splits)
  have "view t (manifest_path E L topic part) = view u (manifest_path E L topic part)" using p(2) same by metis
  with fresh have "fresh_state E L topic part view m1 u" by (simp add: fresh_state_def root_version_def)
  from still_calm [OF F s this u(1)] have "calm_state E L topic part view garbage m1 u" .
  moreover have "view t q = view u q" if "q \<in> garbage (root_version E L topic part m1)" for q
    by (rule same) (use that p(1) in auto)
  ultimately have t: "calm_state E L topic part view garbage m1 t"
    using fresh by (simp add: calm_state_def fresh_state_def)
  with run s p show "calm_state E L topic part view garbage m1 t
      \<and> (\<forall>y. x = Inr y \<longrightarrow> w_put (haven E L topic part view garbage m1) p b mode s = (Inr y, t))"
    by (simp add: sheltered_def sheltered_call_iff)
qed

lemma shielded_if:
  "(b \<Longrightarrow> shielded calm fresh m m' s) \<Longrightarrow> (\<not> b \<Longrightarrow> shielded calm fresh n n' s) \<Longrightarrow>
   shielded calm fresh (if b then m else n) (if b then m' else n') s"
  by simp

lemma shielded_prod:
  "(\<And>a b. x = (a, b) \<Longrightarrow> shielded calm fresh (f a b) (f' a b) s) \<Longrightarrow>
   shielded calm fresh (case x of (a, b) \<Rightarrow> f a b) (case x of (a, b) \<Rightarrow> f' a b) s"
  by (cases x) simp

lemma shielded_option:
  "(x = None \<Longrightarrow> shielded calm fresh m m' s) \<Longrightarrow> (\<And>y. x = Some y \<Longrightarrow> shielded calm fresh (f y) (f' y) s) \<Longrightarrow>
   shielded calm fresh (case x of None \<Rightarrow> m | Some y \<Rightarrow> f y) (case x of None \<Rightarrow> m' | Some y \<Rightarrow> f' y) s"
  by (cases x) simp_all

lemmas shielded_rules = shielded_ret shielded_if shielded_prod shielded_option shielded_store shielded_map_err

text \<open>A drawn name is none of the garbage.\<close>

lemma replays_draw:
  assumes F: "fence_legal E L topic part view rely epoch garbage"
    and f: "\<And>s x u. w_new_uuid E s = (x, u) \<Longrightarrow> io_keeps (moved E L topic part view epoch) (f x)"
    and rest: "\<And>s x u. w_new_uuid E s = (x, u) \<Longrightarrow>
      \<forall>p \<in> drawn_names E L topic part x. p \<notin> garbage (root_version E L topic part m1) \<and> p \<noteq> manifest_path E L topic part \<Longrightarrow>
      replays E L topic part view garbage m1 (f x) (f' x) u"
  shows "replays E L topic part view garbage m1 (io_bind (io_call (w_new_uuid E)) f)
    (io_bind (io_call (w_new_uuid (haven E L topic part view garbage m1))) f') s"
  unfolding shielded_def
proof (intro allI impI)
  let ?H = "haven E L topic part view garbage m1" and ?calm = "calm_state E L topic part view garbage m1"
  fix y t
  assume run: "io_bind (io_call (w_new_uuid E)) f s = (y, t)" and s: "?calm s" and t: "fresh_state E L topic part view m1 t"
  obtain x u where x: "w_new_uuid E s = (x, u)" by force
  with run have fx: "f x u = (y, t)" by (simp add: io_bind_def io_call_def)
  have su: "rely (view s) (view u)" by (rule store_laws_calls(3) [OF fence_legalD(1) [OF F] x])
  have "fresh_state E L topic part view m1 u"
    by (rule attempt.between [OF s fence_moved [OF F su] attempt.keeps [OF f [OF x] fx] t])
  from still_calm [OF F s this su] have u: "?calm u" .
  have "p \<notin> garbage (root_version E L topic part m1)" if "p \<in> drawn_names E L topic part x" for p
    using fence_legalD(10) [OF F x that] u by (simp add: calm_state_def)
  with names_not_root(2) [OF fence_legalD(2,3) [OF F] x]
  have "replays E L topic part view garbage m1 (f x) (f' x) u" by (intro rest [OF x]) blast
  from shieldedD [OF this fx u t]
  have "?calm t" "\<forall>z. y = Inr z \<longrightarrow> f' x u = (Inr z, t)" by auto
  moreover have "w_new_uuid ?H s = (x, u)" using x s u by (simp add: sheltered_def sheltered_draw_def)
  ultimately show "?calm t \<and> (\<forall>z. y = Inr z \<longrightarrow> io_bind (io_call (w_new_uuid ?H)) f' s = (Inr z, t))"
    by (simp add: io_bind_def io_call_def)
qed

lemma replays_read_exact:
  assumes F: "fence_legal E L topic part view rely epoch garbage"
    and p: "p \<notin> garbage (root_version E L topic part m1) \<or> starts_with (engine_dir L topic part @ ''producer-state/'') p"
  shows "replays E L topic part view garbage m1 (read_exact E p n sha e1 e2 e3)
    (read_exact (haven E L topic part view garbage m1) p n sha e1 e2 e3) s"
proof -
  note reads = creates_atD(1) [OF moved_creates [OF F]]
  show ?thesis
    unfolding read_exact_def sheltered_simps
    by (rule attempt.bind [where epoch = epoch] shielded_rules replays_get [OF F p] io_keeps_rules reads_keepD [OF reads])+
qed

text \<open>Pages.\<close>

lemma producer_path:
  assumes F: "fence_legal E L topic part view rely epoch garbage"
    and r: "validate_producer_ref (w_uuid_ok E) r (en_prefix L) topic part = Inr ()"
  shows "starts_with (engine_dir L topic part @ ''producer-state/'') (w_path_from E (pf_object r))"
proof -
  have "page_name_ok (w_uuid_ok E) (engine_dir L topic part @ ''producer-state/'') ''.json'' (pf_object r)"
    using r by (simp add: validate_producer_ref_def engine_dir_def Let_def split: if_splits)
  then obtain u where "w_uuid_ok E u" "pf_object r = engine_dir L topic part @ ''producer-state/'' @ u @ ''.json''"
    by (auto simp: page_name_ok_def split: option.splits)
  with fence_legalD(7) [OF F] show ?thesis by (simp add: starts_with_iff)
qed

lemma index_page_path:
  assumes st: "index_stored E L topic part (haven_view E L topic part view garbage m1 s) r p"
  shows "w_path_from E (pr_object r) \<notin> garbage (root_version E L topic part m1)"
proof -
  have "page_name_ok (w_uuid_ok E) (engine_dir L topic part @ ''index/'') ''.json'' (pr_object r)"
    using st by (simp add: index_stored_def validate_page_ref_def engine_dir_def Let_def split: if_splits)
  from page_name_ok_prefix [OF this] have "\<not> starts_with (engine_dir L topic part @ ''producer-state/'') (pr_object r)"
    by (auto simp: starts_with_iff)
  with st show ?thesis by (auto simp: index_stored_def sheltered_objects_def split: if_splits)
qed

lemma replays_read_page:
  assumes F: "fence_legal E L topic part view rely epoch garbage"
    and st: "index_stored E L topic part (haven_view E L topic part view garbage m1 s) r p"
  shows "replays E L topic part view garbage m1 (read_page E L topic part r)
    (read_page (haven E L topic part view garbage m1) L topic part r) s"
proof -
  note reads = creates_atD(1) [OF moved_creates [OF F]]
  have p: "w_path_from E (pr_object r) \<notin> garbage (root_version E L topic part m1)
      \<or> starts_with (engine_dir L topic part @ ''producer-state/'') (w_path_from E (pr_object r))"
    by (rule disjI1, rule index_page_path, rule st)
  show ?thesis
    unfolding read_page_def sheltered_simps sheltered_same [OF refl]
    by (rule attempt.bind [where epoch = epoch] shielded_rules replays_read_exact [OF F p] io_keeps_rules reads_keepD [OF reads])+
qed

lemma replays_read_producer_page:
  assumes F: "fence_legal E L topic part view rely epoch garbage"
  shows "replays E L topic part view garbage m1 (read_producer_page E L topic part n r)
    (read_producer_page (haven E L topic part view garbage m1) L topic part n r) s"
proof -
  note reads = creates_atD(1) [OF moved_creates [OF F]]
  show ?thesis
    unfolding read_producer_page_def sheltered_simps sheltered_same [OF refl]
    by (rule attempt.bind [where epoch = epoch] shielded_rules io_keeps_rules reads_keepD [OF reads]
          replays_read_exact [OF F disjI2 [OF producer_path [OF F]]]
        | simp add: io_lift_Inr)+
qed

lemma replays_write_page:
  assumes F: "fence_legal E L topic part view rely epoch garbage"
  shows "replays E L topic part view garbage m1 (write_page E L topic part p)
    (write_page (haven E L topic part view garbage m1) L topic part p) s"
proof -
  note c = moved_creates [OF F]
  show ?thesis
    unfolding write_page_def sheltered_simps Let_def
    by (rule replays_draw [OF F] attempt.bind [where epoch = epoch] shielded_rules replays_put [OF F]
           creates_at_draw [OF c] io_keeps_rules creates_atD(2) [OF c]
        | simp add: drawn_names_def names_not_root(2) [OF fence_legalD(2,3) [OF F]])+
qed

lemma replays_write_producer_page:
  assumes F: "fence_legal E L topic part view rely epoch garbage"
  shows "replays E L topic part view garbage m1 (write_producer_page E L topic part n p)
    (write_producer_page (haven E L topic part view garbage m1) L topic part n p) s"
proof -
  note c = moved_creates [OF F]
  show ?thesis
    unfolding write_producer_page_def sheltered_simps Let_def
    by (rule replays_draw [OF F] attempt.bind [where epoch = epoch] shielded_rules replays_put [OF F]
           creates_at_draw [OF c] io_keeps_rules creates_atD(2) [OF c]
        | simp add: drawn_names_def names_not_root(2) [OF fence_legalD(2,3) [OF F]])+
qed

text \<open>The producer directory.\<close>

lemma producer_lookup_bind:
  "producer_lookup E L topic part (Some r) pid n =
     (if pid < pf_first_id r \<or> pid > pf_last_id r then io_ret None
      else io_bind (read_producer_page E L topic part n r) (\<lambda>page. case page of
             PLeaf producers \<Rightarrow> io_ret (find (\<lambda>p. ps_id p = pid) producers)
           | PBranch children \<Rightarrow>
               producer_lookup E L topic part (find (\<lambda>c. pf_first_id c \<le> pid \<and> pid \<le> pf_last_id c) children) pid n))"
  by (rule ext) (simp add: io_bind_def io_ret_def split: prod.splits sum.splits producer_page.splits)

lemma producer_descend_bind:
  "producer_descend E L topic part pid n r path =
     io_bind (read_producer_page E L topic part n r) (\<lambda>page. case page of
         PLeaf leaf \<Rightarrow> io_ret (leaf, path)
       | PBranch children \<Rightarrow>
           producer_descend E L topic part pid n (children ! child_position pid children)
             ((children, child_position pid children) # path))"
  by (rule ext, subst producer_descend.simps)
    (simp add: io_bind_def io_ret_def split: prod.splits sum.splits producer_page.splits)

lemma replays_producer_lookup:
  assumes F: "fence_legal E L topic part view rely epoch garbage"
  shows "replays E L topic part view garbage m1 (producer_lookup E L topic part cursor pid n)
    (producer_lookup (haven E L topic part view garbage m1) L topic part cursor pid n) s"
proof (induction "case cursor of None \<Rightarrow> 0 | Some r \<Rightarrow> Suc (pf_level r)" arbitrary: cursor s rule: less_induct)
  case less
  note r = read_producer_page_reads [OF creates_atD(1) [OF moved_creates [OF F]]]
  let ?H = "haven E L topic part view garbage m1"
  show ?case
  proof (cases cursor)
    case None
    then show ?thesis by (simp add: shielded_def)
  next
    case (Some ref)
    have "replays E L topic part view garbage m1
        (case page of PLeaf producers \<Rightarrow> io_ret (find (\<lambda>p. ps_id p = pid) producers)
         | PBranch children \<Rightarrow> producer_lookup E L topic part (find P children) pid n)
        (case page of PLeaf producers \<Rightarrow> io_ret (find (\<lambda>p. ps_id p = pid) producers)
         | PBranch children \<Rightarrow> producer_lookup ?H L topic part (find P children) pid n) u"
      if "read_producer_page E L topic part n ref v = (Inr page, u)" for page P u v
    proof (cases page)
      case (PBranch cs)
      have "replays E L topic part view garbage m1 (producer_lookup E L topic part (find P cs) pid n)
          (producer_lookup ?H L topic part (find P cs) pid n) u"
        by (rule less.hyps) (use Some that PBranch find_lower_level [of E L topic part n ref v cs u P] in \<open>auto split: option.splits\<close>)
      with PBranch show ?thesis by simp
    qed simp
    then show ?thesis
      unfolding Some producer_lookup_bind
      by (intro shielded_if shielded_ret attempt.bind [where epoch = epoch] replays_read_producer_page [OF F] r)
        (auto intro!: io_keeps_rules producer_lookup_keeps r split: producer_page.splits)
  qed
qed

lemma replays_producer_descend:
  assumes F: "fence_legal E L topic part view rely epoch garbage"
  shows "replays E L topic part view garbage m1 (producer_descend E L topic part pid n ref path)
    (producer_descend (haven E L topic part view garbage m1) L topic part pid n ref path) s"
proof (induction "pf_level ref" arbitrary: ref path s rule: less_induct)
  case less
  note r = read_producer_page_reads [OF creates_atD(1) [OF moved_creates [OF F]]]
  let ?H = "haven E L topic part view garbage m1"
  have "replays E L topic part view garbage m1
      (case page of PLeaf leaf \<Rightarrow> io_ret (leaf, path)
       | PBranch cs \<Rightarrow> producer_descend E L topic part pid n (cs ! child_position pid cs) ((cs, child_position pid cs) # path))
      (case page of PLeaf leaf \<Rightarrow> io_ret (leaf, path)
       | PBranch cs \<Rightarrow> producer_descend ?H L topic part pid n (cs ! child_position pid cs) ((cs, child_position pid cs) # path)) u"
    if "read_producer_page E L topic part n ref v = (Inr page, u)" for page u v
    using that by (cases page) (auto intro: less.hyps child_lower_level)
  then show ?case
    unfolding producer_descend_bind [of _ _ _ _ _ _ ref]
    by (intro attempt.bind [where epoch = epoch] replays_read_producer_page [OF F] r)
      (auto intro!: io_keeps_rules producer_descend_keeps r split: producer_page.splits)
qed

lemma replays_write_upwards:
  assumes F: "fence_legal E L topic part view rely epoch garbage"
  shows "replays E L topic part view garbage m1 (write_upwards E L topic part n pages path)
    (write_upwards (haven E L topic part view garbage m1) L topic part n pages path) s"
proof (induction path arbitrary: pages s)
  case Nil
  note w = pages_creates_at(2) [OF moved_creates [OF F]]
  show ?case
    unfolding write_upwards.simps
    by (intro attempt.bind [where epoch = epoch] attempt.everywhere [where epoch = epoch] shielded_rules
        replays_write_producer_page [OF F] io_keeps_rules w)
next
  case (Cons a path)
  note w = pages_creates_at(2) [OF moved_creates [OF F]]
  show ?case
    by (cases a) (auto intro!: attempt.bind [where epoch = epoch] attempt.everywhere [where epoch = epoch] Cons
        replays_write_producer_page [OF F] io_keeps_rules w write_upwards_keeps)
qed

lemma replays_update_producer:
  assumes F: "fence_legal E L topic part view rely epoch garbage"
  shows "replays E L topic part view garbage m1 (update_producer E L topic part root state n)
    (update_producer (haven E L topic part view garbage m1) L topic part root state n) s"
proof -
  note c = moved_creates [OF F]
  note pages = pages_creates_at(2) [OF c] read_producer_page_reads [OF creates_atD(1) [OF c]]
  show ?thesis
    unfolding update_producer_def
    by (intro attempt.bind [where epoch = epoch] shielded_rules replays_producer_descend [OF F]
        replays_write_upwards [OF F] io_keeps_rules producer_descend_keeps write_upwards_keeps pages)
qed

lemma replays_publish_states:
  assumes F: "fence_legal E L topic part view rely epoch garbage"
  shows "replays E L topic part view garbage m1 (publish_states E L topic part n states root)
    (publish_states (haven E L topic part view garbage m1) L topic part n states root) s"
proof (induction states arbitrary: root s)
  case (Cons state states)
  note c = moved_creates [OF F]
  note pages = pages_creates_at(2) [OF c] read_producer_page_reads [OF creates_atD(1) [OF c]]
  show ?case
    unfolding publish_states.simps
    by (intro attempt.bind [where epoch = epoch] replays_update_producer [OF F] Cons update_producer_keeps
        append_creates_at [OF c] pages)
qed simp

text \<open>The plan.\<close>

lemma replays_plan_batches:
  assumes F: "fence_legal E L topic part view rely epoch garbage"
  shows "replays E L topic part view garbage m1 (plan_batches E L topic part directory initial bs plan)
    (plan_batches (haven E L topic part view garbage m1) L topic part directory initial bs plan) s"
proof (induction bs arbitrary: plan s)
  case (Cons b bs)
  let ?H = "haven E L topic part view garbage m1"
  note r = creates_atD(1) [OF moved_creates [OF F]]
  note k = producer_lookup_keeps [OF read_producer_page_reads [OF r]]
  have state: "io_keeps (moved E L topic part view epoch) (plan_state E L topic part directory initial first states)" for first states
    unfolding plan_state_def by (intro io_keeps_rules k)
  have "replays E L topic part view garbage m1 (plan_state E L topic part directory initial first states)
      (plan_state ?H L topic part directory initial first states) u" for first states u
    unfolding plan_state_def
    by (intro attempt.bind [where epoch = epoch] shielded_rules replays_producer_lookup [OF F] io_keeps_rules k)
  then have one: "replays E L topic part view garbage m1 (plan_batch E L topic part directory initial records fp plan)
      (plan_batch ?H L topic part directory initial records fp plan) u" for records fp plan u
    unfolding plan_batch_def Let_def
    by (intro attempt.bind [where epoch = epoch] shielded_rules io_keeps_rules state)
      (auto intro!: shielded_pure split: prod.splits sum.splits)
  have keep: "io_keeps (moved E L topic part view epoch) (plan_batch E L topic part directory initial records fp plan)"
    for records fp plan
    unfolding plan_batch_def Let_def by (intro io_keeps_rules state)
  show ?case
    by (cases b) (simp, intro attempt.bind [where epoch = epoch] one Cons keep plan_batches_reads r)
qed simp

text \<open>The index: the pages that are read are pages of the root.\<close>

lemma index_path_bind:
  "index_path E L topic part leaf level =
     (if pr_level leaf < level
      then io_bind (write_page E L topic part (Branch [leaf])) (\<lambda>leaf. index_path E L topic part leaf level)
      else io_ret leaf)"
  by (rule ext, subst index_path.simps) (simp add: io_bind_def io_ret_def split: prod.splits sum.splits)

lemma insert_leaf_bind:
  "insert_leaf E L topic part tree leaf =
     (if full tree then
        if pr_level tree = INDEX_MAX_LEVEL then io_err OffsetOverflow
        else io_bind (index_path E L topic part leaf (pr_level tree)) (\<lambda>right.
               write_page E L topic part (Branch [tree, right]))
      else io_bind (read_page E L topic part tree) (\<lambda>page. case page of
             Leaf _ \<Rightarrow> io_err (invalid ''incomplete sealed leaf'')
           | Branch children \<Rightarrow>
               if children = [] then io_err (invalid ''empty index branch'')
               else if full (last children) then
                 io_bind (index_path E L topic part leaf (pr_level (last children))) (\<lambda>right.
                   write_page E L topic part (Branch (butlast children @ [last children, right])))
               else io_bind (insert_leaf E L topic part (last children) leaf) (\<lambda>child.
                      write_page E L topic part (Branch (butlast children @ [child])))))"
  by (rule ext, subst insert_leaf.simps)
    (simp add: io_bind_def io_ret_def io_err_def split: prod.splits sum.splits page.splits)

lemma replays_index_path:
  assumes F: "fence_legal E L topic part view rely epoch garbage"
  shows "replays E L topic part view garbage m1 (index_path E L topic part leaf level)
    (index_path (haven E L topic part view garbage m1) L topic part leaf level) s"
proof (induction "level - pr_level leaf" arbitrary: leaf s rule: less_induct)
  case less
  note w = pages_creates_at(1) [OF moved_creates [OF F]]
  have step: "level - pr_level leaf' < level - pr_level leaf"
    if "pr_level leaf < level" "write_page E L topic part (Branch [leaf]) v = (Inr leaf', u)" for leaf' u v
    using that write_page_Branch_level [OF that(2)] by simp
  show ?case
    unfolding index_path_bind [of _ _ _ _ leaf]
    by (intro shielded_if shielded_ret attempt.bind [where epoch = epoch] replays_write_page [OF F] w index_path_keeps
        less.hyps step)
qed

lemma page_case_rules:
  "(\<And>x. page = Leaf x \<Longrightarrow> shielded calm fresh (f x) (f' x) s) \<Longrightarrow>
   (\<And>x. page = Branch x \<Longrightarrow> shielded calm fresh (g x) (g' x) s) \<Longrightarrow>
   shielded calm fresh (case page of Leaf x \<Rightarrow> f x | Branch x \<Rightarrow> g x) (case page of Leaf x \<Rightarrow> f' x | Branch x \<Rightarrow> g' x) s"
  "(\<And>x. io_keeps R (f x)) \<Longrightarrow> (\<And>x. io_keeps R (g x)) \<Longrightarrow> io_keeps R (case page of Leaf x \<Rightarrow> f x | Branch x \<Rightarrow> g x)"
  by (cases page; simp)+

lemma replays_insert_leaf:
  assumes F: "fence_legal E L topic part view rely epoch garbage"
    and "index_holds E L topic part (haven_view E L topic part view garbage m1 s) tree xs"
  shows "replays E L topic part view garbage m1 (insert_leaf E L topic part tree leaf)
    (insert_leaf (haven E L topic part view garbage m1) L topic part tree leaf) s"
  using assms(2)
proof (induction "pr_level tree" arbitrary: tree s xs rule: less_induct)
  case less
  let ?H = "haven E L topic part view garbage m1" and ?v = "haven_view E L topic part view garbage m1"
  note c = moved_creates [OF F]
  note w = pages_creates_at(1) [OF c]
  note r = read_page_reads [OF creates_atD(1) [OF c]]
  note legal = log_legalD(1) [OF haven_legal [OF F]]
  from less.prems obtain p where p: "index_stored E L topic part (?v s) tree p" by (auto elim: denotesE)
  have rest: "\<exists>xs. index_holds E L topic part (?v u) (last cs) xs"
    if "read_page ?H L topic part tree s = (Inr (Branch cs), u)" "cs \<noteq> []" for cs u
  proof -
    have "index_holds ?H L topic part (?v s) tree xs" using less.prems by (simp add: sheltered_same)
    from ix.read_holds [OF legal that(1) this] obtain xss where
      "list_all2 (index_holds ?H L topic part (?v u)) cs xss" by auto
    from list_all2_last [OF this that(2)] show ?thesis by (auto simp: sheltered_same)
  qed
  have rec: "replays E L topic part view garbage m1
      (insert_leaf E L topic part (last cs) leaf) (insert_leaf ?H L topic part (last cs) leaf) u"
    if "read_page E L topic part tree s = (Inr (Branch cs), u)" "read_page ?H L topic part tree s = (Inr (Branch cs), u)"
      "cs \<noteq> []" for cs u
    using rest [OF that(2,3)] less.hyps [OF read_page_Branch_last [OF that(1)]] by blast
  show ?case
    unfolding insert_leaf_bind [of _ _ _ _ tree]
    by (rule shielded_if shielded_ret page_case_rules attempt.bind [where epoch = epoch]
        replays_index_path [OF F] replays_write_page [OF F] replays_read_page [OF F p]
        w r insert_leaf_keeps index_path_keeps io_keeps_rules rec | simp)+
qed

lemma replays_seal_tail:
  assumes F: "fence_legal E L topic part view rely epoch garbage"
    and root: "root_holds E L topic part (haven_view E L topic part view garbage m1 s) root xs"
  shows "replays E L topic part view garbage m1 (seal_tail E L topic part root)
    (seal_tail (haven E L topic part view garbage m1) L topic part root) s"
proof -
  let ?H = "haven E L topic part view garbage m1" and ?v = "haven_view E L topic part view garbage m1"
  note c = moved_creates [OF F]
  note w = pages_creates_at(1) [OF c]
  note r = read_page_reads [OF creates_atD(1) [OF c]]
  have "replays E L topic part view garbage m1 (insert_leaf E L topic part tree leaf) (insert_leaf ?H L topic part tree leaf) u"
    if "write_page ?H L topic part p s = (Inr leaf, u)" "rt_tree root = Some tree" for p leaf u tree
  proof -
    from root that(2) obtain ys where "index_holds E L topic part (?v s) tree ys" by (auto simp: root_holds_def)
    from ix.holds_later [OF this ix.write_later [OF log_legalD(1) [OF haven_legal [OF F]] that(1)]]
    show ?thesis by (rule replays_insert_leaf [OF F])
  qed
  then show ?thesis
    unfolding seal_tail_def
    by (intro shielded_rules attempt.bind [where epoch = epoch] replays_write_page [OF F]
        io_keeps_rules w r insert_leaf_keeps)
qed

lemma replays_seal_if_full:
  assumes F: "fence_legal E L topic part view rely epoch garbage"
    and root: "root_holds E L topic part (haven_view E L topic part view garbage m1 s) root xs"
  shows "replays E L topic part view garbage m1
    (if length (rt_tail root) = PAGE_ENTRIES then seal_tail E L topic part root else io_ret root)
    (if length (rt_tail root) = PAGE_ENTRIES then seal_tail (haven E L topic part view garbage m1) L topic part root
     else io_ret root) s"
  by (intro shielded_rules replays_seal_tail [OF F root])

lemma replays_migrate_segments:
  assumes F: "fence_legal E L topic part view rely epoch garbage"
    and "root_holds E L topic part (haven_view E L topic part view garbage m1 s) root xs"
  shows "replays E L topic part view garbage m1 (migrate_segments E L topic part root sgs)
    (migrate_segments (haven E L topic part view garbage m1) L topic part root sgs) s"
  using assms(2)
proof (induction sgs arbitrary: root s xs)
  case (Cons sg sgs)
  let ?H = "haven E L topic part view garbage m1" and ?v = "haven_view E L topic part view garbage m1"
  note c = moved_creates [OF F]
  note w = pages_creates_at(1) [OF c]
  note r = read_page_reads [OF creates_atD(1) [OF c]]
  have "replays E L topic part view garbage m1 (migrate_segments E L topic part (mid\<lparr>rt_tail := rt_tail mid @ [sg]\<rparr>) sgs)
      (migrate_segments ?H L topic part (mid\<lparr>rt_tail := rt_tail mid @ [sg]\<rparr>) sgs) u"
    if seal: "(if length (rt_tail root) = PAGE_ENTRIES then seal_tail ?H L topic part root else io_ret root) s = (Inr mid, u)" for mid u
  proof -
    have "root_holds ?H L topic part (?v s) root xs" using Cons.prems by (simp add: sheltered_same)
    from seal_if_full_holds [OF haven_legal [OF F] seal this] have "root_holds ?H L topic part (?v u) mid xs" by blast
    from root_holds_push [OF this] have "root_holds E L topic part (?v u) (mid\<lparr>rt_tail := rt_tail mid @ [sg]\<rparr>) (xs @ [sg])"
      by (simp add: sheltered_same)
    then show ?thesis by (rule Cons.IH)
  qed
  then show ?case
    unfolding migrate_segments.simps
    by (intro attempt.bind [where epoch = epoch] replays_seal_if_full [OF F Cons.prems] io_keeps_rules
        migrate_segments_keeps append_creates_at(1) [OF c] w r)
qed simp

lemma replays_append_root:
  assumes F: "fence_legal E L topic part view rely epoch garbage"
    and lm: "manifest_holds E L topic part (haven_view E L topic part view garbage m1 s) lm xs"
  shows "replays E L topic part view garbage m1 (append_root E L topic part lm now)
    (append_root (haven E L topic part view garbage m1) L topic part lm now) s"
proof -
  let ?H = "haven E L topic part view garbage m1" and ?v = "haven_view E L topic part view garbage m1"
  let ?first = "\<lambda>E. case lm of Legacy legacy \<Rightarrow> migrate_manifest E L topic part legacy now
      | Indexed root \<Rightarrow> io_ret (if rt_schema root \<noteq> INDEX_SCHEMA
            then root\<lparr>rt_schema := INDEX_SCHEMA, rt_adopted_at_ms := (case rt_adopted_at_ms root of
                  None \<Rightarrow> Some now | Some t \<Rightarrow> Some t)\<rparr> else root)"
  note c = moved_creates [OF F]
  note w = pages_creates_at(1) [OF c]
  note r = read_page_reads [OF creates_atD(1) [OF c]]
  have first: "replays E L topic part view garbage m1 (?first E) (?first ?H) s"
  proof (cases lm)
    case (Legacy mf)
    have "root_holds E L topic part (?v s) (root_default\<lparr>rt_adopted_at_ms := Some now\<rparr>) []"
      by (simp add: root_holds_def root_default_def)
    then show ?thesis
      unfolding Legacy log_manifest.case migrate_manifest_def
      by (intro attempt.bind [where epoch = epoch] shielded_ret replays_migrate_segments [OF F]
          migrate_segments_keeps w r io_keeps_ret)
  qed simp
  have keep: "io_keeps (moved E L topic part view epoch) (?first E)"
    by (intro io_keeps_manifest append_creates_at(2) [OF c] io_keeps_ret)
  have mid: "root_holds E L topic part (?v u) mid xs" if run: "?first ?H s = (Inr mid, u)" for mid u
  proof (cases lm)
    case (Legacy mf)
    with run have "migrate_manifest ?H L topic part mf now s = (Inr mid, u)" by simp
    from migrate_manifest_holds [OF log_legalD(1) [OF haven_legal [OF F]] this] lm Legacy
    show ?thesis by (simp add: sheltered_same)
  next
    case (Indexed root)
    with run lm show ?thesis by (auto simp: root_holds_def split: if_splits option.splits)
  qed
  show ?thesis
    unfolding append_root_def
    by (rule attempt.bind [where epoch = epoch], rule first, rule keep)
      (intro io_keeps_if append_creates_at(1) [OF c] io_keeps_ret, rule replays_seal_if_full [OF F mid])
qed

lemma replays_publish_addition:
  assumes F: "fence_legal E L topic part view rely epoch garbage"
    and root: "root_holds E L topic part (haven_view E L topic part view garbage m1 s) root xs"
  shows "replays E L topic part view garbage m1 (publish_addition E L topic part now records base root)
    (publish_addition (haven E L topic part view garbage m1) L topic part now records base root) s"
    and "io_keeps (moved E L topic part view epoch) (publish_addition E L topic part now records base root)"
proof -
  note c = moved_creates [OF F]
  note seal = append_creates_at(1) [OF c]
  show "io_keeps (moved E L topic part view epoch) (publish_addition E L topic part now records base root)"
    unfolding publish_addition_def Let_def
    by (rule creates_at_draw [OF c] seal io_keeps_rules creates_atD(2) [OF c] | simp add: drawn_names_def)+
  show "replays E L topic part view garbage m1 (publish_addition E L topic part now records base root)
      (publish_addition (haven E L topic part view garbage m1) L topic part now records base root) s"
    unfolding publish_addition_def Let_def sheltered_simps sheltered_same [OF refl]
    by (rule replays_draw [OF F] replays_seal_if_full [OF F root] attempt.bind [where epoch = epoch] shielded_rules
          replays_put [OF F] creates_at_draw [OF c] seal io_keeps_rules creates_atD(2) [OF c]
        | simp add: drawn_names_def names_not_root(2) [OF fence_legalD(2,3) [OF F]])+
qed

lemma replays_publish_additions:
  assumes F: "fence_legal E L topic part view rely epoch garbage"
    and "root_holds E L topic part (haven_view E L topic part view garbage m1 s) root xs"
  shows "replays E L topic part view garbage m1 (publish_additions E L topic part now adds root)
    (publish_additions (haven E L topic part view garbage m1) L topic part now adds root) s"
  using assms(2)
proof (induction adds arbitrary: root s xs)
  case (Cons a adds)
  let ?H = "haven E L topic part view garbage m1" and ?v = "haven_view E L topic part view garbage m1"
  obtain records base where a: "a = (records, base)" by force
  have "replays E L topic part view garbage m1 (publish_additions E L topic part now adds mid)
      (publish_additions ?H L topic part now adds mid) u"
    if run: "publish_addition ?H L topic part now records base root s = (Inr mid, u)" for mid u
  proof -
    have "root_holds ?H L topic part (?v s) root xs" using Cons.prems by (simp add: sheltered_same)
    from publish_addition_holds [OF haven_legal [OF F] run this] obtain sg where
      "root_holds E L topic part (?v u) mid (xs @ [sg])" by (auto simp: sheltered_same)
    then show ?thesis by (rule Cons.IH)
  qed
  then show ?case
    unfolding a publish_additions.simps
    by (intro attempt.bind [where epoch = epoch] replays_publish_addition [OF F Cons.prems]
        append_creates_at(4) [OF moved_creates [OF F]])
qed simp

lemma replays_prepare_append:
  assumes F: "fence_legal E L topic part view rely epoch garbage"
    and lm: "manifest_holds E L topic part (haven_view E L topic part view garbage m1 s) lm xs"
  shows "replays E L topic part view garbage m1 (prepare_append E L topic part lm batches fps now)
    (prepare_append (haven E L topic part view garbage m1) L topic part lm batches fps now) s"
proof -
  let ?H = "haven E L topic part view garbage m1" and ?v = "haven_view E L topic part view garbage m1"
  note c = moved_creates [OF F]
  note legal = haven_legal [OF F]
  note keep = log_creates_keep [OF legal]
  have held: "manifest_holds E L topic part (?v u) lm xs"
    if "plan_batches ?H L topic part directory n bs plan s = (Inr plan', u)" for directory n bs plan plan' u
    by (rule manifest_holds_later [OF lm creates_later [OF legal plan_batches_reads [OF creates_keepD(1) [OF keep]] that]])
  have root: "root_holds E L topic part (?v v) root xs"
    if "append_root ?H L topic part lm now u = (Inr root, v)" "manifest_holds E L topic part (?v u) lm xs" for root u v
    using append_root_holds [OF legal that(1)] that(2) by (simp add: sheltered_same)
  show ?thesis
    unfolding prepare_append_def Let_def
    by (rule attempt.bind [where epoch = epoch] shielded_rules replays_plan_batches [OF F]
          replays_append_root [OF F held] replays_publish_additions [OF F root [OF _ held]] replays_publish_states [OF F]
          plan_batches_reads [OF creates_atD(1) [OF c]] append_creates_at [OF c] io_keeps_rules | assumption)+
qed

section \<open>An append beside maintenance\<close>

text \<open>What the sheltered world shows of a log is there, outside the garbage.\<close>

lemma haven_holds:
  assumes safe_def: "safe = - garbage (root_version E L topic part m1)"
  shows "root_holds E L topic part (haven_view E L topic part view garbage m1 s) root xs \<Longrightarrow>
      root_holds E L topic part (view s |` safe) root xs"
    and "segment_stores E L topic part (haven_view E L topic part view garbage m1 s) records sg \<Longrightarrow>
      segment_stores E L topic part (view s |` safe) records sg"
proof -
  have page: "index_stored E L topic part (view s |` safe) r p"
    if st: "index_stored E L topic part (haven_view E L topic part view garbage m1 s) r p" for r p
  proof -
    have "w_path_from E (pr_object r) \<notin> garbage (root_version E L topic part m1)" by (rule index_page_path, rule st)
    with st show ?thesis by (auto simp: index_stored_def sheltered_objects_def safe_def)
  qed
  then show "root_holds E L topic part (view s |` safe) root xs"
    if "root_holds E L topic part (haven_view E L topic part view garbage m1 s) root xs"
    using that by (auto simp: root_holds_def split: option.splits elim!: denotes_mono)
  show "segment_stores E L topic part (view s |` safe) records sg"
    if st: "segment_stores E L topic part (haven_view E L topic part view garbage m1 s) records sg"
  proof -
    have "\<not> starts_with (engine_dir L topic part @ ''producer-state/'') (sg_object sg)"
      using st by (auto simp: segment_stores_def segment_named_def starts_with_iff)
    with st show ?thesis by (auto simp: segment_stores_def sheltered_objects_def safe_def split: if_splits)
  qed
qed

lemma haven_start:
  assumes "manifest_holds E L topic part (view s |` (- garbage (root_version E L topic part m1))) lm xs"
  shows "manifest_holds E L topic part (haven_view E L topic part view garbage m1 s) lm xs"
  by (rule manifest_holds_later [OF assms]) (auto simp: keeps_dir_def sheltered_objects_def restrict_map_def split: if_splits)

text \<open>Producer states that are readable without the garbage are seen in the sheltered world.\<close>

lemma haven_directory:
  assumes "directory_holds E L topic part n (view s |` (- garbage (root_version E L topic part m1))) directory ps"
  shows "directory_holds E L topic part n (haven_view E L topic part view garbage m1 s) directory ps"
  by (rule directory_holds_later [OF assms]) (auto simp: keeps_dir_def sheltered_objects_def restrict_map_def split: if_splits)

lemma haven_placed:
  assumes "safe = - garbage (root_version E L topic part m1)"
    and "placed E L topic part (haven_view E L topic part view garbage m1 s) adds new"
  shows "placed E L topic part (view s |` safe) adds new"
  using assms(2) unfolding placed_def
  by (rule list_all2_mono) (auto intro: haven_holds(2) [where view = view and garbage = garbage and s = s, OF assms(1)])

text \<open>
  The outcome is the one decided on the producer states that the directory denotes at \<open>m\<close>: the
  answer, and the new batches, each stored at the offset it was given.
\<close>

definition answered_as_decided ::
  "('s, 'm) log_env_scheme \<Rightarrow> engine \<Rightarrow> string \<Rightarrow> int \<Rightarrow> objects \<Rightarrow> objects \<Rightarrow> log_manifest \<Rightarrow> kafka_record list list
   \<Rightarrow> string list \<Rightarrow> append_result \<Rightarrow> segment list \<Rightarrow> bool" where
  "answered_as_decided E L topic part m m' lm batches fps result new \<longleftrightarrow>
     (\<forall>ps. directory_holds E L topic part (lm_next_offset lm) m (directory_of lm) ps \<longrightarrow>
        (\<exists>rs adds known. decides (\<lambda>pid. find_producer pid ps) (lm_next_offset lm) (zip batches fps) = Some (rs, adds, known)
           \<and> result = answer rs \<and> placed E L topic part m' adds new))"

text \<open>
  A successful append of a request, from the bucket \<open>m0\<close> before it to the bucket \<open>m2\<close> after it. Only the
  steps of other clients and the creation of objects of its own lead from \<open>m0\<close> to \<open>m\<close>, where it loaded
  the manifest \<open>lm\<close>. Either it added nothing and only read; or only such steps lead on to \<open>m1\<close>, the
  root object there is the one that was loaded, and the last step replaces it. If the log was readable at
  \<open>m\<close> without the garbage of that root, nothing of it was lost meanwhile, and the new root denotes it
  followed by the new batches, and needs no garbage either.
\<close>

definition fenced_done ::
  "('s, 'm) log_env_scheme \<Rightarrow> engine \<Rightarrow> string \<Rightarrow> int \<Rightarrow> (objects \<Rightarrow> objects \<Rightarrow> bool)
   \<Rightarrow> (update_version option \<Rightarrow> string set) \<Rightarrow> kafka_record list list \<Rightarrow> objects \<Rightarrow> append_result \<Rightarrow> objects \<Rightarrow> bool" where
  "fenced_done E L topic part rely garbage batches m0 result m2 \<longleftrightarrow>
     (\<exists>fps total_bytes m lm safe. check_batches E batches [] 0 = Inr (fps, total_bytes)
      \<and> prepares E L topic part rely m0 m \<and> current_manifest E L topic part m = Some lm
      \<and> safe = - garbage (root_version E L topic part m)
      \<and> ((rely m m2 \<and> \<not> (\<forall>records \<in> set batches. anonymous records)
           \<and> (root_version E L topic part m2 = root_version E L topic part m \<longrightarrow>
                all_retried E L topic part (m |` safe) lm batches fps result))
         \<or> (\<exists>m1 root v b. prepares E L topic part rely m m1
              \<and> m1 (manifest_path E L topic part) = m (manifest_path E L topic part)
              \<and> m2 = m1(manifest_path E L topic part \<mapsto> (v, b))
              \<and> current_manifest E L topic part m2 = Some (Indexed root)
              \<and> (\<forall>xs. manifest_holds E L topic part (m |` safe) lm xs \<longrightarrow>
                   (\<forall>p \<in> safe. immutable_name (engine_dir L topic part) p \<longrightarrow> m p \<noteq> None \<longrightarrow> m2 p = m p)
                 \<and> (\<exists>new. extends_log E L topic part (m2 |` safe) lm batches xs result root new
                      \<and> tiles (lm_next_offset lm) new (rt_next_offset root)
                      \<and> answered_as_decided E L topic part (m |` safe) (m2 |` safe) lm batches fps result new)))))"

lemma fenced_commit:
  assumes F: "fence_legal E L topic part view rely epoch garbage"
    and check: "check_batches E batches [] 0 = Inr (fps, total_bytes)"
    and load: "load_or_empty E L topic part s = (Inr l, s1)"
    and prep: "prepare_append E L topic part (ld_manifest l) batches fps now s1 = (Inr (result, Some root), u)"
    and w: "rely (view u) (view w)" "map_option fst (view w (manifest_path E L topic part)) = ld_version l"
      "view t = (view w)(manifest_path E L topic part \<mapsto> x)"
      "validate_root (w_uuid_ok E) root (en_prefix L) topic part = Inr ()"
    and safe: "safe = - garbage (root_version E L topic part (view s1))"
    and xs: "manifest_holds E L topic part (view s1 |` safe) (ld_manifest l) xs"
  shows "\<exists>new. extends_log E L topic part (view t |` safe) (ld_manifest l) batches xs result root new
      \<and> tiles (lm_next_offset (ld_manifest l)) new (rt_next_offset root)
      \<and> answered_as_decided E L topic part (view s1 |` safe) (view t |` safe) (ld_manifest l) batches fps result new"
    and "immutable_name (engine_dir L topic part) p \<Longrightarrow> p \<in> safe \<Longrightarrow> view s1 p \<noteq> None \<Longrightarrow> view t p = view s1 p"
proof -
  let ?lm = "ld_manifest l" and ?dir = "engine_dir L topic part" and ?m1 = "view s1"
  let ?H = "haven E L topic part view garbage ?m1" and ?v = "haven_view E L topic part view garbage ?m1"
  note legal = haven_legal [OF F, of ?m1]
  note cur = load_or_empty_current [OF fence_legalD(1) [OF F] load]
  have fps: "length fps = length batches" using check_batches_length [OF check] by simp
  have calm: "calm_state E L topic part view garbage ?m1 s1" by (simp add: calm_state_def)
  have fw: "fresh_state E L topic part view ?m1 w" using w(2) cur by (simp add: fresh_state_def root_version_def)
  have fu: "fresh_state E L topic part view ?m1 u"
    by (rule attempt.between [OF calm attempt.keeps [OF prepare_append_creates_at [OF moved_creates [OF F]] prep]
          fence_moved [OF F w(1)] fw])
  have start: "manifest_holds E L topic part (?v s1) ?lm xs" by (rule haven_start) (use xs safe in simp)
  from shieldedD [OF replays_prepare_append [OF F start] prep calm fu]
  have cu: "calm_state E L topic part view garbage ?m1 u"
    and run: "prepare_append ?H L topic part ?lm batches fps now s1 = (Inr (result, Some root), u)" by auto
  have cw: "calm_state E L topic part view garbage ?m1 w" by (rule still_calm [OF F cu fw w(1)])
  have uw: "keeps_dir ?dir (?v u) (?v w)" by (rule sheltered_keeps [OF F cu cw w(1)])
  have su: "keeps_dir ?dir (?v s1) (?v u)"
    by (rule creates_later [OF legal prepare_append_creates [OF log_creates_keep [OF legal]] run])
  have root_name: "\<not> immutable_name ?dir (manifest_path E L topic part)"
    using manifest_not_immutable [OF legal] by (simp add: sheltered_same)
  have wt: "keeps_dir ?dir (view w) (view t)" using root_name w(3) by (auto simp: keeps_dir_def)
  show "view t p = view s1 p" if p: "immutable_name ?dir p" "p \<in> safe" "view s1 p \<noteq> None"
  proof -
    have "?v s1 p \<noteq> None" using p(2,3) safe by (simp add: sheltered_objects_def)
    with keeps_dir_trans [OF su uw] p(1) have "?v w p = ?v s1 p" unfolding keeps_dir_def by blast
    then have "view w p = view s1 p" using p(2) safe by (simp add: sheltered_objects_def)
    with wt p(1,3) show ?thesis unfolding keeps_dir_def by metis
  qed
  have cm: "current_manifest E L topic part ?m1 = Some ?lm" using cur by blast
  note n = current_next_offset [OF cm]
  have "manifest_holds E L topic part ?m1 ?lm xs"
    by (rule manifest_holds_later [OF xs]) (simp add: keeps_dir_def restrict_map_def)
  note tl = current_manifest_tiles(1) [OF cm this]
  have "manifest_holds ?H L topic part (?v s1) ?lm xs" using start by (simp add: sheltered_same)
  from prepare_append_Some [OF legal run this fps n] check_batches_full [OF check] obtain new where
    new: "extends_log ?H L topic part (?v u) ?lm batches xs result root new"
      "lm_next_offset ?lm \<le> rt_next_offset root \<Longrightarrow>
        added_as_decided ?H L topic part (?v s1) (?v u) ?lm batches fps result root new" by blast
  have tsafe: "keeps_dir ?dir (view w |` safe) (view t |` safe)"
    using wt unfolding keeps_dir_def restrict_map_def by auto
  have "extends_log E L topic part (?v w) ?lm batches xs result root new"
    using extends_log_later [OF new(1) uw] by (simp add: extends_log_def sheltered_same)
  then have "extends_log E L topic part (view w |` safe) ?lm batches xs result root new"
    unfolding extends_log_def
    by (elim conjE exE, intro conjI exI)
      (rule haven_holds(1) [where view = view and garbage = garbage and s = w, OF safe], assumption
        | erule list_all2_mono, erule haven_holds(2) [where view = view and garbage = garbage and s = w, OF safe] | assumption)+
  then have ext: "extends_log E L topic part (view t |` safe) ?lm batches xs result root new"
    using tsafe by (rule extends_log_later)
  note tl' = extends_log_tiles [OF ext w(4) tl]
  have "answered_as_decided E L topic part (view s1 |` safe) (view t |` safe) ?lm batches fps result new"
    unfolding answered_as_decided_def
  proof (intro allI impI)
    fix ps assume "directory_holds E L topic part (lm_next_offset ?lm) (view s1 |` safe) (directory_of ?lm) ps"
    then have "directory_holds ?H L topic part (lm_next_offset ?lm) (?v s1) (directory_of ?lm) ps"
      using haven_directory safe by (simp add: sheltered_same)
    with new(2) [OF tiles_le [OF tl']] obtain rs adds known where
      d: "decides (\<lambda>pid. find_producer pid ps) (lm_next_offset ?lm) (zip batches fps) = Some (rs, adds, known)"
        "result = answer rs" "placed ?H L topic part (?v u) adds new"
      unfolding added_as_decided_def by blast
    have "placed E L topic part (?v w) adds new"
      using placed_later [OF d(3) uw] by (simp add: sheltered_same)
    then have "placed E L topic part (view w |` safe) adds new" by (rule haven_placed [where view = view and garbage = garbage and s = w, OF safe])
    from placed_later [OF this tsafe] d(1,2)
    show "\<exists>rs adds known. decides (\<lambda>pid. find_producer pid ps) (lm_next_offset ?lm) (zip batches fps) = Some (rs, adds, known)
           \<and> result = answer rs \<and> placed E L topic part (view t |` safe) adds new" by blast
  qed
  with ext tl' show "\<exists>new. extends_log E L topic part (view t |` safe) ?lm batches xs result root new
      \<and> tiles (lm_next_offset ?lm) new (rt_next_offset root)
      \<and> answered_as_decided E L topic part (view s1 |` safe) (view t |` safe) ?lm batches fps result new" by blast
qed

lemma fenced_retries:
  assumes F: "fence_legal E L topic part view rely epoch garbage"
    and check: "check_batches E batches [] 0 = Inr (fps, total_bytes)" and n: "0 \<le> lm_next_offset lm"
    and prep: "prepare_append E L topic part lm batches fps now s = (Inr (result, None), t)"
    and retries: "\<not> (\<forall>records \<in> set batches. anonymous records)"
    and still: "root_version E L topic part (view t) = root_version E L topic part (view s)"
  shows "all_retried E L topic part (view s |` (- garbage (root_version E L topic part (view s)))) lm batches fps result"
proof -
  let ?H = "haven E L topic part view garbage (view s)" and ?v = "haven_view E L topic part view garbage (view s)"
  from prep obtain plan where plan: "plan_batches E L topic part (directory_of lm) (lm_next_offset lm) (zip batches fps)
      \<lparr>ap_states = [], ap_additions = [], ap_results = [], ap_next_offset = lm_next_offset lm\<rparr> s = (Inr plan, t)"
    and none: "ap_additions plan = []" and result: "result = answer (ap_results plan)" by (rule prepare_append_None_plan)
  have "calm_state E L topic part view garbage (view s) s" "fresh_state E L topic part view (view s) t"
    using still by (simp_all add: calm_state_def fresh_state_def)
  from shieldedD(2) [OF replays_plan_batches [OF F] plan this]
  have run: "plan_batches ?H L topic part (directory_of lm) (lm_next_offset lm) (zip batches fps)
      \<lparr>ap_states = [], ap_additions = [], ap_results = [], ap_next_offset = lm_next_offset lm\<rparr> s = (Inr plan, t)" by blast
  have "\<exists>rs known. decides (\<lambda>pid. find_producer pid ps) (lm_next_offset lm) (zip batches fps) = Some (rs, [], known) \<and> result = answer rs"
    if "directory_holds E L topic part (lm_next_offset lm) (view s |` (- garbage (root_version E L topic part (view s))))
      (directory_of lm) ps" for ps
  proof -
    have "directory_holds ?H L topic part (lm_next_offset lm) (?v s) (directory_of lm) ps"
      using haven_directory [where view = view and garbage = garbage and s = s, OF that] by (simp add: sheltered_same)
    from plan_retried [OF log_legalD(2) [OF haven_legal [OF F]] n check_batches_full [OF check] run none this] result
    show ?thesis by blast
  qed
  with retries show ?thesis unfolding all_retried_def by blast
qed

lemma fence_names: "fence_legal E L topic part view rely epoch garbage \<Longrightarrow> append_names E L topic part"
  using fence_legalD(2,3) unfolding append_names_def by blast

lemma fenced_attempt:
  assumes F: "fence_legal E L topic part view rely epoch garbage" and from0: "prepares E L topic part rely m0 (view s)"
    and check: "check_batches E batches [] 0 = Inr (fps, total_bytes)" and ne: "batches \<noteq> []"
    and run: "append_attempt E L topic part batches fps now s = (Inr (Some result), t)"
  shows "fenced_done E L topic part rely garbage batches m0 result (view t)"
proof -
  note laws = fence_legalD(1) [OF F]
  note loaded = loading_prepares [OF laws from0]
  have fps: "length fps = length batches" using check_batches_length [OF check] by simp
  from run show ?thesis
  proof (cases rule: append_attempt_cases)
    case (retries l s1)
    note l = loaded [OF retries(1)]
    note none = prepare_append_None [OF laws fps ne retries(2)]
    have "root_version E L topic part (view t) = root_version E L topic part (view s1) \<longrightarrow>
        all_retried E L topic part (view s1 |` (- garbage (root_version E L topic part (view s1)))) (ld_manifest l) batches fps result"
      using fenced_retries [OF F check current_next_offset [OF l(2)] retries(2)] none by blast
    with none l check show ?thesis unfolding fenced_done_def by blast
  next
    case (commits l s1 r root u)
    let ?lm = "ld_manifest l" and ?p = "manifest_path E L topic part" and ?safe = "- garbage (root_version E L topic part (view s1))"
    note l = loaded [OF commits(1)]
    from commit_root_Some [OF laws fence_legalD(6) [OF F] commits(3)] obtain w v b where
      r: "result = r" and w: "rely (view u) (view w)" "map_option fst (view w ?p) = ld_version l"
      "view t = (view w)(?p \<mapsto> (v, b))"
      and valid: "validate_root (w_uuid_ok E) root (en_prefix L) topic part = Inr ()"
      and curt: "current_manifest E L topic part (view t) = Some (Indexed root)" by blast
    have "prepares E L topic part rely (view s1) (view u)"
      by (rule preparesI [OF prepare_append_creates_at [OF append_names_creates [OF laws fence_names [OF F]]] commits(2)])
    then have sw: "prepares E L topic part rely (view s1) (view w)" using w(1) by (rule prepares.others)
    have same: "view w ?p = view s1 ?p" by (rule same_version_same_object [OF laws]) (use w(2) l(3) in simp)
    note commit = fenced_commit [OF F check commits(1,2) w valid refl]
    have held: "(\<forall>p \<in> ?safe. immutable_name (engine_dir L topic part) p \<longrightarrow> view s1 p \<noteq> None \<longrightarrow> view t p = view s1 p)
        \<and> (\<exists>new. extends_log E L topic part (view t |` ?safe) ?lm batches xs result root new
            \<and> tiles (lm_next_offset ?lm) new (rt_next_offset root)
            \<and> answered_as_decided E L topic part (view s1 |` ?safe) (view t |` ?safe) ?lm batches fps result new)"
      if "manifest_holds E L topic part (view s1 |` ?safe) ?lm xs" for xs
      using commit(1) [OF that] commit(2) [OF that] unfolding r by blast
    show ?thesis
      unfolding fenced_done_def
      by (rule exI [of _ fps], rule exI [of _ total_bytes], rule exI [of _ "view s1"], rule exI [of _ ?lm], rule exI [of _ ?safe],
          intro conjI disjI2)
        (use check l sw same w(3) curt held in blast)+
  qed
qed

interpretation fenced_appending: retry_body "append_attempt E L topic part batches fps now"
  "\<lambda>s. fence_legal E L topic part view rely epoch garbage
        \<and> (\<exists>total_bytes. check_batches E batches [] 0 = Inr (fps, total_bytes)) \<and> batches \<noteq> []
        \<and> prepares E L topic part rely m0 (view s)"
  "\<lambda>result t. fenced_done E L topic part rely garbage batches m0 result (view t)"
  "\<lambda>e t. True"
  for E :: "('s, 'm) log_env_scheme" and L topic part view rely epoch garbage batches fps now m0
proof unfold_locales
  fix s t
  assume inv: "fence_legal E L topic part view rely epoch garbage
        \<and> (\<exists>total_bytes. check_batches E batches [] 0 = Inr (fps, total_bytes)) \<and> batches \<noteq> []
        \<and> prepares E L topic part rely m0 (view s)"
    and run: "append_attempt E L topic part batches fps now s = (Inr None, t)"
  from inv append_attempt_again [OF fence_legalD(1) fence_names run] have "prepares E L topic part rely (view s) (view t)" by blast
  with inv prepares_trans show "fence_legal E L topic part view rely epoch garbage
        \<and> (\<exists>total_bytes. check_batches E batches [] 0 = Inr (fps, total_bytes)) \<and> batches \<noteq> []
        \<and> prepares E L topic part rely m0 (view t)" by metis
qed (auto intro: fenced_attempt)

lemma append_batches_fenced:
  assumes F: "fence_legal E L topic part view rely epoch garbage"
    and run: "append_batches E L topic part batches s = (Inr result, t)"
  shows "fenced_done E L topic part rely garbage batches (view s) result (view t)"
proof -
  from append_batches_loop [OF fence_legalD(1) [OF F] fence_names [OF F] run] obtain fps total_bytes now v where
    "check_batches E batches [] 0 = Inr (fps, total_bytes)" "batches \<noteq> []" "prepares E L topic part rely (view s) (view v)"
    and loop: "retry MAX_CAS_ATTEMPTS (ContentionExhausted MAX_CAS_ATTEMPTS)
        (append_attempt E L topic part batches fps now) v = (Inr result, t)" .
  then show ?thesis using fenced_appending.retry_post [OF _ loop] F by blast
qed

text \<open>C3 (append_fenced). An append stays correct beside maintenance that deletes objects, if
  maintenance respects the fence. The store is lawful; root versions are numbered; and while the
  root stays, other clients delete nothing but garbage of that root, objects that no reachable page or
  segment uses. Then a successful append changes the bucket only by creating objects of its own under
  new names and, if it adds a batch, by replacing the very root object it loaded. If the log was
  readable at that moment without the garbage, everything but the garbage is still there at
  the end, and the new root denotes all old segments followed by the new ones, whose objects hold the
  batches, again without the garbage. Which batches are new and what is answered is
  decided by the producer states of the loaded root, also when all batches are retries and the root has not moved
  meanwhile.\<close>

theorem append_fenced:
  assumes "fence_legal E L topic part view rely epoch garbage"
    and "append_batches E L topic part batches s = (Inr result, t)"
  shows "fenced_done E L topic part rely garbage batches (view s) result (view t)"
  using assms by (rule append_batches_fenced)

end
