(* ===== verification/Memory_Store.thy ===== *)
theory Memory_Store
  imports Log_Fence_Laws
begin

text \<open>
  A bucket in memory for one client: a list of objects and a counter for fresh names. It is the
  concrete instance at which the properties over an arbitrary lawful environment are applied.
  Versions are e-tags made of the body, names are used as they are, the clock stands still, and
  JSON is a table: a value is encoded as its one-byte index among the values the table lists and
  has no encoding otherwise.
\<close>

section \<open>The bucket\<close>

type_synonym mem = "(string \<times> bytes) list \<times> nat"

definition body_tag :: "bytes \<Rightarrow> update_version" where
  "body_tag b = UpdateVersion (Some (map (\<lambda>w. char_of (unat w)) b)) None"

definition mem_view :: "mem \<Rightarrow> objects" where
  "mem_view s p = map_option (\<lambda>b. (body_tag b, b)) (map_of (fst s) p)"

definition mem_get :: "string \<Rightarrow> (mem, store_error, get_result) io" where
  "mem_get p s =
     (case map_of (fst s) p of
        None \<Rightarrow> (Inl NotFound, s)
      | Some b \<Rightarrow> (Inr \<lparr>gr_size = length b, gr_version = body_tag b, gr_chunks = [Inr b]\<rparr>, s))"

definition mem_put :: "string \<Rightarrow> bytes \<Rightarrow> put_mode \<Rightarrow> (mem, store_error, update_version) io" where
  "mem_put p b mode s =
     (case mode of
        Create \<Rightarrow>
          (case map_of (fst s) p of
             None \<Rightarrow> (Inr (body_tag b), ((p, b) # fst s, snd s))
           | Some _ \<Rightarrow> (Inl AlreadyExists, s))
      | Update v \<Rightarrow>
          (case map_of (fst s) p of
             None \<Rightarrow> (Inl Precondition, s)
           | Some b' \<Rightarrow>
               if body_tag b' = v then (Inr (body_tag b), ((p, b) # fst s, snd s))
               else (Inl Precondition, s)))"

definition mem_head :: "string \<Rightarrow> (mem, store_error, nat) io" where
  "mem_head p s = (case map_of (fst s) p of None \<Rightarrow> (Inl NotFound, s) | Some b \<Rightarrow> (Inr (length b), s))"

definition mem_delete :: "string \<Rightarrow> (mem, store_error, unit) io" where
  "mem_delete p s =
     (case map_of (fst s) p of
        None \<Rightarrow> (Inl NotFound, s)
      | Some _ \<Rightarrow> (Inr (), (filter (\<lambda>(q, _). q \<noteq> p) (fst s), snd s)))"

definition mem_list :: "string \<Rightarrow> mem \<Rightarrow> (store_error + string \<times> nat) list \<times> mem" where
  "mem_list p s =
     (map (\<lambda>q. Inr (q, case map_of (fst s) q of None \<Rightarrow> 0 | Some b \<Rightarrow> length b))
        (filter (starts_with p) (remdups (map fst (fst s)))), s)"

definition mem_list_prefixes :: "string \<Rightarrow> (mem, store_error, string list) io" where
  "mem_list_prefixes p s =
     (Inr (remdups (map (\<lambda>q. p @ ''/'' @ hd (split_on (CHR ''/'') (drop (length p + 1) q)))
        (filter (starts_with (p @ ''/'')) (map fst (fst s))))), s)"

definition mem_uuid :: "mem \<Rightarrow> string \<times> mem" where
  "mem_uuid s = (replicate (Suc (snd s)) (CHR ''u''), (fst s, Suc (snd s)))"

section \<open>Tables for JSON\<close>

definition table_to :: "'a list \<Rightarrow> 'a \<Rightarrow> string + bytes" where
  "table_to xs x =
     (case position ((=) x) xs of
        None \<Rightarrow> Inl ''not in the table''
      | Some i \<Rightarrow> if i < 256 then Inr [of_nat i] else Inl ''not in the table'')"

definition table_from :: "'a list \<Rightarrow> bytes \<Rightarrow> 'a option" where
  "table_from xs b =
     (case b of [c] \<Rightarrow> if unat c < length xs then Some (xs ! unat c) else None | _ \<Rightarrow> None)"

lemma table_inverse: "table_to xs x = Inr b \<Longrightarrow> table_from xs b = Some x"
  by (auto simp: table_to_def table_from_def unat_of_nat split: option.splits if_splits dest!: position_Some)

record tables =
  tb_metadata :: "topic_metadata list"
  tb_allocators :: "allocator list"
  tb_roots :: "root list"
  tb_pages :: "page list"
  tb_producer_pages :: "producer_page list"

record codecs =
  cd_encode :: "kafka_record list \<Rightarrow> string + bytes"
  cd_info :: "bytes \<Rightarrow> string + batch_info list \<times> bytes"
  cd_all :: "bytes \<Rightarrow> string + kafka_record list list \<times> bytes"
  cd_headers :: "kafka_record \<Rightarrow> nat"

definition from_table :: "'a list \<Rightarrow> bytes \<Rightarrow> string + 'a" where
  "from_table xs b = ok_or (table_from xs b) ''not in the table''"

definition page_visited ::
  "(segment json_seq \<Rightarrow> string + segment list) \<Rightarrow> (page_ref json_seq \<Rightarrow> string + page_ref list) \<Rightarrow> page \<Rightarrow> string + page" where
  "page_visited vs vc p =
     (case p of
        Leaf sgs \<Rightarrow> attempt (vs (json_seq_of sgs)) (\<lambda>sgs. Inr (Leaf sgs))
      | Branch cs \<Rightarrow> attempt (vc (json_seq_of cs)) (\<lambda>cs. Inr (Branch cs)))"

definition producer_page_visited ::
  "(batch_identity json_seq \<Rightarrow> string + batch_identity list) \<Rightarrow> (producer_state json_seq \<Rightarrow> string + producer_state list)
   \<Rightarrow> (producer_ref json_seq \<Rightarrow> string + producer_ref list) \<Rightarrow> producer_page \<Rightarrow> string + producer_page" where
  "producer_page_visited vb vp vc p =
     (case p of
        PLeaf ps \<Rightarrow>
          attempt (try_all (\<lambda>q. attempt (vb (json_seq_of (ps_batches q))) (\<lambda>bs.
            ensure (bs = ps_batches q) ''changed'')) ps) (\<lambda>_.
          attempt (vp (json_seq_of ps)) (\<lambda>ps. Inr (PLeaf ps)))
      | PBranch cs \<Rightarrow> attempt (vc (json_seq_of cs)) (\<lambda>cs. Inr (PBranch cs)))"

definition mem_env :: "tables \<Rightarrow> codecs \<Rightarrow> mem log_env" where
  "mem_env T C =
     \<lparr>w_get = mem_get, w_put = mem_put, w_head = mem_head, w_delete = mem_delete, w_list = mem_list,
      w_list_prefixes = mem_list_prefixes, w_path_from = id, w_path_parse = Inr, w_new_uuid = mem_uuid,
      w_uuid_ok = (\<lambda>u. u \<noteq> []), w_unix_millis = (\<lambda>s. (Some 1000, s)), w_sha256_hex = (\<lambda>_. zero_checksum),
      le_metadata_to_vec = table_to (tb_metadata T), le_metadata_from_slice = from_table (tb_metadata T),
      le_schema_from_slice = (\<lambda>b. attempt (from_table (tb_roots T) b) (\<lambda>r. Inr (rt_schema r))),
      le_manifest_from_slice = (\<lambda>_ _. Inl ''not in the table''),
      le_root_to_vec = table_to (tb_roots T),
      le_root_from_slice = (\<lambda>v b. attempt (from_table (tb_roots T) b) (\<lambda>r.
        attempt (v (json_seq_of (rt_tail r))) (\<lambda>sgs. Inr (r\<lparr>rt_tail := sgs\<rparr>)))),
      le_page_to_vec = table_to (tb_pages T),
      le_page_from_slice = (\<lambda>vs vc b. attempt (from_table (tb_pages T) b) (page_visited vs vc)),
      le_producer_page_to_vec = table_to (tb_producer_pages T),
      le_producer_page_from_slice = (\<lambda>vb vp vc b. attempt (from_table (tb_producer_pages T) b) (producer_page_visited vb vp vc)),
      le_allocator_to_vec = table_to (tb_allocators T), le_allocator_from_slice = from_table (tb_allocators T),
      le_encode_batches = cd_encode C, le_decode_batch_info = cd_info C, le_decode_all = cd_all C,
      le_headers_len = cd_headers C\<rparr>"

lemma mem_env_simps [simp]:
  "w_get (mem_env T C) = mem_get" "w_put (mem_env T C) = mem_put" "w_head (mem_env T C) = mem_head"
  "w_delete (mem_env T C) = mem_delete" "w_list (mem_env T C) = mem_list"
  "w_list_prefixes (mem_env T C) = mem_list_prefixes" "w_path_from (mem_env T C) x = x"
  "w_path_parse (mem_env T C) = Inr" "w_new_uuid (mem_env T C) = mem_uuid"
  "w_uuid_ok (mem_env T C) = (\<lambda>u. u \<noteq> [])" "w_unix_millis (mem_env T C) s = (Some 1000, s)"
  "w_sha256_hex (mem_env T C) b = zero_checksum"
  "le_metadata_to_vec (mem_env T C) = table_to (tb_metadata T)"
  "le_metadata_from_slice (mem_env T C) = from_table (tb_metadata T)"
  "le_root_to_vec (mem_env T C) = table_to (tb_roots T)"
  "le_schema_from_slice (mem_env T C) b = attempt (from_table (tb_roots T) b) (\<lambda>r. Inr (rt_schema r))"
  "le_root_from_slice (mem_env T C) v b = attempt (from_table (tb_roots T) b) (\<lambda>r.
        attempt (v (json_seq_of (rt_tail r))) (\<lambda>sgs. Inr (r\<lparr>rt_tail := sgs\<rparr>)))"
  "le_page_to_vec (mem_env T C) = table_to (tb_pages T)"
  "le_page_from_slice (mem_env T C) vs vc b = attempt (from_table (tb_pages T) b) (page_visited vs vc)"
  "le_producer_page_to_vec (mem_env T C) = table_to (tb_producer_pages T)"
  "le_producer_page_from_slice (mem_env T C) vb vp vc' b = attempt (from_table (tb_producer_pages T) b) (producer_page_visited vb vp vc')"
  "le_allocator_to_vec (mem_env T C) = table_to (tb_allocators T)"
  "le_allocator_from_slice (mem_env T C) = from_table (tb_allocators T)"
  "le_encode_batches (mem_env T C) = cd_encode C" "le_decode_batch_info (mem_env T C) = cd_info C"
  "le_decode_all (mem_env T C) = cd_all C" "le_headers_len (mem_env T C) = cd_headers C"
  by (simp_all add: mem_env_def)

section \<open>Its laws\<close>

lemma body_tag_inj: "body_tag a = body_tag b \<Longrightarrow> a = b"
proof -
  have "map (\<lambda>c. of_nat (of_char c)) (map (\<lambda>w. char_of (unat w)) x) = x" for x :: bytes
  proof (induction x)
    case (Cons w x)
    have "unat w < 2 ^ 8" using unsigned_less [of w] by simp
    then have "unat w < 256" by simp
    with Cons show ?case by simp
  qed simp
  moreover assume "body_tag a = body_tag b"
  ultimately show "a = b" unfolding body_tag_def by (metis option.inject update_version.inject)
qed

lemma mem_view_put: "map_of m p = Some b \<Longrightarrow> mem_view (m, k) p = Some (body_tag b, b)"
  by (simp add: mem_view_def)

lemma mem_store_laws: "store_laws (mem_env T C) mem_view (=)"
  unfolding store_laws_def
proof (intro conjI allI impI)
  show "reflp ((=) :: objects \<Rightarrow> _)" "transp ((=) :: objects \<Rightarrow> _)" by (simp_all add: reflp_def transp_def)
next
  fix s s' p v b b'
  assume "mem_view s p = Some (v, b)" "mem_view s' p = Some (v, b')"
  then show "b = b'" by (auto simp: mem_view_def dest: body_tag_inj)
next
  fix p s r t assume "w_get (mem_env T C) p s = (r, t)"
  then show "mem_view s = mem_view t" "get_outcome (mem_view t p) r"
    by (auto simp: mem_get_def mem_view_def get_outcome_def split: option.splits)
next
  fix p s r t assume "w_head (mem_env T C) p s = (r, t)"
  then show "mem_view s = mem_view t" "head_outcome (mem_view t p) r"
    by (auto simp: mem_head_def mem_view_def head_outcome_def split: option.splits)
next
  fix p b mode s r t assume "w_put (mem_env T C) p b mode s = (r, t)"
  then have "put_outcome p b mode r (mem_view s) (mem_view t)"
    by (auto simp: mem_put_def mem_view_def put_outcome_def put_allowed_def fun_eq_iff
        split: option.splits put_mode.splits if_splits)
  then show "\<exists>u. mem_view s = mem_view u \<and> put_outcome p b mode r (mem_view u) (mem_view t)" by blast
next
  fix p s r t assume "w_delete (mem_env T C) p s = (r, t)"
  moreover have "map_of (filter (\<lambda>(q, _). q \<noteq> p) m) = (map_of m)(p := None)" for m :: "(string \<times> bytes) list"
    by (induction m) (auto simp: fun_eq_iff)
  ultimately have "delete_outcome p r (mem_view s) (mem_view t)"
    by (auto simp: mem_delete_def mem_view_def delete_outcome_def fun_eq_iff split: option.splits)
  then show "\<exists>u. mem_view s = mem_view u \<and> delete_outcome p r (mem_view u) (mem_view t)" by blast
qed (simp_all add: mem_list_def mem_list_prefixes_def mem_uuid_def mem_view_def fun_eq_iff)

lemma mem_name_laws: "name_laws (mem_env T C) L topic part"
  by (simp add: name_laws_def mem_uuid_def)

lemma mem_parse_laws: "parse_laws (mem_env T C) L topic part"
  by (simp add: parse_laws_def)

lemma mem_json_laws:
  "page_json_laws (mem_env T C)" "producer_page_json_laws (mem_env T C)" "root_json_laws (mem_env T C)"
  "small_json_laws (mem_env T C)"
  by (auto simp: page_json_laws_def producer_page_json_laws_def root_json_laws_def small_json_laws_def
      from_table_def page_visited_def producer_page_visited_def result_simps
      dest: table_inverse split: page.splits producer_page.splits)

lemma mem_log_legal: "log_legal (mem_env T C) L topic part mem_view (=)"
  by (simp add: log_legal_def index_legal_def mem_store_laws mem_name_laws mem_json_laws)

lemmas mem_legal = mem_log_legal log_legalD(1,2) [OF mem_log_legal]

end
