(* ===== verification/Producer_Ids.thy ===== *)
theory Producer_Ids
  imports Producer_Directory_Laws
begin

text \<open>
  The allocator of producer IDs, when several brokers use it at the same time. The bucket has one
  history: a state per instant, one step to the next. Each broker sees it through its own calls,
  which other brokers' steps come before, between and in the middle of. An ID is taken by the one step
  of the history that moves the counter from this ID to the next, and each step is one PUT of
  one broker; so no two allocations return the same ID, however they overlap.
\<close>

section \<open>The counter\<close>

text \<open>The next ID that an allocator object promises not to have given out yet.\<close>

definition next_free_id :: "('s, 'm) log_env_scheme \<Rightarrow> engine \<Rightarrow> objects \<Rightarrow> int" where
  "next_free_id E L m =
     (case m (allocator_path E L) of
        None \<Rightarrow> 0
      | Some (v, b) \<Rightarrow> (case le_allocator_from_slice E b of Inl _ \<Rightarrow> 0 | Inr a \<Rightarrow> al_next_id a))"

lemma allocator_load_pure: "allocator_load E got s = (x, t) \<Longrightarrow> t = s"
  by (auto simp: allocator_load_def io_body_def io_bind_def map_err_def
      split: sum.splits store_error.splits prod.splits if_splits)

section \<open>One history\<close>

text \<open>A version, wherever and whenever it is seen, is that of one body.\<close>

definition versions_identify :: "(nat \<Rightarrow> objects) \<Rightarrow> bool" where
  "versions_identify h \<longleftrightarrow> (\<forall>i j p v b b'. h i p = Some (v, b) \<longrightarrow> h j p = Some (v, b') \<longrightarrow> b = b')"

text \<open>
  A client of the bucket with history \<open>h\<close>: \<open>at\<close> is the instant its world has reached and \<open>own\<close> the set
  of the steps that are its own. A GET answers from an instant between its start and its end and
  takes no step. A PUT takes at most one step, at an instant at which its condition holds, and
  does not report success without it; its response may get lost.
\<close>

definition takes_part ::
  "('s, 'm) world_scheme \<Rightarrow> (nat \<Rightarrow> objects) \<Rightarrow> ('s \<Rightarrow> nat) \<Rightarrow> nat set \<Rightarrow> bool" where
  "takes_part W h at own \<longleftrightarrow>
     (\<forall>p s r t. w_get W p s = (r, t) \<longrightarrow>
        at s \<le> at t \<and> own \<inter> {at s..<at t} = {} \<and> (\<exists>i. at s \<le> i \<and> i \<le> at t \<and> get_outcome (h i p) r))
   \<and> (\<forall>p b mode s r t. w_put W p b mode s = (r, t) \<longrightarrow>
        at s \<le> at t \<and>
        (own \<inter> {at s..<at t} = {} \<and> (\<forall>v. r \<noteq> Inr v)
         \<or> (\<exists>i v. own \<inter> {at s..<at t} = {i} \<and> put_allowed mode (h i p) \<and> h (Suc i) = (h i)(p \<mapsto> (v, b))
              \<and> (r = Inr v \<or> (\<exists>e. r = Inl (OtherError e))))))"

lemma takes_part_get:
  "takes_part W h at own \<Longrightarrow> w_get W p s = (r, t) \<Longrightarrow>
   at s \<le> at t \<and> own \<inter> {at s..<at t} = {} \<and> (\<exists>i. get_outcome (h i p) r)"
  unfolding takes_part_def by meson

lemma takes_part_put:
  assumes "takes_part W h at own" "w_put W p b mode s = (r, t)"
  shows "at s \<le> at t \<and>
   (own \<inter> {at s..<at t} = {} \<and> (\<forall>v. r \<noteq> Inr v)
    \<or> (\<exists>i v. own \<inter> {at s..<at t} = {i} \<and> put_allowed mode (h i p) \<and> h (Suc i) = (h i)(p \<mapsto> (v, b))))"
proof -
  from assms(1) have "\<forall>p b mode s r t. w_put W p b mode s = (r, t) \<longrightarrow>
        at s \<le> at t \<and>
        (own \<inter> {at s..<at t} = {} \<and> (\<forall>v. r \<noteq> Inr v)
         \<or> (\<exists>i v. own \<inter> {at s..<at t} = {i} \<and> put_allowed mode (h i p) \<and> h (Suc i) = (h i)(p \<mapsto> (v, b))
              \<and> (r = Inr v \<or> (\<exists>e. r = Inl (OtherError e)))))"
    unfolding takes_part_def by (rule conjunct2)
  note law = this [rule_format, OF assms(2)]
  from law [THEN conjunct2] show ?thesis
  proof (elim disjE)
    assume "own \<inter> {at s..<at t} = {} \<and> (\<forall>v. r \<noteq> Inr v)"
    with law [THEN conjunct1] show ?thesis by simp
  next
    assume "\<exists>i v. own \<inter> {at s..<at t} = {i} \<and> put_allowed mode (h i p) \<and> h (Suc i) = (h i)(p \<mapsto> (v, b))
              \<and> (r = Inr v \<or> (\<exists>e. r = Inl (OtherError e)))"
    with law [THEN conjunct1] show ?thesis by metis
  qed
qed

text \<open>
  What the own steps between two instants do to a counter: each moves it by one. The step from \<open>n\<close> to
  \<open>n + 1\<close> is the one that takes the ID \<open>n\<close>.
\<close>

definition only_counts :: "(nat \<Rightarrow> int) \<Rightarrow> nat set \<Rightarrow> bool" where
  "only_counts c steps \<longleftrightarrow> (\<forall>i \<in> steps. c (Suc i) = c i + 1)"

definition takes :: "(nat \<Rightarrow> int) \<Rightarrow> nat set \<Rightarrow> int \<Rightarrow> bool" where
  "takes c steps n \<longleftrightarrow> (\<exists>i \<in> steps. c i = n)"

lemma no_steps [simp]: "only_counts c {}" "\<not> takes c {} n"
  by (simp_all add: only_counts_def takes_def)

lemma steps_join:
  fixes i j k :: nat
  assumes "i \<le> j" "j \<le> k"
  shows "only_counts c (own \<inter> {i..<j}) \<Longrightarrow> only_counts c (own \<inter> {j..<k}) \<Longrightarrow> only_counts c (own \<inter> {i..<k})"
    and "takes c (own \<inter> {j..<k}) n \<Longrightarrow> takes c (own \<inter> {i..<k}) n"
proof -
  have "own \<inter> {i..<k} = (own \<inter> {i..<j}) \<union> (own \<inter> {j..<k})" using assms by auto
  then show "only_counts c (own \<inter> {i..<j}) \<Longrightarrow> only_counts c (own \<inter> {j..<k}) \<Longrightarrow> only_counts c (own \<inter> {i..<k})"
    and "takes c (own \<inter> {j..<k}) n \<Longrightarrow> takes c (own \<inter> {i..<k}) n"
    by (auto simp: only_counts_def takes_def)
qed

section \<open>One allocation\<close>

text \<open>At an instant at which the condition holds, the counter is still the loaded one.\<close>

lemma allocator_load_current:
  assumes versions: "versions_identify h" and seen: "get_outcome (h j (allocator_path E L)) got"
    and load: "allocator_load E got s = (Inr (pid, mode), s')"
    and allowed: "put_allowed mode (h i (allocator_path E L))"
  shows "next_free_id E L (h i) = pid"
proof (cases got)
  case (Inl e)
  with load have "pid = 0" "mode = Create"
    by (auto simp: allocator_load_def split: store_error.splits)
  with allowed show ?thesis by (simp add: put_allowed_def next_free_id_def)
next
  case (Inr g)
  with load obtain b a where
    b: "collect_bounded (gr_chunks g) MAX_TOPIC_METADATA_BYTES [] = Inr b" "le_allocator_from_slice E b = Inr a"
    and pid: "pid = al_next_id a" "mode = Update (gr_version g)"
    by (auto simp: allocator_load_def result_simps split: if_splits)
  obtain b1 where b1: "h j (allocator_path E L) = Some (gr_version g, b1)" "delivers (gr_chunks g) b1"
    using seen Inr by (auto simp: get_outcome_def split: option.splits)
  obtain b2 where b2: "h i (allocator_path E L) = Some (gr_version g, b2)"
    using allowed pid(2) by (auto simp: put_allowed_def)
  have "b1 = b" using collect_bounded_delivers [OF b(1) b1(2)] by simp
  moreover have "b1 = b2" using versions b1(1) b2 unfolding versions_identify_def by blast
  ultimately show ?thesis using b2 b(2) pid(1) by (simp add: next_free_id_def)
qed

lemma allocator_publish_takes:
  assumes client: "takes_part E h at own" and json: "small_json_laws E"
    and current: "\<And>i. put_allowed mode (h i (allocator_path E L)) \<Longrightarrow> next_free_id E L (h i) = pid"
    and run: "allocator_publish E L pid mode s = (x, t)"
  shows "at s \<le> at t \<and> only_counts (\<lambda>i. next_free_id E L (h i)) (own \<inter> {at s..<at t})
    \<and> (\<forall>n. x = Inr (Some n) \<longrightarrow> takes (\<lambda>i. next_free_id E L (h i)) (own \<inter> {at s..<at t}) n)"
proof (cases "\<exists>b. le_allocator_to_vec E \<lparr>al_schema = 1, al_next_id = pid + 1\<rparr> = Inr b \<and> in_i64 (pid + 1)")
  case False
  then have "t = s \<and> (\<forall>y. x \<noteq> Inr y)"
    using run by (auto simp: allocator_publish_def io_bind_def io_json_def ok_or_def map_err_def
        checked_add_i64_def split: sum.splits option.splits if_splits)
  then show ?thesis by simp
next
  case True
  then obtain b where b: "le_allocator_to_vec E \<lparr>al_schema = 1, al_next_id = pid + 1\<rparr> = Inr b" "in_i64 (pid + 1)"
    by blast
  obtain put where put: "w_put E (allocator_path E L) b mode s = (put, t)"
    and x: "\<forall>got. x = Inr (Some got) \<longrightarrow> got = pid \<and> (\<exists>v. put = Inr v)"
    using run b by (auto simp: allocator_publish_def io_bind_def io_json_def io_try_def checked_add_i64_def
        split: prod.splits sum.splits store_error.splits)
  have read_back: "le_allocator_from_slice E b = Inr \<lparr>al_schema = 1, al_next_id = pid + 1\<rparr>"
    using json b(1) by (auto simp: small_json_laws_def)
  note step = takes_part_put [OF client put]
  from step show ?thesis
  proof (elim conjE disjE exE)
    assume "at s \<le> at t" "own \<inter> {at s..<at t} = {}" "\<forall>v. put \<noteq> Inr v"
    with x show ?thesis by auto
  next
    fix i v
    assume i: "at s \<le> at t" "own \<inter> {at s..<at t} = {i}" "put_allowed mode (h i (allocator_path E L))"
      "h (Suc i) = (h i)(allocator_path E L \<mapsto> (v, b))"
    have "next_free_id E L (h (Suc i)) = pid + 1" using read_back i(4) by (simp add: next_free_id_def)
    with current [OF i(3)] i(1,2) x show ?thesis by (simp add: only_counts_def takes_def)
  qed
qed

lemma allocate_attempt_takes:
  assumes client: "takes_part E h at own" and json: "small_json_laws E" and versions: "versions_identify h"
    and run: "allocate_attempt E L s = (x, t)"
  shows "at s \<le> at t \<and> only_counts (\<lambda>i. next_free_id E L (h i)) (own \<inter> {at s..<at t})
    \<and> (\<forall>n. x = Inr (Some n) \<longrightarrow> takes (\<lambda>i. next_free_id E L (h i)) (own \<inter> {at s..<at t}) n)"
proof -
  obtain got s1 where got: "w_get E (allocator_path E L) s = (got, s1)" by force
  from takes_part_get [OF client got] obtain j where g: "at s \<le> at s1" "own \<inter> {at s..<at s1} = {}"
    and seen: "get_outcome (h j (allocator_path E L)) got" by blast
  obtain r s2 where load: "allocator_load E got s1 = (r, s2)" by force
  have s2: "s2 = s1" by (rule allocator_load_pure [OF load])
  show ?thesis
  proof (cases r)
    case (Inl e)
    with run got load s2 have "t = s1" "\<forall>n. x \<noteq> Inr (Some n)" by (auto simp: allocate_attempt_def io_bind_def io_try_def)
    with g show ?thesis by simp
  next
    case (Inr pm)
    obtain pid mode where pm: "pm = (pid, mode)" by force
    have pub: "allocator_publish E L pid mode s1 = (x, t)"
      using run got load s2 Inr pm by (simp add: allocate_attempt_def io_bind_def io_try_def)
    note current = allocator_load_current [OF versions seen load [unfolded Inr pm]]
    from allocator_publish_takes [OF client json current pub] have
      p: "at s1 \<le> at t" "only_counts (\<lambda>i. next_free_id E L (h i)) (own \<inter> {at s1..<at t})"
        "\<forall>n. x = Inr (Some n) \<longrightarrow> takes (\<lambda>i. next_free_id E L (h i)) (own \<inter> {at s1..<at t}) n" by blast+
    have "only_counts (\<lambda>i. next_free_id E L (h i)) (own \<inter> {at s..<at s1})" by (simp add: g(2))
    with p g(1) steps_join [OF g(1) p(1)] show ?thesis by simp
  qed
qed

interpretation allocation: retry_body "allocate_attempt E L"
  "\<lambda>s. takes_part E h at own \<and> small_json_laws E \<and> versions_identify h \<and> at s0 \<le> at s
     \<and> only_counts (\<lambda>i. next_free_id E L (h i)) (own \<inter> {at s0..<at s})"
  "\<lambda>pid t. at s0 \<le> at t \<and> only_counts (\<lambda>i. next_free_id E L (h i)) (own \<inter> {at s0..<at t})
     \<and> takes (\<lambda>i. next_free_id E L (h i)) (own \<inter> {at s0..<at t}) pid"
  "\<lambda>e t. at s0 \<le> at t \<and> only_counts (\<lambda>i. next_free_id E L (h i)) (own \<inter> {at s0..<at t})"
  for E :: "('s, 'm) log_env_scheme" and L h at own s0
proof (unfold_locales, goal_cases)
  case (1 s t)
  with allocate_attempt_takes [of E h at own L s "Inr None" t] steps_join(1) [of "at s0" "at s" "at t"] show ?case by simp
next
  case (2 s pid t)
  with allocate_attempt_takes [of E h at own L s "Inr (Some pid)" t] steps_join [of "at s0" "at s" "at t"] show ?case by simp
next
  case (3 s e t)
  with allocate_attempt_takes [of E h at own L s "Inl e" t] steps_join(1) [of "at s0" "at s" "at t"] show ?case by simp
qed

lemma allocation_takes:
  assumes "takes_part E h at own" "small_json_laws E" "versions_identify h"
    and run: "allocate_producer_id E L s = (x, t)"
  shows "at s \<le> at t" "only_counts (\<lambda>i. next_free_id E L (h i)) (own \<inter> {at s..<at t})"
    and "x = Inr n \<Longrightarrow> takes (\<lambda>i. next_free_id E L (h i)) (own \<inter> {at s..<at t}) n"
proof -
  have start: "takes_part E h at own \<and> small_json_laws E \<and> versions_identify h \<and> at s \<le> at s
     \<and> only_counts (\<lambda>i. next_free_id E L (h i)) (own \<inter> {at s..<at s})" using assms by simp
  note run' = run [unfolded allocate_producer_id_def]
  have "at s \<le> at t \<and> only_counts (\<lambda>i. next_free_id E L (h i)) (own \<inter> {at s..<at t})
      \<and> (x = Inr n \<longrightarrow> takes (\<lambda>i. next_free_id E L (h i)) (own \<inter> {at s..<at t}) n)"
  proof (cases x)
    case (Inl e)
    from allocation.retry_fails [OF start run' [unfolded Inl]] Inl show ?thesis by auto
  next
    case (Inr pid)
    from allocation.retry_post [OF start run' [unfolded Inr]] Inr show ?thesis by auto
  qed
  then show "at s \<le> at t" "only_counts (\<lambda>i. next_free_id E L (h i)) (own \<inter> {at s..<at t})"
    and "x = Inr n \<Longrightarrow> takes (\<lambda>i. next_free_id E L (h i)) (own \<inter> {at s..<at t}) n" by blast+
qed

section \<open>Many allocations\<close>

lemma counter_mono:
  fixes c :: "nat \<Rightarrow> int"
  assumes "\<And>i. c i \<le> c (Suc i)" "i \<le> j" shows "c i \<le> c j"
  using assms by (rule lift_Suc_mono_le)

lemma taken_apart:
  fixes c :: "nat \<Rightarrow> int"
  assumes "\<And>i. c i \<le> c (Suc i)" and "only_counts c A" "only_counts c B" "A \<inter> B = {}" "takes c A a" "takes c B b"
  shows "a \<noteq> b"
proof -
  from assms obtain i j where i: "i \<in> A" "c i = a" "c (Suc i) = a + 1" and j: "j \<in> B" "c j = b" "c (Suc j) = b + 1"
    by (auto simp: takes_def only_counts_def)
  with assms(4) consider "Suc i \<le> j" | "Suc j \<le> i" by (metis disjoint_iff linorder_neqE_nat Suc_leI)
  then show ?thesis
    using counter_mono [of c "Suc i" j] counter_mono [of c "Suc j" i] assms(1) i j by cases auto
qed

text \<open>C30 (producer_ids_fresh). Any number of allocations, by any brokers on one bucket, one after the other or overlapping in any way: no two
  that succeed return the same ID. An ID that is returned lies between the counter at the start of
  the allocation and the one at its end. The allocations may also fail, and a PUT of theirs may take effect although its
  response is lost; the steps that are none of theirs must not lower the counter.\<close>

theorem producer_ids_fresh:
  fixes E :: "'k \<Rightarrow> ('s, 'm) log_env_scheme" and at :: "'k \<Rightarrow> 's \<Rightarrow> nat" and own :: "'k \<Rightarrow> nat set"
  assumes versions: "versions_identify h"
    and clients: "\<And>k. k \<in> K \<Longrightarrow> takes_part (E k) h (at k) (own k) \<and> small_json_laws (E k)"
    and counter: "\<And>k. k \<in> K \<Longrightarrow> next_free_id (E k) (L k) = counter"
    and runs: "\<And>k. k \<in> K \<Longrightarrow> allocate_producer_id (E k) (L k) (s k) = (x k, t k)"
    and steps: "\<And>k. k \<in> K \<Longrightarrow> steps k = own k \<inter> {at k (s k)..<at k (t k)}"
    and apart: "\<And>k l. k \<in> K \<Longrightarrow> l \<in> K \<Longrightarrow> k \<noteq> l \<Longrightarrow> steps k \<inter> steps l = {}"
    and others: "\<And>i. \<forall>k \<in> K. i \<notin> steps k \<Longrightarrow> counter (h i) \<le> counter (h (Suc i))"
    and two: "k \<in> K" "l \<in> K" "k \<noteq> l" "x k = Inr a" "x l = Inr b"
  shows "a \<noteq> b \<and> counter (h (at k (s k))) \<le> a \<and> a < counter (h (at k (t k)))"
proof -
  let ?c = "\<lambda>i. counter (h i)"
  have took: "only_counts ?c (steps k)" "x k = Inr n \<Longrightarrow> takes ?c (steps k) n" if k: "k \<in> K" for k n
    using allocation_takes(2,3) [OF clients [OF k, THEN conjunct1] clients [OF k, THEN conjunct2] versions runs [OF k]]
    by (simp_all add: counter [OF k] steps [OF k])
  have mono: "?c i \<le> ?c (Suc i)" for i
  proof (cases "\<forall>k \<in> K. i \<notin> steps k")
    case True
    then show ?thesis by (rule others)
  next
    case False
    with took(1) show ?thesis by (auto simp: only_counts_def)
  qed
  have "a \<noteq> b"
    using taken_apart [OF mono took(1) [OF two(1)] took(1) [OF two(2)] apart [OF two(1-3)]] took(2) two by blast
  moreover obtain i where i: "i \<in> steps k" "?c i = a" "?c (Suc i) = a + 1"
    using took [OF two(1)] two(4) by (auto simp: takes_def only_counts_def)
  moreover have "?c (at k (s k)) \<le> ?c i" "?c (Suc i) \<le> ?c (at k (t k))"
    using i(1) steps [OF two(1)] by (auto intro!: counter_mono [of ?c, OF mono])
  ultimately show ?thesis by simp
qed

end
