(* ===== verification/Log_Witnesses.thy ===== *)
theory Log_Witnesses
  imports Memory_Store Producer_Ids
begin

text \<open>
  The properties of the index, of the producer directory and of the log applied to concrete
  buckets: each witness runs the modelled operation on a \<open>Memory_Store\<close> bucket and obtains
  the property's conclusion there.
\<close>

section \<open>Sample data\<close>

definition sample_engine :: engine where
  "sample_engine = \<lparr>en_prefix = ''p'', en_default_topic_partitions = 1\<rparr>"

lemmas io_eval = io_bind_def io_json_def io_call_def io_store_def io_map_err_def io_try_def Let_def
  mem_uuid_def mem_put_def mem_get_def mem_head_def MAX_MANIFEST_BYTES_def

lemma retry_unfold:
  "0 < n \<Longrightarrow> retry n e body s =
     (case body s of (Inl err, t) \<Rightarrow> (Inl err, t) | (Inr (Some x), t) \<Rightarrow> (Inr x, t) | (Inr None, t) \<Rightarrow> retry (n - 1) e body t)"
  by (cases n) (simp_all split: prod.splits sum.splits option.splits)

lemma show_int_0: "show_int 0 = ''0''"
  by (simp add: show_int_def show_nat.simps digit_char_def) code_simp

lemma sample_dirs:
  "en_prefix sample_engine = ''p''" "partition_dir ''p'' ''t'' 0 = ''p/topics/t/0/''"
  "engine_dir sample_engine ''t'' 0 = ''p/topics/t/0/''"
  by (simp_all add: sample_engine_def engine_dir_def partition_dir_def show_int_0)

definition no_codecs :: codecs where
  "no_codecs = \<lparr>cd_encode = (\<lambda>_. Inl ''none''), cd_info = (\<lambda>_. Inl ''none''), cd_all = (\<lambda>_. Inl ''none''),
     cd_headers = (\<lambda>_. 0)\<rparr>"

definition no_tables :: tables where
  "no_tables = \<lparr>tb_metadata = [], tb_allocators = [], tb_roots = [], tb_pages = [], tb_producer_pages = []\<rparr>"

definition sample_leaf :: "int \<Rightarrow> segment list" where
  "sample_leaf start = map (\<lambda>i. sample_segment (start + int i) 1 10) [0..<PAGE_ENTRIES]"

lemma length_sample_leaf [simp]: "length (sample_leaf start) = PAGE_ENTRIES"
  by (simp add: sample_leaf_def)

lemma sample_segment_fields [simp]:
  "sg_base_offset (sample_segment b c n) = b" "sg_record_count (sample_segment b c n) = c"
  "sg_byte_length (sample_segment b c n) = n" "sg_sha256 (sample_segment b c n) = zero_checksum"
  "sg_object (sample_segment b c n) = ''p/topics/t/0/segments/'' @ replicate (nat b) (CHR ''x'') @ ''.batch''"
  by (simp_all add: sample_segment_def)

lemma tiles_samples:
  "tiles (start + int k) (map (\<lambda>i. sample_segment (start + int i) 1 10) [k..<k + n]) (start + int (k + n))"
proof (induction n arbitrary: k)
  case (Suc n)
  have "[k..<k + Suc n] = k # [Suc k..<Suc k + n]" by (simp add: upt_conv_Cons)
  with Suc.IH [of "Suc k"] show ?case by (simp add: segment_end_def ac_simps)
qed simp

lemma sample_segment_ok:
  "0 \<le> b \<Longrightarrow> segment_ok ''p/topics/t/0/segments/'' (sample_segment b 1 10)"
  by (simp add: segment_ok_def MAX_BATCH_RECORDS_def MAX_BATCH_BYTES_def starts_with_iff ends_with_iff)

lemma validate_sample_leaf:
  assumes "0 \<le> start" "start \<le> 1000"
  shows "validate_segments (sample_leaf start) start ''p'' ''t'' 0 = Inr (start + 64)"
proof -
  have "in_i64 start" using assms by (simp add: range_simps)
  moreover have "tiles start (sample_leaf start) (start + 64)"
    using tiles_samples [of start 0 PAGE_ENTRIES] by (simp add: sample_leaf_def PAGE_ENTRIES_def)
  moreover have "distinct (map sg_object (sample_leaf start))"
    using assms(1) by (auto simp: sample_leaf_def distinct_map inj_on_def)
  moreover have "\<forall>sg \<in> set (sample_leaf start). segment_ok ''p/topics/t/0/segments/'' sg"
    using assms(1) sample_segment_ok by (auto simp: sample_leaf_def)
  moreover have "in_i64 (start + 64)" using assms by (simp add: range_simps)
  ultimately show ?thesis by (simp add: validate_segments_iff sample_dirs)
qed

definition sample_ref :: "string \<Rightarrow> int \<Rightarrow> page_ref" where
  "sample_ref name start =
     \<lparr>pr_object = ''p/topics/t/0/index/'' @ name @ ''.json'', pr_first_offset = start, pr_next_offset = start + 64,
      pr_segment_count = 64, pr_level = 0, pr_byte_length = 1, pr_sha256 = zero_checksum\<rparr>"

lemma page_capacity_0: "page_capacity 0 = 64"
  by (simp add: page_capacity_def checked_pow_u64_def PAGE_ENTRIES_def u64_max_def)

lemma page_name_sample: "name \<noteq> [] \<Longrightarrow> page_name_ok (\<lambda>u. u \<noteq> []) dir ''.json'' (dir @ name @ ''.json'')"
  unfolding page_name_ok_def strip_prefix_append option.case strip_suffix_append .

lemma validate_sample_ref:
  "name \<noteq> [] \<Longrightarrow> 0 \<le> start \<Longrightarrow> validate_page_ref (\<lambda>u. u \<noteq> []) (sample_ref name start) ''p'' ''t'' 0 = Inr ()"
  using page_name_sample [of name "''p/topics/t/0/index/''"]
  by (simp add: validate_page_ref_def sample_dirs sample_ref_def page_capacity_0 INDEX_MAX_LEVEL_def MAX_MANIFEST_BYTES_def)

section \<open>The index\<close>

definition index_tables :: tables where
  "index_tables = no_tables\<lparr>tb_pages :=
     [Leaf (sample_leaf 0), Leaf (sample_leaf 64), Branch [sample_ref ''a'' 0, sample_ref ''b'' 64]]\<rparr>"

abbreviation index_env :: "mem log_env" where
  "index_env \<equiv> mem_env index_tables no_codecs"

definition two_leaves :: mem where
  "two_leaves = ([(''p/topics/t/0/index/a.json'', [0]), (''p/topics/t/0/index/b.json'', [1])], 0)"

lemma sample_ref_fields [simp]:
  "pr_object (sample_ref name start) = ''p/topics/t/0/index/'' @ name @ ''.json''"
  "pr_first_offset (sample_ref name start) = start" "pr_next_offset (sample_ref name start) = start + 64"
  "pr_segment_count (sample_ref name start) = 64" "pr_level (sample_ref name start) = 0"
  "pr_byte_length (sample_ref name start) = 1" "pr_sha256 (sample_ref name start) = zero_checksum"
  by (simp_all add: sample_ref_def)

lemma stored_sample_leaf:
  assumes "table_from (tb_pages T) b = Some (Leaf (sample_leaf start))" "length b = 1"
    and "0 \<le> start" "start \<le> 1000" "name \<noteq> []"
    and "mem_view s (''p/topics/t/0/index/'' @ name @ ''.json'') = Some (v, b)"
  shows "index_stored (mem_env T C) sample_engine ''t'' 0 (mem_view s) (sample_ref name start) (Leaf (sample_leaf start))"
  using assms validate_sample_ref [of name start] validate_sample_leaf [of start]
  by (simp add: index_stored_def sample_dirs decode_page_def from_table_def page_visited_def entries_def PAGE_ENTRIES_def)

lemma holds_sample_leaf:
  assumes "index_stored E L topic part m r (Leaf sgs)"
  shows "index_holds E L topic part m r sgs"
proof -
  have "index_holds E L topic part m r (page_items (Leaf sgs) @ concat [])"
    by (rule denotes.node [where stored = "index_stored E L topic part m" and r = r and p = "Leaf sgs" and xss = "[]"])
      (use assms in simp_all)
  then show ?thesis by simp
qed

lemma two_leaves_hold:
  "index_holds index_env sample_engine ''t'' 0 (mem_view two_leaves) (sample_ref ''a'' 0) (sample_leaf 0)"
  "index_holds index_env sample_engine ''t'' 0 (mem_view two_leaves) (sample_ref ''b'' 64) (sample_leaf 64)"
  by (rule holds_sample_leaf, rule stored_sample_leaf [where b = "[0]"],
      simp_all add: index_tables_def table_from_def mem_view_def two_leaves_def)
    (rule holds_sample_leaf, rule stored_sample_leaf [where b = "[1]"],
      simp_all add: index_tables_def table_from_def mem_view_def two_leaves_def)

lemma sample_leaves_differ: "sample_leaf 64 \<noteq> sample_leaf 0"
proof
  assume "sample_leaf 64 = sample_leaf 0"
  from arg_cong [OF this, of "\<lambda>xs. sg_base_offset (hd xs)"] show False
    by (simp add: sample_leaf_def PAGE_ENTRIES_def upt_rec)
qed

lemma insert_two_leaves:
  "\<exists>r t. insert_leaf index_env sample_engine ''t'' 0 (sample_ref ''a'' 0) (sample_ref ''b'' 64) two_leaves = (Inr r, t)"
proof -
  have path: "index_path index_env sample_engine ''t'' 0 (sample_ref ''b'' 64) 0 two_leaves = (Inr (sample_ref ''b'' 64), two_leaves)"
    by (simp add: index_path.simps)
  have vec: "le_page_to_vec index_env (Branch [sample_ref ''a'' 0, sample_ref ''b'' 64]) = Inr [2]"
    by (simp add: index_tables_def table_to_def)
  have kids: "validate_children (\<lambda>u. u \<noteq> []) [sample_ref ''a'' 0, sample_ref ''b'' 64] ''p'' ''t'' 0 = Inr (0, 128, 128, 1)"
    using validate_sample_ref [of "''a''" 0] validate_sample_ref [of "''b''" 64]
    by (simp add: validate_children_def PAGE_ENTRIES_def INDEX_MAX_LEVEL_def checked_add_u64_def u64_max_def full_def page_capacity_0)
  have "page_capacity 1 = 4096" by (simp add: page_capacity_def checked_pow_u64_def PAGE_ENTRIES_def u64_max_def)
  then have ref: "validate_page_ref (\<lambda>u. u \<noteq> []) \<lparr>pr_object = ''p/topics/t/0/index/'' @ ''u'' @ ''.json'', pr_first_offset = 0,
      pr_next_offset = 128, pr_segment_count = 128, pr_level = 1, pr_byte_length = 1, pr_sha256 = zero_checksum\<rparr> ''p'' ''t'' 0 = Inr ()"
    using page_name_sample [of "''u''" "''p/topics/t/0/index/''"]
    by (simp add: validate_page_ref_def sample_dirs INDEX_MAX_LEVEL_def MAX_MANIFEST_BYTES_def)
  have "\<exists>r t. write_page index_env sample_engine ''t'' 0 (Branch [sample_ref ''a'' 0, sample_ref ''b'' 64]) two_leaves = (Inr r, t)"
    using kids vec ref
    by (simp add: write_page_def page_write_bounds_def sample_dirs io_eval two_leaves_def)
  then show ?thesis
    using path by (simp add: insert_leaf.simps full_def page_capacity_0 INDEX_MAX_LEVEL_def io_bind_def)
qed

theorem insert_leaf_appends_witness:
  "\<exists>r t. insert_leaf index_env sample_engine ''t'' 0 (sample_ref ''a'' 0) (sample_ref ''b'' 64) two_leaves = (Inr r, t)
    \<and> index_holds index_env sample_engine ''t'' 0 (mem_view t) r (sample_leaf 0 @ sample_leaf 64)"
proof -
  obtain r t where run: "insert_leaf index_env sample_engine ''t'' 0 (sample_ref ''a'' 0) (sample_ref ''b'' 64) two_leaves = (Inr r, t)"
    using insert_two_leaves by blast
  from run insert_leaf_appends [OF mem_legal(2) run two_leaves_hold] show ?thesis by blast
qed

lemma two_leaves_stored:
  "index_stored index_env sample_engine ''t'' 0 (mem_view two_leaves) (sample_ref ''a'' 0) (Leaf (sample_leaf 0))"
  by (rule stored_sample_leaf [where b = "[0]"]) (simp_all add: index_tables_def table_from_def mem_view_def two_leaves_def)

lemma read_sample_leaf:
  "read_page index_env sample_engine ''t'' 0 (sample_ref ''a'' 0) two_leaves = (Inr (Leaf (sample_leaf 0)), two_leaves)"
proof -
  have "decode_page index_env sample_engine ''t'' 0 (sample_ref ''a'' 0) [0] = Inr (Leaf (sample_leaf 0))"
    using two_leaves_stored by (simp add: index_stored_def mem_view_def two_leaves_def body_tag_def)
  then show ?thesis
    using validate_sample_ref [of "''a''" 0]
    by (simp add: read_page_def read_exact_def sample_dirs io_eval two_leaves_def checked_add_u64_def u64_max_def)
qed

theorem rebuild_index_exact_witness:
  "\<exists>root t. rebuild_index index_env sample_engine ''t'' 0 [sample_segment 5 1 10, sample_segment 6 1 10] 5 7 100 ([], 0) = (Inr root, t)
    \<and> root_holds index_env sample_engine ''t'' 0 (mem_view t) root [sample_segment 5 1 10, sample_segment 6 1 10]"
proof -
  have "\<exists>root t. rebuild_index index_env sample_engine ''t'' 0 [sample_segment 5 1 10, sample_segment 6 1 10] 5 7 100 ([], 0) = (Inr root, t)"
    by (simp add: rebuild_index_def PAGE_ENTRIES_def count_levels.simps build_levels.simps io_eval)
  then obtain root t where
    run: "rebuild_index index_env sample_engine ''t'' 0 [sample_segment 5 1 10, sample_segment 6 1 10] 5 7 100 ([], 0) = (Inr root, t)"
    by blast
  with rebuild_index_exact [OF mem_legal(2) run] show ?thesis by blast
qed

definition leaf_root :: root where
  "leaf_root = root_default\<lparr>rt_revision := 65, rt_next_offset := 65, rt_tree := Some (sample_ref ''a'' 0),
     rt_tail := [sample_segment 64 1 10]\<rparr>"

lemma leaf_root_holds:
  "root_holds index_env sample_engine ''t'' 0 (mem_view two_leaves) leaf_root (sample_leaf 0 @ [sample_segment 64 1 10])"
  using two_leaves_hold(1) by (simp add: root_holds_def leaf_root_def)

theorem trace_index_complete_witness:
  "\<exists>g t. trace_index index_env sample_engine ''t'' 0 leaf_root \<lparr>lg_segments = [], lg_objects = {}\<rparr> 100 two_leaves = (Inr g, t)
    \<and> lg_segments g = sample_leaf 0 @ [sample_segment 64 1 10]"
proof -
  have "\<exists>g t. trace_index index_env sample_engine ''t'' 0 leaf_root \<lparr>lg_segments = [], lg_objects = {}\<rparr> 100 two_leaves = (Inr g, t)"
    using read_sample_leaf by (simp add: trace_index_def leaf_root_def graph_insert_def io_bind_def PAGE_ENTRIES_def)
  then obtain g t where
    run: "trace_index index_env sample_engine ''t'' 0 leaf_root \<lparr>lg_segments = [], lg_objects = {}\<rparr> 100 two_leaves = (Inr g, t)" by blast
  with trace_index_complete [OF mem_legal(2) run leaf_root_holds] show ?thesis by auto
qed

lemma sample_leaf_two: "\<exists>rest. sample_leaf 0 = sample_segment 0 1 10 # sample_segment 1 1 10 # rest"
  by (simp add: sample_leaf_def PAGE_ENTRIES_def upt_conv_Cons)

theorem indexed_segments_like_scan_witness:
  "\<exists>sel t c. indexed_segments index_env sample_engine ''t'' 0 leaf_root (selection_new 0 15 False) two_leaves = (Inr sel, t)
    \<and> push_all (sample_leaf 0 @ [sample_segment 64 1 10]) (selection_new 0 15 False) = (Inr c, sel)"
proof -
  obtain rest where leaf: "sample_leaf 0 = sample_segment 0 1 10 # sample_segment 1 1 10 # rest" using sample_leaf_two by blast
  have "\<exists>sel. push_all (sample_leaf 0) (selection_new 0 15 False) = (Inr False, sel)"
    unfolding leaf by (simp add: selection_push_def selection_new_def last_offset_def checked_add_i64_def range_simps)
  then have "\<exists>sel t. indexed_segments index_env sample_engine ''t'' 0 leaf_root (selection_new 0 15 False) two_leaves = (Inr sel, t)"
    using read_sample_leaf by (auto simp: indexed_segments_def leaf_root_def io_bind_def selection_new_def)
  then obtain sel t where
    run: "indexed_segments index_env sample_engine ''t'' 0 leaf_root (selection_new 0 15 False) two_leaves = (Inr sel, t)" by blast
  with indexed_segments_like_scan [OF mem_legal(2) run leaf_root_holds] show ?thesis by blast
qed

section \<open>Producers\<close>

definition producer_tables :: tables where
  "producer_tables = no_tables\<lparr>tb_allocators := [\<lparr>al_schema = 1, al_next_id = 1\<rparr>],
     tb_producer_pages := [PLeaf [\<lparr>ps_id = 7, ps_epoch = 0, ps_batches =
        [\<lparr>bi_sequence = 0, bi_count = 3, bi_base_offset = 10, bi_fingerprint = zero_checksum\<rparr>]\<rparr>]]\<rparr>"

abbreviation producer_env :: "mem log_env" where
  "producer_env \<equiv> mem_env producer_tables no_codecs"

definition sample_producer :: producer_state where
  "sample_producer = \<lparr>ps_id = 7, ps_epoch = 0, ps_batches =
     [\<lparr>bi_sequence = 0, bi_count = 3, bi_base_offset = 10, bi_fingerprint = zero_checksum\<rparr>]\<rparr>"

text \<open>
  Two brokers allocate at the same time. Both find no allocator; the first one creates it, so the
  second one is refused, loads the object of the first and replaces it.
\<close>

abbreviation ids_env :: "mem log_env" where
  "ids_env \<equiv> mem_env (no_tables\<lparr>tb_allocators := [\<lparr>al_schema = 1, al_next_id = 1\<rparr>, \<lparr>al_schema = 1, al_next_id = 2\<rparr>]\<rparr>) no_codecs"

definition ids_object :: "byte \<Rightarrow> objects" where
  "ids_object c = [''p/producer-ids.json'' \<mapsto> (body_tag [c], [c])]"

definition ids_history :: "nat \<Rightarrow> objects" where
  "ids_history n = (if n = 0 then Map.empty else if n = 1 then ids_object 0 else ids_object 1)"

definition ids_get :: "string \<Rightarrow> (mem, store_error, get_result) io" where
  "ids_get p s = (case ids_history (snd s) p of
      None \<Rightarrow> (Inl NotFound, s)
    | Some (v, b) \<Rightarrow> (Inr \<lparr>gr_size = length b, gr_version = v, gr_chunks = [Inr b]\<rparr>, s))"

definition ids_put :: "bool \<Rightarrow> string \<Rightarrow> bytes \<Rightarrow> put_mode \<Rightarrow> (mem, store_error, update_version) io" where
  "ids_put first p b mode s =
     (if first then
        (if snd s = 0 \<and> p = ''p/producer-ids.json'' \<and> b = [0] \<and> mode = Create
         then (Inr (body_tag b), (fst s, 1)) else (Inl Precondition, s))
      else if snd s = 0 then (Inl AlreadyExists, (fst s, 1))
      else if snd s = 1 \<and> p = ''p/producer-ids.json'' \<and> b = [1] \<and> mode = Update (body_tag [0])
      then (Inr (body_tag b), (fst s, 2)) else (Inl Precondition, s))"

definition ids_broker :: "bool \<Rightarrow> mem log_env" where
  "ids_broker first = ids_env\<lparr>w_get := ids_get, w_put := ids_put first\<rparr>"

lemma ids_broker_simps [simp]:
  "w_get (ids_broker first) = ids_get" "w_put (ids_broker first) = ids_put first"
  "allocator_path (ids_broker first) sample_engine = ''p/producer-ids.json''"
  "le_allocator_from_slice (ids_broker first) = le_allocator_from_slice ids_env"
  "le_allocator_to_vec (ids_broker first) = le_allocator_to_vec ids_env"
  by (simp_all add: ids_broker_def allocator_path_def sample_engine_def)

lemma ids_objects [simp]:
  "ids_history 0 = Map.empty" "ids_history (Suc 0) = ids_object 0" "2 \<le> n \<Longrightarrow> ids_history n = ids_object 1"
  by (simp_all add: ids_history_def)

lemma ids_takes_part: "takes_part (ids_broker first) ids_history snd (if first then {0} else {1})"
  unfolding takes_part_def
proof (intro conjI allI impI)
  fix p and s t :: mem and r assume "w_get (ids_broker first) p s = (r, t)"
  then show "snd s \<le> snd t" "(if first then {0} else {1}) \<inter> {snd s..<snd t} = {}"
      "\<exists>i\<ge>snd s. i \<le> snd t \<and> get_outcome (ids_history i p) r"
    by (auto simp: ids_get_def get_outcome_def strip_prefix_def split: option.splits intro!: exI [of _ "snd s"])
next
  fix p b mode and s t :: mem and r assume "w_put (ids_broker first) p b mode s = (r, t)"
  then show "snd s \<le> snd t"
    "(if first then {0} else {1}) \<inter> {snd s..<snd t} = {} \<and> (\<forall>v. r \<noteq> Inr v) \<or>
      (\<exists>i v. (if first then {0} else {1}) \<inter> {snd s..<snd t} = {i} \<and> put_allowed mode (ids_history i p) \<and>
           ids_history (Suc i) = (ids_history i)(p \<mapsto> (v, b)) \<and> (r = Inr v \<or> (\<exists>e. r = Inl (OtherError e))))"
    by (auto simp: ids_put_def put_allowed_def ids_object_def numeral_2_eq_2 split: if_splits)
qed

lemma ids_json: "small_json_laws (ids_broker first)"
  using mem_json_laws(4) [of "no_tables\<lparr>tb_allocators := [\<lparr>al_schema = 1, al_next_id = 1\<rparr>, \<lparr>al_schema = 1, al_next_id = 2\<rparr>]\<rparr>" no_codecs]
  unfolding small_json_laws_def ids_broker_def by simp

lemma ids_table: "le_allocator_from_slice ids_env [0] = Inr \<lparr>al_schema = 1, al_next_id = 1\<rparr>"
  "le_allocator_from_slice ids_env [1] = Inr \<lparr>al_schema = 1, al_next_id = 2\<rparr>"
  by (simp_all add: from_table_def table_from_def ok_or_def no_tables_def)

lemma ids_counter:
  "next_free_id (ids_broker first) sample_engine (ids_history n) = (if n = 0 then 0 else if n = 1 then 1 else 2)"
  using ids_table by (simp add: next_free_id_def ids_history_def ids_object_def)

lemma ids_first: "allocate_producer_id (ids_broker True) sample_engine ([], 0) = (Inr 0, ([], 1))"
  by (simp add: allocate_producer_id_def MAX_CAS_ATTEMPTS_def retry_unfold allocate_attempt_def allocator_load_def
      allocator_publish_def io_eval checked_add_i64_def range_simps no_tables_def table_to_def ids_get_def ids_put_def)

lemma ids_second: "allocate_producer_id (ids_broker False) sample_engine ([], 0) = (Inr 1, ([], 2))"
  by (simp add: allocate_producer_id_def MAX_CAS_ATTEMPTS_def retry_unfold allocate_attempt_def allocator_load_def
      allocator_publish_def io_eval checked_add_i64_def range_simps no_tables_def table_to_def ids_get_def ids_put_def
      ids_object_def io_body_def ids_table [simplified no_tables_def, simplified] checked_add_u64_def u64_max_def
      MAX_TOPIC_METADATA_BYTES_def)

theorem producer_ids_fresh_witness:
  "allocate_producer_id (ids_broker True) sample_engine ([], 0) = (Inr 0, ([], 1))
   \<and> allocate_producer_id (ids_broker False) sample_engine ([], 0) = (Inr 1, ([], 2))
   \<and> next_free_id (ids_broker True) sample_engine (ids_history 0) \<le> 0"
proof -
  let ?run = "\<lambda>k. if k then (Inr 0 :: log_error + int, ([] :: (string \<times> bytes) list, 1)) else (Inr 1, ([], 2 :: nat))"
  have clients: "takes_part (ids_broker k) ids_history snd (if k then {0} else {1}) \<and> small_json_laws (ids_broker k)" for k
    by (simp add: ids_takes_part ids_json)
  have counter: "next_free_id (ids_broker k) sample_engine = next_free_id (ids_broker True) sample_engine" for k
    unfolding next_free_id_def fun_eq_iff ids_broker_simps by simp
  have versions: "versions_identify ids_history"
    by (auto simp: versions_identify_def ids_history_def ids_object_def body_tag_def split: if_splits)
  have runs: "allocate_producer_id (ids_broker k) sample_engine ([], 0) = (fst (?run k), snd (?run k))" for k
    using ids_first ids_second by simp
  have "(0 :: int) \<noteq> 1 \<and> next_free_id (ids_broker True) sample_engine (ids_history (snd (([], 0) :: mem))) \<le> 0
     \<and> 0 < next_free_id (ids_broker True) sample_engine (ids_history (snd (snd (?run True))))"
    by (rule producer_ids_fresh [where K = UNIV and E = ids_broker and L = "\<lambda>_. sample_engine" and s = "\<lambda>_. ([], 0)"
        and own = "\<lambda>k. if k then {0} else {1}" and steps = "\<lambda>k. if k then {0} else {1}" and x = "\<lambda>k. fst (?run k)"
        and t = "\<lambda>k. snd (?run k)" and k = True and l = False, OF versions clients counter runs])
      (auto simp: ids_counter split: if_splits)
  then show ?thesis using ids_first ids_second by simp
qed

lemma validate_sample_producer: "validate_producer_state sample_producer 13 = Inr ()"
  by (simp add: sample_producer_def validate_producer_state_def RETRY_BATCHES_def MAX_BATCH_RECORDS_def
      checked_add_i64_def range_simps)

definition sample_producer_ref :: producer_ref where
  "sample_producer_ref = \<lparr>pf_object = ''p/topics/t/0/producer-state/u.json'', pf_first_id = 7, pf_last_id = 7,
     pf_count = 1, pf_level = 0, pf_byte_length = 1, pf_sha256 = zero_checksum\<rparr>"

definition one_producer :: mem where
  "one_producer = ([(''p/topics/t/0/producer-state/u.json'', [0])], 1)"

lemma sample_producer_bounds:
  "producer_page_bounds ok (PLeaf [sample_producer]) ''p'' ''t'' 0 13 = Inr (7, 7, 1, 0)"
  using validate_sample_producer by (simp add: PAGE_ENTRIES_def) (simp add: sample_producer_def)

lemma validate_sample_producer_ref:
  "validate_producer_ref (\<lambda>u. u \<noteq> []) sample_producer_ref ''p'' ''t'' 0 = Inr ()"
  using page_name_sample [of "''u''" "''p/topics/t/0/producer-state/''"]
  by (simp add: validate_producer_ref_def sample_producer_ref_def sample_dirs page_capacity_0 PRODUCER_MAX_LEVEL_def MAX_MANIFEST_BYTES_def)

lemma update_sample_producer:
  "update_producer producer_env sample_engine ''t'' 0 None sample_producer 13 ([], 0) = (Inr sample_producer_ref, one_producer)"
  using validate_sample_producer_ref sample_producer_bounds
  by (simp add: update_producer_def split_page_def PAGE_ENTRIES_def write_producer_page_def sample_dirs io_eval
      producer_tables_def table_to_def sample_producer_def sample_producer_ref_def one_producer_def)

lemma decode_sample_producer:
  "decode_producer_page producer_env sample_engine ''t'' 0 13 sample_producer_ref [0] = Inr (PLeaf [sample_producer])"
proof -
  have "from_table (tb_producer_pages producer_tables) [0] = Inr (PLeaf [sample_producer])"
    by (simp add: from_table_def table_from_def producer_tables_def sample_producer_def)
  then show ?thesis using sample_producer_bounds
    by (simp add: decode_producer_page_def producer_page_visited_def producer_history_def entries_def PAGE_ENTRIES_def
        RETRY_BATCHES_def sample_dirs) (simp add: sample_producer_def sample_producer_ref_def)
qed

lemma lookup_sample_producer:
  "producer_lookup producer_env sample_engine ''t'' 0 (Some sample_producer_ref) 7 13 one_producer = (Inr (Some sample_producer), one_producer)"
proof -
  have "read_producer_page producer_env sample_engine ''t'' 0 13 sample_producer_ref one_producer = (Inr (PLeaf [sample_producer]), one_producer)"
    using validate_sample_producer_ref decode_sample_producer
    by (simp add: read_producer_page_def read_exact_def sample_dirs io_eval checked_add_u64_def u64_max_def one_producer_def)
      (simp add: sample_producer_ref_def)
  then show ?thesis by (simp add: sample_producer_ref_def) (simp add: sample_producer_def)
qed

theorem producer_update_lookup_witness:
  "update_producer producer_env sample_engine ''t'' 0 None sample_producer 13 ([], 0) = (Inr sample_producer_ref, one_producer)
   \<and> producer_lookup producer_env sample_engine ''t'' 0 (Some sample_producer_ref) 7 13 one_producer = (Inr (Some sample_producer), one_producer)
   \<and> keeps_dir (engine_dir sample_engine ''t'' 0) (mem_view ([], 0)) (mem_view one_producer)"
proof -
  have "case (None :: producer_ref option) of None \<Rightarrow> [] = [] | Some old \<Rightarrow>
      producer_holds producer_env sample_engine ''t'' 0 13 (mem_view ([], 0)) old []" by simp
  from producer_update_lookup [OF mem_legal(3) this update_sample_producer lookup_sample_producer]
    update_sample_producer lookup_sample_producer
  show ?thesis by blast
qed

theorem producer_lookup_exact_witness:
  "producer_lookup producer_env sample_engine ''t'' 0 (Some sample_producer_ref) 7 13 one_producer = (Inr (Some sample_producer), one_producer)
   \<and> Some sample_producer = find (\<lambda>p. ps_id p = 7) [sample_producer]"
proof -
  have stored: "producer_stored producer_env sample_engine ''t'' 0 13 (mem_view one_producer) sample_producer_ref (PLeaf [sample_producer])"
    using validate_sample_producer_ref decode_sample_producer
    by (simp add: producer_stored_def sample_dirs mem_view_def one_producer_def) (simp add: sample_producer_ref_def)
  have "producer_holds producer_env sample_engine ''t'' 0 13 (mem_view one_producer) sample_producer_ref
      (producer_items (PLeaf [sample_producer]) @ concat [])"
    by (rule denotes.node [where stored = "producer_stored producer_env sample_engine ''t'' 0 13 (mem_view one_producer)"
          and r = sample_producer_ref and p = "PLeaf [sample_producer]" and xss = "[]"])
      (use stored in simp_all)
  then have holds: "producer_holds producer_env sample_engine ''t'' 0 13 (mem_view one_producer) sample_producer_ref [sample_producer]"
    by simp
  from producer_lookup_exact [OF mem_legal(3) holds lookup_sample_producer] lookup_sample_producer show ?thesis by simp
qed

section \<open>Appending and fetching\<close>

definition sample_record :: kafka_record where
  "sample_record = \<lparr>rc_transactional = False, rc_control = False, rc_delete_horizon = False,
     rc_partition_leader_epoch = - 1, rc_producer_id = - 1, rc_producer_epoch = - 1, rc_timestamp = 0,
     rc_offset = 0, rc_sequence = - 1, rc_body = []\<rparr>"

definition one_record_codecs :: codecs where
  "one_record_codecs =
     \<lparr>cd_encode = (\<lambda>rs. if rs = [sample_record] then Inr one_record_batch else Inl ''none''),
      cd_info = (\<lambda>b. if b = one_record_batch then Inr ([one_record_info], []) else Inl ''none''),
      cd_all = (\<lambda>b. if b = one_record_batch then Inr ([[sample_record]], []) else Inl ''none''),
      cd_headers = (\<lambda>_. 0)\<rparr>"

definition one_segment :: segment where
  "one_segment = \<lparr>sg_object = ''p/topics/t/0/segments/u.batch'', sg_base_offset = 0, sg_record_count = 1,
     sg_byte_length = length one_record_batch, sg_sha256 = zero_checksum, sg_received_at_ms = Some 1000\<rparr>"

definition one_root :: root where
  "one_root = root_default\<lparr>rt_revision := 1, rt_next_offset := 1, rt_tail := [one_segment]\<rparr>"

definition log_tables :: tables where
  "log_tables = no_tables\<lparr>tb_metadata := [\<lparr>tm_schema = 1, tm_partition_count = 1\<rparr>], tb_roots := [one_root]\<rparr>"

abbreviation one_env :: "mem log_env" where
  "one_env \<equiv> mem_env log_tables one_record_codecs"

definition one_batch_log :: mem where
  "one_batch_log =
     ([(''p/topics/t/0/manifest.json'', [0]), (''p/topics/t/0/segments/u.batch'', one_record_batch),
       (''p/topics/t/metadata.json'', [0])], 1)"

lemma one_codecs [simp]:
  "cd_encode one_record_codecs [sample_record] = Inr one_record_batch"
  "cd_info one_record_codecs one_record_batch = Inr ([one_record_info], [])"
  "cd_all one_record_codecs one_record_batch = Inr ([[sample_record]], [])"
  "cd_headers one_record_codecs r = 0"
  by (simp_all add: one_record_codecs_def)

lemma sample_record_valid:
  "validate_records [sample_record] = Inr ()" "validate_timestamp_span [sample_record] = Inr ()"
  "assigned_records [sample_record] 0 = Inr [sample_record]"
  by (simp_all add: validate_records_def validate_timestamp_span_def assigned_records_def sample_record_def
      no_producer_defs checked_sub_i64_def checked_add_i64_def range_simps wrap_i32_def)

lemma length_one_record_batch [simp]: "length one_record_batch = 68"
  by (simp add: one_record_batch_def)

lemma check_sample_batch: "check_batch one_env [sample_record] = Inr (zero_checksum, 68)"
  using inspect_one_record [of "cd_info one_record_codecs"]
  by (simp add: check_batch_def sample_record_valid encode_records_def)

lemma validate_one_root: "validate_root (\<lambda>u. u \<noteq> []) one_root ''p'' ''t'' 0 = Inr ()"
proof -
  have "validate_segments [one_segment] 0 ''p'' ''t'' 0 = Inr 1"
    by (simp add: validate_segments_def one_segment_def sample_dirs last_offset_def checked_add_i64_def range_simps
        MAX_BATCH_RECORDS_def MAX_BATCH_BYTES_def starts_with_iff ends_with_def strip_suffix_def strip_prefix_def)
  then show ?thesis
    by (simp add: validate_root_def one_root_def root_default_def INDEX_SCHEMA_def PAGE_ENTRIES_def checked_add_u64_def u64_max_def)
qed

lemma decode_one_root: "decode_manifest one_env sample_engine ''t'' 0 [0] = Inr (Indexed one_root)"
proof -
  have t: "from_table (tb_roots log_tables) [0] = Inr one_root"
    by (simp add: from_table_def table_from_def log_tables_def)
  have "entries (json_seq_of (rt_tail one_root)) = Inr (rt_tail one_root)"
    by (simp add: entries_def PAGE_ENTRIES_def one_root_def)
  then show ?thesis using t validate_one_root
    by (simp add: decode_manifest_def sample_dirs) (simp add: one_root_def root_default_def INDEX_SCHEMA_def MANIFEST_SCHEMA_def)
qed

lemma one_batch_current:
  "current_manifest one_env sample_engine ''t'' 0 (mem_view one_batch_log) = Some (Indexed one_root)"
  using decode_one_root by (simp add: current_manifest_def manifest_path_def sample_dirs mem_view_def one_batch_log_def)

lemma check_one_segment: "check_segment one_env one_segment one_record_batch = Inr ()"
proof -
  have d: "decode_record_batches (cd_info one_record_codecs) (cd_all one_record_codecs) (cd_headers one_record_codecs) one_record_batch
      = Inr (\<lparr>in_batch_count = 1, in_record_count = 1, in_batch_record_counts = [1], in_record_header_counts = [0]\<rparr>, [sample_record])"
    using inspect_one_record [of "cd_info one_record_codecs"] by (simp add: decode_record_batches_def)
  have "validate_segment_records one_segment [sample_record] = Inr ()"
    "validate_canonical_segment_records one_segment [sample_record] = Inr ()"
    using sample_record_valid
    by (simp_all add: validate_segment_records_def validate_canonical_segment_records_def)
      (simp_all add: one_segment_def sample_record_def no_producer_defs range_simps wrap_i64_def wrap_i32_def)
  with d have "check_segment one_env (one_segment\<lparr>sg_byte_length := 68\<rparr>) one_record_batch = Inr ()"
    by (simp add: check_segment_def encode_records_def) (simp add: one_segment_def)
  then show ?thesis by (simp add: one_segment_def)
qed

lemma fetch_one_batch:
  "fetch_bounded one_env sample_engine ''t'' 0 0 100 True one_batch_log =
     (Inr \<lparr>ft_records = one_record_batch, ft_high_watermark = 1, ft_oversized_first_batch = False\<rparr>, one_batch_log)"
proof -
  have meta: "load_topic_metadata one_env sample_engine ''t'' one_batch_log = (Inr (Some \<lparr>tm_schema = 1, tm_partition_count = 1\<rparr>), one_batch_log)"
    by (simp add: load_topic_metadata_def topic_metadata_path_def sample_dirs io_eval one_batch_log_def MAX_TOPIC_METADATA_BYTES_def
        io_body_def checked_add_u64_def u64_max_def from_table_def table_from_def log_tables_def validate_topic_metadata_def
        validate_partition_count_def TOPIC_METADATA_SCHEMA_def DEFAULT_TOPIC_PARTITIONS_def MAX_TOPIC_PARTITIONS_def)
  have topic: "validate_topic ''t'' = Inr ()"
    by (simp add: validate_topic_def valid_topic_def safe_char_def is_ascii_alphanumeric_def is_ascii_digit_def)
  have known: "known_partition one_env sample_engine ''t'' 0 one_batch_log = (Inr (), one_batch_log)"
    using meta topic by (simp add: known_partition_def topic_partition_count_def io_bind_def validate_partition_def)
  have man: "load_or_empty one_env sample_engine ''t'' 0 one_batch_log =
      (Inr \<lparr>ld_manifest = Indexed one_root, ld_version = Some (body_tag [0])\<rparr>, one_batch_log)"
    using decode_one_root
    by (simp add: load_or_empty_def load_manifest_def manifest_path_def sample_dirs io_eval io_body_def checked_add_u64_def u64_max_def
        one_batch_log_def)
  have seg: "read_segment one_env one_segment one_batch_log = (Inr one_record_batch, one_batch_log)"
    using check_one_segment
    by (simp add: read_segment_def io_eval checked_add_u64_def u64_max_def one_segment_def one_batch_log_def)
  have sel: "indexed_segments one_env sample_engine ''t'' 0 one_root (selection_new 0 100 True) one_batch_log
      = (Inr ((selection_new 0 100 True)\<lparr>sl_remaining := 32, sl_segments := [one_segment]\<rparr>), one_batch_log)"
    by (simp add: indexed_segments_def one_root_def root_default_def io_bind_def selection_push_def one_segment_def
        selection_new_def last_offset_def checked_add_i64_def u64_max_def range_simps)
  have snap: "fetch_snapshot one_env sample_engine ''t'' 0 (Indexed one_root) 0 100 True one_batch_log =
     (Inr \<lparr>ft_records = one_record_batch, ft_high_watermark = 1, ft_oversized_first_batch = False\<rparr>, one_batch_log)"
    using sel seg by (simp add: fetch_snapshot_def Let_def io_bind_def) (simp add: one_root_def root_default_def selection_new_def io_bind_def)
  then have "fetch_attempt one_env sample_engine ''t'' 0 0 100 True one_batch_log =
     (Inr (Some \<lparr>ft_records = one_record_batch, ft_high_watermark = 1, ft_oversized_first_batch = False\<rparr>), one_batch_log)"
    using man by (simp add: fetch_attempt_def io_bind_def io_try_def)
  then show ?thesis using known by (simp add: fetch_bounded_def io_bind_def MAX_CAS_ATTEMPTS_def retry_unfold)
qed

theorem fetch_exact_witness:
  "\<exists>f. fetch_bounded one_env sample_engine ''t'' 0 0 100 True one_batch_log = (Inr f, one_batch_log)
    \<and> fetch_done one_env sample_engine ''t'' 0 (=) 0 100 True (mem_view one_batch_log) f (mem_view one_batch_log)"
  using fetch_exact [OF mem_legal(1) mem_parse_laws fetch_one_batch] fetch_one_batch by blast

lemma one_segment_stores:
  "segment_stores one_env sample_engine ''t'' 0 (mem_view one_batch_log) [sample_record] one_segment"
proof -
  have "segment_named sample_engine ''t'' 0 one_segment"
    by (simp add: segment_named_def one_segment_def sample_dirs starts_with_iff ends_with_iff)
  then show ?thesis
    by (simp add: segment_stores_def sample_record_valid encode_records_def one_segment_def sample_dirs mem_view_def one_batch_log_def)
qed

theorem committed_batch_readable_witness:
  "\<exists>f rest. fetch_bounded one_env sample_engine ''t'' 0 0 100 True one_batch_log = (Inr f, one_batch_log)
    \<and> ft_records f = one_record_batch @ rest"
proof -
  have holds: "manifest_holds one_env sample_engine ''t'' 0 (mem_view one_batch_log) (Indexed one_root) ([] @ one_segment # [])"
    by (simp add: root_holds_def one_root_def root_default_def)
  have grows: "m = m' \<Longrightarrow> log_grows one_env sample_engine ''t'' 0 m m'" for m m'
    unfolding log_grows_def by (metis append_Nil2 option.inject)
  have off: "sg_base_offset one_segment = 0" by (simp add: one_segment_def)
  have run: "fetch_bounded one_env sample_engine ''t'' 0 (sg_base_offset one_segment) 100 True one_batch_log =
     (Inr \<lparr>ft_records = one_record_batch, ft_high_watermark = 1, ft_oversized_first_batch = False\<rparr>, one_batch_log)"
    using fetch_one_batch off by simp
  from committed_batch_readable [OF mem_legal(1) mem_parse_laws grows one_batch_current holds one_segment_stores run] obtain rest where "one_record_batch = one_record_batch @ rest"
    using sample_record_valid by (auto simp: off encode_records_def split: if_splits)
  with fetch_one_batch show ?thesis by (metis bounded_fetch.select_convs(1))
qed

lemma append_one_batch:
  "append_batches one_env sample_engine ''t'' 0 [[sample_record]] ([], 0) =
     (Inr \<lparr>ar_base_offset = 0, ar_last_offset = 0\<rparr>, one_batch_log)"
proof -
  have topic: "validate_topic ''t'' = Inr ()"
    by (simp add: validate_topic_def valid_topic_def safe_char_def is_ascii_alphanumeric_def is_ascii_digit_def)
  have part: "validate_partition 0 n = Inr ()" if "0 < n" for n
    using that by (simp add: validate_partition_def)
  let ?m0 = "([], 0) :: mem" and ?m1 = "([(''p/topics/t/metadata.json'', [0])], 0) :: mem"
  have table: "table_to (tb_metadata log_tables) \<lparr>tm_schema = 1, tm_partition_count = 1\<rparr> = Inr [0]"
    "table_to (tb_roots log_tables) one_root = Inr [0]"
    by (simp_all add: table_to_def log_tables_def)
  have ensure: "ensure_topic one_env sample_engine ''t'' 0 ?m0 = (Inr 1, ?m1)"
    using topic part [of 1] table
    by (simp add: ensure_topic_def load_topic_metadata_def load_manifest_def create_topic_metadata_def topic_metadata_path_def
        manifest_path_def sample_dirs io_eval TOPIC_METADATA_SCHEMA_def)
      (simp add: sample_engine_def io_eval part TOPIC_METADATA_SCHEMA_def)
  have load: "load_or_empty one_env sample_engine ''t'' 0 ?m1 = (Inr loaded_empty, ?m1)"
    by (simp add: load_or_empty_def load_manifest_def manifest_path_def sample_dirs io_eval)
  have plan: "plan_batches one_env sample_engine ''t'' 0 None 0 [([sample_record], zero_checksum)]
      \<lparr>ap_states = [], ap_additions = [], ap_results = [], ap_next_offset = 0\<rparr> ?m1 =
    (Inr \<lparr>ap_states = [], ap_additions = [([sample_record], 0)],
        ap_results = [\<lparr>ar_base_offset = 0, ar_last_offset = 0\<rparr>], ap_next_offset = 1\<rparr>, ?m1)"
    by (simp add: plan_batch_def io_bind_def sample_record_def checked_add_i64_def range_simps wrap_i64_def)
  let ?m2 = "([(''p/topics/t/0/segments/u.batch'', one_record_batch), (''p/topics/t/metadata.json'', [0])], 1) :: mem"
  have "publish_addition one_env sample_engine ''t'' 0 1000 [sample_record] 0 root_default ?m1 = (Inr one_root, ?m2)"
    by (simp add: publish_addition_def io_eval sample_record_valid encode_records_def segment_path_def sample_dirs
        checked_add_u64_def u64_max_def PAGE_ENTRIES_def)
      (simp add: one_root_def root_default_def one_segment_def io_eval PAGE_ENTRIES_def sample_record_valid wrap_i64_def range_simps)
  then have prep: "prepare_append one_env sample_engine ''t'' 0 (Indexed root_default) [[sample_record]] [zero_checksum] 1000 ?m1 =
      (Inr (\<lparr>ar_base_offset = 0, ar_last_offset = 0\<rparr>, Some one_root), ?m2)"
    using plan by (simp add: prepare_append_def io_bind_def append_root_def root_default_def bt_values_def PAGE_ENTRIES_def)
  have "commit_root one_env sample_engine ''t'' 0 None one_root \<lparr>ar_base_offset = 0, ar_last_offset = 0\<rparr> ?m2 =
      (Inr (Some \<lparr>ar_base_offset = 0, ar_last_offset = 0\<rparr>), one_batch_log)"
    using validate_one_root table
    by (simp add: commit_root_def io_eval sample_dirs manifest_path_def one_batch_log_def)
  with load prep have attempt: "append_attempt one_env sample_engine ''t'' 0 [[sample_record]] [zero_checksum] 1000 ?m1 =
      (Inr (Some \<lparr>ar_base_offset = 0, ar_last_offset = 0\<rparr>), one_batch_log)"
    by (simp add: append_attempt_def io_eval loaded_empty_def)
  have check: "check_batches one_env [[sample_record]] [] 0 = Inr ([zero_checksum], 68)"
    using check_sample_batch by simp
  show ?thesis
    using topic part [of MAX_TOPIC_PARTITIONS] check ensure attempt
    by (simp add: append_batches_def io_bind_def unix_millis_def io_call_def MAX_TOPIC_PARTITIONS_def MAX_BATCH_RECORDS_def
        MAX_BATCH_BYTES_def MAX_CAS_ATTEMPTS_def retry_unfold)
qed

lemma sample_append_names: "append_names one_env sample_engine ''t'' 0"
  unfolding append_names_def using producer_legalD(2) [OF mem_legal(3)] by (simp add: metadata_named_def)

theorem append_linearizable_witness:
  "append_batches one_env sample_engine ''t'' 0 [[sample_record]] ([], 0) =
     (Inr \<lparr>ar_base_offset = 0, ar_last_offset = 0\<rparr>, one_batch_log)
   \<and> append_done one_env sample_engine ''t'' 0 (=) [[sample_record]] (mem_view ([], 0))
       \<lparr>ar_base_offset = 0, ar_last_offset = 0\<rparr> (mem_view one_batch_log)"
  using append_one_batch append_linearizable [OF mem_legal(1) sample_append_names append_one_batch] by blast

text \<open>An object beside the log is garbage of every root; no name that is drawn equals its name.\<close>

lemma sample_fence:
  "fence_legal one_env sample_engine ''t'' 0 mem_view (=) (\<lambda>_. 0) (\<lambda>_. {''p/topics/t/0/segments/orphan.batch''})"
proof -
  have imm: "immutable_name ''p/topics/t/0/'' ''p/topics/t/0/segments/orphan.batch''"
    by (simp add: immutable_name_def starts_with_iff)
  have "fenced one_env sample_engine ''t'' 0 (\<lambda>_. 0) g m m" for g m
    by (simp add: fenced_def root_moves_def)
  with imm show ?thesis
    by (simp add: fence_legal_def mem_store_laws mem_name_laws mem_json_laws metadata_named_def sample_dirs
        drawn_names_def segment_path_def mem_uuid_def)
qed

theorem append_fenced_witness:
  "append_batches one_env sample_engine ''t'' 0 [[sample_record]] ([], 0) =
     (Inr \<lparr>ar_base_offset = 0, ar_last_offset = 0\<rparr>, one_batch_log)
   \<and> fenced_done one_env sample_engine ''t'' 0 (=) (\<lambda>_. {''p/topics/t/0/segments/orphan.batch''}) [[sample_record]]
       (mem_view ([], 0)) \<lparr>ar_base_offset = 0, ar_last_offset = 0\<rparr> (mem_view one_batch_log)"
  using append_one_batch append_fenced [OF sample_fence append_one_batch] by blast

lemma empty_log_intact: "log_intact one_env sample_engine ''t'' 0 (mem_view ([], 0))"
proof -
  have "current_manifest one_env sample_engine ''t'' 0 (mem_view ([], 0)) = Some (Indexed root_default)"
    by (simp add: current_manifest_def mem_view_def)
  moreover have "manifest_holds one_env sample_engine ''t'' 0 (mem_view ([], 0)) (Indexed root_default) []"
    by (simp add: root_holds_def root_default_def)
  ultimately show "log_intact one_env sample_engine ''t'' 0 (mem_view ([], 0))" unfolding log_intact_def by blast
qed

theorem append_guarantee_witness:
  "append_batches one_env sample_engine ''t'' 0 [[sample_record]] ([], 0) =
     (Inr \<lparr>ar_base_offset = 0, ar_last_offset = 0\<rparr>, one_batch_log)
   \<and> (append_call one_env sample_engine ''t'' 0 mem_view (=))\<^sup>*\<^sup>* ([], 0) one_batch_log
   \<and> log_extended one_env sample_engine ''t'' 0 (mem_view ([], 0)) (mem_view one_batch_log)"
proof -
  have topic: "validate_topic ''t'' = Inr ()"
    by (simp add: validate_topic_def valid_topic_def safe_char_def is_ascii_alphanumeric_def is_ascii_digit_def)
  have names: "name_laws one_env sample_engine ''t'' 0" by (rule producer_legalD(2) [OF mem_legal(3)])
  have named: "metadata_named one_env sample_engine ''t''" by (simp add: metadata_named_def)
  have rely: "m = m' \<Longrightarrow> log_extended one_env sample_engine ''t'' 0 m m'" for m m' by simp
  from append_guarantee [OF mem_legal(1) topic names named rely empty_log_intact append_one_batch] append_one_batch show ?thesis by blast
qed

end
