(* ===== verification/Maintenance.thy ===== *)
theory Maintenance
  imports Log_Append
begin

text \<open>
  Partition maintenance (\<open>src/log/maintenance.rs\<close>): the inventory of collectible objects, the
  complete live graph of a root, the choice of expired batches, the conditional publication of
  the trimmed root and the deletion of what neither graph reaches.
\<close>

section \<open>Options\<close>

record maintenance_options =
  mo_max_age_ms :: "nat option"
  mo_max_bytes :: "nat option"
  mo_apply :: bool
  mo_max_objects :: nat

definition maintenance_default :: maintenance_options where
  "maintenance_default =
     \<lparr>mo_max_age_ms = None, mo_max_bytes = None, mo_apply = False, mo_max_objects = 100000\<rparr>"

definition validate_maintenance :: "maintenance_options \<Rightarrow> log_error + unit" where
  "validate_maintenance options =
     (if \<not> (1 \<le> mo_max_objects options \<and> mo_max_objects options \<le> 1000000)
      then Inl (InvalidMaintenance ''max-objects must be between 1 and 1000000'')
      else Inr ())"

definition incomplete :: "maintenance_report \<Rightarrow> log_error \<Rightarrow> log_error" where
  "incomplete report source = MaintenanceIncomplete report source"

section \<open>Inventory\<close>

text \<open>A listed key is recognized if it is a UUID name of the namespace.\<close>

definition recognized :: "(string \<Rightarrow> bool) \<Rightarrow> string \<Rightarrow> string \<Rightarrow> string \<Rightarrow> bool" where
  "recognized uuid_ok pre suffix key \<longleftrightarrow>
     (case strip_prefix pre key of
        None \<Rightarrow> False
      | Some name \<Rightarrow> (case strip_suffix suffix name of None \<Rightarrow> False | Some u \<Rightarrow> uuid_ok u))"

fun inventory_scan ::
  "(string \<Rightarrow> bool) \<Rightarrow> string \<Rightarrow> string \<Rightarrow> nat \<Rightarrow> (store_error + string \<times> nat) list
   \<Rightarrow> (string, nat) btree_map \<times> nat \<Rightarrow> log_error + (string, nat) btree_map \<times> nat" where
  "inventory_scan uuid_ok pre suffix maximum [] st = Inr st"
| "inventory_scan uuid_ok pre suffix maximum (Inl e # listed) st = Inl (ObjectStore e)"
| "inventory_scan uuid_ok pre suffix maximum (Inr (key, len) # listed) (objects, scanned) =
     (if scanned + 1 > maximum then Inl (MaintenanceBudget maximum)
      else inventory_scan uuid_ok pre suffix maximum listed
             (if recognized uuid_ok pre suffix key then bt_insert key len objects else objects, scanned + 1))"

definition inventory_dirs :: "(string \<times> string) list" where
  "inventory_dirs = [(''segments'', ''.batch''), (''index'', ''.json''), (''producer-state'', ''.json'')]"

fun inventory_from ::
  "('s, 'm) log_env_scheme \<Rightarrow> string \<Rightarrow> nat \<Rightarrow> (string \<times> string) list
   \<Rightarrow> (string, nat) btree_map \<times> nat \<Rightarrow> ('s, log_error, (string, nat) btree_map) io" where
  "inventory_from E namespace maximum [] st = io_ret (fst st)"
| "inventory_from E namespace maximum ((directory, suffix) # dirs) st =
     (let pre = namespace @ directory @ ''/''
      in io_bind (io_call (w_list E (w_path_from E pre))) (\<lambda>listed.
         io_bind (io_lift (inventory_scan (w_uuid_ok E) pre suffix maximum listed st)) (\<lambda>st.
           inventory_from E namespace maximum dirs st)))"

definition inventory ::
  "('s, 'm) log_env_scheme \<Rightarrow> engine \<Rightarrow> string \<Rightarrow> int \<Rightarrow> nat \<Rightarrow> ('s, log_error, (string, nat) btree_map) io" where
  "inventory E L topic part maximum =
     inventory_from E (engine_dir L topic part) maximum inventory_dirs ([], 0)"

section \<open>The live graph of a root\<close>

text \<open>Every record object is unique, present and of the stated length.\<close>

fun trace_segments ::
  "('s, 'm) log_env_scheme \<Rightarrow> nat \<Rightarrow> segment list \<Rightarrow> live_graph \<Rightarrow> ('s, log_error, live_graph) io" where
  "trace_segments E maximum [] graph = io_ret graph"
| "trace_segments E maximum (sg # sgs) graph =
     (if card (lg_objects graph) \<ge> maximum then io_err (MaintenanceBudget maximum)
      else if sg_object sg \<in> lg_objects graph then io_err (invalid ''duplicate live record object'')
      else io_bind (io_store (w_head E (w_path_from E (sg_object sg)))) (\<lambda>len.
             if len \<noteq> sg_byte_length sg then io_err (invalid ''live record object length mismatch'')
             else trace_segments E maximum sgs
                    (graph\<lparr>lg_objects := insert (sg_object sg) (lg_objects graph)\<rparr>)))"

definition trace_manifest ::
  "('s, 'm) log_env_scheme \<Rightarrow> engine \<Rightarrow> string \<Rightarrow> int \<Rightarrow> log_manifest \<Rightarrow> nat \<Rightarrow> ('s, log_error, live_graph) io" where
  "trace_manifest E L topic part manifest maximum =
     (let graph = \<lparr>lg_segments = [], lg_objects = {}\<rparr>
      in io_bind (case manifest of
                    Legacy legacy \<Rightarrow> io_ret (graph\<lparr>lg_segments := mf_segments legacy\<rparr>)
                  | Indexed root \<Rightarrow>
                      io_bind (trace_index E L topic part root graph maximum) (\<lambda>graph.
                        trace_producers E L topic part root graph maximum)) (\<lambda>graph.
         trace_segments E maximum (lg_segments graph) graph))"

section \<open>Expiry\<close>

definition age_expired :: "nat option \<Rightarrow> nat \<Rightarrow> nat \<Rightarrow> segment \<Rightarrow> bool" where
  "age_expired max_age_ms adoption now sg \<longleftrightarrow>
     (case max_age_ms of
        None \<Rightarrow> False
      | Some age \<Rightarrow>
          (case checked_add_u64 (case sg_received_at_ms sg of None \<Rightarrow> adoption | Some n \<Rightarrow> n) age of
             None \<Rightarrow> False
           | Some expires \<Rightarrow> expires \<le> now))"

definition size_expired :: "nat option \<Rightarrow> nat \<Rightarrow> bool" where
  "size_expired max_bytes retained_bytes \<longleftrightarrow>
     (case max_bytes of None \<Rightarrow> False | Some limit \<Rightarrow> retained_bytes > limit)"

text \<open>The loop over the segments, oldest first: how many expire and the bytes that remain.\<close>

fun expire_segments ::
  "maintenance_options \<Rightarrow> nat \<Rightarrow> nat \<Rightarrow> segment list \<Rightarrow> nat \<Rightarrow> nat \<Rightarrow> nat \<times> nat" where
  "expire_segments options adoption now [] expired retained_bytes = (expired, retained_bytes)"
| "expire_segments options adoption now (sg # sgs) expired retained_bytes =
     (if \<not> age_expired (mo_max_age_ms options) adoption now sg
         \<and> \<not> size_expired (mo_max_bytes options) retained_bytes
      then (expired, retained_bytes)
      else expire_segments options adoption now sgs (expired + 1) (retained_bytes - sg_byte_length sg))"

section \<open>Planning\<close>

record maintenance_plan =
  pl_report :: maintenance_report
  pl_retained :: "segment list"
  pl_removable :: "(string \<times> nat) list"
  pl_rebuild :: bool
  pl_adoption :: nat
  pl_revision :: nat
  pl_producers :: "producer_ref option"

fun manifest_versions :: "nat \<Rightarrow> log_manifest \<Rightarrow> nat \<times> nat \<times> bool" where
  "manifest_versions now (Legacy m) = (mf_revision m, now, True)"
| "manifest_versions now (Indexed root) =
     (rt_revision root, (case rt_adopted_at_ms root of None \<Rightarrow> now | Some n \<Rightarrow> n), rt_schema root \<noteq> INDEX_SCHEMA)"

fun manifest_producers :: "log_manifest \<Rightarrow> producer_ref option" where
  "manifest_producers (Legacy m) = None"
| "manifest_producers (Indexed root) = rt_producers root"

fun is_legacy :: "log_manifest \<Rightarrow> bool" where
  "is_legacy (Legacy m) \<longleftrightarrow> True"
| "is_legacy (Indexed root) \<longleftrightarrow> False"

text \<open>The objects that stay reachable: all of them, or after a rebuild the retained records and the producer pages.\<close>

definition planned_live :: "engine \<Rightarrow> string \<Rightarrow> int \<Rightarrow> bool \<Rightarrow> segment list \<Rightarrow> live_graph \<Rightarrow> string set" where
  "planned_live L topic part rebuild retained graph =
     (if rebuild
      then set (map sg_object retained)
           \<union> Set.filter (starts_with (engine_dir L topic part @ ''producer-state/'')) (lg_objects graph)
      else lg_objects graph)"

fun sum_sizes :: "(string \<times> nat) list \<Rightarrow> nat \<Rightarrow> log_error + nat" where
  "sum_sizes [] acc = Inr acc"
| "sum_sizes ((key, len) # objects) acc =
     attempt (ok_or (checked_add_u64 acc len) OffsetOverflow) (\<lambda>acc. sum_sizes objects acc)"

definition plan_maintenance ::
  "engine \<Rightarrow> string \<Rightarrow> int \<Rightarrow> maintenance_options \<Rightarrow> nat \<Rightarrow> log_manifest \<Rightarrow> live_graph \<Rightarrow> (string, nat) btree_map
   \<Rightarrow> log_error + maintenance_plan" where
  "plan_maintenance L topic part options now manifest graph objects =
     (case manifest_versions now manifest of (revision, adoption, format_adoption) \<Rightarrow>
        let total_bytes = sum_list (map sg_byte_length (lg_segments graph))
        in case expire_segments options adoption now (lg_segments graph) 0 total_bytes of (expired, retained_bytes) \<Rightarrow>
          let retained = drop expired (lg_segments graph);
              start_offset = (case retained of [] \<Rightarrow> lm_next_offset manifest | sg # _ \<Rightarrow> sg_base_offset sg);
              rebuild = (expired \<noteq> 0 \<or> is_legacy manifest);
              removable = filter (\<lambda>(key, _). key \<notin> planned_live L topic part rebuild retained graph) objects
          in attempt (sum_sizes removable 0) (\<lambda>removable_bytes.
               Inr \<lparr>pl_report =
                      \<lparr>rep_topic = topic, rep_partition = part, rep_applied = False,
                       rep_publication_uncertain = False,
                       rep_previous_start_offset = lm_start_offset manifest,
                       rep_start_offset = start_offset, rep_next_offset = lm_next_offset manifest,
                       rep_max_age_ms = mo_max_age_ms options, rep_max_bytes = mo_max_bytes options,
                       rep_format_adoption = format_adoption,
                       rep_retained_batches = length retained, rep_retained_record_bytes = retained_bytes,
                       rep_expired_batches = expired, rep_expired_record_bytes = total_bytes - retained_bytes,
                       rep_removable_objects = length removable, rep_removable_bytes = removable_bytes,
                       rep_collected_objects = 0, rep_collected_bytes = 0\<rparr>,
                    pl_retained = retained, pl_removable = removable, pl_rebuild = rebuild,
                    pl_adoption = adoption, pl_revision = revision,
                    pl_producers = manifest_producers manifest\<rparr>))"

section \<open>Publication and deletion\<close>

definition maintained_root ::
  "('s, 'm) log_env_scheme \<Rightarrow> engine \<Rightarrow> string \<Rightarrow> int \<Rightarrow> nat \<Rightarrow> log_manifest \<Rightarrow> maintenance_plan
   \<Rightarrow> ('s, log_error, root) io" where
  "maintained_root E L topic part maximum manifest plan =
     io_bind (case manifest of
                Indexed root \<Rightarrow>
                  if pl_rebuild plan
                  then rebuild_index E L topic part (pl_retained plan) (rep_start_offset (pl_report plan))
                         (rep_next_offset (pl_report plan)) maximum
                  else io_ret root
              | Legacy m \<Rightarrow>
                  rebuild_index E L topic part (pl_retained plan) (rep_start_offset (pl_report plan))
                    (rep_next_offset (pl_report plan)) maximum) (\<lambda>root.
     io_bind (io_lift (ok_or (checked_add_u64 (pl_revision plan) 1) RevisionOverflow)) (\<lambda>revision.
       let root = root\<lparr>rt_producers := pl_producers plan, rt_schema := INDEX_SCHEMA,
                       rt_adopted_at_ms := Some (pl_adoption plan), rt_revision := revision\<rparr>
       in io_bind (io_lift (validate_root (w_uuid_ok E) root (en_prefix L) topic part)) (\<lambda>_. io_ret root)))"

fun collect_objects ::
  "('s, 'm) log_env_scheme \<Rightarrow> string set \<Rightarrow> (string \<times> nat) list \<Rightarrow> maintenance_report
   \<Rightarrow> ('s, log_error, maintenance_report) io" where
  "collect_objects E live [] report = io_ret report"
| "collect_objects E live ((object, len) # removable) report =
     (if object \<in> live then collect_objects E live removable report
      else io_bind (io_try (w_delete E (w_path_from E object))) (\<lambda>deleted.
        let collected = report\<lparr>rep_collected_objects := rep_collected_objects report + 1,
                               rep_collected_bytes := rep_collected_bytes report + len\<rparr>
        in case deleted of
             Inr _ \<Rightarrow> collect_objects E live removable collected
           | Inl NotFound \<Rightarrow> collect_objects E live removable collected
           | Inl e \<Rightarrow> io_err (incomplete report (ObjectStore e))))"

text \<open>
  The attempts carry \<open>last_publication\<close> beside the world: the report of the last root that
  was certainly published.
\<close>

definition set_publication :: "maintenance_report \<Rightarrow> ('s \<times> maintenance_report option, 'e, unit) io" where
  "set_publication report st = (Inr (), (fst st, Some report))"

text \<open>After publication: the second trace, of the committed root, then the deletions.\<close>

definition collect_phase ::
  "('s, 'm) log_env_scheme \<Rightarrow> engine \<Rightarrow> string \<Rightarrow> int \<Rightarrow> nat \<Rightarrow> root \<Rightarrow> update_version
   \<Rightarrow> (string \<times> nat) list \<Rightarrow> maintenance_report \<Rightarrow> ('s, log_error, maintenance_report option) io" where
  "collect_phase E L topic part maximum root ver removable report =
     io_bind (io_try (trace_manifest E L topic part (Indexed root) maximum)) (\<lambda>traced.
       case traced of
         Inl error \<Rightarrow>
           io_bind (io_try (stale_missing E L topic part (Some ver) error)) (\<lambda>stale.
             case stale of
               Inr True \<Rightarrow> io_ret None
             | Inr False \<Rightarrow> io_err (incomplete report error)
             | Inl error' \<Rightarrow> io_err (incomplete report error'))
       | Inr live \<Rightarrow>
           io_bind (collect_objects E (lg_objects live) removable report) (\<lambda>report.
             io_ret (Some report)))"

definition publish_phase ::
  "('s, 'm) log_env_scheme \<Rightarrow> engine \<Rightarrow> string \<Rightarrow> int \<Rightarrow> nat \<Rightarrow> loaded_manifest \<Rightarrow> maintenance_plan
   \<Rightarrow> ('s \<times> maintenance_report option, log_error, maintenance_report option) io" where
  "publish_phase E L topic part maximum loaded plan =
     io_bind (io_fst (maintained_root E L topic part maximum (ld_manifest loaded) plan)) (\<lambda>root.
     io_bind (io_json (le_root_to_vec E root)) (\<lambda>bytes.
       if length bytes > MAX_MANIFEST_BYTES then io_err (invalid ''maintenance root exceeds byte limit'')
       else
         let mode = (case ld_version loaded of None \<Rightarrow> Create | Some v \<Rightarrow> Update v)
         in io_bind (io_try (io_fst (w_put E (manifest_path E L topic part) bytes mode))) (\<lambda>put.
            case put of
              Inr ver \<Rightarrow>
                let report = (pl_report plan)\<lparr>rep_applied := True\<rparr>
                in io_bind (set_publication report) (\<lambda>_.
                     io_fst (collect_phase E L topic part maximum root ver (pl_removable plan) report))
            | Inl Precondition \<Rightarrow> io_ret None
            | Inl AlreadyExists \<Rightarrow> io_ret None
            | Inl e \<Rightarrow>
                io_err (incomplete ((pl_report plan)\<lparr>rep_publication_uncertain := True\<rparr>) (ObjectStore e)))))"

section \<open>The attempts\<close>

definition maintain_attempt ::
  "('s, 'm) log_env_scheme \<Rightarrow> engine \<Rightarrow> string \<Rightarrow> int \<Rightarrow> maintenance_options \<Rightarrow> nat
   \<Rightarrow> ('s \<times> maintenance_report option, log_error, maintenance_report option) io" where
  "maintain_attempt E L topic part options now =
     io_bind (io_fst (inventory E L topic part (mo_max_objects options))) (\<lambda>objects.
     io_bind (io_fst (load_or_empty E L topic part)) (\<lambda>loaded.
     io_bind (io_try (io_fst (trace_manifest E L topic part (ld_manifest loaded) (mo_max_objects options)))) (\<lambda>traced.
       case traced of
         Inl error \<Rightarrow>
           io_bind (io_fst (stale_missing E L topic part (ld_version loaded) error)) (\<lambda>stale.
             if stale then io_ret None else io_err error)
       | Inr graph \<Rightarrow>
           io_bind (io_lift (plan_maintenance L topic part options now (ld_manifest loaded) graph objects)) (\<lambda>plan.
             if \<not> mo_apply options then io_ret (Some (pl_report plan))
             else publish_phase E L topic part (mo_max_objects options) loaded plan))))"

definition maintain_attempts ::
  "('s, 'm) log_env_scheme \<Rightarrow> engine \<Rightarrow> string \<Rightarrow> int \<Rightarrow> maintenance_options \<Rightarrow> nat
   \<Rightarrow> ('s \<times> maintenance_report option, log_error, maintenance_report) io" where
  "maintain_attempts E L topic part options now =
     retry MAX_CAS_ATTEMPTS (ContentionExhausted MAX_CAS_ATTEMPTS) (maintain_attempt E L topic part options now)"

definition publication_result ::
  "log_error + maintenance_report \<Rightarrow> maintenance_report option \<Rightarrow> log_error + maintenance_report" where
  "publication_result result last_publication =
     (case (result, last_publication) of
        (Inl (MaintenanceIncomplete report source), _) \<Rightarrow> Inl (MaintenanceIncomplete report source)
      | (Inl error, Some report) \<Rightarrow> Inl (incomplete report error)
      | (result, _) \<Rightarrow> result)"

definition maintain_at ::
  "('s, 'm) log_env_scheme \<Rightarrow> engine \<Rightarrow> string \<Rightarrow> int \<Rightarrow> maintenance_options \<Rightarrow> nat
   \<Rightarrow> ('s, log_error, maintenance_report) io" where
  "maintain_at E L topic part options now s =
     (case maintain_attempts E L topic part options now (s, None) of
        (result, (t, last_publication)) \<Rightarrow> (publication_result result last_publication, t))"

definition maintain ::
  "('s, 'm) log_env_scheme \<Rightarrow> engine \<Rightarrow> string \<Rightarrow> int \<Rightarrow> maintenance_options
   \<Rightarrow> ('s, log_error, maintenance_report) io" where
  "maintain E L topic part options =
     io_bind (io_lift (validate_maintenance options)) (\<lambda>_.
     io_bind (io_lift (validate_topic topic)) (\<lambda>_.
     io_bind (io_lift (validate_partition part MAX_TOPIC_PARTITIONS)) (\<lambda>_.
     io_bind (topic_partition_count E L topic) (\<lambda>count.
     io_bind (io_lift (ok_or count (UnknownTopic topic))) (\<lambda>partition_count.
     io_bind (io_lift (validate_partition part partition_count)) (\<lambda>_.
     io_bind (unix_millis E) (\<lambda>now.
       maintain_at E L topic part options now)))))))"

end
