(* ===== verification/Maintenance_Laws.thy ===== *)
theory Maintenance_Laws
  imports Maintenance Log_Fetch_Laws
begin

text \<open>
  What maintenance promises. Retention expires a maximal oldest prefix; a preview only reads;
  an applied run publishes a root that denotes exactly the retained batches, and whatever it
  deletes afterwards, that root stays readable: its index pages, its record objects and its
  producer directory are untouched.
\<close>

section \<open>Retention\<close>

definition batch_expired :: "maintenance_options \<Rightarrow> nat \<Rightarrow> nat \<Rightarrow> segment list \<Rightarrow> bool" where
  "batch_expired options adoption now sgs \<longleftrightarrow>
     age_expired (mo_max_age_ms options) adoption now (hd sgs) \<or> size_expired (mo_max_bytes options) (seg_bytes sgs)"

lemma expire_segments_prefix:
  assumes "expire_segments options adoption now sgs n (seg_bytes sgs) = (expired, left)"
  shows "n \<le> expired \<and> expired - n \<le> length sgs \<and> left = seg_bytes (drop (expired - n) sgs)
    \<and> (\<forall>i < expired - n. batch_expired options adoption now (drop i sgs))
    \<and> (drop (expired - n) sgs \<noteq> [] \<longrightarrow> \<not> batch_expired options adoption now (drop (expired - n) sgs))"
  using assms
proof (induction sgs arbitrary: n)
  case (Cons sg sgs)
  show ?case
  proof (cases "batch_expired options adoption now (sg # sgs)")
    case True
    with Cons.prems have run: "expire_segments options adoption now sgs (n + 1) (seg_bytes sgs) = (expired, left)"
      by (auto simp: batch_expired_def seg_bytes_def)
    note IH = Cons.IH [OF run]
    then have k: "expired - n = Suc (expired - (n + 1))" by auto
    have "batch_expired options adoption now (drop i (sg # sgs))" if "i < expired - n" for i
      using that IH True k by (cases i) auto
    with IH k show ?thesis by auto
  next
    case False
    with Cons.prems show ?thesis by (auto simp: batch_expired_def)
  qed
qed simp

text \<open>C16 (retention_maximal_prefix). Retention expires the longest oldest run of batches each of which
  was too old or met more retained bytes than the limit when its turn came; the byte count it
  reports is that of the batches that remain, which therefore respect both limits.\<close>

theorem retention_maximal_prefix:
  assumes "expire_segments options adoption now sgs 0 (sum_list (map sg_byte_length sgs)) = (expired, left)"
  shows "expired \<le> length sgs \<and> left = seg_bytes (drop expired sgs)
    \<and> (\<forall>i < expired. batch_expired options adoption now (drop i sgs))
    \<and> (drop expired sgs \<noteq> [] \<longrightarrow> \<not> batch_expired options adoption now (drop expired sgs))"
  using expire_segments_prefix [of options adoption now sgs 0] assms by (simp add: seg_bytes_def)

definition small_retention :: maintenance_options where
  "small_retention = \<lparr>mo_max_age_ms = Some 10, mo_max_bytes = Some 30, mo_apply = True, mo_max_objects = 9\<rparr>"

definition three_batches :: "segment list" where
  "three_batches = [sample_segment 0 1 20, sample_segment 1 1 20, sample_segment 2 1 20]"

theorem retention_maximal_prefix_witness:
  "expire_segments small_retention 0 100 three_batches 0 60 = (2, 20)
   \<and> \<not> batch_expired small_retention 0 100 (drop 2 three_batches)"
proof -
  have run: "expire_segments small_retention 0 100 three_batches 0 (sum_list (map sg_byte_length three_batches)) = (2, 20)"
    by (simp add: small_retention_def three_batches_def age_expired_def size_expired_def sample_segment_def checked_add_u64_def u64_max_def)
  from retention_maximal_prefix [OF run] run show ?thesis
    by (simp add: three_batches_def sample_segment_def)
qed

section \<open>A preview only reads\<close>

lemma inventory_reads [io_keeps_rules]:
  assumes "reads_keep R E"
  shows "io_keeps R (inventory E L topic part maximum)"
proof -
  have "io_keeps R (inventory_from E namespace maximum dirs st)" for namespace dirs st
    by (induction dirs arbitrary: st) (auto simp: Let_def intro!: io_keeps_rules reads_keepD [OF assms])
  then show ?thesis by (simp add: inventory_def)
qed

lemma trace_manifest_reads [io_keeps_rules]:
  assumes "reads_keep R E"
  shows "io_keeps R (trace_manifest E L topic part manifest maximum)"
proof -
  have "io_keeps R (trace_segments E maximum sgs graph)" for sgs graph
    by (induction sgs arbitrary: graph) (auto intro!: io_keeps_rules reads_keepD [OF assms])
  then show ?thesis
    unfolding trace_manifest_def Let_def
    by (intro io_keeps_rules trace_index_keeps trace_producers_keeps read_page_reads read_producer_page_reads assms)
qed

definition on_world :: "('s \<Rightarrow> 's \<Rightarrow> bool) \<Rightarrow> 's \<times> 'p \<Rightarrow> 's \<times> 'p \<Rightarrow> bool" where
  "on_world R st st' \<longleftrightarrow> R (fst st) (fst st') \<and> snd st' = snd st"

lemma on_world_rtrancl: "(on_world R)\<^sup>*\<^sup>* st st' \<longleftrightarrow> R\<^sup>*\<^sup>* (fst st) (fst st') \<and> snd st' = snd st"
proof
  assume "(on_world R)\<^sup>*\<^sup>* st st'"
  then show "R\<^sup>*\<^sup>* (fst st) (fst st') \<and> snd st' = snd st"
    by induction (auto simp: on_world_def intro: rtranclp.rtrancl_into_rtrancl)
next
  have "R\<^sup>*\<^sup>* s t \<Longrightarrow> (on_world R)\<^sup>*\<^sup>* (s, p) (t, p)" for s t p
    by (induction rule: rtranclp_induct) (auto simp: on_world_def intro: rtranclp.rtrancl_into_rtrancl)
  then show "R\<^sup>*\<^sup>* (fst st) (fst st') \<and> snd st' = snd st \<Longrightarrow> (on_world R)\<^sup>*\<^sup>* st st'"
    by (metis prod.collapse)
qed

lemma io_keeps_fst [io_keeps_rules]: "io_keeps R m \<Longrightarrow> io_keeps (on_world R) (io_fst m)"
  by (auto simp: io_keeps_def on_world_rtrancl result_simps)

lemma preview_attempt_reads:
  assumes "reads_keep R E" "\<not> mo_apply options"
  shows "io_keeps (on_world R) (maintain_attempt E L topic part options now)"
  unfolding maintain_attempt_def if_P [OF assms(2)]
  by (intro io_keeps_rules assms(1))

lemma preview_keeps:
  assumes "reads_keep R E" "\<not> mo_apply options"
  shows "io_keeps R (maintain E L topic part options)"
proof -
  have "io_keeps (on_world R) (maintain_attempts E L topic part options now)" for now
    unfolding maintain_attempts_def by (intro io_keeps_rules preview_attempt_reads assms)
  then have "io_keeps R (maintain_at E L topic part options now)" for now
    unfolding io_keeps_def maintain_at_def by (force simp: on_world_rtrancl split: prod.splits)
  then show ?thesis
    unfolding maintain_def unix_millis_def
    by (intro io_keeps_rules known_partition_reads(1) reads_keepD [OF assms(1)] assms(1))
qed

text \<open>C17 (preview_only_reads). A maintenance run without \<open>apply\<close> performs only reading calls of the
  bucket, on every path including its errors and retries: any relation the single reading calls
  keep holds between the states before and after the run.\<close>

theorem preview_only_reads:
  assumes "reads_keep R E" "\<not> mo_apply options"
    and "maintain E L topic part options s = (x, t)"
  shows "R\<^sup>*\<^sup>* s t"
  using preview_keeps [OF assms(1,2)] assms(3) by (auto dest: io_keepsD)

section \<open>Deletion spares what is live\<close>

text \<open>
  \<open>Path::from\<close> leaves the name of a recognized object alone, or encodes a character of it (some
  accepted UUID forms have braces) and then encodes its own escape again.
\<close>

definition collectible :: "(string \<Rightarrow> bool) \<Rightarrow> engine \<Rightarrow> string \<Rightarrow> int \<Rightarrow> string \<Rightarrow> bool" where
  "collectible uuid_ok L topic part key \<longleftrightarrow>
     list_ex (\<lambda>(directory, suf). recognized uuid_ok (engine_dir L topic part @ directory @ ''/'') suf key) inventory_dirs"

definition collect_laws :: "('s, 'm) world_scheme \<Rightarrow> engine \<Rightarrow> string \<Rightarrow> int \<Rightarrow> bool" where
  "collect_laws W L topic part \<longleftrightarrow>
     (\<forall>key. collectible (w_uuid_ok W) L topic part key \<longrightarrow>
        w_path_from W key = key \<or> w_path_from W (w_path_from W key) \<noteq> w_path_from W key)"

text \<open>Live objects whose names are canonical paths are as they were.\<close>

definition spares ::
  "('s, 'm) world_scheme \<Rightarrow> string \<Rightarrow> string set \<Rightarrow> objects \<Rightarrow> objects \<Rightarrow> bool" where
  "spares W dir live m m' \<longleftrightarrow>
     (\<forall>p \<in> live. immutable_name dir p \<longrightarrow> w_path_from W p = p \<longrightarrow> m p \<noteq> None \<longrightarrow> m' p = m p)"

lemma spares_trans: "spares W dir live m m' \<Longrightarrow> spares W dir live m' m'' \<Longrightarrow> spares W dir live m m''"
  unfolding spares_def by metis

lemma keeps_dir_spares: "keeps_dir dir m m' \<Longrightarrow> spares W dir live m m'"
  by (auto simp: spares_def keeps_dir_def)

lemma inventory_scan_keys:
  "inventory_scan ok pre suf maximum listed (objects, n) = Inr (objects', n') \<Longrightarrow>
   set (bt_keys objects') \<subseteq> set (bt_keys objects) \<union> {key. recognized ok pre suf key}"
proof (induction listed arbitrary: objects n)
  case (Cons x listed)
  show ?case
  proof (cases x)
    case (Inr entry)
    obtain key len where entry: "entry = (key, len)" by force
    let ?objects = "if recognized ok pre suf key then bt_insert key len objects else objects"
    from Cons.prems Inr entry have run: "inventory_scan ok pre suf maximum listed (?objects, n + 1) = Inr (objects', n')"
      by (simp split: if_splits)
    have "set (bt_keys ?objects) \<subseteq> set (bt_keys objects) \<union> {key. recognized ok pre suf key}"
      by (auto simp: bt_keys_def bt_keys_insert [unfolded set_map])
    with Cons.IH [OF run] show ?thesis by blast
  qed (use Cons.prems in simp)
qed simp

lemma inventory_collectible:
  assumes "inventory E L topic part maximum s = (Inr objects, t)"
  shows "\<forall>key \<in> set (bt_keys objects). collectible (w_uuid_ok E) L topic part key"
proof -
  have "set (bt_keys objects) \<subseteq> set (bt_keys (fst st)) \<union>
      {key. \<exists>(d, suf) \<in> set dirs. recognized (w_uuid_ok E) (namespace @ d @ ''/'') suf key}"
    if "inventory_from E namespace maximum dirs st s = (Inr objects, t)" for namespace dirs st s
    using that
  proof (induction dirs arbitrary: st s)
    case (Cons d dirs)
    obtain name suf where d: "d = (name, suf)" by force
    with Cons.prems obtain listed st' u where
      scan: "inventory_scan (w_uuid_ok E) (namespace @ name @ ''/'') suf maximum listed st = Inr st'"
      and rest: "inventory_from E namespace maximum dirs st' u = (Inr objects, t)"
      by (auto simp: Let_def result_simps)
    have "set (bt_keys (fst st')) \<subseteq> set (bt_keys (fst st)) \<union>
        {key. recognized (w_uuid_ok E) (namespace @ name @ ''/'') suf key}"
      using inventory_scan_keys [of "w_uuid_ok E" _ suf maximum listed "fst st" "snd st" "fst st'" "snd st'"] scan by simp
    with Cons.IH [OF rest] d show ?case by auto
  qed auto
  from this [of "engine_dir L topic part" inventory_dirs "([], 0)" s] assms show ?thesis
    by (auto simp: inventory_def collectible_def list_ex_iff bt_keys_def)
qed

lemma delete_spares:
  assumes laws: "store_laws W view rely" and rely: "\<And>m m'. rely m m' \<Longrightarrow> keeps_dir dir m m'"
    and key: "w_path_from W key = key \<or> w_path_from W (w_path_from W key) \<noteq> w_path_from W key" "key \<notin> live"
    and run: "w_delete W (w_path_from W key) s = (r, t)"
  shows "spares W dir live (view s) (view t)"
proof -
  from store_laws_delete [OF laws run] obtain u where
    u: "rely (view s) (view u)" "delete_outcome (w_path_from W key) r (view u) (view t)" by blast
  have "view t p = view u p" if "p \<in> live" "w_path_from W p = p" for p
  proof -
    have "p \<noteq> w_path_from W key" using that key by metis
    with u(2) show ?thesis by (auto simp: delete_outcome_def split: sum.splits store_error.splits)
  qed
  then have "spares W dir live (view u) (view t)" by (simp add: spares_def)
  with keeps_dir_spares [OF rely [OF u(1)]] show ?thesis by (rule spares_trans)
qed

text \<open>A report of the same run with other counters of the collection.\<close>

definition progressed :: "maintenance_report \<Rightarrow> maintenance_report \<Rightarrow> bool" where
  "progressed report report' \<longleftrightarrow>
     (\<exists>n b. report' = report\<lparr>rep_collected_objects := n, rep_collected_bytes := b\<rparr>)"

lemma progressed_refl: "progressed report report"
  unfolding progressed_def
  by (intro exI [of _ "rep_collected_objects report"] exI [of _ "rep_collected_bytes report"]) simp

lemma progressed_step: "progressed (report\<lparr>rep_collected_objects := n, rep_collected_bytes := b\<rparr>) report' \<Longrightarrow> progressed report report'"
  by (auto simp: progressed_def)

text \<open>
  What happens to the bucket while a run collects: steps of other clients, and deletions of objects
  that are neither the root nor live under a canonical name.
\<close>

inductive collects ::
  "('s, 'm) world_scheme \<Rightarrow> engine \<Rightarrow> string \<Rightarrow> int \<Rightarrow> (objects \<Rightarrow> objects \<Rightarrow> bool) \<Rightarrow> string set \<Rightarrow> objects \<Rightarrow> objects \<Rightarrow> bool"
  for W L topic part rely live where
  none: "collects W L topic part rely live m m"
| by_others: "collects W L topic part rely live m m' \<Longrightarrow> rely m' m'' \<Longrightarrow> collects W L topic part rely live m m''"
| deletes: "collects W L topic part rely live m m' \<Longrightarrow> p \<noteq> manifest_path W L topic part \<Longrightarrow>
    w_path_from W p = p \<longrightarrow> p \<notin> live \<Longrightarrow> collects W L topic part rely live m (m'(p := None))"

lemma collects_trans:
  assumes "collects W L topic part rely live m' m''" "collects W L topic part rely live m m'"
  shows "collects W L topic part rely live m m''"
  using assms by (induction rule: collects.induct) (auto intro: collects.intros)

lemma collects_rely: "rely m m' \<Longrightarrow> collects W L topic part rely live m m'"
  using collects.none by (rule collects.by_others)

lemma collectible_not_root:
  assumes "name_laws W L topic part" "collectible ok L topic part key"
  shows "key \<noteq> manifest_path W L topic part"
proof
  assume "key = manifest_path W L topic part"
  with assms(1) have key: "key = engine_dir L topic part @ ''manifest.json''" by (simp add: name_laws_def manifest_path_def)
  from assms(2) obtain d suf where "(d, suf) \<in> set inventory_dirs" "recognized ok (engine_dir L topic part @ d @ ''/'') suf key"
    by (auto simp: collectible_def list_ex_iff)
  then show False unfolding key
    by (auto simp: inventory_dirs_def recognized_def strip_prefix_def starts_with_iff split: option.splits if_splits)
qed

lemma delete_collects:
  assumes laws: "store_laws W view rely" and names: "name_laws W L topic part"
    and cl: "collect_laws W L topic part" and key: "collectible (w_uuid_ok W) L topic part key" "key \<notin> live"
    and run: "w_delete W (w_path_from W key) s = (r, t)"
  shows "collects W L topic part rely live (view s) (view t)"
proof -
  let ?p = "w_path_from W key"
  have same: "?p = key \<or> w_path_from W ?p \<noteq> ?p" using cl key(1) by (simp add: collect_laws_def)
  have "w_path_from W (manifest_path W L topic part) = manifest_path W L topic part"
    using names by (simp add: name_laws_def manifest_path_def)
  with same collectible_not_root [OF names key(1)] have "?p \<noteq> manifest_path W L topic part" by metis
  moreover have "w_path_from W ?p = ?p \<longrightarrow> ?p \<notin> live" using same key(2) by auto
  moreover from store_laws_delete [OF laws run] obtain u where
    u: "rely (view s) (view u)" "delete_outcome ?p r (view u) (view t)" by blast
  moreover have su: "collects W L topic part rely live (view s) (view u)" using u(1) by (rule collects_rely)
  moreover have "view t = view u \<or> view t = (view u)(?p := None)"
    using u(2) by (auto simp: delete_outcome_def split: sum.splits store_error.splits)
  ultimately show ?thesis using collects.deletes [OF su] by auto
qed

lemma collect_objects_collects:
  assumes laws: "store_laws E view rely" and names: "name_laws E L topic part" and cl: "collect_laws E L topic part"
    and named: "\<forall>key \<in> set (map fst removable). collectible (w_uuid_ok E) L topic part key"
    and run: "collect_objects E live removable report s = (x, t)"
  shows "collects E L topic part rely live (view s) (view t)"
  using named run
proof (induction removable arbitrary: report s)
  case Nil
  then show ?case by (auto intro: collects.none)
next
  case (Cons o' removable)
  obtain key len where o': "o' = (key, len)" by force
  have named: "\<forall>key \<in> set (map fst removable). collectible (w_uuid_ok E) L topic part key" using Cons.prems(1) by simp
  show ?case
  proof (cases "key \<in> live")
    case True
    with Cons.prems o' have "collect_objects E live removable report s = (x, t)" by simp
    with Cons.IH [OF named] show ?thesis by blast
  next
    case False
    obtain r u where del: "w_delete E (w_path_from E key) s = (r, u)" by force
    have "collectible (w_uuid_ok E) L topic part key" using Cons.prems(1) o' by simp
    note su = delete_collects [OF laws names cl this False del]
    have "(\<exists>report'. collect_objects E live removable report' u = (x, t)) \<or> t = u"
      using Cons.prems(2) False o' del
      by (cases r; cases "projl r") (auto simp: io_bind_def io_try_def Let_def)
    with Cons.IH [OF named] su show ?thesis by (auto intro: collects_trans)
  qed
qed

lemma collect_objects_spares:
  assumes laws: "store_laws E view rely" and rely: "\<And>m m'. rely m m' \<Longrightarrow> keeps_dir dir m m'"
    and cl: "collect_laws E L topic part"
    and named: "\<forall>key \<in> set (map fst removable). collectible (w_uuid_ok E) L topic part key"
    and run: "collect_objects E live removable report s = (x, t)"
  shows "spares E dir live (view s) (view t)
    \<and> (case x of
         Inl e \<Rightarrow> \<exists>report' e'. e = incomplete report' e' \<and> progressed report report'
       | Inr report' \<Rightarrow> progressed report report'
           \<and> rep_collected_objects report' \<le> rep_collected_objects report + length removable)"
  using named run
proof (induction removable arbitrary: report s)
  case Nil
  then have "x = Inr report" "t = s" by auto
  then show ?case by (simp add: spares_def progressed_refl)
next
  case (Cons o' removable)
  obtain key len where o': "o' = (key, len)" by force
  have named: "\<forall>key \<in> set (map fst removable). collectible (w_uuid_ok E) L topic part key" using Cons.prems(1) by simp
  show ?case
  proof (cases "key \<in> live")
    case True
    with Cons.prems o' have "collect_objects E live removable report s = (x, t)" by simp
    from Cons.IH [OF named this] show ?thesis by (auto split: sum.splits)
  next
    case False
    obtain r u where del: "w_delete E (w_path_from E key) s = (r, u)" by force
    have "w_path_from E key = key \<or> w_path_from E (w_path_from E key) \<noteq> w_path_from E key"
      using cl Cons.prems(1) o' by (auto simp: collect_laws_def)
    from delete_spares [OF laws rely this False del] have su: "spares E dir live (view s) (view u)" .
    let ?c = "report\<lparr>rep_collected_objects := rep_collected_objects report + 1, rep_collected_bytes := rep_collected_bytes report + len\<rparr>"
    have cases: "collect_objects E live removable ?c u = (x, t)
        \<or> (\<exists>e. x = Inl (incomplete report (ObjectStore e)) \<and> t = u)"
      using Cons.prems(2) False o' del
      by (cases r; cases "projl r") (auto simp: io_bind_def io_try_def Let_def)
    then show ?thesis
    proof
      assume "collect_objects E live removable ?c u = (x, t)"
      from Cons.IH [OF named this] su show ?thesis
        by (auto split: sum.splits intro: spares_trans dest: progressed_step)
    next
      assume "\<exists>e. x = Inl (incomplete report (ObjectStore e)) \<and> t = u"
      then obtain e where e: "x = Inl (incomplete report (ObjectStore e))" "t = u" by blast
      have "\<exists>report' e'. incomplete report (ObjectStore e) = incomplete report' e' \<and> progressed report report'"
        using progressed_refl by blast
      with e su show ?thesis by simp
    qed
  qed
qed

section \<open>The complete live graph\<close>

lemma trace_producer_pages_complete:
  assumes legal: "producer_legal E L topic part view rely"
    and run: "trace_producer_pages E L topic part n maximum stack graph s = (Inr g, t)"
  shows "lg_segments g = lg_segments graph \<and> lg_objects graph \<subseteq> lg_objects g
    \<and> keeps_dir (engine_dir L topic part) (view s) (view t)
    \<and> (\<forall>r \<in> set stack. \<forall>o'. page_object (producer_stored E L topic part n (view s)) producer_kids pf_object r o' \<longrightarrow> o' \<in> lg_objects g)"
  using run
proof (induction "stack_weight (map pf_level stack)" arbitrary: stack graph s rule: less_induct)
  case less
  show ?case
  proof (cases stack)
    case Nil
    with less.prems show ?thesis by auto
  next
    case (Cons r rest)
    from less.prems Cons obtain graph' p u where
      ins: "graph_insert (pf_object r) maximum graph = Inr graph'"
      and get: "read_producer_page E L topic part n r s = (Inr p, u)"
      by (auto split: sum.splits prod.splits)
    have graph': "lg_segments graph' = lg_segments graph" "lg_objects graph' = insert (pf_object r) (lg_objects graph)"
      using ins by (auto simp: graph_insert_def split: if_splits)
    have su: "keeps_dir (engine_dir L topic part) (view s) (view u)" by (rule pd.read_later [OF legal get])
    have stored: "producer_stored E L topic part n (view s) r q \<Longrightarrow> q = p" for q
      using pd.read_stored [OF legal get] by blast
    have objects: "page_object (producer_stored E L topic part n (view s)) producer_kids pf_object r' o' \<Longrightarrow>
        page_object (producer_stored E L topic part n (view u)) producer_kids pf_object r' o'" for r' o'
      by (erule page_object_mono) (rule producer_stored_later [OF _ su])
    have cover: "o' = pf_object r \<or> (\<exists>c \<in> set (producer_kids p). page_object (producer_stored E L topic part n (view u)) producer_kids pf_object c o')"
      if "page_object (producer_stored E L topic part n (view s)) producer_kids pf_object r o'" for o'
      using that stored objects by cases auto
    have run': "trace_producer_pages E L topic part n maximum (rev (producer_kids p) @ rest) graph' u = (Inr g, t)"
      using less.prems Cons ins get by (cases p) auto
    have lt: "stack_weight (map pf_level (rev (producer_kids p) @ rest)) < stack_weight (map pf_level stack)"
      using Cons read_producer_Branch_weight [of E L topic part n r s _ u] get by (cases p) auto
    note IH = less.hyps [OF lt run']
    have "o' \<in> lg_objects g"
      if "r' \<in> set stack" "page_object (producer_stored E L topic part n (view s)) producer_kids pf_object r' o'" for r' o'
    proof (cases "r' = r")
      case True
      with cover [of o'] that consider "o' = pf_object r" | c where "c \<in> set (producer_kids p)"
          "page_object (producer_stored E L topic part n (view u)) producer_kids pf_object c o'" by auto
      then show ?thesis using graph'(2) IH by cases auto
    next
      case False
      with that Cons have "r' \<in> set (rev (producer_kids p) @ rest)" by simp
      with IH objects [OF that(2)] show ?thesis by blast
    qed
    then show ?thesis using IH graph' su by (auto intro: keeps_dir_trans)
  qed
qed

lemma trace_segments_complete:
  assumes laws: "store_laws E view rely" and rely: "\<And>m m'. rely m m' \<Longrightarrow> keeps_dir dir m m'"
    and run: "trace_segments E maximum sgs graph s = (Inr g, t)"
  shows "lg_segments g = lg_segments graph \<and> lg_objects graph \<subseteq> lg_objects g
    \<and> keeps_dir dir (view s) (view t)
    \<and> (\<forall>sg \<in> set sgs. sg_object sg \<in> lg_objects g
         \<and> (immutable_name dir (sg_object sg) \<longrightarrow> w_path_from E (sg_object sg) = sg_object sg \<longrightarrow>
              (\<exists>v b. view t (sg_object sg) = Some (v, b) \<and> length b = sg_byte_length sg)))"
  using run
proof (induction sgs arbitrary: graph s)
  case (Cons sg sgs)
  let ?g = "graph\<lparr>lg_objects := insert (sg_object sg) (lg_objects graph)\<rparr>"
  from Cons.prems obtain u where
    head: "w_head E (w_path_from E (sg_object sg)) s = (Inr (sg_byte_length sg), u)"
    and rest: "trace_segments E maximum sgs ?g u = (Inr g, t)"
    by (auto simp: result_simps split: if_splits)
  from store_laws_head [OF laws head] have
    h: "keeps_dir dir (view s) (view u)" "\<exists>v b. view u (w_path_from E (sg_object sg)) = Some (v, b) \<and> length b = sg_byte_length sg"
    using rely by (auto simp: head_outcome_def split: option.splits)
  note IH = Cons.IH [OF rest]
  have "\<exists>v b. view t (sg_object sg) = Some (v, b) \<and> length b = sg_byte_length sg"
    if "immutable_name dir (sg_object sg)" "w_path_from E (sg_object sg) = sg_object sg"
    using h(2) that IH by (auto dest: keeps_dir_SomeD)
  with IH h(1) show ?case by (auto intro: keeps_dir_trans)
qed simp

text \<open>What a complete trace of a manifest that denotes \<open>xs\<close> has reached.\<close>

definition graph_covers ::
  "('s, 'm) log_env_scheme \<Rightarrow> engine \<Rightarrow> string \<Rightarrow> int \<Rightarrow> objects \<Rightarrow> log_manifest \<Rightarrow> live_graph \<Rightarrow> bool" where
  "graph_covers E L topic part m lm g \<longleftrightarrow>
     (\<forall>sg \<in> set (lg_segments g). sg_object sg \<in> lg_objects g)
   \<and> (\<forall>root tree x. lm = Indexed root \<longrightarrow> rt_tree root = Some tree \<longrightarrow>
        page_object (index_stored E L topic part m) page_kids pr_object tree x \<longrightarrow> x \<in> lg_objects g)
   \<and> (\<forall>root p x. lm = Indexed root \<longrightarrow> rt_producers root = Some p \<longrightarrow>
        page_object (producer_stored E L topic part (rt_next_offset root) m) producer_kids pf_object p x \<longrightarrow> x \<in> lg_objects g)"

lemma trace_manifest_complete:
  assumes legal: "log_legal E L topic part view rely"
    and run: "trace_manifest E L topic part lm maximum s = (Inr g, t)"
    and holds: "manifest_holds E L topic part (view s) lm xs"
  shows "lg_segments g = xs \<and> keeps_dir (engine_dir L topic part) (view s) (view t)
    \<and> graph_covers E L topic part (view s) lm g
    \<and> (\<forall>sg \<in> set xs. immutable_name (engine_dir L topic part) (sg_object sg) \<longrightarrow>
         w_path_from E (sg_object sg) = sg_object sg \<longrightarrow>
         (\<exists>v b. view t (sg_object sg) = Some (v, b) \<and> length b = sg_byte_length sg))"
proof -
  let ?dir = "engine_dir L topic part" and ?empty = "\<lparr>lg_segments = [], lg_objects = {}\<rparr>"
  note segs = trace_segments_complete [OF log_legalD(3) [OF legal] log_legalD(6) [OF legal], simplified]
  show ?thesis
  proof (cases lm)
    case (Legacy mf)
    with run have "trace_segments E maximum (mf_segments mf) (?empty\<lparr>lg_segments := mf_segments mf\<rparr>) s = (Inr g, t)"
      by (simp add: trace_manifest_def)
    from segs [OF this] Legacy holds show ?thesis by (auto simp: graph_covers_def)
  next
    case (Indexed root)
    with run obtain g1 g2 u v where
      ti: "trace_index E L topic part root ?empty maximum s = (Inr g1, u)"
      and tp: "trace_producers E L topic part root g1 maximum u = (Inr g2, v)"
      and ts: "trace_segments E maximum (lg_segments g2) g2 v = (Inr g, t)"
      by (auto simp: trace_manifest_def Let_def result_simps)
    from holds Indexed have root: "root_holds E L topic part (view s) root xs" by simp
    note i = trace_index_holds [OF log_legalD(1) [OF legal] ti root]
    note p = trace_producer_pages_complete [OF log_legalD(2) [OF legal] tp [unfolded trace_producers_def]]
    note sg = segs [OF ts]
    have "x \<in> lg_objects g2" if "rt_producers root = Some pr"
      "page_object (producer_stored E L topic part (rt_next_offset root) (view s)) producer_kids pf_object pr x" for pr x
    proof -
      have "page_object (producer_stored E L topic part (rt_next_offset root) (view u)) producer_kids pf_object pr x"
        using that(2) by (rule page_object_mono) (rule producer_stored_later [OF _ conjunct1 [OF conjunct2 [OF conjunct2 [OF i]]]])
      with p that(1) show ?thesis by auto
    qed
    then have producers: "x \<in> lg_objects g" if "rt_producers root = Some pr"
      "page_object (producer_stored E L topic part (rt_next_offset root) (view s)) producer_kids pf_object pr x" for pr x
      using sg that by blast
    have pages: "x \<in> lg_objects g" if "rt_tree root = Some tree"
      "page_object (index_stored E L topic part (view s)) page_kids pr_object tree x" for tree x
      using i p sg that by blast
    have "keeps_dir ?dir (view s) (view t)" using i p sg by (blast intro: keeps_dir_trans)
    with i p sg Indexed producers pages show ?thesis
      unfolding graph_covers_def by auto
  qed
qed

text \<open>What only depends on spared objects still holds.\<close>

lemma denotes_objects:
  assumes "denotes stored kids items r xs"
    and "\<And>x. page_object stored kids name r x \<Longrightarrow> P x"
    and "\<And>r p. stored r p \<Longrightarrow> P (name r) \<Longrightarrow> stored' r p"
  shows "denotes stored' kids items r xs"
  using assms(1,2)
proof (induction rule: denotes.induct)
  case (node r p xss)
  have self: "stored' r p" using node.hyps node.prems by (intro assms(3)) (auto intro: page_object.self)
  have "list_all2 (denotes stored' kids items) (kids p) xss"
    unfolding list_all2_conv_all_nth
  proof (intro conjI allI impI)
    show len: "length (kids p) = length xss" using node.IH by (rule list_all2_lengthD)
    fix i assume i: "i < length (kids p)"
    have "(\<And>x. page_object stored kids name (kids p ! i) x \<Longrightarrow> P x) \<Longrightarrow> denotes stored' kids items (kids p ! i) (xss ! i)"
      using list_all2_nthD [OF node.IH i] by blast
    moreover have "P x" if "page_object stored kids name (kids p ! i) x" for x
      by (rule node.prems [OF page_object.below [OF node.hyps nth_mem [OF i] that]])
    ultimately show "denotes stored' kids items (kids p ! i) (xss ! i)" by blast
  qed
  with self show ?case by (rule denotes.node)
qed

lemma spared_root_holds:
  assumes covers: "graph_covers E L topic part m (Indexed root) g"
    and holds: "root_holds E L topic part m root xs"
    and spares: "spares E (engine_dir L topic part) (lg_objects g) m m'"
  shows "root_holds E L topic part m' root xs"
proof (cases "rt_tree root")
  case None
  with holds show ?thesis by (simp add: root_holds_def)
next
  case (Some tree)
  with holds obtain ys where ys: "index_holds E L topic part m tree ys" "xs = ys @ rt_tail root"
    by (auto simp: root_holds_def)
  have "index_holds E L topic part m' tree ys"
  proof (rule denotes_objects [OF ys(1)])
    show "page_object (index_stored E L topic part m) page_kids pr_object tree x \<Longrightarrow> x \<in> lg_objects g" for x
      using covers Some by (auto simp: graph_covers_def)
    show "index_stored E L topic part m r p \<Longrightarrow> pr_object r \<in> lg_objects g \<Longrightarrow> index_stored E L topic part m' r p" for r p
      using spares unfolding index_stored_def spares_def by (auto dest: valid_ref_in_dir)
  qed
  with Some ys(2) show ?thesis by (auto simp: root_holds_def)
qed

lemma spared_producers_hold:
  assumes covers: "graph_covers E L topic part m (Indexed root) g" and root: "rt_producers root = Some p"
    and holds: "producer_holds E L topic part (rt_next_offset root) m p ps"
    and spares: "spares E (engine_dir L topic part) (lg_objects g) m m'"
  shows "producer_holds E L topic part (rt_next_offset root) m' p ps"
proof (rule denotes_objects [OF holds])
  show "page_object (producer_stored E L topic part (rt_next_offset root) m) producer_kids pf_object p x \<Longrightarrow> x \<in> lg_objects g" for x
    using covers root by (auto simp: graph_covers_def)
  show "producer_stored E L topic part (rt_next_offset root) m r q \<Longrightarrow> pf_object r \<in> lg_objects g \<Longrightarrow>
      producer_stored E L topic part (rt_next_offset root) m' r q" for r q
    using spares unfolding producer_stored_def spares_def by (auto dest: valid_producer_ref_in_dir)
qed

section \<open>Planning and the new root\<close>

lemma sum_sizes_exact: "sum_sizes objects acc = Inr n \<Longrightarrow> n = acc + sum_list (map snd objects) \<and> (objects \<noteq> [] \<longrightarrow> n \<le> u64_max)"
  by (induction objects acc rule: sum_sizes.induct) (auto simp: result_simps)

lemma plan_maintenance_Inr:
  assumes "plan_maintenance L topic part options now lm graph objects = Inr plan"
  shows "pl_retained plan = drop (rep_expired_batches (pl_report plan)) (lg_segments graph)"
    and "pl_rebuild plan \<longleftrightarrow> rep_expired_batches (pl_report plan) \<noteq> 0 \<or> is_legacy lm"
    and "rep_start_offset (pl_report plan) =
           (case pl_retained plan of [] \<Rightarrow> lm_next_offset lm | sg # _ \<Rightarrow> sg_base_offset sg)"
    and "rep_next_offset (pl_report plan) = lm_next_offset lm"
    and "set (pl_removable plan) \<subseteq> set objects"
    and "pl_producers plan = manifest_producers lm" "pl_revision plan = fst (manifest_versions now lm)"
    and "\<not> rep_applied (pl_report plan)" "rep_collected_objects (pl_report plan) = 0"
  using assms
  by (auto simp: plan_maintenance_def Let_def result_simps split: prod.splits)

lemma maintained_root_holds:
  assumes legal: "log_legal E L topic part view rely"
    and plan: "plan_maintenance L topic part options now lm graph objects = Inr plan"
    and run: "maintained_root E L topic part maximum lm plan s = (Inr root, t)"
    and cur: "current_manifest E L topic part m = Some lm" and m: "manifest_holds E L topic part m lm xs"
    and ms: "keeps_dir (engine_dir L topic part) m (view s)" and graph: "lg_segments graph = xs"
  shows "root_holds E L topic part (view t) root (pl_retained plan)
    \<and> rt_start_offset root = rep_start_offset (pl_report plan) \<and> rt_next_offset root = lm_next_offset lm"
proof -
  note p = plan_maintenance_Inr [OF plan]
  have xs: "manifest_holds E L topic part (view s) lm xs" by (rule manifest_holds_later [OF m ms])
  let ?rebuild = "rebuild_index E L topic part (pl_retained plan) (rep_start_offset (pl_report plan))
                         (rep_next_offset (pl_report plan)) maximum"
  from run obtain r u rev where
    base: "(case lm of Indexed root \<Rightarrow> if pl_rebuild plan then ?rebuild else io_ret root | Legacy m \<Rightarrow> ?rebuild) s = (Inr r, u)"
    and root: "root = r\<lparr>rt_producers := pl_producers plan, rt_schema := INDEX_SCHEMA,
                       rt_adopted_at_ms := Some (pl_adoption plan), rt_revision := rev\<rparr>" and t: "t = u"
    by (auto simp: maintained_root_def Let_def result_simps)
  have "root_holds E L topic part (view t) r (pl_retained plan)
      \<and> rt_start_offset r = rep_start_offset (pl_report plan) \<and> rt_next_offset r = lm_next_offset lm"
  proof (cases "pl_rebuild plan")
    case True
    with base t have "?rebuild s = (Inr r, t)" by (cases lm) auto
    from rebuild_index_holds [OF log_legalD(1) [OF legal] this] p(4) show ?thesis by simp
  next
    case False
    with base t p(2) obtain idx: "lm = Indexed r" "t = s" and zero: "rep_expired_batches (pl_report plan) = 0"
      by (cases lm) auto
    with p(1) graph have ret: "pl_retained plan = xs" by simp
    from current_manifest_tiles(1) [OF cur m] idx(1) have "tiles (rt_start_offset r) xs (rt_next_offset r)" by simp
    with p(3) ret idx(1) have "rt_start_offset r = rep_start_offset (pl_report plan)" by (cases xs) auto
    with idx xs ret show ?thesis by simp
  qed
  then show ?thesis using root by (auto simp: root_holds_def split: option.splits)
qed

lemma maintained_root_fields:
  assumes "maintained_root E L topic part maximum lm plan s = (Inr root, t)"
  shows "validate_root (w_uuid_ok E) root (en_prefix L) topic part = Inr ()"
    "rt_producers root = pl_producers plan" "rt_schema root = INDEX_SCHEMA" "rt_revision root = pl_revision plan + 1"
  using assms by (auto simp: maintained_root_def Let_def result_simps)

lemma maintained_root_creates_at:
  assumes "creates_at names R E L topic part"
  shows "io_keeps R (maintained_root E L topic part maximum lm plan)"
  unfolding maintained_root_def Let_def
  by (intro io_keeps_rules rebuild_index_keeps pages_creates_at [OF assms])

lemmas maintained_root_creates = maintained_root_creates_at [OF creates_anywhere]

lemma published_root_current:
  assumes legal: "log_legal E L topic part view rely"
    and valid: "validate_root (w_uuid_ok E) root (en_prefix L) topic part = Inr ()"
    and vec: "le_root_to_vec E root = Inr b"
    and m: "m (manifest_path E L topic part) = Some (v, b)"
  shows "current_manifest E L topic part m = Some (Indexed root)"
proof -
  have shape: "rt_schema root \<in> {2, 3, INDEX_SCHEMA}" "length (rt_tail root) \<le> PAGE_ENTRIES"
    using valid by (auto simp: validate_root_def split: if_splits)
  then have "entries (json_seq_of (rt_tail root)) = Inr (rt_tail root)" by (simp add: entries_def)
  then have "le_schema_from_slice E b = Inr (rt_schema root)" "le_root_from_slice E entries b = Inr root"
    using log_legalD(4) [OF legal] vec by (auto simp: root_json_laws_def)
  with valid shape m show ?thesis by (auto simp: current_manifest_def decode_manifest_def MANIFEST_SCHEMA_def INDEX_SCHEMA_def)
qed

section \<open>The whole run\<close>

text \<open>
  One publication: only steps of other clients and the creation of own objects lead from \<open>m\<close>, where
  the manifest \<open>lm\<close> was loaded, to the conditional update; the root object it replaces is still the one
  that was loaded. The new root denotes the log without its first \<open>k\<close> segments, at unchanged
  offsets and with the same producer directory.
\<close>

definition publishes ::
  "('s, 'm) log_env_scheme \<Rightarrow> engine \<Rightarrow> string \<Rightarrow> int \<Rightarrow> (objects \<Rightarrow> objects \<Rightarrow> bool) \<Rightarrow> nat \<Rightarrow> int \<Rightarrow> log_manifest \<Rightarrow> root
   \<Rightarrow> objects \<Rightarrow> objects \<Rightarrow> bool" where
  "publishes E L topic part rely k start lm root m m' \<longleftrightarrow>
     current_manifest E L topic part m = Some lm
   \<and> (\<exists>m1 v b. prepares E L topic part rely m m1
        \<and> m1 (manifest_path E L topic part) = m (manifest_path E L topic part)
        \<and> m' = m1(manifest_path E L topic part \<mapsto> (v, b)))
   \<and> current_manifest E L topic part m' = Some (Indexed root)
   \<and> rt_producers root = manifest_producers lm \<and> rt_revision root = fst (manifest_versions 0 lm) + 1
   \<and> (\<forall>xs. manifest_holds E L topic part m lm xs \<longrightarrow>
        root_holds E L topic part m' root (drop k xs)
      \<and> rt_start_offset root = start \<and> rt_next_offset root = lm_next_offset lm)"

text \<open>
  The steps of a run that deletes nothing. It may publish more than once: if the root moves on
  before its collection begins, the run starts again.
\<close>

inductive maintains ::
  "('s, 'm) log_env_scheme \<Rightarrow> engine \<Rightarrow> string \<Rightarrow> int \<Rightarrow> (objects \<Rightarrow> objects \<Rightarrow> bool) \<Rightarrow> objects \<Rightarrow> objects \<Rightarrow> bool"
  for E L topic part rely where
  preparing: "prepares E L topic part rely m m' \<Longrightarrow> maintains E L topic part rely m m'"
| publishing: "maintains E L topic part rely m m' \<Longrightarrow> publishes E L topic part rely k start lm root m' m'' \<Longrightarrow>
    prepares E L topic part rely m'' m3 \<Longrightarrow> maintains E L topic part rely m m3"

lemma maintains_prepares:
  assumes "maintains E L topic part rely m m'" "prepares E L topic part rely m' m''"
  shows "maintains E L topic part rely m m''"
  using assms(1)
proof cases
  case preparing
  with assms(2) show ?thesis by (blast intro: maintains.preparing prepares_trans)
next
  case (publishing m1 k start lm root m2)
  from maintains.publishing [OF publishing(1,2) prepares_trans [OF assms(2) publishing(3)]] show ?thesis .
qed

lemmas maintains_published = maintains.publishing [OF _ _ prepares.still]

text \<open>
  A published retention, from the bucket \<open>m0\<close> at the start to the bucket \<open>m2\<close> at the end. Without any
  deletion \<open>m0\<close> became \<open>m\<close>, where the manifest was loaded that the root published at \<open>m1\<close> was computed from;
  from there on the run only deleted, never the root and nothing \<open>live\<close>; and at the end everything
  the published root reaches is as it was when it was published.
\<close>

definition retention_committed ::
  "('s, 'm) log_env_scheme \<Rightarrow> engine \<Rightarrow> string \<Rightarrow> int \<Rightarrow> (objects \<Rightarrow> objects \<Rightarrow> bool) \<Rightarrow> objects \<Rightarrow> maintenance_report
   \<Rightarrow> objects \<Rightarrow> bool" where
  "retention_committed E L topic part rely m0 report m2 \<longleftrightarrow>
     (\<exists>m lm root m1 live. maintains E L topic part rely m0 m
      \<and> publishes E L topic part rely (rep_expired_batches report) (rep_start_offset report) lm root m m1
      \<and> collects E L topic part rely live m1 m2
      \<and> (\<forall>xs. manifest_holds E L topic part m lm xs \<longrightarrow>
           (let kept = drop (rep_expired_batches report) xs
            in sg_object ` set kept \<subseteq> live \<and> root_holds E L topic part m2 root kept
             \<and> spares E (engine_dir L topic part) (sg_object ` set kept) m1 m2
             \<and> (\<forall>p ps. rt_producers root = Some p \<longrightarrow> producer_holds E L topic part (rt_next_offset root) m1 p ps \<longrightarrow>
                  producer_holds E L topic part (rt_next_offset root) m2 p ps))))"

lemma retention_committed_cong:
  assumes "rep_expired_batches report' = rep_expired_batches report" "rep_start_offset report' = rep_start_offset report"
  shows "retention_committed E L topic part rely m0 report' m2 = retention_committed E L topic part rely m0 report m2"
  unfolding retention_committed_def assms ..

lemma progressed_applied: "progressed report report' \<Longrightarrow> rep_applied report' = rep_applied report"
  by (auto simp: progressed_def)

lemma retention_committed_progressed:
  "progressed report report' \<Longrightarrow> retention_committed E L topic part rely m0 report m2 \<Longrightarrow>
   retention_committed E L topic part rely m0 report' m2"
  using retention_committed_cong [of report' report E L topic part rely m0 m2] by (auto simp: progressed_def)

definition maintain_safe ::
  "('s, 'm) log_env_scheme \<Rightarrow> engine \<Rightarrow> string \<Rightarrow> int \<Rightarrow> (objects \<Rightarrow> objects \<Rightarrow> bool) \<Rightarrow> objects \<Rightarrow> log_error + maintenance_report \<Rightarrow> objects \<Rightarrow> bool" where
  "maintain_safe E L topic part rely m0 x m2 \<longleftrightarrow>
     (case x of
        Inr report \<Rightarrow>
          (if rep_applied report then retention_committed E L topic part rely m0 report m2
           else maintains E L topic part rely m0 m2)
      | Inl e \<Rightarrow> maintains E L topic part rely m0 m2
          \<or> (\<exists>report e'. e = MaintenanceIncomplete report e' \<and> retention_committed E L topic part rely m0 report m2))"

text \<open>The deletions: everything the committed root reaches is spared, on success and on error.\<close>

lemma collect_phase_done:
  assumes legal: "log_legal E L topic part view rely" and names: "append_names E L topic part"
    and cl: "collect_laws E L topic part"
    and named: "\<forall>key \<in> set (map fst removable). collectible (w_uuid_ok E) L topic part key"
    and run: "collect_phase E L topic part maximum root ver removable report s = (x, t)"
  shows "prepares E L topic part rely (view s) (view t) \<and> (\<forall>r. x \<noteq> Inr (Some r))
    \<or> (\<exists>r e live. (x = Inr (Some r) \<or> x = Inl (incomplete r e)) \<and> progressed report r
        \<and> collects E L topic part rely live (view s) (view t)
        \<and> (\<forall>xs. root_holds E L topic part (view s) root xs \<longrightarrow>
              sg_object ` set xs \<subseteq> live \<and> root_holds E L topic part (view t) root xs
            \<and> spares E (engine_dir L topic part) (sg_object ` set xs) (view s) (view t))
        \<and> (\<forall>p ps xs. root_holds E L topic part (view s) root xs \<longrightarrow> rt_producers root = Some p \<longrightarrow>
              producer_holds E L topic part (rt_next_offset root) (view s) p ps \<longrightarrow>
              producer_holds E L topic part (rt_next_offset root) (view t) p ps))"
proof -
  let ?dir = "engine_dir L topic part"
  note reads = creates_keepD(1) [OF log_creates_keep [OF legal]]
  note later = creates_later [OF legal]
  note laws = log_legalD(3) [OF legal]
  note looks = reads_relied [OF laws]
  obtain tr u where trace: "trace_manifest E L topic part (Indexed root) maximum s = (tr, u)" by force
  have rsu: "rely (view s) (view u)"
    by (rule relied_rtrancl [OF laws io_keepsD [OF trace_manifest_reads [OF looks] trace]])
  have su: "keeps_dir ?dir (view s) (view u)" by (rule later [OF trace_manifest_reads [OF reads] trace])
  show ?thesis
  proof (cases tr)
    case (Inl e)
    obtain st w where stale: "stale_missing E L topic part (Some ver) e u = (st, w)" by force
    have "rely (view u) (view w)"
      by (rule relied_rtrancl [OF laws io_keepsD [OF stale_missing_reads [OF looks] stale]])
    with prepares_rely [where rely = rely, OF rsu] have "prepares E L topic part rely (view s) (view w)" by (blast intro: prepares.others)
    moreover from run trace Inl stale have "t = w" "\<forall>r. x \<noteq> Inr (Some r)"
      by (auto simp: collect_phase_def io_bind_def io_try_def split: sum.splits bool.splits)
    ultimately show ?thesis by blast
  next
    case (Inr g)
    obtain y where c: "collect_objects E (lg_objects g) removable report u = (y, t)"
      and x: "x = (case y of Inl e \<Rightarrow> Inl e | Inr r \<Rightarrow> Inr (Some r))"
      using run trace Inr by (auto simp: collect_phase_def io_bind_def io_try_def split: sum.splits prod.splits)
    from collect_objects_spares [OF log_legalD(3) [OF legal] log_legalD(6) [OF legal] cl named c, simplified]
    have sp: "spares E ?dir (lg_objects g) (view u) (view t)"
      and res: "case y of Inl e \<Rightarrow> \<exists>r e'. e = incomplete r e' \<and> progressed report r | Inr r \<Rightarrow> progressed report r"
      by (auto split: sum.splits)
    have st: "spares E ?dir (lg_objects g) (view s) (view t)"
      by (rule spares_trans [OF keeps_dir_spares [OF su] sp])
    from res x obtain r e where r: "x = Inr (Some r) \<or> x = Inl (incomplete r e)" "progressed report r"
      by (cases y) auto
    have facts: "graph_covers E L topic part (view s) (Indexed root) g" "lg_segments g = xs"
      if "root_holds E L topic part (view s) root xs" for xs
      using trace_manifest_complete [OF legal, of "Indexed root" maximum s g u xs] trace Inr that by auto
    have col: "collects E L topic part rely (lg_objects g) (view s) (view t)"
      using collects_trans [OF collect_objects_collects [OF laws _ cl named c] collects_rely [where rely = rely, OF rsu]] names
      unfolding append_names_def by blast
    have a: "sg_object ` set xs \<subseteq> lg_objects g \<and> root_holds E L topic part (view t) root xs
            \<and> spares E ?dir (sg_object ` set xs) (view s) (view t)"
      if "root_holds E L topic part (view s) root xs" for xs
      using spared_root_holds [OF facts(1) [OF that] that st] facts [OF that] st
      by (auto simp: spares_def graph_covers_def)
    have b: "producer_holds E L topic part (rt_next_offset root) (view t) p ps"
      if "root_holds E L topic part (view s) root xs" "rt_producers root = Some p"
        "producer_holds E L topic part (rt_next_offset root) (view s) p ps" for p ps xs
      by (rule spared_producers_hold [OF facts(1) [OF that(1)] that(2,3) st])
    show ?thesis using r col a b by blast
  qed
qed

lemma reads_later:
  assumes legal: "log_legal E L topic part view rely" and "\<forall>R. reads_keep R E \<longrightarrow> R\<^sup>*\<^sup>* s t"
  shows "keeps_dir (engine_dir L topic part) (view s) (view t)"
proof -
  have "(dir_kept view (engine_dir L topic part))\<^sup>*\<^sup>* s t"
    using assms(2) creates_keepD(1) [OF log_creates_keep [OF legal]] by blast
  then show ?thesis
    by (induction rule: rtranclp_induct) (auto simp: dir_kept_def intro: keeps_dir_trans)
qed

text \<open>How far a run came: it published nothing, or the collection followed its publication.\<close>

lemma publish_phase_cases:
  assumes run: "publish_phase E L topic part maximum loaded plan st = (x, st')"
  obtains (unwritten) rr where "maintained_root E L topic part maximum (ld_manifest loaded) plan (fst st) = (rr, fst st')"
      "\<forall>r. x \<noteq> Inr (Some r)"
  | (refused) root b u e where "maintained_root E L topic part maximum (ld_manifest loaded) plan (fst st) = (Inr root, u)"
      "le_root_to_vec E root = Inr b"
      "w_put E (manifest_path E L topic part) b (case ld_version loaded of None \<Rightarrow> Create | Some v \<Rightarrow> Update v) u = (Inl e, fst st')"
      "\<forall>r. x \<noteq> Inr (Some r)"
  | (published) root b u v w where "maintained_root E L topic part maximum (ld_manifest loaded) plan (fst st) = (Inr root, u)"
      "le_root_to_vec E root = Inr b"
      "w_put E (manifest_path E L topic part) b (case ld_version loaded of None \<Rightarrow> Create | Some v \<Rightarrow> Update v) u = (Inr v, w)"
      "collect_phase E L topic part maximum root v (pl_removable plan) ((pl_report plan)\<lparr>rep_applied := True\<rparr>) w = (x, fst st')"
proof -
  obtain rr u where root: "maintained_root E L topic part maximum (ld_manifest loaded) plan (fst st) = (rr, u)" by force
  show thesis
  proof (cases "\<exists>root b. rr = Inr root \<and> le_root_to_vec E root = Inr b \<and> length b \<le> MAX_MANIFEST_BYTES")
    case False
    with run root have "fst st' = u \<and> (\<forall>r. x \<noteq> Inr (Some r))"
      by (cases rr; cases "le_root_to_vec E (projr rr)")
        (auto simp: publish_phase_def io_bind_def io_fst_def io_json_def map_err_def split: if_splits)
    with root unwritten show ?thesis by blast
  next
    case True
    then obtain root b where rb: "rr = Inr root" "le_root_to_vec E root = Inr b" "\<not> length b > MAX_MANIFEST_BYTES" by auto
    obtain put w where put: "w_put E (manifest_path E L topic part) b
        (case ld_version loaded of None \<Rightarrow> Create | Some v \<Rightarrow> Update v) u = (put, w)" by force
    show ?thesis
    proof (cases put)
      case (Inl e)
      with run root rb put have "fst st' = w \<and> (\<forall>r. x \<noteq> Inr (Some r))"
        by (cases e) (auto simp: publish_phase_def io_bind_def io_fst_def io_json_def map_err_def io_try_def)
      with root rb(1,2) put Inl refused show ?thesis by blast
    next
      case (Inr v)
      have "collect_phase E L topic part maximum root v (pl_removable plan) ((pl_report plan)\<lparr>rep_applied := True\<rparr>) w = (x, fst st')"
        using run root rb put Inr
        by (auto simp: publish_phase_def io_bind_def io_fst_def io_json_def map_err_def io_try_def set_publication_def Let_def
            split: prod.splits)
      with root rb(1,2) put Inr published show ?thesis by blast
    qed
  qed
qed

lemma maintain_attempt_cases:
  assumes run: "maintain_attempt E L topic part options now st = (x, st')"
  obtains (reads) "\<forall>R. reads_keep R E \<longrightarrow> R\<^sup>*\<^sup>* (fst st) (fst st')" "\<forall>report. x = Inr (Some report) \<longrightarrow> \<not> rep_applied report"
  | (publishes) objects s1 loaded s2 graph s3 plan p where
      "inventory E L topic part (mo_max_objects options) (fst st) = (Inr objects, s1)"
      "load_or_empty E L topic part s1 = (Inr loaded, s2)"
      "trace_manifest E L topic part (ld_manifest loaded) (mo_max_objects options) s2 = (Inr graph, s3)"
      "plan_maintenance L topic part options now (ld_manifest loaded) graph objects = Inr plan"
      "publish_phase E L topic part (mo_max_objects options) loaded plan (s3, p) = (x, st')"
proof -
  let ?max = "mo_max_objects options"
  obtain ir s1 where inv: "inventory E L topic part ?max (fst st) = (ir, s1)" by force
  have k1: "R\<^sup>*\<^sup>* (fst st) s1" if "reads_keep R E" for R by (rule io_keepsD [OF inventory_reads [OF that] inv])
  obtain lr s2 where load: "load_or_empty E L topic part s1 = (lr, s2)" by force
  have k2: "R\<^sup>*\<^sup>* (fst st) s2" if "reads_keep R E" for R
    by (rule rtranclp_trans [OF k1 [OF that] io_keepsD [OF load_reads(3) [OF that] load]])
  show thesis
  proof (cases "isl ir \<or> isl lr")
    case True
    with run inv load have "(\<exists>e. x = Inl e) \<and> (fst st' = s1 \<or> fst st' = s2)"
      by (cases ir; cases lr) (auto simp: maintain_attempt_def io_bind_def io_fst_def)
    with k1 k2 show ?thesis by (intro reads) auto
  next
    case False
    then obtain objects loaded where ok: "ir = Inr objects" "lr = Inr loaded" by (cases ir; cases lr) auto
    obtain tr s3 where trace: "trace_manifest E L topic part (ld_manifest loaded) ?max s2 = (tr, s3)" by force
    have k3: "R\<^sup>*\<^sup>* (fst st) s3" if "reads_keep R E" for R
      by (rule rtranclp_trans [OF k2 [OF that] io_keepsD [OF trace_manifest_reads [OF that] trace]])
    show ?thesis
    proof (cases tr)
      case (Inl e)
      obtain sr s4 where stale: "stale_missing E L topic part (ld_version loaded) e s3 = (sr, s4)" by force
      have "R\<^sup>*\<^sup>* (fst st) s4" if "reads_keep R E" for R
        by (rule rtranclp_trans [OF k3 [OF that] io_keepsD [OF stale_missing_reads [OF that] stale]])
      moreover have "fst st' = s4 \<and> (\<forall>r. x \<noteq> Inr (Some r))"
        using run inv load ok trace Inl stale
        by (cases sr) (auto simp: maintain_attempt_def io_bind_def io_fst_def io_try_def split: if_splits)
      ultimately show ?thesis by (intro reads) auto
    next
      case (Inr graph)
      show ?thesis
      proof (cases "\<exists>plan. plan_maintenance L topic part options now (ld_manifest loaded) graph objects = Inr plan \<and> mo_apply options")
        case False
        with run inv load ok trace Inr have "fst st' = s3 \<and> (\<forall>r. x = Inr (Some r) \<longrightarrow>
            (\<exists>plan. r = pl_report plan \<and> plan_maintenance L topic part options now (ld_manifest loaded) graph objects = Inr plan))"
          by (cases "plan_maintenance L topic part options now (ld_manifest loaded) graph objects")
            (auto simp: maintain_attempt_def io_bind_def io_fst_def io_try_def)
        with k3 plan_maintenance_Inr(8) show ?thesis by (intro reads) auto
      next
        case True
        then obtain plan where plan: "plan_maintenance L topic part options now (ld_manifest loaded) graph objects = Inr plan"
          and on: "mo_apply options" by blast
        with run inv load ok trace Inr obtain p where
          "publish_phase E L topic part ?max loaded plan (s3, p) = (x, st')"
          by (auto simp: maintain_attempt_def io_bind_def io_fst_def io_try_def)
        with inv load ok trace Inr plan publishes show ?thesis by blast
      qed
    qed
  qed
qed

text \<open>The conditional update, where it takes effect, publishes the root.\<close>

lemma update_publishes:
  assumes legal: "log_legal E L topic part view rely" and names: "append_names E L topic part"
    and plan: "plan_maintenance L topic part options now (ld_manifest loaded) graph objects = Inr plan"
    and cur: "current_manifest E L topic part m = Some (ld_manifest loaded)"
    and ver: "ld_version loaded = map_option fst (m (manifest_path E L topic part))" "m = view sm"
    and graph: "\<forall>xs. manifest_holds E L topic part m (ld_manifest loaded) xs \<longrightarrow> lg_segments graph = xs"
    and ms: "prepares E L topic part rely m (view s)"
    and root: "maintained_root E L topic part maximum (ld_manifest loaded) plan s = (Inr root, u)"
    and vec: "le_root_to_vec E root = Inr b"
    and put: "rely (view u) (view w)"
      "put_allowed (case ld_version loaded of None \<Rightarrow> Create | Some v \<Rightarrow> Update v) (view w (manifest_path E L topic part))"
    and m': "m' = (view w)(manifest_path E L topic part \<mapsto> (v, b))"
  shows "publishes E L topic part rely (rep_expired_batches (pl_report plan)) (rep_start_offset (pl_report plan))
    (ld_manifest loaded) root m m'"
proof -
  let ?p = "manifest_path E L topic part" and ?lm = "ld_manifest loaded" and ?dir = "engine_dir L topic part"
  note laws = log_legalD(3) [OF legal]
  note f = maintained_root_fields [OF root] and pl = plan_maintenance_Inr [OF plan]
  have "prepares E L topic part rely (view s) (view u)"
    by (rule preparesI [OF maintained_root_creates_at [OF append_names_creates [OF laws names]] root])
  from prepares_trans [OF this ms] put(1) have steps: "prepares E L topic part rely m (view w)" by (rule prepares.others)
  have "map_option fst (view w ?p) = ld_version loaded" using put(2) by (cases "ld_version loaded") (auto simp: put_allowed_def)
  with ver have same: "view w ?p = m ?p" using same_version_same_object [OF laws, of w ?p sm] by simp
  have curw: "current_manifest E L topic part m' = Some (Indexed root)"
    by (rule published_root_current [OF legal f(1) vec]) (simp add: m')
  have uw: "keeps_dir ?dir (view u) m'"
    unfolding m' by (rule keeps_dir_trans [OF log_legalD(6) [OF legal put(1)] keeps_dir_manifest [OF legal]])
  have kept: "keeps_dir ?dir m (view s)" by (rule prepares_keeps_dir [OF ms log_legalD(6) [OF legal]])
  have live: "root_holds E L topic part m' root (drop (rep_expired_batches (pl_report plan)) xs)
      \<and> rt_start_offset root = rep_start_offset (pl_report plan) \<and> rt_next_offset root = lm_next_offset ?lm"
    if xs: "manifest_holds E L topic part m ?lm xs" for xs
  proof -
    from graph xs have g: "lg_segments graph = xs" by blast
    from maintained_root_holds [OF legal plan root cur xs kept g] pl(1) g root_holds_later [OF _ uw] show ?thesis by auto
  qed
  have rev: "rt_revision root = fst (manifest_versions 0 ?lm) + 1"
    using f(4) pl(7) by (cases ?lm) auto
  have prod: "rt_producers root = manifest_producers ?lm" using f(2) pl(6) by simp
  have "\<exists>m1 v b. prepares E L topic part rely m m1 \<and> m1 ?p = m ?p \<and> m' = m1(?p \<mapsto> (v, b))"
    using steps same m' by blast
  with cur curw rev prod live show ?thesis unfolding publishes_def by blast
qed

lemma publish_phase_done:
  assumes legal: "log_legal E L topic part view rely" and names: "append_names E L topic part"
    and cl: "collect_laws E L topic part"
    and named: "\<forall>key \<in> set (bt_keys objects). collectible (w_uuid_ok E) L topic part key"
    and plan: "plan_maintenance L topic part options now (ld_manifest loaded) graph objects = Inr plan"
    and m0: "maintains E L topic part rely m0 m" and cur: "current_manifest E L topic part m = Some (ld_manifest loaded)"
    and ver: "ld_version loaded = map_option fst (m (manifest_path E L topic part))" "m = view sm"
    and graph: "\<And>xs. manifest_holds E L topic part m (ld_manifest loaded) xs \<Longrightarrow> lg_segments graph = xs"
    and ms: "prepares E L topic part rely m (view (fst st))"
    and run: "publish_phase E L topic part maximum loaded plan st = (x, st')"
  shows "maintains E L topic part rely m0 (view (fst st')) \<and> (\<forall>r. x \<noteq> Inr (Some r))
    \<or> (\<exists>r e. (x = Inr (Some r) \<or> x = Inl (incomplete r e)) \<and> rep_applied r
         \<and> retention_committed E L topic part rely m0 r (view (fst st')))"
proof -
  let ?p = "manifest_path E L topic part" and ?lm = "ld_manifest loaded"
  let ?mode = "case ld_version loaded of None \<Rightarrow> Create | Some v \<Rightarrow> Update v"
  note laws = log_legalD(3) [OF legal]
  note creates = maintained_root_creates_at [OF append_names_creates [OF laws names]]
  have whole: "\<forall>xs. manifest_holds E L topic part m ?lm xs \<longrightarrow> lg_segments graph = xs" using graph by blast
  note update = update_publishes [OF legal names plan cur ver whole ms]
  have built: "maintains E L topic part rely m0 (view u)"
    if "maintained_root E L topic part maximum ?lm plan (fst st) = (y, u)" for y u
    by (rule maintains_prepares [OF m0 prepares_trans [OF preparesI [OF creates that] ms]])
  from run show ?thesis
  proof (cases rule: publish_phase_cases)
    case (unwritten rr)
    with built [OF unwritten(1)] show ?thesis by blast
  next
    case (refused root b u e)
    from store_laws_put [OF laws refused(3)] obtain w where
      w: "rely (view u) (view w)" "put_outcome ?p b ?mode (Inl e) (view w) (view (fst st'))" by blast
    then have "view (fst st') = view w \<or> put_allowed ?mode (view w ?p) \<and> (\<exists>v. view (fst st') = (view w)(?p \<mapsto> (v, b)))"
      by (auto simp: put_outcome_def split: store_error.splits)
    moreover have "maintains E L topic part rely m0 (view w)"
      by (rule maintains_prepares [OF built [OF refused(1)]]) (rule prepares_rely, rule w(1))
    ultimately have "maintains E L topic part rely m0 (view (fst st'))"
      using maintains_published [OF m0 update [OF refused(1,2) w(1)]] by auto
    with refused(4) show ?thesis by blast
  next
    case (published root b u v w)
    let ?report = "(pl_report plan)\<lparr>rep_applied := True\<rparr>"
    from store_laws_put [OF laws published(3)] obtain w' where
      w': "rely (view u) (view w')" "put_allowed ?mode (view w' ?p)" "view w = (view w')(?p \<mapsto> (v, b))"
      by (auto simp: put_outcome_def)
    note pub = update [OF published(1,2) w']
    have rem: "\<forall>key \<in> set (map fst (pl_removable plan)). collectible (w_uuid_ok E) L topic part key"
      using plan_maintenance_Inr(5) [OF plan] named by (auto simp: bt_keys_def)
    from collect_phase_done [OF legal names cl rem published(4)] show ?thesis
    proof
      assume "prepares E L topic part rely (view w) (view (fst st')) \<and> (\<forall>r. x \<noteq> Inr (Some r))"
      with maintains.publishing [OF m0 pub] show ?thesis by blast
    next
      assume "\<exists>r e live. (x = Inr (Some r) \<or> x = Inl (incomplete r e)) \<and> progressed ?report r
        \<and> collects E L topic part rely live (view w) (view (fst st'))
        \<and> (\<forall>xs. root_holds E L topic part (view w) root xs \<longrightarrow>
              sg_object ` set xs \<subseteq> live \<and> root_holds E L topic part (view (fst st')) root xs
            \<and> spares E (engine_dir L topic part) (sg_object ` set xs) (view w) (view (fst st')))
        \<and> (\<forall>p ps xs. root_holds E L topic part (view w) root xs \<longrightarrow> rt_producers root = Some p \<longrightarrow>
              producer_holds E L topic part (rt_next_offset root) (view w) p ps \<longrightarrow>
              producer_holds E L topic part (rt_next_offset root) (view (fst st')) p ps)"
      then obtain r e live where r: "x = Inr (Some r) \<or> x = Inl (incomplete r e)" "progressed ?report r"
        and col: "collects E L topic part rely live (view w) (view (fst st'))"
        and kept: "\<And>xs. root_holds E L topic part (view w) root xs \<Longrightarrow>
              sg_object ` set xs \<subseteq> live \<and> root_holds E L topic part (view (fst st')) root xs
            \<and> spares E (engine_dir L topic part) (sg_object ` set xs) (view w) (view (fst st'))"
          "\<And>p ps xs. root_holds E L topic part (view w) root xs \<Longrightarrow> rt_producers root = Some p \<Longrightarrow>
              producer_holds E L topic part (rt_next_offset root) (view w) p ps \<Longrightarrow>
              producer_holds E L topic part (rt_next_offset root) (view (fst st')) p ps"
        by metis
      have held: "root_holds E L topic part (view w) root (drop (rep_expired_batches ?report) xs)"
        if "manifest_holds E L topic part m ?lm xs" for xs using pub that by (simp add: publishes_def)
      have "retention_committed E L topic part rely m0 ?report (view (fst st'))"
        unfolding retention_committed_def Let_def
        by (rule exI [of _ m], rule exI [of _ ?lm], rule exI [of _ root], rule exI [of _ "view w"], rule exI [of _ live])
          (use m0 pub col kept held in \<open>simp del: incomplete_def; blast\<close>)
      from retention_committed_progressed [OF r(2) this] progressed_applied [OF r(2)] r(1) show ?thesis by auto
    qed
  qed
qed

definition attempt_safe ::
  "('s, 'm) log_env_scheme \<Rightarrow> engine \<Rightarrow> string \<Rightarrow> int \<Rightarrow> (objects \<Rightarrow> objects \<Rightarrow> bool) \<Rightarrow> objects
   \<Rightarrow> log_error + maintenance_report option \<Rightarrow> objects \<Rightarrow> bool" where
  "attempt_safe E L topic part rely m0 x m2 \<longleftrightarrow>
     (case x of
        Inr None \<Rightarrow> maintains E L topic part rely m0 m2
      | Inr (Some report) \<Rightarrow> maintain_safe E L topic part rely m0 (Inr report) m2
      | Inl e \<Rightarrow> maintain_safe E L topic part rely m0 (Inl e) m2)"

lemma attempt_safe_kept:
  assumes "maintains E L topic part rely m0 m2" "\<forall>report. x = Inr (Some report) \<longrightarrow> \<not> rep_applied report"
  shows "attempt_safe E L topic part rely m0 x m2"
  using assms by (auto simp: attempt_safe_def maintain_safe_def split: sum.splits option.splits)

lemma attempt_safe_committed:
  assumes "x = Inr (Some r) \<or> x = Inl (incomplete r e)" "rep_applied r" "retention_committed E L topic part rely m0 r m2"
  shows "attempt_safe E L topic part rely m0 x m2"
  using assms by (auto simp: attempt_safe_def maintain_safe_def incomplete_def)

lemma reads_rely:
  assumes "store_laws E view rely" "\<forall>R. reads_keep R E \<longrightarrow> R\<^sup>*\<^sup>* s t"
  shows "rely (view s) (view t)"
  using relied_rtrancl [OF assms(1)] assms(2) reads_relied [OF assms(1)] by blast

lemma maintain_attempt_done:
  assumes legal: "log_legal E L topic part view rely" and names: "append_names E L topic part"
    and cl: "collect_laws E L topic part"
    and m0: "maintains E L topic part rely m0 (view (fst st))"
    and run: "maintain_attempt E L topic part options now st = (x, st')"
  shows "attempt_safe E L topic part rely m0 x (view (fst st'))"
proof -
  note laws = log_legalD(3) [OF legal]
  note looks = reads_relied [OF laws]
  note looked = relied_rtrancl [OF laws io_keepsD]
  from run show ?thesis
  proof (cases rule: maintain_attempt_cases)
    case reads
    have "maintains E L topic part rely m0 (view (fst st'))"
      by (rule maintains_prepares [OF m0]) (rule prepares_rely, rule reads_rely [OF laws reads(1)])
    with reads(2) show ?thesis by (blast intro: attempt_safe_kept)
  next
    case (publishes objects s1 loaded s2 graph s3 plan p)
    note cur = load_or_empty_current [OF laws publishes(2)]
    have "rely (view (fst st)) (view s2)"
      using looked [OF inventory_reads [OF looks] publishes(1)] cur by (blast intro: store_laws_trans [OF laws])
    then have k2: "maintains E L topic part rely m0 (view s2)"
      by (intro maintains_prepares [OF m0]) (rule prepares_rely)
    have graph: "lg_segments graph = xs" if "manifest_holds E L topic part (view s2) (ld_manifest loaded) xs" for xs
      using trace_manifest_complete [OF legal publishes(3) that] by blast
    have "rely (view s2) (view s3)" by (rule looked [OF trace_manifest_reads [OF looks] publishes(3)])
    then have "prepares E L topic part rely (view s2) (view (fst (s3, p)))" by (auto intro: prepares_rely)
    note fin = publish_phase_done [OF legal names cl inventory_collectible [OF publishes(1)] publishes(4) k2 _ _ refl graph this publishes(5)]
    from fin cur attempt_safe_kept attempt_safe_committed show ?thesis by blast
  qed
qed

interpretation maintaining: retry_body "maintain_attempt E L topic part options now"
  "\<lambda>st. log_legal E L topic part view rely \<and> append_names E L topic part \<and> collect_laws E L topic part
        \<and> maintains E L topic part rely m0 (view (fst st))"
  "\<lambda>report st. maintain_safe E L topic part rely m0 (Inr report) (view (fst st))"
  "\<lambda>e st. maintain_safe E L topic part rely m0 (Inl e) (view (fst st))"
  for E :: "('s, 'm) log_env_scheme" and L topic part view rely options now m0
proof
  fix st st' :: "'s \<times> maintenance_report option" and report e
  assume inv: "log_legal E L topic part view rely \<and> append_names E L topic part \<and> collect_laws E L topic part
        \<and> maintains E L topic part rely m0 (view (fst st))"
  note fin = maintain_attempt_done [of E L topic part view rely m0 st options now]
  show "maintain_attempt E L topic part options now st = (Inr None, st') \<Longrightarrow>
      log_legal E L topic part view rely \<and> append_names E L topic part \<and> collect_laws E L topic part
        \<and> maintains E L topic part rely m0 (view (fst st'))"
    using fin [of "Inr None" st'] inv by (auto simp: attempt_safe_def)
  show "maintain_attempt E L topic part options now st = (Inr (Some report), st') \<Longrightarrow>
      maintain_safe E L topic part rely m0 (Inr report) (view (fst st'))"
    using fin [of "Inr (Some report)" st'] inv by (auto simp: attempt_safe_def)
  show "maintain_attempt E L topic part options now st = (Inl e, st') \<Longrightarrow>
      maintain_safe E L topic part rely m0 (Inl e) (view (fst st'))"
    using fin [of "Inl e" st'] inv by (auto simp: attempt_safe_def)
qed

lemma maintain_cases:
  assumes run: "maintain E L topic part options s = (x, t)"
  obtains (early) e where "\<forall>R. reads_keep R E \<longrightarrow> R\<^sup>*\<^sup>* s t" "x = Inl e"
  | (runs) u now r p where "\<forall>R. reads_keep R E \<longrightarrow> R\<^sup>*\<^sup>* s u"
      "retry MAX_CAS_ATTEMPTS (ContentionExhausted MAX_CAS_ATTEMPTS) (maintain_attempt E L topic part options now) (u, None) = (r, (t, p))"
      "x = publication_result r p"
proof -
  let ?checks = "io_bind (io_lift (validate_maintenance options)) (\<lambda>_.
     io_bind (io_lift (validate_topic topic)) (\<lambda>_.
     io_bind (io_lift (validate_partition part MAX_TOPIC_PARTITIONS)) (\<lambda>_.
     io_bind (topic_partition_count E L topic) (\<lambda>count.
     io_bind (io_lift (ok_or count (UnknownTopic topic))) (\<lambda>partition_count.
     io_bind (io_lift (validate_partition part partition_count)) (\<lambda>_. unix_millis E))))))"
  have split: "maintain E L topic part options = io_bind ?checks (maintain_at E L topic part options)"
    by (rule ext) (auto simp: maintain_def io_bind_def split: sum.splits prod.splits)
  obtain y u where c: "?checks s = (y, u)" by force
  have "io_keeps R ?checks" if "reads_keep R E" for R
    unfolding unix_millis_def by (intro io_keeps_rules known_partition_reads(1) reads_keepD that)
  from io_keepsD [OF this c] have su: "\<forall>R. reads_keep R E \<longrightarrow> R\<^sup>*\<^sup>* s u" by blast
  show thesis
  proof (cases y)
    case (Inl e)
    with run [unfolded split] c have "x = Inl e" "t = u" by (auto simp: io_bind_def)
    with su early show ?thesis by blast
  next
    case (Inr now)
    with run [unfolded split] c have "maintain_at E L topic part options now u = (x, t)" by (auto simp: io_bind_def)
    then obtain r p where "retry MAX_CAS_ATTEMPTS (ContentionExhausted MAX_CAS_ATTEMPTS)
        (maintain_attempt E L topic part options now) (u, None) = (r, (t, p))" "x = publication_result r p"
      by (auto simp: maintain_at_def maintain_attempts_def split: prod.splits)
    with su runs show ?thesis by blast
  qed
qed

lemma publication_result_safe:
  "maintain_safe E L topic part rely m0 x m2 \<Longrightarrow> maintain_safe E L topic part rely m0 (publication_result x p) m2"
  by (cases x; cases p; cases "projl x") (auto simp: publication_result_def maintain_safe_def incomplete_def)

text \<open>C14 (maintenance_keeps_live_log). Whatever a maintenance run returns, it never harms the log. Until it
  begins to delete, the bucket changes only by the steps of other clients, by objects of its own that did not
  exist before, and by publications: updates that replace the very root object that was loaded by a
  root that denotes the log without some of its oldest batches, with the same end offset and
  producer directory. An applied run, or one that failed during its deletions, published such a root without exactly the
  expired batches it reports; from then on it only deleted objects, never the root and nothing that the
  published root reaches, so that at the end of the run that root is still fully readable: its index
  pages, record objects and producer pages are as they were when it was published. Every other
  run deleted nothing.\<close>

theorem maintenance_keeps_live_log:
  assumes legal: "log_legal E L topic part view rely" and names: "append_names E L topic part"
    and cl: "collect_laws E L topic part"
    and run: "maintain E L topic part options s = (x, t)"
  shows "maintain_safe E L topic part rely (view s) x (view t)"
  using run
proof (cases rule: maintain_cases)
  case (early e)
  have "maintains E L topic part rely (view s) (view t)"
    by (rule maintains.preparing) (rule prepares_rely, rule reads_rely [OF log_legalD(3) [OF legal] early(1)])
  with early(2) show ?thesis by (simp add: maintain_safe_def)
next
  case (runs u now r p)
  have "maintains E L topic part rely (view s) (view u)"
    by (rule maintains.preparing) (rule prepares_rely, rule reads_rely [OF log_legalD(3) [OF legal] runs(1)])
  then have inv: "log_legal E L topic part view rely \<and> append_names E L topic part \<and> collect_laws E L topic part
      \<and> maintains E L topic part rely (view s) (view (fst (u, None :: maintenance_report option)))"
    using legal names cl by simp
  have "maintain_safe E L topic part rely (view s) r (view t)"
  proof (cases r)
    case (Inl e)
    from maintaining.retry_fails [OF inv runs(2) [unfolded Inl]] Inl show ?thesis by (auto simp: maintain_safe_def)
  next
    case (Inr report)
    from maintaining.retry_post [OF inv runs(2) [unfolded Inr]] Inr show ?thesis by simp
  qed
  with runs(3) show ?thesis by (simp add: publication_result_safe)
qed

end
