(* ===== verification/Maintenance_Fence.thy ===== *)
theory Maintenance_Fence
  imports Maintenance_Laws Log_Fence
begin

text \<open>
  The other side of \<open>Log_Fence\<close>: maintenance (\<open>src/log/maintenance.rs\<close>) deletes only behind the
  fence. Until it has replaced the root it issues no DELETE at all; afterwards nothing but DELETEs
  and reads, and what it deletes it had listed before it loaded the root it replaced, and the root it
  published does not reach. So an append that started before the publication fails its update of
  the root, and one that started after it uses none of these objects.
\<close>

section \<open>The calls of maintenance\<close>

text \<open>A call of the environment that only reads; one that reads or writes; one that reads or deletes.\<close>

definition read_call :: "('s, 'm) world_scheme \<Rightarrow> 's \<Rightarrow> 's \<Rightarrow> bool" where
  "read_call E s t \<longleftrightarrow>
     (\<exists>p. t = snd (w_get E p s)) \<or> (\<exists>p. t = snd (w_head E p s)) \<or> (\<exists>p. t = snd (w_list_prefixes E p s))
   \<or> (\<exists>p. t = snd (w_list E p s)) \<or> t = snd (w_new_uuid E s) \<or> t = snd (w_unix_millis E s)"

definition write_call :: "('s, 'm) world_scheme \<Rightarrow> 's \<Rightarrow> 's \<Rightarrow> bool" where
  "write_call E s t \<longleftrightarrow> read_call E s t \<or> (\<exists>p b mode. t = snd (w_put E p b mode s))"

definition collect_call :: "('s, 'm) world_scheme \<Rightarrow> string set \<Rightarrow> 's \<Rightarrow> 's \<Rightarrow> bool" where
  "collect_call E dead s t \<longleftrightarrow> read_call E s t \<or> (\<exists>key \<in> dead. t = snd (w_delete E (w_path_from E key) s))"

lemma read_call_made:
  "w_get E p s = (a, t) \<Longrightarrow> read_call E s t"
  "w_head E p s = (b, t) \<Longrightarrow> read_call E s t"
  "w_list_prefixes E p s = (c, t) \<Longrightarrow> read_call E s t"
  "w_list E p s = (d, t) \<Longrightarrow> read_call E s t"
  "w_new_uuid E s = (e, t) \<Longrightarrow> read_call E s t"
  "w_unix_millis E s = (n, t) \<Longrightarrow> read_call E s t"
  unfolding read_call_def by (metis snd_conv)+

lemma read_calls: "reads_keep (read_call E) E"
  unfolding reads_keep_def
  by (intro conjI allI impI io_keeps_single r_into_rtranclp) (erule read_call_made)+

lemma rtranclp_weaken: "R\<^sup>*\<^sup>* s t \<Longrightarrow> (\<And>s t. R s t \<Longrightarrow> Q s t) \<Longrightarrow> Q\<^sup>*\<^sup>* s t"
  by (induction rule: rtranclp_induct) (auto intro: rtranclp.rtrancl_into_rtrancl)

lemma reads_keep_mono:
  assumes "reads_keep R E" "\<And>s t. R s t \<Longrightarrow> Q s t"
  shows "reads_keep Q E"
proof -
  have "Q\<^sup>*\<^sup>* s t" if "R\<^sup>*\<^sup>* s t" for s t using that by (rule rtranclp_weaken) (rule assms(2))
  with assms(1) show ?thesis unfolding reads_keep_def io_keeps_def by simp
qed

lemma write_calls: "creates_keep (write_call E) E" "io_keeps (write_call E) (w_put E p b mode)"
proof -
  show put: "io_keeps (write_call E) (w_put E p b mode)" for p b mode
    by (rule io_keeps_single) (metis write_call_def snd_conv)
  have "reads_keep (write_call E) E" by (rule reads_keep_mono [OF read_calls]) (simp add: write_call_def)
  moreover have "(write_call E)\<^sup>*\<^sup>* s t" if "w_new_uuid E s = (x, t)" for s x t
    using read_call_made(5) [OF that] by (auto simp: write_call_def)
  ultimately show "creates_keep (write_call E) E" using put by (simp add: creates_keep_def)
qed

lemma collect_reads: "reads_keep (collect_call E dead) E"
  by (rule reads_keep_mono [OF read_calls]) (simp add: collect_call_def)

lemma collect_calls_mono:
  "(collect_call E dead)\<^sup>*\<^sup>* s t \<Longrightarrow> dead \<subseteq> dead' \<Longrightarrow> (collect_call E dead')\<^sup>*\<^sup>* s t"
  by (erule rtranclp_weaken) (unfold collect_call_def, blast)

lemma collect_nothing: "(collect_call E {})\<^sup>*\<^sup>* s t \<Longrightarrow> (write_call E)\<^sup>*\<^sup>* s t"
  by (erule rtranclp_weaken) (auto simp: collect_call_def write_call_def)

lemma collect_objects_calls:
  "collect_objects E live removable report s = (x, t) \<Longrightarrow>
   (collect_call E (set (map fst removable) - live))\<^sup>*\<^sup>* s t"
proof (induction removable arbitrary: report s)
  case (Cons a removable)
  obtain key len where a: "a = (key, len)" by force
  let ?dead = "set (map fst (a # removable)) - live"
  have sub: "set (map fst removable) - live \<subseteq> ?dead" by auto
  show ?case
  proof (cases "key \<in> live")
    case True
    with Cons.prems a have "collect_objects E live removable report s = (x, t)" by simp
    from collect_calls_mono [OF Cons.IH [OF this] sub] show ?thesis .
  next
    case False
    obtain r u where del: "w_delete E (w_path_from E key) s = (r, u)" by force
    then have su: "collect_call E ?dead s u"
      using False a unfolding collect_call_def by (metis Diff_iff fst_conv list.set_intros(1) list.simps(9) snd_conv)
    from Cons.prems a False del have "(\<exists>report'. collect_objects E live removable report' u = (x, t)) \<or> t = u"
      by (cases r; cases "projl r") (auto simp: io_bind_def io_try_def Let_def)
    then have "(collect_call E ?dead)\<^sup>*\<^sup>* u t" using collect_calls_mono [OF Cons.IH sub] by blast
    with su show ?thesis by (rule converse_rtranclp_into_rtranclp)
  qed
qed simp

section \<open>Behind the fence\<close>

text \<open>All objects that a root denoting \<open>xs\<close> reaches: records, index pages and producer pages.\<close>

definition reached ::
  "('s, 'm) log_env_scheme \<Rightarrow> engine \<Rightarrow> string \<Rightarrow> int \<Rightarrow> objects \<Rightarrow> root \<Rightarrow> segment list \<Rightarrow> string set" where
  "reached E L topic part m root xs =
     sg_object ` set xs
   \<union> {x. \<exists>tree. rt_tree root = Some tree \<and> page_object (index_stored E L topic part m) page_kids pr_object tree x}
   \<union> {x. \<exists>p. rt_producers root = Some p
        \<and> page_object (producer_stored E L topic part (rt_next_offset root) m) producer_kids pf_object p x}"

definition fence_kept ::
  "('s, 'm) log_env_scheme \<Rightarrow> engine \<Rightarrow> string \<Rightarrow> int \<Rightarrow> ('s \<Rightarrow> objects) \<Rightarrow> nat \<Rightarrow> 's \<Rightarrow> 's \<Rightarrow> bool" where
  "fence_kept E L topic part view maximum s t \<longleftrightarrow>
     (write_call E)\<^sup>*\<^sup>* s t
   \<or> (\<exists>a a' objects a'' loaded s1 root b v s2 dead.
        (write_call E)\<^sup>*\<^sup>* s a \<and> inventory E L topic part maximum a = (Inr objects, a')
      \<and> load_or_empty E L topic part a' = (Inr loaded, a'') \<and> (write_call E)\<^sup>*\<^sup>* a'' s1
      \<and> le_root_to_vec E root = Inr b
      \<and> w_put E (manifest_path E L topic part) b (case ld_version loaded of None \<Rightarrow> Create | Some w \<Rightarrow> Update w) s1 = (Inr v, s2)
      \<and> dead \<subseteq> set (bt_keys objects) \<and> (collect_call E dead)\<^sup>*\<^sup>* s2 t
      \<and> (\<forall>xs. root_holds E L topic part (view s2) root xs \<longrightarrow> dead \<inter> reached E L topic part (view s2) root xs = {}))"

lemma collect_phase_calls:
  assumes legal: "log_legal E L topic part view rely"
    and run: "collect_phase E L topic part maximum root ver removable report s = (x, t)"
  shows "\<exists>dead. dead \<subseteq> set (map fst removable) \<and> (collect_call E dead)\<^sup>*\<^sup>* s t \<and> (x = Inr None \<longrightarrow> dead = {})
    \<and> (\<forall>xs. root_holds E L topic part (view s) root xs \<longrightarrow> dead \<inter> reached E L topic part (view s) root xs = {})"
proof -
  obtain tr u where trace: "trace_manifest E L topic part (Indexed root) maximum s = (tr, u)" by force
  have su: "(collect_call E dead)\<^sup>*\<^sup>* s u" for dead
    by (rule io_keepsD [OF trace_manifest_reads [OF collect_reads] trace])
  show ?thesis
  proof (cases tr)
    case (Inl e)
    obtain st w where stale: "stale_missing E L topic part (Some ver) e u = (st, w)" by force
    have "(collect_call E {})\<^sup>*\<^sup>* u w" by (rule io_keepsD [OF stale_missing_reads [OF collect_reads] stale])
    moreover have "t = w"
      using run trace Inl stale by (auto simp: collect_phase_def io_bind_def io_try_def split: sum.splits bool.splits)
    ultimately show ?thesis using rtranclp_trans [OF su [of "{}"]] by (intro exI [of _ "{}"]) simp
  next
    case (Inr g)
    obtain y where c: "collect_objects E (lg_objects g) removable report u = (y, t)"
      and x: "x = (case y of Inl e \<Rightarrow> Inl e | Inr r \<Rightarrow> Inr (Some r))"
      using run trace Inr by (auto simp: collect_phase_def io_bind_def io_try_def split: sum.splits prod.splits)
    let ?dead = "set (map fst removable) - lg_objects g"
    have "?dead \<inter> reached E L topic part (view s) root xs = {}" if "root_holds E L topic part (view s) root xs" for xs
      using trace_manifest_complete [OF legal, of "Indexed root" maximum s g u xs] trace Inr that
      by (auto simp: reached_def graph_covers_def)
    moreover have "x \<noteq> Inr None" using x by (cases y) auto
    ultimately show ?thesis
      using rtranclp_trans [OF su collect_objects_calls [OF c]] by (intro exI [of _ ?dead]) auto
  qed
qed

lemma publish_phase_calls:
  fixes E :: "('s, 'm) log_env_scheme"
  assumes legal: "log_legal E L topic part view rely"
    and before: "(write_call E)\<^sup>*\<^sup>* s a" "inventory E L topic part maximum a = (Inr objects, a')"
      "load_or_empty E L topic part a' = (Inr loaded, a'')" "(write_call E)\<^sup>*\<^sup>* a'' (fst st)"
    and plan: "set (map fst (pl_removable plan)) \<subseteq> set (bt_keys objects)"
    and run: "publish_phase E L topic part maximum loaded plan st = (x, st')"
  shows "(write_call E)\<^sup>*\<^sup>* (fst st) (fst st') \<or> x \<noteq> Inr None \<and> fence_kept E L topic part view maximum s (fst st')"
proof -
  note built = io_keepsD [OF maintained_root_creates [OF write_calls(1)]] and sent = io_keepsD [OF write_calls(2)]
  from run show ?thesis
  proof (cases rule: publish_phase_cases)
    case (unwritten rr)
    from built [OF unwritten(1)] show ?thesis by simp
  next
    case (refused root b u e)
    from rtranclp_trans [OF built [OF refused(1)] sent [OF refused(3)]] show ?thesis by simp
  next
    case (published root b u v w)
    have uw: "(write_call E)\<^sup>*\<^sup>* (fst st) w" by (rule rtranclp_trans [OF built [OF published(1)] sent [OF published(3)]])
    from collect_phase_calls [OF legal published(4)] obtain dead where
      dead: "dead \<subseteq> set (map fst (pl_removable plan))" "(collect_call E dead)\<^sup>*\<^sup>* w (fst st')" "x = Inr None \<longrightarrow> dead = {}"
        "\<forall>xs. root_holds E L topic part (view w) root xs \<longrightarrow> dead \<inter> reached E L topic part (view w) root xs = {}" by blast
    show ?thesis
    proof (cases "x = Inr None")
      case True
      with dead have "(collect_call E {})\<^sup>*\<^sup>* w (fst st')" by simp
      from collect_nothing [OF this] uw show ?thesis by (blast intro: rtranclp_trans)
    next
      case False
      have "(write_call E)\<^sup>*\<^sup>* a'' u" by (rule rtranclp_trans [OF before(4) built [OF published(1)]])
      with before(1-3) published(2,3) dead(2,4) subset_trans [OF dead(1) plan] False
      show ?thesis unfolding fence_kept_def by blast
    qed
  qed
qed

lemma maintain_attempt_calls:
  fixes E :: "('s, 'm) log_env_scheme"
  assumes legal: "log_legal E L topic part view rely"
    and start: "(write_call E)\<^sup>*\<^sup>* s0 (fst st)"
    and run: "maintain_attempt E L topic part options now st = (x, st')"
  shows "(write_call E)\<^sup>*\<^sup>* s0 (fst st') \<or> x \<noteq> Inr None \<and> fence_kept E L topic part view (mo_max_objects options) s0 (fst st')"
proof -
  note reads = creates_keepD(1) [OF write_calls(1), of E]
  from run show ?thesis
  proof (cases rule: maintain_attempt_cases)
    case reads
    with creates_keepD(1) [OF write_calls(1), of E] start show ?thesis by (blast intro: rtranclp_trans)
  next
    case (publishes objects s1 loaded s2 graph s3 plan p)
    note k1 = rtranclp_trans [OF start io_keepsD [OF inventory_reads [OF reads] publishes(1)]]
    note k2 = rtranclp_trans [OF k1 io_keepsD [OF load_reads(3) [OF reads] publishes(2)]]
    have s23: "(write_call E)\<^sup>*\<^sup>* s2 (fst (s3, p))" using io_keepsD [OF trace_manifest_reads [OF reads] publishes(3)] by simp
    have "set (map fst (pl_removable plan)) \<subseteq> set (bt_keys objects)"
      using plan_maintenance_Inr(5) [OF publishes(4)] by (auto simp: bt_keys_def)
    from publish_phase_calls [OF legal start publishes(1,2) s23 this publishes(5)] rtranclp_trans [OF k2 s23]
    show ?thesis by (auto intro: rtranclp_trans)
  qed
qed

interpretation collecting: retry_body "maintain_attempt E L topic part options now"
  "\<lambda>st. log_legal E L topic part view rely \<and> (write_call E)\<^sup>*\<^sup>* s0 (fst st)"
  "\<lambda>report st. fence_kept E L topic part view (mo_max_objects options) s0 (fst st)"
  "\<lambda>e st. fence_kept E L topic part view (mo_max_objects options) s0 (fst st)"
  for E :: "('s, 'm) log_env_scheme" and L topic part view rely options now s0
proof
  fix st st' :: "'s \<times> maintenance_report option" and report e
  assume inv: "log_legal E L topic part view rely \<and> (write_call E)\<^sup>*\<^sup>* s0 (fst st)"
  note fin = maintain_attempt_calls [of E L topic part view rely s0 st options now]
  show "maintain_attempt E L topic part options now st = (Inr None, st') \<Longrightarrow>
      log_legal E L topic part view rely \<and> (write_call E)\<^sup>*\<^sup>* s0 (fst st')"
    using fin [of "Inr None" st'] inv by auto
  show "maintain_attempt E L topic part options now st = (Inr (Some report), st') \<Longrightarrow>
      fence_kept E L topic part view (mo_max_objects options) s0 (fst st')"
    using fin [of "Inr (Some report)" st'] inv by (auto simp: fence_kept_def)
  show "maintain_attempt E L topic part options now st = (Inl e, st') \<Longrightarrow>
      fence_kept E L topic part view (mo_max_objects options) s0 (fst st')"
    using fin [of "Inl e" st'] inv by (auto simp: fence_kept_def)
qed

section \<open>What it guarantees\<close>

lemma maintain_calls:
  assumes legal: "log_legal E L topic part view rely"
    and run: "maintain E L topic part options s = (x, t)"
  shows "fence_kept E L topic part view (mo_max_objects options) s t"
proof -
  have read: "(write_call E)\<^sup>*\<^sup>* s u" if "\<forall>R. reads_keep R E \<longrightarrow> R\<^sup>*\<^sup>* s u" for u
    using that creates_keepD(1) [OF write_calls(1)] by blast
  from run show ?thesis
  proof (cases rule: maintain_cases)
    case (early e)
    from read [OF early(1)] show ?thesis by (simp add: fence_kept_def)
  next
    case (runs u now r p)
    have inv: "log_legal E L topic part view rely \<and> (write_call E)\<^sup>*\<^sup>* s (fst (u, None :: maintenance_report option))"
      using legal read [OF runs(1)] by simp
    show ?thesis
    proof (cases r)
      case (Inl e)
      from collecting.retry_fails [OF inv runs(2) [unfolded Inl]] show ?thesis by (auto simp: fence_kept_def)
    next
      case (Inr report)
      from collecting.retry_post [OF inv runs(2) [unfolded Inr]] show ?thesis by simp
    qed
  qed
qed

text \<open>
  Seen by an append, the deletions are within the fence, as long as the objects to delete are counted
  among the garbage of every root from the published one on.
\<close>

lemma collect_call_fenced:
  assumes laws: "store_laws E view rely"
    and rely: "\<And>m m'. rely m m' \<Longrightarrow> fenced E L topic part epoch garbage m m'"
    and dead: "\<And>u. rely (view s) (view u) \<Longrightarrow> w_path_from E ` dead \<subseteq> garbage (root_version E L topic part (view u))"
      "manifest_path E L topic part \<notin> w_path_from E ` dead"
    and call: "collect_call E dead s t"
  shows "fenced E L topic part epoch garbage (view s) (view t)"
proof (cases "read_call E s t")
  case True
  then have "rely (view s) (view t)"
    using store_laws_get [OF laws prod.collapse [symmetric]] store_laws_head [OF laws prod.collapse [symmetric]]
      store_laws_calls [OF laws prod.collapse [symmetric]] unfolding read_call_def by blast
  then show ?thesis by (rule rely)
next
  case False
  with call obtain key r where key: "key \<in> dead" and del: "w_delete E (w_path_from E key) s = (r, t)"
    unfolding collect_call_def by (metis prod.collapse)
  from store_laws_delete [OF laws del] obtain u where
    u: "rely (view s) (view u)" "delete_outcome (w_path_from E key) r (view u) (view t)" by blast
  have su: "fenced E L topic part epoch garbage (view s) (view u)" by (rule rely [OF u(1)])
  have t: "view t = view u \<or> view t = (view u)(w_path_from E key := None)"
    using u(2) by (auto simp: delete_outcome_def split: sum.splits store_error.splits)
  have "manifest_path E L topic part \<noteq> w_path_from E key" using dead(2) key by auto
  with t have root: "root_version E L topic part (view t) = root_version E L topic part (view u)"
    by (auto simp: root_version_def)
  have "w_path_from E key \<in> garbage (root_version E L topic part (view u))" using dead(1) [OF u(1)] key by blast
  with t have a: "view t q = view u q \<or> view t q = None \<and> q \<in> garbage (root_version E L topic part (view u))" for q
    by (auto simp: fun_upd_apply split: if_splits)
  from su root have moves: "root_moves E L topic part epoch (view s) (view t)" by (simp add: fenced_def root_moves_def)
  have "view t q = view s q" if "root_version E L topic part (view t) = root_version E L topic part (view s)"
    "immutable_name (engine_dir L topic part) q" "q \<notin> garbage (root_version E L topic part (view s))" "view s q \<noteq> None" for q
    using su a [of q] root that unfolding fenced_def by metis
  moreover have "view t q = view s q \<or> view t q = None"
    if "root_version E L topic part (view t) = root_version E L topic part (view s)"
      "q \<in> garbage (root_version E L topic part (view s))" for q
    using su a [of q] root that unfolding fenced_def by metis
  ultimately show ?thesis using moves unfolding fenced_def by simp
qed

text \<open>C15 (maintenance_fenced). Maintenance deletes only behind the fence, whatever it returns. Either it
  issues no DELETE at all; or it first listed some objects, then loaded the root, then replaced exactly
  that root by a conditional update, and only after that update succeeded deletes objects it had
  listed, none of which the published root reaches, and writes nothing any more.\<close>

theorem maintenance_fenced:
  assumes "log_legal E L topic part view rely"
    and "maintain E L topic part options s = (x, t)"
  shows "fence_kept E L topic part view (mo_max_objects options) s t"
  using assms by (rule maintain_calls)

end
