(* ===== verification/Maintenance_Witnesses.thy ===== *)
theory Maintenance_Witnesses
  imports Log_Witnesses Maintenance_Fence
begin

text \<open>
  The maintenance properties at a concrete run: a log of one batch is trimmed to zero bytes. The
  preview reports it, the applied run publishes the empty root and deletes the record object.
\<close>

definition trimmed_root :: root where
  "trimmed_root = root_default\<lparr>rt_revision := 2, rt_start_offset := 1, rt_next_offset := 1\<rparr>"

definition trim_tables :: tables where
  "trim_tables = log_tables\<lparr>tb_roots := [one_root, trimmed_root]\<rparr>"

abbreviation trim_env :: "mem log_env" where
  "trim_env \<equiv> mem_env trim_tables one_record_codecs"

definition trim_options :: "bool \<Rightarrow> maintenance_options" where
  "trim_options apply = \<lparr>mo_max_age_ms = None, mo_max_bytes = Some 0, mo_apply = apply, mo_max_objects = 10\<rparr>"

definition trim_report :: "bool \<Rightarrow> nat \<Rightarrow> nat \<Rightarrow> maintenance_report" where
  "trim_report applied n b =
     \<lparr>rep_topic = ''t'', rep_partition = 0, rep_applied = applied, rep_publication_uncertain = False,
      rep_previous_start_offset = 0, rep_start_offset = 1, rep_next_offset = 1, rep_max_age_ms = None,
      rep_max_bytes = Some 0, rep_format_adoption = False, rep_retained_batches = 0, rep_retained_record_bytes = 0,
      rep_expired_batches = 1, rep_expired_record_bytes = 68, rep_removable_objects = 1, rep_removable_bytes = 68,
      rep_collected_objects = n, rep_collected_bytes = b\<rparr>"

definition trimmed_log :: mem where
  "trimmed_log = ([(''p/topics/t/0/manifest.json'', [1]), (''p/topics/t/0/manifest.json'', [0]), (''p/topics/t/metadata.json'', [0])], 1)"

definition trim_plan :: maintenance_plan where
  "trim_plan = \<lparr>pl_report = trim_report False 0 0, pl_retained = [], pl_removable = [(''p/topics/t/0/segments/u.batch'', 68)],
     pl_rebuild = True, pl_adoption = 0, pl_revision = 1, pl_producers = None\<rparr>"

lemma trim_checks:
  "validate_topic ''t'' = Inr ()" "0 < n \<Longrightarrow> validate_partition 0 n = Inr ()"
  "validate_maintenance (trim_options a) = Inr ()"
  by (simp_all add: validate_topic_def valid_topic_def safe_char_def is_ascii_alphanumeric_def is_ascii_digit_def
      validate_partition_def validate_maintenance_def trim_options_def)

lemma trim_tables_simps:
  "table_to (tb_roots trim_tables) trimmed_root = Inr [1]" "from_table (tb_roots trim_tables) [0] = Inr one_root"
  "from_table (tb_metadata trim_tables) [0] = Inr \<lparr>tm_schema = 1, tm_partition_count = 1\<rparr>"
  by (simp_all add: table_to_def from_table_def table_from_def trim_tables_def log_tables_def one_root_def trimmed_root_def root_default_def)

lemma trim_topic: "topic_partition_count trim_env sample_engine ''t'' one_batch_log = (Inr (Some 1), one_batch_log)"
proof -
  have "load_topic_metadata trim_env sample_engine ''t'' one_batch_log = (Inr (Some \<lparr>tm_schema = 1, tm_partition_count = 1\<rparr>), one_batch_log)"
    by (simp add: load_topic_metadata_def topic_metadata_path_def sample_dirs io_eval one_batch_log_def MAX_TOPIC_METADATA_BYTES_def
        io_body_def checked_add_u64_def u64_max_def trim_tables_simps validate_topic_metadata_def
        validate_partition_count_def TOPIC_METADATA_SCHEMA_def DEFAULT_TOPIC_PARTITIONS_def MAX_TOPIC_PARTITIONS_def)
  then show ?thesis by (simp add: topic_partition_count_def io_bind_def trim_checks)
qed

lemma trim_load:
  "load_or_empty trim_env sample_engine ''t'' 0 one_batch_log =
     (Inr \<lparr>ld_manifest = Indexed one_root, ld_version = Some (body_tag [0])\<rparr>, one_batch_log)"
proof -
  have "entries (json_seq_of (rt_tail one_root)) = Inr (rt_tail one_root)"
    by (simp add: entries_def PAGE_ENTRIES_def one_root_def)
  then have "decode_manifest trim_env sample_engine ''t'' 0 [0] = Inr (Indexed one_root)"
    using trim_tables_simps validate_one_root
    by (simp add: decode_manifest_def sample_dirs) (simp add: one_root_def root_default_def INDEX_SCHEMA_def MANIFEST_SCHEMA_def)
  then show ?thesis
    by (simp add: load_or_empty_def load_manifest_def manifest_path_def sample_dirs io_eval io_body_def checked_add_u64_def u64_max_def
        one_batch_log_def)
qed

lemma trim_inventory:
  "inventory trim_env sample_engine ''t'' 0 10 one_batch_log = (Inr [(''p/topics/t/0/segments/u.batch'', 68)], one_batch_log)"
  by (simp add: inventory_def inventory_dirs_def Let_def io_eval sample_dirs mem_list_def one_batch_log_def starts_with_def strip_prefix_def
      recognized_def strip_suffix_def)

lemma trim_trace:
  "trace_manifest trim_env sample_engine ''t'' 0 (Indexed one_root) 10 one_batch_log =
     (Inr \<lparr>lg_segments = [one_segment], lg_objects = {''p/topics/t/0/segments/u.batch''}\<rparr>, one_batch_log)"
  by (simp add: trace_manifest_def trace_index_def trace_producers_def one_root_def root_default_def io_eval mem_head_def
      one_segment_def one_batch_log_def)

lemma trim_planned:
  "plan_maintenance sample_engine ''t'' 0 (trim_options a) 1000 (Indexed one_root)
     \<lparr>lg_segments = [one_segment], lg_objects = {''p/topics/t/0/segments/u.batch''}\<rparr> [(''p/topics/t/0/segments/u.batch'', 68)] = Inr trim_plan"
  by (simp add: plan_maintenance_def Let_def one_root_def root_default_def trim_options_def one_segment_def age_expired_def size_expired_def
      planned_live_def sample_dirs starts_with_def strip_prefix_def checked_add_u64_def u64_max_def trim_plan_def trim_report_def INDEX_SCHEMA_def)

lemma preview_one_batch:
  "maintain trim_env sample_engine ''t'' 0 (trim_options False) one_batch_log = (Inr (trim_report False 0 0), one_batch_log)"
proof -
  have "\<not> mo_apply (trim_options False)" "mo_max_objects (trim_options False) = 10" by (simp_all add: trim_options_def)
  then have "maintain_attempt trim_env sample_engine ''t'' 0 (trim_options False) 1000 (one_batch_log, None) =
      (Inr (Some (trim_report False 0 0)), (one_batch_log, None))"
    using trim_inventory trim_load trim_trace trim_planned
    by (simp add: maintain_attempt_def io_bind_def io_fst_def io_try_def) (simp add: trim_plan_def)
  then show ?thesis using trim_checks trim_topic
    by (simp add: maintain_def maintain_at_def maintain_attempts_def io_bind_def unix_millis_def io_call_def MAX_CAS_ATTEMPTS_def
        MAX_TOPIC_PARTITIONS_def retry_unfold publication_result_def)
qed

theorem preview_only_reads_witness:
  "maintain trim_env sample_engine ''t'' 0 (trim_options False) one_batch_log = (Inr (trim_report False 0 0), one_batch_log)
   \<and> (relied mem_view (=))\<^sup>*\<^sup>* one_batch_log one_batch_log"
  using preview_one_batch preview_only_reads [OF reads_relied [OF mem_store_laws] _ preview_one_batch]
  by (simp add: trim_options_def)

lemma trim_one_batch:
  "maintain trim_env sample_engine ''t'' 0 (trim_options True) one_batch_log = (Inr (trim_report True 1 68), trimmed_log)"
proof -
  let ?mid = "((''p/topics/t/0/manifest.json'', [1]) # fst one_batch_log, 1) :: mem"
  have o: "mo_apply (trim_options True)" "mo_max_objects (trim_options True) = 10" by (simp_all add: trim_options_def)
  have valid: "validate_root (\<lambda>u. u \<noteq> []) trimmed_root ''p'' ''t'' 0 = Inr ()"
    by (simp add: validate_root_def trimmed_root_def root_default_def INDEX_SCHEMA_def PAGE_ENTRIES_def validate_segments_def checked_add_u64_def u64_max_def)
  have root: "maintained_root trim_env sample_engine ''t'' 0 10 (Indexed one_root) trim_plan one_batch_log = (Inr trimmed_root, one_batch_log)"
    using valid
    by (simp add: maintained_root_def trim_plan_def trim_report_def rebuild_index_def Let_def io_eval PAGE_ENTRIES_def
        count_levels.simps build_levels.simps numeral_2_eq_2 root_default_def trimmed_root_def sample_dirs checked_add_u64_def u64_max_def)
  have trace: "trace_manifest trim_env sample_engine ''t'' 0 (Indexed trimmed_root) 10 ?mid = (Inr \<lparr>lg_segments = [], lg_objects = {}\<rparr>, ?mid)"
    by (simp add: trace_manifest_def trace_index_def trace_producers_def trimmed_root_def root_default_def io_eval)
  have collect: "collect_objects trim_env {} [(''p/topics/t/0/segments/u.batch'', 68)] (trim_report True 0 0) ?mid = (Inr (trim_report True 1 68), trimmed_log)"
    by (simp add: io_eval mem_delete_def one_batch_log_def trim_report_def trimmed_log_def)
  have phase: "collect_phase trim_env sample_engine ''t'' 0 10 trimmed_root (body_tag [1]) [(''p/topics/t/0/segments/u.batch'', 68)]
      (trim_report True 0 0) ?mid = (Inr (Some (trim_report True 1 68)), trimmed_log)"
    using trace collect by (simp add: collect_phase_def io_bind_def io_try_def del: collect_objects.simps)
  have put: "mem_put ''p/topics/t/0/manifest.json'' [1] (Update (body_tag [0])) one_batch_log = (Inr (body_tag [1]), ?mid)"
    by (simp add: mem_put_def one_batch_log_def)
  have plan: "(pl_report trim_plan)\<lparr>rep_applied := True\<rparr> = trim_report True 0 0"
    "pl_removable trim_plan = [(''p/topics/t/0/segments/u.batch'', 68)]"
    by (simp_all add: trim_plan_def trim_report_def)
  have "publish_phase trim_env sample_engine ''t'' 0 10 \<lparr>ld_manifest = Indexed one_root, ld_version = Some (body_tag [0])\<rparr> trim_plan (one_batch_log, None) =
      (Inr (Some (trim_report True 1 68)), (trimmed_log, Some (trim_report True 0 0)))"
    using root phase put plan trim_tables_simps
    by (simp add: publish_phase_def io_bind_def io_fst_def io_try_def io_json_def set_publication_def Let_def
        manifest_path_def sample_dirs MAX_MANIFEST_BYTES_def)
  then have "maintain_attempt trim_env sample_engine ''t'' 0 (trim_options True) 1000 (one_batch_log, None) =
      (Inr (Some (trim_report True 1 68)), (trimmed_log, Some (trim_report True 0 0)))"
    using o trim_inventory trim_load trim_trace trim_planned
    by (simp add: maintain_attempt_def io_bind_def io_fst_def io_try_def)
  then show ?thesis using trim_checks trim_topic
    by (simp add: maintain_def maintain_at_def maintain_attempts_def io_bind_def unix_millis_def io_call_def MAX_CAS_ATTEMPTS_def
        MAX_TOPIC_PARTITIONS_def retry_unfold publication_result_def)
qed

theorem maintenance_keeps_live_log_witness:
  "maintain trim_env sample_engine ''t'' 0 (trim_options True) one_batch_log = (Inr (trim_report True 1 68), trimmed_log)
   \<and> retention_committed trim_env sample_engine ''t'' 0 (=) (mem_view one_batch_log) (trim_report True 1 68) (mem_view trimmed_log)"
proof -
  have "collect_laws trim_env sample_engine ''t'' 0" by (simp add: collect_laws_def)
  moreover have "append_names trim_env sample_engine ''t'' 0"
    unfolding append_names_def using producer_legalD(2) [OF mem_legal(3)] by (simp add: metadata_named_def)
  ultimately show ?thesis
    using maintenance_keeps_live_log [OF mem_legal(1) _ _ trim_one_batch] trim_one_batch
    by (simp add: maintain_safe_def trim_report_def)
qed

theorem maintenance_fenced_witness:
  "maintain trim_env sample_engine ''t'' 0 (trim_options True) one_batch_log = (Inr (trim_report True 1 68), trimmed_log)
   \<and> fence_kept trim_env sample_engine ''t'' 0 mem_view (mo_max_objects (trim_options True)) one_batch_log trimmed_log"
  using trim_one_batch maintenance_fenced [OF mem_legal(1) trim_one_batch] by blast

end
