(* ===== verification/Group_Store.thy ===== *)
theory Group_Store
  imports Log_Types
begin

text \<open>
  Durable consumer-group offsets (\<open>src/group.rs\<close>): one manifest per group, read under a size
  cap, validated completely, and replaced by compare-and-swap with all entries of a commit at
  once.
\<close>

section \<open>Limits and data\<close>

definition OFFSET_SCHEMA :: nat where "OFFSET_SCHEMA = 1"
definition MAX_OFFSET_MANIFEST_BYTES :: nat where "MAX_OFFSET_MANIFEST_BYTES = 1024 * 1024"
definition MAX_GROUP_OFFSETS :: nat where "MAX_GROUP_OFFSETS = 10000"
definition MAX_COMPONENT_BYTES :: nat where "MAX_COMPONENT_BYTES = 249"
definition MAX_COMMIT_METADATA_BYTES :: nat where "MAX_COMMIT_METADATA_BYTES = 4 * 1024"
definition GROUP_CAS_ATTEMPTS :: nat where "GROUP_CAS_ATTEMPTS = 128"

datatype topic_partition = TopicPartition (tp_topic: string) (tp_partition: int)

text \<open>The derived \<open>Ord\<close>: by topic, then by partition.\<close>

instantiation topic_partition :: linorder
begin

definition less_eq_topic_partition :: "topic_partition \<Rightarrow> topic_partition \<Rightarrow> bool" where
  "less_eq_topic_partition a b \<longleftrightarrow>
     tp_topic a < tp_topic b \<or> (tp_topic a = tp_topic b \<and> tp_partition a \<le> tp_partition b)"

definition less_topic_partition :: "topic_partition \<Rightarrow> topic_partition \<Rightarrow> bool" where
  "less_topic_partition a b \<longleftrightarrow>
     tp_topic a < tp_topic b \<or> (tp_topic a = tp_topic b \<and> tp_partition a < tp_partition b)"

instance
  by standard (auto simp: less_eq_topic_partition_def less_topic_partition_def topic_partition.expand)

end

record committed_offset =
  co_offset :: int
  co_metadata :: "string option"

record offset_commit =
  oc_topic :: string
  oc_partition :: int
  oc_offset :: int
  oc_metadata :: "string option"

record fetched_offset =
  fo_topic_partition :: topic_partition
  fo_committed :: "committed_offset option"

record offset_entry =
  oe_topic :: string
  oe_partition :: int
  oe_offset :: int
  oe_metadata :: "string option"

record offset_manifest =
  om_schema :: nat
  om_revision :: nat
  om_offsets :: "offset_entry list"

record loaded_offsets =
  lo_manifest :: offset_manifest
  lo_version :: "update_version option"

datatype group_error =
    InvalidPrefix
  | InvalidGroupId string
  | InvalidGroupTopic string
  | UnsupportedGroupPartition int
  | InvalidCommitOffset int
  | MetadataTooLarge nat
  | DuplicateCommit string int
  | DuplicateFetch string int
  | OffsetLimit nat
  | OffsetManifestTooLarge nat nat
  | OffsetRevisionOverflow
  | InvalidOffsetManifest string
  | OffsetSerialization string
  | GroupObjectStore store_error
  | GroupContentionExhausted nat

definition offset_manifest_default :: offset_manifest where
  "offset_manifest_default = \<lparr>om_schema = OFFSET_SCHEMA, om_revision = 0, om_offsets = []\<rparr>"

definition loaded_offsets_empty :: loaded_offsets where
  "loaded_offsets_empty = \<lparr>lo_manifest = offset_manifest_default, lo_version = None\<rparr>"

section \<open>Messages\<close>

text \<open>
  \<open>Debug\<close> of a string, exact on ASCII: quotes, backslashes and control characters are escaped.
  (Unprintable non-ASCII characters, which Rust escapes too, pass through.)
\<close>

definition hex_char :: "nat \<Rightarrow> char" where
  "hex_char d = char_of (if d < 10 then 48 + d else 87 + d)"

definition debug_char :: "char \<Rightarrow> string" where
  "debug_char c =
     (let n = of_char c :: nat in
      if n = 34 then [CHR 0x5C, CHR 0x22]
      else if n = 92 then [CHR 0x5C, CHR 0x5C]
      else if n = 0 then [CHR 0x5C, CHR ''0'']
      else if n = 9 then [CHR 0x5C, CHR ''t'']
      else if n = 10 then [CHR 0x5C, CHR ''n'']
      else if n = 13 then [CHR 0x5C, CHR ''r'']
      else if n < 16 then [CHR 0x5C, CHR ''u'', CHR ''{'', hex_char n, CHR ''}'']
      else if n < 32 \<or> n = 127 then [CHR 0x5C, CHR ''u'', CHR ''{'', hex_char (n div 16), hex_char (n mod 16), CHR ''}'']
      else [c])"

definition debug_string :: "string \<Rightarrow> string" where
  "debug_string s = [CHR 0x22] @ concat (map debug_char s) @ [CHR 0x22]"

text \<open>The \<open>Display\<close> of an error.\<close>

fun group_error_message :: "group_error \<Rightarrow> string" where
  "group_error_message InvalidPrefix = ''group store prefix is not a safe relative object path''"
| "group_error_message (InvalidGroupId gid) = ''invalid group id '' @ debug_string gid"
| "group_error_message (InvalidGroupTopic topic) = ''invalid topic name '' @ debug_string topic"
| "group_error_message (UnsupportedGroupPartition part) =
     ''partition '' @ show_int part @ '' is outside Walstream's supported range''"
| "group_error_message (InvalidCommitOffset offset) =
     ''committed offset '' @ show_int offset @ '' must not be negative''"
| "group_error_message (MetadataTooLarge maximum) =
     ''committed offset metadata exceeds '' @ show_nat maximum @ '' bytes''"
| "group_error_message (DuplicateCommit topic part) =
     ''duplicate offset commit for '' @ debug_string topic @ '' partition '' @ show_int part"
| "group_error_message (DuplicateFetch topic part) =
     ''duplicate offset fetch for '' @ debug_string topic @ '' partition '' @ show_int part"
| "group_error_message (OffsetLimit maximum) =
     ''group offset manifest reached its limit of '' @ show_nat maximum @ '' entries''"
| "group_error_message (OffsetManifestTooLarge actual maximum) =
     ''group offset manifest is '' @ show_nat actual @ '' bytes; maximum is '' @ show_nat maximum"
| "group_error_message OffsetRevisionOverflow = ''group offset revision overflow''"
| "group_error_message (InvalidOffsetManifest detail) = ''invalid group offset manifest: '' @ detail"
| "group_error_message (OffsetSerialization _) = ''group offset serialization failed''"
| "group_error_message (GroupObjectStore _) = ''group offset object-store operation failed''"
| "group_error_message (GroupContentionExhausted attempts) =
     ''group offset contention did not converge after '' @ show_nat attempts @ '' attempts''"

section \<open>Validation\<close>

datatype identifier_kind = GroupKind | TopicKind

definition validate_component :: "string \<Rightarrow> identifier_kind \<Rightarrow> group_error + unit" where
  "validate_component value kind =
     (if value \<noteq> [] \<and> length value \<le> MAX_COMPONENT_BYTES \<and> value \<noteq> ''.'' \<and> value \<noteq> ''..''
         \<and> list_all safe_char value
      then Inr ()
      else (case kind of GroupKind \<Rightarrow> Inl (InvalidGroupId value) | TopicKind \<Rightarrow> Inl (InvalidGroupTopic value)))"

definition validate_group_partition :: "int \<Rightarrow> group_error + unit" where
  "validate_group_partition part = ensure (0 \<le> part \<and> part < MAX_TOPIC_PARTITIONS) (UnsupportedGroupPartition part)"

definition validate_commit_offset :: "int \<Rightarrow> group_error + unit" where
  "validate_commit_offset offset = ensure (offset \<ge> 0) (InvalidCommitOffset offset)"

definition validate_commit_metadata :: "string option \<Rightarrow> group_error + unit" where
  "validate_commit_metadata metadata =
     (if (case metadata of None \<Rightarrow> False | Some value \<Rightarrow> length value > MAX_COMMIT_METADATA_BYTES)
      then Inl (MetadataTooLarge MAX_COMMIT_METADATA_BYTES) else Inr ())"

definition validate_group_prefix :: "string \<Rightarrow> group_error + unit" where
  "validate_group_prefix prefix = ensure (safe_prefix prefix) InvalidPrefix"

definition validate_group_id :: "string \<Rightarrow> group_error + unit" where
  "validate_group_id gid = validate_component gid GroupKind"

definition validate_topic_partition :: "topic_partition \<Rightarrow> group_error + unit" where
  "validate_topic_partition key =
     attempt (validate_component (tp_topic key) TopicKind) (\<lambda>_. validate_group_partition (tp_partition key))"

fun validate_commits_from :: "(string \<times> int) set \<Rightarrow> offset_commit list \<Rightarrow> group_error + unit" where
  "validate_commits_from keys [] = Inr ()"
| "validate_commits_from keys (c # commits) =
     attempt (validate_component (oc_topic c) TopicKind) (\<lambda>_.
     attempt (validate_group_partition (oc_partition c)) (\<lambda>_.
     attempt (validate_commit_offset (oc_offset c)) (\<lambda>_.
     attempt (validate_commit_metadata (oc_metadata c)) (\<lambda>_.
       if (oc_topic c, oc_partition c) \<in> keys then Inl (DuplicateCommit (oc_topic c) (oc_partition c))
       else validate_commits_from (insert (oc_topic c, oc_partition c) keys) commits))))"

definition validate_commits :: "offset_commit list \<Rightarrow> group_error + unit" where
  "validate_commits commits =
     (if length commits > MAX_GROUP_OFFSETS then Inl (OffsetLimit MAX_GROUP_OFFSETS)
      else validate_commits_from {} commits)"

fun validate_selection_from :: "topic_partition set \<Rightarrow> topic_partition list \<Rightarrow> group_error + unit" where
  "validate_selection_from keys [] = Inr ()"
| "validate_selection_from keys (k # ks) =
     attempt (validate_component (tp_topic k) TopicKind) (\<lambda>_.
     attempt (validate_group_partition (tp_partition k)) (\<lambda>_.
       if k \<in> keys then Inl (DuplicateFetch (tp_topic k) (tp_partition k))
       else validate_selection_from (insert k keys) ks))"

definition validate_selection :: "topic_partition list \<Rightarrow> group_error + unit" where
  "validate_selection selection =
     (if length selection > MAX_GROUP_OFFSETS then Inl (OffsetLimit MAX_GROUP_OFFSETS)
      else validate_selection_from {} selection)"

section \<open>The manifest as a map\<close>

definition validate_entry :: "offset_entry \<Rightarrow> group_error + unit" where
  "validate_entry e =
     map_err (\<lambda>err. InvalidOffsetManifest (group_error_message err))
       (attempt (validate_component (oe_topic e) TopicKind) (\<lambda>_.
        attempt (validate_group_partition (oe_partition e)) (\<lambda>_.
        attempt (validate_commit_offset (oe_offset e)) (\<lambda>_.
          validate_commit_metadata (oe_metadata e)))))"

fun offset_map_from ::
  "(topic_partition, committed_offset) btree_map \<Rightarrow> offset_entry list
   \<Rightarrow> group_error + (topic_partition, committed_offset) btree_map" where
  "offset_map_from offsets [] = Inr offsets"
| "offset_map_from offsets (e # entries) =
     attempt (validate_entry e) (\<lambda>_.
       let key = TopicPartition (oe_topic e) (oe_partition e)
       in if bt_contains offsets key
          then Inl (InvalidOffsetManifest ''offset manifest contains duplicate topic-partitions'')
          else offset_map_from
                 (bt_insert key \<lparr>co_offset = oe_offset e, co_metadata = oe_metadata e\<rparr> offsets) entries)"

definition offset_map :: "offset_manifest \<Rightarrow> group_error + (topic_partition, committed_offset) btree_map" where
  "offset_map m = offset_map_from [] (om_offsets m)"

definition validate_offset_manifest :: "offset_manifest \<Rightarrow> group_error + unit" where
  "validate_offset_manifest m =
     (if om_schema m \<noteq> OFFSET_SCHEMA then Inl (InvalidOffsetManifest (''unsupported schema '' @ show_nat (om_schema m)))
      else attempt (offset_map m) (\<lambda>_. Inr ()))"

text \<open>The visitor of the offsets array; an element past the limit is decoded before it is refused.\<close>

fun visit_offsets :: "offset_entry list \<Rightarrow> offset_entry json_element list \<Rightarrow> string + offset_entry list" where
  "visit_offsets offsets [] = Inr offsets"
| "visit_offsets offsets (x # rest) =
     (case x of
        JsonSyntax e \<Rightarrow> Inl e
      | JsonMismatch e \<Rightarrow> Inl e
      | JsonValue v \<Rightarrow>
          if length offsets = MAX_GROUP_OFFSETS then Inl ''committed offset limit exceeded''
          else visit_offsets (offsets @ [v]) rest)"

definition deserialize_offsets :: "offset_entry json_seq \<Rightarrow> string + offset_entry list" where
  "deserialize_offsets sq =
     (if (case js_hint sq of None \<Rightarrow> False | Some hint \<Rightarrow> hint > MAX_GROUP_OFFSETS)
      then Inl ''committed offset limit exceeded''
      else visit_offsets [] (js_elements sq))"

section \<open>The store\<close>

record 's group_env = "'s world" +
  ge_offsets_to_vec :: "offset_manifest \<Rightarrow> string + bytes"
  ge_offsets_from_slice :: "(offset_entry json_seq \<Rightarrow> string + offset_entry list) \<Rightarrow> bytes \<Rightarrow> string + offset_manifest"

definition group_store_new :: "string \<Rightarrow> group_error + string" where
  "group_store_new prefix = attempt (validate_group_prefix prefix) (\<lambda>_. Inr prefix)"

definition offset_path :: "('s, 'm) world_scheme \<Rightarrow> string \<Rightarrow> string \<Rightarrow> string" where
  "offset_path W prefix gid = w_path_from W (prefix @ ''/groups/'' @ gid @ ''/offsets.json'')"

definition decode_offsets :: "('s, 'm) group_env_scheme \<Rightarrow> bytes \<Rightarrow> group_error + offset_manifest" where
  "decode_offsets E bytes =
     attempt (map_err InvalidOffsetManifest (ge_offsets_from_slice E deserialize_offsets bytes)) (\<lambda>manifest.
     attempt (validate_offset_manifest manifest) (\<lambda>_. Inr manifest))"

definition load_offsets ::
  "('s, 'm) group_env_scheme \<Rightarrow> string \<Rightarrow> string \<Rightarrow> ('s, group_error, loaded_offsets option) io" where
  "load_offsets E prefix gid =
     io_bind (io_try (w_get E (offset_path E prefix gid))) (\<lambda>got.
       case got of
         Inr result \<Rightarrow>
           if gr_size result > MAX_OFFSET_MANIFEST_BYTES
           then io_err (InvalidOffsetManifest (''offset manifest is '' @ show_nat (gr_size result)
                  @ '' bytes; maximum is '' @ show_nat MAX_OFFSET_MANIFEST_BYTES))
           else io_bind (io_lift (map_err (\<lambda>e. case e of
                    ReadStore source \<Rightarrow> GroupObjectStore source
                  | TooLarge \<Rightarrow> InvalidOffsetManifest (''offset manifest body exceeds ''
                      @ show_nat MAX_OFFSET_MANIFEST_BYTES @ '' bytes''))
                  (collect_bounded (gr_chunks result) MAX_OFFSET_MANIFEST_BYTES []))) (\<lambda>bytes.
                io_bind (io_lift (decode_offsets E bytes)) (\<lambda>manifest.
                  io_ret (Some \<lparr>lo_manifest = manifest, lo_version = Some (gr_version result)\<rparr>)))
       | Inl NotFound \<Rightarrow> io_ret None
       | Inl e \<Rightarrow> io_err (GroupObjectStore e))"

definition apply_commits ::
  "offset_commit list \<Rightarrow> (topic_partition, committed_offset) btree_map \<Rightarrow> (topic_partition, committed_offset) btree_map" where
  "apply_commits commits offsets =
     foldl (\<lambda>m (k, v). bt_insert k v m) offsets
       (map (\<lambda>c. (TopicPartition (oc_topic c) (oc_partition c),
                   \<lparr>co_offset = oc_offset c, co_metadata = oc_metadata c\<rparr>)) commits)"

definition offset_entries :: "(topic_partition, committed_offset) btree_map \<Rightarrow> offset_entry list" where
  "offset_entries offsets =
     map (\<lambda>(key, value). \<lparr>oe_topic = tp_topic key, oe_partition = tp_partition key,
                           oe_offset = co_offset value, oe_metadata = co_metadata value\<rparr>) offsets"

text \<open>The manifest after the commits, and its conditional publication.\<close>

definition next_offsets :: "offset_commit list \<Rightarrow> offset_manifest \<Rightarrow> group_error + offset_manifest" where
  "next_offsets commits manifest =
     attempt (offset_map manifest) (\<lambda>offsets.
       let offsets = apply_commits commits offsets
       in if length offsets > MAX_GROUP_OFFSETS then Inl (OffsetLimit MAX_GROUP_OFFSETS)
          else attempt (ok_or (checked_add_u64 (om_revision manifest) 1) OffsetRevisionOverflow) (\<lambda>revision.
                 Inr (manifest\<lparr>om_revision := revision, om_offsets := offset_entries offsets\<rparr>)))"

definition publish_offsets ::
  "('s, 'm) group_env_scheme \<Rightarrow> string \<Rightarrow> string \<Rightarrow> update_version option \<Rightarrow> offset_manifest \<Rightarrow> ('s, group_error, unit option) io" where
  "publish_offsets E prefix gid ver next =
     io_bind (io_lift (map_err OffsetSerialization (ge_offsets_to_vec E next))) (\<lambda>bytes.
       if length bytes > MAX_OFFSET_MANIFEST_BYTES
       then io_err (OffsetManifestTooLarge (length bytes) MAX_OFFSET_MANIFEST_BYTES)
       else
         let mode = (case ver of None \<Rightarrow> Create | Some v \<Rightarrow> Update v)
         in io_bind (io_try (w_put E (offset_path E prefix gid) bytes mode)) (\<lambda>put.
            case put of
              Inr _ \<Rightarrow> io_ret (Some ())
            | Inl AlreadyExists \<Rightarrow> io_ret None
            | Inl Precondition \<Rightarrow> io_ret None
            | Inl e \<Rightarrow> io_err (GroupObjectStore e)))"

definition commit_offsets_attempt ::
  "('s, 'm) group_env_scheme \<Rightarrow> string \<Rightarrow> string \<Rightarrow> offset_commit list \<Rightarrow> ('s, group_error, unit option) io" where
  "commit_offsets_attempt E prefix gid commits =
     io_bind (load_offsets E prefix gid) (\<lambda>found.
       let loaded = (case found of None \<Rightarrow> loaded_offsets_empty | Some l \<Rightarrow> l)
       in io_bind (io_lift (next_offsets commits (lo_manifest loaded))) (\<lambda>next.
          publish_offsets E prefix gid (lo_version loaded) next))"

definition commit_offsets ::
  "('s, 'm) group_env_scheme \<Rightarrow> string \<Rightarrow> string \<Rightarrow> offset_commit list \<Rightarrow> ('s, group_error, unit) io" where
  "commit_offsets E prefix gid commits =
     io_bind (io_lift (validate_component gid GroupKind)) (\<lambda>_.
     io_bind (io_lift (validate_commits commits)) (\<lambda>_.
       if commits = [] then io_ret ()
       else retry GROUP_CAS_ATTEMPTS (GroupContentionExhausted GROUP_CAS_ATTEMPTS)
              (commit_offsets_attempt E prefix gid commits)))"

definition loaded_map ::
  "loaded_offsets option \<Rightarrow> group_error + (topic_partition, committed_offset) btree_map" where
  "loaded_map found = (case found of None \<Rightarrow> Inr [] | Some loaded \<Rightarrow> offset_map (lo_manifest loaded))"

definition group_offsets ::
  "('s, 'm) group_env_scheme \<Rightarrow> string \<Rightarrow> string \<Rightarrow> ('s, group_error, (topic_partition, committed_offset) btree_map) io" where
  "group_offsets E prefix gid =
     io_bind (io_lift (validate_component gid GroupKind)) (\<lambda>_.
     io_bind (load_offsets E prefix gid) (\<lambda>found. io_lift (loaded_map found)))"

definition fetch_offsets ::
  "('s, 'm) group_env_scheme \<Rightarrow> string \<Rightarrow> string \<Rightarrow> topic_partition list option \<Rightarrow> ('s, group_error, fetched_offset list) io" where
  "fetch_offsets E prefix gid selection =
     io_bind (io_lift (validate_component gid GroupKind)) (\<lambda>_.
     io_bind (case selection of None \<Rightarrow> io_ret () | Some keys \<Rightarrow> io_lift (validate_selection keys)) (\<lambda>_.
     io_bind (load_offsets E prefix gid) (\<lambda>found.
     io_bind (io_lift (loaded_map found)) (\<lambda>offsets.
       io_ret (case selection of
           Some keys \<Rightarrow> map (\<lambda>key. \<lparr>fo_topic_partition = key, fo_committed = bt_get offsets key\<rparr>) keys
         | None \<Rightarrow> map (\<lambda>(key, committed). \<lparr>fo_topic_partition = key, fo_committed = Some committed\<rparr>) offsets)))))"

end
