(* ===== verification/Group_Store_Laws.thy ===== *)
theory Group_Store_Laws
  imports Group_Store
begin

text \<open>
  What the offset store promises: a manifest it writes reads back as the map it was made from, a
  successful commit overrides the current map with all entries of the request in one update,
  and a fetch answers from one current map.
\<close>

section \<open>The manifest as a map\<close>

definition offset_ok :: "topic_partition \<times> committed_offset \<Rightarrow> bool" where
  "offset_ok e \<longleftrightarrow>
     (case e of (k, v) \<Rightarrow>
        validate_component (tp_topic k) TopicKind = Inr () \<and> validate_group_partition (tp_partition k) = Inr ()
      \<and> validate_commit_offset (co_offset v) = Inr () \<and> validate_commit_metadata (co_metadata v) = Inr ())"

definition offsets_ok :: "(topic_partition, committed_offset) btree_map \<Rightarrow> bool" where
  "offsets_ok offsets \<longleftrightarrow> bt_inv offsets \<and> list_all offset_ok offsets"

lemma bt_insert_set: "set (bt_insert k v m) \<subseteq> insert (k, v) (set m)"
  by (induction k v m rule: bt_insert.induct) auto

lemma offsets_ok_insert:
  "offsets_ok m \<Longrightarrow> offset_ok (k, v) \<Longrightarrow> offsets_ok (bt_insert k v m)"
  using bt_insert_set [of k v m] by (auto simp: offsets_ok_def list_all_iff)

lemma validate_entry_Inr:
  "validate_entry e = Inr () \<longleftrightarrow>
     offset_ok (TopicPartition (oe_topic e) (oe_partition e), \<lparr>co_offset = oe_offset e, co_metadata = oe_metadata e\<rparr>)"
  by (auto simp: validate_entry_def offset_ok_def map_err_def result_simps split: sum.splits)

lemma offset_map_from_ok: "offset_map_from m es = Inr m' \<Longrightarrow> offsets_ok m \<Longrightarrow> offsets_ok m'"
  by (induction m es rule: offset_map_from.induct)
    (auto simp: Let_def result_simps validate_entry_Inr intro: offsets_ok_insert split: if_splits)

lemma offset_map_ok: "offset_map m = Inr offsets \<Longrightarrow> offsets_ok offsets"
  unfolding offset_map_def by (erule offset_map_from_ok) (simp add: offsets_ok_def bt_inv_def)

text \<open>Entries in key order are appended one by one.\<close>

lemma bt_insert_last: "\<forall>k' \<in> set (map fst m). k' < k \<Longrightarrow> bt_insert k v m = m @ [(k, v)]"
  by (induction k v m rule: bt_insert.induct) auto

lemma offset_map_from_entries:
  assumes "offsets_ok (m @ es)"
  shows "offset_map_from m (offset_entries es) = Inr (m @ es)"
  using assms
proof (induction es arbitrary: m)
  case (Cons e es)
  obtain k v where e: "e = (k, v)" by force
  have less: "\<forall>k' \<in> set (map fst m). k' < k"
    using Cons.prems e by (auto simp: offsets_ok_def bt_inv_def sorted_wrt_append)
  have valid: "offset_ok (k, v)" using Cons.prems e by (auto simp: offsets_ok_def)
  have same: "\<lparr>co_offset = co_offset v, co_metadata = co_metadata v\<rparr> = v" by (cases v) simp
  have entry: "validate_entry \<lparr>oe_topic = tp_topic k, oe_partition = tp_partition k,
      oe_offset = co_offset v, oe_metadata = co_metadata v\<rparr> = Inr ()"
    using valid by (simp add: validate_entry_Inr offset_ok_def)
  have "bt_get m k = None" using less by (auto simp: bt_get_def map_of_eq_None_iff)
  moreover have "offsets_ok ((m @ [(k, v)]) @ es)" using Cons.prems e by simp
  ultimately show ?case
    using Cons.IH entry e less
    by (simp add: same offset_entries_def bt_contains_def bt_insert_last Let_def)
qed (simp add: offset_entries_def)

lemma offset_map_of_entries: "offsets_ok offsets \<Longrightarrow> om_offsets m = offset_entries offsets \<Longrightarrow> offset_map m = Inr offsets"
  using offset_map_from_entries [of "[]" offsets] by (simp add: offset_map_def)

lemma visit_offsets_values:
  "visit_offsets acc (map JsonValue es) =
     (if length acc + length es \<le> MAX_GROUP_OFFSETS \<or> es = [] then Inr (acc @ es)
      else Inl ''committed offset limit exceeded'')" if "length acc \<le> MAX_GROUP_OFFSETS"
  using that by (induction es arbitrary: acc) auto

lemma deserialize_offsets_seq_of: "length es \<le> MAX_GROUP_OFFSETS \<Longrightarrow> deserialize_offsets (json_seq_of es) = Inr es"
  using visit_offsets_values [of "[]" es] by (simp add: deserialize_offsets_def json_seq_of_def)

text \<open>C28 (offset_manifest_round_trip). The entry list of a map of valid positions passes the complete
  manifest check and reads back as the same map.\<close>

theorem offset_manifest_round_trip:
  assumes "offsets_ok offsets" "om_schema m = OFFSET_SCHEMA" "om_offsets m = offset_entries offsets"
    and "length offsets \<le> MAX_GROUP_OFFSETS"
  shows "deserialize_offsets (json_seq_of (om_offsets m)) = Inr (om_offsets m)
    \<and> validate_offset_manifest m = Inr () \<and> offset_map m = Inr offsets"
  using assms offset_map_of_entries [of offsets m] deserialize_offsets_seq_of [of "om_offsets m"]
  by (simp add: validate_offset_manifest_def offset_entries_def)

definition two_offsets :: "(topic_partition, committed_offset) btree_map" where
  "two_offsets = [(TopicPartition ''a'' 0, \<lparr>co_offset = 7, co_metadata = None\<rparr>),
                  (TopicPartition ''a'' 3, \<lparr>co_offset = 0, co_metadata = Some ''m''\<rparr>)]"

lemma two_offsets_ok: "offsets_ok two_offsets"
  by (simp add: offsets_ok_def two_offsets_def bt_inv_def offset_ok_def validate_component_def MAX_COMPONENT_BYTES_def safe_char_def
      is_ascii_alphanumeric_def is_ascii_digit_def validate_group_partition_def MAX_TOPIC_PARTITIONS_def validate_commit_offset_def
      validate_commit_metadata_def MAX_COMMIT_METADATA_BYTES_def less_topic_partition_def)

theorem offset_manifest_round_trip_witness:
  "offset_map \<lparr>om_schema = 1, om_revision = 4, om_offsets = offset_entries two_offsets\<rparr> = Inr two_offsets"
  using offset_manifest_round_trip [OF two_offsets_ok, of "\<lparr>om_schema = 1, om_revision = 4, om_offsets = offset_entries two_offsets\<rparr>"]
  by (simp add: OFFSET_SCHEMA_def MAX_GROUP_OFFSETS_def two_offsets_def)

section \<open>Commits as map updates\<close>

definition commit_pairs :: "offset_commit list \<Rightarrow> (topic_partition \<times> committed_offset) list" where
  "commit_pairs commits =
     map (\<lambda>c. (TopicPartition (oc_topic c) (oc_partition c), \<lparr>co_offset = oc_offset c, co_metadata = oc_metadata c\<rparr>)) commits"

lemma validate_commits_from_ok:
  "validate_commits_from keys commits = Inr () \<Longrightarrow>
   list_all offset_ok (commit_pairs commits) \<and> distinct (map fst (commit_pairs commits))
   \<and> (\<forall>k \<in> set (map fst (commit_pairs commits)). (tp_topic k, tp_partition k) \<notin> keys)"
  by (induction keys commits rule: validate_commits_from.induct)
    (fastforce simp: commit_pairs_def result_simps offset_ok_def split: if_splits)+

lemma apply_commits_ok:
  assumes "offsets_ok offsets" "list_all offset_ok (commit_pairs commits)"
  shows "offsets_ok (apply_commits commits offsets)"
proof -
  have "offsets_ok (foldl (\<lambda>m (k, v). bt_insert k v m) m es)" if "offsets_ok m" "list_all offset_ok es" for m es
    using that by (induction es arbitrary: m) (auto intro: offsets_ok_insert split: prod.splits)
  from this [OF assms] show ?thesis by (simp add: apply_commits_def commit_pairs_def)
qed

lemma apply_commits_get:
  assumes "offsets_ok offsets" "distinct (map fst (commit_pairs commits))"
  shows "bt_get (apply_commits commits offsets) = bt_get offsets ++ map_of (commit_pairs commits)"
proof -
  have "bt_get (apply_commits commits offsets) = bt_get offsets ++ map_of (rev (commit_pairs commits))"
    using bt.fold_ins [of offsets "commit_pairs commits"] assms(1)
    by (simp add: apply_commits_def commit_pairs_def offsets_ok_def)
  also have "map_of (rev (commit_pairs commits)) = map_of (commit_pairs commits)"
    using assms(2) by (intro map_of_inject_set [THEN iffD2]) (simp_all flip: rev_map)
  finally show ?thesis .
qed

section \<open>The current map\<close>

text \<open>A manifest decodes to what was encoded, its offsets passing through the visitor.\<close>

definition offset_json_laws :: "('s, 'm) group_env_scheme \<Rightarrow> bool" where
  "offset_json_laws E \<longleftrightarrow>
     (\<forall>m b visit es. ge_offsets_to_vec E m = Inr b \<longrightarrow> visit (json_seq_of (om_offsets m)) = Inr es \<longrightarrow>
        ge_offsets_from_slice E visit b = Inr (m\<lparr>om_offsets := es\<rparr>))"

definition group_legal ::
  "('s, 'm) group_env_scheme \<Rightarrow> ('s \<Rightarrow> objects) \<Rightarrow> (objects \<Rightarrow> objects \<Rightarrow> bool) \<Rightarrow> bool" where
  "group_legal E view rely \<longleftrightarrow> store_laws E view rely \<and> offset_json_laws E"

text \<open>The positions a bucket holds for a group; \<open>None\<close> if the stored manifest is not valid.\<close>

definition current_offsets ::
  "('s, 'm) group_env_scheme \<Rightarrow> string \<Rightarrow> string \<Rightarrow> objects \<Rightarrow> (topic_partition, committed_offset) btree_map option" where
  "current_offsets E prefix gid m =
     (case m (offset_path E prefix gid) of
        None \<Rightarrow> Some []
      | Some (_, b) \<Rightarrow>
          (case decode_offsets E b of Inl _ \<Rightarrow> None | Inr manifest \<Rightarrow>
             (case offset_map manifest of Inl _ \<Rightarrow> None | Inr offsets \<Rightarrow> Some offsets)))"

lemma current_offsets_ok: "current_offsets E prefix gid m = Some offsets \<Longrightarrow> offsets_ok offsets"
  by (auto simp: current_offsets_def offsets_ok_def bt_inv_def split: option.splits prod.splits sum.splits
      dest: offset_map_ok)

lemma load_offsets_current:
  assumes legal: "group_legal E view rely" and run: "load_offsets E prefix gid s = (Inr found, t)"
  shows "rely (view s) (view t) \<and> loaded_map found = Inr (the (current_offsets E prefix gid (view t)))
    \<and> current_offsets E prefix gid (view t) \<noteq> None
    \<and> (case found of None \<Rightarrow> None | Some l \<Rightarrow> lo_version l) = map_option fst (view t (offset_path E prefix gid))
    \<and> (\<forall>l. found = Some l \<longrightarrow> om_schema (lo_manifest l) = OFFSET_SCHEMA)"
proof -
  let ?p = "offset_path E prefix gid"
  have laws: "store_laws E view rely" using legal by (simp add: group_legal_def)
  obtain got u where got: "w_get E ?p s = (got, u)" by force
  from store_laws_get [OF laws got] have r: "rely (view s) (view u)" "get_outcome (view u ?p) got" by auto
  show ?thesis
  proof (cases got)
    case (Inl e)
    with run got have "e = NotFound \<and> found = None \<and> t = u"
      by (cases e) (auto simp: load_offsets_def result_simps)
    with Inl r show ?thesis by (simp add: get_outcome_def current_offsets_def loaded_map_def)
  next
    case (Inr g)
    with run got obtain b manifest where b: "collect_bounded (gr_chunks g) MAX_OFFSET_MANIFEST_BYTES [] = Inr b"
      "decode_offsets E b = Inr manifest" "found = Some \<lparr>lo_manifest = manifest, lo_version = Some (gr_version g)\<rparr>" "t = u"
      by (auto simp: load_offsets_def result_simps map_err_def split: if_splits sum.splits)
    from r Inr obtain b' where b': "view t ?p = Some (gr_version g, b')" "delivers (gr_chunks g) b'"
      using b(4) by (auto simp: get_outcome_def split: option.splits)
    have "b' = b" using collect_bounded_delivers [OF b(1) b'(2)] by simp
    moreover have "validate_offset_manifest manifest = Inr ()" using b(2) by (auto simp: decode_offsets_def result_simps)
    then obtain offsets where "offset_map manifest = Inr offsets" "om_schema manifest = OFFSET_SCHEMA"
      by (auto simp: validate_offset_manifest_def result_simps split: if_splits)
    ultimately show ?thesis using b b' r by (simp add: current_offsets_def loaded_map_def)
  qed
qed

section \<open>Commit\<close>

text \<open>
  A successful commit: at the bucket \<open>m1\<close> the positions were \<open>offsets\<close>; one update of the group's object
  then made them \<open>offsets\<close> overridden by every entry of the request.
\<close>

definition commit_done ::
  "('s, 'm) group_env_scheme \<Rightarrow> string \<Rightarrow> string \<Rightarrow> (objects \<Rightarrow> objects \<Rightarrow> bool) \<Rightarrow> offset_commit list
   \<Rightarrow> objects \<Rightarrow> objects \<Rightarrow> bool" where
  "commit_done E prefix gid rely commits m0 m2 \<longleftrightarrow>
     (\<exists>m1 offsets v b. rely m0 m1 \<and> current_offsets E prefix gid m1 = Some offsets
        \<and> m2 = m1(offset_path E prefix gid \<mapsto> (v, b))
        \<and> (\<exists>offsets'. current_offsets E prefix gid m2 = Some offsets'
             \<and> bt_get offsets' = bt_get offsets ++ map_of (commit_pairs commits)))"

text \<open>A failed commit changed nothing, or its update got no definite answer and may have been done.\<close>

definition commit_failed ::
  "('s, 'm) group_env_scheme \<Rightarrow> string \<Rightarrow> string \<Rightarrow> (objects \<Rightarrow> objects \<Rightarrow> bool) \<Rightarrow> offset_commit list
   \<Rightarrow> objects \<Rightarrow> group_error \<Rightarrow> objects \<Rightarrow> bool" where
  "commit_failed E prefix gid rely commits m0 e m2 \<longleftrightarrow>
     rely m0 m2 \<or> (\<exists>detail. e = GroupObjectStore (OtherError detail)) \<and> commit_done E prefix gid rely commits m0 m2"

lemma load_offsets_reads:
  assumes "store_laws E view rely" "load_offsets E prefix gid s = (x, t)"
  shows "rely (view s) (view t)"
proof -
  obtain got u where got: "w_get E (offset_path E prefix gid) s = (got, u)" by force
  with assms(2) have "t = u"
    by (cases got; cases "projl got") (auto simp: load_offsets_def io_bind_def io_try_def split: if_splits sum.splits prod.splits)
  with store_laws_get [OF assms(1) got] show ?thesis by simp
qed

lemma written_offsets_current:
  assumes json: "offset_json_laws E" and vec: "ge_offsets_to_vec E m = Inr b"
    and m: "om_schema m = OFFSET_SCHEMA" "om_offsets m = offset_entries offsets"
    and ok: "offsets_ok offsets" "length offsets \<le> MAX_GROUP_OFFSETS"
    and view: "v (offset_path E prefix gid) = Some (w, b)"
  shows "current_offsets E prefix gid v = Some offsets"
proof -
  have "deserialize_offsets (json_seq_of (om_offsets m)) = Inr (om_offsets m)"
    using deserialize_offsets_seq_of [of "om_offsets m"] m ok by (simp add: offset_entries_def)
  with json vec have "ge_offsets_from_slice E deserialize_offsets b = Inr m"
    by (auto simp: offset_json_laws_def)
  with offset_map_of_entries [OF ok(1) m(2)] m(1) show ?thesis
    using view by (simp add: current_offsets_def decode_offsets_def validate_offset_manifest_def)
qed

lemma publish_offsets_step:
  assumes laws: "store_laws E view rely" and run: "publish_offsets E prefix gid ver next s = (x, t)"
  shows "(\<exists>e. x = Inl e) \<and> t = s
    \<or> (\<exists>b put. ge_offsets_to_vec E next = Inr b
         \<and> w_put E (offset_path E prefix gid) b (case ver of None \<Rightarrow> Create | Some v \<Rightarrow> Update v) s = (put, t)
         \<and> x = (case put of Inr _ \<Rightarrow> Inr (Some ()) | Inl AlreadyExists \<Rightarrow> Inr None | Inl Precondition \<Rightarrow> Inr None
              | Inl e \<Rightarrow> Inl (GroupObjectStore e)))"
proof (cases "\<exists>b. ge_offsets_to_vec E next = Inr b \<and> length b \<le> MAX_OFFSET_MANIFEST_BYTES")
  case False
  with run show ?thesis
    by (auto simp: publish_offsets_def io_bind_def map_err_def split: sum.splits if_splits)
next
  case True
  then obtain b where b: "ge_offsets_to_vec E next = Inr b" "\<not> length b > MAX_OFFSET_MANIFEST_BYTES" by auto
  obtain put u where put: "w_put E (offset_path E prefix gid) b (case ver of None \<Rightarrow> Create | Some v \<Rightarrow> Update v) s = (put, u)" by force
  from run b put have "t = u \<and> x = (case put of Inr _ \<Rightarrow> Inr (Some ()) | Inl AlreadyExists \<Rightarrow> Inr None | Inl Precondition \<Rightarrow> Inr None
              | Inl e \<Rightarrow> Inl (GroupObjectStore e))"
    by (cases put; cases "projl put") (auto simp: publish_offsets_def io_bind_def map_err_def io_try_def Let_def)
  with b put show ?thesis by blast
qed

lemma next_offsets_Inr:
  assumes "next_offsets commits manifest = Inr next"
  obtains offsets where "offset_map manifest = Inr offsets" "om_schema next = om_schema manifest"
    "om_offsets next = offset_entries (apply_commits commits offsets)" "length (apply_commits commits offsets) \<le> MAX_GROUP_OFFSETS"
  using assms by (auto simp: next_offsets_def Let_def result_simps split: if_splits)

lemma commit_attempt_step:
  assumes legal: "group_legal E view rely" and valid: "validate_commits commits = Inr ()"
    and m0: "rely m0 (view s)"
    and run: "commit_offsets_attempt E prefix gid commits s = (x, t)"
  shows "(case x of
      Inr None \<Rightarrow> rely m0 (view t)
    | Inr (Some _) \<Rightarrow> commit_done E prefix gid rely commits m0 (view t)
    | Inl e \<Rightarrow> commit_failed E prefix gid rely commits m0 e (view t))"
proof -
  let ?p = "offset_path E prefix gid"
  have laws: "store_laws E view rely" and json: "offset_json_laws E" using legal by (auto simp: group_legal_def)
  note trans = store_laws_trans [OF laws]
  obtain lr u where load: "load_offsets E prefix gid s = (lr, u)" by force
  have su: "rely m0 (view u)" using trans [OF m0 load_offsets_reads [OF laws load]] .
  define loaded where "loaded = (case projr lr of None \<Rightarrow> loaded_offsets_empty | Some l \<Rightarrow> l)"
  show ?thesis
  proof (cases "\<exists>found next. lr = Inr found \<and> next_offsets commits (lo_manifest loaded) = Inr next")
    case False
    with run load have "(\<exists>e. x = Inl e) \<and> t = u"
      by (cases lr) (auto simp: commit_offsets_attempt_def io_bind_def Let_def loaded_def split: sum.splits)
    with su show ?thesis by (auto simp: commit_failed_def)
  next
    case True
    then obtain found next' where lr: "lr = Inr found" and next': "next_offsets commits (lo_manifest loaded) = Inr next'" by blast
    have pub: "publish_offsets E prefix gid (lo_version loaded) next' u = (x, t)"
      using run load lr next' by (simp add: commit_offsets_attempt_def io_bind_def Let_def loaded_def)
    note facts = load_offsets_current [OF legal load [unfolded lr]]
    from next_offsets_Inr [OF next'] obtain offsets where
      map: "offset_map (lo_manifest loaded) = Inr offsets" and schema: "om_schema next' = om_schema (lo_manifest loaded)"
      and entries: "om_offsets next' = offset_entries (apply_commits commits offsets)" "length (apply_commits commits offsets) \<le> MAX_GROUP_OFFSETS" .
    have schema: "om_schema next' = OFFSET_SCHEMA" and ver: "lo_version loaded = map_option fst (view u ?p)"
      using facts lr schema by (cases found; auto simp: loaded_def loaded_offsets_empty_def offset_manifest_default_def)+
    have cur: "current_offsets E prefix gid (view u) = Some offsets"
      using facts lr map by (cases found) (auto simp: loaded_def loaded_map_def loaded_offsets_empty_def offset_manifest_default_def offset_map_def)
    let ?mode = "case lo_version loaded of None \<Rightarrow> Create | Some v \<Rightarrow> Update v"
    from publish_offsets_step [OF laws pub] show ?thesis
    proof (elim disjE exE conjE)
      fix e assume "x = Inl e" "t = u"
      with su show ?thesis by (simp add: commit_failed_def)
    next
      fix b put assume vec: "ge_offsets_to_vec E next' = Inr b" and put: "w_put E ?p b ?mode u = (put, t)"
        and x: "x = (case put of Inr _ \<Rightarrow> Inr (Some ()) | Inl AlreadyExists \<Rightarrow> Inr None | Inl Precondition \<Rightarrow> Inr None
              | Inl e \<Rightarrow> Inl (GroupObjectStore e))"
      from store_laws_put [OF laws put] obtain w where
        w: "rely (view u) (view w)" "put_outcome ?p b ?mode put (view w) (view t)" by blast
      have m0w: "rely m0 (view w)" by (rule trans [OF su w(1)])
      have committed: "commit_done E prefix gid rely commits m0 (view t)"
        if "put_allowed ?mode (view w ?p)" "view t = (view w)(?p \<mapsto> (v, b))" for v
      proof -
        have same: "map_option fst (view w ?p) = map_option fst (view u ?p)"
          using that(1) ver by (cases "view u ?p") (auto simp: put_allowed_def)
        have "view w ?p = view u ?p"
          using same store_laws_version [OF laws] by (cases "view w ?p"; cases "view u ?p") force+
        with cur have curw: "current_offsets E prefix gid (view w) = Some offsets"
          by (simp add: current_offsets_def)
        have cm: "list_all offset_ok (commit_pairs commits)" "distinct (map fst (commit_pairs commits))"
          using valid validate_commits_from_ok [of "{}" commits] by (auto simp: validate_commits_def split: if_splits)
        have okm: "offsets_ok offsets" using current_offsets_ok [OF cur] .
        have "current_offsets E prefix gid (view t) = Some (apply_commits commits offsets)"
          by (rule written_offsets_current [OF json vec schema entries(1) apply_commits_ok [OF okm cm(1)] entries(2)])
            (simp add: that(2))
        then show ?thesis
          unfolding commit_done_def using m0w curw that(2) apply_commits_get [OF okm cm(2)] by blast
      qed
      show ?thesis
      proof (cases put)
        case (Inr v)
        with w(2) x committed show ?thesis by (simp add: put_outcome_def)
      next
        case (Inl e)
        with w(2) x committed m0w show ?thesis
          by (cases e) (auto simp: put_outcome_def commit_failed_def)
      qed
    qed
  qed
qed

interpretation committing: retry_body "commit_offsets_attempt E prefix gid commits"
  "\<lambda>s. group_legal E view rely \<and> validate_commits commits = Inr () \<and> rely m0 (view s)"
  "\<lambda>_ t. commit_done E prefix gid rely commits m0 (view t)"
  "\<lambda>e t. commit_failed E prefix gid rely commits m0 e (view t)"
  for E :: "('s, 'm) group_env_scheme" and prefix gid commits view rely m0
proof
  fix s t u e
  assume inv: "group_legal E view rely \<and> validate_commits commits = Inr () \<and> rely m0 (view s)"
  note step = commit_attempt_step [of E view rely commits m0 s prefix gid]
  show "commit_offsets_attempt E prefix gid commits s = (Inr None, t) \<Longrightarrow>
      group_legal E view rely \<and> validate_commits commits = Inr () \<and> rely m0 (view t)"
    using step [of "Inr None" t] inv by simp
  show "commit_offsets_attempt E prefix gid commits s = (Inr (Some u), t) \<Longrightarrow> commit_done E prefix gid rely commits m0 (view t)"
    using step [of "Inr (Some u)" t] inv by simp
  show "commit_offsets_attempt E prefix gid commits s = (Inl e, t) \<Longrightarrow> commit_failed E prefix gid rely commits m0 e (view t)"
    using step [of "Inl e" t] inv by simp
qed

lemma commit_offsets_atomic:
  assumes legal: "group_legal E view rely" and ne: "commits \<noteq> []"
    and run: "commit_offsets E prefix gid commits s = (x, t)"
  shows "case x of
      Inr _ \<Rightarrow> commit_done E prefix gid rely commits (view s) (view t)
    | Inl e \<Rightarrow> commit_failed E prefix gid rely commits (view s) e (view t)"
proof -
  have laws: "store_laws E view rely" using legal by (simp add: group_legal_def)
  show ?thesis
  proof (cases "validate_component gid GroupKind = Inr () \<and> validate_commits commits = Inr ()")
    case False
    obtain e where "x = Inl e" "t = s"
    proof (cases "validate_component gid GroupKind")
      case (Inl e)
      with run have "x = Inl e \<and> t = s" by (simp add: commit_offsets_def io_bind_def)
      then show thesis by (simp add: that)
    next
      case (Inr u)
      with False obtain e where bad: "validate_commits commits = Inl e" by (cases "validate_commits commits") auto
      with Inr run have "x = Inl e \<and> t = s" by (simp add: commit_offsets_def io_bind_def)
      then show thesis by (simp add: that)
    qed
    with store_laws_refl [OF laws] show ?thesis by (auto simp: commit_failed_def)
  next
    case True
    with run ne have loop: "retry GROUP_CAS_ATTEMPTS (GroupContentionExhausted GROUP_CAS_ATTEMPTS)
        (commit_offsets_attempt E prefix gid commits) s = (x, t)"
      by (simp add: commit_offsets_def io_bind_def)
    have inv: "group_legal E view rely \<and> validate_commits commits = Inr () \<and> rely (view s) (view s)"
      using legal True store_laws_refl [OF laws] by simp
    show ?thesis
    proof (cases x)
      case (Inr u)
      from committing.retry_post [OF inv loop [unfolded Inr]] Inr show ?thesis by simp
    next
      case (Inl e)
      from committing.retry_fails [OF inv loop [unfolded Inl]] Inl show ?thesis by (auto simp: commit_failed_def)
    qed
  qed
qed

lemma commit_offsets_distinct:
  assumes "commit_offsets E prefix gid commits s = (Inr u, t)" "commits \<noteq> []"
  shows "distinct (map fst (commit_pairs commits))"
proof -
  have "validate_commits commits = Inr ()" using assms by (auto simp: commit_offsets_def result_simps split: if_splits)
  then show ?thesis using validate_commits_from_ok [of "{}" commits] by (auto simp: validate_commits_def split: if_splits)
qed

text \<open>C18 (offset_commit_atomic). A successful commit of a nonempty request took effect at one instant: one
  update of the group's object replaced the current positions by the same positions overridden by
  every entry of the request. A failed commit changed nothing, unless its update was left without a
  definite answer by the store, and then it was either not done or done completely.\<close>

theorem offset_commit_atomic:
  assumes legal: "group_legal E view rely" and ne: "commits \<noteq> []"
    and run: "commit_offsets E prefix gid commits s = (x, t)"
  shows "case x of
      Inr _ \<Rightarrow> commit_done E prefix gid rely commits (view s) (view t)
    | Inl e \<Rightarrow> commit_failed E prefix gid rely commits (view s) e (view t)"
  using assms by (rule commit_offsets_atomic)

section \<open>Fetch\<close>

lemma fetch_offsets_exact:
  assumes legal: "group_legal E view rely" and run: "fetch_offsets E prefix gid selection s = (Inr fetched, t)"
  shows "rely (view s) (view t) \<and> (\<exists>offsets. current_offsets E prefix gid (view t) = Some offsets
    \<and> (case selection of
         Some keys \<Rightarrow> map fo_topic_partition fetched = keys \<and> map fo_committed fetched = map (bt_get offsets) keys
       | None \<Rightarrow> sorted_wrt (<) (map fo_topic_partition fetched)
           \<and> (\<forall>k. bt_get offsets k = map_of (map (\<lambda>f. (fo_topic_partition f, the (fo_committed f))) fetched) k)))"
proof -
  from run obtain found offsets where
    load: "load_offsets E prefix gid s = (Inr found, t)" and map: "loaded_map found = Inr offsets"
    and fetched: "fetched = (case selection of
           Some keys \<Rightarrow> map (\<lambda>key. \<lparr>fo_topic_partition = key, fo_committed = bt_get offsets key\<rparr>) keys
         | None \<Rightarrow> map (\<lambda>(key, committed). \<lparr>fo_topic_partition = key, fo_committed = Some committed\<rparr>) offsets)"
    by (cases selection) (auto simp: fetch_offsets_def result_simps)
  note facts = load_offsets_current [OF legal load]
  with map have cur: "current_offsets E prefix gid (view t) = Some offsets" by auto
  note inv = current_offsets_ok [OF cur]
  show ?thesis
  proof (cases selection)
    case None
    have keys: "map fo_topic_partition fetched = map fst offsets"
      and pairs: "map (\<lambda>f. (fo_topic_partition f, the (fo_committed f))) fetched = offsets"
      unfolding fetched None by (induction offsets) auto
    show ?thesis
      using facts cur inv None unfolding keys pairs by (simp add: offsets_ok_def bt_inv_def bt_get_def keys)
  next
    case (Some keys)
    with facts cur fetched show ?thesis by (simp add: comp_def)
  qed
qed

text \<open>A successful fetch answers from one state of the group: selected positions in
  request order with explicit absences, or every position once in key order.\<close>

theorem offset_fetch_exact:
  assumes legal: "group_legal E view rely" and run: "fetch_offsets E prefix gid selection s = (Inr fetched, t)"
  shows "rely (view s) (view t) \<and> (\<exists>offsets. current_offsets E prefix gid (view t) = Some offsets
    \<and> (case selection of
         Some keys \<Rightarrow> map fo_topic_partition fetched = keys \<and> map fo_committed fetched = map (bt_get offsets) keys
       | None \<Rightarrow> sorted_wrt (<) (map fo_topic_partition fetched)
           \<and> (\<forall>k. bt_get offsets k = map_of (map (\<lambda>f. (fo_topic_partition f, the (fo_committed f))) fetched) k)))"
  using assms by (rule fetch_offsets_exact)

end
