(* ===== verification/Group_Witnesses.thy ===== *)
theory Group_Witnesses
  imports Group_Store_Laws Log_Witnesses
begin

text \<open>
  The offset store at a concrete bucket: one group with two positions, a commit that replaces one
  of them, and a fetch of the result.
\<close>

definition group_mem_env :: "offset_manifest list \<Rightarrow> mem group_env" where
  "group_mem_env ms =
     \<lparr>w_get = mem_get, w_put = mem_put, w_head = mem_head, w_delete = mem_delete, w_list = mem_list,
      w_list_prefixes = mem_list_prefixes, w_path_from = id, w_path_parse = Inr, w_new_uuid = mem_uuid,
      w_uuid_ok = (\<lambda>u. u \<noteq> []), w_unix_millis = (\<lambda>s. (Some 1000, s)), w_sha256_hex = (\<lambda>_. zero_checksum),
      ge_offsets_to_vec = table_to ms,
      ge_offsets_from_slice = (\<lambda>v b. attempt (from_table ms b) (\<lambda>m.
        attempt (v (json_seq_of (om_offsets m))) (\<lambda>es. Inr (m\<lparr>om_offsets := es\<rparr>))))\<rparr>"

lemma group_mem_env_simps [simp]:
  "w_get (group_mem_env ms) = mem_get" "w_put (group_mem_env ms) = mem_put" "w_head (group_mem_env ms) = mem_head"
  "w_delete (group_mem_env ms) = mem_delete" "w_list (group_mem_env ms) = mem_list"
  "w_list_prefixes (group_mem_env ms) = mem_list_prefixes" "w_path_from (group_mem_env ms) x = x"
  "w_new_uuid (group_mem_env ms) = mem_uuid" "w_unix_millis (group_mem_env ms) s = (Some 1000, s)" "ge_offsets_to_vec (group_mem_env ms) = table_to ms"
  "ge_offsets_from_slice (group_mem_env ms) v b = attempt (from_table ms b) (\<lambda>m.
        attempt (v (json_seq_of (om_offsets m))) (\<lambda>es. Inr (m\<lparr>om_offsets := es\<rparr>)))"
  by (simp_all add: group_mem_env_def)

lemma group_mem_legal: "group_legal (group_mem_env ms) mem_view (=)"
proof -
  have "store_laws (group_mem_env ms) mem_view (=)"
    using mem_store_laws [of no_tables no_codecs] unfolding store_laws_def group_mem_env_simps mem_env_simps .
  moreover have "offset_json_laws (group_mem_env ms)"
    by (auto simp: offset_json_laws_def from_table_def dest: table_inverse)
  ultimately show ?thesis by (simp add: group_legal_def)
qed

definition moved_offsets :: "(topic_partition, committed_offset) btree_map" where
  "moved_offsets = bt_insert (TopicPartition ''a'' 0) \<lparr>co_offset = 9, co_metadata = None\<rparr> two_offsets"

definition sample_manifest :: "nat \<Rightarrow> (topic_partition, committed_offset) btree_map \<Rightarrow> offset_manifest" where
  "sample_manifest r offsets = \<lparr>om_schema = OFFSET_SCHEMA, om_revision = r, om_offsets = offset_entries offsets\<rparr>"

lemma sample_manifest_simps [simp]:
  "om_schema (sample_manifest r offsets) = OFFSET_SCHEMA" "om_revision (sample_manifest r offsets) = r"
  "om_offsets (sample_manifest r offsets) = offset_entries offsets"
  "sample_manifest r offsets\<lparr>om_offsets := offset_entries offsets\<rparr> = sample_manifest r offsets"
  "sample_manifest r offsets\<lparr>om_revision := q, om_offsets := offset_entries o'\<rparr> = sample_manifest q o'"
  "sample_manifest r offsets = sample_manifest q o' \<longleftrightarrow> r = q \<and> offset_entries offsets = offset_entries o'"
  by (auto simp: sample_manifest_def)

definition offset_versions :: "offset_manifest list" where
  "offset_versions =
     [sample_manifest 4 two_offsets,
      sample_manifest 5 moved_offsets]"

definition committed_bucket :: mem where
  "committed_bucket = ([(''p/groups/g/offsets.json'', [0])], 0)"

definition moved_bucket :: mem where
  "moved_bucket = ([(''p/groups/g/offsets.json'', [1]), (''p/groups/g/offsets.json'', [0])], 0)"

definition sample_commit :: "offset_commit list" where
  "sample_commit = [\<lparr>oc_topic = ''a'', oc_partition = 0, oc_offset = 9, oc_metadata = None\<rparr>]"

lemma group_checks:
  "validate_component ''g'' GroupKind = Inr ()" "validate_component ''a'' TopicKind = Inr ()"
  "validate_commits sample_commit = Inr ()" "offset_path (group_mem_env ms) ''p'' ''g'' = ''p/groups/g/offsets.json''"
  by (simp_all add: validate_commits_def sample_commit_def validate_component_def MAX_COMPONENT_BYTES_def safe_char_def
      is_ascii_alphanumeric_def is_ascii_digit_def validate_group_partition_def MAX_TOPIC_PARTITIONS_def validate_commit_offset_def
      validate_commit_metadata_def offset_path_def MAX_GROUP_OFFSETS_def)

lemma sample_offsets:
  "offset_map (sample_manifest r two_offsets) = Inr two_offsets"
  "deserialize_offsets (json_seq_of (offset_entries two_offsets)) = Inr (offset_entries two_offsets)"
  using offset_map_of_entries [OF two_offsets_ok] deserialize_offsets_seq_of [of "offset_entries two_offsets"]
  by (simp_all add: offset_entries_def two_offsets_def MAX_GROUP_OFFSETS_def)

lemma sample_decoded:
  "decode_offsets (group_mem_env offset_versions) [0] =
     Inr (sample_manifest 4 two_offsets)"
proof -
  have "from_table offset_versions [0] = Inr (sample_manifest 4 two_offsets)"
    by (simp add: from_table_def table_from_def offset_versions_def)
  then show ?thesis by (simp add: decode_offsets_def sample_offsets validate_offset_manifest_def)
qed

lemma sample_loaded:
  "load_offsets (group_mem_env offset_versions) ''p'' ''g'' committed_bucket =
     (Inr (Some \<lparr>lo_manifest = sample_manifest 4 two_offsets,
                 lo_version = Some (body_tag [0])\<rparr>), committed_bucket)"
  by (simp add: load_offsets_def io_eval group_checks committed_bucket_def MAX_OFFSET_MANIFEST_BYTES_def sample_decoded
      checked_add_u64_def u64_max_def)

lemma sample_next:
  "next_offsets sample_commit (sample_manifest 4 two_offsets) =
     Inr (sample_manifest 5 moved_offsets)"
proof -
  have "apply_commits sample_commit two_offsets = moved_offsets"
    by (simp add: apply_commits_def sample_commit_def moved_offsets_def)
  moreover have "length moved_offsets = 2" by (simp add: moved_offsets_def two_offsets_def less_topic_partition_def)
  ultimately show ?thesis
    by (simp add: next_offsets_def sample_offsets MAX_GROUP_OFFSETS_def checked_add_u64_def u64_max_def)
qed

lemma sample_commit_run:
  "commit_offsets (group_mem_env offset_versions) ''p'' ''g'' sample_commit committed_bucket = (Inr (), moved_bucket)"
proof -
  have "table_to offset_versions (sample_manifest 5 moved_offsets) = Inr [1]"
    by (simp add: table_to_def offset_versions_def)
  then have "commit_offsets_attempt (group_mem_env offset_versions) ''p'' ''g'' sample_commit committed_bucket = (Inr (Some ()), moved_bucket)"
    by (simp add: commit_offsets_attempt_def sample_loaded sample_next publish_offsets_def io_bind_def io_try_def
        group_checks MAX_OFFSET_MANIFEST_BYTES_def Let_def)
      (simp add: mem_put_def committed_bucket_def moved_bucket_def)
  moreover have "sample_commit \<noteq> []" by (simp add: sample_commit_def)
  ultimately show ?thesis
    by (simp add: commit_offsets_def io_bind_def group_checks retry_unfold GROUP_CAS_ATTEMPTS_def)
qed

theorem offset_commit_atomic_witness:
  "commit_done (group_mem_env offset_versions) ''p'' ''g'' (=) sample_commit (mem_view committed_bucket) (mem_view moved_bucket)"
  using offset_commit_atomic [OF group_mem_legal _ sample_commit_run] by (simp add: sample_commit_def)

definition both_fetched :: "fetched_offset list" where
  "both_fetched =
     [\<lparr>fo_topic_partition = TopicPartition ''a'' 3, fo_committed = Some \<lparr>co_offset = 0, co_metadata = Some ''m''\<rparr>\<rparr>,
      \<lparr>fo_topic_partition = TopicPartition ''a'' 1, fo_committed = None\<rparr>]"

lemma sample_fetch_run:
  "fetch_offsets (group_mem_env offset_versions) ''p'' ''g'' (Some [TopicPartition ''a'' 3, TopicPartition ''a'' 1]) committed_bucket =
     (Inr both_fetched, committed_bucket)"
  by (simp add: fetch_offsets_def io_bind_def group_checks validate_selection_def validate_group_partition_def MAX_TOPIC_PARTITIONS_def
      MAX_GROUP_OFFSETS_def sample_loaded loaded_map_def sample_offsets)
    (simp add: group_checks both_fetched_def two_offsets_def bt_get_def)

theorem offset_fetch_exact_witness:
  "map fo_topic_partition both_fetched = [TopicPartition ''a'' 3, TopicPartition ''a'' 1]
   \<and> (\<exists>offsets. current_offsets (group_mem_env offset_versions) ''p'' ''g'' (mem_view committed_bucket) = Some offsets
        \<and> map fo_committed both_fetched = map (bt_get offsets) [TopicPartition ''a'' 3, TopicPartition ''a'' 1])"
  using offset_fetch_exact [OF group_mem_legal sample_fetch_run] unfolding option.case by blast

end
