(* ===== verification/Group_State.thy ===== *)
theory Group_State
  imports Group_Store
begin

text \<open>
  The state of one classic consumer group (\<open>src/coordinator.rs\<close>): its members and phase, and the
  transitions made while the group's lock is held. Instants are natural numbers of
  nanoseconds since the process started. A transition is a computation over the group's state
  because an error leaves the changes made before it.

  A panic of the source (\<open>expect\<close>, \<open>unreachable\<close>) is the error \<open>Panic\<close>, which the source does not
  have; \<open>Coordinator_Laws\<close> shows that it never occurs.
\<close>

section \<open>Limits and data\<close>

definition CONSUMER_PROTOCOL_TYPE :: string where "CONSUMER_PROTOCOL_TYPE = ''consumer''"
definition MAX_PROTOCOLS :: nat where "MAX_PROTOCOLS = 32"
definition MAX_GROUP_SLOTS :: nat where "MAX_GROUP_SLOTS = 10000"
definition MAX_GROUP_MEMBERS :: nat where "MAX_GROUP_MEMBERS = 1024"
definition MAX_IDENTIFIER_BYTES :: nat where "MAX_IDENTIFIER_BYTES = 249"
definition MAX_GROUP_BLOB_BYTES :: nat where "MAX_GROUP_BLOB_BYTES = 1024 * 1024"
definition MAX_MEMBER_PROTOCOL_BYTES :: nat where "MAX_MEMBER_PROTOCOL_BYTES = 1024 * 1024"
definition MAX_GROUP_PROTOCOL_BYTES :: nat where "MAX_GROUP_PROTOCOL_BYTES = 16 * 1024 * 1024"
definition MAX_GROUP_ASSIGNMENT_BYTES :: nat where "MAX_GROUP_ASSIGNMENT_BYTES = 16 * 1024 * 1024"
definition MAX_SESSION_TIMEOUT_MS :: int where "MAX_SESSION_TIMEOUT_MS = 300000"

text \<open>The Kafka error codes the source names, of the crate's \<open>ResponseError\<close>.\<close>

datatype response_error =
    CorruptMessage | GroupMaxSizeReached | IllegalGeneration | InconsistentGroupProtocol
  | InvalidCommitOffsetSize | InvalidFetchSize | InvalidGroupIdError | InvalidProducerEpoch
  | InvalidRecord | InvalidRequest | InvalidRequiredAcks | InvalidSessionTimeout | InvalidTimestamp
  | InvalidTopicException | KafkaStorageError | MessageTooLarge | OffsetMetadataTooLarge
  | OffsetOutOfRange | OutOfOrderSequenceNumber | RebalanceInProgress | UnknownMemberId
  | UnknownServerError | UnknownTopicOrPartition | UnsupportedCompressionType
  | UnsupportedForMessageFormat | UnsupportedVersion

datatype coordinator_error = Kafka response_error | StorageError group_error | Panic string

record join_protocol =
  jp_name :: string
  jp_metadata :: bytes

record join_member =
  jm_member_id :: string
  jm_metadata :: bytes

record join_outcome =
  jo_generation_id :: int
  jo_protocol_name :: string
  jo_leader_id :: string
  jo_member_id :: string
  jo_members :: "join_member list"

record sync_assignment =
  sa_member_id :: string
  sa_assignment :: bytes

datatype group_phase = Joining | AwaitingSync | Stable

record member_state =
  ms_protocols :: "join_protocol list"
  ms_assignment :: "bytes option"
  ms_session_timeout :: nat
  ms_rebalance_timeout :: nat
  ms_deadline :: nat
  ms_joined_rebalance :: nat
  ms_join_result :: "join_outcome option"

record group_state =
  gs_generation_id :: int
  gs_rebalance_id :: nat
  gs_phase :: group_phase
  gs_phase_deadline :: nat
  gs_protocol_type :: string
  gs_protocol_name :: "string option"
  gs_leader_id :: string
  gs_members :: "(string, member_state) btree_map"

text \<open>\<open>Duration::from_millis\<close> of a validated timeout.\<close>

definition millis :: "int \<Rightarrow> nat" where
  "millis ms = 1000000 * nat ms"

section \<open>Validation of requests\<close>

definition validate_token :: "string \<Rightarrow> bool" where
  "validate_token value \<longleftrightarrow>
     value \<noteq> [] \<and> length value \<le> MAX_IDENTIFIER_BYTES \<and> value \<noteq> ''.'' \<and> value \<noteq> ''..'' \<and> list_all safe_char value"

definition validate_session_timeout :: "int \<Rightarrow> coordinator_error + unit" where
  "validate_session_timeout ms = ensure (1 \<le> ms \<and> ms \<le> MAX_SESSION_TIMEOUT_MS) (Kafka InvalidSessionTimeout)"

definition validate_rebalance_timeout :: "int \<Rightarrow> coordinator_error + unit" where
  "validate_rebalance_timeout ms = ensure (1 \<le> ms \<and> ms \<le> MAX_SESSION_TIMEOUT_MS) (Kafka InvalidSessionTimeout)"

definition validate_member_id :: "string \<Rightarrow> bool \<Rightarrow> coordinator_error + unit" where
  "validate_member_id member_id allow_empty =
     (if allow_empty \<and> member_id = [] then Inr ()
      else ensure (validate_token member_id)
             (Kafka (if member_id = [] then UnknownMemberId else InvalidRequest)))"

definition retained_bytes_error :: coordinator_error where
  "retained_bytes_error = Kafka InvalidRequest"

text \<open>\<open>total.checked_add(name).and_then(checked_add(blob))\<close>.\<close>

definition add_lengths :: "nat \<Rightarrow> string \<Rightarrow> bytes \<Rightarrow> nat option" where
  "add_lengths n name blob =
     (case checked_add_u64 n (length name) of None \<Rightarrow> None | Some k \<Rightarrow> checked_add_u64 k (length blob))"

fun validate_protocols_from :: "string set \<Rightarrow> nat \<Rightarrow> join_protocol list \<Rightarrow> coordinator_error + unit" where
  "validate_protocols_from names retained [] = Inr ()"
| "validate_protocols_from names retained (p # ps) =
     (if \<not> validate_token (jp_name p) \<or> length (jp_metadata p) > MAX_GROUP_BLOB_BYTES \<or> jp_name p \<in> names
      then Inl (Kafka InconsistentGroupProtocol)
      else attempt (ok_or (add_lengths retained (jp_name p) (jp_metadata p)) retained_bytes_error) (\<lambda>retained.
        if retained > MAX_MEMBER_PROTOCOL_BYTES then Inl retained_bytes_error
        else validate_protocols_from (insert (jp_name p) names) retained ps))"

definition validate_protocols :: "string \<Rightarrow> join_protocol list \<Rightarrow> coordinator_error + unit" where
  "validate_protocols protocol_type protocols =
     (if protocol_type \<noteq> CONSUMER_PROTOCOL_TYPE \<or> protocols = [] \<or> length protocols > MAX_PROTOCOLS
      then Inl (Kafka InconsistentGroupProtocol)
      else validate_protocols_from {} 0 protocols)"

fun protocol_bytes_from :: "nat \<Rightarrow> join_protocol list \<Rightarrow> nat option" where
  "protocol_bytes_from n [] = Some n"
| "protocol_bytes_from n (p # ps) =
     (case add_lengths n (jp_name p) (jp_metadata p) of None \<Rightarrow> None | Some k \<Rightarrow> protocol_bytes_from k ps)"

definition protocol_bytes :: "join_protocol list \<Rightarrow> nat option" where
  "protocol_bytes protocols = protocol_bytes_from 0 protocols"

fun budget_from :: "string \<Rightarrow> nat \<Rightarrow> (string, member_state) btree_map \<Rightarrow> coordinator_error + unit" where
  "budget_from candidate_id retained [] = Inr ()"
| "budget_from candidate_id retained ((member_id, member) # rest) =
     (if member_id = candidate_id then budget_from candidate_id retained rest
      else attempt (ok_or (protocol_bytes (ms_protocols member)) retained_bytes_error) (\<lambda>n.
           attempt (ok_or (checked_add_u64 retained n) retained_bytes_error) (\<lambda>retained.
             if retained > MAX_GROUP_PROTOCOL_BYTES then Inl retained_bytes_error
             else budget_from candidate_id retained rest)))"

definition validate_group_protocol_budget ::
  "group_state \<Rightarrow> string \<Rightarrow> join_protocol list \<Rightarrow> coordinator_error + unit" where
  "validate_group_protocol_budget gs candidate_id candidate_protocols =
     attempt (ok_or (protocol_bytes candidate_protocols) retained_bytes_error) (\<lambda>retained.
       budget_from candidate_id retained (gs_members gs))"

fun validate_assignments_from :: "string set \<Rightarrow> nat \<Rightarrow> sync_assignment list \<Rightarrow> coordinator_error + unit" where
  "validate_assignments_from ids retained [] = Inr ()"
| "validate_assignments_from ids retained (a # as) =
     attempt (validate_member_id (sa_member_id a) False) (\<lambda>_.
       if length (sa_assignment a) > MAX_GROUP_BLOB_BYTES \<or> sa_member_id a \<in> ids
       then Inl (Kafka InvalidRequest)
       else attempt (ok_or (add_lengths retained (sa_member_id a) (sa_assignment a)) retained_bytes_error) (\<lambda>retained.
         if retained > MAX_GROUP_ASSIGNMENT_BYTES then Inl retained_bytes_error
         else validate_assignments_from (insert (sa_member_id a) ids) retained as))"

definition validate_assignments :: "sync_assignment list \<Rightarrow> coordinator_error + unit" where
  "validate_assignments assignments =
     (if length assignments > MAX_GROUP_MEMBERS then Inl (Kafka InvalidRequest)
      else validate_assignments_from {} 0 assignments)"

section \<open>Protocols and assignments of a group\<close>

definition offers :: "join_protocol list \<Rightarrow> string \<Rightarrow> bool" where
  "offers protocols name \<longleftrightarrow> list_ex (\<lambda>p. jp_name p = name) protocols"

definition protocols_compatible :: "group_state \<Rightarrow> string \<Rightarrow> join_protocol list \<Rightarrow> bool" where
  "protocols_compatible gs candidate_id candidate_protocols \<longleftrightarrow>
     (let choices =
        (if gs_leader_id gs = candidate_id then candidate_protocols
         else case bt_get (gs_members gs) (gs_leader_id gs) of
                None \<Rightarrow> candidate_protocols | Some member \<Rightarrow> ms_protocols member)
      in list_ex (\<lambda>choice. offers candidate_protocols (jp_name choice)
           \<and> list_all (\<lambda>(member_id, member).
                offers (if member_id = candidate_id then candidate_protocols else ms_protocols member) (jp_name choice))
               (gs_members gs)) choices)"

definition select_protocol :: "group_state \<Rightarrow> string option" where
  "select_protocol gs =
     (case bt_get (gs_members gs) (gs_leader_id gs) of
        None \<Rightarrow> None
      | Some leader \<Rightarrow>
          map_option jp_name (List.find (\<lambda>choice.
            list_all (\<lambda>member. offers (ms_protocols member) (jp_name choice)) (bt_values (gs_members gs)))
            (ms_protocols leader)))"

definition exact_assignments :: "group_state \<Rightarrow> sync_assignment list \<Rightarrow> coordinator_error + (string, bytes) btree_map" where
  "exact_assignments gs assignments =
     (if length assignments \<noteq> length (gs_members gs) then Inl (Kafka InvalidRequest)
      else
        let installed = bt_of_list (map (\<lambda>a. (sa_member_id a, sa_assignment a)) assignments)
        in if length installed \<noteq> length assignments
              \<or> list_ex (\<lambda>member_id. \<not> bt_contains (gs_members gs) member_id) (bt_keys installed)
           then Inl (Kafka InvalidRequest) else Inr installed)"

section \<open>Transitions\<close>

type_synonym 'a group_action = "(group_state, coordinator_error, 'a) io"

text \<open>\<open>members.values().map(now + rebalance_timeout).max().unwrap_or(default)\<close>.\<close>

definition rebalance_deadline :: "nat \<Rightarrow> nat \<Rightarrow> (string, member_state) btree_map \<Rightarrow> nat" where
  "rebalance_deadline now fallback members =
     (case map (\<lambda>member. now + ms_rebalance_timeout member) (bt_values members) of
        [] \<Rightarrow> fallback
      | d # ds \<Rightarrow> fold max ds d)"

definition ensure_leader :: "unit group_action" where
  "ensure_leader gs =
     (if bt_contains (gs_members gs) (gs_leader_id gs) then (Inr (), gs)
      else case bt_keys (gs_members gs) of
             [] \<Rightarrow> (Inl (Panic ''nonempty group''), gs)
           | k # _ \<Rightarrow> (Inr (), gs\<lparr>gs_leader_id := k\<rparr>))"

definition start_rebalance :: "nat \<Rightarrow> unit group_action" where
  "start_rebalance now gs =
     (case checked_add_u64 (gs_rebalance_id gs) 1 of
        None \<Rightarrow> (Inl (Kafka UnknownServerError), gs)
      | Some rebalance \<Rightarrow>
          (Inr (), gs\<lparr>gs_rebalance_id := rebalance, gs_phase := Joining, gs_protocol_name := None,
             gs_phase_deadline := rebalance_deadline now now (gs_members gs),
             gs_members := bt_map (\<lambda>_ member. member\<lparr>ms_assignment := None, ms_join_result := None\<rparr>) (gs_members gs)\<rparr>))"

text \<open>The member list the leader receives.\<close>

definition leader_member :: "string \<Rightarrow> string \<times> member_state \<Rightarrow> coordinator_error + join_member" where
  "leader_member name e =
     (case e of (member_id, member) \<Rightarrow>
        case List.find (\<lambda>p. jp_name p = name) (ms_protocols member) of
          None \<Rightarrow> Inl (Panic ''selected protocol is common'')
        | Some p \<Rightarrow> Inr \<lparr>jm_member_id = member_id, jm_metadata = jp_metadata p\<rparr>)"

definition finished_member ::
  "nat \<Rightarrow> int \<Rightarrow> string \<Rightarrow> string \<Rightarrow> join_member list \<Rightarrow> string \<Rightarrow> member_state \<Rightarrow> member_state" where
  "finished_member now generation name leader members member_id member =
     member\<lparr>ms_assignment := None, ms_deadline := now + ms_session_timeout member,
       ms_join_result := Some
         \<lparr>jo_generation_id = generation, jo_protocol_name = name, jo_leader_id = leader,
          jo_member_id = member_id, jo_members = (if member_id = leader then members else [])\<rparr>\<rparr>"

definition finalize_rebalance :: "nat \<Rightarrow> unit group_action" where
  "finalize_rebalance now =
     io_bind ensure_leader (\<lambda>_.
     io_bind io_get (\<lambda>gs.
     io_bind (io_lift (ok_or (select_protocol gs) (Kafka InconsistentGroupProtocol))) (\<lambda>name.
     io_bind (io_lift (ok_or (checked_add_i32 (gs_generation_id gs) 1) (Kafka UnknownServerError))) (\<lambda>generation.
       let gs = gs\<lparr>gs_generation_id := generation, gs_phase := AwaitingSync, gs_protocol_name := Some name,
                   gs_phase_deadline := rebalance_deadline now now (gs_members gs)\<rparr>
       in io_bind (io_put gs) (\<lambda>_.
          io_bind (io_map (\<lambda>e. io_lift (leader_member name e)) (gs_members gs)) (\<lambda>members.
            io_put (gs\<lparr>gs_members :=
              bt_map (finished_member now generation name (gs_leader_id gs) members) (gs_members gs)\<rparr>)))))))"

definition all_joined :: "group_state \<Rightarrow> bool" where
  "all_joined gs \<longleftrightarrow> list_all (\<lambda>member. ms_joined_rebalance member = gs_rebalance_id gs) (bt_values (gs_members gs))"

text \<open>A transition on the content of the group's lock, which may hold no group.\<close>

type_synonym 'a slot_action = "(group_state option, coordinator_error, 'a) io"

definition in_group :: "'a group_action \<Rightarrow> 'a slot_action" where
  "in_group m st =
     (case st of
        None \<Rightarrow> (Inl (Panic ''no group''), None)
      | Some gs \<Rightarrow> (case m gs of (r, gs') \<Rightarrow> (r, Some gs')))"

definition finish_joining :: "nat \<Rightarrow> bool \<Rightarrow> bool group_action" where
  "finish_joining now changed gs =
     (if all_joined gs then io_bind (finalize_rebalance now) (\<lambda>_. io_ret True) gs else (Inr changed, gs))"

definition advance_phase :: "nat \<Rightarrow> bool \<Rightarrow> group_state \<Rightarrow> (coordinator_error + bool) \<times> group_state option" where
  "advance_phase now changed gs =
     (case gs_phase gs of
        Joining \<Rightarrow>
          if now \<ge> gs_phase_deadline gs
          then
            let gs = gs\<lparr>gs_members := bt_retain (\<lambda>_ member. ms_joined_rebalance member = gs_rebalance_id gs) (gs_members gs)\<rparr>
            in if gs_members gs = [] then (Inr True, None)
               else in_group (io_bind ensure_leader (\<lambda>_. finish_joining now True)) (Some gs)
          else in_group (finish_joining now changed) (Some gs)
      | AwaitingSync \<Rightarrow>
          if now \<ge> gs_phase_deadline gs
          then in_group (io_bind (start_rebalance now) (\<lambda>_. io_ret True)) (Some gs)
          else (Inr changed, Some gs)
      | Stable \<Rightarrow> (Inr changed, Some gs))"

definition expired_members :: "nat \<Rightarrow> group_state \<Rightarrow> string list" where
  "expired_members now gs = map fst (filter (\<lambda>(_, member). ms_deadline member \<le> now) (gs_members gs))"

text \<open>After members were removed: a leader that is present, and a rebalance unless one is running.\<close>

definition members_expired :: "nat \<Rightarrow> unit group_action" where
  "members_expired now =
     io_bind ensure_leader (\<lambda>_.
     io_bind io_get (\<lambda>gs. if gs_phase gs \<noteq> Joining then start_rebalance now else io_ret ()))"

definition advance_group :: "nat \<Rightarrow> bool slot_action" where
  "advance_group now st =
     (case st of
        None \<Rightarrow> (Inr False, None)
      | Some gs \<Rightarrow>
          let expired = expired_members now gs
          in if expired \<noteq> []
             then
               let gs = gs\<lparr>gs_members := foldl (\<lambda>m k. bt_remove k m) (gs_members gs) expired\<rparr>
               in if gs_members gs = [] then (Inr True, None)
                  else (case members_expired now gs of
                          (Inl e, gs) \<Rightarrow> (Inl e, Some gs)
                        | (Inr _, gs) \<Rightarrow> advance_phase now True gs)
             else advance_phase now False gs)"

definition active_group :: "int \<Rightarrow> string \<Rightarrow> group_state option \<Rightarrow> coordinator_error + group_state" where
  "active_group generation member_id st =
     (case st of
        None \<Rightarrow> Inl (Kafka UnknownMemberId)
      | Some gs \<Rightarrow>
          if \<not> bt_contains (gs_members gs) member_id then Inl (Kafka UnknownMemberId)
          else if gs_generation_id gs \<noteq> generation then Inl (Kafka IllegalGeneration)
          else Inr gs)"

text \<open>\<open>members.get_mut(id).expect(..)\<close> followed by an update in place.\<close>

definition update_member :: "string \<Rightarrow> (member_state \<Rightarrow> member_state) \<Rightarrow> unit group_action" where
  "update_member member_id f gs =
     (case bt_get (gs_members gs) member_id of
        None \<Rightarrow> (Inl (Panic ''member existence checked''), gs)
      | Some member \<Rightarrow> (Inr (), gs\<lparr>gs_members := bt_insert member_id (f member) (gs_members gs)\<rparr>))"

section \<open>Errors on the wire\<close>

fun coordinator_response_error :: "coordinator_error \<Rightarrow> response_error option" where
  "coordinator_response_error (Kafka e) = Some e"
| "coordinator_response_error (StorageError (InvalidGroupId _)) = Some InvalidGroupIdError"
| "coordinator_response_error (StorageError (InvalidGroupTopic _)) = Some UnknownTopicOrPartition"
| "coordinator_response_error (StorageError (UnsupportedGroupPartition _)) = Some UnknownTopicOrPartition"
| "coordinator_response_error (StorageError (InvalidCommitOffset _)) = Some InvalidCommitOffsetSize"
| "coordinator_response_error (StorageError (MetadataTooLarge _)) = Some OffsetMetadataTooLarge"
| "coordinator_response_error (StorageError (DuplicateCommit _ _)) = Some InvalidRequest"
| "coordinator_response_error (StorageError (DuplicateFetch _ _)) = Some InvalidRequest"
| "coordinator_response_error (StorageError (OffsetLimit _)) = Some InvalidRequest"
| "coordinator_response_error (StorageError (OffsetManifestTooLarge _ _)) = Some InvalidRequest"
| "coordinator_response_error (StorageError _) = Some KafkaStorageError"
| "coordinator_response_error (Panic _) = None"

end
