(* ===== verification/Group_State_Laws.thy ===== *)
theory Group_State_Laws
  imports Group_State
begin

text \<open>
  The invariant of a consumer group and its preservation by the transitions: the members are a
  nonempty sorted map that contains the leader, they share a protocol, their metadata stays
  within the group's budget, and the phase decides which results and assignments are present.
\<close>

section \<open>The invariant\<close>

definition protocols_size :: "join_protocol list \<Rightarrow> nat" where
  "protocols_size ps = sum_list (map (\<lambda>p. length (jp_name p) + length (jp_metadata p)) ps)"

definition members_size :: "(string, member_state) btree_map \<Rightarrow> nat" where
  "members_size ms = sum_list (map (\<lambda>(_, m). protocols_size (ms_protocols m)) ms)"

definition timeout_ok :: "nat \<Rightarrow> bool" where
  "timeout_ok t \<longleftrightarrow> 0 < t \<and> t \<le> millis MAX_SESSION_TIMEOUT_MS"

definition member_ok :: "nat \<Rightarrow> member_state \<Rightarrow> bool" where
  "member_ok rebalance m \<longleftrightarrow>
     timeout_ok (ms_session_timeout m) \<and> timeout_ok (ms_rebalance_timeout m) \<and> ms_joined_rebalance m \<le> rebalance"

text \<open>What holds of a group in every phase.\<close>

definition core_ok :: "group_state \<Rightarrow> bool" where
  "core_ok gs \<longleftrightarrow>
     bt_inv (gs_members gs) \<and> [] \<notin> set (bt_keys (gs_members gs)) \<and> length (gs_members gs) \<le> MAX_GROUP_MEMBERS
   \<and> members_size (gs_members gs) \<le> MAX_GROUP_PROTOCOL_BYTES
   \<and> 0 \<le> gs_generation_id gs \<and> in_i32 (gs_generation_id gs) \<and> gs_rebalance_id gs \<le> u64_max
   \<and> (\<forall>m \<in> set (bt_values (gs_members gs)). member_ok (gs_rebalance_id gs) m)
   \<and> (\<exists>name. \<forall>m \<in> set (bt_values (gs_members gs)). offers (ms_protocols m) name)"

text \<open>The metadata a member gave for a protocol.\<close>

definition metadata_for :: "string \<Rightarrow> member_state \<Rightarrow> bytes" where
  "metadata_for name m = (case List.find (\<lambda>p. jp_name p = name) (ms_protocols m) of None \<Rightarrow> [] | Some p \<Rightarrow> jp_metadata p)"

definition member_view :: "string \<Rightarrow> (string, member_state) btree_map \<Rightarrow> join_member list" where
  "member_view name ms = map (\<lambda>(k, m). \<lparr>jm_member_id = k, jm_metadata = metadata_for name m\<rparr>) ms"

text \<open>
  The generation every member was told of: one protocol all of them offer, one leader, and the
  full member list for the leader alone. If \<open>current\<close>, the leader and the list are today's.
\<close>

definition told :: "nat \<Rightarrow> int \<Rightarrow> string \<Rightarrow> string \<Rightarrow> join_member list \<Rightarrow> string \<times> member_state \<Rightarrow> bool" where
  "told rebalance generation name leader members e \<longleftrightarrow>
     (case e of (k, m) \<Rightarrow> offers (ms_protocols m) name \<and> ms_joined_rebalance m = rebalance
        \<and> ms_join_result m = Some \<lparr>jo_generation_id = generation, jo_protocol_name = name, jo_leader_id = leader,
             jo_member_id = k, jo_members = (if k = leader then members else [])\<rparr>)"

definition agreed :: "bool \<Rightarrow> group_state \<Rightarrow> bool" where
  "agreed current gs \<longleftrightarrow>
     (\<exists>name leader members. gs_protocol_name gs = Some name
        \<and> (\<forall>e \<in> set (gs_members gs). told (gs_rebalance_id gs) (gs_generation_id gs) name leader members e)
        \<and> (current \<longrightarrow> leader = gs_leader_id gs \<and> members = member_view name (gs_members gs)))"

definition phase_ok :: "bool \<Rightarrow> group_state \<Rightarrow> bool" where
  "phase_ok current gs \<longleftrightarrow>
     (case gs_phase gs of
        Joining \<Rightarrow> gs_protocol_name gs = None
          \<and> (\<forall>m \<in> set (bt_values (gs_members gs)). ms_assignment m = None \<and> ms_join_result m = None)
      | AwaitingSync \<Rightarrow> agreed current gs \<and> (\<forall>m \<in> set (bt_values (gs_members gs)). ms_assignment m = None)
      | Stable \<Rightarrow> agreed current gs \<and> (\<forall>m \<in> set (bt_values (gs_members gs)). ms_assignment m \<noteq> None))"

text \<open>
  \<open>led_ok\<close> is the invariant except that the leader and the list the members were told may be
  out of date. A rebalance repairs that; only if the rebalance counter is exhausted does a group
  stay so.
\<close>

definition led_ok :: "group_state \<Rightarrow> bool" where
  "led_ok gs \<longleftrightarrow> core_ok gs \<and> phase_ok False gs \<and> bt_contains (gs_members gs) (gs_leader_id gs)"

definition group_ok :: "group_state \<Rightarrow> bool" where
  "group_ok gs \<longleftrightarrow>
     core_ok gs \<and> phase_ok (gs_rebalance_id gs < u64_max) gs \<and> bt_contains (gs_members gs) (gs_leader_id gs)"

definition slot_ok :: "group_state option \<Rightarrow> bool" where
  "slot_ok st \<longleftrightarrow> (case st of None \<Rightarrow> True | Some gs \<Rightarrow> group_ok gs)"

lemma slot_ok_simps [simp]: "slot_ok None" "slot_ok (Some gs) = group_ok gs"
  by (simp_all add: slot_ok_def)

lemma agreed_weaken: "agreed b gs \<Longrightarrow> agreed False gs"
  unfolding agreed_def by blast

lemma phase_ok_weaken: "phase_ok b gs \<Longrightarrow> phase_ok False gs"
  by (auto simp: phase_ok_def dest: agreed_weaken split: group_phase.splits)

lemma group_ok_led: "group_ok gs \<Longrightarrow> led_ok gs"
  by (auto simp: group_ok_def led_ok_def dest: phase_ok_weaken)

lemma led_ok_joining: "led_ok gs \<Longrightarrow> gs_phase gs = Joining \<Longrightarrow> group_ok gs"
  by (simp add: group_ok_def led_ok_def phase_ok_def)

lemma contains_nonempty: "bt_contains m k \<Longrightarrow> m \<noteq> []"
  by (auto simp: bt_contains_def bt_get_def)

lemma bt_contains_Nil [simp]: "\<not> bt_contains [] k"
  by (simp add: bt_contains_def bt_get_def)

lemma bt_keys_Nil [simp]: "bt_keys m = [] \<longleftrightarrow> m = []"
  by (simp add: bt_keys_def)

lemma bt_contains_keys: "bt_contains m k \<longleftrightarrow> k \<in> set (bt_keys m)"
  unfolding bt_contains_def bt_get_def bt_keys_def map_of_eq_None_iff by simp

lemma bt_get_value: "bt_get m k = Some v \<Longrightarrow> v \<in> set (bt_values m) \<and> (k, v) \<in> set m"
  unfolding bt_get_def bt_values_def by (force dest: map_of_SomeD)

section \<open>Removing members\<close>

lemma sum_list_filter_nat: "sum_list (map f (filter P xs)) \<le> (sum_list (map f xs) :: nat)"
  by (induction xs) auto

lemma core_ok_filter:
  assumes "core_ok gs" shows "core_ok (gs\<lparr>gs_members := filter P (gs_members gs)\<rparr>)"
proof -
  let ?ms = "gs_members gs"
  have sub: "set (bt_values (filter P ?ms)) \<subseteq> set (bt_values ?ms)" "set (bt_keys (filter P ?ms)) \<subseteq> set (bt_keys ?ms)"
    by (auto simp: bt_values_def bt_keys_def)
  have "members_size (filter P ?ms) \<le> members_size ?ms" "length (filter P ?ms) \<le> length ?ms"
    by (simp_all add: members_size_def sum_list_filter_nat)
  with assms show ?thesis unfolding core_ok_def using sub by (simp, meson le_trans subsetD)
qed

lemma phase_ok_filter: "phase_ok b gs \<Longrightarrow> phase_ok False (gs\<lparr>gs_members := filter P (gs_members gs)\<rparr>)"
proof -
  have "agreed b gs \<Longrightarrow> agreed False (gs\<lparr>gs_members := filter P (gs_members gs)\<rparr>)"
    unfolding agreed_def by auto
  then show "phase_ok b gs \<Longrightarrow> ?thesis"
    by (cases "gs_phase gs") (auto simp: phase_ok_def bt_values_def)
qed

lemma bt_remove_all: "foldl (\<lambda>m k. bt_remove k m) m ks = filter (\<lambda>e. fst e \<notin> set ks) m"
  by (induction ks arbitrary: m) (simp_all add: bt_remove_def conj_commute)

text \<open>The members that stay are those whose session has not expired.\<close>

lemma expired_removed:
  "bt_inv (gs_members gs) \<Longrightarrow>
   foldl (\<lambda>m k. bt_remove k m) (gs_members gs) (expired_members now gs) = filter (\<lambda>(_, m). now < ms_deadline m) (gs_members gs)"
  unfolding bt_remove_all
proof (rule filter_cong [OF refl])
  fix e assume inv: "bt_inv (gs_members gs)" and e: "e \<in> set (gs_members gs)"
  have "distinct (map fst (gs_members gs))" using inv by (simp add: bt_inv_def strict_sorted_iff)
  obtain k m where km: "e = (k, m)" by force
  have uniq: "m' = m" if "(k, m') \<in> set (gs_members gs)" for m'
    using eq_key_imp_eq_value [OF \<open>distinct _\<close> that, of m] e km by simp
  have "k \<in> set (expired_members now gs) \<longleftrightarrow> (\<exists>m'. (k, m') \<in> set (gs_members gs) \<and> ms_deadline m' \<le> now)"
    by (auto simp: expired_members_def image_iff)
  also have "\<dots> \<longleftrightarrow> ms_deadline m \<le> now"
    using uniq e km by blast
  finally have "k \<in> set (expired_members now gs) \<longleftrightarrow> ms_deadline m \<le> now" .
  then show "(fst e \<notin> set (expired_members now gs)) = (case e of (_, m) \<Rightarrow> now < ms_deadline m)"
    by (auto simp: km)
qed

section \<open>The transitions keep it\<close>

lemma ensure_leader_run:
  "gs_members gs \<noteq> [] \<Longrightarrow>
   \<exists>k. ensure_leader gs = (Inr (), gs\<lparr>gs_leader_id := k\<rparr>) \<and> bt_contains (gs_members gs) k
     \<and> (bt_contains (gs_members gs) (gs_leader_id gs) \<longrightarrow> k = gs_leader_id gs)"
  by (cases "gs_members gs") (auto simp: ensure_leader_def bt_keys_def bt_contains_def bt_get_def)

lemma leader_irrelevant [simp]:
  "core_ok (gs\<lparr>gs_leader_id := k\<rparr>) = core_ok gs" "phase_ok False (gs\<lparr>gs_leader_id := k\<rparr>) = phase_ok False gs"
  by (simp_all add: core_ok_def phase_ok_def agreed_def split: group_phase.split)

lemma deadline_irrelevant [simp]:
  "core_ok (gs\<lparr>gs_phase_deadline := d\<rparr>) = core_ok gs" "phase_ok b (gs\<lparr>gs_phase_deadline := d\<rparr>) = phase_ok b gs"
  "group_ok (gs\<lparr>gs_phase_deadline := d\<rparr>) = group_ok gs"
  by (simp_all add: core_ok_def phase_ok_def agreed_def group_ok_def split: group_phase.split)

lemma members_size_map: "(\<And>k m. ms_protocols (f k m) = ms_protocols m) \<Longrightarrow> members_size (bt_map f ms) = members_size ms"
  by (simp add: members_size_def bt_map_def case_prod_unfold comp_def)

lemma bt_map_values: "bt_values (bt_map f ms) = map (\<lambda>(k, m). f k m) ms"
  by (simp add: bt_values_def bt_map_def case_prod_unfold)

lemma bt_map_contains [simp]: "bt_contains (bt_map f ms) k = bt_contains ms k"
  by (simp add: bt_contains_def bt_get_map)

lemma bt_map_length [simp]: "length (bt_map f ms) = length ms" "bt_map f ms = [] \<longleftrightarrow> ms = []"
  by (simp_all add: bt_map_def)

lemma bt_map_bt_keys [simp]: "bt_keys (bt_map f ms) = bt_keys ms"
  by (simp add: bt_keys_def)

lemma core_ok_map:
  assumes "core_ok gs" "gs_rebalance_id gs \<le> r" "r \<le> u64_max" "0 \<le> g" "in_i32 g"
    and "\<And>k m. ms_protocols (f k m) = ms_protocols m" "\<And>k m. ms_session_timeout (f k m) = ms_session_timeout m"
    "\<And>k m. ms_rebalance_timeout (f k m) = ms_rebalance_timeout m" "\<And>k m. ms_joined_rebalance (f k m) = ms_joined_rebalance m"
    and "gs_members gs' = bt_map f (gs_members gs)" "gs_rebalance_id gs' = r" "gs_generation_id gs' = g"
  shows "core_ok gs'"
proof -
  have vs: "set (bt_values (gs_members gs')) = (\<lambda>(k, m). f k m) ` set (gs_members gs)"
    by (simp add: assms(10) bt_map_values)
  have old: "\<forall>(k, m) \<in> set (gs_members gs). member_ok (gs_rebalance_id gs) m"
    using assms(1) by (auto simp: core_ok_def bt_values_def)
  have "\<forall>m \<in> set (bt_values (gs_members gs')). member_ok r m"
    unfolding vs using old assms(2,7-9) by (auto simp: member_ok_def split: prod.splits)
  moreover from assms(1) obtain name where "\<forall>e \<in> set (gs_members gs). offers (ms_protocols (snd e)) name"
    by (auto simp: core_ok_def bt_values_def)
  then have "\<forall>m \<in> set (bt_values (gs_members gs')). offers (ms_protocols m) name"
    unfolding vs using assms(6) by force
  ultimately show ?thesis
    using assms(1,3-5) unfolding core_ok_def assms(10-12) by (auto simp: members_size_map [OF assms(6)])
qed

lemma start_rebalance_run:
  assumes led: "led_ok gs" and run: "start_rebalance now gs = (r, gs')"
  shows "group_ok gs' \<and>
    (case r of
       Inl e \<Rightarrow> e = Kafka UnknownServerError \<and> gs' = gs \<and> gs_rebalance_id gs = u64_max
     | Inr _ \<Rightarrow> gs_phase gs' = Joining \<and> gs_rebalance_id gs' = Suc (gs_rebalance_id gs) \<and> gs_generation_id gs' = gs_generation_id gs
         \<and> gs_leader_id gs' = gs_leader_id gs \<and> bt_keys (gs_members gs') = bt_keys (gs_members gs)
         \<and> gs_members gs' = bt_map (\<lambda>_ m. m\<lparr>ms_assignment := None, ms_join_result := None\<rparr>) (gs_members gs)
         \<and> gs_protocol_type gs' = gs_protocol_type gs \<and> gs_phase_deadline gs' = rebalance_deadline now now (gs_members gs))"
proof (cases "gs_rebalance_id gs < u64_max")
  case False
  with led run have "r = Inl (Kafka UnknownServerError)" "gs' = gs" "gs_rebalance_id gs = u64_max"
    by (auto simp: start_rebalance_def led_ok_def core_ok_def split: option.splits)
  with led show ?thesis by (simp add: group_ok_def led_ok_def)
next
  case True
  with run have r: "r = Inr ()" and gs': "gs' = gs\<lparr>gs_rebalance_id := Suc (gs_rebalance_id gs), gs_phase := Joining, gs_protocol_name := None,
             gs_phase_deadline := rebalance_deadline now now (gs_members gs),
             gs_members := bt_map (\<lambda>_ member. member\<lparr>ms_assignment := None, ms_join_result := None\<rparr>) (gs_members gs)\<rparr>"
    by (auto simp: start_rebalance_def split: option.splits)
  have "core_ok gs'"
    by (rule core_ok_map [of gs "Suc (gs_rebalance_id gs)" "gs_generation_id gs" "\<lambda>_ m. m\<lparr>ms_assignment := None, ms_join_result := None\<rparr>"])
      (use led True in \<open>auto simp: led_ok_def core_ok_def gs'\<close>)
  moreover have "phase_ok b gs'" for b
    by (auto simp: phase_ok_def gs' bt_map_values)
  ultimately show ?thesis using led by (simp add: group_ok_def led_ok_def r gs')
qed

lemma offers_find: "offers ps name \<Longrightarrow> \<exists>p. List.find (\<lambda>p. jp_name p = name) ps = Some p"
  by (cases "List.find (\<lambda>p. jp_name p = name) ps") (auto simp: offers_def find_None_iff list_ex_iff)

lemma leader_member_run:
  "\<forall>(k, m) \<in> set ms. offers (ms_protocols m) name \<Longrightarrow>
   io_map (\<lambda>e. io_lift (leader_member name e)) ms s = (Inr (member_view name ms), s)"
  by (induction ms)
    (auto simp: io_bind_def leader_member_def member_view_def metadata_for_def dest!: offers_find)

lemma select_protocol_Some:
  assumes "core_ok gs" "bt_contains (gs_members gs) (gs_leader_id gs)"
  obtains name where "select_protocol gs = Some name" "\<forall>(k, m) \<in> set (gs_members gs). offers (ms_protocols m) name"
proof -
  obtain leader where leader: "bt_get (gs_members gs) (gs_leader_id gs) = Some leader"
    using assms(2) by (auto simp: bt_contains_def)
  obtain common where common: "\<forall>m \<in> set (bt_values (gs_members gs)). offers (ms_protocols m) common"
    using assms(1) by (auto simp: core_ok_def)
  let ?good = "\<lambda>choice. list_all (\<lambda>m. offers (ms_protocols m) (jp_name choice)) (bt_values (gs_members gs))"
  have "offers (ms_protocols leader) common" using common bt_get_value [OF leader] by blast
  then obtain p where "p \<in> set (ms_protocols leader)" "jp_name p = common" by (auto simp: offers_def list_ex_iff)
  with common have "\<not> (\<not> (\<exists>x. x \<in> set (ms_protocols leader) \<and> ?good x))" by (auto simp: list_all_iff)
  then obtain q where q: "List.find ?good (ms_protocols leader) = Some q"
    by (cases "List.find ?good (ms_protocols leader)") (auto simp: find_None_iff)
  then have "?good q" by (auto simp: find_Some_iff)
  then have "\<forall>(k, m) \<in> set (gs_members gs). offers (ms_protocols m) (jp_name q)"
    by (auto simp: list_all_iff bt_values_def)
  with q leader show thesis by (intro that [of "jp_name q"]) (auto simp: select_protocol_def)
qed

lemma finalize_rebalance_run:
  assumes led: "led_ok gs" and phase: "gs_phase gs = Joining" and joined: "all_joined gs"
    and run: "finalize_rebalance now gs = (r, gs')"
  shows "group_ok gs' \<and>
    (case r of
       Inl e \<Rightarrow> e = Kafka UnknownServerError \<and> gs' = gs \<and> gs_generation_id gs = i32_max
     | Inr _ \<Rightarrow> gs_phase gs' = AwaitingSync \<and> gs_generation_id gs' = gs_generation_id gs + 1
         \<and> gs_rebalance_id gs' = gs_rebalance_id gs \<and> bt_keys (gs_members gs') = bt_keys (gs_members gs)
         \<and> gs_protocol_type gs' = gs_protocol_type gs \<and> gs_leader_id gs' = gs_leader_id gs
         \<and> (\<forall>m \<in> set (bt_values (gs_members gs')). ms_deadline m = now + ms_session_timeout m) \<and> agreed True gs')"
proof -
  have core: "core_ok gs" and leader: "bt_contains (gs_members gs) (gs_leader_id gs)" using led by (auto simp: led_ok_def)
  obtain name where name: "select_protocol gs = Some name" "\<forall>(k, m) \<in> set (gs_members gs). offers (ms_protocols m) name"
    using select_protocol_Some [OF core leader] .
  have ens: "ensure_leader gs = (Inr (), gs)" using leader by (simp add: ensure_leader_def)
  show ?thesis
  proof (cases "in_i32 (gs_generation_id gs + 1)")
    case False
    with run name ens have "r = Inl (Kafka UnknownServerError) \<and> gs' = gs"
      by (auto simp: finalize_rebalance_def io_bind_def checked_add_i32_def)
    moreover have "gs_generation_id gs = i32_max" using False core by (auto simp: core_ok_def range_simps)
    ultimately show ?thesis using led_ok_joining [OF led phase] by simp
  next
    case True
    let ?g = "gs_generation_id gs + 1" and ?ms = "member_view name (gs_members gs)"
    let ?f = "finished_member now ?g name (gs_leader_id gs) ?ms"
    have r: "r = Inr ()" and gs': "gs' = gs\<lparr>gs_generation_id := ?g, gs_phase := AwaitingSync, gs_protocol_name := Some name,
        gs_phase_deadline := rebalance_deadline now now (gs_members gs), gs_members := bt_map ?f (gs_members gs)\<rparr>"
      using run name(1) True ens
      by (auto simp: finalize_rebalance_def io_bind_def checked_add_i32_def Let_def leader_member_run [OF name(2)])
    have core': "core_ok gs'"
      by (rule core_ok_map [of gs "gs_rebalance_id gs" ?g ?f]) (use core True in \<open>auto simp: core_ok_def gs' finished_member_def\<close>)
    have view: "member_view name (bt_map ?f (gs_members gs)) = ?ms"
      by (simp add: member_view_def bt_map_def metadata_for_def finished_member_def case_prod_unfold)
    have told: "told (gs_rebalance_id gs) ?g name (gs_leader_id gs) ?ms (k, ?f k m)" if "(k, m) \<in> set (gs_members gs)" for k m
      using that name(2) joined by (auto simp: told_def finished_member_def all_joined_def list_all_iff bt_values_def)
    then have "\<forall>e \<in> set (bt_map ?f (gs_members gs)). told (gs_rebalance_id gs) ?g name (gs_leader_id gs) ?ms e"
      by (auto simp: bt_map_def)
    then have agr: "agreed True gs'" by (simp add: agreed_def gs' view)
    moreover have "\<forall>m \<in> set (bt_values (gs_members gs')). ms_assignment m = None"
      by (auto simp: gs' bt_map_values finished_member_def)
    ultimately have "phase_ok b gs'" for b by (cases b) (auto simp: phase_ok_def gs' intro: agreed_weaken)
    moreover have "\<forall>m \<in> set (bt_values (gs_members gs')). ms_deadline m = now + ms_session_timeout m"
      by (auto simp: gs' bt_map_values finished_member_def)
    ultimately show ?thesis using core' leader agr by (simp add: group_ok_def r gs')
  qed
qed

text \<open>What a transition that may end a rebalance or start one is allowed to fail with: an exhausted counter.\<close>

definition keeps_group :: "(coordinator_error + 'a) \<times> group_state option \<Rightarrow> bool" where
  "keeps_group out \<longleftrightarrow> (case out of (r, st) \<Rightarrow> slot_ok st \<and> (\<forall>e. r = Inl e \<longrightarrow> e = Kafka UnknownServerError \<and> st \<noteq> None))"

lemma finish_joining_keeps:
  assumes "led_ok gs" "gs_phase gs = Joining"
  shows "keeps_group (in_group (finish_joining now changed) (Some gs))"
proof -
  obtain r gs' where run: "finalize_rebalance now gs = (r, gs')" by force
  show ?thesis
    using finalize_rebalance_run [OF assms _ run] run led_ok_joining [OF assms]
    by (cases r) (auto simp: keeps_group_def in_group_def finish_joining_def io_bind_def)
qed

lemma advance_phase_keeps: "group_ok gs \<Longrightarrow> keeps_group (advance_phase now changed gs)"
proof -
  assume ok: "group_ok gs"
  note led = group_ok_led [OF ok]
  consider (joining) "gs_phase gs = Joining" | (late) "gs_phase gs = AwaitingSync" "gs_phase_deadline gs \<le> now"
    | (other) "gs_phase gs = AwaitingSync \<and> now < gs_phase_deadline gs \<or> gs_phase gs = Stable"
    by (cases "gs_phase gs"; cases "gs_phase_deadline gs \<le> now") auto
  then show ?thesis
  proof cases
    case joining
    let ?m = "gs\<lparr>gs_members := bt_retain (\<lambda>_ member. ms_joined_rebalance member = gs_rebalance_id gs) (gs_members gs)\<rparr>"
    show ?thesis
    proof (cases "gs_phase_deadline gs \<le> now \<and> gs_members ?m \<noteq> []")
      case True
      then have ne: "gs_members ?m \<noteq> []" by simp
      have kept: "core_ok ?m" "phase_ok False ?m"
        using core_ok_filter phase_ok_filter led unfolding bt_retain_def led_ok_def by blast+
      obtain k where k: "ensure_leader ?m = (Inr (), ?m\<lparr>gs_leader_id := k\<rparr>)" "bt_contains (gs_members ?m) k"
        using ensure_leader_run [OF ne] by blast
      have "led_ok (?m\<lparr>gs_leader_id := k\<rparr>)" using kept k(2) by (simp add: led_ok_def)
      from finish_joining_keeps [OF this, of now True] joining True k show ?thesis
        by (simp add: advance_phase_def Let_def in_group_def io_bind_def)
    next
      case False
      with joining finish_joining_keeps [OF led joining, of now changed] show ?thesis
        by (auto simp: advance_phase_def Let_def keeps_group_def)
    qed
  next
    case late
    obtain r gs' where run: "start_rebalance now gs = (r, gs')" by force
    from start_rebalance_run [OF led run] late run show ?thesis
      by (cases r) (auto simp: advance_phase_def in_group_def io_bind_def keeps_group_def)
  next
    case other
    with ok show ?thesis by (auto simp: advance_phase_def keeps_group_def)
  qed
qed

lemma advance_group_keeps: "slot_ok st \<Longrightarrow> keeps_group (advance_group now st)"
proof (cases st)
  case None
  then show ?thesis by (simp add: advance_group_def keeps_group_def)
next
  case (Some gs)
  assume "slot_ok st"
  with Some have ok: "group_ok gs" by simp
  then have inv: "bt_inv (gs_members gs)" by (simp add: group_ok_def core_ok_def)
  let ?m = "gs\<lparr>gs_members := filter (\<lambda>(_, m). now < ms_deadline m) (gs_members gs)\<rparr>"
  show ?thesis
  proof (cases "expired_members now gs \<noteq> [] \<and> gs_members ?m \<noteq> []")
    case True
    then have ne: "gs_members ?m \<noteq> []" by simp
    have kept: "core_ok ?m" "phase_ok False ?m"
      using core_ok_filter phase_ok_filter group_ok_led [OF ok] unfolding led_ok_def by blast+
    obtain k where k: "ensure_leader ?m = (Inr (), ?m\<lparr>gs_leader_id := k\<rparr>)" "bt_contains (gs_members ?m) k"
      using ensure_leader_run [OF ne] by blast
    have led: "led_ok (?m\<lparr>gs_leader_id := k\<rparr>)" using kept k(2) by (simp add: led_ok_def)
    obtain r gs' where exp: "members_expired now ?m = (r, gs')" by force
    have "group_ok gs' \<and> (\<forall>e. r = Inl e \<longrightarrow> e = Kafka UnknownServerError)"
    proof (cases "gs_phase gs = Joining")
      case True
      with exp k led_ok_joining [OF led] show ?thesis by (auto simp: members_expired_def io_bind_def)
    next
      case False
      with exp k have "start_rebalance now (?m\<lparr>gs_leader_id := k\<rparr>) = (r, gs')" by (simp add: members_expired_def io_bind_def)
      from start_rebalance_run [OF led this] show ?thesis by auto
    qed
    with True exp advance_phase_keeps [of gs' now True] show ?thesis
      by (cases r) (auto simp: advance_group_def Some Let_def expired_removed [OF inv] keeps_group_def)
  next
    case False
    with advance_phase_keeps [OF ok, of now False] show ?thesis
      by (auto simp: advance_group_def Some Let_def expired_removed [OF inv] keeps_group_def)
  qed
qed

end
