(* ===== verification/Coordinator.thy ===== *)
theory Coordinator
  imports Group_State
begin

text \<open>
  The group coordinator (\<open>src/coordinator.rs\<close>). Each request is a sequence of critical sections:
  the section that finds or creates the group's slot under the lock of the slot table, the
  sections under the slot's own lock, and the reclaiming of an empty slot. \<open>run_section\<close> is
  one section; \<open>coordinator_step\<close> lets any number of requests interleave at section boundaries,
  at any instant, and lets a request be dropped at any of them.

  A slot is an \<open>Arc\<close>: the table and every request in progress hold references to it, and the
  table entry goes only when nobody else holds one. Notifications only choose the moment at
  which a waiting request runs its section again; the step relation lets it run at any moment.
\<close>

section \<open>Requests and their stages\<close>

datatype group_request =
    JoinRequest string int int string string "join_protocol list"
  | SyncRequest string int string "sync_assignment list"
  | HeartbeatRequest string int string
  | LeaveRequest string string
  | CommitRequest string int string "offset_commit list"

fun request_group :: "group_request \<Rightarrow> string" where
  "request_group (JoinRequest gid _ _ _ _ _) = gid"
| "request_group (SyncRequest gid _ _ _) = gid"
| "request_group (HeartbeatRequest gid _ _) = gid"
| "request_group (LeaveRequest gid _) = gid"
| "request_group (CommitRequest gid _ _ _) = gid"

datatype group_response = Joined join_outcome | Synced bytes | Accepted

type_synonym group_result = "coordinator_error + group_response"

text \<open>The next section of a request in progress.\<close>

datatype stage =
    JoinEnter
  | JoinSettle string nat
  | JoinWait string nat
  | SyncWait bool
  | Visit
  | Reclaim group_result

text \<open>What a section under the slot's lock ends with: a further stage or the result.\<close>

datatype progress = Continue stage | Finish group_result

section \<open>Sections under the lock of a group\<close>

type_synonym ('s, 'a) room_action = "('s \<times> group_state option, coordinator_error, 'a) io"

definition joined_member :: "nat \<Rightarrow> nat \<Rightarrow> nat \<Rightarrow> join_protocol list \<Rightarrow> nat \<Rightarrow> member_state" where
  "joined_member now session rebalance protocols joined =
     \<lparr>ms_protocols = protocols, ms_assignment = None, ms_session_timeout = session, ms_rebalance_timeout = rebalance,
      ms_deadline = now + session, ms_joined_rebalance = joined, ms_join_result = None\<rparr>"

definition first_group :: "nat \<Rightarrow> nat \<Rightarrow> nat \<Rightarrow> string \<Rightarrow> join_protocol list \<Rightarrow> string \<Rightarrow> group_state" where
  "first_group now session rebalance protocol_type protocols assigned =
     \<lparr>gs_generation_id = 0, gs_rebalance_id = 1, gs_phase = Joining, gs_phase_deadline = now + rebalance,
      gs_protocol_type = protocol_type, gs_protocol_name = None, gs_leader_id = assigned,
      gs_members = bt_insert assigned (joined_member now session rebalance protocols 1) []\<rparr>"

definition ensure_joining :: "nat \<Rightarrow> unit group_action" where
  "ensure_joining now gs = (if gs_phase gs \<noteq> Joining then start_rebalance now gs else (Inr (), gs))"

definition join_new_member :: "nat \<Rightarrow> nat \<Rightarrow> nat \<Rightarrow> join_protocol list \<Rightarrow> string \<Rightarrow> string group_action" where
  "join_new_member now session rebalance protocols assigned =
     io_bind (ensure_joining now) (\<lambda>_.
     io_bind io_get (\<lambda>gs.
     io_bind (io_put (gs\<lparr>gs_members :=
         bt_insert assigned (joined_member now session rebalance protocols (gs_rebalance_id gs)) (gs_members gs)\<rparr>)) (\<lambda>_.
       io_ret assigned)))"

definition rejoin_member :: "nat \<Rightarrow> nat \<Rightarrow> nat \<Rightarrow> join_protocol list \<Rightarrow> string \<Rightarrow> string group_action" where
  "rejoin_member now session rebalance protocols member_id =
     io_bind (ensure_joining now) (\<lambda>_.
     io_bind io_get (\<lambda>gs.
     io_bind (update_member member_id (\<lambda>member.
       member\<lparr>ms_protocols := protocols, ms_assignment := None, ms_session_timeout := session,
         ms_rebalance_timeout := rebalance, ms_deadline := now + session,
         ms_joined_rebalance := gs_rebalance_id gs, ms_join_result := None\<rparr>)) (\<lambda>_.
       io_ret member_id)))"

definition set_join_deadline :: "nat \<Rightarrow> nat \<Rightarrow> string \<Rightarrow> (string \<times> nat) group_action" where
  "set_join_deadline now rebalance assigned gs =
     (Inr (assigned, gs_rebalance_id gs),
      gs\<lparr>gs_phase_deadline := rebalance_deadline now (now + rebalance) (gs_members gs)\<rparr>)"

text \<open>The first section of a join: the member's identity and the rebalance it waits for.\<close>

definition join_enter ::
  "('s, 'm) world_scheme \<Rightarrow> nat \<Rightarrow> nat \<Rightarrow> nat \<Rightarrow> string \<Rightarrow> string \<Rightarrow> join_protocol list \<Rightarrow> ('s, string \<times> nat) room_action" where
  "join_enter W now session rebalance member_id protocol_type protocols =
     io_bind (io_snd (advance_group now)) (\<lambda>_.
     io_bind (io_snd io_get) (\<lambda>st.
     case st of
       None \<Rightarrow>
         if member_id = []
         then io_bind (io_fst (io_call (w_new_uuid W))) (\<lambda>assigned.
              io_bind (io_snd (io_put (Some (first_group now session rebalance protocol_type protocols assigned)))) (\<lambda>_.
                io_ret (assigned, 1)))
         else io_err (Kafka UnknownMemberId)
     | Some gs \<Rightarrow>
         if member_id \<noteq> [] \<and> \<not> bt_contains (gs_members gs) member_id then io_err (Kafka UnknownMemberId)
         else if gs_protocol_type gs \<noteq> protocol_type \<or> \<not> protocols_compatible gs member_id protocols
         then io_err (Kafka InconsistentGroupProtocol)
         else
           io_bind (io_lift (validate_group_protocol_budget gs member_id protocols)) (\<lambda>_.
           io_bind
             (if member_id = []
              then if length (gs_members gs) \<ge> MAX_GROUP_MEMBERS then io_err (Kafka GroupMaxSizeReached)
                   else io_bind (io_fst (io_call (w_new_uuid W))) (\<lambda>assigned.
                          io_snd (in_group (join_new_member now session rebalance protocols assigned)))
              else io_snd (in_group (rejoin_member now session rebalance protocols member_id))) (\<lambda>assigned.
             io_snd (in_group (set_join_deadline now rebalance assigned))))))"

text \<open>One round of a join that waits: \<open>None\<close> if it has to wait again.\<close>

definition join_poll :: "nat \<Rightarrow> string \<Rightarrow> nat \<Rightarrow> join_outcome option slot_action" where
  "join_poll now member_id target =
     io_bind (advance_group now) (\<lambda>_.
     io_bind io_get (\<lambda>st.
       case st of
         None \<Rightarrow> io_err (Kafka UnknownMemberId)
       | Some gs \<Rightarrow>
           if gs_rebalance_id gs \<noteq> target then io_err (Kafka RebalanceInProgress)
           else case bt_get (gs_members gs) member_id of
                  None \<Rightarrow> io_err (Kafka UnknownMemberId)
                | Some member \<Rightarrow> io_ret (ms_join_result member)))"

fun install_assignments :: "nat \<Rightarrow> (string \<times> bytes) list \<Rightarrow> unit group_action" where
  "install_assignments now [] = io_ret ()"
| "install_assignments now ((member_id, assignment) # rest) =
     io_bind (update_member member_id (\<lambda>member.
       member\<lparr>ms_assignment := Some assignment, ms_deadline := now + ms_session_timeout member\<rparr>)) (\<lambda>_.
     install_assignments now rest)"

text \<open>The first round of a sync in the phase the group is in.\<close>

definition sync_submit :: "nat \<Rightarrow> string \<Rightarrow> sync_assignment list \<Rightarrow> unit group_action" where
  "sync_submit now member_id assignments gs =
     io_bind
       (let is_leader = (gs_leader_id gs = member_id)
        in case gs_phase gs of
          Joining \<Rightarrow> io_err (Panic ''joining phase returned above'')
        | AwaitingSync \<Rightarrow>
            if is_leader
            then io_bind (io_lift (exact_assignments gs assignments)) (\<lambda>installed.
                 io_bind (install_assignments now installed) (\<lambda>_.
                 io_bind io_get (\<lambda>gs. io_put (gs\<lparr>gs_phase := Stable\<rparr>))))
            else if assignments \<noteq> [] then io_err (Kafka InvalidRequest) else io_ret ()
        | Stable \<Rightarrow>
            if is_leader \<and> assignments \<noteq> []
            then io_bind (io_lift (exact_assignments gs assignments)) (\<lambda>proposed.
                   if list_ex (\<lambda>(k, assignment).
                        (case bt_get (gs_members gs) k of None \<Rightarrow> None | Some member \<Rightarrow> ms_assignment member) \<noteq> Some assignment) proposed
                   then io_err (Kafka InvalidRequest) else io_ret ())
            else if \<not> is_leader \<and> assignments \<noteq> [] then io_err (Kafka InvalidRequest)
            else io_ret ())
       (\<lambda>_. update_member member_id (\<lambda>member. member\<lparr>ms_deadline := now + ms_session_timeout member\<rparr>)) gs"

text \<open>The assignment of a member if the group is stable, otherwise \<open>None\<close>: wait again.\<close>

definition sync_outcome :: "string \<Rightarrow> bytes option group_action" where
  "sync_outcome member_id gs =
     (case bt_get (gs_members gs) member_id of
        None \<Rightarrow> (Inl (Panic ''active group validated member''), gs)
      | Some member \<Rightarrow>
          if gs_phase gs = Stable
          then (case ms_assignment member of
                  None \<Rightarrow> (Inl (Kafka RebalanceInProgress), gs) | Some assignment \<Rightarrow> (Inr (Some assignment), gs))
          else (Inr None, gs))"

definition sync_poll ::
  "nat \<Rightarrow> int \<Rightarrow> string \<Rightarrow> sync_assignment list \<Rightarrow> bool \<Rightarrow> progress slot_action" where
  "sync_poll now generation member_id assignments submitted =
     io_bind (advance_group now) (\<lambda>_.
     io_bind io_get (\<lambda>st.
       if st = None then io_ret (Continue (Reclaim (Inl (Kafka UnknownMemberId))))
       else
         io_bind (io_lift (active_group generation member_id st)) (\<lambda>gs.
           if gs_phase gs = Joining then io_err (Kafka RebalanceInProgress)
           else
             io_bind (if submitted then io_ret () else in_group (sync_submit now member_id assignments)) (\<lambda>_.
             io_bind (in_group (sync_outcome member_id)) (\<lambda>out.
               io_ret (case out of Some assignment \<Rightarrow> Finish (Inr (Synced assignment)) | None \<Rightarrow> Continue (SyncWait True)))))))"

text \<open>A group left empty under the lock is reclaimed after the lock is released.\<close>

definition then_reclaim :: "group_result \<Rightarrow> progress slot_action" where
  "then_reclaim result st = (Inr (if st = None then Continue (Reclaim result) else Finish result), st)"

definition refresh_member :: "nat \<Rightarrow> string \<Rightarrow> unit group_action" where
  "refresh_member now member_id =
     io_bind (update_member member_id (\<lambda>member. member\<lparr>ms_deadline := now + ms_session_timeout member\<rparr>)) (\<lambda>_.
     io_bind io_get (\<lambda>gs.
       if gs_phase gs \<noteq> Stable
          \<or> (case bt_get (gs_members gs) member_id of None \<Rightarrow> True | Some member \<Rightarrow> ms_assignment member = None)
       then io_err (Kafka RebalanceInProgress) else io_ret ()))"

definition heartbeat_section :: "nat \<Rightarrow> int \<Rightarrow> string \<Rightarrow> progress slot_action" where
  "heartbeat_section now generation member_id =
     io_bind (advance_group now) (\<lambda>_.
     io_bind io_get (\<lambda>st.
     io_bind (io_try (case active_group generation member_id st of
         Inl e \<Rightarrow> io_err e
       | Inr _ \<Rightarrow> in_group (refresh_member now member_id))) (\<lambda>result.
       then_reclaim (case result of Inl e \<Rightarrow> Inl e | Inr _ \<Rightarrow> Inr Accepted))))"

text \<open>The group after one of several members left.\<close>

definition member_left :: "nat \<Rightarrow> string \<Rightarrow> unit group_action" where
  "member_left now member_id gs =
     io_bind
       (if gs_leader_id gs = member_id
        then (case bt_keys (gs_members gs) of
                [] \<Rightarrow> io_err (Panic ''nonempty group'') | k # _ \<Rightarrow> io_put (gs\<lparr>gs_leader_id := k\<rparr>))
        else io_ret ())
       (\<lambda>_. if gs_phase gs = Joining
            then if all_joined gs then finalize_rebalance now else io_ret ()
            else start_rebalance now) gs"

definition leave_section :: "nat \<Rightarrow> string \<Rightarrow> progress slot_action" where
  "leave_section now member_id =
     io_bind (advance_group now) (\<lambda>_.
     io_bind io_get (\<lambda>st.
       case st of
         None \<Rightarrow> then_reclaim (Inl (Kafka UnknownMemberId))
       | Some gs \<Rightarrow>
           if \<not> bt_contains (gs_members gs) member_id then then_reclaim (Inl (Kafka UnknownMemberId))
           else
             let gs = gs\<lparr>gs_members := bt_remove member_id (gs_members gs)\<rparr>
             in if gs_members gs = [] then io_bind (io_put None) (\<lambda>_. then_reclaim (Inr Accepted))
                else io_bind (io_put (Some gs)) (\<lambda>_.
                     io_bind (in_group (member_left now member_id)) (\<lambda>_. then_reclaim (Inr Accepted)))))"

text \<open>The lock of the group is held while the offsets are committed.\<close>

definition commit_section ::
  "('s, 'm) group_env_scheme \<Rightarrow> string \<Rightarrow> nat \<Rightarrow> string \<Rightarrow> int \<Rightarrow> string \<Rightarrow> offset_commit list \<Rightarrow> ('s, progress) room_action" where
  "commit_section E prefix now gid generation member_id commits =
     io_bind (io_snd (advance_group now)) (\<lambda>_.
     io_bind (io_snd io_get) (\<lambda>st.
       case active_group generation member_id st of
         Inl e \<Rightarrow> io_snd (then_reclaim (Inl e))
       | Inr gs \<Rightarrow>
           (case bt_get (gs_members gs) member_id of
              None \<Rightarrow> io_err (Panic ''active group validated member'')
            | Some member \<Rightarrow>
                if gs_phase gs \<noteq> Stable \<or> ms_assignment member = None
                then io_snd (then_reclaim (Inl (Kafka RebalanceInProgress)))
                else if commits = [] then io_ret (Finish (Inr Accepted))
                else io_bind (io_map_err StorageError (io_fst (commit_offsets E prefix gid commits))) (\<lambda>_.
                       io_ret (Finish (Inr Accepted))))))"

text \<open>One section of a request under the lock of its slot.\<close>

fun run_section ::
  "('s, 'm) group_env_scheme \<Rightarrow> string \<Rightarrow> nat \<Rightarrow> group_request \<Rightarrow> stage \<Rightarrow> ('s, progress) room_action" where
  "run_section E prefix now (JoinRequest gid session rebalance member_id protocol_type protocols) JoinEnter =
     io_bind (join_enter E now (millis session) (millis rebalance) member_id protocol_type protocols) (\<lambda>(assigned, target).
       io_ret (Continue (JoinSettle assigned target)))"
| "run_section E prefix now (JoinRequest gid session rebalance member_id protocol_type protocols) (JoinSettle assigned target) =
     io_bind (io_snd (advance_group now)) (\<lambda>_. io_ret (Continue (JoinWait assigned target)))"
| "run_section E prefix now (JoinRequest gid session rebalance member_id protocol_type protocols) (JoinWait assigned target) =
     io_bind (io_snd (join_poll now assigned target)) (\<lambda>out.
       io_ret (case out of Some outcome \<Rightarrow> Finish (Inr (Joined outcome)) | None \<Rightarrow> Continue (JoinWait assigned target)))"
| "run_section E prefix now (SyncRequest gid generation member_id assignments) (SyncWait submitted) =
     io_snd (sync_poll now generation member_id assignments submitted)"
| "run_section E prefix now (HeartbeatRequest gid generation member_id) Visit =
     io_snd (heartbeat_section now generation member_id)"
| "run_section E prefix now (LeaveRequest gid member_id) Visit = io_snd (leave_section now member_id)"
| "run_section E prefix now (CommitRequest gid generation member_id commits) Visit =
     commit_section E prefix now gid generation member_id commits"
| "run_section E prefix now _ _ = io_err (Panic ''stage of another request'')"

section \<open>The table of slots\<close>

datatype task = Task (tk_request: group_request) (tk_slot: nat) (tk_stage: stage)

text \<open>
  \<open>cd_slots\<close> holds what is behind the lock of each slot ever allocated, \<open>cd_tasks\<close> the requests in
  progress; \<open>cd_world\<close> is the outside world.
\<close>

record 's coordinator =
  cd_groups :: "(string, nat) btree_map"
  cd_slots :: "nat \<Rightarrow> group_state option"
  cd_tasks :: "(nat, task) btree_map"
  cd_next_slot :: nat
  cd_next_task :: nat
  cd_world :: 's

definition coordinator_new :: "'s \<Rightarrow> 's coordinator" where
  "coordinator_new w =
     \<lparr>cd_groups = [], cd_slots = (\<lambda>_. None), cd_tasks = [], cd_next_slot = 0, cd_next_task = 0, cd_world = w\<rparr>"

text \<open>\<open>Arc::strong_count\<close>: the references of the table and of the requests in progress.\<close>

definition strong_count :: "'s coordinator \<Rightarrow> nat \<Rightarrow> nat" where
  "strong_count c a =
     length (filter (\<lambda>(_, b). b = a) (cd_groups c)) + length (filter (\<lambda>(_, t). tk_slot t = a) (cd_tasks c))"

text \<open>\<open>retain\<close> over the table: an unreferenced slot goes if its group is empty by now.\<close>

fun sweep_from ::
  "nat \<Rightarrow> (nat \<Rightarrow> nat) \<Rightarrow> (string \<times> nat) list \<Rightarrow> (nat \<Rightarrow> group_state option)
   \<Rightarrow> (string \<times> nat) list \<times> (nat \<Rightarrow> group_state option)" where
  "sweep_from now references [] slots = ([], slots)"
| "sweep_from now references ((gid, a) # rest) slots =
     (if references a \<noteq> 1
      then (case sweep_from now references rest slots of (kept, slots) \<Rightarrow> ((gid, a) # kept, slots))
      else
        case advance_group now (slots a) of (result, st) \<Rightarrow>
        case sweep_from now references rest (slots(a := st)) of (kept, slots) \<Rightarrow>
          (if (case result of Inl _ \<Rightarrow> True | Inr _ \<Rightarrow> st \<noteq> None) then (gid, a) # kept else kept, slots))"

definition sweep_reclaimable_slots :: "nat \<Rightarrow> 's coordinator \<Rightarrow> 's coordinator" where
  "sweep_reclaimable_slots now c =
     (case sweep_from now (strong_count c) (cd_groups c) (cd_slots c) of
        (kept, slots) \<Rightarrow> c\<lparr>cd_groups := kept, cd_slots := slots\<rparr>)"

definition existing_group_slot :: "string \<Rightarrow> ('s coordinator, coordinator_error, nat) io" where
  "existing_group_slot gid c = (ok_or (bt_get (cd_groups c) gid) (Kafka UnknownMemberId), c)"

definition join_group_slot :: "nat \<Rightarrow> string \<Rightarrow> string \<Rightarrow> ('s coordinator, coordinator_error, nat) io" where
  "join_group_slot now gid member_id c =
     (case bt_get (cd_groups c) gid of
        Some a \<Rightarrow> (Inr a, c)
      | None \<Rightarrow>
          if member_id \<noteq> [] then (Inl (Kafka UnknownMemberId), c)
          else
            let c = sweep_reclaimable_slots now c
            in if length (cd_groups c) \<ge> MAX_GROUP_SLOTS then (Inl (Kafka GroupMaxSizeReached), c)
               else
                 let a = cd_next_slot c
                 in (Inr a, c\<lparr>cd_groups := bt_insert gid a (cd_groups c), cd_slots := (cd_slots c)(a := None),
                              cd_next_slot := Suc a\<rparr>))"

definition reclaim_slot :: "string \<Rightarrow> nat \<Rightarrow> 's coordinator \<Rightarrow> 's coordinator" where
  "reclaim_slot gid a c =
     (if (case bt_get (cd_groups c) gid of
            None \<Rightarrow> False | Some b \<Rightarrow> b = a \<and> strong_count c b = 2 \<and> cd_slots c b = None)
      then c\<lparr>cd_groups := bt_remove gid (cd_groups c)\<rparr> else c)"

section \<open>Requests\<close>

text \<open>What precedes the first lock of a request.\<close>

definition check_group :: "string \<Rightarrow> coordinator_error + unit" where
  "check_group gid = map_err StorageError (validate_group_id gid)"

fun check_request :: "group_request \<Rightarrow> coordinator_error + unit" where
  "check_request (JoinRequest gid session rebalance member_id protocol_type protocols) =
     attempt (check_group gid) (\<lambda>_.
     attempt (validate_session_timeout session) (\<lambda>_.
     attempt (validate_rebalance_timeout rebalance) (\<lambda>_.
     attempt (validate_member_id member_id True) (\<lambda>_.
       validate_protocols protocol_type protocols))))"
| "check_request (SyncRequest gid generation member_id assignments) =
     attempt (check_group gid) (\<lambda>_.
     attempt (validate_member_id member_id False) (\<lambda>_.
       validate_assignments assignments))"
| "check_request (HeartbeatRequest gid generation member_id) =
     attempt (check_group gid) (\<lambda>_. validate_member_id member_id False)"
| "check_request (LeaveRequest gid member_id) =
     attempt (check_group gid) (\<lambda>_. validate_member_id member_id False)"
| "check_request (CommitRequest gid generation member_id commits) =
     attempt (check_group gid) (\<lambda>_. validate_member_id member_id False)"

fun first_stage :: "group_request \<Rightarrow> stage" where
  "first_stage (JoinRequest _ _ _ _ _ _) = JoinEnter"
| "first_stage (SyncRequest _ _ _ _) = SyncWait False"
| "first_stage _ = Visit"

fun request_slot :: "nat \<Rightarrow> group_request \<Rightarrow> ('s coordinator, coordinator_error, nat) io" where
  "request_slot now (JoinRequest gid _ _ member_id _ _) = join_group_slot now gid member_id"
| "request_slot now req = existing_group_slot (request_group req)"

definition start_request :: "nat \<Rightarrow> group_request \<Rightarrow> ('s coordinator, coordinator_error, unit) io" where
  "start_request now req =
     io_bind (io_lift (check_request req)) (\<lambda>_.
     io_bind (request_slot now req) (\<lambda>a.
     io_bind io_get (\<lambda>c.
       io_put (c\<lparr>cd_tasks := bt_insert (cd_next_task c) (Task req a (first_stage req)) (cd_tasks c),
                 cd_next_task := Suc (cd_next_task c)\<rparr>))))"

text \<open>The next section of a request in progress: \<open>Some\<close> result if it was the last.\<close>

definition end_task :: "nat \<Rightarrow> 's coordinator \<Rightarrow> 's coordinator" where
  "end_task i c = c\<lparr>cd_tasks := bt_remove i (cd_tasks c)\<rparr>"

definition resume_task ::
  "('s, 'm) group_env_scheme \<Rightarrow> string \<Rightarrow> nat \<Rightarrow> nat \<Rightarrow> task \<Rightarrow> 's coordinator \<Rightarrow> group_result option \<times> 's coordinator" where
  "resume_task E prefix now i t c =
     (case tk_stage t of
        Reclaim result \<Rightarrow> (Some result, end_task i (reclaim_slot (request_group (tk_request t)) (tk_slot t) c))
      | stg \<Rightarrow>
          (case run_section E prefix now (tk_request t) stg (cd_world c, cd_slots c (tk_slot t)) of
             (out, (w, st)) \<Rightarrow>
               let c = c\<lparr>cd_world := w, cd_slots := (cd_slots c)(tk_slot t := st)\<rparr>
               in case out of
                    Inl e \<Rightarrow> (Some (Inl e), end_task i c)
                  | Inr (Finish result) \<Rightarrow> (Some result, end_task i c)
                  | Inr (Continue stg) \<Rightarrow>
                      (None, c\<lparr>cd_tasks := bt_insert i (Task (tk_request t) (tk_slot t) stg) (cd_tasks c)\<rparr>)))"

text \<open>\<open>GroupCoordinator::fetch\<close> reads the store without the coordinator's state.\<close>

definition coordinator_fetch ::
  "('s, 'm) group_env_scheme \<Rightarrow> string \<Rightarrow> string \<Rightarrow> topic_partition list option \<Rightarrow> ('s, coordinator_error, fetched_offset list) io" where
  "coordinator_fetch E prefix gid selection = io_map_err StorageError (fetch_offsets E prefix gid selection)"

definition check_topic_partition :: "topic_partition \<Rightarrow> coordinator_error + unit" where
  "check_topic_partition key = map_err StorageError (validate_topic_partition key)"

section \<open>Interleaving\<close>

datatype coordinator_event = Internal | Reply group_request group_result

inductive coordinator_step ::
  "('s, 'm) group_env_scheme \<Rightarrow> string \<Rightarrow> 's coordinator \<Rightarrow> coordinator_event \<Rightarrow> 's coordinator \<Rightarrow> bool"
  for E :: "('s, 'm) group_env_scheme" and prefix where
  started: "start_request now req c = (Inr (), c') \<Longrightarrow> coordinator_step E prefix c Internal c'"
| refused: "start_request now req c = (Inl e, c') \<Longrightarrow> coordinator_step E prefix c (Reply req (Inl e)) c'"
| resumed: "bt_get (cd_tasks c) i = Some t \<Longrightarrow> resume_task E prefix now i t c = (None, c') \<Longrightarrow>
    coordinator_step E prefix c Internal c'"
| replied: "bt_get (cd_tasks c) i = Some t \<Longrightarrow> resume_task E prefix now i t c = (Some result, c') \<Longrightarrow>
    coordinator_step E prefix c (Reply (tk_request t) result) c'"
| dropped: "coordinator_step E prefix c Internal (end_task i c)"
| outside: "coordinator_step E prefix c Internal (c\<lparr>cd_world := w\<rparr>)"

inductive coordinator_reachable :: "('s, 'm) group_env_scheme \<Rightarrow> string \<Rightarrow> 's coordinator \<Rightarrow> bool"
  for E :: "('s, 'm) group_env_scheme" and prefix where
  initial: "coordinator_reachable E prefix (coordinator_new w)"
| later: "coordinator_reachable E prefix c \<Longrightarrow> coordinator_step E prefix c event c' \<Longrightarrow> coordinator_reachable E prefix c'"

inductive_cases coordinator_stepE: "coordinator_step E prefix c event c'"

end
