(* ===== verification/Group_Member_Laws.thy ===== *)
theory Group_Member_Laws
  imports Group_State_Laws Coordinator
begin

text \<open>
  The actions of single members keep the group's invariant: entering or re-entering a group under
  the size and protocol checks of a join, installing the leader's assignments, refreshing a
  session, leaving.
\<close>

section \<open>Updates in place\<close>

lemma bt_insert_present:
  "bt_inv m \<Longrightarrow> bt_get m k = Some v \<Longrightarrow> bt_insert k (f v) m = bt_map (\<lambda>k' v'. if k' = k then f v' else v') m"
proof (induction m)
  case (Cons e m)
  obtain k' v' where e: "e = (k', v')" by force
  have above: "\<forall>x \<in> fst ` set m. k' < x" and inv: "bt_inv m" using Cons.prems(1) e by (auto simp: bt_inv_def)
  show ?case
  proof (cases "k = k'")
    case True
    have "map (\<lambda>(ka, va). (ka, if ka = k' then f va else va)) m = m"
      by (rule map_idI) (use above in force)
    with True e Cons.prems show ?thesis by (simp add: bt_map_def bt_get_def)
  next
    case False
    then have get: "bt_get m k = Some v" using Cons.prems e by (simp add: bt_get_def)
    then have "k \<in> fst ` set m" by (force simp: bt_get_def dest: map_of_SomeD)
    with above have "\<not> k < k'" by force
    with False e Cons.IH [OF inv get] show ?thesis by (simp add: bt_map_def)
  qed
qed (simp add: bt_get_def)

text \<open>What an update must leave alone.\<close>

definition session_only :: "(string \<Rightarrow> member_state \<Rightarrow> member_state) \<Rightarrow> bool" where
  "session_only f \<longleftrightarrow>
     (\<forall>k m. ms_protocols (f k m) = ms_protocols m \<and> ms_session_timeout (f k m) = ms_session_timeout m
        \<and> ms_rebalance_timeout (f k m) = ms_rebalance_timeout m \<and> ms_joined_rebalance (f k m) = ms_joined_rebalance m
        \<and> ms_join_result (f k m) = ms_join_result m)"

lemma metadata_for_cong: "ms_protocols m = ms_protocols m' \<Longrightarrow> metadata_for name m = metadata_for name m'"
  by (simp add: metadata_for_def)

lemma member_view_map: "session_only f \<Longrightarrow> member_view name (bt_map f ms) = member_view name ms"
  unfolding member_view_def bt_map_def session_only_def by (auto simp: metadata_for_def)

lemma agreed_map:
  assumes "agreed b gs" "session_only f"
  shows "agreed b (gs\<lparr>gs_members := bt_map f (gs_members gs)\<rparr>)"
proof -
  have same: "told r g name l ms (case e of (k, m) \<Rightarrow> (k, f k m)) = told r g name l ms e" for r g name l ms e
    using assms(2) by (cases e) (simp add: told_def session_only_def)
  from assms(1) obtain name leader members where "gs_protocol_name gs = Some name"
    "\<forall>e \<in> set (gs_members gs). told (gs_rebalance_id gs) (gs_generation_id gs) name leader members e"
    "b \<longrightarrow> leader = gs_leader_id gs \<and> members = member_view name (gs_members gs)"
    by (auto simp: agreed_def)
  then show ?thesis
    unfolding agreed_def by (intro exI [of _ name] exI [of _ leader] exI [of _ members])
      (simp add: member_view_map [OF assms(2)], simp add: bt_map_def same)
qed

lemma core_ok_session:
  assumes "core_ok gs" "session_only f" shows "core_ok (gs\<lparr>gs_members := bt_map f (gs_members gs)\<rparr>)"
  by (rule core_ok_map [of gs "gs_rebalance_id gs" "gs_generation_id gs" f])
    (use assms in \<open>auto simp: core_ok_def session_only_def\<close>)

lemma group_ok_session:
  assumes ok: "group_ok gs" and f: "session_only f" and same: "\<And>k m. ms_assignment (f k m) = ms_assignment m"
  shows "group_ok (gs\<lparr>gs_members := bt_map f (gs_members gs)\<rparr>)"
proof -
  let ?gs = "gs\<lparr>gs_members := bt_map f (gs_members gs)\<rparr>"
  have "phase_ok b gs \<Longrightarrow> phase_ok b ?gs" for b
    using agreed_map [of b gs, OF _ f] f same
    by (cases "gs_phase gs") (auto simp: phase_ok_def bt_map_values session_only_def, auto simp: bt_values_def)
  with ok core_ok_session [OF _ f] show ?thesis by (simp add: group_ok_def)
qed

lemma update_member_run:
  "bt_inv (gs_members gs) \<Longrightarrow> bt_contains (gs_members gs) k \<Longrightarrow>
   update_member k f gs = (Inr (), gs\<lparr>gs_members := bt_map (\<lambda>k' m. if k' = k then f m else m) (gs_members gs)\<rparr>)"
  by (auto simp: update_member_def bt_contains_def bt_insert_present)

abbreviation refreshed :: "nat \<Rightarrow> member_state \<Rightarrow> member_state" where
  "refreshed now m \<equiv> m\<lparr>ms_deadline := now + ms_session_timeout m\<rparr>"

lemma group_ok_inv: "group_ok gs \<Longrightarrow> bt_inv (gs_members gs)"
  by (simp add: group_ok_def core_ok_def)

lemma refresh_run:
  assumes "group_ok gs" "bt_contains (gs_members gs) k"
  obtains gs' where "update_member k (refreshed now) gs = (Inr (), gs')" "group_ok gs'"
    "gs' = gs\<lparr>gs_members := bt_map (\<lambda>k' m. if k' = k then refreshed now m else m) (gs_members gs)\<rparr>"
proof (rule that)
  show "update_member k (refreshed now) gs = (Inr (), gs\<lparr>gs_members := bt_map (\<lambda>k' m. if k' = k then refreshed now m else m) (gs_members gs)\<rparr>)"
    by (rule update_member_run [OF group_ok_inv assms(2)]) fact
  show "group_ok (gs\<lparr>gs_members := bt_map (\<lambda>k' m. if k' = k then refreshed now m else m) (gs_members gs)\<rparr>)"
    by (rule group_ok_session [OF assms(1)]) (auto simp: session_only_def)
qed simp

section \<open>Entering\<close>

lemma bt_insert_sum:
  "bt_inv m \<Longrightarrow> sum_list (map g (bt_insert k v m)) = (g (k, v) + sum_list (map g (filter (\<lambda>e. fst e \<noteq> k) m)) :: nat)"
proof (induction m)
  case (Cons e m)
  obtain k' v' where e: "e = (k', v')" by force
  have above: "\<forall>x \<in> set m. k' < fst x" and inv: "bt_inv m" using Cons.prems e by (auto simp: bt_inv_def)
  have all: "filter (\<lambda>e. fst e \<noteq> k) m = m" if "k \<le> k'" using above that by (intro filter_True) fastforce
  show ?case
    using Cons.IH [OF inv] all by (cases k k' rule: linorder_cases) (auto simp: e)
qed simp

lemma bt_insert_length: "length (bt_insert k v m) \<le> Suc (length m)"
  by (induction k v m rule: bt_insert.induct) auto

lemma bt_insert_set_eq:
  assumes "bt_inv m" shows "set (bt_insert k v m) = insert (k, v) {e \<in> set m. fst e \<noteq> k}"
proof -
  have "e \<in> set (bt_insert k v m) \<longleftrightarrow> e = (k, v) \<or> e \<in> set m \<and> fst e \<noteq> k" for e
    using bt_get_set [OF bt_inv_insert [OF assms], of k v "fst e" "snd e"] bt_get_set [OF assms, of "fst e" "snd e"]
      bt_get_insert [OF assms, of k v] by (cases e; cases "fst e = k") auto
  then show ?thesis by blast
qed

text \<open>There is room for a candidate: the metadata of the group with it fits, and a protocol is common to all.\<close>

definition room_for :: "string \<Rightarrow> join_protocol list \<Rightarrow> (string, member_state) btree_map \<Rightarrow> bool" where
  "room_for k ps ms \<longleftrightarrow>
     protocols_size ps + members_size (filter (\<lambda>e. fst e \<noteq> k) ms) \<le> MAX_GROUP_PROTOCOL_BYTES
   \<and> (\<exists>name. offers ps name \<and> (\<forall>e \<in> set ms. fst e \<noteq> k \<longrightarrow> offers (ms_protocols (snd e)) name))"

lemma room_for_map:
  assumes "room_for k ps ms" "\<And>k m. ms_protocols (f k m) = ms_protocols m" shows "room_for k ps (bt_map f ms)"
proof -
  have "filter (\<lambda>e. fst e \<noteq> k) (bt_map f ms) = bt_map f (filter (\<lambda>e. fst e \<noteq> k) ms)"
    by (simp add: bt_map_def filter_map comp_def case_prod_unfold)
  then have "members_size (filter (\<lambda>e. fst e \<noteq> k) (bt_map f ms)) = members_size (filter (\<lambda>e. fst e \<noteq> k) ms)"
    by (simp add: members_size_map assms(2))
  moreover have "(\<forall>e \<in> set (bt_map f ms). fst e \<noteq> k \<longrightarrow> offers (ms_protocols (snd e)) name)
      \<longleftrightarrow> (\<forall>e \<in> set ms. fst e \<noteq> k \<longrightarrow> offers (ms_protocols (snd e)) name)" for name
    by (simp add: bt_map_def case_prod_unfold assms(2))
  ultimately show ?thesis using assms(1) by (simp add: room_for_def)
qed

lemma add_lengths_Some: "add_lengths n a b = Some k \<longleftrightarrow> k = n + length a + length b \<and> k \<le> u64_max"
  by (auto simp: add_lengths_def split: option.splits)

lemma protocol_bytes_from_Some:
  "protocol_bytes_from n ps = Some k \<Longrightarrow> k = n + protocols_size ps"
proof (induction ps arbitrary: n)
  case (Cons p ps)
  from Cons.prems have "protocol_bytes_from (n + length (jp_name p) + length (jp_metadata p)) ps = Some k"
    by (auto simp: add_lengths_Some split: option.splits)
  from Cons.IH [OF this] show ?case by (simp add: protocols_size_def)
qed (simp add: protocols_size_def)

lemma protocol_bytes_Some: "protocol_bytes ps = Some k \<Longrightarrow> k = protocols_size ps"
  by (auto simp: protocol_bytes_def dest: protocol_bytes_from_Some)

lemma budget_from_ok:
  "budget_from c n ms = Inr () \<Longrightarrow> n \<le> MAX_GROUP_PROTOCOL_BYTES \<Longrightarrow>
   n + members_size (filter (\<lambda>e. fst e \<noteq> c) ms) \<le> MAX_GROUP_PROTOCOL_BYTES"
proof (induction ms arbitrary: n)
  case (Cons e ms)
  obtain k m where e: "e = (k, m)" by force
  show ?case
  proof (cases "k = c")
    case False
    with Cons.prems e have "budget_from c (n + protocols_size (ms_protocols m)) ms = Inr ()"
      "n + protocols_size (ms_protocols m) \<le> MAX_GROUP_PROTOCOL_BYTES"
      by (auto simp: result_simps dest!: protocol_bytes_Some split: if_splits)
    from Cons.IH [OF this] False e show ?thesis by (simp add: members_size_def)
  qed (use Cons e in simp)
qed (simp add: members_size_def)

lemma validate_protocols_from_size:
  "validate_protocols_from names n ps = Inr () \<Longrightarrow> n \<le> MAX_MEMBER_PROTOCOL_BYTES \<Longrightarrow> n + protocols_size ps \<le> MAX_MEMBER_PROTOCOL_BYTES"
  by (induction names n ps rule: validate_protocols_from.induct)
    (auto simp: result_simps protocols_size_def add_lengths_Some split: if_splits)

lemma validate_protocols_size:
  "validate_protocols t ps = Inr () \<Longrightarrow> ps \<noteq> [] \<and> t = CONSUMER_PROTOCOL_TYPE \<and> protocols_size ps \<le> MAX_GROUP_PROTOCOL_BYTES"
  using validate_protocols_from_size [of "{}" 0 ps]
  by (auto simp: validate_protocols_def MAX_MEMBER_PROTOCOL_BYTES_def MAX_GROUP_PROTOCOL_BYTES_def split: if_splits)

lemma checks_room:
  assumes ok: "group_ok gs" and fit: "protocols_compatible gs k ps" "validate_group_protocol_budget gs k ps = Inr ()"
    and small: "protocols_size ps \<le> MAX_GROUP_PROTOCOL_BYTES"
  shows "room_for k ps (gs_members gs)"
proof -
  from fit(2) have "budget_from k (protocols_size ps) (gs_members gs) = Inr ()"
    by (auto simp: validate_group_protocol_budget_def result_simps dest: protocol_bytes_Some)
  from budget_from_ok [OF this small] have "protocols_size ps + members_size (filter (\<lambda>e. fst e \<noteq> k) (gs_members gs)) \<le> MAX_GROUP_PROTOCOL_BYTES" .
  moreover from fit(1) obtain name where "offers ps name"
    "\<forall>(k', m) \<in> set (gs_members gs). offers (if k' = k then ps else ms_protocols m) name"
    unfolding protocols_compatible_def Let_def list_ex_iff list_all_iff by blast
  then have "\<exists>name. offers ps name \<and> (\<forall>e \<in> set (gs_members gs). fst e \<noteq> k \<longrightarrow> offers (ms_protocols (snd e)) name)"
    by (intro exI [of _ name]) fastforce
  ultimately show ?thesis by (simp add: room_for_def)
qed

text \<open>A member as a join leaves it.\<close>

definition fresh_member :: "nat \<Rightarrow> join_protocol list \<Rightarrow> member_state \<Rightarrow> bool" where
  "fresh_member rebalance ps m \<longleftrightarrow>
     member_ok rebalance m \<and> ms_protocols m = ps \<and> ms_assignment m = None \<and> ms_join_result m = None
   \<and> ms_joined_rebalance m = rebalance"

lemma entered_ok:
  assumes ok: "group_ok gs" and joining: "gs_phase gs = Joining" and room: "room_for k ps (gs_members gs)"
    and k: "k \<noteq> []" "length (bt_insert k m (gs_members gs)) \<le> MAX_GROUP_MEMBERS" and m: "fresh_member (gs_rebalance_id gs) ps m"
  shows "group_ok (gs\<lparr>gs_members := bt_insert k m (gs_members gs)\<rparr>)"
proof -
  let ?ms = "gs_members gs"
  let ?gs = "gs\<lparr>gs_members := bt_insert k m ?ms\<rparr>"
  have inv: "bt_inv ?ms" and core: "core_ok gs" using ok by (auto simp: group_ok_def core_ok_def)
  note new = bt_insert_set_eq [OF inv, of k m]
  have vs: "set (bt_values (bt_insert k m ?ms)) \<subseteq> insert m (set (bt_values ?ms))"
    unfolding bt_values_def set_map new by auto
  have ks: "set (bt_keys (bt_insert k m ?ms)) = insert k (set (bt_keys ?ms))"
    using bt_keys_insert [of k m ?ms] by (simp add: bt_keys_def)
  have "members_size (bt_insert k m ?ms) = protocols_size ps + members_size (filter (\<lambda>e. fst e \<noteq> k) ?ms)"
    using bt_insert_sum [OF inv, of "\<lambda>(_, m). protocols_size (ms_protocols m)" k m] m
    by (simp add: members_size_def fresh_member_def)
  moreover obtain name where "offers ps name" "\<forall>e \<in> set ?ms. fst e \<noteq> k \<longrightarrow> offers (ms_protocols (snd e)) name"
    using room by (auto simp: room_for_def)
  then have "\<forall>m' \<in> set (bt_values (bt_insert k m ?ms)). offers (ms_protocols m') name"
    unfolding bt_values_def set_map new using m by (auto simp: fresh_member_def)
  moreover have "\<forall>m' \<in> set (bt_values (bt_insert k m ?ms)). member_ok (gs_rebalance_id gs) m'"
    using vs m core by (auto simp: core_ok_def fresh_member_def)
  ultimately have "core_ok ?gs"
    using core k room ks by (auto simp: core_ok_def room_for_def)
  moreover have "phase_ok b ?gs" for b
    using ok joining vs m by (auto simp: group_ok_def phase_ok_def fresh_member_def)
  moreover have "bt_contains (bt_insert k m ?ms) (gs_leader_id gs)"
    using ok ks by (simp add: group_ok_def bt_contains_keys)
  ultimately show ?thesis by (simp add: group_ok_def)
qed

lemma ensure_joining_run:
  assumes ok: "group_ok gs" and run: "ensure_joining now gs = (r, gs')"
  shows "group_ok gs' \<and> (case r of Inl e \<Rightarrow> e = Kafka UnknownServerError
    | Inr _ \<Rightarrow> gs_phase gs' = Joining \<and> bt_keys (gs_members gs') = bt_keys (gs_members gs)
        \<and> (room_for k ps (gs_members gs) \<longrightarrow> room_for k ps (gs_members gs')))"
proof (cases "gs_phase gs = Joining")
  case True
  with ok run show ?thesis by (auto simp: ensure_joining_def)
next
  case False
  with run have "start_rebalance now gs = (r, gs')" by (simp add: ensure_joining_def)
  from start_rebalance_run [OF group_ok_led [OF ok] this] show ?thesis
    using room_for_map [of k ps "gs_members gs"] by (auto split: sum.splits)
qed

lemma joined_member_fresh:
  "timeout_ok session \<Longrightarrow> timeout_ok rebalance \<Longrightarrow> fresh_member r ps (joined_member now session rebalance ps r)"
  by (simp add: fresh_member_def joined_member_def member_ok_def)

lemma join_new_member_run:
  assumes ok: "group_ok gs" and room: "room_for [] ps (gs_members gs)" and space: "length (gs_members gs) < MAX_GROUP_MEMBERS"
    and k: "k \<noteq> []" and t: "timeout_ok session" "timeout_ok rebalance" and run: "join_new_member now session rebalance ps k gs = (r, gs')"
  shows "group_ok gs' \<and> (case r of Inl e \<Rightarrow> e = Kafka UnknownServerError
    | Inr _ \<Rightarrow> r = Inr k \<and> gs_phase gs' = Joining \<and> bt_contains (gs_members gs') k)"
proof -
  obtain r1 g1 where e: "ensure_joining now gs = (r1, g1)" by force
  show ?thesis
  proof (cases r1)
    case (Inl err)
    with e run ensure_joining_run [OF ok e] show ?thesis by (auto simp: join_new_member_def io_bind_def)
  next
    case (Inr u)
    let ?m = "joined_member now session rebalance ps (gs_rebalance_id g1)"
    have r: "r = Inr k" and gs': "gs' = g1\<lparr>gs_members := bt_insert k ?m (gs_members g1)\<rparr>"
      using run e Inr by (auto simp: join_new_member_def io_bind_def)
    have g1: "group_ok g1" "gs_phase g1 = Joining" "bt_keys (gs_members g1) = bt_keys (gs_members gs)" "room_for [] ps (gs_members g1)"
      using ensure_joining_run [OF ok e, of "[]" ps] Inr room by auto
    have inv: "bt_inv (gs_members g1)" using g1(1) by (rule group_ok_inv)
    have "length (bt_insert k ?m (gs_members g1)) \<le> Suc (length (gs_members g1))" by (rule bt_insert_length)
    moreover have "length (gs_members g1) = length (gs_members gs)" using g1(3) by (metis bt_keys_def length_map)
    moreover have "members_size (filter (\<lambda>e. fst e \<noteq> k) (gs_members g1)) \<le> members_size (filter (\<lambda>e. fst e \<noteq> []) (gs_members g1))"
    proof -
      have "filter (\<lambda>e. fst e \<noteq> []) (gs_members g1) = gs_members g1"
        using g1(1) by (intro filter_True) (auto simp: group_ok_def core_ok_def bt_keys_def image_iff)
      then show ?thesis by (simp add: members_size_def sum_list_filter_nat)
    qed
    then have "room_for k ps (gs_members g1)"
      using g1(1,4) by (auto simp: room_for_def group_ok_def core_ok_def bt_keys_def image_iff) (metis prod.collapse)
    ultimately have "group_ok gs'"
      using entered_ok [OF g1(1,2) _ k _ joined_member_fresh [OF t]] space gs' by simp
    moreover have "bt_contains (gs_members gs') k"
      by (simp add: gs' bt_contains_def bt_get_insert [OF inv])
    ultimately show ?thesis using r g1(2) by (simp add: gs')
  qed
qed

lemma rejoin_member_run:
  assumes ok: "group_ok gs" and room: "room_for k ps (gs_members gs)" and k: "bt_contains (gs_members gs) k"
    and t: "timeout_ok session" "timeout_ok rebalance" and run: "rejoin_member now session rebalance ps k gs = (r, gs')"
  shows "group_ok gs' \<and> (case r of Inl e \<Rightarrow> e = Kafka UnknownServerError
    | Inr _ \<Rightarrow> r = Inr k \<and> gs_phase gs' = Joining \<and> bt_contains (gs_members gs') k)"
proof -
  obtain r1 g1 where e: "ensure_joining now gs = (r1, g1)" by force
  show ?thesis
  proof (cases r1)
    case (Inl err)
    with e run ensure_joining_run [OF ok e] show ?thesis by (auto simp: rejoin_member_def io_bind_def)
  next
    case (Inr u)
    have g1: "group_ok g1" "gs_phase g1 = Joining" "bt_keys (gs_members g1) = bt_keys (gs_members gs)" "room_for k ps (gs_members g1)"
      using ensure_joining_run [OF ok e, of k ps] Inr room by auto
    have inv: "bt_inv (gs_members g1)" using g1(1) by (rule group_ok_inv)
    obtain m where m: "bt_get (gs_members g1) k = Some m" using k g1(3) by (metis bt_contains_def bt_contains_keys not_None_eq)
    let ?m = "m\<lparr>ms_protocols := ps, ms_assignment := None, ms_session_timeout := session,
         ms_rebalance_timeout := rebalance, ms_deadline := now + session, ms_joined_rebalance := gs_rebalance_id g1, ms_join_result := None\<rparr>"
    have r: "r = Inr k" and gs': "gs' = g1\<lparr>gs_members := bt_insert k ?m (gs_members g1)\<rparr>"
      using run e Inr m by (auto simp: rejoin_member_def io_bind_def update_member_def)
    have "bt_insert k ?m (gs_members g1) = bt_map (\<lambda>k' m'. if k' = k then ?m else m') (gs_members g1)"
      using bt_insert_present [OF inv m, of "\<lambda>_. ?m"] by simp
    then have "length (bt_insert k ?m (gs_members g1)) \<le> MAX_GROUP_MEMBERS"
      using g1(1) by (simp add: group_ok_def core_ok_def)
    moreover have "k \<noteq> []" using k ok by (auto simp: group_ok_def core_ok_def bt_contains_keys)
    moreover have "fresh_member (gs_rebalance_id g1) ps ?m" using t by (simp add: fresh_member_def member_ok_def)
    ultimately have "group_ok gs'" using entered_ok [OF g1(1,2,4)] gs' by simp
    moreover have "bt_contains (gs_members gs') k"
      by (simp add: gs' bt_contains_def bt_get_insert [OF inv])
    ultimately show ?thesis using r g1(2) by (simp add: gs')
  qed
qed

end
