(* ===== verification/Coordinator_Laws.thy ===== *)
theory Coordinator_Laws
  imports Group_Member_Laws
begin

text \<open>
  Every critical section of the coordinator keeps the invariant of the group it works on and
  never panics. \<open>safe\<close> is the triple of a computation: from the precondition, a result satisfies
  the postcondition, an error leaves the invariant, and no error is a panic.
\<close>

section \<open>Sync\<close>

lemma bt_get_Nil [simp]: "bt_get [] = Map.empty"
  by (rule ext) (simp add: bt_get_def)

lemma bt_of_list_run:
  "bt_inv (bt_of_list es) \<and> bt_get (bt_of_list es) = map_of (rev es)"
  using bt.fold_ins [OF bt.inv_empty, of es] by (simp add: bt_of_list_def)

lemma bt_distinct: "bt_inv m \<Longrightarrow> distinct (bt_keys m)"
  by (simp add: bt_inv_def bt_keys_def strict_sorted_iff)

text \<open>Accepted assignments name every member exactly once.\<close>

lemma exact_assignments_Inr:
  assumes inv: "bt_inv (gs_members gs)" and run: "exact_assignments gs assignments = Inr installed"
  shows "bt_inv installed" and "bt_keys installed = bt_keys (gs_members gs)" and "distinct (map sa_member_id assignments)"
    and "bt_get installed = map_of (map (\<lambda>a. (sa_member_id a, sa_assignment a)) assignments)"
    and "set (map sa_member_id assignments) = set (bt_keys (gs_members gs))"
proof -
  let ?es = "map (\<lambda>a. (sa_member_id a, sa_assignment a)) assignments"
  from run have inst: "installed = bt_of_list ?es" and len: "length assignments = length (gs_members gs)"
    "length installed = length assignments" and sub: "set (bt_keys installed) \<subseteq> set (bt_keys (gs_members gs))"
    by (auto simp: exact_assignments_def Let_def list_ex_iff bt_contains_keys split: if_splits)
  show i: "bt_inv installed" using bt_of_list_run inst by blast
  have ids: "set (bt_keys installed) = set (map sa_member_id assignments)"
  proof -
    have "bt_contains installed k \<longleftrightarrow> k \<in> set (map sa_member_id assignments)" for k
      using bt_of_list_run [of ?es] unfolding inst bt_contains_def
      by (simp add: map_of_eq_None_iff image_iff)
    then show ?thesis unfolding bt_contains_keys by blast
  qed
  have d: "distinct (bt_keys installed)" "distinct (bt_keys (gs_members gs))" using bt_distinct i inv by auto
  have lengths: "length (bt_keys installed) = length (bt_keys (gs_members gs))" using len by (simp add: bt_keys_def)
  have same: "set (bt_keys installed) = set (bt_keys (gs_members gs))"
    using sub lengths d by (intro card_subset_eq) (simp_all add: distinct_card)
  with ids show "set (map sa_member_id assignments) = set (bt_keys (gs_members gs))" by simp
  show "bt_keys installed = bt_keys (gs_members gs)"
    using strict_sorted_equal [OF _ _ same [symmetric]] i inv by (simp add: bt_inv_def bt_keys_def)
  have "card (set (map sa_member_id assignments)) = length (map sa_member_id assignments)"
    using ids d(1) len by (metis bt_keys_def distinct_card length_map)
  then show dist: "distinct (map sa_member_id assignments)" by (rule card_distinct)
  have "map_of (rev ?es) = map_of ?es"
    using dist by (intro map_of_inject_set [THEN iffD2]) (simp_all add: comp_def flip: rev_map)
  then show "bt_get installed = map_of ?es" using bt_of_list_run [of ?es] inst by simp
qed

definition installed_member :: "nat \<Rightarrow> (string \<times> bytes) list \<Rightarrow> string \<Rightarrow> member_state \<Rightarrow> member_state" where
  "installed_member now es k m =
     (case map_of es k of None \<Rightarrow> m
      | Some a \<Rightarrow> m\<lparr>ms_assignment := Some a, ms_deadline := now + ms_session_timeout m\<rparr>)"

lemma bt_map_map: "bt_map f (bt_map g m) = bt_map (\<lambda>k v. f k (g k v)) m"
  by (simp add: bt_map_def comp_def case_prod_unfold)

lemma install_assignments_run:
  "bt_inv (gs_members gs) \<Longrightarrow> distinct (map fst es) \<Longrightarrow> set (map fst es) \<subseteq> set (bt_keys (gs_members gs)) \<Longrightarrow>
   install_assignments now es gs = (Inr (), gs\<lparr>gs_members := bt_map (installed_member now es) (gs_members gs)\<rparr>)"
proof (induction es arbitrary: gs)
  case Nil
  then show ?case by (simp add: installed_member_def bt_map_def)
next
  case (Cons e es)
  obtain k a where e: "e = (k, a)" by force
  let ?f = "\<lambda>m :: member_state. m\<lparr>ms_assignment := Some a, ms_deadline := now + ms_session_timeout m\<rparr>"
  let ?gs = "gs\<lparr>gs_members := bt_map (\<lambda>k' m. if k' = k then ?f m else m) (gs_members gs)\<rparr>"
  have "update_member k ?f gs = (Inr (), ?gs)"
    by (rule update_member_run) (use Cons.prems e in \<open>auto simp: bt_contains_keys\<close>)
  moreover have "install_assignments now es ?gs = (Inr (), ?gs\<lparr>gs_members := bt_map (installed_member now es) (gs_members ?gs)\<rparr>)"
    by (rule Cons.IH) (use Cons.prems in auto)
  moreover have "installed_member now es k' (if k' = k then ?f m else m) = installed_member now (e # es) k' m" for k' m
    using Cons.prems(2) e by (auto simp: installed_member_def map_of_eq_None_iff [THEN iffD2])
  ultimately show ?case by (simp add: e io_bind_def bt_map_map)
qed

lemma session_only_installed: "session_only (installed_member now es)"
  by (auto simp: session_only_def installed_member_def split: option.splits)

lemma phase_irrelevant [simp]:
  "core_ok (gs\<lparr>gs_phase := p\<rparr>) = core_ok gs" "agreed b (gs\<lparr>gs_phase := p\<rparr>) = agreed b gs"
  by (simp_all add: core_ok_def agreed_def)

text \<open>The group after the leader's assignments are installed.\<close>

lemma installed_ok:
  assumes ok: "group_ok gs" and phase: "gs_phase gs \<noteq> Joining" and keys: "set (map fst es) = set (bt_keys (gs_members gs))"
  shows "group_ok (gs\<lparr>gs_members := bt_map (installed_member now es) (gs_members gs), gs_phase := Stable\<rparr>)"
proof -
  let ?m = "gs\<lparr>gs_members := bt_map (installed_member now es) (gs_members gs)\<rparr>"
  have core: "core_ok ?m" and leader: "bt_contains (gs_members gs) (gs_leader_id gs)"
    using ok core_ok_session [OF _ session_only_installed] by (auto simp: group_ok_def)
  have "agreed (gs_rebalance_id gs < u64_max) gs" using ok phase by (cases "gs_phase gs") (auto simp: group_ok_def phase_ok_def)
  from agreed_map [OF this session_only_installed] have agr: "agreed (gs_rebalance_id gs < u64_max) ?m" .
  have "\<forall>m \<in> set (bt_values (gs_members ?m)). ms_assignment m \<noteq> None"
  proof
    fix m assume "m \<in> set (bt_values (gs_members ?m))"
    then obtain k m' where km: "(k, m') \<in> set (gs_members gs)" "m = installed_member now es k m'" by (auto simp: bt_map_values)
    then have "k \<in> set (map fst es)" unfolding keys by (force simp: bt_keys_def)
    then obtain a where "map_of es k = Some a" by (metis map_of_eq_None_iff not_None_eq set_map)
    with km show "ms_assignment m \<noteq> None" by (simp add: installed_member_def)
  qed
  with core leader agr show ?thesis
    by (simp add: group_ok_def phase_ok_def)
qed

lemma sync_submit_run:
  assumes ok: "group_ok gs" and k: "bt_contains (gs_members gs) k" and phase: "gs_phase gs \<noteq> Joining"
    and run: "sync_submit now k assignments gs = (r, gs')"
  shows "group_ok gs' \<and>
    (case r of Inl e \<Rightarrow> e = Kafka InvalidRequest | Inr _ \<Rightarrow> bt_contains (gs_members gs') k \<and> gs_phase gs' \<noteq> Joining)"
proof -
  have inv: "bt_inv (gs_members gs)" using ok by (rule group_ok_inv)
  have finish: "group_ok gs' \<and> r = Inr () \<and> bt_contains (gs_members gs') k \<and> gs_phase gs' \<noteq> Joining"
    if u: "update_member k (refreshed now) g = (r, gs')" "group_ok g" "bt_contains (gs_members g) k" "gs_phase g \<noteq> Joining" for g
  proof -
    obtain g' where g': "update_member k (refreshed now) g = (Inr (), g')" "group_ok g'"
      "g' = g\<lparr>gs_members := bt_map (\<lambda>k' m. if k' = k then refreshed now m else m) (gs_members g)\<rparr>"
      using refresh_run [OF u(2,3), of now] .
    have "bt_contains (gs_members g') k \<and> gs_phase g' = gs_phase g" using u(3) by (simp add: g'(3))
    with u(1,4) g'(1,2) show ?thesis by auto
  qed
  show ?thesis
  proof (cases "gs_phase gs = AwaitingSync \<and> gs_leader_id gs = k")
    case True
    show ?thesis
    proof (cases "exact_assignments gs assignments")
      case (Inl e)
      then have "e = Kafka InvalidRequest" by (auto simp: exact_assignments_def Let_def split: if_splits)
      with Inl True ok run show ?thesis by (auto simp: sync_submit_def io_bind_def)
    next
      case (Inr installed)
      note exact = exact_assignments_Inr [OF inv Inr]
      let ?g = "gs\<lparr>gs_members := bt_map (installed_member now installed) (gs_members gs), gs_phase := Stable\<rparr>"
      have "install_assignments now installed gs = (Inr (), gs\<lparr>gs_members := bt_map (installed_member now installed) (gs_members gs)\<rparr>)"
        using bt_distinct [OF exact(1)] exact(2) by (intro install_assignments_run [OF inv]) (auto simp: bt_keys_def)
      then have upd: "update_member k (refreshed now) ?g = (r, gs')"
        using run True Inr by (simp add: sync_submit_def io_bind_def)
      have "group_ok ?g" by (rule installed_ok [OF ok phase]) (use exact(2) in \<open>simp add: bt_keys_def flip: set_map\<close>)
      from finish [OF upd this] k show ?thesis by auto
    qed
  next
    case False
    have "gs' = gs \<and> r = Inl (Kafka InvalidRequest) \<or> update_member k (refreshed now) gs = (r, gs')"
      using run False phase
      by (cases "gs_phase gs")
        (auto simp: sync_submit_def Let_def io_bind_def exact_assignments_def split: if_splits)
    with finish [OF _ ok k phase] ok show ?thesis by auto
  qed
qed

section \<open>Leaving\<close>

lemma member_left_run:
  assumes core: "core_ok gs" and phase: "phase_ok False gs" and ne: "gs_members gs \<noteq> []"
    and leader: "gs_leader_id gs = k \<or> bt_contains (gs_members gs) (gs_leader_id gs)"
    and run: "member_left now k gs = (r, gs')"
  shows "group_ok gs' \<and> (\<forall>e. r = Inl e \<longrightarrow> e = Kafka UnknownServerError)"
proof -
  obtain k' v rest where ms: "gs_members gs = (k', v) # rest" using ne by (cases "gs_members gs") auto
  let ?l = "if gs_leader_id gs = k then k' else gs_leader_id gs"
  let ?g = "gs\<lparr>gs_leader_id := ?l\<rparr>"
  have led: "led_ok ?g" using core phase leader ms by (auto simp: led_ok_def bt_contains_def bt_get_def)
  have "member_left now k gs = (if gs_phase gs = Joining
      then if all_joined gs then finalize_rebalance now ?g else (Inr (), ?g) else start_rebalance now ?g)"
    using ms by (simp add: member_left_def io_bind_def bt_keys_def)
  moreover have "all_joined ?g = all_joined gs" by (simp add: all_joined_def)
  ultimately consider "gs_phase ?g = Joining" "all_joined ?g" "finalize_rebalance now ?g = (r, gs')"
    | "gs_phase ?g = Joining" "r = Inr ()" "gs' = ?g" | "start_rebalance now ?g = (r, gs')"
    using run by (auto split: if_splits)
  then show ?thesis
  proof cases
    case 1
    from finalize_rebalance_run [OF led 1] show ?thesis by auto
  next
    case 2
    with led_ok_joining [OF led] show ?thesis by simp
  next
    case 3
    from start_rebalance_run [OF led 3] show ?thesis by auto
  qed
qed

section \<open>Triples\<close>

fun panics :: "coordinator_error \<Rightarrow> bool" where
  "panics (Panic _) = True"
| "panics _ = False"

definition safe ::
  "('s \<Rightarrow> bool) \<Rightarrow> ('s, coordinator_error, 'a) io \<Rightarrow> ('a \<Rightarrow> 's \<Rightarrow> bool) \<Rightarrow> ('s \<Rightarrow> bool) \<Rightarrow> bool" where
  "safe P m Q I \<longleftrightarrow>
     (\<forall>s r t. P s \<longrightarrow> m s = (r, t) \<longrightarrow> (case r of Inr x \<Rightarrow> Q x t | Inl e \<Rightarrow> I t \<and> \<not> panics e))"

named_theorems safe_rules \<open>structural rules for triples\<close>

lemma safe_bind: "safe P m Q' I \<Longrightarrow> (\<And>x. safe (Q' x) (k x) Q I) \<Longrightarrow> safe P (io_bind m k) Q I"
  unfolding safe_def io_bind_def by (fastforce split: prod.splits sum.splits)

lemma safe_pre: "safe P' m Q I \<Longrightarrow> (\<And>s. P s \<Longrightarrow> P' s) \<Longrightarrow> safe P m Q I"
  unfolding safe_def by blast

lemma safe_ret [safe_rules]: "(\<And>s. P s \<Longrightarrow> Q x s) \<Longrightarrow> safe P (io_ret x) Q I"
  by (simp add: safe_def)

lemma safe_err [safe_rules]: "(\<And>s. P s \<Longrightarrow> I s) \<Longrightarrow> \<not> panics e \<Longrightarrow> safe P (io_err e) Q I"
  by (simp add: safe_def)

lemma safe_get [safe_rules]: "safe P io_get (\<lambda>x s. x = s \<and> P s) I"
  by (simp add: safe_def)

lemma safe_put [safe_rules]: "(\<And>s. P s \<Longrightarrow> Q () s') \<Longrightarrow> safe P (io_put s') Q I"
  by (simp add: safe_def)

lemma safe_snd [safe_rules]:
  "safe P m Q I \<Longrightarrow> safe (\<lambda>s. P (snd s)) (io_snd m) (\<lambda>x s. Q x (snd s)) (\<lambda>s. I (snd s))"
  unfolding safe_def by (auto simp: result_simps split: sum.splits)

lemma safe_run: "safe P m Q I \<Longrightarrow> P s \<Longrightarrow> m s = (r, t) \<Longrightarrow> (case r of Inr x \<Rightarrow> Q x t | Inl e \<Rightarrow> I t \<and> \<not> panics e)"
  unfolding safe_def by blast

lemma safe_try:
  fixes m :: "('s, coordinator_error, 'a) io"
  assumes "safe P m Q I"
  shows "safe P (io_try m) (\<lambda>r s. case r of Inl e \<Rightarrow> I s \<and> \<not> panics e | Inr x \<Rightarrow> Q x s) I'"
  unfolding safe_def
proof (intro allI impI)
  fix s t and r :: "coordinator_error + (coordinator_error + 'a)"
  assume "P s" and run: "io_try m s = (r, t)"
  obtain x u where "m s = (x, u)" by force
  with safe_run [OF assms \<open>P s\<close>] run
  show "case r of Inl e \<Rightarrow> I' t \<and> \<not> panics e | Inr x \<Rightarrow> (case x of Inl e \<Rightarrow> I t \<and> \<not> panics e | Inr x \<Rightarrow> Q x t)"
    by (auto simp: io_try_def)
qed

lemma safe_advance: "safe slot_ok (advance_group now) (\<lambda>_. slot_ok) slot_ok"
  using advance_group_keeps [of _ now] by (fastforce simp: safe_def keeps_group_def split: sum.splits)

lemma active_group_Inr:
  "active_group g k st = Inr gs \<longleftrightarrow> st = Some gs \<and> bt_contains (gs_members gs) k \<and> gs_generation_id gs = g"
  by (auto simp: active_group_def split: option.splits if_splits)

lemma active_group_Inl: "active_group g k st = Inl e \<Longrightarrow> \<not> panics e"
  by (auto simp: active_group_def split: option.splits if_splits)

lemma safe_lift:
  "(\<And>s e. P s \<Longrightarrow> r = Inl e \<Longrightarrow> I s \<and> \<not> panics e) \<Longrightarrow> (\<And>s x. P s \<Longrightarrow> r = Inr x \<Longrightarrow> Q x s) \<Longrightarrow> safe P (io_lift r) Q I"
  by (auto simp: safe_def split: sum.splits)

lemma safe_in_group:
  assumes "\<And>s. P s \<Longrightarrow> \<exists>gs. s = Some gs"
    and "\<And>gs r gs'. P (Some gs) \<Longrightarrow> m gs = (r, gs') \<Longrightarrow>
      (case r of Inr x \<Rightarrow> Q x (Some gs') | Inl e \<Rightarrow> I (Some gs') \<and> \<not> panics e)"
  shows "safe P (in_group m) Q I"
  unfolding safe_def
proof (intro allI impI)
  fix s r t assume P: "P s" and run: "in_group m s = (r, t)"
  obtain gs where s: "s = Some gs" using assms(1) [OF P] by blast
  obtain r' gs' where m: "m gs = (r', gs')" by force
  have "r = r'" "t = Some gs'" using run by (simp_all add: s m in_group_def)
  with assms(2) [OF _ m] P s show "case r of Inl e \<Rightarrow> I t \<and> \<not> panics e | Inr x \<Rightarrow> Q x t"
    by (cases r') simp_all
qed

text \<open>A result or stage that does not carry a panic and belongs to the request.\<close>

definition calm :: "group_result \<Rightarrow> bool" where
  "calm r \<longleftrightarrow> (\<forall>e. r = Inl e \<longrightarrow> \<not> panics e)"

fun stage_ok :: "group_request \<Rightarrow> stage \<Rightarrow> bool" where
  "stage_ok (JoinRequest _ _ _ _ _ _) stg =
     (case stg of JoinEnter \<Rightarrow> True | JoinSettle _ _ \<Rightarrow> True | JoinWait _ _ \<Rightarrow> True | _ \<Rightarrow> False)"
| "stage_ok (SyncRequest _ _ _ _) stg = (case stg of SyncWait _ \<Rightarrow> True | Reclaim r \<Rightarrow> calm r | _ \<Rightarrow> False)"
| "stage_ok _ stg = (case stg of Visit \<Rightarrow> True | Reclaim r \<Rightarrow> calm r | _ \<Rightarrow> False)"

definition progress_ok :: "group_request \<Rightarrow> progress \<Rightarrow> bool" where
  "progress_ok req p \<longleftrightarrow> (case p of Continue stg \<Rightarrow> stage_ok req stg | Finish r \<Rightarrow> calm r)"

definition ends_calmly :: "progress \<Rightarrow> bool" where
  "ends_calmly p \<longleftrightarrow> (case p of Continue (Reclaim r) \<Rightarrow> calm r | Finish r \<Rightarrow> calm r | _ \<Rightarrow> False)"

lemma ends_calmly_simps [simp]:
  "ends_calmly (Continue (Reclaim r)) = calm r" "ends_calmly (Finish r) = calm r"
  "calm (Inr x)" "calm (Inl e) = (\<not> panics e)"
  by (simp_all add: ends_calmly_def calm_def)

lemma safe_then_reclaim: "calm r \<Longrightarrow> safe slot_ok (then_reclaim r) (\<lambda>p st. slot_ok st \<and> ends_calmly p) slot_ok"
  by (simp add: safe_def then_reclaim_def)

section \<open>The sections\<close>

lemma sync_outcome_run:
  "group_ok gs \<Longrightarrow> bt_contains (gs_members gs) k \<Longrightarrow> sync_outcome k gs = (r, gs') \<Longrightarrow>
   gs' = gs \<and> (\<forall>e. r = Inl e \<longrightarrow> \<not> panics e)"
  by (auto simp: sync_outcome_def bt_contains_def split: option.splits if_splits)

lemma sync_poll_safe:
  "safe slot_ok (sync_poll now generation k assignments submitted) (\<lambda>p st. slot_ok st \<and> (ends_calmly p \<or> p = Continue (SyncWait True))) slot_ok"
  unfolding sync_poll_def
proof (rule safe_bind [OF safe_advance], rule safe_bind [OF safe_get])
  fix st
  let ?Q = "\<lambda>p st. slot_ok st \<and> (ends_calmly p \<or> p = Continue (SyncWait True))"
  let ?in = "\<lambda>s. \<exists>gs. s = Some gs \<and> group_ok gs \<and> bt_contains (gs_members gs) k"
  have rest: "safe (\<lambda>s. s = Some gs \<and> group_ok gs \<and> bt_contains (gs_members gs) k)
      (if gs_phase gs = Joining then io_err (Kafka RebalanceInProgress)
       else io_bind (if submitted then io_ret () else in_group (sync_submit now k assignments)) (\<lambda>_.
            io_bind (in_group (sync_outcome k)) (\<lambda>out.
              io_ret (case out of Some assignment \<Rightarrow> Finish (Inr (Synced assignment)) | None \<Rightarrow> Continue (SyncWait True))))) ?Q slot_ok" for gs
  proof (cases "gs_phase gs = Joining")
    case False
    have submit: "safe (\<lambda>s. s = Some gs \<and> group_ok gs \<and> bt_contains (gs_members gs) k)
        (if submitted then io_ret () else in_group (sync_submit now k assignments)) (\<lambda>_. ?in) slot_ok"
    proof (cases submitted)
      case False
      with \<open>gs_phase gs \<noteq> Joining\<close> show ?thesis
        using sync_submit_run [of gs k now assignments] by (auto intro!: safe_in_group split: sum.splits)
    qed (auto intro: safe_ret)
    have outcome: "safe ?in (in_group (sync_outcome k)) (\<lambda>_. slot_ok) slot_ok"
      by (rule safe_in_group) (use sync_outcome_run in \<open>fastforce split: sum.splits\<close>)+
    have answer: "safe slot_ok (io_ret (case out of Some assignment \<Rightarrow> Finish (Inr (Synced assignment)) | None \<Rightarrow> Continue (SyncWait True))) ?Q slot_ok" for out
      by (rule safe_ret) (auto split: option.splits)
    from safe_bind [OF submit safe_bind [OF outcome answer]] show ?thesis by (simp only: False if_False)
  qed (auto intro!: safe_err)
  show "safe (\<lambda>s. st = s \<and> slot_ok s)
     (if st = None then io_ret (Continue (Reclaim (Inl (Kafka UnknownMemberId))))
      else io_bind (io_lift (active_group generation k st)) (\<lambda>gs.
         if gs_phase gs = Joining then io_err (Kafka RebalanceInProgress)
         else io_bind (if submitted then io_ret () else in_group (sync_submit now k assignments)) (\<lambda>_.
              io_bind (in_group (sync_outcome k)) (\<lambda>out.
                io_ret (case out of Some assignment \<Rightarrow> Finish (Inr (Synced assignment)) | None \<Rightarrow> Continue (SyncWait True)))))) ?Q slot_ok"
  proof (cases st)
    case None
    then show ?thesis by (auto intro: safe_ret)
  next
    case (Some g)
    have "safe (\<lambda>s. st = s \<and> slot_ok s) (io_lift (active_group generation k st))
        (\<lambda>gs s. s = Some gs \<and> group_ok gs \<and> bt_contains (gs_members gs) k) slot_ok"
      by (rule safe_lift) (auto simp: active_group_Inr dest: active_group_Inl)
    from safe_bind [OF this rest] Some show ?thesis by simp
  qed
qed

lemma join_poll_safe: "safe slot_ok (join_poll now k target) (\<lambda>_. slot_ok) slot_ok"
  unfolding join_poll_def
proof (rule safe_bind [OF safe_advance], rule safe_bind [OF safe_get])
  fix st
  show "safe (\<lambda>s. st = s \<and> slot_ok s)
     (case st of
        None \<Rightarrow> io_err (Kafka UnknownMemberId)
      | Some gs \<Rightarrow>
          if gs_rebalance_id gs \<noteq> target then io_err (Kafka RebalanceInProgress)
          else case bt_get (gs_members gs) k of
                 None \<Rightarrow> io_err (Kafka UnknownMemberId) | Some member \<Rightarrow> io_ret (ms_join_result member))
     (\<lambda>_. slot_ok) slot_ok"
    by (auto intro!: safe_rules split: option.split)
qed

lemma refresh_member_run:
  assumes ok: "group_ok gs" and k: "bt_contains (gs_members gs) k" and run: "refresh_member now k gs = (r, gs')"
  shows "group_ok gs' \<and> (\<forall>e. r = Inl e \<longrightarrow> e = Kafka RebalanceInProgress)"
proof -
  obtain g' where g': "update_member k (refreshed now) gs = (Inr (), g')" "group_ok g'"
    using refresh_run [OF ok k, of now] by blast
  with run have "gs' = g' \<and> (\<forall>e. r = Inl e \<longrightarrow> e = Kafka RebalanceInProgress)"
    by (cases "gs_phase g' \<noteq> Stable \<or> (case bt_get (gs_members g') k of None \<Rightarrow> True | Some member \<Rightarrow> ms_assignment member = None)")
      (auto simp: refresh_member_def io_bind_def)
  with g'(2) show ?thesis by simp
qed

lemma heartbeat_safe:
  "safe slot_ok (heartbeat_section now generation k) (\<lambda>p st. slot_ok st \<and> ends_calmly p) slot_ok"
  unfolding heartbeat_section_def
proof (rule safe_bind [OF safe_advance], rule safe_bind [OF safe_get])
  fix st
  let ?m = "case active_group generation k st of Inl e \<Rightarrow> io_err e | Inr _ \<Rightarrow> in_group (refresh_member now k)"
  have "safe (\<lambda>s. st = s \<and> slot_ok s) ?m (\<lambda>_. slot_ok) slot_ok"
  proof (cases "active_group generation k st")
    case (Inl e)
    then show ?thesis by (auto intro!: safe_err dest: active_group_Inl)
  next
    case (Inr gs)
    then have st: "st = Some gs" "bt_contains (gs_members gs) k" by (simp_all add: active_group_Inr)
    have m: "?m = in_group (refresh_member now k)" by (simp add: Inr)
    show ?thesis unfolding m
    proof (rule safe_in_group)
      fix g r g' assume g: "st = Some g \<and> slot_ok (Some g)" and run: "refresh_member now k g = (r, g')"
      from g st have "group_ok g" "bt_contains (gs_members g) k" by auto
      from refresh_member_run [OF this run] show "case r of Inl e \<Rightarrow> slot_ok (Some g') \<and> \<not> panics e | Inr x \<Rightarrow> slot_ok (Some g')"
        by (cases r) auto
    qed (use st in blast)
  qed
  note tried = safe_try [OF this, of slot_ok]
  have "safe (\<lambda>s. case r of Inl e \<Rightarrow> slot_ok s \<and> \<not> panics e | Inr _ \<Rightarrow> slot_ok s)
      (then_reclaim (case r of Inl e \<Rightarrow> Inl e | Inr _ \<Rightarrow> Inr Accepted)) (\<lambda>p st. slot_ok st \<and> ends_calmly p) slot_ok"
    for r :: "coordinator_error + unit"
    by (cases r) (simp_all add: safe_def then_reclaim_def)
  from safe_bind [OF tried this] show "safe (\<lambda>s. st = s \<and> slot_ok s)
      (io_bind (io_try ?m) (\<lambda>result. then_reclaim (case result of Inl e \<Rightarrow> Inl e | Inr _ \<Rightarrow> Inr Accepted)))
      (\<lambda>p st. slot_ok st \<and> ends_calmly p) slot_ok" .
qed

lemma leave_safe:
  "safe slot_ok (leave_section now k) (\<lambda>p st. slot_ok st \<and> ends_calmly p) slot_ok"
  unfolding leave_section_def
proof (rule safe_bind [OF safe_advance], rule safe_bind [OF safe_get])
  fix st
  let ?Q = "\<lambda>p st. slot_ok st \<and> ends_calmly p"
  have reclaim: "safe (\<lambda>s. st = s \<and> slot_ok s) (then_reclaim (Inl (Kafka UnknownMemberId))) ?Q slot_ok"
    by (rule safe_pre [OF safe_then_reclaim]) auto
  have left: "safe (\<lambda>s. s = Some g) (in_group (member_left now k)) (\<lambda>_. slot_ok) slot_ok"
    if g: "g = gs\<lparr>gs_members := bt_remove k (gs_members gs)\<rparr>" and ne: "gs_members g \<noteq> []" and ok: "group_ok gs" for g gs
  proof (rule safe_in_group)
    fix g' r t assume gt: "Some g' = Some g" "member_left now k g' = (r, t)"
    have core: "core_ok g" "phase_ok False g"
      using core_ok_filter phase_ok_filter group_ok_led [OF ok] unfolding g bt_remove_def led_ok_def by blast+
    have leader: "gs_leader_id g = k \<or> bt_contains (gs_members g) (gs_leader_id g)"
      using ok by (auto simp: g group_ok_def bt_contains_def bt_get_remove)
    from gt have "member_left now k g = (r, t)" by simp
    from member_left_run [OF core ne leader this]
    show "case r of Inl e \<Rightarrow> slot_ok (Some t) \<and> \<not> panics e | Inr x \<Rightarrow> slot_ok (Some t)" by (auto split: sum.split)
  qed simp
  show "safe (\<lambda>s. st = s \<and> slot_ok s)
     (case st of
        None \<Rightarrow> then_reclaim (Inl (Kafka UnknownMemberId))
      | Some gs \<Rightarrow>
          if \<not> bt_contains (gs_members gs) k then then_reclaim (Inl (Kafka UnknownMemberId))
          else let gs = gs\<lparr>gs_members := bt_remove k (gs_members gs)\<rparr>
               in if gs_members gs = [] then io_bind (io_put None) (\<lambda>_. then_reclaim (Inr Accepted))
                  else io_bind (io_put (Some gs)) (\<lambda>_. io_bind (in_group (member_left now k)) (\<lambda>_. then_reclaim (Inr Accepted)))) ?Q slot_ok"
  proof (cases st)
    case None
    with reclaim show ?thesis by simp
  next
    case (Some gs)
    let ?g = "gs\<lparr>gs_members := bt_remove k (gs_members gs)\<rparr>"
    have "safe (\<lambda>s. st = s \<and> slot_ok s) (io_bind (io_put None) (\<lambda>_. then_reclaim (Inr Accepted))) ?Q slot_ok"
      by (rule safe_bind [OF safe_put safe_then_reclaim]) auto
    moreover have "safe (\<lambda>s. st = s \<and> slot_ok s)
        (io_bind (io_put (Some ?g)) (\<lambda>_. io_bind (in_group (member_left now k)) (\<lambda>_. then_reclaim (Inr Accepted)))) ?Q slot_ok"
      if ne: "gs_members ?g \<noteq> []"
    proof (cases "group_ok gs")
      case True
      show ?thesis
        by (rule safe_bind [OF safe_put safe_bind [OF left [OF refl ne True] safe_then_reclaim]]) auto
    next
      case False
      with Some show ?thesis by (auto simp: safe_def)
    qed
    ultimately show ?thesis using reclaim by (simp add: Some Let_def)
  qed
qed

lemma commit_safe:
  "safe (\<lambda>s. slot_ok (snd s)) (commit_section E prefix now gid generation k commits)
     (\<lambda>p s. slot_ok (snd s) \<and> ends_calmly p) (\<lambda>s. slot_ok (snd s))"
  unfolding commit_section_def
proof (rule safe_bind [OF safe_snd [OF safe_advance]], rule safe_bind [OF safe_snd [OF safe_get]])
  fix st
  let ?Q = "\<lambda>p s. slot_ok (snd s) \<and> ends_calmly p" and ?I = "\<lambda>s. slot_ok (snd s)"
  have reclaim: "safe (\<lambda>s. st = snd s \<and> slot_ok (snd s)) (io_snd (then_reclaim r)) ?Q ?I" if "calm r" for r
    by (rule safe_pre [OF safe_snd [OF safe_then_reclaim [OF that]]]) auto
  have store: "safe (\<lambda>s. st = snd s \<and> slot_ok (snd s)) (io_map_err StorageError (io_fst (commit_offsets E prefix gid commits))) (\<lambda>_. ?I) ?I"
    by (auto simp: safe_def result_simps split: sum.splits)
  have answer: "safe ?I (io_ret (Finish (Inr Accepted))) ?Q ?I" by (rule safe_ret) simp
  show "safe (\<lambda>s. st = snd s \<and> slot_ok (snd s))
     (case active_group generation k st of
        Inl e \<Rightarrow> io_snd (then_reclaim (Inl e))
      | Inr gs \<Rightarrow>
          (case bt_get (gs_members gs) k of
             None \<Rightarrow> io_err (Panic ''active group validated member'')
           | Some member \<Rightarrow>
               if gs_phase gs \<noteq> Stable \<or> ms_assignment member = None
               then io_snd (then_reclaim (Inl (Kafka RebalanceInProgress)))
               else if commits = [] then io_ret (Finish (Inr Accepted))
               else io_bind (io_map_err StorageError (io_fst (commit_offsets E prefix gid commits))) (\<lambda>_. io_ret (Finish (Inr Accepted)))))
     ?Q ?I"
  proof (cases "active_group generation k st")
    case (Inl e)
    with reclaim [of "Inl e"] active_group_Inl [OF Inl] show ?thesis by simp
  next
    case (Inr gs)
    then obtain m where "bt_get (gs_members gs) k = Some m" by (auto simp: active_group_Inr bt_contains_def)
    with Inr reclaim [of "Inl (Kafka RebalanceInProgress)"] safe_bind [OF store answer] show ?thesis
      by (auto intro!: safe_ret)
  qed
qed

section \<open>Join\<close>

lemma io_lift_ok: "io_lift (Inr x) = io_ret x"
  by (rule ext) simp

lemma budget_calm: "validate_group_protocol_budget gs k ps = Inl e \<Longrightarrow> \<not> panics e"
proof -
  have "budget_from k n ms = Inl e \<Longrightarrow> \<not> panics e" for n and ms :: "(string, member_state) btree_map"
    by (induction k n ms rule: budget_from.induct) (auto simp: result_simps retained_bytes_error_def split: if_splits)
  then show "validate_group_protocol_budget gs k ps = Inl e \<Longrightarrow> \<not> panics e"
    by (auto simp: validate_group_protocol_budget_def result_simps retained_bytes_error_def)
qed

definition uuid_laws :: "('s, 'm) world_scheme \<Rightarrow> bool" where
  "uuid_laws W \<longleftrightarrow> (\<forall>s. fst (w_new_uuid W s) \<noteq> [])"

lemma timeout_ok_millis:
  "validate_session_timeout ms = Inr () \<Longrightarrow> timeout_ok (millis ms)"
  "validate_rebalance_timeout ms = Inr () \<Longrightarrow> timeout_ok (millis ms)"
  by (auto simp: validate_session_timeout_def validate_rebalance_timeout_def timeout_ok_def millis_def)

lemma first_group_ok:
  assumes k: "k \<noteq> []" and t: "timeout_ok session" "timeout_ok rebalance" and ps: "validate_protocols pt ps = Inr ()"
  shows "group_ok (first_group now session rebalance pt ps k)"
proof -
  have "ps \<noteq> []" "protocols_size ps \<le> MAX_GROUP_PROTOCOL_BYTES" using validate_protocols_size [OF ps] by auto
  then have "offers ps (jp_name (hd ps))" by (cases ps) (auto simp: offers_def)
  with k t \<open>protocols_size ps \<le> _\<close> show ?thesis
    by (auto simp: group_ok_def core_ok_def phase_ok_def first_group_def joined_member_def bt_inv_def bt_keys_def bt_values_def
        bt_contains_def bt_get_def members_size_def member_ok_def MAX_GROUP_MEMBERS_def range_simps)
qed

lemma safe_uuid:
  assumes "uuid_laws W"
  shows "safe (\<lambda>s. P (snd s)) (io_fst (io_call (w_new_uuid W))) (\<lambda>k s. P (snd s) \<and> k \<noteq> []) I"
  using assms unfolding safe_def uuid_laws_def
  by (auto simp: result_simps split: sum.splits) (metis fst_conv)

lemma join_enter_safe:
  assumes W: "uuid_laws W" and t: "timeout_ok session" "timeout_ok rebalance" and ps: "validate_protocols pt ps = Inr ()"
  shows "safe (\<lambda>s. slot_ok (snd s)) (join_enter W now session rebalance k pt ps) (\<lambda>_ s. slot_ok (snd s)) (\<lambda>s. slot_ok (snd s))"
  unfolding join_enter_def
proof (rule safe_bind [OF safe_snd [OF safe_advance]], rule safe_bind [OF safe_snd [OF safe_get]])
  fix st
  let ?I = "\<lambda>s. slot_ok (snd s)" and ?P = "\<lambda>s. st = snd s \<and> slot_ok (snd s)"
  show "safe ?P
     (case st of
        None \<Rightarrow>
          if k = [] then
            io_bind (io_fst (io_call (w_new_uuid W))) (\<lambda>assigned.
            io_bind (io_snd (io_put (Some (first_group now session rebalance pt ps assigned)))) (\<lambda>_. io_ret (assigned, 1)))
          else io_err (Kafka UnknownMemberId)
      | Some gs \<Rightarrow>
          if k \<noteq> [] \<and> \<not> bt_contains (gs_members gs) k then io_err (Kafka UnknownMemberId)
          else if gs_protocol_type gs \<noteq> pt \<or> \<not> protocols_compatible gs k ps then io_err (Kafka InconsistentGroupProtocol)
          else
            io_bind (io_lift (validate_group_protocol_budget gs k ps)) (\<lambda>_.
            io_bind
              (if k = [] then
                 if length (gs_members gs) \<ge> MAX_GROUP_MEMBERS then io_err (Kafka GroupMaxSizeReached)
                 else io_bind (io_fst (io_call (w_new_uuid W))) (\<lambda>assigned.
                        io_snd (in_group (join_new_member now session rebalance ps assigned)))
               else io_snd (in_group (rejoin_member now session rebalance ps k))) (\<lambda>assigned.
              io_snd (in_group (set_join_deadline now rebalance assigned))))) (\<lambda>_. ?I) ?I"
  proof (cases st)
    case None
    have "safe ?P (io_bind (io_fst (io_call (w_new_uuid W))) (\<lambda>assigned.
            io_bind (io_snd (io_put (Some (first_group now session rebalance pt ps assigned)))) (\<lambda>_. io_ret (assigned, 1 :: nat))))
          (\<lambda>_. ?I) ?I"
    proof (rule safe_bind [OF safe_uuid [OF W, of "\<lambda>s. st = s \<and> slot_ok s"]])
      fix assigned
      have "safe (\<lambda>s. (st = snd s \<and> slot_ok (snd s)) \<and> assigned \<noteq> [])
          (io_snd (io_put (Some (first_group now session rebalance pt ps assigned)))) (\<lambda>_. ?I) ?I"
        using first_group_ok [OF _ t ps] by (auto simp: safe_def result_simps split: sum.splits)
      then show "safe (\<lambda>s. (st = snd s \<and> slot_ok (snd s)) \<and> assigned \<noteq> [])
          (io_bind (io_snd (io_put (Some (first_group now session rebalance pt ps assigned)))) (\<lambda>_. io_ret (assigned, 1 :: nat))) (\<lambda>_. ?I) ?I"
        by (rule safe_bind) (rule safe_ret)
    qed
    then show ?thesis using None by (auto intro!: safe_err)
  next
    case (Some gs)
    show ?thesis
    proof (cases "group_ok gs \<and> (k = [] \<or> bt_contains (gs_members gs) k) \<and> gs_protocol_type gs = pt \<and> protocols_compatible gs k ps
        \<and> validate_group_protocol_budget gs k ps = Inr ()")
      case False
      have "validate_group_protocol_budget gs k ps = Inl e \<Longrightarrow> \<not> panics e" for e
        by (rule budget_calm)
      with False Some show ?thesis
        by (auto simp: safe_def io_bind_def split: sum.splits if_splits)
    next
      case True
      then have ok: "group_ok gs" by simp
      have room: "room_for k ps (gs_members gs)"
        using True checks_room [OF ok _ _ ] validate_protocols_size [OF ps] by blast
      have new: "safe (\<lambda>s. (st = snd s \<and> slot_ok (snd s)) \<and> assigned \<noteq> [])
          (io_snd (in_group (join_new_member now session rebalance ps assigned))) (\<lambda>_ s. \<exists>g. snd s = Some g \<and> group_ok g) ?I"
        if "k = []" "length (gs_members gs) < MAX_GROUP_MEMBERS" for assigned
        using join_new_member_run [OF ok _ that(2) _ t] room that Some
        by (fastforce simp: safe_def result_simps in_group_def split: sum.splits prod.splits)
      have again: "safe ?P (io_snd (in_group (rejoin_member now session rebalance ps k))) (\<lambda>_ s. \<exists>g. snd s = Some g \<and> group_ok g) ?I"
        if "k \<noteq> []"
        using rejoin_member_run [OF ok room _ t] that Some True
        by (fastforce simp: safe_def result_simps in_group_def split: sum.splits prod.splits)
      have deadline: "safe (\<lambda>s. \<exists>g. snd s = Some g \<and> group_ok g) (io_snd (in_group (set_join_deadline now rebalance assigned))) (\<lambda>_. ?I) ?I" for assigned
        by (auto simp: safe_def result_simps in_group_def set_join_deadline_def split: sum.splits)
      have enter: "safe ?P
           (if k = [] then
                 if length (gs_members gs) \<ge> MAX_GROUP_MEMBERS then io_err (Kafka GroupMaxSizeReached)
                 else io_bind (io_fst (io_call (w_new_uuid W))) (\<lambda>assigned.
                        io_snd (in_group (join_new_member now session rebalance ps assigned)))
               else io_snd (in_group (rejoin_member now session rebalance ps k))) (\<lambda>_ s. \<exists>g. snd s = Some g \<and> group_ok g) ?I"
        using again safe_bind [OF safe_uuid [OF W, of "\<lambda>s. st = s \<and> slot_ok s"] new] by (auto intro!: safe_err)
      have guards: "(k \<noteq> [] \<and> \<not> bt_contains (gs_members gs) k) = False"
        "(gs_protocol_type gs \<noteq> pt \<or> \<not> protocols_compatible gs k ps) = False" "validate_group_protocol_budget gs k ps = Inr ()"
        using True by auto
      show ?thesis
        unfolding Some by (simp only: option.case guards if_False io_lift_ok io_bind_ret)
          (rule safe_bind [OF enter [unfolded Some] deadline])
    qed
  qed
qed

end
