(* ===== verification/Coordinator_System.thy ===== *)
theory Coordinator_System
  imports Coordinator_Laws
begin

text \<open>
  The coordinator with any number of requests in progress: the invariant over all interleavings
  of their sections. Every request holds the slot that the table has for its group, so no two
  requests work on different copies of one group; every slot satisfies the group invariant; and
  no reply is a panic.
\<close>

section \<open>One section\<close>

lemma ends_calmly_progress:
  assumes "ends_calmly p"
  shows "progress_ok (SyncRequest gid g k as) p" "progress_ok (HeartbeatRequest gid g k) p"
    "progress_ok (LeaveRequest gid k) p" "progress_ok (CommitRequest gid g k cs) p"
  using assms by (auto simp: progress_ok_def ends_calmly_def split: progress.splits stage.splits)

lemma safe_post: "safe P m Q I \<Longrightarrow> (\<And>x t. Q x t \<Longrightarrow> Q' x t) \<Longrightarrow> safe P m Q' I"
  unfolding safe_def by (fastforce split: sum.splits)

abbreviation room_ok :: "'s \<times> group_state option \<Rightarrow> bool" where
  "room_ok s \<equiv> slot_ok (snd s)"

lemma run_section_safe:
  assumes W: "uuid_laws E" and req: "check_request req = Inr ()" and stg: "stage_ok req stg" "\<forall>r. stg \<noteq> Reclaim r"
  shows "safe room_ok (run_section E prefix now req stg) (\<lambda>p s. room_ok s \<and> progress_ok req p) room_ok"
proof (cases req)
  case (JoinRequest gid session rebalance k pt ps)
  have t: "timeout_ok (millis session)" "timeout_ok (millis rebalance)" and ps: "validate_protocols pt ps = Inr ()"
    using req JoinRequest by (auto simp: result_simps intro: timeout_ok_millis)
  consider "stg = JoinEnter" | a n where "stg = JoinSettle a n" | a n where "stg = JoinWait a n"
    using stg JoinRequest by (cases stg) auto
  then show ?thesis
  proof cases
    case 1
    have "safe room_ok (case x of (assigned, target) \<Rightarrow> io_ret (Continue (JoinSettle assigned target)))
        (\<lambda>p s. room_ok s \<and> progress_ok req p) room_ok" for x :: "string \<times> nat"
      by (cases x) (auto simp: JoinRequest progress_ok_def intro: safe_ret)
    from safe_bind [OF join_enter_safe [OF W t ps] this] show ?thesis by (simp add: 1 JoinRequest)
  next
    case 2
    have "safe room_ok (io_ret (Continue (JoinWait a n))) (\<lambda>p s. room_ok s \<and> progress_ok req p) room_ok"
      by (rule safe_ret) (simp add: JoinRequest progress_ok_def)
    from safe_bind [OF safe_snd [OF safe_advance] this] show ?thesis by (simp add: 2 JoinRequest)
  next
    case 3
    have "safe room_ok (io_ret (case out of Some outcome \<Rightarrow> Finish (Inr (Joined outcome)) | None \<Rightarrow> Continue (JoinWait a n)))
        (\<lambda>p s. room_ok s \<and> progress_ok req p) room_ok" for out
      by (rule safe_ret) (cases out; simp add: JoinRequest progress_ok_def)
    from safe_bind [OF safe_snd [OF join_poll_safe] this] show ?thesis by (simp add: 3 JoinRequest)
  qed
next
  case (SyncRequest gid g k as)
  then obtain b where b: "stg = SyncWait b" using stg by (cases stg) auto
  have "progress_ok req p" if "ends_calmly p \<or> p = Continue (SyncWait True)" for p
    using that ends_calmly_progress(1) by (auto simp: SyncRequest progress_ok_def)
  from safe_post [OF safe_snd [OF sync_poll_safe] conjI [OF conjunct1 this [OF conjunct2]]] show ?thesis by (simp add: b SyncRequest)
next
  case (HeartbeatRequest gid g k)
  then have b: "stg = Visit" using stg by (cases stg) auto
  from safe_post [OF safe_snd [OF heartbeat_safe] conjI [OF conjunct1 ends_calmly_progress(2) [OF conjunct2]]]
  show ?thesis by (simp add: b HeartbeatRequest)
next
  case (LeaveRequest gid k)
  then have b: "stg = Visit" using stg by (cases stg) auto
  from safe_post [OF safe_snd [OF leave_safe] conjI [OF conjunct1 ends_calmly_progress(3) [OF conjunct2]]]
  show ?thesis by (simp add: b LeaveRequest)
next
  case (CommitRequest gid g k cs)
  then have b: "stg = Visit" using stg by (cases stg) auto
  from safe_post [OF commit_safe conjI [OF conjunct1 ends_calmly_progress(4) [OF conjunct2]]]
  show ?thesis by (simp add: b CommitRequest)
qed

section \<open>The table\<close>

definition task_ok :: "'s coordinator \<Rightarrow> nat \<times> task \<Rightarrow> bool" where
  "task_ok c e \<longleftrightarrow>
     (case e of (i, t) \<Rightarrow> i < cd_next_task c \<and> check_request (tk_request t) = Inr () \<and> stage_ok (tk_request t) (tk_stage t)
        \<and> bt_get (cd_groups c) (request_group (tk_request t)) = Some (tk_slot t))"

definition coordinator_ok :: "'s coordinator \<Rightarrow> bool" where
  "coordinator_ok c \<longleftrightarrow>
     bt_inv (cd_groups c) \<and> bt_inv (cd_tasks c) \<and> distinct (map snd (cd_groups c))
   \<and> (\<forall>(gid, a) \<in> set (cd_groups c). a < cd_next_slot c) \<and> length (cd_groups c) \<le> MAX_GROUP_SLOTS
   \<and> (\<forall>a. slot_ok (cd_slots c a)) \<and> (\<forall>e \<in> set (cd_tasks c). task_ok c e)"

lemma task_in:
  assumes "coordinator_ok c" "bt_get (cd_tasks c) i = Some t" shows "(i, t) \<in> set (cd_tasks c)" "task_ok c (i, t)"
proof -
  have inv: "bt_inv (cd_tasks c)" using assms(1) by (simp add: coordinator_ok_def)
  show it: "(i, t) \<in> set (cd_tasks c)" using assms(2) by (simp add: bt_get_set [OF inv])
  show "task_ok c (i, t)" using assms(1) it unfolding coordinator_ok_def by blast
qed

lemma sweep_from_facts:
  assumes "sweep_from now refs groups slots = (kept, slots')" "bt_inv groups" "\<forall>a. slot_ok (slots a)" "distinct (map snd groups)"
  shows "bt_inv kept \<and> set kept \<subseteq> set groups \<and> (\<forall>a. slot_ok (slots' a)) \<and> distinct (map snd kept) \<and> length kept \<le> length groups
    \<and> (\<forall>e \<in> set groups. refs (snd e) \<noteq> 1 \<longrightarrow> e \<in> set kept)"
  using assms
proof (induction now refs groups slots arbitrary: kept slots' rule: sweep_from.induct)
  case (2 now refs gid a rest slots)
  have above: "\<forall>x \<in> fst ` set rest. gid < x" and inv: "bt_inv rest" using "2.prems"(2) by (auto simp: bt_inv_def)
  have dist: "a \<notin> snd ` set rest" "distinct (map snd rest)" using "2.prems"(4) by auto
  have add: "bt_inv ((gid, a) # k)" if "bt_inv k" "set k \<subseteq> set rest" for k
    using that above by (fastforce simp: bt_inv_def)
  show ?case
  proof (cases "refs a = 1")
    case False
    obtain k s where rec: "sweep_from now refs rest slots = (k, s)" by force
    note IH = "2.IH"(1) [OF False rec inv "2.prems"(3) dist(2)]
    then have "a \<notin> snd ` set k" using dist(1) by blast
    with IH "2.prems"(1) rec add False show ?thesis by auto
  next
    case True
    obtain r st where adv: "advance_group now (slots a) = (r, st)" by force
    obtain k s where rec: "sweep_from now refs rest (slots(a := st)) = (k, s)" by force
    have "slot_ok st" using advance_group_keeps [of "slots a" now] "2.prems"(3) adv by (simp add: keeps_group_def)
    then have "\<forall>b. slot_ok ((slots(a := st)) b)" using "2.prems"(3) by simp
    from "2.IH"(2) [OF _ adv [symmetric] rec inv this dist(2)] True
    have IH: "bt_inv k \<and> set k \<subseteq> set rest \<and> (\<forall>a. slot_ok (s a)) \<and> distinct (map snd k) \<and> length k \<le> length rest
      \<and> (\<forall>e \<in> set rest. refs (snd e) \<noteq> 1 \<longrightarrow> e \<in> set k)" by simp
    have "kept = (if (case r of Inl _ \<Rightarrow> True | Inr _ \<Rightarrow> st \<noteq> None) then (gid, a) # k else k) \<and> slots' = s"
      using "2.prems"(1) True adv rec by (simp del: fun_upd_apply split: sum.splits if_splits)
    moreover have "a \<notin> snd ` set k" using IH dist(1) by blast
    ultimately show ?thesis using IH add True by auto
  qed
qed simp

lemma filter_two:
  assumes "distinct xs" "x \<noteq> y" "x \<in> set xs" "y \<in> set xs" "P x" "P y" shows "2 \<le> length (filter P xs)"
proof -
  have "{x, y} \<subseteq> set (filter P xs)" using assms by auto
  then have "card {x, y} \<le> card (set (filter P xs))" by (rule card_mono [rotated]) simp
  with assms(2) card_length [of "filter P xs"] show ?thesis by simp
qed

lemma filter_one: "x \<in> set xs \<Longrightarrow> P x \<Longrightarrow> 1 \<le> length (filter P xs)"
  by (induction xs) auto

lemma held_count:
  assumes c: "coordinator_ok c" and t: "(i, t) \<in> set (cd_tasks c)"
  shows "2 \<le> strong_count c (tk_slot t)"
    and "(j, u) \<in> set (cd_tasks c) \<Longrightarrow> j \<noteq> i \<Longrightarrow> tk_slot u = tk_slot t \<Longrightarrow> 3 \<le> strong_count c (tk_slot t)"
proof -
  have "(request_group (tk_request t), tk_slot t) \<in> set (cd_groups c)"
    using c t bt_get_set by (fastforce simp: coordinator_ok_def task_ok_def)
  then have g: "1 \<le> length (filter (\<lambda>(_, b). b = tk_slot t) (cd_groups c))" by (rule filter_one) simp
  moreover have "1 \<le> length (filter (\<lambda>(_, u). tk_slot u = tk_slot t) (cd_tasks c))" by (rule filter_one [OF t]) simp
  ultimately show "2 \<le> strong_count c (tk_slot t)" by (simp add: strong_count_def)
  have dist: "distinct (cd_tasks c)"
    using c by (simp add: coordinator_ok_def bt_inv_def strict_sorted_iff distinct_map)
  show "3 \<le> strong_count c (tk_slot t)" if "(j, u) \<in> set (cd_tasks c)" "j \<noteq> i" "tk_slot u = tk_slot t"
    using g filter_two [OF dist, of "(i, t)" "(j, u)" "\<lambda>(_, u). tk_slot u = tk_slot t"] that t
    by (simp add: strong_count_def)
qed

lemma sweep_ok: "coordinator_ok c \<Longrightarrow> coordinator_ok (sweep_reclaimable_slots now c)"
proof -
  assume c: "coordinator_ok c"
  obtain kept slots where sw: "sweep_from now (strong_count c) (cd_groups c) (cd_slots c) = (kept, slots)" by force
  from c have pre: "bt_inv (cd_groups c)" "\<forall>a. slot_ok (cd_slots c a)" "distinct (map snd (cd_groups c))"
    by (auto simp: coordinator_ok_def)
  note facts = sweep_from_facts [OF sw pre]
  have "bt_get kept (request_group (tk_request t)) = Some (tk_slot t)" if t: "(i, t) \<in> set (cd_tasks c)" for i t
  proof -
    have "(request_group (tk_request t), tk_slot t) \<in> set (cd_groups c)"
      using c t bt_get_set by (fastforce simp: coordinator_ok_def task_ok_def)
    moreover have "strong_count c (tk_slot t) \<noteq> 1" using held_count(1) [OF c t] by simp
    ultimately have "(request_group (tk_request t), tk_slot t) \<in> set kept" using facts by force
    with facts show ?thesis by (simp add: bt_get_set)
  qed
  with c facts show ?thesis
    by (fastforce simp: coordinator_ok_def sweep_reclaimable_slots_def sw task_ok_def)
qed

lemma end_task_ok: "coordinator_ok c \<Longrightarrow> coordinator_ok (end_task i c)"
  by (auto simp: coordinator_ok_def end_task_def task_ok_def bt_remove_def)

text \<open>Reclaiming a slot by the last request that holds it, which then ends.\<close>

lemma reclaim_ok:
  assumes c: "coordinator_ok c" and t: "bt_get (cd_tasks c) i = Some t"
  shows "coordinator_ok (end_task i (reclaim_slot (request_group (tk_request t)) (tk_slot t) c))"
proof (cases "reclaim_slot (request_group (tk_request t)) (tk_slot t) c = c")
  case True
  with end_task_ok [OF c] show ?thesis by simp
next
  case False
  let ?gid = "request_group (tk_request t)"
  from False have r: "reclaim_slot ?gid (tk_slot t) c = c\<lparr>cd_groups := bt_remove ?gid (cd_groups c)\<rparr>"
    and two: "strong_count c (tk_slot t) = 2"
    by (auto simp: reclaim_slot_def split: if_splits option.splits)
  have inv: "bt_inv (cd_tasks c)" "bt_inv (cd_groups c)" using c by (auto simp: coordinator_ok_def)
  have it: "(i, t) \<in> set (cd_tasks c)" by (rule task_in [OF c t])
  have other: "request_group (tk_request u) \<noteq> ?gid" if u: "(j, u) \<in> set (cd_tasks c)" "j \<noteq> i" for j u
  proof
    assume same: "request_group (tk_request u) = ?gid"
    have "task_ok c (i, t)" "task_ok c (j, u)" using c it u by (auto simp: coordinator_ok_def)
    with same have "tk_slot u = tk_slot t" by (simp add: task_ok_def)
    from held_count(2) [OF c it u this] two show False by simp
  qed
  have "task_ok (c\<lparr>cd_groups := bt_remove ?gid (cd_groups c), cd_tasks := bt_remove i (cd_tasks c)\<rparr>) (j, u)"
    if "(j, u) \<in> set (bt_remove i (cd_tasks c))" for j u
  proof -
    from that have u: "(j, u) \<in> set (cd_tasks c)" "j \<noteq> i" by (auto simp: bt_remove_def)
    then have "task_ok c (j, u)" using c by (auto simp: coordinator_ok_def)
    with other [OF u] show ?thesis by (simp add: task_ok_def bt_get_remove)
  qed
  moreover have "distinct (map snd (bt_remove ?gid (cd_groups c)))"
    using c by (auto simp: coordinator_ok_def bt_remove_def intro: distinct_map_filter)
  moreover have "length (bt_remove ?gid (cd_groups c)) \<le> MAX_GROUP_SLOTS"
    using c by (auto simp: coordinator_ok_def bt_remove_def intro: le_trans [OF length_filter_le])
  ultimately show ?thesis
    using c inv by (auto simp: r end_task_def coordinator_ok_def) (auto simp: bt_remove_def)
qed

text \<open>A slot's content and the outside world may change; the tasks see the same table.\<close>

lemma slot_update_ok:
  "coordinator_ok c \<Longrightarrow> slot_ok st \<Longrightarrow> coordinator_ok (c\<lparr>cd_world := w, cd_slots := (cd_slots c)(a := st)\<rparr>)"
  by (auto simp: coordinator_ok_def task_ok_def)

lemma task_stage_ok:
  assumes c: "coordinator_ok c" and t: "bt_get (cd_tasks c) i = Some t" and stg: "stage_ok (tk_request t) stg"
  shows "coordinator_ok (c\<lparr>cd_tasks := bt_insert i (Task (tk_request t) (tk_slot t) stg) (cd_tasks c)\<rparr>)"
proof -
  have inv: "bt_inv (cd_tasks c)" using c by (simp add: coordinator_ok_def)
  have "task_ok c (i, t)" by (rule task_in [OF c t])
  with c stg show ?thesis
    by (auto simp: coordinator_ok_def task_ok_def bt_insert_set_eq [OF inv])
qed

lemma request_slot_ok:
  assumes c: "coordinator_ok c" and run: "request_slot now req c = (r, c')"
  shows "coordinator_ok c' \<and> (case r of Inl e \<Rightarrow> \<not> panics e | Inr a \<Rightarrow> bt_get (cd_groups c') (request_group req) = Some a)"
proof (cases "\<exists>gid session rebalance k pt ps. req = JoinRequest gid session rebalance k pt ps")
  case False
  then have "request_slot now req c = existing_group_slot (request_group req) c" by (cases req) auto
  with c run show ?thesis by (auto simp: existing_group_slot_def ok_or_def split: option.splits)
next
  case True
  then obtain gid session rebalance k pt ps where req: "req = JoinRequest gid session rebalance k pt ps" by blast
  let ?c = "sweep_reclaimable_slots now c"
  have sw: "coordinator_ok ?c" by (rule sweep_ok [OF c])
  show ?thesis
  proof (cases "bt_get (cd_groups c) gid = None \<and> k = [] \<and> length (cd_groups ?c) < MAX_GROUP_SLOTS")
    case False
    with c sw run show ?thesis
      by (auto simp: req join_group_slot_def Let_def split: option.splits if_splits)
  next
    case True
    let ?a = "cd_next_slot ?c"
    have r: "r = Inr ?a" and c': "c' = ?c\<lparr>cd_groups := bt_insert gid ?a (cd_groups ?c), cd_slots := (cd_slots ?c)(?a := None), cd_next_slot := Suc ?a\<rparr>"
      using run True by (auto simp: req join_group_slot_def Let_def)
    have inv: "bt_inv (cd_groups ?c)" using sw by (simp add: coordinator_ok_def)
    obtain kept slots where swp: "sweep_from now (strong_count c) (cd_groups c) (cd_slots c) = (kept, slots)" by force
    have "set kept \<subseteq> set (cd_groups c)" using sweep_from_facts [OF swp] c by (auto simp: coordinator_ok_def)
    moreover have "gid \<notin> fst ` set (cd_groups c)" using True by (simp add: bt_get_def map_of_eq_None_iff)
    ultimately have absent: "gid \<notin> fst ` set (cd_groups ?c)" by (auto simp: sweep_reclaimable_slots_def swp)
    have new: "set (bt_insert gid ?a (cd_groups ?c)) = insert (gid, ?a) (set (cd_groups ?c))"
      using bt_insert_set_eq [OF inv, of gid ?a] absent by force
    have "length (bt_insert gid ?a (cd_groups ?c)) \<le> MAX_GROUP_SLOTS"
      using bt_insert_length [of gid ?a "cd_groups ?c"] True by simp
    moreover have "?a \<notin> snd ` set (cd_groups ?c)" using sw by (fastforce simp: coordinator_ok_def)
    then have "distinct (map snd (bt_insert gid ?a (cd_groups ?c)))"
    proof -
      have "distinct (map snd m) \<Longrightarrow> a \<notin> snd ` set m \<Longrightarrow> g \<notin> fst ` set m \<Longrightarrow> distinct (map snd (bt_insert g a m))" for g :: string and a :: nat and m
      proof (induction g a m rule: bt_insert.induct)
        case (2 k v k' v' m)
        have "snd ` set (bt_insert k v m) \<subseteq> insert v (snd ` set m)" by (induction k v m rule: bt_insert.induct) auto
        with 2 show ?case by auto
      qed simp
      with sw absent \<open>?a \<notin> snd ` set (cd_groups ?c)\<close> show ?thesis by (auto simp: coordinator_ok_def)
    qed
    moreover have "task_ok c' e" if "e \<in> set (cd_tasks ?c)" for e
    proof -
      obtain i t where e: "e = (i, t)" by force
      have "task_ok ?c e" using sw that by (auto simp: coordinator_ok_def)
      moreover from this have "request_group (tk_request t) \<noteq> gid"
        using absent bt_get_set [OF inv] by (force simp: e task_ok_def)
      ultimately show ?thesis by (simp add: e task_ok_def c' bt_get_insert [OF inv])
    qed
    ultimately have "coordinator_ok c'"
      using sw new unfolding coordinator_ok_def c' by (auto simp: less_Suc_eq)
    then show ?thesis by (simp add: r req c' bt_get_insert [OF inv])
  qed
qed

section \<open>Every step\<close>

definition calm_check :: "coordinator_error + 'a \<Rightarrow> bool" where
  "calm_check r \<longleftrightarrow> (\<forall>e. r = Inl e \<longrightarrow> \<not> panics e)"

lemma calm_check_simps [simp]: "calm_check (Inr x)" "calm_check (Inl e) = (\<not> panics e)" "calm_check (ensure b e) = (b \<or> \<not> panics e)"
  "calm_check (ok_or m e) = (m \<noteq> None \<or> \<not> panics e)" "calm_check (map_err StorageError r)" "\<not> panics retained_bytes_error"
  by (auto simp: calm_check_def ensure_def ok_or_def map_err_def retained_bytes_error_def split: option.splits sum.splits)

lemma calm_attempt: "calm_check m \<Longrightarrow> (\<And>x. m = Inr x \<Longrightarrow> calm_check (k x)) \<Longrightarrow> calm_check (attempt m k)"
  by (auto simp: calm_check_def result_simps)

lemma calm_validations:
  "calm_check (validate_session_timeout ms)" "calm_check (validate_rebalance_timeout ms)" "calm_check (validate_member_id k b)"
  "calm_check (check_group gid)" "calm_check (validate_protocols_from names n ps)" "calm_check (validate_protocols pt ps)"
  "calm_check (validate_assignments_from ids n as)" "calm_check (validate_assignments as)"
proof -
  show ps: "calm_check (validate_protocols_from names n ps)" for names n
    by (induction names n ps rule: validate_protocols_from.induct) (auto intro!: calm_attempt)
  show member: "calm_check (validate_member_id k b)" for k b by (auto simp: validate_member_id_def)
  show as: "calm_check (validate_assignments_from ids n as)" for ids n
    by (induction ids n as rule: validate_assignments_from.induct) (auto intro!: calm_attempt member)
  show "calm_check (validate_protocols pt ps)" using ps by (simp add: validate_protocols_def)
  show "calm_check (validate_assignments as)" using as by (simp add: validate_assignments_def)
qed (simp_all add: validate_session_timeout_def validate_rebalance_timeout_def check_group_def)

lemma check_request_calm: "check_request req = Inl e \<Longrightarrow> \<not> panics e"
proof -
  have "calm_check (check_request req)" by (cases req) (auto intro!: calm_attempt calm_validations)
  then show "check_request req = Inl e \<Longrightarrow> \<not> panics e" by (simp add: calm_check_def)
qed

lemma start_request_ok:
  assumes c: "coordinator_ok c" and run: "start_request now req c = (r, c')"
  shows "coordinator_ok c' \<and> (\<forall>e. r = Inl e \<longrightarrow> \<not> panics e)"
proof (cases "check_request req")
  case (Inl e)
  with run c check_request_calm [OF Inl] show ?thesis by (auto simp: start_request_def io_bind_def)
next
  case (Inr u)
  obtain r1 c1 where slot: "request_slot now req c = (r1, c1)" by force
  note facts = request_slot_ok [OF c slot]
  show ?thesis
  proof (cases r1)
    case (Inl e)
    with run facts slot \<open>check_request req = _\<close> show ?thesis by (auto simp: start_request_def io_bind_def)
  next
    case (Inr a)
    let ?t = "Task req a (first_stage req)"
    have r: "r = Inr ()" and c': "c' = c1\<lparr>cd_tasks := bt_insert (cd_next_task c1) ?t (cd_tasks c1), cd_next_task := Suc (cd_next_task c1)\<rparr>"
      using run slot Inr \<open>check_request req = _\<close> by (auto simp: start_request_def io_bind_def)
    have c1: "coordinator_ok c1" "bt_get (cd_groups c1) (request_group req) = Some a" using facts Inr by auto
    have inv: "bt_inv (cd_tasks c1)" using c1(1) by (simp add: coordinator_ok_def)
    have "stage_ok req (first_stage req)" by (cases req) auto
    then have "task_ok c' (cd_next_task c1, ?t)"
      using c1(2) \<open>check_request req = Inr u\<close> by (simp add: task_ok_def c')
    moreover have "task_ok c' e" if "e \<in> set (cd_tasks c1)" for e
      using that c1(1) by (auto simp: coordinator_ok_def task_ok_def c' split: prod.splits)
    ultimately have "coordinator_ok c'"
      using c1(1) bt_insert_set_eq [OF inv] by (auto simp: coordinator_ok_def c')
    with r show ?thesis by simp
  qed
qed

lemma resume_task_ok:
  assumes W: "uuid_laws E" and c: "coordinator_ok c" and t: "bt_get (cd_tasks c) i = Some t"
    and run: "resume_task E prefix now i t c = (out, c')"
  shows "coordinator_ok c' \<and> (\<forall>r. out = Some r \<longrightarrow> calm r)"
proof -
  have ok: "check_request (tk_request t) = Inr ()" "stage_ok (tk_request t) (tk_stage t)"
    using task_in(2) [OF c t] by (auto simp: task_ok_def)
  show ?thesis
  proof (cases "\<exists>r. tk_stage t = Reclaim r")
    case True
    then obtain r where r: "tk_stage t = Reclaim r" by blast
    have "calm r" using ok(2) r by (cases "tk_request t") auto
    with reclaim_ok [OF c t] run r show ?thesis by (auto simp: resume_task_def)
  next
    case False
    obtain x w st where sec: "run_section E prefix now (tk_request t) (tk_stage t) (cd_world c, cd_slots c (tk_slot t)) = (x, (w, st))"
      by (metis prod.exhaust)
    have "room_ok (cd_world c, cd_slots c (tk_slot t))" using c by (simp add: coordinator_ok_def)
    note facts = safe_run [OF run_section_safe [OF W ok] this sec]
    let ?c = "c\<lparr>cd_world := w, cd_slots := (cd_slots c)(tk_slot t := st)\<rparr>"
    have st: "slot_ok st" using facts False by (auto split: sum.splits)
    have c1: "coordinator_ok ?c" using slot_update_ok [OF c st] .
    have resume: "resume_task E prefix now i t c =
       (case x of Inl e \<Rightarrow> (Some (Inl e), end_task i ?c) | Inr (Finish r) \<Rightarrow> (Some r, end_task i ?c)
        | Inr (Continue stg) \<Rightarrow> (None, ?c\<lparr>cd_tasks := bt_insert i (Task (tk_request t) (tk_slot t) stg) (cd_tasks ?c)\<rparr>))"
      using False sec by (cases "tk_stage t") (simp_all add: resume_task_def Let_def)
    show ?thesis
    proof (cases "\<exists>stg. x = Inr (Continue stg)")
      case True
      then obtain stg where x: "x = Inr (Continue stg)" by blast
      have "stage_ok (tk_request t) stg" using facts x False by (simp add: progress_ok_def)
      from task_stage_ok [OF c1 _ this] t run x show ?thesis by (auto simp: resume)
    next
      case other: False
      have "calm r" if "out = Some r" for r
        using facts that run resume other False
        by (auto simp: progress_ok_def split: sum.splits progress.splits)
      moreover have "c' = end_task i ?c"
        using run resume other by (auto split: sum.splits progress.splits)
      ultimately show ?thesis using end_task_ok [OF c1] by simp
    qed
  qed
qed

lemma coordinator_step_ok:
  assumes W: "uuid_laws E" and step: "coordinator_step E prefix c event c'" and c: "coordinator_ok c"
  shows "coordinator_ok c' \<and> (\<forall>req r. event = Reply req r \<longrightarrow> calm r)"
  using step
proof (cases rule: coordinator_step.cases)
  case started
  with start_request_ok [OF c] show ?thesis by auto
next
  case refused
  with start_request_ok [OF c] show ?thesis by auto
next
  case resumed
  with resume_task_ok [OF W c] show ?thesis by auto
next
  case replied
  with resume_task_ok [OF W c] show ?thesis by auto
next
  case dropped
  with end_task_ok [OF c] show ?thesis by simp
next
  case outside
  with c show ?thesis by (auto simp: coordinator_ok_def task_ok_def)
qed

lemma coordinator_new_ok: "coordinator_ok (coordinator_new w)"
  by (simp add: coordinator_ok_def coordinator_new_def bt_inv_def)

lemma reachable_ok: "coordinator_reachable E prefix c \<Longrightarrow> uuid_laws E \<Longrightarrow> coordinator_ok c"
  by (induction rule: coordinator_reachable.induct) (auto simp: coordinator_new_ok dest: coordinator_step_ok)

text \<open>C21 (coordinator_invariant). In every reachable state of the coordinator every group satisfies its
  invariant: a nonempty sorted map of at most \<open>MAX_GROUP_MEMBERS\<close> members that contains the leader,
  whose protocol metadata is within the group's budget and who share a protocol; while the group
  joins nobody has a result or an assignment, and otherwise all members were told one generation,
  protocol and leader, and have assignments exactly when the group is stable.\<close>

theorem coordinator_invariant:
  assumes "uuid_laws E" "coordinator_reachable E prefix c" "cd_slots c a = Some gs"
  shows "group_ok gs"
proof -
  have "slot_ok (cd_slots c a)" using reachable_ok [OF assms(2,1)] by (simp add: coordinator_ok_def)
  with assms(3) show ?thesis by simp
qed

text \<open>C20 (one_slot_per_group). Two requests in progress for the same group work on the same slot, the one the
  table has for the group, and requests for different groups never share a slot, whatever
  requests were interleaved, dropped, or ended by reclaiming a slot.\<close>

theorem one_slot_per_group:
  assumes "uuid_laws E" "coordinator_reachable E prefix c"
    and "bt_get (cd_tasks c) i = Some t" "bt_get (cd_tasks c) j = Some u"
  shows "bt_get (cd_groups c) (request_group (tk_request t)) = Some (tk_slot t)
    \<and> (request_group (tk_request t) = request_group (tk_request u) \<longleftrightarrow> tk_slot t = tk_slot u)"
proof -
  have ok: "coordinator_ok c" by (rule reachable_ok [OF assms(2,1)])
  have inv: "bt_inv (cd_groups c)" "bt_inv (cd_tasks c)" "distinct (map snd (cd_groups c))" using ok by (auto simp: coordinator_ok_def)
  have slot: "bt_get (cd_groups c) (request_group (tk_request t)) = Some (tk_slot t)" if "bt_get (cd_tasks c) i = Some t" for i t
    using task_in(2) [OF ok that] by (simp add: task_ok_def)
  have "request_group (tk_request t) = request_group (tk_request u)" if "tk_slot t = tk_slot u"
  proof -
    have "(request_group (tk_request t), tk_slot t) \<in> set (cd_groups c)" "(request_group (tk_request u), tk_slot t) \<in> set (cd_groups c)"
      using slot [OF assms(3)] slot [OF assms(4)] that bt_get_set [OF inv(1)] by auto
    with inv(3) show ?thesis by (simp add: distinct_map) (metis inj_onD prod.inject snd_conv)
  qed
  with slot [OF assms(3)] slot [OF assms(4)] show ?thesis by auto
qed

text \<open>C22 (coordinator_never_panics). No reply of a reachable coordinator is a panic: every \<open>expect\<close> and
  \<open>unreachable\<close> of the coordinator is justified.\<close>

theorem coordinator_never_panics:
  assumes "uuid_laws E" "coordinator_reachable E prefix c" "coordinator_step E prefix c (Reply req (Inl e)) c'"
  shows "\<not> panics e"
  using coordinator_step_ok [OF assms(1,3) reachable_ok [OF assms(2,1)]] by (simp add: calm_def)

end
