(* ===== verification/Coordinator_Guarantees.thy ===== *)
theory Coordinator_Guarantees
  imports Coordinator_System
begin

text \<open>
  What the sections of the coordinator do: sessions expire exactly at their deadline, a rebalance
  ends at its deadline, every member learns the same generation, the leader's assignments are
  installed exactly, and offsets are committed only for a live member of the current stable
  generation.
\<close>

section \<open>Expiry\<close>

definition all_live :: "nat \<Rightarrow> group_state \<Rightarrow> bool" where
  "all_live now gs \<longleftrightarrow> (\<forall>m \<in> set (bt_values (gs_members gs)). now < ms_deadline m)"

lemma all_live_cong: "gs_members g = gs_members g' \<Longrightarrow> all_live now g = all_live now g'"
  by (simp add: all_live_def)

lemma all_live_map: "(\<And>k m. ms_deadline (f k m) = ms_deadline m) \<Longrightarrow> gs_members g' = bt_map f (gs_members g) \<Longrightarrow> all_live now g' = all_live now g"
  by (simp add: all_live_def bt_map_values) (simp add: bt_values_def case_prod_unfold)

text \<open>The members that are left at an instant: sessions that have not expired and, if the joining
  phase is over, members that joined the current rebalance.\<close>

definition survivors :: "nat \<Rightarrow> group_state \<Rightarrow> (string, member_state) btree_map" where
  "survivors now gs =
     filter (\<lambda>(_, m). now < ms_deadline m \<and>
       (gs_phase gs = Joining \<and> gs_phase_deadline gs \<le> now \<longrightarrow> ms_joined_rebalance m = gs_rebalance_id gs)) (gs_members gs)"

lemma survivors_live:
  "all_live now gs \<Longrightarrow> survivors now gs =
     filter (\<lambda>(_, m). gs_phase gs = Joining \<and> gs_phase_deadline gs \<le> now \<longrightarrow> ms_joined_rebalance m = gs_rebalance_id gs) (gs_members gs)"
  unfolding survivors_def all_live_def by (rule filter_cong) (auto simp: bt_values_def)

definition left_with :: "nat \<Rightarrow> string list \<Rightarrow> group_state option \<Rightarrow> bool" where
  "left_with now ks st \<longleftrightarrow>
     (case st of None \<Rightarrow> ks = [] | Some gs \<Rightarrow> ks \<noteq> [] \<and> bt_keys (gs_members gs) = ks \<and> all_live now gs)"

lemma members_ok: "core_ok gs \<Longrightarrow> m \<in> set (bt_values (gs_members gs)) \<Longrightarrow> member_ok (gs_rebalance_id gs) m"
  by (simp add: core_ok_def)

lemma finish_joining_members:
  assumes led: "led_ok gs" and joining: "gs_phase gs = Joining" and live: "all_live now gs"
  shows "left_with now (bt_keys (gs_members gs)) (snd (in_group (finish_joining now changed) (Some gs)))"
proof -
  have ne: "bt_keys (gs_members gs) \<noteq> []" using led by (auto simp: led_ok_def bt_keys_def)
  obtain r gs' where run: "finalize_rebalance now gs = (r, gs')" by force
  show ?thesis
  proof (cases "all_joined gs")
    case True
    note facts = finalize_rebalance_run [OF led joining True run]
    have "all_live now gs'" if "r = Inr ()"
    proof -
      have "core_ok gs'" using facts by (simp add: group_ok_def)
      then show ?thesis using facts that members_ok [of gs'] by (fastforce simp: all_live_def member_ok_def timeout_ok_def)
    qed
    with facts True run live ne show ?thesis
      by (cases r) (auto simp: in_group_def finish_joining_def io_bind_def left_with_def)
  next
    case False
    with live ne show ?thesis by (simp add: in_group_def finish_joining_def left_with_def)
  qed
qed

lemma advance_phase_members:
  assumes ok: "group_ok gs" and live: "all_live now gs"
  shows "left_with now (bt_keys (survivors now gs)) (snd (advance_phase now changed gs))"
proof -
  note led = group_ok_led [OF ok]
  have ne: "gs_members gs \<noteq> []" using led by (auto simp: led_ok_def)
  consider (joining) "gs_phase gs = Joining" "now < gs_phase_deadline gs" | (due) "gs_phase gs = Joining" "gs_phase_deadline gs \<le> now"
    | (late) "gs_phase gs = AwaitingSync" "gs_phase_deadline gs \<le> now"
    | (other) "gs_phase gs = AwaitingSync \<and> now < gs_phase_deadline gs \<or> gs_phase gs = Stable"
    by (cases "gs_phase gs"; cases "gs_phase_deadline gs \<le> now") auto
  then show ?thesis
  proof cases
    case joining
    then have "survivors now gs = gs_members gs" by (simp add: survivors_live [OF live])
    with finish_joining_members [OF led joining(1) live, of changed] joining show ?thesis by (simp add: advance_phase_def)
  next
    case due
    let ?m = "gs\<lparr>gs_members := bt_retain (\<lambda>_ member. ms_joined_rebalance member = gs_rebalance_id gs) (gs_members gs)\<rparr>"
    have surv: "survivors now gs = gs_members ?m" using due by (simp add: survivors_live [OF live] bt_retain_def)
    show ?thesis
    proof (cases "gs_members ?m = []")
      case True
      with due surv show ?thesis by (simp add: advance_phase_def left_with_def bt_keys_def)
    next
      case False
      have kept: "core_ok ?m" "phase_ok False ?m"
        using core_ok_filter phase_ok_filter led unfolding bt_retain_def led_ok_def by blast+
      obtain k where k: "ensure_leader ?m = (Inr (), ?m\<lparr>gs_leader_id := k\<rparr>)" "bt_contains (gs_members ?m) k"
        using ensure_leader_run [OF False] by blast
      have led': "led_ok (?m\<lparr>gs_leader_id := k\<rparr>)" using kept k(2) by (simp add: led_ok_def)
      have "all_live now (?m\<lparr>gs_leader_id := k\<rparr>)" using live by (auto simp: all_live_def bt_retain_def bt_values_def)
      from finish_joining_members [OF led' _ this, of True] due False k surv show ?thesis
        by (simp add: advance_phase_def Let_def in_group_def io_bind_def)
    qed
  next
    case late
    then have surv: "survivors now gs = gs_members gs" by (simp add: survivors_live [OF live])
    obtain r gs' where run: "start_rebalance now gs = (r, gs')" by force
    note facts = start_rebalance_run [OF led run]
    show ?thesis
    proof (cases r)
      case (Inl e)
      with facts late run surv live ne show ?thesis
        by (simp add: advance_phase_def in_group_def io_bind_def left_with_def bt_keys_def)
    next
      case (Inr u)
      have "all_live now gs'" using facts Inr live all_live_map [of "\<lambda>_ m. m\<lparr>ms_assignment := None, ms_join_result := None\<rparr>" gs' gs] by simp
      with facts Inr late run surv ne show ?thesis
        by (simp add: advance_phase_def in_group_def io_bind_def left_with_def)
    qed
  next
    case other
    then have surv: "survivors now gs = gs_members gs" by (auto simp: survivors_live [OF live])
    with other live ne show ?thesis by (auto simp: advance_phase_def left_with_def bt_keys_def)
  qed
qed

lemma fold_max_ge: "(d :: nat) \<le> fold max ds d" "e \<in> set ds \<Longrightarrow> e \<le> fold max ds d"
proof -
  show first: "(d :: nat) \<le> fold max ds d" for ds d
    by (induction ds arbitrary: d) (auto intro: order_trans [OF max.cobounded2])
  show "e \<in> set ds \<Longrightarrow> e \<le> fold max ds d" for ds d
  proof (induction ds arbitrary: d)
    case (Cons x ds)
    then show ?case using first [of "max x d" ds] by auto
  qed simp
qed

lemma fold_max_le: "(d :: nat) \<le> b \<Longrightarrow> \<forall>e \<in> set ds. e \<le> b \<Longrightarrow> fold max ds d \<le> b"
  by (induction ds arbitrary: d) auto

lemma rebalance_deadline_bounds:
  assumes "ms \<noteq> []" "\<forall>m \<in> set (bt_values ms). timeout_ok (ms_rebalance_timeout m)"
  shows "now < rebalance_deadline now fallback ms \<and> rebalance_deadline now fallback ms \<le> now + millis MAX_SESSION_TIMEOUT_MS"
proof -
  obtain m rest where ms: "bt_values ms = m # rest" using assms(1) by (cases "bt_values ms") (auto simp: bt_values_def)
  let ?ds = "map (\<lambda>m. now + ms_rebalance_timeout m) rest"
  have "now < now + ms_rebalance_timeout m" using assms(2) by (simp add: ms timeout_ok_def)
  also have "\<dots> \<le> fold max ?ds (now + ms_rebalance_timeout m)" by (rule fold_max_ge)
  finally have "now < fold max ?ds (now + ms_rebalance_timeout m)" .
  moreover have "fold max ?ds (now + ms_rebalance_timeout m) \<le> now + millis MAX_SESSION_TIMEOUT_MS"
    by (rule fold_max_le) (use assms(2) in \<open>auto simp: ms timeout_ok_def\<close>)
  ultimately show ?thesis by (simp add: rebalance_deadline_def ms)
qed

lemma advance_members:
  assumes ok: "group_ok gs"
  shows "left_with now (bt_keys (survivors now gs)) (snd (advance_group now (Some gs)))"
proof -
  have inv: "bt_inv (gs_members gs)" using ok by (rule group_ok_inv)
  let ?live = "filter (\<lambda>(_, m). now < ms_deadline m) (gs_members gs)"
  let ?m = "gs\<lparr>gs_members := ?live\<rparr>"
  have live: "all_live now ?m" by (auto simp: all_live_def bt_values_def)
  have surv: "survivors now gs = survivors now ?m" by (simp add: survivors_def, rule filter_cong) auto
  show ?thesis
  proof (cases "expired_members now gs = []")
    case True
    then have "?live = gs_members gs" by (intro filter_True) (auto simp: expired_members_def filter_empty_conv)
    then have "all_live now gs" using live by simp
    from advance_phase_members [OF ok this] True show ?thesis by (simp add: advance_group_def)
  next
    case expired: False
    show ?thesis
    proof (cases "?live = []")
      case True
      have "survivors now ?m = []" using True by (simp add: survivors_def)
      with True expired surv show ?thesis
        by (simp add: advance_group_def Let_def expired_removed [OF inv] left_with_def bt_keys_def)
    next
      case False
      have kept: "core_ok ?m" "phase_ok False ?m"
        using core_ok_filter phase_ok_filter group_ok_led [OF ok] unfolding led_ok_def by blast+
      obtain k where k: "ensure_leader ?m = (Inr (), ?m\<lparr>gs_leader_id := k\<rparr>)" "bt_contains ?live k"
        using ensure_leader_run [of ?m] False by auto
      let ?g = "?m\<lparr>gs_leader_id := k\<rparr>"
      have led: "led_ok ?g" using kept k(2) by (simp add: led_ok_def)
      have liveg: "all_live now ?g" using live all_live_cong [of ?g ?m] by simp
      have survg: "survivors now ?g = survivors now ?m" unfolding survivors_def by simp
      have adv: "advance_group now (Some gs) = (case members_expired now ?m of (Inl e, g) \<Rightarrow> (Inl e, Some g) | (Inr _, g) \<Rightarrow> advance_phase now True g)"
        using expired False by (simp add: advance_group_def Let_def expired_removed [OF inv])
      show ?thesis
      proof (cases "gs_phase gs = Joining")
        case True
        then have "members_expired now ?m = (Inr (), ?g)" using k by (simp add: members_expired_def io_bind_def)
        with advance_phase_members [OF led_ok_joining [OF led] liveg, of True] True show ?thesis
          by (simp add: adv surv survg)
      next
        case False
        have all: "survivors now ?m = ?live" using False live by (simp add: survivors_live)
        obtain r gs' where run: "start_rebalance now ?g = (r, gs')" by force
        then have exp: "members_expired now ?m = (r, gs')" using k False by (simp add: members_expired_def io_bind_def)
        note facts = start_rebalance_run [OF led run]
        show ?thesis
        proof (cases r)
          case (Inl e)
          with facts liveg \<open>?live \<noteq> []\<close> show ?thesis by (simp add: adv exp surv all left_with_def bt_keys_def)
        next
          case (Inr u)
          have live': "all_live now gs'" and keys: "bt_keys (gs_members gs') = bt_keys ?live" and phase: "gs_phase gs' = Joining"
            using facts Inr liveg all_live_map [of "\<lambda>_ m. m\<lparr>ms_assignment := None, ms_join_result := None\<rparr>" gs' ?g] by auto
          have "\<forall>m \<in> set (bt_values ?live). timeout_ok (ms_rebalance_timeout m)"
            using members_ok [OF kept(1)] by (simp add: member_ok_def)
          from rebalance_deadline_bounds [OF \<open>?live \<noteq> []\<close> this] have "now < gs_phase_deadline gs'" using facts Inr by simp
          then have "survivors now gs' = gs_members gs'" by (simp add: survivors_live [OF live'])
          with advance_phase_members [OF _ live', of True] facts Inr keys show ?thesis by (simp add: adv exp surv all)
        qed
      qed
    qed
  qed
qed

text \<open>C25 (expiry_exact). Advancing a group to an instant removes exactly the members whose session deadline
  has passed and, when the joining phase is over, the members that did not join; the group is
  dropped exactly if nobody is left, and everyone left has a deadline in the future.\<close>

theorem expiry_exact:
  assumes "group_ok gs" and "advance_group now (Some gs) = (r, st)"
  shows "(st = None \<longleftrightarrow> survivors now gs = [])
    \<and> (\<forall>gs'. st = Some gs' \<longrightarrow> bt_keys (gs_members gs') = bt_keys (survivors now gs) \<and> all_live now gs')"
  using advance_members [OF assms(1), of now] assms(2) by (auto simp: left_with_def bt_keys_def split: option.splits)

section \<open>Rebalances\<close>

text \<open>C26 (rebalance_ends). A joining phase ends at its deadline at the latest: advancing the group then either
  empties it or publishes a new generation to every member that is left, unless the generation
  counter is exhausted. The deadline is at most the longest permitted timeout away when it is set.\<close>

theorem rebalance_ends:
  assumes ok: "group_ok gs" and joining: "gs_phase gs = Joining" and due: "gs_phase_deadline gs \<le> now"
    and room: "gs_generation_id gs < i32_max"
  shows "(case advance_group now (Some gs) of (r, st) \<Rightarrow> r = Inr True \<and>
      (case st of None \<Rightarrow> True | Some gs' \<Rightarrow> gs_phase gs' = AwaitingSync \<and> gs_generation_id gs' = gs_generation_id gs + 1
         \<and> agreed True gs'))
    \<and> rebalance_deadline t fallback (gs_members gs) \<le> t + millis MAX_SESSION_TIMEOUT_MS"
proof -
  have core: "core_ok gs" and ne: "gs_members gs \<noteq> []" using ok by (auto simp: group_ok_def)
  have finish: "case in_group (finish_joining now c) (Some g) of (r, st) \<Rightarrow> r = Inr True \<and>
      (case st of None \<Rightarrow> True | Some gs' \<Rightarrow> gs_phase gs' = AwaitingSync \<and> gs_generation_id gs' = gs_generation_id gs + 1 \<and> agreed True gs')"
    if "led_ok g" "gs_phase g = Joining" "all_joined g" "gs_generation_id g = gs_generation_id gs" for g c
  proof -
    obtain r gs' where run: "finalize_rebalance now g = (r, gs')" by force
    note facts = finalize_rebalance_run [OF that(1-3) run]
    with room that(4) obtain u where r: "r = Inr u" by (cases r) auto
    with facts run that(3,4) show ?thesis by (simp add: in_group_def finish_joining_def io_bind_def)
  qed
  have phase: "case advance_phase now c g of (r, st) \<Rightarrow> r = Inr True \<and>
      (case st of None \<Rightarrow> True | Some gs' \<Rightarrow> gs_phase gs' = AwaitingSync \<and> gs_generation_id gs' = gs_generation_id gs + 1 \<and> agreed True gs')"
    if g: "led_ok g" "gs_phase g = Joining" "gs_phase_deadline g \<le> now" "gs_generation_id g = gs_generation_id gs" for g c
  proof -
    let ?m = "g\<lparr>gs_members := bt_retain (\<lambda>_ member. ms_joined_rebalance member = gs_rebalance_id g) (gs_members g)\<rparr>"
    show ?thesis
    proof (cases "gs_members ?m = []")
      case True
      with g show ?thesis by (simp add: advance_phase_def)
    next
      case False
      have kept: "core_ok ?m" "phase_ok False ?m"
        using core_ok_filter phase_ok_filter g(1) unfolding bt_retain_def led_ok_def by blast+
      obtain k where k: "ensure_leader ?m = (Inr (), ?m\<lparr>gs_leader_id := k\<rparr>)" "bt_contains (gs_members ?m) k"
        using ensure_leader_run [OF False] by blast
      have "led_ok (?m\<lparr>gs_leader_id := k\<rparr>)" using kept k(2) by (simp add: led_ok_def)
      moreover have "all_joined (?m\<lparr>gs_leader_id := k\<rparr>)" by (simp add: all_joined_def list_all_iff bt_retain_def bt_values_def)
      ultimately show ?thesis
        using finish [of "?m\<lparr>gs_leader_id := k\<rparr>" True] g False k by (simp add: advance_phase_def Let_def in_group_def io_bind_def)
    qed
  qed
  have inv: "bt_inv (gs_members gs)" using ok by (rule group_ok_inv)
  let ?m = "gs\<lparr>gs_members := filter (\<lambda>(_, m). now < ms_deadline m) (gs_members gs)\<rparr>"
  have "case advance_group now (Some gs) of (r, st) \<Rightarrow> r = Inr True \<and>
      (case st of None \<Rightarrow> True | Some gs' \<Rightarrow> gs_phase gs' = AwaitingSync \<and> gs_generation_id gs' = gs_generation_id gs + 1 \<and> agreed True gs')"
  proof (cases "expired_members now gs = [] \<or> gs_members ?m = []")
    case True
    with phase [OF group_ok_led [OF ok] joining due refl, of False] show ?thesis
      by (auto simp: advance_group_def Let_def expired_removed [OF inv])
  next
    case False
    then have ne': "gs_members ?m \<noteq> []" by simp
    have kept: "core_ok ?m" "phase_ok False ?m"
      using core_ok_filter phase_ok_filter group_ok_led [OF ok] unfolding led_ok_def by blast+
    obtain k where k: "ensure_leader ?m = (Inr (), ?m\<lparr>gs_leader_id := k\<rparr>)" "bt_contains (gs_members ?m) k"
      using ensure_leader_run [OF ne'] by blast
    have led: "led_ok (?m\<lparr>gs_leader_id := k\<rparr>)" using kept k(2) by (simp add: led_ok_def)
    have "members_expired now ?m = (Inr (), ?m\<lparr>gs_leader_id := k\<rparr>)" using k joining by (simp add: members_expired_def io_bind_def)
    with phase [OF led, of True] joining due False show ?thesis
      by (simp add: advance_group_def Let_def expired_removed [OF inv])
  qed
  moreover have "rebalance_deadline t fallback (gs_members gs) \<le> t + millis MAX_SESSION_TIMEOUT_MS"
    using rebalance_deadline_bounds [OF ne] members_ok [OF core] by (simp add: member_ok_def)
  ultimately show ?thesis by blast
qed

section \<open>Generations\<close>

text \<open>C24 (join_outcome_agreed). A join that returns tells its member the current generation: every member of
  the group was told the same generation, protocol and leader, every member offers that
  protocol, and only the leader gets the member list, which is every member with the metadata it
  gave for the protocol.\<close>

theorem join_outcome_agreed:
  assumes "slot_ok st" and run: "join_poll now k target st = (Inr (Some out), st')"
  shows "\<exists>gs members. st' = Some gs \<and> gs_rebalance_id gs = target \<and> gs_phase gs \<noteq> Joining
    \<and> gs_protocol_name gs = Some (jo_protocol_name out)
    \<and> out = \<lparr>jo_generation_id = gs_generation_id gs, jo_protocol_name = jo_protocol_name out, jo_leader_id = jo_leader_id out,
             jo_member_id = k, jo_members = (if k = jo_leader_id out then members else [])\<rparr>
    \<and> (\<forall>e \<in> set (gs_members gs). told target (gs_generation_id gs) (jo_protocol_name out) (jo_leader_id out) members e)
    \<and> (target < u64_max \<longrightarrow> jo_leader_id out = gs_leader_id gs \<and> members = member_view (jo_protocol_name out) (gs_members gs))"
proof -
  obtain r mid where adv: "advance_group now st = (r, mid)" by force
  have ok: "slot_ok mid" using advance_group_keeps [OF assms(1), of now] adv by (simp add: keeps_group_def)
  from run adv obtain gs m where gs: "mid = Some gs" "st' = Some gs" "gs_rebalance_id gs = target"
    "bt_get (gs_members gs) k = Some m" "ms_join_result m = Some out"
    by (cases r) (auto simp: join_poll_def io_bind_def split: option.splits if_splits)
  have group: "group_ok gs" using ok gs(1) by simp
  have km: "(k, m) \<in> set (gs_members gs)" "m \<in> set (bt_values (gs_members gs))" using bt_get_value [OF gs(4)] by auto
  have phase: "gs_phase gs \<noteq> Joining" using group km gs(5) by (force simp: group_ok_def phase_ok_def)
  then have "agreed (gs_rebalance_id gs < u64_max) gs" using group by (cases "gs_phase gs") (auto simp: group_ok_def phase_ok_def)
  then obtain name leader members where agr: "gs_protocol_name gs = Some name"
    "\<forall>e \<in> set (gs_members gs). told (gs_rebalance_id gs) (gs_generation_id gs) name leader members e"
    "gs_rebalance_id gs < u64_max \<longrightarrow> leader = gs_leader_id gs \<and> members = member_view name (gs_members gs)"
    by (auto simp: agreed_def)
  have "told (gs_rebalance_id gs) (gs_generation_id gs) name leader members (k, m)" using agr(2) km by blast
  then have "out = \<lparr>jo_generation_id = gs_generation_id gs, jo_protocol_name = name, jo_leader_id = leader,
      jo_member_id = k, jo_members = (if k = leader then members else [])\<rparr>"
    using gs(5) by (simp add: told_def)
  with gs phase agr show ?thesis by (intro exI [of _ gs] exI [of _ members]) simp
qed

section \<open>Assignments\<close>

lemma exact_assignments_ok:
  assumes inv: "bt_inv (gs_members gs)" and d: "distinct (map sa_member_id assignments)"
    and ids: "set (map sa_member_id assignments) = set (bt_keys (gs_members gs))"
  shows "\<exists>installed. exact_assignments gs assignments = Inr installed"
proof -
  let ?es = "map (\<lambda>a. (sa_member_id a, sa_assignment a)) assignments"
  let ?in = "bt_of_list ?es"
  have "length (map sa_member_id assignments) = length (bt_keys (gs_members gs))"
    using distinct_card [OF d] distinct_card [OF bt_distinct [OF inv]] ids by simp
  then have len: "length assignments = length (gs_members gs)" by (simp add: bt_keys_def)
  have keys: "set (bt_keys ?in) = set (map sa_member_id assignments)"
  proof -
    have "bt_contains ?in k \<longleftrightarrow> k \<in> set (map sa_member_id assignments)" for k
      using bt_of_list_run [of ?es] unfolding bt_contains_def by (simp add: map_of_eq_None_iff image_iff)
    then show ?thesis unfolding bt_contains_keys by blast
  qed
  have "distinct (bt_keys ?in)" using bt_of_list_run bt_distinct by blast
  from distinct_card [OF this] distinct_card [OF d] keys have "length (bt_keys ?in) = length (map sa_member_id assignments)" by simp
  then have "length ?in = length assignments" by (simp add: bt_keys_def)
  moreover have "\<not> list_ex (\<lambda>k. \<not> bt_contains (gs_members gs) k) (bt_keys ?in)"
    using keys ids by (auto simp: list_ex_iff bt_contains_keys)
  ultimately show ?thesis using len by (auto simp: exact_assignments_def Let_def)
qed

text \<open>The assignments a leader submits are installed as they are.\<close>

definition assignments_installed :: "sync_assignment list \<Rightarrow> group_state \<Rightarrow> group_state \<Rightarrow> bool" where
  "assignments_installed assignments gs gs' \<longleftrightarrow>
     gs_phase gs' = Stable \<and> gs_generation_id gs' = gs_generation_id gs \<and> bt_keys (gs_members gs') = bt_keys (gs_members gs)
   \<and> (\<forall>k. map_option ms_assignment (bt_get (gs_members gs') k)
        = map_option Some (map_of (map (\<lambda>a. (sa_member_id a, sa_assignment a)) assignments) k))"

lemma sync_submit_installs:
  assumes ok: "group_ok gs" and k: "bt_contains (gs_members gs) k" and phase: "gs_phase gs = AwaitingSync" "gs_leader_id gs = k"
    and exact: "exact_assignments gs assignments = Inr installed"
  shows "\<exists>gs'. sync_submit now k assignments gs = (Inr (), gs') \<and> group_ok gs' \<and> assignments_installed assignments gs gs'"
proof -
  have inv: "bt_inv (gs_members gs)" using ok by (rule group_ok_inv)
  note facts = exact_assignments_Inr [OF inv exact]
  let ?ms = "bt_map (installed_member now installed) (gs_members gs)"
  let ?g = "gs\<lparr>gs_members := ?ms, gs_phase := Stable\<rparr>"
  have inst: "install_assignments now installed gs = (Inr (), gs\<lparr>gs_members := ?ms\<rparr>)"
    using bt_distinct [OF facts(1)] facts(2) by (intro install_assignments_run [OF inv]) (auto simp: bt_keys_def)
  have g: "group_ok ?g"
    by (rule installed_ok [OF ok]) (use phase facts(2) in \<open>simp_all add: bt_keys_def flip: set_map\<close>)
  obtain gs' where gs': "update_member k (refreshed now) ?g = (Inr (), gs')" "group_ok gs'"
    "gs' = ?g\<lparr>gs_members := bt_map (\<lambda>k' m. if k' = k then refreshed now m else m) (gs_members ?g)\<rparr>"
    using refresh_run [OF g, of k now] k by auto
  have "map_option ms_assignment (bt_get (gs_members gs') x) = map_option Some (map_of installed x)" for x
  proof (cases "bt_get (gs_members gs) x")
    case None
    then have "x \<notin> set (bt_keys installed)" using facts(2) by (simp add: bt_contains_def flip: bt_contains_keys)
    then have "map_of installed x = None" by (simp add: bt_keys_def map_of_eq_None_iff)
    with None show ?thesis by (simp add: gs'(3) bt_get_map)
  next
    case (Some m)
    then have "x \<in> set (bt_keys installed)" using facts(2) by (simp add: bt_contains_def flip: bt_contains_keys)
    then obtain a where "map_of installed x = Some a" by (auto simp: bt_contains_def bt_get_def simp flip: bt_contains_keys)
    with Some show ?thesis by (simp add: gs'(3) bt_get_map installed_member_def)
  qed
  then have "assignments_installed assignments gs gs'"
    using facts(4) by (simp add: assignments_installed_def gs'(3) bt_get_def fun_eq_iff)
  moreover have "sync_submit now k assignments gs = (Inr (), gs')"
    using phase exact inst gs'(1) by (simp add: sync_submit_def io_bind_def)
  ultimately show ?thesis using gs'(2) by blast
qed

text \<open>C23 (sync_installs_exact). The leader's first sync of a generation that waits for it is accepted exactly
  if it names every member once. It then makes the group stable with precisely the submitted
  assignments and returns the leader's own; otherwise it is refused and changes nothing.\<close>

theorem sync_installs_exact:
  assumes ok: "slot_ok st" and adv: "advance_group now st = (Inr changed, Some gs)"
    and waiting: "gs_phase gs = AwaitingSync" "gs_leader_id gs = k" "gs_generation_id gs = generation"
    and run: "sync_poll now generation k assignments False st = (out, st')"
  shows "if distinct (map sa_member_id assignments) \<and> set (map sa_member_id assignments) = set (bt_keys (gs_members gs))
    then \<exists>gs' own. st' = Some gs' \<and> assignments_installed assignments gs gs' \<and> out = Inr (Finish (Inr (Synced own)))
       \<and> \<lparr>sa_member_id = k, sa_assignment = own\<rparr> \<in> set assignments
    else out = Inl (Kafka InvalidRequest) \<and> st' = Some gs"
proof -
  have gs: "group_ok gs" using advance_group_keeps [OF ok, of now] adv by (simp add: keeps_group_def)
  have inv: "bt_inv (gs_members gs)" using gs by (rule group_ok_inv)
  have k: "bt_contains (gs_members gs) k" using gs waiting(2) by (simp add: group_ok_def)
  have active: "active_group generation k (Some gs) = Inr gs" using k waiting(3) by (simp add: active_group_Inr)
  show ?thesis
  proof (cases "exact_assignments gs assignments")
    case (Inl e)
    then have "e = Kafka InvalidRequest" by (auto simp: exact_assignments_def Let_def split: if_splits)
    with Inl run adv active waiting have "out = Inl (Kafka InvalidRequest) \<and> st' = Some gs"
      by (simp add: sync_poll_def io_bind_def in_group_def sync_submit_def)
    moreover have "\<not> (distinct (map sa_member_id assignments) \<and> set (map sa_member_id assignments) = set (bt_keys (gs_members gs)))"
      using exact_assignments_ok [OF inv] Inl by fastforce
    ultimately show ?thesis by (simp only: if_False)
  next
    case (Inr installed)
    note facts = exact_assignments_Inr [OF inv Inr]
    obtain gs' where sub: "sync_submit now k assignments gs = (Inr (), gs')" and inst: "assignments_installed assignments gs gs'"
      using sync_submit_installs [OF gs k waiting(1,2) Inr] by blast
    have "k \<in> set (map sa_member_id assignments)" using facts(5) k by (simp only: bt_contains_keys)
    then obtain a where a: "a \<in> set assignments" "sa_member_id a = k" by auto
    then have own: "map_of (map (\<lambda>a. (sa_member_id a, sa_assignment a)) assignments) k = Some (sa_assignment a)"
      using facts(3) by (intro map_of_is_SomeI) (auto simp: comp_def)
    then obtain m where m: "bt_get (gs_members gs') k = Some m" "ms_assignment m = Some (sa_assignment a)"
      using inst unfolding assignments_installed_def by (auto dest!: spec [of _ k])
    have "gs_phase gs' = Stable" using inst by (simp add: assignments_installed_def)
    with m run adv active waiting sub
    have "out = Inr (Finish (Inr (Synced (sa_assignment a)))) \<and> st' = Some gs'"
      by (simp add: sync_poll_def io_bind_def in_group_def sync_outcome_def)
    moreover have "\<lparr>sa_member_id = k, sa_assignment = sa_assignment a\<rparr> = a" using a(2) by (cases a) simp
    ultimately show ?thesis using facts(3,5) inst a(1) by auto
  qed
qed

section \<open>Commits\<close>

text \<open>A member that may commit: alive, of the current generation of a stable group, with an assignment.\<close>

definition may_commit :: "nat \<Rightarrow> int \<Rightarrow> string \<Rightarrow> group_state \<Rightarrow> bool" where
  "may_commit now generation k gs \<longleftrightarrow>
     gs_phase gs = Stable \<and> gs_generation_id gs = generation
   \<and> (\<exists>m. bt_get (gs_members gs) k = Some m \<and> now < ms_deadline m \<and> ms_assignment m \<noteq> None)"

text \<open>C19 (commit_fenced). A commit reaches the offset store only for a live member of the current stable
  generation, holding the group's lock: the store's outcome is the reply, and the group is as it
  was when the member was checked. For anybody else, such as a member of an earlier generation
  or one whose session expired, nothing is written and the request fails.\<close>

theorem commit_fenced:
  assumes ok: "slot_ok st" and adv: "advance_group now st = (checked, mid)"
    and run: "commit_section E prefix now gid generation k commits (w, st) = (out, (w', st'))"
  shows "st' = mid \<and>
    (if \<exists>u gs. checked = Inr u \<and> mid = Some gs \<and> may_commit now generation k gs
     then (w', out) = (if commits = [] then (w, Inr (Finish (Inr Accepted)))
       else case commit_offsets E prefix gid commits w of
              (Inr _, w') \<Rightarrow> (w', Inr (Finish (Inr Accepted))) | (Inl e, w') \<Rightarrow> (w', Inl (StorageError e)))
     else w' = w \<and> out \<noteq> Inr (Finish (Inr Accepted)))"
proof (cases checked)
  case (Inl e)
  with run adv show ?thesis by (auto simp: commit_section_def io_bind_def io_snd_def)
next
  case (Inr u)
  show ?thesis
  proof (cases "active_group generation k mid")
    case (Inl e)
    then have "\<not> (\<exists>gs. mid = Some gs \<and> may_commit now generation k gs)"
      by (auto simp: active_group_def may_commit_def bt_contains_def split: if_splits)
    with Inl Inr run adv show ?thesis
      by (auto simp: commit_section_def io_bind_def io_snd_def then_reclaim_def split: if_splits)
  next
    case (Inr gs)
    then have gs: "mid = Some gs" "bt_contains (gs_members gs) k" "gs_generation_id gs = generation" by (auto simp: active_group_Inr)
    then obtain m where m: "bt_get (gs_members gs) k = Some m" by (auto simp: bt_contains_def)
    have "all_live now gs"
    proof (cases st)
      case None
      with adv gs(1) show ?thesis by (simp add: advance_group_def)
    next
      case (Some g)
      then have "group_ok g" using ok by simp
      from advance_members [OF this, of now] adv gs(1) Some show ?thesis by (simp add: left_with_def)
    qed
    then have live: "now < ms_deadline m" using bt_get_value [OF m] by (simp add: all_live_def)
    have may: "may_commit now generation k gs \<longleftrightarrow> gs_phase gs = Stable \<and> ms_assignment m \<noteq> None"
      using gs m live by (auto simp: may_commit_def)
    show ?thesis
    proof (cases "gs_phase gs = Stable \<and> ms_assignment m \<noteq> None")
      case False
      with run adv \<open>checked = Inr u\<close> Inr gs m may show ?thesis
        by (auto simp: commit_section_def io_bind_def io_snd_def then_reclaim_def)
    next
      case True
      obtain r w2 where store: "commit_offsets E prefix gid commits w = (r, w2)" by force
      from True run adv \<open>checked = Inr u\<close> Inr gs m may store show ?thesis
        by (cases r) (auto simp: commit_section_def io_bind_def io_snd_def io_fst_def io_map_err_def map_err_def split: if_splits)
    qed
  qed
qed

end
