(* ===== verification/Coordinator_Witnesses.thy ===== *)
theory Coordinator_Witnesses
  imports Coordinator_Guarantees Group_Witnesses
begin

text \<open>
  The coordinator's properties at concrete groups and at a concrete run: a group that is joining,
  the same group waiting for its leader, and stable; and a process in which one request founded
  a group while another one joins it.
\<close>

section \<open>A group in its three phases\<close>

definition range_protocol :: "join_protocol list" where
  "range_protocol = [\<lparr>jp_name = ''range'', jp_metadata = [1]\<rparr>]"

definition sample_member :: "nat \<Rightarrow> bytes option \<Rightarrow> join_outcome option \<Rightarrow> member_state" where
  "sample_member joined assignment result =
     \<lparr>ms_protocols = range_protocol, ms_assignment = assignment, ms_session_timeout = millis 10000,
      ms_rebalance_timeout = millis 10000, ms_deadline = 100, ms_joined_rebalance = joined, ms_join_result = result\<rparr>"

definition sample_view :: "join_member list" where
  "sample_view = [\<lparr>jm_member_id = ''a'', jm_metadata = [1]\<rparr>, \<lparr>jm_member_id = ''aa'', jm_metadata = [1]\<rparr>]"

definition sample_outcome :: "string \<Rightarrow> join_member list \<Rightarrow> join_outcome" where
  "sample_outcome k ms =
     \<lparr>jo_generation_id = 7, jo_protocol_name = ''range'', jo_leader_id = ''a'', jo_member_id = k, jo_members = ms\<rparr>"

definition joining_group :: group_state where
  "joining_group =
     \<lparr>gs_generation_id = 6, gs_rebalance_id = 3, gs_phase = Joining, gs_phase_deadline = 5, gs_protocol_type = ''consumer'',
      gs_protocol_name = None, gs_leader_id = ''a'',
      gs_members = [(''a'', sample_member 3 None None), (''aa'', sample_member 2 None None)]\<rparr>"

definition awaiting_group :: group_state where
  "awaiting_group =
     \<lparr>gs_generation_id = 7, gs_rebalance_id = 3, gs_phase = AwaitingSync, gs_phase_deadline = 50, gs_protocol_type = ''consumer'',
      gs_protocol_name = Some ''range'', gs_leader_id = ''a'',
      gs_members = [(''a'', sample_member 3 None (Some (sample_outcome ''a'' sample_view))),
                    (''aa'', sample_member 3 None (Some (sample_outcome ''aa'' [])))]\<rparr>"

definition stable_group :: group_state where
  "stable_group =
     \<lparr>gs_generation_id = 7, gs_rebalance_id = 3, gs_phase = Stable, gs_phase_deadline = 50, gs_protocol_type = ''consumer'',
      gs_protocol_name = Some ''range'', gs_leader_id = ''a'',
      gs_members = [(''a'', sample_member 3 (Some [8]) (Some (sample_outcome ''a'' sample_view))),
                    (''aa'', sample_member 3 (Some [9]) (Some (sample_outcome ''aa'' [])))]\<rparr>"

lemma sample_member_simps [simp]:
  "ms_protocols (sample_member j a r) = range_protocol" "ms_assignment (sample_member j a r) = a"
  "ms_deadline (sample_member j a r) = 100" "ms_joined_rebalance (sample_member j a r) = j"
  "ms_join_result (sample_member j a r) = r" "member_ok n (sample_member j a r) \<longleftrightarrow> j \<le> n"
  by (auto simp: sample_member_def member_ok_def timeout_ok_def millis_def MAX_SESSION_TIMEOUT_MS_def)

lemma range_protocol_simps [simp]:
  "offers range_protocol ''range''" "protocols_size range_protocol = 6"
  "metadata_for ''range'' (sample_member j a r) = [1]"
  by (simp_all add: range_protocol_def offers_def protocols_size_def metadata_for_def sample_member_def)

lemma sample_groups_ok: "group_ok joining_group" "group_ok awaiting_group" "group_ok stable_group"
proof -
  have offered: "\<exists>name. offers range_protocol name" by (rule exI [of _ "''range''"]) simp
  show "group_ok joining_group"
    using offered
    by (simp add: group_ok_def core_ok_def phase_ok_def joining_group_def bt_inv_def bt_keys_def bt_values_def bt_contains_def bt_get_def
        members_size_def MAX_GROUP_MEMBERS_def MAX_GROUP_PROTOCOL_BYTES_def range_simps)
  show "group_ok awaiting_group"
    using offered
    by (simp add: group_ok_def core_ok_def phase_ok_def awaiting_group_def bt_inv_def bt_keys_def bt_values_def bt_contains_def bt_get_def
        members_size_def MAX_GROUP_MEMBERS_def MAX_GROUP_PROTOCOL_BYTES_def range_simps agreed_def told_def sample_outcome_def sample_view_def
        member_view_def)
  show "group_ok stable_group"
    using offered
    by (simp add: group_ok_def core_ok_def phase_ok_def stable_group_def bt_inv_def bt_keys_def bt_values_def bt_contains_def bt_get_def
        members_size_def MAX_GROUP_MEMBERS_def MAX_GROUP_PROTOCOL_BYTES_def range_simps agreed_def told_def sample_outcome_def sample_view_def
        member_view_def)
qed

theorem expiry_exact_witness:
  "bt_keys (gs_members (the (snd (advance_group 10 (Some joining_group))))) = [''a'']"
proof -
  obtain r st where run: "advance_group 10 (Some joining_group) = (r, st)" by force
  have "bt_keys (survivors 10 joining_group) = [''a'']" by (simp add: survivors_def joining_group_def bt_keys_def)
  moreover have "survivors 10 joining_group \<noteq> []" by (simp add: survivors_def joining_group_def)
  ultimately show ?thesis using expiry_exact [OF sample_groups_ok(1) run] run by (cases st) auto
qed

theorem rebalance_ends_witness:
  "case advance_group 10 (Some joining_group) of (r, st) \<Rightarrow> r = Inr True \<and>
     (case st of None \<Rightarrow> True | Some gs \<Rightarrow> gs_phase gs = AwaitingSync \<and> gs_generation_id gs = 7 \<and> agreed True gs)"
proof -
  have "gs_phase joining_group = Joining" "gs_phase_deadline joining_group \<le> 10" "gs_generation_id joining_group < i32_max"
    and gen: "gs_generation_id joining_group + 1 = 7"
    by (simp_all add: joining_group_def i32_max_def)
  from rebalance_ends [OF sample_groups_ok(1) this(1-3), of 0 0] show ?thesis
    unfolding gen by (rule conjunct1)
qed

lemma nothing_due:
  "advance_group 10 (Some awaiting_group) = (Inr False, Some awaiting_group)"
  "advance_group 10 (Some stable_group) = (Inr False, Some stable_group)"
  by (simp_all add: advance_group_def expired_members_def advance_phase_def awaiting_group_def stable_group_def)

lemma sample_join_poll:
  "join_poll 10 ''aa'' 3 (Some awaiting_group) = (Inr (Some (sample_outcome ''aa'' [])), Some awaiting_group)"
  by (simp add: join_poll_def io_bind_def nothing_due) (simp add: awaiting_group_def bt_get_def)

theorem join_outcome_agreed_witness:
  "join_poll 10 ''aa'' 3 (Some awaiting_group) = (Inr (Some (sample_outcome ''aa'' [])), Some awaiting_group)
   \<and> gs_protocol_name awaiting_group = Some ''range'' \<and> gs_leader_id awaiting_group = ''a''"
proof -
  have "slot_ok (Some awaiting_group)" using sample_groups_ok by simp
  from join_outcome_agreed [OF this sample_join_poll] show ?thesis
    using sample_join_poll by (auto simp: sample_outcome_def u64_max_def)
qed

definition sample_assignments :: "sync_assignment list" where
  "sample_assignments = [\<lparr>sa_member_id = ''aa'', sa_assignment = [9]\<rparr>, \<lparr>sa_member_id = ''a'', sa_assignment = [8]\<rparr>]"

theorem sync_installs_exact_witness:
  "\<exists>gs' own. snd (sync_poll 10 7 ''a'' sample_assignments False (Some awaiting_group)) = Some gs'
     \<and> assignments_installed sample_assignments awaiting_group gs' \<and> own = [8]
     \<and> fst (sync_poll 10 7 ''a'' sample_assignments False (Some awaiting_group)) = Inr (Finish (Inr (Synced own)))"
proof -
  obtain out st where run: "sync_poll 10 7 ''a'' sample_assignments False (Some awaiting_group) = (out, st)" by force
  have ok: "slot_ok (Some awaiting_group)" using sample_groups_ok by simp
  have waiting: "gs_phase awaiting_group = AwaitingSync" "gs_leader_id awaiting_group = ''a''" "gs_generation_id awaiting_group = 7"
    by (simp_all add: awaiting_group_def)
  have "distinct (map sa_member_id sample_assignments) \<and> set (map sa_member_id sample_assignments) = set (bt_keys (gs_members awaiting_group))"
    by (auto simp: sample_assignments_def awaiting_group_def bt_keys_def)
  with sync_installs_exact [OF ok nothing_due(1) waiting run] run show ?thesis
    by (auto simp: sample_assignments_def)
qed

theorem commit_fenced_witness:
  "commit_section (group_mem_env offset_versions) ''p'' 10 ''g'' 7 ''aa'' sample_commit (committed_bucket, Some stable_group)
     = (Inr (Finish (Inr Accepted)), (moved_bucket, Some stable_group))"
proof -
  let ?run = "commit_section (group_mem_env offset_versions) ''p'' 10 ''g'' 7 ''aa'' sample_commit (committed_bucket, Some stable_group)"
  obtain out w st where run: "?run = (out, (w, st))" by (metis prod.exhaust)
  have ok: "slot_ok (Some stable_group)" using sample_groups_ok by simp
  have "may_commit 10 7 ''aa'' stable_group" by (simp add: may_commit_def stable_group_def bt_get_def)
  moreover have "sample_commit \<noteq> []" by (simp add: sample_commit_def)
  ultimately show ?thesis
    using commit_fenced [OF ok nothing_due(2) run] run by (simp add: sample_commit_run ex_bool_eq)
qed

section \<open>A run of the process\<close>

definition sample_join :: group_request where
  "sample_join = JoinRequest ''g'' 10000 10000 [] ''consumer'' range_protocol"

lemma sample_uuids: "uuid_laws (group_mem_env ms)"
  by (simp add: uuid_laws_def mem_uuid_def)

definition founded :: "mem coordinator" where
  "founded =
     \<lparr>cd_groups = [(''g'', 0)], cd_slots = (\<lambda>_. None)(0 := None), cd_tasks = [(0, Task sample_join 0 JoinEnter)],
      cd_next_slot = 1, cd_next_task = 1, cd_world = ([], 0)\<rparr>"

definition first_member :: group_state where
  "first_member = first_group 0 (millis 10000) (millis 10000) ''consumer'' range_protocol ''u''"

definition entered :: "mem coordinator" where
  "entered =
     \<lparr>cd_groups = [(''g'', 0)], cd_slots = (\<lambda>_. None)(0 := Some first_member), cd_tasks = [(0, Task sample_join 0 (JoinSettle ''u'' 1))],
      cd_next_slot = 1, cd_next_task = 1, cd_world = ([], 1)\<rparr>"

definition second_join :: "mem coordinator" where
  "second_join =
     entered\<lparr>cd_tasks := [(0, Task sample_join 0 (JoinSettle ''u'' 1)), (1, Task sample_join 0 JoinEnter)], cd_next_task := 2\<rparr>"

lemma sample_join_checked: "check_request sample_join = Inr ()"
  by (simp add: sample_join_def check_group_def validate_group_id_def group_checks validate_session_timeout_def validate_rebalance_timeout_def
      MAX_SESSION_TIMEOUT_MS_def validate_member_id_def validate_protocols_def CONSUMER_PROTOCOL_TYPE_def range_protocol_def MAX_PROTOCOLS_def
      validate_token_def MAX_IDENTIFIER_BYTES_def safe_char_def is_ascii_alphanumeric_def is_ascii_digit_def MAX_GROUP_BLOB_BYTES_def
      add_lengths_def checked_add_u64_def u64_max_def MAX_MEMBER_PROTOCOL_BYTES_def)

lemma sample_steps:
  "start_request 0 sample_join (coordinator_new ([], 0)) = (Inr (), founded)"
  "resume_task (group_mem_env ms) ''p'' 0 0 (Task sample_join 0 JoinEnter) founded = (None, entered)"
  "start_request 0 sample_join entered = (Inr (), second_join)"
proof -
  have join: "request_slot now sample_join = join_group_slot now ''g'' []" "first_stage sample_join = JoinEnter" for now
    by (simp_all add: sample_join_def fun_eq_iff)
  show "start_request 0 sample_join (coordinator_new ([], 0)) = (Inr (), founded)"
    by (simp add: start_request_def io_bind_def sample_join_checked join join_group_slot_def bt_get_def coordinator_new_def Let_def
        sweep_reclaimable_slots_def MAX_GROUP_SLOTS_def founded_def)
  show "start_request 0 sample_join entered = (Inr (), second_join)"
    by (simp add: start_request_def io_bind_def sample_join_checked join join_group_slot_def bt_get_def entered_def second_join_def)
  show "resume_task (group_mem_env ms) ''p'' 0 0 (Task sample_join 0 JoinEnter) founded = (None, entered)"
    by (simp add: resume_task_def founded_def sample_join_def join_enter_def io_bind_def io_snd_def io_fst_def io_call_def
        advance_group_def mem_uuid_def entered_def first_member_def Let_def)
qed

lemma founded_reachable: "coordinator_reachable (group_mem_env ms) ''p'' founded"
  by (rule coordinator_reachable.later [OF coordinator_reachable.initial coordinator_step.started [OF sample_steps(1)]])

lemma entered_reachable: "coordinator_reachable (group_mem_env ms) ''p'' entered"
  by (rule coordinator_reachable.later [OF founded_reachable coordinator_step.resumed [OF _ sample_steps(2)]])
    (simp add: founded_def bt_get_def)

lemma second_reachable: "coordinator_reachable (group_mem_env ms) ''p'' second_join"
  by (rule coordinator_reachable.later [OF entered_reachable coordinator_step.started [OF sample_steps(3)]])

theorem coordinator_invariant_witness: "cd_slots entered 0 = Some first_member \<and> group_ok first_member"
proof -
  have "cd_slots entered 0 = Some first_member" by (simp add: entered_def)
  with coordinator_invariant [OF sample_uuids entered_reachable] show ?thesis by blast
qed

theorem one_slot_per_group_witness:
  "bt_get (cd_groups second_join) ''g'' = Some 0 \<and> tk_slot (Task sample_join 0 JoinEnter) = tk_slot (Task sample_join 0 (JoinSettle ''u'' 1))"
proof -
  have "bt_get (cd_tasks second_join) 0 = Some (Task sample_join 0 (JoinSettle ''u'' 1))" "bt_get (cd_tasks second_join) 1 = Some (Task sample_join 0 JoinEnter)"
    by (simp_all add: second_join_def bt_get_def)
  from one_slot_per_group [OF sample_uuids second_reachable this] show ?thesis by (simp add: sample_join_def)
qed

theorem coordinator_never_panics_witness:
  "coordinator_step (group_mem_env []) ''p'' founded (Reply (HeartbeatRequest ''gg'' 1 ''u'') (Inl (Kafka UnknownMemberId))) founded
   \<and> \<not> panics (Kafka UnknownMemberId)"
proof -
  have "start_request 0 (HeartbeatRequest ''gg'' 1 ''u'') founded = (Inl (Kafka UnknownMemberId), founded)"
    by (simp add: start_request_def io_bind_def check_group_def validate_group_id_def validate_component_def MAX_COMPONENT_BYTES_def
        validate_member_id_def validate_token_def MAX_IDENTIFIER_BYTES_def safe_char_def is_ascii_alphanumeric_def is_ascii_digit_def
        existing_group_slot_def founded_def bt_get_def)
  then have step: "coordinator_step (group_mem_env []) ''p'' founded (Reply (HeartbeatRequest ''gg'' 1 ''u'') (Inl (Kafka UnknownMemberId))) founded"
    by (rule coordinator_step.refused)
  with coordinator_never_panics [OF sample_uuids founded_reachable step] show ?thesis by blast
qed

end
