(* ===== verification/Wire.thy ===== *)
theory Wire
  imports Records_Codec
begin

unbundle bit_operations_syntax

text \<open>
  The structural validation of request frames (\<open>src/wire.rs\<close>), which runs before the generated
  decoders allocate anything from counts on the wire: one function per advertised API over a
  cursor that owns the rest of the frame and a budget of collection items. The numeric API
  codes and the header versions come from the protocol crate and are parameters.
\<close>

definition MAX_REQUEST_COLLECTION_ITEMS :: nat where "MAX_REQUEST_COLLECTION_ITEMS = 10000"

text \<open>The API keys the source names; all others of the crate are \<open>OtherApi\<close>.\<close>

datatype api_key =
    ApiProduce | ApiInitProducerId | ApiFetch | ApiListOffsets | ApiMetadata | ApiOffsetCommit | ApiOffsetFetch
  | ApiFindCoordinator | ApiJoinGroup | ApiHeartbeat | ApiLeaveGroup | ApiSyncGroup | ApiVersions
  | OtherApi int

record api_codes =
  api_code :: "api_key \<Rightarrow> int"
  request_header_version :: "api_key \<Rightarrow> int \<Rightarrow> int"

datatype wire_error = MalformedWire string | CollectionLimit

fun wire_error_message :: "wire_error \<Rightarrow> string" where
  "wire_error_message (MalformedWire m) = ''malformed Kafka request layout: '' @ m"
| "wire_error_message CollectionLimit = ''Kafka request collection count exceeds the bounded frame layout''"

record cursor =
  cu_input :: bytes
  cu_items_left :: nat

type_synonym 'a wire = "(cursor, wire_error, 'a) io"

abbreviation malformed :: "string \<Rightarrow> 'a wire" where
  "malformed m \<equiv> io_err (MalformedWire m)"

section \<open>The cursor\<close>

definition cursor_new :: "bytes \<Rightarrow> cursor" where
  "cursor_new input = \<lparr>cu_input = input, cu_items_left = MAX_REQUEST_COLLECTION_ITEMS\<rparr>"

definition cursor_take :: "nat \<Rightarrow> bytes wire" where
  "cursor_take n c =
     (if length (cu_input c) < n then (Inl (MalformedWire ''request field exceeds frame''), c)
      else (Inr (take n (cu_input c)), c\<lparr>cu_input := drop n (cu_input c)\<rparr>))"

definition be_i16 :: "bytes \<Rightarrow> int" where
  "be_i16 bs = sint (word_of_nat (foldl (\<lambda>a b. a * 256 + unat b) 0 bs) :: 16 word)"

definition cursor_i16 :: "int wire" where
  "cursor_i16 = io_bind (cursor_take 2) (\<lambda>bs. if length bs \<noteq> 2 then malformed ''invalid int16'' else io_ret (be_i16 bs))"

definition cursor_i32 :: "int wire" where
  "cursor_i32 = io_bind (cursor_take 4) (\<lambda>bs. if length bs \<noteq> 4 then malformed ''invalid int32'' else io_ret (be_i32 bs))"

definition classic_string :: "bool \<Rightarrow> unit wire" where
  "classic_string nullable =
     io_bind cursor_i16 (\<lambda>n.
       if n = - 1 \<and> nullable then io_ret ()
       else if n \<ge> 0 then io_bind (cursor_take (nat n)) (\<lambda>_. io_ret ())
       else malformed ''invalid string length'')"

text \<open>The loop of \<open>unsigned_varint\<close> counted down: \<open>n\<close> rounds are left and \<open>index\<close> are done.\<close>

fun unsigned_varint_from :: "nat \<Rightarrow> nat \<Rightarrow> 32 word \<Rightarrow> (32 word) wire" where
  "unsigned_varint_from 0 index value = malformed ''unterminated varint''"
| "unsigned_varint_from (Suc n) index value =
     io_bind (cursor_take 1) (\<lambda>bs.
       let byte = hd bs;
           payload = ucast (byte AND 0x7F) :: 32 word
       in if index = 4 \<and> payload > 0x0F then malformed ''varint overflow''
          else let value = value OR push_bit (index * 7) payload
               in if byte AND 0x80 = 0 then io_ret value else unsigned_varint_from n (Suc index) value)"

definition unsigned_varint :: "(32 word) wire" where
  "unsigned_varint = unsigned_varint_from 5 0 0"

definition compact_string :: "unit wire" where
  "compact_string =
     io_bind unsigned_varint (\<lambda>n.
       if n = 0 then malformed ''null compact string''
       else io_bind (cursor_take (unat (n - 1))) (\<lambda>_. io_ret ()))"

definition classic_bytes :: "bool \<Rightarrow> unit wire" where
  "classic_bytes nullable =
     io_bind cursor_i32 (\<lambda>n.
       if n = - 1 \<and> nullable then io_ret ()
       else if n \<ge> 0 then io_bind (cursor_take (nat n)) (\<lambda>_. io_ret ())
       else malformed ''invalid bytes length'')"

text \<open>Counts are charged against the frame and the item budget before anything is read.\<close>

definition reserve_collection :: "nat \<Rightarrow> nat \<Rightarrow> unit wire" where
  "reserve_collection count minimum_item_bytes c =
     (if count > cu_items_left c
         \<or> (case checked_mul_u64 count minimum_item_bytes of
              None \<Rightarrow> True | Some minimum \<Rightarrow> minimum > length (cu_input c))
      then (Inl CollectionLimit, c)
      else (Inr (), c\<lparr>cu_items_left := cu_items_left c - count\<rparr>))"

definition classic_array :: "bool \<Rightarrow> nat \<Rightarrow> nat option wire" where
  "classic_array nullable minimum_item_bytes =
     io_bind cursor_i32 (\<lambda>n.
       if n = - 1 \<and> nullable then io_ret None
       else if n \<ge> 0 then io_bind (reserve_collection (nat n) minimum_item_bytes) (\<lambda>_. io_ret (Some (nat n)))
       else malformed ''invalid array count'')"

definition required_array :: "nat \<Rightarrow> string \<Rightarrow> nat wire" where
  "required_array minimum_item_bytes message =
     io_bind (classic_array False minimum_item_bytes) (\<lambda>count. io_lift (ok_or count (MalformedWire message)))"

fun tagged_fields_from :: "nat \<Rightarrow> (32 word) option \<Rightarrow> unit wire" where
  "tagged_fields_from 0 previous = io_ret ()"
| "tagged_fields_from (Suc n) previous =
     io_bind unsigned_varint (\<lambda>tag.
       if (case previous of None \<Rightarrow> False | Some p \<Rightarrow> tag \<le> p)
       then malformed ''tagged fields are duplicated or unordered''
       else io_bind unsigned_varint (\<lambda>len.
            io_bind (cursor_take (unat len)) (\<lambda>_. tagged_fields_from n (Some tag))))"

definition tagged_fields :: "unit wire" where
  "tagged_fields =
     io_bind unsigned_varint (\<lambda>count.
     io_bind (reserve_collection (unat count) 2) (\<lambda>_. tagged_fields_from (unat count) None))"

text \<open>\<open>for _ in 0..n\<close>.\<close>

fun repeat_times :: "nat \<Rightarrow> unit wire \<Rightarrow> unit wire" where
  "repeat_times 0 body = io_ret ()"
| "repeat_times (Suc n) body = io_bind body (\<lambda>_. repeat_times n body)"

section \<open>The requests\<close>

definition validate_api_versions :: "int \<Rightarrow> unit wire" where
  "validate_api_versions ver =
     (if ver \<ge> 3
      then io_bind compact_string (\<lambda>_. io_bind compact_string (\<lambda>_. tagged_fields))
      else io_ret ())"

definition validate_init_producer_id :: "int \<Rightarrow> unit wire" where
  "validate_init_producer_id ver =
     io_bind
       (if ver \<ge> 2
        then io_bind unsigned_varint (\<lambda>n.
          if n > 0 then io_bind (cursor_take (unat (n - 1))) (\<lambda>_. io_ret ()) else io_ret ())
        else classic_string True) (\<lambda>_.
     io_bind (cursor_take 4) (\<lambda>_.
     io_bind (if ver \<ge> 3 then io_bind (cursor_take 10) (\<lambda>_. io_ret ()) else io_ret ()) (\<lambda>_.
       if ver \<ge> 2 then tagged_fields else io_ret ())))"

definition validate_metadata :: "unit wire" where
  "validate_metadata =
     io_bind (classic_array True 2) (\<lambda>topics.
     io_bind (case topics of None \<Rightarrow> io_ret () | Some n \<Rightarrow> repeat_times n (classic_string False)) (\<lambda>_.
     io_bind (cursor_take 1) (\<lambda>_. io_ret ())))"

definition validate_produce :: "unit wire" where
  "validate_produce =
     io_bind (classic_string True) (\<lambda>_.
     io_bind (cursor_take 6) (\<lambda>_.
     io_bind (required_array 6 ''null topic array'') (\<lambda>topics.
       repeat_times topics
         (io_bind (classic_string False) (\<lambda>_.
          io_bind (required_array 8 ''null partition array'') (\<lambda>partitions.
            repeat_times partitions (io_bind (cursor_take 4) (\<lambda>_. classic_bytes True))))))))"

definition validate_fetch :: "unit wire" where
  "validate_fetch =
     io_bind (cursor_take 17) (\<lambda>_.
     io_bind (required_array 6 ''null topic array'') (\<lambda>topics.
       repeat_times topics
         (io_bind (classic_string False) (\<lambda>_.
          io_bind (required_array 16 ''null partition array'') (\<lambda>partitions.
            repeat_times partitions (io_bind (cursor_take 16) (\<lambda>_. io_ret ())))))))"

definition validate_list_offsets :: "unit wire" where
  "validate_list_offsets =
     io_bind (cursor_take 5) (\<lambda>_.
     io_bind (required_array 6 ''null topic array'') (\<lambda>topics.
       repeat_times topics
         (io_bind (classic_string False) (\<lambda>_.
          io_bind (required_array 12 ''null partition array'') (\<lambda>partitions.
            repeat_times partitions (io_bind (cursor_take 12) (\<lambda>_. io_ret ())))))))"

definition validate_find_coordinator :: "unit wire" where
  "validate_find_coordinator =
     io_bind (classic_string False) (\<lambda>_. io_bind (cursor_take 1) (\<lambda>_. io_ret ()))"

definition validate_join_group :: "unit wire" where
  "validate_join_group =
     io_bind (classic_string False) (\<lambda>_.
     io_bind (cursor_take 8) (\<lambda>_.
     io_bind (classic_string False) (\<lambda>_.
     io_bind (classic_string False) (\<lambda>_.
     io_bind (required_array 6 ''null protocol array'') (\<lambda>protocols.
       repeat_times protocols (io_bind (classic_string False) (\<lambda>_. classic_bytes False)))))))"

definition validate_sync_group :: "unit wire" where
  "validate_sync_group =
     io_bind (classic_string False) (\<lambda>_.
     io_bind (cursor_take 4) (\<lambda>_.
     io_bind (classic_string False) (\<lambda>_.
     io_bind (required_array 6 ''null assignment array'') (\<lambda>assignments.
       repeat_times assignments (io_bind (classic_string False) (\<lambda>_. classic_bytes False))))))"

definition validate_heartbeat :: "unit wire" where
  "validate_heartbeat =
     io_bind (classic_string False) (\<lambda>_. io_bind (cursor_take 4) (\<lambda>_. classic_string False))"

definition validate_leave_group :: "unit wire" where
  "validate_leave_group = io_bind (classic_string False) (\<lambda>_. classic_string False)"

definition validate_offset_commit :: "unit wire" where
  "validate_offset_commit =
     io_bind (classic_string False) (\<lambda>_.
     io_bind (cursor_take 4) (\<lambda>_.
     io_bind (classic_string False) (\<lambda>_.
     io_bind (cursor_take 8) (\<lambda>_.
     io_bind (required_array 6 ''null offset-commit topic array'') (\<lambda>topics.
       repeat_times topics
         (io_bind (classic_string False) (\<lambda>_.
          io_bind (required_array 14 ''null offset-commit partition array'') (\<lambda>partitions.
            repeat_times partitions (io_bind (cursor_take 12) (\<lambda>_. classic_string True))))))))))"

text \<open>The product \<open>partitions * 4\<close> is an unchecked one on \<open>usize\<close>.\<close>

definition validate_offset_fetch :: "unit wire" where
  "validate_offset_fetch =
     io_bind (classic_string False) (\<lambda>_.
     io_bind (classic_array True 6) (\<lambda>topics.
       case topics of
         None \<Rightarrow> io_ret ()
       | Some n \<Rightarrow>
           repeat_times n
             (io_bind (classic_string False) (\<lambda>_.
              io_bind (required_array 4 ''null offset-fetch partition array'') (\<lambda>partitions.
              io_bind (cursor_take ((partitions * 4) mod 2 ^ 64)) (\<lambda>_. io_ret ()))))))"

fun validate_body :: "api_key \<Rightarrow> int \<Rightarrow> unit wire" where
  "validate_body ApiVersions ver = validate_api_versions ver"
| "validate_body ApiMetadata ver = validate_metadata"
| "validate_body ApiInitProducerId ver = validate_init_producer_id ver"
| "validate_body ApiProduce ver = validate_produce"
| "validate_body ApiFetch ver = validate_fetch"
| "validate_body ApiListOffsets ver = validate_list_offsets"
| "validate_body ApiFindCoordinator ver = validate_find_coordinator"
| "validate_body ApiJoinGroup ver = validate_join_group"
| "validate_body ApiSyncGroup ver = validate_sync_group"
| "validate_body ApiHeartbeat ver = validate_heartbeat"
| "validate_body ApiLeaveGroup ver = validate_leave_group"
| "validate_body ApiOffsetCommit ver = validate_offset_commit"
| "validate_body ApiOffsetFetch ver = validate_offset_fetch"
| "validate_body (OtherApi k) ver = malformed ''unsupported request API''"

definition validate_header :: "'m api_codes_scheme \<Rightarrow> api_key \<Rightarrow> int \<Rightarrow> unit wire" where
  "validate_header K key ver =
     io_bind cursor_i16 (\<lambda>k.
       if k \<noteq> api_code K key then malformed ''request header key/version mismatch''
       else io_bind cursor_i16 (\<lambda>v.
         if v \<noteq> ver then malformed ''request header key/version mismatch''
         else io_bind (cursor_take 4) (\<lambda>_.
              io_bind (classic_string True) (\<lambda>_.
                if request_header_version K key ver = 1 then io_ret ()
                else if request_header_version K key ver = 2 then tagged_fields
                else malformed ''unsupported request header version''))))"

definition validate_request_frame ::
  "'m api_codes_scheme \<Rightarrow> bytes \<Rightarrow> api_key \<Rightarrow> int \<Rightarrow> wire_error + unit" where
  "validate_request_frame K frame key ver =
     fst (io_bind (validate_header K key ver) (\<lambda>_.
          io_bind (validate_body key ver) (\<lambda>_.
          io_bind io_get (\<lambda>c. if cu_input c \<noteq> [] then malformed ''trailing request bytes'' else io_ret ())))
          (cursor_new frame))"

end
