(* ===== verification/Protocol_Types.thy ===== *)
theory Protocol_Types
  imports Wire Log_Append Coordinator
begin

text \<open>
  Requests, responses and the environment of the protocol layer (\<open>src/protocol.rs\<close>). The request
  and response structs are generated by the protocol crate; the records here hold the fields the
  source reads or sets, collections of topics being lists of names with their partitions. The
  decoders, encoders, default responses and numeric error codes of the crate are fields of
  \<open>protocol_env\<close>.

  The handlers run over the state of the coordinator, whose world is the bucket that the log
  engine uses too. A call of a coordinator method that takes the group's lock is
  \<open>px_await\<close>: it submits the request and returns when it has been answered, and other requests
  may make steps in between.
\<close>

section \<open>Requests\<close>

record metadata_request =
  mq_topics :: "string option list option"
  mq_allow_auto_topic_creation :: bool

record init_producer_id_request =
  iq_transactional_id :: "string option"
  iq_producer_id :: int
  iq_producer_epoch :: int

record produce_partition =
  pp_index :: int
  pp_records :: "bytes option"

record produce_request =
  pq_transactional_id :: "string option"
  pq_acks :: int
  pq_topic_data :: "(string \<times> produce_partition list) list"

record fetch_partition =
  fp_partition :: int
  fp_fetch_offset :: int
  fp_partition_max_bytes :: int

record fetch_request =
  fq_replica_id :: int
  fq_max_bytes :: int
  fq_topics :: "(string \<times> fetch_partition list) list"

record list_offsets_partition =
  lp_partition_index :: int
  lp_timestamp :: int

record list_offsets_request =
  lq_replica_id :: int
  lq_topics :: "(string \<times> list_offsets_partition list) list"

record find_coordinator_request =
  cq_key :: string
  cq_key_type :: int

record join_group_request =
  jq_group_id :: string
  jq_session_timeout_ms :: int
  jq_rebalance_timeout_ms :: int
  jq_member_id :: string
  jq_protocol_type :: string
  jq_protocols :: "(string \<times> bytes) list"

record sync_group_request =
  sq_group_id :: string
  sq_generation_id :: int
  sq_member_id :: string
  sq_assignments :: "(string \<times> bytes) list"

record heartbeat_request =
  hq_group_id :: string
  hq_generation_id :: int
  hq_member_id :: string

record leave_group_request =
  vq_group_id :: string
  vq_member_id :: string

record commit_partition =
  cp_partition_index :: int
  cp_committed_offset :: int
  cp_committed_metadata :: "string option"

record offset_commit_request =
  oq_group_id :: string
  oq_generation_id_or_member_epoch :: int
  oq_member_id :: string
  oq_retention_time_ms :: int
  oq_topics :: "(string \<times> commit_partition list) list"

record offset_fetch_request =
  tq_group_id :: string
  tq_topics :: "(string \<times> int list) list option"

datatype request_kind =
    ApiVersionsRequest
  | MetadataRequest metadata_request
  | InitProducerIdRequest init_producer_id_request
  | ProduceRequest produce_request
  | FetchRequest fetch_request
  | ListOffsetsRequest list_offsets_request
  | FindCoordinatorRequest find_coordinator_request
  | JoinGroupRequest join_group_request
  | SyncGroupRequest sync_group_request
  | HeartbeatGroupRequest heartbeat_request
  | LeaveGroupRequest leave_group_request
  | OffsetCommitRequest offset_commit_request
  | OffsetFetchRequest offset_fetch_request
  | OtherRequest

section \<open>Responses\<close>

record api_versions_response =
  vr_error_code :: int
  vr_api_keys :: "(int \<times> int \<times> int) list"

record metadata_partition =
  mp_partition_index :: int
  mp_leader_id :: int
  mp_replica_nodes :: "int list"
  mp_isr_nodes :: "int list"

record metadata_topic =
  mt_name :: "string option"
  mt_error_code :: int
  mt_partitions :: "metadata_partition list"

record metadata_broker =
  mb_node_id :: int
  mb_host :: string
  mb_port :: int

record metadata_response =
  mr_brokers :: "metadata_broker list"
  mr_cluster_id :: "string option"
  mr_controller_id :: int
  mr_topics :: "metadata_topic list"

record init_producer_id_response =
  ir_error_code :: int
  ir_producer_id :: int
  ir_producer_epoch :: int

record produce_partition_response =
  pr_index :: int
  pr_error_code :: int
  pr_base_offset :: int

type_synonym produce_response = "(string \<times> produce_partition_response list) list"

record partition_data =
  pd_partition_index :: int
  pd_error_code :: int
  pd_high_watermark :: int
  pd_last_stable_offset :: int
  pd_records :: "bytes option"

type_synonym fetch_response = "(string \<times> partition_data list) list"

record list_offsets_partition_response =
  lr_partition_index :: int
  lr_error_code :: int
  lr_offset :: int

type_synonym list_offsets_response = "(string \<times> list_offsets_partition_response list) list"

record find_coordinator_response =
  cr_error_code :: int
  cr_error_message :: "string option"
  cr_node_id :: int
  cr_host :: string
  cr_port :: int

record join_group_response =
  jr_error_code :: int
  jr_generation_id :: int
  jr_protocol_name :: "string option"
  jr_leader :: string
  jr_member_id :: string
  jr_members :: "(string \<times> bytes) list"

record sync_group_response =
  sr_error_code :: int
  sr_assignment :: bytes

record commit_partition_response =
  or_partition_index :: int
  or_error_code :: int

type_synonym offset_commit_response = "(string \<times> commit_partition_response list) list"

record offset_fetch_partition_response =
  tr_partition_index :: int
  tr_committed_offset :: int
  tr_metadata :: "string option"
  tr_error_code :: int

record offset_fetch_response =
  fr_error_code :: int
  fr_topics :: "(string \<times> offset_fetch_partition_response list) list"

datatype response_kind =
    ApiVersionsResponse api_versions_response
  | MetadataResponse metadata_response
  | InitProducerIdResponse init_producer_id_response
  | ProduceResponse produce_response
  | FetchResponse fetch_response
  | ListOffsetsResponse list_offsets_response
  | FindCoordinatorResponse find_coordinator_response
  | JoinGroupResponse join_group_response
  | SyncGroupResponse sync_group_response
  | HeartbeatResponse int
  | LeaveGroupResponse int
  | OffsetCommitResponse offset_commit_response
  | OffsetFetchResponse offset_fetch_response

text \<open>The crate's default values, where a handler does not set every field of the record.\<close>

record response_defaults =
  df_api_versions :: api_versions_response
  df_metadata_topic :: metadata_topic
  df_init_producer_id :: init_producer_id_response
  df_partition_data :: partition_data
  df_list_offsets_partition :: list_offsets_partition_response
  df_join_group :: join_group_response
  df_sync_group :: sync_group_response
  df_offset_fetch :: offset_fetch_response

section \<open>Environment\<close>

record broker_identity =
  id_host :: string
  id_port :: nat
  id_cluster_id :: string

datatype protocol_error =
    FrameTooSmall nat
  | UnknownApi int
  | UnsupportedApi int
  | ProtocolUnsupportedVersion int int
  | MalformedRequest int int string
  | TrailingRequestBytes nat
  | EncodeError string
  | StorageLookup log_error
  | InvalidBrokerIdentity
  | ProtocolPanic string

text \<open>
  \<open>StorageLookup\<close> holds the error whose display text the source stores; \<open>ProtocolPanic\<close> is not an
  error of the source: it stands for a panic of the connection's task.
\<close>

record ('s, 'm, 'k) protocol_env = api_codes +
  px_log :: "('s, 'm) log_env_scheme"
  px_group :: "('s, 'k) group_env_scheme"
  px_engine :: engine
  px_group_prefix :: string
  px_await :: "group_request \<Rightarrow> ('s coordinator, coordinator_error, group_response) io"
  px_api_key_of :: "int \<Rightarrow> api_key option"
  px_error_code :: "response_error \<Rightarrow> int"
  px_defaults :: response_defaults
  px_decode_header :: "bytes \<Rightarrow> string + int \<times> bytes"
  px_decode_request :: "api_key \<Rightarrow> bytes \<Rightarrow> int \<Rightarrow> string + request_kind \<times> bytes"
  px_decode_api_versions :: "bytes \<Rightarrow> int \<Rightarrow> string + bytes"
  px_encode_header :: "int \<Rightarrow> int \<Rightarrow> string + bytes"
  px_response_header_version :: "response_kind \<Rightarrow> int \<Rightarrow> int"
  px_encode_response :: "response_kind \<Rightarrow> int \<Rightarrow> string + bytes"

type_synonym ('s, 'a) handler = "('s coordinator, protocol_error, 'a) io"

section \<open>Calls\<close>

text \<open>A call of the log engine or of the group store, its result as a value.\<close>

definition call_world :: "('s, 'e, 'a) io \<Rightarrow> ('s, 'e + 'a) handler" where
  "call_world m c = (case m (cd_world c) of (r, w) \<Rightarrow> (Inr r, c\<lparr>cd_world := w\<rparr>))"

definition call_group ::
  "('s, 'm, 'k, 'x) protocol_env_scheme \<Rightarrow> group_request \<Rightarrow> ('s, coordinator_error + group_response) handler" where
  "call_group P req = io_try (px_await P req)"

text \<open>\<open>error.response_error().code()\<close>, and the panic that is passed on instead.\<close>

definition coordinator_code :: "('s, 'm, 'k, 'x) protocol_env_scheme \<Rightarrow> coordinator_error \<Rightarrow> ('s, int) handler" where
  "coordinator_code P e =
     (case coordinator_response_error e of
        None \<Rightarrow> io_err (ProtocolPanic ''coordinator'') | Some re \<Rightarrow> io_ret (px_error_code P re))"

end
