(* ===== verification/Protocol_Log.thy ===== *)
theory Protocol_Log
  imports Protocol_Types
begin

text \<open>
  The handlers of the requests that only concern the log: metadata, producer identities, produce,
  fetch and offsets (\<open>src/protocol.rs\<close>). Each loops over topics and partitions and turns every
  result of the engine into that partition's error code.
\<close>

definition BROKER_ID :: int where "BROKER_ID = 1"
definition FETCH_RESPONSE_BASE_RESERVE :: nat where "FETCH_RESPONSE_BASE_RESERVE = 4 * 1024"
definition FETCH_RESPONSE_ITEM_RESERVE :: nat where "FETCH_RESPONSE_ITEM_RESERVE = 512"
definition MAX_FETCH_PAYLOAD_BYTES :: nat where "MAX_FETCH_PAYLOAD_BYTES = 1024 * 1024"

definition saturating_add :: "nat \<Rightarrow> nat \<Rightarrow> nat" where "saturating_add a b = min (a + b) u64_max"
definition saturating_mul :: "nat \<Rightarrow> nat \<Rightarrow> nat" where "saturating_mul a b = min (a * b) u64_max"

section \<open>Error codes\<close>

fun log_response_error :: "log_error \<Rightarrow> response_error" where
  "log_response_error (InvalidTopic _) = InvalidTopicException"
| "log_response_error (UnknownTopic _) = UnknownTopicOrPartition"
| "log_response_error (UnsupportedPartition _) = UnknownTopicOrPartition"
| "log_response_error OutOfOrderSequence = OutOfOrderSequenceNumber"
| "log_response_error log_error.InvalidProducerEpoch = response_error.InvalidProducerEpoch"
| "log_response_error ConflictingSequence = InvalidRecord"
| "log_response_error EmptyBatch = InvalidRequest"
| "log_response_error UnsupportedRecordSemantics = UnsupportedForMessageFormat"
| "log_response_error InvalidTimestampRange = InvalidTimestamp"
| "log_response_error (InvalidOffset _) = response_error.OffsetOutOfRange"
| "log_response_error (log_error.OffsetOutOfRange _ _) = response_error.OffsetOutOfRange"
| "log_response_error (BatchTooLarge _ _) = MessageTooLarge"
| "log_response_error (TooManyRecords _ _) = MessageTooLarge"
| "log_response_error (InvalidTopicMetadata _) = CorruptMessage"
| "log_response_error (InvalidManifest _) = CorruptMessage"
| "log_response_error (MissingSegment _ _) = CorruptMessage"
| "log_response_error (CorruptSegment _ _) = CorruptMessage"
| "log_response_error (Codec _) = CorruptMessage"
| "log_response_error (InvalidMaintenance _) = KafkaStorageError"
| "log_response_error (MaintenanceBudget _) = KafkaStorageError"
| "log_response_error (MaintenanceIncomplete _ _) = KafkaStorageError"
| "log_response_error OffsetOverflow = KafkaStorageError"
| "log_response_error RevisionOverflow = KafkaStorageError"
| "log_response_error (ManifestTooLarge _ _) = KafkaStorageError"
| "log_response_error (Serialization _) = KafkaStorageError"
| "log_response_error (ObjectStore _) = KafkaStorageError"
| "log_response_error (ContentionExhausted _) = KafkaStorageError"

definition log_error_code :: "('s, 'm, 'k, 'x) protocol_env_scheme \<Rightarrow> log_error \<Rightarrow> int" where
  "log_error_code P e = px_error_code P (log_response_error e)"

section \<open>Metadata\<close>

fun metadata_names ::
  "('s, 'm, 'k, 'x) protocol_env_scheme \<Rightarrow> int \<Rightarrow> string option list \<Rightarrow> protocol_error + string list" where
  "metadata_names P ver [] = Inr []"
| "metadata_names P ver (name # names) =
     attempt (ok_or name (MalformedRequest (api_code P ApiMetadata) ver ''metadata topic name is null'')) (\<lambda>n.
     attempt (metadata_names P ver names) (\<lambda>ns. Inr (n # ns)))"

definition known_partition_count ::
  "('s, 'm) log_env_scheme \<Rightarrow> engine \<Rightarrow> string \<Rightarrow> ('s, log_error, int) io" where
  "known_partition_count E L topic =
     io_bind (topic_partition_count E L topic) (\<lambda>count. io_lift (ok_or count (UnknownTopic topic)))"

definition metadata_partition_of :: "nat \<Rightarrow> metadata_partition" where
  "metadata_partition_of part =
     \<lparr>mp_partition_index = int part, mp_leader_id = BROKER_ID, mp_replica_nodes = [BROKER_ID], mp_isr_nodes = [BROKER_ID]\<rparr>"

fun metadata_topic_of ::
  "('s, 'm, 'k, 'x) protocol_env_scheme \<Rightarrow> string \<Rightarrow> log_error + int \<Rightarrow> metadata_topic" where
  "metadata_topic_of P topic (Inr partition_count) =
     (df_metadata_topic (px_defaults P))
       \<lparr>mt_name := Some topic, mt_partitions := map metadata_partition_of [0..<nat partition_count]\<rparr>"
| "metadata_topic_of P topic (Inl (InvalidTopic _)) =
     (df_metadata_topic (px_defaults P))\<lparr>mt_name := Some topic, mt_error_code := px_error_code P InvalidTopicException\<rparr>"
| "metadata_topic_of P topic (Inl (UnknownTopic _)) =
     (df_metadata_topic (px_defaults P))\<lparr>mt_name := Some topic, mt_error_code := px_error_code P UnknownTopicOrPartition\<rparr>"
| "metadata_topic_of P topic (Inl _) =
     (df_metadata_topic (px_defaults P))\<lparr>mt_name := Some topic, mt_error_code := px_error_code P KafkaStorageError\<rparr>"

definition metadata_response ::
  "('s, 'm, 'k, 'x) protocol_env_scheme \<Rightarrow> metadata_request \<Rightarrow> int \<Rightarrow> broker_identity \<Rightarrow> ('s, metadata_response) handler" where
  "metadata_response P request ver identity =
     (let E = px_log P; L = px_engine P;
          explicit_topics = (mq_topics request \<noteq> None);
          should_create = (ver < 4 \<or> mq_allow_auto_topic_creation request)
      in io_bind (case mq_topics request of
                    Some names \<Rightarrow> io_lift (metadata_names P ver names)
                  | None \<Rightarrow> io_bind (call_world (topics E L)) (\<lambda>listed. io_lift (map_err StorageLookup listed))) (\<lambda>requested.
         io_bind (io_map (\<lambda>topic.
             io_bind (call_world
                (if \<not> explicit_topics then known_partition_count E L topic
                 else if should_create then ensure_topic E L topic 0
                 else known_partition_count E L topic)) (\<lambda>result.
               io_ret (metadata_topic_of P topic result))) requested) (\<lambda>topics.
           io_ret \<lparr>mr_brokers = [\<lparr>mb_node_id = BROKER_ID, mb_host = id_host identity, mb_port = int (id_port identity)\<rparr>],
                   mr_cluster_id = Some (id_cluster_id identity), mr_controller_id = BROKER_ID, mr_topics = topics\<rparr>)))"

section \<open>Producer identities\<close>

definition init_producer_id_response ::
  "('s, 'm, 'k, 'x) protocol_env_scheme \<Rightarrow> init_producer_id_request \<Rightarrow> ('s, init_producer_id_response) handler" where
  "init_producer_id_response P request =
     (let response = df_init_producer_id (px_defaults P)
      in if iq_transactional_id request \<noteq> None
         then io_ret (response\<lparr>ir_error_code := px_error_code P UnsupportedForMessageFormat\<rparr>)
         else if iq_producer_id request < - 1 \<or> iq_producer_epoch request < - 1
            \<or> (iq_producer_id request = - 1) \<noteq> (iq_producer_epoch request = - 1)
         then io_ret (response\<lparr>ir_error_code := px_error_code P InvalidRequest\<rparr>)
         else io_bind (call_world (allocate_producer_id (px_log P) (px_engine P))) (\<lambda>allocated.
              io_ret (case allocated of
                  Inr pid \<Rightarrow> response\<lparr>ir_producer_id := pid, ir_producer_epoch := 0\<rparr>
                | Inl e \<Rightarrow> response\<lparr>ir_error_code := log_error_code P e\<rparr>)))"

section \<open>Produce\<close>

text \<open>\<open>records.by_ref().take(count)\<close> for each batch.\<close>

fun split_batches :: "nat list \<Rightarrow> 'a list \<Rightarrow> 'a list list" where
  "split_batches [] xs = []"
| "split_batches (n # ns) xs = take n xs # split_batches ns (drop n xs)"

fun codec_response_error :: "codec_error \<Rightarrow> response_error" where
  "codec_response_error UnsupportedCompression = UnsupportedCompressionType"
| "codec_response_error TooManyRecordsDeclared = MessageTooLarge"
| "codec_response_error TooManyHeaders = MessageTooLarge"
| "codec_response_error DuplicateHeaders = UnsupportedForMessageFormat"
| "codec_response_error Malformed = CorruptMessage"
| "codec_response_error ArithmeticOverflow = CorruptMessage"

definition decode_produce_batches ::
  "('s, 'm) log_env_scheme \<Rightarrow> bytes option \<Rightarrow> response_error + kafka_record list list" where
  "decode_produce_batches E encoded =
     attempt (ok_or encoded InvalidRequest) (\<lambda>encoded.
       if encoded = [] then Inl InvalidRequest
       else case decode_record_batches (le_decode_batch_info E) (le_decode_all E) (le_headers_len E) encoded of
              Inr (inspection, decoded) \<Rightarrow>
                if 0 \<in> set (in_batch_record_counts inspection) then Inl InvalidRequest
                else if list_all (\<lambda>r. rc_producer_id r = - 1) decoded then Inr [decoded]
                else Inr (split_batches (in_batch_record_counts inspection) decoded)
            | Inl e \<Rightarrow> Inl (codec_response_error e))"

text \<open>The error code and base offset of one partition.\<close>

definition produce_partition ::
  "('s, 'm, 'k, 'x) protocol_env_scheme \<Rightarrow> produce_request \<Rightarrow> string \<Rightarrow> produce_partition \<Rightarrow> ('s, int \<times> int) handler" where
  "produce_partition P request name part =
     (if \<not> (- 1 \<le> pq_acks request \<and> pq_acks request \<le> 1) then io_ret (px_error_code P InvalidRequiredAcks, - 1)
      else if pq_transactional_id request \<noteq> None then io_ret (px_error_code P UnsupportedForMessageFormat, - 1)
      else case decode_produce_batches (px_log P) (pp_records part) of
             Inl e \<Rightarrow> io_ret (px_error_code P e, - 1)
           | Inr batches \<Rightarrow>
               if pq_acks request \<noteq> - 1 \<and> list_ex (\<lambda>r. rc_producer_id r \<ge> 0) (concat batches)
               then io_ret (px_error_code P InvalidRequiredAcks, - 1)
               else io_bind (call_world (append_batches (px_log P) (px_engine P) name (pp_index part) batches)) (\<lambda>appended.
                 io_ret (case appended of
                     Inr result \<Rightarrow> (0, ar_base_offset result) | Inl e \<Rightarrow> (log_error_code P e, - 1))))"

definition produce_response ::
  "('s, 'm, 'k, 'x) protocol_env_scheme \<Rightarrow> produce_request \<Rightarrow> ('s, produce_response) handler" where
  "produce_response P request =
     io_map (\<lambda>(name, partitions).
       io_bind (io_map (\<lambda>part.
           io_bind (produce_partition P request name part) (\<lambda>(error_code, base_offset).
             io_ret \<lparr>pr_index = pp_index part, pr_error_code = error_code, pr_base_offset = base_offset\<rparr>)) partitions) (\<lambda>responses.
         io_ret (name, responses))) (pq_topic_data request)"

section \<open>Fetch\<close>

text \<open>The loop carries the rest of the byte budget and whether no partition has returned data yet.\<close>

record fetch_budget =
  fb_remaining :: nat
  fb_first_nonempty_partition :: bool

definition fetch_item_count :: "fetch_request \<Rightarrow> nat" where
  "fetch_item_count request =
     foldl (\<lambda>count (_, partitions). saturating_add count (length partitions)) (length (fq_topics request)) (fq_topics request)"

definition fetch_budget_of :: "fetch_request \<Rightarrow> nat" where
  "fetch_budget_of request =
     (let overhead_reserve = saturating_add FETCH_RESPONSE_BASE_RESERVE
            (saturating_mul FETCH_RESPONSE_ITEM_RESERVE (fetch_item_count request));
          requested_max = min (nat (fq_max_bytes request)) MAX_FETCH_PAYLOAD_BYTES
      in requested_max - overhead_reserve)"

definition fetch_one ::
  "('s, 'm, 'k, 'x) protocol_env_scheme \<Rightarrow> fetch_request \<Rightarrow> string \<Rightarrow> fetch_partition \<Rightarrow> fetch_budget
   \<Rightarrow> ('s, partition_data \<times> fetch_budget) handler" where
  "fetch_one P request name part budget =
     (let requested_partition_max = min (nat (fp_partition_max_bytes part)) MAX_FETCH_PAYLOAD_BYTES;
          partition_limit = min requested_partition_max (fb_remaining budget);
          response = (df_partition_data (px_defaults P))\<lparr>pd_partition_index := fp_partition part\<rparr>
      in if fq_max_bytes request \<le> 0 \<or> fp_partition_max_bytes part \<le> 0
         then io_ret (response\<lparr>pd_error_code := px_error_code P InvalidFetchSize\<rparr>, budget)
         else if fq_replica_id request \<noteq> - 1
         then io_ret (response\<lparr>pd_error_code := px_error_code P InvalidRequest\<rparr>, budget)
         else io_bind (call_world (fetch_bounded (px_log P) (px_engine P) name (fp_partition part) (fp_fetch_offset part)
                partition_limit (fb_first_nonempty_partition budget))) (\<lambda>fetched.
              io_ret (case fetched of
                  Inr f \<Rightarrow>
                    (response\<lparr>pd_high_watermark := ft_high_watermark f, pd_last_stable_offset := ft_high_watermark f,
                       pd_records := Some (ft_records f)\<rparr>,
                     if ft_records f \<noteq> []
                     then \<lparr>fb_remaining = fb_remaining budget - length (ft_records f), fb_first_nonempty_partition = False\<rparr>
                     else budget)
                | Inl e \<Rightarrow> (response\<lparr>pd_error_code := log_error_code P e\<rparr>, budget))))"

text \<open>A loop that carries a value along.\<close>

fun io_fold_map :: "('a \<Rightarrow> 'b \<Rightarrow> ('s, 'e, 'c \<times> 'b) io) \<Rightarrow> 'a list \<Rightarrow> 'b \<Rightarrow> ('s, 'e, 'c list \<times> 'b) io" where
  "io_fold_map f [] b = io_ret ([], b)"
| "io_fold_map f (x # xs) b =
     io_bind (f x b) (\<lambda>(y, b). io_bind (io_fold_map f xs b) (\<lambda>(ys, b). io_ret (y # ys, b)))"

definition fetch_response ::
  "('s, 'm, 'k, 'x) protocol_env_scheme \<Rightarrow> fetch_request \<Rightarrow> ('s, fetch_response) handler" where
  "fetch_response P request =
     io_bind (io_fold_map (\<lambda>(name, partitions) budget.
         io_bind (io_fold_map (fetch_one P request name) partitions budget) (\<lambda>(responses, budget).
           io_ret ((name, responses), budget)))
       (fq_topics request) \<lparr>fb_remaining = fetch_budget_of request, fb_first_nonempty_partition = True\<rparr>) (\<lambda>(topics, _).
     io_ret topics)"

section \<open>Offsets\<close>

definition list_offsets_one ::
  "('s, 'm, 'k, 'x) protocol_env_scheme \<Rightarrow> list_offsets_request \<Rightarrow> string \<Rightarrow> list_offsets_partition
   \<Rightarrow> ('s, list_offsets_partition_response) handler" where
  "list_offsets_one P request name part =
     (let response = (df_list_offsets_partition (px_defaults P))\<lparr>lr_partition_index := lp_partition_index part\<rparr>
      in if lq_replica_id request \<noteq> - 1 then io_ret (response\<lparr>lr_error_code := px_error_code P InvalidRequest\<rparr>)
         else io_bind (call_world (partition_offsets (px_log P) (px_engine P) name (lp_partition_index part))) (\<lambda>found.
              io_ret (case found of
                  Inr offsets \<Rightarrow>
                    if lp_timestamp part = - 2 then response\<lparr>lr_offset := or_earliest offsets\<rparr>
                    else if lp_timestamp part = - 1 then response\<lparr>lr_offset := or_latest offsets\<rparr>
                    else response\<lparr>lr_error_code := px_error_code P InvalidRequest\<rparr>
                | Inl e \<Rightarrow> response\<lparr>lr_error_code := log_error_code P e\<rparr>)))"

definition list_offsets_response ::
  "('s, 'm, 'k, 'x) protocol_env_scheme \<Rightarrow> list_offsets_request \<Rightarrow> ('s, list_offsets_response) handler" where
  "list_offsets_response P request =
     io_map (\<lambda>(name, partitions).
       io_bind (io_map (list_offsets_one P request name) partitions) (\<lambda>responses. io_ret (name, responses))) (lq_topics request)"

end
