(* ===== verification/Protocol_Group.thy ===== *)
theory Protocol_Group
  imports Protocol_Log
begin

text \<open>
  The handlers of the group requests (\<open>src/protocol.rs\<close>): translation to the coordinator's
  requests and back, the checks of offset commits and fetches against the log's topics, and the
  assembly of their per-partition results.
\<close>

section \<open>Membership\<close>

definition find_coordinator_response ::
  "('s, 'm, 'k, 'x) protocol_env_scheme \<Rightarrow> find_coordinator_request \<Rightarrow> broker_identity \<Rightarrow> ('s, find_coordinator_response) handler" where
  "find_coordinator_response P request identity =
     io_bind (if cq_key_type request \<noteq> 0 then io_ret (px_error_code P InvalidRequest)
              else case check_group (cq_key request) of Inl e \<Rightarrow> coordinator_code P e | Inr _ \<Rightarrow> io_ret 0) (\<lambda>error_code.
       io_ret \<lparr>cr_error_code = error_code, cr_error_message = None, cr_node_id = BROKER_ID,
               cr_host = id_host identity, cr_port = int (id_port identity)\<rparr>)"

text \<open>A reply of another kind than the request's is excluded by the types of the source.\<close>

abbreviation other_reply :: "('s, 'a) handler" where
  "other_reply \<equiv> io_err (ProtocolPanic ''reply to another request'')"

definition join_group_response ::
  "('s, 'm, 'k, 'x) protocol_env_scheme \<Rightarrow> join_group_request \<Rightarrow> ('s, join_group_response) handler" where
  "join_group_response P request =
     (let protocols = map (\<lambda>(name, metadata). \<lparr>jp_name = name, jp_metadata = metadata\<rparr>) (jq_protocols request)
      in io_bind (call_group P (JoinRequest (jq_group_id request) (jq_session_timeout_ms request)
            (jq_rebalance_timeout_ms request) (jq_member_id request) (jq_protocol_type request) protocols)) (\<lambda>joined.
         case joined of
           Inr (Joined outcome) \<Rightarrow>
             io_ret ((df_join_group (px_defaults P))
               \<lparr>jr_generation_id := jo_generation_id outcome, jr_protocol_name := Some (jo_protocol_name outcome),
                jr_leader := jo_leader_id outcome, jr_member_id := jo_member_id outcome,
                jr_members := map (\<lambda>member. (jm_member_id member, jm_metadata member)) (jo_members outcome)\<rparr>)
         | Inr _ \<Rightarrow> other_reply
         | Inl e \<Rightarrow> io_bind (coordinator_code P e) (\<lambda>code. io_ret ((df_join_group (px_defaults P))\<lparr>jr_error_code := code\<rparr>))))"

definition sync_group_response ::
  "('s, 'm, 'k, 'x) protocol_env_scheme \<Rightarrow> sync_group_request \<Rightarrow> ('s, sync_group_response) handler" where
  "sync_group_response P request =
     (let assignments = map (\<lambda>(member_id, assignment). \<lparr>sa_member_id = member_id, sa_assignment = assignment\<rparr>) (sq_assignments request)
      in io_bind (call_group P (SyncRequest (sq_group_id request) (sq_generation_id request) (sq_member_id request) assignments)) (\<lambda>synced.
         case synced of
           Inr (Synced assignment) \<Rightarrow> io_ret ((df_sync_group (px_defaults P))\<lparr>sr_assignment := assignment\<rparr>)
         | Inr _ \<Rightarrow> other_reply
         | Inl e \<Rightarrow> io_bind (coordinator_code P e) (\<lambda>code. io_ret ((df_sync_group (px_defaults P))\<lparr>sr_error_code := code\<rparr>))))"

text \<open>\<open>result.err().map_or(0, |error| error.response_error().code())\<close>\<close>

definition accepted_code ::
  "('s, 'm, 'k, 'x) protocol_env_scheme \<Rightarrow> coordinator_error + group_response \<Rightarrow> ('s, int) handler" where
  "accepted_code P result =
     (case result of Inl e \<Rightarrow> coordinator_code P e | Inr Accepted \<Rightarrow> io_ret 0 | Inr _ \<Rightarrow> other_reply)"

definition heartbeat_response ::
  "('s, 'm, 'k, 'x) protocol_env_scheme \<Rightarrow> heartbeat_request \<Rightarrow> ('s, int) handler" where
  "heartbeat_response P request =
     io_bind (call_group P (HeartbeatRequest (hq_group_id request) (hq_generation_id request) (hq_member_id request)))
       (accepted_code P)"

definition leave_group_response ::
  "('s, 'm, 'k, 'x) protocol_env_scheme \<Rightarrow> leave_group_request \<Rightarrow> ('s, int) handler" where
  "leave_group_response P request =
     io_bind (call_group P (LeaveRequest (vq_group_id request) (vq_member_id request))) (accepted_code P)"

section \<open>Committing offsets\<close>

definition commits_of :: "(string \<times> commit_partition list) list \<Rightarrow> offset_commit list" where
  "commits_of ts =
     concat (map (\<lambda>(name, partitions).
       map (\<lambda>part. \<lparr>oc_topic = name, oc_partition = cp_partition_index part, oc_offset = cp_committed_offset part,
                    oc_metadata = cp_committed_metadata part\<rparr>) partitions) ts)"

text \<open>The error code a topic and partition has on this broker.\<close>

definition topic_error ::
  "('s, 'm, 'k, 'x) protocol_env_scheme \<Rightarrow> string \<Rightarrow> int \<Rightarrow> ('s, int option) handler" where
  "topic_error P topic part =
     io_bind (call_world (topic_exists (px_log P) (px_engine P) topic part)) (\<lambda>found.
       io_ret (case found of
           Inr True \<Rightarrow> None
         | Inr False \<Rightarrow> Some (px_error_code P UnknownTopicOrPartition)
         | Inl e \<Rightarrow> Some (log_error_code P e)))"

type_synonym local_errors = "(topic_partition, int) btree_map"

fun check_commits ::
  "('s, 'm, 'k, 'x) protocol_env_scheme \<Rightarrow> offset_commit list \<Rightarrow> local_errors \<Rightarrow> offset_commit list
   \<Rightarrow> ('s, local_errors \<times> offset_commit list) handler" where
  "check_commits P [] errors valid = io_ret (errors, valid)"
| "check_commits P (commit # commits) errors valid =
     io_bind (topic_error P (oc_topic commit) (oc_partition commit)) (\<lambda>error.
       case error of
         Some code \<Rightarrow> check_commits P commits (bt_insert (TopicPartition (oc_topic commit) (oc_partition commit)) code errors) valid
       | None \<Rightarrow> check_commits P commits errors (valid @ [commit]))"

definition commit_responses ::
  "(string \<times> commit_partition list) list \<Rightarrow> int \<Rightarrow> int \<Rightarrow> local_errors \<Rightarrow> offset_commit_response" where
  "commit_responses ts request_error coordinator_error errors =
     map (\<lambda>(name, partitions). (name,
       map (\<lambda>part. \<lparr>or_partition_index = cp_partition_index part,
            or_error_code =
              (if request_error \<noteq> 0 then request_error
               else if coordinator_error \<noteq> 0 then coordinator_error
               else case bt_get errors (TopicPartition name (cp_partition_index part)) of None \<Rightarrow> 0 | Some code \<Rightarrow> code)\<rparr>)
         partitions)) ts"

definition offset_commit_response ::
  "('s, 'm, 'k, 'x) protocol_env_scheme \<Rightarrow> offset_commit_request \<Rightarrow> ('s, offset_commit_response) handler" where
  "offset_commit_response P request =
     (let commits = commits_of (oq_topics request);
          request_error = (if oq_retention_time_ms request \<noteq> - 1 then px_error_code P InvalidRequest else 0)
      in io_bind (if request_error = 0 then check_commits P commits [] [] else io_ret ([], [])) (\<lambda>(errors, valid).
         io_bind (if request_error = 0
                  then io_bind (call_group P (CommitRequest (oq_group_id request) (oq_generation_id_or_member_epoch request)
                          (oq_member_id request) valid)) (accepted_code P)
                  else io_ret 0) (\<lambda>coordinator_error.
           io_ret (commit_responses (oq_topics request) request_error coordinator_error errors))))"

section \<open>Fetching offsets\<close>

definition offset_fetch_partition :: "int \<Rightarrow> committed_offset option \<Rightarrow> int \<Rightarrow> offset_fetch_partition_response" where
  "offset_fetch_partition part committed error_code =
     \<lparr>tr_partition_index = part,
      tr_committed_offset = (case committed of None \<Rightarrow> - 1 | Some found \<Rightarrow> co_offset found),
      tr_metadata = (case committed of None \<Rightarrow> None | Some found \<Rightarrow> co_metadata found),
      tr_error_code = error_code\<rparr>"

definition offset_fetch_global_error ::
  "('s, 'm, 'k, 'x) protocol_env_scheme \<Rightarrow> (string \<times> int list) list option \<Rightarrow> coordinator_error \<Rightarrow> ('s, offset_fetch_response) handler" where
  "offset_fetch_global_error P ts e =
     io_bind (coordinator_code P e) (\<lambda>code.
       io_ret \<lparr>fr_error_code = code,
               fr_topics = map (\<lambda>(name, partitions). (name, map (\<lambda>part. offset_fetch_partition part None 0) partitions))
                 (case ts of None \<Rightarrow> [] | Some asked \<Rightarrow> asked)\<rparr>)"

text \<open>The loop over all fetched offsets, grouped by topic.\<close>

fun group_by_topic ::
  "fetched_offset list \<Rightarrow> (string, offset_fetch_partition_response list) btree_map
   \<Rightarrow> protocol_error + (string, offset_fetch_partition_response list) btree_map" where
  "group_by_topic [] by_topic = Inr by_topic"
| "group_by_topic (off # offs) by_topic =
     (case fo_committed off of
        None \<Rightarrow> Inl (ProtocolPanic ''all-offset fetches only return committed entries'')
      | Some committed \<Rightarrow>
          let key = fo_topic_partition off;
              found = (case bt_get by_topic (tp_topic key) of None \<Rightarrow> [] | Some ps \<Rightarrow> ps)
          in group_by_topic offs
               (bt_insert (tp_topic key) (found @ [offset_fetch_partition (tp_partition key) (Some committed) 0]) by_topic))"

definition selected_keys :: "(string \<times> int list) list \<Rightarrow> topic_partition list" where
  "selected_keys ts = concat (map (\<lambda>(name, partitions). map (TopicPartition name) partitions) ts)"

fun check_selection ::
  "('s, 'm, 'k, 'x) protocol_env_scheme \<Rightarrow> topic_partition list \<Rightarrow> (topic_partition, unit) btree_map \<Rightarrow> local_errors
   \<Rightarrow> ('s, (topic_partition, unit) btree_map \<times> local_errors) handler" where
  "check_selection P [] selection errors = io_ret (selection, errors)"
| "check_selection P (key # keys) selection errors =
     io_bind (case check_topic_partition key of
                Inr _ \<Rightarrow> topic_error P (tp_topic key) (tp_partition key)
              | Inl e \<Rightarrow> io_bind (coordinator_code P e) (\<lambda>code. io_ret (Some code))) (\<lambda>error.
       case error of
         None \<Rightarrow> check_selection P keys (bt_insert key () selection) errors
       | Some code \<Rightarrow> check_selection P keys selection (bt_insert key code errors))"

definition fetch_responses ::
  "(string \<times> int list) list \<Rightarrow> (topic_partition, committed_offset option) btree_map \<Rightarrow> local_errors
   \<Rightarrow> (string \<times> offset_fetch_partition_response list) list" where
  "fetch_responses ts fetched errors =
     map (\<lambda>(name, partitions). (name,
       map (\<lambda>part.
         let key = TopicPartition name part;
             error_code = (case bt_get errors key of None \<Rightarrow> 0 | Some code \<Rightarrow> code);
             committed = (case bt_get fetched key of None \<Rightarrow> None | Some found \<Rightarrow> found)
         in offset_fetch_partition part committed error_code) partitions)) ts"

definition offset_fetch_response ::
  "('s, 'm, 'k, 'x) protocol_env_scheme \<Rightarrow> offset_fetch_request \<Rightarrow> ('s, offset_fetch_response) handler" where
  "offset_fetch_response P request =
     (let gid = tq_group_id request
      in case check_group gid of
           Inl e \<Rightarrow> offset_fetch_global_error P (tq_topics request) e
         | Inr _ \<Rightarrow>
             (case tq_topics request of
                None \<Rightarrow>
                  io_bind (call_world (coordinator_fetch (px_group P) (px_group_prefix P) gid None)) (\<lambda>fetched.
                    case fetched of
                      Inr offs \<Rightarrow>
                        io_bind (io_lift (group_by_topic offs [])) (\<lambda>by_topic.
                          io_ret ((df_offset_fetch (px_defaults P))\<lparr>fr_topics := by_topic\<rparr>))
                    | Inl e \<Rightarrow> offset_fetch_global_error P None e)
              | Some ts \<Rightarrow>
                  io_bind (check_selection P (selected_keys ts) [] []) (\<lambda>(selection, errors).
                  io_bind (call_world (coordinator_fetch (px_group P) (px_group_prefix P) gid (Some (bt_keys selection)))) (\<lambda>fetched.
                    case fetched of
                      Inl e \<Rightarrow> offset_fetch_global_error P (Some ts) e
                    | Inr offs \<Rightarrow>
                        let found = bt_of_list (map (\<lambda>off. (fo_topic_partition off, fo_committed off)) offs)
                        in io_ret ((df_offset_fetch (px_defaults P))\<lparr>fr_topics := fetch_responses ts found errors\<rparr>)))))"

end
