(* ===== verification/Host_Names.thy ===== *)
theory Host_Names
  imports Walstream_Prelude
begin

text \<open>
  What the configuration code uses of the standard library: whether a string parses as an
  \<open>IpAddr\<close> (a recogniser in the order of the library's recursive-descent parser), and
  \<open>trim().is_empty()\<close> with the White_Space characters in their UTF-8 encoding.
\<close>

section \<open>Addresses\<close>

definition hex_digit :: "char \<Rightarrow> nat" where
  "hex_digit c = (let n = of_char c :: nat in if n \<le> 57 then n - 48 else if n \<le> 70 then n - 55 else n - 87)"

text \<open>\<open>read_number\<close>: all leading digits, of which there may be at most \<open>max_digits\<close>.\<close>

definition read_number :: "nat \<Rightarrow> nat \<Rightarrow> nat \<Rightarrow> bool \<Rightarrow> string \<Rightarrow> string option" where
  "read_number radix max_digits limit allow_zero_prefix s =
     (let is_digit = (if radix = 16 then is_ascii_hexdigit else is_ascii_digit);
          ds = takeWhile is_digit s
      in if ds = [] \<or> length ds > max_digits \<or> foldl (\<lambda>n c. n * radix + hex_digit c) 0 ds > limit
            \<or> (\<not> allow_zero_prefix \<and> hd ds = CHR ''0'' \<and> length ds > 1)
         then None else Some (dropWhile is_digit s))"

fun read_char :: "char \<Rightarrow> string \<Rightarrow> string option" where
  "read_char c [] = None"
| "read_char c (x # xs) = (if x = c then Some xs else None)"

definition read_octet :: "string \<Rightarrow> string option" where
  "read_octet s = read_number 10 3 255 False s"

definition read_ipv4 :: "string \<Rightarrow> string option" where
  "read_ipv4 s =
     Option.bind (read_octet s) (\<lambda>s.
     Option.bind (Option.bind (read_char (CHR ''.'') s) read_octet) (\<lambda>s.
     Option.bind (Option.bind (read_char (CHR ''.'') s) read_octet) (\<lambda>s.
       Option.bind (read_char (CHR ''.'') s) read_octet)))"

text \<open>
  \<open>read_groups\<close>: up to \<open>n\<close> further 16-bit groups, the last two possibly as an IPv4 address;
  the number of groups read, whether they ended with an address, and the rest.
\<close>

fun read_groups :: "nat \<Rightarrow> nat \<Rightarrow> string \<Rightarrow> nat \<times> bool \<times> string" where
  "read_groups 0 i s = (i, False, s)"
| "read_groups (Suc n) i s =
     (let after_separator = (if i > 0 then read_char (CHR '':'') s else Some s)
      in case (if n > 0 then Option.bind after_separator read_ipv4 else None) of
           Some rest \<Rightarrow> (i + 2, True, rest)
         | None \<Rightarrow>
             (case Option.bind after_separator (read_number 16 4 65535 True) of
                Some rest \<Rightarrow> read_groups n (Suc i) rest
              | None \<Rightarrow> (i, False, s)))"

definition read_ipv6 :: "string \<Rightarrow> string option" where
  "read_ipv6 s =
     (case read_groups 8 0 s of (head_size, head_ipv4, rest) \<Rightarrow>
        if head_size = 8 then Some rest
        else if head_ipv4 then None
        else Option.bind (read_char (CHR '':'') rest) (\<lambda>rest.
             Option.bind (read_char (CHR '':'') rest) (\<lambda>rest.
               (case read_groups (8 - (head_size + 1)) 0 rest of (_, _, rest) \<Rightarrow> Some rest))))"

definition is_ip_addr :: "string \<Rightarrow> bool" where
  "is_ip_addr s = (case read_ipv4 s of Some rest \<Rightarrow> rest = [] | None \<Rightarrow> read_ipv6 s = Some [])"

section \<open>Blank strings\<close>

text \<open>A string of White_Space characters only, as UTF-8 bytes.\<close>

definition blank_lengths :: "string \<Rightarrow> nat option" where
  "blank_lengths s =
     (case map (of_char :: char \<Rightarrow> nat) (take 3 s) of
        [] \<Rightarrow> None
      | a # rest \<Rightarrow>
          if a = 32 \<or> (9 \<le> a \<and> a \<le> 13) then Some 1
          else (case rest of
             [] \<Rightarrow> None
           | b # rest \<Rightarrow>
               if a = 0xC2 \<and> (b = 0x85 \<or> b = 0xA0) then Some 2
               else (case rest of
                  [] \<Rightarrow> None
                | c # _ \<Rightarrow>
                    if (a = 0xE1 \<and> b = 0x9A \<and> c = 0x80)
                       \<or> (a = 0xE2 \<and> b = 0x80 \<and> ((0x80 \<le> c \<and> c \<le> 0x8A) \<or> c = 0xA8 \<or> c = 0xA9 \<or> c = 0xAF))
                       \<or> (a = 0xE2 \<and> b = 0x81 \<and> c = 0x9F) \<or> (a = 0xE3 \<and> b = 0x80 \<and> c = 0x80)
                    then Some 3 else None)))"

function is_blank :: "string \<Rightarrow> bool" where
  "is_blank s =
     (if s = [] then True
      else case blank_lengths s of Some (Suc n) \<Rightarrow> is_blank (drop (Suc n) s) | _ \<Rightarrow> False)"
  by pat_completeness auto
termination by (relation "measure length") auto

declare is_blank.simps [simp del]

text \<open>\<open>trim_matches\<close> with one character.\<close>

definition trim_char :: "char \<Rightarrow> string \<Rightarrow> string" where
  "trim_char c s = rev (dropWhile (\<lambda>x. x = c) (rev (dropWhile (\<lambda>x. x = c) s)))"

end
