(* ===== verification/Protocol.thy ===== *)
theory Protocol
  imports Protocol_Group Host_Names
begin

text \<open>
  The entry point of the protocol layer (\<open>src/protocol.rs\<close>): the advertised APIs, the broker's
  identity, and \<open>handle_request\<close>, which validates a frame before anything is decoded, decodes it,
  dispatches it to its handler and encodes the response.
\<close>

section \<open>Identity\<close>

definition host_label :: "string \<Rightarrow> bool" where
  "host_label label \<longleftrightarrow>
     label \<noteq> [] \<and> length label \<le> 63 \<and> list_all (\<lambda>c. is_ascii_alphanumeric c \<or> c = CHR ''-'') label
   \<and> is_ascii_alphanumeric (hd label) \<and> is_ascii_alphanumeric (last label)"

definition valid_advertised_host :: "string \<Rightarrow> bool" where
  "valid_advertised_host host \<longleftrightarrow>
     is_ip_addr host \<or> (host \<noteq> [] \<and> length host \<le> 253 \<and> list_all host_label (split_on (CHR ''.'') host))"

definition validate_identity :: "broker_identity \<Rightarrow> protocol_error + unit" where
  "validate_identity identity =
     (if \<not> valid_advertised_host (id_host identity) \<or> id_port identity = 0 \<or> is_blank (id_cluster_id identity)
      then Inl InvalidBrokerIdentity else Inr ())"

section \<open>Advertised APIs\<close>

definition SUPPORTED_APIS :: "(api_key \<times> int \<times> int) list" where
  "SUPPORTED_APIS =
     [(ApiProduce, 7, 7), (ApiInitProducerId, 0, 4), (ApiFetch, 4, 4), (ApiListOffsets, 3, 3), (ApiMetadata, 4, 4),
      (ApiOffsetCommit, 2, 2), (ApiOffsetFetch, 3, 3), (ApiFindCoordinator, 2, 2), (ApiJoinGroup, 2, 2),
      (ApiHeartbeat, 1, 1), (ApiLeaveGroup, 1, 1), (ApiSyncGroup, 1, 1), (ApiVersions, 0, 3)]"

definition is_supported :: "api_key \<Rightarrow> int \<Rightarrow> bool" where
  "is_supported key ver = list_ex (\<lambda>(k, lo, hi). k = key \<and> lo \<le> ver \<and> ver \<le> hi) SUPPORTED_APIS"

definition api_versions_response :: "('s, 'm, 'k, 'x) protocol_env_scheme \<Rightarrow> api_versions_response" where
  "api_versions_response P =
     (df_api_versions (px_defaults P))\<lparr>vr_api_keys := map (\<lambda>(key, lo, hi). (api_code P key, lo, hi)) SUPPORTED_APIS\<rparr>"

section \<open>Dispatch\<close>

definition encode_response ::
  "('s, 'm, 'k, 'x) protocol_env_scheme \<Rightarrow> int \<Rightarrow> int \<Rightarrow> response_kind \<Rightarrow> protocol_error + bytes" where
  "encode_response P correlation_id ver response =
     attempt (map_err EncodeError (px_encode_header P correlation_id (px_response_header_version P response ver))) (\<lambda>header.
     attempt (map_err EncodeError (px_encode_response P response ver)) (\<lambda>body. Inr (header @ body)))"

text \<open>The handler of a decoded request; the flag tells whether the response is sent.\<close>

fun respond ::
  "('s, 'm, 'k, 'x) protocol_env_scheme \<Rightarrow> broker_identity \<Rightarrow> int \<Rightarrow> int \<Rightarrow> request_kind \<Rightarrow> ('s, response_kind \<times> bool) handler" where
  "respond P identity raw_key ver ApiVersionsRequest =
     io_ret (ApiVersionsResponse (api_versions_response P), True)"
| "respond P identity raw_key ver (MetadataRequest request) =
     io_bind (metadata_response P request ver identity) (\<lambda>r. io_ret (MetadataResponse r, True))"
| "respond P identity raw_key ver (InitProducerIdRequest request) =
     io_bind (init_producer_id_response P request) (\<lambda>r. io_ret (InitProducerIdResponse r, True))"
| "respond P identity raw_key ver (ProduceRequest request) =
     io_bind (produce_response P request) (\<lambda>r. io_ret (ProduceResponse r, pq_acks request \<noteq> 0))"
| "respond P identity raw_key ver (FetchRequest request) =
     io_bind (fetch_response P request) (\<lambda>r. io_ret (FetchResponse r, True))"
| "respond P identity raw_key ver (ListOffsetsRequest request) =
     io_bind (list_offsets_response P request) (\<lambda>r. io_ret (ListOffsetsResponse r, True))"
| "respond P identity raw_key ver (FindCoordinatorRequest request) =
     io_bind (find_coordinator_response P request identity) (\<lambda>r. io_ret (FindCoordinatorResponse r, True))"
| "respond P identity raw_key ver (JoinGroupRequest request) =
     io_bind (join_group_response P request) (\<lambda>r. io_ret (JoinGroupResponse r, True))"
| "respond P identity raw_key ver (SyncGroupRequest request) =
     io_bind (sync_group_response P request) (\<lambda>r. io_ret (SyncGroupResponse r, True))"
| "respond P identity raw_key ver (HeartbeatGroupRequest request) =
     io_bind (heartbeat_response P request) (\<lambda>r. io_ret (HeartbeatResponse r, True))"
| "respond P identity raw_key ver (LeaveGroupRequest request) =
     io_bind (leave_group_response P request) (\<lambda>r. io_ret (LeaveGroupResponse r, True))"
| "respond P identity raw_key ver (OffsetCommitRequest request) =
     io_bind (offset_commit_response P request) (\<lambda>r. io_ret (OffsetCommitResponse r, True))"
| "respond P identity raw_key ver (OffsetFetchRequest request) =
     io_bind (offset_fetch_response P request) (\<lambda>r. io_ret (OffsetFetchResponse r, True))"
| "respond P identity raw_key ver OtherRequest = io_err (UnsupportedApi raw_key)"

text \<open>What precedes the decoding: the API, its version and whether it is supported.\<close>

definition route_request ::
  "('s, 'm, 'k, 'x) protocol_env_scheme \<Rightarrow> broker_identity \<Rightarrow> bytes \<Rightarrow> protocol_error + api_key \<times> int \<times> int \<times> bool" where
  "route_request P identity frame =
     attempt (validate_identity identity) (\<lambda>_.
       if length frame < 8 then Inl (FrameTooSmall (length frame))
       else
         let raw_key = be_i16 (take 2 frame);
             ver = be_i16 (take 2 (drop 2 frame))
         in attempt (ok_or (px_api_key_of P raw_key) (UnknownApi raw_key)) (\<lambda>key.
              let supported = is_supported key ver
              in if \<not> supported \<and> \<not> (key = ApiVersions \<and> 0 \<le> ver \<and> ver \<le> 4)
                 then Inl (if list_ex (\<lambda>(k, _). k = key) SUPPORTED_APIS
                           then ProtocolUnsupportedVersion raw_key ver else UnsupportedApi raw_key)
                 else attempt (map_err (\<lambda>source. MalformedRequest raw_key ver (wire_error_message source))
                        (validate_request_frame P frame key ver)) (\<lambda>_. Inr (key, raw_key, ver, supported))))"

text \<open>An ApiVersions request of a later version is answered with the error code.\<close>

definition unsupported_response ::
  "('s, 'm, 'k, 'x) protocol_env_scheme \<Rightarrow> api_key \<Rightarrow> int \<Rightarrow> int \<Rightarrow> int \<Rightarrow> bytes \<Rightarrow> protocol_error + bytes option" where
  "unsupported_response P key raw_key ver correlation_id frame =
     (if key = ApiVersions \<and> 0 \<le> ver \<and> ver \<le> 4
      then attempt (map_err (MalformedRequest raw_key ver) (px_decode_api_versions P frame ver)) (\<lambda>frame.
             if frame \<noteq> [] then Inl (TrailingRequestBytes (length frame))
             else attempt (encode_response P correlation_id ver
                    (ApiVersionsResponse ((df_api_versions (px_defaults P))
                      \<lparr>vr_error_code := px_error_code P UnsupportedVersion\<rparr>))) (\<lambda>r. Inr (Some r)))
      else Inl (ProtocolPanic ''all other unsupported APIs return before wire decoding''))"

definition handle_request ::
  "('s, 'm, 'k, 'x) protocol_env_scheme \<Rightarrow> broker_identity \<Rightarrow> bytes \<Rightarrow> ('s, bytes option) handler" where
  "handle_request P identity frame =
     io_bind (io_lift (route_request P identity frame)) (\<lambda>(key, raw_key, ver, supported).
     io_bind (io_lift (map_err (MalformedRequest raw_key ver) (px_decode_header P frame))) (\<lambda>(correlation_id, frame).
       if \<not> supported then io_lift (unsupported_response P key raw_key ver correlation_id frame)
       else io_bind (io_lift (map_err (MalformedRequest raw_key ver) (px_decode_request P key frame ver))) (\<lambda>(request, frame).
         if frame \<noteq> [] then io_err (TrailingRequestBytes (length frame))
         else io_bind (respond P identity raw_key ver request) (\<lambda>(response, send_response).
           if \<not> send_response then io_ret None
           else io_bind (io_lift (encode_response P correlation_id ver response)) (\<lambda>encoded. io_ret (Some encoded))))))"

end
