(* ===== verification/Wire_Laws.thy ===== *)
theory Wire_Laws
  imports Wire
begin

unbundle bit_operations_syntax

text \<open>
  What the frame validation accepts, stated as a grammar of byte strings that knows nothing of
  cursors, budgets and minimum sizes: \<open>fits\<close> relates a field description, the bytes of a
  value of it and the number of collection items in it. \<open>validates m fs\<close> says that the
  validator \<open>m\<close> accepts exactly the prefixes of its input that spell \<open>fs\<close>, charging the items
  of the value to the budget; its rules follow the structure of the validators.
\<close>

section \<open>The grammar\<close>

datatype field =
    Fixed nat
  | Tag int
  | Text bool
  | CompactText
  | CompactNullableText
  | Blob bool
  | Tagged
  | Rows bool "field list"

text \<open>A base-128 number of at most 32 bits, low group first.\<close>

fun groups_value :: "bytes \<Rightarrow> nat" where
  "groups_value [] = 0"
| "groups_value (b # bs) = unat b mod 128 + 128 * groups_value bs"

definition spells_varint :: "bytes \<Rightarrow> nat \<Rightarrow> bool" where
  "spells_varint bs v \<longleftrightarrow>
     bs \<noteq> [] \<and> length bs \<le> 5 \<and> (\<forall>b \<in> set (butlast bs). 128 \<le> unat b) \<and> unat (last bs) < 128
   \<and> v = groups_value bs \<and> v < 2 ^ 32"

text \<open>Tagged fields: strictly ascending tags, each with a sized value.\<close>

inductive spells_tags :: "nat option \<Rightarrow> nat \<Rightarrow> bytes \<Rightarrow> bool" where
  no_tags: "spells_tags p 0 []"
| tags: "spells_varint tag t \<Longrightarrow> (case p of None \<Rightarrow> True | Some q \<Rightarrow> q < t) \<Longrightarrow>
    spells_varint size_bytes (length value_bytes) \<Longrightarrow> spells_tags (Some t) n rest \<Longrightarrow>
    spells_tags p (Suc n) (tag @ size_bytes @ value_bytes @ rest)"

inductive spells :: "field \<Rightarrow> bytes \<Rightarrow> nat \<Rightarrow> bool"
  and fits :: "field list \<Rightarrow> bytes \<Rightarrow> nat \<Rightarrow> bool"
  and spells_rows :: "field list \<Rightarrow> nat \<Rightarrow> bytes \<Rightarrow> nat \<Rightarrow> bool" where
  fixed: "length b = n \<Longrightarrow> spells (Fixed n) b 0"
| tag: "length b = 2 \<Longrightarrow> be_i16 b = n \<Longrightarrow> spells (Tag n) b 0"
| some_text: "length h = 2 \<Longrightarrow> be_i16 h = int (length b) \<Longrightarrow> spells (Text nullable) (h @ b) 0"
| null_text: "length h = 2 \<Longrightarrow> be_i16 h = - 1 \<Longrightarrow> spells (Text True) h 0"
| compact: "spells_varint h (Suc (length b)) \<Longrightarrow> spells CompactText (h @ b) 0"
| compact_nullable: "spells_varint h (Suc (length b)) \<Longrightarrow> spells CompactNullableText (h @ b) 0"
| compact_null: "spells_varint h 0 \<Longrightarrow> spells CompactNullableText h 0"
| blob: "length h = 4 \<Longrightarrow> be_i32 h = int (length b) \<Longrightarrow> spells (Blob nullable) (h @ b) 0"
| null_blob: "length h = 4 \<Longrightarrow> be_i32 h = - 1 \<Longrightarrow> spells (Blob True) h 0"
| tagged: "spells_varint h n \<Longrightarrow> spells_tags None n b \<Longrightarrow> spells Tagged (h @ b) n"
| array: "length h = 4 \<Longrightarrow> be_i32 h = int n \<Longrightarrow> spells_rows row n b k \<Longrightarrow> spells (Rows nullable row) (h @ b) (n + k)"
| null_array: "length h = 4 \<Longrightarrow> be_i32 h = - 1 \<Longrightarrow> spells (Rows True row) h 0"
| no_fields: "fits [] [] 0"
| fields: "spells f b j \<Longrightarrow> fits fs bs k \<Longrightarrow> fits (f # fs) (b @ bs) (j + k)"
| no_rows: "spells_rows row 0 [] 0"
| rows: "fits row b j \<Longrightarrow> spells_rows row n bs k \<Longrightarrow> spells_rows row (Suc n) (b @ bs) (j + k)"

text \<open>The layouts of the supported requests, by API and version.\<close>

fun request_fields :: "api_key \<Rightarrow> int \<Rightarrow> field list option" where
  "request_fields ApiVersions ver = Some (if ver \<ge> 3 then [CompactText, CompactText, Tagged] else [])"
| "request_fields ApiInitProducerId ver =
     Some ([if ver \<ge> 2 then CompactNullableText else Text True, Fixed 4]
           @ (if ver \<ge> 3 then [Fixed 10] else []) @ (if ver \<ge> 2 then [Tagged] else []))"
| "request_fields ApiMetadata ver = Some [Rows True [Text False], Fixed 1]"
| "request_fields ApiProduce ver =
     Some [Text True, Fixed 6, Rows False [Text False, Rows False [Fixed 4, Blob True]]]"
| "request_fields ApiFetch ver = Some [Fixed 17, Rows False [Text False, Rows False [Fixed 16]]]"
| "request_fields ApiListOffsets ver = Some [Fixed 5, Rows False [Text False, Rows False [Fixed 12]]]"
| "request_fields ApiFindCoordinator ver = Some [Text False, Fixed 1]"
| "request_fields ApiJoinGroup ver =
     Some [Text False, Fixed 8, Text False, Text False, Rows False [Text False, Blob False]]"
| "request_fields ApiSyncGroup ver =
     Some [Text False, Fixed 4, Text False, Rows False [Text False, Blob False]]"
| "request_fields ApiHeartbeat ver = Some [Text False, Fixed 4, Text False]"
| "request_fields ApiLeaveGroup ver = Some [Text False, Text False]"
| "request_fields ApiOffsetCommit ver =
     Some [Text False, Fixed 4, Text False, Fixed 8,
           Rows False [Text False, Rows False [Fixed 12, Text True]]]"
| "request_fields ApiOffsetFetch ver = Some [Text False, Rows True [Text False, Rows False [Fixed 4]]]"
| "request_fields (OtherApi n) ver = None"

definition header_fields :: "'m api_codes_scheme \<Rightarrow> api_key \<Rightarrow> int \<Rightarrow> field list option" where
  "header_fields K key ver =
     (let h = [Tag (api_code K key), Tag ver, Fixed 4, Text True]
      in if request_header_version K key ver = 1 then Some h
         else if request_header_version K key ver = 2 then Some (h @ [Tagged]) else None)"

section \<open>The primitives of the cursor\<close>

inductive_simps spells_tags_simps: "spells_tags p 0 bs" "spells_tags p (Suc n) bs"
inductive_simps spells_rows_simps: "spells_rows row 0 bs k" "spells_rows row (Suc n) bs k"
inductive_simps fits_Nil: "fits [] bs k"
inductive_simps fits_Cons: "fits (f # fs) bs k"
inductive_simps spells_simps: "spells (Fixed n) bs k" "spells (Tag i) bs k" "spells (Text nullable) bs k"
  "spells CompactText bs k" "spells CompactNullableText bs k" "spells (Blob nullable) bs k"
  "spells Tagged bs k" "spells (Rows nullable row) bs k"

lemma cursor_eqI: "cu_input c = cu_input d \<Longrightarrow> cu_items_left c = cu_items_left d \<Longrightarrow> c = (d :: cursor)"
  by simp

text \<open>\<open>moves c bs k d\<close>: from \<open>c\<close> to \<open>d\<close> the bytes \<open>bs\<close> are consumed and \<open>k\<close> items charged.\<close>

definition moves :: "cursor \<Rightarrow> bytes \<Rightarrow> nat \<Rightarrow> cursor \<Rightarrow> bool" where
  "moves c bs k d \<longleftrightarrow> cu_input c = bs @ cu_input d \<and> cu_items_left c = k + cu_items_left d"

lemma moves_Nil [simp]: "moves c [] 0 d \<longleftrightarrow> c = d"
  by (auto simp: moves_def intro: cursor_eqI)

lemma moves_append: "moves c (b @ bs) (j + k) d \<longleftrightarrow> (\<exists>e. moves c b j e \<and> moves e bs k d)"
proof
  assume "moves c (b @ bs) (j + k) d"
  then have "moves c b j \<lparr>cu_input = bs @ cu_input d, cu_items_left = k + cu_items_left d\<rparr>"
    "moves \<lparr>cu_input = bs @ cu_input d, cu_items_left = k + cu_items_left d\<rparr> bs k d"
    by (simp_all add: moves_def)
  then show "\<exists>e. moves c b j e \<and> moves e bs k d" by blast
qed (auto simp: moves_def)

lemmas moves_split = moves_append [where j = 0, simplified] moves_append [where k = 0, simplified]

lemma cursor_take_iff [result_simps]: "cursor_take n c = (Inr b, d) \<longleftrightarrow> length b = n \<and> moves c b 0 d"
  by (auto simp: cursor_take_def moves_def intro!: cursor_eqI)

lemma cursor_i16_iff [result_simps]:
  "cursor_i16 c = (Inr n, d) \<longleftrightarrow> (\<exists>h. length h = 2 \<and> be_i16 h = n \<and> moves c h 0 d)"
  by (auto simp: cursor_i16_def result_simps)

lemma cursor_i32_iff [result_simps]:
  "cursor_i32 c = (Inr n, d) \<longleftrightarrow> (\<exists>h. length h = 4 \<and> be_i32 h = n \<and> moves c h 0 d)"
  by (auto simp: cursor_i32_def result_simps)

lemma reserve_collection_iff [result_simps]:
  "reserve_collection n m c = (Inr u, d) \<longleftrightarrow>
     moves c [] n d \<and> n * m \<le> u64_max \<and> n * m \<le> length (cu_input d)"
  by (auto simp: reserve_collection_def moves_def intro!: cursor_eqI split: option.splits)

lemma be_i32_less: "be_i32 h < 2 ^ 31"
  using sint_lt [of "word_of_nat (foldl (\<lambda>a b. a * 256 + unat b) 0 h) :: 32 word"]
  by (simp add: be_i32_def)

section \<open>Variable-length numbers\<close>

lemma low7_value: "unat (ucast (b AND 0x7F) :: 32 word) = unat (b :: byte) mod 128"
proof -
  have "unat (b AND mask 7) = unat b mod 2 ^ 7"
    by (simp add: take_bit_eq_mask [symmetric] unsigned_take_bit_eq take_bit_eq_mod unat_mod)
  moreover have "unat (ucast x :: 32 word) = unat x" if "unat x < 128" for x :: byte
    using that by (simp add: unsigned_ucast_eq take_bit_nat_eq_self)
  ultimately show ?thesis unfolding mask_7F by simp
qed

lemma high_bit_clear: "b AND 0x80 = 0 \<longleftrightarrow> unat (b :: byte) < 128"
proof -
  have "b AND 0x80 = 0 \<longleftrightarrow> \<not> bit b 7"
  proof
    assume "b AND 0x80 = 0"
    then have "\<not> bit (b AND 0x80) 7" by simp
    then show "\<not> bit b 7" by (simp add: bit_simps bit_80)
  next
    assume n: "\<not> bit b 7"
    have "\<not> bit (b AND 0x80) k" for k by (cases "k = 7") (simp_all only: bit_and_iff bit_80 n simp_thms)
    then show "b AND 0x80 = 0" by (simp add: bit_eq_iff)
  qed
  also have "\<dots> \<longleftrightarrow> even (unat b div 2 ^ 7)"
    using bit_unsigned_iff [of b 7, where 'a = nat] by (simp add: bit_iff_odd)
  also have "\<dots> \<longleftrightarrow> unat b < 128"
  proof -
    have "unat b < 256" using unsigned_less [of b, where 'a = nat] by simp
    then have "unat b div 128 = 0 \<or> unat b div 128 = 1" by linarith
    then show ?thesis by auto
  qed
  finally show ?thesis .
qed

text \<open>One round of the loop adds a group above the bits collected so far.\<close>

lemma or_payload:
  assumes v: "unat (v :: 32 word) < 2 ^ k" and p: "unat p * 2 ^ k < 2 ^ 32" and k: "k \<le> 32"
  shows "unat (v OR push_bit k p) = unat v + unat p * 2 ^ k"
proof -
  have "v AND push_bit k p = 0"
  proof (rule bit_eqI)
    fix n
    have "\<not> bit v n" if "k \<le> n"
    proof -
      have "unat v < 2 ^ n" using v that by (meson less_le_trans one_le_numeral power_increasing)
      then show ?thesis using bit_unsigned_iff [of v n, where 'a = nat] by (simp add: bit_iff_odd)
    qed
    then show "bit (v AND push_bit k p) n = bit 0 n" by (auto simp: bit_simps)
  qed
  then have "v OR push_bit k p = v + push_bit k p" by (simp add: disjunctive_add_eq_or)
  moreover have "unat (push_bit k p) = unat p * 2 ^ k"
    using p by (simp only: unsigned_push_bit_eq push_bit_eq_mult [of k "unat p"]) (simp add: take_bit_nat_eq_self)
  moreover have "unat v + unat p * 2 ^ k < 2 ^ 32"
  proof -
    have split: "(2 :: nat) ^ 32 = 2 ^ (32 - k) * 2 ^ k" using k by (simp flip: power_add)
    with p have "unat p < 2 ^ (32 - k)" by (metis mult_less_cancel2)
    then have "(unat p + 1) * 2 ^ k \<le> 2 ^ 32" unfolding split by (simp only: mult_le_mono1 Suc_leI flip: Suc_eq_plus1)
    with v show ?thesis by simp
  qed
  ultimately show ?thesis by (simp add: unat_word_ariths)
qed

lemma groups_value_bound: "groups_value bs < 2 ^ (7 * length bs)"
proof (induction bs)
  case (Cons b bs)
  have "unat b mod 128 + 128 * groups_value bs < 128 * 2 ^ (7 * length bs)" using Cons by (simp add: less_mult_imp_div_less)
  then show ?case by (simp add: power_add)
qed simp

definition groups_end :: "bytes \<Rightarrow> bool" where
  "groups_end bs \<longleftrightarrow> bs \<noteq> [] \<and> (\<forall>b \<in> set (butlast bs). 128 \<le> unat b) \<and> unat (last bs) < 128"

lemma groups_end_simps [simp]:
  "\<not> groups_end []"
  "groups_end (b # bs) \<longleftrightarrow> (if unat b < 128 then bs = [] else groups_end bs)"
  by (auto simp: groups_end_def)

lemma spells_varint_alt:
  "spells_varint bs v \<longleftrightarrow> groups_end bs \<and> length bs \<le> 5 \<and> v = groups_value bs \<and> v < 2 ^ 32"
  by (auto simp: spells_varint_def groups_end_def)

lemma byte_split: "length b = 1 \<and> xs = b @ ys \<longleftrightarrow> (\<exists>x. b = [x] \<and> xs = x # ys)"
  by (auto simp: length_Suc_conv)

lemma unsigned_varint_from_iff:
  assumes "index + n = 5" "unat v < 2 ^ (7 * index)"
  shows "unsigned_varint_from n index v c = (Inr w, d) \<longleftrightarrow>
    (\<exists>bs. cu_input c = bs @ cu_input d \<and> cu_items_left d = cu_items_left c \<and> groups_end bs \<and> length bs \<le> n
       \<and> unat w = unat v + 2 ^ (7 * index) * groups_value bs \<and> unat v + 2 ^ (7 * index) * groups_value bs < 2 ^ 32)"
  using assms
proof (induction n arbitrary: index v c)
  case 0
  then show ?case by (auto simp: io_err_def)
next
  case (Suc n)
  let ?p = "\<lambda>b. ucast (b AND 0x7F :: byte) :: 32 word"
  let ?v = "\<lambda>b. v OR push_bit (index * 7) (?p b)"
  let ?over = "\<lambda>b. index = 4 \<and> ?p b > 0x0F"
  have k: "index * 7 \<le> 32" "index = 0 \<or> index = 1 \<or> index = 2 \<or> index = 3 \<or> index = 4" using Suc.prems by auto
  have over: "?over b \<longleftrightarrow> index = 4 \<and> 16 \<le> unat b mod 128" for b
    by (auto simp: word_less_nat_alt low7_value)
  have fits: "unat (?p b) * 2 ^ (index * 7) < 2 ^ 32" if "\<not> ?over b" for b
    using k(2) that unfolding over low7_value by auto
  have acc: "unat (?v b) = unat v + (unat b mod 128) * 2 ^ (7 * index)" if "\<not> ?over b" for b
    using or_payload [OF _ fits [OF that] k(1), of v] Suc.prems(2) by (simp add: low7_value mult.commute)
  have small: "unat (?v b) < 2 ^ (7 * Suc index)" if "\<not> ?over b" for b
  proof -
    have "(unat b mod 128 + 1) * 2 ^ (7 * index) \<le> 128 * 2 ^ (7 * index)"
      by (intro mult_le_mono1) (simp add: Suc_leI)
    then have "unat v + unat b mod 128 * 2 ^ (7 * index) < 128 * 2 ^ (7 * index)"
      using Suc.prems(2) unfolding add_mult_distrib by linarith
    then show ?thesis unfolding acc [OF that] by (simp add: power_add)
  qed
  have big: "2 ^ 32 \<le> unat v + 2 ^ (7 * index) * groups_value (b # bs)" if "?over b" for b bs
    using that unfolding over by auto
  have IH: "unsigned_varint_from n (Suc index) (?v b) e = (Inr w, d) \<longleftrightarrow>
    (\<exists>bs. cu_input e = bs @ cu_input d \<and> cu_items_left d = cu_items_left e \<and> groups_end bs \<and> length bs \<le> n
       \<and> unat w = unat v + 2 ^ (7 * index) * groups_value (b # bs)
       \<and> unat v + 2 ^ (7 * index) * groups_value (b # bs) < 2 ^ 32)" if "\<not> ?over b" for b e
  proof -
    have "unat (?v b) + 2 ^ (7 * Suc index) * groups_value bs = unat v + 2 ^ (7 * index) * groups_value (b # bs)" for bs
      by (simp add: acc [OF that] algebra_simps power_add)
    then show ?thesis using Suc.IH [OF _ small [OF that], of e] Suc.prems(1) by simp
  qed
  have one: "cu_input c = bs @ cu_input d \<and> groups_end bs \<longleftrightarrow>
    (\<exists>b bs'. bs = b # bs' \<and> cu_input c = b # bs' @ cu_input d \<and> (if unat b < 128 then bs' = [] else groups_end bs'))" for bs
    by (cases bs) auto
  show ?case
  proof (cases "cu_input c")
    case Nil
    then show ?thesis by (auto simp: result_simps moves_def)
  next
    case (Cons b rest)
    let ?e = "c\<lparr>cu_input := rest\<rparr>"
    have step: "unsigned_varint_from (Suc n) index v c =
      (if ?over b then (Inl (MalformedWire ''varint overflow''), ?e)
       else if unat b < 128 then (Inr (?v b), ?e) else unsigned_varint_from n (Suc index) (?v b) ?e)"
      by (simp add: io_bind_def cursor_take_def Cons Let_def high_bit_clear)
    show ?thesis
    proof (cases "?over b")
      case True
      have "\<not> (\<exists>bs. cu_input c = bs @ cu_input d \<and> groups_end bs
         \<and> unat v + 2 ^ (7 * index) * groups_value bs < 2 ^ 32)"
      proof
        assume "\<exists>bs. cu_input c = bs @ cu_input d \<and> groups_end bs \<and> unat v + 2 ^ (7 * index) * groups_value bs < 2 ^ 32"
        then obtain bs where bs: "cu_input c = bs @ cu_input d" "groups_end bs"
          "unat v + 2 ^ (7 * index) * groups_value bs < 2 ^ 32" by blast
        then obtain bs' where "bs = b # bs'" using Cons by (cases bs) auto
        with big [OF True, of bs'] bs(3) show False by simp
      qed
      with True show ?thesis unfolding step by auto
    next
      case False
      have lt: "unat (?v b) < 2 ^ 32" using unsigned_less [of "?v b", where 'a = nat] by simp
      show ?thesis
      proof (cases "unat b < 128")
        case True
        have ends: "cu_input c = bs @ cu_input d \<and> groups_end bs \<longleftrightarrow> bs = [b] \<and> rest = cu_input d" for bs
          using True Cons by (cases bs) auto
        have eq: "(\<exists>bs. cu_input c = bs @ cu_input d \<and> L \<and> groups_end bs \<and> length bs \<le> Suc n \<and> P bs)
          \<longleftrightarrow> rest = cu_input d \<and> L \<and> P [b]" for L P
          using ends by (metis One_nat_def Suc_le_mono le0 length_Cons list.size(3))
        have val: "unat (?v b) = unat v + 2 ^ (7 * index) * groups_value [b]"
          using acc [OF False] by simp
        have "w = ?v b \<longleftrightarrow> unat w = unat v + 2 ^ (7 * index) * groups_value [b]"
          unfolding val [symmetric] by (simp add: word_unat_eq_iff)
        moreover have "(Inr (?v b) :: wire_error + 32 word, ?e) = (Inr w, d) \<longleftrightarrow> w = ?v b \<and> rest = cu_input d \<and> cu_items_left d = cu_items_left c"
          by (cases c, cases d) auto
        ultimately show ?thesis
          using lt unfolding step eq val if_not_P [OF False] if_P [OF True] by blast
      next
        case high: False
        have moved: "(\<exists>bs. cu_input c = bs @ cu_input d \<and> cu_items_left d = cu_items_left c \<and> groups_end bs \<and> length bs \<le> Suc n \<and> P bs)
          \<longleftrightarrow> (\<exists>bs. rest = bs @ cu_input d \<and> cu_items_left d = cu_items_left c \<and> groups_end bs \<and> length bs \<le> n \<and> P (b # bs))" for P
          using high Cons by (auto simp: Cons_eq_append_conv)
        show ?thesis
          unfolding step if_not_P [OF False] if_not_P [OF high] IH [OF False, of ?e] moved by simp
      qed
    qed
  qed
qed

lemma unsigned_varint_iff [result_simps]:
  "unsigned_varint c = (Inr w, d) \<longleftrightarrow> (\<exists>bs. moves c bs 0 d \<and> spells_varint bs (unat w))"
  using unsigned_varint_from_iff [of 0 5 0 c w d]
  by (auto simp: unsigned_varint_def spells_varint_alt moves_def)

text \<open>The value a spelled number has as a word.\<close>

lemma spells_varint_word: "spells_varint bs v \<longleftrightarrow> (\<exists>w :: 32 word. v = unat w \<and> spells_varint bs (unat w))"
proof -
  have "v = unat (word_of_nat v :: 32 word)" if "spells_varint bs v"
    using that by (simp add: spells_varint_def unsigned_of_nat take_bit_nat_eq_self)
  then show ?thesis by metis
qed

section \<open>Minimum lengths\<close>

fun field_min :: "field \<Rightarrow> nat" where
  "field_min (Fixed n) = n"
| "field_min (Tag n) = 2"
| "field_min (Text nullable) = 2"
| "field_min CompactText = 1"
| "field_min CompactNullableText = 1"
| "field_min (Blob nullable) = 4"
| "field_min Tagged = 1"
| "field_min (Rows nullable row) = 4"

lemma spells_varint_length: "spells_varint bs v \<Longrightarrow> 1 \<le> length bs"
  by (cases bs) (auto simp: spells_varint_def)

lemma fits_length:
  "spells f bs k \<Longrightarrow> field_min f \<le> length bs"
  "fits fs bs k \<Longrightarrow> sum_list (map field_min fs) \<le> length bs"
  "spells_rows row n bs k \<Longrightarrow> n * sum_list (map field_min row) \<le> length bs"
  by (induction rule: spells_fits_spells_rows.inducts) (auto dest: spells_varint_length)

lemma spells_tags_length: "spells_tags p n bs \<Longrightarrow> n * 2 \<le> length bs"
  by (induction rule: spells_tags.induct) (auto dest!: spells_varint_length)

section \<open>Rules of the validators\<close>

definition takes :: "unit wire \<Rightarrow> field \<Rightarrow> bool" where
  "takes m f \<longleftrightarrow> (\<forall>c d. m c = (Inr (), d) \<longleftrightarrow> (\<exists>bs k. moves c bs k d \<and> spells f bs k))"

definition validates :: "unit wire \<Rightarrow> field list \<Rightarrow> bool" where
  "validates m fs \<longleftrightarrow> (\<forall>c d. m c = (Inr (), d) \<longleftrightarrow> (\<exists>bs k. moves c bs k d \<and> fits fs bs k))"

named_theorems validates_rules \<open>which fields a validator accepts\<close>

lemma takesD: "takes m f \<Longrightarrow> m c = (Inr (), d) \<longleftrightarrow> (\<exists>bs k. moves c bs k d \<and> spells f bs k)"
  by (simp add: takes_def)

lemma validatesD: "validates m fs \<Longrightarrow> m c = (Inr (), d) \<longleftrightarrow> (\<exists>bs k. moves c bs k d \<and> fits fs bs k)"
  by (simp add: validates_def)

text \<open>Sequential composition: the prefix is determined by its field.\<close>

lemma moves_fields:
  "(\<exists>bs k. moves c bs k d \<and> fits (f # fs) bs k) \<longleftrightarrow>
   (\<exists>e. (\<exists>b j. moves c b j e \<and> spells f b j) \<and> (\<exists>bs k. moves e bs k d \<and> fits fs bs k))"
  unfolding fits_Cons using moves_append by blast

lemma validates_ret [validates_rules]: "validates (io_ret ()) []"
  by (auto simp: validates_def fits_Nil)

lemma validates_seq [validates_rules]:
  assumes "takes m f" "validates k fs" shows "validates (io_bind m (\<lambda>_. k)) (f # fs)"
  unfolding validates_def moves_fields io_bind_Inr_iff
  by (auto simp: takesD [OF assms(1)] validatesD [OF assms(2)])

lemma validates_last [validates_rules]: "takes m f \<Longrightarrow> validates m [f]"
  by (auto simp: validates_def moves_fields fits_Nil takesD)

lemma io_bind_assoc: "io_bind (io_bind m f) g = io_bind m (\<lambda>x. io_bind (f x) g)"
  by (rule ext) (simp add: io_bind_def split: prod.splits sum.splits)

section \<open>The single fields\<close>

lemma takes_skip [validates_rules]: "takes (io_bind (cursor_take n) (\<lambda>_. io_ret ())) (Fixed n)"
  by (auto simp: takes_def result_simps spells_simps)

lemma validates_skip [validates_rules]:
  assumes "validates k fs" shows "validates (io_bind (cursor_take n) (\<lambda>_. k)) (Fixed n # fs)"
  using validates_seq [OF takes_skip assms] by (simp add: io_bind_assoc)

text \<open>A length or count, then what it announces.\<close>

lemma takes_prefixed:
  assumes rd: "\<And>c x d. rd c = (Inr x, d) \<longleftrightarrow> (\<exists>h. moves c h 0 d \<and> enc h x)"
    and body: "\<And>x h c d. enc h x \<Longrightarrow> F x c = (Inr (), d) \<longleftrightarrow> (\<exists>b k. moves c b k d \<and> ok x b k)"
    and f: "\<And>bs k. spells f bs k \<longleftrightarrow> (\<exists>x h b. enc h x \<and> ok x b k \<and> bs = h @ b)"
  shows "takes (io_bind rd F) f"
  unfolding takes_def f io_bind_Inr_iff rd
proof (intro allI iffI)
  fix c d
  assume "\<exists>x e. (\<exists>h. moves c h 0 e \<and> enc h x) \<and> F x e = (Inr (), d)"
  then obtain x e h b k where "moves c h 0 e" "enc h x" "moves e b k d" "ok x b k" using body by blast
  then show "\<exists>bs k. moves c bs k d \<and> (\<exists>x h b. enc h x \<and> ok x b k \<and> bs = h @ b)"
    using moves_append [of c h b 0 k d] by (intro exI [of _ "h @ b"] exI [of _ k]) auto
next
  fix c d
  assume "\<exists>bs k. moves c bs k d \<and> (\<exists>x h b. enc h x \<and> ok x b k \<and> bs = h @ b)"
  then obtain x h b k where m: "moves c (h @ b) k d" and "enc h x" "ok x b k" by blast
  moreover obtain e where "moves c h 0 e" "moves e b k d" using m moves_append [of c h b 0 k d] by auto
  ultimately show "\<exists>x e. (\<exists>h. moves c h 0 e \<and> enc h x) \<and> F x e = (Inr (), d)" using body by blast
qed

lemma spells_varint_unat:
  "spells_varint h v \<Longrightarrow> \<exists>w :: 32 word. unat w = v"
  by (rule exI [of _ "word_of_nat v"]) (simp add: spells_varint_def unsigned_of_nat take_bit_nat_eq_self)

lemma takes_text [validates_rules]: "takes (classic_string nullable) (Text nullable)"
  unfolding classic_string_def
  by (rule takes_prefixed [where enc = "\<lambda>h x. length h = 2 \<and> be_i16 h = x"
        and ok = "\<lambda>x b k. k = 0 \<and> (if x = - 1 \<and> nullable then b = [] else x = int (length b))"])
    (auto simp: result_simps spells_simps split: if_splits)

lemma takes_blob [validates_rules]: "takes (classic_bytes nullable) (Blob nullable)"
  unfolding classic_bytes_def
  by (rule takes_prefixed [where enc = "\<lambda>h x. length h = 4 \<and> be_i32 h = x"
        and ok = "\<lambda>x b k. k = 0 \<and> (if x = - 1 \<and> nullable then b = [] else x = int (length b))"])
    (auto simp: result_simps spells_simps split: if_splits)

lemma unat_pred: "unat w = Suc n \<Longrightarrow> unat (w - 1 :: 32 word) = n"
  by (metis Suc_pred' diff_Suc_1 unat_minus_one unat_0 zero_less_Suc less_irrefl)

lemma unat_pred_iff: "w \<noteq> 0 \<Longrightarrow> n = unat (w - 1 :: 32 word) \<longleftrightarrow> unat w = Suc n"
  by (metis Suc_pred' bot_nat_0.not_eq_extremum unat_eq_zero unat_minus_one unat_pred)

lemma takes_varint:
  assumes body: "\<And>x c d. F x c = (Inr (), d) \<longleftrightarrow> (\<exists>b k. moves c b k d \<and> ok (unat x) b k)"
    and f: "\<And>bs k. spells f bs k \<longleftrightarrow> (\<exists>v h b. spells_varint h v \<and> ok v b k \<and> bs = h @ b)"
  shows "takes (io_bind unsigned_varint F) f"
proof (rule takes_prefixed [where enc = "\<lambda>h x. spells_varint h (unat x)" and ok = "\<lambda>x. ok (unat x)"])
  show "spells f bs k \<longleftrightarrow> (\<exists>(x :: 32 word) h b. spells_varint h (unat x) \<and> ok (unat x) b k \<and> bs = h @ b)" for bs k
  proof
    assume "spells f bs k"
    then obtain v h b where *: "spells_varint h v" "ok v b k" "bs = h @ b" unfolding f by blast
    from spells_varint_unat [OF *(1)] obtain w :: "32 word" where "unat w = v" ..
    with * show "\<exists>(x :: 32 word) h b. spells_varint h (unat x) \<and> ok (unat x) b k \<and> bs = h @ b" by blast
  qed (auto simp: f)
qed (auto simp: body unsigned_varint_iff)

lemma unat_zero_iff: "x = 0 \<longleftrightarrow> unat (x :: 32 word) = 0"
  by (simp add: unat_eq_zero)

lemma takes_compact [validates_rules]: "takes compact_string CompactText"
  unfolding compact_string_def
  by (rule takes_varint [where ok = "\<lambda>v b k. k = 0 \<and> v = Suc (length b)"])
    (auto simp: result_simps spells_simps unat_pred_iff)

lemma takes_compact_nullable [validates_rules]:
  "takes (io_bind unsigned_varint (\<lambda>n. if n > 0 then io_bind (cursor_take (unat (n - 1))) (\<lambda>_. io_ret ()) else io_ret ()))
     CompactNullableText"
  by (rule takes_varint [where ok = "\<lambda>v b k. k = 0 \<and> (if v = 0 then b = [] else v = Suc (length b))"])
    (auto simp: result_simps spells_simps unat_pred_iff word_neq_0_conv [symmetric] unat_zero_iff)

section \<open>Tagged fields\<close>

text \<open>The early check of a count never refuses what is there to be read.\<close>

lemma reserve_then:
  assumes body: "\<And>e d. m e = (Inr (), d) \<longleftrightarrow> (\<exists>b k. moves e b k d \<and> R b k)"
    and min: "\<And>b k. R b k \<Longrightarrow> n * minimum \<le> length b" and "n * minimum \<le> u64_max"
  shows "io_bind (reserve_collection n minimum) (\<lambda>_. m) c = (Inr (), d) \<longleftrightarrow> (\<exists>b k. moves c b (n + k) d \<and> R b k)"
proof -
  have fit: "n * minimum \<le> length (cu_input e)" if "moves e b k d" "R b k" for e b k
    using min [OF that(2)] that(1) by (simp add: moves_def)
  have "io_bind (reserve_collection n minimum) (\<lambda>_. m) c = (Inr (), d) \<longleftrightarrow>
      (\<exists>e b k. moves c [] n e \<and> moves e b k d \<and> R b k)"
    unfolding io_bind_Inr_iff body reserve_collection_iff using fit assms(3) by blast
  then show ?thesis using moves_append [of c "[]" _ n _ d] by (simp only: append_Nil) blast
qed

lemma tagged_fields_from_iff:
  "tagged_fields_from n p c = (Inr (), d) \<longleftrightarrow> (\<exists>bs. moves c bs 0 d \<and> spells_tags (map_option unat p) n bs)"
proof (induction n arbitrary: p c)
  case 0
  then show ?case by (auto simp: spells_tags_simps)
next
  case (Suc n)
  let ?above = "\<lambda>t. case map_option unat p of None \<Rightarrow> True | Some q \<Rightarrow> q < t"
  have guard: "(case p of None \<Rightarrow> False | Some q \<Rightarrow> w \<le> q) \<longleftrightarrow> \<not> ?above (unat w)" for w
    by (cases p) (auto simp: word_le_nat_alt)
  show ?case
  proof
    assume "tagged_fields_from (Suc n) p c = (Inr (), d)"
    then obtain w e len f b g where "unsigned_varint c = (Inr w, e)" and above: "?above (unat w)"
      and "unsigned_varint e = (Inr len, f)" "cursor_take (unat len) f = (Inr b, g)"
      and "tagged_fields_from n (Some w) g = (Inr (), d)"
      by (auto simp: io_bind_Inr_iff guard split: if_splits)
    then obtain h hl bs where m: "moves c h 0 e" "moves e hl 0 f" "moves f b 0 g" "moves g bs 0 d"
      and s: "spells_varint h (unat w)" "spells_varint hl (length b)" "spells_tags (Some (unat w)) n bs"
      by (auto simp: unsigned_varint_iff cursor_take_iff Suc.IH)
    have "moves c (h @ hl @ b @ bs) 0 d" using m by (auto simp: moves_def)
    moreover have "spells_tags (map_option unat p) (Suc n) (h @ hl @ b @ bs)" by (rule tags) (use s above in auto)
    ultimately show "\<exists>bs. moves c bs 0 d \<and> spells_tags (map_option unat p) (Suc n) bs" by blast
  next
    assume "\<exists>bs. moves c bs 0 d \<and> spells_tags (map_option unat p) (Suc n) bs"
    then obtain h t hl b bs where m: "moves c (h @ hl @ b @ bs) 0 d" and h: "spells_varint h t" and above: "?above t"
      and hl: "spells_varint hl (length b)" and bs: "spells_tags (Some t) n bs"
      by (auto simp: spells_tags_simps)
    obtain w len :: "32 word" where w: "unat w = t" and len: "unat len = length b"
      using spells_varint_unat [OF h] spells_varint_unat [OF hl] by blast
    obtain e f g where "moves c h 0 e" "moves e hl 0 f" "moves f b 0 g" and g: "moves g bs 0 d"
      using m by (auto simp: moves_split(1))
    then have "unsigned_varint c = (Inr w, e)" "unsigned_varint e = (Inr len, f)" "cursor_take (unat len) f = (Inr b, g)"
      using h hl w len by (auto simp: unsigned_varint_iff cursor_take_iff)
    moreover have "tagged_fields_from n (Some w) g = (Inr (), d)" unfolding Suc.IH using g bs w by auto
    moreover have "\<not> (case p of None \<Rightarrow> False | Some q \<Rightarrow> w \<le> q)" using above guard [of w] unfolding w by blast
    ultimately show "tagged_fields_from (Suc n) p c = (Inr (), d)" by simp
  qed
qed

lemma takes_tagged [validates_rules]: "takes tagged_fields Tagged"
  unfolding tagged_fields_def
proof (rule takes_varint [where ok = "\<lambda>v b k. k = v \<and> spells_tags None v b"])
  fix x :: "32 word" and c d
  have "unat x * 2 \<le> u64_max" using unsigned_less [of x, where 'a = nat] by (simp add: u64_max_def)
  then show "io_bind (reserve_collection (unat x) 2) (\<lambda>_. tagged_fields_from (unat x) None) c = (Inr (), d) \<longleftrightarrow>
      (\<exists>b k. moves c b k d \<and> k = unat x \<and> spells_tags None (unat x) b)"
    by (subst reserve_then [where R = "\<lambda>b k. k = 0 \<and> spells_tags None (unat x) b"])
      (auto simp: tagged_fields_from_iff dest: spells_tags_length)
qed (auto simp: spells_simps)

section \<open>Arrays\<close>

lemma repeat_times_iff:
  assumes "validates body row"
  shows "repeat_times n body c = (Inr (), d) \<longleftrightarrow> (\<exists>bs k. moves c bs k d \<and> spells_rows row n bs k)"
proof (induction n arbitrary: c)
  case 0
  then show ?case by (auto simp: spells_rows_simps)
next
  case (Suc n)
  have "repeat_times (Suc n) body c = (Inr (), d) \<longleftrightarrow>
      (\<exists>e. (\<exists>b j. moves c b j e \<and> fits row b j) \<and> (\<exists>bs k. moves e bs k d \<and> spells_rows row n bs k))"
    by (simp add: io_bind_Inr_iff validatesD [OF assms] Suc.IH)
  also have "\<dots> \<longleftrightarrow> (\<exists>bs k. moves c bs k d \<and> spells_rows row (Suc n) bs k)"
    unfolding spells_rows_simps using moves_append by blast
  finally show ?case .
qed

text \<open>What an array validator does after the count, where the count itself is in range.\<close>

lemma takes_counted:
  assumes F: "\<And>c d. F None c = (Inr (), d) \<longleftrightarrow> nullable \<and> c = d"
    and G: "\<And>n c d. int n \<le> i32_max \<Longrightarrow> F (Some n) c = (Inr (), d) \<longleftrightarrow> (\<exists>b k. moves c b k d \<and> spells_rows row n b k)"
    and min: "minimum \<le> sum_list (map field_min row)" "minimum \<le> 2 ^ 32"
  shows "takes (io_bind (classic_array nullable minimum) F) (Rows nullable row)"
  unfolding classic_array_def io_bind_assoc
proof (rule takes_prefixed [where enc = "\<lambda>h x. length h = 4 \<and> be_i32 h = x"
      and ok = "\<lambda>x b k. if x = - 1 \<and> nullable then b = [] \<and> k = 0
        else x \<ge> 0 \<and> (\<exists>j. k = nat x + j \<and> spells_rows row (nat x) b j)"])
  show "spells (Rows nullable row) bs k \<longleftrightarrow> (\<exists>x h b. (length h = 4 \<and> be_i32 h = x)
      \<and> (if x = - 1 \<and> nullable then b = [] \<and> k = 0
         else x \<ge> 0 \<and> (\<exists>j. k = nat x + j \<and> spells_rows row (nat x) b j)) \<and> bs = h @ b)" for bs k
    by (auto simp: spells_simps split: if_splits)
next
  show "(cursor_i32 c = (Inr x, d)) = (\<exists>h. moves c h 0 d \<and> length h = 4 \<and> be_i32 h = x)" for c x d
    by (auto simp: cursor_i32_iff)
next
  fix x h c d
  assume h: "length h = 4 \<and> be_i32 h = x"
  let ?A = "if x = - 1 \<and> nullable then io_ret None
      else if 0 \<le> x then io_bind (reserve_collection (nat x) minimum) (\<lambda>_. io_ret (Some (nat x)))
      else malformed ''invalid array count''"
  show "io_bind ?A F c = (Inr (), d) \<longleftrightarrow>
    (\<exists>b k. moves c b k d \<and> (if x = - 1 \<and> nullable then b = [] \<and> k = 0
        else x \<ge> 0 \<and> (\<exists>j. k = nat x + j \<and> spells_rows row (nat x) b j)))"
  proof (cases "0 \<le> x")
    case True
    have x: "x < 2 ^ 31" using h be_i32_less [of h] by simp
    then have le: "int (nat x) \<le> i32_max" using True by (simp add: i32_max_def)
    have "nat x * minimum \<le> 2 ^ 31 * 2 ^ 32" using x True min(2) by (intro mult_le_mono) auto
    then have over: "nat x * minimum \<le> u64_max" by (simp add: u64_max_def)
    have short: "nat x * minimum \<le> length b" if "spells_rows row (nat x) b j" for b j
      using fits_length(3) [OF that] min(1) by (meson le_trans mult_le_mono2)
    have "io_bind ?A F c = io_bind (reserve_collection (nat x) minimum) (\<lambda>_. F (Some (nat x))) c"
      using True by (simp add: io_bind_assoc)
    also have "\<dots> = (Inr (), d) \<longleftrightarrow> (\<exists>b k. moves c b (nat x + k) d \<and> spells_rows row (nat x) b k)"
      by (rule reserve_then [OF G [OF le] short over])
    finally show ?thesis using True by auto
  next
    case False
    then show ?thesis by (auto simp: F io_err_def)
  qed
qed

lemma takes_rows [validates_rules]:
  assumes "validates body row" "minimum \<le> sum_list (map field_min row)" "minimum \<le> 2 ^ 32"
  shows "takes (io_bind (required_array minimum message) (\<lambda>n. repeat_times n body)) (Rows False row)"
  unfolding required_array_def io_bind_assoc
  by (rule takes_counted) (use assms(2,3) in \<open>auto simp: repeat_times_iff [OF assms(1)]\<close>)

lemma takes_nullable_rows [validates_rules]:
  assumes "validates body row" "minimum \<le> sum_list (map field_min row)" "minimum \<le> 2 ^ 32"
  shows "takes (io_bind (classic_array True minimum) (\<lambda>t. case t of None \<Rightarrow> io_ret () | Some n \<Rightarrow> repeat_times n body))
    (Rows True row)"
  by (rule takes_counted) (use assms(2,3) in \<open>auto simp: repeat_times_iff [OF assms(1)]\<close>)

text \<open>A run of fixed-size items taken at once.\<close>

lemma spells_fixed_rows: "spells_rows [Fixed m] n b k \<longleftrightarrow> length b = n * m \<and> k = 0"
proof (induction n arbitrary: b k)
  case (Suc n)
  have "spells_rows [Fixed m] (Suc n) b k \<longleftrightarrow> (\<exists>x y. b = x @ y \<and> length x = m \<and> length y = n * m) \<and> k = 0"
    by (auto simp: spells_rows_simps fits_Cons fits_Nil spells_simps Suc)
  also have "\<dots> \<longleftrightarrow> length b = Suc n * m \<and> k = 0"
    by (auto intro: exI [of _ "take m b"] exI [of _ "drop m b"])
      (rule exI [of _ "take m b"], simp, rule exI [of _ "drop m b"], simp)
  finally show ?case .
qed (auto simp: spells_rows_simps)

lemma takes_fixed_rows [validates_rules]:
  assumes "m \<le> 2 ^ 32"
  shows "takes (io_bind (required_array m message) (\<lambda>n. io_bind (cursor_take ((n * m) mod 2 ^ 64)) (\<lambda>_. io_ret ())))
    (Rows False [Fixed m])"
  unfolding required_array_def io_bind_assoc
proof (rule takes_counted)
  fix n c d
  assume "int n \<le> i32_max"
  then have "n * m \<le> 2 ^ 31 * 2 ^ 32" using assms by (intro mult_le_mono) (auto simp: i32_max_def)
  then show "io_bind (io_lift (ok_or (Some n) (MalformedWire message)))
      (\<lambda>n. io_bind (cursor_take ((n * m) mod 2 ^ 64)) (\<lambda>_. io_ret ())) c = (Inr (), d)
    \<longleftrightarrow> (\<exists>b k. moves c b k d \<and> spells_rows [Fixed m] n b k)"
    by (auto simp: result_simps spells_fixed_rows)
qed (use assms in auto)

section \<open>Whole requests\<close>

lemma validates_tag [validates_rules]:
  assumes "validates k fs"
  shows "validates (io_bind cursor_i16 (\<lambda>i. if i \<noteq> n then malformed message else k)) (Tag n # fs)"
proof -
  have "io_bind cursor_i16 (\<lambda>i. if i \<noteq> n then malformed message else k) c = (Inr (), d) \<longleftrightarrow>
      (\<exists>e. (\<exists>h. length h = 2 \<and> be_i16 h = n \<and> moves c h 0 e) \<and> k e = (Inr (), d))" for c d
    by (auto simp: io_bind_Inr_iff cursor_i16_iff io_err_def)
  then show ?thesis
    unfolding validates_def moves_fields spells_simps validatesD [OF assms] by auto
qed

lemma validates_append:
  assumes "validates m fs" "validates k gs" shows "validates (io_bind m (\<lambda>_. k)) (fs @ gs)"
proof -
  have split: "(\<exists>bs k. moves c bs k d \<and> fits (fs @ gs) bs k) \<longleftrightarrow>
      (\<exists>e. (\<exists>bs k. moves c bs k e \<and> fits fs bs k) \<and> (\<exists>bs k. moves e bs k d \<and> fits gs bs k))" for c d
  proof (induction fs arbitrary: c)
    case Nil
    then show ?case by (auto simp: fits_Nil)
  next
    case (Cons f fs)
    then show ?case by (simp add: moves_fields) blast
  qed
  show ?thesis
    unfolding validates_def split io_bind_Inr_iff by (simp add: validatesD [OF assms(1)] validatesD [OF assms(2)])
qed

lemmas validators = validate_api_versions_def validate_init_producer_id_def validate_metadata_def validate_produce_def
  validate_fetch_def validate_list_offsets_def validate_find_coordinator_def validate_join_group_def
  validate_sync_group_def validate_heartbeat_def validate_leave_group_def validate_offset_commit_def
  validate_offset_fetch_def

lemma io_bind_unit_ret [simp]: "io_bind m io_ret = m"
  by (rule ext) (simp add: io_bind_def split: prod.splits sum.splits)

lemma validates_nullable_rows_seq [validates_rules]:
  assumes "validates body row" "minimum \<le> sum_list (map field_min row)" "minimum \<le> 2 ^ 32" "validates k fs"
  shows "validates (io_bind (classic_array True minimum) (\<lambda>t.
      io_bind (case t of None \<Rightarrow> io_ret () | Some n \<Rightarrow> repeat_times n body) (\<lambda>_. k))) (Rows True row # fs)"
  using validates_seq [OF takes_nullable_rows [OF assms(1-3)] assms(4)] by (simp add: io_bind_assoc)

lemma validates_take_last [validates_rules]: "validates (io_bind (cursor_take n) (\<lambda>_. io_ret ())) [Fixed n]"
  by (intro validates_rules)

lemma validates_simple_body:
  "validates validate_find_coordinator [Text False, Fixed 1]"
  "validates validate_heartbeat [Text False, Fixed 4, Text False]"
  "validates validate_leave_group [Text False, Text False]"
  "validates validate_metadata [Rows True [Text False], Fixed 1]"
  "validates validate_join_group [Text False, Fixed 8, Text False, Text False, Rows False [Text False, Blob False]]"
  "validates validate_sync_group [Text False, Fixed 4, Text False, Rows False [Text False, Blob False]]"
  unfolding validators by ((rule validates_rules | simp)+)

lemma validates_nested_body:
  "validates validate_produce [Text True, Fixed 6, Rows False [Text False, Rows False [Fixed 4, Blob True]]]"
  "validates validate_fetch [Fixed 17, Rows False [Text False, Rows False [Fixed 16]]]"
  "validates validate_list_offsets [Fixed 5, Rows False [Text False, Rows False [Fixed 12]]]"
  "validates validate_offset_commit [Text False, Fixed 4, Text False, Fixed 8,
     Rows False [Text False, Rows False [Fixed 12, Text True]]]"
  "validates validate_offset_fetch [Text False, Rows True [Text False, Rows False [Fixed 4]]]"
  unfolding validators by ((rule validates_rules | simp)+)

lemma validates_versioned_body:
  assumes "request_fields ApiVersions ver = Some fs" "request_fields ApiInitProducerId ver = Some gs"
  shows "validates (validate_api_versions ver) fs" "validates (validate_init_producer_id ver) gs"
proof -
  show "validates (validate_api_versions ver) fs"
    using assms(1) unfolding validators by (cases "ver \<ge> 3") ((clarsimp, (rule validates_rules | simp)+)+)
  show "validates (validate_init_producer_id ver) gs"
    using assms(2) unfolding validators
    by (cases "ver \<ge> 3"; cases "ver \<ge> 2") ((clarsimp, (rule validates_rules | simp)+)+)
qed

lemma validates_body: "request_fields key ver = Some fs \<Longrightarrow> validates (validate_body key ver) fs"
  by (cases key) (auto simp: validates_simple_body validates_nested_body simp del: One_nat_def
      intro: validates_versioned_body)

lemma validates_header: "header_fields K key ver = Some fs \<Longrightarrow> validates (validate_header K key ver) fs"
  unfolding validate_header_def header_fields_def Let_def
  by (auto split: if_splits intro!: validates_rules)

lemma header_refused: "header_fields K key ver = None \<Longrightarrow> validate_header K key ver c \<noteq> (Inr u, d)"
  by (auto simp: validate_header_def header_fields_def Let_def io_bind_Inr_iff io_err_def split: if_splits)

lemma validate_request_frame_iff:
  "validate_request_frame K frame key ver = Inr () \<longleftrightarrow>
     (\<exists>hs fs items. header_fields K key ver = Some hs \<and> request_fields key ver = Some fs
        \<and> fits (hs @ fs) frame items \<and> items \<le> MAX_REQUEST_COLLECTION_ITEMS)"
proof (cases "header_fields K key ver")
  case None
  then show ?thesis
    using header_refused [OF None] by (auto simp: validate_request_frame_def io_bind_def split: prod.splits sum.splits)
next
  case hs: (Some hs)
  show ?thesis
  proof (cases "request_fields key ver")
    case None
    then obtain n where "key = OtherApi n" by (cases key) auto
    then show ?thesis
      by (auto simp: validate_request_frame_def io_bind_def io_err_def split: prod.splits sum.splits)
  next
    case (Some fs)
    let ?m = "io_bind (validate_header K key ver) (\<lambda>_. validate_body key ver)"
    have "validate_request_frame K frame key ver = Inr () \<longleftrightarrow>
        (\<exists>d. ?m (cursor_new frame) = (Inr (), d) \<and> cu_input d = [])"
      by (auto simp: validate_request_frame_def io_bind_def io_err_def split: prod.splits sum.splits)
    also have "\<dots> \<longleftrightarrow> (\<exists>d bs k. moves (cursor_new frame) bs k d \<and> fits (hs @ fs) bs k \<and> cu_input d = [])"
      unfolding validatesD [OF validates_append [OF validates_header [OF hs] validates_body [OF Some]]] by blast
    also have "\<dots> \<longleftrightarrow> (\<exists>k. fits (hs @ fs) frame k \<and> k \<le> MAX_REQUEST_COLLECTION_ITEMS)"
    proof
      assume "\<exists>k. fits (hs @ fs) frame k \<and> k \<le> MAX_REQUEST_COLLECTION_ITEMS"
      then obtain k where k: "fits (hs @ fs) frame k" "k \<le> MAX_REQUEST_COLLECTION_ITEMS" by blast
      have "moves (cursor_new frame) frame k \<lparr>cu_input = [], cu_items_left = MAX_REQUEST_COLLECTION_ITEMS - k\<rparr>"
        using k(2) by (simp add: moves_def cursor_new_def)
      with k(1) show "\<exists>d bs k. moves (cursor_new frame) bs k d \<and> fits (hs @ fs) bs k \<and> cu_input d = []"
        by fastforce
    qed (auto simp: moves_def cursor_new_def)
    finally show ?thesis using hs Some by simp
  qed
qed

text \<open>C27 (accepted_frames_exact). The structural validation accepts exactly the frames that spell a
  request of the given API and version, header included, with nothing behind it and at most 10000
  collection items: no count, length or early minimum check refuses a well-formed request, and what
  is accepted can be decoded within the frame.\<close>

theorem accepted_frames_exact:
  "validate_request_frame K frame key ver = Inr () \<longleftrightarrow>
     (\<exists>hs fs items. header_fields K key ver = Some hs \<and> request_fields key ver = Some fs
        \<and> fits (hs @ fs) frame items \<and> items \<le> MAX_REQUEST_COLLECTION_ITEMS)"
  by (rule validate_request_frame_iff)

definition sample_codes :: api_codes where
  "sample_codes = \<lparr>api_code = (\<lambda>_. 13), request_header_version = (\<lambda>_ _. 1)\<rparr>"

definition sample_leave :: bytes where
  "sample_leave = [0, 13, 0, 1, 0, 0, 0, 7, 0xFF, 0xFF, 0, 1, 0x67, 0, 2, 0x6D, 0x31]"

lemmas cursor_run = validate_request_frame_def validate_header_def io_bind_def cursor_take_def cursor_i16_def
  be_i16_def classic_string_def cursor_new_def io_err_def io_ret_def

lemma accepted_frames_exact_witness:
  "\<exists>items. fits ([Tag 13, Tag 1, Fixed 4, Text True] @ [Text False, Text False]) sample_leave items
     \<and> items \<le> MAX_REQUEST_COLLECTION_ITEMS"
proof -
  have "validate_request_frame sample_codes sample_leave ApiLeaveGroup 1 = Inr ()"
    by (simp add: cursor_run validate_leave_group_def sample_codes_def sample_leave_def)
  then show ?thesis
    unfolding accepted_frames_exact by (auto simp: header_fields_def sample_codes_def)
qed

lemma trailing_byte_refused:
  "validate_request_frame sample_codes (sample_leave @ [0]) ApiLeaveGroup 1 = Inl (MalformedWire ''trailing request bytes'')"
  by (simp add: cursor_run validate_leave_group_def sample_codes_def sample_leave_def)

end
