(* ===== verification/Coordinator_Service.thy ===== *)
theory Coordinator_Service
  imports Coordinator_System
begin

text \<open>
  The coordinator as the protocol layer sees it: a submitted request is answered with a reply of
  its own kind. \<open>group_service\<close> is that interface, proved for the coordinator of
  \<open>src/coordinator.rs\<close> under any schedule that \<open>serves\<close>: whatever steps of other requests, sweeps and
  dropped connections come before an answer, it is one that the coordinator gave to this request.
\<close>

section \<open>Replies of the request's kind\<close>

fun reply_fits :: "group_request \<Rightarrow> group_result \<Rightarrow> bool" where
  "reply_fits req (Inl e) = (\<not> panics e)"
| "reply_fits (JoinRequest _ _ _ _ _ _) (Inr x) = (\<exists>outcome. x = Joined outcome)"
| "reply_fits (SyncRequest _ _ _ _) (Inr x) = (\<exists>assignment. x = Synced assignment)"
| "reply_fits _ (Inr x) = (x = Accepted)"

text \<open>A commit whose slot is being reclaimed has been refused.\<close>

definition reclaim_fits :: "group_request \<Rightarrow> group_result \<Rightarrow> bool" where
  "reclaim_fits req r \<longleftrightarrow> reply_fits req r \<and> (\<forall>gid g k cs. req = CommitRequest gid g k cs \<longrightarrow> (\<exists>e. r = Inl e))"

definition progress_fits :: "group_request \<Rightarrow> progress \<Rightarrow> bool" where
  "progress_fits req p \<longleftrightarrow>
     (case p of Finish r \<Rightarrow> reply_fits req r \<or> \<not> calm r | Continue (Reclaim r) \<Rightarrow> reclaim_fits req r \<or> \<not> calm r | _ \<Rightarrow> True)"

lemma calm_fits: "reply_fits req (Inl e) \<or> \<not> calm (Inl e)"
  by simp

lemma then_reclaim_cases: "then_reclaim r st = (Inr p, st') \<Longrightarrow> p = Continue (Reclaim r) \<or> p = Finish r"
  by (auto simp: then_reclaim_def split: if_splits)

lemma run_section_fits:
  assumes "run_section E prefix now req stg s = (Inr p, t)" shows "progress_fits req p"
proof -
  have visit: "progress_fits req p" if "p = Continue (Reclaim r) \<or> p = Finish r" "(\<exists>e. r = Inl e) \<or> reclaim_fits req r" for r
    using that by (auto simp: progress_fits_def reclaim_fits_def)
  show ?thesis
  proof (cases req)
    case (JoinRequest gid session rebalance k pt ps)
    with assms show ?thesis
      by (cases stg) (auto simp: result_simps progress_fits_def reclaim_fits_def io_err_def split: option.splits prod.splits)
  next
    case (SyncRequest gid g k as)
    with assms show ?thesis
      by (cases stg) (auto simp: result_simps progress_fits_def reclaim_fits_def io_err_def sync_poll_def split: option.splits if_splits)
  next
    case (HeartbeatRequest gid g k)
    with assms have stg: "stg = Visit" by (cases stg) (auto simp: io_err_def)
    with assms HeartbeatRequest obtain result st st' where "then_reclaim (case result of Inl e \<Rightarrow> Inl e | Inr (_ :: unit) \<Rightarrow> Inr Accepted) st = (Inr p, st')"
      by (auto simp: heartbeat_section_def result_simps)
    from visit [OF then_reclaim_cases [OF this]] show ?thesis by (auto simp: HeartbeatRequest reclaim_fits_def split: sum.splits)
  next
    case (LeaveRequest gid k)
    with assms have stg: "stg = Visit" by (cases stg) (auto simp: io_err_def)
    with assms LeaveRequest obtain r st st' where "then_reclaim r st = (Inr p, st')" "(\<exists>e. r = Inl e) \<or> r = Inr Accepted"
      by (auto simp: leave_section_def result_simps Let_def split: option.splits if_splits)
    with visit [OF then_reclaim_cases [OF this(1)]] show ?thesis by (auto simp: LeaveRequest reclaim_fits_def)
  next
    case (CommitRequest gid g k cs)
    with assms have stg: "stg = Visit" by (cases stg) (auto simp: io_err_def)
    with assms CommitRequest obtain u where "(case active_group g k (snd u) of
         Inl e \<Rightarrow> io_snd (then_reclaim (Inl e))
       | Inr gs \<Rightarrow>
           (case bt_get (gs_members gs) k of
              None \<Rightarrow> io_err (Panic ''active group validated member'')
            | Some member \<Rightarrow>
                if gs_phase gs \<noteq> Stable \<or> ms_assignment member = None
                then io_snd (then_reclaim (Inl (Kafka RebalanceInProgress)))
                else if cs = [] then io_ret (Finish (Inr Accepted))
                else io_bind (io_map_err StorageError (io_fst (commit_offsets E prefix gid cs))) (\<lambda>_.
                       io_ret (Finish (Inr Accepted))))) u = (Inr p, t)"
      by (auto simp: commit_section_def result_simps)
    then have "p = Finish (Inr Accepted) \<or> (\<exists>e st st'. then_reclaim (Inl e) st = (Inr p, st'))"
      by (cases "active_group g k (snd u)") (auto simp: result_simps io_err_def split: option.splits if_splits)
    then show ?thesis by (auto simp: CommitRequest progress_fits_def reclaim_fits_def dest!: then_reclaim_cases)
  qed
qed

definition tasks_fit :: "'s coordinator \<Rightarrow> bool" where
  "tasks_fit c \<longleftrightarrow> (\<forall>i t r. bt_get (cd_tasks c) i = Some t \<longrightarrow> tk_stage t = Reclaim r \<longrightarrow> reclaim_fits (tk_request t) r)"

lemma tasks_fit_insert:
  "tasks_fit c \<Longrightarrow> coordinator_ok c \<Longrightarrow> (\<forall>r. stg = Reclaim r \<longrightarrow> reclaim_fits req r) \<Longrightarrow>
   cd_tasks c' = bt_insert i (Task req a stg) (cd_tasks c) \<Longrightarrow> tasks_fit c'"
  by (auto simp: tasks_fit_def coordinator_ok_def bt_get_insert)

lemma tasks_fit_end: "tasks_fit c \<Longrightarrow> cd_tasks c' = bt_remove i (cd_tasks c) \<Longrightarrow> tasks_fit c'"
  by (auto simp: tasks_fit_def bt_get_remove)

lemma request_slot_tasks: "request_slot now req c = (r, c') \<Longrightarrow> cd_tasks c' = cd_tasks c"
  by (cases req) (auto simp: existing_group_slot_def join_group_slot_def sweep_reclaimable_slots_def Let_def
      split: option.splits if_splits prod.splits)

lemma start_request_tasks:
  assumes "start_request now req c = (r, c')"
  shows "(\<forall>e. r = Inl e \<longrightarrow> cd_tasks c' = cd_tasks c)
    \<and> (r = Inr () \<longrightarrow> (\<exists>i a. cd_tasks c' = bt_insert i (Task req a (first_stage req)) (cd_tasks c)
         \<and> i = cd_next_task c' - 1 \<and> 0 < cd_next_task c'))"
proof (cases r)
  case (Inl e)
  with assms show ?thesis
    by (auto simp: start_request_def result_simps dest: request_slot_tasks)
next
  case (Inr u)
  with assms obtain a c1 where "request_slot now req c = (Inr a, c1)"
    and "c' = c1\<lparr>cd_tasks := bt_insert (cd_next_task c1) (Task req a (first_stage req)) (cd_tasks c1),
        cd_next_task := Suc (cd_next_task c1)\<rparr>"
    by (auto simp: start_request_def result_simps)
  with request_slot_tasks [OF this(1)] Inr show ?thesis by auto
qed

text \<open>One section of a task: either the reply, or its next stage.\<close>

lemma resume_task_shape:
  assumes "resume_task E prefix now i t c = (out, c')"
  shows "(\<exists>r. tk_stage t = Reclaim r \<and> out = Some r \<and> cd_tasks c' = bt_remove i (cd_tasks c))
    \<or> (\<forall>r. tk_stage t \<noteq> Reclaim r) \<and>
      (\<exists>x w st. run_section E prefix now (tk_request t) (tk_stage t) (cd_world c, cd_slots c (tk_slot t)) = (x, (w, st))
        \<and> cd_slots c' (tk_slot t) = st
        \<and> (case x of Inl e \<Rightarrow> out = Some (Inl e) \<and> cd_tasks c' = bt_remove i (cd_tasks c)
           | Inr (Finish r) \<Rightarrow> out = Some r \<and> cd_tasks c' = bt_remove i (cd_tasks c)
           | Inr (Continue stg) \<Rightarrow> out = None
               \<and> cd_tasks c' = bt_insert i (Task (tk_request t) (tk_slot t) stg) (cd_tasks c)))"
proof (cases "\<exists>r. tk_stage t = Reclaim r")
  case True
  moreover have "cd_tasks (reclaim_slot gid a c) = cd_tasks c" for gid a by (simp add: reclaim_slot_def)
  ultimately show ?thesis using assms by (auto simp: resume_task_def end_task_def)
next
  case False
  obtain x w st where sec: "run_section E prefix now (tk_request t) (tk_stage t) (cd_world c, cd_slots c (tk_slot t)) = (x, (w, st))"
    by (metis prod.exhaust)
  with assms False have "(case x of Inl e \<Rightarrow> out = Some (Inl e) \<and> cd_tasks c' = bt_remove i (cd_tasks c)
           | Inr (Finish r) \<Rightarrow> out = Some r \<and> cd_tasks c' = bt_remove i (cd_tasks c)
           | Inr (Continue stg) \<Rightarrow> out = None
               \<and> cd_tasks c' = bt_insert i (Task (tk_request t) (tk_slot t) stg) (cd_tasks c)) \<and> cd_slots c' (tk_slot t) = st"
    by (cases "tk_stage t") (auto simp: resume_task_def end_task_def Let_def split: sum.splits progress.splits)
  with sec False show ?thesis by blast
qed

lemma resume_task_continues:
  assumes run: "resume_task E prefix now i t c = (out, c')" and out: "out = None"
  shows "\<exists>stg w st. run_section E prefix now (tk_request t) (tk_stage t) (cd_world c, cd_slots c (tk_slot t)) = (Inr (Continue stg), (w, st))
    \<and> cd_tasks c' = bt_insert i (Task (tk_request t) (tk_slot t) stg) (cd_tasks c)"
proof -
  from resume_task_shape [OF run] out obtain x w st where
    sec: "run_section E prefix now (tk_request t) (tk_stage t) (cd_world c, cd_slots c (tk_slot t)) = (x, (w, st))" and
    x: "case x of Inl e \<Rightarrow> out = Some (Inl e) \<and> cd_tasks c' = bt_remove i (cd_tasks c)
      | Inr (Finish r) \<Rightarrow> out = Some r \<and> cd_tasks c' = bt_remove i (cd_tasks c)
      | Inr (Continue stg) \<Rightarrow> out = None
          \<and> cd_tasks c' = bt_insert i (Task (tk_request t) (tk_slot t) stg) (cd_tasks c)"
    by blast
  with out obtain p where "x = Inr p" by (cases x) auto
  with sec x out show ?thesis by (cases p) auto
qed

lemma resume_task_fits:
  assumes W: "uuid_laws E" and c: "coordinator_ok c" "tasks_fit c" and t: "bt_get (cd_tasks c) i = Some t"
    and run: "resume_task E prefix now i t c = (out, c')"
  shows "tasks_fit c' \<and> (\<forall>r. out = Some r \<longrightarrow> reply_fits (tk_request t) r)"
proof -
  have calm: "coordinator_ok c'" "\<forall>r. out = Some r \<longrightarrow> calm r" using resume_task_ok [OF W c(1) t run] by auto
  from resume_task_shape [OF run] show ?thesis
  proof (elim disjE exE conjE)
    fix r assume "tk_stage t = Reclaim r" "out = Some r" "cd_tasks c' = bt_remove i (cd_tasks c)"
    with c(2) t have "reply_fits (tk_request t) r" by (simp add: tasks_fit_def reclaim_fits_def)
    with \<open>out = Some r\<close> tasks_fit_end [OF c(2) \<open>cd_tasks c' = _\<close>] show ?thesis by simp
  next
    fix x w st
    assume nr: "\<forall>r. tk_stage t \<noteq> Reclaim r"
      and sec: "run_section E prefix now (tk_request t) (tk_stage t) (cd_world c, cd_slots c (tk_slot t)) = (x, (w, st))"
      and x: "case x of Inl e \<Rightarrow> out = Some (Inl e) \<and> cd_tasks c' = bt_remove i (cd_tasks c)
           | Inr (Finish r) \<Rightarrow> out = Some r \<and> cd_tasks c' = bt_remove i (cd_tasks c)
           | Inr (Continue stg) \<Rightarrow> out = None
               \<and> cd_tasks c' = bt_insert i (Task (tk_request t) (tk_slot t) stg) (cd_tasks c)"
    show ?thesis
    proof (cases x)
      case (Inl e)
      with x calm tasks_fit_end [OF c(2)] show ?thesis by (auto simp: calm_def)
    next
      case (Inr p)
      have fit: "progress_fits (tk_request t) p" by (rule run_section_fits) (use sec Inr in simp)
      show ?thesis
      proof (cases p)
        case (Finish r)
        with x Inr calm fit tasks_fit_end [OF c(2)] show ?thesis by (auto simp: progress_fits_def)
      next
        case (Continue stg)
        with x Inr have new: "cd_tasks c' = bt_insert i (Task (tk_request t) (tk_slot t) stg) (cd_tasks c)" "out = None" by auto
        have "reclaim_fits (tk_request t) r" if r: "stg = Reclaim r" for r
        proof -
          have "bt_get (cd_tasks c') i = Some (Task (tk_request t) (tk_slot t) stg)"
            using new c(1) by (simp add: coordinator_ok_def bt_get_insert)
          with task_in(2) [OF calm(1)] have "stage_ok (tk_request t) (Reclaim r)" by (fastforce simp: task_ok_def r)
          then have "calm r" by (cases "tk_request t") auto
          with fit Continue r show ?thesis by (auto simp: progress_fits_def)
        qed
        with tasks_fit_insert [OF c(2,1) _ new(1)] new(2) show ?thesis by blast
      qed
    qed
  qed
qed

lemma coordinator_step_fits:
  assumes W: "uuid_laws E" and c: "coordinator_ok c" "tasks_fit c" and step: "coordinator_step E prefix c event c'"
  shows "tasks_fit c' \<and> (\<forall>req r. event = Reply req r \<longrightarrow> reply_fits req r)"
  using step
proof (cases rule: coordinator_step.cases)
  case (started now req)
  from start_request_tasks [OF started(2)] obtain i a where
    "cd_tasks c' = bt_insert i (Task req a (first_stage req)) (cd_tasks c)" by auto
  with started(1) show ?thesis by (cases req) (auto intro: tasks_fit_insert [OF c(2,1)])
next
  case (refused now req e)
  have "tasks_fit c'" using start_request_tasks [OF refused(2)] c(2) by (auto simp: tasks_fit_def)
  with refused(1) start_request_ok [OF c(1) refused(2)] show ?thesis by auto
next
  case (resumed i t now)
  with resume_task_fits [OF W c resumed(2,3)] show ?thesis by simp
next
  case (replied i t now r)
  with resume_task_fits [OF W c replied(2,3)] show ?thesis by simp
next
  case (dropped i)
  have "tasks_fit c'" by (rule tasks_fit_end [OF c(2), of _ i]) (simp add: dropped end_task_def)
  with dropped show ?thesis by simp
next
  case outside
  then show ?thesis using c(2) by (auto simp: tasks_fit_def)
qed

lemma reachable_fits: "coordinator_reachable E prefix c \<Longrightarrow> uuid_laws E \<Longrightarrow> tasks_fit c"
proof (induction rule: coordinator_reachable.induct)
  case (initial w)
  then show ?case by (simp add: tasks_fit_def coordinator_new_def bt_get_def)
next
  case (later c event c')
  with coordinator_step_fits [OF later.prems reachable_ok [OF later.hyps(1) later.prems] _ later.hyps(2)] show ?case by blast
qed

section \<open>Accepted commits\<close>

lemma end_task_world [simp]: "cd_world (end_task i c) = cd_world c"
  by (simp add: end_task_def)

lemma commit_section_accepts:
  assumes "commit_section E prefix now gid g k cs (w, st) = (Inr (Finish (Inr Accepted)), (w', st'))" "cs \<noteq> []"
  shows "\<exists>u. commit_offsets E prefix gid cs w = (Inr u, w')"
proof -
  from assms obtain u where "(case active_group g k (snd u) of
         Inl e \<Rightarrow> io_snd (then_reclaim (Inl e))
       | Inr gs \<Rightarrow>
           (case bt_get (gs_members gs) k of
              None \<Rightarrow> io_err (Panic ''active group validated member'')
            | Some member \<Rightarrow>
                if gs_phase gs \<noteq> Stable \<or> ms_assignment member = None
                then io_snd (then_reclaim (Inl (Kafka RebalanceInProgress)))
                else if cs = [] then io_ret (Finish (Inr Accepted))
                else io_bind (io_map_err StorageError (io_fst (commit_offsets E prefix gid cs))) (\<lambda>_.
                       io_ret (Finish (Inr Accepted))))) u = (Inr (Finish (Inr Accepted)), (w', st'))" "fst u = w"
    by (auto simp: commit_section_def result_simps)
  with assms(2) show ?thesis
    by (cases "active_group g k (snd u)")
       (auto simp: result_simps io_err_def dest!: then_reclaim_cases split: option.splits if_splits)
qed

text \<open>An accepted commit request of at least one position has just been written by the group store.\<close>

lemma accepted_commit_written:
  assumes W: "uuid_laws E" and c: "coordinator_reachable E prefix c"
    and step: "coordinator_step E prefix c (Reply (CommitRequest gid g k cs) (Inr Accepted)) c'" and ne: "cs \<noteq> []"
  shows "\<exists>u. commit_offsets E prefix gid cs (cd_world c) = (Inr u, cd_world c')"
  using step
proof (cases rule: coordinator_step.cases)
  case (replied i t now)
  have "tk_stage t \<noteq> Reclaim (Inr Accepted)"
  proof
    assume "tk_stage t = Reclaim (Inr Accepted)"
    with reachable_fits [OF c W] replied(2) have "reclaim_fits (tk_request t) (Inr Accepted)" by (simp add: tasks_fit_def)
    with replied(1) [symmetric] show False by (simp add: reclaim_fits_def)
  qed
  moreover from task_in(2) [OF reachable_ok [OF c W] replied(2)] have "stage_ok (tk_request t) (tk_stage t)" by (simp add: task_ok_def)
  ultimately have "tk_stage t = Visit" using replied(1) [symmetric] replied(3) by (cases "tk_stage t") (auto simp: resume_task_def)
  with replied(1) [symmetric] replied(3) obtain st st' where
    "commit_section E prefix now gid g k cs (cd_world c, st) = (Inr (Finish (Inr Accepted)), (cd_world c', st'))"
    by (auto simp: resume_task_def Let_def split: prod.splits sum.splits progress.splits)
  from commit_section_accepts [OF this ne] show ?thesis .
qed

section \<open>The interface\<close>

locale group_service =
  fixes await :: "group_request \<Rightarrow> ('s coordinator, coordinator_error, group_response) io"
    and good :: "'s coordinator \<Rightarrow> bool"
  assumes answered: "good c \<Longrightarrow> await req c = (r, c') \<Longrightarrow> good c' \<and> reply_fits req r"
    and world_changes: "good c \<Longrightarrow> good (c\<lparr>cd_world := w\<rparr>)"

text \<open>
  \<open>serves\<close> holds of a caller's wait whenever the answer it returns is one the coordinator gave to its
  request, any steps of other callers, sweeps and dropped connections having come before.
\<close>

definition serves ::
  "('s, 'm) group_env_scheme \<Rightarrow> string \<Rightarrow> (group_request \<Rightarrow> ('s coordinator, coordinator_error, group_response) io) \<Rightarrow> bool" where
  "serves E prefix await \<longleftrightarrow>
     (\<forall>c req r c'. coordinator_reachable E prefix c \<longrightarrow> await req c = (r, c') \<longrightarrow>
       (\<exists>c1. (\<lambda>a b. \<exists>event. coordinator_step E prefix a event b)\<^sup>*\<^sup>* c c1 \<and> coordinator_step E prefix c1 (Reply req r) c'))"

lemma steps_reachable:
  "(\<lambda>a b. \<exists>event. coordinator_step E prefix a event b)\<^sup>*\<^sup>* c c1 \<Longrightarrow> coordinator_reachable E prefix c \<Longrightarrow> coordinator_reachable E prefix c1"
  by (induction rule: rtranclp_induct) (auto intro: later)

interpretation scheduled:
  group_service await "\<lambda>c. uuid_laws E \<and> serves E prefix await \<and> coordinator_reachable E prefix c"
proof unfold_locales
  fix c req r c'
  assume c: "uuid_laws E \<and> serves E prefix await \<and> coordinator_reachable E prefix c" and run: "await req c = (r, c')"
  then obtain c1 where c1: "coordinator_reachable E prefix c1" and reply: "coordinator_step E prefix c1 (Reply req r) c'"
    unfolding serves_def by (blast intro: steps_reachable)
  have "reply_fits req r"
    using coordinator_step_fits [OF _ reachable_ok [OF c1] reachable_fits [OF c1] reply] c by blast
  with later [OF c1 reply] c
  show "(uuid_laws E \<and> serves E prefix await \<and> coordinator_reachable E prefix c') \<and> reply_fits req r" by blast
qed (auto intro: later [OF _ outside])

lemma served_commit_written:
  assumes W: "uuid_laws E" and await: "serves E prefix await" and c: "coordinator_reachable E prefix c"
    and run: "await (CommitRequest gid g k cs) c = (Inr Accepted, c')" and ne: "cs \<noteq> []"
  shows "coordinator_reachable E prefix c' \<and> (\<exists>w u. commit_offsets E prefix gid cs w = (Inr u, cd_world c'))"
proof -
  from await c run obtain c1 where
    c1: "(\<lambda>a b. \<exists>event. coordinator_step E prefix a event b)\<^sup>*\<^sup>* c c1"
      "coordinator_step E prefix c1 (Reply (CommitRequest gid g k cs) (Inr Accepted)) c'"
    unfolding serves_def by blast
  note r = steps_reachable [OF c1(1) c]
  from later [OF r c1(2)] accepted_commit_written [OF W r c1(2) ne] show ?thesis by blast
qed

end
