(* ===== verification/Protocol_Laws.thy ===== *)
theory Protocol_Laws
  imports Protocol Wire_Laws Coordinator_Service
begin

text \<open>
  Laws of the protocol layer: nothing happens before a frame has passed every check, the response
  belongs to the request, and no panic of the source can fire, given a coordinator that answers as
  \<open>group_service\<close> promises.
\<close>

text \<open>No error of the protocol has the code of success.\<close>

definition error_codes_nonzero :: "('s, 'm, 'k, 'x) protocol_env_scheme \<Rightarrow> bool" where
  "error_codes_nonzero P \<longleftrightarrow> (\<forall>e. px_error_code P e \<noteq> 0)"

section \<open>Handlers that cannot panic\<close>

definition quiet :: "('s coordinator \<Rightarrow> bool) \<Rightarrow> ('s, 'a) handler \<Rightarrow> bool" where
  "quiet good m \<longleftrightarrow> (\<forall>c r c'. good c \<longrightarrow> m c = (r, c') \<longrightarrow> good c' \<and> (\<forall>p. r \<noteq> Inl (ProtocolPanic p)))"

named_theorems quiet_rules \<open>structural rules for handlers without panics\<close>

lemma quietD: "quiet good m \<Longrightarrow> good c \<Longrightarrow> m c = (r, c') \<Longrightarrow> good c' \<and> (\<forall>p. r \<noteq> Inl (ProtocolPanic p))"
  by (simp add: quiet_def)

lemma quiet_ret [quiet_rules]: "quiet good (io_ret x)"
  by (simp add: quiet_def)

lemma quiet_err: "(\<And>p. e \<noteq> ProtocolPanic p) \<Longrightarrow> quiet good (io_err e)"
  by (auto simp: quiet_def)

lemma quiet_lift: "(\<And>p. r \<noteq> Inl (ProtocolPanic p)) \<Longrightarrow> quiet good (io_lift r)"
  by (auto simp: quiet_def)

lemma quiet_bind [quiet_rules]:
  assumes "quiet good m" "\<And>x. quiet good (k x)" shows "quiet good (io_bind m k)"
  unfolding quiet_def
proof (intro allI impI)
  fix c r c' assume c: "good c" and run: "io_bind m k c = (r, c')"
  obtain x d where m: "m c = (x, d)" by force
  from quietD [OF assms(1) c m] have d: "good d" "\<And>p. x \<noteq> Inl (ProtocolPanic p)" by auto
  show "good c' \<and> (\<forall>p. r \<noteq> Inl (ProtocolPanic p))"
  proof (cases x)
    case (Inl e)
    with d m run show ?thesis by (auto simp: io_bind_def)
  next
    case (Inr y)
    with m run have "k y d = (r, c')" by (simp add: io_bind_def)
    from quietD [OF assms(2) d(1) this] show ?thesis .
  qed
qed

lemma quiet_if [quiet_rules]: "(b \<Longrightarrow> quiet good m) \<Longrightarrow> (\<not> b \<Longrightarrow> quiet good n) \<Longrightarrow> quiet good (if b then m else n)"
  by simp

lemma quiet_option [quiet_rules]: "quiet good m \<Longrightarrow> (\<And>y. quiet good (f y)) \<Longrightarrow> quiet good (case x of None \<Rightarrow> m | Some y \<Rightarrow> f y)"
  by (cases x) auto

lemma quiet_sum [quiet_rules]:
  "(\<And>y. quiet good (g y)) \<Longrightarrow> (\<And>y. quiet good (f y)) \<Longrightarrow> quiet good (case x of Inl y \<Rightarrow> g y | Inr y \<Rightarrow> f y)"
  by (cases x) auto

lemma quiet_prod [quiet_rules]: "(\<And>a b. quiet good (f a b)) \<Longrightarrow> quiet good (case x of (a, b) \<Rightarrow> f a b)"
  by (cases x) auto

lemma quiet_prod_apply [quiet_rules]:
  "(\<And>a b. quiet good (f a b y)) \<Longrightarrow> quiet good ((case x of (a, b) \<Rightarrow> f a b) y)"
  by (cases x) auto

lemma quiet_map [quiet_rules]: "(\<And>x. quiet good (f x)) \<Longrightarrow> quiet good (io_map f xs)"
  by (induction xs) (auto intro!: quiet_rules)

lemma quiet_fold_map [quiet_rules]: "(\<And>x b. quiet good (f x b)) \<Longrightarrow> quiet good (io_fold_map f xs b)"
  by (induction xs arbitrary: b) (auto intro!: quiet_rules)

section \<open>Over a coordinator that answers\<close>

context group_service
begin

lemma quiet_world [quiet_rules]: "quiet good (call_world m)"
  by (auto simp: quiet_def call_world_def world_changes split: prod.splits)

lemma quiet_code: "\<not> panics e \<Longrightarrow> quiet good (coordinator_code P e)"
  by (cases e rule: coordinator_response_error.cases) (auto simp: coordinator_code_def intro: quiet_rules)

lemma quiet_call:
  assumes "px_await P = await" "\<And>r. reply_fits req r \<Longrightarrow> quiet good (k r)"
  shows "quiet good (io_bind (call_group P req) k)"
  unfolding quiet_def
proof (intro allI impI)
  fix c r c' assume c: "good c" and run: "io_bind (call_group P req) k c = (r, c')"
  obtain x d where aw: "await req c = (x, d)" by force
  from answered [OF c aw] have d: "good d" "reply_fits req x" by auto
  from run aw have "k x d = (r, c')" by (simp add: call_group_def assms(1) io_try_def io_bind_def)
  from quietD [OF assms(2) [OF d(2)] d(1) this] show "good c' \<and> (\<forall>p. r \<noteq> Inl (ProtocolPanic p))" .
qed

lemma quiet_world_result:
  assumes "\<And>r w w'. m w = (r, w') \<Longrightarrow> quiet good (k r)" shows "quiet good (io_bind (call_world m) k)"
  unfolding quiet_def
proof (intro allI impI)
  fix c r c' assume c: "good c" and run: "io_bind (call_world m) k c = (r, c')"
  obtain x w where m: "m (cd_world c) = (x, w)" by force
  with run have "k x (c\<lparr>cd_world := w\<rparr>) = (r, c')" by (simp add: call_world_def io_bind_def)
  from quietD [OF assms [OF m] world_changes [OF c] this] show "good c' \<and> (\<forall>p. r \<noteq> Inl (ProtocolPanic p))" .
qed

lemma quiet_log_handlers:
  "quiet good (metadata_response P mq ver identity)" "quiet good (init_producer_id_response P iq)"
  "quiet good (produce_response P pq)" "quiet good (fetch_response P fq)" "quiet good (list_offsets_response P lq)"
proof -
  have names: "metadata_names P ver ns \<noteq> Inl (ProtocolPanic p)" for ns p
    by (induction ns) (auto simp: attempt_def ok_or_def split: option.splits sum.splits)
  have part: "quiet good (produce_partition P q n pt)" for q n pt
    unfolding produce_partition_def by (intro quiet_rules)
  have one: "quiet good (fetch_one P q n ft b)" for q n ft b
    unfolding fetch_one_def Let_def by (intro quiet_rules)
  have off: "quiet good (list_offsets_one P q n lt)" for q n lt
    unfolding list_offsets_one_def Let_def by (intro quiet_rules)
  show "quiet good (metadata_response P mq ver identity)"
    unfolding metadata_response_def Let_def
    by (intro quiet_rules quiet_lift) (auto simp: names map_err_def split: sum.splits)
  show "quiet good (init_producer_id_response P iq)"
    unfolding init_producer_id_response_def Let_def by (intro quiet_rules)
  show "quiet good (produce_response P pq)" unfolding produce_response_def by (intro quiet_rules part)
  show "quiet good (fetch_response P fq)" unfolding fetch_response_def by (intro quiet_rules one)
  show "quiet good (list_offsets_response P lq)" unfolding list_offsets_response_def by (intro quiet_rules off)
qed

lemma quiet_accepted:
  assumes "px_await P = await" "reply_fits req (Inr Accepted)" "\<And>x. reply_fits req (Inr x) \<Longrightarrow> x = Accepted"
  shows "quiet good (io_bind (call_group P req) (accepted_code P))"
proof (rule quiet_call [OF assms(1)])
  fix r assume r: "reply_fits req r"
  show "quiet good (accepted_code P r)"
  proof (cases r)
    case (Inl e)
    with r have "\<not> panics e" by simp
    with Inl show ?thesis by (simp add: accepted_code_def quiet_code)
  next
    case (Inr x)
    with r assms(3) have "x = Accepted" by simp
    with Inr show ?thesis by (simp add: accepted_code_def quiet_ret)
  qed
qed

lemma quiet_membership_handlers:
  assumes P: "px_await P = await"
  shows "quiet good (find_coordinator_response P cq identity)" "quiet good (join_group_response P jq)"
    "quiet good (sync_group_response P sq)" "quiet good (heartbeat_response P hq)" "quiet good (leave_group_response P vq)"
proof -
  have found: "quiet good (case check_group gid of Inl e \<Rightarrow> coordinator_code P e | Inr _ \<Rightarrow> io_ret 0)" for gid
    using calm_validations(4) [of gid] by (auto simp: calm_check_def quiet_code quiet_ret split: sum.splits)
  show "quiet good (find_coordinator_response P cq identity)"
    unfolding find_coordinator_response_def by (intro quiet_bind quiet_if quiet_ret found)
  show "quiet good (join_group_response P jq)"
    unfolding join_group_response_def Let_def
    by (rule quiet_call [OF P]) (auto split: sum.splits intro!: quiet_rules quiet_code)
  show "quiet good (sync_group_response P sq)"
    unfolding sync_group_response_def Let_def
    by (rule quiet_call [OF P]) (auto split: sum.splits intro!: quiet_rules quiet_code)
  show "quiet good (heartbeat_response P hq)" unfolding heartbeat_response_def by (rule quiet_accepted [OF P]) auto
  show "quiet good (leave_group_response P vq)" unfolding leave_group_response_def by (rule quiet_accepted [OF P]) auto
qed

lemma quiet_topic_error [quiet_rules]: "quiet good (topic_error P topic part)"
  unfolding topic_error_def by (intro quiet_rules)

lemma quiet_offset_commit:
  assumes P: "px_await P = await" shows "quiet good (offset_commit_response P request)"
proof -
  have check: "quiet good (check_commits P cs errors valid)" for cs errors valid
    by (induction cs arbitrary: errors valid) (auto intro!: quiet_rules)
  show ?thesis
    unfolding offset_commit_response_def Let_def by (intro quiet_rules check quiet_accepted [OF P]) auto
qed

lemma quiet_global_error: "\<not> panics e \<Longrightarrow> quiet good (offset_fetch_global_error P ts e)"
  unfolding offset_fetch_global_error_def by (intro quiet_rules quiet_code)

lemma coordinator_fetch_results:
  assumes "coordinator_fetch E prefix gid selection w = (r, w')"
  shows "(\<forall>e. r = Inl e \<longrightarrow> \<not> panics e)
    \<and> (\<forall>offs. r = Inr offs \<longrightarrow> selection = None \<longrightarrow> (\<forall>off\<in>set offs. fo_committed off \<noteq> None))"
  using assms unfolding coordinator_fetch_def io_map_err_def
  by (auto simp: fetch_offsets_def io_bind_Inr_iff io_lift_def io_ret_def map_err_def split: prod.splits sum.splits)

lemma group_by_topic_quiet:
  "\<forall>off\<in>set offs. fo_committed off \<noteq> None \<Longrightarrow> group_by_topic offs m \<noteq> Inl e"
  by (induction offs arbitrary: m) (auto simp: Let_def split: option.splits)

lemma quiet_offset_fetch: "quiet good (offset_fetch_response P request)"
proof -
  have tp: "\<not> panics e" if "check_topic_partition key = Inl e" for key e
    using that by (auto simp: check_topic_partition_def map_err_def split: sum.splits)
  have gid: "\<not> panics e" if "check_group g = Inl e" for g e
    using that calm_validations(4) [of g] by (simp add: calm_check_def)
  have check: "quiet good (check_selection P keys selection errors)" for keys selection errors
    by (induction keys arbitrary: selection errors)
       (auto split: sum.splits intro!: quiet_rules quiet_code dest: tp)
  have all: "quiet good (case fetched of
        Inr offs \<Rightarrow> io_bind (io_lift (group_by_topic offs [])) (\<lambda>by_topic.
            io_ret ((df_offset_fetch (px_defaults P))\<lparr>fr_topics := by_topic\<rparr>))
      | Inl e \<Rightarrow> offset_fetch_global_error P None e)"
    if "coordinator_fetch E prefix g None w = (fetched, w')" for E prefix g w fetched w'
    using coordinator_fetch_results [OF that]
    by (auto split: sum.splits intro!: quiet_rules quiet_lift quiet_global_error simp: group_by_topic_quiet)
  have some: "quiet good (case fetched of
        Inl e \<Rightarrow> offset_fetch_global_error P (Some ts) e
      | Inr offs \<Rightarrow> io_ret (f offs))"
    if "coordinator_fetch E prefix g s w = (fetched, w')" for E prefix g s w fetched w' ts f
    using coordinator_fetch_results [OF that]
    by (auto split: sum.splits intro!: quiet_rules quiet_global_error)
  show ?thesis
    unfolding offset_fetch_response_def Let_def
    by (auto split: sum.splits option.splits
        intro!: quiet_bind [OF check] quiet_prod quiet_global_error quiet_world_result all some dest: gid)
qed

lemma quiet_respond:
  assumes "px_await P = await" shows "quiet good (respond P identity raw_key ver request)"
  by (cases request)
     (auto intro!: quiet_rules quiet_log_handlers quiet_membership_handlers [OF assms] quiet_offset_commit [OF assms]
       quiet_offset_fetch quiet_err)

lemma unsupported_quiet:
  "route_request P identity frame = Inr (key, raw_key, ver, False) \<Longrightarrow>
   unsupported_response P key raw_key ver correlation_id rest \<noteq> Inl (ProtocolPanic p)"
  by (auto simp: route_request_def unsupported_response_def encode_response_def Let_def attempt_def map_err_def
      split: sum.splits if_splits)

lemma route_request_quiet: "route_request P identity frame \<noteq> Inl (ProtocolPanic p)"
  by (auto simp: route_request_def validate_identity_def Let_def attempt_def map_err_def ok_or_def
      split: sum.splits if_splits option.splits)

lemma quiet_lift_result:
  "(\<And>p. m \<noteq> Inl (ProtocolPanic p)) \<Longrightarrow> (\<And>x. m = Inr x \<Longrightarrow> quiet good (k x)) \<Longrightarrow> quiet good (io_bind (io_lift m) k)"
  by (auto simp: quiet_def io_bind_def io_lift_def split: sum.splits)

lemma map_err_quiet: "(\<And>e p. f e \<noteq> ProtocolPanic p) \<Longrightarrow> map_err f m \<noteq> Inl (ProtocolPanic p)"
  by (auto simp: map_err_def split: sum.splits)

lemma quiet_handle:
  assumes "px_await P = await" shows "quiet good (handle_request P identity frame)"
proof -
  have enc: "encode_response P i v r \<noteq> Inl (ProtocolPanic p)" for i v r p
    by (auto simp: encode_response_def attempt_def map_err_def split: sum.splits)
  show ?thesis
    unfolding handle_request_def
    by (rule quiet_lift_result [OF route_request_quiet])
      (auto intro!: quiet_lift_result map_err_quiet quiet_rules quiet_lift quiet_err enc quiet_respond [OF assms]
         dest: unsupported_quiet)
qed

end

end
