(* ===== verification/Protocol_Gate.thy ===== *)
theory Protocol_Gate
  imports Protocol_Laws
begin

text \<open>
  What \<open>handle_request\<close> guarantees of every frame: nothing is decoded, executed or answered before
  the broker's identity, the API, its version and the complete layout of the frame have been
  checked, and the response belongs to the request that was decoded.
\<close>

section \<open>Admission\<close>

lemma validate_identity_Inr [result_simps]:
  "validate_identity identity = Inr u \<longleftrightarrow>
     valid_advertised_host (id_host identity) \<and> id_port identity \<noteq> 0 \<and> \<not> is_blank (id_cluster_id identity)"
  by (auto simp: validate_identity_def)

lemma route_request_Inr:
  "route_request P identity frame = Inr (key, raw_key, ver, supported) \<longleftrightarrow>
     valid_advertised_host (id_host identity) \<and> id_port identity \<noteq> 0 \<and> \<not> is_blank (id_cluster_id identity)
   \<and> 8 \<le> length frame \<and> raw_key = be_i16 (take 2 frame) \<and> ver = be_i16 (take 2 (drop 2 frame))
   \<and> px_api_key_of P raw_key = Some key \<and> supported = is_supported key ver
   \<and> (supported \<or> key = ApiVersions \<and> 0 \<le> ver \<and> ver \<le> 4)
   \<and> validate_request_frame P frame key ver = Inr ()"
  by (auto simp: route_request_def result_simps Let_def split: if_splits)

text \<open>The two ways in which a frame gets past the checks.\<close>

lemma handle_request_cases:
  assumes "handle_request P identity frame c = (r, c')" "c' \<noteq> c \<or> (\<exists>out. r = Inr out)"
  obtains (unsupported) key raw_key ver correlation_id rest out where
      "route_request P identity frame = Inr (key, raw_key, ver, False)" "px_decode_header P frame = Inr (correlation_id, rest)"
      "unsupported_response P key raw_key ver correlation_id rest = Inr out" "r = Inr out" "c' = c"
  | (supported) key raw_key ver correlation_id rest request where
      "route_request P identity frame = Inr (key, raw_key, ver, True)" "px_decode_header P frame = Inr (correlation_id, rest)"
      "px_decode_request P key rest ver = Inr (request, [])"
      "io_bind (respond P identity raw_key ver request) (\<lambda>(response, send_response).
         if \<not> send_response then io_ret None
         else io_bind (io_lift (encode_response P correlation_id ver response)) (\<lambda>encoded. io_ret (Some encoded))) c = (r, c')"
proof (cases "route_request P identity frame")
  case (Inl e)
  with assms show ?thesis by (auto simp: handle_request_def io_bind_def io_lift_def)
next
  case route: (Inr x)
  obtain key raw_key ver supp where x: "x = (key, raw_key, ver, supp)" by (cases x)
  show ?thesis
  proof (cases "px_decode_header P frame")
    case (Inl e)
    with assms route x show ?thesis by (auto simp: handle_request_def io_bind_def io_lift_def map_err_def)
  next
    case header: (Inr y)
    obtain correlation_id rest where y: "y = (correlation_id, rest)" by (cases y)
    show ?thesis
    proof (cases supp)
      case False
      with assms route x header y obtain out where
        "unsupported_response P key raw_key ver correlation_id rest = Inr out" "r = Inr out" "c' = c"
        by (auto simp: handle_request_def io_bind_def io_lift_def map_err_def)
      with route x header y False show ?thesis
        by (intro unsupported [of key raw_key ver correlation_id rest out]) auto
    next
      case True
      show ?thesis
      proof (cases "px_decode_request P key rest ver")
        case (Inl e)
        with assms route x header y True show ?thesis
          by (auto simp: handle_request_def io_bind_def io_lift_def map_err_def)
      next
        case (Inr z)
        obtain request tail where z: "z = (request, tail)" by (cases z)
        with assms route x header y True Inr have "tail = []"
          by (auto simp: handle_request_def io_bind_def io_lift_def map_err_def io_err_def split: if_splits)
        with assms route x header y True Inr z show ?thesis
          by (intro supported [of key raw_key ver correlation_id rest request])
             (auto simp: handle_request_def io_bind_def io_lift_def map_err_def)
      qed
    qed
  qed
qed

text \<open>C9 (request_gate). Unless a frame passes every check nothing is answered and no state changes: the
  broker's identity is valid, the frame's first bytes name a known API, its version is one the
  broker advertises, or it asks ApiVersions for a version up to 4, which only produces an answer,
  and the frame spells a request of exactly that layout with at most 10000 collection items.\<close>

theorem request_gate:
  assumes "handle_request P identity frame c = (r, c')" "c' \<noteq> c \<or> (\<exists>out. r = Inr out)"
  shows "valid_advertised_host (id_host identity) \<and> id_port identity \<noteq> 0 \<and> \<not> is_blank (id_cluster_id identity)
    \<and> (\<exists>key ver hs fs items. px_api_key_of P (be_i16 (take 2 frame)) = Some key \<and> be_i16 (take 2 (drop 2 frame)) = ver
        \<and> (is_supported key ver \<or> key = ApiVersions \<and> 0 \<le> ver \<and> ver \<le> 4 \<and> c' = c)
        \<and> header_fields P key ver = Some hs \<and> request_fields key ver = Some fs
        \<and> fits (hs @ fs) frame items \<and> items \<le> MAX_REQUEST_COLLECTION_ITEMS)"
proof -
  from handle_request_cases [OF assms] obtain key raw_key ver supp where
    "route_request P identity frame = Inr (key, raw_key, ver, supp)" "supp \<or> c' = c" by (metis (full_types))
  then show ?thesis unfolding route_request_Inr validate_request_frame_iff by blast
qed

section \<open>No panic\<close>

text \<open>C10 (broker_never_panics). Whatever bytes arrive and whatever the stores answer, handling a frame hits none
  of the unreachable! and expect calls of the protocol layer, the coordinator's results included,
  and leaves the coordinator in a reachable state; other callers' requests may run in between.\<close>

theorem broker_never_panics:
  assumes "uuid_laws (px_group P)" "serves (px_group P) (px_group_prefix P) (px_await P)"
    "coordinator_reachable (px_group P) (px_group_prefix P) c" "handle_request P identity frame c = (r, c')"
  shows "coordinator_reachable (px_group P) (px_group_prefix P) c' \<and> (\<forall>p. r \<noteq> Inl (ProtocolPanic p))"
  using quietD [OF scheduled.quiet_handle [OF refl, where E = "px_group P" and prefix = "px_group_prefix P"] _ assms(4)] assms(1-3)
  by blast

section \<open>The response\<close>

text \<open>The decoder returns a request of the API it was asked for; the response is of that API too.\<close>

fun request_of :: "api_key \<Rightarrow> request_kind \<Rightarrow> bool" where
  "request_of ApiVersions r = (r = ApiVersionsRequest)"
| "request_of ApiMetadata r = (\<exists>q. r = MetadataRequest q)"
| "request_of ApiInitProducerId r = (\<exists>q. r = InitProducerIdRequest q)"
| "request_of ApiProduce r = (\<exists>q. r = ProduceRequest q)"
| "request_of ApiFetch r = (\<exists>q. r = FetchRequest q)"
| "request_of ApiListOffsets r = (\<exists>q. r = ListOffsetsRequest q)"
| "request_of ApiFindCoordinator r = (\<exists>q. r = FindCoordinatorRequest q)"
| "request_of ApiJoinGroup r = (\<exists>q. r = JoinGroupRequest q)"
| "request_of ApiSyncGroup r = (\<exists>q. r = SyncGroupRequest q)"
| "request_of ApiHeartbeat r = (\<exists>q. r = HeartbeatGroupRequest q)"
| "request_of ApiLeaveGroup r = (\<exists>q. r = LeaveGroupRequest q)"
| "request_of ApiOffsetCommit r = (\<exists>q. r = OffsetCommitRequest q)"
| "request_of ApiOffsetFetch r = (\<exists>q. r = OffsetFetchRequest q)"
| "request_of (OtherApi n) r = (r = OtherRequest)"

fun response_of :: "api_key \<Rightarrow> response_kind \<Rightarrow> bool" where
  "response_of ApiVersions r = (\<exists>x. r = ApiVersionsResponse x)"
| "response_of ApiMetadata r = (\<exists>x. r = MetadataResponse x)"
| "response_of ApiInitProducerId r = (\<exists>x. r = InitProducerIdResponse x)"
| "response_of ApiProduce r = (\<exists>x. r = ProduceResponse x)"
| "response_of ApiFetch r = (\<exists>x. r = FetchResponse x)"
| "response_of ApiListOffsets r = (\<exists>x. r = ListOffsetsResponse x)"
| "response_of ApiFindCoordinator r = (\<exists>x. r = FindCoordinatorResponse x)"
| "response_of ApiJoinGroup r = (\<exists>x. r = JoinGroupResponse x)"
| "response_of ApiSyncGroup r = (\<exists>x. r = SyncGroupResponse x)"
| "response_of ApiHeartbeat r = (\<exists>x. r = HeartbeatResponse x)"
| "response_of ApiLeaveGroup r = (\<exists>x. r = LeaveGroupResponse x)"
| "response_of ApiOffsetCommit r = (\<exists>x. r = OffsetCommitResponse x)"
| "response_of ApiOffsetFetch r = (\<exists>x. r = OffsetFetchResponse x)"
| "response_of (OtherApi n) r = False"

definition decodes_by_key :: "('s, 'm, 'k, 'x) protocol_env_scheme \<Rightarrow> bool" where
  "decodes_by_key P \<longleftrightarrow>
     (\<forall>key frame ver request rest. px_decode_request P key frame ver = Inr (request, rest) \<longrightarrow> request_of key request)"

lemma respond_kind:
  assumes "request_of key request" "respond P identity raw_key ver request c = (Inr (response, send), c')"
  shows "response_of key response \<and> (\<not> send \<longrightarrow> (\<exists>q. request = ProduceRequest q \<and> pq_acks q = 0))"
  using assms by (cases request; cases key) (auto simp: result_simps io_err_def)

lemma unsupported_response_Inr:
  assumes "unsupported_response P key raw_key ver correlation_id rest = Inr out"
  shows "\<exists>response encoded. out = Some encoded \<and> response_of key response
    \<and> encode_response P correlation_id ver response = Inr encoded"
proof -
  let ?response = "ApiVersionsResponse ((df_api_versions (px_defaults P))\<lparr>vr_error_code := px_error_code P UnsupportedVersion\<rparr>)"
  from assms have "key = ApiVersions" "\<exists>encoded. out = Some encoded \<and> encode_response P correlation_id ver ?response = Inr encoded"
    by (auto simp: unsupported_response_def result_simps split: if_splits)
  moreover have "response_of ApiVersions ?response" by simp
  ultimately show ?thesis by blast
qed

text \<open>C13 (response_answers_request). What is sent back carries the correlation id of the frame's header and
  a response of the API the frame names, encoded for the frame's version; nothing is sent back only
  for a decoded produce request without acknowledgements.\<close>

theorem response_answers_request:
  assumes "decodes_by_key P" "handle_request P identity frame c = (Inr out, c')"
  shows "\<exists>key ver correlation_id rest.
    px_api_key_of P (be_i16 (take 2 frame)) = Some key \<and> be_i16 (take 2 (drop 2 frame)) = ver
    \<and> px_decode_header P frame = Inr (correlation_id, rest)
    \<and> (case out of
         None \<Rightarrow> \<exists>q. px_decode_request P key rest ver = Inr (ProduceRequest q, []) \<and> pq_acks q = 0
       | Some encoded \<Rightarrow> \<exists>response. response_of key response
             \<and> encode_response P correlation_id ver response = Inr encoded)"
proof -
  have answered: "c' \<noteq> c \<or> (\<exists>o'. Inr out = Inr o')" by blast
  show ?thesis
  proof (cases rule: handle_request_cases [OF assms(2) answered])
    case (1 key raw_key ver correlation_id rest o')
    with unsupported_response_Inr [OF 1(3)] show ?thesis
      unfolding route_request_Inr
      by - (rule exI [of _ key], rule exI [of _ ver], rule exI [of _ correlation_id], rule exI [of _ rest], auto simp del: response_of.simps)
  next
    case (2 key raw_key ver correlation_id rest request)
    from 2(4) obtain response send d where run: "respond P identity raw_key ver request c = (Inr (response, send), d)"
      and last: "(if \<not> send then io_ret None
         else io_bind (io_lift (encode_response P correlation_id ver response)) (\<lambda>encoded. io_ret (Some encoded))) d = (Inr out, c')"
      by (auto simp: result_simps)
    have "request_of key request" using assms(1) 2(3) unfolding decodes_by_key_def by blast
    from respond_kind [OF this run] last 2 show ?thesis
      unfolding route_request_Inr
      by - (rule exI [of _ key], rule exI [of _ ver], rule exI [of _ correlation_id], rule exI [of _ rest],
         auto simp: result_simps simp del: response_of.simps split: if_splits)
  qed
qed

end
