(* ===== verification/Protocol_Offsets.thy ===== *)
theory Protocol_Offsets
  imports Protocol_Laws Log_Fetch_Laws Group_Store_Laws
begin

text \<open>
  Committing and fetching offsets over the protocol: what the error codes of a commit response say,
  what a fetch response reports, and that a committed position is what is fetched afterwards. The
  claims rest on the coordinator's interface, on the group store's atomic commit and on the store's
  documented behaviour.
\<close>

abbreviation commit_key :: "offset_commit \<Rightarrow> topic_partition" where
  "commit_key cm \<equiv> TopicPartition (oc_topic cm) (oc_partition cm)"

lemma topic_error_run:
  assumes "topic_error P topic part c = (r, c')"
  shows "\<exists>out found w. r = Inr out \<and> topic_exists (px_log P) (px_engine P) topic part (cd_world c) = (found, w)
    \<and> c' = c\<lparr>cd_world := w\<rparr> \<and> (error_codes_nonzero P \<longrightarrow> out \<noteq> Some 0)"
  using assms
  by (auto simp: topic_error_def io_bind_def call_world_def error_codes_nonzero_def log_error_code_def split: prod.splits sum.splits bool.splits)

lemma io_bind_topic_error:
  assumes "io_bind (topic_error P topic part) k c = (r, c')"
  obtains out w where "k out (c\<lparr>cd_world := w\<rparr>) = (r, c')" "error_codes_nonzero P \<longrightarrow> out \<noteq> Some 0"
    "\<exists>found. topic_exists (px_log P) (px_engine P) topic part (cd_world c) = (found, w)"
proof -
  obtain x d where run: "topic_error P topic part c = (x, d)" by force
  from topic_error_run [OF this] obtain out found w where
    f: "x = Inr out" "topic_exists (px_log P) (px_engine P) topic part (cd_world c) = (found, w)" "d = c\<lparr>cd_world := w\<rparr>"
      "error_codes_nonzero P \<longrightarrow> out \<noteq> Some 0" by blast
  with run assms show thesis by (intro that [of out w]) (auto simp: io_bind_def)
qed

section \<open>Commit\<close>

lemma check_commits_run:
  assumes "check_commits P cs errors valid c = (r, c')" "bt_inv errors"
  shows "\<exists>errors' new w. r = Inr (errors', valid @ new) \<and> c' = c\<lparr>cd_world := w\<rparr> \<and> set new \<subseteq> set cs
    \<and> bt_inv errors'
    \<and> (\<forall>k. bt_get errors' k = None \<longrightarrow> bt_get errors k = None \<and> (\<forall>cm \<in> set cs. commit_key cm = k \<longrightarrow> cm \<in> set new))
    \<and> (error_codes_nonzero P \<longrightarrow> (\<forall>k. bt_get errors k \<noteq> Some 0) \<longrightarrow> (\<forall>k. bt_get errors' k \<noteq> Some 0))"
  using assms
proof (induction cs arbitrary: errors valid c)
  case Nil
  then show ?case by (intro exI [of _ errors] exI [of _ "[]"] exI [of _ "cd_world c"]) auto
next
  case (Cons cm cs)
  from Cons.prems(1) obtain out w where
    run: "(case out of Some code \<Rightarrow> check_commits P cs (bt_insert (commit_key cm) code errors) valid
       | None \<Rightarrow> check_commits P cs errors (valid @ [cm])) (c\<lparr>cd_world := w\<rparr>) = (r, c')"
    and nz: "error_codes_nonzero P \<longrightarrow> out \<noteq> Some 0"
    by (auto elim: io_bind_topic_error)
  show ?case
  proof (cases out)
    case None
    with run have "check_commits P cs errors (valid @ [cm]) (c\<lparr>cd_world := w\<rparr>) = (r, c')" by simp
    from Cons.IH [OF this Cons.prems(2)] obtain errors' new v where
      "r = Inr (errors', valid @ cm # new)" "c' = c\<lparr>cd_world := v\<rparr>" "set new \<subseteq> set cs" "bt_inv errors'"
      "\<forall>k. bt_get errors' k = None \<longrightarrow> bt_get errors k = None \<and> (\<forall>cm \<in> set cs. commit_key cm = k \<longrightarrow> cm \<in> set new)"
      "error_codes_nonzero P \<longrightarrow> (\<forall>k. bt_get errors k \<noteq> Some 0) \<longrightarrow> (\<forall>k. bt_get errors' k \<noteq> Some 0)" by auto
    then show ?thesis by (intro exI [of _ errors'] exI [of _ "cm # new"] exI [of _ v]) auto
  next
    case (Some code)
    with run have "check_commits P cs (bt_insert (commit_key cm) code errors) valid (c\<lparr>cd_world := w\<rparr>) = (r, c')" by simp
    from Cons.IH [OF this bt_inv_insert [OF Cons.prems(2)]] obtain errors' new v where
      ih: "r = Inr (errors', valid @ new)" "c' = c\<lparr>cd_world := w, cd_world := v\<rparr>" "set new \<subseteq> set cs" "bt_inv errors'"
      "\<forall>k. bt_get errors' k = None \<longrightarrow> bt_get (bt_insert (commit_key cm) code errors) k = None
         \<and> (\<forall>cm \<in> set cs. commit_key cm = k \<longrightarrow> cm \<in> set new)"
      "error_codes_nonzero P \<longrightarrow> (\<forall>k. bt_get (bt_insert (commit_key cm) code errors) k \<noteq> Some 0) \<longrightarrow> (\<forall>k. bt_get errors' k \<noteq> Some 0)"
      by blast
    have "\<forall>k. bt_get errors' k = None \<longrightarrow> bt_get errors k = None \<and> (\<forall>x \<in> set (cm # cs). commit_key x = k \<longrightarrow> x \<in> set new)"
    proof (intro allI impI)
      fix k assume "bt_get errors' k = None"
      with ih(5) have "bt_get (bt_insert (commit_key cm) code errors) k = None" "\<forall>x \<in> set cs. commit_key x = k \<longrightarrow> x \<in> set new" by blast+
      then show "bt_get errors k = None \<and> (\<forall>x \<in> set (cm # cs). commit_key x = k \<longrightarrow> x \<in> set new)"
        by (auto simp: bt_get_insert [OF Cons.prems(2)] split: if_splits)
    qed
    moreover have "error_codes_nonzero P \<longrightarrow> (\<forall>k. bt_get errors k \<noteq> Some 0) \<longrightarrow> (\<forall>k. bt_get errors' k \<noteq> Some 0)"
      using ih(6) nz Some by (auto simp: bt_get_insert [OF Cons.prems(2)])
    ultimately show ?thesis
      using ih(1-4) by (intro exI [of _ errors'] exI [of _ new] exI [of _ v]) auto
  qed
qed

lemma coordinator_code_run:
  assumes "coordinator_code P e c = (r, c')"
  shows "c' = c \<and> (\<forall>code. r = Inr code \<longrightarrow> error_codes_nonzero P \<longrightarrow> code \<noteq> 0)"
  using assms by (auto simp: coordinator_code_def error_codes_nonzero_def io_err_def split: option.splits)

lemma accepted_code_run:
  assumes "accepted_code P result c = (Inr code, c')"
  shows "c' = c \<and> (error_codes_nonzero P \<longrightarrow> code = 0 \<longrightarrow> result = Inr Accepted)"
  using assms coordinator_code_run [of P _ c "Inr code" c']
  by (auto simp: accepted_code_def io_err_def split: sum.splits group_response.splits)

text \<open>The request the coordinator has accepted when a response reports success anywhere.\<close>

definition commit_accepted ::
  "('s, 'm, 'k, 'x) protocol_env_scheme \<Rightarrow> offset_commit_request \<Rightarrow> 's coordinator \<Rightarrow> offset_commit list \<Rightarrow> 's coordinator \<Rightarrow> bool" where
  "commit_accepted P request c valid c' \<longleftrightarrow> set valid \<subseteq> set (commits_of (oq_topics request))
     \<and> (\<exists>w. px_await P (CommitRequest (oq_group_id request) (oq_generation_id_or_member_epoch request) (oq_member_id request) valid)
            (c\<lparr>cd_world := w\<rparr>) = (Inr Accepted, c'))"

lemma offset_commit_response_run:
  assumes nz: "error_codes_nonzero P" and run: "offset_commit_response P request c = (Inr resp, c')"
  shows "map (\<lambda>(name, ps). (name, map or_partition_index ps)) resp
       = map (\<lambda>(name, ps). (name, map cp_partition_index ps)) (oq_topics request)
    \<and> (\<forall>name ps part. (name, ps) \<in> set resp \<longrightarrow> part \<in> set ps \<longrightarrow> or_error_code part = 0 \<longrightarrow>
         (\<exists>valid. commit_accepted P request c valid c'
            \<and> (\<forall>cm \<in> set (commits_of (oq_topics request)). commit_key cm = TopicPartition name (or_partition_index part) \<longrightarrow> cm \<in> set valid)))"
proof -
  define re where "re = (if oq_retention_time_ms request \<noteq> - 1 then px_error_code P InvalidRequest else 0)"
  have re: "re = 0 \<longleftrightarrow> oq_retention_time_ms request = - 1" using nz by (auto simp: re_def error_codes_nonzero_def)
  note run = run [unfolded offset_commit_response_def Let_def, folded re_def]
  have shape: "map (\<lambda>(name, ps). (name, map or_partition_index ps)) (commit_responses ts re ce errs)
      = map (\<lambda>(name, ps). (name, map cp_partition_index ps)) ts" for ts ce errs
    by (auto simp: commit_responses_def)
  show ?thesis
  proof (cases "re = 0")
    case False
    with run have resp: "resp = commit_responses (oq_topics request) re 0 []" by (simp add: io_bind_def)
    have "or_error_code part = re" if "(name, ps) \<in> set resp" "part \<in> set ps" for name ps part
      using that False by (auto simp: resp commit_responses_def)
    with False shape resp show ?thesis by fastforce
  next
    case True
    obtain x d where chk: "check_commits P (commits_of (oq_topics request)) [] [] c = (x, d)" by force
    from check_commits_run [OF this] obtain errs new w where
      x: "x = Inr (errs, new)" "d = c\<lparr>cd_world := w\<rparr>" "set new \<subseteq> set (commits_of (oq_topics request))"
      "\<forall>k. bt_get errs k = None \<longrightarrow> (\<forall>cm \<in> set (commits_of (oq_topics request)). commit_key cm = k \<longrightarrow> cm \<in> set new)"
      "\<forall>k. bt_get errs k \<noteq> Some 0"
      using nz by (auto simp: bt_inv_def bt_get_def)
    with run True chk obtain ans d' ce where
      await: "px_await P (CommitRequest (oq_group_id request) (oq_generation_id_or_member_epoch request) (oq_member_id request) new) d = (ans, d')"
      and code: "accepted_code P ans d' = (Inr ce, c')" and resp: "resp = commit_responses (oq_topics request) 0 ce errs"
      by (auto simp: result_simps call_group_def)
    note acc = accepted_code_run [OF code]
    have "commit_accepted P request c new c' \<and>
        (\<forall>cm \<in> set (commits_of (oq_topics request)). commit_key cm = TopicPartition name (or_partition_index part) \<longrightarrow> cm \<in> set new)"
      if "(name, ps) \<in> set resp" "part \<in> set ps" "or_error_code part = 0" for name ps part
    proof -
      from that have "ce = 0" "bt_get errs (TopicPartition name (or_partition_index part)) \<in> {None, Some 0}"
        by (auto simp: resp commit_responses_def split: if_splits option.splits)
      with x acc await nz show ?thesis by (auto simp: commit_accepted_def)
    qed
    with shape [of "oq_topics request" ce errs] resp True show ?thesis by blast
  qed
qed

text \<open>C36 (offset_commit_reported). The response lists the partitions of the request in its order. Code 0 on any
  of them means that the coordinator accepted, as the last effect of the request, a commit of that
  group, generation and member that contains every entry of the partition and only entries of the
  request.\<close>

theorem offset_commit_reported:
  assumes "error_codes_nonzero P" "offset_commit_response P request c = (Inr resp, c')"
  shows "map (\<lambda>(name, ps). (name, map or_partition_index ps)) resp
       = map (\<lambda>(name, ps). (name, map cp_partition_index ps)) (oq_topics request)
    \<and> (\<forall>name ps part. (name, ps) \<in> set resp \<longrightarrow> part \<in> set ps \<longrightarrow> or_error_code part = 0 \<longrightarrow>
         (\<exists>valid. commit_accepted P request c valid c'
            \<and> (\<forall>cm \<in> set (commits_of (oq_topics request)). commit_key cm = TopicPartition name (or_partition_index part) \<longrightarrow> cm \<in> set valid)))"
  using assms by (rule offset_commit_response_run)

section \<open>Fetch\<close>

definition world_relied :: "('s \<Rightarrow> objects) \<Rightarrow> (objects \<Rightarrow> objects \<Rightarrow> bool) \<Rightarrow> 's coordinator \<Rightarrow> 's coordinator \<Rightarrow> bool" where
  "world_relied view rely c d \<longleftrightarrow> rely (view (cd_world c)) (view (cd_world d))"

lemma io_keeps_world:
  assumes "store_laws W view rely" "io_keeps (relied view rely) m" shows "io_keeps (world_relied view rely) (call_world m)"
proof (rule io_keeps_single)
  fix c x d assume "call_world m c = (x, d)"
  then obtain r w where m: "m (cd_world c) = (r, w)" and d: "d = c\<lparr>cd_world := w\<rparr>"
    by (auto simp: call_world_def split: prod.splits)
  from relied_rtrancl [OF assms(1) io_keepsD [OF assms(2) m]] show "world_relied view rely c d" by (simp add: world_relied_def d)
qed

lemma world_relied_rtrancl:
  assumes "store_laws W view rely" "(world_relied view rely)\<^sup>*\<^sup>* c d" shows "rely (view (cd_world c)) (view (cd_world d))"
  using assms(2)
  by (induction rule: rtranclp_induct)
    (auto simp: world_relied_def intro: store_laws_refl [OF assms(1)] store_laws_trans [OF assms(1)])

lemma topic_exists_reads [io_keeps_rules]: "reads_keep R E \<Longrightarrow> io_keeps R (topic_exists E L topic part)"
  unfolding topic_exists_def by (intro io_keeps_rules)

lemma coordinator_code_reads [io_keeps_rules]: "io_keeps R (coordinator_code P e)"
  unfolding coordinator_code_def by (intro io_keeps_rules)

lemma check_selection_reads:
  assumes "store_laws (px_log P) view rely" shows "io_keeps (world_relied view rely) (check_selection P keys selection errors)"
proof -
  have "io_keeps (world_relied view rely) (topic_error P topic part)" for topic part
    unfolding topic_error_def
    by (intro io_keeps_rules io_keeps_world [OF assms] topic_exists_reads reads_relied [OF assms])
  then show ?thesis
    by (induction keys arbitrary: selection errors) (auto intro!: io_keeps_rules)
qed

lemma selection_error_run:
  assumes "(case check_topic_partition key of
                Inr _ \<Rightarrow> topic_error P (tp_topic key) (tp_partition key)
              | Inl e \<Rightarrow> io_bind (coordinator_code P e) (\<lambda>code. io_ret (Some code))) c = (r, c')"
  shows "\<exists>out w. r = Inr out \<and> c' = c\<lparr>cd_world := w\<rparr> \<and> (error_codes_nonzero P \<longrightarrow> out \<noteq> Some 0)"
proof (cases "check_topic_partition key")
  case (Inl e)
  then have "\<not> panics e" by (auto simp: check_topic_partition_def map_err_def split: sum.splits)
  then obtain re where "coordinator_response_error e = Some re" by (cases e rule: coordinator_response_error.cases) auto
  with assms Inl show ?thesis
    by (intro exI [of _ "Some (px_error_code P re)"] exI [of _ "cd_world c"]) (auto simp: coordinator_code_def error_codes_nonzero_def)
next
  case (Inr u)
  with assms topic_error_run [of P "tp_topic key" "tp_partition key" c r c'] show ?thesis by auto
qed

lemma check_selection_run:
  assumes "check_selection P keys selection errors c = (r, c')" "bt_inv selection" "bt_inv errors"
  shows "\<exists>selection' errors' w. r = Inr (selection', errors') \<and> bt_inv selection' \<and> bt_inv errors' \<and> c' = c\<lparr>cd_world := w\<rparr>
    \<and> (\<forall>k. bt_contains selection k \<longrightarrow> bt_contains selection' k)
    \<and> (\<forall>k. bt_get errors' k = None \<longrightarrow> bt_get errors k = None \<and> (k \<in> set keys \<longrightarrow> bt_contains selection' k))
    \<and> (error_codes_nonzero P \<longrightarrow> (\<forall>k. bt_get errors k \<noteq> Some 0) \<longrightarrow> (\<forall>k. bt_get errors' k \<noteq> Some 0))"
  using assms
proof (induction keys arbitrary: selection errors c)
  case Nil
  then show ?case by (intro exI [of _ selection] exI [of _ errors] exI [of _ "cd_world c"]) auto
next
  case (Cons key keys)
  let ?check = "case check_topic_partition key of
                Inr _ \<Rightarrow> topic_error P (tp_topic key) (tp_partition key)
              | Inl e \<Rightarrow> io_bind (coordinator_code P e) (\<lambda>code. io_ret (Some code))"
  obtain x d where one: "?check c = (x, d)" by force
  from selection_error_run [OF this] obtain out w where
    out: "x = Inr out" "d = c\<lparr>cd_world := w\<rparr>" "error_codes_nonzero P \<longrightarrow> out \<noteq> Some 0" by blast
  show ?case
  proof (cases out)
    case None
    with Cons.prems(1) one out have "check_selection P keys (bt_insert key () selection) errors (c\<lparr>cd_world := w\<rparr>) = (r, c')"
      by (simp add: io_bind_def)
    from Cons.IH [OF this bt_inv_insert [OF Cons.prems(2)] Cons.prems(3)] obtain selection' errors' v where
      ih: "r = Inr (selection', errors')" "bt_inv selection'" "bt_inv errors'" "c' = c\<lparr>cd_world := w, cd_world := v\<rparr>"
        "\<forall>k. bt_contains (bt_insert key () selection) k \<longrightarrow> bt_contains selection' k"
        "\<forall>k. bt_get errors' k = None \<longrightarrow> bt_get errors k = None \<and> (k \<in> set keys \<longrightarrow> bt_contains selection' k)"
        "error_codes_nonzero P \<longrightarrow> (\<forall>k. bt_get errors k \<noteq> Some 0) \<longrightarrow> (\<forall>k. bt_get errors' k \<noteq> Some 0)"
      by blast
    have "bt_contains (bt_insert key () selection) k" if "k = key \<or> bt_contains selection k" for k
      using that by (auto simp: bt_contains_def bt_get_insert [OF Cons.prems(2)])
    with ih show ?thesis by (intro exI [of _ selection'] exI [of _ errors'] exI [of _ v]) auto
  next
    case (Some code)
    with Cons.prems(1) one out have "check_selection P keys selection (bt_insert key code errors) (c\<lparr>cd_world := w\<rparr>) = (r, c')"
      by (simp add: io_bind_def)
    from Cons.IH [OF this Cons.prems(2) bt_inv_insert [OF Cons.prems(3)]] obtain selection' errors' v where
      ih: "r = Inr (selection', errors')" "bt_inv selection'" "bt_inv errors'" "c' = c\<lparr>cd_world := w, cd_world := v\<rparr>"
        "\<forall>k. bt_contains selection k \<longrightarrow> bt_contains selection' k"
        "\<forall>k. bt_get errors' k = None \<longrightarrow> bt_get (bt_insert key code errors) k = None \<and> (k \<in> set keys \<longrightarrow> bt_contains selection' k)"
        "error_codes_nonzero P \<longrightarrow> (\<forall>k. bt_get (bt_insert key code errors) k \<noteq> Some 0) \<longrightarrow> (\<forall>k. bt_get errors' k \<noteq> Some 0)"
      by blast
    have "bt_get errors k = None \<and> (k \<in> set (key # keys) \<longrightarrow> bt_contains selection' k)" if "bt_get errors' k = None" for k
    proof -
      from ih(6) that have "bt_get (bt_insert key code errors) k = None" "k \<in> set keys \<longrightarrow> bt_contains selection' k" by blast+
      then show ?thesis by (auto simp: bt_get_insert [OF Cons.prems(3)] split: if_splits)
    qed
    moreover have "error_codes_nonzero P \<longrightarrow> (\<forall>k. bt_get errors k \<noteq> Some 0) \<longrightarrow> (\<forall>k. bt_get errors' k \<noteq> Some 0)"
      using ih(7) out(3) Some by (auto simp: bt_get_insert [OF Cons.prems(3)])
    ultimately show ?thesis using ih(1-5) by (intro exI [of _ selection'] exI [of _ errors'] exI [of _ v]) auto
  qed
qed

lemma map_of_graph: "map_of (map (\<lambda>k. (k, f k)) ks) k = (if k \<in> set ks then Some (f k) else None)"
  by (induction ks) auto

lemma bt_get_graph: "bt_get (bt_of_list (map (\<lambda>k. (k, f k)) ks)) k = (if k \<in> set ks then Some (f k) else None)"
proof -
  have "bt_get (bt_of_list (map (\<lambda>k. (k, f k)) ks)) = map_of (rev (map (\<lambda>k. (k, f k)) ks))"
    using bt.fold_ins [of "[]" "map (\<lambda>k. (k, f k)) ks"] by (simp add: bt_of_list_def bt_inv_def bt_get_def fun_eq_iff)
  also have "rev (map (\<lambda>k. (k, f k)) ks) = map (\<lambda>k. (k, f k)) (rev ks)" by (simp add: rev_map)
  finally show ?thesis by (simp add: map_of_graph)
qed

text \<open>What a partition of the response says about the group's positions.\<close>

definition reports :: "(topic_partition, committed_offset) btree_map \<Rightarrow> string \<Rightarrow> offset_fetch_partition_response \<Rightarrow> bool" where
  "reports offsets name part \<longleftrightarrow>
     (case bt_get offsets (TopicPartition name (tr_partition_index part)) of
        None \<Rightarrow> tr_committed_offset part = - 1 \<and> tr_metadata part = None
      | Some committed \<Rightarrow> tr_committed_offset part = co_offset committed \<and> tr_metadata part = co_metadata committed)"

lemma offset_fetch_response_run:
  assumes legal: "group_legal (px_group P) view rely" and log: "store_laws (px_log P) view rely" and nz: "error_codes_nonzero P"
    and run: "offset_fetch_response P \<lparr>tq_group_id = gid, tq_topics = Some ts\<rparr> c = (Inr resp, c')"
    and ok: "fr_error_code resp = 0"
  shows "rely (view (cd_world c)) (view (cd_world c'))
    \<and> (\<exists>offsets. current_offsets (px_group P) (px_group_prefix P) gid (view (cd_world c')) = Some offsets
    \<and> map (\<lambda>(name, ps). (name, map tr_partition_index ps)) (fr_topics resp) = ts
    \<and> (\<forall>name ps part. (name, ps) \<in> set (fr_topics resp) \<longrightarrow> part \<in> set ps \<longrightarrow> tr_error_code part = 0 \<longrightarrow> reports offsets name part))"
proof -
  have store: "store_laws (px_group P) view rely" using legal by (simp add: group_legal_def)
  have no_global: False if "offset_fetch_global_error P q e d = (Inr resp, d')" for q e d d'
  proof -
    from that obtain code where "coordinator_code P e d = (Inr code, d')" "fr_error_code resp = code"
      by (auto simp: offset_fetch_global_error_def result_simps)
    with coordinator_code_run [OF this(1)] ok nz show False by auto
  qed
  from run no_global obtain x d where chk: "check_selection P (selected_keys ts) [] [] c = (x, d)"
    and gid: "check_group gid = Inr ()" by (cases "check_group gid") (force simp: offset_fetch_response_def)+
  from check_selection_run [OF this(1)] obtain selection errors w where
    x: "x = Inr (selection, errors)" "d = c\<lparr>cd_world := w\<rparr>"
      "\<forall>k. bt_get errors k = None \<longrightarrow> k \<in> set (selected_keys ts) \<longrightarrow> bt_contains selection k" "\<forall>k. bt_get errors k \<noteq> Some 0"
    using nz by (auto simp: bt_inv_def bt_get_def)
  obtain f d' where fetch: "coordinator_fetch (px_group P) (px_group_prefix P) gid (Some (bt_keys selection)) (cd_world d) = (f, d')" by force
  with run gid chk x have "(case f of
        Inl e \<Rightarrow> offset_fetch_global_error P (Some ts) e
      | Inr offs \<Rightarrow> io_ret ((df_offset_fetch (px_defaults P))\<lparr>fr_topics := fetch_responses ts
          (bt_of_list (map (\<lambda>off. (fo_topic_partition off, fo_committed off)) offs)) errors\<rparr>)) (d\<lparr>cd_world := d'\<rparr>) = (Inr resp, c')"
    by (simp add: offset_fetch_response_def Let_def io_bind_def call_world_def)
  with no_global obtain offs where f: "f = Inr offs" and c': "c' = d\<lparr>cd_world := d'\<rparr>"
    and resp: "fr_topics resp = fetch_responses ts (bt_of_list (map (\<lambda>off. (fo_topic_partition off, fo_committed off)) offs)) errors"
    by (cases f) auto
  from fetch f have "fetch_offsets (px_group P) (px_group_prefix P) gid (Some (bt_keys selection)) (cd_world d) = (Inr offs, d')"
    by (simp add: coordinator_fetch_def result_simps)
  from fetch_offsets_exact [OF legal this] obtain offsets where
    cur: "rely (view (cd_world d)) (view d')" "current_offsets (px_group P) (px_group_prefix P) gid (view d') = Some offsets"
    and offs: "map fo_topic_partition offs = bt_keys selection" "map fo_committed offs = map (bt_get offsets) (bt_keys selection)" by auto
  have "map (\<lambda>off. (fo_topic_partition off, fo_committed off)) offs = zip (map fo_topic_partition offs) (map fo_committed offs)"
    by (simp add: zip_map_map zip_same_conv_map)
  also have "\<dots> = map (\<lambda>k. (k, bt_get offsets k)) (bt_keys selection)"
    unfolding offs by (simp add: zip_map2 zip_same_conv_map)
  finally have found: "bt_get (bt_of_list (map (\<lambda>off. (fo_topic_partition off, fo_committed off)) offs)) k =
      (if k \<in> set (bt_keys selection) then Some (bt_get offsets k) else None)" for k
    by (simp add: bt_get_graph)
  have keys: "k \<in> set (bt_keys selection)" if "bt_contains selection k" for k
    using that by (force simp: bt_contains_def bt_get_def bt_keys_def dest: map_of_SomeD)
  have "reports offsets name part"
    if "(name, ps) \<in> set (fr_topics resp)" "part \<in> set ps" "tr_error_code part = 0" for name ps part
  proof -
    from that(1,2) obtain ps0 p where p: "(name, ps0) \<in> set ts" "p \<in> set ps0"
      and part: "part = (let key = TopicPartition name p;
             error_code = (case bt_get errors key of None \<Rightarrow> 0 | Some code \<Rightarrow> code);
             committed = (case bt_get (bt_of_list (map (\<lambda>off. (fo_topic_partition off, fo_committed off)) offs)) key of None \<Rightarrow> None | Some found \<Rightarrow> found)
         in offset_fetch_partition p committed error_code)"
      unfolding resp fetch_responses_def by fastforce
    have key: "TopicPartition name p \<in> set (selected_keys ts)" using p by (force simp: selected_keys_def)
    have none: "bt_get errors (TopicPartition name p) = None"
      using that(3) x(4) by (auto simp: part Let_def offset_fetch_partition_def split: option.splits)
    with x(3) key keys have "TopicPartition name p \<in> set (bt_keys selection)" by blast
    then show ?thesis
      by (auto simp: part found none reports_def offset_fetch_partition_def Let_def split: option.splits)
  qed
  moreover have "map (\<lambda>(name, ps). (name, map tr_partition_index ps)) (fr_topics resp) = ts"
    unfolding resp fetch_responses_def by (induction ts) (auto simp: offset_fetch_partition_def Let_def comp_def)
  moreover have "rely (view (cd_world c)) (view (cd_world d))"
    by (rule world_relied_rtrancl [OF log io_keepsD [OF check_selection_reads [OF log] chk]])
  ultimately show ?thesis using cur store_laws_trans [OF store] c' by auto
qed

text \<open>What a fetch of all positions says about one topic.\<close>

definition positions_of :: "(topic_partition, committed_offset) btree_map \<Rightarrow> string \<Rightarrow> offset_fetch_partition_response list" where
  "positions_of offsets name =
     map (\<lambda>(key, committed). \<lparr>tr_partition_index = tp_partition key, tr_committed_offset = co_offset committed,
            tr_metadata = co_metadata committed, tr_error_code = 0\<rparr>)
       (filter (\<lambda>(key, _). tp_topic key = name) offsets)"

definition entries_of :: "(string, offset_fetch_partition_response list) btree_map \<Rightarrow> string \<Rightarrow> offset_fetch_partition_response list" where
  "entries_of by_topic name = (case bt_get by_topic name of None \<Rightarrow> [] | Some ps \<Rightarrow> ps)"

lemma group_by_topic_run:
  assumes "group_by_topic (map (\<lambda>(key, committed). \<lparr>fo_topic_partition = key, fo_committed = Some committed\<rparr>) offsets) m = Inr m'"
    and "bt_inv m" "\<forall>name. bt_get m name \<noteq> Some []"
  shows "bt_inv m' \<and> (\<forall>name. bt_get m' name \<noteq> Some []) \<and> (\<forall>name. entries_of m' name = entries_of m name @ positions_of offsets name)"
  using assms
proof (induction offsets arbitrary: m)
  case Nil
  then show ?case by (simp add: positions_of_def)
next
  case (Cons off offsets)
  obtain key committed where off: "off = (key, committed)" by force
  let ?m = "bt_insert (tp_topic key) (entries_of m (tp_topic key) @ [offset_fetch_partition (tp_partition key) (Some committed) 0]) m"
  have "group_by_topic (map (\<lambda>(key, committed). \<lparr>fo_topic_partition = key, fo_committed = Some committed\<rparr>) offsets) ?m = Inr m'"
    using Cons.prems(1) by (simp add: off Let_def entries_of_def)
  from Cons.IH [OF this] have ih: "bt_inv m'" "\<forall>name. bt_get m' name \<noteq> Some []"
    "\<forall>name. entries_of m' name = entries_of ?m name @ positions_of offsets name"
    using Cons.prems(2,3) by (auto simp: bt_get_insert)
  have "entries_of ?m name = (if name = tp_topic key
      then entries_of m name @ [offset_fetch_partition (tp_partition key) (Some committed) 0] else entries_of m name)" for name
    using Cons.prems(2) by (simp add: entries_of_def bt_get_insert)
  with ih show ?case by (auto simp: off positions_of_def offset_fetch_partition_def)
qed

lemma fetch_all_offsets:
  assumes legal: "group_legal E view rely" and run: "fetch_offsets E pre gid None s = (Inr offs, t)"
  shows "rely (view s) (view t) \<and> (\<exists>offsets. current_offsets E pre gid (view t) = Some offsets
    \<and> offs = map (\<lambda>(key, committed). \<lparr>fo_topic_partition = key, fo_committed = Some committed\<rparr>) offsets)"
proof -
  from run obtain found offsets where load: "load_offsets E pre gid s = (Inr found, t)" and map: "loaded_map found = Inr offsets"
    and offs: "offs = map (\<lambda>(key, committed). \<lparr>fo_topic_partition = key, fo_committed = Some committed\<rparr>) offsets"
    by (auto simp: fetch_offsets_def result_simps)
  from load_offsets_current [OF legal load] map offs show ?thesis by auto
qed

lemma offset_fetch_all_run:
  assumes legal: "group_legal (px_group P) view rely" and nz: "error_codes_nonzero P"
    and run: "offset_fetch_response P request c = (Inr resp, c')" and all: "tq_topics request = None"
    and ok: "fr_error_code resp = 0"
  shows "rely (view (cd_world c)) (view (cd_world c'))
    \<and> (\<exists>offsets. current_offsets (px_group P) (px_group_prefix P) (tq_group_id request) (view (cd_world c')) = Some offsets
    \<and> sorted_wrt (<) (map fst (fr_topics resp))
    \<and> (\<forall>name ps. (name, ps) \<in> set (fr_topics resp) \<longleftrightarrow> ps \<noteq> [] \<and> ps = positions_of offsets name))"
proof -
  let ?gid = "tq_group_id request"
  have no_global: False if "offset_fetch_global_error P q e d = (Inr resp, d')" for q e d d'
  proof -
    from that obtain code where "coordinator_code P e d = (Inr code, d')" "fr_error_code resp = code"
      by (auto simp: offset_fetch_global_error_def result_simps)
    with coordinator_code_run [OF this(1)] ok nz show False by auto
  qed
  obtain f w where fetch: "coordinator_fetch (px_group P) (px_group_prefix P) ?gid None (cd_world c) = (f, w)" by force
  from run no_global all fetch obtain offs where f: "f = Inr offs"
    by (cases "check_group ?gid"; cases f) (auto simp: offset_fetch_response_def Let_def io_bind_def call_world_def)
  from run no_global all fetch f have c': "c' = c\<lparr>cd_world := w\<rparr>" and by_topic: "group_by_topic offs [] = Inr (fr_topics resp)"
    by (cases "check_group ?gid"; auto simp: offset_fetch_response_def Let_def io_bind_def call_world_def split: sum.splits)+
  from fetch f have "fetch_offsets (px_group P) (px_group_prefix P) ?gid None (cd_world c) = (Inr offs, w)"
    by (simp add: coordinator_fetch_def result_simps)
  from fetch_all_offsets [OF legal this] obtain offsets where
    cur: "rely (view (cd_world c)) (view w)" "current_offsets (px_group P) (px_group_prefix P) ?gid (view w) = Some offsets"
    and offs: "offs = map (\<lambda>(key, committed). \<lparr>fo_topic_partition = key, fo_committed = Some committed\<rparr>) offsets" by blast
  have "bt_inv ([] :: (string, offset_fetch_partition_response list) btree_map)" by (simp add: bt_inv_def)
  from group_by_topic_run [OF by_topic [unfolded offs] this] have g: "bt_inv (fr_topics resp)"
    "\<forall>name. bt_get (fr_topics resp) name \<noteq> Some []" "\<forall>name. entries_of (fr_topics resp) name = positions_of offsets name"
    by (auto simp: bt_get_def entries_of_def)
  have "(name, ps) \<in> set (fr_topics resp) \<longleftrightarrow> ps \<noteq> [] \<and> ps = positions_of offsets name" for name ps
  proof -
    have "(name, ps) \<in> set (fr_topics resp) \<longleftrightarrow> bt_get (fr_topics resp) name = Some ps" using bt_get_set [OF g(1)] by simp
    also have "\<dots> \<longleftrightarrow> ps \<noteq> [] \<and> ps = entries_of (fr_topics resp) name"
      using g(2) by (auto simp: entries_of_def split: option.splits)
    finally show ?thesis using g(3) by simp
  qed
  moreover have "sorted_wrt (<) (map fst (fr_topics resp))" using g(1) by (simp add: bt_inv_def)
  ultimately show ?thesis using cur c' by auto
qed

text \<open>C37 (offset_fetch_reported). An offset fetch response without a group error comes from one version of the group's
  stored map, the one at the end of the request. If the request selects positions, every selected
  partition is answered, in the request's order, and each one with error code 0 with its position in
  the map. If it asks for all positions, the response lists exactly the topics that have
  positions in the map, each once and in the order of their names, and under each exactly the topic's
  positions, in the order of the map.\<close>

theorem offset_fetch_reported:
  assumes "group_legal (px_group P) view rely" "store_laws (px_log P) view rely" "error_codes_nonzero P"
    "offset_fetch_response P request c = (Inr resp, c')" "fr_error_code resp = 0"
  shows "rely (view (cd_world c)) (view (cd_world c'))
    \<and> (\<exists>offsets. current_offsets (px_group P) (px_group_prefix P) (tq_group_id request) (view (cd_world c')) = Some offsets
    \<and> (case tq_topics request of
         Some ts \<Rightarrow> map (\<lambda>(name, ps). (name, map tr_partition_index ps)) (fr_topics resp) = ts
           \<and> (\<forall>name ps part. (name, ps) \<in> set (fr_topics resp) \<longrightarrow> part \<in> set ps \<longrightarrow> tr_error_code part = 0 \<longrightarrow> reports offsets name part)
       | None \<Rightarrow> sorted_wrt (<) (map fst (fr_topics resp))
           \<and> (\<forall>name ps. (name, ps) \<in> set (fr_topics resp) \<longleftrightarrow> ps \<noteq> [] \<and> ps = positions_of offsets name)))"
proof (cases "tq_topics request")
  case None
  with offset_fetch_all_run [OF assms(1,3,4) None assms(5)] show ?thesis by simp
next
  case (Some ts)
  then have "request = \<lparr>tq_group_id = tq_group_id request, tq_topics = Some ts\<rparr>" by simp
  with assms(4) have "offset_fetch_response P \<lparr>tq_group_id = tq_group_id request, tq_topics = Some ts\<rparr> c = (Inr resp, c')" by simp
  from offset_fetch_response_run [OF assms(1-3) this assms(5)] Some show ?thesis by simp
qed

section \<open>A committed position is fetched\<close>

text \<open>C8 (committed_offset_fetched). When a commit response reports success for a partition, an offset fetch that follows it,
  at once or after anything others do to the store, reports the committed offset and metadata,
  provided nobody else writes the group's positions meanwhile.\<close>

theorem committed_offset_fetched:
  assumes legal: "group_legal (px_group P) view rely" "store_laws (px_log P) view rely" "error_codes_nonzero P"
    and broker: "uuid_laws (px_group P)" "serves (px_group P) (px_group_prefix P) (px_await P)"
      "coordinator_reachable (px_group P) (px_group_prefix P) c"
    and undisturbed: "\<And>m m'. rely m m' \<Longrightarrow> m' (offset_path (px_group P) (px_group_prefix P) (oq_group_id request))
        = m (offset_path (px_group P) (px_group_prefix P) (oq_group_id request))"
    and commit: "offset_commit_response P request c = (Inr committed, c1)"
      "(name, ps) \<in> set committed" "part \<in> set ps" "or_error_code part = 0"
    and entry: "cm \<in> set (commits_of (oq_topics request))" "commit_key cm = TopicPartition name (or_partition_index part)"
    and later: "rely (view (cd_world c1)) (view (cd_world c2))"
    and fetch: "offset_fetch_response P \<lparr>tq_group_id = oq_group_id request, tq_topics = Some ts\<rparr> c2 = (Inr fetched, c3)"
      "fr_error_code fetched = 0" "(name, qs) \<in> set (fr_topics fetched)" "q \<in> set qs"
      "tr_partition_index q = or_partition_index part" "tr_error_code q = 0"
  shows "tr_committed_offset q = oc_offset cm \<and> tr_metadata q = oc_metadata cm"
proof -
  let ?E = "px_group P" and ?prefix = "px_group_prefix P" and ?gid = "oq_group_id request"
  from offset_commit_response_run [OF legal(3) commit(1)] commit(2-4) entry obtain valid where
    acc: "commit_accepted P request c valid c1" and cm: "cm \<in> set valid" by blast
  from acc obtain w where await: "px_await P (CommitRequest ?gid (oq_generation_id_or_member_epoch request) (oq_member_id request) valid)
      (c\<lparr>cd_world := w\<rparr>) = (Inr Accepted, c1)" by (auto simp: commit_accepted_def)
  have "coordinator_reachable ?E ?prefix (c\<lparr>cd_world := w\<rparr>)" by (rule coordinator_reachable.later [OF broker(3) outside]) 
  from served_commit_written [OF broker(1,2) this await] cm obtain v u where
    written: "commit_offsets ?E ?prefix ?gid valid v = (Inr u, cd_world c1)" by (cases valid) auto
  have ne: "valid \<noteq> []" using cm by auto
  from commit_offsets_atomic [OF legal(1) ne written] obtain offsets offsets' where
    cur: "current_offsets ?E ?prefix ?gid (view (cd_world c1)) = Some offsets'"
    and get: "bt_get offsets' = bt_get offsets ++ map_of (commit_pairs valid)" by (auto simp: commit_done_def)
  have "map_of (commit_pairs valid) (commit_key cm) = Some \<lparr>co_offset = oc_offset cm, co_metadata = oc_metadata cm\<rparr>"
    using commit_offsets_distinct [OF written ne] cm by (intro map_of_is_SomeI) (auto simp: commit_pairs_def)
  then have stored: "bt_get offsets' (TopicPartition name (or_partition_index part)) = Some \<lparr>co_offset = oc_offset cm, co_metadata = oc_metadata cm\<rparr>"
    using entry(2) by (simp add: get)
  from offset_fetch_response_run [OF legal(1,2,3) fetch(1,2)] obtain offsets2 where
    r: "rely (view (cd_world c2)) (view (cd_world c3))" "current_offsets ?E ?prefix ?gid (view (cd_world c3)) = Some offsets2"
      "reports offsets2 name q" using fetch(3-6) by blast
  from undisturbed [OF later] undisturbed [OF r(1)] cur r(2) have "offsets2 = offsets'" by (simp add: current_offsets_def)
  with r(3) stored fetch(5) show ?thesis by (simp add: reports_def)
qed

end
