(* ===== verification/Protocol_Records.thy ===== *)
theory Protocol_Records
  imports Protocol_Laws Log_Rely
begin

text \<open>
  Producing and fetching records over the protocol: how the byte budget of a fetch is shared by its
  partitions, and that acknowledged records are what a fetch at their offset returns.
\<close>

section \<open>The size of one answer\<close>


lemma seg_bytes_append [simp]: "seg_bytes (xs @ ys) = seg_bytes xs + seg_bytes ys"
  by (induction xs) auto





text \<open>The bytes of one segment are one record batch: its checks include the count in the headers.\<close>

definition one_batch :: "('s, 'm) log_env_scheme \<Rightarrow> bytes \<Rightarrow> bool" where
  "one_batch E b \<longleftrightarrow> (\<exists>inspection records.
     decode_record_batches (le_decode_batch_info E) (le_decode_all E) (le_headers_len E) b = Inr (inspection, records)
     \<and> in_batch_count inspection = 1)"






section \<open>The budget of a response\<close>

definition data_size :: "partition_data \<Rightarrow> nat" where
  "data_size d = (case pd_records d of None \<Rightarrow> 0 | Some b \<Rightarrow> length b)"

text \<open>The sizes of the answers already given.\<close>

definition spent :: "(fetch_partition \<times> partition_data) list \<Rightarrow> nat" where
  "spent items = (\<Sum>(part, d)\<leftarrow>items. data_size d)"

text \<open>
  What one partition may get after \<open>n\<close> bytes for the partitions before it: no more than its own limit, the
  broker's limit and what is left of the budget; only while there are no bytes before it, one
  record batch of any size instead, and that only for a well-formed request.
\<close>

definition fits ::
  "('s, 'm) log_env_scheme \<Rightarrow> fetch_request \<Rightarrow> nat \<Rightarrow> fetch_partition \<Rightarrow> partition_data \<Rightarrow> bool" where
  "fits E request n part d \<longleftrightarrow>
     data_size d \<le> min (min (nat (fp_partition_max_bytes part)) MAX_FETCH_PAYLOAD_BYTES) (fetch_budget_of request - n)
   \<or> n = 0 \<and> 0 < fq_max_bytes request \<and> 0 < fp_partition_max_bytes part
     \<and> (\<exists>b. pd_records d = Some b \<and> one_batch E b)"

fun all_fit ::
  "('s, 'm) log_env_scheme \<Rightarrow> fetch_request \<Rightarrow> nat \<Rightarrow> (fetch_partition \<times> partition_data) list \<Rightarrow> bool" where
  "all_fit E request n [] \<longleftrightarrow> True"
| "all_fit E request n ((part, d) # items) \<longleftrightarrow>
     pd_partition_index d = fp_partition part \<and> fits E request n part d \<and> all_fit E request (n + data_size d) items"

lemma spent_simps [simp]:
  "spent [] = 0" "spent ((part, d) # items) = data_size d + spent items" "spent (xs @ ys) = spent xs + spent ys"
  by (simp_all add: spent_def)

lemma all_fit_append [simp]:
  "all_fit E request n (xs @ ys) \<longleftrightarrow> all_fit E request n xs \<and> all_fit E request (n + spent xs) ys"
  by (induction E request n xs rule: all_fit.induct) (auto simp: add.assoc)











section \<open>Produce\<close>

lemma produce_partition_run:
  assumes nz: "error_codes_nonzero P" and legal: "log_legal (px_log P) (px_engine P) name (pp_index part) view rely"
    and names: "append_names (px_log P) (px_engine P) name (pp_index part)"
    and run: "produce_partition P request name part c = (Inr (code, base), c')"
  shows "if code = 0
    then - 1 \<le> pq_acks request \<and> pq_acks request \<le> 1 \<and> pq_transactional_id request = None
      \<and> (\<exists>batches last. decode_produce_batches (px_log P) (pp_records part) = Inr batches
           \<and> (pq_acks request = - 1 \<or> (\<forall>r \<in> set (concat batches). rc_producer_id r < 0))
           \<and> append_done (px_log P) (px_engine P) name (pp_index part) rely batches (view (cd_world c))
               \<lparr>ar_base_offset = base, ar_last_offset = last\<rparr> (view (cd_world c')))
    else base = - 1 \<and> (c' = c \<or> (\<exists>batches e. append_batches (px_log P) (px_engine P) name (pp_index part) batches (cd_world c) = (Inl e, cd_world c')
           \<and> code = log_error_code P e))"
proof (cases "\<not> (- 1 \<le> pq_acks request \<and> pq_acks request \<le> 1) \<or> pq_transactional_id request \<noteq> None")
  case True
  with run nz show ?thesis by (auto simp: error_codes_nonzero_def produce_partition_def split: if_splits)
next
  case ok: False
  show ?thesis
  proof (cases "decode_produce_batches (px_log P) (pp_records part)")
    case (Inl e)
    with run nz ok show ?thesis by (auto simp: error_codes_nonzero_def produce_partition_def)
  next
    case (Inr batches)
    show ?thesis
    proof (cases "pq_acks request \<noteq> - 1 \<and> list_ex (\<lambda>r. rc_producer_id r \<ge> 0) (concat batches)")
      case True
      with run nz ok Inr show ?thesis by (auto simp: error_codes_nonzero_def produce_partition_def)
    next
      case False
      obtain x w where app: "append_batches (px_log P) (px_engine P) name (pp_index part) batches (cd_world c) = (x, w)" by force
      have acks: "pq_acks request = - 1 \<or> (\<forall>r \<in> set (concat batches). rc_producer_id r < 0)"
        using False unfolding list_ex_iff by (meson not_le)
      from run ok Inr False app have c': "c' = c\<lparr>cd_world := w\<rparr>"
        and out: "(code, base) = (case x of Inr result \<Rightarrow> (0, ar_base_offset result) | Inl e \<Rightarrow> (log_error_code P e, - 1))"
        by (auto simp: error_codes_nonzero_def produce_partition_def io_bind_def call_world_def split: if_splits)
      show ?thesis
      proof (cases x)
        case (Inl e)
        with out nz app c' show ?thesis by (auto simp: error_codes_nonzero_def log_error_code_def)
      next
        case (Inr result)
        from append_batches_done [OF legal names app [unfolded Inr]]
        have "append_done (px_log P) (px_engine P) name (pp_index part) rely batches (view (cd_world c))
               \<lparr>ar_base_offset = base, ar_last_offset = ar_last_offset result\<rparr> (view (cd_world c'))"
          using out Inr c' by (cases result) simp
        with out Inr ok acks \<open>decode_produce_batches _ _ = Inr batches\<close> show ?thesis by auto
      qed
    qed
  qed
qed

text \<open>C38 (produce_reported). Error code 0 for a partition means that its record batches were decoded, carry a
  producer ID only with acks = -1, and were appended by one linearizable update at the reported base
  offset. Any other code comes with base offset -1, and with an unchanged store unless the append
  itself was started and failed.\<close>

theorem produce_reported:
  assumes "error_codes_nonzero P" "log_legal (px_log P) (px_engine P) name (pp_index part) view rely"
    "append_names (px_log P) (px_engine P) name (pp_index part)"
    "produce_partition P request name part c = (Inr (code, base), c')"
  shows "if code = 0
    then - 1 \<le> pq_acks request \<and> pq_acks request \<le> 1 \<and> pq_transactional_id request = None
      \<and> (\<exists>batches last. decode_produce_batches (px_log P) (pp_records part) = Inr batches
           \<and> (pq_acks request = - 1 \<or> (\<forall>r \<in> set (concat batches). rc_producer_id r < 0))
           \<and> append_done (px_log P) (px_engine P) name (pp_index part) rely batches (view (cd_world c))
               \<lparr>ar_base_offset = base, ar_last_offset = last\<rparr> (view (cd_world c')))
    else base = - 1 \<and> (c' = c \<or> (\<exists>batches e. append_batches (px_log P) (px_engine P) name (pp_index part) batches (cd_world c) = (Inl e, cd_world c')
           \<and> code = log_error_code P e))"
  using assms by (rule produce_partition_run)

section \<open>Produced records are fetched\<close>

lemma fetch_first_partition:
  assumes nz: "error_codes_nonzero P" and run: "fetch_response P request c = (Inr ((name, d # ds) # others), c')"
    and first: "fq_topics request = (name, part # parts) # ts" and ok: "pd_error_code d = 0"
  shows "\<exists>limit f w. fetch_bounded (px_log P) (px_engine P) name (fp_partition part) (fp_fetch_offset part) limit True (cd_world c) = (Inr f, w)
    \<and> pd_records d = Some (ft_records f) \<and> pd_high_watermark d = ft_high_watermark f"
proof -
  from run first obtain b c1 where one: "fetch_one P request name part
      \<lparr>fb_remaining = fetch_budget_of request, fb_first_nonempty_partition = True\<rparr> c = (Inr (d, b), c1)"
    by (auto simp: fetch_response_def result_simps split: prod.splits)
  show ?thesis
  proof (cases "(fq_max_bytes request \<le> 0 \<or> fp_partition_max_bytes part \<le> 0) \<or> fq_replica_id request \<noteq> - 1")
    case True
    with one ok nz show ?thesis by (auto simp: error_codes_nonzero_def fetch_one_def Let_def split: if_splits)
  next
    case False
    let ?limit = "min (min (nat (fp_partition_max_bytes part)) MAX_FETCH_PAYLOAD_BYTES) (fetch_budget_of request)"
    obtain x w where fetched: "fetch_bounded (px_log P) (px_engine P) name (fp_partition part) (fp_fetch_offset part) ?limit True
        (cd_world c) = (x, w)" by force
    show ?thesis
    proof (cases x)
      case (Inl e)
      with one False fetched ok nz show ?thesis
        by (auto simp: fetch_one_def Let_def io_bind_def call_world_def error_codes_nonzero_def log_error_code_def)
    next
      case (Inr f)
      with one False fetched show ?thesis
        by (intro exI [of _ ?limit] exI [of _ f] exI [of _ w]) (auto simp: fetch_one_def Let_def io_bind_def call_world_def)
    qed
  qed
qed

text \<open>A batch of a request, in the run of new segments that stores the request.\<close>

lemma stored_batch_placed:
  assumes "list_all2 (segment_stores E L topic part m) (before @ records # after) new" "tiles n new k"
  obtains xs sg ys where "new = xs @ sg # ys" "segment_stores E L topic part m records sg"
    "sg_base_offset sg = n + (\<Sum>b\<leftarrow>before. int (length b))"
  using assms
proof (induction before arbitrary: n new thesis)
  case Nil
  then obtain sg ys where "new = sg # ys" "segment_stores E L topic part m records sg" by (auto simp: list_all2_Cons1)
  with Nil.prems(1,3) show ?case by (auto intro: Nil.prems(1) [of "[]"])
next
  case (Cons b before)
  from Cons.prems(2) obtain sg1 rest where new: "new = sg1 # rest" "segment_stores E L topic part m b sg1"
    and stores: "list_all2 (segment_stores E L topic part m) (before @ records # after) rest"
    by (auto simp: list_all2_Cons1)
  have tl: "tiles (n + int (length b)) rest k" using Cons.prems(3) new by (auto simp: segment_stores_def segment_end_def)
  show ?case
    by (rule Cons.IH [OF _ stores tl]) (rule Cons.prems(1) [of "sg1 # _"], simp_all add: new add.assoc)
qed

text \<open>
  An append of batches without a producer ID to a readable log leaves each of them in a segment of
  the current log, at its offset.
\<close>

lemma appended_batch_stored:
  assumes grows: "\<And>a b. rely a b \<Longrightarrow> log_extended E L topic part a b"
    and intact: "log_intact E L topic part m0"
    and all: "\<forall>b \<in> set (before @ records # after). anonymous b"
    and app: "append_done E L topic part rely (before @ records # after) m0 result m2"
  obtains lm xs sg ys where "current_manifest E L topic part m2 = Some lm"
    "manifest_holds E L topic part m2 lm (xs @ sg # ys)" "segment_stores E L topic part m2 records sg"
    "sg_base_offset sg = ar_base_offset result + (\<Sum>b\<leftarrow>before. int (length b))"
proof -
  from app all obtain m lm root where prep: "prepares E L topic part rely m0 m" and lm: "current_manifest E L topic part m = Some lm"
    and root: "current_manifest E L topic part m2 = Some (Indexed root)"
    and ext: "\<forall>xs. manifest_holds E L topic part m lm xs \<longrightarrow> (\<exists>new. extends_log E L topic part m2 lm (before @ records # after) xs result root new
        \<and> tiles (lm_next_offset lm) new (rt_next_offset root))"
    unfolding append_done_def all_retried_def by blast
  from log_extended_intact [OF prepares_extended [OF prep grows] intact] lm
  obtain xs where "manifest_holds E L topic part m lm xs" by (auto simp: log_intact_def)
  with ext obtain new where new: "extends_log E L topic part m2 lm (before @ records # after) xs result root new"
    "tiles (lm_next_offset lm) new (rt_next_offset root)" by blast
  with all have holds: "root_holds E L topic part m2 root (xs @ new)"
    and stored: "list_all2 (segment_stores E L topic part m2) (before @ records # after) new"
    and base: "ar_base_offset result = lm_next_offset lm"
    unfolding extends_log_def by blast+
  from stored_batch_placed [OF stored new(2)] obtain ys sg zs where sg: "new = ys @ sg # zs"
    "segment_stores E L topic part m2 records sg" "sg_base_offset sg = ar_base_offset result + (\<Sum>b\<leftarrow>before. int (length b))"
    unfolding base by blast
  have "manifest_holds E L topic part m2 (Indexed root) ((xs @ ys) @ sg # zs)" using holds sg(1) by simp
  with root sg(2,3) that show thesis by blast
qed

text \<open>C7 (produced_records_fetched). When the broker has acknowledged a produce request of batches without a
  producer ID to a readable log, then each of the batches, with its assigned offsets in its
  encoding, is what a later fetch request for the offset of the batch returns first in its first
  partition, if that is answered with no error. The offset of the batch is the reported base offset plus the
  number of records before it in the request. In between and all along, other clients may do to the
  bucket what brokers that append do to it.\<close>

theorem produced_records_fetched:
  assumes nz: "error_codes_nonzero P"
    and legal: "log_legal (px_log P) (px_engine P) name (pp_index part) view rely"
    and names: "append_names (px_log P) (px_engine P) name (pp_index part)"
    and parse: "parse_laws (px_log P) (px_engine P) name (pp_index part)"
    and grows: "\<And>m m'. rely m m' \<Longrightarrow> log_extended (px_log P) (px_engine P) name (pp_index part) m m'"
    and intact: "log_intact (px_log P) (px_engine P) name (pp_index part) (view (cd_world c))"
    and produce: "produce_partition P preq name part c = (Inr (0, base), c1)"
      "decode_produce_batches (px_log P) (pp_records part) = Inr (before @ records # after)"
      "\<forall>b \<in> set (before @ records # after). anonymous b"
    and later: "rely (view (cd_world c1)) (view (cd_world c2))"
    and fetch: "fetch_response P freq c2 = (Inr ((name, d # ds) # others), c3)" "fq_topics freq = (name, fpart # fparts) # ts"
      "fp_partition fpart = pp_index part" "fp_fetch_offset fpart = base + (\<Sum>b\<leftarrow>before. int (length b))" "pd_error_code d = 0"
  shows "\<exists>assigned encoded more. assigned_records records (fp_fetch_offset fpart) = Inr assigned
    \<and> encode_records (px_log P) assigned = Inr encoded \<and> pd_records d = Some (encoded @ more)"
proof -
  let ?E = "px_log P" and ?L = "px_engine P" and ?part = "pp_index part"
  from produce_partition_run [OF nz legal names produce(1)] produce(2) obtain last where
    app: "append_done ?E ?L name ?part rely (before @ records # after) (view (cd_world c)) \<lparr>ar_base_offset = base, ar_last_offset = last\<rparr> (view (cd_world c1))"
    by auto
  obtain lm xs sg ys where now: "current_manifest ?E ?L name ?part (view (cd_world c1)) = Some lm"
    "manifest_holds ?E ?L name ?part (view (cd_world c1)) lm (xs @ sg # ys)" "segment_stores ?E ?L name ?part (view (cd_world c1)) records sg"
    and off: "sg_base_offset sg = fp_fetch_offset fpart"
    by (rule appended_batch_stored [OF grows intact produce(3) app]) (simp_all add: fetch(4))
  from fetch_first_partition [OF nz fetch(1,2,5)] fetch(3) off obtain limit f w where
    fetched: "fetch_bounded ?E ?L name ?part (sg_base_offset sg) limit True (cd_world c2) = (Inr f, w)" and data: "pd_records d = Some (ft_records f)" by auto
  from committed_batch_read [OF legal parse log_extended_grows [OF grows] later now fetched] data off show ?thesis by auto
qed

end
