(* ===== verification/Coordinator_Alone.thy ===== *)
theory Coordinator_Alone
  imports Coordinator_Service
begin

text \<open>
  One schedule that \<open>serves\<close>: a single caller whose request runs section after section until it is
  answered. It is no part of \<open>src/coordinator.rs\<close>, where timers and notifications wake a waiting
  request; it shows that the hypothesis \<open>serves\<close> of the properties on the protocol layer can be met
  by a total function, and their witnesses run it.
\<close>

section \<open>When every deadline has passed\<close>

definition all_expired_at :: "group_state option \<Rightarrow> nat" where
  "all_expired_at st = (case st of None \<Rightarrow> 0 | Some gs \<Rightarrow> foldr max (map ms_deadline (bt_values (gs_members gs))) 0)"

lemma foldr_max_ge: "x \<in> set xs \<Longrightarrow> (x :: nat) \<le> foldr max xs 0"
  by (induction xs) auto

lemma foldl_remove: "set (foldl (\<lambda>m k. bt_remove k m) m ks) = {e \<in> set m. fst e \<notin> set ks}"
  by (induction ks arbitrary: m) (auto simp: bt_remove_def)

lemma advance_group_late:
  assumes "slot_ok st" "all_expired_at st \<le> now"
  shows "\<exists>b. advance_group now st = (Inr b, None)"
proof (cases st)
  case None
  then show ?thesis by (intro exI [of _ False]) (simp add: advance_group_def)
next
  case (Some gs)
  have "ms_deadline m \<le> now" if "(k, m) \<in> set (gs_members gs)" for k m
  proof -
    have "ms_deadline m \<in> set (map ms_deadline (bt_values (gs_members gs)))" using that by (force simp: bt_values_def)
    from foldr_max_ge [OF this] assms(2) show ?thesis by (simp add: all_expired_at_def Some)
  qed
  then have keys: "set (expired_members now gs) = fst ` set (gs_members gs)"
    by (force simp: expired_members_def)
  have "gs_members gs \<noteq> []" using assms(1) by (auto simp: Some group_ok_def bt_contains_def bt_get_def)
  with keys have ne: "expired_members now gs \<noteq> []" by (cases "gs_members gs") auto
  have "set (foldl (\<lambda>m k. bt_remove k m) (gs_members gs) (expired_members now gs)) = {}"
    unfolding foldl_remove keys by force
  with ne show ?thesis by (intro exI [of _ True]) (simp add: Some advance_group_def Let_def)
qed

fun rank :: "stage \<Rightarrow> nat" where
  "rank JoinEnter = 3"
| "rank (JoinSettle a n) = 2"
| "rank (JoinWait a n) = 1"
| "rank (SyncWait b) = 2"
| "rank Visit = 2"
| "rank (Reclaim r) = 1"

lemma run_section_late:
  assumes ok: "slot_ok (snd s)" and late: "all_expired_at (snd s) \<le> now" and stg: "stage_ok req stg"
    and run: "run_section E prefix now req stg s = (Inr (Continue stg'), t)"
  shows "rank stg' < rank stg"
proof -
  obtain b where adv: "advance_group now (snd s) = (Inr b, None)" using advance_group_late [OF ok late] by blast
  have visit: "\<exists>r. stg' = Reclaim r" if "Continue stg' = Continue (Reclaim r) \<or> Continue stg' = Finish r" for r
    using that by auto
  show ?thesis
  proof (cases req)
    case (JoinRequest gid session rebalance k pt ps)
    with run stg adv show ?thesis
      by (cases stg) (auto simp: result_simps join_poll_def io_err_def split: option.splits prod.splits)
  next
    case (SyncRequest gid g k as)
    with run stg adv show ?thesis
      by (cases stg) (auto simp: result_simps sync_poll_def)
  next
    case (HeartbeatRequest gid g k)
    then have v: "stg = Visit \<or> (\<exists>r. stg = Reclaim r)" using stg by (cases stg) auto
    with run adv HeartbeatRequest show ?thesis
      by (auto simp: heartbeat_section_def result_simps io_err_def dest!: then_reclaim_cases)
  next
    case (LeaveRequest gid k)
    then have v: "stg = Visit \<or> (\<exists>r. stg = Reclaim r)" using stg by (cases stg) auto
    with run adv LeaveRequest show ?thesis
      by (auto simp: leave_section_def result_simps io_err_def dest!: then_reclaim_cases)
  next
    case (CommitRequest gid g k cs)
    then have v: "stg = Visit \<or> (\<exists>r. stg = Reclaim r)" using stg by (cases stg) auto
    with run adv CommitRequest show ?thesis
      by (auto simp: commit_section_def active_group_def result_simps io_err_def dest!: then_reclaim_cases)
  qed
qed

section \<open>A caller that waits\<close>

text \<open>
  \<open>n\<close> more sections of the task. The instants are chosen: the last three run when every member the
  group then has has expired.
\<close>

fun await_task ::
  "('s, 'm) group_env_scheme \<Rightarrow> string \<Rightarrow> nat \<Rightarrow> nat \<Rightarrow> nat \<Rightarrow> 's coordinator \<Rightarrow> group_result option \<times> 's coordinator" where
  "await_task E prefix now 0 i c = (None, c)"
| "await_task E prefix now (Suc n) i c =
     (case bt_get (cd_tasks c) i of
        None \<Rightarrow> (None, c)
      | Some t \<Rightarrow>
          let instant = (if n < 3 then max now (all_expired_at (cd_slots c (tk_slot t))) else now)
          in (case resume_task E prefix instant i t c of
                (Some r, c') \<Rightarrow> (Some r, c')
              | (None, c') \<Rightarrow> await_task E prefix now n i c'))"

definition run_alone ::
  "('s, 'm) group_env_scheme \<Rightarrow> string \<Rightarrow> nat \<Rightarrow> group_request \<Rightarrow> ('s coordinator, coordinator_error, group_response) io" where
  "run_alone E prefix now req c =
     (case start_request now req c of
        (Inl e, c') \<Rightarrow> (Inl e, c')
      | (Inr _, c') \<Rightarrow>
          (case await_task E prefix now 7 (cd_next_task c' - 1) c' of
             (Some r, c'') \<Rightarrow> (r, c'')
           | (None, c'') \<Rightarrow> (Inl (Panic ''unanswered''), c'')))"

lemma rank_le: "rank stg \<le> 3"
  by (cases stg) auto

lemma await_task_answers:
  assumes W: "uuid_laws E" and "coordinator_ok c" "tasks_fit c" "bt_get (cd_tasks c) i = Some t" "3 \<le> n \<or> rank (tk_stage t) \<le> n"
  shows "\<exists>r c'. await_task E prefix now n i c = (Some r, c') \<and> reply_fits (tk_request t) r"
  using assms(2-)
proof (induction n arbitrary: c t)
  case 0
  then show ?case by (cases "tk_stage t") auto
next
  case (Suc n)
  note c = Suc.prems(1,2) and t = Suc.prems(3)
  let ?at = "if n < 3 then max now (all_expired_at (cd_slots c (tk_slot t))) else now"
  obtain out c' where run: "resume_task E prefix ?at i t c = (out, c')" by force
  note ok = resume_task_ok [OF W c(1) t run] resume_task_fits [OF W c t run]
  show ?case
  proof (cases out)
    case (Some r)
    with run t ok show ?thesis by (auto simp: Let_def)
  next
    case None
    then obtain stg w st where stg: "run_section E prefix ?at (tk_request t) (tk_stage t) (cd_world c, cd_slots c (tk_slot t)) = (Inr (Continue stg), (w, st))"
      and tasks: "cd_tasks c' = bt_insert i (Task (tk_request t) (tk_slot t) stg) (cd_tasks c)"
      using resume_task_continues [OF run None] by blast
    let ?t = "Task (tk_request t) (tk_slot t) stg"
    have t': "bt_get (cd_tasks c') i = Some ?t" using c(1) by (simp add: tasks coordinator_ok_def bt_get_insert)
    have "3 \<le> n \<or> rank stg \<le> n"
    proof (cases "n < 3")
      case True
      have "rank stg < rank (tk_stage t)"
      proof (rule run_section_late [OF _ _ _ stg])
        show "stage_ok (tk_request t) (tk_stage t)" using task_in(2) [OF c(1) t] by (simp add: task_ok_def)
      qed (use c(1) True in \<open>auto simp: coordinator_ok_def\<close>)
      with Suc.prems(4) True rank_le [of stg] rank_le [of "tk_stage t"] show ?thesis by auto
    qed simp
    from Suc.IH [OF _ _ t'] this ok None run t show ?thesis by (auto simp: Let_def)
  qed
qed

section \<open>It serves\<close>

lemma await_task_serves:
  "coordinator_reachable E prefix c \<Longrightarrow> await_task E prefix now n i c = (Some r, c') \<Longrightarrow> bt_get (cd_tasks c) i = Some t \<Longrightarrow>
     coordinator_ok c \<Longrightarrow> uuid_laws E \<Longrightarrow>
     \<exists>c1. (\<lambda>a b. \<exists>event. coordinator_step E prefix a event b)\<^sup>*\<^sup>* c c1 \<and> coordinator_step E prefix c1 (Reply (tk_request t) r) c'"
proof (induction n arbitrary: c t)
  case (Suc n)
  let ?at = "if n < 3 then max now (all_expired_at (cd_slots c (tk_slot t))) else now"
  obtain out d where run: "resume_task E prefix ?at i t c = (out, d)" by force
  show ?case
  proof (cases out)
    case (Some r')
    with run Suc.prems(2,3) have "resume_task E prefix ?at i t c = (Some r, c')" by (simp add: Let_def)
    with replied [OF Suc.prems(3)] show ?thesis by blast
  next
    case None
    with run have step: "coordinator_step E prefix c Internal d" using resumed [OF Suc.prems(3)] by blast
    obtain stg where "cd_tasks d = bt_insert i (Task (tk_request t) (tk_slot t) stg) (cd_tasks c)"
      using resume_task_continues [OF run None] by blast
    then have "bt_get (cd_tasks d) i = Some (Task (tk_request t) (tk_slot t) stg)"
      using Suc.prems(4) by (simp add: coordinator_ok_def bt_get_insert)
    from Suc.IH [OF later [OF Suc.prems(1) step] _ this conjunct1 [OF resume_task_ok [OF Suc.prems(5,4,3) run]] Suc.prems(5)] run None Suc.prems(2,3)
    obtain c1 where "(\<lambda>a b. \<exists>event. coordinator_step E prefix a event b)\<^sup>*\<^sup>* d c1"
      "coordinator_step E prefix c1 (Reply (tk_request t) r) c'" by (auto simp: Let_def)
    then show ?thesis using converse_rtranclp_into_rtranclp [of "\<lambda>a b. \<exists>event. coordinator_step E prefix a event b" c d c1] step by blast
  qed
qed simp

lemma run_alone_serves:
  assumes W: "uuid_laws E" shows "serves E prefix (run_alone E prefix now)"
  unfolding serves_def
proof (intro allI impI)
  fix c req r c' assume c: "coordinator_reachable E prefix c" and run: "run_alone E prefix now req c = (r, c')"
  let ?step = "\<lambda>a b. \<exists>event. coordinator_step E prefix a event b"
  obtain u c1 where st: "start_request now req c = (u, c1)" by force
  show "\<exists>c1. ?step\<^sup>*\<^sup>* c c1 \<and> coordinator_step E prefix c1 (Reply req r) c'"
  proof (cases u)
    case (Inl e)
    with st have "start_request now req c = (Inl e, c1)" by simp
    from refused [OF this] st Inl run show ?thesis by (auto simp: run_alone_def)
  next
    case (Inr v)
    with st have s: "start_request now req c = (Inr (), c1)" by simp
    note step = started [OF s]
    have c1: "coordinator_reachable E prefix c1" by (rule later [OF c step])
    note ok = reachable_ok [OF c1 W] reachable_fits [OF c1 W]
    let ?i = "cd_next_task c1 - 1"
    obtain a where "cd_tasks c1 = bt_insert ?i (Task req a (first_stage req)) (cd_tasks c)"
      using start_request_tasks [OF s] by auto
    moreover have "bt_inv (cd_tasks c)" using reachable_ok [OF c W] by (simp add: coordinator_ok_def)
    ultimately have t: "bt_get (cd_tasks c1) ?i = Some (Task req a (first_stage req))" by (simp add: bt_get_insert)
    from await_task_answers [OF W ok t, of 7 prefix now] run s
    have "await_task E prefix now 7 ?i c1 = (Some r, c')" by (auto simp: run_alone_def)
    from await_task_serves [OF c1 this t ok(1) W] obtain c2 where
      c2: "?step\<^sup>*\<^sup>* c1 c2" "coordinator_step E prefix c2 (Reply req r) c'" by auto
    have "?step c c1" using step by blast
    with c2 show ?thesis using converse_rtranclp_into_rtranclp [of ?step c c1 c2] by blast
  qed
qed

end
