(* ===== verification/Protocol_Witnesses.thy ===== *)
theory Protocol_Witnesses
  imports Protocol_Gate Protocol_Offsets Protocol_Records Coordinator_Alone Coordinator_Witnesses
begin

text \<open>
  The protocol layer over an in-memory bucket: a codec that knows one frame, the coordinator driven
  by one caller, and the requests of the witnesses.
\<close>

section \<open>A small environment\<close>

definition sample_defaults :: response_defaults where
  "sample_defaults =
     \<lparr>df_api_versions = \<lparr>vr_error_code = 0, vr_api_keys = []\<rparr>,
      df_metadata_topic = \<lparr>mt_name = None, mt_error_code = 0, mt_partitions = []\<rparr>,
      df_init_producer_id = \<lparr>ir_error_code = 0, ir_producer_id = - 1, ir_producer_epoch = 0\<rparr>,
      df_partition_data = \<lparr>pd_partition_index = 0, pd_error_code = 0, pd_high_watermark = 0, pd_last_stable_offset = - 1, pd_records = None\<rparr>,
      df_list_offsets_partition = \<lparr>lr_partition_index = 0, lr_error_code = 0, lr_offset = - 1\<rparr>,
      df_join_group = \<lparr>jr_error_code = 0, jr_generation_id = - 1, jr_protocol_name = None, jr_leader = [], jr_member_id = [], jr_members = []\<rparr>,
      df_sync_group = \<lparr>sr_error_code = 0, sr_assignment = []\<rparr>,
      df_offset_fetch = \<lparr>fr_error_code = 0, fr_topics = []\<rparr>\<rparr>"

definition sample_error_code :: "response_error \<Rightarrow> int" where
  "sample_error_code e = (if e = UnknownMemberId then 25 else if e = UnknownTopicOrPartition then 3 else 42)"

definition sample_protocol ::
  "tables \<Rightarrow> codecs \<Rightarrow> offset_manifest list \<Rightarrow> request_kind \<Rightarrow> (mem, unit, unit) protocol_env" where
  "sample_protocol T C ms request =
     \<lparr>api_code = (\<lambda>_. 13), request_header_version = (\<lambda>_ _. 1),
      px_log = mem_env T C, px_group = group_mem_env ms, px_engine = sample_engine, px_group_prefix = ''p'',
      px_await = run_alone (group_mem_env ms) ''p'' 10,
      px_api_key_of = (\<lambda>code. if code = 13 then Some ApiLeaveGroup else None),
      px_error_code = sample_error_code, px_defaults = sample_defaults,
      px_decode_header = (\<lambda>frame. Inr (7, drop 10 frame)),
      px_decode_request = (\<lambda>key body ver. if key = ApiLeaveGroup then Inr (request, []) else Inl ''not in the sample''),
      px_decode_api_versions = (\<lambda>body ver. Inl ''not in the sample''),
      px_encode_header = (\<lambda>correlation_id ver. Inr [word_of_int correlation_id]),
      px_response_header_version = (\<lambda>_ _. 0),
      px_encode_response = (\<lambda>response ver. case response of
          LeaveGroupResponse code \<Rightarrow> Inr [0, word_of_int code] | _ \<Rightarrow> Inl ''not in the sample'')\<rparr>"

lemma sample_protocol_simps [simp]:
  "px_log (sample_protocol T C ms r) = mem_env T C" "px_group (sample_protocol T C ms r) = group_mem_env ms"
  "px_engine (sample_protocol T C ms r) = sample_engine" "px_group_prefix (sample_protocol T C ms r) = ''p''"
  "px_await (sample_protocol T C ms r) = run_alone (group_mem_env ms) ''p'' 10"
  "px_error_code (sample_protocol T C ms r) = sample_error_code" "px_defaults (sample_protocol T C ms r) = sample_defaults"
  "api_code (sample_protocol T C ms r) k = 13" "request_header_version (sample_protocol T C ms r) k v = 1"
  "px_api_key_of (sample_protocol T C ms r) 13 = Some ApiLeaveGroup" "px_decode_header (sample_protocol T C ms r) b = Inr (7, drop 10 b)"
  by (simp_all add: sample_protocol_def)

lemma sample_serves: "serves (px_group (sample_protocol T C ms r)) ''p'' (px_await (sample_protocol T C ms r))"
  using run_alone_serves [OF sample_uuids] by simp

section \<open>One frame\<close>

definition sample_identity :: broker_identity where
  "sample_identity = \<lparr>id_host = ''h'', id_port = 9092, id_cluster_id = ''c''\<rparr>"

abbreviation leave_broker :: "(mem, unit, unit) protocol_env" where
  "leave_broker \<equiv> sample_protocol no_tables no_codecs [] (LeaveGroupRequest \<lparr>vq_group_id = ''g'', vq_member_id = ''m1''\<rparr>)"

lemma sample_identity_valid: "validate_identity sample_identity = Inr ()"
  by (simp add: validate_identity_def sample_identity_def valid_advertised_host_def host_label_def is_ascii_alphanumeric_def
      is_ascii_digit_def is_blank.simps blank_lengths_def)

lemma sample_leave_accepted: "validate_request_frame leave_broker sample_leave ApiLeaveGroup 1 = Inr ()"
  by (simp add: cursor_run validate_leave_group_def sample_leave_def)

lemma sample_leave_route: "route_request leave_broker sample_identity sample_leave = Inr (ApiLeaveGroup, 13, 1, True)"
proof -
  have "be_i16 (take 2 sample_leave) = 13" "be_i16 (take 2 (drop 2 sample_leave)) = 1" "length sample_leave = 17"
    by (simp_all add: sample_leave_def be_i16_def)
  moreover have "is_supported ApiLeaveGroup 1" by (simp add: is_supported_def SUPPORTED_APIS_def)
  ultimately show ?thesis
    by (simp add: route_request_def sample_identity_valid Let_def sample_leave_accepted)
qed

definition no_groups :: "mem coordinator" where
  "no_groups = coordinator_new ([], 0)"

lemma no_groups_reachable: "coordinator_reachable (px_group (sample_protocol T C ms r)) ''p'' no_groups"
  unfolding no_groups_def by (rule coordinator_reachable.initial)

lemma sample_leave_refused:
  "run_alone (group_mem_env []) ''p'' 10 (LeaveRequest ''g'' ''m1'') no_groups = (Inl (Kafka UnknownMemberId), no_groups)"
proof -
  have "start_request 10 (LeaveRequest ''g'' ''m1'') no_groups = (Inl (Kafka UnknownMemberId), no_groups)"
    by (simp add: start_request_def io_bind_def check_group_def validate_group_id_def validate_component_def MAX_COMPONENT_BYTES_def
        validate_member_id_def validate_token_def MAX_IDENTIFIER_BYTES_def safe_char_def is_ascii_alphanumeric_def is_ascii_digit_def
        existing_group_slot_def no_groups_def coordinator_new_def bt_get_def)
  then show ?thesis by (simp add: run_alone_def)
qed

lemma sample_leave_handled: "handle_request leave_broker sample_identity sample_leave no_groups = (Inr (Some [7, 0, 25]), no_groups)"
proof -
  have fields: "px_decode_request leave_broker ApiLeaveGroup body 1 = Inr (LeaveGroupRequest \<lparr>vq_group_id = ''g'', vq_member_id = ''m1''\<rparr>, [])"
    "px_encode_header leave_broker 7 v = Inr [7]" "px_encode_response leave_broker (LeaveGroupResponse 25) 1 = Inr [0, 25]" for body v
    by (simp_all add: sample_protocol_def)
  show ?thesis
    by (simp add: handle_request_def io_bind_def sample_leave_route fields leave_group_response_def call_group_def io_try_def
        sample_leave_refused accepted_code_def coordinator_code_def sample_error_code_def encode_response_def)
qed

theorem broker_never_panics_witness:
  "handle_request leave_broker sample_identity sample_leave no_groups = (Inr (Some [7, 0, 25]), no_groups)
   \<and> (\<forall>p. (Inr (Some [7, 0, 25]) :: protocol_error + bytes option) \<noteq> Inl (ProtocolPanic p))"
proof -
  have "uuid_laws (px_group leave_broker)" using sample_uuids by simp
  moreover have "serves (px_group leave_broker) (px_group_prefix leave_broker) (px_await leave_broker)" using sample_serves by simp
  moreover have "coordinator_reachable (px_group leave_broker) (px_group_prefix leave_broker) no_groups" using no_groups_reachable by simp
  ultimately show ?thesis using broker_never_panics [OF _ _ _ sample_leave_handled] sample_leave_handled by blast
qed

theorem request_gate_witness: "valid_advertised_host ''h'' \<and> is_supported ApiLeaveGroup 1"
proof -
  have be: "be_i16 (take 2 sample_leave) = 13" "be_i16 (take 2 (drop 2 sample_leave)) = 1"
    by (simp_all add: sample_leave_def be_i16_def)
  have "\<exists>out. (Inr (Some [7, 0, 25]) :: protocol_error + bytes option) = Inr out" by blast
  from request_gate [OF sample_leave_handled disjI2 [OF this]] show ?thesis
    unfolding be by (auto simp: sample_identity_def)
qed

theorem response_answers_request_witness:
  "\<exists>response. response_of ApiLeaveGroup response \<and> encode_response leave_broker 7 1 response = Inr [7, 0, 25]"
proof -
  have be: "be_i16 (take 2 sample_leave) = 13" "be_i16 (take 2 (drop 2 sample_leave)) = 1"
    by (simp_all add: sample_leave_def be_i16_def)
  have "decodes_by_key leave_broker"
    by (auto simp: decodes_by_key_def sample_protocol_def split: if_splits)
  from response_answers_request [OF this sample_leave_handled] show ?thesis
    unfolding be by (auto simp del: response_of.simps)
qed

section \<open>A stable group of one member\<close>

definition topic_objects :: "(string \<times> bytes) list" where
  "topic_objects = [(''p/topics/a/metadata.json'', [0]), (''p/groups/g/offsets.json'', [0])]"

definition group_at :: "(string \<times> bytes) list \<Rightarrow> group_state option \<Rightarrow> nat \<Rightarrow> (nat \<times> task) list \<Rightarrow> nat \<Rightarrow> mem coordinator" where
  "group_at objs st uuids tasks next_task =
     \<lparr>cd_groups = [(''g'', 0)], cd_slots = (\<lambda>_. None)(0 := st), cd_tasks = tasks, cd_next_slot = 1, cd_next_task = next_task,
      cd_world = (objs, uuids)\<rparr>"

lemma group_at_fields [simp]:
  "cd_groups (group_at b st u ts n) = [(''g'', 0)]" "cd_slots (group_at b st u ts n) 0 = st" "cd_tasks (group_at b st u ts n) = ts"
  "cd_next_slot (group_at b st u ts n) = 1" "cd_next_task (group_at b st u ts n) = n" "cd_world (group_at b st u ts n) = (b, u)"
  by (simp_all add: group_at_def)

definition one_member :: "bytes option \<Rightarrow> join_outcome option \<Rightarrow> member_state" where
  "one_member assignment result =
     (joined_member 0 (millis 10000) (millis 10000) range_protocol 1)\<lparr>ms_assignment := assignment, ms_join_result := result\<rparr>"

definition one_outcome :: join_outcome where
  "one_outcome = \<lparr>jo_generation_id = 1, jo_protocol_name = ''range'', jo_leader_id = ''u'', jo_member_id = ''u'',
     jo_members = [\<lparr>jm_member_id = ''u'', jm_metadata = [1]\<rparr>]\<rparr>"

definition one_group :: "group_phase \<Rightarrow> bytes option \<Rightarrow> group_state" where
  "one_group phase assignment =
     \<lparr>gs_generation_id = 1, gs_rebalance_id = 1, gs_phase = phase, gs_phase_deadline = millis 10000, gs_protocol_type = ''consumer'',
      gs_protocol_name = Some ''range'', gs_leader_id = ''u'', gs_members = [(''u'', one_member assignment (Some one_outcome))]\<rparr>"

definition one_sync :: group_request where
  "one_sync = SyncRequest ''g'' 1 ''u'' [\<lparr>sa_member_id = ''u'', sa_assignment = [8]\<rparr>]"

lemma one_group_steps:
  "start_request 0 sample_join (coordinator_new (topic_objects, 0)) = (Inr (), group_at topic_objects None 0 [(0, Task sample_join 0 JoinEnter)] 1)"
  "resume_task (group_mem_env ms) ''p'' 0 0 (Task sample_join 0 JoinEnter) (group_at topic_objects None 0 [(0, Task sample_join 0 JoinEnter)] 1)
     = (None, group_at topic_objects (Some first_member) 1 [(0, Task sample_join 0 (JoinSettle ''u'' 1))] 1)"
proof -
  have join: "request_slot now sample_join = join_group_slot now ''g'' []" "first_stage sample_join = JoinEnter" for now
    by (simp_all add: sample_join_def fun_eq_iff)
  show "start_request 0 sample_join (coordinator_new (topic_objects, 0)) = (Inr (), group_at topic_objects None 0 [(0, Task sample_join 0 JoinEnter)] 1)"
    by (simp add: start_request_def io_bind_def sample_join_checked join join_group_slot_def bt_get_def coordinator_new_def Let_def
        sweep_reclaimable_slots_def MAX_GROUP_SLOTS_def group_at_def)
  show "resume_task (group_mem_env ms) ''p'' 0 0 (Task sample_join 0 JoinEnter) (group_at topic_objects None 0 [(0, Task sample_join 0 JoinEnter)] 1)
     = (None, group_at topic_objects (Some first_member) 1 [(0, Task sample_join 0 (JoinSettle ''u'' 1))] 1)"
    by (simp add: resume_task_def group_at_def sample_join_def join_enter_def io_bind_def io_snd_def io_fst_def io_call_def
        advance_group_def mem_uuid_def first_member_def Let_def topic_objects_def)
qed

lemma one_group_settles:
  "advance_group 0 (Some first_member) = (Inr True, Some (one_group AwaitingSync None))"
  by (simp add: advance_group_def advance_phase_def expired_members_def first_member_def first_group_def joined_member_def millis_def
      finish_joining_def all_joined_def bt_values_def in_group_def finalize_rebalance_def ensure_leader_def bt_contains_def bt_get_def
      io_bind_def select_protocol_def range_protocol_def offers_def checked_add_i32_def range_simps Let_def leader_member_def
      bt_map_def finished_member_def one_group_def one_member_def one_outcome_def rebalance_deadline_def)

lemma one_group_still:
  "now < millis 10000 \<Longrightarrow> advance_group now (Some (one_group AwaitingSync None)) = (Inr False, Some (one_group AwaitingSync None))"
  "now < millis 10000 \<Longrightarrow> advance_group now (Some (one_group Stable a)) = (Inr False, Some (one_group Stable a))"
  by (simp_all add: advance_group_def advance_phase_def expired_members_def one_group_def one_member_def joined_member_def)

lemma one_group_syncs:
  "sync_poll 0 1 ''u'' [\<lparr>sa_member_id = ''u'', sa_assignment = [8]\<rparr>] False (Some (one_group AwaitingSync None))
     = (Inr (Finish (Inr (Synced [8]))), Some (one_group Stable (Some [8])))"
proof -
  have start: "advance_group 0 (Some (one_group AwaitingSync None)) = (Inr False, Some (one_group AwaitingSync None))"
    by (rule one_group_still) (simp add: millis_def)
  have active: "active_group 1 ''u'' (Some (one_group AwaitingSync None)) = Inr (one_group AwaitingSync None)"
    by (simp add: active_group_def bt_contains_def bt_get_def one_group_def)
  have submit: "sync_submit 0 ''u'' [\<lparr>sa_member_id = ''u'', sa_assignment = [8]\<rparr>] (one_group AwaitingSync None) = (Inr (), one_group Stable (Some [8]))"
    by (simp add: sync_submit_def one_group_def io_bind_def exact_assignments_def bt_of_list_def update_member_def bt_get_def Let_def
        one_member_def joined_member_def bt_contains_def bt_keys_def)
  have outcome: "sync_outcome ''u'' (one_group Stable (Some [8])) = (Inr (Some [8]), one_group Stable (Some [8]))"
    by (simp add: sync_outcome_def one_group_def one_member_def bt_get_def joined_member_def)
  have phase: "gs_phase (one_group ph a) = ph" for ph a by (simp add: one_group_def)
  show ?thesis
    by (simp add: sync_poll_def io_bind_def start active phase in_group_def submit outcome)
qed

definition settled :: "mem coordinator" where
  "settled = group_at topic_objects (Some (one_group Stable (Some [8]))) 1 [(0, Task sample_join 0 (JoinWait ''u'' 1))] 2"

lemma one_group_later_steps:
  "resume_task (group_mem_env ms) ''p'' 0 0 (Task sample_join 0 (JoinSettle ''u'' 1))
     (group_at topic_objects (Some first_member) 1 [(0, Task sample_join 0 (JoinSettle ''u'' 1))] 1)
   = (None, group_at topic_objects (Some (one_group AwaitingSync None)) 1 [(0, Task sample_join 0 (JoinWait ''u'' 1))] 1)"
  "start_request 0 one_sync (group_at topic_objects (Some (one_group AwaitingSync None)) 1 [(0, Task sample_join 0 (JoinWait ''u'' 1))] 1)
   = (Inr (), group_at topic_objects (Some (one_group AwaitingSync None)) 1
        [(0, Task sample_join 0 (JoinWait ''u'' 1)), (1, Task one_sync 0 (SyncWait False))] 2)"
  "resume_task (group_mem_env ms) ''p'' 0 1 (Task one_sync 0 (SyncWait False))
     (group_at topic_objects (Some (one_group AwaitingSync None)) 1
        [(0, Task sample_join 0 (JoinWait ''u'' 1)), (1, Task one_sync 0 (SyncWait False))] 2)
   = (Some (Inr (Synced [8])), settled)"
proof -
  show "resume_task (group_mem_env ms) ''p'' 0 0 (Task sample_join 0 (JoinSettle ''u'' 1))
     (group_at topic_objects (Some first_member) 1 [(0, Task sample_join 0 (JoinSettle ''u'' 1))] 1)
   = (None, group_at topic_objects (Some (one_group AwaitingSync None)) 1 [(0, Task sample_join 0 (JoinWait ''u'' 1))] 1)"
    by (simp add: resume_task_def sample_join_def io_bind_def io_snd_def one_group_settles Let_def) (simp add: group_at_def)
  show "start_request 0 one_sync (group_at topic_objects (Some (one_group AwaitingSync None)) 1 [(0, Task sample_join 0 (JoinWait ''u'' 1))] 1)
   = (Inr (), group_at topic_objects (Some (one_group AwaitingSync None)) 1
        [(0, Task sample_join 0 (JoinWait ''u'' 1)), (1, Task one_sync 0 (SyncWait False))] 2)"
    by (simp add: start_request_def io_bind_def one_sync_def check_group_def validate_group_id_def group_checks validate_member_id_def
        validate_token_def MAX_IDENTIFIER_BYTES_def safe_char_def is_ascii_alphanumeric_def is_ascii_digit_def validate_assignments_def
        MAX_GROUP_MEMBERS_def MAX_GROUP_BLOB_BYTES_def add_lengths_def checked_add_u64_def u64_max_def
        MAX_GROUP_ASSIGNMENT_BYTES_def existing_group_slot_def bt_get_def)
      (simp add: group_at_def)
  show "resume_task (group_mem_env ms) ''p'' 0 1 (Task one_sync 0 (SyncWait False))
     (group_at topic_objects (Some (one_group AwaitingSync None)) 1
        [(0, Task sample_join 0 (JoinWait ''u'' 1)), (1, Task one_sync 0 (SyncWait False))] 2)
   = (Some (Inr (Synced [8])), settled)"
    by (simp add: resume_task_def one_sync_def io_snd_def one_group_syncs Let_def end_task_def bt_remove_def) (simp add: settled_def group_at_def)
qed

lemma settled_reachable: "coordinator_reachable (group_mem_env ms) ''p'' settled"
proof -
  have "coordinator_reachable (group_mem_env ms) ''p'' (group_at topic_objects None 0 [(0, Task sample_join 0 JoinEnter)] 1)"
    by (rule coordinator_reachable.later [OF coordinator_reachable.initial coordinator_step.started [OF one_group_steps(1)]])
  from coordinator_reachable.later [OF this coordinator_step.resumed [OF _ one_group_steps(2)]]
  have "coordinator_reachable (group_mem_env ms) ''p'' (group_at topic_objects (Some first_member) 1 [(0, Task sample_join 0 (JoinSettle ''u'' 1))] 1)"
    by (simp add: bt_get_def)
  from coordinator_reachable.later [OF this coordinator_step.resumed [OF _ one_group_later_steps(1)]]
  have "coordinator_reachable (group_mem_env ms) ''p''
      (group_at topic_objects (Some (one_group AwaitingSync None)) 1 [(0, Task sample_join 0 (JoinWait ''u'' 1))] 1)"
    by (simp add: bt_get_def)
  from coordinator_reachable.later [OF this coordinator_step.started [OF one_group_later_steps(2)]]
  have "coordinator_reachable (group_mem_env ms) ''p'' (group_at topic_objects (Some (one_group AwaitingSync None)) 1
        [(0, Task sample_join 0 (JoinWait ''u'' 1)), (1, Task one_sync 0 (SyncWait False))] 2)" .
  from coordinator_reachable.later [OF this coordinator_step.replied [OF _ one_group_later_steps(3)]]
  show ?thesis by (simp add: bt_get_def)
qed

section \<open>Commit and fetch\<close>

definition moved_objects :: "(string \<times> bytes) list" where
  "moved_objects = (''p/groups/g/offsets.json'', [1]) # topic_objects"

definition moved :: "mem coordinator" where
  "moved = group_at moved_objects (Some (one_group Stable (Some [8]))) 1 [(0, Task sample_join 0 (JoinWait ''u'' 1))] 3"

definition offsets_request :: offset_commit_request where
  "offsets_request = \<lparr>oq_group_id = ''g'', oq_generation_id_or_member_epoch = 1, oq_member_id = ''u'', oq_retention_time_ms = - 1,
     oq_topics = [(''a'', [\<lparr>cp_partition_index = 0, cp_committed_offset = 9, cp_committed_metadata = None\<rparr>])]\<rparr>"

abbreviation offsets_broker :: "(mem, unit, unit) protocol_env" where
  "offsets_broker \<equiv> sample_protocol log_tables no_codecs offset_versions (OffsetCommitRequest offsets_request)"

lemma sample_topic_exists:
  assumes "map_of objs ''p/topics/a/metadata.json'' = Some [0]"
  shows "topic_exists (mem_env log_tables no_codecs) sample_engine ''a'' 0 (objs, n) = (Inr True, (objs, n))"
  using assms
  by (simp add: topic_exists_def topic_partition_count_def validate_topic_def valid_topic_def safe_char_def is_ascii_alphanumeric_def
      is_ascii_digit_def io_eval load_topic_metadata_def topic_metadata_path_def sample_engine_def MAX_TOPIC_METADATA_BYTES_def
      io_body_def log_tables_def from_table_def table_from_def validate_topic_metadata_def TOPIC_METADATA_SCHEMA_def
      validate_partition_count_def validate_partition_def MAX_TOPIC_PARTITIONS_def DEFAULT_TOPIC_PARTITIONS_def checked_add_u64_def u64_max_def)

lemma positions_loaded:
  "load_offsets (group_mem_env offset_versions) ''p'' ''g'' (topic_objects, n) =
     (Inr (Some \<lparr>lo_manifest = sample_manifest 4 two_offsets, lo_version = Some (body_tag [0])\<rparr>), (topic_objects, n))"
  by (simp add: load_offsets_def io_eval group_checks topic_objects_def MAX_OFFSET_MANIFEST_BYTES_def sample_decoded
      checked_add_u64_def u64_max_def)

lemma positions_committed:
  "commit_offsets (group_mem_env offset_versions) ''p'' ''g'' sample_commit (topic_objects, n) = (Inr (), (moved_objects, n))"
proof -
  have "table_to offset_versions (sample_manifest 5 moved_offsets) = Inr [1]"
    by (simp add: table_to_def offset_versions_def)
  then have "commit_offsets_attempt (group_mem_env offset_versions) ''p'' ''g'' sample_commit (topic_objects, n) = (Inr (Some ()), (moved_objects, n))"
    by (simp add: commit_offsets_attempt_def positions_loaded sample_next publish_offsets_def io_bind_def io_try_def
        group_checks MAX_OFFSET_MANIFEST_BYTES_def Let_def)
      (simp add: mem_put_def moved_objects_def topic_objects_def)
  moreover have "sample_commit \<noteq> []" by (simp add: sample_commit_def)
  ultimately show ?thesis
    by (simp add: commit_offsets_def io_bind_def group_checks retry_unfold GROUP_CAS_ATTEMPTS_def)
qed

lemma positions_section:
  "commit_section (group_mem_env offset_versions) ''p'' 10 ''g'' 1 ''u'' sample_commit ((topic_objects, n), Some (one_group Stable (Some [8])))
     = (Inr (Finish (Inr Accepted)), ((moved_objects, n), Some (one_group Stable (Some [8]))))"
proof -
  have "advance_group 10 (Some (one_group Stable (Some [8]))) = (Inr False, Some (one_group Stable (Some [8])))"
    by (rule one_group_still) (simp add: millis_def)
  moreover have "active_group 1 ''u'' (Some (one_group Stable (Some [8]))) = Inr (one_group Stable (Some [8]))"
    by (simp add: active_group_def bt_contains_def bt_get_def one_group_def)
  moreover have "bt_get (gs_members (one_group Stable (Some [8]))) ''u'' = Some (one_member (Some [8]) (Some one_outcome))"
    "gs_phase (one_group Stable (Some [8])) = Stable" "ms_assignment (one_member (Some [8]) (Some one_outcome)) = Some [8]"
    by (simp_all add: bt_get_def one_group_def one_member_def)
  moreover have "sample_commit \<noteq> []" by (simp add: sample_commit_def)
  ultimately show ?thesis
    by (simp add: commit_section_def io_bind_def io_snd_def io_fst_def io_map_err_def positions_committed)
qed

lemma positions_accepted:
  "run_alone (group_mem_env offset_versions) ''p'' 10 (CommitRequest ''g'' 1 ''u'' sample_commit) settled = (Inr Accepted, moved)"
proof -
  let ?commit = "Task (CommitRequest ''g'' 1 ''u'' sample_commit) 0 Visit"
  let ?c = "settled\<lparr>cd_tasks := [(0, Task sample_join 0 (JoinWait ''u'' 1)), (2, ?commit)], cd_next_task := 3\<rparr>"
  have start: "start_request 10 (CommitRequest ''g'' 1 ''u'' sample_commit) settled = (Inr (), ?c)"
    by (simp add: start_request_def io_bind_def check_group_def validate_group_id_def group_checks validate_member_id_def settled_def
        validate_token_def MAX_IDENTIFIER_BYTES_def safe_char_def is_ascii_alphanumeric_def is_ascii_digit_def existing_group_slot_def bt_get_def)
  have "resume_task (group_mem_env offset_versions) ''p'' 10 2 ?commit ?c = (Some (Inr Accepted), moved)"
    by (simp add: resume_task_def settled_def positions_section Let_def end_task_def bt_remove_def) (simp add: moved_def group_at_def)
  then have "await_task (group_mem_env offset_versions) ''p'' 10 7 2 ?c = (Some (Inr Accepted), moved)"
    using await_task.simps(2) [of "group_mem_env offset_versions" "''p''" 10 6 2 ?c] by (simp add: bt_get_def)
  then show ?thesis by (simp add: run_alone_def start)
qed

lemma offsets_committed:
  "offset_commit_response offsets_broker offsets_request settled =
     (Inr [(''a'', [\<lparr>or_partition_index = 0, or_error_code = 0\<rparr>])], moved)"
proof -
  have commits: "commits_of (oq_topics offsets_request) = sample_commit"
    by (simp add: commits_of_def offsets_request_def sample_commit_def)
  have world: "cd_world settled = (topic_objects, 1)" "settled\<lparr>cd_world := (topic_objects, 1)\<rparr> = settled"
    by (simp_all add: settled_def group_at_def)
  have "topic_error offsets_broker ''a'' 0 settled = (Inr None, settled)"
    using sample_topic_exists [of topic_objects 1]
    by (simp add: topic_error_def io_bind_def call_world_def world topic_objects_def)
  then have "check_commits offsets_broker sample_commit [] [] settled = (Inr ([], sample_commit), settled)"
    by (simp add: sample_commit_def io_bind_def)
  then show ?thesis
    unfolding offset_commit_response_def Let_def commits
    by (simp add: offsets_request_def io_bind_def call_group_def io_try_def positions_accepted accepted_code_def commit_responses_def bt_get_def)
qed

definition fetched_position :: offset_fetch_response where
  "fetched_position = \<lparr>fr_error_code = 0, fr_topics = [(''a'', [\<lparr>tr_partition_index = 0, tr_committed_offset = 9, tr_metadata = None, tr_error_code = 0\<rparr>])]\<rparr>"

lemma moved_offsets_ok: "offsets_ok moved_offsets"
proof -
  have "offset_ok (TopicPartition ''a'' 0, \<lparr>co_offset = 9, co_metadata = None\<rparr>)"
    using validate_commits_from_ok [of "{}" sample_commit] group_checks(3)
    by (auto simp: validate_commits_def sample_commit_def commit_pairs_def split: if_splits)
  then show ?thesis unfolding moved_offsets_def by (intro offsets_ok_insert two_offsets_ok) auto
qed

lemma positions_fetched:
  "fetch_offsets (group_mem_env offset_versions) ''p'' ''g'' (Some [TopicPartition ''a'' 0]) (moved_objects, n) =
     (Inr [\<lparr>fo_topic_partition = TopicPartition ''a'' 0, fo_committed = Some \<lparr>co_offset = 9, co_metadata = None\<rparr>\<rparr>], (moved_objects, n))"
proof -
  have len: "length moved_offsets = 2" by (simp add: moved_offsets_def two_offsets_def less_topic_partition_def)
  have map: "offset_map (sample_manifest r moved_offsets) = Inr moved_offsets"
    "deserialize_offsets (json_seq_of (offset_entries moved_offsets)) = Inr (offset_entries moved_offsets)" for r
    using offset_map_of_entries [OF moved_offsets_ok] deserialize_offsets_seq_of [of "offset_entries moved_offsets"] len
    by (simp_all add: offset_entries_def MAX_GROUP_OFFSETS_def)
  have "from_table offset_versions [1] = Inr (sample_manifest 5 moved_offsets)"
    by (simp add: from_table_def table_from_def offset_versions_def)
  then have decoded: "decode_offsets (group_mem_env offset_versions) [1] = Inr (sample_manifest 5 moved_offsets)"
    by (simp add: decode_offsets_def map validate_offset_manifest_def)
  have "load_offsets (group_mem_env offset_versions) ''p'' ''g'' (moved_objects, n) =
     (Inr (Some \<lparr>lo_manifest = sample_manifest 5 moved_offsets, lo_version = Some (body_tag [1])\<rparr>), (moved_objects, n))"
    by (simp add: load_offsets_def io_eval group_checks moved_objects_def MAX_OFFSET_MANIFEST_BYTES_def decoded checked_add_u64_def u64_max_def)
  moreover have "bt_get moved_offsets (TopicPartition ''a'' 0) = Some \<lparr>co_offset = 9, co_metadata = None\<rparr>"
    using two_offsets_ok by (simp add: moved_offsets_def bt_get_insert offsets_ok_def)
  ultimately show ?thesis
    by (simp add: fetch_offsets_def io_bind_def group_checks validate_selection_def validate_group_partition_def MAX_TOPIC_PARTITIONS_def
        MAX_GROUP_OFFSETS_def loaded_map_def map)
qed

lemma offsets_fetched:
  "offset_fetch_response offsets_broker \<lparr>tq_group_id = ''g'', tq_topics = Some [(''a'', [0])]\<rparr> moved = (Inr fetched_position, moved)"
proof -
  have world: "cd_world moved = (moved_objects, 1)" "moved\<lparr>cd_world := (moved_objects, 1)\<rparr> = moved"
    by (simp_all add: moved_def group_at_def)
  have "topic_error offsets_broker ''a'' 0 moved = (Inr None, moved)"
    using sample_topic_exists [of moved_objects 1]
    by (simp add: topic_error_def io_bind_def call_world_def world moved_objects_def topic_objects_def)
  moreover have "check_topic_partition (TopicPartition ''a'' 0) = Inr ()" "check_group ''g'' = Inr ()"
    by (simp_all add: check_topic_partition_def validate_topic_partition_def check_group_def validate_group_id_def group_checks
        validate_group_partition_def MAX_TOPIC_PARTITIONS_def)
  moreover have "coordinator_fetch (group_mem_env offset_versions) ''p'' ''g'' (Some [TopicPartition ''a'' 0]) (moved_objects, 1) =
     (Inr [\<lparr>fo_topic_partition = TopicPartition ''a'' 0, fo_committed = Some \<lparr>co_offset = 9, co_metadata = None\<rparr>\<rparr>], (moved_objects, 1))"
    by (simp add: coordinator_fetch_def io_map_err_def positions_fetched)
  ultimately show ?thesis
    by (simp add: offset_fetch_response_def Let_def selected_keys_def io_bind_def call_world_def world bt_keys_def fetch_responses_def
        bt_of_list_def bt_get_def offset_fetch_partition_def fetched_position_def sample_defaults_def)
qed

lemma offsets_broker_laws:
  "error_codes_nonzero (sample_protocol T C ms r)" "group_legal (px_group (sample_protocol T C ms r)) mem_view (=)"
  "store_laws (px_log (sample_protocol T C ms r)) mem_view (=)" "uuid_laws (px_group (sample_protocol T C ms r))"
  using group_mem_legal mem_store_laws sample_uuids by (simp_all add: error_codes_nonzero_def sample_error_code_def)

lemma sample_entry:
  "\<lparr>oc_topic = ''a'', oc_partition = 0, oc_offset = 9, oc_metadata = None\<rparr> \<in> set (commits_of (oq_topics offsets_request))"
  by (simp add: commits_of_def offsets_request_def)

theorem offset_commit_reported_witness:
  "\<exists>valid. commit_accepted offsets_broker offsets_request settled valid moved
     \<and> \<lparr>oc_topic = ''a'', oc_partition = 0, oc_offset = 9, oc_metadata = None\<rparr> \<in> set valid"
proof -
  have "(''a'', [\<lparr>or_partition_index = 0, or_error_code = 0\<rparr>]) \<in> set [(''a'', [\<lparr>or_partition_index = 0, or_error_code = 0\<rparr>])]"
    "\<lparr>or_partition_index = 0, or_error_code = 0\<rparr> \<in> set [\<lparr>or_partition_index = 0, or_error_code = 0\<rparr>]" by simp_all
  with conjunct2 [OF offset_commit_reported [OF offsets_broker_laws(1) offsets_committed]] sample_entry show ?thesis by fastforce
qed

theorem offset_fetch_reported_witness:
  "\<exists>offsets. current_offsets (group_mem_env offset_versions) ''p'' ''g'' (mem_view (moved_objects, 1)) = Some offsets
     \<and> reports offsets ''a'' \<lparr>tr_partition_index = 0, tr_committed_offset = 9, tr_metadata = None, tr_error_code = 0\<rparr>"
proof -
  have ok: "fr_error_code fetched_position = 0" by (simp add: fetched_position_def)
  have world: "cd_world moved = (moved_objects, 1)" by (simp add: moved_def)
  from offset_fetch_reported [OF offsets_broker_laws(2,3,1) offsets_fetched ok] show ?thesis
    unfolding world by (auto simp: fetched_position_def)
qed

theorem committed_offset_fetched_witness:
  "offset_commit_response offsets_broker offsets_request settled = (Inr [(''a'', [\<lparr>or_partition_index = 0, or_error_code = 0\<rparr>])], moved)
   \<and> offset_fetch_response offsets_broker \<lparr>tq_group_id = oq_group_id offsets_request, tq_topics = Some [(''a'', [0])]\<rparr> moved
       = (Inr fetched_position, moved)
   \<and> tr_committed_offset (hd (snd (hd (fr_topics fetched_position)))) = 9"
proof -
  have gid: "oq_group_id offsets_request = ''g''" by (simp add: offsets_request_def)
  have reach: "coordinator_reachable (px_group offsets_broker) (px_group_prefix offsets_broker) settled" using settled_reachable by simp
  have serve: "serves (px_group offsets_broker) (px_group_prefix offsets_broker) (px_await offsets_broker)" using sample_serves by simp
  note fetch = offsets_fetched [folded gid]
  let ?part = "\<lparr>or_partition_index = 0, or_error_code = 0\<rparr>"
  let ?q = "\<lparr>tr_partition_index = 0, tr_committed_offset = 9, tr_metadata = None, tr_error_code = 0\<rparr>"
  have "tr_committed_offset ?q = oc_offset \<lparr>oc_topic = ''a'', oc_partition = 0, oc_offset = 9, oc_metadata = None\<rparr> \<and>
      tr_metadata ?q = oc_metadata \<lparr>oc_topic = ''a'', oc_partition = 0, oc_offset = 9, oc_metadata = None\<rparr>"
    by (rule committed_offset_fetched [OF offsets_broker_laws(2,3,1,4) serve reach _ offsets_committed, where part = ?part and q = ?q
        and name = "''a''" and ps = "[?part]" and qs = "[?q]", OF _ _ _ _ sample_entry _ refl fetch])
      (simp_all add: fetched_position_def)
  then show ?thesis using offsets_committed fetch by (simp add: fetched_position_def)
qed

section \<open>Produce and fetch\<close>

abbreviation records_broker :: "(mem, unit, unit) protocol_env" where
  "records_broker \<equiv> sample_protocol log_tables one_record_codecs [] OtherRequest"

definition sample_produce :: produce_request where
  "sample_produce = \<lparr>pq_transactional_id = None, pq_acks = - 1, pq_topic_data = []\<rparr>"

definition sample_part :: produce_partition where
  "sample_part = \<lparr>pp_index = 0, pp_records = Some one_record_batch\<rparr>"

definition sample_fetch_part :: fetch_partition where
  "sample_fetch_part = \<lparr>fp_partition = 0, fp_fetch_offset = 0, fp_partition_max_bytes = 1000\<rparr>"

definition sample_fetch :: fetch_request where
  "sample_fetch = \<lparr>fq_replica_id = - 1, fq_max_bytes = 5220, fq_topics = [(''t'', [sample_fetch_part])]\<rparr>"

definition sample_data :: partition_data where
  "sample_data = \<lparr>pd_partition_index = 0, pd_error_code = 0, pd_high_watermark = 1, pd_last_stable_offset = 1, pd_records = Some one_record_batch\<rparr>"

definition produced :: "mem coordinator" where
  "produced = no_groups\<lparr>cd_world := one_batch_log\<rparr>"

lemma one_record_batch_nonempty: "one_record_batch \<noteq> []"
  using length_one_record_batch by (metis list.size(3) zero_neq_numeral)

lemma sample_part_decoded: "decode_produce_batches (px_log records_broker) (pp_records sample_part) = Inr [[sample_record]]"
proof -
  have "decode_record_batches (cd_info one_record_codecs) (cd_all one_record_codecs) (cd_headers one_record_codecs) one_record_batch
      = Inr (\<lparr>in_batch_count = 1, in_record_count = 1, in_batch_record_counts = [1], in_record_header_counts = [0]\<rparr>, [sample_record])"
    using inspect_one_record [of "cd_info one_record_codecs"] by (simp add: decode_record_batches_def)
  then show ?thesis
    using one_record_batch_nonempty by (simp add: decode_produce_batches_def sample_part_def ok_or_def)
qed

lemmas one_batch_decoded = sample_part_decoded [unfolded sample_part_def, simplified]

lemma sample_produced: "produce_partition records_broker sample_produce ''t'' sample_part no_groups = (Inr (0, 0), produced)"
proof -
  have "cd_world no_groups = ([], 0)" by (simp add: no_groups_def coordinator_new_def)
  then show ?thesis
    using append_one_batch
    by (simp add: produce_partition_def sample_part_def one_batch_decoded io_bind_def call_world_def sample_produce_def produced_def)
qed

lemma sample_fetched: "fetch_response records_broker sample_fetch produced = (Inr [(''t'', [sample_data])], produced)"
proof -
  have budget: "fetch_budget_of sample_fetch = 100"
    by (simp add: fetch_budget_of_def fetch_item_count_def sample_fetch_def saturating_add_def saturating_mul_def u64_max_def
        FETCH_RESPONSE_BASE_RESERVE_def FETCH_RESPONSE_ITEM_RESERVE_def MAX_FETCH_PAYLOAD_BYTES_def)
  have world: "cd_world produced = one_batch_log" "produced\<lparr>cd_world := one_batch_log\<rparr> = produced" by (simp_all add: produced_def)
  have "fetch_one records_broker sample_fetch ''t'' sample_fetch_part \<lparr>fb_remaining = 100, fb_first_nonempty_partition = True\<rparr> produced
     = (Inr (sample_data, \<lparr>fb_remaining = 32, fb_first_nonempty_partition = False\<rparr>), produced)"
    using fetch_one_batch length_one_record_batch one_record_batch_nonempty
    by (auto simp: fetch_one_def Let_def io_bind_def call_world_def world sample_fetch_def sample_fetch_part_def sample_data_def
        sample_defaults_def MAX_FETCH_PAYLOAD_BYTES_def)
  then show ?thesis
    by (simp add: fetch_response_def budget io_bind_def) (simp add: sample_fetch_def io_bind_def)
qed

lemma records_broker_laws:
  "log_legal (px_log records_broker) (px_engine records_broker) ''t'' (pp_index sample_part) mem_view (=)"
  "append_names (px_log records_broker) (px_engine records_broker) ''t'' (pp_index sample_part)"
  "parse_laws (px_log records_broker) (px_engine records_broker) ''t'' (pp_index sample_part)"
  using mem_legal sample_append_names mem_parse_laws by (simp_all add: sample_part_def)


theorem produce_reported_witness:
  "\<exists>last. append_done one_env sample_engine ''t'' 0 (=) [[sample_record]] (mem_view ([], 0))
     \<lparr>ar_base_offset = 0, ar_last_offset = last\<rparr> (mem_view one_batch_log)"
proof -
  have world: "cd_world no_groups = ([], 0)" "cd_world produced = one_batch_log"
    by (simp_all add: no_groups_def coordinator_new_def produced_def)
  from produce_reported [OF offsets_broker_laws(1) records_broker_laws(1,2) sample_produced] show ?thesis
    by (auto simp: sample_part_def one_batch_decoded world)
qed

theorem produced_records_fetched_witness:
  "produce_partition records_broker sample_produce ''t'' sample_part no_groups = (Inr (0, 0), produced)
   \<and> fetch_response records_broker sample_fetch produced = (Inr [(''t'', [sample_data])], produced)
   \<and> (\<exists>more. pd_records sample_data = Some (one_record_batch @ more))"
proof -
  let ?E = "px_log records_broker" and ?L = "px_engine records_broker"
  have grows: "m = m' \<Longrightarrow> log_extended ?E ?L ''t'' (pp_index sample_part) m m'" for m m' by simp
  have intact: "log_intact ?E ?L ''t'' (pp_index sample_part) (mem_view (cd_world no_groups))"
    using empty_log_intact by (simp add: sample_part_def no_groups_def coordinator_new_def)
  have decoded: "decode_produce_batches ?E (pp_records sample_part) = Inr ([] @ [sample_record] # [])"
    and anon: "\<forall>b \<in> set ([] @ [sample_record] # []). anonymous b"
    using sample_part_decoded by (simp_all add: anonymous_def sample_record_def)
  have parts: "fq_topics sample_fetch = (''t'', sample_fetch_part # []) # []" "fp_partition sample_fetch_part = pp_index sample_part"
    "fp_fetch_offset sample_fetch_part = 0 + (\<Sum>b\<leftarrow>[]. int (length b))" "pd_error_code sample_data = 0"
    by (simp_all add: sample_fetch_def sample_fetch_part_def sample_part_def sample_data_def)
  from produced_records_fetched [OF offsets_broker_laws(1) records_broker_laws grows intact sample_produced decoded anon refl
      sample_fetched parts]
  have "\<exists>more. pd_records sample_data = Some (one_record_batch @ more)"
    by (auto simp: sample_record_valid encode_records_def sample_fetch_part_def)
  with sample_produced sample_fetched show ?thesis by blast
qed

end
