(* ===== verification/Server_Settings.thy ===== *)
theory Server_Settings
  imports Protocol
begin

text \<open>
  The settings of the process (\<open>src/config.rs\<close>, the checks of \<open>src/main.rs\<close> and
  \<open>src/server.rs\<close>): the S3 settings with their validation and the cluster prefix made of them, and
  the checks a broker makes before it touches the network. The URL parser and the S3 client
  builder belong to other crates and are parameters. The last section shows that a prefix made of
  validated settings is one the log engine and the group store accept.
\<close>

section \<open>S3 settings\<close>

record s3_settings =
  s3_bucket :: string
  s3_region :: string
  s3_endpoint :: "string option"
  s3_allow_http :: bool
  s3_prefix :: string
  s3_cluster_id :: string

datatype config_error =
    InvalidPathComponent string
  | InvalidStorePrefix
  | EmptyRegion
  | InvalidEndpoint string
  | HttpRequiresOptIn
  | UnsupportedEndpointScheme string

definition valid_path_component :: "string \<Rightarrow> bool" where
  "valid_path_component value \<longleftrightarrow> value \<noteq> [] \<and> value \<noteq> ''.'' \<and> value \<noteq> ''..'' \<and> list_all safe_char value"

definition validate_path_component :: "string \<Rightarrow> string \<Rightarrow> config_error + unit" where
  "validate_path_component field value = ensure (valid_path_component value) (InvalidPathComponent field)"

definition validate_store_prefix :: "string \<Rightarrow> config_error + unit" where
  "validate_store_prefix prefix =
     (let trimmed = trim_char (CHR ''/'') prefix
      in if trimmed = [] \<or> list_ex (\<lambda>c. validate_path_component ''prefix'' c \<noteq> Inr ()) (split_on (CHR ''/'') trimmed)
         then Inl InvalidStorePrefix else Inr ())"

text \<open>\<open>url_scheme\<close> is \<open>Url::parse\<close> followed by \<open>scheme\<close>.\<close>

definition validate_endpoint :: "(string \<Rightarrow> string + string) \<Rightarrow> bool \<Rightarrow> string \<Rightarrow> config_error + unit" where
  "validate_endpoint url_scheme allow_http endpoint =
     attempt (map_err InvalidEndpoint (url_scheme endpoint)) (\<lambda>scheme.
       if scheme = ''https'' then Inr ()
       else if scheme = ''http'' \<and> allow_http then Inr ()
       else if scheme = ''http'' then Inl HttpRequiresOptIn
       else Inl (UnsupportedEndpointScheme scheme))"

definition validate_settings :: "(string \<Rightarrow> string + string) \<Rightarrow> s3_settings \<Rightarrow> config_error + unit" where
  "validate_settings url_scheme settings =
     attempt (validate_path_component ''bucket'' (s3_bucket settings)) (\<lambda>_.
     attempt (validate_path_component ''cluster id'' (s3_cluster_id settings)) (\<lambda>_.
     attempt (validate_store_prefix (s3_prefix settings)) (\<lambda>_.
       if is_blank (s3_region settings) then Inl EmptyRegion
       else case s3_endpoint settings of
              None \<Rightarrow> Inr ()
            | Some endpoint \<Rightarrow> validate_endpoint url_scheme (s3_allow_http settings) endpoint)))"

definition cluster_prefix :: "s3_settings \<Rightarrow> string" where
  "cluster_prefix settings = trim_char (CHR ''/'') (s3_prefix settings) @ ''/clusters/'' @ s3_cluster_id settings"

section \<open>The store client\<close>

text \<open>What the source configures on the builder of the S3 client.\<close>

record store_options =
  so_bucket :: string
  so_region :: string
  so_virtual_hosted_style :: bool
  so_etag_conditional_put :: bool
  so_allow_http :: bool
  so_endpoint :: "string option"

datatype build_error = BuildConfig config_error | BuildFailed string

definition store_options_of :: "s3_settings \<Rightarrow> store_options" where
  "store_options_of settings =
     \<lparr>so_bucket = s3_bucket settings, so_region = s3_region settings, so_virtual_hosted_style = False,
      so_etag_conditional_put = True, so_allow_http = s3_allow_http settings, so_endpoint = s3_endpoint settings\<rparr>"

definition build_s3_store ::
  "(string \<Rightarrow> string + string) \<Rightarrow> (store_options \<Rightarrow> string + 'w) \<Rightarrow> s3_settings \<Rightarrow> build_error + 'w" where
  "build_s3_store url_scheme build settings =
     attempt (map_err BuildConfig (validate_settings url_scheme settings)) (\<lambda>_.
       map_err BuildFailed (build (store_options_of settings)))"

section \<open>Checks of the broker\<close>

definition DEFAULT_MAX_FRAME_BYTES :: nat where "DEFAULT_MAX_FRAME_BYTES = 16777216"
definition MIN_FRAME_BYTES :: nat where "MIN_FRAME_BYTES = 10"

definition valid_max_frame_bytes :: "nat \<Rightarrow> bool" where
  "valid_max_frame_bytes max_frame_bytes \<longleftrightarrow> MIN_FRAME_BYTES \<le> max_frame_bytes \<and> int max_frame_bytes \<le> i32_max"

record serve_settings =
  sv_s3 :: s3_settings
  sv_listen_port :: nat
  sv_advertised_host :: string
  sv_advertised_port :: "nat option"
  sv_max_frame_bytes :: nat
  sv_default_topic_partitions :: int

datatype serve_error =
    ServeConfig config_error
  | FrameBound
  | PartitionBound
  | ServeIdentity protocol_error

definition validate_max_frame_bytes :: "nat \<Rightarrow> serve_error + unit" where
  "validate_max_frame_bytes max_frame_bytes = ensure (valid_max_frame_bytes max_frame_bytes) FrameBound"

definition preflight_identity :: "serve_settings \<Rightarrow> broker_identity" where
  "preflight_identity settings =
     \<lparr>id_host = sv_advertised_host settings,
      id_port = (case sv_advertised_port settings of None \<Rightarrow> sv_listen_port settings | Some p \<Rightarrow> p),
      id_cluster_id = s3_cluster_id (sv_s3 settings)\<rparr>"

definition preflight :: "(string \<Rightarrow> string + string) \<Rightarrow> serve_settings \<Rightarrow> serve_error + broker_identity" where
  "preflight url_scheme settings =
     attempt (map_err ServeConfig (validate_settings url_scheme (sv_s3 settings))) (\<lambda>_.
     attempt (validate_max_frame_bytes (sv_max_frame_bytes settings)) (\<lambda>_.
     attempt (ensure (DEFAULT_TOPIC_PARTITIONS \<le> sv_default_topic_partitions settings
         \<and> sv_default_topic_partitions settings \<le> MAX_TOPIC_PARTITIONS) PartitionBound) (\<lambda>_.
     attempt (map_err ServeIdentity (validate_identity (preflight_identity settings))) (\<lambda>_.
       Inr (preflight_identity settings)))))"

text \<open>What \<open>serve\<close> checks again before it accepts connections.\<close>

definition serve_checks :: "broker_identity \<Rightarrow> nat \<Rightarrow> serve_error + unit" where
  "serve_checks identity max_frame_bytes =
     attempt (map_err ServeIdentity (validate_identity identity)) (\<lambda>_. validate_max_frame_bytes max_frame_bytes)"

section \<open>The prefix of a validated configuration\<close>

lemma split_on_component: "c \<notin> set xs \<Longrightarrow> split_on c xs = [xs]"
  by (induction xs) auto

lemma split_on_append: "split_on c (xs @ c # ys) = split_on c xs @ split_on c ys"
  by (induction xs) (auto split: list.splits)

lemma validate_store_prefix_Inr [result_simps]:
  "validate_store_prefix prefix = Inr u \<longleftrightarrow> trim_char (CHR ''/'') prefix \<noteq> []
     \<and> list_all valid_path_component (split_on (CHR ''/'') (trim_char (CHR ''/'') prefix))"
  by (auto simp: validate_store_prefix_def validate_path_component_def ensure_def Let_def list_all_iff list_ex_iff)

lemma safe_prefix_iff:
  "safe_prefix p \<longleftrightarrow> list_all (\<lambda>c. c \<noteq> [] \<and> c \<noteq> ''.'' \<and> c \<noteq> ''..'') (split_on (CHR ''/'') p)"
proof -
  have "[] \<in> set (split_on (CHR ''/'') p)" if "p = [] \<or> starts_with ''/'' p \<or> ends_with ''/'' p"
  proof -
    from that consider "p = []" | r where "p = CHR ''/'' # r" | r where "p = r @ CHR ''/'' # []"
      by (auto simp: starts_with_iff ends_with_iff)
    then show ?thesis by cases (auto simp: split_on_append)
  qed
  then show ?thesis unfolding safe_prefix_def by (auto simp: list_all_iff list_ex_iff)
qed

lemma cluster_prefix_safe:
  assumes "validate_settings url_scheme settings = Inr ()"
  shows "safe_prefix (cluster_prefix settings)"
proof -
  let ?p = "trim_char (CHR ''/'') (s3_prefix settings)" and ?id = "s3_cluster_id settings"
  from assms have id: "valid_path_component ?id" and p: "list_all valid_path_component (split_on (CHR ''/'') ?p)"
    by (auto simp: validate_settings_def validate_path_component_def ensure_def result_simps split: if_splits)
  from id have "CHR ''/'' \<notin> set ?id" by (simp add: valid_path_component_def safe_char_not_slash)
  then have "split_on (CHR ''/'') (cluster_prefix settings) = split_on (CHR ''/'') ?p @ [''clusters''] @ [?id]"
    by (simp add: cluster_prefix_def split_on_append split_on_component)
  with id p show ?thesis by (auto simp: safe_prefix_iff list_all_iff valid_path_component_def)
qed

lemma preflight_Inr:
  "preflight url_scheme settings = Inr identity \<longleftrightarrow>
     validate_settings url_scheme (sv_s3 settings) = Inr () \<and> valid_max_frame_bytes (sv_max_frame_bytes settings)
   \<and> DEFAULT_TOPIC_PARTITIONS \<le> sv_default_topic_partitions settings
   \<and> sv_default_topic_partitions settings \<le> MAX_TOPIC_PARTITIONS
   \<and> identity = preflight_identity settings \<and> validate_identity identity = Inr ()"
  by (auto simp: preflight_def validate_max_frame_bytes_def ensure_def result_simps split: if_splits)

end
