(* ===== verification/Connection.thy ===== *)
theory Connection
  imports Protocol_Gate Server_Settings
begin

text \<open>
  One connection of the broker: \<open>serve_connection\<close> of \<open>src/server.rs\<close>, which reads frames behind a
  four-byte length, hands each to \<open>handle_request\<close> and writes the response behind its length, one
  frame after the other. The socket belongs to the runtime and is a parameter with two calls; its
  state and the coordinator's are one state, since other connections run while this one waits.
  The loop has no bound of its own, so it is a partial function, and that it returns once the
  peer's bytes are used up is a theorem.
\<close>

section \<open>The socket\<close>

datatype read_error = UnexpectedEof | ReadFailed string

record ('t, 's) socket =
  so_read_exact :: "nat \<Rightarrow> ('t \<times> 's coordinator, read_error, bytes) io"
  so_write_all :: "bytes \<Rightarrow> ('t \<times> 's coordinator, string, unit) io"

datatype connection_error =
    ReadLength string
  | BadFrameLength int
  | ReadBody read_error
  | Handling protocol_error
  | ResponseTooLong nat
  | WriteLength string
  | WriteBody string

section \<open>The loop\<close>

text \<open>One round: the length, the frame, the request and the response. \<open>False\<close> ends the connection.\<close>

definition read_length :: "('t, 's) socket \<Rightarrow> ('t \<times> 's coordinator, connection_error, bytes option) io" where
  "read_length S =
     io_bind (io_try (so_read_exact S 4)) (\<lambda>r.
       case r of
         Inr bs \<Rightarrow> io_ret (Some bs)
       | Inl UnexpectedEof \<Rightarrow> io_ret None
       | Inl (ReadFailed e) \<Rightarrow> io_err (ReadLength e))"

definition frame_length :: "nat \<Rightarrow> bytes \<Rightarrow> connection_error + nat" where
  "frame_length max_frame_bytes bs =
     (let n = be_i32 bs
      in if 0 \<le> n \<and> nat n \<le> max_frame_bytes then Inr (nat n) else Inl (BadFrameLength n))"

definition write_response :: "('t, 's) socket \<Rightarrow> bytes \<Rightarrow> ('t \<times> 's coordinator, connection_error, unit) io" where
  "write_response S response =
     (if int (length response) > i32_max then io_err (ResponseTooLong (length response))
      else io_bind (io_map_err WriteLength (so_write_all S (be_bytes (length response)))) (\<lambda>_.
           io_map_err WriteBody (so_write_all S response)))"

definition serve_frame ::
  "('t, 's) socket \<Rightarrow> ('s, 'm, 'k, 'x) protocol_env_scheme \<Rightarrow> broker_identity \<Rightarrow> nat
   \<Rightarrow> ('t \<times> 's coordinator, connection_error, bool) io" where
  "serve_frame S P identity max_frame_bytes =
     io_bind (read_length S) (\<lambda>header.
       case header of
         None \<Rightarrow> io_ret False
       | Some bs \<Rightarrow>
           io_bind (io_lift (frame_length max_frame_bytes bs)) (\<lambda>n.
           io_bind (io_map_err ReadBody (so_read_exact S n)) (\<lambda>frame.
           io_bind (io_map_err Handling (io_snd (handle_request P identity frame))) (\<lambda>response.
           io_bind (case response of None \<Rightarrow> io_ret () | Some b \<Rightarrow> write_response S b) (\<lambda>_. io_ret True)))))"

text \<open>\<open>None\<close> is a connection that is still being served.\<close>

partial_function (option) serve_connection ::
  "('t, 's) socket \<Rightarrow> ('s, 'm, 'k, 'x) protocol_env_scheme \<Rightarrow> broker_identity \<Rightarrow> nat
   \<Rightarrow> 't \<times> 's coordinator \<Rightarrow> ((connection_error + unit) \<times> 't \<times> 's coordinator) option" where
  "serve_connection S P identity max_frame_bytes st =
     (let (r, st') = serve_frame S P identity max_frame_bytes st
      in if r = Inr True then serve_connection S P identity max_frame_bytes st'
         else Some (case r of Inl e \<Rightarrow> Inl e | Inr _ \<Rightarrow> Inr (), st'))"

section \<open>The laws of the socket\<close>

text \<open>
  \<open>pending\<close> are the bytes the peer will have sent when it closes or breaks the connection, less those
  already read; \<open>sent\<close> are the bytes written so far; \<open>others\<close> is what other connections do to the
  coordinator while this one waits. \<open>read_exact\<close> returns the next bytes or reports that too few
  are left, and may fail at any time; \<open>write_all\<close> writes all its bytes or, when it fails, some of
  the first ones.
\<close>

definition socket_laws ::
  "('t, 's) socket \<Rightarrow> ('t \<Rightarrow> bytes) \<Rightarrow> ('t \<Rightarrow> bytes) \<Rightarrow> ('s coordinator \<Rightarrow> 's coordinator \<Rightarrow> bool) \<Rightarrow> bool" where
  "socket_laws S pending sent others \<longleftrightarrow>
     reflp others \<and> transp others
   \<and> (\<forall>n t c r t' c'. so_read_exact S n (t, c) = (r, t', c') \<longrightarrow>
        others c c' \<and> sent t' = sent t
        \<and> (case r of
             Inr bs \<Rightarrow> length bs = n \<and> pending t = bs @ pending t'
           | Inl UnexpectedEof \<Rightarrow> length (pending t) < n
           | Inl (ReadFailed e) \<Rightarrow> True))
   \<and> (\<forall>bs t c r t' c'. so_write_all S bs (t, c) = (r, t', c') \<longrightarrow>
        others c c' \<and> pending t' = pending t
        \<and> (case r of Inr _ \<Rightarrow> sent t' = sent t @ bs | Inl e \<Rightarrow> \<exists>k. sent t' = sent t @ take k bs))"

lemma socket_laws_read:
  assumes "socket_laws S pending sent others" "so_read_exact S n (t, c) = (r, t', c')"
  shows "others c c' \<and> sent t' = sent t"
    "r = Inr bs \<Longrightarrow> length bs = n \<and> pending t = bs @ pending t'"
    "r = Inl UnexpectedEof \<Longrightarrow> length (pending t) < n"
proof -
  from assms have "others c c' \<and> sent t' = sent t
        \<and> (case r of
             Inr bs \<Rightarrow> length bs = n \<and> pending t = bs @ pending t'
           | Inl UnexpectedEof \<Rightarrow> length (pending t) < n
           | Inl (ReadFailed e) \<Rightarrow> True)"
    unfolding socket_laws_def by meson
  then show "others c c' \<and> sent t' = sent t" "r = Inr bs \<Longrightarrow> length bs = n \<and> pending t = bs @ pending t'"
    "r = Inl UnexpectedEof \<Longrightarrow> length (pending t) < n" by auto
qed

lemma socket_laws_write:
  assumes "socket_laws S pending sent others" "so_write_all S bs (t, c) = (r, t', c')"
  shows "others c c' \<and> pending t' = pending t" "r = Inr u \<Longrightarrow> sent t' = sent t @ bs"
    "r = Inl e \<Longrightarrow> \<exists>k. sent t' = sent t @ take k bs"
proof -
  from assms have "others c c' \<and> pending t' = pending t
        \<and> (case r of Inr _ \<Rightarrow> sent t' = sent t @ bs | Inl e \<Rightarrow> \<exists>k. sent t' = sent t @ take k bs)"
    unfolding socket_laws_def by meson
  then show "others c c' \<and> pending t' = pending t" "r = Inr u \<Longrightarrow> sent t' = sent t @ bs"
    "r = Inl e \<Longrightarrow> \<exists>k. sent t' = sent t @ take k bs" by auto
qed

lemma socket_laws_others:
  assumes "socket_laws S pending sent others"
  shows "others c c" "others c d \<Longrightarrow> others d e \<Longrightarrow> others c e"
  using assms unfolding socket_laws_def by (blast dest: reflpD transpD)+

section \<open>Frames\<close>

definition frame_bytes :: "bytes \<Rightarrow> bytes" where
  "frame_bytes b = be_bytes (length b) @ b"

lemma length_be_bytes: "length (be_bytes n) = 4"
  by (simp add: be_bytes_def)

lemma nonnegative_i32:
  assumes "signed_take_bit 31 (int k) = int n" "k < 2 ^ 32"
  shows "k = n"
proof (cases "k < 2147483648")
  case True
  then have "signed_take_bit 31 (int k) = int k" by (intro signed_take_bit_int_eq_self) simp_all
  with assms show ?thesis by simp
next
  case False
  with assms(2) have "(int k + 2147483648 - 4294967296) mod 4294967296 = int k + 2147483648 - 4294967296"
    by (intro mod_pos_pos_trivial) simp_all
  then have "(int k + 2147483648) mod 4294967296 = int k + 2147483648 - 4294967296" by (simp only: minus_mod_self2)
  then have "signed_take_bit 31 (int k) < 0"
    using assms(2) by (simp add: signed_take_bit_eq_take_bit_shift take_bit_eq_mod)
  with assms show ?thesis by simp
qed

lemma be_i32_inverse:
  assumes "length h = 4" "be_i32 h = int n"
  shows "h = be_bytes n"
proof -
  from assms(1) obtain w x y z where h: "h = [w, x, y, z]"
    by (auto simp: length_Suc_conv numeral_eq_Suc)
  let ?v = "((unat w * 256 + unat x) * 256 + unat y) * 256 + unat z"
  have byte: "unat u < 256" for u :: byte using unsigned_less [of u] by simp
  have v: "?v < 2 ^ 32" using byte [of w] byte [of x] byte [of y] byte [of z] by simp
  have signed: "sint (word_of_nat k :: 32 word) = signed_take_bit 31 (int k)" for k by (simp add: signed_of_nat)
  have "be_i32 h = sint (word_of_nat ?v :: 32 word)" by (simp add: be_i32_def h)
  also have "\<dots> = signed_take_bit 31 (int ?v)" by (rule signed)
  finally have sign: "signed_take_bit 31 (int ?v) = int n" using assms(2) by simp
  then have v: "?v = n" using v by (rule nonnegative_i32)
  have b3: "?v div 256 = (unat w * 256 + unat x) * 256 + unat y" using byte [of z] by simp
  then have b2: "?v div 65536 = unat w * 256 + unat x" using byte [of y] div_mult2_eq [of ?v 256 256] by simp
  then have b1: "?v div 16777216 = unat w" using byte [of x] div_mult2_eq [of ?v 65536 256] by simp
  have low: "(word_of_nat (k * 256 + unat u) :: byte) = u" for k u
  proof -
    have "(256 :: byte) = 0" by simp
    then have "word_of_nat k * 256 = (0 :: byte)" by (metis mult_zero_right)
    then show ?thesis by simp
  qed
  have "word_of_nat (unat w) = w" by simp
  then show ?thesis unfolding be_bytes_def h v [symmetric] b1 b2 b3 by (simp only: list.map low)
qed

text \<open>What one round reads from the bytes still to come.\<close>

lemma read_length_cases:
  assumes laws: "socket_laws S pending sent others" and run: "read_length S (t, c) = (r, t', c')"
  shows "others c c' \<and> sent t' = sent t
    \<and> (r = Inr None \<and> length (pending t) < 4
       \<or> (\<exists>bs. r = Inr (Some bs) \<and> length bs = 4 \<and> pending t = bs @ pending t')
       \<or> (\<exists>e. r = Inl (ReadLength e)))"
proof -
  obtain x where x: "so_read_exact S 4 (t, c) = (x, t', c')"
    and r: "r = (case x of Inr bs \<Rightarrow> Inr (Some bs) | Inl UnexpectedEof \<Rightarrow> Inr None | Inl (ReadFailed e) \<Rightarrow> Inl (ReadLength e))"
    using run by (auto simp: read_length_def io_bind_def io_try_def io_ret_def io_err_def split: prod.splits sum.splits read_error.splits)
  note facts = socket_laws_read [OF laws x]
  show ?thesis
  proof (cases x)
    case (Inl e)
    with facts r show ?thesis by (cases e) auto
  next
    case (Inr bs)
    with facts r show ?thesis by auto
  qed
qed

lemma write_response_cases:
  assumes laws: "socket_laws S pending sent others" and run: "write_response S b (t, c) = (r, t', c')"
  shows "others c c' \<and> pending t' = pending t
    \<and> (case r of
         Inr _ \<Rightarrow> int (length b) \<le> i32_max \<and> sent t' = sent t @ frame_bytes b
       | Inl (ResponseTooLong n) \<Rightarrow> n = length b \<and> i32_max < int n \<and> sent t' = sent t
       | Inl (WriteLength e) \<Rightarrow> \<exists>k. sent t' = sent t @ take k (frame_bytes b)
       | Inl (WriteBody e) \<Rightarrow> \<exists>k. sent t' = sent t @ take k (frame_bytes b)
       | Inl _ \<Rightarrow> False)"
proof (cases "int (length b) > i32_max")
  case True
  with run socket_laws_others [OF laws] show ?thesis by (auto simp: write_response_def io_err_def)
next
  case short: False
  obtain x t1 c1 where x: "so_write_all S (be_bytes (length b)) (t, c) = (x, t1, c1)" by (metis prod_cases3)
  note facts = socket_laws_write [OF laws x]
  show ?thesis
  proof (cases x)
    case (Inl e)
    with run x short have "r = Inl (WriteLength e)" "t' = t1" "c' = c1"
      by (auto simp: write_response_def io_bind_def io_map_err_def)
    moreover from facts(3) [OF Inl] obtain k where "sent t1 = sent t @ take k (be_bytes (length b))" by blast
    then have "sent t1 = sent t @ take (min k 4) (frame_bytes b)"
      using length_be_bytes [of "length b"] by (cases "k \<le> 4") (simp_all add: frame_bytes_def min_def)
    ultimately show ?thesis using facts(1) by auto
  next
    case (Inr u)
    obtain y where y: "so_write_all S b (t1, c1) = (y, t', c')" and r: "r = map_err WriteBody y"
      using run x short Inr by (auto simp: write_response_def io_bind_def io_map_err_def split: prod.splits sum.splits)
    note facts' = socket_laws_write [OF laws y]
    show ?thesis
    proof (cases y)
      case (Inl e)
      from facts'(3) [OF Inl] obtain k where "sent t' = sent t1 @ take k b" by blast
      with facts(2) [OF Inr] have "sent t' = sent t @ take (4 + k) (frame_bytes b)"
        by (simp add: frame_bytes_def length_be_bytes)
      with facts(1) facts'(1) socket_laws_others [OF laws] r Inl show ?thesis by auto
    next
      case (Inr v)
      with facts(1,2) facts' socket_laws_others [OF laws] r \<open>x = Inr u\<close> short show ?thesis
        by (auto simp: frame_bytes_def)
    qed
  qed
qed

section \<open>The conversation\<close>

text \<open>The frames handled, each with its response, in between steps of other connections.\<close>

fun exchanges ::
  "('s coordinator \<Rightarrow> 's coordinator \<Rightarrow> bool) \<Rightarrow> ('s, 'm, 'k, 'x) protocol_env_scheme \<Rightarrow> broker_identity
   \<Rightarrow> (bytes \<times> bytes option) list \<Rightarrow> 's coordinator \<Rightarrow> 's coordinator \<Rightarrow> bool" where
  "exchanges others P identity [] c c' \<longleftrightarrow> others c c'"
| "exchanges others P identity ((frame, response) # xs) c c' \<longleftrightarrow>
     (\<exists>d e. others c d \<and> handle_request P identity frame d = (Inr response, e) \<and> exchanges others P identity xs e c')"

definition responses :: "(bytes \<times> bytes option) list \<Rightarrow> bytes list" where
  "responses xs = List.map_filter snd xs"

lemma responses_simps [simp]:
  "responses [] = []" "responses ((frame, None) # xs) = responses xs"
  "responses ((frame, Some b) # xs) = b # responses xs"
  by (simp_all add: responses_def map_filter_simps)

lemma exchanges_before:
  assumes "transp others" "others c d" "exchanges others P identity xs d c'"
  shows "exchanges others P identity xs c c'"
proof (cases xs)
  case (Cons x xs)
  obtain frame response where x: "x = (frame, response)" by (cases x)
  with assms(3) Cons obtain d' e where "others d d'" "handle_request P identity frame d' = (Inr response, e)"
    "exchanges others P identity xs e c'" by auto
  moreover have "others c d'" using transpD [OF assms(1,2) \<open>others d d'\<close>] .
  ultimately show ?thesis using Cons x by auto
qed (use assms in \<open>auto dest: transpD\<close>)

text \<open>
  How a connection ends with an error: what of the remaining bytes was read, what happened to the
  coordinator and what was written behind the last complete response.
\<close>

fun ends_with_error ::
  "('s coordinator \<Rightarrow> 's coordinator \<Rightarrow> bool) \<Rightarrow> ('s, 'm, 'k, 'x) protocol_env_scheme \<Rightarrow> broker_identity \<Rightarrow> nat
   \<Rightarrow> bytes \<Rightarrow> 's coordinator \<Rightarrow> connection_error \<Rightarrow> bytes \<Rightarrow> 's coordinator \<Rightarrow> bool" where
  "ends_with_error others P identity max_bytes input c (ReadLength e) written c' \<longleftrightarrow> written = [] \<and> others c c'"
| "ends_with_error others P identity max_bytes input c (BadFrameLength n) written c' \<longleftrightarrow>
     written = [] \<and> others c c' \<and> 4 \<le> length input \<and> n = be_i32 (take 4 input) \<and> (n < 0 \<or> int max_bytes < n)"
| "ends_with_error others P identity max_bytes input c (ReadBody e) written c' \<longleftrightarrow>
     written = [] \<and> others c c'
   \<and> (e = UnexpectedEof \<longrightarrow> (\<exists>n rest. n \<le> max_bytes \<and> input = be_bytes n @ rest \<and> length rest < n))"
| "ends_with_error others P identity max_bytes input c (Handling e) written c' \<longleftrightarrow>
     written = [] \<and> (\<exists>frame rest d. input = frame_bytes frame @ rest \<and> length frame \<le> max_bytes
       \<and> others c d \<and> handle_request P identity frame d = (Inl e, c'))"
| "ends_with_error others P identity max_bytes input c (ResponseTooLong n) written c' \<longleftrightarrow>
     written = [] \<and> (\<exists>frame rest response d d'. input = frame_bytes frame @ rest \<and> length frame \<le> max_bytes
       \<and> others c d \<and> handle_request P identity frame d = (Inr (Some response), d') \<and> others d' c'
       \<and> n = length response \<and> i32_max < int n)"
| "ends_with_error others P identity max_bytes input c e written c' \<longleftrightarrow>
     (\<exists>frame rest response d d' k. input = frame_bytes frame @ rest \<and> length frame \<le> max_bytes
       \<and> others c d \<and> handle_request P identity frame d = (Inr (Some response), d') \<and> others d' c'
       \<and> written = take k (frame_bytes response))"

text \<open>One round.\<close>

definition round_done where
  "round_done others P identity max_bytes input c sent r input' c' sent' \<longleftrightarrow>
     (case r of
        Inr False \<Rightarrow> length input < 4 \<and> sent' = sent \<and> others c c'
      | Inr True \<Rightarrow> \<exists>frame response d d'. input = frame_bytes frame @ input' \<and> length frame \<le> max_bytes
          \<and> others c d \<and> handle_request P identity frame d = (Inr response, d') \<and> others d' c'
          \<and> sent' = sent @ concat (map frame_bytes (responses [(frame, response)]))
      | Inl e \<Rightarrow> \<exists>written. ends_with_error others P identity max_bytes input c e written c' \<and> sent' = sent @ written)"

lemma round_next:
  assumes "input = frame_bytes frame @ input'" "length frame \<le> max_bytes" "others c d"
    "handle_request P identity frame d = (Inr response, d')" "others d' c'"
    "sent' = sent @ concat (map frame_bytes (responses [(frame, response)]))"
  shows "round_done others P identity max_bytes input c sent (Inr True) input' c' sent'"
  unfolding round_done_def sum.case if_True bool.case using assms by blast

lemma broken_write:
  assumes "input = frame_bytes frame @ rest" "length frame \<le> max_bytes" "others c d"
    "handle_request P identity frame d = (Inr (Some response), d')" "others d' c'"
  shows "ends_with_error others P identity max_bytes input c (WriteLength e) (take k (frame_bytes response)) c'"
    "ends_with_error others P identity max_bytes input c (WriteBody e) (take k (frame_bytes response)) c'"
  unfolding ends_with_error.simps using assms by blast+

lemma serve_frame_round:
  assumes laws: "socket_laws S pending sent others" and run: "serve_frame S P identity max_bytes (t, c) = (r, t', c')"
  shows "round_done others P identity max_bytes (pending t) c (sent t) r (pending t') c' (sent t')"
proof -
  note trans = socket_laws_others [OF laws]
  obtain x t1 c1 where x: "read_length S (t, c) = (x, t1, c1)" by (metis prod_cases3)
  note header = read_length_cases [OF laws x]
  consider e where "x = Inl (ReadLength e)" | "x = Inr None" | bs where "x = Inr (Some bs)" using header by blast
  then show ?thesis
  proof cases
    case 1
    with run x header show ?thesis by (auto simp: serve_frame_def io_bind_def round_done_def)
  next
    case 2
    with run x header show ?thesis by (auto simp: serve_frame_def io_bind_def io_ret_def round_done_def)
  next
    case (3 bs)
    with header have bs: "length bs = 4" "pending t = bs @ pending t1" "others c c1" "sent t1 = sent t" by auto
    show ?thesis
    proof (cases "frame_length max_bytes bs")
      case (Inl e)
      with run x 3 have "r = Inl e" "t' = t1" "c' = c1" by (simp_all add: serve_frame_def io_bind_def io_lift_def)
      with Inl bs show ?thesis by (auto simp: round_done_def frame_length_def Let_def split: if_splits)
    next
      case (Inr n)
      then have "be_i32 bs = int n" and n: "n \<le> max_bytes" by (auto simp: frame_length_def Let_def split: if_splits)
      with bs(1) have be: "bs = be_bytes n" by (simp add: be_i32_inverse)
      obtain y t2 c2 where y: "so_read_exact S n (t1, c1) = (y, t2, c2)" by (metis prod_cases3)
      note body = socket_laws_read [OF laws y]
      have c2: "others c c2" "sent t2 = sent t" using bs body(1) trans by auto
      show ?thesis
      proof (cases y)
        case (Inl e)
        with run x 3 y \<open>frame_length max_bytes bs = Inr n\<close> have "r = Inl (ReadBody e)" "t' = t2" "c' = c2"
          by (simp_all add: serve_frame_def io_bind_def io_lift_def io_map_err_def)
        with Inl c2 bs be n body(3) show ?thesis by (auto simp: round_done_def)
      next
        case (Inr frame)
        with body(2) bs be have input: "pending t = frame_bytes frame @ pending t2" "length frame \<le> max_bytes"
          using n by (auto simp: frame_bytes_def)
        obtain z c3 where z: "handle_request P identity frame c2 = (z, c3)" by force
        have rest: "serve_frame S P identity max_bytes (t, c) = io_bind (io_map_err Handling (io_lift z))
           (\<lambda>response. io_bind (case response of None \<Rightarrow> io_ret () | Some b \<Rightarrow> write_response S b) (\<lambda>_. io_ret True)) (t2, c3)"
          using x 3 y Inr z \<open>frame_length max_bytes bs = Inr n\<close>
          by (simp add: serve_frame_def io_bind_def io_lift_def io_map_err_def io_snd_def)
        show ?thesis
        proof (cases z)
          case (Inl e)
          with run rest have "r = Inl (Handling e)" "t' = t2" "c' = c3" by (simp_all add: io_bind_def io_lift_def io_map_err_def)
          with Inl z c2 input show ?thesis by (simp add: round_done_def) blast
        next
          case (Inr response)
          show ?thesis
          proof (cases response)
            case None
            with run rest Inr have "r = Inr True" "t' = t2" "c' = c3" by (simp_all add: io_bind_def io_lift_def io_map_err_def io_ret_def)
            with None Inr z c2 input trans(1) show ?thesis by (auto intro: round_next)
          next
            case (Some b)
            obtain w where w: "write_response S b (t2, c3) = (w, t', c')" and r: "r = map_sum id (\<lambda>_. True) w"
              using run rest Inr Some by (auto simp: io_bind_def io_lift_def io_map_err_def io_ret_def split: prod.splits sum.splits)
            note written = write_response_cases [OF laws w]
            show ?thesis
            proof (cases w)
              case (Inr u)
              with written r Some z c2 input \<open>z = Inr response\<close> show ?thesis by (auto intro: round_next)
            next
              case (Inl e)
              have handled: "handle_request P identity frame c2 = (Inr (Some b), c3)" using z \<open>z = Inr response\<close> Some by simp
              have "\<exists>k. ends_with_error others P identity max_bytes (pending t) c e k c' \<and> sent t' = sent t @ k"
              proof (cases e)
                case (ResponseTooLong k)
                with written Inl Some z c2 input \<open>z = Inr response\<close> show ?thesis by auto
              next
                case (WriteLength m)
                with written Inl obtain k where "sent t' = sent t2 @ take k (frame_bytes b)" "others c3 c'" by auto
                with broken_write(1) [where others = others, OF input c2(1) handled] c2(2) WriteLength show ?thesis by metis
              next
                case (WriteBody m)
                with written Inl obtain k where "sent t' = sent t2 @ take k (frame_bytes b)" "others c3 c'" by auto
                with broken_write(2) [where others = others, OF input c2(1) handled] c2(2) WriteBody show ?thesis by metis
              qed (use written Inl in auto)
              with Inl r show ?thesis by (simp add: round_done_def)
            qed
          qed
        qed
      qed
    qed
  qed
qed

text \<open>
  The whole connection, by induction on the bytes still to come: every frame takes its length.
\<close>

lemma serve_connection_run:
  assumes laws: "socket_laws S pending sent others"
  shows "\<exists>r t' c' xs d rest written. serve_connection S P identity max_bytes (t, c) = Some (r, t', c')
    \<and> pending t = concat (map (frame_bytes \<circ> fst) xs) @ rest \<and> (\<forall>x \<in> set xs. length (fst x) \<le> max_bytes)
    \<and> exchanges others P identity xs c d
    \<and> sent t' = sent t @ concat (map frame_bytes (responses xs)) @ written
    \<and> (case r of
         Inr _ \<Rightarrow> length rest < 4 \<and> written = [] \<and> others d c'
       | Inl e \<Rightarrow> ends_with_error others P identity max_bytes rest d e written c')"
proof (induction "length (pending t)" arbitrary: t c rule: less_induct)
  case less
  note trans = socket_laws_others [OF laws]
  obtain r t1 c1 where run: "serve_frame S P identity max_bytes (t, c) = (r, t1, c1)" by (metis prod_cases3)
  note round = serve_frame_round [OF laws run]
  show ?case
  proof (cases "r = Inr True")
    case False
    then have stop: "serve_connection S P identity max_bytes (t, c) = Some (map_sum id (\<lambda>_. ()) r, t1, c1)"
      by (subst serve_connection.simps) (auto simp: run split: sum.splits)
    show ?thesis
    proof (cases r)
      case (Inl e)
      with round obtain written where "ends_with_error others P identity max_bytes (pending t) c e written c1" "sent t1 = sent t @ written"
        by (auto simp: round_done_def)
      with stop Inl trans(1) show ?thesis
        by - (rule exI [of _ "Inl e"], rule exI [of _ t1], rule exI [of _ c1], rule exI [of _ "[]"], rule exI [of _ c],
          rule exI [of _ "pending t"], rule exI [of _ written], simp)
    next
      case (Inr b)
      with False round have "length (pending t) < 4" "sent t1 = sent t" "others c c1" by (auto simp: round_done_def)
      with stop Inr trans(1) show ?thesis
        by - (rule exI [of _ "Inr ()"], rule exI [of _ t1], rule exI [of _ c1], rule exI [of _ "[]"], rule exI [of _ c],
          rule exI [of _ "pending t"], rule exI [of _ "[]"], simp)
    qed
  next
    case True
    then have step: "serve_connection S P identity max_bytes (t, c) = serve_connection S P identity max_bytes (t1, c1)"
      by (subst serve_connection.simps) (simp add: run)
    from True round obtain frame response d d' where frame: "pending t = frame_bytes frame @ pending t1" "length frame \<le> max_bytes"
      and handled: "others c d" "handle_request P identity frame d = (Inr response, d')" "others d' c1"
      and sent: "sent t1 = sent t @ concat (map frame_bytes (responses [(frame, response)]))"
      unfolding round_done_def by auto
    have "length (pending t1) < length (pending t)" using frame(1) by (simp add: frame_bytes_def length_be_bytes)
    from less.hyps [OF this, of c1] obtain r' t' c' xs e rest written where
      ih: "serve_connection S P identity max_bytes (t1, c1) = Some (r', t', c')"
        "pending t1 = concat (map (frame_bytes \<circ> fst) xs) @ rest" "\<forall>x \<in> set xs. length (fst x) \<le> max_bytes"
        "exchanges others P identity xs c1 e"
        "sent t' = sent t1 @ concat (map frame_bytes (responses xs)) @ written"
        "case r' of
         Inr _ \<Rightarrow> length rest < 4 \<and> written = [] \<and> others e c'
       | Inl e' \<Rightarrow> ends_with_error others P identity max_bytes rest e e' written c'" by blast
    have "transp others" using laws by (simp add: socket_laws_def)
    with ih(4) handled have "exchanges others P identity ((frame, response) # xs) c e"
      by (auto intro: exchanges_before)
    moreover have "sent t' = sent t @ concat (map frame_bytes (responses ((frame, response) # xs))) @ written"
      using sent ih(5) by (cases response) simp_all
    ultimately show ?thesis
      by - (rule exI [of _ r'], rule exI [of _ t'], rule exI [of _ c'], rule exI [of _ "(frame, response) # xs"], rule exI [of _ e],
        rule exI [of _ rest], rule exI [of _ written], use step frame ih in simp)
  qed
qed

text \<open>C11 (connection_in_order). Serving a connection returns once the peer's bytes are used up. What it has written
  is the responses to its frames, each behind its length and in the order of the frames, every frame
  having been handled in full before the next one was read, however the coordinator changed in
  between. Without an error all complete frames have been answered; an error is a frame of invalid
  length, a request that was refused, or a failed read or write, and at most a part of one further
  response was written.\<close>

theorem connection_in_order:
  assumes laws: "socket_laws S pending sent others"
  shows "\<exists>r t' c' xs d rest written. serve_connection S P identity max_bytes (t, c) = Some (r, t', c')
    \<and> pending t = concat (map (frame_bytes \<circ> fst) xs) @ rest \<and> (\<forall>x \<in> set xs. length (fst x) \<le> max_bytes)
    \<and> exchanges others P identity xs c d
    \<and> sent t' = sent t @ concat (map frame_bytes (responses xs)) @ written
    \<and> (case r of
         Inr _ \<Rightarrow> length rest < 4 \<and> written = [] \<and> others d c'
       | Inl e \<Rightarrow> ends_with_error others P identity max_bytes rest d e written c')"
  by (rule serve_connection_run [OF laws])

text \<open>
  However long a connection is served, it leaves the coordinator in a reachable state and does not
  end in a panic, if that is so for what the other connections do.
\<close>

lemma exchanges_reachable:
  assumes broker: "uuid_laws (px_group P)" "serves (px_group P) (px_group_prefix P) (px_await P)"
    and others: "\<And>c d. others c d \<Longrightarrow> coordinator_reachable (px_group P) (px_group_prefix P) c
      \<Longrightarrow> coordinator_reachable (px_group P) (px_group_prefix P) d"
  shows "exchanges others P identity xs c d \<Longrightarrow> coordinator_reachable (px_group P) (px_group_prefix P) c
    \<Longrightarrow> coordinator_reachable (px_group P) (px_group_prefix P) d"
proof (induction xs arbitrary: c)
  case Nil
  then show ?case using others by simp
next
  case (Cons x xs)
  obtain frame response where x: "x = (frame, response)" by (cases x)
  with Cons.prems obtain d1 e where step: "others c d1" "handle_request P identity frame d1 = (Inr response, e)"
    "exchanges others P identity xs e d" by auto
  have "coordinator_reachable (px_group P) (px_group_prefix P) e"
    using quietD [OF scheduled.quiet_handle [OF refl, where E = "px_group P" and prefix = "px_group_prefix P"] _ step(2)]
      others [OF step(1) Cons.prems(2)] broker by blast
  with Cons.IH step(3) show ?case by blast
qed

lemma connection_never_panics:
  assumes laws: "socket_laws S pending sent others"
    and broker: "uuid_laws (px_group P)" "serves (px_group P) (px_group_prefix P) (px_await P)"
    and others: "\<And>c d. others c d \<Longrightarrow> coordinator_reachable (px_group P) (px_group_prefix P) c
      \<Longrightarrow> coordinator_reachable (px_group P) (px_group_prefix P) d"
    and c: "coordinator_reachable (px_group P) (px_group_prefix P) c"
    and run: "serve_connection S P identity max_bytes (t, c) = Some (Inl (Handling e), t', c')"
  shows "coordinator_reachable (px_group P) (px_group_prefix P) c' \<and> (\<forall>p. e \<noteq> ProtocolPanic p)"
proof -
  have "\<exists>xs d frame d1. exchanges others P identity xs c d \<and> others d d1 \<and> handle_request P identity frame d1 = (Inl e, c')"
    using serve_connection_run [OF laws, of P identity max_bytes t c] run by fastforce
  then obtain xs d frame d1 where xs: "exchanges others P identity xs c d" and d1: "others d d1" "handle_request P identity frame d1 = (Inl e, c')"
    by blast
  have "coordinator_reachable (px_group P) (px_group_prefix P) d1"
    by (rule others [OF d1(1)], rule exchanges_reachable [OF broker _ xs c], erule (1) others)
  then show ?thesis
    using quietD [OF scheduled.quiet_handle [OF refl, where E = "px_group P" and prefix = "px_group_prefix P"] _ d1(2)] broker by blast
qed

end
