(* ===== verification/Accept_Loop.thy ===== *)
theory Accept_Loop
  imports Connection
begin

text \<open>
  The accept loop of \<open>serve\<close> in \<open>src/server.rs\<close>: it reaps the connection tasks that have ended, waits
  for the shutdown signal or the next connection, spawns a task for each, and at the end aborts
  and joins what is left. The tasks run concurrently: a step of the server is a step of the loop
  or one round of one task (\<open>serve_frame\<close>), in any order, and inside a round the other tasks act
  through the relation \<open>others\<close> of \<open>Connection\<close>. The listener and the shutdown signal are the
  environment's choices.
\<close>

section \<open>The server\<close>

text \<open>An entry of the \<open>JoinSet\<close>: a task that runs, has ended with a result, or was cancelled.\<close>

datatype 't connection_task =
    Running 't
  | Ended "connection_error + unit" 't
  | Cancelled

datatype serve_phase = Reaping | Selecting | Joining | Returned "string + unit"

record ('t, 's) server =
  sr_phase :: serve_phase
  sr_tasks :: "(nat \<times> 't connection_task) list"
  sr_next :: nat
  sr_coordinator :: "'s coordinator"

definition server_start :: "'s coordinator \<Rightarrow> ('t, 's) server" where
  "server_start c = \<lparr>sr_phase = Reaping, sr_tasks = [], sr_next = 0, sr_coordinator = c\<rparr>"

definition drop_task :: "nat \<Rightarrow> ('t, 's) server \<Rightarrow> ('t, 's) server" where
  "drop_task i sv = sv\<lparr>sr_tasks := filter (\<lambda>e. fst e \<noteq> i) (sr_tasks sv)\<rparr>"

definition set_task :: "nat \<Rightarrow> 't connection_task \<Rightarrow> ('t, 's) server \<Rightarrow> ('t, 's) server" where
  "set_task i x sv = sv\<lparr>sr_tasks := map (\<lambda>e. if fst e = i then (i, x) else e) (sr_tasks sv)\<rparr>"

definition task_ended :: "'t connection_task \<Rightarrow> bool" where
  "task_ended x \<longleftrightarrow> (case x of Ended _ _ \<Rightarrow> True | _ \<Rightarrow> False)"

section \<open>The loop\<close>

text \<open>\<open>while let Some(result) = connections.try_join_next()\<close>: one ended task, or none is left.\<close>

definition reap_task :: "nat \<Rightarrow> ('t, 's) server \<Rightarrow> ('t, 's) server option" where
  "reap_task i sv =
     (if sr_phase sv = Reaping \<and> (\<exists>r t. (i, Ended r t) \<in> set (sr_tasks sv)) then Some (drop_task i sv) else None)"

definition reaped_all :: "('t, 's) server \<Rightarrow> ('t, 's) server option" where
  "reaped_all sv =
     (if sr_phase sv = Reaping \<and> list_all (\<lambda>e. \<not> task_ended (snd e)) (sr_tasks sv)
      then Some (sv\<lparr>sr_phase := Selecting\<rparr>) else None)"

text \<open>The branches of \<open>tokio::select!\<close>. Returning early drops the \<open>JoinSet\<close>, which aborts its tasks.\<close>

definition accept_connection :: "string + 't \<Rightarrow> ('t, 's) server \<Rightarrow> ('t, 's) server option" where
  "accept_connection accepted sv =
     (if sr_phase sv = Selecting then
        Some (case accepted of
          Inl e \<Rightarrow> sv\<lparr>sr_phase := Returned (Inl e), sr_tasks := []\<rparr>
        | Inr t \<Rightarrow> sv\<lparr>sr_phase := Reaping, sr_tasks := sr_tasks sv @ [(sr_next sv, Running t)], sr_next := Suc (sr_next sv)\<rparr>)
      else None)"

definition shut_down :: "('t, 's) server \<Rightarrow> ('t, 's) server option" where
  "shut_down sv = (if sr_phase sv = Selecting then Some (sv\<lparr>sr_phase := Joining\<rparr>) else None)"

text \<open>
  After \<open>abort_all\<close> a task is cancelled at its next wait, unless it has ended before. What a request
  has done to the coordinator when it is dropped is one of the changes \<open>others\<close> allows.
\<close>

definition cancel_task :: "nat \<Rightarrow> 's coordinator \<Rightarrow> ('t, 's) server \<Rightarrow> ('t, 's) server option" where
  "cancel_task i c sv =
     (if sr_phase sv = Joining \<and> (\<exists>t. (i, Running t) \<in> set (sr_tasks sv))
      then Some (set_task i Cancelled (sv\<lparr>sr_coordinator := c\<rparr>)) else None)"

text \<open>\<open>while let Some(result) = connections.join_next().await\<close>.\<close>

definition join_task :: "nat \<Rightarrow> ('t, 's) server \<Rightarrow> ('t, 's) server option" where
  "join_task i sv =
     (if sr_phase sv = Joining \<and> (\<exists>x. (i, x) \<in> set (sr_tasks sv) \<and> (task_ended x \<or> x = Cancelled))
      then Some (drop_task i sv) else None)"

definition joined_all :: "('t, 's) server \<Rightarrow> ('t, 's) server option" where
  "joined_all sv =
     (if sr_phase sv = Joining \<and> sr_tasks sv = [] then Some (sv\<lparr>sr_phase := Returned (Inr ())\<rparr>) else None)"

text \<open>One round of a connection's task.\<close>

definition run_task ::
  "('t, 's) socket \<Rightarrow> ('s, 'm, 'k, 'x) protocol_env_scheme \<Rightarrow> broker_identity \<Rightarrow> nat
   \<Rightarrow> nat \<Rightarrow> ('t, 's) server \<Rightarrow> (bool \<times> ('t, 's) server) option" where
  "run_task S P identity max_bytes i sv =
     (case map_of (sr_tasks sv) i of
        Some (Running t) \<Rightarrow>
          (case serve_frame S P identity max_bytes (t, sr_coordinator sv) of
             (r, t', c') \<Rightarrow>
               let sv' = sv\<lparr>sr_coordinator := c'\<rparr>
               in Some (case r of
                    Inr True \<Rightarrow> (True, set_task i (Running t') sv')
                  | Inr False \<Rightarrow> (False, set_task i (Ended (Inr ()) t') sv')
                  | Inl e \<Rightarrow> (False, set_task i (Ended (Inl e) t') sv')))
      | _ \<Rightarrow> None)"

section \<open>Runs\<close>

text \<open>What can be observed of a run.\<close>

datatype 't server_event =
    ConnectionAccepted nat 't
  | AcceptFailed string
  | RoundServed nat
  | ConnectionEnded nat "connection_error + unit" 't
  | ShutDown
  | ConnectionCancelled nat

inductive serving ::
  "('s coordinator \<Rightarrow> 's coordinator \<Rightarrow> bool) \<Rightarrow> ('t, 's) socket \<Rightarrow> ('s, 'm, 'k, 'x) protocol_env_scheme
   \<Rightarrow> broker_identity \<Rightarrow> nat \<Rightarrow> 's coordinator \<Rightarrow> 't server_event list \<Rightarrow> ('t, 's) server \<Rightarrow> bool"
  for others S P identity max_bytes c0 where
  start: "serve_checks identity max_bytes = Inr () \<Longrightarrow>
    serving others S P identity max_bytes c0 [] (server_start c0)"
| reap: "serving others S P identity max_bytes c0 tr sv \<Longrightarrow> reap_task i sv = Some sv' \<Longrightarrow>
    serving others S P identity max_bytes c0 tr sv'"
| reaped: "serving others S P identity max_bytes c0 tr sv \<Longrightarrow> reaped_all sv = Some sv' \<Longrightarrow>
    serving others S P identity max_bytes c0 tr sv'"
| accepted: "serving others S P identity max_bytes c0 tr sv \<Longrightarrow> accept_connection (Inr t) sv = Some sv' \<Longrightarrow>
    serving others S P identity max_bytes c0 (tr @ [ConnectionAccepted (sr_next sv) t]) sv'"
| refused: "serving others S P identity max_bytes c0 tr sv \<Longrightarrow> accept_connection (Inl e) sv = Some sv' \<Longrightarrow>
    serving others S P identity max_bytes c0 (tr @ [AcceptFailed e]) sv'"
| round: "serving others S P identity max_bytes c0 tr sv \<Longrightarrow>
    run_task S P identity max_bytes i sv = Some (True, sv') \<Longrightarrow>
    serving others S P identity max_bytes c0 (tr @ [RoundServed i]) sv'"
| ended: "serving others S P identity max_bytes c0 tr sv \<Longrightarrow>
    run_task S P identity max_bytes i sv = Some (False, sv') \<Longrightarrow> map_of (sr_tasks sv') i = Some (Ended r t) \<Longrightarrow>
    serving others S P identity max_bytes c0 (tr @ [ConnectionEnded i r t]) sv'"
| shutdown: "serving others S P identity max_bytes c0 tr sv \<Longrightarrow> shut_down sv = Some sv' \<Longrightarrow>
    serving others S P identity max_bytes c0 (tr @ [ShutDown]) sv'"
| cancel: "serving others S P identity max_bytes c0 tr sv \<Longrightarrow> others (sr_coordinator sv) c \<Longrightarrow>
    cancel_task i c sv = Some sv' \<Longrightarrow>
    serving others S P identity max_bytes c0 (tr @ [ConnectionCancelled i]) sv'"
| join: "serving others S P identity max_bytes c0 tr sv \<Longrightarrow> join_task i sv = Some sv' \<Longrightarrow>
    serving others S P identity max_bytes c0 tr sv'"
| joined: "serving others S P identity max_bytes c0 tr sv \<Longrightarrow> joined_all sv = Some sv' \<Longrightarrow>
    serving others S P identity max_bytes c0 tr sv'"

section \<open>The story of a connection\<close>

text \<open>
  A conversation so far: the frames read from the start of the peer's bytes have been answered in
  order, one complete response after the other.
\<close>

definition conversed where
  "conversed others P identity max_bytes pending sent c0 t0 c t \<longleftrightarrow>
     (\<exists>xs. pending t0 = concat (map (frame_bytes \<circ> fst) xs) @ pending t \<and> (\<forall>x \<in> set xs. length (fst x) \<le> max_bytes)
        \<and> exchanges others P identity xs c0 c \<and> sent t = sent t0 @ concat (map frame_bytes (responses xs)))"

definition conversation_over where
  "conversation_over others P identity max_bytes pending sent c0 t0 r t \<longleftrightarrow>
     (\<exists>xs d rest written c'. pending t0 = concat (map (frame_bytes \<circ> fst) xs) @ rest
        \<and> (\<forall>x \<in> set xs. length (fst x) \<le> max_bytes) \<and> exchanges others P identity xs c0 d
        \<and> sent t = sent t0 @ concat (map frame_bytes (responses xs)) @ written
        \<and> (case r of
             Inr _ \<Rightarrow> length rest < 4 \<and> written = [] \<and> others d c'
           | Inl e \<Rightarrow> ends_with_error others P identity max_bytes rest d e written c'))"

lemma exchanges_after:
  assumes "transp others"
  shows "exchanges others P identity xs c d \<Longrightarrow> others d d' \<Longrightarrow> exchanges others P identity xs c d'"
proof (induction xs arbitrary: c)
  case (Cons x xs)
  then show ?case by (cases x) auto
qed (use assms in \<open>auto dest: transpD\<close>)

lemma exchanges_snoc:
  assumes "transp others"
    and step: "others d d1" "handle_request P identity frame d1 = (Inr response, d2)" "others d2 d'"
  shows "exchanges others P identity xs c d \<Longrightarrow> exchanges others P identity (xs @ [(frame, response)]) c d'"
proof (induction xs arbitrary: c)
  case Nil
  then have "others c d1" using assms(1) step(1) by (auto dest: transpD)
  with step show ?case by auto
next
  case (Cons x xs)
  then show ?case by (cases x) auto
qed

lemma conversed_start:
  assumes "others c0 c" shows "conversed others P identity max_bytes pending sent c0 t c t"
  unfolding conversed_def by (rule exI [of _ "[]"]) (simp add: assms)

lemma conversed_after:
  assumes "socket_laws S pending sent others" "conversed others P identity max_bytes pending sent c0 t0 c t" "others c d"
  shows "conversed others P identity max_bytes pending sent c0 t0 d t"
proof -
  have "transp others" using assms(1) by (simp add: socket_laws_def)
  from exchanges_after [where others = others, OF this _ assms(3)] assms(2) show ?thesis
    unfolding conversed_def by blast
qed

lemma conversed_round:
  assumes laws: "socket_laws S pending sent others"
    and so_far: "conversed others P identity max_bytes pending sent c0 t0 c t"
    and run: "serve_frame S P identity max_bytes (t, c) = (r, t', c')"
  shows "r = Inr True \<Longrightarrow> conversed others P identity max_bytes pending sent c0 t0 c' t'"
    and "r = Inr False \<Longrightarrow> conversation_over others P identity max_bytes pending sent c0 t0 (Inr ()) t'"
    and "r = Inl e \<Longrightarrow> conversation_over others P identity max_bytes pending sent c0 t0 (Inl e) t'"
proof -
  note round = serve_frame_round [OF laws run, unfolded round_done_def]
  have trans: "transp others" using laws by (simp add: socket_laws_def)
  from so_far obtain xs where xs: "pending t0 = concat (map (frame_bytes \<circ> fst) xs) @ pending t"
    "\<forall>x \<in> set xs. length (fst x) \<le> max_bytes" "exchanges others P identity xs c0 c"
    "sent t = sent t0 @ concat (map frame_bytes (responses xs))" unfolding conversed_def by blast
  show "conversed others P identity max_bytes pending sent c0 t0 c' t'" if "r = Inr True"
  proof -
    from round that obtain frame response d d' where
      f: "pending t = frame_bytes frame @ pending t'" "length frame \<le> max_bytes" "others c d"
        "handle_request P identity frame d = (Inr response, d')" "others d' c'"
        "sent t' = sent t @ concat (map frame_bytes (responses [(frame, response)]))" by auto
    have "responses (xs @ [(frame, response)]) = responses xs @ responses [(frame, response)]"
      by (simp add: responses_def List.map_filter_def)
    then show ?thesis
      unfolding conversed_def
      by (intro exI [of _ "xs @ [(frame, response)]"]) (use xs f exchanges_snoc [OF trans f(3,4,5) xs(3)] in simp)
  qed
  show "conversation_over others P identity max_bytes pending sent c0 t0 (Inr ()) t'" if "r = Inr False"
    unfolding conversation_over_def
    by (rule exI [of _ xs], rule exI [of _ c], rule exI [of _ "pending t"], rule exI [of _ "[]"], rule exI [of _ c'])
      (use xs round that in simp)
  show "conversation_over others P identity max_bytes pending sent c0 t0 (Inl e) t'" if r: "r = Inl e"
  proof -
    from round r obtain written where "ends_with_error others P identity max_bytes (pending t) c e written c'"
      "sent t' = sent t @ written" by auto
    with xs show ?thesis
      unfolding conversation_over_def
      by - (rule exI [of _ xs], rule exI [of _ c], rule exI [of _ "pending t"], rule exI [of _ written], rule exI [of _ c'], simp)
  qed
qed

section \<open>All connections\<close>

fun task_story where
  "task_story talk tr (i, Running t) \<longleftrightarrow> (\<exists>t0. ConnectionAccepted i t0 \<in> set tr \<and> talk t0 t)"
| "task_story talk tr (i, Ended r t) \<longleftrightarrow> ConnectionEnded i r t \<in> set tr"
| "task_story talk tr (i, Cancelled) \<longleftrightarrow> ConnectionCancelled i \<in> set tr"

definition accounted :: "'t server_event list \<Rightarrow> (nat \<times> 't connection_task) list \<Rightarrow> nat \<Rightarrow> bool" where
  "accounted tr tasks i \<longleftrightarrow> i \<in> fst ` set tasks \<or> (\<exists>r t. ConnectionEnded i r t \<in> set tr) \<or> ConnectionCancelled i \<in> set tr
     \<or> (\<exists>e. AcceptFailed e \<in> set tr)"

definition phase_told :: "'t server_event list \<Rightarrow> serve_phase \<Rightarrow> bool" where
  "phase_told tr phase \<longleftrightarrow>
     (case phase of
        Joining \<Rightarrow> ShutDown \<in> set tr \<and> (\<forall>e. AcceptFailed e \<notin> set tr)
      | Returned (Inr _) \<Rightarrow> ShutDown \<in> set tr \<and> (\<forall>e. AcceptFailed e \<notin> set tr)
      | Returned (Inl e) \<Rightarrow> True
      | _ \<Rightarrow> \<forall>e. AcceptFailed e \<notin> set tr)"

definition server_ok where
  "server_ok others P identity max_bytes pending sent c0 tr sv \<longleftrightarrow>
     distinct (map fst (sr_tasks sv)) \<and> (\<forall>e \<in> set (sr_tasks sv). fst e < sr_next sv)
   \<and> others c0 (sr_coordinator sv)
   \<and> (\<forall>e \<in> set (sr_tasks sv).
        task_story (\<lambda>t0 t. conversed others P identity max_bytes pending sent c0 t0 (sr_coordinator sv) t) tr e)
   \<and> (\<forall>i r t. ConnectionEnded i r t \<in> set tr \<longrightarrow>
        (\<exists>t0. ConnectionAccepted i t0 \<in> set tr \<and> conversation_over others P identity max_bytes pending sent c0 t0 r t))
   \<and> (\<forall>us i vs. tr = us @ ConnectionCancelled i # vs \<longrightarrow> ShutDown \<in> set us)
   \<and> (\<forall>i t. ConnectionAccepted i t \<in> set tr \<longrightarrow> accounted tr (sr_tasks sv) i)
   \<and> phase_told tr (sr_phase sv) \<and> (\<forall>r. sr_phase sv = Returned r \<longrightarrow> sr_tasks sv = [])"

lemma task_story_mono:
  assumes "task_story talk tr e" "set tr \<subseteq> set tr'" "\<And>t0 t. talk t0 t \<Longrightarrow> talk' t0 t"
  shows "task_story talk' tr' e"
  using assms by (cases "(talk, tr, e)" rule: task_story.cases) auto

lemma server_okD:
  assumes "server_ok others P identity max_bytes pending sent c0 tr sv"
  shows "distinct (map fst (sr_tasks sv))" "e \<in> set (sr_tasks sv) \<Longrightarrow> fst e < sr_next sv"
    "others c0 (sr_coordinator sv)"
    "e \<in> set (sr_tasks sv) \<Longrightarrow>
       task_story (\<lambda>t0 t. conversed others P identity max_bytes pending sent c0 t0 (sr_coordinator sv) t) tr e"
    "ConnectionEnded i r t \<in> set tr \<Longrightarrow>
       \<exists>t0. ConnectionAccepted i t0 \<in> set tr \<and> conversation_over others P identity max_bytes pending sent c0 t0 r t"
    "tr = us @ ConnectionCancelled i # vs \<Longrightarrow> ShutDown \<in> set us"
    "ConnectionAccepted i t \<in> set tr \<Longrightarrow> accounted tr (sr_tasks sv) i"
    "phase_told tr (sr_phase sv)" "sr_phase sv = Returned x \<Longrightarrow> sr_tasks sv = []"
  using assms unfolding server_ok_def by blast+

text \<open>A step of the server and what it adds to the trace.\<close>

lemma server_ok_step:
  assumes laws: "socket_laws S pending sent others"
    and ok: "server_ok others P identity max_bytes pending sent c0 tr sv"
    and evs: "length evs \<le> 1"
    and tasks: "distinct (map fst (sr_tasks sv'))" "\<forall>e \<in> set (sr_tasks sv'). fst e < sr_next sv'"
    and coord: "others (sr_coordinator sv) (sr_coordinator sv')"
    and stories: "\<forall>e \<in> set (sr_tasks sv'). e \<in> set (sr_tasks sv)
        \<or> task_story (\<lambda>t0 t. conversed others P identity max_bytes pending sent c0 t0 (sr_coordinator sv') t) (tr @ evs) e"
    and ended: "\<forall>i r t. ConnectionEnded i r t \<in> set evs \<longrightarrow>
        (\<exists>t0. ConnectionAccepted i t0 \<in> set tr \<and> conversation_over others P identity max_bytes pending sent c0 t0 r t)"
    and cancelled: "\<forall>i. ConnectionCancelled i \<in> set evs \<longrightarrow> ShutDown \<in> set tr"
    and all: "\<forall>i. accounted tr (sr_tasks sv) i \<longrightarrow> accounted (tr @ evs) (sr_tasks sv') i"
      "\<forall>i t. ConnectionAccepted i t \<in> set evs \<longrightarrow> accounted (tr @ evs) (sr_tasks sv') i"
    and phase: "phase_told (tr @ evs) (sr_phase sv')" "\<forall>x. sr_phase sv' = Returned x \<longrightarrow> sr_tasks sv' = []"
  shows "server_ok others P identity max_bytes pending sent c0 (tr @ evs) sv'"
proof -
  note old = server_okD [OF ok]
  have c0: "others c0 (sr_coordinator sv')" by (rule socket_laws_others(2) [OF laws old(3) coord])
  have "task_story (\<lambda>t0 t. conversed others P identity max_bytes pending sent c0 t0 (sr_coordinator sv') t) (tr @ evs) e"
    if "e \<in> set (sr_tasks sv)" for e
    using old(4) [OF that] by (rule task_story_mono) (auto intro: conversed_after [OF laws _ coord])
  with stories have stories: "\<forall>e \<in> set (sr_tasks sv').
      task_story (\<lambda>t0 t. conversed others P identity max_bytes pending sent c0 t0 (sr_coordinator sv') t) (tr @ evs) e" by blast
  have ends: "\<exists>t0. ConnectionAccepted i t0 \<in> set (tr @ evs) \<and> conversation_over others P identity max_bytes pending sent c0 t0 r t"
    if "ConnectionEnded i r t \<in> set (tr @ evs)" for i r t
    using that old(5) [of i r t] ended unfolding set_append by blast
  have cut: "ShutDown \<in> set us" if eq: "tr @ evs = us @ ConnectionCancelled i # vs" for us i vs
  proof (cases evs)
    case Nil
    with eq old(6) show ?thesis by simp
  next
    case (Cons ev rest)
    with evs have ev: "evs = [ev]" by simp
    show ?thesis
    proof (cases vs rule: rev_cases)
      case Nil
      with eq ev have "tr = us" "ev = ConnectionCancelled i" by auto
      with cancelled ev show ?thesis by auto
    next
      case (snoc ws w)
      with eq ev have "tr = us @ ConnectionCancelled i # ws" by auto
      then show ?thesis by (rule old(6))
    qed
  qed
  have "accounted (tr @ evs) (sr_tasks sv') i" if "ConnectionAccepted i t \<in> set (tr @ evs)" for i t
    using that all old(7) [of i t] by auto
  with c0 stories ends cut tasks phase show ?thesis unfolding server_ok_def by blast
qed

lemma drop_task_simps [simp]:
  "sr_phase (drop_task i sv) = sr_phase sv" "sr_next (drop_task i sv) = sr_next sv"
  "sr_coordinator (drop_task i sv) = sr_coordinator sv"
  "sr_tasks (drop_task i sv) = filter (\<lambda>e. fst e \<noteq> i) (sr_tasks sv)"
  by (simp_all add: drop_task_def)

lemma set_task_simps [simp]:
  "sr_phase (set_task i x sv) = sr_phase sv" "sr_next (set_task i x sv) = sr_next sv"
  "sr_coordinator (set_task i x sv) = sr_coordinator sv"
  "map fst (sr_tasks (set_task i x sv)) = map fst (sr_tasks sv)"
  by (auto simp: set_task_def)

lemma set_task_indices [simp]: "fst ` set (sr_tasks (set_task i x sv)) = fst ` set (sr_tasks sv)"
  using arg_cong [OF set_task_simps(4), of set i x sv] by (simp only: set_map)

lemma set_task_member:
  "e \<in> set (sr_tasks (set_task i x sv)) \<Longrightarrow> e \<in> set (sr_tasks sv) \<or> e = (i, x)"
  by (auto simp: set_task_def split: if_splits)

lemma set_task_ids:
  "(\<forall>e \<in> set (sr_tasks sv). fst e < n) \<Longrightarrow> (\<forall>e \<in> set (sr_tasks (set_task i x sv)). fst e < n)"
  by (metis image_iff set_task_indices)

text \<open>Dropping a task whose end the trace tells.\<close>

lemma server_ok_drop:
  assumes laws: "socket_laws S pending sent others"
    and ok: "server_ok others P identity max_bytes pending sent c0 tr sv"
    and told: "(\<exists>r t. ConnectionEnded i r t \<in> set tr) \<or> ConnectionCancelled i \<in> set tr"
  shows "server_ok others P identity max_bytes pending sent c0 tr (drop_task i sv)"
proof -
  note old = server_okD [OF ok]
  have "accounted tr (filter (\<lambda>e. fst e \<noteq> i) (sr_tasks sv)) k" if "accounted tr (sr_tasks sv) k" for k
    using that told by (cases "k = i") (auto simp: accounted_def image_iff)
  with server_ok_step [OF laws ok, of "[]" "drop_task i sv"] old(1,2,8,9) show ?thesis
    by (simp add: distinct_map_filter socket_laws_others(1) [OF laws])
qed

lemma server_ok_round:
  assumes laws: "socket_laws S pending sent others"
    and rounds: "\<And>t c r t' c'. serve_frame S P identity max_bytes (t, c) = (r, t', c') \<Longrightarrow> others c c'"
    and ok: "server_ok others P identity max_bytes pending sent c0 tr sv"
    and run: "run_task S P identity max_bytes i sv = Some (again, sv')"
  shows "again \<Longrightarrow> server_ok others P identity max_bytes pending sent c0 (tr @ [RoundServed i]) sv'"
    and "\<not> again \<Longrightarrow> map_of (sr_tasks sv') i = Some (Ended r t) \<Longrightarrow>
      server_ok others P identity max_bytes pending sent c0 (tr @ [ConnectionEnded i r t]) sv'"
proof -
  note old = server_okD [OF ok]
  from run obtain u x u' c' where task: "map_of (sr_tasks sv) i = Some (Running u)"
    and frame: "serve_frame S P identity max_bytes (u, sr_coordinator sv) = (x, u', c')"
    and round: "(again, sv') = (case x of
        Inr True \<Rightarrow> (True, set_task i (Running u') (sv\<lparr>sr_coordinator := c'\<rparr>))
      | Inr False \<Rightarrow> (False, set_task i (Ended (Inr ()) u') (sv\<lparr>sr_coordinator := c'\<rparr>))
      | Inl e \<Rightarrow> (False, set_task i (Ended (Inl e) u') (sv\<lparr>sr_coordinator := c'\<rparr>)))"
    by (auto simp: run_task_def Let_def split: option.splits connection_task.splits prod.splits)
  have i: "(i, Running u) \<in> set (sr_tasks sv)" using task by (rule map_of_SomeD)
  from old(4) [OF i] obtain t0 where t0: "ConnectionAccepted i t0 \<in> set tr"
    "conversed others P identity max_bytes pending sent c0 t0 (sr_coordinator sv) u" by auto
  note talk = conversed_round [OF laws t0(2) frame]
  have c': "others (sr_coordinator sv) c'" by (rule rounds [OF frame])
  have busy: "sr_phase sv \<noteq> Returned y" for y using old(9) i by auto
  have told: "phase_told (tr @ [e]) (sr_phase sv)" if "\<forall>m. e \<noteq> AcceptFailed m" for e
    using old(8) busy that by (cases "sr_phase sv") (auto simp: phase_told_def)
  have acc: "accounted tr (sr_tasks sv) k \<Longrightarrow> accounted (tr @ [e]) (sr_tasks (set_task i y (sv\<lparr>sr_coordinator := c'\<rparr>))) k" for k e y
    by (auto simp: accounted_def)
  show "server_ok others P identity max_bytes pending sent c0 (tr @ [RoundServed i]) sv'" if again
  proof -
    from that round have x: "x = Inr True" and sv': "sv' = set_task i (Running u') (sv\<lparr>sr_coordinator := c'\<rparr>)"
      by (auto split: sum.splits bool.splits)
    have "task_story (\<lambda>t0 t. conversed others P identity max_bytes pending sent c0 t0 c' t) (tr @ [RoundServed i]) (i, Running u')"
      using t0(1) talk(1) [OF x] by auto
    then show ?thesis
      unfolding sv' using old(1,2) c' told acc busy
      by (intro server_ok_step [OF laws ok]) (auto dest!: set_task_member intro!: set_task_ids)
  qed
  show "server_ok others P identity max_bytes pending sent c0 (tr @ [ConnectionEnded i r t]) sv'"
    if "\<not> again" "map_of (sr_tasks sv') i = Some (Ended r t)"
  proof -
    from that(1) round obtain r' where sv': "sv' = set_task i (Ended r' u') (sv\<lparr>sr_coordinator := c'\<rparr>)"
      and r': "x = Inr False \<and> r' = Inr () \<or> (\<exists>e. x = Inl e \<and> r' = Inl e)"
      by (auto split: sum.splits bool.splits)
    have "(i, Ended r t) \<in> set (sr_tasks sv')" using that(2) by (rule map_of_SomeD)
    moreover have "(i, Ended r t) \<notin> set (sr_tasks sv)"
      using i old(1) by (auto dest: eq_key_imp_eq_value)
    ultimately have r: "r = r'" "t = u'" by (auto simp: sv' dest!: set_task_member)
    have over: "conversation_over others P identity max_bytes pending sent c0 t0 r t"
      using r' talk(2,3) unfolding r by auto
    show ?thesis
      unfolding sv' using old(1,2) c' told acc busy over t0(1) r
      by (intro server_ok_step [OF laws ok]) (auto dest!: set_task_member intro!: set_task_ids)
  qed
qed

lemma server_ok_accept:
  assumes laws: "socket_laws S pending sent others" and ok: "server_ok others P identity max_bytes pending sent c0 tr sv"
    and run: "accept_connection accepted sv = Some sv'"
  shows "accepted = Inr t \<Longrightarrow>
      server_ok others P identity max_bytes pending sent c0 (tr @ [ConnectionAccepted (sr_next sv) t]) sv'"
    and "accepted = Inl e \<Longrightarrow> server_ok others P identity max_bytes pending sent c0 (tr @ [AcceptFailed e]) sv'"
proof -
  note old = server_okD [OF ok]
  have phase: "sr_phase sv = Selecting" and sv': "sv' = (case accepted of
      Inl e \<Rightarrow> sv\<lparr>sr_phase := Returned (Inl e), sr_tasks := []\<rparr>
    | Inr t \<Rightarrow> sv\<lparr>sr_phase := Reaping, sr_tasks := sr_tasks sv @ [(sr_next sv, Running t)], sr_next := Suc (sr_next sv)\<rparr>)"
    using run by (auto simp: accept_connection_def split: if_splits)
  have none: "AcceptFailed e \<notin> set tr" for e using old(8) phase by (simp add: phase_told_def)
  note refl = socket_laws_others(1) [OF laws]
  show "server_ok others P identity max_bytes pending sent c0 (tr @ [ConnectionAccepted (sr_next sv) t]) sv'"
    if a: "accepted = Inr t"
  proof -
    have "task_story (\<lambda>t0 t. conversed others P identity max_bytes pending sent c0 t0 (sr_coordinator sv) t)
        (tr @ [ConnectionAccepted (sr_next sv) t]) (sr_next sv, Running t)"
      unfolding task_story.simps
      by (rule exI [of _ t]) (simp add: conversed_start [where others = others, OF old(3)])
    moreover have "sr_next sv \<notin> fst ` set (sr_tasks sv)" using old(2) by force
    ultimately show ?thesis
      unfolding sv' a using old(1,2) refl none
      by (intro server_ok_step [OF laws ok]) (auto simp: phase_told_def accounted_def intro: less_SucI)
  qed
  show "server_ok others P identity max_bytes pending sent c0 (tr @ [AcceptFailed e]) sv'" if a: "accepted = Inl e"
    unfolding sv' a using refl by (intro server_ok_step [OF laws ok]) (auto simp: phase_told_def accounted_def)
qed

lemma server_ok_phase:
  assumes laws: "socket_laws S pending sent others" and ok: "server_ok others P identity max_bytes pending sent c0 tr sv"
    and "evs \<in> {[], [ShutDown]}" "phase_told (tr @ evs) phase" "\<forall>x. phase = Returned x \<longrightarrow> sr_tasks sv = []"
  shows "server_ok others P identity max_bytes pending sent c0 (tr @ evs) (sv\<lparr>sr_phase := phase\<rparr>)"
  using assms(3-) server_okD(1,2) [OF ok] socket_laws_others(1) [OF laws]
  by (intro server_ok_step [OF laws ok]) (auto simp: accounted_def)

lemma server_ok_cancel:
  assumes laws: "socket_laws S pending sent others" and ok: "server_ok others P identity max_bytes pending sent c0 tr sv"
    and c: "others (sr_coordinator sv) c" and run: "cancel_task i c sv = Some sv'"
  shows "server_ok others P identity max_bytes pending sent c0 (tr @ [ConnectionCancelled i]) sv'"
proof -
  note old = server_okD [OF ok]
  have phase: "sr_phase sv = Joining" and sv': "sv' = set_task i Cancelled (sv\<lparr>sr_coordinator := c\<rparr>)"
    using run by (auto simp: cancel_task_def split: if_splits)
  show ?thesis
    unfolding sv' using old(1,2,8) c phase
    by (intro server_ok_step [OF laws ok]) (auto simp: phase_told_def accounted_def dest!: set_task_member intro!: set_task_ids)
qed

lemma serving_ok:
  assumes laws: "socket_laws S pending sent others"
    and rounds: "\<And>t c r t' c'. serve_frame S P identity max_bytes (t, c) = (r, t', c') \<Longrightarrow> others c c'"
    and run: "serving others S P identity max_bytes c0 tr sv"
  shows "server_ok others P identity max_bytes pending sent c0 tr sv"
  using run
proof induction
  case start
  show ?case by (simp add: server_ok_def server_start_def phase_told_def socket_laws_others(1) [OF laws])
next
  case (reap tr sv i sv')
  then obtain r t where "(i, Ended r t) \<in> set (sr_tasks sv)" "sv' = drop_task i sv"
    by (auto simp: reap_task_def split: if_splits)
  with server_okD(4) [OF reap.IH] server_ok_drop [OF laws reap.IH] show ?case by fastforce
next
  case (reaped tr sv sv')
  then have "sr_phase sv = Reaping" "sv' = sv\<lparr>sr_phase := Selecting\<rparr>"
    by (auto simp: reaped_all_def split: if_splits)
  with server_okD(8) [OF reaped.IH] server_ok_phase [OF laws reaped.IH, of "[]" Selecting] show ?case
    by (simp add: phase_told_def)
next
  case (accepted tr sv t sv')
  from server_ok_accept(1) [OF laws accepted.IH accepted.hyps(2) refl] show ?case .
next
  case (refused tr sv e sv')
  from server_ok_accept(2) [OF laws refused.IH refused.hyps(2) refl] show ?case .
next
  case (round tr sv i sv')
  from server_ok_round(1) [OF laws rounds round.IH round.hyps(2)] show ?case by simp
next
  case (ended tr sv i sv' r t)
  from server_ok_round(2) [OF laws rounds ended.IH ended.hyps(2) _ ended.hyps(3)] show ?case by simp
next
  case (shutdown tr sv sv')
  then have "sr_phase sv = Selecting" "sv' = sv\<lparr>sr_phase := Joining\<rparr>" by (auto simp: shut_down_def split: if_splits)
  with server_okD(8) [OF shutdown.IH] server_ok_phase [OF laws shutdown.IH, of "[ShutDown]" Joining] show ?case
    by (simp add: phase_told_def)
next
  case (cancel tr sv c i sv')
  from server_ok_cancel [OF laws cancel.IH cancel.hyps(2,3)] show ?case .
next
  case (join tr sv i sv')
  then obtain x where x: "(i, x) \<in> set (sr_tasks sv)" "task_ended x \<or> x = Cancelled" "sv' = drop_task i sv"
    by (auto simp: join_task_def split: if_splits)
  have "(\<exists>r t. ConnectionEnded i r t \<in> set tr) \<or> ConnectionCancelled i \<in> set tr"
    using server_okD(4) [OF join.IH x(1)] x(2) by (cases x) (auto simp: task_ended_def)
  from server_ok_drop [OF laws join.IH this] x(3) show ?case by simp
next
  case (joined tr sv sv')
  then have "sr_phase sv = Joining" "sr_tasks sv = []" "sv' = sv\<lparr>sr_phase := Returned (Inr ())\<rparr>"
    by (auto simp: joined_all_def split: if_splits)
  with server_okD(8) [OF joined.IH] server_ok_phase [OF laws joined.IH, of "[]" "Returned (Inr ())"] show ?case
    by (simp add: phase_told_def)
qed

text \<open>C12 (all_connections_served). However the tasks of the server are interleaved, every connection is served
  as if it were alone: while it is served, it has been answered frame by frame in the order of its
  frames, and when it ends, all its complete frames have been answered or the error says why not. No
  connection is cancelled before the shutdown, and when the server returns without an error, the
  shutdown was signalled and every connection it accepted has ended or was cancelled.\<close>

theorem all_connections_served:
  assumes laws: "socket_laws S pending sent others"
    and rounds: "\<And>t c r t' c'. serve_frame S P identity max_bytes (t, c) = (r, t', c') \<Longrightarrow> others c c'"
    and run: "serving others S P identity max_bytes c0 tr sv"
  shows "(\<forall>i t. (i, Running t) \<in> set (sr_tasks sv) \<longrightarrow> (\<exists>t0. ConnectionAccepted i t0 \<in> set tr
           \<and> conversed others P identity max_bytes pending sent c0 t0 (sr_coordinator sv) t))
    \<and> (\<forall>i r t. ConnectionEnded i r t \<in> set tr \<longrightarrow> (\<exists>t0. ConnectionAccepted i t0 \<in> set tr
           \<and> conversation_over others P identity max_bytes pending sent c0 t0 r t))
    \<and> (\<forall>us i vs. tr = us @ ConnectionCancelled i # vs \<longrightarrow> ShutDown \<in> set us)
    \<and> (sr_phase sv = Returned (Inr ()) \<longrightarrow> sr_tasks sv = [] \<and> ShutDown \<in> set tr
         \<and> (\<forall>i t. ConnectionAccepted i t \<in> set tr \<longrightarrow>
              (\<exists>r u. ConnectionEnded i r u \<in> set tr) \<or> ConnectionCancelled i \<in> set tr))"
proof -
  have ok: "server_ok others P identity max_bytes pending sent c0 tr sv"
    using serving_ok [OF laws rounds run] .
  note facts = server_okD [OF ok]
  have "\<exists>t0. ConnectionAccepted i t0 \<in> set tr \<and> conversed others P identity max_bytes pending sent c0 t0 (sr_coordinator sv) t"
    if "(i, Running t) \<in> set (sr_tasks sv)" for i t
    using facts(4) [OF that] by simp
  moreover have "sr_tasks sv = [] \<and> ShutDown \<in> set tr
      \<and> (\<forall>i t. ConnectionAccepted i t \<in> set tr \<longrightarrow>
           (\<exists>r u. ConnectionEnded i r u \<in> set tr) \<or> ConnectionCancelled i \<in> set tr)"
    if "sr_phase sv = Returned (Inr ())"
    using that facts(7,8,9) by (auto simp: phase_told_def accounted_def)
  ultimately show ?thesis using facts(5,6) by blast
qed

end
