(* ===== verification/Store_Probe.thy ===== *)
theory Store_Probe
  imports Memory_Store
begin

text \<open>
  \<open>verify_store_contract\<close> of \<open>src/storage.rs\<close>: the probe that a broker runs against its bucket before
  it serves. It shows by example that the bucket refuses a duplicate create and a stale update, the
  two refusals the manifests depend on. A store within the contract is never blamed, a store that
  ignores a condition never passes, and no object but the probe is touched.
\<close>

section \<open>The probe\<close>

datatype probe_error =
    CreateProbe store_error
  | DuplicateUnexpected store_error
  | DuplicateAccepted
  | ProbeRead store_error
  | UpdateProbe store_error
  | StaleUnexpected store_error
  | StaleAccepted
  | ProbeCleanup store_error

definition ascii_bytes :: "string \<Rightarrow> bytes" where
  "ascii_bytes s = map (\<lambda>c. of_nat (of_char c)) s"

definition duplicate_refused :: "store_error + update_version \<Rightarrow> probe_error + unit" where
  "duplicate_refused r =
     (case r of
        Inl AlreadyExists \<Rightarrow> Inr () | Inl Precondition \<Rightarrow> Inr ()
      | Inl e \<Rightarrow> Inl (DuplicateUnexpected e) | Inr _ \<Rightarrow> Inl DuplicateAccepted)"

definition stale_refused :: "store_error + update_version \<Rightarrow> probe_error + unit" where
  "stale_refused r =
     (case r of Inl Precondition \<Rightarrow> Inr () | Inl e \<Rightarrow> Inl (StaleUnexpected e) | Inr _ \<Rightarrow> Inl StaleAccepted)"

definition probe_steps :: "('s, 'm) world_scheme \<Rightarrow> string \<Rightarrow> ('s, probe_error, unit) io" where
  "probe_steps W path =
     io_bind (io_map_err CreateProbe (w_put W path (ascii_bytes ''created'') Create)) (\<lambda>stale.
     io_bind (io_try (w_put W path (ascii_bytes ''duplicate'') Create)) (\<lambda>r.
     io_bind (io_lift (duplicate_refused r)) (\<lambda>_.
     io_bind (io_map_err ProbeRead (w_get W path)) (\<lambda>current.
     io_bind (io_map_err UpdateProbe (w_put W path (ascii_bytes ''updated'') (Update (gr_version current)))) (\<lambda>_.
     io_bind (io_try (w_put W path (ascii_bytes ''stale'') (Update stale))) (\<lambda>r.
       io_lift (stale_refused r)))))))"

definition probe_path :: "('s, 'm) world_scheme \<Rightarrow> string \<Rightarrow> string \<Rightarrow> string" where
  "probe_path W cluster uuid = w_path_from W (cluster @ ''/_verify/'' @ uuid @ ''.probe'')"

definition verify_store_contract :: "('s, 'm) world_scheme \<Rightarrow> string \<Rightarrow> ('s, probe_error, unit) io" where
  "verify_store_contract W cluster =
     io_bind (io_call (w_new_uuid W)) (\<lambda>uuid.
       let path = probe_path W cluster uuid
       in io_bind (io_try (probe_steps W path)) (\<lambda>result.
          io_bind (io_try (w_delete W path)) (\<lambda>cleanup.
            io_lift (case result of Inl e \<Rightarrow> Inl e | Inr _ \<Rightarrow> map_err ProbeCleanup cleanup))))"

section \<open>One run\<close>

text \<open>The calls of the steps, as far as a run gets.\<close>

lemma duplicate_refused_iff [result_simps]:
  "duplicate_refused r = Inr u \<longleftrightarrow> r = Inl AlreadyExists \<or> r = Inl Precondition"
  "duplicate_refused r = Inl DuplicateAccepted \<longleftrightarrow> (\<exists>v. r = Inr v)"
  "duplicate_refused r \<noteq> Inl StaleAccepted"
  by (auto simp: duplicate_refused_def split: sum.splits store_error.splits)

lemma stale_refused_iff [result_simps]:
  "stale_refused r = Inr u \<longleftrightarrow> r = Inl Precondition"
  "stale_refused r = Inl StaleAccepted \<longleftrightarrow> (\<exists>v. r = Inr v)"
  "stale_refused r \<noteq> Inl DuplicateAccepted"
  by (auto simp: stale_refused_def split: sum.splits store_error.splits)

lemma verify_store_contract_run:
  assumes "verify_store_contract W cluster s = (r, t)" "w_new_uuid W s = (uuid, s1)"
  obtains result s2 cleanup where
    "probe_steps W (probe_path W cluster uuid) s1 = (result, s2)"
    "w_delete W (probe_path W cluster uuid) s2 = (cleanup, t)"
    "r = (case result of Inl e \<Rightarrow> Inl e | Inr _ \<Rightarrow> map_err ProbeCleanup cleanup)"
proof -
  obtain result s2 where p: "probe_steps W (probe_path W cluster uuid) s1 = (result, s2)" by force
  obtain cleanup t' where d: "w_delete W (probe_path W cluster uuid) s2 = (cleanup, t')" by force
  from assms p d that show ?thesis
    by (auto simp: verify_store_contract_def io_bind_def io_call_def io_try_def io_lift_def Let_def)
qed

lemma verify_store_contract_Inr:
  assumes "verify_store_contract W cluster s = (Inr (), t)"
  obtains uuid s1 s2 where "w_new_uuid W s = (uuid, s1)" "probe_steps W (probe_path W cluster uuid) s1 = (Inr (), s2)"
    "w_delete W (probe_path W cluster uuid) s2 = (Inr (), t)"
proof -
  obtain uuid s1 where u: "w_new_uuid W s = (uuid, s1)" by force
  show thesis
  proof (rule verify_store_contract_run [OF assms u])
    fix result s2 cleanup
    assume run: "probe_steps W (probe_path W cluster uuid) s1 = (result, s2)" "w_delete W (probe_path W cluster uuid) s2 = (cleanup, t)"
      and r: "Inr () = (case result of Inl e \<Rightarrow> Inl e | Inr _ \<Rightarrow> map_err ProbeCleanup cleanup)"
    from r [symmetric] have "result = Inr ()" "cleanup = Inr ()" by (auto simp: map_err_def split: sum.splits)
    with run u show thesis by (intro that) simp_all
  qed
qed

lemma probe_steps_Inr:
  assumes "probe_steps W path s = (Inr (), t)"
  obtains v0 s1 r s2 g s3 v1 s4 where
    "w_put W path (ascii_bytes ''created'') Create s = (Inr v0, s1)"
    "w_put W path (ascii_bytes ''duplicate'') Create s1 = (r, s2)" "r = Inl AlreadyExists \<or> r = Inl Precondition"
    "w_get W path s2 = (Inr g, s3)"
    "w_put W path (ascii_bytes ''updated'') (Update (gr_version g)) s3 = (Inr v1, s4)"
    "w_put W path (ascii_bytes ''stale'') (Update v0) s4 = (Inl Precondition, t)"
  using assms that by (auto simp: probe_steps_def result_simps)

section \<open>A store that ignores a condition never passes\<close>

text \<open>
  A store whose conditional create replaces an existing object or whose conditional update
  ignores the version: the outcome of the call does not depend on what it was conditional on.
\<close>

definition ignores_create :: "('s, 'm) world_scheme \<Rightarrow> bool" where
  "ignores_create W \<longleftrightarrow> (\<forall>p b s. fst (w_put W p b Create s) \<notin> {Inl AlreadyExists, Inl Precondition})"

definition ignores_version :: "('s, 'm) world_scheme \<Rightarrow> bool" where
  "ignores_version W \<longleftrightarrow> (\<forall>p b v s. fst (w_put W p b (Update v) s) \<noteq> Inl Precondition)"

text \<open>Connectivity is not enough: against a store that never refuses a conditional create,
  or never refuses a conditional update for its version, the verification fails.\<close>

theorem weak_store_rejected:
  assumes "ignores_create W \<or> ignores_version W"
  shows "fst (verify_store_contract W cluster s) \<noteq> Inr ()"
proof
  assume "fst (verify_store_contract W cluster s) = Inr ()"
  then have "verify_store_contract W cluster s = (Inr (), snd (verify_store_contract W cluster s))" by (metis prod.collapse)
  from verify_store_contract_Inr [OF this] obtain uuid s1 s2 where
    steps: "probe_steps W (probe_path W cluster uuid) s1 = (Inr (), s2)" by blast
  let ?p = "probe_path W cluster uuid"
  show False
  proof (rule probe_steps_Inr [OF steps])
    fix v0 s1' r s2' s4
    assume "w_put W ?p (ascii_bytes ''duplicate'') Create s1' = (r, s2')" "r = Inl AlreadyExists \<or> r = Inl Precondition"
      "w_put W ?p (ascii_bytes ''stale'') (Update v0) s4 = (Inl Precondition, s2)"
    then have "fst (w_put W ?p (ascii_bytes ''duplicate'') Create s1') \<in> {Inl AlreadyExists, Inl Precondition}"
      "fst (w_put W ?p (ascii_bytes ''stale'') (Update v0) s4) = Inl Precondition" by auto
    with assms show False unfolding ignores_create_def ignores_version_def by blast
  qed
qed

section \<open>A store within the contract is not blamed\<close>

text \<open>Nobody else writes the objects in question.\<close>

definition undisturbed :: "(objects \<Rightarrow> objects \<Rightarrow> bool) \<Rightarrow> string \<Rightarrow> bool" where
  "undisturbed rely p \<longleftrightarrow> (\<forall>m m'. rely m m' \<longrightarrow> m' p = m p)"

lemma own_put:
  assumes "store_laws W view rely" "undisturbed rely p" "w_put W p b mode s = (r, t)"
  shows "(\<forall>v. r = Inr v \<longrightarrow> put_allowed mode (view s p) \<and> view t p = Some (v, b))
    \<and> (r = Inl AlreadyExists \<or> r = Inl Precondition \<longrightarrow> view t p = view s p)"
proof -
  from store_laws_put [OF assms(1,3)] obtain u where u: "rely (view s) (view u)" "put_outcome p b mode r (view u) (view t)" by blast
  from u(1) assms(2) have "view u p = view s p" by (simp add: undisturbed_def)
  with u(2) show ?thesis by (auto simp: put_outcome_def)
qed

lemma own_get:
  assumes "store_laws W view rely" "undisturbed rely p" "w_get W p s = (Inr g, t)"
  shows "\<exists>b. view s p = Some (gr_version g, b) \<and> view t p = Some (gr_version g, b)"
proof -
  from store_laws_get [OF assms(1,3)] have "rely (view s) (view t)" "get_outcome (view t p) (Inr g)" by simp_all
  moreover from this(1) assms(2) have "view t p = view s p" by (simp add: undisturbed_def)
  ultimately show ?thesis by (auto simp: get_outcome_def split: option.splits)
qed

lemma probe_steps_not_blamed:
  assumes laws: "store_laws W view rely" and own: "undisturbed rely path" and run: "probe_steps W path s = (r, t)"
  shows "r \<noteq> Inl DuplicateAccepted \<and> r \<noteq> Inl StaleAccepted"
proof -
  note put = own_put [OF laws own]
  have "ascii_bytes ''created'' \<noteq> ascii_bytes ''updated''" by (simp add: ascii_bytes_def)
  note versions = store_laws_version [OF laws]
  have "r \<noteq> Inl DuplicateAccepted"
  proof
    assume "r = Inl DuplicateAccepted"
    with run obtain v0 v s1 s2 where created: "w_put W path (ascii_bytes ''created'') Create s = (Inr v0, s1)"
      and duplicate: "w_put W path (ascii_bytes ''duplicate'') Create s1 = (Inr v, s2)"
      by (auto simp: probe_steps_def result_simps)
    from put [OF created] put [OF duplicate] show False by (simp add: put_allowed_def)
  qed
  moreover have "r \<noteq> Inl StaleAccepted"
  proof
    assume "r = Inl StaleAccepted"
    with run obtain v0 s1 r1 s2 g s3 v1 s4 v2 where
      1: "w_put W path (ascii_bytes ''created'') Create s = (Inr v0, s1)"
      "w_put W path (ascii_bytes ''duplicate'') Create s1 = (r1, s2)" "r1 = Inl AlreadyExists \<or> r1 = Inl Precondition" and
      2: "w_get W path s2 = (Inr g, s3)" and
      3: "w_put W path (ascii_bytes ''updated'') (Update (gr_version g)) s3 = (Inr v1, s4)" and
      4: "w_put W path (ascii_bytes ''stale'') (Update v0) s4 = (Inr v2, t)"
      by (auto simp: probe_steps_def result_simps)
    have "view s1 path = Some (v0, ascii_bytes ''created'')" using put [OF 1(1)] by simp
    moreover have "view s4 path = Some (v1, ascii_bytes ''updated'')" using put [OF 3] by simp
    moreover have "put_allowed (Update v0) (view s4 path)" using put [OF 4] by simp
    ultimately show False using versions [of s1 path v0 _ s4] \<open>ascii_bytes ''created'' \<noteq> _\<close> by (auto simp: put_allowed_def)
  qed
  ultimately show ?thesis by blast
qed

lemma probe_keeps_others:
  assumes "store_laws W view rely" "undisturbed rely p" "p \<noteq> path"
  shows "io_keeps (\<lambda>s t. view t p = view s p) (probe_steps W path)"
    "w_delete W path s = (r, t) \<Longrightarrow> view t p = view s p"
proof -
  have "view t p = view s p" if put: "w_put W path b mode s = (r, t)" for b mode s r t
  proof -
    from store_laws_put [OF assms(1) put] obtain u where "rely (view s) (view u)" "put_outcome path b mode r (view u) (view t)" by blast
    with assms(2,3) show ?thesis
      by (auto simp: undisturbed_def put_outcome_def split: sum.splits store_error.splits)
  qed
  then have put: "io_keeps (\<lambda>s t. view t p = view s p) (w_put W path b mode)" for b mode
    unfolding io_keeps_def by blast
  have get: "io_keeps (\<lambda>s t. view t p = view s p) (w_get W path)"
    using store_laws_get [OF assms(1)] assms(2) unfolding io_keeps_def by (fastforce simp: undisturbed_def)
  show "io_keeps (\<lambda>s t. view t p = view s p) (probe_steps W path)"
    unfolding probe_steps_def by (intro io_keeps_rules put get)
  show "w_delete W path s = (r, t) \<Longrightarrow> view t p = view s p"
  proof -
    assume "w_delete W path s = (r, t)"
    from store_laws_delete [OF assms(1) this] obtain u where "rely (view s) (view u)" "delete_outcome path r (view u) (view t)" by blast
    with assms(2,3) show ?thesis
      by (auto simp: undisturbed_def delete_outcome_def split: sum.splits store_error.splits)
  qed
qed

text \<open>C34 (lawful_store_not_blamed). Against a store within the contract, while nobody else writes the
  probe, the verification never reports an accepted duplicate or stale write; every other object
  that nobody else writes is as before, and after success the probe is gone.\<close>

theorem lawful_store_not_blamed:
  assumes laws: "store_laws W view rely" and uuid: "w_new_uuid W s = (uuid, s1)"
    and own: "undisturbed rely (probe_path W cluster uuid)"
    and run: "verify_store_contract W cluster s = (r, t)"
  shows "r \<noteq> Inl DuplicateAccepted \<and> r \<noteq> Inl StaleAccepted
    \<and> (\<forall>p. p \<noteq> probe_path W cluster uuid \<longrightarrow> undisturbed rely p \<longrightarrow> view t p = view s p)
    \<and> (r = Inr () \<longrightarrow> view t (probe_path W cluster uuid) = None)"
proof -
  let ?path = "probe_path W cluster uuid"
  from verify_store_contract_run [OF run uuid] obtain result s2 cleanup where
    steps: "probe_steps W ?path s1 = (result, s2)" and delete: "w_delete W ?path s2 = (cleanup, t)"
    and r: "r = (case result of Inl e \<Rightarrow> Inl e | Inr _ \<Rightarrow> map_err ProbeCleanup cleanup)" by blast
  have "r \<noteq> Inl DuplicateAccepted \<and> r \<noteq> Inl StaleAccepted"
    using probe_steps_not_blamed [OF laws own steps] r by (auto simp: map_err_def split: sum.splits)
  moreover have "view t p = view s p" if p: "p \<noteq> ?path" "undisturbed rely p" for p
  proof -
    have "view s1 p = view s p" using store_laws_calls(3) [OF laws uuid] p(2) by (simp add: undisturbed_def)
    moreover have "view s2 p = view s1 p"
      using io_keepsD [OF probe_keeps_others(1) [OF laws p(2,1)] steps] by (induction rule: rtranclp_induct) simp_all
    ultimately show ?thesis using probe_keeps_others(2) [OF laws p(2,1) delete] by simp
  qed
  moreover have "view t ?path = None" if "r = Inr ()"
  proof -
    from that r have "cleanup = Inr ()" by (auto simp: map_err_def split: sum.splits)
    with store_laws_delete [OF laws delete] own show ?thesis by (auto simp: delete_outcome_def undisturbed_def)
  qed
  ultimately show ?thesis by blast
qed

section \<open>On the bucket in memory\<close>

lemma verify_mem: "verify_store_contract (mem_env T C) cluster ([], 0) = (Inr (), ([], 1))"
  by (simp add: verify_store_contract_def probe_steps_def probe_path_def io_bind_def io_call_def io_try_def io_map_err_def io_lift_def Let_def
      mem_uuid_def mem_put_def mem_get_def mem_delete_def duplicate_refused_def stale_refused_def body_tag_def ascii_bytes_def map_err_def)

end
