(* ===== verification/Startup.thy ===== *)
theory Startup
  imports Server_Settings Store_Probe Maintenance_Laws
begin

text \<open>
  The three commands of the process (\<open>src/main.rs\<close>) up to the point where they serve, print or
  fail. The client builder and the listener are parameters: \<open>build\<close> returns the world and the
  codecs the commands work with, \<open>bind\<close> opens the listening socket. The broker's settings that can
  be judged without the network are all judged before it is used.
\<close>

section \<open>Serve\<close>

datatype startup_error =
    Preflight serve_error
  | BuildStore build_error
  | StoreContract probe_error
  | NewEngine log_error
  | NewGroups group_error
  | BindListener string
  | ServeRefused serve_error

record 's starting =
  st_url_scheme :: "string \<Rightarrow> string + string"
  st_build :: "store_options \<Rightarrow> string + 's log_env"
  st_bind :: "nat \<Rightarrow> ('s, string, unit) io"

text \<open>\<open>serve_command\<close> returns the engine, the prefix of the group store and the identity to serve with.\<close>

definition serve_command ::
  "('s, 'm) starting_scheme \<Rightarrow> serve_settings \<Rightarrow> ('s, startup_error, engine \<times> string \<times> broker_identity) io" where
  "serve_command B settings =
     io_bind (io_lift (map_err Preflight (preflight (st_url_scheme B) settings))) (\<lambda>identity.
     io_bind (io_lift (map_err BuildStore (build_s3_store (st_url_scheme B) (st_build B) (sv_s3 settings)))) (\<lambda>E.
       let cluster = cluster_prefix (sv_s3 settings)
       in io_bind (io_map_err StoreContract (verify_store_contract E cluster)) (\<lambda>_.
          io_bind (io_lift (map_err NewEngine (with_default_topic_partitions cluster (sv_default_topic_partitions settings)))) (\<lambda>engine.
          io_bind (io_lift (map_err NewGroups (group_store_new cluster))) (\<lambda>groups.
          io_bind (io_map_err BindListener (st_bind B (sv_listen_port settings))) (\<lambda>_.
          io_bind (io_lift (map_err ServeRefused (serve_checks identity (sv_max_frame_bytes settings)))) (\<lambda>_.
            io_ret (engine, groups, identity))))))))"

text \<open>C35 (startup_rejects_locally). A setting that can be judged locally stops the broker before its first request to
  the store. Once the store has passed its verification and the listener is bound nothing is left
  to refuse: the log engine and the group store accept the cluster prefix made of validated
  settings, and the server accepts the identity and the frame bound.\<close>

theorem startup_rejects_locally:
  "case serve_command B settings s of
     (Inl (Preflight e), t) \<Rightarrow> t = s
   | (Inl (BuildStore e), t) \<Rightarrow> t = s
   | (Inl (StoreContract e), t) \<Rightarrow> preflight (st_url_scheme B) settings = Inr (preflight_identity settings)
   | (Inl (BindListener e), t) \<Rightarrow> preflight (st_url_scheme B) settings = Inr (preflight_identity settings)
   | (Inl e, t) \<Rightarrow> False
   | (Inr (engine, groups, identity), t) \<Rightarrow>
       preflight (st_url_scheme B) settings = Inr identity \<and> safe_prefix groups \<and> groups = cluster_prefix (sv_s3 settings)
     \<and> engine = \<lparr>en_prefix = groups, en_default_topic_partitions = sv_default_topic_partitions settings\<rparr>
     \<and> (\<exists>E t'. st_build B (store_options_of (sv_s3 settings)) = Inr E \<and> verify_store_contract E groups s = (Inr (), t'))"
proof (cases "preflight (st_url_scheme B) settings")
  case (Inl e)
  then show ?thesis by (simp add: serve_command_def io_bind_def io_lift_def)
next
  case pre: (Inr identity)
  note ok = pre [unfolded preflight_Inr]
  let ?p = "cluster_prefix (sv_s3 settings)"
  have safe: "safe_prefix ?p" using ok by (blast intro: cluster_prefix_safe)
  have engine: "with_default_topic_partitions ?p (sv_default_topic_partitions settings) =
      Inr \<lparr>en_prefix = ?p, en_default_topic_partitions = sv_default_topic_partitions settings\<rparr>"
    using safe ok by (simp add: with_default_topic_partitions_def validate_prefix_def validate_partition_count_def)
  have groups: "group_store_new ?p = Inr ?p" using safe by (simp add: group_store_new_def validate_group_prefix_def)
  have checks: "serve_checks identity (sv_max_frame_bytes settings) = Inr ()"
  proof -
    from ok have "validate_identity identity = Inr ()" "valid_max_frame_bytes (sv_max_frame_bytes settings)" by blast+
    then show ?thesis by (simp add: serve_checks_def validate_max_frame_bytes_def)
  qed
  show ?thesis
  proof (cases "st_build B (store_options_of (sv_s3 settings))")
    case (Inl e)
    with pre ok show ?thesis by (simp add: serve_command_def io_bind_def io_lift_def build_s3_store_def)
  next
    case build: (Inr E)
    obtain r1 s1 where verify: "verify_store_contract E ?p s = (r1, s1)" by force
    obtain r2 s2 where bind: "st_bind B (sv_listen_port settings) s1 = (r2, s2)" by force
    have run: "serve_command B settings s =
       (case r1 of Inl e \<Rightarrow> (Inl (StoreContract e), s1)
        | Inr _ \<Rightarrow> (case r2 of Inl e \<Rightarrow> (Inl (BindListener e), s2)
            | Inr _ \<Rightarrow> (Inr (\<lparr>en_prefix = ?p, en_default_topic_partitions = sv_default_topic_partitions settings\<rparr>, ?p, identity), s2)))"
      using pre ok build verify bind engine groups checks
      by (simp add: serve_command_def io_bind_def io_lift_def io_map_err_def io_ret_def build_s3_store_def Let_def split: sum.splits)
    show ?thesis using pre ok safe build verify unfolding run by (auto split: sum.splits)
  qed
qed

section \<open>Maintain and verify-store\<close>

record maintain_settings =
  mt_s3 :: s3_settings
  mt_topic :: string
  mt_partition :: int
  mt_options :: maintenance_options
  mt_json :: bool

datatype maintain_error =
    MaintainOptions log_error
  | MaintainBuild build_error
  | MaintainEngine log_error
  | Incomplete maintenance_report log_error
  | MaintainFailed log_error
  | ReportJson string

text \<open>The report as text, one line per \<open>writeln!\<close>.\<close>

definition show_limit :: "nat option \<Rightarrow> string" where
  "show_limit limit = (case limit of None \<Rightarrow> ''none'' | Some n \<Rightarrow> show_nat n)"

definition line :: "string \<Rightarrow> string" where
  "line s = s @ [CHR 0x0A]"

definition show_report :: "maintenance_report \<Rightarrow> string" where
  "show_report r =
     (let mode = (if rep_publication_uncertain r then ''Publication uncertain; no deletion''
                  else if rep_applied r then ''Applied'' else ''Preview'')
      in line (mode @ '': topic '' @ rep_topic r @ '' partition '' @ show_int (rep_partition r))
       @ line (''Readable offsets: ['' @ show_int (rep_previous_start_offset r) @ '', '' @ show_int (rep_next_offset r)
           @ '') -> ['' @ show_int (rep_start_offset r) @ '', '' @ show_int (rep_next_offset r) @ '')'')
       @ line (''Limits: age '' @ show_limit (rep_max_age_ms r) @ '' ms; record bytes '' @ show_limit (rep_max_bytes r))
       @ line (''Retained: '' @ show_nat (rep_retained_batches r) @ '' batches, '' @ show_nat (rep_retained_record_bytes r) @ '' record bytes'')
       @ line (''Expired: '' @ show_nat (rep_expired_batches r) @ '' batches, '' @ show_nat (rep_expired_record_bytes r) @ '' record bytes'')
       @ line (''Collectible: '' @ show_nat (rep_removable_objects r) @ '' objects, '' @ show_nat (rep_removable_bytes r) @ '' visible bytes'')
       @ line (''Collected or already absent: '' @ show_nat (rep_collected_objects r) @ '' objects (''
           @ show_nat (rep_collected_bytes r) @ '' inventory bytes)'')
       @ (if rep_format_adoption r then line ''Format adoption: schema 4; stored age metadata is preserved'' else [])
       @ (if \<not> rep_applied r \<and> \<not> rep_publication_uncertain r
          then line ''No objects changed. Use --apply to run maintenance.'' else []))"

text \<open>An incomplete run prints its report and fails.\<close>

fun maintain_failure :: "log_error \<Rightarrow> maintain_error" where
  "maintain_failure (MaintenanceIncomplete report source) = Incomplete report source"
| "maintain_failure e = MaintainFailed e"

definition maintain_command ::
  "('s, 'm) starting_scheme \<Rightarrow> maintain_settings \<Rightarrow> ('s, maintain_error, maintenance_report) io" where
  "maintain_command B settings =
     io_bind (io_lift (map_err MaintainOptions (validate_maintenance (mt_options settings)))) (\<lambda>_.
     io_bind (io_lift (map_err MaintainBuild (build_s3_store (st_url_scheme B) (st_build B) (mt_s3 settings)))) (\<lambda>E.
     io_bind (io_lift (map_err MaintainEngine (engine_new (cluster_prefix (mt_s3 settings))))) (\<lambda>engine.
       io_map_err maintain_failure (maintain E engine (mt_topic settings) (mt_partition settings) (mt_options settings)))))"

text \<open>What the command prints and how it ends; \<open>pretty\<close> is the JSON printer.\<close>

definition print_maintenance :: "(maintenance_report \<Rightarrow> string + string) \<Rightarrow> maintenance_report \<Rightarrow> bool \<Rightarrow> maintain_error + string" where
  "print_maintenance pretty report json =
     (if json then map_err ReportJson (attempt (pretty report) (\<lambda>s. Inr (line s))) else Inr (show_report report))"

definition maintain_output ::
  "(maintenance_report \<Rightarrow> string + string) \<Rightarrow> bool \<Rightarrow> maintain_error + maintenance_report \<Rightarrow> string \<times> (maintain_error + unit)" where
  "maintain_output pretty json result =
     (case result of
        Inr report \<Rightarrow>
          (case print_maintenance pretty report json of Inl e \<Rightarrow> ([], Inl e) | Inr out \<Rightarrow> (out, Inr ()))
      | Inl (Incomplete report source) \<Rightarrow>
          (case print_maintenance pretty report json of Inl e \<Rightarrow> ([], Inl e) | Inr out \<Rightarrow> (out, Inl (Incomplete report source)))
      | Inl e \<Rightarrow> ([], Inl e))"

definition run_maintain ::
  "('s, 'm) starting_scheme \<Rightarrow> (maintenance_report \<Rightarrow> string + string) \<Rightarrow> maintain_settings
   \<Rightarrow> 's \<Rightarrow> (string \<times> (maintain_error + unit)) \<times> 's" where
  "run_maintain B pretty settings s =
     (case maintain_command B settings s of (result, t) \<Rightarrow> (maintain_output pretty (mt_json settings) result, t))"

text \<open>A report that was made is printed, also if the run is incomplete: the operator sees what was done.\<close>

lemma incomplete_run_reports:
  assumes "maintain_command B settings s = (Inl (Incomplete report source), t)" "\<not> mt_json settings"
  shows "run_maintain B pretty settings s = ((show_report report, Inl (Incomplete report source)), t)"
  using assms by (simp add: run_maintain_def maintain_output_def print_maintenance_def)

definition verify_store_command ::
  "('s, 'm) starting_scheme \<Rightarrow> s3_settings \<Rightarrow> ('s, build_error + probe_error, unit) io" where
  "verify_store_command B settings =
     io_bind (io_lift (map_err Inl (build_s3_store (st_url_scheme B) (st_build B) settings))) (\<lambda>E.
       io_map_err Inr (verify_store_contract E (cluster_prefix settings)))"

text \<open>
  The maintenance command does not verify the store, so that a preview writes nothing: whatever
  the reading calls keep, the whole command keeps.
\<close>

lemma preview_command_reads:
  fixes B :: "('s, 'm) starting_scheme"
  assumes "\<And>options E. st_build B options = Inr E \<Longrightarrow> reads_keep R E" "\<not> mo_apply (mt_options settings)"
  shows "io_keeps R (maintain_command B settings)"
proof -
  have "io_keeps R (maintain_command B settings)" if no: "\<nexists>E. build_s3_store (st_url_scheme B) (st_build B) (mt_s3 settings) = Inr E"
  proof -
    from no obtain e where "build_s3_store (st_url_scheme B) (st_build B) (mt_s3 settings) = Inl e" by (metis sum.exhaust_sel)
    then have "maintain_command B settings s = (r, t) \<Longrightarrow> t = s" for s r t
      by (auto simp: maintain_command_def io_bind_def io_lift_def split: sum.splits)
    then show ?thesis by (auto simp: io_keeps_def)
  qed
  moreover have "io_keeps R (maintain_command B settings)" if E: "build_s3_store (st_url_scheme B) (st_build B) (mt_s3 settings) = Inr E" for E
  proof -
    from E have "reads_keep R E" by (auto simp: build_s3_store_def result_simps intro: assms(1))
    moreover have "io_bind (io_lift (map_err MaintainBuild (Inr E))) k = k E" for k :: "_ \<Rightarrow> ('s, maintain_error, maintenance_report) io"
      by (simp add: io_bind_def io_lift_def fun_eq_iff)
    ultimately show ?thesis unfolding maintain_command_def E by (simp only:) (intro io_keeps_rules preview_keeps assms(2))
  qed
  ultimately show ?thesis by blast
qed

end
