(* ===== verification/Server_Witnesses.thy ===== *)
theory Server_Witnesses
  imports Protocol_Witnesses Accept_Loop Startup
begin

text \<open>
  The server's properties at concrete inputs: a connection over a socket in memory whose peer sends
  one LeaveGroup request, the verification of the bucket in memory, and a broker that starts on it.
\<close>

section \<open>A connection\<close>

definition mem_socket :: "(bytes \<times> bytes, mem) socket" where
  "mem_socket =
     \<lparr>so_read_exact = \<lambda>n ((input, output), c).
        if length input < n then (Inl UnexpectedEof, (([], output), c))
        else (Inr (take n input), ((drop n input, output), c)),
      so_write_all = \<lambda>bs ((input, output), c). (Inr (), ((input, output @ bs), c))\<rparr>"

lemma mem_socket_laws: "socket_laws mem_socket fst snd (=)"
  by (auto simp: socket_laws_def mem_socket_def reflp_def transp_def)

lemma sample_rounds:
  "serve_frame mem_socket leave_broker sample_identity 100 ((frame_bytes sample_leave, []), no_groups)
     = (Inr True, ([], frame_bytes [7, 0, 25]), no_groups)"
  "serve_frame mem_socket leave_broker sample_identity 100 (([], out), no_groups) = (Inr False, ([], out), no_groups)"
proof -
  have len: "length sample_leave = 17" by (simp add: sample_leave_def)
  have header: "be_i32 (be_bytes 17) = 17" using be_bytes_read [of 17] by (simp add: range_simps)
  show "serve_frame mem_socket leave_broker sample_identity 100 ((frame_bytes sample_leave, []), no_groups)
      = (Inr True, ([], frame_bytes [7, 0, 25]), no_groups)"
    by (simp add: serve_frame_def read_length_def frame_length_def write_response_def frame_bytes_def mem_socket_def len length_be_bytes header
        io_bind_def io_try_def io_ret_def io_lift_def io_map_err_def io_snd_def sample_leave_handled Let_def i32_max_def)
  show "serve_frame mem_socket leave_broker sample_identity 100 (([], out), no_groups) = (Inr False, ([], out), no_groups)"
    by (simp add: serve_frame_def read_length_def mem_socket_def io_bind_def io_try_def io_ret_def)
qed

lemma sample_connection:
  "serve_connection mem_socket leave_broker sample_identity 100 ((frame_bytes sample_leave, []), no_groups)
     = Some (Inr (), ([], frame_bytes [7, 0, 25]), no_groups)"
  by (simp add: serve_connection.simps sample_rounds)

theorem connection_in_order_witness:
  "serve_connection mem_socket leave_broker sample_identity 100 ((frame_bytes sample_leave, []), no_groups)
     = Some (Inr (), ([], frame_bytes [7, 0, 25]), no_groups)
   \<and> (\<exists>xs rest. frame_bytes sample_leave = concat (map (frame_bytes \<circ> fst) xs) @ rest
        \<and> exchanges (=) leave_broker sample_identity xs no_groups no_groups
        \<and> frame_bytes [7, 0, 25] = concat (map frame_bytes (responses xs)) \<and> length rest < 4)"
  using connection_in_order [OF mem_socket_laws, of leave_broker sample_identity 100 "(frame_bytes sample_leave, [])" no_groups]
  by (auto simp: sample_connection)

text \<open>A server that accepts one connection, serves it and is shut down.\<close>

lemma mem_socket_open: "socket_laws mem_socket fst snd (\<lambda>_ _. True)"
  by (auto simp: socket_laws_def mem_socket_def reflp_def transp_def)

abbreviation sample_trace :: "(bytes \<times> bytes) server_event list" where
  "sample_trace \<equiv> [ConnectionAccepted 0 (frame_bytes sample_leave, []), RoundServed 0,
     ConnectionEnded 0 (Inr ()) ([], frame_bytes [7, 0, 25]), ShutDown]"

lemma sample_server:
  "serving (\<lambda>_ _. True) mem_socket leave_broker sample_identity 100 no_groups sample_trace
     \<lparr>sr_phase = Returned (Inr ()), sr_tasks = [], sr_next = 1, sr_coordinator = no_groups\<rparr>"
proof -
  let ?run = "serving (\<lambda>_ _. True) mem_socket leave_broker sample_identity 100 no_groups"
  let ?start = "(frame_bytes sample_leave, [])" and ?over = "([], frame_bytes [7, 0, 25])"
  let ?sv = "\<lambda>ph ts n. \<lparr>sr_phase = ph, sr_tasks = ts, sr_next = n, sr_coordinator = no_groups\<rparr>"
  have "serve_checks sample_identity 100 = Inr ()"
    by (simp add: serve_checks_def sample_identity_valid validate_max_frame_bytes_def valid_max_frame_bytes_def
        MIN_FRAME_BYTES_def i32_max_def map_err_def)
  then have "?run [] (?sv Reaping [] 0)" using serving.start by (fastforce simp: server_start_def)
  then have "?run [] (?sv Selecting [] 0)" by (rule serving.reaped) (simp add: reaped_all_def)
  from serving.accepted [OF this, of ?start "?sv Reaping [(0, Running ?start)] 1"]
  have "?run [ConnectionAccepted 0 ?start] (?sv Reaping [(0, Running ?start)] 1)" by (simp add: accept_connection_def)
  from serving.round [OF this, of 0 "?sv Reaping [(0, Running ?over)] 1"]
  have "?run [ConnectionAccepted 0 ?start, RoundServed 0] (?sv Reaping [(0, Running ?over)] 1)"
    by (simp add: run_task_def sample_rounds set_task_def)
  from serving.ended [OF this, of 0 "?sv Reaping [(0, Ended (Inr ()) ?over)] 1" "Inr ()" ?over]
  have "?run [ConnectionAccepted 0 ?start, RoundServed 0, ConnectionEnded 0 (Inr ()) ?over]
      (?sv Reaping [(0, Ended (Inr ()) ?over)] 1)"
    by (simp add: run_task_def sample_rounds set_task_def)
  from serving.reap [OF this, of 0 "?sv Reaping [] 1"]
  have "?run [ConnectionAccepted 0 ?start, RoundServed 0, ConnectionEnded 0 (Inr ()) ?over] (?sv Reaping [] 1)"
    by (simp add: reap_task_def drop_task_def)
  then have "?run [ConnectionAccepted 0 ?start, RoundServed 0, ConnectionEnded 0 (Inr ()) ?over] (?sv Selecting [] 1)"
    by (rule serving.reaped) (simp add: reaped_all_def)
  from serving.shutdown [OF this, of "?sv Joining [] 1"]
  have "?run sample_trace (?sv Joining [] 1)" by (simp add: shut_down_def)
  then show ?thesis by (rule serving.joined) (simp add: joined_all_def)
qed

theorem all_connections_served_witness:
  "serving (\<lambda>_ _. True) mem_socket leave_broker sample_identity 100 no_groups sample_trace
     \<lparr>sr_phase = Returned (Inr ()), sr_tasks = [], sr_next = 1, sr_coordinator = no_groups\<rparr>
   \<and> (\<exists>t0. ConnectionAccepted 0 t0 \<in> set sample_trace
        \<and> conversation_over (\<lambda>_ _. True) leave_broker sample_identity 100 fst snd no_groups t0 (Inr ()) ([], frame_bytes [7, 0, 25]))"
  using all_connections_served [OF mem_socket_open TrueI sample_server] sample_server by simp

section \<open>A verification\<close>

theorem lawful_store_not_blamed_witness:
  "verify_store_contract (mem_env no_tables no_codecs) ''c'' ([], 0) = (Inr (), ([], 1)) \<and> mem_view ([], 1) ''c/_verify/u.probe'' = None"
proof -
  have "w_new_uuid (mem_env no_tables no_codecs) ([], 0) = (''u'', ([], 1))" by (simp add: mem_uuid_def)
  moreover have "probe_path (mem_env no_tables no_codecs) ''c'' ''u'' = ''c/_verify/u.probe''" by (simp add: probe_path_def)
  moreover have "undisturbed (=) p" for p by (simp add: undisturbed_def)
  ultimately show ?thesis using lawful_store_not_blamed [OF mem_store_laws _ _ verify_mem] verify_mem by metis
qed

text \<open>The same bucket with updates that overwrite whatever is there.\<close>

definition overwriting :: "(mem, 'm) world_scheme \<Rightarrow> (mem, 'm) world_scheme" where
  "overwriting W = W\<lparr>w_put := \<lambda>p b mode s. case mode of Create \<Rightarrow> mem_put p b Create s
     | Update v \<Rightarrow> (Inr (body_tag b), ((p, b) # fst s, snd s))\<rparr>"

theorem weak_store_rejected_witness:
  "fst (verify_store_contract (overwriting (mem_env no_tables no_codecs)) ''c'' ([], 0)) \<noteq> Inr ()"
  by (rule weak_store_rejected) (simp add: ignores_version_def overwriting_def)

section \<open>A start\<close>

definition sample_settings :: serve_settings where
  "sample_settings =
     \<lparr>sv_s3 = \<lparr>s3_bucket = ''b'', s3_region = ''r'', s3_endpoint = Some ''u'', s3_allow_http = False, s3_prefix = ''/w/'', s3_cluster_id = ''c''\<rparr>,
      sv_listen_port = 9092, sv_advertised_host = ''h'', sv_advertised_port = None, sv_max_frame_bytes = 100,
      sv_default_topic_partitions = 1\<rparr>"

definition sample_starting :: "mem starting" where
  "sample_starting =
     \<lparr>st_url_scheme = \<lambda>_. Inr ''https'', st_build = \<lambda>_. Inr (mem_env no_tables no_codecs), st_bind = \<lambda>_ s. (Inr (), s)\<rparr>"

theorem startup_rejects_locally_witness:
  "serve_command sample_starting sample_settings ([], 0) =
     (Inr (\<lparr>en_prefix = ''w/clusters/c'', en_default_topic_partitions = 1\<rparr>, ''w/clusters/c'', sample_identity), ([], 1))
   \<and> safe_prefix ''w/clusters/c''"
proof -
  have cluster: "cluster_prefix (sv_s3 sample_settings) = ''w/clusters/c''"
    by (simp add: cluster_prefix_def sample_settings_def trim_char_def)
  have identity: "preflight_identity sample_settings = sample_identity"
    by (simp add: preflight_identity_def sample_settings_def sample_identity_def)
  have settings: "validate_settings (st_url_scheme sample_starting) (sv_s3 sample_settings) = Inr ()"
    by (simp add: validate_settings_def sample_settings_def sample_starting_def validate_path_component_def valid_path_component_def
        validate_store_prefix_def validate_endpoint_def trim_char_def Let_def safe_char_def is_ascii_alphanumeric_def is_ascii_digit_def
        is_blank.simps blank_lengths_def map_err_def)
  then have pre: "preflight (st_url_scheme sample_starting) sample_settings = Inr sample_identity"
    by (simp add: preflight_Inr identity sample_identity_valid)
      (simp add: sample_settings_def valid_max_frame_bytes_def MIN_FRAME_BYTES_def i32_max_def DEFAULT_TOPIC_PARTITIONS_def MAX_TOPIC_PARTITIONS_def)
  have run: "serve_command sample_starting sample_settings ([], 0) =
     (Inr (\<lparr>en_prefix = ''w/clusters/c'', en_default_topic_partitions = 1\<rparr>, ''w/clusters/c'', sample_identity), ([], 1))"
  proof -
    have build: "build_s3_store (st_url_scheme sample_starting) (st_build sample_starting) (sv_s3 sample_settings) = Inr (mem_env no_tables no_codecs)"
      using settings by (simp add: build_s3_store_def) (simp add: sample_starting_def)
    have safe: "safe_prefix ''w/clusters/c''" using cluster_prefix_safe [OF settings] by (simp add: cluster)
    have fields: "sv_max_frame_bytes sample_settings = 100" "sv_default_topic_partitions sample_settings = 1"
      "st_bind sample_starting p s = (Inr (), s)" for p s
      by (simp_all add: sample_settings_def sample_starting_def)
    show ?thesis
      by (simp add: serve_command_def pre build cluster verify_mem io_bind_def io_lift_def io_map_err_def io_ret_def Let_def fields
          with_default_topic_partitions_def validate_prefix_def validate_partition_count_def group_store_new_def validate_group_prefix_def safe
          DEFAULT_TOPIC_PARTITIONS_def MAX_TOPIC_PARTITIONS_def serve_checks_def sample_identity_valid validate_max_frame_bytes_def
          valid_max_frame_bytes_def MIN_FRAME_BYTES_def i32_max_def)
  qed
  with startup_rejects_locally [where B = sample_starting and settings = sample_settings and s = "([], 0)"] show ?thesis unfolding run by auto
qed

end
