(* ===== verification/Spec2Isabelle.thy ===== *)
theory Spec2Isabelle
  imports Log_Witnesses Maintenance_Witnesses Group_Witnesses Coordinator_Witnesses Server_Witnesses
begin

text \<open>
  A model of Walstream, a Kafka-compatible broker whose only durable state is an object store, with
  the theorems that make it correct. The theories follow the source files; operations keep the
  source's names, with a suffix or prefix where HOL has the name already.

  \<^bold>\<open>The program.\<close> A connection (\<open>src/server.rs\<close>) hands frames to \<open>handle_request\<close>
  (\<open>src/protocol.rs\<close>), which validates their layout (\<open>src/wire.rs\<close>) and calls the log engine
  (\<open>src/log.rs\<close> with \<open>log/index.rs\<close>, \<open>log/producer.rs\<close>, \<open>codec.rs\<close>) or the group coordinator
  (\<open>src/coordinator.rs\<close>), which stores offsets through the group store (\<open>src/group.rs\<close>).
  Maintenance (\<open>log/maintenance.rs\<close>) and the start of the process (\<open>config.rs\<close>, \<open>storage.rs\<close>,
  \<open>main.rs\<close>) work on the same bucket.

  \<^bold>\<open>State and effects.\<close> A computation is a function from a state to a result and a state
  (\<open>io\<close> in \<open>Walstream_Prelude\<close>); errors are the left of a sum type, as \<open>Result\<close> has them, and
  \<open>attempt\<close> and \<open>io_bind\<close> are the question mark. The bucket, clock, UUIDs and hashes are the
  record \<open>world\<close> of \<open>Object_Store\<close>, which other clients may change between any two calls:
  \<open>store_laws\<close> states the documented contract of the bucket relative to a relation \<open>rely\<close> on its
  contents. JSON and record codecs are further fields (\<open>log_env\<close>, \<open>group_env\<close>), the protocol
  crate's codecs, codes and defaults those of \<open>protocol_env\<close>; what is assumed of them are the laws
  named in each theorem (\<open>log_legal\<close>, \<open>append_names\<close>, \<open>fence_legal\<close>, \<open>parse_laws\<close>, \<open>group_legal\<close>,
  \<open>uuid_laws\<close>, \<open>takes_part\<close>, \<open>error_codes_nonzero\<close>, \<open>decodes_by_key\<close>, \<open>socket_laws\<close>). \<open>Memory_Store\<close> is a lawful instance,
  at which the witness theories run the operations. Signed integers are \<open>int\<close> with their checked or
  wrapping operations written out, unsigned ones \<open>nat\<close> with the bound of \<open>u64\<close>; bytes are
  8-bit words and varints are read on 32- and 64-bit words. A panic of the source is a constructor
  of its own, proved unreachable.

  \<^bold>\<open>Foundations.\<close> \<open>Walstream_Prelude\<close>: integers, results, computations, the rules
  \<open>io_keeps\<close> for what a computation may do on every path, and the locale \<open>retry_body\<close> for the
  bounded compare-and-swap loops. \<open>BTree_Map\<close>: the ordered map as a sorted list, with the locale
  \<open>ordered_map\<close>. \<open>Page_Store\<close>: the locale \<open>page_store\<close> of immutable page trees, interpreted for
  the offset index and the producer directory. \<open>Host_Names\<close>: the standard library's parsers of
  addresses and its blank strings.

  \<^bold>\<open>Log.\<close> \<open>Log_Types\<close>, \<open>Index_Types\<close>, \<open>Producer_State\<close> hold the data and pure checks;
  \<open>Records_Codec\<close> the validation of record batches (varint round trip, acceptance of well-formed
  sets); \<open>Log_Env\<close>, \<open>Log_Engine\<close>, \<open>Log_Index\<close>, \<open>Producer_Directory\<close>, \<open>Log_Append\<close> the
  operations. \<open>Log_Index_Laws\<close>: inserting at the right edge appends, the rebuild is exact, the
  bounded traversal selects what a scan would. \<open>Producer_Directory_Laws\<close>: lookup and
  copy-on-write update. \<open>Producer_Ids\<close>: overlapping allocations on one history of the bucket return
  different IDs. \<open>Log_Guarantees\<close>: what every operation leaves alone. \<open>Log_Steps\<close>: the relation
  \<open>prepares\<close>, by which an append gets from one instant to a later one before its commit: steps of
  other clients, and new objects of its own. \<open>Log_Plan_Laws\<close>: the decision about the batches of a
  request as a pure function \<open>decides\<close> of the old end offset and the old producer states.
  \<open>Log_Append_Laws\<close>: an append is one update of the root it loaded, by exactly the batches that
  \<open>decides\<close> finds new; \<open>append_done\<close> ties every instant it speaks of to the run by \<open>prepares\<close>.
  \<open>Log_Fetch_Laws\<close>: a fetch returns committed bodies in order, and a committed batch stays
  readable. \<open>Log_Rely\<close> closes the circle: each PUT of an append extends the log at
  the moment the store applies it, so brokers that append satisfy what the theorems on reading and
  appending assume of other clients. \<open>Log_Fence\<close> treats clients that delete: if they delete nothing but
  garbage of the root while it stays, an append that succeeds (\<open>fenced_done\<close>) has replaced the root
  it loaded, lost nothing of its log and refers to no garbage. \<open>Log_Fence_Laws\<close> proves it by running
  the append a second time in a sheltered world where garbage is invisible.

  \<^bold>\<open>Maintenance.\<close> \<open>Maintenance\<close> has the inventory, the live graph, the plan of retention and
  the loop that publishes and collects; \<open>Maintenance_Laws\<close> shows that exactly the expired oldest
  prefix goes, that a preview only reads, and that the live log stays readable through the
  deletions, on every path: \<open>maintains\<close> lists the steps from the start of a run to its end, one
  update of the root (\<open>publishes\<close>) and deletions of unreachable objects (\<open>collects\<close>) among them. \<open>Maintenance_Fence\<close> shows that maintenance meets what \<open>Log_Fence\<close> asks:
  it deletes only after its update has replaced the root, and only objects that it listed before it
  loaded that root and that the new one does not reach.

  \<^bold>\<open>Groups.\<close> \<open>Group_Store\<close> and \<open>Group_Store_Laws\<close>: offsets of a group, committed in one
  update of one current map. \<open>Group_State\<close> has one group's membership and its transitions.
  \<open>Coordinator\<close> cuts each request into the critical sections in which it holds the group's lock
  (\<open>resume_task\<close>); the table of slots, the reference counts and all requests in progress are the
  state of \<open>coordinator_step\<close>, an inductive relation whose interleavings \<open>Coordinator_System\<close>
  covers by rule induction. \<open>Coordinator_Laws\<close> (triples \<open>safe\<close>) keeps the invariant and excludes
  panics; \<open>Coordinator_Guarantees\<close> has expiry, rebalancing, agreement, installation of assignments
  and fencing of commits. \<open>Coordinator_Service\<close> is the interface to the protocol layer: the locale
  \<open>group_service\<close> promises replies of the request's kind and a reachable state, and is interpreted
  on the modelled coordinator for any schedule that \<open>serves\<close>; \<open>Coordinator_Alone\<close> has one such
  schedule, for the witnesses.

  \<^bold>\<open>Protocol.\<close> \<open>Wire\<close> and \<open>Wire_Laws\<close>: the frame validator accepts exactly the frames of a
  declarative grammar. \<open>Protocol_Types\<close>, \<open>Protocol_Log\<close>, \<open>Protocol_Group\<close>, \<open>Protocol\<close>: all
  handlers and their dispatch. \<open>Protocol_Gate\<close>: nothing happens before a frame is admitted, nothing
  panics, the response belongs to the request. \<open>Protocol_Offsets\<close> and \<open>Protocol_Records\<close>: what
  the responses report, how the partitions of a fetch share its byte budget, and end to end that
  committed positions and produced records are what is fetched.

  \<^bold>\<open>Process.\<close> \<open>Connection\<close>: the loop of one connection answers its frames in order, while
  other connections change the coordinator. \<open>Accept_Loop\<close>: the server as an inductive step relation
  over its set of connection tasks, with every interleaving of their rounds, reaping, shutdown and
  joining; each connection is served as if it were alone. \<open>Store_Probe\<close>: the verification of the bucket rejects
  one that ignores a condition and does not blame a lawful one. \<open>Server_Settings\<close> and
  \<open>Startup\<close>: settings, preflight and the three commands with the report that is printed.

  \<^bold>\<open>Loops and bounds.\<close> Compare-and-swap loops run their source bound (128 attempts) and fail
  with the source's contention error. Page trees are walked along strictly decreasing levels, so
  the walks are total functions. The connection's loop has no bound and is a partial function;
  that it returns is part of \<open>connection_in_order\<close>. Properties of histories hold for all of them,
  without a bound.

  \<^bold>\<open>Not modelled.\<close> The runtime's sockets, timers and notifications: a waiting request may be
  resumed at any step, which includes every schedule of the source's wake-ups, and a connection's
  task advances by whole rounds, other tasks acting inside a round through the relation \<open>others\<close>.
  The S3 client and its builder, argument parsing, logging, the texts of errors that quote a
  topic's name or a storage error (the error itself is kept), the constructors of in-memory stores,
  and the probes under \<open>examples/\<close>, which measure a bucket from outside. Decoders and encoders of
  requests, responses and records belong to other crates and are parameters. Debug assertions are
  left out, and so are the two unwraps in the planning of an append, of a producer's state just
  inserted and of the last result of a request that its first check has found not to be empty.
\<close>

end
